(* ===== verification/Prelude.thy ===== *)
theory Prelude
  imports Main "HOL-Library.Word" "HOL-Library.Sublist" "HOL-Library.Multiset"
begin

text \<open>
  What every component of the development shares: the names of the machine types, the
  part of the C string library the code calls (over buffers that are lists of
  characters), the library's invariant-over-a-run contract, and the collections of
  definitions the component proofs unfold.

  A C buffer is the list of its bytes, so its length is the size it was declared with; a
  write that leaves the buffer is \<open>None\<close>, and a read of a buffer without a terminator
  is \<open>None\<close> too. The end of a list that stands for a string literal or for the file
  buffer is read as the terminator.
\<close>

unbundle bit_operations_syntax

named_theorems conf_defs "definitions of the configuration store"

type_synonym u8 = "8 word"
type_synonym u16 = "16 word"
type_synonym u32 = "32 word"

subsection \<open>C strings\<close>

abbreviation NUL :: char where
  "NUL \<equiv> CHR 0x00"

definition cstr :: "string \<Rightarrow> string" where
  "cstr s = takeWhile (\<lambda>c. c \<noteq> NUL) s"

definition strlen :: "string \<Rightarrow> nat option" where
  "strlen buf = (if NUL \<in> set buf then Some (length (cstr buf)) else None)"

definition strncpy_bytes :: "string \<Rightarrow> nat \<Rightarrow> string" where
  "strncpy_bytes src n = take n (cstr src @ replicate n NUL)"

definition strncpy :: "string \<Rightarrow> string \<Rightarrow> nat \<Rightarrow> string option" where
  "strncpy dst src n =
     (if n \<le> length dst then Some (strncpy_bytes src n @ drop n dst) else None)"

definition memset0 :: "string \<Rightarrow> nat \<Rightarrow> string" where
  "memset0 dst n = replicate n NUL @ drop n dst"

text \<open>
  \<open>strncmp(s, t, n) == 0\<close>: the characters are compared until \<open>n\<close> of them have
  been, until they differ, or until both strings end.
\<close>

fun strncmp0 :: "nat \<Rightarrow> string \<Rightarrow> string \<Rightarrow> bool" where
  "strncmp0 0 s t = True"
| "strncmp0 (Suc n) s t =
     (let a = (case s of [] \<Rightarrow> NUL | c # _ \<Rightarrow> c);
          b = (case t of [] \<Rightarrow> NUL | c # _ \<Rightarrow> c)
      in if a \<noteq> b then False else if a = NUL then True else strncmp0 n (tl s) (tl t))"

definition isspace :: "char \<Rightarrow> bool" where
  "isspace c \<longleftrightarrow> c = CHR 0x20 \<or> c \<in> {CHR 0x09, CHR 0x0A, CHR 0x0B, CHR 0x0C, CHR 0x0D}"

definition isprint :: "u8 \<Rightarrow> bool" where
  "isprint b \<longleftrightarrow> 0x20 \<le> b \<and> b \<le> 0x7E"

lemma cstr_no_NUL [simp]: "NUL \<notin> set (cstr s)"
  by (induction s) (auto simp: cstr_def)

lemma cstr_eq_self [simp]: "NUL \<notin> set s \<Longrightarrow> cstr s = s"
  by (induction s) (auto simp: cstr_def)

lemma length_cstr_le: "length (cstr s) \<le> length s"
  unfolding cstr_def by (rule length_takeWhile_le)

lemma cstr_append_NUL [simp]: "cstr (s @ NUL # t) = cstr s"
  by (induction s) (auto simp: cstr_def)

lemma cstr_Nil [simp]: "cstr [] = []"
  by (simp add: cstr_def)

lemma cstr_replicate_NUL [simp]: "cstr (replicate n NUL) = []"
  by (cases n) (simp_all add: cstr_def)

lemma cstr_append: "NUL \<notin> set s \<Longrightarrow> cstr (s @ t) = s @ cstr t"
  by (induction s) (auto simp: cstr_def)

lemma length_strncpy_bytes [simp]: "length (strncpy_bytes src n) = n"
  by (simp add: strncpy_bytes_def)

lemma strncpy_bytes_fits:
  "length (cstr src) \<le> n \<Longrightarrow>
     strncpy_bytes src n = cstr src @ replicate (n - length (cstr src)) NUL"
  by (simp add: strncpy_bytes_def)

lemma strncpy_bytes_truncates:
  "n \<le> length (cstr src) \<Longrightarrow> strncpy_bytes src n = take n (cstr src)"
  by (simp add: strncpy_bytes_def)

lemma strncpy_length: "strncpy dst src n = Some r \<Longrightarrow> length r = length dst"
  by (auto simp: strncpy_def split: if_splits)

lemma length_memset0: "n \<le> length dst \<Longrightarrow> length (memset0 dst n) = length dst"
  by (simp add: memset0_def)

lemma length_cstr_less: "NUL \<in> set b \<Longrightarrow> length (cstr b) < length b"
  by (induction b) (auto simp: cstr_def)

lemma strlen_bound: "strlen b = Some n \<Longrightarrow> n < length b"
  by (auto simp: strlen_def length_cstr_less split: if_splits)

lemma cstr_split: "NUL \<in> set b \<Longrightarrow> \<exists>pad. b = cstr b @ NUL # pad"
  by (induction b) (auto simp: cstr_def)

text \<open>Overwriting the start of a terminated string without writing a terminator.\<close>

lemma cstr_overwrite:
  assumes "NUL \<in> set b" and "NUL \<notin> set new" and "length new \<le> length (cstr b)"
  shows "cstr (new @ drop (length new) b) = new @ drop (length new) (cstr b)"
proof -
  obtain pad where pad: "b = cstr b @ NUL # pad" using cstr_split [OF assms(1)] by blast
  have "drop (length new) b = drop (length new) (cstr b) @ NUL # pad"
    using assms(3) by (subst pad) simp
  moreover have "NUL \<notin> set (drop (length new) (cstr b))"
    using cstr_no_NUL [of b] by (auto dest: in_set_dropD)
  ultimately show ?thesis using assms(2) by (simp add: cstr_append)
qed

text \<open>Comparing against a literal, up to the literal's length, is a prefix test.\<close>

lemma strncmp0_prefix:
  "NUL \<notin> set t \<Longrightarrow> strncmp0 (length t) s t \<longleftrightarrow> prefix t s"
proof (induction t arbitrary: s)
  case Nil
  then show ?case by simp
next
  case (Cons c t)
  then show ?case by (cases s) (auto simp: Let_def)
qed

lemma strncmp0_zero [simp]: "strncmp0 0 s t"
  by simp

subsection \<open>Conversion of \<open>int\<close> differences to \<open>size_t\<close>\<close>

definition size_of_int :: "int \<Rightarrow> nat" where
  "size_of_int i = unat (word_of_int i :: u32)"

lemma size_of_int_nonneg: "0 \<le> i \<Longrightarrow> i < 2 ^ 32 \<Longrightarrow> size_of_int i = nat i"
  by (simp add: size_of_int_def unsigned_of_int take_bit_int_eq_self)

lemma unat_u32_less: "unat (w :: u32) < 4294967296"
  using unsigned_less [of w] by simp

lemma unat_next: "w < (v :: u32) \<Longrightarrow> unat (w + 1) = unat w + 1"
  using unat_u32_less [of v] by (simp add: word_less_nat_alt unat_plus_if')

lemma word_ge_2: "x \<noteq> 0 \<Longrightarrow> x \<noteq> 1 \<Longrightarrow> 2 \<le> (x :: u32)"
proof -
  assume "x \<noteq> 0" "x \<noteq> 1"
  then have "unat x \<noteq> 0" "unat x \<noteq> 1" by (simp_all add: word_unat_eq_iff)
  then show ?thesis by (simp add: word_le_nat_alt)
qed

subsection \<open>Invariants of operations over runs\<close>

text \<open>
  The contract of a component whose operations, driven by events, keep an invariant: it
  then holds after every run. Each component with a state machine interprets it.
\<close>

locale invariant_machine =
  fixes step :: "'s \<Rightarrow> 'e \<Rightarrow> 's"
    and inv :: "'s \<Rightarrow> bool"
  assumes step_inv: "inv s \<Longrightarrow> inv (step s e)"
begin

lemma run_inv: "inv s \<Longrightarrow> inv (foldl step s es)"
  by (induction es arbitrary: s) (auto intro: step_inv)

lemma run_inv_prefix: "inv s \<Longrightarrow> prefix es' es \<Longrightarrow> inv (foldl step s es')"
  by (rule run_inv)

end

end
