(* ===== verification/Config.thy ===== *)
theory Config
  imports Prelude
begin

text \<open>
  The configuration store and its loader (\<open>csrc/src/config.c\<close>): the sixteen global
  buffers, their setters and getters, \<open>copyString\<close>, and \<open>miso_load_config\<close>,
  which reads \<open>SD:/CONFIG.TXT\<close>, lets jsmn cut it into tokens and scans them once.
  jsmn is a git submodule and the file system and heap are other components, so their
  results are parameters (\<open>jsmn\<close> and the record \<open>load_env\<close>).
\<close>

subsection \<open>The global buffers\<close>

datatype slot =
    Wifi_ssid | Wifi_key
  | Lwm2m_endpoint | Lwm2m_uri | Lwm2m_psk_id | Lwm2m_psk_key
  | Ntp_url | Sha256
  | Mqtt_uri | Mqtt_device_id | Mqtt_psk_id | Mqtt_psk_key
  | Http_uri | Http_sig_uri | Http_key
  | Config_uri

fun slot_size :: "slot \<Rightarrow> nat" where
  "slot_size Wifi_ssid = 32"
| "slot_size Wifi_key = 32"
| "slot_size Lwm2m_endpoint = 128"
| "slot_size Lwm2m_uri = 128"
| "slot_size Lwm2m_psk_id = 128"
| "slot_size Lwm2m_psk_key = 64"
| "slot_size Ntp_url = 64"
| "slot_size Sha256 = 32"
| "slot_size Mqtt_uri = 128"
| "slot_size Mqtt_device_id = 128"
| "slot_size Mqtt_psk_id = 128"
| "slot_size Mqtt_psk_key = 64"
| "slot_size Http_uri = 128"
| "slot_size Http_sig_uri = 128"
| "slot_size Http_key = 256"
| "slot_size Config_uri = 128"

instantiation slot :: enum
begin

definition enum_slot :: "slot list" where
  "enum_slot = [Wifi_ssid, Wifi_key, Lwm2m_endpoint, Lwm2m_uri, Lwm2m_psk_id, Lwm2m_psk_key,
     Ntp_url, Sha256, Mqtt_uri, Mqtt_device_id, Mqtt_psk_id, Mqtt_psk_key,
     Http_uri, Http_sig_uri, Http_key, Config_uri]"

definition enum_all_slot :: "(slot \<Rightarrow> bool) \<Rightarrow> bool" where
  "enum_all_slot P = list_all P Enum.enum"

definition enum_ex_slot :: "(slot \<Rightarrow> bool) \<Rightarrow> bool" where
  "enum_ex_slot P = list_ex P Enum.enum"

instance
proof
  show U: "(UNIV :: slot set) = set Enum.enum"
    unfolding enum_slot_def using slot.exhaust by auto
  show "distinct (Enum.enum :: slot list)"
    by (simp add: enum_slot_def)
  show "Enum.enum_all P \<longleftrightarrow> Ball UNIV P" for P :: "slot \<Rightarrow> bool"
    using U by (auto simp: enum_all_slot_def list_all_iff)
  show "Enum.enum_ex P \<longleftrightarrow> Bex UNIV P" for P :: "slot \<Rightarrow> bool"
    using U by (auto simp: enum_ex_slot_def list_ex_iff)
qed

end

type_synonym config = "slot \<Rightarrow> string"

definition config_init :: config where
  "config_init = (\<lambda>s. replicate (slot_size s) NUL)"

definition config_wf :: "config \<Rightarrow> bool" where
  "config_wf c \<longleftrightarrow> (\<forall>s. length (c s) = slot_size s)"

text \<open>
  The setters are one \<open>strncpy\<close> each, over the whole of their own buffer
  (\<open>config_set_sha256\<close> is a \<open>memcpy\<close> of 32 bytes); a getter returns its buffer.
\<close>

datatype fault = Null_deref | Out_of_bounds | Buffer_overflow

definition config_set :: "slot \<Rightarrow> string \<Rightarrow> config \<Rightarrow> config" where
  "config_set s v c = c(s := strncpy_bytes v (slot_size s))"

definition config_set_sha256 :: "string \<Rightarrow> config \<Rightarrow> fault + config" where
  "config_set_sha256 d c =
     (if length d < slot_size Sha256 then Inl Out_of_bounds
      else Inr (c(Sha256 := take (slot_size Sha256) d)))"

definition config_get :: "slot \<Rightarrow> config \<Rightarrow> string" where
  "config_get s c = c s"

definition copyString :: "string \<Rightarrow> nat \<Rightarrow> string \<Rightarrow> nat \<Rightarrow> string option" where
  "copyString dest dest_len src src_len =
     (let src_len = (if src_len > dest_len then dest_len else src_len)
      in if dest_len \<le> length dest then strncpy (memset0 dest dest_len) src src_len
         else None)"

subsection \<open>Tokens and the scan\<close>

datatype jsmntype = JSMN_UNDEFINED | JSMN_OBJECT | JSMN_ARRAY | JSMN_STRING | JSMN_PRIMITIVE

record jsmntok =
  tok_type :: jsmntype
  tok_start :: int
  tok_end :: int
  tok_parent :: int

text \<open>The local variables that remember the index of the last key of each section.\<close>

record keys =
  wifi_key :: int
  lwm2m_key :: int
  ntp_key :: int
  lwm2m_psk_key :: int
  lwm2m_cert_key :: int
  ntp_url_key :: int
  ntp_url_array :: int
  mqtt_key :: int
  mqtt_psk_key :: int
  mqtt_cert_key :: int
  http_key :: int
  config_key :: int

abbreviation INT8_MIN :: int where
  "INT8_MIN \<equiv> -128"

definition keys_init :: keys where
  "keys_init = \<lparr>wifi_key = INT8_MIN, lwm2m_key = INT8_MIN, ntp_key = INT8_MIN,
     lwm2m_psk_key = INT8_MIN, lwm2m_cert_key = INT8_MIN, ntp_url_key = INT8_MIN,
     ntp_url_array = INT8_MIN, mqtt_key = INT8_MIN, mqtt_psk_key = INT8_MIN,
     mqtt_cert_key = INT8_MIN, http_key = INT8_MIN, config_key = INT8_MIN\<rparr>"

text \<open>\<open>0 == strncmp(json_key, lit, strlen(lit))\<close> with \<open>json_key = read_buffer + start\<close>\<close>

definition key_is :: "string \<Rightarrow> jsmntok \<Rightarrow> string \<Rightarrow> bool" where
  "key_is buf t lit = strncmp0 (length lit) (drop (nat (tok_start t)) buf) lit"

definition top_level_key :: "string \<Rightarrow> jsmntok \<Rightarrow> nat \<Rightarrow> keys \<Rightarrow> keys" where
  "top_level_key buf t i ks =
     (if key_is buf t ''wifi'' then ks\<lparr>wifi_key := int i\<rparr>
      else if key_is buf t ''lwm2m'' then ks\<lparr>lwm2m_key := int i\<rparr>
      else if key_is buf t ''ntp'' then ks\<lparr>ntp_key := int i\<rparr>
      else if key_is buf t ''mqtt'' then ks\<lparr>mqtt_key := int i\<rparr>
      else if key_is buf t ''http'' then ks\<lparr>http_key := int i\<rparr>
      else if key_is buf t ''config'' then ks\<lparr>config_key := int i\<rparr>
      else ks)"

text \<open>
  A destination is the buffer and the length the branch passes for it: the \<open>ssid\<close>
  branch passes \<open>sizeof(config_wifi_key)\<close>.
\<close>

type_synonym dest = "(slot \<times> nat) option"

definition wifi_dest :: "string \<Rightarrow> jsmntok \<Rightarrow> dest" where
  "wifi_dest buf t =
     (if key_is buf t ''ssid'' then Some (Wifi_ssid, slot_size Wifi_key)
      else if key_is buf t ''key'' then Some (Wifi_key, slot_size Wifi_key)
      else None)"

definition lwm2m_dest :: "string \<Rightarrow> jsmntok \<Rightarrow> nat \<Rightarrow> keys \<Rightarrow> keys \<times> dest" where
  "lwm2m_dest buf t i ks =
     (if key_is buf t ''uri'' \<or> key_is buf t ''url''
        then (ks, Some (Lwm2m_uri, slot_size Lwm2m_uri))
      else if key_is buf t ''psk'' then (ks\<lparr>lwm2m_psk_key := int i\<rparr>, None)
      else if key_is buf t ''cert'' then (ks\<lparr>lwm2m_cert_key := int i\<rparr>, None)
      else if key_is buf t ''bootstrap'' then (ks, None)
      else if key_is buf t ''endpoint'' \<or> key_is buf t ''device''
        then (ks, Some (Lwm2m_endpoint, slot_size Lwm2m_endpoint))
      else (ks, None))"

definition mqtt_dest :: "string \<Rightarrow> jsmntok \<Rightarrow> nat \<Rightarrow> keys \<Rightarrow> keys \<times> dest" where
  "mqtt_dest buf t i ks =
     (if key_is buf t ''uri'' \<or> key_is buf t ''url''
        then (ks, Some (Mqtt_uri, slot_size Mqtt_uri))
      else if key_is buf t ''device'' then (ks, Some (Mqtt_device_id, slot_size Mqtt_device_id))
      else if key_is buf t ''username'' then (ks, None)
      else if key_is buf t ''password'' then (ks, None)
      else if key_is buf t ''psk'' then (ks\<lparr>mqtt_psk_key := int i\<rparr>, None)
      else if key_is buf t ''cert'' then (ks\<lparr>mqtt_cert_key := int i\<rparr>, None)
      else (ks, None))"

definition lwm2m_psk_dest :: "string \<Rightarrow> jsmntok \<Rightarrow> dest" where
  "lwm2m_psk_dest buf t =
     (if key_is buf t ''id'' then Some (Lwm2m_psk_id, slot_size Lwm2m_psk_id)
      else if key_is buf t ''key'' then Some (Lwm2m_psk_key, slot_size Lwm2m_psk_key)
      else None)"

definition mqtt_psk_dest :: "string \<Rightarrow> jsmntok \<Rightarrow> dest" where
  "mqtt_psk_dest buf t =
     (if key_is buf t ''id'' then Some (Mqtt_psk_id, slot_size Mqtt_psk_id)
      else if key_is buf t ''key'' then Some (Mqtt_psk_key, slot_size Mqtt_psk_key)
      else None)"

text \<open>In the http branch the second test is not an \<open>else\<close>: it may replace the first.\<close>

definition http_dest :: "string \<Rightarrow> jsmntok \<Rightarrow> dest" where
  "http_dest buf t =
     (let d = (if key_is buf t ''uri'' \<or> key_is buf t ''url''
                 then Some (Http_uri, slot_size Http_uri) else None)
      in if key_is buf t ''sig'' \<or> key_is buf t ''sig_uri''
           then Some (Http_sig_uri, slot_size Http_sig_uri)
         else if key_is buf t ''key'' then Some (Http_key, slot_size Http_key)
         else d)"

definition config_dest :: "string \<Rightarrow> jsmntok \<Rightarrow> dest" where
  "config_dest buf t =
     (if key_is buf t ''uri'' \<or> key_is buf t ''url''
        then Some (Config_uri, slot_size Config_uri) else None)"

definition tok_len :: "jsmntok \<Rightarrow> nat" where
  "tok_len t = size_of_int (tok_end t - tok_start t)"

text \<open>
  The tail of every branch: the type of token \<open>i + 1\<close> is read before \<open>dest_ptr\<close> is
  tested, so for the last token the read is past the end of the token array.
\<close>

definition store_value ::
    "string \<Rightarrow> jsmntok list \<Rightarrow> nat \<Rightarrow> dest \<Rightarrow> config \<Rightarrow> fault + config" where
  "store_value buf toks i d c =
     (if Suc i \<ge> length toks then Inl Out_of_bounds
      else let v = toks ! Suc i in
        if tok_type v = JSMN_STRING then
          (case d of
             None \<Rightarrow> Inr c
           | Some (s, dest_len) \<Rightarrow>
               (case copyString (c s) dest_len (drop (nat (tok_start v)) buf) (tok_len v) of
                  None \<Rightarrow> Inl Buffer_overflow
                | Some r \<Rightarrow> Inr (c(s := r))))
        else Inr c)"

text \<open>\<open>strncpy(&config_ntp_url[0], read_buffer + start, end - start)\<close>: not bounded.\<close>

definition push_ntp_url :: "string \<Rightarrow> jsmntok \<Rightarrow> config \<Rightarrow> fault + config" where
  "push_ntp_url buf t c =
     (case strncpy (c Ntp_url) (drop (nat (tok_start t)) buf) (tok_len t) of
        None \<Rightarrow> Inl Buffer_overflow
      | Some r \<Rightarrow> Inr (c(Ntp_url := r)))"

definition with_keys :: "keys \<Rightarrow> fault + config \<Rightarrow> fault + keys \<times> config" where
  "with_keys ks r = (case r of Inl f \<Rightarrow> Inl f | Inr c \<Rightarrow> Inr (ks, c))"

text \<open>The rest of the chain, from the ntp section on.\<close>

definition scan_tail ::
    "string \<Rightarrow> jsmntok list \<Rightarrow> nat \<Rightarrow> keys \<times> config \<Rightarrow> fault + keys \<times> config" where
  "scan_tail buf toks i st =
     (case st of (ks, c) \<Rightarrow>
      let t = toks ! i; p = tok_parent t; str = (tok_type t = JSMN_STRING) in
        if p = ntp_key ks + 1 \<and> str then
          Inr (if key_is buf t ''url'' then ks\<lparr>ntp_url_key := int i\<rparr> else ks, c)
        else if p = ntp_url_key ks \<and> tok_type t = JSMN_ARRAY then
          Inr (ks\<lparr>ntp_url_array := int i\<rparr>, c)
        else if p = ntp_url_array ks \<and> str then with_keys ks (push_ntp_url buf t c)
        else if p = mqtt_key ks + 1 \<and> str then
          (case mqtt_dest buf t i ks of (ks', d) \<Rightarrow> with_keys ks' (store_value buf toks i d c))
        else if p = lwm2m_psk_key ks + 1 \<and> str then
          with_keys ks (store_value buf toks i (lwm2m_psk_dest buf t) c)
        else if p = mqtt_psk_key ks + 1 \<and> str then
          with_keys ks (store_value buf toks i (mqtt_psk_dest buf t) c)
        else if p = http_key ks + 1 \<and> str then
          with_keys ks (store_value buf toks i (http_dest buf t) c)
        else if p = config_key ks + 1 \<and> str then
          with_keys ks (store_value buf toks i (config_dest buf t) c)
        else Inr (ks, c))"

text \<open>One iteration of the scan loop: the chain of branches in the order of the code.\<close>

definition scan_token ::
    "string \<Rightarrow> jsmntok list \<Rightarrow> nat \<Rightarrow> keys \<times> config \<Rightarrow> fault + keys \<times> config" where
  "scan_token buf toks i st =
     (case st of (ks, c) \<Rightarrow>
      if i \<ge> length toks then Inl Out_of_bounds
      else let t = toks ! i; p = tok_parent t; str = (tok_type t = JSMN_STRING) in
        if p = 0 \<and> str then Inr (top_level_key buf t i ks, c)
        else if p = wifi_key ks + 1 \<and> str then
          with_keys ks (store_value buf toks i (wifi_dest buf t) c)
        else if p = lwm2m_key ks + 1 \<and> str then
          (case lwm2m_dest buf t i ks of (ks', d) \<Rightarrow> with_keys ks' (store_value buf toks i d c))
        else scan_tail buf toks i (ks, c))"

fun scan_list ::
    "string \<Rightarrow> jsmntok list \<Rightarrow> nat list \<Rightarrow> keys \<times> config \<Rightarrow> fault + keys \<times> config" where
  "scan_list buf toks [] st = Inr st"
| "scan_list buf toks (i # is) st =
     (case scan_token buf toks i st of Inl f \<Rightarrow> Inl f | Inr st' \<Rightarrow> scan_list buf toks is st')"

definition scan_tokens ::
    "string \<Rightarrow> jsmntok list \<Rightarrow> nat \<Rightarrow> config \<Rightarrow> fault + config" where
  "scan_tokens buf toks n c =
     (case scan_list buf toks [0..<n] (keys_init, c) of Inl f \<Rightarrow> Inl f | Inr st \<Rightarrow> Inr (snd st))"

subsection \<open>The loader\<close>

text \<open>
  What the file system and the heap answer: whether \<open>f_open\<close> succeeds, the size
  \<open>f_size\<close> reports, the data \<open>f_read\<close> delivers (\<open>None\<close> for an error), and whether
  each of the two allocations succeeds. \<open>jsmn buf None\<close> is \<open>jsmn_parse\<close> with a NULL
  token array (it only counts), \<open>jsmn buf (Some n)\<close> the call with an array of \<open>n\<close>.
\<close>

record load_env =
  open_ok :: bool
  f_size :: nat
  read_data :: "string option"
  buffer_alloc :: bool
  tokens_alloc :: bool

type_synonym jsmn_parser = "string \<Rightarrow> nat option \<Rightarrow> int \<times> jsmntok list"

datatype load_event = F_open | F_read | F_close | Malloc_buffer | Malloc_tokens | Free_tokens | Free_buffer

definition parse_and_scan ::
    "jsmn_parser \<Rightarrow> load_env \<Rightarrow> string \<Rightarrow> config \<Rightarrow> (fault + config) \<times> load_event list" where
  "parse_and_scan jsmn env buf c =
     (let r = fst (jsmn buf None) in
      if r > 0 then
        if tokens_alloc env then
          (case jsmn buf (Some (nat r)) of (r', toks) \<Rightarrow>
             (scan_tokens buf toks (nat r') c, [Malloc_tokens]))
        else (Inl Null_deref, [])
      else (Inr c, []))"

definition miso_load_config ::
    "jsmn_parser \<Rightarrow> load_env \<Rightarrow> config \<Rightarrow> fault + config \<times> load_event list" where
  "miso_load_config jsmn env c =
     (if \<not> open_ok env then Inr (c, [F_open, F_close])
      else let sized = f_size env > 0 in
        if sized \<and> \<not> buffer_alloc env then Inr (c, [F_open, F_close])
        else let b = (if sized then [Malloc_buffer] else []);
                 fb = (if sized then [Free_buffer] else []) in
          (case read_data env of
             None \<Rightarrow> Inr (c, [F_open] @ b @ [F_read, F_close] @ fb)
           | Some buf \<Rightarrow>
               (case parse_and_scan jsmn env buf c of
                  (Inl f, _) \<Rightarrow> Inl f
                | (Inr c', ev) \<Rightarrow>
                    Inr (c', [F_open] @ b @ [F_read] @ ev @ [F_close]
                             @ (if ev = [] then [] else [Free_tokens]) @ fb))))"

lemmas config_scan_defs [conf_defs] =
  wifi_dest_def lwm2m_dest_def mqtt_dest_def lwm2m_psk_dest_def mqtt_psk_dest_def
  http_dest_def config_dest_def

end
