(* ===== verification/Config_Correct.thy ===== *)
theory Config_Correct
  imports Config
begin

text \<open>
  Correctness of the configuration store: \<open>copyString\<close> and the setters as functions on
  C strings, the sizes of the buffers as an invariant of the loader, the provenance of
  every value the scan stores (an abstract path semantics of the tokens), and the two
  ways in which the scan leaves its buffers.
\<close>

subsection \<open>\<open>copyString\<close>, setters and getters\<close>

lemma copyString_Some:
  "copyString dest (length dest) src n =
     Some (strncpy_bytes src (min n (length dest))
           @ replicate (length dest - min n (length dest)) NUL)"
  by (auto simp: copyString_def strncpy_def memset0_def Let_def min_def)

lemma cstr_strncpy_bytes: "cstr (strncpy_bytes src n @ replicate m NUL) = take n (cstr src)"
proof (cases "length (cstr src) \<le> n")
  case True
  have "cstr (cstr src @ (replicate (n - length (cstr src)) NUL @ replicate m NUL)) = cstr src"
    by (simp add: cstr_append replicate_add [symmetric])
  with True show ?thesis by (simp add: strncpy_bytes_fits)
next
  case False
  have "NUL \<notin> set (take n (cstr src))"
    using cstr_no_NUL [of src] by (meson in_set_takeD)
  with False show ?thesis by (simp add: strncpy_bytes_truncates cstr_append)
qed

lemma NUL_in_strncpy_bytes: "NUL \<in> set (strncpy_bytes src n) \<longleftrightarrow> length (cstr src) < n"
proof (cases "length (cstr src) < n")
  case True
  then show ?thesis by (simp add: strncpy_bytes_fits)
next
  case False
  then show ?thesis
    using cstr_no_NUL [of src] by (auto simp: strncpy_bytes_truncates dest: in_set_takeD)
qed

text \<open>
  \<open>copyString\<close> called with the size of its destination never writes outside it, keeps
  its size, stores the source up to its terminator cut to \<open>src_len\<close> and to the buffer,
  and leaves a terminated string exactly when fewer characters than the buffer holds were
  copied.
\<close>

theorem copyString_correct:
  "\<exists>r. copyString dest (length dest) src n = Some r
     \<and> length r = length dest
     \<and> cstr r = take (min n (length dest)) (cstr src)
     \<and> ((\<exists>k. strlen r = Some k) \<longleftrightarrow> length (take (min n (length dest)) (cstr src)) < length dest)"
proof -
  let ?m = "min n (length dest)"
  have "NUL \<in> set (strncpy_bytes src ?m @ replicate (length dest - ?m) NUL)
          \<longleftrightarrow> length (take ?m (cstr src)) < length dest"
    by (auto simp: NUL_in_strncpy_bytes min_def split: if_splits)
  then show ?thesis
    by (auto simp: copyString_Some cstr_strncpy_bytes strlen_def)
qed

text \<open>
  Reading a configuration string back after setting it gives the string cut to its
  buffer, and no other buffer changes; the buffer is a terminated C string exactly when
  the value is shorter than the buffer.
\<close>

theorem config_set_get:
  "cstr (config_get s (config_set s v c)) = take (slot_size s) (cstr v)
   \<and> (s' = s \<or> config_get s' (config_set s v c) = config_get s' c)
   \<and> ((strlen (config_get s (config_set s v c)) \<noteq> None) = (length (cstr v) < slot_size s))"
  using cstr_strncpy_bytes [of v "slot_size s" 0]
  by (auto simp: config_get_def config_set_def strlen_def NUL_in_strncpy_bytes)

text \<open>
  A 32 character WiFi name, the longest an access point may have, fills its buffer:
  what the getter then returns has no terminator, so the \<open>strlen\<close> with which the WiFi
  service measures it runs past the buffer.
\<close>

theorem wifi_ssid_unterminated:
  assumes "length ssid = 32" and "NUL \<notin> set ssid"
  shows "config_get Wifi_ssid (config_set Wifi_ssid ssid c) = ssid
     \<and> strlen (config_get Wifi_ssid (config_set Wifi_ssid ssid c)) = None"
  using assms by (auto simp: config_get_def config_set_def strncpy_bytes_def strlen_def)

theorem wifi_ssid_unterminated_witness:
  "strlen (config_get Wifi_ssid (config_set Wifi_ssid (replicate 32 CHR ''a'') config_init)) = None"
  by (rule conjunct2 [OF wifi_ssid_unterminated]) simp_all

subsection \<open>Sizes of the buffers\<close>

lemma config_wf_init: "config_wf config_init"
  by (simp add: config_wf_def config_init_def)

lemma config_wf_upd: "config_wf c \<Longrightarrow> length r = length (c s) \<Longrightarrow> config_wf (c(s := r))"
  by (simp add: config_wf_def)

lemma config_wf_set: "config_wf c \<Longrightarrow> config_wf (config_set s v c)"
  by (auto simp: config_wf_def config_set_def)

lemma copyString_length: "copyString d n src m = Some r \<Longrightarrow> length r = length d"
  by (auto simp: copyString_def Let_def memset0_def dest!: strncpy_length split: if_splits)

lemma store_value_wf:
  "store_value buf toks i d c = Inr c' \<Longrightarrow> config_wf c \<Longrightarrow> config_wf c'"
  by (auto simp: store_value_def Let_def dest!: copyString_length intro!: config_wf_upd
      split: if_splits option.splits)

lemma push_ntp_url_wf: "push_ntp_url buf t c = Inr c' \<Longrightarrow> config_wf c \<Longrightarrow> config_wf c'"
  by (auto simp: push_ntp_url_def dest!: strncpy_length intro!: config_wf_upd split: option.splits)

lemma with_keys_Inr: "with_keys ks r = Inr (ks', c) \<longleftrightarrow> r = Inr c \<and> ks' = ks"
  by (auto simp: with_keys_def split: sum.splits)

lemma with_keys_Inl: "with_keys ks r = Inl f \<longleftrightarrow> r = Inl f"
  by (auto simp: with_keys_def split: sum.splits)

text \<open>
  What one iteration can be: it leaves the store alone, it runs the tail of a branch with
  the destination that branch chose, or it pushes an NTP server.
\<close>

lemma scan_tail_cases:
  assumes "scan_tail buf toks i (ks, c) = Inr (ks', c')"
  shows "c' = c \<or> (\<exists>d. store_value buf toks i d c = Inr c') \<or> push_ntp_url buf (toks ! i) c = Inr c'"
  using assms
  by (auto simp: scan_tail_def Let_def with_keys_Inr split: if_splits prod.splits)

lemma scan_token_cases:
  assumes "scan_token buf toks i (ks, c) = Inr (ks', c')"
  shows "c' = c \<or> (\<exists>d. store_value buf toks i d c = Inr c') \<or> push_ntp_url buf (toks ! i) c = Inr c'"
  using assms
  by (auto simp: scan_token_def Let_def with_keys_Inr dest!: scan_tail_cases split: if_splits prod.splits)

lemma scan_token_wf:
  "scan_token buf toks i (ks, c) = Inr (ks', c') \<Longrightarrow> config_wf c \<Longrightarrow> config_wf c'"
  by (drule scan_token_cases) (auto intro: store_value_wf push_ntp_url_wf)

lemma scan_list_wf:
  "scan_list buf toks is st = Inr st' \<Longrightarrow> config_wf (snd st) \<Longrightarrow> config_wf (snd st')"
proof (induction "is" arbitrary: st)
  case Nil
  then show ?case by simp
next
  case (Cons i "is")
  then show ?case
    by (cases st) (auto split: sum.splits dest: scan_token_wf)
qed

lemma scan_tokens_wf: "scan_tokens buf toks n c = Inr c' \<Longrightarrow> config_wf c \<Longrightarrow> config_wf c'"
  by (auto simp: scan_tokens_def split: sum.splits dest!: scan_list_wf)

subsection \<open>Provenance: the path semantics of the tokens\<close>

text \<open>
  The path of a buffer in the file, innermost key first; each key is a list of accepted
  spellings, and a spelling is accepted as a prefix (as \<open>strncmp\<close> with the literal's
  length does).
\<close>

fun slot_path :: "slot \<Rightarrow> string list list" where
  "slot_path Wifi_ssid = [[''ssid''], [''wifi'']]"
| "slot_path Wifi_key = [[''key''], [''wifi'']]"
| "slot_path Lwm2m_endpoint = [[''endpoint'', ''device''], [''lwm2m'']]"
| "slot_path Lwm2m_uri = [[''uri'', ''url''], [''lwm2m'']]"
| "slot_path Lwm2m_psk_id = [[''id''], [''psk''], [''lwm2m'']]"
| "slot_path Lwm2m_psk_key = [[''key''], [''psk''], [''lwm2m'']]"
| "slot_path Ntp_url = []"
| "slot_path Sha256 = []"
| "slot_path Mqtt_uri = [[''uri'', ''url''], [''mqtt'']]"
| "slot_path Mqtt_device_id = [[''device''], [''mqtt'']]"
| "slot_path Mqtt_psk_id = [[''id''], [''psk''], [''mqtt'']]"
| "slot_path Mqtt_psk_key = [[''key''], [''psk''], [''mqtt'']]"
| "slot_path Http_uri = [[''uri'', ''url''], [''http'']]"
| "slot_path Http_sig_uri = [[''sig'', ''sig_uri''], [''http'']]"
| "slot_path Http_key = [[''key''], [''http'']]"
| "slot_path Config_uri = [[''uri'', ''url''], [''config'']]"

definition key_token :: "string \<Rightarrow> jsmntok list \<Rightarrow> string list \<Rightarrow> nat \<Rightarrow> bool" where
  "key_token buf toks names i \<longleftrightarrow>
     i < length toks \<and> tok_type (toks ! i) = JSMN_STRING \<and> list_ex (key_is buf (toks ! i)) names"

text \<open>
  A token stands at a path when its key matches and its parent is the token right after a
  key that stands at the outer path; the outermost key has token 0 as its parent.
\<close>

fun at_path :: "string \<Rightarrow> jsmntok list \<Rightarrow> string list list \<Rightarrow> nat \<Rightarrow> bool" where
  "at_path buf toks [] i = False"
| "at_path buf toks [names] i \<longleftrightarrow>
     key_token buf toks names i \<and> tok_parent (toks ! i) = 0"
| "at_path buf toks (names # outer # rest) i \<longleftrightarrow>
     key_token buf toks names i \<and> 0 < tok_parent (toks ! i)
     \<and> at_path buf toks (outer # rest) (nat (tok_parent (toks ! i) - 1))"

definition token_value :: "string \<Rightarrow> jsmntok list \<Rightarrow> nat \<Rightarrow> slot \<Rightarrow> string" where
  "token_value buf toks i s =
     (let v = toks ! Suc i; n = min (tok_len v) (slot_size s)
      in strncpy_bytes (drop (nat (tok_start v)) buf) n @ replicate (slot_size s - n) NUL)"

definition from_path :: "string \<Rightarrow> jsmntok list \<Rightarrow> slot \<Rightarrow> string \<Rightarrow> bool" where
  "from_path buf toks s v \<longleftrightarrow>
     (\<exists>i. Suc i < length toks \<and> at_path buf toks (slot_path s) i
        \<and> tok_type (toks ! Suc i) = JSMN_STRING \<and> v = token_value buf toks i s)"

definition parents_ok :: "jsmntok list \<Rightarrow> bool" where
  "parents_ok toks \<longleftrightarrow> (\<forall>t \<in> set toks. -1 \<le> tok_parent t)"

text \<open>A string element of the array under \<open>ntp.url\<close>.\<close>

definition ntp_array :: "string \<Rightarrow> jsmntok list \<Rightarrow> nat \<Rightarrow> bool" where
  "ntp_array buf toks a \<longleftrightarrow> a < length toks \<and> tok_type (toks ! a) = JSMN_ARRAY
     \<and> 0 \<le> tok_parent (toks ! a)
     \<and> at_path buf toks [[''url''], [''ntp'']] (nat (tok_parent (toks ! a)))"

definition ntp_server :: "string \<Rightarrow> jsmntok list \<Rightarrow> nat \<Rightarrow> bool" where
  "ntp_server buf toks i \<longleftrightarrow> i < length toks \<and> tok_type (toks ! i) = JSMN_STRING
     \<and> 0 \<le> tok_parent (toks ! i) \<and> ntp_array buf toks (nat (tok_parent (toks ! i)))"

definition key_at :: "string \<Rightarrow> jsmntok list \<Rightarrow> string list list \<Rightarrow> int \<Rightarrow> bool" where
  "key_at buf toks path k \<longleftrightarrow> k = INT8_MIN \<or> (0 \<le> k \<and> at_path buf toks path (nat k))"

definition keys_inv :: "string \<Rightarrow> jsmntok list \<Rightarrow> keys \<Rightarrow> bool" where
  "keys_inv buf toks ks \<longleftrightarrow>
     key_at buf toks [[''wifi'']] (wifi_key ks)
   \<and> key_at buf toks [[''lwm2m'']] (lwm2m_key ks)
   \<and> key_at buf toks [[''ntp'']] (ntp_key ks)
   \<and> key_at buf toks [[''mqtt'']] (mqtt_key ks)
   \<and> key_at buf toks [[''http'']] (http_key ks)
   \<and> key_at buf toks [[''config'']] (config_key ks)
   \<and> key_at buf toks [[''psk''], [''lwm2m'']] (lwm2m_psk_key ks)
   \<and> key_at buf toks [[''psk''], [''mqtt'']] (mqtt_psk_key ks)
   \<and> key_at buf toks [[''url''], [''ntp'']] (ntp_url_key ks)
   \<and> (ntp_url_array ks = INT8_MIN
        \<or> (0 \<le> ntp_url_array ks \<and> ntp_array buf toks (nat (ntp_url_array ks))))"

definition prov :: "string \<Rightarrow> jsmntok list \<Rightarrow> config \<Rightarrow> config \<Rightarrow> bool" where
  "prov buf toks c0 c \<longleftrightarrow>
     config_wf c \<and> (\<forall>s. s = Ntp_url \<or> c s = c0 s \<or> from_path buf toks s (c s))"

lemma keys_inv_init: "keys_inv buf toks keys_init"
  by (simp add: keys_inv_def keys_init_def key_at_def)

lemma at_path_append_key:
  assumes "key_at buf toks (outer # rest) k" and "tok_parent (toks ! i) = k + 1"
    and "parents_ok toks" and "key_token buf toks names i"
  shows "at_path buf toks (names # outer # rest) i"
proof -
  have "toks ! i \<in> set toks" using assms(4) by (simp add: key_token_def)
  then have "-1 \<le> tok_parent (toks ! i)" using assms(3) by (auto simp: parents_ok_def)
  with assms show ?thesis by (auto simp: key_at_def)
qed

lemma key_at_new:
  "at_path buf toks path i \<Longrightarrow> key_at buf toks path (int i)"
  by (simp add: key_at_def)

text \<open>Every destination a branch chooses has the size of its buffer and a matching key.\<close>

definition dest_ok :: "string \<Rightarrow> jsmntok \<Rightarrow> string list list \<Rightarrow> dest \<Rightarrow> bool" where
  "dest_ok buf t section d \<longleftrightarrow>
     (\<forall>s n. d = Some (s, n) \<longrightarrow>
        n = slot_size s \<and> (\<exists>names. slot_path s = names # section \<and> list_ex (key_is buf t) names))"

lemma dest_ok_intros:
  "dest_ok buf t [[''wifi'']] (wifi_dest buf t)"
  "dest_ok buf t [[''lwm2m'']] (snd (lwm2m_dest buf t i ks))"
  "dest_ok buf t [[''mqtt'']] (snd (mqtt_dest buf t i ks))"
  "dest_ok buf t [[''psk''], [''lwm2m'']] (lwm2m_psk_dest buf t)"
  "dest_ok buf t [[''psk''], [''mqtt'']] (mqtt_psk_dest buf t)"
  "dest_ok buf t [[''http'']] (http_dest buf t)"
  "dest_ok buf t [[''config'']] (config_dest buf t)"
  by (auto simp: dest_ok_def conf_defs Let_def)

lemma copyString_slot:
  assumes "config_wf c"
  shows "copyString (c s) (slot_size s) (drop (nat (tok_start (toks ! Suc i))) buf)
           (tok_len (toks ! Suc i)) = Some (token_value buf toks i s)"
proof -
  have "length (c s) = slot_size s" using assms by (simp add: config_wf_def)
  then show ?thesis
    using copyString_Some [of "c s" "drop (nat (tok_start (toks ! Suc i))) buf" "tok_len (toks ! Suc i)"]
    by (simp add: token_value_def Let_def)
qed

lemma length_token_value: "length (token_value buf toks i s) = slot_size s"
  by (simp add: token_value_def Let_def)

lemma store_value_prov:
  assumes st: "store_value buf toks i d c = Inr c'" and pv: "prov buf toks c0 c"
    and d: "dest_ok buf (toks ! i) section d"
    and ap: "\<And>names. list_ex (key_is buf (toks ! i)) names \<Longrightarrow> at_path buf toks (names # section) i"
  shows "prov buf toks c0 c'"
proof (cases "tok_type (toks ! Suc i) = JSMN_STRING \<and> d \<noteq> None")
  case False
  with st have "c' = c" by (auto simp: store_value_def Let_def split: if_splits option.splits)
  with pv show ?thesis by simp
next
  case True
  then obtain s n where dn: "d = Some (s, n)" and str: "tok_type (toks ! Suc i) = JSMN_STRING"
    by auto
  from d dn obtain names where n: "n = slot_size s" and path: "slot_path s = names # section"
    and key: "list_ex (key_is buf (toks ! i)) names"
    by (auto simp: dest_ok_def)
  from st str dn n pv have c': "c' = c(s := token_value buf toks i s)" and len: "Suc i < length toks"
    by (auto simp: store_value_def prov_def copyString_slot Let_def split: if_splits)
  have "from_path buf toks s (token_value buf toks i s)"
    unfolding from_path_def using len ap [OF key] path str by auto
  with pv c' show ?thesis
    by (auto simp: prov_def config_wf_def length_token_value)
qed

lemma store_value_Inl:
  assumes "store_value buf toks i d c = Inl f" and "config_wf c" and "dest_ok buf t section d"
  shows "f = Out_of_bounds \<and> length toks \<le> Suc i"
  using assms by (auto simp: store_value_def Let_def dest_ok_def copyString_slot split: if_splits option.splits)

lemma push_ntp_url_prov:
  "push_ntp_url buf t c = Inr c' \<Longrightarrow> prov buf toks c0 c \<Longrightarrow> prov buf toks c0 c'"
  by (auto simp: push_ntp_url_def prov_def config_wf_def dest!: strncpy_length split: option.splits)

text \<open>
  One iteration under the invariants: the keys stay at their paths, every stored value has
  its provenance, and a fault has one of the two causes.
\<close>

definition fault_cause :: "string \<Rightarrow> jsmntok list \<Rightarrow> fault \<Rightarrow> bool" where
  "fault_cause buf toks f \<longleftrightarrow>
     (f = Out_of_bounds \<and> toks \<noteq> [] \<and> tok_type (last toks) = JSMN_STRING \<and> 0 < tok_parent (last toks))
   \<or> (f = Buffer_overflow \<and> (\<exists>i. ntp_server buf toks i \<and> slot_size Ntp_url < tok_len (toks ! i)))"

lemma key_at_pos:
  "parents_ok toks \<Longrightarrow> i < length toks \<Longrightarrow> tok_parent (toks ! i) = k + 1 \<Longrightarrow>
     key_at buf toks path k \<Longrightarrow> 0 < tok_parent (toks ! i)"
  by (auto simp: key_at_def parents_ok_def dest!: nth_mem)

lemma branch_store:
  assumes ok: "parents_ok toks" "i < length toks" "tok_type (toks ! i) = JSMN_STRING"
    and pv: "prov buf toks c0 c" and p: "tok_parent (toks ! i) = k + 1"
    and k: "key_at buf toks (outer # rest) k" and d: "dest_ok buf (toks ! i) (outer # rest) d"
  shows "store_value buf toks i d c = Inr c' \<Longrightarrow> prov buf toks c0 c'"
    and "store_value buf toks i d c = Inl f \<Longrightarrow> fault_cause buf toks f"
proof -
  have ap: "at_path buf toks (names # outer # rest) i"
    if "list_ex (key_is buf (toks ! i)) names" for names
    using at_path_append_key [OF k p ok(1)] ok that by (simp add: key_token_def)
  show "prov buf toks c0 c'" if "store_value buf toks i d c = Inr c'"
    by (rule store_value_prov [OF that pv d ap])
  show "fault_cause buf toks f" if "store_value buf toks i d c = Inl f"
  proof -
    have "config_wf c" using pv by (simp add: prov_def)
    from store_value_Inl [OF that this d] have f: "f = Out_of_bounds" "length toks \<le> Suc i" by auto
    with ok have "last toks = toks ! i"
      using last_conv_nth [of toks] by (cases toks) (auto simp: le_Suc_eq)
    with f ok key_at_pos [OF ok(1,2) p k] show ?thesis
      by (auto simp: fault_cause_def)
  qed
qed

lemma key_at_child:
  assumes "parents_ok toks" and "i < length toks" and "tok_type (toks ! i) = JSMN_STRING"
    and "tok_parent (toks ! i) = k + 1" and "key_at buf toks (outer # rest) k"
    and "key_is buf (toks ! i) name"
  shows "key_at buf toks ([name] # outer # rest) (int i)"
  using assms by (auto intro!: key_at_new at_path_append_key [OF assms(5,4,1)] simp: key_token_def)

lemma top_level_key_inv:
  assumes "keys_inv buf toks ks" and "i < length toks" and "tok_type (toks ! i) = JSMN_STRING"
    and "tok_parent (toks ! i) = 0"
  shows "keys_inv buf toks (top_level_key buf (toks ! i) i ks)"
  using assms by (auto simp: keys_inv_def top_level_key_def key_at_def key_token_def)

lemma lwm2m_dest_keys_inv:
  assumes "keys_inv buf toks ks" and "parents_ok toks" and "i < length toks"
    and "tok_type (toks ! i) = JSMN_STRING" and "tok_parent (toks ! i) = lwm2m_key ks + 1"
    and "lwm2m_dest buf (toks ! i) i ks = (ks', d)"
  shows "keys_inv buf toks ks'"
  using assms key_at_child [OF assms(2,3,4,5), of buf "[''lwm2m'']" "[]" "''psk''"]
  by (auto simp: keys_inv_def lwm2m_dest_def split: if_splits)

lemma mqtt_dest_keys_inv:
  assumes "keys_inv buf toks ks" and "parents_ok toks" and "i < length toks"
    and "tok_type (toks ! i) = JSMN_STRING" and "tok_parent (toks ! i) = mqtt_key ks + 1"
    and "mqtt_dest buf (toks ! i) i ks = (ks', d)"
  shows "keys_inv buf toks ks'"
  using assms key_at_child [OF assms(2,3,4,5), of buf "[''mqtt'']" "[]" "''psk''"]
  by (auto simp: keys_inv_def mqtt_dest_def split: if_splits)

definition step_ok :: "string \<Rightarrow> jsmntok list \<Rightarrow> config \<Rightarrow> fault + keys \<times> config \<Rightarrow> bool" where
  "step_ok buf toks c0 r \<longleftrightarrow>
     (case r of Inl f \<Rightarrow> fault_cause buf toks f
      | Inr (ks', c') \<Rightarrow> keys_inv buf toks ks' \<and> prov buf toks c0 c')"

lemma step_ok_unchanged:
  "keys_inv buf toks ks \<Longrightarrow> prov buf toks c0 c \<Longrightarrow> step_ok buf toks c0 (Inr (ks, c))"
  by (simp add: step_ok_def)

lemma step_ok_store:
  assumes "parents_ok toks" "i < length toks" "prov buf toks c0 c" "keys_inv buf toks ks'"
    and "tok_parent (toks ! i) = k + 1 \<and> tok_type (toks ! i) = JSMN_STRING"
    and "key_at buf toks (outer # rest) k" and "dest_ok buf (toks ! i) (outer # rest) d"
  shows "step_ok buf toks c0 (with_keys ks' (store_value buf toks i d c))"
  using branch_store [OF assms(1,2) conjunct2 [OF assms(5)] assms(3) conjunct1 [OF assms(5)] assms(6,7)]
    assms(4)
  by (auto simp: step_ok_def with_keys_def split: sum.splits)

lemma step_ok_ntp:
  assumes "parents_ok toks" "i < length toks" "prov buf toks c0 c" "keys_inv buf toks ks"
    and "tok_parent (toks ! i) = ntp_url_array ks \<and> tok_type (toks ! i) = JSMN_STRING"
  shows "step_ok buf toks c0 (with_keys ks (push_ntp_url buf (toks ! i) c))"
proof (cases "push_ntp_url buf (toks ! i) c")
  case (Inr c')
  then show ?thesis using assms(3,4) push_ntp_url_prov by (auto simp: step_ok_def with_keys_def)
next
  case (Inl f)
  have "-1 \<le> tok_parent (toks ! i)" using assms(1,2) by (auto simp: parents_ok_def)
  with assms have "ntp_server buf toks i" by (auto simp: ntp_server_def keys_inv_def)
  moreover have "length (c Ntp_url) = slot_size Ntp_url" using assms(3) by (simp add: prov_def config_wf_def)
  ultimately show ?thesis using Inl
    by (auto simp: step_ok_def with_keys_def push_ntp_url_def strncpy_def fault_cause_def
        split: if_splits)
qed

lemma ntp_keys_inv:
  assumes "keys_inv buf toks ks" "parents_ok toks" "i < length toks"
  shows "tok_parent (toks ! i) = ntp_key ks + 1 \<and> tok_type (toks ! i) = JSMN_STRING \<Longrightarrow>
           key_is buf (toks ! i) ''url'' \<Longrightarrow> keys_inv buf toks (ks\<lparr>ntp_url_key := int i\<rparr>)"
    and "tok_parent (toks ! i) = ntp_url_key ks \<and> tok_type (toks ! i) = JSMN_ARRAY \<Longrightarrow>
           keys_inv buf toks (ks\<lparr>ntp_url_array := int i\<rparr>)"
proof -
  have "-1 \<le> tok_parent (toks ! i)" using assms(2,3) by (auto simp: parents_ok_def)
  then show "tok_parent (toks ! i) = ntp_url_key ks \<and> tok_type (toks ! i) = JSMN_ARRAY \<Longrightarrow>
           keys_inv buf toks (ks\<lparr>ntp_url_array := int i\<rparr>)"
    using assms by (auto simp: keys_inv_def ntp_array_def key_at_def)
  show "tok_parent (toks ! i) = ntp_key ks + 1 \<and> tok_type (toks ! i) = JSMN_STRING \<Longrightarrow>
           key_is buf (toks ! i) ''url'' \<Longrightarrow> keys_inv buf toks (ks\<lparr>ntp_url_key := int i\<rparr>)"
    using assms key_at_child [OF assms(2,3), of "ntp_key ks" buf "[''ntp'']" "[]" "''url''"]
    by (auto simp: keys_inv_def)
qed

lemma scan_tail_ok:
  assumes inv: "keys_inv buf toks ks" and pv: "prov buf toks c0 c" and ok: "parents_ok toks"
    and i: "i < length toks"
  shows "step_ok buf toks c0 (scan_tail buf toks i (ks, c))"
proof -
  note K = inv [unfolded keys_inv_def]
  note S = step_ok_store [OF ok i pv]
  have m: "step_ok buf toks c0 (with_keys ks' (store_value buf toks i d c))"
    if "mqtt_dest buf (toks ! i) i ks = (ks', d)"
       "tok_parent (toks ! i) = mqtt_key ks + 1 \<and> tok_type (toks ! i) = JSMN_STRING" for ks' d
    using S [OF mqtt_dest_keys_inv [OF inv ok i _ _ that(1)] that(2), of "[''mqtt'']" "[]" d]
      K that dest_ok_intros(3) [of buf "toks ! i" i ks] by simp
  have h: "step_ok buf toks c0 (with_keys ks (store_value buf toks i d c))"
    if "tok_parent (toks ! i) = k + 1 \<and> tok_type (toks ! i) = JSMN_STRING"
       "key_at buf toks (outer # rest) k" "dest_ok buf (toks ! i) (outer # rest) d" for k outer rest d
    by (rule S [OF inv that])
  show ?thesis
    using K m h [OF _ _ dest_ok_intros(4)] h [OF _ _ dest_ok_intros(5)] h [OF _ _ dest_ok_intros(6)]
      h [OF _ _ dest_ok_intros(7)] step_ok_unchanged [OF inv pv] step_ok_ntp [OF ok i pv inv]
      step_ok_unchanged [OF ntp_keys_inv(1) [OF inv ok i] pv]
      step_ok_unchanged [OF ntp_keys_inv(2) [OF inv ok i] pv]
    by (simp add: scan_tail_def Let_def split: prod.splits)
qed

lemma scan_token_ok:
  assumes inv: "keys_inv buf toks ks" and pv: "prov buf toks c0 c" and ok: "parents_ok toks"
    and i: "i < length toks"
  shows "step_ok buf toks c0 (scan_token buf toks i (ks, c))"
proof -
  note K = inv [unfolded keys_inv_def]
  have l: "step_ok buf toks c0 (with_keys ks' (store_value buf toks i d c))"
    if "lwm2m_dest buf (toks ! i) i ks = (ks', d)"
       "tok_parent (toks ! i) = lwm2m_key ks + 1 \<and> tok_type (toks ! i) = JSMN_STRING" for ks' d
    using step_ok_store [OF ok i pv lwm2m_dest_keys_inv [OF inv ok i _ _ that(1)] that(2),
        of "[''lwm2m'']" "[]" d] K that dest_ok_intros(2) [of buf "toks ! i" i ks] by simp
  have w: "step_ok buf toks c0 (with_keys ks (store_value buf toks i (wifi_dest buf (toks ! i)) c))"
    if "tok_parent (toks ! i) = wifi_key ks + 1 \<and> tok_type (toks ! i) = JSMN_STRING"
    by (rule step_ok_store [OF ok i pv inv that _ dest_ok_intros(1)]) (use K in simp)
  have t: "step_ok buf toks c0 (Inr (top_level_key buf (toks ! i) i ks, c))"
    if "tok_parent (toks ! i) = 0 \<and> tok_type (toks ! i) = JSMN_STRING"
    using top_level_key_inv [OF inv i] that pv by (simp add: step_ok_def)
  show ?thesis
    using i t w l scan_tail_ok [OF inv pv ok i] by (simp add: scan_token_def Let_def split: prod.splits)
qed

lemma scan_list_ok:
  assumes "parents_ok toks" and "\<forall>i \<in> set is. i < length toks"
    and "keys_inv buf toks (fst st)" and "prov buf toks c0 (snd st)"
  shows "step_ok buf toks c0 (scan_list buf toks is st)"
  using assms
proof (induction "is" arbitrary: st)
  case Nil
  then show ?case by (cases st) (simp add: step_ok_def)
next
  case (Cons i "is")
  obtain ks c where st: "st = (ks, c)" by fastforce
  from Cons.prems st have head: "step_ok buf toks c0 (scan_token buf toks i (ks, c))"
    by (intro scan_token_ok) simp_all
  show ?case
  proof (cases "scan_token buf toks i (ks, c)")
    case (Inl f)
    with head st show ?thesis by (simp add: step_ok_def)
  next
    case (Inr st')
    with head have "keys_inv buf toks (fst st')" "prov buf toks c0 (snd st')"
      by (auto simp: step_ok_def split: prod.splits)
    with Cons.IH [of st'] Cons.prems Inr st show ?thesis by simp
  qed
qed

lemma scan_tokens_ok:
  assumes "parents_ok toks" and "n \<le> length toks" and "config_wf c"
  shows "case scan_tokens buf toks n c of Inl f \<Rightarrow> fault_cause buf toks f | Inr c' \<Rightarrow> prov buf toks c c'"
proof -
  have "prov buf toks c c" using assms(3) by (simp add: prov_def)
  with assms have "step_ok buf toks c (scan_list buf toks [0..<n] (keys_init, c))"
    by (intro scan_list_ok) (auto simp: keys_inv_init)
  then show ?thesis by (auto simp: scan_tokens_def step_ok_def split: sum.splits)
qed

subsection \<open>The loader\<close>

text \<open>
  What the loader relies on of jsmn (documented in its README): \<open>jsmn_parse\<close> with an array
  of \<open>n\<close> tokens fills at most \<open>n\<close> of them, and a parent link is an index or \<open>-1\<close>.
\<close>

definition jsmn_ok :: "jsmn_parser \<Rightarrow> bool" where
  "jsmn_ok jsmn \<longleftrightarrow>
     (\<forall>buf n. length (snd (jsmn buf (Some n))) = n \<and> fst (jsmn buf (Some n)) \<le> int n
        \<and> parents_ok (snd (jsmn buf (Some n))))"

definition load_tokens :: "jsmn_parser \<Rightarrow> string \<Rightarrow> jsmntok list" where
  "load_tokens jsmn buf = snd (jsmn buf (Some (nat (fst (jsmn buf None)))))"

lemma parse_and_scan_ok:
  assumes "jsmn_ok jsmn" and "config_wf c"
  shows "case fst (parse_and_scan jsmn env buf c) of
           Inl f \<Rightarrow> (f = Null_deref \<and> \<not> tokens_alloc env)
                 \<or> fault_cause buf (load_tokens jsmn buf) f
         | Inr c' \<Rightarrow> prov buf (load_tokens jsmn buf) c c'"
proof (cases "fst (jsmn buf None) > 0 \<and> tokens_alloc env")
  case False
  then show ?thesis using assms(2) by (auto simp: parse_and_scan_def prov_def Let_def)
next
  case True
  let ?n = "nat (fst (jsmn buf None))"
  obtain r' toks where j: "jsmn buf (Some ?n) = (r', toks)" by fastforce
  with assms(1) have "length toks = ?n" "r' \<le> int ?n" "parents_ok toks"
    by (auto simp: jsmn_ok_def dest!: spec [where x = buf] spec [where x = ?n])
  with scan_tokens_ok [of toks "nat r'" c buf] assms(2) True j show ?thesis
    by (auto simp: parse_and_scan_def load_tokens_def Let_def split: sum.splits)
qed

lemma miso_load_config_cases:
  assumes "miso_load_config jsmn env c = Inr (c', ev)"
  shows "c' = c \<or> (\<exists>buf. read_data env = Some buf \<and> fst (parse_and_scan jsmn env buf c) = Inr c')"
  using assms
  by (auto simp: miso_load_config_def Let_def split: if_splits option.splits prod.splits sum.splits)

lemma miso_load_config_Inl:
  assumes "miso_load_config jsmn env c = Inl f"
  shows "\<exists>buf. read_data env = Some buf \<and> fst (parse_and_scan jsmn env buf c) = Inl f"
  using assms
  by (auto simp: miso_load_config_def Let_def split: if_splits option.splits prod.splits sum.splits)

text \<open>A file \<open>{"wifi":{"ssid":"ab"}}\<close> and the tokens jsmn makes of it, for the witnesses.\<close>

definition demo_file :: string where
  "demo_file = ''{'' @ [CHR 0x22] @ ''wifi'' @ [CHR 0x22] @ '':{'' @ [CHR 0x22] @ ''ssid''
     @ [CHR 0x22] @ '':'' @ [CHR 0x22] @ ''ab'' @ [CHR 0x22] @ ''}}''"

definition demo_tokens :: "jsmntok list" where
  "demo_tokens =
     [\<lparr>tok_type = JSMN_OBJECT, tok_start = 0, tok_end = 22, tok_parent = -1\<rparr>,
      \<lparr>tok_type = JSMN_STRING, tok_start = 2, tok_end = 6, tok_parent = 0\<rparr>,
      \<lparr>tok_type = JSMN_OBJECT, tok_start = 8, tok_end = 21, tok_parent = 1\<rparr>,
      \<lparr>tok_type = JSMN_STRING, tok_start = 10, tok_end = 14, tok_parent = 2\<rparr>,
      \<lparr>tok_type = JSMN_STRING, tok_start = 17, tok_end = 19, tok_parent = 3\<rparr>]"

definition demo_jsmn :: "nat \<Rightarrow> jsmn_parser" where
  "demo_jsmn k buf cap =
     (case cap of
        None \<Rightarrow> (int k, [])
      | Some n \<Rightarrow>
          (int (min n k),
           take n (take k demo_tokens @ replicate n
             \<lparr>tok_type = JSMN_UNDEFINED, tok_start = -1, tok_end = -1, tok_parent = -1\<rparr>)))"

definition demo_env :: load_env where
  "demo_env = \<lparr>open_ok = True, f_size = 22, read_data = Some demo_file,
     buffer_alloc = True, tokens_alloc = True\<rparr>"

lemma demo_jsmn_ok: "jsmn_ok (demo_jsmn k)"
  by (auto simp: jsmn_ok_def demo_jsmn_def parents_ok_def demo_tokens_def
      dest!: in_set_takeD split: option.splits)

lemma demo_load:
  "miso_load_config (demo_jsmn 5) demo_env config_init =
     Inr (config_init(Wifi_ssid := ''ab'' @ replicate 30 NUL),
          [F_open, Malloc_buffer, F_read, Malloc_tokens, F_close, Free_tokens, Free_buffer])"
proof -
  have "(case miso_load_config (demo_jsmn 5) demo_env config_init of
           Inl f \<Rightarrow> False
         | Inr (c, ev) \<Rightarrow> (\<forall>s. c s = (config_init(Wifi_ssid := ''ab'' @ replicate 30 NUL)) s)
             \<and> ev = [F_open, Malloc_buffer, F_read, Malloc_tokens, F_close, Free_tokens, Free_buffer])"
    by code_simp
  then show ?thesis by (auto split: sum.splits)
qed

text \<open>
  Whatever the file holds, a load that returns leaves every buffer of the store with
  its declared size.
\<close>

theorem load_keeps_sizes:
  assumes "config_wf c" and "miso_load_config jsmn env c = Inr (c', ev)"
  shows "config_wf c'"
proof -
  from miso_load_config_cases [OF assms(2)] consider "c' = c"
    | buf where "fst (parse_and_scan jsmn env buf c) = Inr c'" by blast
  then show ?thesis
    using assms(1) by cases (auto simp: parse_and_scan_def Let_def dest: scan_tokens_wf split: if_splits prod.splits)
qed

theorem load_keeps_sizes_witness:
  "config_wf (config_init(Wifi_ssid := ''ab'' @ replicate 30 NUL))"
  by (rule load_keeps_sizes [OF config_wf_init demo_load])

lemma miso_load_config_prov:
  assumes "jsmn_ok jsmn" and "config_wf c" and "miso_load_config jsmn env c = Inr (c', ev)"
  shows "config_wf c' \<and> (c' = c \<or> (\<exists>buf. read_data env = Some buf \<and> prov buf (load_tokens jsmn buf) c c'))"
  using miso_load_config_cases [OF assms(3)]
proof
  assume "\<exists>buf. read_data env = Some buf \<and> fst (parse_and_scan jsmn env buf c) = Inr c'"
  then obtain buf where buf: "read_data env = Some buf" "fst (parse_and_scan jsmn env buf c) = Inr c'"
    by blast
  with parse_and_scan_ok [OF assms(1,2), of env buf] have "prov buf (load_tokens jsmn buf) c c'" by simp
  with buf show ?thesis by (auto simp: prov_def)
qed (simp add: assms(2))



lemma at_path_outermost:
  "at_path buf toks path i \<Longrightarrow> \<exists>k < length toks. at_path buf toks [last path] k"
  by (induction buf toks path i rule: at_path.induct) (auto simp: key_token_def)

text \<open>
  A section the file does not have is left alone: when no top-level key starts with the
  outermost name of a buffer's path, a load that returns leaves the buffer as it was.
\<close>

theorem load_absent_section:
  assumes "jsmn_ok jsmn" and "config_wf c" and "miso_load_config jsmn env c = Inr (c', ev)"
    and "read_data env = Some buf" and "s \<noteq> Ntp_url"
    and "\<forall>k < length (load_tokens jsmn buf). \<not> at_path buf (load_tokens jsmn buf) [last (slot_path s)] k"
  shows "c' s = c s"
proof (rule ccontr)
  assume "c' s \<noteq> c s"
  from miso_load_config_cases [OF assms(3)] this assms(4)
  have "fst (parse_and_scan jsmn env buf c) = Inr c'" by auto
  with parse_and_scan_ok [OF assms(1,2), of env buf] have "prov buf (load_tokens jsmn buf) c c'" by simp
  with \<open>c' s \<noteq> c s\<close> assms(5) have "from_path buf (load_tokens jsmn buf) s (c' s)"
    by (auto simp: prov_def)
  then obtain i where "at_path buf (load_tokens jsmn buf) (slot_path s) i"
    by (auto simp: from_path_def)
  from at_path_outermost [OF this] assms(6) show False by blast
qed

theorem load_absent_section_witness:
  "(config_init(Wifi_ssid := ''ab'' @ replicate 30 NUL)) Mqtt_uri = config_init Mqtt_uri"
proof (rule load_absent_section [OF demo_jsmn_ok config_wf_init demo_load])
  show "read_data demo_env = Some demo_file" by (simp add: demo_env_def)
  have "list_all (\<lambda>k. \<not> at_path demo_file (load_tokens (demo_jsmn 5) demo_file)
          [last (slot_path Mqtt_uri)] k) [0..<length (load_tokens (demo_jsmn 5) demo_file)]"
    by code_simp
  then show "\<forall>k < length (load_tokens (demo_jsmn 5) demo_file).
      \<not> at_path demo_file (load_tokens (demo_jsmn 5) demo_file) [last (slot_path Mqtt_uri)] k"
    by (simp add: list_all_iff)
qed simp



text \<open>
  A load that returns frees the file buffer and the token array exactly when it
  allocated them, and closes the file exactly once, also when it could not be opened.
\<close>

theorem load_releases_resources:
  assumes "miso_load_config jsmn env c = Inr (c', ev)"
  shows "count_list ev Malloc_buffer = count_list ev Free_buffer
     \<and> count_list ev Malloc_tokens = count_list ev Free_tokens
     \<and> count_list ev F_open = 1 \<and> count_list ev F_close = 1"
  using assms
  by (auto simp: miso_load_config_def parse_and_scan_def Let_def split: if_splits option.splits prod.splits sum.splits)

theorem load_releases_resources_witness:
  "count_list [F_open, Malloc_buffer, F_read, Malloc_tokens, F_close, Free_tokens, Free_buffer] F_close = 1"
  using load_releases_resources [OF demo_load] by blast

text \<open>
  A second NTP server shorter than the first does not replace it: the copy writes no
  terminator, so the buffer reads as the new name followed by the tail of the old one.
\<close>

theorem ntp_url_stale_tail:
  assumes "length (c Ntp_url) = 64" and "cstr (c Ntp_url) = old" and "length old < 64"
    and "take (tok_len t) (drop (nat (tok_start t)) buf) = new" and "NUL \<notin> set new"
    and "length new = tok_len t" and "length new \<le> length old"
  shows "\<exists>c'. push_ntp_url buf t c = Inr c' \<and> cstr (c' Ntp_url) = new @ drop (length new) old"
proof -
  let ?src = "drop (nat (tok_start t)) buf"
  have src: "?src = new @ drop (tok_len t) ?src" using assms(4) by (metis append_take_drop_id)
  have "cstr ?src = new @ cstr (drop (tok_len t) ?src)" using assms(5) by (subst src) (rule cstr_append)
  then have bytes: "strncpy_bytes ?src (tok_len t) = new" using assms(6) by (simp add: strncpy_bytes_def)
  have "NUL \<in> set (c Ntp_url)" using assms(1,2,3) cstr_eq_self by fastforce
  with cstr_overwrite [of "c Ntp_url" new] assms(2,5,7)
  have "cstr (new @ drop (length new) (c Ntp_url)) = new @ drop (length new) old" by simp
  then show ?thesis
    using bytes assms by (auto simp: push_ntp_url_def strncpy_def)
qed

theorem ntp_url_stale_tail_witness:
  "\<exists>c'. push_ntp_url ''ab''
      \<lparr>tok_type = JSMN_STRING, tok_start = 0, tok_end = 2, tok_parent = 0\<rparr>
      (config_init(Ntp_url := ''vwxyz'' @ replicate 59 NUL)) = Inr c' \<and> cstr (c' Ntp_url) = ''abxyz''"
  using ntp_url_stale_tail [of "config_init(Ntp_url := ''vwxyz'' @ replicate 59 NUL)" "''vwxyz''"
      "\<lparr>tok_type = JSMN_STRING, tok_start = 0, tok_end = 2, tok_parent = 0\<rparr>" "''ab''" "''ab''"]
  by (simp add: tok_len_def size_of_int_def cstr_def)

end
