(* ===== verification/Lwm2m.thy ===== *)
theory Lwm2m
  imports Prelude
begin

text \<open>
  What the LwM2M objects under \<open>csrc/src/lwm2m/lightclient\<close> share: the CoAP status codes
  their handlers return, the \<open>lwm2m_data_t\<close> values they exchange with the wakaama core,
  the wakaama functions they call, and the two read loops they are built from.

  wakaama is a git submodule, so its functions are parameters, gathered in two records;
  \<open>wakaama_ok\<close> and \<open>list_ok\<close> are the documented behaviour the objects rely on. A pointer
  to an instance in a list is its index; a buffer of bytes is a list of characters; a
  float is its 32-bit pattern (the code only copies floats).
\<close>

datatype coap_status =
    COAP_NO_ERROR | COAP_IGNORE
  | COAP_201_CREATED | COAP_202_DELETED | COAP_204_CHANGED | COAP_205_CONTENT
  | COAP_400_BAD_REQUEST | COAP_401_UNAUTHORIZED | COAP_404_NOT_FOUND
  | COAP_405_METHOD_NOT_ALLOWED | COAP_406_NOT_ACCEPTABLE
  | COAP_500_INTERNAL_SERVER_ERROR | COAP_501_NOT_IMPLEMENTED | COAP_503_SERVICE_UNAVAILABLE

datatype lwm2m_data = Data (data_id: u16) (data_value: lwm2m_value)
  and lwm2m_value =
    UNDEFINED
  | OBJECT "lwm2m_data list"
  | OBJECT_INSTANCE "lwm2m_data list"
  | MULTIPLE_RESOURCE "lwm2m_data list"
  | STRING string
  | OPAQUE string
  | INTEGER int
  | UNSIGNED_INTEGER int
  | FLOAT u32
  | BOOLEAN bool
  | OBJECT_LINK u16 u16
  | CORE_LINK string

fun is_multiple :: "lwm2m_data \<Rightarrow> bool" where
  "is_multiple (Data _ (MULTIPLE_RESOURCE _)) = True"
| "is_multiple _ = False"

subsection \<open>The wakaama core as a parameter\<close>

record wakaama =
  data_new :: "nat \<Rightarrow> lwm2m_data list option"
  encode_string :: "string \<Rightarrow> lwm2m_data \<Rightarrow> lwm2m_data"
  encode_opaque :: "string \<Rightarrow> lwm2m_data \<Rightarrow> lwm2m_data"
  encode_int :: "int \<Rightarrow> lwm2m_data \<Rightarrow> lwm2m_data"
  encode_bool :: "bool \<Rightarrow> lwm2m_data \<Rightarrow> lwm2m_data"
  encode_float :: "u32 \<Rightarrow> lwm2m_data \<Rightarrow> lwm2m_data"
  decode_int :: "lwm2m_data \<Rightarrow> int option"
  decode_bool :: "lwm2m_data \<Rightarrow> bool option"

text \<open>
  \<open>lwm2m_data_new(n)\<close> returns \<open>n\<close> zeroed data or NULL; an encoder keeps the resource id
  and stores the value (the ones that allocate may leave the value undefined).
\<close>

definition wakaama_ok :: "wakaama \<Rightarrow> bool" where
  "wakaama_ok W \<longleftrightarrow>
     (\<forall>n ds. data_new W n = Some ds \<longrightarrow> length ds = n \<and> (\<forall>d \<in> set ds. data_value d = UNDEFINED))
   \<and> (\<forall>s d. encode_string W s d \<in> {Data (data_id d) (STRING (cstr s)), Data (data_id d) UNDEFINED})
   \<and> (\<forall>s d. encode_opaque W s d \<in> {Data (data_id d) (OPAQUE s), Data (data_id d) UNDEFINED})
   \<and> (\<forall>v d. encode_int W v d = Data (data_id d) (INTEGER v))
   \<and> (\<forall>v d. encode_bool W v d = Data (data_id d) (BOOLEAN v))
   \<and> (\<forall>v d. encode_float W v d = Data (data_id d) (FLOAT v))"

lemma wakaama_ok_id [simp]:
  assumes "wakaama_ok W"
  shows "data_id (encode_string W s d) = data_id d" "data_id (encode_opaque W s d) = data_id d"
    "data_id (encode_int W v d) = data_id d" "data_id (encode_bool W b d) = data_id d"
    "data_id (encode_float W f d) = data_id d"
proof -
  from assms have "encode_string W s d \<in> {Data (data_id d) (STRING (cstr s)), Data (data_id d) UNDEFINED}"
    and "encode_opaque W s d \<in> {Data (data_id d) (OPAQUE s), Data (data_id d) UNDEFINED}"
    by (simp_all only: wakaama_ok_def)
  then show "data_id (encode_string W s d) = data_id d" "data_id (encode_opaque W s d) = data_id d"
    by auto
qed (use assms in \<open>simp_all add: wakaama_ok_def\<close>)

text \<open>A concrete core for the witnesses: every call succeeds.\<close>

definition demo_wakaama :: wakaama where
  "demo_wakaama = \<lparr>
     data_new = (\<lambda>n. Some (replicate n (Data 0 UNDEFINED))),
     encode_string = (\<lambda>s d. Data (data_id d) (STRING (cstr s))),
     encode_opaque = (\<lambda>s d. Data (data_id d) (OPAQUE s)),
     encode_int = (\<lambda>v d. Data (data_id d) (INTEGER v)),
     encode_bool = (\<lambda>v d. Data (data_id d) (BOOLEAN v)),
     encode_float = (\<lambda>v d. Data (data_id d) (FLOAT v)),
     decode_int = (\<lambda>d. case data_value d of INTEGER v \<Rightarrow> Some v | _ \<Rightarrow> None),
     decode_bool = (\<lambda>d. case data_value d of BOOLEAN v \<Rightarrow> Some v | _ \<Rightarrow> None)\<rparr>"

lemma demo_wakaama_ok: "wakaama_ok demo_wakaama"
  by (simp add: wakaama_ok_def demo_wakaama_def)

subsection \<open>Instance lists\<close>

record 'i wakaama_list =
  list_find :: "'i list \<Rightarrow> u16 \<Rightarrow> nat option"
  list_add :: "'i list \<Rightarrow> 'i \<Rightarrow> 'i list"
  list_remove :: "'i list \<Rightarrow> u16 \<Rightarrow> 'i list \<times> 'i option"

definition list_ok :: "('i \<Rightarrow> u16) \<Rightarrow> 'i wakaama_list \<Rightarrow> bool" where
  "list_ok ident L \<longleftrightarrow>
     (\<forall>xs i. case list_find L xs i of
               None \<Rightarrow> i \<notin> ident ` set xs
             | Some k \<Rightarrow> k < length xs \<and> ident (xs ! k) = i)
   \<and> (\<forall>xs x. mset (list_add L xs x) = add_mset x (mset xs))
   \<and> (\<forall>xs i. case list_remove L xs i of
               (ys, None) \<Rightarrow> ys = xs \<and> i \<notin> ident ` set xs
             | (ys, Some x) \<Rightarrow> ident x = i \<and> mset xs = add_mset x (mset ys))"

lemma list_find_spec:
  "list_ok ident L \<Longrightarrow> case list_find L xs i of None \<Rightarrow> i \<notin> ident ` set xs
     | Some k \<Rightarrow> k < length xs \<and> ident (xs ! k) = i"
  by (simp add: list_ok_def)

lemma list_find_Some:
  "list_ok ident L \<Longrightarrow> list_find L xs i = Some k \<Longrightarrow> k < length xs \<and> ident (xs ! k) = i"
  by (drule list_find_spec [where xs = xs and i = i]) simp

lemma list_find_None:
  assumes "list_ok ident L"
  shows "list_find L xs i = None \<longleftrightarrow> i \<notin> ident ` set xs"
proof (cases "list_find L xs i")
  case None
  then show ?thesis using list_find_spec [OF assms, where xs = xs and i = i] by simp
next
  case (Some k)
  with list_find_Some [OF assms Some] show ?thesis by auto
qed

lemma list_add_mset: "list_ok ident L \<Longrightarrow> mset (list_add L xs x) = add_mset x (mset xs)"
  by (simp add: list_ok_def)

lemma list_remove_None:
  assumes "list_ok ident L" and "list_remove L xs i = (ys, None)"
  shows "ys = xs \<and> i \<notin> ident ` set xs"
proof -
  from assms(1) have "case list_remove L xs i of (ys, None) \<Rightarrow> ys = xs \<and> i \<notin> ident ` set xs
      | (ys, Some x) \<Rightarrow> ident x = i \<and> mset xs = add_mset x (mset ys)" by (simp add: list_ok_def)
  with assms(2) show ?thesis by simp
qed

lemma list_remove_Some:
  assumes "list_ok ident L" and "list_remove L xs i = (ys, Some x)"
  shows "ident x = i \<and> mset xs = add_mset x (mset ys)"
proof -
  from assms(1) have "case list_remove L xs i of (ys, None) \<Rightarrow> ys = xs \<and> i \<notin> ident ` set xs
      | (ys, Some x) \<Rightarrow> ident x = i \<and> mset xs = add_mset x (mset ys)" by (simp add: list_ok_def)
  with assms(2) show ?thesis by simp
qed

text \<open>The list the core keeps: found from the front, added in front, the first match removed.\<close>

fun demo_find :: "('i \<Rightarrow> u16) \<Rightarrow> 'i list \<Rightarrow> u16 \<Rightarrow> nat option" where
  "demo_find ident [] i = None"
| "demo_find ident (x # xs) i = (if ident x = i then Some 0 else map_option Suc (demo_find ident xs i))"

fun demo_remove :: "('i \<Rightarrow> u16) \<Rightarrow> 'i list \<Rightarrow> u16 \<Rightarrow> 'i list \<times> 'i option" where
  "demo_remove ident [] i = ([], None)"
| "demo_remove ident (x # xs) i =
     (if ident x = i then (xs, Some x) else case demo_remove ident xs i of (ys, r) \<Rightarrow> (x # ys, r))"

definition demo_list :: "('i \<Rightarrow> u16) \<Rightarrow> 'i wakaama_list" where
  "demo_list ident = \<lparr>list_find = demo_find ident, list_add = (\<lambda>xs x. x # xs),
     list_remove = demo_remove ident\<rparr>"

lemma demo_find_spec:
  "case demo_find ident xs i of None \<Rightarrow> i \<notin> ident ` set xs
   | Some k \<Rightarrow> k < length xs \<and> ident (xs ! k) = i"
  by (induction xs) (auto split: option.splits)

lemma demo_remove_spec:
  "case demo_remove ident xs i of (ys, None) \<Rightarrow> ys = xs \<and> i \<notin> ident ` set xs
   | (ys, Some x) \<Rightarrow> ident x = i \<and> mset xs = add_mset x (mset ys)"
  by (induction xs) (auto split: option.splits prod.splits)

lemma demo_list_ok: "list_ok ident (demo_list ident)"
  using demo_find_spec [where ident = ident] demo_remove_spec [where ident = ident]
  by (simp add: list_ok_def demo_list_def)

text \<open>
  The destructors' loop: the head of the list is unlinked and freed until the list is
  empty, then the object itself is.
\<close>

datatype 'i free_event = Free_instance 'i | Free_object

fun free_instances :: "'i list \<Rightarrow> 'i free_event list" where
  "free_instances [] = [Free_object]"
| "free_instances (x # xs) = Free_instance x # free_instances xs"

lemma free_instances_eq: "free_instances xs = map Free_instance xs @ [Free_object]"
  by (induction xs) auto

subsection \<open>The read loops\<close>

text \<open>
  The \<open>do \<dots> while (i < *numDataP && result == COAP_205_CONTENT)\<close> loop of the security,
  server and device objects over the data array; it reads element 0 before any test, so
  with no data it reads out of bounds (\<open>None\<close>).
\<close>

fun read_loop ::
    "(lwm2m_data \<Rightarrow> lwm2m_data \<times> coap_status) \<Rightarrow> lwm2m_data list \<Rightarrow>
     (coap_status \<times> lwm2m_data list) option" where
  "read_loop get [] = None"
| "read_loop get (d # ds) =
     (case (if is_multiple d then (d, COAP_404_NOT_FOUND) else get d) of
        (d', r) \<Rightarrow>
          if ds \<noteq> [] \<and> r = COAP_205_CONTENT then
            map_option (\<lambda>(r', ds'). (r', d' # ds')) (read_loop get ds)
          else Some (r, d' # ds))"

text \<open>
  The \<open>for\<close> loop of the accelerometer and temperature objects: \<open>ret\<close> keeps the value of the
  last element, and the loop is left at the first one that is not content.
\<close>

fun read_for ::
    "(lwm2m_data \<Rightarrow> lwm2m_data \<times> coap_status) \<Rightarrow> coap_status \<Rightarrow> lwm2m_data list \<Rightarrow>
     coap_status \<times> lwm2m_data list" where
  "read_for get ret [] = (ret, [])"
| "read_for get ret (d # ds) =
     (case get d of (d', r) \<Rightarrow>
        if r \<noteq> COAP_205_CONTENT then (r, d' # ds)
        else (case read_for get r ds of (r', ds') \<Rightarrow> (r', d' # ds')))"

text \<open>
  A request with no data asks for the full object: a new array is made and its ids are set
  to the object's resource list.
\<close>

definition full_array :: "wakaama \<Rightarrow> u16 list \<Rightarrow> lwm2m_data list option" where
  "full_array W resList =
     map_option (map2 (\<lambda>i d. Data i (data_value d)) resList) (data_new W (length resList))"

definition read_request ::
    "wakaama \<Rightarrow> u16 list \<Rightarrow> (lwm2m_data \<Rightarrow> lwm2m_data \<times> coap_status) \<Rightarrow> lwm2m_data list \<Rightarrow>
     (coap_status \<times> lwm2m_data list) option" where
  "read_request W resList get ds =
     (if ds = [] then
        (case full_array W resList of
           None \<Rightarrow> Some (COAP_500_INTERNAL_SERVER_ERROR, [])
         | Some ds' \<Rightarrow> read_loop get ds')
      else read_loop get ds)"

definition read_for_request ::
    "wakaama \<Rightarrow> u16 list \<Rightarrow> (lwm2m_data \<Rightarrow> lwm2m_data \<times> coap_status) \<Rightarrow> lwm2m_data list \<Rightarrow>
     coap_status \<times> lwm2m_data list" where
  "read_for_request W resource_list get ds =
     (if ds = [] then
        (case full_array W resource_list of
           None \<Rightarrow> (COAP_500_INTERNAL_SERVER_ERROR, [])
         | Some ds' \<Rightarrow> read_for get COAP_NO_ERROR ds')
      else read_for get COAP_NO_ERROR ds)"

lemma full_array_Some:
  assumes "wakaama_ok W" and "full_array W resList = Some ds"
  shows "map data_id ds = resList \<and> (\<forall>d \<in> set ds. data_value d = UNDEFINED)"
proof -
  from assms(2) obtain es where es: "data_new W (length resList) = Some es"
      and ds: "ds = map2 (\<lambda>i d. Data i (data_value d)) resList es"
    by (auto simp: full_array_def)
  from assms(1) es have "length es = length resList" and u: "\<forall>d \<in> set es. data_value d = UNDEFINED"
    by (auto simp: wakaama_ok_def)
  with ds show ?thesis
    by (auto simp: comp_def split_def intro: nth_equalityI dest!: set_zip_rightD)
qed

lemma read_loop_not_None: "read_loop get ds = None \<longleftrightarrow> ds = []"
  by (induction get ds rule: read_loop.induct) (auto split: prod.splits)

subsection \<open>The contract of a resource getter\<close>

text \<open>
  Every object passes its loop a function that fills in one datum. The contract: it
  reports content exactly for the resources the object can read, leaves the datum alone
  otherwise, and (given the core's documented behaviour, \<open>lib_ok\<close>) keeps its id.
\<close>

locale resource_getter =
  fixes get :: "lwm2m_data \<Rightarrow> lwm2m_data \<times> coap_status"
    and readable :: "u16 set"
    and lib_ok :: bool
  assumes get_content: "snd (get d) = COAP_205_CONTENT \<longleftrightarrow> data_id d \<in> readable"
    and get_other: "snd (get d) \<noteq> COAP_205_CONTENT \<Longrightarrow> fst (get d) = d"
    and get_id: "lib_ok \<Longrightarrow> data_id (fst (get d)) = data_id d"
begin

lemma read_loop_content:
  "read_loop get ds = Some (r, ds') \<Longrightarrow>
     r = COAP_205_CONTENT \<longleftrightarrow> (\<forall>d \<in> set ds. \<not> is_multiple d \<and> data_id d \<in> readable)"
proof (induction ds arbitrary: r ds')
  case Nil
  then show ?case by simp
next
  case (Cons d ds)
  then show ?case
    using get_content [of d] by (cases "get d") (auto split: if_splits)
qed

text \<open>What is written: a prefix of the array, up to the first resource that is not content.\<close>

lemma read_loop_prefix:
  "read_loop get ds = Some (r, ds') \<Longrightarrow>
     \<exists>k \<le> length ds. ds' = map (\<lambda>d. fst (get d)) (take k ds) @ drop k ds
       \<and> (\<forall>d \<in> set (take k ds). data_id d \<in> readable)
       \<and> (r = COAP_205_CONTENT \<longrightarrow> k = length ds)"
proof (induction ds arbitrary: r ds')
  case Nil
  then show ?case by simp
next
  case (Cons d ds)
  obtain d' r0 where g: "(if is_multiple d then (d, COAP_404_NOT_FOUND) else get d) = (d', r0)"
    by fastforce
  show ?case
  proof (cases "ds \<noteq> [] \<and> r0 = COAP_205_CONTENT")
    case True
    with Cons.prems g obtain ds1 where l: "read_loop get ds = Some (r, ds1)" and ds': "ds' = d' # ds1"
      by auto
    from g True have d: "d' = fst (get d)" "data_id d \<in> readable"
      using get_content [of d] by (auto split: if_splits)
    from Cons.IH [OF l] obtain k where
      "k \<le> length ds" "ds1 = map (\<lambda>d. fst (get d)) (take k ds) @ drop k ds"
      "\<forall>d \<in> set (take k ds). data_id d \<in> readable" "r = COAP_205_CONTENT \<longrightarrow> k = length ds" by blast
    with ds' d show ?thesis by (intro exI [of _ "Suc k"]) auto
  next
    case False
    with Cons.prems g have r: "r = r0" "ds' = d' # ds" by auto
    show ?thesis
    proof (cases "r0 = COAP_205_CONTENT")
      case True
      with False g have "ds = []" "d' = fst (get d)" "data_id d \<in> readable"
        using get_content [of d] by (auto split: if_splits)
      with r show ?thesis by (intro exI [of _ 1]) auto
    next
      case False
      with g have "d' = d" using get_other [of d] by (auto split: if_splits)
      with r False show ?thesis by (intro exI [of _ 0]) auto
    qed
  qed
qed

lemma read_loop_ids:
  assumes "lib_ok" and "read_loop get ds = Some (r, ds')"
  shows "map data_id ds' = map data_id ds"
proof -
  from read_loop_prefix [OF assms(2)] obtain k where
    ds': "ds' = map (\<lambda>d. fst (get d)) (take k ds) @ drop k ds" by blast
  have "map data_id ds' = map data_id (take k ds) @ map data_id (drop k ds)"
    by (simp add: ds' comp_def get_id [OF assms(1)])
  also have "\<dots> = map data_id ds" by (metis append_take_drop_id map_append)
  finally show ?thesis .
qed

lemma read_for_content:
  "read_for get ret ds = (r, ds') \<Longrightarrow> ds \<noteq> [] \<Longrightarrow>
     r = COAP_205_CONTENT \<longleftrightarrow> (\<forall>d \<in> set ds. data_id d \<in> readable)"
proof (induction ds arbitrary: ret r ds')
  case Nil
  then show ?case by simp
next
  case (Cons d ds)
  obtain d1 r1 where g: "get d = (d1, r1)" by fastforce
  show ?case
  proof (cases "r1 = COAP_205_CONTENT")
    case False
    with Cons.prems g get_content [of d] show ?thesis by auto
  next
    case True
    obtain r2 ds2 where l: "read_for get r1 ds = (r2, ds2)" by fastforce
    with Cons.prems g True have r: "r = r2" by simp
    show ?thesis
    proof (cases "ds = []")
      case True
      with l r g \<open>r1 = COAP_205_CONTENT\<close> get_content [of d] show ?thesis by simp
    next
      case False
      from Cons.IH [OF l False] r g \<open>r1 = COAP_205_CONTENT\<close> get_content [of d] show ?thesis by simp
    qed
  qed
qed

lemma read_for_values:
  "read_for get ret ds = (COAP_205_CONTENT, ds') \<Longrightarrow> ds' = map (\<lambda>d. fst (get d)) ds"
  by (induction ds arbitrary: ret ds') (auto split: if_splits prod.splits)

text \<open>A full read of resources that are all readable returns each of them, in order.\<close>

lemma read_request_full:
  assumes "wakaama_ok W" and "lib_ok" and "set resList \<subseteq> readable" and "resList \<noteq> []"
    and "full_array W resList = Some ds"
  shows "\<exists>ds'. read_request W resList get [] = Some (COAP_205_CONTENT, ds')
           \<and> ds' = map (\<lambda>d. fst (get d)) ds \<and> map data_id ds' = resList"
proof -
  from full_array_Some [OF assms(1,5)] have ids: "map data_id ds = resList"
      and u: "\<forall>d \<in> set ds. data_value d = UNDEFINED" by auto
  with assms(4) obtain r ds' where l: "read_loop get ds = Some (r, ds')"
    using read_loop_not_None [of get ds] by auto
  have "\<forall>d \<in> set ds. \<not> is_multiple d \<and> data_id d \<in> readable"
  proof
    fix d assume d: "d \<in> set ds"
    with ids assms(3) have "data_id d \<in> readable" by auto
    moreover from u d have "\<not> is_multiple d" by (cases d) auto
    ultimately show "\<not> is_multiple d \<and> data_id d \<in> readable" by blast
  qed
  with read_loop_content [OF l] have r: "r = COAP_205_CONTENT" by blast
  with read_loop_prefix [OF l] have "ds' = map (\<lambda>d. fst (get d)) ds" by auto
  moreover from read_loop_ids [OF assms(2) l] ids have "map data_id ds' = resList" by simp
  ultimately show ?thesis using l r assms(5) by (simp add: read_request_def)
qed

lemma read_request_content:
  "read_request W resList get ds = Some (r, ds') \<Longrightarrow> ds \<noteq> [] \<Longrightarrow>
     r = COAP_205_CONTENT \<longleftrightarrow> (\<forall>d \<in> set ds. \<not> is_multiple d \<and> data_id d \<in> readable)"
  using read_loop_content by (simp add: read_request_def)

text \<open>Both kinds of request at once, as the handlers answer them.\<close>

lemma read_request_correct:
  assumes "wakaama_ok W" and "lib_ok" and "set resList \<subseteq> readable" and "resList \<noteq> []"
  shows "(ds \<noteq> [] \<longrightarrow> (\<exists>r ds'. read_request W resList get ds = Some (r, ds')
            \<and> map data_id ds' = map data_id ds
            \<and> (r = COAP_205_CONTENT \<longleftrightarrow> (\<forall>d \<in> set ds. \<not> is_multiple d \<and> data_id d \<in> readable))))
     \<and> (data_new W (length resList) \<noteq> None \<longrightarrow>
          (\<exists>ds'. read_request W resList get [] = Some (COAP_205_CONTENT, ds')
             \<and> map data_id ds' = resList))"
proof (intro conjI impI)
  assume ne: "ds \<noteq> []"
  then obtain r ds' where l: "read_loop get ds = Some (r, ds')"
    using read_loop_not_None [of get ds] by fastforce
  with ne read_loop_content [OF l] read_loop_ids [OF assms(2) l]
  show "\<exists>r ds'. read_request W resList get ds = Some (r, ds') \<and> map data_id ds' = map data_id ds
      \<and> (r = COAP_205_CONTENT \<longleftrightarrow> (\<forall>d \<in> set ds. \<not> is_multiple d \<and> data_id d \<in> readable))"
    by (simp add: read_request_def)
next
  assume "data_new W (length resList) \<noteq> None"
  then obtain es where "full_array W resList = Some es" by (auto simp: full_array_def)
  from read_request_full [OF assms this]
  show "\<exists>ds'. read_request W resList get [] = Some (COAP_205_CONTENT, ds') \<and> map data_id ds' = resList"
    by blast
qed

text \<open>The other loop, over an array whose values are filled in place.\<close>

lemma read_for_correct:
  assumes "read_for get ret ds = (r, ds')" and "ds \<noteq> []"
  shows "(r = COAP_205_CONTENT \<longleftrightarrow> (\<forall>d \<in> set ds. data_id d \<in> readable))
     \<and> (r = COAP_205_CONTENT \<longrightarrow> ds' = map (\<lambda>d. fst (get d)) ds)"
  using read_for_content [OF assms] read_for_values assms(1) by blast

end

end
