(* ===== verification/Object_Server.thy ===== *)
theory Object_Server
  imports Lwm2m
begin

text \<open>
  The LwM2M server object (\<open>csrc/src/lwm2m/lightclient/object_server.c\<close>): its instances,
  the read, discover, write, execute, delete and create handlers, and the constructor and
  destructor. Resource ids are those of the table at the head of the file. The build does
  not define \<open>LWM2M_VERSION_1_0\<close>, so the binding value itself is not checked.
\<close>

abbreviation LWM2M_SERVER_SHORT_ID_ID :: u16 where "LWM2M_SERVER_SHORT_ID_ID \<equiv> 0"
abbreviation LWM2M_SERVER_LIFETIME_ID :: u16 where "LWM2M_SERVER_LIFETIME_ID \<equiv> 1"
abbreviation LWM2M_SERVER_MIN_PERIOD_ID :: u16 where "LWM2M_SERVER_MIN_PERIOD_ID \<equiv> 2"
abbreviation LWM2M_SERVER_MAX_PERIOD_ID :: u16 where "LWM2M_SERVER_MAX_PERIOD_ID \<equiv> 3"
abbreviation LWM2M_SERVER_DISABLE_ID :: u16 where "LWM2M_SERVER_DISABLE_ID \<equiv> 4"
abbreviation LWM2M_SERVER_TIMEOUT_ID :: u16 where "LWM2M_SERVER_TIMEOUT_ID \<equiv> 5"
abbreviation LWM2M_SERVER_STORING_ID :: u16 where "LWM2M_SERVER_STORING_ID \<equiv> 6"
abbreviation LWM2M_SERVER_BINDING_ID :: u16 where "LWM2M_SERVER_BINDING_ID \<equiv> 7"
abbreviation LWM2M_SERVER_UPDATE_ID :: u16 where "LWM2M_SERVER_UPDATE_ID \<equiv> 8"

record server_instance =
  srv_instanceId :: u16
  shortServerId :: u16
  lifetime :: u32
  storing :: bool
  binding :: string

definition server_zero :: "u16 \<Rightarrow> server_instance" where
  "server_zero i = \<lparr>srv_instanceId = i, shortServerId = 0, lifetime = 0, storing = False,
     binding = replicate 4 NUL\<rparr>"

subsection \<open>Reading\<close>

definition server_get_value ::
    "wakaama \<Rightarrow> server_instance \<Rightarrow> lwm2m_data \<Rightarrow> lwm2m_data \<times> coap_status" where
  "server_get_value W targetP dataP =
     (if data_id dataP = LWM2M_SERVER_SHORT_ID_ID then
        (encode_int W (uint (shortServerId targetP)) dataP, COAP_205_CONTENT)
      else if data_id dataP = LWM2M_SERVER_LIFETIME_ID then
        (encode_int W (uint (lifetime targetP)) dataP, COAP_205_CONTENT)
      else if data_id dataP = LWM2M_SERVER_DISABLE_ID then (dataP, COAP_405_METHOD_NOT_ALLOWED)
      else if data_id dataP = LWM2M_SERVER_STORING_ID then
        (encode_bool W (storing targetP) dataP, COAP_205_CONTENT)
      else if data_id dataP = LWM2M_SERVER_BINDING_ID then
        (encode_string W (binding targetP) dataP, COAP_205_CONTENT)
      else if data_id dataP = LWM2M_SERVER_UPDATE_ID then (dataP, COAP_405_METHOD_NOT_ALLOWED)
      else (dataP, COAP_404_NOT_FOUND))"

definition server_readList :: "u16 list" where
  "server_readList = [LWM2M_SERVER_SHORT_ID_ID, LWM2M_SERVER_LIFETIME_ID,
     LWM2M_SERVER_STORING_ID, LWM2M_SERVER_BINDING_ID]"

definition prv_server_read ::
    "wakaama \<Rightarrow> server_instance wakaama_list \<Rightarrow> server_instance list \<Rightarrow> u16 \<Rightarrow> lwm2m_data list \<Rightarrow>
     (coap_status \<times> lwm2m_data list) option" where
  "prv_server_read W L instances instanceId ds =
     (case list_find L instances instanceId of
        None \<Rightarrow> Some (COAP_404_NOT_FOUND, ds)
      | Some k \<Rightarrow> read_request W server_readList (server_get_value W (instances ! k)) ds)"

definition server_discoverList :: "u16 list" where
  "server_discoverList = [LWM2M_SERVER_SHORT_ID_ID, LWM2M_SERVER_LIFETIME_ID,
     LWM2M_SERVER_MIN_PERIOD_ID, LWM2M_SERVER_MAX_PERIOD_ID, LWM2M_SERVER_DISABLE_ID,
     LWM2M_SERVER_TIMEOUT_ID, LWM2M_SERVER_STORING_ID, LWM2M_SERVER_BINDING_ID,
     LWM2M_SERVER_UPDATE_ID]"

text \<open>
  Discover: the full list, or a check of each id (the loop stops at the first that is not
  a resource; it does not look at the instance).
\<close>

definition prv_server_discover ::
    "wakaama \<Rightarrow> lwm2m_data list \<Rightarrow> coap_status \<times> lwm2m_data list" where
  "prv_server_discover W ds =
     (if ds = [] then
        (case full_array W server_discoverList of
           None \<Rightarrow> (COAP_500_INTERNAL_SERVER_ERROR, [])
         | Some ds' \<Rightarrow> (COAP_205_CONTENT, ds'))
      else (if list_all (\<lambda>d. data_id d \<in> set server_discoverList) ds
              then COAP_205_CONTENT else COAP_404_NOT_FOUND, ds))"

subsection \<open>Writing\<close>

definition prv_set_int_value :: "wakaama \<Rightarrow> lwm2m_data \<Rightarrow> u32 \<Rightarrow> coap_status \<times> u32" where
  "prv_set_int_value W d data =
     (case decode_int W d of
        Some v \<Rightarrow>
          if v \<ge> 0 \<and> v \<le> 0xFFFFFFFF then (COAP_204_CHANGED, word_of_int v)
          else (COAP_406_NOT_ACCEPTABLE, data)
      | None \<Rightarrow> (COAP_400_BAD_REQUEST, data))"

fun value_buffer :: "lwm2m_value \<Rightarrow> string option" where
  "value_buffer (STRING s) = Some s"
| "value_buffer (OPAQUE s) = Some s"
| "value_buffer _ = None"

text \<open>
  One pass of the switch over \<open>dataArray[i].id\<close>. The local \<open>value\<close> of the short id is
  uninitialised until it is set, so its start value (0 here) is never used.
\<close>

definition write_resource ::
    "wakaama \<Rightarrow> lwm2m_data \<Rightarrow> server_instance \<Rightarrow> coap_status \<times> server_instance" where
  "write_resource W d targetP =
     (if data_id d = LWM2M_SERVER_SHORT_ID_ID then
        (case prv_set_int_value W d 0 of (result, v) \<Rightarrow>
           if result = COAP_204_CHANGED then
             if 0 < v \<and> v \<le> 0xFFFF then (result, targetP\<lparr>shortServerId := ucast v\<rparr>)
             else (COAP_406_NOT_ACCEPTABLE, targetP)
           else (result, targetP))
      else if data_id d = LWM2M_SERVER_LIFETIME_ID then
        (case prv_set_int_value W d (lifetime targetP) of (result, v) \<Rightarrow>
           (result, targetP\<lparr>lifetime := v\<rparr>))
      else if data_id d = LWM2M_SERVER_DISABLE_ID then (COAP_405_METHOD_NOT_ALLOWED, targetP)
      else if data_id d = LWM2M_SERVER_STORING_ID then
        (case decode_bool W d of
           Some b \<Rightarrow> (COAP_204_CHANGED, targetP\<lparr>storing := b\<rparr>)
         | None \<Rightarrow> (COAP_400_BAD_REQUEST, targetP))
      else if data_id d = LWM2M_SERVER_BINDING_ID then
        (case value_buffer (data_value d) of
           Some b \<Rightarrow>
             if 0 < length b \<and> length b \<le> 3 then
               (case strncpy (binding targetP) b (length b) of
                  Some r \<Rightarrow> (COAP_204_CHANGED, targetP\<lparr>binding := r\<rparr>)
                | None \<Rightarrow> (COAP_400_BAD_REQUEST, targetP))
             else (COAP_400_BAD_REQUEST, targetP)
         | None \<Rightarrow> (COAP_400_BAD_REQUEST, targetP))
      else if data_id d = LWM2M_SERVER_UPDATE_ID then (COAP_405_METHOD_NOT_ALLOWED, targetP)
      else (COAP_404_NOT_FOUND, targetP))"

fun write_loop ::
    "wakaama \<Rightarrow> lwm2m_data list \<Rightarrow> server_instance \<Rightarrow> (coap_status \<times> server_instance) option" where
  "write_loop W [] t = None"
| "write_loop W (d # ds) t =
     (case (if is_multiple d then (COAP_404_NOT_FOUND, t) else write_resource W d t) of
        (r, t') \<Rightarrow> if ds \<noteq> [] \<and> r = COAP_204_CHANGED then write_loop W ds t' else Some (r, t'))"

text \<open>The handler with \<open>LWM2M_WRITE_REPLACE_RESOURCES\<close>: the instance is updated in place.\<close>

definition server_write_resources ::
    "wakaama \<Rightarrow> server_instance wakaama_list \<Rightarrow> server_instance list \<Rightarrow> u16 \<Rightarrow> lwm2m_data list \<Rightarrow>
     (coap_status \<times> server_instance list) option" where
  "server_write_resources W L instances instanceId ds =
     (case list_find L instances instanceId of
        None \<Rightarrow> Some (COAP_404_NOT_FOUND, instances)
      | Some k \<Rightarrow>
          map_option (\<lambda>(r, t'). (r, instances[k := t'])) (write_loop W ds (instances ! k)))"

definition prv_server_execute ::
    "server_instance wakaama_list \<Rightarrow> server_instance list \<Rightarrow> u16 \<Rightarrow> u16 \<Rightarrow> coap_status" where
  "prv_server_execute L instances instanceId resourceId =
     (case list_find L instances instanceId of
        None \<Rightarrow> COAP_404_NOT_FOUND
      | Some k \<Rightarrow>
          if resourceId = LWM2M_SERVER_DISABLE_ID then COAP_204_CHANGED
          else if resourceId = LWM2M_SERVER_UPDATE_ID then COAP_204_CHANGED
          else COAP_405_METHOD_NOT_ALLOWED)"

definition prv_server_delete ::
    "server_instance wakaama_list \<Rightarrow> server_instance list \<Rightarrow> u16 \<Rightarrow> coap_status \<times> server_instance list" where
  "prv_server_delete L instances i =
     (case list_remove L instances i of
        (ys, None) \<Rightarrow> (COAP_404_NOT_FOUND, ys)
      | (ys, Some x) \<Rightarrow> (COAP_202_DELETED, ys))"

text \<open>\<open>alloc\<close> says whether \<open>lwm2m_malloc\<close> of the instance succeeds.\<close>

definition prv_server_create ::
    "wakaama \<Rightarrow> server_instance wakaama_list \<Rightarrow> bool \<Rightarrow> server_instance list \<Rightarrow> u16 \<Rightarrow>
     lwm2m_data list \<Rightarrow> (coap_status \<times> server_instance list) option" where
  "prv_server_create W L alloc instances instanceId ds =
     (if \<not> alloc then Some (COAP_500_INTERNAL_SERVER_ERROR, instances)
      else let added = list_add L instances (server_zero instanceId) in
        (case server_write_resources W L added instanceId ds of
           None \<Rightarrow> None
         | Some (result, instances') \<Rightarrow>
             if result \<noteq> COAP_204_CHANGED
             then Some (result, snd (prv_server_delete L instances' instanceId))
             else Some (COAP_201_CREATED, instances')))"

datatype lwm2m_write_type = LWM2M_WRITE_REPLACE_RESOURCES | LWM2M_WRITE_REPLACE_INSTANCE | LWM2M_WRITE_PARTIAL_UPDATE

definition prv_server_write ::
    "wakaama \<Rightarrow> server_instance wakaama_list \<Rightarrow> bool \<Rightarrow> server_instance list \<Rightarrow> u16 \<Rightarrow>
     lwm2m_data list \<Rightarrow> lwm2m_write_type \<Rightarrow> (coap_status \<times> server_instance list) option" where
  "prv_server_write W L alloc instances instanceId ds writeType =
     (case list_find L instances instanceId of
        None \<Rightarrow> Some (COAP_404_NOT_FOUND, instances)
      | Some k \<Rightarrow>
          if writeType = LWM2M_WRITE_REPLACE_INSTANCE then
            (case prv_server_delete L instances instanceId of
               (result, instances') \<Rightarrow>
                 if result = COAP_202_DELETED then
                   map_option (\<lambda>(r, ys). (if r = COAP_201_CREATED then COAP_204_CHANGED else r, ys))
                     (prv_server_create W L alloc instances' instanceId ds)
                 else Some (result, instances'))
          else server_write_resources W L instances instanceId ds)"

text \<open>
  The constructor: two allocations, one hardcoded instance. \<open>None\<close> is the NULL result.
\<close>

record server_object =
  so_objID :: u16
  so_instances :: "server_instance list"

definition get_server_object ::
    "server_instance wakaama_list \<Rightarrow> bool \<Rightarrow> bool \<Rightarrow> server_object option" where
  "get_server_object L obj_alloc inst_alloc =
     (if obj_alloc \<and> inst_alloc then
        Some \<lparr>so_objID = 1,
              so_instances = list_add L []
                ((server_zero 0)\<lparr>shortServerId := 123, lifetime := 15 * 60, storing := False,
                   binding := (replicate 4 NUL)[0 := CHR ''U'']\<rparr>)\<rparr>
      else None)"

text \<open>The destructor: every instance in turn, then the object.\<close>

definition free_server_object :: "server_object \<Rightarrow> server_instance free_event list" where
  "free_server_object obj = free_instances (so_instances obj)"

end
