(* ===== verification/Object_Server_Correct.thy ===== *)
theory Object_Server_Correct
  imports Object_Server
begin

text \<open>
  Correctness of the server object: what can be read and discovered, that writes stay
  inside an instance and keep it well formed, that create is all or nothing, and the two
  places where an update does not do what it says.
\<close>

subsection \<open>Reading\<close>

definition server_readable :: "u16 set" where
  "server_readable = {LWM2M_SERVER_SHORT_ID_ID, LWM2M_SERVER_LIFETIME_ID,
     LWM2M_SERVER_STORING_ID, LWM2M_SERVER_BINDING_ID}"

interpretation srv: resource_getter "server_get_value W t" server_readable "wakaama_ok W" for W t
  by unfold_locales (auto simp: server_get_value_def server_readable_def)

text \<open>
  A read of named resources of an existing server instance is content exactly when
  each of them is a single short id, lifetime, storing flag or binding; a read of the whole
  instance returns these four, in the order of the object's list.
\<close>

theorem server_read_correct:
  assumes "wakaama_ok W" and "list_find L instances i = Some k"
  shows "(ds \<noteq> [] \<longrightarrow> (\<exists>r ds'. prv_server_read W L instances i ds = Some (r, ds')
            \<and> map data_id ds' = map data_id ds
            \<and> (r = COAP_205_CONTENT \<longleftrightarrow>
                 (\<forall>d \<in> set ds. \<not> is_multiple d \<and> data_id d \<in> server_readable))))
     \<and> (data_new W (length server_readList) \<noteq> None \<longrightarrow>
          (\<exists>ds'. prv_server_read W L instances i [] = Some (COAP_205_CONTENT, ds')
             \<and> map data_id ds' = server_readList))"
  using srv.read_request_correct [OF assms(1) assms(1),
      where resList = server_readList and t = "instances ! k" and ds = ds] assms(2)
  by (simp add: prv_server_read_def server_readList_def server_readable_def)

theorem server_read_correct_witness:
  "\<exists>ds'. prv_server_read demo_wakaama (demo_list srv_instanceId) [server_zero 0] 0 []
       = Some (COAP_205_CONTENT, ds') \<and> map data_id ds' = server_readList"
proof -
  have f: "list_find (demo_list srv_instanceId) [server_zero 0] 0 = Some 0"
    by (simp add: demo_list_def server_zero_def)
  have "data_new demo_wakaama (length server_readList) \<noteq> None" by (simp add: demo_wakaama_def)
  with server_read_correct [OF demo_wakaama_ok f, of "[]"] show ?thesis by blast
qed

text \<open>
  Discover advertises more than the object implements: it answers content for the
  minimum and maximum period and the disable timeout, which reads and writes of the same
  instance reject as not found.
\<close>

theorem server_discover_unreadable:
  assumes "i \<in> {LWM2M_SERVER_MIN_PERIOD_ID, LWM2M_SERVER_MAX_PERIOD_ID, LWM2M_SERVER_TIMEOUT_ID}"
  shows "fst (prv_server_discover W [Data i v]) = COAP_205_CONTENT
     \<and> snd (server_get_value W t (Data i v)) = COAP_404_NOT_FOUND
     \<and> write_resource W (Data i v) t = (COAP_404_NOT_FOUND, t)"
  using assms
  by (auto simp: prv_server_discover_def server_discoverList_def server_get_value_def write_resource_def)

theorem server_discover_unreadable_witness:
  "fst (prv_server_discover demo_wakaama [Data LWM2M_SERVER_TIMEOUT_ID UNDEFINED]) = COAP_205_CONTENT
   \<and> snd (server_get_value demo_wakaama (server_zero 0) (Data LWM2M_SERVER_TIMEOUT_ID UNDEFINED))
       = COAP_404_NOT_FOUND"
  using server_discover_unreadable [of LWM2M_SERVER_TIMEOUT_ID demo_wakaama UNDEFINED "server_zero 0"]
  by simp

subsection \<open>Writing one instance\<close>

text \<open>
  A well formed instance: the binding is four bytes, the last of them the terminator.
\<close>

definition server_wf :: "server_instance \<Rightarrow> bool" where
  "server_wf t \<longleftrightarrow> length (binding t) = 4 \<and> binding t ! 3 = NUL"

lemma server_wf_zero: "server_wf (server_zero i)"
  by (simp add: server_wf_def server_zero_def)

lemma binding_write:
  assumes "server_wf t" and "0 < length b" and "length b \<le> 3"
  shows "strncpy (binding t) b (length b) =
           Some (strncpy_bytes b (length b) @ drop (length b) (binding t))"
    and "server_wf (t\<lparr>binding := strncpy_bytes b (length b) @ drop (length b) (binding t)\<rparr>)"
  using assms by (auto simp: strncpy_def server_wf_def nth_append)

lemma write_resource_frame:
  "write_resource W d t = (r, t') \<Longrightarrow> srv_instanceId t' = srv_instanceId t"
  by (auto simp: write_resource_def split: if_splits prod.splits option.splits)

lemma write_resource_wf:
  "write_resource W d t = (r, t') \<Longrightarrow> server_wf t \<Longrightarrow> server_wf t'"
  by (auto simp: write_resource_def binding_write split: if_splits prod.splits option.splits)
    (auto simp: server_wf_def)

lemma write_resource_shortid:
  assumes "write_resource W d t = (r, t')"
  shows "shortServerId t' = shortServerId t \<or> shortServerId t' \<noteq> 0"
proof -
  have nz: "(ucast v :: u16) \<noteq> 0" if "0 < v" "v \<le> 0xFFFF" for v :: u32
  proof
    assume "(ucast v :: u16) = 0"
    then have "uint (ucast v :: u16) = 0" by simp
    then have "uint v mod 2 ^ 16 = 0" by (simp add: unsigned_ucast_eq take_bit_word_eq_self uint_word_of_int take_bit_eq_mod unsigned_take_bit_eq)
    moreover have "0 < uint v" "uint v \<le> 0xFFFF"
      using that by (simp_all add: word_less_def word_le_def)
    ultimately show False by simp
  qed
  from assms show ?thesis
    by (auto simp: write_resource_def nz split: if_splits prod.splits option.splits)
qed

lemma write_loop_preserves:
  assumes "write_loop W ds t = Some (r, t')"
  shows "srv_instanceId t' = srv_instanceId t \<and> (server_wf t \<longrightarrow> server_wf t')"
  using assms
proof (induction ds arbitrary: t)
  case Nil
  then show ?case by simp
next
  case (Cons d ds)
  obtain r1 t1 where w: "(if is_multiple d then (COAP_404_NOT_FOUND, t) else write_resource W d t) = (r1, t1)"
    by fastforce
  then have one: "srv_instanceId t1 = srv_instanceId t \<and> (server_wf t \<longrightarrow> server_wf t1)"
    by (auto dest: write_resource_frame write_resource_wf split: if_splits)
  show ?case
  proof (cases "ds \<noteq> [] \<and> r1 = COAP_204_CHANGED")
    case True
    with Cons.prems w have "write_loop W ds t1 = Some (r, t')" by simp
    from Cons.IH [OF this] one show ?thesis by simp
  next
    case False
    with Cons.prems w one show ?thesis by auto
  qed
qed

lemma write_loop_not_None: "write_loop W ds t = None \<longleftrightarrow> ds = []"
  by (induction W ds t rule: write_loop.induct) (auto split: prod.splits)

text \<open>
  What a write stores is what a read returns: a lifetime in the 32-bit range, a short
  id between 1 and 65535 and the storing flag come back unchanged, and a number outside its
  range is refused without touching the instance.
\<close>

theorem server_write_read:
  assumes "wakaama_ok W" and "decode_int W d = Some v"
  shows "(data_id d = LWM2M_SERVER_LIFETIME_ID \<and> 0 \<le> v \<and> v \<le> 0xFFFFFFFF \<longrightarrow>
            (\<exists>t'. write_resource W d t = (COAP_204_CHANGED, t')
               \<and> server_get_value W t' d = (Data (data_id d) (INTEGER v), COAP_205_CONTENT)))
     \<and> (data_id d = LWM2M_SERVER_SHORT_ID_ID \<and> 0 < v \<and> v \<le> 0xFFFF \<longrightarrow>
            (\<exists>t'. write_resource W d t = (COAP_204_CHANGED, t')
               \<and> server_get_value W t' d = (Data (data_id d) (INTEGER v), COAP_205_CONTENT)))
     \<and> (data_id d = LWM2M_SERVER_LIFETIME_ID \<and> (v < 0 \<or> 0xFFFFFFFF < v) \<longrightarrow>
            write_resource W d t = (COAP_406_NOT_ACCEPTABLE, t))
     \<and> (data_id d = LWM2M_SERVER_SHORT_ID_ID \<and> (v \<le> 0 \<or> 0xFFFF < v) \<longrightarrow>
            write_resource W d t = (COAP_406_NOT_ACCEPTABLE, t))"
proof -
  have enc: "encode_int W n e = Data (data_id e) (INTEGER n)" for n e
    using assms(1) by (simp add: wakaama_ok_def)
  have lt: "uint (word_of_int v :: u32) = v" if "0 \<le> v" "v \<le> 0xFFFFFFFF"
    using that by (simp add: uint_word_of_int)
  have sh: "uint (ucast (word_of_int v :: u32) :: u16) = v"
      "0 < (word_of_int v :: u32)" "(word_of_int v :: u32) \<le> 0xFFFF" if "0 < v" "v \<le> 0xFFFF"
    using that by (simp_all add: uint_word_of_int unsigned_ucast_eq take_bit_int_eq_self
        word_less_def word_le_def unsigned_take_bit_eq take_bit_eq_mod)
  have le: "v \<le> 0xFFFF" if "0 \<le> v" "v \<le> 0xFFFFFFFF" "(word_of_int v :: u32) \<le> 0xFFFF"
    using that by (simp add: word_le_def uint_word_of_int)
  have ge: "0 < v" if "0 \<le> v" "0 < (word_of_int v :: u32)"
    using that by (cases "v = 0") auto
  show ?thesis
    using assms(2) lt sh le ge
    by (auto simp: write_resource_def prv_set_int_value_def server_get_value_def enc)
qed

theorem server_write_read_witness:
  "\<exists>t'. write_resource demo_wakaama (Data LWM2M_SERVER_LIFETIME_ID (INTEGER 3600)) (server_zero 0)
          = (COAP_204_CHANGED, t')
     \<and> server_get_value demo_wakaama t' (Data LWM2M_SERVER_LIFETIME_ID (INTEGER 3600))
          = (Data LWM2M_SERVER_LIFETIME_ID (INTEGER 3600), COAP_205_CONTENT)"
  using server_write_read [OF demo_wakaama_ok,
      where d = "Data LWM2M_SERVER_LIFETIME_ID (INTEGER 3600)" and v = 3600 and t = "server_zero 0"]
  by (simp add: demo_wakaama_def)

text \<open>
  A shorter binding does not replace a longer one: the copy writes exactly the bytes of
  the value and no terminator, so after a successful write of \<open>n\<close> characters over a longer
  binding, the object still reads the old characters from position \<open>n\<close> on.
\<close>

theorem server_binding_stale_tail:
  assumes "server_wf t" and "data_id d = LWM2M_SERVER_BINDING_ID"
    and "value_buffer (data_value d) = Some b" and "NUL \<notin> set b" and "0 < length b"
    and "length b \<le> length (cstr (binding t))"
  shows "\<exists>t'. write_resource W d t = (COAP_204_CHANGED, t')
           \<and> cstr (binding t') = b @ drop (length b) (cstr (binding t))"
proof -
  have l4: "length (binding t) = 4" and N: "NUL \<in> set (binding t)"
    using assms(1) nth_mem [of 3 "binding t"] by (auto simp: server_wf_def)
  then have b3: "length b \<le> 3" using length_cstr_less [OF N] assms(6) by simp
  have c: "cstr (b @ drop (length b) (binding t)) = b @ drop (length b) (cstr (binding t))"
    by (rule cstr_overwrite [OF N assms(4,6)])
  have "strncpy_bytes b (length b) = b" using assms(4) by (simp add: strncpy_bytes_def)
  with binding_write(1) [OF assms(1,5) b3] assms(2,3,5) b3 c show ?thesis
    by (simp add: write_resource_def)
qed

theorem server_binding_stale_tail_witness:
  "\<exists>t'. write_resource demo_wakaama (Data LWM2M_SERVER_BINDING_ID (STRING ''U''))
          ((server_zero 0)\<lparr>binding := ''UQS'' @ [NUL]\<rparr>) = (COAP_204_CHANGED, t')
     \<and> cstr (binding t') = ''UQS''"
  using server_binding_stale_tail [of "(server_zero 0)\<lparr>binding := ''UQS'' @ [NUL]\<rparr>"
      "Data LWM2M_SERVER_BINDING_ID (STRING ''U'')" "''U''" demo_wakaama]
  by (simp add: server_wf_def cstr_def)

subsection \<open>The instance list\<close>

definition server_inv :: "server_instance list \<Rightarrow> bool" where
  "server_inv xs \<longleftrightarrow> (\<forall>t \<in> set xs. server_wf t) \<and> distinct (map srv_instanceId xs)"

lemma server_inv_mset:
  "mset xs = mset ys \<Longrightarrow> server_inv xs = server_inv ys"
  unfolding server_inv_def by (metis mset_eq_setD mset_map mset_eq_imp_distinct_iff)

lemma server_inv_Cons:
  "server_inv (t # xs) \<longleftrightarrow> server_wf t \<and> srv_instanceId t \<notin> srv_instanceId ` set xs \<and> server_inv xs"
  by (auto simp: server_inv_def)

lemma add_inv:
  assumes "list_ok srv_instanceId L" and "server_inv xs" and "server_wf t"
    and "srv_instanceId t \<notin> srv_instanceId ` set xs"
  shows "server_inv (list_add L xs t)"
proof -
  have "mset (list_add L xs t) = mset (t # xs)" using list_add_mset [OF assms(1)] by simp
  with assms(2,3,4) show ?thesis using server_inv_mset server_inv_Cons by blast
qed

lemma delete_inv:
  assumes "list_ok srv_instanceId L" and "server_inv xs"
    and "prv_server_delete L xs i = (r, ys)"
  shows "server_inv ys \<and> i \<notin> srv_instanceId ` set ys
     \<and> (r = COAP_202_DELETED \<longleftrightarrow> i \<in> srv_instanceId ` set xs)
     \<and> (\<forall>t. srv_instanceId t \<noteq> i \<longrightarrow> (t \<in> set ys \<longleftrightarrow> t \<in> set xs))"
proof (cases "list_remove L xs i")
  case (Pair zs x)
  show ?thesis
  proof (cases x)
    case None
    with assms Pair list_remove_None [OF assms(1), of xs i zs] show ?thesis
      by (auto simp: prv_server_delete_def)
  next
    case (Some t)
    with Pair list_remove_Some [OF assms(1), of xs i zs t] have t: "srv_instanceId t = i"
      and m: "mset xs = mset (t # zs)" by auto
    from m assms(2) have "server_inv (t # zs)" using server_inv_mset by blast
    moreover from m have "set xs = insert t (set zs)" by (metis list.simps(15) mset_eq_setD)
    ultimately show ?thesis using assms(3) Pair Some t
      by (auto simp: prv_server_delete_def server_inv_Cons)
  qed
qed

lemma write_resources_inv:
  assumes "list_ok srv_instanceId L" and "server_inv xs"
    and "server_write_resources W L xs i ds = Some (r, ys)"
  shows "server_inv ys \<and> map srv_instanceId ys = map srv_instanceId xs"
proof (cases "list_find L xs i")
  case None
  with assms show ?thesis by (auto simp: server_write_resources_def)
next
  case (Some k)
  with assms(1) have k: "k < length xs" by (auto dest: list_find_Some)
  from Some assms(3) obtain t' where w: "write_loop W ds (xs ! k) = Some (r, t')"
    and ys: "ys = xs[k := t']" by (auto simp: server_write_resources_def)
  from write_loop_preserves [OF w] k assms(2) have t': "srv_instanceId t' = srv_instanceId (xs ! k)"
    "server_wf t'" by (auto simp: server_inv_def)
  from t'(1) k have "map srv_instanceId ys = map srv_instanceId xs"
    by (simp add: ys map_update list_update_same_conv)
  with assms(2) t' k show ?thesis
    by (auto simp: server_inv_def ys dest!: set_update_subset_insert [THEN subsetD])
qed

lemma write_resource_not_created: "write_resource W d t = (r, t') \<Longrightarrow> r \<noteq> COAP_201_CREATED"
  by (auto simp: write_resource_def prv_set_int_value_def split: if_splits prod.splits option.splits)

lemma write_loop_not_created: "write_loop W ds t = Some (r, t') \<Longrightarrow> r \<noteq> COAP_201_CREATED"
  by (induction W ds t rule: write_loop.induct)
    (auto dest: write_resource_not_created split: if_splits prod.splits)

lemma add_find:
  assumes "list_ok srv_instanceId L" and "srv_instanceId t \<notin> srv_instanceId ` set xs"
  shows "\<exists>k. list_find L (list_add L xs t) (srv_instanceId t) = Some k
     \<and> k < length (list_add L xs t) \<and> list_add L xs t ! k = t"
proof -
  have s: "set (list_add L xs t) = insert t (set xs)"
    using list_add_mset [OF assms(1), of xs t] by (metis set_mset_add_mset_insert set_mset_mset)
  then obtain k where f: "list_find L (list_add L xs t) (srv_instanceId t) = Some k"
    using list_find_None [OF assms(1), of "list_add L xs t" "srv_instanceId t"] by fastforce
  from list_find_Some [OF assms(1) f] have k: "k < length (list_add L xs t)"
    "srv_instanceId (list_add L xs t ! k) = srv_instanceId t" by auto
  from nth_mem [OF k(1)] s have "list_add L xs t ! k = t \<or> list_add L xs t ! k \<in> set xs" by simp
  with k(2) assms(2) have "list_add L xs t ! k = t" by (metis imageI)
  with f k(1) show ?thesis by blast
qed

text \<open>Writing through the list: the outcome of a create before it is rolled back or kept.\<close>

lemma create_write:
  assumes "list_ok srv_instanceId L" and "i \<notin> srv_instanceId ` set xs" and "ds \<noteq> []"
  shows "\<exists>r t' ys. server_write_resources W L (list_add L xs (server_zero i)) i ds = Some (r, ys)
     \<and> srv_instanceId t' = i \<and> server_wf t' \<and> r \<noteq> COAP_201_CREATED
     \<and> mset ys = add_mset t' (mset xs)"
proof -
  let ?added = "list_add L xs (server_zero i)"
  have z: "srv_instanceId (server_zero i) = i" by (simp add: server_zero_def)
  from add_find [OF assms(1), of "server_zero i" xs] assms(2) z obtain k where
    k: "list_find L ?added i = Some k" "k < length ?added" "?added ! k = server_zero i" by auto
  from write_loop_not_None [of W ds "server_zero i"] assms(3) obtain r t' where
    w: "write_loop W ds (server_zero i) = Some (r, t')" by fastforce
  from write_loop_preserves [OF w] z server_wf_zero have t': "srv_instanceId t' = i" "server_wf t'"
    by simp_all
  have "mset (?added[k := t']) = add_mset t' (mset xs)"
    using mset_update [OF k(2), of t'] k(3) list_add_mset [OF assms(1), of xs "server_zero i"] by simp
  moreover from k w have "server_write_resources W L ?added i ds = Some (r, ?added[k := t'])"
    by (simp add: server_write_resources_def)
  ultimately show ?thesis using t' write_loop_not_created [OF w] by blast
qed

lemma delete_unique:
  assumes "list_ok srv_instanceId L" and "mset ys = add_mset t (mset xs)"
    and "srv_instanceId t = i" and "i \<notin> srv_instanceId ` set xs"
  shows "\<exists>zs. prv_server_delete L ys i = (COAP_202_DELETED, zs) \<and> mset zs = mset xs"
proof -
  have s: "set ys = insert t (set xs)"
    using assms(2) by (metis set_mset_add_mset_insert set_mset_mset)
  obtain zs x where rm: "list_remove L ys i = (zs, x)" by fastforce
  have "x \<noteq> None"
  proof
    assume "x = None"
    with rm list_remove_None [OF assms(1), of ys i zs] have "i \<notin> srv_instanceId ` set ys" by simp
    with s assms(3) show False by simp
  qed
  then obtain y where x: "x = Some y" by blast
  from list_remove_Some [OF assms(1) rm [unfolded x]] have y: "srv_instanceId y = i"
    "mset ys = add_mset y (mset zs)" by simp_all
  then have "y \<in> set ys" by (metis set_mset_mset union_single_eq_member)
  with s y(1) assms(4) have "y = t" by (metis image_eqI insertE)
  with y(2) assms(2) rm x show ?thesis by (simp add: prv_server_delete_def)
qed

lemma create_outcome:
  assumes "list_ok srv_instanceId L" and "i \<notin> srv_instanceId ` set xs" and "ds \<noteq> []"
  shows "\<exists>r ys. prv_server_create W L alloc xs i ds = Some (r, ys)
     \<and> (r = COAP_201_CREATED \<longrightarrow> (\<exists>t. srv_instanceId t = i \<and> server_wf t \<and> mset ys = add_mset t (mset xs)))
     \<and> (r \<noteq> COAP_201_CREATED \<longrightarrow> r \<noteq> COAP_204_CHANGED \<and> mset ys = mset xs)"
proof (cases alloc)
  case False
  then show ?thesis by (simp add: prv_server_create_def)
next
  case True
  from create_write [OF assms, where W = W] obtain r t' ys where
    w: "server_write_resources W L (list_add L xs (server_zero i)) i ds = Some (r, ys)"
    and t': "srv_instanceId t' = i" "server_wf t'" and r: "r \<noteq> COAP_201_CREATED"
    and m: "mset ys = add_mset t' (mset xs)" by blast
  from delete_unique [OF assms(1) m t'(1) assms(2)] obtain zs where
    "prv_server_delete L ys i = (COAP_202_DELETED, zs)" "mset zs = mset xs" by blast
  with True w t' r m show ?thesis
    by (cases "r = COAP_204_CHANGED") (auto simp: prv_server_create_def Let_def)
qed

text \<open>
  Creating an instance under a fresh id is all or nothing: either the answer is
  created and the list has gained exactly one well formed instance with that id, or it is an
  error and the list holds what it held before.
\<close>

theorem server_create_all_or_nothing:
  assumes "list_ok srv_instanceId L" and "i \<notin> srv_instanceId ` set xs" and "ds \<noteq> []"
  shows "\<exists>r ys. prv_server_create W L alloc xs i ds = Some (r, ys)
     \<and> (if r = COAP_201_CREATED
         then \<exists>t. srv_instanceId t = i \<and> server_wf t \<and> mset ys = add_mset t (mset xs)
         else mset ys = mset xs)"
  using create_outcome [OF assms] by fastforce

theorem server_create_all_or_nothing_witness:
  "\<exists>r ys. prv_server_create demo_wakaama (demo_list srv_instanceId) True [server_zero 0] 1
            [Data LWM2M_SERVER_LIFETIME_ID (INTEGER (-5))] = Some (r, ys)
     \<and> (if r = COAP_201_CREATED
         then \<exists>t. srv_instanceId t = 1 \<and> server_wf t \<and> mset ys = add_mset t (mset [server_zero 0])
         else mset ys = mset [server_zero 0])"
  using server_create_all_or_nothing [OF demo_list_ok, of 1 "[server_zero 0]"
      "[Data LWM2M_SERVER_LIFETIME_ID (INTEGER (-5))]" demo_wakaama True]
  by (simp add: server_zero_def)

text \<open>
  Replacing an instance is not all or nothing: the old instance is deleted first, so a
  write that is refused (a bad value, or no memory) answers an error and leaves the list
  without the instance; only a successful one puts a new instance in its place.
\<close>

theorem server_replace_loses_instance:
  assumes "list_ok srv_instanceId L" and "server_inv xs" and "ds \<noteq> []"
    and "list_find L xs i = Some k"
  shows "\<exists>r ys. prv_server_write W L alloc xs i ds LWM2M_WRITE_REPLACE_INSTANCE = Some (r, ys)
     \<and> (if r = COAP_204_CHANGED
         then \<exists>t. srv_instanceId t = i \<and> server_wf t \<and> mset ys = add_mset t (mset xs - {#xs ! k#})
         else mset ys = mset xs - {#xs ! k#} \<and> i \<notin> srv_instanceId ` set ys)"
proof -
  from list_find_Some [OF assms(1,4)] have k: "k < length xs" "srv_instanceId (xs ! k) = i" by auto
  obtain rest where m: "mset xs = add_mset (xs ! k) (mset rest)"
    using k(1) by (metis ex_mset insert_DiffM nth_mem set_mset_mset)
  with assms(2) have "server_inv (xs ! k # rest)" using server_inv_mset [of xs "xs ! k # rest"] by simp
  with k(2) have fresh: "i \<notin> srv_instanceId ` set rest" by (simp add: server_inv_Cons)
  from delete_unique [OF assms(1) m k(2) fresh] obtain zs where
    d: "prv_server_delete L xs i = (COAP_202_DELETED, zs)" and z: "mset zs = mset rest" by blast
  from z have s: "set zs = set rest" by (rule mset_eq_setD)
  with fresh have "i \<notin> srv_instanceId ` set zs" by simp
  from create_outcome [OF assms(1) this assms(3), where W = W and alloc = alloc] obtain r ys where
    c: "prv_server_create W L alloc zs i ds = Some (r, ys)"
    and r: "r = COAP_201_CREATED \<longrightarrow> (\<exists>t. srv_instanceId t = i \<and> server_wf t \<and> mset ys = add_mset t (mset zs))"
      "r \<noteq> COAP_201_CREATED \<longrightarrow> r \<noteq> COAP_204_CHANGED \<and> mset ys = mset zs" by blast
  have w: "prv_server_write W L alloc xs i ds LWM2M_WRITE_REPLACE_INSTANCE =
      Some (if r = COAP_201_CREATED then COAP_204_CHANGED else r, ys)"
    using assms(4) d c by (simp add: prv_server_write_def)
  have m': "mset xs - {#xs ! k#} = mset zs" using m z by simp
  show ?thesis
  proof (cases "r = COAP_201_CREATED")
    case True
    with w r(1) m' show ?thesis by auto
  next
    case False
    with r(2) have "mset ys = mset zs" by simp
    then have "set ys = set zs" by (rule mset_eq_setD)
    with False w r(2) m' s fresh show ?thesis by auto
  qed
qed

theorem server_replace_loses_instance_witness:
  "\<exists>r ys. prv_server_write demo_wakaama (demo_list srv_instanceId) True [server_zero 0] 0
            [Data LWM2M_SERVER_DISABLE_ID UNDEFINED] LWM2M_WRITE_REPLACE_INSTANCE = Some (r, ys)
     \<and> (if r = COAP_204_CHANGED
         then \<exists>t. srv_instanceId t = 0 \<and> server_wf t \<and> mset ys = add_mset t (mset [server_zero 0] - {#[server_zero 0] ! 0#})
         else mset ys = mset [server_zero 0] - {#[server_zero 0] ! 0#} \<and> 0 \<notin> srv_instanceId ` set ys)"
  by (rule server_replace_loses_instance [OF demo_list_ok])
    (simp_all add: server_inv_def server_wf_zero demo_list_def, simp add: server_zero_def)

subsection \<open>Runs of operations\<close>

text \<open>
  The operations the core drives the object with; a create is only issued for an id that is
  not in the list (the core checks it), and a request with no data, which the handlers read
  out of bounds for, leaves the list alone here.
\<close>

datatype server_op =
    Op_write bool u16 "lwm2m_data list" lwm2m_write_type
  | Op_create bool u16 "lwm2m_data list"
  | Op_delete u16

definition server_step ::
    "wakaama \<Rightarrow> server_instance wakaama_list \<Rightarrow> server_instance list \<Rightarrow> server_op \<Rightarrow>
     server_instance list" where
  "server_step W L xs op =
     (case op of
        Op_write alloc i ds ty \<Rightarrow> (case prv_server_write W L alloc xs i ds ty of
            None \<Rightarrow> xs | Some (r, ys) \<Rightarrow> ys)
      | Op_create alloc i ds \<Rightarrow>
          if list_find L xs i \<noteq> None then xs
          else (case prv_server_create W L alloc xs i ds of None \<Rightarrow> xs | Some (r, ys) \<Rightarrow> ys)
      | Op_delete i \<Rightarrow> snd (prv_server_delete L xs i))"

lemma create_no_data:
  assumes "list_ok srv_instanceId L" and "i \<notin> srv_instanceId ` set xs"
  shows "prv_server_create W L True xs i [] = None"
proof -
  from add_find [OF assms(1), of "server_zero i" xs] assms(2) show ?thesis
    by (auto simp: prv_server_create_def server_write_resources_def server_zero_def)
qed

lemma create_inv:
  assumes "list_ok srv_instanceId L" and "server_inv xs" and "i \<notin> srv_instanceId ` set xs"
    and "prv_server_create W L alloc xs i ds = Some (r, ys)"
  shows "server_inv ys"
proof (cases "ds = []")
  case True
  with assms create_no_data [OF assms(1,3)] show ?thesis
    by (cases alloc) (auto simp: prv_server_create_def)
next
  case False
  from create_outcome [OF assms(1,3) False, where W = W and alloc = alloc] assms(4)
  have "(\<exists>t. srv_instanceId t = i \<and> server_wf t \<and> mset ys = mset (t # xs)) \<or> mset ys = mset xs"
    by auto
  with assms(2,3) show ?thesis using server_inv_mset server_inv_Cons by metis
qed

lemma server_step_inv:
  assumes "list_ok srv_instanceId L" and "server_inv xs"
  shows "server_inv (server_step W L xs op)"
proof (cases op)
  case (Op_write alloc i ds ty)
  show ?thesis
  proof (cases "prv_server_write W L alloc xs i ds ty")
    case (Some ry)
    obtain r ys where ry: "ry = (r, ys)" by fastforce
    obtain r1 zs where d: "prv_server_delete L xs i = (r1, zs)" by fastforce
    note di = delete_inv [OF assms d]
    from Some ry d di assms have "server_inv ys"
      by (auto simp: prv_server_write_def split: option.splits if_splits
          dest: write_resources_inv create_inv [OF assms(1)])
    with Op_write Some ry show ?thesis by (simp add: server_step_def)
  qed (use Op_write assms in \<open>simp add: server_step_def\<close>)
next
  case (Op_create alloc i ds)
  then show ?thesis using assms list_find_None [OF assms(1), of xs i]
    by (auto simp: server_step_def intro: create_inv split: option.splits)
next
  case (Op_delete i)
  then show ?thesis using delete_inv [OF assms] by (cases "prv_server_delete L xs i") (auto simp: server_step_def)
qed

interpretation srv_run: invariant_machine "server_step W L"
  "\<lambda>xs. list_ok srv_instanceId L \<and> server_inv xs" for W L
  by unfold_locales (use server_step_inv in blast)

text \<open>
  C33: whatever sequence of writes, creates and deletes the server sends to the object the
  constructor built, the instance ids stay distinct and every binding stays a terminated
  string inside its four bytes.
\<close>

theorem server_runs_keep_invariant:
  assumes "list_ok srv_instanceId L" and "get_server_object L True True = Some obj"
  shows "server_inv (foldl (server_step W L) (so_instances obj) ops)"
proof -
  let ?t = "(server_zero 0)\<lparr>shortServerId := 123, lifetime := 15 * 60, storing := False,
                   binding := (replicate 4 NUL)[0 := CHR ''U'']\<rparr>"
  have "so_instances obj = list_add L [] ?t" using assms(2) by (auto simp: get_server_object_def)
  moreover have "server_inv (list_add L [] ?t)"
    by (rule add_inv [OF assms(1)]) (simp_all add: server_inv_def server_wf_def)
  ultimately show ?thesis using srv_run.run_inv [of L "so_instances obj" W ops] assms(1) by simp
qed

theorem server_runs_keep_invariant_witness:
  "\<exists>obj. get_server_object (demo_list srv_instanceId) True True = Some obj
     \<and> server_inv (foldl (server_step demo_wakaama (demo_list srv_instanceId)) (so_instances obj)
         [Op_delete 0, Op_create True 1 [Data LWM2M_SERVER_LIFETIME_ID (INTEGER 5)]])"
proof -
  obtain obj where o: "get_server_object (demo_list srv_instanceId) True True = Some obj"
    by (simp add: get_server_object_def)
  from server_runs_keep_invariant [OF demo_list_ok o] o show ?thesis by blast
qed

end
