(* ===== verification/Object_Security.thy ===== *)
theory Object_Security
  imports Lwm2m Config
begin

text \<open>
  The LwM2M security object (\<open>csrc/src/lwm2m/lightclient/object_security.c\<close>): its
  instance, the read handler, the constructor that fills it from the configuration store,
  the destructor and the four accessors of the TLS layer. Resource ids are the ones of
  \<open>lwm2m_security.h\<close> (OMA object 0). \<open>mbedtls_base64_decode\<close> is a submodule's
  function, so it is a parameter.
\<close>

abbreviation LWM2M_SECURITY_URI_ID :: u16 where "LWM2M_SECURITY_URI_ID \<equiv> 0"
abbreviation LWM2M_SECURITY_BOOTSTRAP_ID :: u16 where "LWM2M_SECURITY_BOOTSTRAP_ID \<equiv> 1"
abbreviation LWM2M_SECURITY_SECURITY_ID :: u16 where "LWM2M_SECURITY_SECURITY_ID \<equiv> 2"
abbreviation LWM2M_SECURITY_PUBLIC_KEY_ID :: u16 where "LWM2M_SECURITY_PUBLIC_KEY_ID \<equiv> 3"
abbreviation LWM2M_SECURITY_SERVER_PUBLIC_KEY_ID :: u16 where "LWM2M_SECURITY_SERVER_PUBLIC_KEY_ID \<equiv> 4"
abbreviation LWM2M_SECURITY_SECRET_KEY_ID :: u16 where "LWM2M_SECURITY_SECRET_KEY_ID \<equiv> 5"
abbreviation LWM2M_SECURITY_SMS_SECURITY_ID :: u16 where "LWM2M_SECURITY_SMS_SECURITY_ID \<equiv> 6"
abbreviation LWM2M_SECURITY_SMS_KEY_PARAM_ID :: u16 where "LWM2M_SECURITY_SMS_KEY_PARAM_ID \<equiv> 7"
abbreviation LWM2M_SECURITY_SMS_SECRET_KEY_ID :: u16 where "LWM2M_SECURITY_SMS_SECRET_KEY_ID \<equiv> 8"
abbreviation LWM2M_SECURITY_SMS_SERVER_NUMBER_ID :: u16 where "LWM2M_SECURITY_SMS_SERVER_NUMBER_ID \<equiv> 9"
abbreviation LWM2M_SECURITY_SHORT_SERVER_ID :: u16 where "LWM2M_SECURITY_SHORT_SERVER_ID \<equiv> 10"
abbreviation LWM2M_SECURITY_HOLD_OFF_ID :: u16 where "LWM2M_SECURITY_HOLD_OFF_ID \<equiv> 11"

datatype lwm2m_security_mode_e =
    security_mode_psk | security_mode_rpk | security_mode_certificate | security_mode_no_sec
  | security_mode_est

fun security_mode_code :: "lwm2m_security_mode_e \<Rightarrow> u32" where
  "security_mode_code security_mode_psk = 0"
| "security_mode_code security_mode_rpk = 1"
| "security_mode_code security_mode_certificate = 2"
| "security_mode_code security_mode_no_sec = 3"
| "security_mode_code security_mode_est = 4"

text \<open>
  \<open>server_identity\<close> is a pointer the code never sets, so it is the (empty) buffer here;
  \<open>uri\<close>, \<open>public_identity\<close> and \<open>secret_key\<close> are arrays of 256, 128 and 64 bytes.
\<close>

record security_instance =
  sec_instanceId :: u16
  sec_uri :: string
  isBootstrap :: bool
  sec_mode :: u32
  public_identity :: string
  public_identity_len :: nat
  server_identity :: string
  server_identity_len :: nat
  secret_key :: string
  secret_key_len :: nat
  shortID :: u16
  clientHoldOffTime :: u32

definition security_zero :: security_instance where
  "security_zero = \<lparr>sec_instanceId = 0, sec_uri = replicate 256 NUL, isBootstrap = False,
     sec_mode = 0, public_identity = replicate 128 NUL, public_identity_len = 0,
     server_identity = [], server_identity_len = 0, secret_key = replicate 64 NUL,
     secret_key_len = 0, shortID = 0, clientHoldOffTime = 0\<rparr>"

subsection \<open>Reading\<close>

text \<open>
  An opaque value is \<open>len\<close> bytes of a buffer, or one zero byte when the length is 0. The
  bytes that \<open>len\<close> may reach beyond the buffer are not modelled: the constructor's
  properties show that it never does.
\<close>

definition encode_key :: "wakaama \<Rightarrow> string \<Rightarrow> nat \<Rightarrow> lwm2m_data \<Rightarrow> lwm2m_data" where
  "encode_key W buf len dataP =
     (if len > 0 then encode_opaque W (take len buf) dataP
      else encode_opaque W [NUL] dataP)"

definition security_get_value ::
    "wakaama \<Rightarrow> security_instance \<Rightarrow> lwm2m_data \<Rightarrow> lwm2m_data \<times> coap_status" where
  "security_get_value W targetP dataP =
     (if data_id dataP = LWM2M_SECURITY_URI_ID then
        (encode_string W (sec_uri targetP) dataP, COAP_205_CONTENT)
      else if data_id dataP = LWM2M_SECURITY_BOOTSTRAP_ID then
        (encode_bool W (isBootstrap targetP) dataP, COAP_205_CONTENT)
      else if data_id dataP = LWM2M_SECURITY_SECURITY_ID then
        (encode_int W (uint (sec_mode targetP)) dataP, COAP_205_CONTENT)
      else if data_id dataP = LWM2M_SECURITY_PUBLIC_KEY_ID then
        (encode_key W (public_identity targetP) (public_identity_len targetP) dataP, COAP_205_CONTENT)
      else if data_id dataP = LWM2M_SECURITY_SERVER_PUBLIC_KEY_ID then
        (encode_key W (server_identity targetP) (server_identity_len targetP) dataP, COAP_205_CONTENT)
      else if data_id dataP = LWM2M_SECURITY_SECRET_KEY_ID then
        (encode_key W (secret_key targetP) (secret_key_len targetP) dataP, COAP_205_CONTENT)
      else if data_id dataP = LWM2M_SECURITY_SMS_SECURITY_ID then
        (encode_int W (uint (security_mode_code security_mode_no_sec)) dataP, COAP_205_CONTENT)
      else if data_id dataP = LWM2M_SECURITY_SMS_KEY_PARAM_ID then
        (encode_opaque W (''12345'' @ [NUL]) dataP, COAP_205_CONTENT)
      else if data_id dataP = LWM2M_SECURITY_SMS_SECRET_KEY_ID then
        (encode_opaque W (''1234567890abcdefghijklmnopqrstu'' @ [NUL]) dataP, COAP_205_CONTENT)
      else if data_id dataP = LWM2M_SECURITY_SMS_SERVER_NUMBER_ID then
        (encode_int W 0 dataP, COAP_205_CONTENT)
      else if data_id dataP = LWM2M_SECURITY_SHORT_SERVER_ID then
        (encode_int W (uint (shortID targetP)) dataP, COAP_205_CONTENT)
      else if data_id dataP = LWM2M_SECURITY_HOLD_OFF_ID then
        (encode_int W (uint (clientHoldOffTime targetP)) dataP, COAP_205_CONTENT)
      else (dataP, COAP_404_NOT_FOUND))"

definition security_resList :: "u16 list" where
  "security_resList = [LWM2M_SECURITY_URI_ID, LWM2M_SECURITY_BOOTSTRAP_ID,
     LWM2M_SECURITY_SECURITY_ID, LWM2M_SECURITY_PUBLIC_KEY_ID,
     LWM2M_SECURITY_SERVER_PUBLIC_KEY_ID, LWM2M_SECURITY_SECRET_KEY_ID,
     LWM2M_SECURITY_SMS_SECURITY_ID, LWM2M_SECURITY_SMS_KEY_PARAM_ID,
     LWM2M_SECURITY_SMS_SECRET_KEY_ID, LWM2M_SECURITY_SMS_SERVER_NUMBER_ID,
     LWM2M_SECURITY_SHORT_SERVER_ID, LWM2M_SECURITY_HOLD_OFF_ID]"

definition prv_security_read ::
    "wakaama \<Rightarrow> security_instance wakaama_list \<Rightarrow> security_instance list \<Rightarrow> u16 \<Rightarrow>
     lwm2m_data list \<Rightarrow> (coap_status \<times> lwm2m_data list) option" where
  "prv_security_read W L instances instanceId ds =
     (case list_find L instances instanceId of
        None \<Rightarrow> Some (COAP_404_NOT_FOUND, ds)
      | Some k \<Rightarrow> read_request W security_resList (security_get_value W (instances ! k)) ds)"

subsection \<open>Construction\<close>

text \<open>
  \<open>mbedtls_base64_decode(dst, dlen, &olen, src, slen)\<close>: the return code, the bytes it
  writes from the start of \<open>dst\<close>, and the value it leaves in \<open>*olen\<close>. It writes no more
  than \<open>dlen\<close> bytes, and the decoded size is no more than the encoded one.
\<close>

type_synonym base64 = "nat \<Rightarrow> string \<Rightarrow> int \<times> string \<times> nat"

definition base64_ok :: "base64 \<Rightarrow> bool" where
  "base64_ok b64 \<longleftrightarrow>
     (\<forall>dlen src. case b64 dlen src of (rc, out, olen) \<Rightarrow>
        length out \<le> dlen \<and> olen \<le> length src \<and> (rc = 0 \<longrightarrow> olen = length out))"

text \<open>
  \<open>strncpy(field, getter(), strlen(getter()))\<close>: a source without a terminator is read past
  its end, a field shorter than the source is overrun.
\<close>

definition copy_config_string :: "string \<Rightarrow> string \<Rightarrow> fault + string" where
  "copy_config_string field src =
     (case strlen src of
        None \<Rightarrow> Inl Out_of_bounds
      | Some n \<Rightarrow> (case strncpy field src n of None \<Rightarrow> Inl Buffer_overflow | Some r \<Rightarrow> Inr r))"

definition fill_security_instance :: "base64 \<Rightarrow> config \<Rightarrow> fault + security_instance" where
  "fill_security_instance b64 c =
     (case copy_config_string (sec_uri security_zero) (config_get Lwm2m_uri c) of
        Inl e \<Rightarrow> Inl e
      | Inr u \<Rightarrow>
        (case copy_config_string (public_identity security_zero) (config_get Lwm2m_psk_id c) of
           Inl e \<Rightarrow> Inl e
         | Inr p \<Rightarrow>
           (case (strlen p, strlen (config_get Lwm2m_psk_key c)) of
              (Some plen, Some klen) \<Rightarrow>
                (case b64 64 (take klen (config_get Lwm2m_psk_key c)) of
                   (rc, out, olen) \<Rightarrow>
                     Inr (security_zero\<lparr>sec_uri := u, public_identity := p,
                            public_identity_len := plen + 1,
                            secret_key := out @ drop (length out) (secret_key security_zero),
                            secret_key_len := olen, isBootstrap := False, shortID := 123,
                            clientHoldOffTime := 10,
                            sec_mode := security_mode_code security_mode_psk\<rparr>))
            | _ \<Rightarrow> Inl Out_of_bounds)))"

text \<open>The constructor; \<open>Inr None\<close> is its NULL result.\<close>

definition get_security_object ::
    "security_instance wakaama_list \<Rightarrow> base64 \<Rightarrow> bool \<Rightarrow> bool \<Rightarrow> config \<Rightarrow>
     fault + security_instance list option" where
  "get_security_object L b64 obj_alloc inst_alloc c =
     (if obj_alloc \<and> inst_alloc then
        (case fill_security_instance b64 c of
           Inl e \<Rightarrow> Inl e
         | Inr t \<Rightarrow> Inr (Some (list_add L [] t)))
      else Inr None)"

definition free_security_object :: "security_instance list \<Rightarrow> security_instance free_event list" where
  "free_security_object instances = free_instances instances"

subsection \<open>Accessors\<close>

text \<open>\<open>lwm2m_strdup\<close> returns a copy of the string, or NULL when \<open>alloc\<close> fails.\<close>

definition get_server_uri ::
    "security_instance wakaama_list \<Rightarrow> bool \<Rightarrow> security_instance list \<Rightarrow> u16 \<Rightarrow> string option" where
  "get_server_uri L alloc instances i =
     (case list_find L instances i of
        Some k \<Rightarrow> if alloc then Some (cstr (sec_uri (instances ! k)) @ [NUL]) else None
      | None \<Rightarrow> None)"

text \<open>
  The two key accessors return a pointer to the array of the instance (the array here) and
  store the length through their argument, which keeps its value when there is no instance.
\<close>

definition get_connection_psk ::
    "security_instance wakaama_list \<Rightarrow> security_instance list \<Rightarrow> u16 \<Rightarrow> nat \<Rightarrow> string option \<times> nat" where
  "get_connection_psk L instances i psk_len =
     (case list_find L instances i of
        Some k \<Rightarrow> (Some (secret_key (instances ! k)), secret_key_len (instances ! k))
      | None \<Rightarrow> (None, psk_len))"

definition get_public_identiy ::
    "security_instance wakaama_list \<Rightarrow> security_instance list \<Rightarrow> u16 \<Rightarrow> nat \<Rightarrow> string option \<times> nat" where
  "get_public_identiy L instances i len =
     (case list_find L instances i of
        Some k \<Rightarrow> (Some (public_identity (instances ! k)), public_identity_len (instances ! k))
      | None \<Rightarrow> (None, len))"

definition get_security_mode ::
    "security_instance wakaama_list \<Rightarrow> security_instance list \<Rightarrow> u16 \<Rightarrow> u32" where
  "get_security_mode L instances i =
     (case list_find L instances i of
        Some k \<Rightarrow> sec_mode (instances ! k)
      | None \<Rightarrow> security_mode_code security_mode_no_sec)"

subsection \<open>Correctness\<close>

definition security_readable :: "u16 set" where
  "security_readable = set security_resList"

interpretation sec: resource_getter "security_get_value W t" security_readable "wakaama_ok W" for W t
  by unfold_locales
    (auto simp: security_get_value_def security_readable_def security_resList_def encode_key_def)

text \<open>An instance whose arrays have their size, terminated strings, and lengths inside.\<close>

definition security_wf :: "security_instance \<Rightarrow> bool" where
  "security_wf t \<longleftrightarrow>
     length (sec_uri t) = 256 \<and> NUL \<in> set (sec_uri t)
   \<and> length (public_identity t) = 128 \<and> public_identity_len t \<le> 128
   \<and> length (secret_key t) = 64 \<and> secret_key_len t \<le> 64
   \<and> server_identity_len t \<le> length (server_identity t)"

lemma copy_config_string_ok:
  assumes "NUL \<in> set src" and "length src \<le> n"
  shows "copy_config_string (replicate n NUL) src =
           Inr (cstr src @ replicate (n - length (cstr src)) NUL)"
    and "length (cstr src) < n"
proof -
  have l: "length (cstr src) < length src" by (rule length_cstr_less [OF assms(1)])
  with assms show "copy_config_string (replicate n NUL) src =
           Inr (cstr src @ replicate (n - length (cstr src)) NUL)"
    by (simp add: copy_config_string_def strlen_def strncpy_def strncpy_bytes_fits)
  from l assms(2) show "length (cstr src) < n" by simp
qed

lemma fill_security_instance_ok:
  assumes "config_wf c" and "base64_ok b64"
    and "\<forall>s \<in> {Lwm2m_uri, Lwm2m_psk_id, Lwm2m_psk_key}. NUL \<in> set (c s)"
  shows "\<exists>t. fill_security_instance b64 c = Inr t \<and> security_wf t
     \<and> cstr (sec_uri t) = cstr (c Lwm2m_uri)
     \<and> take (public_identity_len t) (public_identity t) = cstr (c Lwm2m_psk_id) @ [NUL]
     \<and> sec_mode t = security_mode_code security_mode_psk"
proof -
  let ?u = "c Lwm2m_uri" let ?p = "c Lwm2m_psk_id" let ?k = "c Lwm2m_psk_key"
  from assms(1) have len: "length ?u = 128" "length ?p = 128" "length ?k = 64"
    by (simp_all add: config_wf_def)
  from assms(3) have N: "NUL \<in> set ?u" "NUL \<in> set ?p" "NUL \<in> set ?k" by auto
  let ?U = "cstr ?u @ replicate (256 - length (cstr ?u)) NUL"
  let ?P = "cstr ?p @ replicate (128 - length (cstr ?p)) NUL"
  have u: "copy_config_string (replicate 256 NUL) ?u = Inr ?U" "length (cstr ?u) < 256"
    using copy_config_string_ok [OF N(1), of 256] len by simp_all
  have p: "copy_config_string (replicate 128 NUL) ?p = Inr ?P" "length (cstr ?p) < 128"
    using copy_config_string_ok [OF N(2), of 128] len by simp_all
  have P: "cstr ?P = cstr ?p" "NUL \<in> set ?P" using p(2) by (simp_all add: cstr_append)
  have kl: "length (cstr ?k) < 64" using length_cstr_less [OF N(3)] len by simp
  obtain rc out olen where b: "b64 64 (take (length (cstr ?k)) ?k) = (rc, out, olen)"
    by (metis prod_cases3)
  with assms(2) have o: "length out \<le> 64" "olen \<le> length (cstr ?k)"
    by (auto simp: base64_ok_def dest!: spec [where x = 64] spec [where x = "take (length (cstr ?k)) ?k"])
  have t: "take (Suc (length (cstr ?p))) ?P = cstr ?p @ [NUL]"
    using p(2) by (simp add: take_replicate)
  have su: "strlen ?P = Some (length (cstr ?p))" "strlen ?k = Some (length (cstr ?k))"
    using P N(3) by (simp_all add: strlen_def)
  show ?thesis
    using u p o kl b su t P
    by (simp add: fill_security_instance_def security_zero_def config_get_def security_wf_def
        cstr_append del: take_append)
qed

lemma security_object_built:
  assumes "list_ok sec_instanceId L" and "base64_ok b64" and "config_wf c"
    and "\<forall>s \<in> {Lwm2m_uri, Lwm2m_psk_id, Lwm2m_psk_key}. NUL \<in> set (c s)"
  obtains t where "get_security_object L b64 True True c = Inr (Some [t])" and "security_wf t"
    and "cstr (sec_uri t) = cstr (c Lwm2m_uri)"
    and "take (public_identity_len t) (public_identity t) = cstr (c Lwm2m_psk_id) @ [NUL]"
    and "sec_mode t = security_mode_code security_mode_psk" and "list_find L [t] 0 = Some 0"
proof -
  from fill_security_instance_ok [OF assms(3,2,4)] obtain t where
    f: "fill_security_instance b64 c = Inr t" and t: "security_wf t"
      "cstr (sec_uri t) = cstr (c Lwm2m_uri)"
      "take (public_identity_len t) (public_identity t) = cstr (c Lwm2m_psk_id) @ [NUL]"
      "sec_mode t = security_mode_code security_mode_psk" by blast
  from f have i: "sec_instanceId t = 0"
    by (auto simp: fill_security_instance_def security_zero_def split: sum.splits option.splits prod.splits)
  have "mset (list_add L [] t) = {#t#}" using list_add_mset [OF assms(1)] by simp
  then have one: "list_add L [] t = [t]" by simp
  with i obtain k where k: "list_find L [t] 0 = Some k"
    using list_find_None [OF assms(1), of "[t]" 0] by fastforce
  with list_find_Some [OF assms(1)] have "k = 0" by fastforce
  with k one f t that [of t] show ?thesis by (simp add: get_security_object_def)
qed

text \<open>
  The security object built from a configuration whose URI, key id and key are
  terminated strings hands the TLS layer what was configured: the server URI, the key id
  (with its terminator counted in), a pre-shared key whose length is inside its array, and
  the pre-shared-key mode.
\<close>

theorem security_object_from_config:
  assumes "list_ok sec_instanceId L" and "base64_ok b64" and "config_wf c"
    and "\<forall>s \<in> {Lwm2m_uri, Lwm2m_psk_id, Lwm2m_psk_key}. NUL \<in> set (c s)"
  shows "\<exists>xs buf len key klen. get_security_object L b64 True True c = Inr (Some xs)
     \<and> get_server_uri L True xs 0 = Some (cstr (c Lwm2m_uri) @ [NUL])
     \<and> get_public_identiy L xs 0 0 = (Some buf, len) \<and> take len buf = cstr (c Lwm2m_psk_id) @ [NUL]
     \<and> get_connection_psk L xs 0 0 = (Some key, klen) \<and> klen \<le> length key
     \<and> get_security_mode L xs 0 = security_mode_code security_mode_psk"
proof -
  from security_object_built [OF assms] obtain t where "get_security_object L b64 True True c = Inr (Some [t])"
    "security_wf t" "cstr (sec_uri t) = cstr (c Lwm2m_uri)"
    "take (public_identity_len t) (public_identity t) = cstr (c Lwm2m_psk_id) @ [NUL]"
    "sec_mode t = security_mode_code security_mode_psk" "list_find L [t] 0 = Some 0" by blast
  then show ?thesis
    by (simp add: get_server_uri_def get_public_identiy_def get_connection_psk_def get_security_mode_def
        security_wf_def)
qed

text \<open>A decoder for the witnesses: it refuses every input and writes nothing.\<close>

definition demo_base64 :: base64 where
  "demo_base64 dlen src = (if src = [] then (0, [], 0) else (-44, [], 0))"

lemma demo_base64_ok: "base64_ok demo_base64"
  by (simp add: base64_ok_def demo_base64_def)

theorem security_object_from_config_witness:
  "\<exists>xs buf len key klen. get_security_object (demo_list sec_instanceId) demo_base64 True True
        (config_set Lwm2m_uri ''coaps://h'' config_init) = Inr (Some xs)
     \<and> get_server_uri (demo_list sec_instanceId) True xs 0 = Some (''coaps://h'' @ [NUL])
     \<and> get_public_identiy (demo_list sec_instanceId) xs 0 0 = (Some buf, len) \<and> take len buf = [NUL]
     \<and> get_connection_psk (demo_list sec_instanceId) xs 0 0 = (Some key, klen) \<and> klen \<le> length key"
proof -
  let ?c = "config_set Lwm2m_uri ''coaps://h'' config_init"
  have w: "config_wf ?c" by (auto simp: config_wf_def config_set_def config_init_def)
  have u: "cstr (?c Lwm2m_uri) = ''coaps://h''"
    by (simp add: config_set_def strncpy_bytes_fits cstr_append del: append_Cons)
  have p: "cstr (?c Lwm2m_psk_id) = []" by (simp add: config_set_def config_init_def)
  have n: "\<forall>s \<in> {Lwm2m_uri, Lwm2m_psk_id, Lwm2m_psk_key}. NUL \<in> set (?c s)"
    by (simp add: config_set_def config_init_def strncpy_bytes_fits)
  from security_object_from_config [OF demo_list_ok demo_base64_ok w n] show ?thesis
    unfolding u p by auto
qed

text \<open>
  The constructor trusts the configuration to be terminated, and the setters do not
  terminate: storing a server URI of 128 characters or more makes the constructor read past
  the end of the URI buffer.
\<close>

theorem security_object_overread:
  assumes "slot_size Lwm2m_uri \<le> length (cstr v)"
  shows "get_security_object L b64 True True (config_set Lwm2m_uri v c) = Inl Out_of_bounds"
proof -
  have "NUL \<notin> set (strncpy_bytes v (slot_size Lwm2m_uri))"
    using assms cstr_no_NUL [of v] by (auto simp: strncpy_bytes_truncates dest: in_set_takeD)
  then show ?thesis
    by (simp add: get_security_object_def fill_security_instance_def copy_config_string_def
        strlen_def config_set_def config_get_def)
qed

theorem security_object_overread_witness:
  "get_security_object (demo_list sec_instanceId) demo_base64 True True
     (config_set Lwm2m_uri (replicate 128 (CHR ''a'')) config_init) = Inl Out_of_bounds"
  by (rule security_object_overread) simp

lemma security_readable_ids: "j \<in> security_readable \<longleftrightarrow> j \<le> 11"
proof -
  have "j \<le> 11 \<longleftrightarrow> unat j \<in> set [0..<12]" by (simp add: word_le_nat_alt) arith
  also have "\<dots> \<longleftrightarrow> j \<in> word_of_nat ` set [0..<12]"
    by (auto simp: unsigned_of_nat take_bit_nat_eq_self intro: image_eqI [where x = "unat j"])
  also have "word_of_nat ` set [0..<12] = security_readable"
    by (simp add: security_readable_def security_resList_def upt_rec)
  finally show ?thesis by simp
qed

text \<open>
  Every one of the twelve resources of an existing security instance is readable, among
  them the whole secret key once one has been decoded (not the single zero byte the comment
  on that case promises).
\<close>

theorem security_read_correct:
  assumes "wakaama_ok W" and "list_find L instances i = Some k"
  shows "(ds \<noteq> [] \<longrightarrow> (\<exists>r ds'. prv_security_read W L instances i ds = Some (r, ds')
            \<and> map data_id ds' = map data_id ds
            \<and> (r = COAP_205_CONTENT \<longleftrightarrow> (\<forall>d \<in> set ds. \<not> is_multiple d \<and> data_id d \<le> 11))))
     \<and> (data_new W 12 \<noteq> None \<longrightarrow>
          (\<exists>ds'. prv_security_read W L instances i [] = Some (COAP_205_CONTENT, ds')
             \<and> map data_id ds' = security_resList))
     \<and> (0 < secret_key_len (instances ! k) \<longrightarrow>
          security_get_value W (instances ! k) (Data LWM2M_SECURITY_SECRET_KEY_ID v)
            = (encode_opaque W (take (secret_key_len (instances ! k)) (secret_key (instances ! k)))
                 (Data LWM2M_SECURITY_SECRET_KEY_ID v), COAP_205_CONTENT))"
proof -
  have len: "length security_resList = 12" by (simp add: security_resList_def)
  have ne: "security_resList \<noteq> []" by (simp add: security_resList_def)
  from sec.read_request_correct [OF assms(1) assms(1),
      where resList = security_resList and t = "instances ! k" and ds = ds] assms(2) ne
  show ?thesis
    by (simp only: prv_security_read_def option.case security_readable_ids len security_readable_def [symmetric])
      (simp add: security_get_value_def encode_key_def)
qed

theorem security_read_correct_witness:
  "\<exists>ds'. prv_security_read demo_wakaama (demo_list sec_instanceId) [security_zero] 0 []
       = Some (COAP_205_CONTENT, ds') \<and> map data_id ds' = security_resList"
proof -
  have f: "list_find (demo_list sec_instanceId) [security_zero] 0 = Some 0"
    by (simp add: demo_list_def security_zero_def)
  have "data_new demo_wakaama 12 \<noteq> None" by (simp add: demo_wakaama_def)
  with security_read_correct [OF demo_wakaama_ok f, of "[]"] show ?thesis by blast
qed

end
