(* ===== verification/Object_Device.thy ===== *)
theory Object_Device
  imports Lwm2m
begin

text \<open>
  The LwM2M device object (\<open>csrc/src/lwm2m/lightclient/object_device.c\<close>): a single
  instance whose resources are constants, the free heap size and the time; its read,
  discover and execute handlers, its constructor and destructor.
\<close>

abbreviation RES_O_MANUFACTURER :: u16 where "RES_O_MANUFACTURER \<equiv> 0"
abbreviation RES_O_MODEL_NUMBER :: u16 where "RES_O_MODEL_NUMBER \<equiv> 1"
abbreviation RES_O_SERIAL_NUMBER :: u16 where "RES_O_SERIAL_NUMBER \<equiv> 2"
abbreviation RES_O_FIRMWARE_VERSION :: u16 where "RES_O_FIRMWARE_VERSION \<equiv> 3"
abbreviation RES_M_REBOOT :: u16 where "RES_M_REBOOT \<equiv> 4"
abbreviation RES_O_AVL_POWER_SOURCES :: u16 where "RES_O_AVL_POWER_SOURCES \<equiv> 6"
abbreviation RES_O_BATTERY_LEVEL :: u16 where "RES_O_BATTERY_LEVEL \<equiv> 9"
abbreviation RES_O_MEMORY_FREE :: u16 where "RES_O_MEMORY_FREE \<equiv> 10"
abbreviation RES_O_CURRENT_TIME :: u16 where "RES_O_CURRENT_TIME \<equiv> 13"
abbreviation RES_M_BINDING_MODES :: u16 where "RES_M_BINDING_MODES \<equiv> 16"
abbreviation RES_O_HARDWARE_VERSION :: u16 where "RES_O_HARDWARE_VERSION \<equiv> 18"
abbreviation RES_O_SOFTWARE_VERSION :: u16 where "RES_O_SOFTWARE_VERSION \<equiv> 19"

text \<open>What the handlers ask the system for: \<open>xPortGetFreeHeapSize\<close> and \<open>lwm2m_gettime\<close>.\<close>

record device_env =
  free_heap :: nat
  current_time :: int

definition device_get_value :: "wakaama \<Rightarrow> device_env \<Rightarrow> lwm2m_data \<Rightarrow> lwm2m_data \<times> coap_status" where
  "device_get_value W env dataP =
     (if data_id dataP = RES_O_MANUFACTURER then
        (encode_string W ''https://github.com/FranciscoLlobet/efm32-freertos-zig'' dataP, COAP_205_CONTENT)
      else if data_id dataP = RES_O_MODEL_NUMBER then
        (encode_string W ''miso powered by Zig'' dataP, COAP_205_CONTENT)
      else if data_id dataP = RES_O_SERIAL_NUMBER then
        (encode_string W ''15-01021'' dataP, COAP_205_CONTENT)
      else if data_id dataP = RES_O_FIRMWARE_VERSION then
        (encode_string W ''v0.0.0'' dataP, COAP_205_CONTENT)
      else if data_id dataP = RES_O_HARDWARE_VERSION then
        (encode_string W ''Bosch XDK110'' dataP, COAP_205_CONTENT)
      else if data_id dataP = RES_O_SOFTWARE_VERSION then
        (encode_string W ''v0.0.0'' dataP, COAP_205_CONTENT)
      else if data_id dataP = RES_O_BATTERY_LEVEL then (encode_int W 100 dataP, COAP_205_CONTENT)
      else if data_id dataP = RES_O_MEMORY_FREE then
        (encode_int W (int (free_heap env)) dataP, COAP_205_CONTENT)
      else if data_id dataP = RES_O_CURRENT_TIME then
        (encode_int W (current_time env) dataP, COAP_205_CONTENT)
      else if data_id dataP = RES_M_REBOOT then (dataP, COAP_405_METHOD_NOT_ALLOWED)
      else if data_id dataP = RES_M_BINDING_MODES then (encode_string W ''U'' dataP, COAP_205_CONTENT)
      else if data_id dataP = RES_O_AVL_POWER_SOURCES then (encode_int W 1 dataP, COAP_205_CONTENT)
      else (dataP, COAP_404_NOT_FOUND))"

definition device_resList :: "u16 list" where
  "device_resList = [RES_O_MANUFACTURER, RES_O_MODEL_NUMBER, RES_O_SERIAL_NUMBER,
     RES_O_FIRMWARE_VERSION, RES_O_HARDWARE_VERSION, RES_O_SOFTWARE_VERSION,
     RES_O_BATTERY_LEVEL, RES_O_CURRENT_TIME, RES_M_BINDING_MODES, RES_O_MEMORY_FREE]"

definition prv_device_read ::
    "wakaama \<Rightarrow> device_env \<Rightarrow> u16 \<Rightarrow> lwm2m_data list \<Rightarrow> (coap_status \<times> lwm2m_data list) option" where
  "prv_device_read W env instanceId ds =
     (if instanceId \<noteq> 0 then Some (COAP_404_NOT_FOUND, ds)
      else read_request W device_resList (device_get_value W env) ds)"

text \<open>The discover loop over the ids of a request: it stops at the first unknown one.\<close>

fun discover_loop :: "u16 set \<Rightarrow> coap_status \<Rightarrow> lwm2m_data list \<Rightarrow> coap_status" where
  "discover_loop known result [] = result"
| "discover_loop known result (d # ds) =
     (if result = COAP_205_CONTENT then
        discover_loop known (if data_id d \<in> known then COAP_205_CONTENT else COAP_404_NOT_FOUND) ds
      else result)"

definition prv_device_discover ::
    "wakaama \<Rightarrow> u16 \<Rightarrow> lwm2m_data list \<Rightarrow> coap_status \<times> lwm2m_data list" where
  "prv_device_discover W instanceId ds =
     (if instanceId \<noteq> 0 then (COAP_404_NOT_FOUND, ds)
      else if ds = [] then
        (case full_array W device_resList of
           None \<Rightarrow> (COAP_500_INTERNAL_SERVER_ERROR, [])
         | Some ds' \<Rightarrow> (COAP_205_CONTENT, ds'))
      else (discover_loop (set device_resList) COAP_205_CONTENT ds, ds))"

definition prv_device_execute :: "u16 \<Rightarrow> u16 \<Rightarrow> int \<Rightarrow> coap_status" where
  "prv_device_execute instanceId resourceId len =
     (if instanceId \<noteq> 0 then COAP_404_NOT_FOUND
      else if len \<noteq> 0 then COAP_400_BAD_REQUEST
      else if resourceId = RES_M_REBOOT then COAP_204_CHANGED
      else COAP_405_METHOD_NOT_ALLOWED)"

text \<open>
  The object and its single list node are two heap blocks; what the destructor frees is the
  list of those it was given. (\<open>userData\<close> is never set; the destructor frees it if it is.)
\<close>

datatype device_block = Blk_user_data | Blk_instance | Blk_object

record device_object =
  dev_objID :: u16
  dev_has_user_data :: bool
  dev_has_instance :: bool

text \<open>The constructor, with the blocks that stay allocated when it returns.\<close>

definition get_object_device :: "bool \<Rightarrow> bool \<Rightarrow> device_object option \<times> device_block list" where
  "get_object_device obj_alloc inst_alloc =
     (if obj_alloc then
        if inst_alloc then
          (Some \<lparr>dev_objID = 3, dev_has_user_data = False, dev_has_instance = True\<rparr>,
           [Blk_object, Blk_instance])
        else (None, [])
      else (None, []))"

definition free_object_device :: "device_object \<Rightarrow> device_block list" where
  "free_object_device obj =
     (if dev_has_user_data obj then [Blk_user_data] else [])
     @ (if dev_has_instance obj then [Blk_instance] else []) @ [Blk_object]"

subsection \<open>Correctness\<close>

definition device_readable :: "u16 set" where
  "device_readable = insert RES_O_AVL_POWER_SOURCES (set device_resList)"

interpretation dev: resource_getter "device_get_value W env" device_readable "wakaama_ok W" for W env
  by unfold_locales (auto simp: device_get_value_def device_readable_def device_resList_def)

lemma discover_loop_content:
  "discover_loop known r ds = COAP_205_CONTENT \<longleftrightarrow>
     r = COAP_205_CONTENT \<and> (\<forall>d \<in> set ds. data_id d \<in> known)"
  by (induction known r ds rule: discover_loop.induct) auto

lemma discover_loop_status:
  "r \<in> {COAP_205_CONTENT, COAP_404_NOT_FOUND} \<Longrightarrow>
     discover_loop known r ds \<in> {COAP_205_CONTENT, COAP_404_NOT_FOUND}"
  by (induction known r ds rule: discover_loop.induct) auto

text \<open>
  The device object reads what it discovers: a full read returns exactly the resources
  a full discover lists, in that order; whatever single resources discover confirms a read
  delivers; and the only readable resource that discover denies is the list of power sources.
\<close>

theorem device_read_discover:
  assumes "wakaama_ok W" and "data_new W (length device_resList) \<noteq> None"
  shows "(\<exists>ds es. prv_device_read W env 0 [] = Some (COAP_205_CONTENT, ds)
            \<and> prv_device_discover W 0 [] = (COAP_205_CONTENT, es) \<and> map data_id ds = map data_id es)
     \<and> (\<forall>ds. ds \<noteq> [] \<longrightarrow> fst (prv_device_discover W 0 ds) = COAP_205_CONTENT \<longrightarrow>
            (\<forall>d \<in> set ds. \<not> is_multiple d) \<longrightarrow>
            (\<exists>es. prv_device_read W env 0 ds = Some (COAP_205_CONTENT, es) \<and> map data_id es = map data_id ds))
     \<and> (\<forall>i v. snd (device_get_value W env (Data i v)) = COAP_205_CONTENT
            \<and> fst (prv_device_discover W 0 [Data i v]) \<noteq> COAP_205_CONTENT
            \<longleftrightarrow> i = RES_O_AVL_POWER_SOURCES)"
proof (intro conjI allI impI)
  have sub: "set device_resList \<subseteq> device_readable" "device_resList \<noteq> []"
    by (auto simp: device_readable_def device_resList_def)
  obtain es where es: "full_array W device_resList = Some es"
    using assms(2) by (auto simp: full_array_def)
  from dev.read_request_full [OF assms(1) assms(1) sub es] full_array_Some [OF assms(1) es] es
  show "\<exists>ds es. prv_device_read W env 0 [] = Some (COAP_205_CONTENT, ds)
            \<and> prv_device_discover W 0 [] = (COAP_205_CONTENT, es) \<and> map data_id ds = map data_id es"
    by (fastforce simp: prv_device_read_def prv_device_discover_def)
  fix ds
  assume ds: "ds \<noteq> []" "fst (prv_device_discover W 0 ds) = COAP_205_CONTENT" "\<forall>d \<in> set ds. \<not> is_multiple d"
  then have "\<forall>d \<in> set ds. data_id d \<in> device_readable"
    using sub(1) by (auto simp: prv_device_discover_def discover_loop_content)
  with dev.read_request_correct [OF assms(1) assms(1) sub, where env = env and ds = ds] ds
  show "\<exists>es. prv_device_read W env 0 ds = Some (COAP_205_CONTENT, es) \<and> map data_id es = map data_id ds"
    by (auto simp: prv_device_read_def)
next
  fix i v
  have "RES_O_AVL_POWER_SOURCES \<notin> set device_resList" by (simp add: device_resList_def)
  then show "snd (device_get_value W env (Data i v)) = COAP_205_CONTENT
          \<and> fst (prv_device_discover W 0 [Data i v]) \<noteq> COAP_205_CONTENT
        \<longleftrightarrow> i = RES_O_AVL_POWER_SOURCES"
    by (auto simp: dev.get_content prv_device_discover_def device_readable_def)
qed

theorem device_read_discover_witness:
  "\<exists>ds es. prv_device_read demo_wakaama \<lparr>free_heap = 1024, current_time = 7\<rparr> 0 []
       = Some (COAP_205_CONTENT, ds)
     \<and> prv_device_discover demo_wakaama 0 [] = (COAP_205_CONTENT, es) \<and> map data_id ds = map data_id es"
proof -
  have "data_new demo_wakaama (length device_resList) \<noteq> None" by (simp add: demo_wakaama_def)
  from device_read_discover [OF demo_wakaama_ok this] show ?thesis by blast
qed

text \<open>
  The device handlers refuse every other instance, execute only the reboot resource of
  instance 0 and only without arguments, and a request is never answered with content for
  the reboot resource; the destructor frees exactly the blocks a constructor left allocated.
\<close>

theorem device_execute_lifecycle:
  "(prv_device_execute i r len = COAP_204_CHANGED \<longleftrightarrow> i = 0 \<and> r = RES_M_REBOOT \<and> len = 0)
   \<and> (i \<noteq> 0 \<longrightarrow> prv_device_execute i r len = COAP_404_NOT_FOUND
        \<and> prv_device_read W env i ds = Some (COAP_404_NOT_FOUND, ds)
        \<and> prv_device_discover W i ds = (COAP_404_NOT_FOUND, ds))
   \<and> snd (device_get_value W env (Data RES_M_REBOOT v)) = COAP_405_METHOD_NOT_ALLOWED
   \<and> (case get_object_device a b of
        (None, bs) \<Rightarrow> bs = [] \<and> \<not> (a \<and> b)
      | (Some obj, bs) \<Rightarrow> a \<and> b \<and> mset (free_object_device obj) = mset bs)"
  by (auto simp: prv_device_execute_def prv_device_read_def prv_device_discover_def
      device_get_value_def get_object_device_def free_object_device_def)

theorem device_execute_lifecycle_witness:
  "prv_device_read demo_wakaama \<lparr>free_heap = 0, current_time = 0\<rparr> 5 [] = Some (COAP_404_NOT_FOUND, [])"
  using device_execute_lifecycle [where i = 5 and W = demo_wakaama
      and env = "\<lparr>free_heap = 0, current_time = 0\<rparr>" and ds = "[]"] by auto

end
