(* ===== verification/Object_Sensors.thy ===== *)
theory Object_Sensors
  imports Lwm2m
begin

text \<open>
  The two sensor objects, \<open>csrc/src/lwm2m/lightclient/object_accelerometer.c\<close> (object 3313)
  and \<open>object_temperature.c\<close> (object 3303): the value each keeps, its update function, its
  handlers and constructor. A float is its 32-bit pattern. The number of data of a request
  is the length of the array, so the handlers' test for a negative one does not arise.
\<close>

subsection \<open>Accelerometer\<close>

abbreviation lwm2m_accel_x_value :: u16 where "lwm2m_accel_x_value \<equiv> 5702"
abbreviation lwm2m_accel_y_value :: u16 where "lwm2m_accel_y_value \<equiv> 5703"
abbreviation lwm2m_accel_z_value :: u16 where "lwm2m_accel_z_value \<equiv> 5704"
abbreviation lwm2m_accel_sensor_units :: u16 where "lwm2m_accel_sensor_units \<equiv> 5701"
abbreviation lwm2m_accel_application_type :: u16 where "lwm2m_accel_application_type \<equiv> 5750"

definition accel_resource_list :: "u16 list" where
  "accel_resource_list = [lwm2m_accel_x_value, lwm2m_accel_y_value, lwm2m_accel_z_value,
     lwm2m_accel_sensor_units, lwm2m_accel_application_type]"

record accelerometer_values =
  acc_x :: u32
  acc_y :: u32
  acc_z :: u32
  acc_timestamp :: u32

definition update_accelerometer_values ::
    "u32 \<Rightarrow> u32 \<Rightarrow> u32 \<Rightarrow> accelerometer_values \<Rightarrow> accelerometer_values" where
  "update_accelerometer_values x y z v = v\<lparr>acc_x := x, acc_y := y, acc_z := z\<rparr>"

definition accel_get_value ::
    "wakaama \<Rightarrow> accelerometer_values \<Rightarrow> lwm2m_data \<Rightarrow> lwm2m_data \<times> coap_status" where
  "accel_get_value W values dataP =
     (if data_id dataP = lwm2m_accel_x_value then (encode_float W (acc_x values) dataP, COAP_205_CONTENT)
      else if data_id dataP = lwm2m_accel_y_value then (encode_float W (acc_y values) dataP, COAP_205_CONTENT)
      else if data_id dataP = lwm2m_accel_z_value then (encode_float W (acc_z values) dataP, COAP_205_CONTENT)
      else if data_id dataP = lwm2m_accel_sensor_units then
        (encode_string W ''LSB'' dataP, COAP_205_CONTENT)
      else if data_id dataP = lwm2m_accel_application_type then
        (encode_string W ''Bosch Sensortec BMA280'' dataP, COAP_205_CONTENT)
      else (dataP, COAP_404_NOT_FOUND))"

definition accel_read ::
    "wakaama \<Rightarrow> accelerometer_values \<Rightarrow> u16 \<Rightarrow> lwm2m_data list \<Rightarrow> coap_status \<times> lwm2m_data list" where
  "accel_read W values instanceId ds =
     (if instanceId > 0 then (COAP_404_NOT_FOUND, ds)
      else read_for_request W accel_resource_list (accel_get_value W values) ds)"

fun accel_discover_loop :: "coap_status \<Rightarrow> lwm2m_data list \<Rightarrow> coap_status" where
  "accel_discover_loop ret [] = ret"
| "accel_discover_loop ret (d # ds) =
     (if data_id d \<in> set accel_resource_list then accel_discover_loop COAP_205_CONTENT ds
      else COAP_404_NOT_FOUND)"

definition accel_discover ::
    "wakaama \<Rightarrow> u16 \<Rightarrow> lwm2m_data list \<Rightarrow> coap_status \<times> lwm2m_data list" where
  "accel_discover W instanceId ds =
     (if ds = [] then
        (case full_array W accel_resource_list of
           None \<Rightarrow> (COAP_500_INTERNAL_SERVER_ERROR, [])
         | Some ds' \<Rightarrow> (COAP_205_CONTENT, ds'))
      else (accel_discover_loop COAP_NO_ERROR ds, ds))"

text \<open>
  Constructor and destructor. The blocks still allocated are counted, so a leak or a double
  free shows; the constructor zeroes the (global) values.
\<close>

datatype accel_block = Blk_accelerometer | Blk_accel_instance

definition get_accelerometer_object ::
    "bool \<Rightarrow> bool \<Rightarrow> accelerometer_values \<Rightarrow> (u16 \<times> accel_block list) option \<times> accel_block list \<times> accelerometer_values" where
  "get_accelerometer_object obj_alloc inst_alloc values =
     (if obj_alloc then
        if inst_alloc then
          (Some (3313, [Blk_accel_instance, Blk_accelerometer]), [Blk_accelerometer, Blk_accel_instance],
           \<lparr>acc_x = 0, acc_y = 0, acc_z = 0, acc_timestamp = 0\<rparr>)
        else (None, [], values)
      else (None, [], values))"

definition free_accelerometer_object :: "(u16 \<times> accel_block list) option \<Rightarrow> accel_block list" where
  "free_accelerometer_object obj = (case obj of None \<Rightarrow> [] | Some (i, blocks) \<Rightarrow> blocks)"

subsection \<open>Temperature\<close>

abbreviation lwm2m_temp_sensor_value :: u16 where "lwm2m_temp_sensor_value \<equiv> 5700"
abbreviation lwm2m_temp_sensor_units :: u16 where "lwm2m_temp_sensor_units \<equiv> 5701"
abbreviation lwm2m_temp_application_type :: u16 where "lwm2m_temp_application_type \<equiv> 5750"

definition temp_resource_list :: "u16 list" where
  "temp_resource_list = [lwm2m_temp_sensor_value, lwm2m_temp_sensor_units, lwm2m_temp_application_type]"

record temperature =
  temp_value :: u32
  temp_min_value :: u32
  temp_max_value :: u32

definition write_temperature :: "u32 \<Rightarrow> temperature \<Rightarrow> temperature" where
  "write_temperature v t = t\<lparr>temp_value := v\<rparr>"

definition temp_get_value :: "wakaama \<Rightarrow> temperature \<Rightarrow> lwm2m_data \<Rightarrow> lwm2m_data \<times> coap_status" where
  "temp_get_value W t dataP =
     (if data_id dataP = lwm2m_temp_sensor_value then (encode_float W (temp_value t) dataP, COAP_205_CONTENT)
      else if data_id dataP = lwm2m_temp_sensor_units then
        (encode_string W ''degree Celsius'' dataP, COAP_205_CONTENT)
      else if data_id dataP = lwm2m_temp_application_type then
        (encode_string W ''Bosch Sensortec BME280'' dataP, COAP_205_CONTENT)
      else (dataP, COAP_404_NOT_FOUND))"

text \<open>The instances are static list nodes, known by their ids only.\<close>

definition temperature_read ::
    "wakaama \<Rightarrow> u16 wakaama_list \<Rightarrow> temperature \<Rightarrow> u16 list \<Rightarrow> u16 \<Rightarrow> lwm2m_data list \<Rightarrow>
     coap_status \<times> lwm2m_data list" where
  "temperature_read W L t instances instanceId ds =
     (case list_find L instances instanceId of
        None \<Rightarrow> (COAP_404_NOT_FOUND, ds)
      | Some k \<Rightarrow> read_for_request W temp_resource_list (temp_get_value W t) ds)"

definition get_temperature_object :: "u16 \<times> u16 list" where
  "get_temperature_object = (3303, [0])"

subsection \<open>Correctness\<close>

interpretation acc: resource_getter "accel_get_value W v" "set accel_resource_list" "wakaama_ok W" for W v
  by unfold_locales (auto simp: accel_get_value_def accel_resource_list_def)

interpretation temp: resource_getter "temp_get_value W t" "set temp_resource_list" "wakaama_ok W" for W t
  by unfold_locales (auto simp: temp_get_value_def temp_resource_list_def)

text \<open>The values a full read returns are the getter's on the listed ids, in order.\<close>

lemma read_for_request_full:
  assumes "resource_getter get readable lib" and "wakaama_ok W" and "resList \<noteq> []"
    and "set resList \<subseteq> readable" and "data_new W (length resList) \<noteq> None"
  shows "read_for_request W resList get [] =
           (COAP_205_CONTENT, map (\<lambda>i. fst (get (Data i UNDEFINED))) resList)"
proof -
  obtain es where es: "full_array W resList = Some es" using assms(5) by (auto simp: full_array_def)
  from full_array_Some [OF assms(2) es] have ids: "map data_id es = resList"
    and u: "\<forall>d \<in> set es. data_value d = UNDEFINED" by auto
  then have e: "es = map (\<lambda>i. Data i UNDEFINED) resList"
    by (auto simp: comp_def intro!: map_idI [symmetric] lwm2m_data.expand)
  obtain r ds where f: "read_for get COAP_NO_ERROR es = (r, ds)" by fastforce
  from ids assms(3) have "es \<noteq> []" by auto
  note rc = resource_getter.read_for_correct [OF assms(1) f this]
  have "\<forall>d \<in> set es. data_id d \<in> readable" using ids assms(4) by auto
  with rc have "r = COAP_205_CONTENT \<and> ds = map (\<lambda>d. fst (get d)) es" by blast
  with f es e show ?thesis by (simp add: read_for_request_def comp_def)
qed

text \<open>
  What the sensors report is what was written last: after an update of the
  accelerometer a full read of it returns the three new values with the units and the
  type, and a full read of the temperature object its new value.
\<close>

theorem sensor_read_after_update:
  assumes "wakaama_ok W" and "list_ok id L" and "data_new W (length accel_resource_list) \<noteq> None"
    and "data_new W (length temp_resource_list) \<noteq> None"
  shows "(\<exists>u t. accel_read W (update_accelerometer_values x y z v) 0 [] = (COAP_205_CONTENT,
            [Data lwm2m_accel_x_value (FLOAT x), Data lwm2m_accel_y_value (FLOAT y),
             Data lwm2m_accel_z_value (FLOAT z), Data lwm2m_accel_sensor_units u,
             Data lwm2m_accel_application_type t])
            \<and> u \<in> {STRING ''LSB'', UNDEFINED})
     \<and> (\<exists>u t'. temperature_read W L (write_temperature f t) (snd get_temperature_object) 0 [] =
            (COAP_205_CONTENT, [Data lwm2m_temp_sensor_value (FLOAT f), Data lwm2m_temp_sensor_units u,
             Data lwm2m_temp_application_type t'])
            \<and> u \<in> {STRING ''degree Celsius'', UNDEFINED})"
proof -
  have es: "\<exists>v. encode_string W s (Data i UNDEFINED) = Data i v \<and> v \<in> {STRING s, UNDEFINED}"
    if "NUL \<notin> set s" for s i
  proof -
    from assms(1) have "encode_string W s (Data i UNDEFINED) \<in> {Data i (STRING (cstr s)), Data i UNDEFINED}"
      by (auto simp: wakaama_ok_def dest!: spec [where x = "Data i UNDEFINED"])
    with that show ?thesis by auto
  qed
  have ef: "encode_float W r (Data i UNDEFINED) = Data i (FLOAT r)" for r i
    using assms(1) by (simp add: wakaama_ok_def)
  have a: "read_for_request W accel_resource_list (accel_get_value W v) [] = (COAP_205_CONTENT,
      map (\<lambda>i. fst (accel_get_value W v (Data i UNDEFINED))) accel_resource_list)" for v
    by (rule read_for_request_full [OF acc.resource_getter_axioms assms(1)])
      (use assms(3) in \<open>auto simp: accel_resource_list_def\<close>)
  have b: "read_for_request W temp_resource_list (temp_get_value W v) [] = (COAP_205_CONTENT,
      map (\<lambda>i. fst (temp_get_value W v (Data i UNDEFINED))) temp_resource_list)" for v
    by (rule read_for_request_full [OF temp.resource_getter_axioms assms(1)])
      (use assms(4) in \<open>auto simp: temp_resource_list_def\<close>)
  obtain k where "list_find L [0] 0 = Some k"
    using list_find_None [OF assms(2), of "[0]" 0] by fastforce
  with a b es [of "''LSB''" lwm2m_accel_sensor_units] es [of "''Bosch Sensortec BMA280''" lwm2m_accel_application_type]
    es [of "''degree Celsius''" lwm2m_temp_sensor_units] es [of "''Bosch Sensortec BME280''" lwm2m_temp_application_type]
  show ?thesis
    by (auto simp: accel_read_def temperature_read_def accel_resource_list_def temp_resource_list_def
        accel_get_value_def temp_get_value_def ef update_accelerometer_values_def write_temperature_def
        get_temperature_object_def)
qed

theorem sensor_read_after_update_witness:
  "\<exists>u t. accel_read demo_wakaama (update_accelerometer_values 1 2 3
         \<lparr>acc_x = 0, acc_y = 0, acc_z = 0, acc_timestamp = 0\<rparr>) 0 [] = (COAP_205_CONTENT,
            [Data lwm2m_accel_x_value (FLOAT 1), Data lwm2m_accel_y_value (FLOAT 2),
             Data lwm2m_accel_z_value (FLOAT 3), Data lwm2m_accel_sensor_units u,
             Data lwm2m_accel_application_type t])"
proof -
  have "data_new demo_wakaama (length accel_resource_list) \<noteq> None"
    "data_new demo_wakaama (length temp_resource_list) \<noteq> None" by (simp_all add: demo_wakaama_def)
  from sensor_read_after_update [OF demo_wakaama_ok demo_list_ok this] show ?thesis by blast
qed

lemma accel_discover_loop_content:
  "accel_discover_loop r ds = COAP_205_CONTENT \<longleftrightarrow>
     (if ds = [] then r = COAP_205_CONTENT else \<forall>d \<in> set ds. data_id d \<in> set accel_resource_list)"
  by (induction r ds rule: accel_discover_loop.induct) auto

text \<open>
  For named resources the accelerometer's discover and read of instance 0 answer
  content for the same requests; but discover does not look at the instance, so it also
  confirms resources of instances that a read does not find.
\<close>

theorem accel_discover_ignores_instance:
  assumes "ds \<noteq> []"
  shows "(fst (accel_read W v 0 ds) = COAP_205_CONTENT \<longleftrightarrow>
            fst (accel_discover W 0 ds) = COAP_205_CONTENT)
     \<and> (i \<noteq> 0 \<longrightarrow> accel_discover W i ds = accel_discover W 0 ds
          \<and> fst (accel_read W v i ds) = COAP_404_NOT_FOUND)"
proof -
  obtain r es where f: "read_for (accel_get_value W v) COAP_NO_ERROR ds = (r, es)" by fastforce
  from acc.read_for_correct [OF f assms] f assms show ?thesis
    by (simp add: accel_read_def accel_discover_def read_for_request_def accel_discover_loop_content
        word_neq_0_conv)
qed

theorem accel_discover_ignores_instance_witness:
  "accel_discover demo_wakaama 9 [Data lwm2m_accel_x_value UNDEFINED]
     = accel_discover demo_wakaama 0 [Data lwm2m_accel_x_value UNDEFINED]"
  using accel_discover_ignores_instance [where ds = "[Data lwm2m_accel_x_value UNDEFINED]"
      and i = 9 and W = demo_wakaama and v = v] by simp

end
