(* ===== verification/Connection.thy ===== *)
theory Connection
  imports Object_Security
begin

text \<open>
  The LwM2M client's connections: the list of \<open>csrc/src/lwm2m/connection.c\<close> with its
  constructor, destructor and send function, and the two callbacks of
  \<open>lightclient/miso_lightclient.c\<close> that wakaama opens and closes a server session with.

  A connection is a heap node, known by its address; the list is the sequence of its nodes.
  The service functions (\<open>lwm2mservice_*\<close>) are Zig code and so parameters.
\<close>

record connection =
  conn_addr :: nat
  conn_parent :: nat

record client_data =
  securityObj :: "security_instance list"
  connList :: "connection list"
  client_param :: nat

text \<open>What the operations do outside the list: heap blocks and the service's connection.\<close>

datatype conn_event =
    Alloc_uri string | Free_uri string
  | Alloc_node nat | Free_node nat
  | Service_create "string option" | Service_close nat

subsection \<open>The list\<close>

text \<open>\<open>node\<close> is the address \<open>lwm2m_malloc\<close> returns; the new node goes behind the last one.\<close>

definition connection_create ::
    "connection list \<Rightarrow> nat \<Rightarrow> nat option \<Rightarrow> connection option \<times> connection list" where
  "connection_create cl ctx node =
     (case node of
        None \<Rightarrow> (None, cl)
      | Some a \<Rightarrow> (let newConn = \<lparr>conn_addr = a, conn_parent = ctx\<rparr>
                   in (Some newConn, if cl = [] then [] else cl @ [newConn])))"

text \<open>
  The \<open>do \<dots> while\<close> loop of the destructor: it closes the service connection of a node,
  moves on, and tests the successor of the node it has moved to.
\<close>

fun connection_free :: "connection list \<Rightarrow> conn_event list" where
  "connection_free [] = []"
| "connection_free [c] = [Service_close (conn_parent c)]"
| "connection_free (c # c' # cs) =
     Service_close (conn_parent c) # (if cs = [] then [] else connection_free (c' # cs))"

text \<open>\<open>send\<close> is the return value of \<open>lwm2mservice_send_data\<close> for the bytes and the parent.\<close>

definition lwm2m_buffer_send ::
    "(nat \<Rightarrow> string \<Rightarrow> int) \<Rightarrow> connection option \<Rightarrow> string \<Rightarrow> coap_status" where
  "lwm2m_buffer_send send sessionH buf =
     (case sessionH of
        None \<Rightarrow> COAP_500_INTERNAL_SERVER_ERROR
      | Some connP \<Rightarrow>
          if send (conn_parent connP) buf = -1 then COAP_500_INTERNAL_SERVER_ERROR else COAP_NO_ERROR)"

definition lwm2m_session_is_equal :: "connection option \<Rightarrow> connection option \<Rightarrow> bool" where
  "lwm2m_session_is_equal session1 session2 = True"

subsection \<open>Opening and closing a server session\<close>

text \<open>
  The environment of an opening: whether the two \<open>strdup\<close>s of the URI succeed, the
  result of \<open>lwm2mservice_create_connection\<close> for the URI it is given, and the address of
  the new node.
\<close>

record connect_env =
  strdup1 :: bool
  strdup2 :: bool
  service_create :: "string option \<Rightarrow> int"
  new_node :: "nat option"

definition lwm2m_connect_server ::
    "security_instance wakaama_list \<Rightarrow> connect_env \<Rightarrow> u16 \<Rightarrow> client_data \<Rightarrow>
     connection option \<times> client_data \<times> conn_event list" where
  "lwm2m_connect_server L env secObjInstID dataP =
     (case get_server_uri L (strdup1 env) (securityObj dataP) secObjInstID of
        None \<Rightarrow> (None, dataP, [])
      | Some uri \<Rightarrow>
          (let uri2 = get_server_uri L (strdup2 env) (securityObj dataP) secObjInstID;
               ev = Alloc_uri uri # (case uri2 of None \<Rightarrow> [] | Some u \<Rightarrow> [Alloc_uri u])
                    @ [Service_create uri2];
               ret = service_create env uri2
           in if ret = 0 then
                (case connection_create (connList dataP) (client_param dataP) (new_node env) of
                   (None, cl) \<Rightarrow> (None, dataP, ev @ [Free_uri uri])
                 | (Some newConnP, cl) \<Rightarrow>
                     (Some newConnP,
                      dataP\<lparr>connList := (if connList dataP = [] then [newConnP] else cl)\<rparr>,
                      ev @ [Alloc_node (conn_addr newConnP), Free_uri uri]))
              else (None, dataP, ev @ [Free_uri uri])))"

text \<open>
  Unlinking a session, given by its address (\<open>None\<close> is NULL). With an empty list a NULL
  session is taken for the head, and with a non-empty one for the successor of the last
  node, so either way it is dereferenced.
\<close>

fun unlink :: "nat \<Rightarrow> connection list \<Rightarrow> (connection list \<times> conn_event list) option" where
  "unlink a [] = None"
| "unlink a (c # cs) =
     (if conn_addr c = a then Some (cs, [Free_node a])
      else map_option (\<lambda>(cs', ev). (c # cs', ev)) (unlink a cs))"

definition lwm2m_close_connection ::
    "nat option \<Rightarrow> client_data \<Rightarrow> fault + client_data \<times> conn_event list" where
  "lwm2m_close_connection sessionH dataP =
     (case sessionH of
        None \<Rightarrow> Inl Null_deref
      | Some a \<Rightarrow>
          (case unlink a (connList dataP) of
             None \<Rightarrow> Inr (dataP, [])
           | Some (cl, ev) \<Rightarrow> Inr (dataP\<lparr>connList := cl\<rparr>, ev)))"

subsection \<open>Correctness\<close>

definition conn_inv :: "client_data \<Rightarrow> bool" where
  "conn_inv d \<longleftrightarrow> distinct (map conn_addr (connList d))
     \<and> (\<forall>c \<in> set (connList d). conn_parent c = client_param d)"

lemma connect_server_cases:
  "lwm2m_connect_server L env i d = (r, d', ev) \<Longrightarrow>
     (case r of
        None \<Rightarrow> d' = d
      | Some c \<Rightarrow> new_node env = Some (conn_addr c) \<and> conn_parent c = client_param d
          \<and> d' = d\<lparr>connList := connList d @ [c]\<rparr>)"
  by (auto simp: lwm2m_connect_server_def connection_create_def Let_def
      split: option.splits if_splits prod.splits)

lemma unlink_Some:
  "unlink a cs = Some (cs', ev) \<Longrightarrow> ev = [Free_node a] \<and> (\<exists>xs c ys. cs = xs @ c # ys
     \<and> conn_addr c = a \<and> cs' = xs @ ys \<and> a \<notin> conn_addr ` set xs)"
proof (induction cs arbitrary: cs')
  case Nil
  then show ?case by simp
next
  case (Cons c cs)
  show ?case
  proof (cases "conn_addr c = a")
    case True
    with Cons.prems show ?thesis by (intro conjI exI [of _ "[]"]) auto
  next
    case False
    with Cons.prems obtain cs1 where u: "unlink a cs = Some (cs1, ev)" "cs' = c # cs1" by auto
    from Cons.IH [OF u(1)] obtain xs d ys where "ev = [Free_node a]"
      "cs = xs @ d # ys" "conn_addr d = a" "cs1 = xs @ ys" "a \<notin> conn_addr ` set xs" by blast
    with u(2) False show ?thesis by (intro conjI exI [of _ "c # xs"]) auto
  qed
qed

lemma unlink_append:
  "conn_addr c \<notin> conn_addr ` set cs \<Longrightarrow> unlink (conn_addr c) (cs @ [c]) = Some (cs, [Free_node (conn_addr c)])"
  by (induction cs) auto

lemma unlink_None: "unlink a cs = None \<longleftrightarrow> a \<notin> conn_addr ` set cs"
  by (induction cs) auto

text \<open>
  The sessions wakaama opens and closes; a session it closes is one it was given, so the
  address is not NULL, and \<open>malloc\<close> returns an address that no node of the list has.
\<close>

datatype conn_op = Conn_open connect_env u16 | Conn_close nat

definition conn_step :: "security_instance wakaama_list \<Rightarrow> client_data \<Rightarrow> conn_op \<Rightarrow> client_data" where
  "conn_step L d op =
     (case op of
        Conn_open env i \<Rightarrow>
          if (case new_node env of None \<Rightarrow> False | Some a \<Rightarrow> a \<in> conn_addr ` set (connList d)) then d
          else fst (snd (lwm2m_connect_server L env i d))
      | Conn_close a \<Rightarrow> (case lwm2m_close_connection (Some a) d of Inl e \<Rightarrow> d | Inr (d', ev) \<Rightarrow> d'))"

lemma conn_step_inv:
  assumes "conn_inv d"
  shows "conn_inv (conn_step L d op)"
proof (cases op)
  case (Conn_open env i)
  obtain r d' ev where c: "lwm2m_connect_server L env i d = (r, d', ev)" by (metis prod_cases3)
  from connect_server_cases [OF c] Conn_open c assms show ?thesis
    by (cases r) (auto simp: conn_step_def conn_inv_def)
next
  case (Conn_close a)
  show ?thesis
  proof (cases "unlink a (connList d)")
    case None
    with Conn_close assms show ?thesis by (simp add: conn_step_def lwm2m_close_connection_def)
  next
    case (Some p)
    then obtain cl ev where u: "unlink a (connList d) = Some (cl, ev)" by (cases p) auto
    from unlink_Some [OF u] u Conn_close assms show ?thesis
      by (auto simp: conn_step_def lwm2m_close_connection_def conn_inv_def)
  qed
qed

interpretation conn_run: invariant_machine "conn_step L" conn_inv for L
  by unfold_locales (rule conn_step_inv)

text \<open>
  Opening a session appends exactly one node at the end of the list when it succeeds and
  leaves the list alone when it fails; closing it again restores the list; the nodes stay
  distinct and all belong to the client's service over every run of openings and closings.
\<close>

theorem connection_list_correct:
  assumes "conn_inv d" and "lwm2m_connect_server L env i d = (r, d', ev)"
    and "\<forall>a. new_node env = Some a \<longrightarrow> a \<notin> conn_addr ` set (connList d)"
  shows "(case r of
            None \<Rightarrow> d' = d
          | Some c \<Rightarrow> connList d' = connList d @ [c]
              \<and> lwm2m_close_connection (Some (conn_addr c)) d' = Inr (d, [Free_node (conn_addr c)]))
     \<and> conn_inv (foldl (conn_step L) d ops)"
proof
  show "conn_inv (foldl (conn_step L) d ops)" by (rule conn_run.run_inv [OF assms(1)])
  show "case r of None \<Rightarrow> d' = d
      | Some c \<Rightarrow> connList d' = connList d @ [c]
          \<and> lwm2m_close_connection (Some (conn_addr c)) d' = Inr (d, [Free_node (conn_addr c)])"
  proof (cases r)
    case None
    with connect_server_cases [OF assms(2)] show ?thesis by simp
  next
    case (Some c)
    with connect_server_cases [OF assms(2)] have c: "new_node env = Some (conn_addr c)"
      "d' = d\<lparr>connList := connList d @ [c]\<rparr>" by auto
    with assms(3) have "conn_addr c \<notin> conn_addr ` set (connList d)" by blast
    then have "unlink (conn_addr c) (connList d @ [c]) = Some (connList d, [Free_node (conn_addr c)])"
      by (rule unlink_append)
    with Some c(2) show ?thesis by (simp add: lwm2m_close_connection_def)
  qed
qed

definition demo_client :: client_data where
  "demo_client = \<lparr>securityObj = [security_zero], connList = [], client_param = 7\<rparr>"

definition demo_connect_env :: connect_env where
  "demo_connect_env = \<lparr>strdup1 = True, strdup2 = True, service_create = (\<lambda>u. 0), new_node = Some 4096\<rparr>"

lemma demo_connect:
  "lwm2m_connect_server (demo_list sec_instanceId) demo_connect_env 0 demo_client =
     (Some \<lparr>conn_addr = 4096, conn_parent = 7\<rparr>,
      demo_client\<lparr>connList := [\<lparr>conn_addr = 4096, conn_parent = 7\<rparr>]\<rparr>,
      [Alloc_uri [NUL], Alloc_uri [NUL], Service_create (Some [NUL]), Alloc_node 4096, Free_uri [NUL]])"
  by (simp add: lwm2m_connect_server_def demo_connect_env_def demo_client_def get_server_uri_def
      demo_list_def security_zero_def connection_create_def)

theorem connection_list_correct_witness:
  "lwm2m_close_connection (Some 4096) (demo_client\<lparr>connList := [\<lparr>conn_addr = 4096, conn_parent = 7\<rparr>]\<rparr>)
     = Inr (demo_client, [Free_node 4096])"
  using connection_list_correct [OF _ demo_connect, of "[]"]
  by (simp add: conn_inv_def demo_client_def)

text \<open>
  The destructor closes the service connection of every node but the last as soon as
  there are two (a single one it does close), and it frees none of them.
\<close>

theorem connection_free_skips_last:
  "connection_free cs =
     map (\<lambda>c. Service_close (conn_parent c)) (if length cs \<le> 1 then cs else butlast cs)"
proof (induction cs rule: connection_free.induct)
  case (3 c c' cs)
  then show ?case by (cases cs) auto
qed simp_all

text \<open>
  Every attempt to connect that finds the server's URI duplicates it twice and frees
  one copy: the string handed to the service is never freed, whether the attempt succeeds
  or not (and it is a null pointer when only the second duplicate fails).
\<close>

theorem connect_leaks_uri:
  assumes "list_find L (securityObj d) i = Some k" and "strdup1 env"
    and "lwm2m_connect_server L env i d = (r, d', ev)"
  shows "let uri = cstr (sec_uri (securityObj d ! k)) @ [NUL] in
     filter (\<lambda>e. case e of Free_uri u \<Rightarrow> True | _ \<Rightarrow> False) ev = [Free_uri uri]
   \<and> filter (\<lambda>e. case e of Alloc_uri u \<Rightarrow> True | _ \<Rightarrow> False) ev
        = (if strdup2 env then [Alloc_uri uri, Alloc_uri uri] else [Alloc_uri uri])
   \<and> filter (\<lambda>e. case e of Service_create u \<Rightarrow> True | _ \<Rightarrow> False) ev
        = [Service_create (if strdup2 env then Some uri else None)]"
  using assms
  by (auto simp: lwm2m_connect_server_def get_server_uri_def Let_def split: if_splits option.splits prod.splits)

theorem connect_leaks_uri_witness:
  "filter (\<lambda>e. case e of Alloc_uri u \<Rightarrow> True | _ \<Rightarrow> False)
     [Alloc_uri [NUL], Alloc_uri [NUL], Service_create (Some [NUL]), Alloc_node 4096, Free_uri [NUL]]
   = [Alloc_uri [NUL], Alloc_uri [NUL]]"
proof -
  have f: "list_find (demo_list sec_instanceId) (securityObj demo_client) 0 = Some 0"
    by (simp add: demo_list_def demo_client_def security_zero_def)
  have e: "strdup1 demo_connect_env" "strdup2 demo_connect_env"
    and c: "cstr (sec_uri (securityObj demo_client ! 0)) = []"
    by (simp_all add: demo_connect_env_def demo_client_def security_zero_def)
  from connect_leaks_uri [OF f e(1) demo_connect] show ?thesis
    by (simp add: Let_def e c)
qed

end
