(* ===== verification/Client.thy ===== *)
theory Client
  imports Connection
begin

text \<open>
  The LwM2M client task (\<open>csrc/src/lwm2m/lightclient/miso_lightclient.c\<close>): the start of
  \<open>lwm2m_client_task_runner\<close> that builds the objects, its notification loop, the clean-up,
  \<open>print_state\<close> and \<open>wait_for_rx\<close>.

  What the wakaama core and the system answer is input: one record for the start, one per
  pass of the loop. The loop may run for ever, so it consumes a list of passes and yields
  nothing while it has not left (\<open>None\<close>).
\<close>

subsection \<open>Printing the state\<close>

datatype client_state =
    STATE_INITIAL | STATE_BOOTSTRAP_REQUIRED | STATE_BOOTSTRAPPING | STATE_REGISTER_REQUIRED
  | STATE_REGISTERING | STATE_READY | STATE_unknown int

datatype server_status =
    STATE_DEREGISTERED | STATE_REG_PENDING | STATE_REGISTERED | STATE_REG_FAILED
  | STATE_REG_UPDATE_PENDING | STATE_REG_UPDATE_NEEDED | STATE_DEREG_PENDING
  | STATE_BS_HOLD_OFF | STATE_BS_INITIATED | STATE_BS_PENDING | STATE_BS_FINISHED | STATE_BS_FAILED
  | STATUS_unknown int

record lwm2m_server =
  secObjInstID :: u16
  srv_shortID :: u16
  srv_lifetime :: u32
  srv_status :: server_status
  srv_location :: string

record lwm2m_context =
  ctx_state :: client_state
  bootstrapServerList :: "lwm2m_server list"
  serverList :: "lwm2m_server list"

text \<open>A printed message: its texts and the values of its conversions.\<close>

datatype printed = Txt string | Num int

fun state_name :: "client_state \<Rightarrow> string" where
  "state_name STATE_INITIAL = ''STATE_INITIAL''"
| "state_name STATE_BOOTSTRAP_REQUIRED = ''STATE_BOOTSTRAP_REQUIRED''"
| "state_name STATE_BOOTSTRAPPING = ''STATE_BOOTSTRAPPING''"
| "state_name STATE_REGISTER_REQUIRED = ''STATE_REGISTER_REQUIRED''"
| "state_name STATE_REGISTERING = ''STATE_REGISTERING''"
| "state_name STATE_READY = ''STATE_READY''"
| "state_name (STATE_unknown n) = ''Unknown !''"

definition status_code :: "server_status \<Rightarrow> int" where
  "status_code s = (case s of
      STATE_DEREGISTERED \<Rightarrow> 0 | STATE_REG_PENDING \<Rightarrow> 1 | STATE_REGISTERED \<Rightarrow> 2 | STATE_REG_FAILED \<Rightarrow> 3
    | STATE_REG_UPDATE_PENDING \<Rightarrow> 4 | STATE_REG_UPDATE_NEEDED \<Rightarrow> 5 | STATE_DEREG_PENDING \<Rightarrow> 7
    | STATE_BS_HOLD_OFF \<Rightarrow> 8 | STATE_BS_INITIATED \<Rightarrow> 9 | STATE_BS_PENDING \<Rightarrow> 10
    | STATE_BS_FINISHED \<Rightarrow> 12 | STATE_BS_FAILED \<Rightarrow> 14 | STATUS_unknown n \<Rightarrow> n)"

definition bootstrap_status :: "server_status \<Rightarrow> printed list" where
  "bootstrap_status s = (case s of
      STATE_DEREGISTERED \<Rightarrow> [Txt ''DEREGISTERED'']
    | STATE_BS_HOLD_OFF \<Rightarrow> [Txt ''CLIENT HOLD OFF'']
    | STATE_BS_INITIATED \<Rightarrow> [Txt ''BOOTSTRAP INITIATED'']
    | STATE_BS_PENDING \<Rightarrow> [Txt ''BOOTSTRAP PENDING'']
    | STATE_BS_FINISHED \<Rightarrow> [Txt ''BOOTSTRAP FINISHED'']
    | STATE_BS_FAILED \<Rightarrow> [Txt ''BOOTSTRAP FAILED'']
    | _ \<Rightarrow> [Txt ''INVALID'', Num (status_code s)])"

definition register_status :: "lwm2m_server \<Rightarrow> printed list" where
  "register_status t = (case srv_status t of
      STATE_DEREGISTERED \<Rightarrow> [Txt ''DEREGISTERED'']
    | STATE_REG_PENDING \<Rightarrow> [Txt ''REGISTRATION PENDING'']
    | STATE_REGISTERED \<Rightarrow>
        [Txt ''REGISTERED location:'', Txt (cstr (srv_location t)), Txt ''Lifetime:'', Num (uint (srv_lifetime t))]
    | STATE_REG_UPDATE_PENDING \<Rightarrow> [Txt ''REGISTRATION UPDATE PENDING'']
    | STATE_REG_UPDATE_NEEDED \<Rightarrow> [Txt ''REGISTRATION UPDATE REQUIRED'']
    | STATE_DEREG_PENDING \<Rightarrow> [Txt ''DEREGISTRATION PENDING'']
    | STATE_REG_FAILED \<Rightarrow> [Txt ''REGISTRATION FAILED'']
    | s \<Rightarrow> [Txt ''INVALID'', Num (status_code s)])"

definition print_client_state :: "lwm2m_context \<Rightarrow> printed list" where
  "print_client_state ctx =
     [Txt ''State: '', Txt (state_name (ctx_state ctx))]
     @ (if bootstrapServerList ctx = [] then [Txt ''No Bootstrap Server.'']
        else Txt ''Bootstrap Servers:'' #
          concat (map (\<lambda>t. [Txt '' - Security Object ID'', Num (uint (secObjInstID t)),
                            Txt ''Hold Off Time:'', Num (uint (srv_lifetime t)), Txt ''status: '']
                           @ bootstrap_status (srv_status t)) (bootstrapServerList ctx)))
     @ (if serverList ctx = [] then [Txt ''No LWM2M Server.'']
        else Txt ''LWM2M Servers:'' #
          concat (map (\<lambda>t. [Txt '' - Server ID'', Num (uint (srv_shortID t)), Txt ''status: '']
                           @ register_status t) (serverList ctx)))"

subsection \<open>The task\<close>

text \<open>The objects that are allocated (the temperature object is static).\<close>

datatype client_object = Obj_security | Obj_server | Obj_device | Obj_accelerometer

datatype client_event =
    Create client_object | Free client_object
  | Lwm2m_init | Lwm2m_configure | Update_registration
  | Value_changed nat nat nat
  | Handle_packet nat
  | Print "printed list" | Step | Wait_rx nat | Notify_rx
  | Lwm2m_close | Conn conn_event

abbreviation lwm2m_notify_registration :: u32 where "lwm2m_notify_registration \<equiv> 0x01"
abbreviation lwm2m_notify_timestamp :: u32 where "lwm2m_notify_timestamp \<equiv> 0x02"
abbreviation lwm2m_notify_temperature :: u32 where "lwm2m_notify_temperature \<equiv> 0x04"
abbreviation lwm2m_notify_accelerometer :: u32 where "lwm2m_notify_accelerometer \<equiv> 0x08"
abbreviation lwm2m_notify_message_reception :: u32 where "lwm2m_notify_message_reception \<equiv> 0x10"
abbreviation lwm2m_notify_suspend :: u32 where "lwm2m_notify_suspend \<equiv> 0x20"

record start_env =
  security_created :: bool
  server_created :: bool
  device_created :: bool
  accelerometer_created :: bool
  init_ok :: bool
  configure_result :: int

text \<open>
  One pass: the pending notification, the result of the read (a number of bytes or -1), the
  state that is printed, the result of the step with the time it asks for, and the result
  of waiting for data.
\<close>

record pass_env =
  notification :: "u32 option"
  bytes_read :: int
  context_now :: lwm2m_context
  step_result :: int
  step_timeout :: nat
  wait_result :: int

definition wait_for_rx :: "int \<Rightarrow> nat \<Rightarrow> int \<times> client_event list" where
  "wait_for_rx ret wait_s = (ret, Wait_rx wait_s # (if ret = 1 then [Notify_rx] else []))"

definition handle_notification :: "u32 \<Rightarrow> int \<Rightarrow> client_event list" where
  "handle_notification v numBytes =
     (if v AND lwm2m_notify_registration \<noteq> 0 then [Update_registration] else [])
     @ (if v AND lwm2m_notify_timestamp \<noteq> 0 then [Value_changed 3 0 13] else [])
     @ (if v AND lwm2m_notify_temperature \<noteq> 0 then [Value_changed 3303 0 5700] else [])
     @ (if v AND lwm2m_notify_accelerometer \<noteq> 0
        then [Value_changed 3313 0 5702, Value_changed 3313 0 5703, Value_changed 3313 0 5704] else [])
     @ (if v AND lwm2m_notify_message_reception \<noteq> 0 \<and> numBytes \<noteq> -1
        then [Handle_packet (size_of_int numBytes)] else [])"

definition pass_suspends :: "pass_env \<Rightarrow> bool" where
  "pass_suspends p \<longleftrightarrow> (case notification p of None \<Rightarrow> False | Some v \<Rightarrow> v AND lwm2m_notify_suspend \<noteq> 0)"

text \<open>The loop; the result is the value of \<open>suspend\<close> when it is left.\<close>

fun client_loop :: "pass_env list \<Rightarrow> (bool \<times> client_event list) option" where
  "client_loop [] = None"
| "client_loop (p # ps) =
     (let ev = (case notification p of None \<Rightarrow> [] | Some v \<Rightarrow> handle_notification v (bytes_read p)) in
      if pass_suspends p
      then Some (True, ev)
      else
        (let ev2 = ev @ [Print (print_client_state (context_now p)), Step] in
         if step_result p \<noteq> 0 then Some (False, ev2)
         else
           (let timeout_val = (if step_timeout p > 1 then 1 else step_timeout p)
            in map_option (\<lambda>(susp, ev'). (susp, ev2 @ snd (wait_for_rx (wait_result p) timeout_val) @ ev'))
                 (client_loop ps))))"

text \<open>
  The runner. \<open>conns\<close> is the connection list when the loop has been left. The accelerometer's
  constructor is not checked; its destructor accepts the null pointer.
\<close>

definition lwm2m_client_task_runner ::
    "start_env \<Rightarrow> pass_env list \<Rightarrow> connection list \<Rightarrow> (int \<times> client_event list) option" where
  "lwm2m_client_task_runner env ps conns =
     (if \<not> security_created env then Some (-1, [])
      else if \<not> server_created env then Some (-1, [Create Obj_security])
      else if \<not> device_created env then Some (-1, [Create Obj_security, Create Obj_server])
      else
        (let made = [Create Obj_security, Create Obj_server, Create Obj_device]
                    @ (if accelerometer_created env then [Create Obj_accelerometer] else [])
         in if \<not> init_ok env then Some (-1, made)
            else if configure_result env \<noteq> 0 then Some (-1, made @ [Lwm2m_init, Lwm2m_configure])
            else
              map_option (\<lambda>(susp, ev).
                  (if susp then 1 else 0,
                   made @ [Lwm2m_init, Lwm2m_configure] @ ev
                   @ [Lwm2m_close] @ map Conn (connection_free conns)
                   @ [Free Obj_security, Free Obj_server, Free Obj_device]
                   @ (if accelerometer_created env then [Free Obj_accelerometer] else [])))
                (client_loop ps)))"

subsection \<open>Correctness\<close>

definition created :: "client_event list \<Rightarrow> client_object list" where
  "created ev = concat (map (\<lambda>e. case e of Create obj \<Rightarrow> [obj] | _ \<Rightarrow> []) ev)"

definition freed_objects :: "client_event list \<Rightarrow> client_object list" where
  "freed_objects ev = concat (map (\<lambda>e. case e of Free obj \<Rightarrow> [obj] | _ \<Rightarrow> []) ev)"

lemma created_simps [simp]:
  "created [] = []" "created (e # ev) = (case e of Create obj \<Rightarrow> [obj] | _ \<Rightarrow> []) @ created ev"
  "created (ev @ ev') = created ev @ created ev'" "created (map Conn cs) = []"
  by (simp_all add: created_def)

lemma freed_simps [simp]:
  "freed_objects [] = []" "freed_objects (e # ev) = (case e of Free obj \<Rightarrow> [obj] | _ \<Rightarrow> []) @ freed_objects ev"
  "freed_objects (ev @ ev') = freed_objects ev @ freed_objects ev'" "freed_objects (map Conn cs) = []"
  by (simp_all add: freed_objects_def)

lemma handle_notification_objects [simp]:
  "created (handle_notification v n) = []" "freed_objects (handle_notification v n) = []"
  by (simp_all add: handle_notification_def)

lemma wait_for_rx_objects [simp]:
  "created (snd (wait_for_rx r t)) = []" "freed_objects (snd (wait_for_rx r t)) = []"
  by (simp_all add: wait_for_rx_def)

lemma client_loop_objects:
  "client_loop ps = Some (susp, ev) \<Longrightarrow> created ev = [] \<and> freed_objects ev = []"
  by (induction ps arbitrary: susp ev) (auto simp: Let_def split: if_splits option.splits)

text \<open>When the loop is left: at the first pass that is asked to suspend or whose step fails.\<close>

lemma client_loop_result:
  "map_option fst (client_loop ps) =
     map_option pass_suspends (find (\<lambda>p. pass_suspends p \<or> step_result p \<noteq> 0) ps)"
proof (induction ps)
  case Nil
  then show ?case by simp
next
  case (Cons p ps)
  then show ?case
    by (cases "client_loop ps") (auto simp: Let_def)
qed

text \<open>
  C35: the client returns exactly when a start-up call fails or a pass of the loop suspends it
  or fails, with -1, 1 and 0 for the three; from the loop it leaves with every object it
  created freed once, after closing the core; but a failed start-up frees none of the
  objects it had created.
\<close>

theorem client_runner_correct:
  "(case lwm2m_client_task_runner env ps conns of
      None \<Rightarrow> find (\<lambda>p. pass_suspends p \<or> step_result p \<noteq> 0) ps = None
    | Some (ret, ev) \<Rightarrow>
        if security_created env \<and> server_created env \<and> device_created env \<and> init_ok env
           \<and> configure_result env = 0
        then (\<exists>p. find (\<lambda>p. pass_suspends p \<or> step_result p \<noteq> 0) ps = Some p
               \<and> ret = (if pass_suspends p then 1 else 0))
             \<and> freed_objects ev = created ev \<and> distinct (created ev) \<and> Lwm2m_close \<in> set ev
        else ret = -1 \<and> freed_objects ev = []
             \<and> (security_created env \<longrightarrow> Obj_security \<in> set (created ev))
             \<and> (security_created env \<and> server_created env \<longrightarrow> Obj_server \<in> set (created ev)))"
proof (cases "security_created env \<and> server_created env \<and> device_created env \<and> init_ok env
           \<and> configure_result env = 0")
  case False
  then show ?thesis by (auto simp: lwm2m_client_task_runner_def Let_def)
next
  case True
  note r = client_loop_result [of ps]
  show ?thesis
  proof (cases "client_loop ps")
    case None
    with True r show ?thesis by (simp add: lwm2m_client_task_runner_def Let_def)
  next
    case (Some q)
    obtain susp ev where q: "q = (susp, ev)" by fastforce
    with r [symmetric] Some obtain p where "find (\<lambda>p. pass_suspends p \<or> step_result p \<noteq> 0) ps = Some p"
      "susp = pass_suspends p" by (auto simp: map_option_eq_Some)
    with True Some q client_loop_objects [of ps susp ev] show ?thesis
      by (simp add: lwm2m_client_task_runner_def Let_def)
  qed
qed

definition demo_start :: start_env where
  "demo_start = \<lparr>security_created = True, server_created = True, device_created = True,
     accelerometer_created = True, init_ok = True, configure_result = 0\<rparr>"

definition demo_pass :: pass_env where
  "demo_pass = \<lparr>notification = Some lwm2m_notify_suspend, bytes_read = 0,
     context_now = \<lparr>ctx_state = STATE_READY, bootstrapServerList = [], serverList = []\<rparr>,
     step_result = 0, step_timeout = 60, wait_result = 0\<rparr>"

theorem client_runner_correct_witness:
  "\<exists>ev. lwm2m_client_task_runner demo_start [demo_pass] [] = Some (1, ev)
     \<and> freed_objects ev = created ev \<and> Lwm2m_close \<in> set ev"
proof -
  have p: "pass_suspends demo_pass" by (simp add: pass_suspends_def demo_pass_def)
  then obtain ret ev where r: "lwm2m_client_task_runner demo_start [demo_pass] [] = Some (ret, ev)"
    by (simp add: lwm2m_client_task_runner_def demo_start_def Let_def)
  with client_runner_correct [where env = demo_start and ps = "[demo_pass]" and conns = "[]"] p
  show ?thesis by (simp add: demo_start_def)
qed

end
