(* ===== verification/Memtrace.thy ===== *)
theory Memtrace
  imports Config
begin

text \<open>
  The allocation tracer of the LwM2M client (\<open>csrc/src/lwm2m/memtrace.c\<close>, built with
  \<open>LWM2M_MEMORY_TRACE\<close>): the list of live blocks and the quarantine of the last freed
  ones, each with its counters, and the traced \<open>malloc\<close>, \<open>free\<close> and \<open>strdup\<close>.

  A block is known by the address of its data; \<open>size_t\<close> is 32 bits and wraps.
\<close>

record memory_entry =
  entry_data :: nat
  entry_file :: string
  entry_function :: string
  entry_lineno :: int
  entry_size :: u32
  entry_count :: int

record memtrace =
  malloc_list :: "memory_entry list"
  malloc_count :: int
  malloc_size :: u32
  malloc_lineno :: int
  free_list :: "memory_entry list"
  free_count :: int
  alloc_counter :: int
  print_counter :: int

definition memtrace_init :: memtrace where
  "memtrace_init = \<lparr>malloc_list = [], malloc_count = 0, malloc_size = 0, malloc_lineno = 0,
     free_list = [], free_count = 0, alloc_counter = 0, print_counter = 0\<rparr>"

text \<open>What the operations hand to the system: blocks returned to the heap, and messages.\<close>

datatype trace_event =
    Heap_free nat
  | Msg_no_malloc string int string
  | Msg_already_freed string int string
  | Msg_entry memory_entry
  | Msg_bad_entries int int
  | Msg_bad_total u32 u32
  | Msg_summary int u32

subsection \<open>The operations\<close>

text \<open>
  \<open>prv_memory_find_previous\<close> returns the predecessor of the entry, the list head counting
  as one; the position of the entry itself says the same.
\<close>

fun prv_memory_find_previous :: "memory_entry list \<Rightarrow> nat \<Rightarrow> nat option" where
  "prv_memory_find_previous [] mem = None"
| "prv_memory_find_previous (e # es) mem =
     (if entry_data e = mem then Some 0 else map_option Suc (prv_memory_find_previous es mem))"

definition prv_trace_add_free_list ::
    "memory_entry \<Rightarrow> string \<Rightarrow> string \<Rightarrow> int \<Rightarrow> memtrace \<Rightarrow> memtrace \<times> trace_event list" where
  "prv_trace_add_free_list remove path func lineno s =
     (let new = remove\<lparr>entry_file := path, entry_function := func, entry_lineno := lineno\<rparr>;
          fl = new # free_list s
      in if free_count s < 200 then (s\<lparr>free_list := fl, free_count := free_count s + 1\<rparr>, [])
         else if free_list s \<noteq> [] then
           (s\<lparr>free_list := butlast fl\<rparr>, [Heap_free (entry_data (last fl))])
         else (s\<lparr>free_list := fl\<rparr>, []))"

text \<open>
  \<open>heap\<close> gives the address for the requested size, which includes the 28 bytes of the
  header. Its result is used unchecked.
\<close>

definition lwm2m_trace_malloc ::
    "(u32 \<Rightarrow> nat option) \<Rightarrow> u32 \<Rightarrow> string \<Rightarrow> string \<Rightarrow> int \<Rightarrow> memtrace \<Rightarrow> fault + nat \<times> memtrace" where
  "lwm2m_trace_malloc heap sz path func lineno s =
     (case heap (sz + 28) of
        None \<Rightarrow> Inl Null_deref
      | Some a \<Rightarrow>
          (let c = alloc_counter s + 1;
               e = \<lparr>entry_data = a, entry_file = path, entry_function = func,
                    entry_lineno = lineno, entry_size = sz, entry_count = c\<rparr>
           in Inr (a, s\<lparr>malloc_list := e # malloc_list s, malloc_count := malloc_count s + 1,
                        malloc_size := malloc_size s + sz, malloc_lineno := 1,
                        alloc_counter := c\<rparr>)))"

text \<open>The copy is the string up to its terminator; the block's contents are returned with it.\<close>

definition lwm2m_trace_strdup ::
    "(u32 \<Rightarrow> nat option) \<Rightarrow> string \<Rightarrow> string \<Rightarrow> string \<Rightarrow> int \<Rightarrow> memtrace \<Rightarrow>
     fault + nat \<times> string \<times> memtrace" where
  "lwm2m_trace_strdup heap str path func lineno s =
     (case strlen str of
        None \<Rightarrow> Inl Out_of_bounds
      | Some n \<Rightarrow>
          (case lwm2m_trace_malloc heap (word_of_nat n + 1) path func lineno s of
             Inl e \<Rightarrow> Inl e
           | Inr (a, s') \<Rightarrow> Inr (a, take n str @ [NUL], s')))"

definition lwm2m_trace_free ::
    "nat option \<Rightarrow> string \<Rightarrow> string \<Rightarrow> int \<Rightarrow> memtrace \<Rightarrow> memtrace \<times> trace_event list" where
  "lwm2m_trace_free mem path func lineno s =
     (case mem of
        None \<Rightarrow> (s, [])
      | Some a \<Rightarrow>
          (case prv_memory_find_previous (malloc_list s) a of
             Some k \<Rightarrow>
               (let remove = malloc_list s ! k;
                    s' = s\<lparr>malloc_list := take k (malloc_list s) @ drop (Suc k) (malloc_list s),
                           malloc_count := malloc_count s - 1,
                           malloc_size := malloc_size s - entry_size remove,
                           malloc_lineno := 1\<rparr>
                in prv_trace_add_free_list remove path func lineno s')
           | None \<Rightarrow>
               (s, Msg_no_malloc path lineno func #
                   (case prv_memory_find_previous (free_list s) a of
                      None \<Rightarrow> []
                    | Some k \<Rightarrow>
                        (let e = free_list s ! k
                         in [Msg_already_freed (entry_file e) (entry_lineno e) (entry_function e)])))))"

definition trace_print :: "int \<Rightarrow> int \<Rightarrow> memtrace \<Rightarrow> memtrace \<times> trace_event list" where
  "trace_print loops level s =
     (let c = (if loops = 0 then 0 else print_counter s + 1);
          s' = s\<lparr>print_counter := c\<rparr>
      in if loops = 0 \<or> (c mod loops = 0 \<and> malloc_lineno s \<noteq> 0) then
           (s'\<lparr>malloc_lineno := 0\<rparr>,
            (if level = 1 then
               (let entries = int (length (malloc_list s));
                    total = sum_list (map entry_size (malloc_list s))
                in map Msg_entry (malloc_list s)
                   @ (if entries \<noteq> malloc_count s then [Msg_bad_entries (malloc_count s) entries] else [])
                   @ (if total \<noteq> malloc_size s then [Msg_bad_total (malloc_size s) total] else []))
             else [])
            @ [Msg_summary (malloc_count s) (malloc_size s)])
         else (s', []))"

definition trace_status :: "memtrace \<Rightarrow> int \<times> u32" where
  "trace_status s = (malloc_count s, malloc_size s)"

subsection \<open>The invariant\<close>

definition live :: "memtrace \<Rightarrow> nat list" where
  "live s = map entry_data (malloc_list s)"

definition freed :: "memtrace \<Rightarrow> nat list" where
  "freed s = map entry_data (free_list s)"

definition memtrace_inv :: "memtrace \<Rightarrow> bool" where
  "memtrace_inv s \<longleftrightarrow>
     malloc_count s = int (length (malloc_list s))
   \<and> malloc_size s = sum_list (map entry_size (malloc_list s))
   \<and> free_count s = int (length (free_list s)) \<and> length (free_list s) \<le> 200
   \<and> distinct (live s @ freed s)"

lemma find_previous_Some:
  "prv_memory_find_previous es a = Some k \<Longrightarrow> k < length es \<and> entry_data (es ! k) = a"
  by (induction es arbitrary: k) (auto split: if_splits)

lemma find_previous_None: "prv_memory_find_previous es a = None \<longleftrightarrow> a \<notin> entry_data ` set es"
  by (induction es) auto

lemma find_previous_split:
  assumes "prv_memory_find_previous es a = Some k"
  shows "\<exists>xs e ys. es = xs @ e # ys \<and> length xs = k \<and> entry_data e = a"
  using find_previous_Some [OF assms] id_take_nth_drop [of k es]
  by (metis (no_types, lifting) length_take less_imp_le min.absorb4 min_def)

text \<open>Freeing a live block, with the counters out of the way.\<close>

lemma trace_free_live:
  assumes "memtrace_inv s" and "malloc_list s = xs @ e # ys" and "entry_data e = a"
    and "lwm2m_trace_free (Some a) path fn ln s = (s', ev)"
  shows "malloc_list s' = xs @ ys \<and> malloc_count s' = malloc_count s - 1
     \<and> malloc_size s' = malloc_size s - entry_size e
     \<and> free_list s' = take 200 (e\<lparr>entry_file := path, entry_function := fn, entry_lineno := ln\<rparr> # free_list s)
     \<and> free_count s' = int (length (free_list s'))
     \<and> ev = map (\<lambda>x. Heap_free (entry_data x)) (drop 199 (free_list s))"
proof -
  have nx: "a \<notin> entry_data ` set xs" using assms(1,2,3) by (auto simp: memtrace_inv_def live_def)
  then have "prv_memory_find_previous (xs @ e # ys) a = Some (length xs)"
    using assms(3) by (induction xs) auto
  with assms(2,4) have f: "prv_trace_add_free_list e path fn ln
      (s\<lparr>malloc_list := xs @ ys, malloc_count := malloc_count s - 1,
         malloc_size := malloc_size s - entry_size e, malloc_lineno := 1\<rparr>) = (s', ev)"
    by (simp add: lwm2m_trace_free_def Let_def)
  from assms(1) have c: "free_count s = int (length (free_list s))" "length (free_list s) \<le> 200"
    by (simp_all add: memtrace_inv_def)
  show ?thesis
  proof (cases "length (free_list s) < 200")
    case True
    with f c show ?thesis by (auto simp: prv_trace_add_free_list_def Let_def)
  next
    case False
    with c have l: "length (free_list s) = 200" by simp
    then obtain zs z where z: "free_list s = zs @ [z]" "length zs = 199"
      by (cases "free_list s" rule: rev_cases) auto
    with f c l show ?thesis
      by (auto simp: prv_trace_add_free_list_def Let_def butlast_append)
  qed
qed

lemma trace_free_not_live:
  "a \<notin> set (live s) \<Longrightarrow> fst (lwm2m_trace_free (Some a) path fn ln s) = s"
  by (simp add: lwm2m_trace_free_def live_def find_previous_None split: option.splits)
    (metis find_previous_None image_set list.set_map option.distinct(1))

lemma trace_free_inv:
  assumes "memtrace_inv s" and "lwm2m_trace_free mem path fn ln s = (s', ev)"
  shows "memtrace_inv s'"
proof (cases "\<exists>a. mem = Some a \<and> a \<in> set (live s)")
  case True
  then obtain a where a: "mem = Some a" "a \<in> set (live s)" by blast
  then obtain e where "e \<in> set (malloc_list s)" "entry_data e = a" by (auto simp: live_def)
  then obtain xs ys where m: "malloc_list s = xs @ e # ys" and e: "entry_data e = a"
    by (metis split_list)
  note t = trace_free_live [OF assms(1) m e assms(2) [unfolded a(1)]]
  have l: "live s = map entry_data xs @ a # map entry_data ys" "live s' = map entry_data xs @ map entry_data ys"
    and f: "freed s' = a # take 199 (freed s)"
    using m t e by (simp_all add: live_def freed_def take_map)
  have "set (take 199 (freed s)) \<subseteq> set (freed s)" by (rule set_take_subset)
  moreover have "distinct (live s @ freed s)" using assms(1) by (simp add: memtrace_inv_def)
  ultimately have "distinct (live s' @ freed s')" unfolding l f by (auto simp del: set_map)
  with t assms(1) m show ?thesis by (simp add: memtrace_inv_def algebra_simps)
next
  case False
  have "s' = s"
  proof (cases mem)
    case None
    with assms(2) show ?thesis by (simp add: lwm2m_trace_free_def)
  next
    case (Some a)
    with False trace_free_not_live [of a s path fn ln] assms(2) show ?thesis by simp
  qed
  with assms(1) show ?thesis by simp
qed

lemma trace_malloc_inv:
  assumes "memtrace_inv s" and "lwm2m_trace_malloc heap n path fn ln s = Inr (a, s')"
    and "a \<notin> set (live s) \<union> set (freed s)"
  shows "memtrace_inv s'"
proof -
  from assms(2) have "live s' = a # live s" "freed s' = freed s"
    "malloc_count s' = malloc_count s + 1" "malloc_size s' = malloc_size s + n"
    "length (malloc_list s') = Suc (length (malloc_list s))"
    "sum_list (map entry_size (malloc_list s')) = n + sum_list (map entry_size (malloc_list s))"
    "free_count s' = free_count s" "free_list s' = free_list s"
    by (auto simp: lwm2m_trace_malloc_def live_def freed_def Let_def split: option.splits)
  with assms(1,3) show ?thesis by (simp add: memtrace_inv_def)
qed

subsection \<open>Runs\<close>

text \<open>
  The calls of the client; a block the heap hands out is neither live nor in quarantine,
  where it is still allocated.
\<close>

datatype trace_op =
    Tr_malloc "u32 \<Rightarrow> nat option" u32 string string int
  | Tr_free "nat option" string string int
  | Tr_print int int

definition trace_step :: "memtrace \<Rightarrow> trace_op \<Rightarrow> memtrace" where
  "trace_step s op =
     (case op of
        Tr_malloc heap n path fn ln \<Rightarrow>
          (case lwm2m_trace_malloc heap n path fn ln s of
             Inl e \<Rightarrow> s
           | Inr (a, s') \<Rightarrow> if a \<in> set (live s) \<union> set (freed s) then s else s')
      | Tr_free mem path fn ln \<Rightarrow> fst (lwm2m_trace_free mem path fn ln s)
      | Tr_print loops level \<Rightarrow> fst (trace_print loops level s))"

lemma trace_step_inv: "memtrace_inv s \<Longrightarrow> memtrace_inv (trace_step s op)"
proof (cases op)
  case (Tr_malloc heap n path fn ln)
  assume "memtrace_inv s"
  with Tr_malloc trace_malloc_inv [of s heap n path fn ln] show ?thesis
    by (auto simp: trace_step_def split: sum.splits)
next
  case (Tr_free mem path fn ln)
  assume "memtrace_inv s"
  with Tr_free trace_free_inv [of s mem path fn ln] show ?thesis
    by (cases "lwm2m_trace_free mem path fn ln s") (auto simp: trace_step_def)
next
  case (Tr_print loops level)
  assume "memtrace_inv s"
  with Tr_print show ?thesis
    by (auto simp: trace_step_def trace_print_def memtrace_inv_def live_def freed_def Let_def)
qed

interpretation trace_run: invariant_machine trace_step memtrace_inv
  by unfold_locales (rule trace_step_inv)

lemma memtrace_inv_init: "memtrace_inv memtrace_init"
  by (simp add: memtrace_inv_def memtrace_init_def live_def freed_def)

text \<open>
  C36: over every run of traced calls the status is the truth: the reported count and size
  are those of the blocks allocated and not freed, the quarantine never exceeds 200 blocks,
  no block is both live and freed, and the consistency messages of the printer never
  appear.
\<close>

theorem memtrace_consistent:
  fixes ops :: "trace_op list"
  defines "s \<equiv> foldl trace_step memtrace_init ops"
  shows "trace_status s = (int (length (live s)), sum_list (map entry_size (malloc_list s)))
     \<and> length (freed s) \<le> 200 \<and> set (live s) \<inter> set (freed s) = {}
     \<and> (\<forall>e \<in> set (snd (trace_print loops level s)).
          case e of Msg_bad_entries n m \<Rightarrow> False | Msg_bad_total n m \<Rightarrow> False | _ \<Rightarrow> True)"
proof -
  have i: "memtrace_inv s"
    unfolding s_def by (rule trace_run.run_inv [OF memtrace_inv_init])
  then have "trace_status s = (int (length (live s)), sum_list (map entry_size (malloc_list s)))"
    "length (freed s) \<le> 200" "set (live s) \<inter> set (freed s) = {}"
    by (simp_all add: memtrace_inv_def trace_status_def live_def freed_def)
  moreover from i have "snd (trace_print loops level s)
      \<in> {[], [Msg_summary (malloc_count s) (malloc_size s)],
         map Msg_entry (malloc_list s) @ [Msg_summary (malloc_count s) (malloc_size s)]}"
    by (auto simp: trace_print_def memtrace_inv_def Let_def)
  ultimately show ?thesis by auto
qed

theorem memtrace_consistent_witness:
  "length (freed (foldl trace_step memtrace_init [Tr_malloc (\<lambda>n. Some 64) 8 ''f'' ''g'' 1, Tr_free (Some 64) ''f'' ''g'' 2])) \<le> 200"
  using memtrace_consistent by blast

text \<open>Freeing the block at one address, outside any particular call site.\<close>

definition free_at :: "string \<Rightarrow> memtrace \<Rightarrow> nat \<Rightarrow> memtrace" where
  "free_at path s a = fst (lwm2m_trace_free (Some a) path path 0 s)"

lemma free_at_live:
  assumes "memtrace_inv s" and "a \<in> set (live s)"
  shows "live (free_at path s a) = remove1 a (live s) \<and> freed (free_at path s a) = take 200 (a # freed s)
     \<and> memtrace_inv (free_at path s a)"
proof -
  from assms(2) obtain e where "e \<in> set (malloc_list s)" "entry_data e = a" by (auto simp: live_def)
  then obtain xs ys where m: "malloc_list s = xs @ e # ys" and e: "entry_data e = a"
    by (metis split_list)
  obtain s' ev where f: "lwm2m_trace_free (Some a) path path 0 s = (s', ev)" by fastforce
  from trace_free_live [OF assms(1) m e f] have t: "malloc_list s' = xs @ ys"
    "free_list s' = take 200 (e\<lparr>entry_file := path, entry_function := path, entry_lineno := 0\<rparr> # free_list s)"
    by simp_all
  have "a \<notin> entry_data ` set xs" using assms(1) m e by (auto simp: memtrace_inv_def live_def)
  with t m e trace_free_inv [OF assms(1) f] f show ?thesis
    by (simp add: free_at_def live_def freed_def take_map remove1_append)
qed

text \<open>
  The quarantine keeps the last 200 freed blocks: freeing live blocks one after the
  other removes exactly them from the live list and puts them, latest first, in front of
  the quarantine.
\<close>

theorem memtrace_quarantine:
  assumes "memtrace_inv s" and "distinct as" and "set as \<subseteq> set (live s)"
  shows "freed (foldl (free_at path) s as) = take 200 (rev as @ freed s)
     \<and> set (live (foldl (free_at path) s as)) = set (live s) - set as"
  using assms
proof (induction as arbitrary: s)
  case Nil
  then show ?case by (simp add: memtrace_inv_def freed_def)
next
  case (Cons a as)
  note f = free_at_live [OF Cons.prems(1), of a path]
  have a: "a \<in> set (live s)" using Cons.prems(3) by simp
  have d: "distinct (live s)" using Cons.prems(1) by (simp add: memtrace_inv_def)
  with f a have l: "set (live (free_at path s a)) = set (live s) - {a}" by simp
  with Cons.prems have "set as \<subseteq> set (live (free_at path s a))" by auto
  have k: "take (200 - length as) (take 200 (a # freed s)) = take (200 - length as) (a # freed s)"
    by (simp only: take_take) (simp add: min_def del: take_Suc_Cons)
  from Cons.IH [of "free_at path s a"] \<open>set as \<subseteq> set (live (free_at path s a))\<close> Cons.prems(2) f a
  have "freed (foldl (free_at path) (free_at path s a) as) = take 200 (rev as @ take 200 (a # freed s))"
    "set (live (foldl (free_at path) (free_at path s a) as)) = set (live s) - {a} - set as"
    using l by simp_all
  with k show ?case by (simp add: Diff_insert2 [symmetric] del: take_Suc_Cons)
qed

theorem memtrace_quarantine_witness:
  "freed (foldl (free_at ''f'') (memtrace_init\<lparr>malloc_list := [\<lparr>entry_data = 64, entry_file = [],
     entry_function = [], entry_lineno = 1, entry_size = 8, entry_count = 1\<rparr>], malloc_count := 1,
     malloc_size := 8\<rparr>) [64]) = [64]"
  using memtrace_quarantine [where as = "[64]" and path = "''f''" and s = "memtrace_init\<lparr>malloc_list := [\<lparr>entry_data = 64,
      entry_file = [], entry_function = [], entry_lineno = 1, entry_size = 8, entry_count = 1\<rparr>],
      malloc_count := 1, malloc_size := 8\<rparr>"]
  by (simp add: memtrace_inv_def memtrace_init_def live_def freed_def)

text \<open>
  Freeing a block that is not live changes nothing and is reported; when the block is
  still in quarantine the report names the place that freed it first.
\<close>

theorem memtrace_double_free:
  assumes "memtrace_inv s" and "a \<in> set (live s)"
    and "lwm2m_trace_free (Some a) path fn ln s = (s', ev)"
  shows "lwm2m_trace_free (Some a) file2 fn2 ln2 s'
       = (s', [Msg_no_malloc file2 ln2 fn2, Msg_already_freed path ln fn])"
proof -
  from assms(2) obtain e where "e \<in> set (malloc_list s)" "entry_data e = a" by (auto simp: live_def)
  then obtain xs ys where m: "malloc_list s = xs @ e # ys" and e: "entry_data e = a"
    by (metis split_list)
  from trace_free_live [OF assms(1) m e assms(3)] have t: "malloc_list s' = xs @ ys"
    "free_list s' = e\<lparr>entry_file := path, entry_function := fn, entry_lineno := ln\<rparr> # take 199 (free_list s)"
    by simp_all
  have "a \<notin> entry_data ` set (xs @ ys)" using assms(1) m e by (auto simp: memtrace_inv_def live_def)
  then have "prv_memory_find_previous (malloc_list s') a = None"
    by (simp only: t find_previous_None not_False_eq_True)
  with t e show ?thesis by (simp add: lwm2m_trace_free_def Let_def)
qed

theorem memtrace_double_free_witness:
  "\<exists>s' ev. lwm2m_trace_free (Some 64) ''x.c'' ''g'' 9 s'
     = (s', [Msg_no_malloc ''x.c'' 9 ''g'', Msg_already_freed ''y.c'' 3 ''h''])"
proof -
  let ?s = "memtrace_init\<lparr>malloc_list := [\<lparr>entry_data = 64, entry_file = [],
     entry_function = [], entry_lineno = 1, entry_size = 8, entry_count = 1\<rparr>], malloc_count := 1,
     malloc_size := 8\<rparr>"
  have "memtrace_inv ?s" "64 \<in> set (live ?s)"
    by (simp_all add: memtrace_inv_def memtrace_init_def live_def freed_def)
  moreover obtain s' ev where "lwm2m_trace_free (Some 64) ''y.c'' ''h'' 3 ?s = (s', ev)" by fastforce
  ultimately show ?thesis using memtrace_double_free by blast
qed

end
