(* ===== verification/SdCard.thy ===== *)
theory SdCard
  imports Prelude
begin

text \<open>
  The SD card driver: the SPI-mode protocol and the FatFs disk functions of
  \<open>csrc/board/src/sdmm.c\<close>, over the pins and transfers of \<open>board_sd_card.c\<close>.

  The bytes the card returns and the readings of the card-detect pin are two unlimited
  sequences, the environment; how many of each have been used, the chip-select pin, the
  disk status, the card type and a log of everything done to the board are the state. The
  results of the transfers are dropped by the code, so a transfer that fails is one that
  leaves some bytes in the buffer, which the sequence of bytes covers.
\<close>

record sd_env =
  rx :: "nat \<Rightarrow> u8"
  detect_low :: "nat \<Rightarrow> bool"

datatype sd_io =
    Cs_high | Cs_low | Ls_low | Rx nat | Tx "u8 list" | Delay_us nat
  | Card_enable | Card_disable | Card_init | Fast_baudrate

record sd_state =
  rx_pos :: nat
  detect_pos :: nat
  cs_low :: bool
  Stat :: u8
  CardType :: u8
  sd_log :: "sd_io list"

abbreviation STA_NOINIT :: u8 where "STA_NOINIT \<equiv> 0x01"
abbreviation STA_NODISK :: u8 where "STA_NODISK \<equiv> 0x02"

datatype DRESULT = RES_OK | RES_ERROR | RES_WRPRT | RES_NOTRDY | RES_PARERR

abbreviation CMD0 :: u8 where "CMD0 \<equiv> 0"
abbreviation CMD1 :: u8 where "CMD1 \<equiv> 1"
abbreviation ACMD41 :: u8 where "ACMD41 \<equiv> 0x80 + 41"
abbreviation CMD8 :: u8 where "CMD8 \<equiv> 8"
abbreviation CMD9 :: u8 where "CMD9 \<equiv> 9"
abbreviation CMD12 :: u8 where "CMD12 \<equiv> 12"
abbreviation CMD16 :: u8 where "CMD16 \<equiv> 16"
abbreviation CMD17 :: u8 where "CMD17 \<equiv> 17"
abbreviation CMD18 :: u8 where "CMD18 \<equiv> 18"
abbreviation ACMD23 :: u8 where "ACMD23 \<equiv> 0x80 + 23"
abbreviation CMD24 :: u8 where "CMD24 \<equiv> 24"
abbreviation CMD25 :: u8 where "CMD25 \<equiv> 25"
abbreviation CMD55 :: u8 where "CMD55 \<equiv> 55"
abbreviation CMD58 :: u8 where "CMD58 \<equiv> 58"

abbreviation CT_MMC3 :: u8 where "CT_MMC3 \<equiv> 0x01"
abbreviation CT_SDC1 :: u8 where "CT_SDC1 \<equiv> 0x04"
abbreviation CT_SDC2 :: u8 where "CT_SDC2 \<equiv> 0x08"
abbreviation CT_SDC :: u8 where "CT_SDC \<equiv> 0x0C"
abbreviation CT_BLOCK :: u8 where "CT_BLOCK \<equiv> 0x10"

subsection \<open>The board\<close>

definition sd_do :: "sd_io \<Rightarrow> sd_state \<Rightarrow> sd_state" where
  "sd_do e s = s\<lparr>sd_log := sd_log s @ [e]\<rparr>"

definition rcvr_mmc :: "sd_env \<Rightarrow> nat \<Rightarrow> sd_state \<Rightarrow> u8 list \<times> sd_state" where
  "rcvr_mmc env n s =
     (map (rx env) [rx_pos s..<rx_pos s + n], (sd_do (Rx n) s)\<lparr>rx_pos := rx_pos s + n\<rparr>)"

definition xmit_mmc :: "u8 list \<Rightarrow> sd_state \<Rightarrow> sd_state" where
  "xmit_mmc bs s = sd_do (Tx bs) s"

definition BOARD_SD_CARD_Select :: "sd_state \<Rightarrow> sd_state" where
  "BOARD_SD_CARD_Select s = (sd_do Cs_low s)\<lparr>cs_low := True\<rparr>"

definition BOARD_SD_CARD_Deselect :: "sd_state \<Rightarrow> sd_state" where
  "BOARD_SD_CARD_Deselect s = (sd_do Cs_high s)\<lparr>cs_low := False\<rparr>"

definition BOARD_SD_CARD_IsInserted :: "sd_env \<Rightarrow> sd_state \<Rightarrow> nat \<times> sd_state" where
  "BOARD_SD_CARD_IsInserted env s =
     (if detect_low env (detect_pos s) then 1 else 0, s\<lparr>detect_pos := detect_pos s + 1\<rparr>)"

text \<open>
  \<open>BOARD_SD_Card_Init\<close> drives the chip select high again, \<open>BOARD_SD_Card_Enable\<close> starts the
  SPI driver and reads the detect pin, \<open>BOARD_SD_Card_Disable\<close> disables the pin with its
  output set.
\<close>

definition BOARD_SD_Card_Init :: "sd_state \<Rightarrow> sd_state" where
  "BOARD_SD_Card_Init s = (sd_do Card_init s)\<lparr>cs_low := False\<rparr>"

definition BOARD_SD_Card_Enable :: "sd_env \<Rightarrow> sd_state \<Rightarrow> sd_state" where
  "BOARD_SD_Card_Enable env s = snd (BOARD_SD_CARD_IsInserted env (sd_do Card_enable s))"

definition BOARD_SD_Card_Disable :: "sd_state \<Rightarrow> sd_state" where
  "BOARD_SD_Card_Disable s = (sd_do Card_disable s)\<lparr>cs_low := False\<rparr>"

subsection \<open>The protocol\<close>

fun wait_ready_loop :: "sd_env \<Rightarrow> nat \<Rightarrow> sd_state \<Rightarrow> nat \<times> sd_state" where
  "wait_ready_loop env 0 s = (0, s)"
| "wait_ready_loop env (Suc t) s =
     (case rcvr_mmc env 1 s of (d, s1) \<Rightarrow>
        if d ! 0 = 0xFF then (Suc t, s1) else wait_ready_loop env t (sd_do (Delay_us 100) s1))"

definition wait_ready :: "sd_env \<Rightarrow> sd_state \<Rightarrow> bool \<times> sd_state" where
  "wait_ready env s = (case wait_ready_loop env 5000 s of (tmr, s') \<Rightarrow> (tmr \<noteq> 0, s'))"

definition deselect :: "sd_env \<Rightarrow> sd_state \<Rightarrow> sd_state" where
  "deselect env s = snd (rcvr_mmc env 1 (BOARD_SD_CARD_Deselect s))"

definition select :: "sd_env \<Rightarrow> sd_state \<Rightarrow> bool \<times> sd_state" where
  "select env s =
     (case wait_ready env (snd (rcvr_mmc env 1 (BOARD_SD_CARD_Select s))) of
        (ok, s1) \<Rightarrow> if ok then (True, s1) else (False, deselect env s1))"

fun datablock_loop :: "sd_env \<Rightarrow> nat \<Rightarrow> u8 \<Rightarrow> sd_state \<Rightarrow> u8 \<times> sd_state" where
  "datablock_loop env 0 d s = (d, s)"
| "datablock_loop env (Suc t) d s =
     (case rcvr_mmc env 1 s of (ds, s1) \<Rightarrow>
        if ds ! 0 \<noteq> 0xFF then (ds ! 0, s1)
        else datablock_loop env t (ds ! 0) (sd_do (Delay_us 100) s1))"

text \<open>\<open>None\<close> is the return value 0 (no data token), \<open>Some\<close> the block stored at \<open>buff\<close>.\<close>

definition rcvr_datablock :: "sd_env \<Rightarrow> nat \<Rightarrow> sd_state \<Rightarrow> u8 list option \<times> sd_state" where
  "rcvr_datablock env btr s =
     (case datablock_loop env 1000 0xFF s of (d, s1) \<Rightarrow>
        if d \<noteq> 0xFE then (None, s1)
        else (case rcvr_mmc env btr s1 of (buff, s2) \<Rightarrow> (Some buff, snd (rcvr_mmc env 2 s2))))"

definition xmit_datablock :: "sd_env \<Rightarrow> u8 list \<Rightarrow> u8 \<Rightarrow> sd_state \<Rightarrow> bool \<times> sd_state" where
  "xmit_datablock env buff token s =
     (case wait_ready env s of (ok, s1) \<Rightarrow>
        if \<not> ok then (False, s1)
        else
          (let s2 = xmit_mmc [token] s1 in
           if token \<noteq> 0xFD then
             (case rcvr_mmc env 1 (snd (rcvr_mmc env 2 (xmit_mmc (take 512 buff) s2))) of
                (d, s3) \<Rightarrow> (d ! 0 AND 0x1F = 0x05, s3))
           else (True, s2)))"

text \<open>The response is read at most \<open>k + 1\<close> times.\<close>

fun response_loop :: "sd_env \<Rightarrow> nat \<Rightarrow> sd_state \<Rightarrow> u8 \<times> sd_state" where
  "response_loop env k s =
     (case rcvr_mmc env 1 s of (d, s1) \<Rightarrow>
        if d ! 0 AND 0x80 \<noteq> 0 then
          (case k of 0 \<Rightarrow> (d ! 0, s1) | Suc k' \<Rightarrow> response_loop env k' s1)
        else (d ! 0, s1))"

definition cmd_frame :: "u8 \<Rightarrow> u32 \<Rightarrow> u8 list" where
  "cmd_frame cmd arg =
     [0x40 OR cmd, ucast (drop_bit 24 arg), ucast (drop_bit 16 arg), ucast (drop_bit 8 arg), ucast arg,
      (if cmd = CMD8 then 0x87 else if cmd = CMD0 then 0x95 else 0x01)]"

text \<open>
  \<open>send_cmd\<close> calls itself once, for \<open>CMD55\<close> (which has bit 7 clear); \<open>send_packet\<close> is
  what it does for a command without that bit.
\<close>

definition send_packet :: "sd_env \<Rightarrow> u8 \<Rightarrow> u32 \<Rightarrow> sd_state \<Rightarrow> u8 \<times> sd_state" where
  "send_packet env cmd arg s =
     (case (if cmd \<noteq> CMD12 then select env (deselect env s) else (True, s)) of (ok, s1) \<Rightarrow>
        if \<not> ok then (0xFF, s1)
        else
          (let s2 = xmit_mmc (cmd_frame cmd arg) s1;
               s3 = (if cmd = CMD12 then snd (rcvr_mmc env 1 s2) else s2)
           in response_loop env 9 s3))"

definition send_cmd :: "sd_env \<Rightarrow> u8 \<Rightarrow> u32 \<Rightarrow> sd_state \<Rightarrow> u8 \<times> sd_state" where
  "send_cmd env cmd arg s =
     (if cmd AND 0x80 \<noteq> 0 then
        (case send_packet env CMD55 0 s of (n, s1) \<Rightarrow>
           if n > 1 then (n, s1) else send_packet env (cmd AND 0x7F) arg s1)
      else send_packet env cmd arg s)"

subsection \<open>The disk functions\<close>

definition disk_status :: "sd_env \<Rightarrow> u8 \<Rightarrow> sd_state \<Rightarrow> u8 \<times> sd_state" where
  "disk_status env drv s =
     (let s1 = (if drv \<noteq> 0 then s\<lparr>Stat := Stat s OR STA_NOINIT\<rparr> else s) in
      case BOARD_SD_CARD_IsInserted env s1 of (ins, s2) \<Rightarrow>
        let s3 = (if ins = 0 then s2\<lparr>Stat := Stat s2 OR STA_NODISK\<rparr>
                  else s2\<lparr>Stat := Stat s2 AND NOT STA_NODISK\<rparr>)
        in (Stat s3, s3))"

definition disk_disable :: "sd_env \<Rightarrow> sd_state \<Rightarrow> u8 \<times> sd_state" where
  "disk_disable env s =
     disk_status env 0 (BOARD_SD_Card_Init (sd_do (Delay_us 10000) (BOARD_SD_Card_Disable s)))"

text \<open>The loops that wait for the card to leave its idle state.\<close>

fun idle_loop :: "sd_env \<Rightarrow> u8 \<Rightarrow> u32 \<Rightarrow> nat \<Rightarrow> sd_state \<Rightarrow> nat \<times> sd_state" where
  "idle_loop env cmd arg 0 s = (0, s)"
| "idle_loop env cmd arg (Suc t) s =
     (case send_cmd env cmd arg s of (r, s1) \<Rightarrow>
        if r = 0 then (Suc t, s1) else idle_loop env cmd arg t (sd_do (Delay_us 1000) s1))"

definition identify_v2 :: "sd_env \<Rightarrow> sd_state \<Rightarrow> u8 \<times> sd_state" where
  "identify_v2 env s =
     (case rcvr_mmc env 4 s of (buf, s1) \<Rightarrow>
        if buf ! 2 = 0x01 \<and> buf ! 3 = 0xAA then
          (case idle_loop env ACMD41 (push_bit 30 1) 1000 s1 of (tmr, s2) \<Rightarrow>
             if tmr = 0 then (0, s2)
             else
               (case send_cmd env CMD58 0 s2 of (r, s3) \<Rightarrow>
                  if r = 0 then
                    (case rcvr_mmc env 4 s3 of (buf, s4) \<Rightarrow>
                       (if buf ! 0 AND 0x40 \<noteq> 0 then CT_SDC2 OR CT_BLOCK else CT_SDC2, s4))
                  else (0, s3)))
        else (0, s1))"

definition identify_v1 :: "sd_env \<Rightarrow> sd_state \<Rightarrow> u8 \<times> sd_state" where
  "identify_v1 env s =
     (case send_cmd env ACMD41 0 s of (r, s1) \<Rightarrow>
        let ty = (if r \<le> 1 then CT_SDC2 else CT_MMC3);
            cmd = (if r \<le> 1 then ACMD41 else CMD1)
        in (case idle_loop env cmd 0 1000 s1 of (tmr, s2) \<Rightarrow>
              if tmr = 0 then (0, s2)
              else (case send_cmd env CMD16 512 s2 of (r', s3) \<Rightarrow> (if r' \<noteq> 0 then 0 else ty, s3))))"

definition identify :: "sd_env \<Rightarrow> sd_state \<Rightarrow> u8 \<times> sd_state" where
  "identify env s =
     (case send_cmd env CMD0 0 s of (r, s1) \<Rightarrow>
        if r = 1 then
          (case send_cmd env CMD8 0x1AA s1 of (r', s2) \<Rightarrow>
             if r' = 1 then identify_v2 env s2 else identify_v1 env s2)
        else (0, s1))"

text \<open>\<open>disk_initialize\<close> of another drive returns \<open>RES_NOTRDY\<close>, which is 3.\<close>

definition disk_initialize :: "sd_env \<Rightarrow> u8 \<Rightarrow> sd_state \<Rightarrow> u8 \<times> sd_state" where
  "disk_initialize env drv s =
     (if drv \<noteq> 0 then (3, s)
      else
        (case disk_status env drv s of (st, s0) \<Rightarrow>
           if st = 0 then (0, s0)
           else
             (let s1 = (sd_do Cs_low (sd_do Ls_low s0))\<lparr>cs_low := True\<rparr>;
                  s2 = BOARD_SD_CARD_Deselect (sd_do (Delay_us 1000) s1);
                  s3 = snd (rcvr_mmc env 10 (BOARD_SD_Card_Enable env s2))
              in (case identify env s3 of (ty, s4) \<Rightarrow>
                    let s5 = deselect env (s4\<lparr>CardType := ty, Stat := (if ty \<noteq> 0 then 0 else STA_NOINIT)\<rparr>)
                    in if ty \<noteq> 0 then (0, sd_do Fast_baudrate s5) else disk_disable env s5))))"

text \<open>
  The transfer loops run \<open>do \<dots> while (--count)\<close> on a 32-bit count; \<open>passes\<close> is how often
  the body may run (a count of 0 wraps around). They return what is left of the count.
\<close>

definition passes :: "u32 \<Rightarrow> nat" where
  "passes cnt = (if cnt = 0 then 2 ^ 32 else unat cnt)"

fun read_blocks :: "sd_env \<Rightarrow> nat \<Rightarrow> sd_state \<Rightarrow> nat \<times> u8 list \<times> sd_state" where
  "read_blocks env 0 s = (0, [], s)"
| "read_blocks env (Suc n) s =
     (case rcvr_datablock env 512 s of
        (None, s1) \<Rightarrow> (Suc n, [], s1)
      | (Some blk, s1) \<Rightarrow>
          (case read_blocks env n s1 of (left, bs, s2) \<Rightarrow> (left, blk @ bs, s2)))"

definition block_address :: "sd_state \<Rightarrow> u32 \<Rightarrow> u32" where
  "block_address s sector = (if CardType s AND CT_BLOCK = 0 then sector * 512 else sector)"

definition disk_read :: "sd_env \<Rightarrow> u8 \<Rightarrow> u32 \<Rightarrow> u32 \<Rightarrow> sd_state \<Rightarrow> DRESULT \<times> u8 list \<times> sd_state" where
  "disk_read env drv sector cnt s =
     (case disk_status env drv s of (st, s1) \<Rightarrow>
        if st AND STA_NOINIT \<noteq> 0 then (RES_NOTRDY, [], s1)
        else
          (let cmd = (if cnt > 1 then CMD18 else CMD17) in
           case send_cmd env cmd (block_address s1 sector) s1 of (r, s2) \<Rightarrow>
             (case (if r = 0 then
                      (case read_blocks env (passes cnt) s2 of (left, bs, s3) \<Rightarrow>
                         (word_of_nat left :: u32, bs,
                          if cmd = CMD18 then snd (send_cmd env CMD12 0 s3) else s3))
                    else (cnt, [], s2)) of (left, bs, s4) \<Rightarrow>
                (if left \<noteq> 0 then RES_ERROR else RES_OK, bs, deselect env s4))))"

fun write_blocks :: "sd_env \<Rightarrow> nat \<Rightarrow> u8 list \<Rightarrow> sd_state \<Rightarrow> nat \<times> sd_state" where
  "write_blocks env 0 buff s = (0, s)"
| "write_blocks env (Suc n) buff s =
     (case xmit_datablock env buff 0xFC s of (ok, s1) \<Rightarrow>
        if \<not> ok then (Suc n, s1) else write_blocks env n (drop 512 buff) s1)"

definition disk_write :: "sd_env \<Rightarrow> u8 \<Rightarrow> u8 list \<Rightarrow> u32 \<Rightarrow> u32 \<Rightarrow> sd_state \<Rightarrow> DRESULT \<times> sd_state" where
  "disk_write env drv buff sector cnt s =
     (case disk_status env drv s of (st, s1) \<Rightarrow>
        if st AND STA_NOINIT \<noteq> 0 then (RES_NOTRDY, s1)
        else
          (case (if cnt = 1 then
                   (case send_cmd env CMD24 (block_address s1 sector) s1 of (r, s2) \<Rightarrow>
                      if r = 0 then
                        (case xmit_datablock env buff 0xFE s2 of (ok, s3) \<Rightarrow> (if ok then 0 else cnt, s3))
                      else (cnt, s2))
                 else
                   (let s2 = (if CardType s1 AND CT_SDC \<noteq> 0 then snd (send_cmd env ACMD23 cnt s1) else s1) in
                    case send_cmd env CMD25 (block_address s1 sector) s2 of (r, s3) \<Rightarrow>
                      if r = 0 then
                        (case write_blocks env (passes cnt) buff s3 of (left, s4) \<Rightarrow>
                           (case xmit_datablock env [] 0xFD s4 of (ok, s5) \<Rightarrow>
                              (if ok then word_of_nat left else 1, s5)))
                      else (cnt, s3))) of (left, s6) \<Rightarrow>
             (if left \<noteq> 0 then RES_ERROR else RES_OK, deselect env s6)))"

text \<open>
  The number of sectors of a CSD register; the shift of the old format is by \<open>n - 9\<close>,
  undefined in C when that is negative (\<open>None\<close>).
\<close>

definition csd_sectors :: "u8 list \<Rightarrow> u32 option" where
  "csd_sectors csd =
     (if drop_bit 6 (csd ! 0) = 1 then
        Some (push_bit 10 (ucast (csd ! 9) + push_bit 8 (ucast (csd ! 8))
                + push_bit 16 (ucast (csd ! 7 AND 63)) + 1))
      else
        (let n = unat (csd ! 5 AND 15) + unat (drop_bit 7 (csd ! 10 AND 128))
                 + unat (csd ! 9 AND 3) * 2 + 2;
             cs = ucast (drop_bit 6 (csd ! 8)) + push_bit 2 (ucast (csd ! 7))
                  + push_bit 10 (ucast (csd ! 6 AND 3)) + 1
         in if n < 9 then None else Some (push_bit (n - 9) cs)))"

abbreviation CTRL_SYNC :: u8 where "CTRL_SYNC \<equiv> 0"
abbreviation GET_SECTOR_COUNT :: u8 where "GET_SECTOR_COUNT \<equiv> 1"
abbreviation GET_BLOCK_SIZE :: u8 where "GET_BLOCK_SIZE \<equiv> 3"

text \<open>The value stored at \<open>buff\<close> is returned with the result (\<open>None\<close>: nothing stored).\<close>

definition disk_ioctl :: "sd_env \<Rightarrow> u8 \<Rightarrow> u8 \<Rightarrow> sd_state \<Rightarrow> DRESULT \<times> u32 option \<times> sd_state" where
  "disk_ioctl env drv ctrl s =
     (case disk_status env drv s of (st, s1) \<Rightarrow>
        if st AND STA_NOINIT \<noteq> 0 then (RES_NOTRDY, None, s1)
        else
          (case (if ctrl = CTRL_SYNC then
                   (case select env s1 of (ok, s2) \<Rightarrow> (if ok then RES_OK else RES_ERROR, None, s2))
                 else if ctrl = GET_SECTOR_COUNT then
                   (case send_cmd env CMD9 0 s1 of (r, s2) \<Rightarrow>
                      if r = 0 then
                        (case rcvr_datablock env 16 s2 of
                           (None, s3) \<Rightarrow> (RES_ERROR, None, s3)
                         | (Some csd, s3) \<Rightarrow> (RES_OK, csd_sectors csd, s3))
                      else (RES_ERROR, None, s2))
                 else if ctrl = GET_BLOCK_SIZE then (RES_OK, Some 128, s1)
                 else (RES_PARERR, None, s1)) of (res, v, s4) \<Rightarrow> (res, v, deselect env s4)))"

text \<open>The FAT time stamp of a date (years since 1900, months from 0), \<open>get_fattime\<close>.\<close>

record sleeptimer_date =
  date_sec :: u8
  date_min :: u8
  date_hour :: u8
  date_month_day :: u8
  date_month :: u8
  date_year :: u16

definition get_fattime :: "sleeptimer_date \<Rightarrow> u32" where
  "get_fattime date =
     push_bit 25 (word_of_int (uint (date_year date) - 80))
     OR push_bit 21 (word_of_int (uint (date_month date) + 1))
     OR push_bit 16 (ucast (date_month_day date)) OR push_bit 11 (ucast (date_hour date))
     OR push_bit 5 (ucast (date_min date)) OR drop_bit 1 (ucast (date_sec date))"

end
