(* ===== verification/SdCard_Correct.thy ===== *)
theory SdCard_Correct
  imports SdCard
begin

text \<open>
  Correctness of the SD card driver: every loop ends after a bounded number of bytes,
  the card is deselected between operations and never used before it is initialised, a
  successful read returns whole blocks that followed a data token, command frames and CSD
  sizes decode to what they should; and the two gaps the model shows.
\<close>

subsection \<open>What the protocol leaves alone\<close>

text \<open>
  From one state to the other only bus traffic happened, and at most \<open>k\<close> bytes came in.
\<close>

definition bus :: "nat \<Rightarrow> sd_state \<Rightarrow> sd_state \<Rightarrow> bool" where
  "bus k s s' \<longleftrightarrow> Stat s' = Stat s \<and> CardType s' = CardType s \<and> detect_pos s' = detect_pos s
     \<and> rx_pos s \<le> rx_pos s' \<and> rx_pos s' \<le> rx_pos s + k"

lemma bus_refl [simp]: "bus k s s"
  by (simp add: bus_def)

lemma bus_trans: "bus j s s' \<Longrightarrow> bus k s' s'' \<Longrightarrow> j + k \<le> m \<Longrightarrow> bus m s s''"
  by (auto simp: bus_def)

lemma bus_mono: "bus j s s' \<Longrightarrow> j \<le> k \<Longrightarrow> bus k s s'"
  by (auto simp: bus_def)

lemma bus_do [simp]: "bus k s (sd_do e s')  = bus k s s'" "bus k (sd_do e s) s' = bus k s s'"
  by (simp_all add: bus_def sd_do_def)

lemma bus_cs [simp]:
  "bus k (BOARD_SD_CARD_Select s) s' = bus k s s'" "bus k (BOARD_SD_CARD_Deselect s) s' = bus k s s'"
  by (simp_all add: bus_def sd_do_def BOARD_SD_CARD_Select_def BOARD_SD_CARD_Deselect_def)

lemma bus_rcvr: "rcvr_mmc env n s = (d, s') \<Longrightarrow> bus n s s'"
  by (auto simp: rcvr_mmc_def bus_def sd_do_def)

lemma rcvr_data: "rcvr_mmc env n s = (d, s') \<Longrightarrow>
    d = map (rx env) [rx_pos s..<rx_pos s + n] \<and> rx_pos s' = rx_pos s + n"
  by (auto simp: rcvr_mmc_def)

lemma bus_Suc: "bus 1 s s1 \<Longrightarrow> bus t s1 s' \<Longrightarrow> bus (Suc t) s s'"
  by (erule (1) bus_trans) simp

lemma bus_wait_ready_loop: "wait_ready_loop env t s = (r, s') \<Longrightarrow> bus t s s'"
proof (induction t arbitrary: s)
  case (Suc t)
  obtain d s1 where d: "rcvr_mmc env 1 s = (d, s1)" by fastforce
  note b = bus_rcvr [OF d]
  show ?case
  proof (cases "d ! 0 = 0xFF")
    case True
    with Suc.prems d b show ?thesis by (simp add: bus_mono)
  next
    case False
    with Suc.prems d have "wait_ready_loop env t (sd_do (Delay_us 100) s1) = (r, s')" by simp
    from bus_Suc [OF b] Suc.IH [OF this] show ?thesis by simp
  qed
qed simp

lemma bus_deselect: "bus 1 s (deselect env s)"
  by (cases "rcvr_mmc env 1 (BOARD_SD_CARD_Deselect s)") (auto simp: deselect_def dest: bus_rcvr)

lemma deselect_cs [simp]: "\<not> cs_low (deselect env s)"
  by (simp add: deselect_def rcvr_mmc_def sd_do_def BOARD_SD_CARD_Deselect_def)

lemma bus_wait_ready: "wait_ready env s = (ok, s') \<Longrightarrow> bus 5000 s s'"
  by (auto simp: wait_ready_def dest: bus_wait_ready_loop split: prod.splits)

lemma bus_select: "select env s = (ok, s') \<Longrightarrow> bus 5002 s s'"
proof -
  assume a: "select env s = (ok, s')"
  obtain d s1 where d: "rcvr_mmc env 1 (BOARD_SD_CARD_Select s) = (d, s1)" by fastforce
  obtain w s2 where w: "wait_ready env s1 = (w, s2)" by fastforce
  from bus_rcvr [OF d] bus_wait_ready [OF w] have "bus 5001 s s2" by (auto intro: bus_trans)
  with a d w bus_deselect [of s2 env] show "bus 5002 s s'"
    by (auto simp: select_def split: if_splits intro: bus_trans bus_mono)
qed

lemma bus_datablock_loop: "datablock_loop env t d s = (r, s') \<Longrightarrow> bus t s s'"
proof (induction t arbitrary: d s)
  case (Suc t)
  obtain e s1 where d: "rcvr_mmc env 1 s = (e, s1)" by fastforce
  note b = bus_rcvr [OF d]
  show ?case
  proof (cases "e ! 0 = 0xFF")
    case False
    with Suc.prems d b show ?thesis by (simp add: bus_mono)
  next
    case True
    with Suc.prems d have "datablock_loop env t (e ! 0) (sd_do (Delay_us 100) s1) = (r, s')" by simp
    from bus_Suc [OF b] Suc.IH [OF this] show ?thesis by simp
  qed
qed simp

text \<open>The byte a waiting loop stops at is the last one received.\<close>

lemma datablock_loop_token:
  "datablock_loop env t d s = (r, s') \<Longrightarrow> r \<noteq> 0xFF \<Longrightarrow> d = 0xFF \<Longrightarrow>
     rx_pos s < rx_pos s' \<and> rx env (rx_pos s' - 1) = r"
proof (induction env t d s arbitrary: r s' rule: datablock_loop.induct)
  case (2 env t d s)
  obtain e s1 where d: "rcvr_mmc env 1 s = (e, s1)" by fastforce
  with rcvr_data [OF d] have e: "e ! 0 = rx env (rx_pos s)" "rx_pos s1 = rx_pos s + 1" by auto
  show ?case
  proof (cases "e ! 0 = 0xFF")
    case True
    with 2 d have "rx_pos (sd_do (Delay_us 100) s1) < rx_pos s' \<and> rx env (rx_pos s' - 1) = r" by simp
    with e show ?thesis by (simp add: sd_do_def)
  next
    case False
    with 2 d e show ?thesis by simp
  qed
qed simp

lemma rcvr_datablock_ok:
  assumes "rcvr_datablock env btr s = (r, s')"
  shows "bus (1002 + btr) s s' \<and>
    (case r of None \<Rightarrow> True
     | Some blk \<Rightarrow> \<exists>p \<ge> rx_pos s. rx env p = 0xFE \<and> blk = map (rx env) [p + 1..<p + 1 + btr])"
proof -
  obtain d s1 where d: "datablock_loop env 1000 0xFF s = (d, s1)" by fastforce
  note b = bus_datablock_loop [OF d]
  show ?thesis
  proof (cases "d = 0xFE")
    case False
    with assms d b show ?thesis by (auto simp: rcvr_datablock_def intro: bus_mono)
  next
    case True
    obtain blk s2 where blk: "rcvr_mmc env btr s1 = (blk, s2)" by fastforce
    obtain c s3 where c: "rcvr_mmc env 2 s2 = (c, s3)" by fastforce
    from bus_trans [OF b bus_rcvr [OF blk]] have "bus (1000 + btr) s s2" by simp
    from bus_trans [OF this bus_rcvr [OF c]] have b3: "bus (1002 + btr) s s3" by simp
    from datablock_loop_token [OF d] True
    have "rx_pos s < rx_pos s1" "rx env (rx_pos s1 - 1) = 0xFE" by auto
    then obtain p where p: "rx_pos s1 = p + 1" "rx_pos s \<le> p" "rx env p = 0xFE"
      by (cases "rx_pos s1") auto
    moreover from assms d True blk c have "r = Some blk" "s' = s3" by (simp_all add: rcvr_datablock_def)
    moreover from rcvr_data [OF blk] p(1) have "blk = map (rx env) [p + 1..<p + 1 + btr]" by simp
    ultimately show ?thesis using b3 by auto
  qed
qed

lemma bus_xmit_datablock: "xmit_datablock env buff token s = (ok, s') \<Longrightarrow> bus 5003 s s'"
proof -
  assume a: "xmit_datablock env buff token s = (ok, s')"
  obtain w s1 where w: "wait_ready env s = (w, s1)" by fastforce
  note b = bus_wait_ready [OF w]
  obtain x s2 where x: "rcvr_mmc env 2 (xmit_mmc (take 512 buff) (xmit_mmc [token] s1)) = (x, s2)" by fastforce
  obtain y s3 where y: "rcvr_mmc env 1 s2 = (y, s3)" by fastforce
  from bus_rcvr [OF x] have "bus 2 s1 s2" by (simp add: xmit_mmc_def)
  from bus_trans [OF b this] have "bus 5002 s s2" by simp
  from bus_trans [OF this bus_rcvr [OF y]] have "bus 5003 s s3" by simp
  with a w x y b show "bus 5003 s s'"
    by (auto simp: xmit_datablock_def Let_def xmit_mmc_def split: if_splits intro: bus_mono)
qed

lemma bus_response_loop: "response_loop env k s = (r, s') \<Longrightarrow> bus (k + 1) s s'"
proof (induction env k s arbitrary: r s' rule: response_loop.induct)
  case (1 env k s)
  obtain d s1 where d: "rcvr_mmc env 1 s = (d, s1)" by fastforce
  show ?case
  proof (cases "d ! 0 AND 0x80 \<noteq> 0 \<and> k \<noteq> 0")
    case False
    with 1 d bus_rcvr [OF d] show ?thesis by (auto split: if_splits nat.splits intro: bus_mono)
  next
    case True
    then obtain k' where k: "k = Suc k'" by (cases k) auto
    with 1 d True have "bus (k' + 1) s1 s'" by (auto simp del: response_loop.simps simp: response_loop.simps [of env "Suc k'"])
    from bus_trans [OF bus_rcvr [OF d] this] k show ?thesis by simp
  qed
qed

lemma bus_send_packet: "send_packet env cmd arg s = (r, s') \<Longrightarrow> bus 5013 s s'"
proof -
  assume a: "send_packet env cmd arg s = (r, s')"
  obtain ok s1 where sel: "(if cmd \<noteq> CMD12 then select env (deselect env s) else (True, s)) = (ok, s1)"
    by fastforce
  have b1: "bus 5003 s s1"
  proof (cases "cmd = CMD12")
    case False
    with sel have "select env (deselect env s) = (ok, s1)" by simp
    from bus_trans [OF bus_deselect bus_select [OF this]] show ?thesis by simp
  qed (use sel in simp)
  have b1': "bus (if cmd = CMD12 then 0 else 5003) s s1"
    using b1 sel by (cases "cmd = CMD12") auto
  show "bus 5013 s s'"
  proof (cases ok)
    case False
    with a sel b1 show ?thesis by (auto simp: send_packet_def intro: bus_mono)
  next
    case True
    let ?s2 = "xmit_mmc (cmd_frame cmd arg) s1"
    let ?s3 = "if cmd = CMD12 then snd (rcvr_mmc env 1 ?s2) else ?s2"
    obtain d s3 where d: "rcvr_mmc env 1 ?s2 = (d, s3)" by fastforce
    from bus_rcvr [OF d] have "bus 1 s1 s3" by (simp add: xmit_mmc_def)
    moreover have "snd (rcvr_mmc env 1 ?s2) = s3" using d by simp
    ultimately have "bus (if cmd = CMD12 then 1 else 0) s1 ?s3"
      by (cases "cmd = CMD12") (simp_all add: xmit_mmc_def)
    from bus_trans [OF b1' this] have "bus 5003 s ?s3" by (simp split: if_splits)
    moreover from a sel True have "response_loop env 9 ?s3 = (r, s')"
      by (simp only: send_packet_def Let_def prod.case not_True_eq_False if_False)
    then have "bus (9 + 1) ?s3 s'" by (rule bus_response_loop)
    ultimately show ?thesis by (rule bus_trans) simp
  qed
qed

lemma bus_send_cmd: "send_cmd env cmd arg s = (r, s') \<Longrightarrow> bus 10026 s s'"
proof -
  assume a: "send_cmd env cmd arg s = (r, s')"
  obtain n s1 where n: "send_packet env CMD55 0 s = (n, s1)" by fastforce
  note b = bus_send_packet [OF n]
  consider "send_packet env cmd arg s = (r, s')" | "s' = s1" | "send_packet env (cmd AND 0x7F) arg s1 = (r, s')"
    using a n by (simp add: send_cmd_def split: if_splits)
  then show "bus 10026 s s'"
  proof cases
    case 1
    from bus_mono [OF bus_send_packet [OF this]] show ?thesis by simp
  next
    case 2
    with bus_mono [OF b] show ?thesis by simp
  next
    case 3
    from bus_trans [OF b bus_send_packet [OF this]] show ?thesis by simp
  qed
qed

lemma bus_snd_send_cmd: "bus 10026 s (snd (send_cmd env cmd arg s))"
  by (cases "send_cmd env cmd arg s") (auto dest: bus_send_cmd)

lemma bus_snd_rcvr: "bus n s (snd (rcvr_mmc env n s))"
  by (cases "rcvr_mmc env n s") (auto dest: bus_rcvr)

lemma read_blocks_ok:
  "read_blocks env n s = (left, bs, s') \<Longrightarrow>
     left \<le> n \<and> length bs = 512 * (n - left) \<and> bus (n * 1514) s s'
   \<and> (\<forall>k < n - left. \<exists>p \<ge> rx_pos s. rx env p = 0xFE
        \<and> take 512 (drop (512 * k) bs) = map (rx env) [p + 1..<p + 1 + 512])"
proof (induction n arbitrary: left bs s s')
  case 0
  then show ?case by simp
next
  case (Suc n)
  obtain r s1 where d: "rcvr_datablock env 512 s = (r, s1)" by fastforce
  note ok = rcvr_datablock_ok [OF d]
  show ?case
  proof (cases r)
    case None
    with Suc.prems d ok show ?thesis by (auto intro: bus_mono)
  next
    case (Some blk)
    obtain l b2 s2 where l: "read_blocks env n s1 = (l, b2, s2)" by (metis prod_cases3)
    with Suc.prems d Some have e: "left = l" "bs = blk @ b2" "s' = s2" by auto
    note ih = Suc.IH [OF l]
    from ok Some obtain p where p: "p \<ge> rx_pos s" "rx env p = 0xFE"
      "blk = map (rx env) [p + 1..<p + 1 + 512]" and b1: "bus 1514 s s1" by auto
    then have lb: "length blk = 512" by simp
    from b1 have mono: "rx_pos s \<le> rx_pos s1" by (simp add: bus_def)
    have "\<exists>p \<ge> rx_pos s. rx env p = 0xFE
        \<and> take 512 (drop (512 * k) bs) = map (rx env) [p + 1..<p + 1 + 512]" if "k < Suc n - left" for k
    proof (cases k)
      case 0
      with p lb e show ?thesis by auto
    next
      case (Suc k')
      with that e have k': "k' < n - l" by simp
      from ih [THEN conjunct2, THEN conjunct2, THEN conjunct2, rule_format, OF k'] obtain q
        where "q \<ge> rx_pos s1" "rx env q = 0xFE"
          "take 512 (drop (512 * k') b2) = map (rx env) [q + 1..<q + 1 + 512]" by blast
      with Suc lb e mono show ?thesis by (intro exI [where x = q]) simp
    qed
    moreover have "bus (Suc n * 1514) s s'"
      using bus_trans [OF b1, of "n * 1514" s2 "1514 + n * 1514"] ih e(3) by simp
    ultimately show ?thesis using ih e lb by auto
  qed
qed

lemma write_blocks_ok:
  "write_blocks env n buff s = (left, s') \<Longrightarrow> left \<le> n \<and> bus (n * 5003) s s'"
proof (induction n arbitrary: buff s)
  case 0
  then show ?case by simp
next
  case (Suc n)
  obtain ok s1 where x: "xmit_datablock env buff 0xFC s = (ok, s1)" by fastforce
  note b = bus_xmit_datablock [OF x]
  show ?case
  proof (cases ok)
    case False
    with Suc.prems x b show ?thesis by (auto intro: bus_mono)
  next
    case True
    with Suc.prems x have "write_blocks env n (drop 512 buff) s1 = (left, s')" by simp
    note ih = Suc.IH [OF this]
    with bus_trans [OF b, of "n * 5003" s' "5003 + n * 5003"] show ?thesis by simp
  qed
qed

lemma bus_idle_loop: "idle_loop env cmd arg t s = (r, s') \<Longrightarrow> bus (t * 10026) s s'"
proof (induction t arbitrary: s)
  case 0
  then show ?case by simp
next
  case (Suc t)
  obtain x s1 where x: "send_cmd env cmd arg s = (x, s1)" by fastforce
  note b = bus_send_cmd [OF x]
  show ?case
  proof (cases "x = 0")
    case True
    with Suc.prems x b show ?thesis by (auto intro: bus_mono)
  next
    case False
    with Suc.prems x have "idle_loop env cmd arg t (sd_do (Delay_us 1000) s1) = (r, s')" by simp
    from Suc.IH [OF this] bus_trans [OF b, of "t * 10026" s' "10026 + t * 10026"] show ?thesis by simp
  qed
qed

subsection \<open>The disk functions\<close>

text \<open>
  Between operations: the card is deselected, the status has no other bits, the type is one
  the driver sets, and a card that was not identified counts as not initialised.
\<close>

definition sd_inv :: "sd_state \<Rightarrow> bool" where
  "sd_inv s \<longleftrightarrow> \<not> cs_low s \<and> Stat s \<in> {0, 1, 2, 3}
     \<and> CardType s \<in> {0, CT_MMC3, CT_SDC2, CT_SDC2 OR CT_BLOCK}
     \<and> (CardType s = 0 \<longrightarrow> Stat s AND STA_NOINIT \<noteq> 0)"

lemma disk_status_ok:
  assumes "disk_status env drv s = (st, s')" and "Stat s \<in> {0, 1, 2, 3}"
  shows "st = Stat s' \<and> Stat s' \<in> {0, 1, 2, 3} \<and> CardType s' = CardType s \<and> cs_low s' = cs_low s
     \<and> rx_pos s' = rx_pos s \<and> sd_log s' = sd_log s
     \<and> (Stat s' AND STA_NOINIT \<noteq> 0 \<longleftrightarrow> Stat s AND STA_NOINIT \<noteq> 0 \<or> drv \<noteq> 0)"
  using assms
  by (auto simp: disk_status_def BOARD_SD_CARD_IsInserted_def Let_def split: if_splits)

lemma disk_status_inv:
  assumes "disk_status env drv s = (st, s')" and "sd_inv s"
  shows "sd_inv s'"
  using disk_status_ok [OF assms(1)] assms(2) by (auto simp: sd_inv_def)

lemma sd_inv_bus: "sd_inv s \<Longrightarrow> bus k s s' \<Longrightarrow> \<not> cs_low s' \<Longrightarrow> sd_inv s'"
  by (simp add: sd_inv_def bus_def)

text \<open>The part of a read behind the status check.\<close>

lemma disk_read_ready:
  assumes "disk_read env drv sector cnt s = (r, data, s')"
    and "disk_status env drv s = (st, s1)" and "st AND STA_NOINIT = 0"
  shows "bus (20053 + passes cnt * 1514) s1 s' \<and> \<not> cs_low s' \<and> r \<in> {RES_OK, RES_ERROR}
     \<and> (r = RES_OK \<and> cnt \<noteq> 0 \<longrightarrow> length data = 512 * unat cnt
          \<and> (\<forall>k < unat cnt. \<exists>p \<ge> rx_pos s1. rx env p = 0xFE
               \<and> take 512 (drop (512 * k) data) = map (rx env) [p + 1..<p + 1 + 512]))"
proof -
  define cmd where "cmd = (if cnt > 1 then CMD18 else CMD17)"
  obtain q s2 where c: "send_cmd env cmd (block_address s1 sector) s1 = (q, s2)" by fastforce
  note b = bus_send_cmd [OF c]
  show ?thesis
  proof (cases "q = 0")
    case False
    with assms c have e: "r = (if cnt \<noteq> 0 then RES_ERROR else RES_OK)" "data = []" "s' = deselect env s2"
      by (simp_all add: disk_read_def Let_def cmd_def)
    from bus_trans [OF b bus_deselect, of "20053 + passes cnt * 1514" env] e show ?thesis
      by (simp split: if_splits)
  next
    case True
    obtain left bs s3 where l: "read_blocks env (passes cnt) s2 = (left, bs, s3)" by (metis prod_cases3)
    note rb = read_blocks_ok [OF l]
    define s4 where "s4 = (if cmd = CMD18 then snd (send_cmd env CMD12 0 s3) else s3)"
    have b4: "bus 10026 s3 s4" unfolding s4_def using bus_snd_send_cmd by simp
    from assms c True l have e: "r = (if (word_of_nat left :: u32) \<noteq> 0 then RES_ERROR else RES_OK)"
      "data = bs" "s' = deselect env s4"
      by (simp_all add: disk_read_def Let_def cmd_def [symmetric] s4_def)
    have m: "rx_pos s1 \<le> rx_pos s2" using b by (simp add: bus_def)
    from bus_trans [OF b, of "passes cnt * 1514" s3 "10026 + passes cnt * 1514"] rb
    have "bus (10026 + passes cnt * 1514) s1 s3" by simp
    from bus_trans [OF this b4, of "20052 + passes cnt * 1514"]
    have "bus (20052 + passes cnt * 1514) s1 s4" by simp
    from bus_trans [OF this bus_deselect, of "20053 + passes cnt * 1514" env] e
    have "bus (20053 + passes cnt * 1514) s1 s'" by simp
    moreover have "length data = 512 * unat cnt
          \<and> (\<forall>k < unat cnt. \<exists>p \<ge> rx_pos s1. rx env p = 0xFE
               \<and> take 512 (drop (512 * k) data) = map (rx env) [p + 1..<p + 1 + 512])"
      if "r = RES_OK" "cnt \<noteq> 0"
    proof -
      from that e have z: "(word_of_nat left :: u32) = 0" by (simp split: if_splits)
      from that(2) rb have le: "left \<le> unat cnt" by (simp add: passes_def)
      moreover have "unat cnt < 2 ^ LENGTH(32)" by (rule unsigned_less)
      ultimately have "left < 2 ^ 32" by simp
      with z have "left = 0"
        by (simp add: word_of_nat_eq_0_iff nat_dvd_not_less) (metis gr0I nat_dvd_not_less)
      with rb e that(2) have r1: "length data = 512 * unat cnt"
        and r2: "\<And>k. k < unat cnt \<Longrightarrow> \<exists>p \<ge> rx_pos s2. rx env p = 0xFE
               \<and> take 512 (drop (512 * k) data) = map (rx env) [p + 1..<p + 1 + 512]"
        by (simp_all add: passes_def)
      from r2 m have "\<exists>p \<ge> rx_pos s1. rx env p = 0xFE
               \<and> take 512 (drop (512 * k) data) = map (rx env) [p + 1..<p + 1 + 512]" if "k < unat cnt" for k
        using that by (meson order_trans)
      with r1 show ?thesis by blast
    qed
    ultimately show ?thesis using e by simp
  qed
qed

lemma disk_write_ready:
  assumes "disk_write env drv buff sector cnt s = (r, s')"
    and "disk_status env drv s = (st, s1)" and "st AND STA_NOINIT = 0"
  shows "bus (25057 + passes cnt * 5003) s1 s' \<and> \<not> cs_low s' \<and> r \<in> {RES_OK, RES_ERROR}"
proof (cases "cnt = 1")
  case True
  obtain q s2 where c: "send_cmd env CMD24 (block_address s1 sector) s1 = (q, s2)" by fastforce
  note b = bus_send_cmd [OF c]
  obtain ok s3 where x: "xmit_datablock env buff 0xFE s2 = (ok, s3)" by fastforce
  from bus_trans [OF b bus_xmit_datablock [OF x]] have b3: "bus 15029 s1 s3" by simp
  have "s' = deselect env (if q = 0 then s3 else s2)" "r \<in> {RES_OK, RES_ERROR}"
    using assms c x True by (cases "q = 0"; cases ok; simp add: disk_write_def)+
  moreover have "bus 15030 s1 (deselect env (if q = 0 then s3 else s2))"
    using bus_trans [OF b3 bus_deselect] bus_trans [OF b bus_deselect] by simp
  ultimately show ?thesis by (auto intro: bus_mono)
next
  case False
  define s2 where "s2 = (if CardType s1 AND CT_SDC \<noteq> 0 then snd (send_cmd env ACMD23 cnt s1) else s1)"
  have b2: "bus 10026 s1 s2" unfolding s2_def using bus_snd_send_cmd by simp
  obtain q s3 where c: "send_cmd env CMD25 (block_address s1 sector) s2 = (q, s3)" by fastforce
  from bus_trans [OF b2 bus_send_cmd [OF c]] have b3: "bus 20052 s1 s3" by simp
  obtain left s4 where w: "write_blocks env (passes cnt) buff s3 = (left, s4)" by fastforce
  obtain ok s5 where x: "xmit_datablock env [] 0xFD s4 = (ok, s5)" by fastforce
  from bus_trans [OF b3, of "passes cnt * 5003" s4 "20052 + passes cnt * 5003"] write_blocks_ok [OF w]
  have "bus (20052 + passes cnt * 5003) s1 s4" by simp
  from bus_trans [OF this bus_xmit_datablock [OF x], of "25055 + passes cnt * 5003"]
  have b5: "bus (25055 + passes cnt * 5003) s1 s5" by simp
  have "(r, s') = (if (if q = 0 then if ok then word_of_nat left else 1 else cnt) \<noteq> 0 then RES_ERROR
      else RES_OK, deselect env (if q = 0 then s5 else s3))"
    using assms False c w x by (cases "q = 0") (simp_all add: disk_write_def s2_def [symmetric])
  then have "s' = deselect env (if q = 0 then s5 else s3)" "r \<in> {RES_OK, RES_ERROR}" by simp_all
  moreover have "bus (25057 + passes cnt * 5003) s1 (deselect env (if q = 0 then s5 else s3))"
    using bus_trans [OF b5 bus_deselect, of "25057 + passes cnt * 5003"]
      bus_trans [OF b3 bus_deselect, of "25057 + passes cnt * 5003"] by simp
  ultimately show ?thesis by simp
qed

lemma disk_ioctl_ready:
  assumes "disk_ioctl env drv ctrl s = (r, v, s')"
    and "disk_status env drv s = (st, s1)" and "st AND STA_NOINIT = 0"
  shows "bus 12000 s1 s' \<and> \<not> cs_low s'"
proof -
  obtain ok s2 where se: "select env s1 = (ok, s2)" by fastforce
  obtain q s3 where c: "send_cmd env CMD9 0 s1 = (q, s3)" by fastforce
  obtain d s4 where d: "rcvr_datablock env 16 s3 = (d, s4)" by fastforce
  have b2: "bus 11044 s1 s2" using bus_mono [OF bus_select [OF se]] by simp
  have b3: "bus 11044 s1 s3" using bus_mono [OF bus_send_cmd [OF c]] by simp
  have "bus 1018 s3 s4" using rcvr_datablock_ok [OF d] by simp
  with bus_trans [OF bus_send_cmd [OF c]] have b4: "bus 11044 s1 s4" by simp
  have "s' \<in> {deselect env s1, deselect env s2, deselect env s3, deselect env s4}"
    using assms se c d by (auto simp: disk_ioctl_def split: if_splits option.splits)
  moreover have "bus 12000 s1 (deselect env t)" if "bus 11044 s1 t" for t
    using bus_trans [OF that bus_deselect] by simp
  ultimately show ?thesis using b2 b3 b4 by auto
qed

lemma identify_ok:
  assumes "identify env s = (ty, s')"
  shows "bus (1005 * 10026) s s' \<and> ty \<in> {0, CT_MMC3, CT_SDC2, CT_SDC2 OR CT_BLOCK}"
proof -
  obtain r1 s1 where c1: "send_cmd env CMD0 0 s = (r1, s1)" by fastforce
  obtain r2 s2 where c2: "send_cmd env CMD8 0x1AA s1 = (r2, s2)" by fastforce
  have b1: "bus 10026 s s1" by (rule bus_send_cmd [OF c1])
  have b2: "bus 20052 s s2" using bus_trans [OF b1 bus_send_cmd [OF c2]] by simp
  have v2: "bus (1001 * 10026 + 8) s2 t' \<and> ty' \<in> {0, CT_SDC2, CT_SDC2 OR CT_BLOCK}"
    if "identify_v2 env s2 = (ty', t')" for ty' t'
  proof -
    obtain d t1 where d: "rcvr_mmc env 4 s2 = (d, t1)" by fastforce
    obtain tmr t2 where i: "idle_loop env ACMD41 (push_bit 30 1) 1000 t1 = (tmr, t2)" by fastforce
    obtain r t3 where c: "send_cmd env CMD58 0 t2 = (r, t3)" by fastforce
    obtain e t4 where e: "rcvr_mmc env 4 t3 = (e, t4)" by fastforce
    have k1: "bus 4 s2 t1" by (rule bus_rcvr [OF d])
    have k2: "bus (4 + 1000 * 10026) s2 t2" using bus_trans [OF k1 bus_idle_loop [OF i]] by simp
    have k3: "bus (4 + 1001 * 10026) s2 t3" using bus_trans [OF k2 bus_send_cmd [OF c]] by simp
    have k4: "bus (8 + 1001 * 10026) s2 t4" using bus_trans [OF k3 bus_rcvr [OF e]] by simp
    have "t' \<in> {t1, t2, t3, t4}" "ty' \<in> {0, CT_SDC2, CT_SDC2 OR CT_BLOCK}"
      using that d i c e by (auto simp: identify_v2_def split: if_splits)
    with bus_mono [OF k1] bus_mono [OF k2] bus_mono [OF k3] k4 show ?thesis by auto
  qed
  have v1: "bus (1002 * 10026) s2 t' \<and> ty' \<in> {0, CT_MMC3, CT_SDC2}"
    if "identify_v1 env s2 = (ty', t')" for ty' t'
  proof -
    obtain r t1 where a: "send_cmd env ACMD41 0 s2 = (r, t1)" by fastforce
    define cmd where "cmd = (if r \<le> 1 then ACMD41 else CMD1)"
    obtain tmr t2 where i: "idle_loop env cmd 0 1000 t1 = (tmr, t2)" by fastforce
    obtain r' t3 where c: "send_cmd env CMD16 512 t2 = (r', t3)" by fastforce
    have k2: "bus (1001 * 10026) s2 t2"
      using bus_trans [OF bus_send_cmd [OF a] bus_idle_loop [OF i]] by simp
    have k3: "bus (1002 * 10026) s2 t3" using bus_trans [OF k2 bus_send_cmd [OF c]] by simp
    have "t' \<in> {t2, t3}" "ty' \<in> {0, CT_MMC3, CT_SDC2}"
      using that a i c by (auto simp: identify_v1_def Let_def cmd_def [symmetric] split: if_splits)
    with bus_mono [OF k2] k3 show ?thesis by auto
  qed
  obtain ta sa where a: "identify_v2 env s2 = (ta, sa)" by fastforce
  obtain tb sb where b: "identify_v1 env s2 = (tb, sb)" by fastforce
  have "bus (1005 * 10026) s sa" "bus (1005 * 10026) s sb"
    using bus_trans [OF b2, of "1001 * 10026 + 8" sa "1005 * 10026"]
      bus_trans [OF b2, of "1002 * 10026" sb "1005 * 10026"] v2 [OF a] v1 [OF b] by simp_all
  moreover have "(ty, s') \<in> {(0, s1), (ta, sa), (tb, sb)}"
    using assms c1 c2 a b by (auto simp: identify_def split: if_splits)
  ultimately show ?thesis using v2 [OF a] v1 [OF b] bus_mono [OF b1, of "1005 * 10026"] by auto
qed

lemma disk_initialize_inv:
  assumes "disk_initialize env drv s = (r, s')" and "sd_inv s"
  shows "sd_inv s' \<and> rx_pos s \<le> rx_pos s' \<and> rx_pos s' \<le> rx_pos s + 10 + 1005 * 10026 + 1"
proof (cases "drv \<noteq> 0")
  case True
  with assms show ?thesis by (simp add: disk_initialize_def)
next
  case False
  obtain st s0 where d: "disk_status env drv s = (st, s0)" by fastforce
  note i0 = disk_status_inv [OF d assms(2)]
  have p0: "rx_pos s0 = rx_pos s" using disk_status_ok [OF d] assms(2) by (simp add: sd_inv_def)
  show ?thesis
  proof (cases "st = 0")
    case True
    with assms(1) False d i0 p0 show ?thesis by (simp add: disk_initialize_def)
  next
    case st: False
    define s3 where "s3 = snd (rcvr_mmc env 10 (BOARD_SD_Card_Enable env
      (BOARD_SD_CARD_Deselect (sd_do (Delay_us 1000) ((sd_do Cs_low (sd_do Ls_low s0))\<lparr>cs_low := True\<rparr>)))))"
    have p3: "rx_pos s3 = rx_pos s + 10"
      by (simp add: s3_def rcvr_mmc_def sd_do_def BOARD_SD_Card_Enable_def BOARD_SD_CARD_IsInserted_def
          BOARD_SD_CARD_Deselect_def p0)
    obtain ty s4 where i: "identify env s3 = (ty, s4)" by fastforce
    note id = identify_ok [OF i]
    define s5 where "s5 = deselect env (s4\<lparr>CardType := ty, Stat := (if ty \<noteq> 0 then 0 else STA_NOINIT)\<rparr>)"
    have b5: "bus 1 (s4\<lparr>CardType := ty, Stat := (if ty \<noteq> 0 then 0 else STA_NOINIT)\<rparr>) s5"
      unfolding s5_def by (rule bus_deselect)
    with id have i5: "sd_inv s5" by (auto simp: sd_inv_def bus_def) (auto simp: s5_def)
    from b5 id p3 have p5: "rx_pos s \<le> rx_pos s5" "rx_pos s5 \<le> rx_pos s + 10 + 1005 * 10026 + 1"
      by (auto simp: bus_def)
    have e: "s' = (if ty \<noteq> 0 then sd_do Fast_baudrate s5 else snd (disk_disable env s5))"
      using assms(1) False st d i by (auto simp: disk_initialize_def Let_def s3_def s5_def split: if_splits)
    show ?thesis
    proof (cases "ty = 0")
      case ty: False
      with e i5 p5 show ?thesis by (simp add: sd_inv_def sd_do_def)
    next
      case ty: True
      let ?s6 = "BOARD_SD_Card_Init (sd_do (Delay_us 10000) (BOARD_SD_Card_Disable s5))"
      have i6: "sd_inv ?s6" and p6: "rx_pos ?s6 = rx_pos s5"
        using i5 by (simp_all add: sd_inv_def BOARD_SD_Card_Init_def BOARD_SD_Card_Disable_def sd_do_def)
      obtain w t where w: "disk_status env 0 ?s6 = (w, t)" by fastforce
      with e ty have "s' = t" by (simp add: disk_disable_def)
      with disk_status_inv [OF w i6] disk_status_ok [OF w] i6 p5 p6 show ?thesis
        by (simp add: sd_inv_def)
    qed
  qed
qed

datatype sd_op =
    Sd_status u8 | Sd_initialize u8 | Sd_read u8 u32 u32 | Sd_write u8 "u8 list" u32 u32 | Sd_ioctl u8 u8

definition sd_step :: "sd_env \<Rightarrow> sd_state \<Rightarrow> sd_op \<Rightarrow> sd_state" where
  "sd_step env s op =
     (case op of
        Sd_status drv \<Rightarrow> snd (disk_status env drv s)
      | Sd_initialize drv \<Rightarrow> snd (disk_initialize env drv s)
      | Sd_read drv sector cnt \<Rightarrow> snd (snd (disk_read env drv sector cnt s))
      | Sd_write drv buff sector cnt \<Rightarrow> snd (disk_write env drv buff sector cnt s)
      | Sd_ioctl drv ctrl \<Rightarrow> snd (snd (disk_ioctl env drv ctrl s)))"

text \<open>An operation on a card that is not initialised stops at the status check.\<close>

lemma not_ready:
  assumes "disk_status env drv s = (st, s1)" and "st AND STA_NOINIT \<noteq> 0"
  shows "disk_read env drv sector cnt s = (RES_NOTRDY, [], s1)"
    and "disk_write env drv buff sector cnt s = (RES_NOTRDY, s1)"
    and "disk_ioctl env drv ctrl s = (RES_NOTRDY, None, s1)"
  using assms by (simp_all add: disk_read_def disk_write_def disk_ioctl_def)

lemma sd_step_inv:
  assumes "sd_inv s"
  shows "sd_inv (sd_step env s op)"
proof -
  have st: "sd_inv s1 \<and> (st AND STA_NOINIT = 0 \<or> st AND STA_NOINIT \<noteq> 0)"
    if "disk_status env drv s = (st, s1)" for drv st s1
    using disk_status_inv [OF that assms] by blast
  show ?thesis
  proof (cases op)
    case (Sd_status drv)
    then show ?thesis using disk_status_inv [OF _ assms]
      by (cases "disk_status env drv s") (auto simp: sd_step_def)
  next
    case (Sd_initialize drv)
    then show ?thesis using disk_initialize_inv [OF _ assms]
      by (cases "disk_initialize env drv s") (auto simp: sd_step_def)
  next
    case (Sd_read drv sector cnt)
    obtain st s1 where d: "disk_status env drv s = (st, s1)" by fastforce
    obtain r data s' where o: "disk_read env drv sector cnt s = (r, data, s')" by (metis prod_cases3)
    show ?thesis
    proof (cases "st AND STA_NOINIT = 0")
      case True
      from disk_read_ready [OF o d True] have "bus (20053 + passes cnt * 1514) s1 s'" "\<not> cs_low s'" by auto
      with sd_inv_bus [OF disk_status_inv [OF d assms]] Sd_read o show ?thesis by (simp add: sd_step_def)
    qed (use not_ready(1) [OF d] disk_status_inv [OF d assms] Sd_read in \<open>simp add: sd_step_def\<close>)
  next
    case (Sd_write drv buff sector cnt)
    obtain st s1 where d: "disk_status env drv s = (st, s1)" by fastforce
    obtain r s' where o: "disk_write env drv buff sector cnt s = (r, s')" by fastforce
    show ?thesis
    proof (cases "st AND STA_NOINIT = 0")
      case True
      from disk_write_ready [OF o d True] have "bus (25057 + passes cnt * 5003) s1 s'" "\<not> cs_low s'" by auto
      with sd_inv_bus [OF disk_status_inv [OF d assms]] Sd_write o show ?thesis by (simp add: sd_step_def)
    qed (use not_ready(2) [OF d] disk_status_inv [OF d assms] Sd_write in \<open>simp add: sd_step_def\<close>)
  next
    case (Sd_ioctl drv ctrl)
    obtain st s1 where d: "disk_status env drv s = (st, s1)" by fastforce
    obtain r v s' where o: "disk_ioctl env drv ctrl s = (r, v, s')" by (metis prod_cases3)
    show ?thesis
    proof (cases "st AND STA_NOINIT = 0")
      case True
      from disk_ioctl_ready [OF o d True] have "bus 12000 s1 s'" "\<not> cs_low s'" by auto
      with sd_inv_bus [OF disk_status_inv [OF d assms]] Sd_ioctl o show ?thesis by (simp add: sd_step_def)
    qed (use not_ready(3) [OF d] disk_status_inv [OF d assms] Sd_ioctl in \<open>simp add: sd_step_def\<close>)
  qed
qed

interpretation sd_run: invariant_machine "sd_step env" sd_inv for env
  by unfold_locales (rule sd_step_inv)

definition sd_start :: sd_state where
  "sd_start = \<lparr>rx_pos = 0, detect_pos = 0, cs_low = False, Stat = STA_NOINIT, CardType = 0, sd_log = []\<rparr>"

lemma sd_inv_start: "sd_inv sd_start"
  by (simp add: sd_inv_def sd_start_def)

text \<open>
  C30: whatever sequence of disk operations runs and whatever the card answers, the card is
  deselected between operations; a card that is not initialised is not touched by reads,
  writes and controls, which answer not ready; and the driver never records version 1 of
  the SD standard, which it takes for version 2.
\<close>

theorem sd_runs_keep_invariant:
  fixes env :: sd_env and ops :: "sd_op list"
  defines "s \<equiv> foldl (sd_step env) sd_start ops"
  shows "\<not> cs_low s \<and> CardType s AND CT_SDC1 = 0 \<and> (CardType s = 0 \<longrightarrow> Stat s AND STA_NOINIT \<noteq> 0)
     \<and> (Stat s AND STA_NOINIT \<noteq> 0 \<longrightarrow>
          (\<exists>s1. disk_read env drv sector cnt s = (RES_NOTRDY, [], s1)
             \<and> disk_write env drv buff sector cnt s = (RES_NOTRDY, s1)
             \<and> disk_ioctl env drv ctrl s = (RES_NOTRDY, None, s1)
             \<and> sd_log s1 = sd_log s \<and> rx_pos s1 = rx_pos s))"
proof -
  have i: "sd_inv s" unfolding s_def by (rule sd_run.run_inv [OF sd_inv_start])
  obtain st s1 where d: "disk_status env drv s = (st, s1)" by fastforce
  from i have v: "Stat s \<in> {0, 1, 2, 3}" by (simp add: sd_inv_def)
  from i have "\<not> cs_low s" "CardType s AND CT_SDC1 = 0" "CardType s = 0 \<longrightarrow> Stat s AND STA_NOINIT \<noteq> 0"
    by (auto simp: sd_inv_def)
  moreover have "\<exists>s1. disk_read env drv sector cnt s = (RES_NOTRDY, [], s1)
             \<and> disk_write env drv buff sector cnt s = (RES_NOTRDY, s1)
             \<and> disk_ioctl env drv ctrl s = (RES_NOTRDY, None, s1)
             \<and> sd_log s1 = sd_log s \<and> rx_pos s1 = rx_pos s" if "Stat s AND STA_NOINIT \<noteq> 0"
  proof -
    from disk_status_ok [OF d v] that have "st AND STA_NOINIT \<noteq> 0" "sd_log s1 = sd_log s"
      "rx_pos s1 = rx_pos s" by auto
    with not_ready [OF d] show ?thesis by blast
  qed
  ultimately show ?thesis by blast
qed

theorem sd_runs_keep_invariant_witness:
  "\<not> cs_low (foldl (sd_step \<lparr>rx = (\<lambda>i. 0xFF), detect_low = (\<lambda>i. True)\<rparr>) sd_start [Sd_initialize 0, Sd_read 0 7 1])"
  using sd_runs_keep_invariant by blast

text \<open>
  C34: a successful read of \<open>n \<ge> 1\<close> sectors stored exactly \<open>512 * n\<close> bytes, and each
  sector is the 512 bytes the card sent right after a data token; and whatever the card
  answers, a read and a write come back after a bounded number of received bytes.
\<close>

theorem disk_read_blocks:
  assumes "sd_inv s" and "cnt \<noteq> 0" and "disk_read env drv sector cnt s = (r, data, s')"
    and "disk_write env drv buff sector cnt s = (r', s'')"
  shows "(r = RES_OK \<longrightarrow> length data = 512 * unat cnt
          \<and> (\<forall>k < unat cnt. \<exists>p \<ge> rx_pos s. rx env p = 0xFE
               \<and> take 512 (drop (512 * k) data) = map (rx env) [p + 1..<p + 1 + 512]))
     \<and> rx_pos s' \<le> rx_pos s + 20053 + 1514 * unat cnt
     \<and> rx_pos s'' \<le> rx_pos s + 25057 + 5003 * unat cnt"
proof -
  obtain st s1 where d: "disk_status env drv s = (st, s1)" by fastforce
  from assms(1) have v: "Stat s \<in> {0, 1, 2, 3}" by (simp add: sd_inv_def)
  from disk_status_ok [OF d v] have p: "rx_pos s1 = rx_pos s" by simp
  show ?thesis
  proof (cases "st AND STA_NOINIT = 0")
    case True
    from disk_read_ready [OF assms(3) d True] disk_write_ready [OF assms(4) d True] p assms(2)
    show ?thesis by (simp add: bus_def passes_def)
  next
    case False
    with not_ready [OF d] assms(3,4) p show ?thesis by auto
  qed
qed

definition demo_rx :: "nat \<Rightarrow> u8" where
  "demo_rx i = (if i = 3 then 0 else if i = 4 then 0xFE else 0xFF)"

definition demo_sd_env :: sd_env where
  "demo_sd_env = \<lparr>rx = demo_rx, detect_low = (\<lambda>i. True)\<rparr>"

definition demo_sd :: sd_state where
  "demo_sd = \<lparr>rx_pos = 0, detect_pos = 0, cs_low = False, Stat = 0, CardType = 0x18, sd_log = []\<rparr>"

theorem disk_read_blocks_witness:
  "length (fst (snd (disk_read demo_sd_env 0 7 1 demo_sd))) = 512
   \<and> fst (disk_read demo_sd_env 0 7 1 demo_sd) = RES_OK"
proof -
  have ok: "fst (disk_read demo_sd_env 0 7 1 demo_sd) = RES_OK" by code_simp
  obtain data s' where r: "disk_read demo_sd_env 0 7 1 demo_sd = (RES_OK, data, s')"
    using ok by (metis prod.collapse)
  obtain r' s'' where w: "disk_write demo_sd_env 0 [] 7 1 demo_sd = (r', s'')" by fastforce
  have "sd_inv demo_sd" by (simp add: sd_inv_def demo_sd_def)
  from disk_read_blocks [OF this _ r w] r show ?thesis by simp
qed

subsection \<open>Bytes and words\<close>

lemma split_bytes:
  "push_bit 24 (ucast (ucast (drop_bit 24 arg) :: u8)) OR push_bit 16 (ucast (ucast (drop_bit 16 arg) :: u8))
       OR push_bit 8 (ucast (ucast (drop_bit 8 arg) :: u8)) OR ucast (ucast arg :: u8) = (arg :: u32)"
  (is "?l = _")
proof (rule bit_word_eqI)
  fix n assume "n < LENGTH(32)"
  then consider "n < 8" | "8 \<le> n" "n < 16" | "16 \<le> n" "n < 24" | "24 \<le> n" "n < 32" by fastforce
  then show "bit ?l n = bit arg n"
    by cases (auto simp: bit_simps)
qed

lemma cmd_byte:
  assumes "(cmd :: u8) AND 0xC0 = 0"
  shows "(0x40 OR cmd) AND 0xC0 = 0x40" "(0x40 OR cmd) AND 0x3F = cmd"
proof -
  show "(0x40 OR cmd) AND 0xC0 = 0x40" by (simp add: bit.conj_disj_distrib2 assms)
  have m: "(0xC0 OR 0x3F) = (-1 :: u8)" by simp
  have "cmd = cmd AND (0xC0 OR 0x3F)" unfolding m by simp
  also have "\<dots> = cmd AND 0x3F" by (simp only: bit.conj_disj_distrib assms or.left_neutral)
  finally show "(0x40 OR cmd) AND 0x3F = cmd" by (simp add: bit.conj_disj_distrib2)
qed

lemma unat_low: "unat (take_bit n w) = unat w mod 2 ^ n" for w :: u8
  by (subst unsigned_take_bit_eq) (simp add: take_bit_eq_mod)

lemma unat_high: "unat (drop_bit n w) = unat w div 2 ^ n" for w :: u8
proof -
  have "unat w < 2 ^ LENGTH(8)" by (rule unsigned_less)
  then show ?thesis by (subst unsigned_drop_bit_eq) (simp add: drop_bit_eq_div take_bit_nat_eq_self)
qed

lemma csd_masks:
  fixes w :: u8
  shows "unat (w AND 63) = unat w mod 64" "unat (w AND 15) = unat w mod 16" "unat (w AND 3) = unat w mod 4"
    "unat (drop_bit 7 (w AND 128)) = unat w div 128"
proof -
  have "w AND 63 = take_bit 6 w" "w AND 15 = take_bit 4 w" "w AND 3 = take_bit 2 w"
    by (simp_all add: take_bit_eq_mask mask_eq_exp_minus_1)
  then show "unat (w AND 63) = unat w mod 64" "unat (w AND 15) = unat w mod 16" "unat (w AND 3) = unat w mod 4"
    using unat_low [of 6 w] unat_low [of 4 w] unat_low [of 2 w] by simp_all
  have "drop_bit 7 (w AND 128) = drop_bit 7 w"
    by (rule bit_word_eqI) (auto simp: bit_simps dest: bit_imp_le_length)
  then show "unat (drop_bit 7 (w AND 128)) = unat w div 128" using unat_high [of 7 w] by simp
qed

lemma csd2:
  fixes a b c :: u8
  shows "(ucast a + push_bit 8 (ucast b) + push_bit 16 (ucast (c AND 63)) + 1 :: u32)
     = word_of_nat (unat a + 256 * unat b + 65536 * (unat c mod 64) + 1)"
proof -
  have "(ucast (c AND 63) :: u32) = word_of_nat (unat c mod 64)"
    by (simp flip: csd_masks(1))
  then show ?thesis by (simp add: push_bit_eq_mult)
qed

lemma csd1:
  fixes a b c :: u8
  shows "(ucast (drop_bit 6 a) + push_bit 2 (ucast b) + push_bit 10 (ucast (c AND 3)) + 1 :: u32)
     = word_of_nat (unat a div 64 + 4 * unat b + 1024 * (unat c mod 4) + 1)"
proof -
  have "(ucast (c AND 3) :: u32) = word_of_nat (unat c mod 4)" by (simp flip: csd_masks(3))
  moreover have "(ucast (drop_bit 6 a) :: u32) = word_of_nat (unat (drop_bit 6 a))" by simp
  then have "(ucast (drop_bit 6 a) :: u32) = word_of_nat (unat a div 64)" by (simp only: unat_high) simp
  ultimately show ?thesis by (simp add: push_bit_eq_mult)
qed

lemma unat_shifted:
  assumes "m * 2 ^ k < 2 ^ 32"
  shows "unat (push_bit k (word_of_nat m :: u32)) = m * 2 ^ k"
proof -
  have "push_bit k (word_of_nat m :: u32) = word_of_nat (m * 2 ^ k)" by (simp add: push_bit_eq_mult)
  then have "unat (push_bit k (word_of_nat m :: u32)) = take_bit 32 (m * 2 ^ k)"
    by (simp only: unsigned_of_nat) simp
  with assms show ?thesis by (simp only: take_bit_nat_eq_self)
qed

lemma block_addr:
  fixes sector :: u32
  assumes "unat sector < 2 ^ 23"
  shows "unat (sector * 512) = 512 * unat sector"
proof -
  have "sector * 512 = word_of_nat (unat sector * 512)" by simp
  with assms show ?thesis by (simp only: unsigned_of_nat take_bit_nat_eq_self) (simp add: take_bit_nat_eq_self)
qed

subsection \<open>Frames and sizes\<close>

text \<open>
  A command frame decodes to its command and argument: it is six bytes, starts with a
  start bit and the command, carries the argument most significant byte first and ends with
  a stop bit; and the argument of a transfer is the sector for a block-addressed card and
  its byte address for the others, exact up to 4 GB.
\<close>

theorem cmd_frame_decodes:
  assumes "cmd AND 0xC0 = 0"
  shows "length (cmd_frame cmd arg) = 6 \<and> cmd_frame cmd arg ! 0 AND 0xC0 = 0x40
     \<and> cmd_frame cmd arg ! 0 AND 0x3F = cmd
     \<and> push_bit 24 (ucast (cmd_frame cmd arg ! 1)) OR push_bit 16 (ucast (cmd_frame cmd arg ! 2))
       OR push_bit 8 (ucast (cmd_frame cmd arg ! 3)) OR ucast (cmd_frame cmd arg ! 4) = arg
     \<and> odd (cmd_frame cmd arg ! 5)
     \<and> (CardType s AND CT_BLOCK \<noteq> 0 \<longrightarrow> block_address s sector = sector)
     \<and> (CardType s AND CT_BLOCK = 0 \<and> unat sector < 2 ^ 23 \<longrightarrow>
          unat (block_address s sector) = 512 * unat sector)"
  using assms split_bytes [of arg] cmd_byte [of cmd] block_addr [of sector]
  by (simp add: cmd_frame_def block_address_def)

theorem cmd_frame_decodes_witness:
  "cmd_frame CMD17 0x12345678 ! 0 AND 0x3F = CMD17
   \<and> push_bit 24 (ucast (cmd_frame CMD17 0x12345678 ! 1)) OR push_bit 16 (ucast (cmd_frame CMD17 0x12345678 ! 2))
     OR push_bit 8 (ucast (cmd_frame CMD17 0x12345678 ! 3)) OR ucast (cmd_frame CMD17 0x12345678 ! 4)
     = (0x12345678 :: u32)"
  using cmd_frame_decodes [of CMD17 "0x12345678"] by simp

text \<open>
  The sector count read from the CSD register is the capacity its fields describe:
  \<open>(C_SIZE + 1)\<close> units of 1024 sectors for the newer layout, and
  \<open>(C_SIZE + 1) * 2 ^ (C_SIZE_MULT + 2)\<close> blocks of \<open>2 ^ READ_BL_LEN\<close> bytes for the older one,
  which has no count (an undefined shift) exactly when that is not a multiple of a sector.
\<close>

theorem csd_capacity:
  fixes csd :: "u8 list"
  defines "c2 \<equiv> unat (csd ! 9) + 256 * unat (csd ! 8) + 65536 * (unat (csd ! 7) mod 64) + 1"
    and "c1 \<equiv> unat (csd ! 8) div 64 + 4 * unat (csd ! 7) + 1024 * (unat (csd ! 6) mod 4) + 1"
    and "n \<equiv> unat (csd ! 5) mod 16 + unat (csd ! 10) div 128 + 2 * (unat (csd ! 9) mod 4) + 2"
  shows "(drop_bit 6 (csd ! 0) = 1 \<and> c2 < 2 ^ 22 \<longrightarrow>
            (\<exists>v. csd_sectors csd = Some v \<and> unat v = c2 * 1024))
     \<and> (drop_bit 6 (csd ! 0) = 1 \<and> c2 = 2 ^ 22 \<longrightarrow> csd_sectors csd = Some 0)
     \<and> (drop_bit 6 (csd ! 0) \<noteq> 1 \<and> 9 \<le> n \<longrightarrow>
            (\<exists>v. csd_sectors csd = Some v \<and> 512 * unat v = c1 * 2 ^ n))
     \<and> (drop_bit 6 (csd ! 0) \<noteq> 1 \<and> n < 9 \<longrightarrow> csd_sectors csd = None)"
proof -
  have n: "unat (csd ! 5 AND 15) + unat (drop_bit 7 (csd ! 10 AND 128)) + unat (csd ! 9 AND 3) * 2 + 2 = n"
    by (simp only: n_def csd_masks)
  have b: "unat w < 256" for w :: u8 using unsigned_less [of w] by simp
  have c1: "c1 \<le> 4096"
    using b [of "csd ! 8"] b [of "csd ! 7"] by (simp add: c1_def)
  have "unat (csd ! 10) div 128 \<le> 1" using b [of "csd ! 10"] by simp
  moreover have "unat (csd ! 5) mod 16 \<le> 15" "unat (csd ! 9) mod 4 \<le> 3" by simp_all
  ultimately have n24: "n \<le> 24" unfolding n_def by linarith
  have "c1 * 2 ^ (n - 9) < 2 ^ 32"
  proof -
    have "(2 :: nat) ^ (n - 9) \<le> 2 ^ 15" using n24 by (intro power_increasing) simp_all
    then have "c1 * 2 ^ (n - 9) \<le> 4096 * 2 ^ 15" using c1 by (intro mult_le_mono)
    then show ?thesis by simp
  qed
  note v1 = unat_shifted [OF this]
  have p: "512 * (c1 * 2 ^ (n - 9)) = c1 * 2 ^ n" if "9 \<le> n"
  proof -
    have "(2 :: nat) ^ n = 2 ^ (9 + (n - 9))" using that by simp
    then show ?thesis by (simp only: power_add) simp
  qed
  have s2: "csd_sectors csd = Some (push_bit 10 (word_of_nat c2))" if "drop_bit 6 (csd ! 0) = 1"
    using that csd2 [of "csd ! 9" "csd ! 8" "csd ! 7"] by (simp only: csd_sectors_def simp_thms if_True c2_def)
  have s1: "csd_sectors csd = (if n < 9 then None else Some (push_bit (n - 9) (word_of_nat c1)))"
    if "drop_bit 6 (csd ! 0) \<noteq> 1"
    using that csd1 [of "csd ! 8" "csd ! 7" "csd ! 6"] n by (simp only: csd_sectors_def simp_thms if_False Let_def c1_def)
  have "push_bit 10 (word_of_nat (2 ^ 22) :: u32) = 0" by simp
  with s2 have z: "drop_bit 6 (csd ! 0) = 1 \<and> c2 = 2 ^ 22 \<longrightarrow> csd_sectors csd = Some 0" by metis
  have "drop_bit 6 (csd ! 0) = 1 \<and> c2 < 2 ^ 22 \<longrightarrow> (\<exists>v. csd_sectors csd = Some v \<and> unat v = c2 * 1024)"
    using s2 unat_shifted [of c2 10] by simp
  with z s1 v1 p show ?thesis by simp
qed

theorem csd_capacity_witness:
  "\<exists>v. csd_sectors ([0x40, 0, 0, 0, 0, 0, 0, 0, 0x3B, 0x37] @ replicate 6 0) = Some v \<and> unat v = 15160 * 1024"
  using csd_capacity [of "[0x40, 0, 0, 0, 0, 0, 0, 0, 0x3B, 0x37] @ replicate 6 0"] by simp

text \<open>
  A card that is taken out is not forgotten: while it is out, transfers are still tried
  (only the not-initialised bit is tested), and once a card is in again the status is clean,
  so \<open>disk_initialize\<close> returns at once, without a byte on the bus, and the new card is used
  with the old card's type.
\<close>

theorem card_swap_not_initialised:
  assumes "sd_inv s" and "Stat s = 0" and "\<not> detect_low env (detect_pos s)"
    and "detect_low env (detect_pos s + 1)"
  shows "fst (disk_read env 0 sector cnt s) \<noteq> RES_NOTRDY
     \<and> (\<exists>s1 s2. disk_status env 0 s = (STA_NODISK, s1) \<and> disk_initialize env 0 s1 = (0, s2)
          \<and> sd_log s2 = sd_log s \<and> rx_pos s2 = rx_pos s \<and> CardType s2 = CardType s)"
proof -
  obtain st s1 where d: "disk_status env 0 s = (st, s1)" by fastforce
  with assms(2,3) have s1: "st = STA_NODISK" "s1 = s\<lparr>detect_pos := detect_pos s + 1, Stat := STA_NODISK\<rparr>"
    by (auto simp: disk_status_def BOARD_SD_CARD_IsInserted_def)
  obtain r data s' where o: "disk_read env 0 sector cnt s = (r, data, s')" by (metis prod_cases3)
  from disk_read_ready [OF o d] s1 have "r \<noteq> RES_NOTRDY" by auto
  moreover have "disk_initialize env 0 s1
      = (0, s\<lparr>detect_pos := detect_pos s + 2, Stat := 0\<rparr>)"
    using s1(2) assms(4) by (simp add: disk_initialize_def disk_status_def BOARD_SD_CARD_IsInserted_def)
  ultimately show ?thesis using o d s1(1) by auto
qed

theorem card_swap_not_initialised_witness:
  "fst (disk_read \<lparr>rx = demo_rx, detect_low = (\<lambda>i. i = 1)\<rparr> 0 7 1 demo_sd) \<noteq> RES_NOTRDY"
  using card_swap_not_initialised [of demo_sd "\<lparr>rx = demo_rx, detect_low = (\<lambda>i. i = 1)\<rparr>" 7 1]
  by (simp add: sd_inv_def demo_sd_def)

end
