(* ===== verification/Wifi.thy ===== *)
theory Wifi
  imports Config
begin

text \<open>
  The WiFi service (\<open>csrc/src/wifi_service.c\<close>): the connection and IP state, the start-up
  sequence and the event loop of \<open>wifi_task\<close>, and the two SimpleLink event handlers that
  wake it with task-notification bits.

  The task and the handlers run concurrently; a run is a sequence of handler calls and loop
  iterations. A notification sets bits in the task's pending value; \<open>xTaskNotifyWait\<close>
  returns that value and clears it. SimpleLink calls are logged; the ones whose result the
  code looks at take it from the environment.
\<close>

datatype wifi_connection_state_e = wifi_initial | wifi_disconnected | wifi_connecting | wifi_connected

fun connection_bits :: "wifi_connection_state_e \<Rightarrow> u32" where
  "connection_bits wifi_initial = 0"
| "connection_bits wifi_disconnected = 0x02"
| "connection_bits wifi_connecting = 0x04"
| "connection_bits wifi_connected = 0x08"

abbreviation WIFI_PENDING_STATE :: u32 where "WIFI_PENDING_STATE \<equiv> 0x01"
abbreviation WIFI_IP_ACQUIRED :: u32 where "WIFI_IP_ACQUIRED \<equiv> 0x10"
abbreviation WIFI_IPV4_ACQUIRED :: u32 where "WIFI_IPV4_ACQUIRED \<equiv> 0x20"
abbreviation WIFI_IPV6_ACQUIRED :: u32 where "WIFI_IPV6_ACQUIRED \<equiv> 0x40"
abbreviation WIFI_IP_RELEASED :: u32 where "WIFI_IP_RELEASED \<equiv> 0x80"

datatype wifi_ip_acquired_state_e =
    wifi_ip_not_acquired | wifi_ip_acquired | wifi_ip_v4_acquired | wifi_ip_v6_acquired | wifi_ip_released

fun ip_bits :: "wifi_ip_acquired_state_e \<Rightarrow> u32" where
  "ip_bits wifi_ip_not_acquired = 0"
| "ip_bits wifi_ip_acquired = WIFI_IP_ACQUIRED"
| "ip_bits wifi_ip_v4_acquired = WIFI_IP_ACQUIRED OR WIFI_IPV4_ACQUIRED"
| "ip_bits wifi_ip_v6_acquired = WIFI_IP_ACQUIRED OR WIFI_IPV6_ACQUIRED"
| "ip_bits wifi_ip_released = WIFI_IP_RELEASED"

datatype wifi_call =
    Sl_Start | Sl_Stop u8 | Sl_DevGet | Sl_WlanPolicySet | Sl_WlanDisconnect | Sl_NetCfgSet
  | Sl_WlanSet | Sl_MDNSUnregister | Sl_RxFilterSet | Sl_WlanSetMode | Sl_NetAppStop
  | Sl_WlanConnect string string
  | Connectivity_off | Connectivity_on | Suspend_mediator | Resume_mediator
  | Msg string

record wifi_state =
  connection :: wifi_connection_state_e
  ip :: wifi_ip_acquired_state_e
  notified :: "u32 option"
  calls :: "wifi_call list"

definition wifi_boot :: wifi_state where
  "wifi_boot = \<lparr>connection = wifi_initial, ip = wifi_ip_not_acquired, notified = None, calls = []\<rparr>"

definition network_is_connected :: "wifi_state \<Rightarrow> bool" where
  "network_is_connected s \<longleftrightarrow> connection s = wifi_connected"

text \<open>\<open>xTaskNotify(wifi_task_handle, bits, eSetBits)\<close>.\<close>

definition xTaskNotify :: "u32 \<Rightarrow> wifi_state \<Rightarrow> wifi_state" where
  "xTaskNotify bits s =
     s\<lparr>notified := Some ((case notified s of None \<Rightarrow> 0 | Some v \<Rightarrow> v) OR bits)\<rparr>"

definition emit :: "wifi_call list \<Rightarrow> wifi_state \<Rightarrow> wifi_state" where
  "emit cs s = s\<lparr>calls := calls s @ cs\<rparr>"

subsection \<open>The event handlers\<close>

datatype wlan_event =
    SL_WLAN_CONNECT_EVENT | SL_WLAN_DISCONNECT_EVENT u8
  | SL_WLAN_SMART_CONFIG_COMPLETE_EVENT | SL_WLAN_SMART_CONFIG_STOP_EVENT
  | SL_WLAN_STA_CONNECTED_EVENT | SL_WLAN_STA_DISCONNECTED_EVENT
  | SL_WLAN_P2P_DEV_FOUND_EVENT | SL_WLAN_P2P_NEG_REQ_RECEIVED_EVENT
  | SL_WLAN_CONNECTION_FAILED_EVENT | SL_WLAN_OTHER_EVENT

fun wlan_connection :: "wlan_event \<Rightarrow> wifi_connection_state_e option" where
  "wlan_connection SL_WLAN_CONNECT_EVENT = Some wifi_connected"
| "wlan_connection (SL_WLAN_DISCONNECT_EVENT reason) = Some wifi_disconnected"
| "wlan_connection SL_WLAN_CONNECTION_FAILED_EVENT = Some wifi_disconnected"
| "wlan_connection _ = None"

text \<open>\<open>None\<close> is the NULL event.\<close>

definition CC3100_WlanEvtHdlr :: "wlan_event option \<Rightarrow> wifi_state \<Rightarrow> wifi_state" where
  "CC3100_WlanEvtHdlr pSlWlanEvent s =
     (case pSlWlanEvent of
        None \<Rightarrow> s
      | Some e \<Rightarrow>
          (let s1 = (case wlan_connection e of None \<Rightarrow> s | Some c \<Rightarrow> s\<lparr>connection := c\<rparr>)
           in xTaskNotify (connection_bits (connection s1) OR WIFI_PENDING_STATE) s1))"

datatype netapp_event =
    SL_NETAPP_IPV4_IPACQUIRED_EVENT | SL_NETAPP_IPV6_IPACQUIRED_EVENT
  | SL_NETAPP_IP_LEASED_EVENT | SL_NETAPP_IP_RELEASED_EVENT | SL_NETAPP_OTHER_EVENT

fun netapp_ip :: "netapp_event \<Rightarrow> wifi_ip_acquired_state_e option" where
  "netapp_ip SL_NETAPP_IPV4_IPACQUIRED_EVENT = Some wifi_ip_v4_acquired"
| "netapp_ip SL_NETAPP_IPV6_IPACQUIRED_EVENT = Some wifi_ip_v6_acquired"
| "netapp_ip SL_NETAPP_IP_RELEASED_EVENT = Some wifi_ip_released"
| "netapp_ip _ = None"

definition CC3100_NetAppEvtHdlr :: "netapp_event \<Rightarrow> wifi_state \<Rightarrow> wifi_state" where
  "CC3100_NetAppEvtHdlr e s =
     (let s1 = (case netapp_ip e of None \<Rightarrow> s | Some a \<Rightarrow> s\<lparr>ip := a\<rparr>)
      in xTaskNotify (ip_bits (ip s1) OR WIFI_PENDING_STATE) s1)"

subsection \<open>The task\<close>

text \<open>From the \<open>restart\<close> label to the loop; \<open>role_sta\<close>: the second start comes up as a station.\<close>

definition wifi_startup :: "bool \<Rightarrow> wifi_state \<Rightarrow> wifi_state" where
  "wifi_startup role_sta s =
     (let s1 = emit ([Sl_Start, Sl_DevGet, Sl_WlanPolicySet, Sl_WlanDisconnect, Sl_NetCfgSet,
                Sl_WlanPolicySet, Sl_WlanSet, Sl_WlanPolicySet, Sl_MDNSUnregister, Sl_RxFilterSet,
                Sl_WlanSetMode, Sl_Stop 0, Sl_Start]
                @ (if role_sta then [Sl_NetAppStop, Sl_NetAppStop] else []) @ [Sl_WlanPolicySet])
                (s\<lparr>connection := wifi_disconnected\<rparr>);
          s2 = s1\<lparr>connection := wifi_connecting\<rparr>
      in xTaskNotify (connection_bits wifi_connecting OR WIFI_PENDING_STATE) s2)"

text \<open>
  One iteration of the loop. \<open>connect_result\<close> is the return value of \<open>sl_WlanConnect\<close>; the
  result says whether the loop goes on. The lengths of the key and the SSID are taken with
  \<open>strlen\<close>, which reads past a buffer that has no terminator.
\<close>

definition wifi_connect :: "config \<Rightarrow> fault + string \<times> string" where
  "wifi_connect c =
     (case (strlen (config_get Wifi_key c), strlen (config_get Wifi_ssid c)) of
        (Some klen, Some slen) \<Rightarrow>
          Inr (take slen (config_get Wifi_ssid c), take klen (config_get Wifi_key c))
      | _ \<Rightarrow> Inl Out_of_bounds)"

definition wifi_on_disconnected :: "wifi_state \<Rightarrow> wifi_state" where
  "wifi_on_disconnected s =
     xTaskNotify (connection_bits wifi_connecting OR WIFI_PENDING_STATE)
       ((emit [Connectivity_off, Suspend_mediator, Msg ''Wifi Disconnected''] s)
          \<lparr>connection := wifi_connecting\<rparr>)"

definition wifi_on_ip :: "u32 \<Rightarrow> wifi_state \<Rightarrow> wifi_state" where
  "wifi_on_ip v s =
     emit ((if v AND ip_bits wifi_ip_v4_acquired \<noteq> 0 then [Msg ''IPv4 Acquired''] else [])
       @ (if v AND ip_bits wifi_ip_v6_acquired \<noteq> 0 then [Msg ''IPv6 Acquired''] else [])
       @ (if v AND (ip_bits wifi_ip_v4_acquired OR ip_bits wifi_ip_v6_acquired) \<noteq> 0
          then [Resume_mediator, Connectivity_on] else [])
       @ (if v AND ip_bits wifi_ip_released \<noteq> 0 then [Msg ''IP Released''] else [])) s"

definition wifi_on_link :: "u32 \<Rightarrow> wifi_state \<Rightarrow> wifi_state" where
  "wifi_on_link v s =
     (let s1 = emit [Msg ''Event''] (s\<lparr>notified := None\<rparr>);
          s2 = (if v AND connection_bits wifi_connected \<noteq> 0 then emit [Msg ''Wifi Connected''] s1 else s1)
      in if v AND connection_bits wifi_disconnected \<noteq> 0 then wifi_on_disconnected s2 else s2)"

definition wifi_iteration :: "config \<Rightarrow> int \<Rightarrow> wifi_state \<Rightarrow> fault + bool \<times> wifi_state" where
  "wifi_iteration c connect_result s =
     (case notified s of
        None \<Rightarrow> Inr (True, emit [Msg ''No event''] s)
      | Some v \<Rightarrow>
          (let s1 = wifi_on_link v s
           in if v AND connection_bits wifi_connecting \<noteq> 0 then
                (case wifi_connect c of
                   Inl e \<Rightarrow> Inl e
                 | Inr (ssid, key) \<Rightarrow>
                     (let s2 = emit [Sl_WlanConnect ssid key] s1
                      in if connect_result \<noteq> 0 then Inr (False, s2) else Inr (True, wifi_on_ip v s2)))
              else Inr (True, wifi_on_ip v s1)))"

text \<open>The task: an iteration, and the way back to \<open>restart\<close> when the loop is left.\<close>

definition wifi_task_step :: "config \<Rightarrow> int \<Rightarrow> bool \<Rightarrow> wifi_state \<Rightarrow> fault + wifi_state" where
  "wifi_task_step c connect_result role_sta s =
     (case wifi_iteration c connect_result s of
        Inl e \<Rightarrow> Inl e
      | Inr (True, s') \<Rightarrow> Inr s'
      | Inr (False, s') \<Rightarrow> Inr (wifi_startup role_sta (emit [Sl_Stop 0xFF] s')))"

datatype wifi_op =
    Wlan_event "wlan_event option" | Netapp_event netapp_event | Task_iteration int bool

definition wifi_step :: "config \<Rightarrow> wifi_state \<Rightarrow> wifi_op \<Rightarrow> wifi_state" where
  "wifi_step c s op =
     (case op of
        Wlan_event e \<Rightarrow> CC3100_WlanEvtHdlr e s
      | Netapp_event e \<Rightarrow> CC3100_NetAppEvtHdlr e s
      | Task_iteration r role \<Rightarrow> (case wifi_task_step c r role s of Inl e \<Rightarrow> s | Inr s' \<Rightarrow> s'))"

subsection \<open>Correctness\<close>

text \<open>
  The invariant: after start-up the connection state is never the initial one, the pending
  value has only the bits of the states, and in the log the mediator is suspended right
  after "off" and resumed right before "on", so what the network tasks see is what was
  announced last.
\<close>

fun mediated :: "bool \<Rightarrow> wifi_call list \<Rightarrow> bool option" where
  "mediated on [] = Some on"
| "mediated on [c] =
     (if c \<in> {Connectivity_off, Connectivity_on, Suspend_mediator, Resume_mediator} then None else Some on)"
| "mediated on (c # d # cs) =
     (if c = Connectivity_off then if d = Suspend_mediator then mediated False cs else None
      else if c = Resume_mediator then if d = Connectivity_on then mediated True cs else None
      else if c \<in> {Connectivity_on, Suspend_mediator} then None
      else mediated on (d # cs))"

definition wifi_inv :: "wifi_state \<Rightarrow> bool" where
  "wifi_inv s \<longleftrightarrow> connection s \<noteq> wifi_initial \<and> mediated False (calls s) \<noteq> None
     \<and> (case notified s of None \<Rightarrow> True | Some v \<Rightarrow> v AND NOT 0xFF = 0)"

lemma mediated_other:
  "c \<notin> {Connectivity_off, Connectivity_on, Suspend_mediator, Resume_mediator} \<Longrightarrow>
     mediated on (c # cs) = mediated on cs"
  by (cases cs) auto

lemma mediated_append:
  "mediated on cs = Some b \<Longrightarrow> mediated on (cs @ ds) = mediated b ds"
  by (induction on cs rule: mediated.induct) (auto simp: mediated_other split: if_splits)

lemma bits_small: "connection_bits c AND NOT 0xFF = 0" "ip_bits i AND NOT 0xFF = 0"
  by (cases c; simp) (cases i; simp)

lemma notify_inv:
  assumes "wifi_inv s" and "bits AND NOT 0xFF = 0"
  shows "wifi_inv (xTaskNotify bits s)"
  using assms
  by (auto simp: wifi_inv_def xTaskNotify_def bit.conj_disj_distrib2 split: option.splits)

lemma emit_inv:
  assumes "wifi_inv s" and "\<And>b. mediated b cs \<noteq> None"
  shows "wifi_inv (emit cs s)"
proof -
  from assms(1) obtain b where "mediated False (calls s) = Some b" by (auto simp: wifi_inv_def)
  with assms mediated_append [OF this, of cs] show ?thesis by (simp add: wifi_inv_def emit_def)
qed

lemma or_pending_small: "b AND NOT 0xFF = 0 \<Longrightarrow> (b OR WIFI_PENDING_STATE) AND NOT 0xFF = 0"
  by (simp add: bit.conj_disj_distrib2)

lemma conn_inv_wifi: "wifi_inv s \<Longrightarrow> c \<noteq> wifi_initial \<Longrightarrow> wifi_inv (s\<lparr>connection := c\<rparr>)"
  by (simp add: wifi_inv_def)

lemma on_disconnected_inv: "wifi_inv s \<Longrightarrow> wifi_inv (wifi_on_disconnected s)"
  unfolding wifi_on_disconnected_def
  by (intro notify_inv conn_inv_wifi emit_inv or_pending_small bits_small) auto

lemma on_ip_inv: "wifi_inv s \<Longrightarrow> wifi_inv (wifi_on_ip v s)"
  unfolding wifi_on_ip_def by (rule emit_inv) auto

lemma startup_inv: "wifi_inv s \<or> (s = wifi_boot) \<Longrightarrow> wifi_inv (wifi_startup role s)"
proof -
  assume "wifi_inv s \<or> (s = wifi_boot)"
  then have "wifi_inv (s\<lparr>connection := wifi_disconnected\<rparr>)"
    by (auto simp: wifi_boot_def wifi_inv_def)
  then have "wifi_inv (emit cs (s\<lparr>connection := wifi_disconnected\<rparr>))" if "\<And>b. mediated b cs \<noteq> None" for cs
    using that by (rule emit_inv)
  then show ?thesis
    unfolding wifi_startup_def Let_def
    by (intro notify_inv conn_inv_wifi or_pending_small bits_small) auto
qed

lemma on_link_inv: "wifi_inv s \<Longrightarrow> wifi_inv (wifi_on_link v s)"
proof -
  assume "wifi_inv s"
  then have "wifi_inv (s\<lparr>notified := None\<rparr>)" by (simp add: wifi_inv_def)
  then have "wifi_inv (emit [Msg ''Event''] (s\<lparr>notified := None\<rparr>))" by (rule emit_inv) simp
  then show ?thesis
    unfolding wifi_on_link_def Let_def by (auto intro!: on_disconnected_inv emit_inv)
qed

lemma iteration_inv:
  assumes "wifi_inv s" and "wifi_iteration c r s = Inr (go, s')"
  shows "wifi_inv s'"
proof (cases "notified s")
  case None
  with assms emit_inv [OF assms(1), of "[Msg ''No event'']"] show ?thesis
    by (simp add: wifi_iteration_def)
next
  case (Some v)
  have i4: "wifi_inv (emit [Sl_WlanConnect a b] (wifi_on_link v s))" for a b
    by (rule emit_inv [OF on_link_inv [OF assms(1)]]) simp
  with assms Some on_ip_inv on_link_inv show ?thesis
    by (auto simp: wifi_iteration_def Let_def split: if_splits sum.splits)
qed

lemma wifi_step_inv: "wifi_inv s \<Longrightarrow> wifi_inv (wifi_step c s op)"
proof (cases op)
  case (Wlan_event e)
  assume i: "wifi_inv s"
  show ?thesis
  proof (cases e)
    case (Some ev)
    have "wlan_connection ev \<noteq> Some wifi_initial" by (cases ev) auto
    with i have "wifi_inv (case wlan_connection ev of None \<Rightarrow> s | Some c \<Rightarrow> s\<lparr>connection := c\<rparr>)"
      by (auto intro: conn_inv_wifi split: option.splits)
    from notify_inv [OF this or_pending_small [OF bits_small(1)]] Wlan_event Some show ?thesis
      by (simp add: wifi_step_def CC3100_WlanEvtHdlr_def Let_def)
  qed (use i Wlan_event in \<open>simp add: wifi_step_def CC3100_WlanEvtHdlr_def\<close>)
next
  case (Netapp_event e)
  assume i: "wifi_inv s"
  then have "wifi_inv (case netapp_ip e of None \<Rightarrow> s | Some a \<Rightarrow> s\<lparr>ip := a\<rparr>)"
    by (simp add: wifi_inv_def split: option.splits)
  from notify_inv [OF this or_pending_small [OF bits_small(2)]] Netapp_event show ?thesis
    by (simp add: wifi_step_def CC3100_NetAppEvtHdlr_def Let_def)
next
  case (Task_iteration r role)
  assume i: "wifi_inv s"
  have "wifi_inv s'" if "wifi_task_step c r role s = Inr s'" for s'
  proof -
    from that obtain go t where t: "wifi_iteration c r s = Inr (go, t)"
      "s' = (if go then t else wifi_startup role (emit [Sl_Stop 0xFF] t))"
      by (auto simp: wifi_task_step_def split: sum.splits prod.splits bool.splits)
    from iteration_inv [OF i t(1)] have "wifi_inv t" "wifi_inv (emit [Sl_Stop 0xFF] t)"
      by (auto intro: emit_inv)
    with t(2) show ?thesis by (simp add: startup_inv)
  qed
  with i Task_iteration show ?thesis by (simp add: wifi_step_def split: sum.splits)
qed

interpretation wifi_run: invariant_machine "wifi_step c" wifi_inv for c
  by unfold_locales (rule wifi_step_inv)

lemma take_cstr: "take (length (cstr b)) b = cstr b"
  by (induction b) (auto simp: cstr_def)

lemma wifi_connect_eq:
  "wifi_connect c =
     (if NUL \<in> set (c Wifi_key) \<and> NUL \<in> set (c Wifi_ssid)
      then Inr (cstr (c Wifi_ssid), cstr (c Wifi_key)) else Inl Out_of_bounds)"
  by (auto simp: wifi_connect_def strlen_def config_get_def take_cstr)

text \<open>Everything but the state variables grows the log; what an iteration adds is behind the old log.\<close>

lemma calls_on_link: "\<exists>d. calls (wifi_on_link v s) = calls s @ d
     \<and> (v AND connection_bits wifi_disconnected \<noteq> 0 \<longrightarrow> {Connectivity_off, Suspend_mediator} \<subseteq> set d)"
  by (auto simp: wifi_on_link_def wifi_on_disconnected_def emit_def xTaskNotify_def Let_def)

lemma calls_on_ip: "\<exists>d. calls (wifi_on_ip v s) = calls s @ d
     \<and> (v AND (ip_bits wifi_ip_v4_acquired OR ip_bits wifi_ip_v6_acquired) \<noteq> 0 \<longrightarrow>
          {Resume_mediator, Connectivity_on} \<subseteq> set d)"
  by (simp add: wifi_on_ip_def emit_def)

lemma calls_startup: "\<exists>d. calls (wifi_startup role s) = calls s @ d"
  by (simp add: wifi_startup_def emit_def xTaskNotify_def Let_def)

lemma calls_emit [simp]: "calls (emit cs s) = calls s @ cs"
  by (simp add: emit_def)

lemma connection_emit [simp]: "connection (emit cs s) = connection s" "notified (emit cs s) = notified s"
  by (simp_all add: emit_def)

lemma on_ip_frame [simp]: "connection (wifi_on_ip v s) = connection s" "notified (wifi_on_ip v s) = notified s"
  by (simp_all add: wifi_on_ip_def)

lemma or_connecting: "4 AND (x OR 5) \<noteq> 0" for x :: u32
proof
  assume "4 AND (x OR 5) = 0"
  then have "\<not> bit (4 AND (x OR 5)) 2" by simp
  moreover have "bit (4 :: u32) 2" "bit (5 :: u32) 2" by (simp_all add: bit_numeral_rec)
  ultimately show False by (simp add: bit_and_iff bit_or_iff)
qed

lemma on_disconnected_connecting:
  "connection (wifi_on_disconnected s) = wifi_connecting
   \<and> (\<exists>w. notified (wifi_on_disconnected s) = Some w \<and> w AND connection_bits wifi_connecting \<noteq> 0)"
  using or_connecting by (simp add: wifi_on_disconnected_def xTaskNotify_def and.commute)

lemma startup_connecting:
  "connection (wifi_startup role s) = wifi_connecting
   \<and> (\<exists>w. notified (wifi_startup role s) = Some w \<and> w AND connection_bits wifi_connecting \<noteq> 0)"
  using or_connecting by (simp add: wifi_startup_def xTaskNotify_def Let_def and.commute)

text \<open>
  Over every run of events and iterations the connection state is never back at its
  initial value, no foreign bits are pending, and the network tasks' mediator is suspended
  right after connectivity is announced off and resumed right before it is announced on.
\<close>

theorem wifi_runs_keep_invariant:
  fixes c role and ops :: "wifi_op list"
  defines "s \<equiv> foldl (wifi_step c) (wifi_startup role wifi_boot) ops"
  shows "connection s \<noteq> wifi_initial \<and> mediated False (calls s) \<noteq> None
     \<and> (case notified s of None \<Rightarrow> True | Some v \<Rightarrow> v AND NOT 0xFF = 0)"
proof -
  have "wifi_inv (wifi_startup role wifi_boot)" by (rule startup_inv) simp
  from wifi_run.run_inv [OF this, of c ops] show ?thesis by (simp add: s_def wifi_inv_def)
qed

theorem wifi_runs_keep_invariant_witness:
  "connection (foldl (wifi_step config_init) (wifi_startup True wifi_boot)
     [Task_iteration 0 True, Wlan_event (Some SL_WLAN_CONNECT_EVENT), Task_iteration 0 True]) \<noteq> wifi_initial"
  using wifi_runs_keep_invariant by blast

text \<open>The iteration that sees a lost link, and the one that connects.\<close>

lemma task_step_disconnected:
  assumes "notified s = Some v"
    and "v AND connection_bits wifi_disconnected \<noteq> 0" and "v AND connection_bits wifi_connecting = 0"
  shows "\<exists>s1 w. wifi_task_step c r role s = Inr s1 \<and> connection s1 = wifi_connecting
       \<and> notified s1 = Some w \<and> w AND connection_bits wifi_connecting \<noteq> 0
       \<and> {Connectivity_off, Suspend_mediator} \<subseteq> set (drop (length (calls s)) (calls s1))"
proof -
  let ?s1 = "wifi_on_ip v (wifi_on_link v s)"
  have "wifi_task_step c r role s = Inr ?s1"
    using assms by (simp add: wifi_task_step_def wifi_iteration_def Let_def)
  moreover obtain d where "calls (wifi_on_link v s) = calls s @ d" "{Connectivity_off, Suspend_mediator} \<subseteq> set d"
    using calls_on_link [of v s] assms by blast
  moreover obtain e where "calls ?s1 = calls (wifi_on_link v s) @ e" using calls_on_ip by blast
  moreover obtain t where "wifi_on_link v s = wifi_on_disconnected t"
    using assms by (auto simp: wifi_on_link_def Let_def)
  with on_disconnected_connecting [of t] obtain w where "connection ?s1 = wifi_connecting"
    "notified ?s1 = Some w" "w AND connection_bits wifi_connecting \<noteq> 0" by auto
  ultimately show ?thesis
    by (intro exI [where x = ?s1] exI [where x = w]) auto
qed

lemma task_step_connecting:
  assumes "notified s = Some v" and "v AND connection_bits wifi_connecting \<noteq> 0"
  shows "if NUL \<in> set (c Wifi_key) \<and> NUL \<in> set (c Wifi_ssid)
     then \<exists>s1. wifi_task_step c r role s = Inr s1
       \<and> Sl_WlanConnect (cstr (c Wifi_ssid)) (cstr (c Wifi_key)) \<in> set (drop (length (calls s)) (calls s1))
       \<and> (r \<noteq> 0 \<longrightarrow> connection s1 = wifi_connecting
            \<and> (\<exists>w. notified s1 = Some w \<and> w AND connection_bits wifi_connecting \<noteq> 0))
     else wifi_task_step c r role s = Inl Out_of_bounds"
proof -
  let ?ok = "NUL \<in> set (c Wifi_key) \<and> NUL \<in> set (c Wifi_ssid)"
  let ?call = "Sl_WlanConnect (cstr (c Wifi_ssid)) (cstr (c Wifi_key))"
  let ?t = "emit [?call] (wifi_on_link v s)"
  let ?s1 = "if r \<noteq> 0 then wifi_startup role (emit [Sl_Stop 0xFF] ?t) else wifi_on_ip v ?t"
  define t where "t = ?s1"
  have "wifi_task_step c r role s = (if ?ok then Inr t else Inl Out_of_bounds)"
    using assms by (simp add: t_def wifi_task_step_def wifi_iteration_def Let_def wifi_connect_eq)
  moreover have "?call \<in> set (drop (length (calls s)) (calls t))"
  proof -
    obtain d where d: "calls ?t = calls s @ d @ [?call]" using calls_on_link [of v s] by auto
    obtain e1 where "calls (wifi_on_ip v ?t) = calls ?t @ e1" using calls_on_ip by blast
    moreover obtain e2 where "calls (wifi_startup role (emit [Sl_Stop 0xFF] ?t)) = calls (emit [Sl_Stop 0xFF] ?t) @ e2"
      using calls_startup by blast
    ultimately show ?thesis using d by (simp add: t_def)
  qed
  moreover have "r \<noteq> 0 \<longrightarrow> connection t = wifi_connecting
      \<and> (\<exists>w. notified t = Some w \<and> w AND connection_bits wifi_connecting \<noteq> 0)"
    using startup_connecting [of role "emit [Sl_Stop 0xFF] ?t"] by (auto simp: t_def)
  ultimately show ?thesis
    by (cases ?ok) simp_all
qed



text \<open>
  Connectivity can be announced without a link: the IP state survives a disconnect, and
  any network event that does not change it notifies it again, after which the next
  iteration resumes the network tasks although the link is down.
\<close>

theorem wifi_on_without_link:
  assumes "ip s \<in> {wifi_ip_v4_acquired, wifi_ip_v6_acquired}" and "connection s \<noteq> wifi_connected"
    and "notified s = None" and "netapp_ip e = None"
  shows "ip (CC3100_WlanEvtHdlr w s) = ip s
     \<and> (\<exists>s'. wifi_task_step c r role (CC3100_NetAppEvtHdlr e s) = Inr s'
          \<and> \<not> network_is_connected s'
          \<and> {Resume_mediator, Connectivity_on} \<subseteq> set (drop (length (calls s)) (calls s')))"
proof -
  have "ip (CC3100_WlanEvtHdlr w s) = ip s"
    by (simp add: CC3100_WlanEvtHdlr_def xTaskNotify_def Let_def split: option.splits)
  moreover have "\<exists>s'. wifi_task_step c r role (CC3100_NetAppEvtHdlr e s) = Inr s'
          \<and> \<not> network_is_connected s'
          \<and> {Resume_mediator, Connectivity_on} \<subseteq> set (drop (length (calls s)) (calls s'))"
  proof -
    let ?v = "ip_bits (ip s) OR WIFI_PENDING_STATE"
    have v: "?v AND connection_bits wifi_connected = 0" "?v AND connection_bits wifi_connecting = 0"
      "?v AND connection_bits wifi_disconnected = 0"
      "?v AND (ip_bits wifi_ip_v4_acquired OR ip_bits wifi_ip_v6_acquired) \<noteq> 0"
      using assms(1) by (elim insertE; simp)+
    define s1 where "s1 = CC3100_NetAppEvtHdlr e s"
    have s1: "s1 = s\<lparr>notified := Some ?v\<rparr>"
      using assms(3,4) by (simp add: s1_def CC3100_NetAppEvtHdlr_def xTaskNotify_def)
    let ?s2 = "emit [Msg ''Event''] s"
    have l: "wifi_on_link ?v s1 = ?s2"
      using v assms(3) by (simp only: wifi_on_link_def Let_def if_False simp_thms s1) (simp add: emit_def)
    have "wifi_task_step c r role s1 = Inr (wifi_on_ip ?v ?s2)"
      using v(2) l s1 by (simp add: wifi_task_step_def wifi_iteration_def)
    moreover obtain d where "calls (wifi_on_ip ?v ?s2) = calls ?s2 @ d" "{Resume_mediator, Connectivity_on} \<subseteq> set d"
      using calls_on_ip [of ?v ?s2] v(4) by blast
    ultimately show ?thesis using assms(2) by (simp add: network_is_connected_def s1_def)
  qed
  ultimately show ?thesis ..
qed

theorem wifi_on_without_link_witness:
  "\<exists>s'. wifi_task_step config_init 0 True (CC3100_NetAppEvtHdlr SL_NETAPP_IP_LEASED_EVENT
          \<lparr>connection = wifi_disconnected, ip = wifi_ip_v4_acquired, notified = None, calls = []\<rparr>) = Inr s'
     \<and> \<not> network_is_connected s' \<and> Connectivity_on \<in> set (calls s')"
  using wifi_on_without_link [where c = config_init and r = 0 and role = True and e = SL_NETAPP_IP_LEASED_EVENT
      and s = "\<lparr>connection = wifi_disconnected, ip = wifi_ip_v4_acquired, notified = None, calls = []\<rparr>"]
  by auto

text \<open>
  Events that arrive between two iterations are merged, so a link that went down and came
  up again before the task ran is taken for lost: the task overwrites the connected state,
  announces connectivity off and asks for another connect.
\<close>

theorem wifi_reconnect_forgotten:
  fixes s and reason
  assumes "notified s = None"
  defines "s1 \<equiv> CC3100_WlanEvtHdlr (Some SL_WLAN_CONNECT_EVENT)
              (CC3100_WlanEvtHdlr (Some (SL_WLAN_DISCONNECT_EVENT reason)) s)"
  shows "network_is_connected s1
     \<and> (\<exists>s2. wifi_task_step c r role s1 = Inr s2 \<and> connection s2 = wifi_connecting
          \<and> Connectivity_off \<in> set (drop (length (calls s)) (calls s2)))"
  using assms(1)
  by (auto simp: s1_def CC3100_WlanEvtHdlr_def xTaskNotify_def wifi_task_step_def wifi_iteration_def
      wifi_on_link_def wifi_on_disconnected_def wifi_on_ip_def network_is_connected_def emit_def Let_def)

theorem wifi_reconnect_forgotten_witness:
  "network_is_connected (CC3100_WlanEvtHdlr (Some SL_WLAN_CONNECT_EVENT)
     (CC3100_WlanEvtHdlr (Some (SL_WLAN_DISCONNECT_EVENT 1)) wifi_boot))"
proof -
  have "notified wifi_boot = None" by (simp add: wifi_boot_def)
  from wifi_reconnect_forgotten [OF this] show ?thesis by blast
qed

end
