(* ===== verification/Timing.thy ===== *)
theory Timing
  imports Prelude
begin

text \<open>
  The DTLS retransmission timers of the TLS layer (\<open>csrc/src/mbedtls_adapter/timing.c\<close>):
  two one-shot FreeRTOS timers and the state their callback sets.

  A timer is its period and the tick it expires at, if it runs; changing the period starts
  it (and asserts that the period is not 0), as FreeRTOS documents. Time passes in single
  ticks, at which expired timers call back; of two that expire together the one started
  first calls first.
\<close>

record ftimer =
  period :: nat
  expires :: "nat option"

record timing_delay =
  delay_state :: int
  int_timer :: ftimer
  fin_timer :: ftimer

abbreviation timer_cancelled :: int where "timer_cancelled \<equiv> -1"
abbreviation timer_normal :: int where "timer_normal \<equiv> 0"
abbreviation timer_intermediate_passed :: int where "timer_intermediate_passed \<equiv> 1"
abbreviation timer_final_delay_passed :: int where "timer_final_delay_passed \<equiv> 2"

definition miso_mbedtls_init_timer :: "int \<Rightarrow> timing_delay" where
  "miso_mbedtls_init_timer state = \<lparr>delay_state = state, int_timer = \<lparr>period = 1000, expires = None\<rparr>,
     fin_timer = \<lparr>period = 1000, expires = None\<rparr>\<rparr>"

definition xTimerStop :: "ftimer \<Rightarrow> ftimer" where
  "xTimerStop t = t\<lparr>expires := None\<rparr>"

definition xTimerIsTimerActive :: "ftimer \<Rightarrow> bool" where
  "xTimerIsTimerActive t \<longleftrightarrow> expires t \<noteq> None"

text \<open>\<open>None\<close>: the assertion on the period fails.\<close>

definition xTimerChangePeriod :: "nat \<Rightarrow> nat \<Rightarrow> ftimer \<Rightarrow> ftimer option" where
  "xTimerChangePeriod now p t = (if p = 0 then None else Some \<lparr>period = p, expires = Some (now + p)\<rparr>)"

datatype which_timer = Int_timer | Fin_timer | Other_timer

fun timer_callback :: "which_timer \<Rightarrow> timing_delay \<Rightarrow> timing_delay" where
  "timer_callback Int_timer d = d\<lparr>delay_state := timer_intermediate_passed\<rparr>"
| "timer_callback Fin_timer d = d\<lparr>delay_state := timer_final_delay_passed\<rparr>"
| "timer_callback Other_timer d = d\<lparr>delay_state := timer_cancelled\<rparr>"

definition miso_mbedtls_timing_set_delay :: "nat \<Rightarrow> u32 \<Rightarrow> u32 \<Rightarrow> timing_delay \<Rightarrow> timing_delay option" where
  "miso_mbedtls_timing_set_delay now int_ms fin_ms d =
     (let d1 = (if xTimerIsTimerActive (int_timer d) then d\<lparr>int_timer := xTimerStop (int_timer d)\<rparr> else d);
          d2 = (if xTimerIsTimerActive (fin_timer d1) then d1\<lparr>fin_timer := xTimerStop (fin_timer d1)\<rparr> else d1)
      in case (if int_ms > 0 then map_option (\<lambda>t. d2\<lparr>int_timer := t\<rparr>)
                    (xTimerChangePeriod now (unat int_ms) (int_timer d2)) else Some d2) of
           None \<Rightarrow> None
         | Some d3 \<Rightarrow>
             (case (if fin_ms > 0 then map_option (\<lambda>t. d3\<lparr>fin_timer := t\<rparr>)
                      (xTimerChangePeriod now (unat int_ms) (fin_timer d3)) else Some d3) of
                None \<Rightarrow> None
              | Some d4 \<Rightarrow>
                  Some (d4\<lparr>delay_state := (if fin_ms = 0 then timer_cancelled else timer_normal)\<rparr>)))"

definition miso_mbedtls_timing_get_delay :: "timing_delay \<Rightarrow> int" where
  "miso_mbedtls_timing_get_delay d = delay_state d"

text \<open>The tick to \<open>now\<close>: the intermediate timer is started first, so it calls back first.\<close>

definition timers_tick :: "nat \<Rightarrow> timing_delay \<Rightarrow> timing_delay" where
  "timers_tick now d =
     (let d1 = (if expires (int_timer d) = Some now
                then timer_callback Int_timer (d\<lparr>int_timer := xTimerStop (int_timer d)\<rparr>) else d)
      in if expires (fin_timer d1) = Some now
         then timer_callback Fin_timer (d1\<lparr>fin_timer := xTimerStop (fin_timer d1)\<rparr>) else d1)"

fun run_ticks :: "nat \<Rightarrow> nat \<Rightarrow> timing_delay \<Rightarrow> timing_delay" where
  "run_ticks now 0 d = d"
| "run_ticks now (Suc n) d = timers_tick (now + Suc n) (run_ticks now n d)"

text \<open>
  The contract of the callbacks in mbedtls: -1 when cancelled, 0 before the intermediate
  delay, 1 between the two, 2 after the final delay.
\<close>

definition expected_delay :: "nat \<Rightarrow> nat \<Rightarrow> nat \<Rightarrow> int" where
  "expected_delay int_ms fin_ms elapsed =
     (if fin_ms = 0 then timer_cancelled
      else if elapsed < int_ms then timer_normal
      else if elapsed < fin_ms then timer_intermediate_passed
      else timer_final_delay_passed)"

subsection \<open>Correctness\<close>

lemma set_delay_both:
  assumes "0 < int_ms" and "0 < fin_ms"
  shows "miso_mbedtls_timing_set_delay now int_ms fin_ms d =
    Some \<lparr>delay_state = timer_normal,
      int_timer = \<lparr>period = unat int_ms, expires = Some (now + unat int_ms)\<rparr>,
      fin_timer = \<lparr>period = unat int_ms, expires = Some (now + unat int_ms)\<rparr>\<rparr>"
proof -
  from assms(1) have "unat int_ms \<noteq> 0" by (metis unat_eq_zero word_neq_0_conv)
  with assms show ?thesis
    by (cases d) (simp add: miso_mbedtls_timing_set_delay_def xTimerChangePeriod_def Let_def)
qed

lemma run_ticks_both:
  "0 < p \<Longrightarrow> run_ticks now n \<lparr>delay_state = s, int_timer = \<lparr>period = q, expires = Some (now + p)\<rparr>,
      fin_timer = \<lparr>period = r, expires = Some (now + p)\<rparr>\<rparr> =
    (if n < p then \<lparr>delay_state = s, int_timer = \<lparr>period = q, expires = Some (now + p)\<rparr>,
      fin_timer = \<lparr>period = r, expires = Some (now + p)\<rparr>\<rparr>
     else \<lparr>delay_state = timer_final_delay_passed, int_timer = \<lparr>period = q, expires = None\<rparr>,
      fin_timer = \<lparr>period = r, expires = None\<rparr>\<rparr>)"
  by (induction n) (auto simp: timers_tick_def xTimerStop_def Let_def)

lemma run_ticks_idle:
  "expires (int_timer d) = None \<Longrightarrow> expires (fin_timer d) = None \<Longrightarrow> run_ticks now n d = d"
  by (induction n) (simp_all add: timers_tick_def Let_def)

text \<open>
  C37: the final timer runs for the intermediate delay: after a delay with
  \<open>0 < int_ms \<le> fin_ms\<close> is set, the state agrees with the contract until the intermediate
  delay and from the final one on, but in between it reports the final delay as passed,
  never the intermediate one; with no intermediate delay the timer is given a period of 0,
  which FreeRTOS refuses; a cancelled pair stays cancelled.
\<close>

theorem final_delay_too_early:
  assumes "0 < int_ms" and "int_ms \<le> fin_ms"
  shows "(\<exists>d'. miso_mbedtls_timing_set_delay now int_ms fin_ms d = Some d'
            \<and> (\<forall>n. miso_mbedtls_timing_get_delay (run_ticks now n d') =
                 (if n < unat int_ms \<or> unat fin_ms \<le> n
                  then expected_delay (unat int_ms) (unat fin_ms) n else timer_final_delay_passed)))
     \<and> miso_mbedtls_timing_set_delay now 0 fin_ms d = None
     \<and> (\<exists>d'. miso_mbedtls_timing_set_delay now 0 0 d = Some d'
          \<and> (\<forall>n. miso_mbedtls_timing_get_delay (run_ticks now n d') = timer_cancelled))"
proof (intro conjI)
  have f: "0 < fin_ms" using assms by simp
  have u: "0 < unat int_ms" "unat int_ms \<le> unat fin_ms"
    using assms by (simp_all add: word_le_nat_alt unat_gt_0 word_neq_0_conv)
  from set_delay_both [OF assms(1) f] u
  show "\<exists>d'. miso_mbedtls_timing_set_delay now int_ms fin_ms d = Some d'
            \<and> (\<forall>n. miso_mbedtls_timing_get_delay (run_ticks now n d') =
                 (if n < unat int_ms \<or> unat fin_ms \<le> n
                  then expected_delay (unat int_ms) (unat fin_ms) n else timer_final_delay_passed))"
    by (simp add: run_ticks_both miso_mbedtls_timing_get_delay_def expected_delay_def)
  show "miso_mbedtls_timing_set_delay now 0 fin_ms d = None"
    using f by (simp add: miso_mbedtls_timing_set_delay_def xTimerChangePeriod_def Let_def)
  show "\<exists>d'. miso_mbedtls_timing_set_delay now 0 0 d = Some d'
          \<and> (\<forall>n. miso_mbedtls_timing_get_delay (run_ticks now n d') = timer_cancelled)"
    by (auto simp: miso_mbedtls_timing_set_delay_def Let_def run_ticks_idle
        miso_mbedtls_timing_get_delay_def xTimerStop_def xTimerIsTimerActive_def)
qed

theorem final_delay_too_early_witness:
  "\<exists>d'. miso_mbedtls_timing_set_delay 0 1000 4000 (miso_mbedtls_init_timer 0) = Some d'
     \<and> miso_mbedtls_timing_get_delay (run_ticks 0 1000 d') = timer_final_delay_passed
     \<and> expected_delay 1000 4000 1000 = timer_intermediate_passed"
proof -
  have "(0 :: u32) < 1000" "(1000 :: u32) \<le> 4000" by simp_all
  from final_delay_too_early [OF this, of 0 "miso_mbedtls_init_timer 0"] show ?thesis
    by (auto simp: expected_delay_def dest!: spec [where x = 1000])
qed

end
