(* ===== verification/Mutexes.thy ===== *)
theory Mutexes
  imports Prelude
begin

text \<open>
  The two mutex layers over FreeRTOS: the ones FatFs locks its volumes with
  (\<open>csrc/system/ff15/custom/ffsystem.c\<close>, \<open>OS_TYPE\<close> 3) and the ones mbedtls uses
  (\<open>csrc/src/mbedtls_adapter/treading.c\<close>), and what they promise in common.

  FreeRTOS is a library: a mutex is a handle that is free or held by a task; taking a free
  one gets it, taking a held one waits, giving is the holder's. A take that waits at most
  \<open>FF_FS_TIMEOUT\<close> fails when the mutex is held all that time; one that waits for ever has
  not returned (\<open>None\<close>).
\<close>

type_synonym sems = "nat \<Rightarrow> nat option option"

definition xSemaphoreCreateMutex :: "nat option \<Rightarrow> sems \<Rightarrow> nat option \<times> sems" where
  "xSemaphoreCreateMutex alloc S = (case alloc of None \<Rightarrow> (None, S) | Some h \<Rightarrow> (Some h, S(h \<mapsto> None)))"

definition xSemaphoreTake :: "nat \<Rightarrow> nat \<Rightarrow> sems \<Rightarrow> bool \<times> sems" where
  "xSemaphoreTake task h S = (if S h = Some None then (True, S(h \<mapsto> Some task)) else (False, S))"

definition xSemaphoreGive :: "nat \<Rightarrow> nat \<Rightarrow> sems \<Rightarrow> bool \<times> sems" where
  "xSemaphoreGive task h S = (if S h = Some (Some task) then (True, S(h \<mapsto> None)) else (False, S))"

definition vSemaphoreDelete :: "nat \<Rightarrow> sems \<Rightarrow> sems" where
  "vSemaphoreDelete h S = S(h := None)"

subsection \<open>FatFs\<close>

text \<open>
  \<open>Mutex\<close> is the table of handles, one for each volume and the last for the system; a NULL
  handle makes FreeRTOS assert (\<open>None\<close>).
\<close>

record ff_mutexes =
  ff_Mutex :: "nat \<Rightarrow> nat option"
  ff_sems :: sems

definition ff_mutex_create :: "nat option \<Rightarrow> nat \<Rightarrow> ff_mutexes \<Rightarrow> int \<times> ff_mutexes" where
  "ff_mutex_create alloc vol st =
     (case xSemaphoreCreateMutex alloc (ff_sems st) of
        (h, S) \<Rightarrow> (if h \<noteq> None then 1 else 0, st\<lparr>ff_Mutex := (ff_Mutex st)(vol := h), ff_sems := S\<rparr>))"

definition ff_mutex_delete :: "nat \<Rightarrow> ff_mutexes \<Rightarrow> ff_mutexes option" where
  "ff_mutex_delete vol st =
     map_option (\<lambda>h. st\<lparr>ff_sems := vSemaphoreDelete h (ff_sems st)\<rparr>) (ff_Mutex st vol)"

definition ff_mutex_take :: "nat \<Rightarrow> nat \<Rightarrow> ff_mutexes \<Rightarrow> (int \<times> ff_mutexes) option" where
  "ff_mutex_take task vol st =
     map_option (\<lambda>h. case xSemaphoreTake task h (ff_sems st) of
         (ok, S) \<Rightarrow> (if ok then 1 else 0, st\<lparr>ff_sems := S\<rparr>)) (ff_Mutex st vol)"

definition ff_mutex_give :: "nat \<Rightarrow> nat \<Rightarrow> ff_mutexes \<Rightarrow> ff_mutexes option" where
  "ff_mutex_give task vol st =
     map_option (\<lambda>h. st\<lparr>ff_sems := snd (xSemaphoreGive task h (ff_sems st))\<rparr>) (ff_Mutex st vol)"

subsection \<open>mbedtls\<close>

record threading_mutex =
  tm_mutex :: "nat option"
  tm_is_valid :: bool
  tm_sems :: sems

abbreviation MBEDTLS_ERR_THREADING_BAD_INPUT_DATA :: int where
  "MBEDTLS_ERR_THREADING_BAD_INPUT_DATA \<equiv> -0x001C"

abbreviation MBEDTLS_ERR_THREADING_MUTEX_ERROR :: int where
  "MBEDTLS_ERR_THREADING_MUTEX_ERROR \<equiv> -0x001E"

text \<open>The argument is a pointer; \<open>None\<close> is NULL.\<close>

definition miso_mbedtls_mutex_init :: "nat option \<Rightarrow> threading_mutex option \<Rightarrow> threading_mutex option" where
  "miso_mbedtls_mutex_init alloc m =
     map_option (\<lambda>m. case xSemaphoreCreateMutex alloc (tm_sems m) of
         (h, S) \<Rightarrow> m\<lparr>tm_mutex := h, tm_is_valid := h \<noteq> None, tm_sems := S\<rparr>) m"

definition miso_mbedtls_mutex_free :: "threading_mutex option \<Rightarrow> threading_mutex option" where
  "miso_mbedtls_mutex_free m =
     map_option (\<lambda>m. if tm_is_valid m then
         m\<lparr>tm_sems := (case tm_mutex m of None \<Rightarrow> tm_sems m | Some h \<Rightarrow> vSemaphoreDelete h (tm_sems m)),
           tm_is_valid := False\<rparr> else m) m"

text \<open>Locking waits for ever: the result is \<open>None\<close> while another task holds the mutex.\<close>

definition miso_mbedtls_mutex_lock ::
    "nat \<Rightarrow> threading_mutex option \<Rightarrow> (int \<times> threading_mutex option) option" where
  "miso_mbedtls_mutex_lock task m =
     (case m of
        None \<Rightarrow> Some (MBEDTLS_ERR_THREADING_BAD_INPUT_DATA, m)
      | Some mutex \<Rightarrow>
          if tm_is_valid mutex then
            (case tm_mutex mutex of
               None \<Rightarrow> Some (MBEDTLS_ERR_THREADING_MUTEX_ERROR, m)
             | Some h \<Rightarrow>
                 (case xSemaphoreTake task h (tm_sems mutex) of
                    (True, S) \<Rightarrow> Some (0, Some (mutex\<lparr>tm_sems := S\<rparr>))
                  | (False, S) \<Rightarrow> None))
          else Some (MBEDTLS_ERR_THREADING_BAD_INPUT_DATA, m))"

definition miso_mbedtls_mutex_unlock ::
    "nat \<Rightarrow> threading_mutex option \<Rightarrow> int \<times> threading_mutex option" where
  "miso_mbedtls_mutex_unlock task m =
     (case m of
        None \<Rightarrow> (MBEDTLS_ERR_THREADING_BAD_INPUT_DATA, m)
      | Some mutex \<Rightarrow>
          if tm_is_valid mutex then
            (case tm_mutex mutex of
               None \<Rightarrow> (MBEDTLS_ERR_THREADING_MUTEX_ERROR, m)
             | Some h \<Rightarrow>
                 (case xSemaphoreGive task h (tm_sems mutex) of
                    (ok, S) \<Rightarrow> (if ok then 0 else MBEDTLS_ERR_THREADING_MUTEX_ERROR,
                                Some (mutex\<lparr>tm_sems := S\<rparr>))))
          else (MBEDTLS_ERR_THREADING_BAD_INPUT_DATA, m))"

subsection \<open>What both promise\<close>

text \<open>
  A lock attempt gets a free mutex and leaves a held one alone; the holder's unlock frees it.
\<close>

locale mutex_api =
  fixes attempt :: "nat \<Rightarrow> 's \<Rightarrow> bool \<times> 's"
    and release :: "nat \<Rightarrow> 's \<Rightarrow> 's"
    and holder :: "'s \<Rightarrow> nat option"
    and usable :: "'s \<Rightarrow> bool"
  assumes attempt_free: "usable s \<Longrightarrow> holder s = None \<Longrightarrow>
      fst (attempt t s) \<and> holder (snd (attempt t s)) = Some t \<and> usable (snd (attempt t s))"
    and attempt_held: "usable s \<Longrightarrow> holder s = Some u \<Longrightarrow> attempt t s = (False, s)"
    and release_holder: "usable s \<Longrightarrow> holder s = Some t \<Longrightarrow> holder (release t s) = None \<and> usable (release t s)"
begin

text \<open>Nobody gets in while a task is inside, whoever tries and however often.\<close>

lemma excluded:
  "usable s \<Longrightarrow> holder s = Some t \<Longrightarrow> foldl (\<lambda>s u. snd (attempt u s)) s us = s"
  by (induction us) (simp_all add: attempt_held)

lemma handover:
  assumes "usable s" and "holder s = None"
  shows "\<exists>s1. attempt t s = (True, s1) \<and> attempt u s1 = (False, s1)
     \<and> foldl (\<lambda>s u. snd (attempt u s)) s1 us = s1
     \<and> fst (attempt u (release t s1)) \<and> holder (snd (attempt u (release t s1))) = Some u"
proof -
  obtain ok s1 where a: "attempt t s = (ok, s1)" by fastforce
  with attempt_free [OF assms, of t] have s1: "ok" "holder s1 = Some t" "usable s1" by simp_all
  with release_holder [of s1 t] attempt_free [of "release t s1" u] a attempt_held [of s1 t u]
    excluded [of s1 t us]
  show ?thesis by simp
qed

end

definition ff_attempt :: "nat \<Rightarrow> nat \<Rightarrow> ff_mutexes \<Rightarrow> bool \<times> ff_mutexes" where
  "ff_attempt vol task st = (case ff_mutex_take task vol st of None \<Rightarrow> (False, st) | Some (r, st') \<Rightarrow> (r = 1, st'))"

definition ff_release :: "nat \<Rightarrow> nat \<Rightarrow> ff_mutexes \<Rightarrow> ff_mutexes" where
  "ff_release vol task st = (case ff_mutex_give task vol st of None \<Rightarrow> st | Some st' \<Rightarrow> st')"

definition ff_holder :: "nat \<Rightarrow> ff_mutexes \<Rightarrow> nat option" where
  "ff_holder vol st = (case ff_Mutex st vol of None \<Rightarrow> None | Some h \<Rightarrow> (case ff_sems st h of None \<Rightarrow> None | Some u \<Rightarrow> u))"

definition ff_usable :: "nat \<Rightarrow> ff_mutexes \<Rightarrow> bool" where
  "ff_usable vol st \<longleftrightarrow> (case ff_Mutex st vol of None \<Rightarrow> False | Some h \<Rightarrow> ff_sems st h \<noteq> None)"

interpretation ffm: mutex_api "ff_attempt vol" "ff_release vol" "ff_holder vol" "ff_usable vol" for vol
  by unfold_locales
    (auto simp: ff_attempt_def ff_release_def ff_holder_def ff_usable_def ff_mutex_take_def
      ff_mutex_give_def xSemaphoreTake_def xSemaphoreGive_def split: option.splits if_splits)

definition tls_attempt :: "nat \<Rightarrow> threading_mutex option \<Rightarrow> bool \<times> threading_mutex option" where
  "tls_attempt task m = (case miso_mbedtls_mutex_lock task m of None \<Rightarrow> (False, m) | Some (r, m') \<Rightarrow> (r = 0, m'))"

definition tls_holder :: "threading_mutex option \<Rightarrow> nat option" where
  "tls_holder m = (case m of None \<Rightarrow> None | Some mutex \<Rightarrow> (case tm_mutex mutex of None \<Rightarrow> None
     | Some h \<Rightarrow> (case tm_sems mutex h of None \<Rightarrow> None | Some u \<Rightarrow> u)))"

definition tls_usable :: "threading_mutex option \<Rightarrow> bool" where
  "tls_usable m \<longleftrightarrow> (case m of None \<Rightarrow> False | Some mutex \<Rightarrow> tm_is_valid mutex
     \<and> (case tm_mutex mutex of None \<Rightarrow> False | Some h \<Rightarrow> tm_sems mutex h \<noteq> None))"

interpretation tlsm: mutex_api tls_attempt "\<lambda>t m. snd (miso_mbedtls_mutex_unlock t m)" tls_holder tls_usable
  by unfold_locales
    (auto simp: tls_attempt_def tls_holder_def tls_usable_def miso_mbedtls_mutex_lock_def
      miso_mbedtls_mutex_unlock_def xSemaphoreTake_def xSemaphoreGive_def split: option.splits if_splits)



end
