(* ===== verification/I2c.thy ===== *)
theory I2c
  imports Mutexes
begin

text \<open>
  The I2C bus of the sensors (\<open>csrc/board/src/board_i2c_sensors.c\<close>): one bus, one mutex, a
  queue of length one through which the interrupt hands the result of a transfer to the
  task that waits for it.

  The transfer function is written in two pieces, before and after the wait on the queue,
  so that other tasks and the interrupt can run in between; \<open>board_i2c0_transfer\<close> composes
  them. What the vendor's \<open>I2C_TransferInit\<close> and \<open>I2C_Transfer\<close> answer is an argument. A
  NULL handle makes FreeRTOS assert (\<open>None\<close>).
\<close>

datatype i2c_ret =
    i2cTransferInProgress | i2cTransferDone | i2cTransferNack | i2cTransferBusErr
  | i2cTransferArbLost | i2cTransferUsageFault | i2cTransferSwFault

fun i2c_code :: "i2c_ret \<Rightarrow> int" where
  "i2c_code i2cTransferInProgress = 1"
| "i2c_code i2cTransferDone = 0"
| "i2c_code i2cTransferNack = -1"
| "i2c_code i2cTransferBusErr = -2"
| "i2c_code i2cTransferArbLost = -3"
| "i2c_code i2cTransferUsageFault = -4"
| "i2c_code i2cTransferSwFault = -5"

record i2c_state =
  i2c0_semaphore :: "i2c_ret option option"
  i2c0_mutex :: "nat option"
  i2c_sems :: sems
  irq_enabled :: bool

definition i2c_boot :: i2c_state where
  "i2c_boot = \<lparr>i2c0_semaphore = None, i2c0_mutex = None, i2c_sems = (\<lambda>h. None), irq_enabled = False\<rparr>"

definition board_i2c_init :: "bool \<Rightarrow> nat option \<Rightarrow> nat \<Rightarrow> i2c_state \<Rightarrow> i2c_state option" where
  "board_i2c_init queue_alloc mutex_alloc task st =
     (let st1 = (if i2c0_semaphore st = None
                 then st\<lparr>i2c0_semaphore := (if queue_alloc then Some None else None)\<rparr> else st)
      in if i2c0_mutex st1 \<noteq> None then Some st1
         else (case xSemaphoreCreateMutex mutex_alloc (i2c_sems st1) of
                 (None, S) \<Rightarrow> None
               | (Some h, S) \<Rightarrow>
                   Some (st1\<lparr>i2c0_mutex := Some h, i2c_sems := snd (xSemaphoreGive task h S)\<rparr>)))"

text \<open>The interrupt: \<open>xQueueSendFromISR\<close> has no effect on a full queue.\<close>

definition I2C0_IRQHandler :: "i2c_ret \<Rightarrow> i2c_state \<Rightarrow> i2c_state" where
  "I2C0_IRQHandler ret st =
     (if ret \<noteq> i2cTransferInProgress \<and> i2c0_semaphore st = Some None
      then st\<lparr>i2c0_semaphore := Some (Some ret)\<rparr> else st)"

text \<open>From \<open>NVIC_ClearPendingIRQ\<close> to the return.\<close>

definition transfer_end :: "nat \<Rightarrow> nat \<Rightarrow> i2c_state \<Rightarrow> i2c_state" where
  "transfer_end task h st = st\<lparr>irq_enabled := False, i2c_sems := snd (xSemaphoreGive task h (i2c_sems st))\<rparr>"

text \<open>
  Up to the wait: the result when the function returns without waiting, or no result. The
  take gives up when the mutex is held for the ten seconds of its timeout.
\<close>

definition transfer_start ::
    "nat \<Rightarrow> i2c_ret \<Rightarrow> i2c_ret \<Rightarrow> i2c_state \<Rightarrow> (i2c_ret option \<times> i2c_state) option" where
  "transfer_start task init_ret poll_ret st =
     (case i2c0_mutex st of
        None \<Rightarrow> None
      | Some h \<Rightarrow>
          (case xSemaphoreTake task h (i2c_sems st) of
             (False, S) \<Rightarrow> Some (Some i2cTransferSwFault, st)
           | (True, S) \<Rightarrow>
               (let st1 = st\<lparr>i2c_sems := S, irq_enabled := True\<rparr>
                in if i2c_code init_ret > 0 then
                     (if i2c0_semaphore st1 = None then None else Some (None, st1))
                   else if i2c_code init_ret = 0 then Some (Some poll_ret, transfer_end task h st1)
                   else Some (Some init_ret, transfer_end task h st1))))"

text \<open>After the wait; \<open>None\<close> while the queue is empty.\<close>

definition transfer_resume :: "nat \<Rightarrow> i2c_state \<Rightarrow> (i2c_ret \<times> i2c_state) option" where
  "transfer_resume task st =
     (case (i2c0_semaphore st, i2c0_mutex st) of
        (Some (Some ret), Some h) \<Rightarrow> Some (ret, transfer_end task h (st\<lparr>i2c0_semaphore := Some None\<rparr>))
      | _ \<Rightarrow> None)"

text \<open>The whole call, \<open>irqs\<close> being what \<open>I2C_Transfer\<close> answers in the interrupts meanwhile.\<close>

definition board_i2c0_transfer ::
    "nat \<Rightarrow> i2c_ret \<Rightarrow> i2c_ret \<Rightarrow> i2c_ret list \<Rightarrow> i2c_state \<Rightarrow> (i2c_ret \<times> i2c_state) option" where
  "board_i2c0_transfer task init_ret poll_ret irqs st =
     (case transfer_start task init_ret poll_ret st of
        None \<Rightarrow> None
      | Some (Some ret, st1) \<Rightarrow> Some (ret, st1)
      | Some (None, st1) \<Rightarrow> transfer_resume task (foldl (\<lambda>s r. I2C0_IRQHandler r s) st1 irqs))"


subsection \<open>Tasks and the interrupt on one bus\<close>

text \<open>
  The tasks that call the transfer function and the interrupt, interleaved. \<open>hw\<close> is the task
  whose transfer the peripheral works on: it raises interrupts for a transfer that was
  started, until the one that ends it. \<open>completed\<close> and \<open>returned\<close> record, latest first, how
  transfers ended on the bus and what the waiting tasks were answered.
\<close>

record i2c_bus =
  dev :: i2c_state
  waiting :: "nat \<Rightarrow> bool"
  hw :: "nat option"
  completed :: "(nat \<times> i2c_ret) list"
  returned :: "(nat \<times> i2c_ret) list"

inductive i2c_step :: "i2c_bus \<Rightarrow> i2c_bus \<Rightarrow> bool" where
  Waits: "\<not> waiting b t \<Longrightarrow> transfer_start t i2cTransferInProgress p (dev b) = Some (None, d) \<Longrightarrow>
     i2c_step b (b\<lparr>dev := d, waiting := (waiting b)(t := True), hw := Some t\<rparr>)"
| At_once: "\<not> waiting b t \<Longrightarrow> transfer_start t i p (dev b) = Some (Some r, d) \<Longrightarrow>
     i2c_step b (b\<lparr>dev := d\<rparr>)"
| Irq: "irq_enabled (dev b) \<Longrightarrow> hw b = Some t \<Longrightarrow>
     i2c_step b (b\<lparr>dev := I2C0_IRQHandler i2cTransferInProgress (dev b)\<rparr>)"
| Irq_end: "irq_enabled (dev b) \<Longrightarrow> hw b = Some t \<Longrightarrow> r \<noteq> i2cTransferInProgress \<Longrightarrow>
     i2c_step b (b\<lparr>dev := I2C0_IRQHandler r (dev b), hw := None, completed := (t, r) # completed b\<rparr>)"
| Resumes: "waiting b t \<Longrightarrow> transfer_resume t (dev b) = Some (r, d) \<Longrightarrow>
     i2c_step b (b\<lparr>dev := d, waiting := (waiting b)(t := False), returned := (t, r) # returned b\<rparr>)"

text \<open>The bus once the board has been started, with what is allocated there.\<close>

definition i2c_start :: "nat \<Rightarrow> i2c_bus" where
  "i2c_start h = \<lparr>dev = the (board_i2c_init True (Some h) 0 i2c_boot), waiting = (\<lambda>t. False), hw = None,
     completed = [], returned = []\<rparr>"

inductive i2c_reachable :: "nat \<Rightarrow> i2c_bus \<Rightarrow> bool" for h where
  start: "i2c_reachable h (i2c_start h)"
| step: "i2c_reachable h b \<Longrightarrow> i2c_step b b' \<Longrightarrow> i2c_reachable h b'"

text \<open>Who holds the mutex.\<close>

definition i2c_holder :: "nat \<Rightarrow> i2c_bus \<Rightarrow> nat option" where
  "i2c_holder h b = (case i2c_sems (dev b) h of Some (Some t) \<Rightarrow> Some t | _ \<Rightarrow> None)"

text \<open>
  Either nobody uses the bus, and it is quiet; or one task does, and its transfer is either
  still going on or has ended and waits in the queue.
\<close>

definition bus_idle :: "nat \<Rightarrow> i2c_bus \<Rightarrow> bool" where
  "bus_idle h b \<longleftrightarrow> i2c_sems (dev b) h = Some None \<and> (\<forall>t. \<not> waiting b t) \<and> hw b = None
     \<and> i2c0_semaphore (dev b) = Some None \<and> \<not> irq_enabled (dev b) \<and> completed b = returned b"

definition bus_busy :: "nat \<Rightarrow> nat \<Rightarrow> i2c_bus \<Rightarrow> bool" where
  "bus_busy h t b \<longleftrightarrow> i2c_sems (dev b) h = Some (Some t) \<and> (\<forall>u. waiting b u \<longleftrightarrow> u = t)
     \<and> irq_enabled (dev b)
     \<and> (hw b = Some t \<and> i2c0_semaphore (dev b) = Some None \<and> completed b = returned b
        \<or> hw b = None \<and> (\<exists>r. i2c0_semaphore (dev b) = Some (Some r) \<and> completed b = (t, r) # returned b))"

definition bus_inv :: "nat \<Rightarrow> i2c_bus \<Rightarrow> bool" where
  "bus_inv h b \<longleftrightarrow> i2c0_mutex (dev b) = Some h \<and> (bus_idle h b \<or> (\<exists>t. bus_busy h t b))"

lemma start_cases:
  assumes "transfer_start t i p st = Some (o1, d)" and "i2c0_mutex st = Some h"
    and "i2c_sems st h = Some x" and "i2c0_semaphore st \<noteq> None"
  shows "(case x of
       Some u \<Rightarrow> o1 = Some i2cTransferSwFault \<and> d = st
     | None \<Rightarrow> (if i = i2cTransferInProgress
               then o1 = None \<and> d = st\<lparr>i2c_sems := (i2c_sems st)(h := Some (Some t)), irq_enabled := True\<rparr>
               else o1 \<noteq> None \<and> d = st\<lparr>i2c_sems := (i2c_sems st)(h := Some None), irq_enabled := False\<rparr>))"
  using assms
  by (cases i) (auto simp: transfer_start_def xSemaphoreTake_def transfer_end_def xSemaphoreGive_def Let_def
      split: option.splits if_splits)

lemma bus_inv_start: "bus_inv h (i2c_start h)"
  by (simp add: i2c_start_def i2c_boot_def board_i2c_init_def xSemaphoreCreateMutex_def xSemaphoreGive_def
      bus_inv_def bus_idle_def Let_def)

lemma bus_inv_step: "i2c_step b b' \<Longrightarrow> bus_inv h b \<Longrightarrow> bus_inv h b'"
proof (induction rule: i2c_step.induct)
  case (Waits b t p d)
  from Waits.prems show ?case
  proof (cases "bus_idle h b")
    case True
    with start_cases [OF Waits.hyps(2), where h = h and x = None] Waits.prems
    have "bus_busy h t (b\<lparr>dev := d, waiting := (waiting b)(t := True), hw := Some t\<rparr>)" "i2c0_mutex d = Some h"
      by (auto simp: bus_inv_def bus_idle_def bus_busy_def)
    then show ?thesis by (auto simp: bus_inv_def)
  next
    case False
    with Waits.prems obtain u where "bus_busy h u b" by (auto simp: bus_inv_def)
    with start_cases [OF Waits.hyps(2), where h = h and x = "Some u"] Waits.prems
    show ?thesis by (auto simp: bus_inv_def bus_busy_def)
  qed
next
  case (At_once b t i p r d)
  from At_once.prems show ?case
  proof (cases "bus_idle h b")
    case True
    with start_cases [OF At_once.hyps(2), where h = h and x = None] At_once.prems
    have "bus_idle h (b\<lparr>dev := d\<rparr>)" "i2c0_mutex d = Some h"
      by (auto simp: bus_inv_def bus_idle_def split: if_splits)
    then show ?thesis by (auto simp: bus_inv_def)
  next
    case False
    with At_once.prems obtain u where "bus_busy h u b" by (auto simp: bus_inv_def)
    with start_cases [OF At_once.hyps(2), where h = h and x = "Some u"] At_once.prems
    show ?thesis by (auto simp: bus_inv_def bus_busy_def)
  qed
next
  case (Irq b t)
  then show ?case by (simp add: I2C0_IRQHandler_def)
next
  case (Irq_end b t r)
  then have "bus_busy h t b" by (auto simp: bus_inv_def bus_idle_def bus_busy_def)
  with Irq_end have "bus_busy h t (b\<lparr>dev := I2C0_IRQHandler r (dev b), hw := None, completed := (t, r) # completed b\<rparr>)"
    by (auto simp: bus_busy_def I2C0_IRQHandler_def)
  moreover have "i2c0_mutex (I2C0_IRQHandler r (dev b)) = i2c0_mutex (dev b)"
    by (simp add: I2C0_IRQHandler_def)
  ultimately show ?case using Irq_end.prems by (auto simp: bus_inv_def)
next
  case (Resumes b t r d)
  then have "bus_busy h t b" by (auto simp: bus_inv_def bus_idle_def bus_busy_def)
  with Resumes have "bus_idle h (b\<lparr>dev := d, waiting := (waiting b)(t := False), returned := (t, r) # returned b\<rparr>)"
    "i2c0_mutex d = Some h"
    by (auto simp: bus_busy_def bus_idle_def bus_inv_def transfer_resume_def transfer_end_def xSemaphoreGive_def
        split: option.splits)
  then show ?case by (simp add: bus_inv_def)
qed

lemma bus_inv_reachable: "i2c_reachable h b \<Longrightarrow> bus_inv h b"
  by (induction rule: i2c_reachable.induct) (auto intro: bus_inv_start bus_inv_step)

text \<open>
  C38: whatever tasks and interrupts do in whatever order, at most one task is in a transfer
  and it holds the mutex; every waiting task is answered with the end of its own transfer,
  in order; and when nobody is in a transfer, the mutex is free, the queue is empty and the
  interrupt is off.
\<close>

theorem i2c_serialised:
  assumes "i2c_reachable h b"
  shows "(\<forall>t. waiting b t \<longrightarrow> i2c_holder h b = Some t)
     \<and> (\<exists>pending. completed b = pending @ returned b \<and> length pending \<le> 1
           \<and> (\<forall>(t, r) \<in> set pending. waiting b t \<and> i2c0_semaphore (dev b) = Some (Some r)))
     \<and> ((\<forall>t. \<not> waiting b t) \<longrightarrow>
           i2c_holder h b = None \<and> i2c0_semaphore (dev b) = Some None \<and> \<not> irq_enabled (dev b))"
  using bus_inv_reachable [OF assms] unfolding bus_inv_def bus_idle_def bus_busy_def i2c_holder_def
  by (elim conjE disjE exE) auto

text \<open>
  The bus never gets stuck: while a task waits, either its transfer is still going on
  with the interrupt on, or it can resume; and when it has resumed, the transfer of any
  other task starts and gets its own result.
\<close>

theorem i2c_never_stuck:
  assumes "i2c_reachable h b" and "waiting b t"
  shows "(hw b = Some t \<and> irq_enabled (dev b)) \<or> (\<exists>r d. transfer_resume t (dev b) = Some (r, d)
     \<and> hd (completed b) = (t, r)
     \<and> (\<exists>d'. board_i2c0_transfer u i2cTransferInProgress p
                 (replicate n i2cTransferInProgress @ [i2cTransferDone]) d = Some (i2cTransferDone, d')
             \<and> i2c0_semaphore d' = Some None))"
proof -
  from bus_inv_reachable [OF assms(1)] assms(2) have b: "bus_busy h t b" and m: "i2c0_mutex (dev b) = Some h"
    by (auto simp: bus_inv_def bus_idle_def bus_busy_def)
  have i: "foldl (\<lambda>s r. I2C0_IRQHandler r s) st (replicate n i2cTransferInProgress) = st" for st
    by (induction n) (simp_all add: I2C0_IRQHandler_def)
  from b m i show ?thesis
    by (auto simp: bus_busy_def transfer_resume_def board_i2c0_transfer_def transfer_start_def transfer_end_def
        xSemaphoreTake_def xSemaphoreGive_def I2C0_IRQHandler_def Let_def)
qed


text \<open>The function as one call is a run of the steps, so what holds of them holds of it.\<close>

lemma transfer_is_run:
  assumes "bus_idle h b" and "i2c0_mutex (dev b) = Some h" and "r \<noteq> i2cTransferInProgress"
  shows "\<exists>d. board_i2c0_transfer t i2cTransferInProgress p (replicate n i2cTransferInProgress @ [r]) (dev b) = Some (r, d)
     \<and> rtranclp i2c_step b (b\<lparr>dev := d, completed := (t, r) # completed b, returned := (t, r) # returned b\<rparr>)"
proof -
  let ?d1 = "(dev b)\<lparr>i2c_sems := (i2c_sems (dev b))(h \<mapsto> Some t), irq_enabled := True\<rparr>"
  let ?b1 = "b\<lparr>dev := ?d1, waiting := (waiting b)(t := True), hw := Some t\<rparr>"
  let ?d2 = "I2C0_IRQHandler r ?d1"
  let ?b2 = "?b1\<lparr>dev := ?d2, hw := None, completed := (t, r) # completed b\<rparr>"
  note idle = assms(1) [unfolded bus_idle_def]
  have s: "transfer_start t i2cTransferInProgress p (dev b) = Some (None, ?d1)"
    using idle assms(2) by (simp add: transfer_start_def xSemaphoreTake_def Let_def)
  have q: "i2c0_semaphore ?d2 = Some (Some r)" "i2c0_mutex ?d2 = Some h"
    using idle assms(2,3) by (simp_all add: I2C0_IRQHandler_def)
  let ?d3 = "transfer_end t h (?d2\<lparr>i2c0_semaphore := Some None\<rparr>)"
  have e: "transfer_resume t ?d2 = Some (r, ?d3)" using q by (simp add: transfer_resume_def)
  have i: "foldl (\<lambda>s r. I2C0_IRQHandler r s) st (replicate n i2cTransferInProgress) = st" for st
    by (induction n) (simp_all add: I2C0_IRQHandler_def)
  have "i2c_step b ?b1" using idle s by (intro i2c_step.Waits) auto
  moreover have "i2c_step ?b1 (?b1\<lparr>dev := I2C0_IRQHandler r (dev ?b1), hw := None, completed := (t, r) # completed ?b1\<rparr>)"
    using assms(3) by (intro i2c_step.Irq_end) simp_all
  then have "i2c_step ?b1 ?b2" by simp
  moreover have "i2c_step ?b2 (?b2\<lparr>dev := ?d3, waiting := (waiting ?b2)(t := False), returned := (t, r) # returned ?b2\<rparr>)"
    using e by (intro i2c_step.Resumes) simp_all
  moreover have "?b2\<lparr>dev := ?d3, waiting := (waiting ?b2)(t := False), returned := (t, r) # returned ?b2\<rparr>
      = b\<lparr>dev := ?d3, completed := (t, r) # completed b, returned := (t, r) # returned b\<rparr>"
    using idle by (simp add: fun_upd_idem)
  ultimately have "rtranclp i2c_step b (b\<lparr>dev := ?d3, completed := (t, r) # completed b, returned := (t, r) # returned b\<rparr>)"
    by (metis (no_types, lifting) converse_rtranclp_into_rtranclp r_into_rtranclp)
  moreover have "board_i2c0_transfer t i2cTransferInProgress p (replicate n i2cTransferInProgress @ [r]) (dev b) = Some (r, ?d3)"
    using s e i by (simp add: board_i2c0_transfer_def)
  ultimately show ?thesis by blast
qed

text \<open>A run to apply them at: task 1 starts a transfer and is interrupted at its end.\<close>

lemma demo_bus:
  "\<exists>b. i2c_reachable 7 b \<and> waiting b 1 \<and> hw b = None"
proof -
  have w: "i2c_step (i2c_start 7) ((i2c_start 7)\<lparr>dev := (dev (i2c_start 7))\<lparr>i2c_sems := (i2c_sems (dev (i2c_start 7)))(7 := Some (Some 1)),
      irq_enabled := True\<rparr>, waiting := (waiting (i2c_start 7))(1 := True), hw := Some 1\<rparr>)"
    by (rule i2c_step.Waits [where p = i2cTransferDone])
      (simp_all add: i2c_start_def i2c_boot_def board_i2c_init_def xSemaphoreCreateMutex_def xSemaphoreGive_def
        transfer_start_def xSemaphoreTake_def Let_def)
  then have r: "i2c_reachable 7 ((i2c_start 7)\<lparr>dev := (dev (i2c_start 7))\<lparr>i2c_sems := (i2c_sems (dev (i2c_start 7)))(7 := Some (Some 1)),
      irq_enabled := True\<rparr>, waiting := (waiting (i2c_start 7))(1 := True), hw := Some 1\<rparr>)" (is "i2c_reachable 7 ?b")
    by (rule i2c_reachable.step [OF i2c_reachable.start])
  have "i2c_step ?b (?b\<lparr>dev := I2C0_IRQHandler i2cTransferDone (dev ?b), hw := None,
      completed := (1, i2cTransferDone) # completed ?b\<rparr>)"
    by (rule i2c_step.Irq_end) simp_all
  then have "i2c_reachable 7 (?b\<lparr>dev := I2C0_IRQHandler i2cTransferDone (dev ?b), hw := None,
      completed := (1, i2cTransferDone) # completed ?b\<rparr>)"
    by (rule i2c_reachable.step [OF r])
  then show ?thesis by fastforce
qed

theorem i2c_serialised_witness:
  "\<exists>b. i2c_reachable 7 b \<and> waiting b 1 \<and> i2c_holder 7 b = Some 1"
  using demo_bus i2c_serialised by blast

theorem i2c_never_stuck_witness:
  "\<exists>b r d. i2c_reachable 7 b \<and> transfer_resume 1 (dev b) = Some (r, d)
     \<and> (\<exists>d'. board_i2c0_transfer 2 i2cTransferInProgress i2cTransferNack
            (replicate 3 i2cTransferInProgress @ [i2cTransferDone]) d = Some (i2cTransferDone, d'))"
proof -
  obtain b where b: "i2c_reachable 7 b" "waiting b 1" "hw b = None" using demo_bus by blast
  from i2c_never_stuck [OF b(1,2), where u = 2 and p = i2cTransferNack and n = 3] b show ?thesis
    by fastforce
qed

subsection \<open>The sensors on the bus\<close>

text \<open>
  The register functions of the five sensor wrappers, which the drivers of the sensors call
  (\<open>csrc/board/src/board_bma280.c\<close>, \<open>board_bme280.c\<close>, \<open>board_bmg160.c\<close>, \<open>board_bmi160.c\<close>,
  \<open>board_bmm150.c\<close>). Addresses and return codes come from the headers of the sensor
  drivers, which are not part of the repository. The bus is an argument: it is
  given a transfer and answers with its result, the bytes of the second buffer and its new
  state. A register address is the one byte of the first buffer; lengths are 16 bits.
\<close>

datatype i2c_flag = I2C_FLAG_WRITE_READ | I2C_FLAG_WRITE_WRITE

record i2c_seq =
  seq_addr :: u16
  seq_flags :: i2c_flag
  seq_reg :: u8
  seq_len :: u16

type_synonym 's bus = "i2c_seq \<Rightarrow> u8 list \<Rightarrow> 's \<Rightarrow> i2c_ret \<times> u8 list \<times> 's"

record sensor_codes =
  i2c_address :: u8
  code_ok :: int
  code_fail :: int

definition register_seq :: "u8 \<Rightarrow> i2c_flag \<Rightarrow> u8 \<Rightarrow> u16 \<Rightarrow> i2c_seq" where
  "register_seq addr flags reg len =
     \<lparr>seq_addr = push_bit 1 (ucast addr), seq_flags = flags, seq_reg = reg, seq_len = len\<rparr>"

text \<open>The transfer, and the return code for its result.\<close>

definition register_call :: "'s bus \<Rightarrow> i2c_seq \<Rightarrow> int \<Rightarrow> int \<Rightarrow> u8 list \<Rightarrow> 's \<Rightarrow> int \<times> u8 list \<times> 's" where
  "register_call bus transfer ok fail data s =
     (case bus transfer data s of (r, data', s') \<Rightarrow> (if r = i2cTransferDone then ok else fail, data', s'))"

definition bma280_read :: "'s bus \<Rightarrow> sensor_codes \<Rightarrow> bool \<Rightarrow> u8 \<Rightarrow> u8 list \<Rightarrow> u32 \<Rightarrow> 's \<Rightarrow> int \<times> u8 list \<times> 's" where
  "bma280_read bus c own_intf reg_addr reg_data len s =
     (if own_intf then
        register_call bus (register_seq (i2c_address c) I2C_FLAG_WRITE_READ reg_addr (ucast len)) (code_ok c) (code_fail c) reg_data s
      else (code_fail c, reg_data, s))"

definition bma280_write :: "'s bus \<Rightarrow> sensor_codes \<Rightarrow> bool \<Rightarrow> u8 \<Rightarrow> u8 list \<Rightarrow> u32 \<Rightarrow> 's \<Rightarrow> int \<times> u8 list \<times> 's" where
  "bma280_write bus c own_intf reg_addr reg_data len s =
     (if own_intf then
        register_call bus (register_seq (i2c_address c) I2C_FLAG_WRITE_WRITE reg_addr (ucast len)) (code_ok c) (code_fail c) reg_data s
      else (code_fail c, reg_data, s))"

definition bme280_read :: "'s bus \<Rightarrow> sensor_codes \<Rightarrow> bool \<Rightarrow> u8 \<Rightarrow> u8 list \<Rightarrow> u32 \<Rightarrow> 's \<Rightarrow> int \<times> u8 list \<times> 's" where
  "bme280_read bus c own_intf reg_addr reg_data len s =
     (if own_intf then
        register_call bus (register_seq (i2c_address c) I2C_FLAG_WRITE_READ reg_addr (ucast len)) (code_ok c) (code_fail c) reg_data s
      else (code_fail c, reg_data, s))"

definition bme280_write :: "'s bus \<Rightarrow> sensor_codes \<Rightarrow> bool \<Rightarrow> u8 \<Rightarrow> u8 list \<Rightarrow> u32 \<Rightarrow> 's \<Rightarrow> int \<times> u8 list \<times> 's" where
  "bme280_write bus c own_intf reg_addr reg_data len s =
     (if own_intf then
        register_call bus (register_seq (i2c_address c) I2C_FLAG_WRITE_WRITE reg_addr (ucast len)) (code_ok c) (code_fail c) reg_data s
      else (code_fail c, reg_data, s))"

definition bmm150_read :: "'s bus \<Rightarrow> sensor_codes \<Rightarrow> bool \<Rightarrow> u8 \<Rightarrow> u8 list \<Rightarrow> u32 \<Rightarrow> 's \<Rightarrow> int \<times> u8 list \<times> 's" where
  "bmm150_read bus c own_intf reg_addr reg_data len s =
     (if own_intf then
        register_call bus (register_seq (i2c_address c) I2C_FLAG_WRITE_READ reg_addr (ucast len)) (code_ok c) (code_fail c) reg_data s
      else (code_fail c, reg_data, s))"

definition bmm150_write :: "'s bus \<Rightarrow> sensor_codes \<Rightarrow> bool \<Rightarrow> u8 \<Rightarrow> u8 list \<Rightarrow> u32 \<Rightarrow> 's \<Rightarrow> int \<times> u8 list \<times> 's" where
  "bmm150_write bus c own_intf reg_addr reg_data len s =
     (if own_intf then
        register_call bus (register_seq (i2c_address c) I2C_FLAG_WRITE_WRITE reg_addr (ucast len)) (code_ok c) (code_fail c) reg_data s
      else (code_fail c, reg_data, s))"

text \<open>The gyroscope takes the device address as an argument and fails with -1.\<close>

definition bmg160_bus_write :: "'s bus \<Rightarrow> sensor_codes \<Rightarrow> u8 \<Rightarrow> u8 \<Rightarrow> u8 list \<Rightarrow> u8 \<Rightarrow> 's \<Rightarrow> int \<times> u8 list \<times> 's" where
  "bmg160_bus_write bus c device_addr register_addr register_data wr_len s =
     register_call bus (register_seq device_addr I2C_FLAG_WRITE_WRITE register_addr (ucast wr_len)) (code_ok c) (-1) register_data s"

definition bmg160_burst_read :: "'s bus \<Rightarrow> sensor_codes \<Rightarrow> u8 \<Rightarrow> u8 \<Rightarrow> u8 list \<Rightarrow> u16 \<Rightarrow> 's \<Rightarrow> int \<times> u8 list \<times> 's" where
  "bmg160_burst_read bus c device_addr register_addr register_data rd_len s =
     register_call bus (register_seq device_addr I2C_FLAG_WRITE_READ register_addr rd_len) (code_ok c) (-1) register_data s"

definition bmg160_bus_read :: "'s bus \<Rightarrow> sensor_codes \<Rightarrow> u8 \<Rightarrow> u8 \<Rightarrow> u8 list \<Rightarrow> u8 \<Rightarrow> 's \<Rightarrow> int \<times> u8 list \<times> 's" where
  "bmg160_bus_read bus c device_addr register_addr register_data rd_len s =
     register_call bus (register_seq device_addr I2C_FLAG_WRITE_READ register_addr (ucast rd_len)) (code_ok c) (-1) register_data s"

text \<open>The inertial unit is given a device address and uses its own.\<close>

definition bmi160_read :: "'s bus \<Rightarrow> sensor_codes \<Rightarrow> u8 \<Rightarrow> u8 \<Rightarrow> u8 list \<Rightarrow> u16 \<Rightarrow> 's \<Rightarrow> int \<times> u8 list \<times> 's" where
  "bmi160_read bus c dev_addr reg_addr read_data len s =
     register_call bus (register_seq (i2c_address c) I2C_FLAG_WRITE_READ reg_addr len) (code_ok c) (code_fail c) read_data s"

definition bmi160_write :: "'s bus \<Rightarrow> sensor_codes \<Rightarrow> u8 \<Rightarrow> u8 \<Rightarrow> u8 list \<Rightarrow> u16 \<Rightarrow> 's \<Rightarrow> int \<times> u8 list \<times> 's" where
  "bmi160_write bus c dev_addr reg_addr write_data len s =
     register_call bus (register_seq (i2c_address c) I2C_FLAG_WRITE_WRITE reg_addr len) (code_ok c) (code_fail c) write_data s"


subsection \<open>What the sensor drivers rely on\<close>

text \<open>
  A device on the bus: it acknowledges its own address, and its registers, which count up
  from the addressed one, are written and read back.
\<close>

definition device_bus :: "u8 \<Rightarrow> (u8 \<Rightarrow> u8) bus" where
  "device_bus addr seq data regs =
     (if seq_addr seq \<noteq> push_bit 1 (ucast addr) then (i2cTransferNack, data, regs)
      else (case seq_flags seq of
              I2C_FLAG_WRITE_READ \<Rightarrow>
                (i2cTransferDone, map (\<lambda>i. regs (seq_reg seq + of_nat i)) [0..<unat (seq_len seq)]
                   @ drop (unat (seq_len seq)) data, regs)
            | I2C_FLAG_WRITE_WRITE \<Rightarrow>
                (i2cTransferDone, data,
                 \<lambda>r. let i = unat (r - seq_reg seq) in if i < unat (seq_len seq) \<and> i < length data then data ! i else regs r)))"

text \<open>
  The contract of a wrapper's two functions: each is one transfer to the wrapper's device
  over the whole buffer, and its return code says whether that transfer was done.
\<close>

locale register_port =
  fixes rd wr :: "'s bus \<Rightarrow> u8 \<Rightarrow> u8 list \<Rightarrow> 's \<Rightarrow> int \<times> u8 list \<times> 's"
    and addr :: u8
    and ok fail :: int
    and max_len :: nat
  assumes rd_transfer: "length data \<le> max_len \<Longrightarrow> rd bus reg data s =
        register_call bus (register_seq addr I2C_FLAG_WRITE_READ reg (of_nat (length data))) ok fail data s"
    and wr_transfer: "length data \<le> max_len \<Longrightarrow> wr bus reg data s =
        register_call bus (register_seq addr I2C_FLAG_WRITE_WRITE reg (of_nat (length data))) ok fail data s"
    and max_len: "max_len < 2 ^ 16"
begin

lemma ok_iff_done:
  assumes "ok \<noteq> fail" and "length data \<le> max_len"
  shows "fst (rd bus reg data s) = ok \<longleftrightarrow>
      fst (bus (register_seq addr I2C_FLAG_WRITE_READ reg (of_nat (length data))) data s) = i2cTransferDone"
    and "fst (wr bus reg data s) = ok \<longleftrightarrow>
      fst (bus (register_seq addr I2C_FLAG_WRITE_WRITE reg (of_nat (length data))) data s) = i2cTransferDone"
  using assms by (auto simp: rd_transfer wr_transfer register_call_def split: prod.splits)

end

lemma push_bit_addr_inj: "push_bit 1 (ucast a :: u16) = push_bit 1 (ucast (b :: u8)) \<Longrightarrow> a = b"
proof (rule bit_word_eqI)
  fix n assume e: "push_bit 1 (ucast a :: u16) = push_bit 1 (ucast b)" and n: "n < LENGTH(8)"
  have k: "bit (push_bit 1 (ucast x :: u16)) (Suc n) = bit (x :: u8) n" for x
    using n by (simp only: bit_push_bit_iff) (simp add: bit_simps)
  show "bit a n = bit b n" using k [of a] k [of b] e by simp
qed


definition register_access_ok ::
    "((u8 \<Rightarrow> u8) bus \<Rightarrow> u8 \<Rightarrow> u8 list \<Rightarrow> (u8 \<Rightarrow> u8) \<Rightarrow> int \<times> u8 list \<times> (u8 \<Rightarrow> u8)) \<Rightarrow>
     ((u8 \<Rightarrow> u8) bus \<Rightarrow> u8 \<Rightarrow> u8 list \<Rightarrow> (u8 \<Rightarrow> u8) \<Rightarrow> int \<times> u8 list \<times> (u8 \<Rightarrow> u8)) \<Rightarrow>
     u8 \<Rightarrow> int \<Rightarrow> int \<Rightarrow> nat \<Rightarrow> bool" where
  "register_access_ok rd wr addr ok fail n \<longleftrightarrow>
     (\<forall>reg data buf regs. length data \<le> n \<and> length buf = length data \<longrightarrow>
        (\<exists>regs'. wr (device_bus addr) reg data regs = (ok, data, regs')
              \<and> rd (device_bus addr) reg buf regs' = (ok, data, regs')
              \<and> (\<forall>r. length data \<le> unat (r - reg) \<longrightarrow> regs' r = regs r))
      \<and> (\<forall>a. a \<noteq> addr \<longrightarrow> rd (device_bus a) reg buf regs = (fail, buf, regs)
              \<and> wr (device_bus a) reg data regs = (fail, data, regs)))"

locale device_port = register_port rd wr addr ok fail max_len
  for rd wr :: "(u8 \<Rightarrow> u8) bus \<Rightarrow> u8 \<Rightarrow> u8 list \<Rightarrow> (u8 \<Rightarrow> u8) \<Rightarrow> int \<times> u8 list \<times> (u8 \<Rightarrow> u8)"
    and addr ok fail max_len
begin

lemma write_then_read:
  assumes "length data \<le> max_len" and "length data \<le> 256" and "length buf = length data"
  shows "\<exists>regs'. wr (device_bus addr) reg data regs = (ok, data, regs')
     \<and> rd (device_bus addr) reg buf regs' = (ok, data, regs')
     \<and> (\<forall>r. length data \<le> unat (r - reg) \<longrightarrow> regs' r = regs r)"
proof -
  have l: "unat (of_nat (length data) :: u16) = length data"
    using assms(1) max_len by (simp add: unat_of_nat take_bit_nat_eq_self)
  have u: "i < length data \<Longrightarrow> unat (of_nat i :: u8) = i" for i
    using assms(2) by (simp add: unat_of_nat take_bit_nat_eq_self)
  have m: "map (\<lambda>i. if unat (of_nat i :: u8) < length data then data ! unat (reg + of_nat i - reg) else regs (reg + of_nat i))
      [0..<length data] = data"
    by (rule nth_equalityI) (simp_all add: u)
  show ?thesis
    using assms m l
    by (simp add: wr_transfer rd_transfer register_call_def register_seq_def device_bus_def Let_def)
qed

lemma foreign_device:
  assumes "length data \<le> max_len" and "a \<noteq> addr"
  shows "rd (device_bus a) reg data regs = (fail, data, regs) \<and> wr (device_bus a) reg data regs = (fail, data, regs)"
proof -
  have "push_bit 1 (ucast addr :: u16) \<noteq> push_bit 1 (ucast a)"
    using assms(2) push_bit_addr_inj by metis
  with assms(1) show ?thesis
    by (simp only: wr_transfer rd_transfer register_call_def register_seq_def device_bus_def) simp
qed

lemma access_ok: "n \<le> max_len \<Longrightarrow> n \<le> 256 \<Longrightarrow> register_access_ok rd wr addr ok fail n"
  unfolding register_access_ok_def
  by (intro allI impI conjI write_then_read; simp add: foreign_device)

end

lemma of_nat_lengths:
  "n < 2 ^ 16 \<Longrightarrow> (ucast (of_nat n :: u32) :: u16) = of_nat n"
  "n < 2 ^ 8 \<Longrightarrow> (ucast (of_nat n :: u8) :: u16) = of_nat n"
  by (simp_all add: unsigned_of_nat take_bit_nat_eq_self)

lemmas port_defs = bma280_read_def bma280_write_def bme280_read_def bme280_write_def bmm150_read_def
  bmm150_write_def bmg160_bus_read_def bmg160_bus_write_def bmg160_burst_read_def bmi160_read_def bmi160_write_def

interpretation bma280: device_port "\<lambda>bus reg data. bma280_read bus c True reg data (of_nat (length data))"
    "\<lambda>bus reg data. bma280_write bus c True reg data (of_nat (length data))"
    "i2c_address c" "code_ok c" "code_fail c" 65535 for c
  by unfold_locales (simp_all add: port_defs of_nat_lengths)

interpretation bme280: device_port "\<lambda>bus reg data. bme280_read bus c True reg data (of_nat (length data))"
    "\<lambda>bus reg data. bme280_write bus c True reg data (of_nat (length data))"
    "i2c_address c" "code_ok c" "code_fail c" 65535 for c
  by unfold_locales (simp_all add: port_defs of_nat_lengths)

interpretation bmm150: device_port "\<lambda>bus reg data. bmm150_read bus c True reg data (of_nat (length data))"
    "\<lambda>bus reg data. bmm150_write bus c True reg data (of_nat (length data))"
    "i2c_address c" "code_ok c" "code_fail c" 65535 for c
  by unfold_locales (simp_all add: port_defs of_nat_lengths)

interpretation bmg160: device_port "\<lambda>bus reg data. bmg160_bus_read bus c addr reg data (of_nat (length data))"
    "\<lambda>bus reg data. bmg160_bus_write bus c addr reg data (of_nat (length data))"
    addr "code_ok c" "-1" 255 for c addr
  by unfold_locales (simp_all add: port_defs of_nat_lengths)

interpretation bmg160_burst: device_port "\<lambda>bus reg data. bmg160_burst_read bus c addr reg data (of_nat (length data))"
    "\<lambda>bus reg data. bmg160_bus_write bus c addr reg data (of_nat (length data))"
    addr "code_ok c" "-1" 255 for c addr
  by unfold_locales (simp_all add: port_defs of_nat_lengths)

interpretation bmi160: device_port "\<lambda>bus reg data. bmi160_read bus c d reg data (of_nat (length data))"
    "\<lambda>bus reg data. bmi160_write bus c d reg data (of_nat (length data))"
    "i2c_address c" "code_ok c" "code_fail c" 65535 for c d
  by unfold_locales (simp_all add: port_defs of_nat_lengths)

text \<open>
  On a bus with a device at its address, every wrapper writes and reads back up to 256
  registers (the gyroscope 255) without touching the others and answers success; with no
  device at its address it answers failure and changes nothing; and the accelerometer,
  the environmental sensor and the magnetometer do not touch the bus for a handle that is
  not theirs.
\<close>

theorem sensor_registers:
  shows "register_access_ok (\<lambda>bus reg data. bma280_read bus c True reg data (of_nat (length data)))
           (\<lambda>bus reg data. bma280_write bus c True reg data (of_nat (length data)))
           (i2c_address c) (code_ok c) (code_fail c) 256
     \<and> register_access_ok (\<lambda>bus reg data. bme280_read bus c True reg data (of_nat (length data)))
           (\<lambda>bus reg data. bme280_write bus c True reg data (of_nat (length data)))
           (i2c_address c) (code_ok c) (code_fail c) 256
     \<and> register_access_ok (\<lambda>bus reg data. bmm150_read bus c True reg data (of_nat (length data)))
           (\<lambda>bus reg data. bmm150_write bus c True reg data (of_nat (length data)))
           (i2c_address c) (code_ok c) (code_fail c) 256
     \<and> register_access_ok (\<lambda>bus reg data. bmi160_read bus c d reg data (of_nat (length data)))
           (\<lambda>bus reg data. bmi160_write bus c d reg data (of_nat (length data)))
           (i2c_address c) (code_ok c) (code_fail c) 256
     \<and> (\<forall>read \<in> {\<lambda>bus reg data. bmg160_bus_read bus c addr reg data (of_nat (length data)),
                 \<lambda>bus reg data. bmg160_burst_read bus c addr reg data (of_nat (length data))}.
           register_access_ok read
             (\<lambda>bus reg data. bmg160_bus_write bus c addr reg data (of_nat (length data))) addr (code_ok c) (-1) 255)
     \<and> (\<forall>op \<in> {bma280_read, bma280_write, bme280_read, bme280_write, bmm150_read, bmm150_write}.
           op bus c False reg data len s = (code_fail c, data, s))"
  using bma280.access_ok bme280.access_ok bmm150.access_ok bmi160.access_ok bmg160.access_ok
    bmg160_burst.access_ok
  by (simp add: port_defs)


definition demo_codes :: sensor_codes where
  "demo_codes = \<lparr>i2c_address = 0x18, code_ok = 0, code_fail = -2\<rparr>"

theorem sensor_registers_witness:
  "\<exists>regs. bma280_write (device_bus 0x18) demo_codes True 0x20 [1, 2] (of_nat (length [1, 2 :: u8])) (\<lambda>r. 0) = (0, [1, 2], regs)
     \<and> bma280_read (device_bus 0x18) demo_codes True 0x20 [9, 9] (of_nat (length [9, 9 :: u8])) regs = (0, [1, 2], regs)
     \<and> regs 0x22 = 0"
proof -
  have "register_access_ok (\<lambda>bus reg data. bma280_read bus demo_codes True reg data (of_nat (length data)))
           (\<lambda>bus reg data. bma280_write bus demo_codes True reg data (of_nat (length data))) 0x18 0 (-2) 256"
    using conjunct1 [OF sensor_registers [where c = demo_codes]] by (simp add: demo_codes_def)
  then have "\<exists>regs. bma280_write (device_bus 0x18) demo_codes True 0x20 [1, 2] (of_nat (length [1, 2 :: u8])) (\<lambda>r. 0) = (0, [1, 2], regs)
     \<and> bma280_read (device_bus 0x18) demo_codes True 0x20 [9, 9] (of_nat (length [9, 9 :: u8])) regs = (0, [1, 2], regs)
     \<and> (\<forall>r. length [1, 2 :: u8] \<le> unat (r - 0x20) \<longrightarrow> regs r = 0)"
    unfolding register_access_ok_def
    by (elim allE [where x = "0x20"] allE [where x = "[1, 2]"] allE [where x = "[9, 9]"] allE [where x = "\<lambda>r. 0"]) simp
  then show ?thesis by (elim exE conjE allE [where x = "0x22"]) auto
qed

end
