(* ===== verification/Cc3100.thy ===== *)
theory Cc3100
  imports Prelude
begin

text \<open>
  The interface of the WiFi chip (\<open>csrc/board/src/board_CC3100.c\<close>), which the SimpleLink
  driver calls: opening and closing the SPI port, reading and writing over it, the
  interrupt of the chip and the handler registered for it, power, and the event handlers
  of the device and of its sockets.

  A transfer is handed to the SPI driver of the vendor, which calls back with its status;
  the callback sends the status through a FreeRTOS queue of length one to the function
  that waits for it. What the driver answers and which callbacks come when are arguments.
  The pins, the delays and the calls of the driver are the log \<open>spi_log\<close>; \<open>csn\<close> is the
  level of the chip-select line, which selects the chip when it is low.
\<close>

datatype ecode =
    ECODE_OK | ECODE_EMDRV_SPIDRV_TIMEOUT | ECODE_EMDRV_SPIDRV_PARAM_ERROR
  | ECODE_EMDRV_SPIDRV_BUSY | ECODE_other u32

record transfer_status =
  transferStatus :: ecode
  itemsTransferred :: int

datatype spi_event =
    Csn bool | Vdd_en bool | Nreset bool | Nhib bool
  | Int_config bool | Int_pin_input | Int_pin_disabled
  | Us_delay nat | Ms_delay nat
  | SPIDRV_Init | SPIDRV_DeInit | SPIDRV_MReceive int | SPIDRV_MTransmit int
  | Handler_call nat nat
  | System_reset | Event_text string "int list"

record cc3100 =
  tx_queue :: "transfer_status option option"
  rx_queue :: "transfer_status option option"
  interrupt_handler_callback :: "nat option"
  interrupt_handler_pValue :: nat
  csn :: bool
  int_enabled :: bool
  pended :: nat
  spi_log :: "spi_event list"

definition spi_do :: "spi_event list \<Rightarrow> cc3100 \<Rightarrow> cc3100" where
  "spi_do es s = s\<lparr>spi_log := spi_log s @ es\<rparr>"

abbreviation BOARD_CC3100_FD :: int where
  "BOARD_CC3100_FD \<equiv> 1"

abbreviation CC3100_DEVICE_NAME :: string where
  "CC3100_DEVICE_NAME \<equiv> ''CC3100''"

abbreviation WIFI_INT_PIN :: u8 where
  "WIFI_INT_PIN \<equiv> 10"

subsection \<open>Interrupt and callbacks\<close>

text \<open>In the timer task: the handler that is registered when the pended call is made.\<close>

definition timerContextCallback :: "cc3100 \<Rightarrow> cc3100" where
  "timerContextCallback s =
     (case interrupt_handler_callback s of
        None \<Rightarrow> s
      | Some f \<Rightarrow> spi_do [Handler_call f (interrupt_handler_pValue s)] s)"

definition cc3100_interrupt_callback :: "u8 \<Rightarrow> cc3100 \<Rightarrow> cc3100" where
  "cc3100_interrupt_callback intNo s =
     (if intNo = WIFI_INT_PIN \<and> interrupt_handler_callback s \<noteq> None then s\<lparr>pended := pended s + 1\<rparr> else s)"

text \<open>\<open>own\<close> says that the callback is for the handle of this port; a full queue refuses.\<close>

definition queue_send :: "'a \<Rightarrow> 'a option option \<Rightarrow> 'a option option" where
  "queue_send x q = (if q = Some None then Some (Some x) else q)"

definition recieve_callback :: "bool \<Rightarrow> ecode \<Rightarrow> int \<Rightarrow> cc3100 \<Rightarrow> cc3100" where
  "recieve_callback own status items s =
     (if own then s\<lparr>rx_queue := queue_send \<lparr>transferStatus = status, itemsTransferred = items\<rparr> (rx_queue s)\<rparr> else s)"

definition send_callback :: "bool \<Rightarrow> ecode \<Rightarrow> int \<Rightarrow> cc3100 \<Rightarrow> cc3100" where
  "send_callback own status items s =
     (if own then s\<lparr>tx_queue := queue_send \<lparr>transferStatus = status, itemsTransferred = items\<rparr> (tx_queue s)\<rparr> else s)"

definition cc3100_spi_select :: "cc3100 \<Rightarrow> cc3100" where
  "cc3100_spi_select s = spi_do [Csn False, Us_delay 1] (s\<lparr>csn := False\<rparr>)"

definition cc3100_spi_deselect :: "cc3100 \<Rightarrow> cc3100" where
  "cc3100_spi_deselect s = spi_do [Us_delay 1, Csn True] (s\<lparr>csn := True\<rparr>)"

subsection \<open>Power\<close>

definition cc3100_off :: cc3100 where
  "cc3100_off = \<lparr>tx_queue = None, rx_queue = None, interrupt_handler_callback = None,
     interrupt_handler_pValue = 0, csn = False, int_enabled = False, pended = 0, spi_log = []\<rparr>"

definition Board_CC3100_Init :: "cc3100 \<Rightarrow> cc3100" where
  "Board_CC3100_Init s =
     spi_do [Vdd_en True, Nreset True, Csn True, Int_pin_input, Nhib True, Int_config False]
       (s\<lparr>csn := True, int_enabled := False\<rparr>)"

definition CC3100_DeviceEnablePreamble :: "cc3100 \<Rightarrow> cc3100" where
  "CC3100_DeviceEnablePreamble =
     spi_do [Vdd_en False, Nhib True, Ms_delay 4, Nreset False, Ms_delay 5, Nreset True, Ms_delay (25 + 1350)]"

definition CC3100_DeviceEnable :: "cc3100 \<Rightarrow> cc3100" where
  "CC3100_DeviceEnable = spi_do [Nhib True, Ms_delay 50]"

definition CC3100_DeviceDisable :: "cc3100 \<Rightarrow> cc3100" where
  "CC3100_DeviceDisable s =
     spi_do [Int_config False, Int_pin_disabled, Nhib False, Ms_delay 10] (s\<lparr>int_enabled := False\<rparr>)"

definition CC3100_IfRegIntHdlr :: "nat option \<Rightarrow> nat \<Rightarrow> cc3100 \<Rightarrow> cc3100" where
  "CC3100_IfRegIntHdlr interruptHdl pValue s =
     (let s1 = s\<lparr>interrupt_handler_callback := interruptHdl, interrupt_handler_pValue := pValue\<rparr>
      in if interruptHdl = None
         then spi_do [Int_config False, Int_pin_disabled] (s1\<lparr>int_enabled := False\<rparr>)
         else spi_do [Int_pin_input, Int_config True] (s1\<lparr>int_enabled := True\<rparr>))"

subsection \<open>The port\<close>

text \<open>\<open>tx_alloc\<close> and \<open>rx_alloc\<close>: whether a queue is allocated; \<open>init\<close>: the driver's answer.\<close>

definition CC3100_IfOpen :: "bool \<Rightarrow> bool \<Rightarrow> ecode \<Rightarrow> string \<Rightarrow> u32 \<Rightarrow> cc3100 \<Rightarrow> int \<times> cc3100" where
  "CC3100_IfOpen tx_alloc rx_alloc init pIfName flags s =
     (if strncmp0 (length CC3100_DEVICE_NAME) pIfName CC3100_DEVICE_NAME \<and> flags = 0 then
        (let s1 = (if tx_queue s = None then s\<lparr>tx_queue := (if tx_alloc then Some None else None)\<rparr> else s);
             s2 = (if rx_queue s1 = None then s1\<lparr>rx_queue := (if rx_alloc then Some None else None)\<rparr> else s1);
             s3 = spi_do [SPIDRV_Init] s2
         in if init = ECODE_OK
            then (BOARD_CC3100_FD, cc3100_spi_deselect (spi_do [Nhib True, Ms_delay 50] s3))
            else (-1, s3))
      else (-1, s))"

definition CC3100_IfClose :: "ecode \<Rightarrow> int \<Rightarrow> cc3100 \<Rightarrow> int \<times> cc3100" where
  "CC3100_IfClose deinit Fd s =
     (if Fd = BOARD_CC3100_FD then
        (if deinit = ECODE_OK then 0 else -1,
         (spi_do [SPIDRV_DeInit] (cc3100_spi_deselect s))\<lparr>tx_queue := None, rx_queue := None\<rparr>)
      else (-1, s))"

text \<open>
  The surroundings of one transfer: the driver's answer to the request, the callbacks that
  come between the reset of the queue and the wait, and those within the timeout.
\<close>

record xfer_env =
  submit :: ecode
  early :: "(bool \<times> ecode \<times> int) list"
  in_time :: "(bool \<times> ecode \<times> int) list"

definition callbacks :: "(bool \<Rightarrow> ecode \<Rightarrow> int \<Rightarrow> cc3100 \<Rightarrow> cc3100) \<Rightarrow> (bool \<times> ecode \<times> int) list \<Rightarrow> cc3100 \<Rightarrow> cc3100" where
  "callbacks f cs s = foldl (\<lambda>s (own, status, items). f own status items s) s cs"

text \<open>\<open>pBuff\<close> is the address of the buffer, \<open>None\<close> being NULL.\<close>

definition CC3100_IfRead :: "xfer_env \<Rightarrow> int \<Rightarrow> nat option \<Rightarrow> int \<Rightarrow> cc3100 \<Rightarrow> int \<times> cc3100" where
  "CC3100_IfRead env Fd pBuff Len s =
     (if pBuff = None \<or> Len \<le> 0 \<or> Fd \<noteq> BOARD_CC3100_FD then (-1, s)
      else
        (let s1 = cc3100_spi_select s
         in if rx_queue s1 = None then (-1, cc3100_spi_deselect s1)
            else
              (let s2 = callbacks recieve_callback (early env) (spi_do [SPIDRV_MReceive Len] (s1\<lparr>rx_queue := Some None\<rparr>))
               in if submit env \<noteq> ECODE_OK then (-1, cc3100_spi_deselect s2)
                  else
                    (let s3 = (if rx_queue s2 = Some None then callbacks recieve_callback (in_time env) s2 else s2)
                     in case rx_queue s3 of
                          Some (Some st) \<Rightarrow>
                            (if transferStatus st = ECODE_OK then itemsTransferred st else -1,
                             cc3100_spi_deselect (s3\<lparr>rx_queue := Some None\<rparr>))
                        | _ \<Rightarrow> (-1, cc3100_spi_deselect s3)))))"

definition CC3100_IfWrite :: "xfer_env \<Rightarrow> int \<Rightarrow> nat option \<Rightarrow> int \<Rightarrow> cc3100 \<Rightarrow> int \<times> cc3100" where
  "CC3100_IfWrite env Fd pBuff Len s =
     (if pBuff = None \<or> Len \<le> 0 \<or> Fd \<noteq> BOARD_CC3100_FD then (-1, s)
      else
        (let s1 = cc3100_spi_select s
         in if tx_queue s1 = None then (-1, cc3100_spi_deselect s1)
            else
              (let s2 = callbacks send_callback (early env) (spi_do [SPIDRV_MTransmit Len] (s1\<lparr>tx_queue := Some None\<rparr>))
               in if submit env \<noteq> ECODE_OK then (-1, cc3100_spi_deselect s2)
                  else
                    (let s3 = (if tx_queue s2 = Some None then callbacks send_callback (in_time env) s2 else s2)
                     in case tx_queue s3 of
                          Some (Some st) \<Rightarrow>
                            (if transferStatus st = ECODE_OK then itemsTransferred st else -1,
                             cc3100_spi_deselect (s3\<lparr>tx_queue := Some None\<rparr>))
                        | _ \<Rightarrow> (-1, cc3100_spi_deselect s3)))))"


subsection \<open>The event handlers\<close>

datatype device_event =
    SL_DEVICE_GENERAL_ERROR_EVENT int int | SL_DEVICE_ABORT_ERROR_EVENT int int
  | SL_DEVICE_DRIVER_ASSERT_ERROR_EVENT | SL_DEVICE_DRIVER_TIMEOUT_CMD_COMPLETE
  | SL_DEVICE_DRIVER_TIMEOUT_SYNC_PATTERN | SL_DEVICE_DRIVER_TIMEOUT_ASYNC_EVENT
  | SL_DEVICE_other u32

text \<open>\<open>None\<close> is the NULL event. A text is the format that is printed, with its arguments.\<close>

definition CC3100_GeneralEvtHdlr :: "device_event option \<Rightarrow> cc3100 \<Rightarrow> cc3100" where
  "CC3100_GeneralEvtHdlr slGeneralEvent =
     spi_do (case slGeneralEvent of
         None \<Rightarrow> []
       | Some (SL_DEVICE_GENERAL_ERROR_EVENT status sender) \<Rightarrow>
           [Event_text ''General Error: Status=%d, Sender=%d'' [status, sender], System_reset]
       | Some (SL_DEVICE_ABORT_ERROR_EVENT type data) \<Rightarrow>
           [Event_text ''Abort Error: AbortType=%l, AbortData=%l'' [type, data], System_reset]
       | Some SL_DEVICE_DRIVER_ASSERT_ERROR_EVENT \<Rightarrow> [Event_text ''Driver Assert Error Occurred.'' []]
       | Some SL_DEVICE_DRIVER_TIMEOUT_CMD_COMPLETE \<Rightarrow> [Event_text ''Driver Timeout: Command did not complete.'' []]
       | Some SL_DEVICE_DRIVER_TIMEOUT_SYNC_PATTERN \<Rightarrow> [Event_text ''Driver Timeout: Sync Pattern not received.'' []]
       | Some SL_DEVICE_DRIVER_TIMEOUT_ASYNC_EVENT \<Rightarrow>
           [Event_text ''Driver Timeout: Async event not received.'' [], System_reset]
       | Some (SL_DEVICE_other n) \<Rightarrow> [])"

datatype sock_event = SL_SOCKET_TX_FAILED_EVENT | SL_SOCKET_ASYNC_EVENT | SL_SOCKET_other u32

definition CC3100_SockEvtHdlr :: "sock_event option \<Rightarrow> cc3100 \<Rightarrow> cc3100" where
  "CC3100_SockEvtHdlr pSlSockEvent =
     spi_do (case pSlSockEvent of
         Some SL_SOCKET_TX_FAILED_EVENT \<Rightarrow> [Event_text ''tx failed'' []]
       | Some SL_SOCKET_ASYNC_EVENT \<Rightarrow> [Event_text ''socket async event'' []]
       | _ \<Rightarrow> [])"

subsection \<open>One transfer\<close>

definition first_own :: "(bool \<times> ecode \<times> int) list \<Rightarrow> transfer_status option" where
  "first_own cs = map_option (\<lambda>(own, st, n). \<lparr>transferStatus = st, itemsTransferred = n\<rparr>) (List.find fst cs)"

lemma first_own_append:
  "first_own (cs @ ds) = (case first_own cs of None \<Rightarrow> first_own ds | Some x \<Rightarrow> Some x)"
  by (induction cs) (auto simp: first_own_def split: option.splits)

lemma callbacks_rx:
  "callbacks recieve_callback cs s =
     s\<lparr>rx_queue := (if rx_queue s = Some None then Some (first_own cs) else rx_queue s)\<rparr>"
  unfolding callbacks_def
  by (induction cs arbitrary: s) (auto simp: recieve_callback_def queue_send_def first_own_def)

lemma callbacks_tx:
  "callbacks send_callback cs s =
     s\<lparr>tx_queue := (if tx_queue s = Some None then Some (first_own cs) else tx_queue s)\<rparr>"
  unfolding callbacks_def
  by (induction cs arbitrary: s) (auto simp: send_callback_def queue_send_def first_own_def)

text \<open>
  What a transfer should answer: the count of the first completion on this port when the
  request was accepted and that completion came in time and without error.
\<close>

definition xfer_result :: "xfer_env \<Rightarrow> int" where
  "xfer_result env =
     (if submit env \<noteq> ECODE_OK then -1
      else (case first_own (early env @ in_time env) of
              None \<Rightarrow> -1
            | Some st \<Rightarrow> if transferStatus st = ECODE_OK then itemsTransferred st else -1))"

definition handler_calls :: "cc3100 \<Rightarrow> spi_event list" where
  "handler_calls s = filter (\<lambda>e. case e of Handler_call f v \<Rightarrow> True | _ \<Rightarrow> False) (spi_log s)"

text \<open>The contract of the two transfer functions, each over its own queue.\<close>

locale spi_transfer =
  fixes xfer :: "xfer_env \<Rightarrow> int \<Rightarrow> nat option \<Rightarrow> int \<Rightarrow> cc3100 \<Rightarrow> int \<times> cc3100"
    and queue :: "cc3100 \<Rightarrow> transfer_status option option"
    and request :: "int \<Rightarrow> spi_event"
  assumes refused: "p = None \<or> n \<le> 0 \<or> fd \<noteq> BOARD_CC3100_FD \<Longrightarrow> xfer env fd p n s = (-1, s)"
    and closed: "queue s = None \<Longrightarrow> n > 0 \<Longrightarrow> fst (xfer env BOARD_CC3100_FD (Some a) n s) = -1
       \<and> spi_log (snd (xfer env BOARD_CC3100_FD (Some a) n s)) = spi_log s @ [Csn False, Us_delay 1, Us_delay 1, Csn True]"
    and transferred: "queue s \<noteq> None \<Longrightarrow> n > 0 \<Longrightarrow> fst (xfer env BOARD_CC3100_FD (Some a) n s) = xfer_result env
       \<and> spi_log (snd (xfer env BOARD_CC3100_FD (Some a) n s)) =
           spi_log s @ [Csn False, Us_delay 1, request n, Us_delay 1, Csn True]"
    and kept: "(tx_queue (snd (xfer env fd p n s)) = None) = (tx_queue s = None)
       \<and> (rx_queue (snd (xfer env fd p n s)) = None) = (rx_queue s = None)
       \<and> interrupt_handler_callback (snd (xfer env fd p n s)) = interrupt_handler_callback s
       \<and> interrupt_handler_pValue (snd (xfer env fd p n s)) = interrupt_handler_pValue s
       \<and> int_enabled (snd (xfer env fd p n s)) = int_enabled s
       \<and> pended (snd (xfer env fd p n s)) = pended s
       \<and> (csn s \<longrightarrow> csn (snd (xfer env fd p n s)))"
    and request_plain: "request n \<noteq> Handler_call f v"
begin

lemma no_handler_call: "handler_calls (snd (xfer env fd p n s)) = handler_calls s"
proof (cases "p = None \<or> n \<le> 0 \<or> fd \<noteq> BOARD_CC3100_FD")
  case True
  then show ?thesis by (simp add: refused)
next
  case False
  then obtain a where p: "p = Some a" "n > 0" "fd = BOARD_CC3100_FD" by auto
  have "(case request n of Handler_call f v \<Rightarrow> True | _ \<Rightarrow> False) = False"
    using request_plain [of n] by (auto split: spi_event.splits)
  with p closed [of s n env a] transferred [of s n env a] show ?thesis
    by (cases "queue s = None") (simp_all add: handler_calls_def)
qed

text \<open>The driver above asks whether a transfer was made in full.\<close>

lemma full_iff:
  assumes "n > 0"
  shows "fst (xfer env BOARD_CC3100_FD (Some a) n s) = n \<longleftrightarrow>
    queue s \<noteq> None \<and> submit env = ECODE_OK
    \<and> first_own (early env @ in_time env) = Some \<lparr>transferStatus = ECODE_OK, itemsTransferred = n\<rparr>"
proof (cases "queue s = None")
  case True
  with closed [of s n env a] assms show ?thesis by simp
next
  case False
  with transferred [of s n env a] assms show ?thesis
    by (auto simp: xfer_result_def split: option.splits intro: transfer_status.equality)
qed

end

interpretation spi_rx: spi_transfer CC3100_IfRead rx_queue SPIDRV_MReceive
  by unfold_locales
    (auto simp: CC3100_IfRead_def callbacks_rx Let_def cc3100_spi_select_def cc3100_spi_deselect_def spi_do_def
      xfer_result_def first_own_append split: option.splits)

interpretation spi_tx: spi_transfer CC3100_IfWrite tx_queue SPIDRV_MTransmit
  by unfold_locales
    (auto simp: CC3100_IfWrite_def callbacks_tx Let_def cc3100_spi_select_def cc3100_spi_deselect_def spi_do_def
      xfer_result_def first_own_append split: option.splits)


subsection \<open>Runs\<close>

text \<open>Everything that can happen to the interface, from the driver, the chip and the tasks.\<close>

datatype cc_op =
    Op_preamble | Op_enable | Op_disable
  | Op_open bool bool ecode string u32 | Op_close ecode int
  | Op_read xfer_env int "nat option" int | Op_write xfer_env int "nat option" int
  | Op_register "nat option" nat
  | Pin_interrupt u8 | Timer_task
  | Rx_callback bool ecode int | Tx_callback bool ecode int
  | Device_event "device_event option" | Sock_event "sock_event option"

fun cc_step :: "cc3100 \<Rightarrow> cc_op \<Rightarrow> cc3100" where
  "cc_step s Op_preamble = CC3100_DeviceEnablePreamble s"
| "cc_step s Op_enable = CC3100_DeviceEnable s"
| "cc_step s Op_disable = CC3100_DeviceDisable s"
| "cc_step s (Op_open t r i n f) = snd (CC3100_IfOpen t r i n f s)"
| "cc_step s (Op_close d fd) = snd (CC3100_IfClose d fd s)"
| "cc_step s (Op_read env fd p n) = snd (CC3100_IfRead env fd p n s)"
| "cc_step s (Op_write env fd p n) = snd (CC3100_IfWrite env fd p n s)"
| "cc_step s (Op_register h v) = CC3100_IfRegIntHdlr h v s"
| "cc_step s (Pin_interrupt i) = cc3100_interrupt_callback i s"
| "cc_step s Timer_task = (if pended s = 0 then s else timerContextCallback (s\<lparr>pended := pended s - 1\<rparr>))"
| "cc_step s (Rx_callback o1 e n) = recieve_callback o1 e n s"
| "cc_step s (Tx_callback o1 e n) = send_callback o1 e n s"
| "cc_step s (Device_event e) = CC3100_GeneralEvtHdlr e s"
| "cc_step s (Sock_event e) = CC3100_SockEvtHdlr e s"

text \<open>The state together with the operations that led to it.\<close>

definition cc_hist :: "cc3100 \<times> cc_op list \<Rightarrow> cc_op \<Rightarrow> cc3100 \<times> cc_op list" where
  "cc_hist sh e = (cc_step (fst sh) e, snd sh @ [e])"

definition cc_inv :: "cc3100 \<times> cc_op list \<Rightarrow> bool" where
  "cc_inv sh \<longleftrightarrow> (case sh of (s, h) \<Rightarrow> csn s
     \<and> (int_enabled s \<longrightarrow> interrupt_handler_callback s \<noteq> None)
     \<and> (\<forall>f. interrupt_handler_callback s = Some f \<longrightarrow> Op_register (Some f) (interrupt_handler_pValue s) \<in> set h)
     \<and> length (handler_calls s) + pended s \<le> length (filter (\<lambda>e. e = Pin_interrupt WIFI_INT_PIN) h)
     \<and> (\<forall>f v. Handler_call f v \<in> set (handler_calls s) \<longrightarrow> Op_register (Some f) v \<in> set h))"

lemmas cc_simple_defs = CC3100_DeviceEnablePreamble_def CC3100_DeviceEnable_def CC3100_DeviceDisable_def
  CC3100_IfOpen_def CC3100_IfClose_def CC3100_IfRegIntHdlr_def cc3100_interrupt_callback_def
  timerContextCallback_def recieve_callback_def send_callback_def CC3100_GeneralEvtHdlr_def
  CC3100_SockEvtHdlr_def cc3100_spi_deselect_def spi_do_def Let_def

text \<open>Only the timer task calls the handler, and only the one that is registered.\<close>

lemma cc_step_calls:
  "handler_calls (cc_step s e) =
     (if e = Timer_task \<and> pended s > 0
      then handler_calls s @ (case interrupt_handler_callback s of
             None \<Rightarrow> [] | Some f \<Rightarrow> [Handler_call f (interrupt_handler_pValue s)])
      else handler_calls s)"
proof (cases e)
  case (Device_event x)
  then show ?thesis
    by (auto simp: handler_calls_def cc_simple_defs split: option.splits device_event.splits)
next
  case (Sock_event x)
  then show ?thesis
    by (auto simp: handler_calls_def cc_simple_defs split: option.splits sock_event.splits)
qed (auto simp: handler_calls_def cc_simple_defs spi_rx.no_handler_call [unfolded handler_calls_def]
    spi_tx.no_handler_call [unfolded handler_calls_def] split: option.splits)


lemma cc_step_handler:
  "interrupt_handler_callback (cc_step s e) = (case e of Op_register h v \<Rightarrow> h | _ \<Rightarrow> interrupt_handler_callback s)"
  "interrupt_handler_pValue (cc_step s e) = (case e of Op_register h v \<Rightarrow> v | _ \<Rightarrow> interrupt_handler_pValue s)"
  "int_enabled (cc_step s e) = (case e of Op_register h v \<Rightarrow> h \<noteq> None | Op_disable \<Rightarrow> False | _ \<Rightarrow> int_enabled s)"
  "pended (cc_step s e) =
     (case e of Pin_interrupt i \<Rightarrow> if i = WIFI_INT_PIN \<and> interrupt_handler_callback s \<noteq> None then pended s + 1 else pended s
      | Timer_task \<Rightarrow> pended s - 1 | _ \<Rightarrow> pended s)"
  by (cases e; auto simp: cc_simple_defs spi_rx.kept spi_tx.kept split: option.splits)+

lemma cc_step_csn: "csn s \<Longrightarrow> csn (cc_step s e)"
  by (cases e) (auto simp: cc_simple_defs spi_rx.kept spi_tx.kept split: option.splits)

lemma cc_inv_step: "cc_inv sh \<Longrightarrow> cc_inv (cc_hist sh e)"
  unfolding cc_inv_def cc_hist_def
  by (cases e) (auto simp: cc_step_calls cc_step_handler cc_step_csn
      split: option.splits if_splits simp del: cc_step.simps)

interpretation cc_run: invariant_machine cc_hist cc_inv
  by unfold_locales (rule cc_inv_step)

lemma foldl_cc_hist: "foldl cc_hist (s, h) es = (foldl cc_step s es, h @ es)"
  by (induction es arbitrary: s h) (simp_all add: cc_hist_def)

lemma cc_start_inv: "cc_inv (Board_CC3100_Init cc3100_off, [])"
  by (simp add: cc_inv_def Board_CC3100_Init_def cc3100_off_def spi_do_def handler_calls_def)

text \<open>
  Whatever the driver, the chip and the tasks do after the board has been started, the
  chip is deselected between the operations; its interrupt is on only while a handler is
  registered; the handler is called at most once for each interrupt of the chip's pin; and
  only handlers that were registered are called, with the value they were registered with.
\<close>

theorem cc3100_runs_keep_invariant:
  "csn (foldl cc_step (Board_CC3100_Init cc3100_off) ops)
     \<and> (interrupt_handler_callback (foldl cc_step (Board_CC3100_Init cc3100_off) ops) = None \<longrightarrow>
          \<not> int_enabled (foldl cc_step (Board_CC3100_Init cc3100_off) ops))
     \<and> length (handler_calls (foldl cc_step (Board_CC3100_Init cc3100_off) ops))
          \<le> length (filter (\<lambda>e. e = Pin_interrupt WIFI_INT_PIN) ops)
     \<and> (\<forall>f v. Handler_call f v \<in> set (handler_calls (foldl cc_step (Board_CC3100_Init cc3100_off) ops))
          \<longrightarrow> Op_register (Some f) v \<in> set ops)"
  using cc_run.run_inv [OF cc_start_inv, of ops] by (auto simp: foldl_cc_hist cc_inv_def)

theorem cc3100_runs_keep_invariant_witness:
  "handler_calls (foldl cc_step (Board_CC3100_Init cc3100_off)
       [Op_register (Some 7) 3, Pin_interrupt 10, Timer_task, Pin_interrupt 4]) = [Handler_call 7 3]
     \<and> length (filter (\<lambda>e. e = Pin_interrupt WIFI_INT_PIN)
         [Op_register (Some 7) 3, Pin_interrupt 10, Timer_task, Pin_interrupt 4]) = 1
     \<and> csn (foldl cc_step (Board_CC3100_Init cc3100_off)
         [Op_register (Some 7) 3, Pin_interrupt 10, Timer_task, Pin_interrupt 4])"
  using cc3100_runs_keep_invariant [where ops = "[Op_register (Some 7) 3, Pin_interrupt 10, Timer_task, Pin_interrupt 4]"]
  by (simp add: handler_calls_def cc_simple_defs Board_CC3100_Init_def cc3100_off_def)

text \<open>
  Once the handler has been unregistered, it is not called any more until one is
  registered again, not even for interrupts that came before and whose call was pending.
\<close>

theorem cc3100_unregistered_silent:
  assumes "\<forall>f v. Op_register (Some f) v \<notin> set ops"
  shows "handler_calls (foldl cc_step (cc_step s (Op_register None x)) ops) = handler_calls s"
proof -
  have "interrupt_handler_callback t = None \<Longrightarrow>
      handler_calls (foldl cc_step t ops) = handler_calls t" for t
    using assms
  proof (induction ops arbitrary: t)
    case Nil
    then show ?case by simp
  next
    case (Cons e ops)
    then have "interrupt_handler_callback (cc_step t e) = None"
    proof (cases e)
      case (Op_register h v)
      with Cons show ?thesis by (cases h) (auto simp: cc_step_handler simp del: cc_step.simps)
    qed (auto simp: cc_step_handler simp del: cc_step.simps)
    with Cons show ?case by (simp add: cc_step_calls del: cc_step.simps)
  qed
  from this [of "cc_step s (Op_register None x)"] show ?thesis
    by (simp add: cc_step_handler cc_step_calls del: cc_step.simps)
qed

theorem cc3100_unregistered_silent_witness:
  "handler_calls (foldl cc_step (cc_step (foldl cc_step (Board_CC3100_Init cc3100_off)
      [Op_register (Some 7) 3, Pin_interrupt 10, Timer_task, Pin_interrupt 10]) (Op_register None 0)) [Timer_task])
     = [Handler_call 7 3]"
proof -
  have "\<forall>f v. Op_register (Some f) v \<notin> set [Timer_task]" by simp
  from cc3100_unregistered_silent [OF this] show ?thesis
    by (simp add: handler_calls_def cc_simple_defs Board_CC3100_Init_def cc3100_off_def)
qed


subsection \<open>Sequences of transfers\<close>

text \<open>The transfers of the driver above, each with its surroundings, and what they answer.\<close>

datatype transfer = Rd xfer_env nat int | Wr xfer_env nat int

fun do_transfers :: "transfer list \<Rightarrow> cc3100 \<Rightarrow> int list \<times> cc3100" where
  "do_transfers [] s = ([], s)"
| "do_transfers (Rd env a n # ts) s =
     (case CC3100_IfRead env BOARD_CC3100_FD (Some a) n s of (r, s1) \<Rightarrow>
        (case do_transfers ts s1 of (rs, s2) \<Rightarrow> (r # rs, s2)))"
| "do_transfers (Wr env a n # ts) s =
     (case CC3100_IfWrite env BOARD_CC3100_FD (Some a) n s of (r, s1) \<Rightarrow>
        (case do_transfers ts s1 of (rs, s2) \<Rightarrow> (r # rs, s2)))"

fun transfer_len :: "transfer \<Rightarrow> int" where
  "transfer_len (Rd env a n) = n"
| "transfer_len (Wr env a n) = n"

fun transfer_answer :: "transfer \<Rightarrow> int" where
  "transfer_answer (Rd env a n) = xfer_result env"
| "transfer_answer (Wr env a n) = xfer_result env"

text \<open>On the lines: select, one request, deselect.\<close>

fun transfer_frame :: "transfer \<Rightarrow> spi_event list" where
  "transfer_frame (Rd env a n) = [Csn False, Us_delay 1, SPIDRV_MReceive n, Us_delay 1, Csn True]"
| "transfer_frame (Wr env a n) = [Csn False, Us_delay 1, SPIDRV_MTransmit n, Us_delay 1, Csn True]"

lemma do_transfers_open:
  "do_transfers ts s = (rs, s') \<Longrightarrow> tx_queue s \<noteq> None \<Longrightarrow> rx_queue s \<noteq> None \<Longrightarrow> \<forall>t \<in> set ts. transfer_len t > 0 \<Longrightarrow>
     rs = map transfer_answer ts \<and> spi_log s' = spi_log s @ concat (map transfer_frame ts)"
proof (induction ts s arbitrary: rs s' rule: do_transfers.induct)
  case (1 s)
  then show ?case by simp
next
  case (2 env a n ts s)
  obtain r s1 where x: "CC3100_IfRead env BOARD_CC3100_FD (Some a) n s = (r, s1)" by fastforce
  obtain rs1 s2 where y: "do_transfers ts s1 = (rs1, s2)" by fastforce
  from x 2 spi_rx.transferred [of s n env a] spi_rx.kept [of env BOARD_CC3100_FD "Some a" n s]
  have "r = xfer_result env" "tx_queue s1 \<noteq> None" "rx_queue s1 \<noteq> None"
    "spi_log s1 = spi_log s @ transfer_frame (Rd env a n)" by auto
  with 2 x y show ?case by fastforce
next
  case (3 env a n ts s)
  obtain r s1 where x: "CC3100_IfWrite env BOARD_CC3100_FD (Some a) n s = (r, s1)" by fastforce
  obtain rs1 s2 where y: "do_transfers ts s1 = (rs1, s2)" by fastforce
  from x 3 spi_tx.transferred [of s n env a] spi_tx.kept [of env BOARD_CC3100_FD "Some a" n s]
  have "r = xfer_result env" "tx_queue s1 \<noteq> None" "rx_queue s1 \<noteq> None"
    "spi_log s1 = spi_log s @ transfer_frame (Wr env a n)" by auto
  with 3 x y show ?case by fastforce
qed

text \<open>
  On a port that was opened with both queues, every transfer answers the count of its
  first completion when that came in time and without error, and -1 otherwise; and on the
  lines each is one frame of its own, selected and deselected around one request. A
  completion left over from an earlier transfer that timed out is not taken for its own
  unless it comes after the request.
\<close>

theorem cc3100_transfers:
  assumes "CC3100_IfOpen True True ECODE_OK (''CC3100'' @ rest) 0 s = (fd, s0)"
    and "\<forall>t \<in> set ts. transfer_len t > 0"
  shows "fd = BOARD_CC3100_FD
     \<and> (\<exists>s'. do_transfers ts (callbacks recieve_callback late (callbacks send_callback late' s0)) = (map transfer_answer ts, s')
          \<and> spi_log s' = spi_log s0 @ concat (map transfer_frame ts))"
proof -
  have p: "strncmp0 (length ''CC3100'') (''CC3100'' @ rest) ''CC3100''"
    by (subst strncmp0_prefix) auto
  have q: "fd = BOARD_CC3100_FD" "tx_queue s0 \<noteq> None" "rx_queue s0 \<noteq> None"
    using assms(1) p by (auto simp: CC3100_IfOpen_def Let_def cc3100_spi_deselect_def spi_do_def split: if_splits)
  obtain rs s' where d: "do_transfers ts (callbacks recieve_callback late (callbacks send_callback late' s0)) = (rs, s')"
    by fastforce
  with q assms(2) do_transfers_open [OF d] show ?thesis
    by (simp add: callbacks_rx callbacks_tx)
qed

text \<open>A read that times out, whose completion comes late, before a good write and a good read.\<close>

theorem cc3100_transfers_witness:
  "\<exists>s0 s'. CC3100_IfOpen True True ECODE_OK ''CC3100'' 0 (Board_CC3100_Init cc3100_off) = (BOARD_CC3100_FD, s0)
     \<and> do_transfers
         [Rd \<lparr>submit = ECODE_OK, early = [], in_time = []\<rparr> 64 4,
          Wr \<lparr>submit = ECODE_OK, early = [], in_time = [(True, ECODE_OK, 8)]\<rparr> 64 8,
          Rd \<lparr>submit = ECODE_OK, early = [(False, ECODE_OK, 1)], in_time = [(True, ECODE_OK, 4)]\<rparr> 64 4]
         (callbacks recieve_callback [(True, ECODE_OK, 2)] s0) = ([-1, 8, 4], s')"
proof -
  obtain fd s0 where o1: "CC3100_IfOpen True True ECODE_OK (''CC3100'' @ []) 0 (Board_CC3100_Init cc3100_off) = (fd, s0)"
    by fastforce
  let ?ts = "[Rd \<lparr>submit = ECODE_OK, early = [], in_time = []\<rparr> 64 4,
          Wr \<lparr>submit = ECODE_OK, early = [], in_time = [(True, ECODE_OK, 8)]\<rparr> 64 8,
          Rd \<lparr>submit = ECODE_OK, early = [(False, ECODE_OK, 1)], in_time = [(True, ECODE_OK, 4)]\<rparr> 64 4]"
  have t: "\<forall>t \<in> set ?ts. transfer_len t > 0" by simp
  have m: "map transfer_answer ?ts = [-1, 8, 4]" by (simp add: xfer_result_def first_own_def)
  from cc3100_transfers [OF o1 t, where late = "[(True, ECODE_OK, 2)]" and late' = "[]"] o1
  show ?thesis unfolding m by (auto simp: callbacks_def)
qed

end
