(* ===== verification/Commandline.thy ===== *)
theory Commandline
  imports Lwm2m
begin

text \<open>
  The command line of the LwM2M client (\<open>csrc/src/lwm2m/commandline.c\<close>): the search of a
  command and its dispatch, the splitting of a line into arguments, the hexadecimal dump of
  a buffer and the text of a status.

  A line, a name or a description is the list of its characters up to the terminator, so a
  pointer into it is the rest of the list. What is printed is a string.
\<close>

subsection \<open>Arguments\<close>

definition arg_char :: "char \<Rightarrow> bool" where
  "arg_char c \<longleftrightarrow> c \<noteq> NUL \<and> \<not> isspace c"

definition prv_end_of_space :: "string \<Rightarrow> string" where
  "prv_end_of_space buffer = dropWhile isspace buffer"

definition get_end_of_arg :: "string \<Rightarrow> string" where
  "get_end_of_arg buffer = dropWhile arg_char buffer"

text \<open>The next argument, and where it ends.\<close>

definition get_next_arg :: "string \<Rightarrow> string \<times> string" where
  "get_next_arg buffer =
     (let next = prv_end_of_space (get_end_of_arg buffer) in (next, get_end_of_arg next))"

definition check_end_of_args :: "string \<Rightarrow> bool" where
  "check_end_of_args buffer = (cstr (prv_end_of_space buffer) = [])"

subsection \<open>Commands\<close>

text \<open>\<open>callback\<close> identifies the function and its user data.\<close>

record command_desc =
  cmd_name :: string
  shortDesc :: string
  longDesc :: "string option"
  callback :: nat

definition name_matches :: "string \<Rightarrow> nat \<Rightarrow> command_desc \<Rightarrow> bool" where
  "name_matches buffer n c \<longleftrightarrow> length (cmd_name c) = n \<and> strncmp0 n buffer (cmd_name c)"

definition prv_find_command :: "command_desc list \<Rightarrow> string \<Rightarrow> nat \<Rightarrow> command_desc option" where
  "prv_find_command commandArray buffer n =
     (if n = 0 then None else List.find (name_matches buffer n) commandArray)"

definition prv_displayHelp :: "command_desc list \<Rightarrow> string \<Rightarrow> string" where
  "prv_displayHelp commandArray buffer =
     (case prv_find_command commandArray buffer (length (takeWhile arg_char buffer)) of
        None \<Rightarrow>
          ''help'' @ [CHR 0x09] @ ''Type 'help [COMMAND]' for more details on a command.'' @ [CHR 0x0D, CHR 0x0A]
          @ concat (map (\<lambda>c. cmd_name c @ [CHR 0x09] @ shortDesc c @ [CHR 0x0D, CHR 0x0A]) commandArray)
      | Some c \<Rightarrow> (case longDesc c of None \<Rightarrow> shortDesc c | Some d \<Rightarrow> d) @ [CHR 0x0D, CHR 0x0A])"

datatype command_result = Called nat string | Printed string

definition handle_command :: "command_desc list \<Rightarrow> string \<Rightarrow> command_result" where
  "handle_command commandArray buffer =
     (let n = length (takeWhile arg_char buffer); rest = dropWhile isspace (drop n buffer)
      in case prv_find_command commandArray buffer n of
           Some c \<Rightarrow> Called (callback c) rest
         | None \<Rightarrow>
             if strncmp0 n buffer ''help'' then Printed (prv_displayHelp commandArray rest)
             else Printed (''Unknown command. Type 'help' for help.'' @ [CHR 0x0D, CHR 0x0A]))"

lemma strncmp0_takeWhile:
  "NUL \<notin> set w \<Longrightarrow> strncmp0 (length w) (w @ rest) t \<longleftrightarrow> prefix w t"
proof (induction w arbitrary: t)
  case Nil
  then show ?case by simp
next
  case (Cons c w)
  then show ?case by (cases t) (auto simp: Let_def)
qed

lemma arg_takeWhile_append:
  "(\<forall>c \<in> set w. arg_char c) \<Longrightarrow> (rest = [] \<or> \<not> arg_char (hd rest)) \<Longrightarrow>
     takeWhile arg_char (w @ rest) = w \<and> dropWhile arg_char (w @ rest) = rest"
  by (induction w) (cases rest; auto)+

lemma name_matches_word:
  assumes "NUL \<notin> set w"
  shows "name_matches (w @ rest) (length w) c \<longleftrightarrow> cmd_name c = w"
  using strncmp0_takeWhile [OF assms, of rest "cmd_name c"]
  by (auto simp: name_matches_def prefix_def)

text \<open>
  A line that starts with a word runs the first command of that name, with the rest of
  the line after the spaces; with no such command, every beginning of the word \<open>help\<close>, the
  empty line included, prints the help; and every other word is answered as unknown.
\<close>

theorem handle_command_dispatch:
  assumes "\<forall>c \<in> set w. arg_char c" and "\<forall>c \<in> set sp. isspace c" and "rest = [] \<or> \<not> isspace (hd rest)"
    and "sp = [] \<longrightarrow> rest = []"
  shows "handle_command cmds (w @ sp @ rest) =
    (case (if w = [] then None else List.find (\<lambda>c. cmd_name c = w) cmds) of
       Some c \<Rightarrow> Called (callback c) rest
     | None \<Rightarrow> if prefix w ''help'' then Printed (prv_displayHelp cmds rest)
               else Printed (''Unknown command. Type 'help' for help.'' @ [CHR 0x0D, CHR 0x0A]))"
proof -
  have n: "NUL \<notin> set w" using assms(1) by (auto simp: arg_char_def)
  have "sp @ rest = [] \<or> \<not> arg_char (hd (sp @ rest))"
    using assms(2,4) by (cases sp) (auto simp: arg_char_def)
  from arg_takeWhile_append [OF assms(1) this]
  have t: "takeWhile arg_char (w @ sp @ rest) = w" by simp
  have r: "dropWhile isspace (sp @ rest) = rest"
    using assms(2,3) by (induction sp) (cases rest; auto)+
  have "name_matches (w @ sp @ rest) (length w) = (\<lambda>c. cmd_name c = w)"
    using name_matches_word [OF n] by auto
  then show ?thesis
    using t r strncmp0_takeWhile [OF n, of "sp @ rest" "''help''"]
    by (auto simp: handle_command_def prv_find_command_def Let_def split: option.splits)
qed


theorem handle_command_dispatch_witness:
  "handle_command [\<lparr>cmd_name = ''list'', shortDesc = ''List'', longDesc = None, callback = 3\<rparr>] ''list  1 2'' = Called 3 ''1 2''
     \<and> handle_command [] [] = Printed (prv_displayHelp [] [])"
proof
  show "handle_command [\<lparr>cmd_name = ''list'', shortDesc = ''List'', longDesc = None, callback = 3\<rparr>] ''list  1 2'' = Called 3 ''1 2''"
    using handle_command_dispatch [where w = "''list''" and sp = "''  ''" and rest = "''1 2''"
        and cmds = "[\<lparr>cmd_name = ''list'', shortDesc = ''List'', longDesc = None, callback = 3\<rparr>]"]
    by (simp add: arg_char_def isspace_def)
  show "handle_command [] [] = Printed (prv_displayHelp [] [])"
    using handle_command_dispatch [where w = "[]" and sp = "[]" and rest = "[]" and cmds = "[]"] by simp
qed

text \<open>The words of a line, as what a loop over \<open>get_next_arg\<close> should see.\<close>

fun words_from :: "string \<Rightarrow> string \<Rightarrow> string list" where
  "words_from acc [] = (if acc = [] then [] else [acc])"
| "words_from acc (c # cs) =
     (if isspace c then (if acc = [] then words_from [] cs else acc # words_from [] cs)
      else words_from (acc @ [c]) cs)"

text \<open>The loop: as many steps as the line can have words.\<close>

fun arg_loop :: "nat \<Rightarrow> string \<Rightarrow> string list" where
  "arg_loop 0 buffer = []"
| "arg_loop (Suc n) buffer =
     (if check_end_of_args buffer then []
      else (let start = prv_end_of_space buffer; end = get_end_of_arg start
            in take (length start - length end) start # arg_loop n end))"

lemma words_from_arg:
  "\<forall>c \<in> set w. arg_char c \<Longrightarrow> acc @ w \<noteq> [] \<Longrightarrow> rest = [] \<or> isspace (hd rest) \<Longrightarrow>
     words_from acc (w @ rest) = (acc @ w) # words_from [] rest"
proof (induction w arbitrary: acc)
  case Nil
  then show ?case by (cases rest) auto
next
  case (Cons c w)
  from Cons.IH [of "acc @ [c]"] Cons.prems show ?case by (simp add: arg_char_def)
qed

lemma words_from_spaces: "words_from [] (dropWhile isspace cs) = words_from [] cs"
  by (induction cs) auto

lemma arg_loop_step:
  assumes "NUL \<notin> set start" and "start \<noteq> []" and "\<not> isspace (hd start)"
  defines "end1 \<equiv> get_end_of_arg start"
  shows "words_from [] start = take (length start - length end1) start # words_from [] end1"
    and "length end1 < length start" and "NUL \<notin> set end1"
proof -
  let ?w = "takeWhile arg_char start"
  have e: "start = ?w @ end1" by (simp add: end1_def get_end_of_arg_def)
  have w: "?w \<noteq> []" using assms(1-3) by (cases start) (auto simp: arg_char_def)
  have n: "NUL \<notin> set end1" using assms(1) e by (metis UnCI set_append)
  have h: "end1 = [] \<or> isspace (hd end1)"
  proof (cases end1)
    case (Cons c cs)
    then have "\<not> arg_char c" using hd_dropWhile [of arg_char start] by (simp add: end1_def get_end_of_arg_def)
    with n Cons show ?thesis by (auto simp: arg_char_def)
  qed simp
  have "\<forall>c \<in> set ?w. arg_char c" by (auto dest: set_takeWhileD)
  from words_from_arg [OF this _ h, of "[]"] w e
  have "words_from [] start = ?w # words_from [] end1" by simp
  moreover have l: "length start = length ?w + length end1" using e by (metis length_append)
  moreover have "take (length start - length end1) start = ?w"
    using l e by (metis add_diff_cancel_right' append_eq_conv_conj)
  ultimately show "words_from [] start = take (length start - length end1) start # words_from [] end1"
    by simp
  show "length end1 < length start" using w l by simp
  show "NUL \<notin> set end1" by (rule n)
qed

text \<open>
  A line splits into its words: taking the argument from behind the spaces to its end,
  and going on from there until \<open>check_end_of_args\<close> holds, gives the words of the line
  in order and ends after at most as many steps as the line has characters; and
  \<open>get_next_arg\<close> goes from one word to the next.
\<close>

theorem arguments_are_words:
  assumes "NUL \<notin> set buffer" and "length buffer \<le> n"
  shows "arg_loop n buffer = words_from [] buffer
     \<and> (\<not> check_end_of_args buffer \<longrightarrow>
          words_from [] (fst (get_next_arg (prv_end_of_space buffer))) = tl (words_from [] buffer))"
proof -
  have loop: "NUL \<notin> set buffer \<Longrightarrow> length buffer \<le> n \<Longrightarrow> arg_loop n buffer = words_from [] buffer" for n buffer
  proof (induction n buffer rule: arg_loop.induct)
    case (1 buffer)
    then show ?case by simp
  next
    case (2 n buffer)
    let ?start = "prv_end_of_space buffer"
    have n: "NUL \<notin> set ?start" using 2 by (auto simp: prv_end_of_space_def dest: set_dropWhileD)
    show ?case
    proof (cases "?start = []")
      case True
      then have "words_from [] buffer = []"
        by (metis prv_end_of_space_def words_from.simps(1) words_from_spaces)
      with True show ?thesis by (simp add: check_end_of_args_def)
    next
      case False
      have "\<not> isspace (hd ?start)"
        using False hd_dropWhile [of isspace buffer] by (simp add: prv_end_of_space_def)
      note s = arg_loop_step [OF n False this]
      have c: "\<not> check_end_of_args buffer" using False n by (simp add: check_end_of_args_def)
      have "length ?start \<le> length buffer" by (simp add: prv_end_of_space_def length_dropWhile_le)
      with 2 s c show ?thesis
        by (simp add: Let_def flip: words_from_spaces [of buffer] prv_end_of_space_def)
    qed
  qed
  moreover have "words_from [] (fst (get_next_arg (prv_end_of_space buffer))) = tl (words_from [] buffer)"
    if "\<not> check_end_of_args buffer"
  proof -
    let ?start = "prv_end_of_space buffer"
    have n: "NUL \<notin> set ?start" using assms by (auto simp: prv_end_of_space_def dest: set_dropWhileD)
    have f: "?start \<noteq> []" using that by (auto simp: check_end_of_args_def)
    have "\<not> isspace (hd ?start)" using f hd_dropWhile [of isspace buffer] by (simp add: prv_end_of_space_def)
    note s = arg_loop_step [OF n f this]
    show ?thesis
      using s(1) words_from_spaces [of "get_end_of_arg ?start"] words_from_spaces [of buffer]
      by (simp add: get_next_arg_def Let_def prv_end_of_space_def)
  qed
  ultimately show ?thesis using assms by simp
qed

theorem arguments_are_words_witness:
  "arg_loop 13 ''read  /3/0/1 '' = [''read'', ''/3/0/1'']"
  using arguments_are_words [where buffer = "''read  /3/0/1 ''" and n = 13] by (simp add: isspace_def)


subsection \<open>The dump of a buffer\<close>

definition hexdigits :: string where
  "hexdigits = ''0123456789ABCDEF''"

text \<open>\<open>%02X\<close>.\<close>

definition hex2 :: "u8 \<Rightarrow> string" where
  "hex2 b = [hexdigits ! (unat b div 16), hexdigits ! (unat b mod 16)]"

abbreviation newline :: char where
  "newline \<equiv> CHR 0x0A"

definition print_indent :: "nat \<Rightarrow> string" where
  "print_indent num = replicate (4 * num) CHR 0x20"

definition group_gap :: "nat \<Rightarrow> string" where
  "group_gap j = (if j mod 4 = 3 then '' '' else [])"

text \<open>One line: the bytes, the gaps of a short last line, and the printable characters.\<close>

definition row_cells :: "u8 list \<Rightarrow> nat \<Rightarrow> nat \<Rightarrow> string" where
  "row_cells array j n = concat (map (\<lambda>j. hex2 (array ! j) @ '' '' @ group_gap j) [j..<n])"

definition dump_row :: "u8 list \<Rightarrow> nat \<Rightarrow> nat \<Rightarrow> nat \<Rightarrow> string" where
  "dump_row array len i indent =
     (let n = min 16 (len - i)
      in print_indent indent @ row_cells array 0 n
         @ (if len > 16 then concat (map (\<lambda>j. ''   '' @ group_gap j) [n..<16]) else [])
         @ '' '' @ map (\<lambda>b. if isprint b then char_of (unat b) else CHR ''.'') (take n array) @ [newline])"

text \<open>
  The rows from offset \<open>i\<close>. Each copies 16 bytes of the buffer, so \<open>None\<close> is a copy from
  outside of it; \<open>buffer\<close> is all that may be read, which may be more than \<open>len\<close> bytes.
\<close>

function dump_rows :: "u8 list \<Rightarrow> nat \<Rightarrow> nat \<Rightarrow> nat \<Rightarrow> string option" where
  "dump_rows buffer len indent i =
     (if i < len then
        (if i + 16 \<le> length buffer
         then map_option ((@) (dump_row (take 16 (drop i buffer)) len i indent)) (dump_rows buffer len indent (i + 16))
         else None)
      else Some [])"
  by pat_completeness auto
termination
  by (relation "measure (\<lambda>(buffer, len, indent, i). len - i)") auto

declare dump_rows.simps [simp del]

definition output_buffer :: "u8 list option \<Rightarrow> nat \<Rightarrow> nat \<Rightarrow> string option" where
  "output_buffer buffer len indent =
     map_option ((@) (if len = 0 then [newline] else []))
       (case buffer of None \<Rightarrow> Some [] | Some b \<Rightarrow> dump_rows b len indent 0)"

text \<open>Where the copies end, counted from offset \<open>i\<close>.\<close>

lemma dump_rows_defined:
  "dump_rows buffer len indent i \<noteq> None \<longleftrightarrow> (i < len \<longrightarrow> i + 16 * ((len - i + 15) div 16) \<le> length buffer)"
proof (induction buffer len indent i rule: dump_rows.induct)
  case (1 buffer len indent i)
  show ?case
  proof (cases "i < len")
    case True
    show ?thesis
    proof (cases "i + 16 < len")
      case more: True
      then obtain k where "len = i + 16 + k" using less_imp_add_positive by blast
      moreover have "(16 + k + 15) div 16 = 1 + (k + 15) div 16" by presburger
      ultimately have "16 * ((len - i + 15) div 16) = 16 + 16 * ((len - (i + 16) + 15) div 16)" by simp
      with True more 1 show ?thesis by (subst dump_rows.simps) auto
    next
      case False
      with True have "(len - i + 15) div 16 = 1" by auto
      with True False show ?thesis
        by (subst dump_rows.simps) (simp add: dump_rows.simps [of buffer len indent "i + 16"])
    qed
  next
    case False
    then show ?thesis by (simp add: dump_rows.simps)
  qed
qed

text \<open>
  The dump reads its buffer in blocks of 16 bytes: it stays inside a buffer exactly when
  the length rounded up to 16 does, so on a buffer of just the dumped length it reads past
  the end unless that length is a multiple of 16.
\<close>

theorem output_buffer_overread:
  "(output_buffer (Some b) len indent \<noteq> None \<longleftrightarrow> 16 * ((len + 15) div 16) \<le> length b)
     \<and> (output_buffer (Some b) (length b) indent \<noteq> None \<longleftrightarrow> 16 dvd length b)"
proof -
  have k: "output_buffer (Some b) len indent \<noteq> None \<longleftrightarrow> 16 * ((len + 15) div 16) \<le> length b" for len
    using dump_rows_defined [of b len indent 0] by (auto simp: output_buffer_def)
  have "16 * ((n + 15) div 16) \<le> n \<longleftrightarrow> 16 dvd n" for n :: nat by presburger
  with k show ?thesis by blast
qed


text \<open>Reading a dump back, knowing the length and the indentation.\<close>

definition hexval :: "char \<Rightarrow> nat" where
  "hexval c = length (takeWhile (\<lambda>d. d \<noteq> c) hexdigits)"

fun read_cells :: "nat \<Rightarrow> nat \<Rightarrow> string \<Rightarrow> u8 list \<times> string" where
  "read_cells 0 j s = ([], s)"
| "read_cells (Suc n) j s =
     (case read_cells n (Suc j) (drop (3 + length (group_gap j)) s) of
        (bs, rest) \<Rightarrow> (of_nat (16 * hexval (s ! 0) + hexval (s ! 1)) # bs, rest))"

function read_dump :: "nat \<Rightarrow> nat \<Rightarrow> string \<Rightarrow> u8 list" where
  "read_dump len indent s =
     (if len = 0 then []
      else (case read_cells (min 16 len) 0 (drop (4 * indent) s) of
              (bs, rest) \<Rightarrow> bs @ read_dump (len - 16) indent (tl (dropWhile (\<lambda>c. c \<noteq> newline) rest))))"
  by pat_completeness auto
termination
  by (relation "measure (\<lambda>(len, indent, s). len)") auto

declare read_dump.simps [simp del]

lemma hexval_digit: "n < 16 \<Longrightarrow> hexval (hexdigits ! n) = n"
proof -
  have "\<forall>n \<in> set [0..<16]. hexval (hexdigits ! n) = n" by code_simp
  then show "n < 16 \<Longrightarrow> hexval (hexdigits ! n) = n" by simp
qed

lemma hex2_val: "of_nat (16 * hexval (hex2 b ! 0) + hexval (hex2 b ! 1)) = (b :: u8)"
proof -
  have "unat b < 2 ^ LENGTH(8)" by (rule unsigned_less)
  then have "unat b div 16 < 16" by simp
  then have e: "16 * hexval (hex2 b ! 0) + hexval (hex2 b ! 1) = unat b"
    by (simp add: hex2_def hexval_digit)
  show ?thesis unfolding e by simp
qed

lemma read_cells_back:
  "j + n \<le> length array \<Longrightarrow> read_cells n j (row_cells array j (j + n) @ rest) = (take n (drop j array), rest)"
proof (induction n arbitrary: j)
  case 0
  then show ?case by (simp add: row_cells_def)
next
  case (Suc n)
  have c: "row_cells array j (j + Suc n) = hex2 (array ! j) @ '' '' @ group_gap j @ row_cells array (Suc j) (Suc j + n)"
    using upt_conv_Cons [of j "j + Suc n"] by (simp add: row_cells_def del: upt_Suc)
  have l: "length (hex2 b) = 2" "(hex2 b @ t) ! 0 = hex2 b ! 0" "(hex2 b @ t) ! 1 = hex2 b ! 1" for b t
    by (simp_all add: hex2_def)
  have "drop (3 + length (group_gap j)) (hex2 (array ! j) @ '' '' @ group_gap j @ t) = t" for t
    by (simp add: hex2_def numeral_3_eq_3)
  moreover have "take (Suc n) (drop j array) = array ! j # take n (drop (Suc j) array)"
    using Suc.prems by (simp add: Cons_nth_drop_Suc flip: Cons_nth_drop_Suc)
  ultimately show ?case
    using Suc by (simp only: c append_assoc read_cells.simps l hex2_val) simp
qed

lemma no_newline:
  "newline \<notin> set ((if len > 16 then concat (map (\<lambda>j. ''   '' @ group_gap j) [n..<16]) else [])
     @ '' '' @ map (\<lambda>b. if isprint b then char_of (unat b) else CHR ''.'') bs)"
proof -
  have "newline \<noteq> char_of (unat (b :: u8))" if "isprint b" for b
  proof
    assume "newline = char_of (unat b)"
    then have "of_char newline = (of_char (char_of (unat b)) :: nat)" by (rule arg_cong)
    then have "unat b mod 256 = 10" by simp
    moreover have "unat b < 2 ^ LENGTH(8)" by (rule unsigned_less)
    ultimately have "unat b = 10" by simp
    with that show False by (simp add: isprint_def word_le_nat_alt)
  qed
  then show ?thesis by (auto simp: group_gap_def)
qed

lemma dropWhile_no: "x \<notin> set a \<Longrightarrow> dropWhile (\<lambda>c. c \<noteq> x) (a @ x # b) = x # b"
  by (induction a) auto

lemma dump_rows_read:
  "dump_rows buffer len indent i = Some s \<Longrightarrow> read_dump (len - i) indent s = take (len - i) (drop i buffer)"
proof (induction buffer len indent i arbitrary: s rule: dump_rows.induct)
  case (1 buffer len indent i)
  show ?case
  proof (cases "i < len")
    case False
    then show ?thesis by (simp add: read_dump.simps)
  next
    case True
    let ?a = "take 16 (drop i buffer)" and ?n = "min 16 (len - i)"
    from True 1(2) obtain t where b: "i + 16 \<le> length buffer" and t: "dump_rows buffer len indent (i + 16) = Some t"
      and s: "s = dump_row ?a len i indent @ t"
      by (auto simp: dump_rows.simps [of buffer len indent i] split: if_splits)
    let ?mid = "(if len > 16 then concat (map (\<lambda>j. ''   '' @ group_gap j) [?n..<16]) else [])
     @ '' '' @ map (\<lambda>b. if isprint b then char_of (unat b) else CHR ''.'') (take ?n ?a)"
    have d: "drop (4 * indent) s = row_cells ?a 0 (0 + ?n) @ ?mid @ newline # t"
      by (simp add: s dump_row_def print_indent_def Let_def)
    have r: "read_cells ?n 0 (drop (4 * indent) s) = (take ?n ?a, ?mid @ newline # t)"
      unfolding d using read_cells_back [of 0 ?n ?a "?mid @ newline # t"] b by simp
    have "tl (dropWhile (\<lambda>c. c \<noteq> newline) (?mid @ newline # t)) = t"
      by (subst dropWhile_no [OF no_newline]) simp
    with r True have "read_dump (len - i) indent s = take ?n ?a @ read_dump (len - i - 16) indent t"
      by (subst read_dump.simps) (simp del: append_assoc)
    also have "read_dump (len - i - 16) indent t = take (len - i - 16) (drop (i + 16) buffer)"
      using 1(1) [OF True b t] by (simp add: add.commute)
    also have "take ?n ?a = take (min 16 (len - i)) (drop i buffer)" by simp
    also have "take (min 16 (len - i)) (drop i buffer) @ take (len - i - 16) (drop (i + 16) buffer)
        = take (len - i) (drop i buffer)"
    proof (cases "len - i \<le> 16")
      case True
      then show ?thesis by (simp add: min_absorb2)
    next
      case False
      then have "take (16 + (len - i - 16)) (drop i buffer) = take 16 (drop i buffer) @ take (len - i - 16) (drop 16 (drop i buffer))"
        by (simp only: take_add)
      with False show ?thesis by (simp add: min_absorb1 add.commute)
    qed
    finally show ?thesis .
  qed
qed

text \<open>
  No byte is lost or changed in a dump: reading it back gives the dumped bytes.
\<close>

theorem output_buffer_reads_back:
  assumes "output_buffer (Some b) len indent = Some s"
  shows "read_dump len indent s = take len b"
proof (cases "len = 0")
  case True
  then show ?thesis by (simp add: read_dump.simps)
next
  case False
  with assms dump_rows_read [of b len indent 0 s] show ?thesis by (simp add: output_buffer_def)
qed


theorem output_buffer_reads_back_witness:
  "\<exists>s. output_buffer (Some (map of_nat [60..<76])) 5 1 = Some s \<and> read_dump 5 1 s = [60, 61, 62, 63, 64]"
proof -
  obtain s where "output_buffer (Some (map of_nat [60..<76])) 5 1 = Some s"
    using output_buffer_overread [where b = "map of_nat [60..<76]" and len = 5 and indent = 1] by auto
  from this output_buffer_reads_back [OF this] show ?thesis by (simp add: upt_rec)
qed

subsection \<open>The text of a status\<close>

text \<open>
  The codes are those of CoAP: the class in the upper three bits, the detail below. \<open>None\<close> is
  a code that has no name here.
\<close>

fun coap_code :: "coap_status \<Rightarrow> u8" where
  "coap_code COAP_NO_ERROR = 0x00"
| "coap_code COAP_IGNORE = 0x01"
| "coap_code COAP_201_CREATED = 0x41"
| "coap_code COAP_202_DELETED = 0x42"
| "coap_code COAP_204_CHANGED = 0x44"
| "coap_code COAP_205_CONTENT = 0x45"
| "coap_code COAP_400_BAD_REQUEST = 0x80"
| "coap_code COAP_401_UNAUTHORIZED = 0x81"
| "coap_code COAP_404_NOT_FOUND = 0x84"
| "coap_code COAP_405_METHOD_NOT_ALLOWED = 0x85"
| "coap_code COAP_406_NOT_ACCEPTABLE = 0x86"
| "coap_code COAP_500_INTERNAL_SERVER_ERROR = 0xA0"
| "coap_code COAP_501_NOT_IMPLEMENTED = 0xA1"
| "coap_code COAP_503_SERVICE_UNAVAILABLE = 0xA3"

fun status_text :: "coap_status \<Rightarrow> string" where
  "status_text COAP_NO_ERROR = ''COAP_NO_ERROR''"
| "status_text COAP_IGNORE = ''COAP_IGNORE''"
| "status_text COAP_201_CREATED = ''COAP_201_CREATED''"
| "status_text COAP_202_DELETED = ''COAP_202_DELETED''"
| "status_text COAP_204_CHANGED = ''COAP_204_CHANGED''"
| "status_text COAP_205_CONTENT = ''COAP_205_CONTENT''"
| "status_text COAP_400_BAD_REQUEST = ''COAP_400_BAD_REQUEST''"
| "status_text COAP_401_UNAUTHORIZED = ''COAP_401_UNAUTHORIZED''"
| "status_text COAP_404_NOT_FOUND = ''COAP_404_NOT_FOUND''"
| "status_text COAP_405_METHOD_NOT_ALLOWED = ''COAP_405_METHOD_NOT_ALLOWED''"
| "status_text COAP_406_NOT_ACCEPTABLE = ''COAP_406_NOT_ACCEPTABLE''"
| "status_text COAP_500_INTERNAL_SERVER_ERROR = ''COAP_500_INTERNAL_SERVER_ERROR''"
| "status_text COAP_501_NOT_IMPLEMENTED = ''COAP_501_NOT_IMPLEMENTED''"
| "status_text COAP_503_SERVICE_UNAVAILABLE = ''COAP_503_SERVICE_UNAVAILABLE''"

definition named_statuses :: "coap_status list" where
  "named_statuses = [COAP_NO_ERROR, COAP_IGNORE, COAP_201_CREATED, COAP_202_DELETED, COAP_204_CHANGED,
     COAP_205_CONTENT, COAP_400_BAD_REQUEST, COAP_401_UNAUTHORIZED, COAP_404_NOT_FOUND,
     COAP_405_METHOD_NOT_ALLOWED, COAP_406_NOT_ACCEPTABLE, COAP_500_INTERNAL_SERVER_ERROR,
     COAP_501_NOT_IMPLEMENTED, COAP_503_SERVICE_UNAVAILABLE]"

definition prv_status_to_string :: "u8 \<Rightarrow> string" where
  "prv_status_to_string status =
     (case List.find (\<lambda>c. coap_code c = status) named_statuses of None \<Rightarrow> [] | Some c \<Rightarrow> status_text c)"

text \<open>\<open>%d\<close> of the class (one digit) and \<open>%02d\<close> of the detail (below 32).\<close>

definition print_status :: "u8 \<Rightarrow> string" where
  "print_status status =
     (let class = unat (drop_bit 5 (status AND 0xE0)); detail = unat (status AND 0x1F)
      in [hexdigits ! class] @ ''.'' @ [hexdigits ! (detail div 10), hexdigits ! (detail mod 10)]
         @ '' ('' @ prv_status_to_string status @ '')'')"

lemma u8_below: "unat (a :: u8) < 256"
proof -
  have "unat a < 2 ^ LENGTH(8)" by (rule unsigned_less)
  then show ?thesis by simp
qed

lemma class_detail:
  "unat (drop_bit 5 (a AND 0xE0 :: u8)) = unat a div 32" "unat (a AND 0x1F :: u8) = unat a mod 32"
proof -
  have "drop_bit 5 (a AND 0xE0) = take_bit 3 (drop_bit 5 a)"
    by (simp add: take_bit_eq_mask mask_numeral)
  then have "unat (drop_bit 5 (a AND 0xE0)) = unat a div 32 mod 8"
    by (simp only: unsigned_take_bit_eq unsigned_drop_bit_eq) (simp add: take_bit_eq_mod drop_bit_eq_div u8_below)
  then show "unat (drop_bit 5 (a AND 0xE0 :: u8)) = unat a div 32"
    using u8_below [of a] by simp
  have "a AND 0x1F = take_bit 5 a" by (simp add: take_bit_eq_mask mask_numeral)
  then show "unat (a AND 0x1F :: u8) = unat a mod 32"
    by (simp only: unsigned_take_bit_eq) (simp add: take_bit_eq_mod)
qed

text \<open>
  The text of a status gives class and detail: the three digits of the code are the ones
  in its name, different codes give different texts, and codes without a name
  get an empty one.
\<close>

theorem print_status_correct:
  shows "(\<forall>c \<in> set (drop 2 named_statuses). take 5 (status_text c) = ''COAP_''
            \<and> print_status (coap_code c) =
                [status_text c ! 5] @ ''.'' @ [status_text c ! 6, status_text c ! 7] @ '' ('' @ status_text c @ '')'')
     \<and> (print_status a = print_status b \<longrightarrow> a = b)
     \<and> (a \<notin> coap_code ` set named_statuses \<longrightarrow> prv_status_to_string a = [])"
proof (intro conjI impI)
  show "\<forall>c \<in> set (drop 2 named_statuses). take 5 (status_text c) = ''COAP_''
            \<and> print_status (coap_code c) =
                [status_text c ! 5] @ ''.'' @ [status_text c ! 6, status_text c ! 7] @ '' ('' @ status_text c @ '')''"
    by code_simp
  show "prv_status_to_string a = []" if "a \<notin> coap_code ` set named_statuses"
  proof -
    have "List.find (\<lambda>c. coap_code c = a) named_statuses = None"
      using that by (auto simp: find_None_iff)
    then show ?thesis by (simp add: prv_status_to_string_def)
  qed
  assume "print_status a = print_status b"
  then have h: "hexdigits ! (unat a div 32) = hexdigits ! (unat b div 32)"
      "hexdigits ! (unat a mod 32 div 10) = hexdigits ! (unat b mod 32 div 10)"
      "hexdigits ! (unat a mod 32 mod 10) = hexdigits ! (unat b mod 32 mod 10)"
    by (simp_all only: print_status_def class_detail Let_def append_Cons append_Nil list.inject)
  have u: "unat a < 256" "unat b < 256"
    by (rule u8_below)+
  have inj: "m < 16 \<Longrightarrow> n < 16 \<Longrightarrow> hexdigits ! m = hexdigits ! n \<Longrightarrow> m = n" for m n
    by (metis hexval_digit)
  have "unat a div 32 = unat b div 32" using h(1) u by (intro inj) simp_all
  moreover have "unat a mod 32 div 10 = unat b mod 32 div 10"
    by (rule inj [OF _ _ h(2)]) (simp_all add: less_mult_imp_div_less)
  moreover have "unat a mod 32 mod 10 = unat b mod 32 mod 10"
    by (rule inj [OF _ _ h(3)]) (rule less_trans [of _ 10]; simp)+
  ultimately have "unat a = unat b" by (metis div_mult_mod_eq)
  then show "a = b" by (simp add: word_unat_eq_iff)
qed

theorem print_status_correct_witness:
  "print_status 0x45 = ''2.05 (COAP_205_CONTENT)'' \<and> print_status 0x45 \<noteq> print_status 0x85"
proof -
  have "print_status (coap_code COAP_205_CONTENT) = ''2.05 (COAP_205_CONTENT)''"
    using print_status_correct by (simp add: named_statuses_def)
  moreover have "print_status 0x45 \<noteq> print_status 0x85"
    using print_status_correct [where a = "0x45" and b = "0x85"] by auto
  ultimately show ?thesis by simp
qed

end
