(* ===== verification/FatFs.thy ===== *)
theory FatFs
  imports Prelude
begin

text \<open>
  The FAT file system of the SD card (\<open>csrc/system/ff15/source/ff.c\<close>), in the configuration of
  the firmware (\<open>csrc/config/ffconf.h\<close>: read and write, 512-byte sectors, no long names, no
  exFAT, one volume): the disk window, the file allocation table and the cluster chains.

  The volume object and the disk below it are one state. The disk is the map of its sectors;
  its \<open>n\<close>-th access fails when \<open>io_fail\<close> says so, and a failed write leaves the sector as it
  was. \<open>BYTE\<close>, \<open>WORD\<close>, \<open>DWORD\<close>, \<open>UINT\<close> and \<open>LBA_t\<close> are words of 8, 16, 32, 32 and 32 bits.
\<close>

subsection \<open>Little-endian words\<close>

definition ld_word :: "u8 list \<Rightarrow> nat \<Rightarrow> u16" where
  "ld_word b i = (push_bit 8 (ucast (b ! (i + 1)))) OR ucast (b ! i)"

definition ld_dword :: "u8 list \<Rightarrow> nat \<Rightarrow> u32" where
  "ld_dword b i =
     (let rv = ucast (b ! (i + 3));
          rv = push_bit 8 rv OR ucast (b ! (i + 2));
          rv = push_bit 8 rv OR ucast (b ! (i + 1))
      in push_bit 8 rv OR ucast (b ! i))"

definition st_word :: "u8 list \<Rightarrow> nat \<Rightarrow> u16 \<Rightarrow> u8 list" where
  "st_word b i v = b[i := ucast v, i + 1 := ucast (drop_bit 8 v)]"

definition st_dword :: "u8 list \<Rightarrow> nat \<Rightarrow> u32 \<Rightarrow> u8 list" where
  "st_dword b i v =
     b[i := ucast v, i + 1 := ucast (drop_bit 8 v), i + 2 := ucast (drop_bit 8 (drop_bit 8 v)),
       i + 3 := ucast (drop_bit 8 (drop_bit 8 (drop_bit 8 v)))]"

subsection \<open>The volume\<close>

datatype FRESULT =
    FR_OK | FR_DISK_ERR | FR_INT_ERR | FR_NOT_READY | FR_NO_FILE | FR_NO_PATH | FR_INVALID_NAME
  | FR_DENIED | FR_EXIST | FR_INVALID_OBJECT | FR_WRITE_PROTECTED | FR_INVALID_DRIVE
  | FR_NOT_ENABLED | FR_NO_FILESYSTEM | FR_MKFS_ABORTED | FR_TIMEOUT | FR_LOCKED
  | FR_NOT_ENOUGH_CORE | FR_TOO_MANY_OPEN_FILES | FR_INVALID_PARAMETER

datatype fat_type = FS_NONE | FS_FAT12 | FS_FAT16 | FS_FAT32

record fatfs =
  fs_type :: fat_type
  n_fats :: u8
  wflag :: bool
  fsi_flag :: u8
  vol_id :: u16
  n_rootdir :: u16
  csize :: u16
  last_clst :: u32
  free_clst :: u32
  cdir :: u32
  n_fatent :: u32
  fsize :: u32
  volbase :: u32
  fatbase :: u32
  dirbase :: u32
  database :: u32
  winsect :: u32
  win :: "u8 list"
  disk :: "u32 \<Rightarrow> u8 list"
  io_fail :: "nat \<Rightarrow> bool"
  io_count :: nat

definition disk_read_sector :: "u32 \<Rightarrow> fatfs \<Rightarrow> u8 list option \<times> fatfs" where
  "disk_read_sector sect fs =
     (if io_fail fs (io_count fs) then None else Some (disk fs sect), fs\<lparr>io_count := io_count fs + 1\<rparr>)"

definition disk_write_sector :: "u32 \<Rightarrow> u8 list \<Rightarrow> fatfs \<Rightarrow> bool \<times> fatfs" where
  "disk_write_sector sect data fs =
     (if io_fail fs (io_count fs) then (False, fs\<lparr>io_count := io_count fs + 1\<rparr>)
      else (True, fs\<lparr>io_count := io_count fs + 1, disk := (disk fs)(sect := data)\<rparr>))"

text \<open>\<open>disk_ioctl(CTRL_SYNC)\<close>.\<close>

definition disk_sync :: "fatfs \<Rightarrow> bool \<times> fatfs" where
  "disk_sync fs = (\<not> io_fail fs (io_count fs), fs\<lparr>io_count := io_count fs + 1\<rparr>)"

subsection \<open>The disk window\<close>

definition sync_window :: "fatfs \<Rightarrow> FRESULT \<times> fatfs" where
  "sync_window fs =
     (if wflag fs then
        (case disk_write_sector (winsect fs) (win fs) fs of
           (ok, fs1) \<Rightarrow>
             if ok then
               (let fs2 = fs1\<lparr>wflag := False\<rparr>
                in (FR_OK, if winsect fs2 - fatbase fs2 < fsize fs2 \<and> n_fats fs2 = 2
                           then snd (disk_write_sector (winsect fs2 + fsize fs2) (win fs2) fs2) else fs2))
             else (FR_DISK_ERR, fs1))
      else (FR_OK, fs))"

definition move_window :: "u32 \<Rightarrow> fatfs \<Rightarrow> FRESULT \<times> fatfs" where
  "move_window sect fs =
     (if sect \<noteq> winsect fs then
        (case sync_window fs of
           (res, fs1) \<Rightarrow>
             if res = FR_OK then
               (case disk_read_sector sect fs1 of
                  (None, fs2) \<Rightarrow> (FR_DISK_ERR, fs2\<lparr>winsect := 0 - 1\<rparr>)
                | (Some data, fs2) \<Rightarrow> (FR_OK, fs2\<lparr>win := data, winsect := sect\<rparr>))
             else (res, fs1))
      else (FR_OK, fs))"

definition sync_fs :: "fatfs \<Rightarrow> FRESULT \<times> fatfs" where
  "sync_fs fs =
     (case sync_window fs of
        (res, fs1) \<Rightarrow>
          if res = FR_OK then
            (let fs2 =
               (if fs_type fs1 = FS_FAT32 \<and> fsi_flag fs1 = 1 then
                  (let w = st_word (replicate 512 0) 510 0xAA55;
                       w = st_dword w 0 0x41615252;
                       w = st_dword w 484 0x61417272;
                       w = st_dword w 488 (free_clst fs1);
                       w = st_dword w 492 (last_clst fs1)
                   in (snd (disk_write_sector (volbase fs1 + 1) w
                             (fs1\<lparr>win := w, winsect := volbase fs1 + 1\<rparr>)))\<lparr>fsi_flag := 0\<rparr>)
                else fs1)
             in case disk_sync fs2 of (ok, fs3) \<Rightarrow> (if ok then FR_OK else FR_DISK_ERR, fs3))
          else (res, fs1))"

definition clst2sect :: "fatfs \<Rightarrow> u32 \<Rightarrow> u32" where
  "clst2sect fs clst =
     (let clst = clst - 2 in if clst \<ge> n_fatent fs - 2 then 0 else database fs + ucast (csize fs) * clst)"

subsection \<open>The file allocation table\<close>

text \<open>1 is an internal error, all ones a disk error.\<close>

definition get_fat :: "u32 \<Rightarrow> fatfs \<Rightarrow> u32 \<times> fatfs" where
  "get_fat clst fs =
     (if clst < 2 \<or> clst \<ge> n_fatent fs then (1, fs)
      else (case fs_type fs of
              FS_FAT12 \<Rightarrow>
                (let bc = clst + clst div 2
                 in case move_window (fatbase fs + bc div 512) fs of
                      (res, fs1) \<Rightarrow>
                        if res \<noteq> FR_OK then (0xFFFFFFFF, fs1)
                        else
                          (let wc = ucast (win fs1 ! unat (bc mod 512)) :: u32; bc = bc + 1
                           in case move_window (fatbase fs1 + bc div 512) fs1 of
                                (res, fs2) \<Rightarrow>
                                  if res \<noteq> FR_OK then (0xFFFFFFFF, fs2)
                                  else
                                    (let wc = wc OR push_bit 8 (ucast (win fs2 ! unat (bc mod 512)))
                                     in (if clst AND 1 \<noteq> 0 then drop_bit 4 wc else wc AND 0xFFF, fs2))))
            | FS_FAT16 \<Rightarrow>
                (case move_window (fatbase fs + clst div 256) fs of
                   (res, fs1) \<Rightarrow>
                     if res \<noteq> FR_OK then (0xFFFFFFFF, fs1)
                     else (ucast (ld_word (win fs1) (unat (clst * 2 mod 512))), fs1))
            | FS_FAT32 \<Rightarrow>
                (case move_window (fatbase fs + clst div 128) fs of
                   (res, fs1) \<Rightarrow>
                     if res \<noteq> FR_OK then (0xFFFFFFFF, fs1)
                     else (ld_dword (win fs1) (unat (clst * 4 mod 512)) AND 0x0FFFFFFF, fs1))
            | FS_NONE \<Rightarrow> (1, fs)))"

definition put_fat :: "u32 \<Rightarrow> u32 \<Rightarrow> fatfs \<Rightarrow> FRESULT \<times> fatfs" where
  "put_fat clst val fs =
     (if clst \<ge> 2 \<and> clst < n_fatent fs then
        (case fs_type fs of
           FS_FAT12 \<Rightarrow>
             (let bc = clst + clst div 2
              in case move_window (fatbase fs + bc div 512) fs of
                   (res, fs1) \<Rightarrow>
                     if res \<noteq> FR_OK then (res, fs1)
                     else
                       (let i = unat (bc mod 512); p = win fs1 ! i;
                            fs2 = fs1\<lparr>win := (win fs1)[i := if clst AND 1 \<noteq> 0
                                        then (p AND 0x0F) OR push_bit 4 (ucast val) else ucast val],
                                      wflag := True\<rparr>;
                            bc = bc + 1
                        in case move_window (fatbase fs2 + bc div 512) fs2 of
                             (res, fs3) \<Rightarrow>
                               if res \<noteq> FR_OK then (res, fs3)
                               else
                                 (let i = unat (bc mod 512); p = win fs3 ! i
                                  in (FR_OK,
                                      fs3\<lparr>win := (win fs3)[i := if clst AND 1 \<noteq> 0 then ucast (drop_bit 4 val)
                                                   else (p AND 0xF0) OR (ucast (drop_bit 8 val) AND 0x0F)],
                                          wflag := True\<rparr>))))
         | FS_FAT16 \<Rightarrow>
             (case move_window (fatbase fs + clst div 256) fs of
                (res, fs1) \<Rightarrow>
                  if res \<noteq> FR_OK then (res, fs1)
                  else (FR_OK, fs1\<lparr>win := st_word (win fs1) (unat (clst * 2 mod 512)) (ucast val),
                                   wflag := True\<rparr>))
         | FS_FAT32 \<Rightarrow>
             (case move_window (fatbase fs + clst div 128) fs of
                (res, fs1) \<Rightarrow>
                  if res \<noteq> FR_OK then (res, fs1)
                  else
                    (let i = unat (clst * 4 mod 512);
                         v = (val AND 0x0FFFFFFF) OR (ld_dword (win fs1) i AND 0xF0000000)
                     in (FR_OK, fs1\<lparr>win := st_dword (win fs1) i v, wflag := True\<rparr>)))
         | FS_NONE \<Rightarrow> (FR_INT_ERR, fs))
      else (FR_INT_ERR, fs))"

end
