(* ===== verification/FatFs_Entry.thy ===== *)
theory FatFs_Entry
  imports FatFs
begin

text \<open>
  The file allocation table as a sequence of bytes, without the window: how the entries of the
  three layouts are packed into it. An entry reads back what was set, and setting it leaves every
  other entry, although two entries of a 12-bit table share a byte.
\<close>

subsection \<open>The abstract table\<close>

text \<open>
  An entry of the table as the bytes of the first copy give it: 12 bits packed two to three
  bytes, 16 bits, or the low 28 of 32 bits.
\<close>

definition entry_of :: "fat_type \<Rightarrow> (nat \<Rightarrow> u8) \<Rightarrow> nat \<Rightarrow> u32" where
  "entry_of t b c =
     (case t of
        FS_FAT12 \<Rightarrow>
          (let w = ucast (b (c + c div 2)) OR push_bit 8 (ucast (b (c + c div 2 + 1)))
           in if odd c then drop_bit 4 w else w AND 0xFFF)
      | FS_FAT16 \<Rightarrow> ucast (push_bit 8 (ucast (b (2 * c + 1))) OR ucast (b (2 * c)) :: u16)
      | FS_FAT32 \<Rightarrow>
          (push_bit 8 (push_bit 8 (push_bit 8 (ucast (b (4 * c + 3))) OR ucast (b (4 * c + 2)))
             OR ucast (b (4 * c + 1))) OR ucast (b (4 * c))) AND 0x0FFFFFFF
      | FS_NONE \<Rightarrow> 1)"

definition entry_mask :: "fat_type \<Rightarrow> u32" where
  "entry_mask t = (case t of FS_FAT12 \<Rightarrow> 0xFFF | FS_FAT16 \<Rightarrow> 0xFFFF | FS_FAT32 \<Rightarrow> 0x0FFFFFFF | FS_NONE \<Rightarrow> 0)"

text \<open>The bytes of the table after an entry was set: the neighbour's bits stay.\<close>

definition set_entry :: "fat_type \<Rightarrow> nat \<Rightarrow> u32 \<Rightarrow> (nat \<Rightarrow> u8) \<Rightarrow> nat \<Rightarrow> u8" where
  "set_entry t c v b =
     (case t of
        FS_FAT12 \<Rightarrow>
          (let k = c + c div 2
           in if odd c then b(k := (b k AND 0x0F) OR push_bit 4 (ucast v), k + 1 := ucast (drop_bit 4 v))
              else b(k := ucast v, k + 1 := (b (k + 1) AND 0xF0) OR (ucast (drop_bit 8 v) AND 0x0F)))
      | FS_FAT16 \<Rightarrow> b(2 * c := ucast v, 2 * c + 1 := ucast (drop_bit 8 v))
      | FS_FAT32 \<Rightarrow>
          b(4 * c := ucast v, 4 * c + 1 := ucast (drop_bit 8 v), 4 * c + 2 := ucast (drop_bit 16 v),
            4 * c + 3 := (b (4 * c + 3) AND 0xF0) OR (ucast (drop_bit 24 v) AND 0x0F))
      | FS_NONE \<Rightarrow> b)"


lemma mask_bits:
  fixes n :: nat
  shows "bit (0xF :: int) n \<longleftrightarrow> n < 4"
    "bit (0xFF :: int) n \<longleftrightarrow> n < 8"
    "bit (0xFFF :: int) n \<longleftrightarrow> n < 12"
    "bit (0xFFFF :: int) n \<longleftrightarrow> n < 16"
    "bit (0x0FFFFFFF :: int) n \<longleftrightarrow> n < 28"
    "bit (0xF0 :: int) n \<longleftrightarrow> 4 \<le> n \<and> n < 8"
    "bit (0xF0000000 :: int) n \<longleftrightarrow> 28 \<le> n \<and> n < 32"
proof -
  show "bit (0xF :: int) n \<longleftrightarrow> n < 4"
    using bit_mask_iff [of 4 n, where ?'a = int] by (simp add: mask_eq_exp_minus_1)
  show "bit (0xFF :: int) n \<longleftrightarrow> n < 8"
    using bit_mask_iff [of 8 n, where ?'a = int] by (simp add: mask_eq_exp_minus_1)
  show "bit (0xFFF :: int) n \<longleftrightarrow> n < 12"
    using bit_mask_iff [of 12 n, where ?'a = int] by (simp add: mask_eq_exp_minus_1)
  show "bit (0xFFFF :: int) n \<longleftrightarrow> n < 16"
    using bit_mask_iff [of 16 n, where ?'a = int] by (simp add: mask_eq_exp_minus_1)
  show "bit (0x0FFFFFFF :: int) n \<longleftrightarrow> n < 28"
    using bit_mask_iff [of 28 n, where ?'a = int] by (simp add: mask_eq_exp_minus_1)
  show "bit (0xF0 :: int) n \<longleftrightarrow> 4 \<le> n \<and> n < 8"
    using bit_push_bit_iff [of 4 "mask 4 :: int" n] bit_mask_iff [of 4 "n - 4", where ?'a = int]
    by (auto simp add: mask_eq_exp_minus_1 push_bit_eq_mult)
  show "bit (0xF0000000 :: int) n \<longleftrightarrow> 28 \<le> n \<and> n < 32"
    using bit_push_bit_iff [of 28 "mask 4 :: int" n] bit_mask_iff [of 4 "n - 28", where ?'a = int]
    by (auto simp add: mask_eq_exp_minus_1 push_bit_eq_mult)
qed

lemma entry_same12: "entry_of FS_FAT12 (set_entry FS_FAT12 c v b) c = v AND 0xFFF"
  apply (rule bit_word_eqI)
  subgoal for n
    by (cases "odd c"; cases "n < 4"; cases "n < 8"; cases "n < 12")
     (auto simp: entry_of_def set_entry_def Let_def bit_simps mask_bits)
  done
lemma entry_same16: "entry_of FS_FAT16 (set_entry FS_FAT16 c v b) c = v AND 0xFFFF"
  apply (rule bit_word_eqI)
  subgoal for n
    by (cases "n < 8"; cases "n < 16")
     (auto simp: entry_of_def set_entry_def Let_def bit_simps mask_bits)
  done
lemma entry_same32: "entry_of FS_FAT32 (set_entry FS_FAT32 c v b) c = v AND 0x0FFFFFFF"
  apply (rule bit_word_eqI)
  subgoal for n
    by (cases "n < 8"; cases "n < 16"; cases "n < 24"; cases "n < 28")
     (auto simp: entry_of_def set_entry_def Let_def bit_simps mask_bits)
  done

lemma entry_same:
  "t \<noteq> FS_NONE \<Longrightarrow> entry_of t (set_entry t c v b) c = v AND entry_mask t"
  by (cases t) (simp_all add: entry_mask_def entry_same12 entry_same16 entry_same32)

lemma entry_other16: "c \<noteq> d \<Longrightarrow> entry_of FS_FAT16 (set_entry FS_FAT16 c v b) d = entry_of FS_FAT16 b d"
proof -
  assume "c \<noteq> d"
  then have "2 * d + 1 \<noteq> 2 * c" "2 * d \<noteq> 2 * c + 1" by presburger+
  with \<open>c \<noteq> d\<close> show ?thesis by (simp add: entry_of_def set_entry_def)
qed

lemma entry_other32: "c \<noteq> d \<Longrightarrow> entry_of FS_FAT32 (set_entry FS_FAT32 c v b) d = entry_of FS_FAT32 b d"
proof -
  assume "c \<noteq> d"
  then have sep: "4 * d + i \<noteq> 4 * c + j" if "i < 4" "j < 4" for i j using that by presburger
  have "set_entry FS_FAT32 c v b (4 * d + i) = b (4 * d + i)" if "i < 4" for i
    using that sep [of i 0] sep [of i 1] sep [of i 2] sep [of i 3] by (simp add: set_entry_def)
  from this [of 0] this [of 1] this [of 2] this [of 3] show ?thesis
    by (simp add: entry_of_def)
qed

text \<open>In the packed table a byte is shared with the neighbour, and its half of it stays.\<close>

lemma set_entry12_before:
  "odd c \<Longrightarrow> set_entry FS_FAT12 c v b (c + c div 2) AND 0x0F = b (c + c div 2) AND 0x0F"
  by (rule bit_word_eqI) (auto simp: set_entry_def Let_def bit_simps mask_bits)

lemma set_entry12_after:
  "even c \<Longrightarrow> set_entry FS_FAT12 c v b (c + c div 2 + 1) AND 0xF0 = b (c + c div 2 + 1) AND 0xF0"
  by (rule bit_word_eqI) (auto simp: set_entry_def Let_def bit_simps mask_bits)

lemma set_entry12_far: "k \<noteq> c + c div 2 \<Longrightarrow> k \<noteq> c + c div 2 + 1 \<Longrightarrow> set_entry FS_FAT12 c v b k = b k"
  by (simp add: set_entry_def Let_def)

lemma entry12_cong:
  assumes "if odd d then b' (d + d div 2) AND 0xF0 = b (d + d div 2) AND 0xF0 \<and> b' (d + d div 2 + 1) = b (d + d div 2 + 1)
    else b' (d + d div 2) = b (d + d div 2) \<and> b' (d + d div 2 + 1) AND 0x0F = b (d + d div 2 + 1) AND 0x0F"
  shows "entry_of FS_FAT12 b' d = entry_of FS_FAT12 b d"
proof -
  have hi: "drop_bit 4 (ucast x :: u32) = drop_bit 4 (ucast (x AND 0xF0))" for x :: u8
    by (rule bit_word_eqI) (auto simp: bit_simps mask_bits dest: bit_imp_le_length)
  have lo: "(y OR push_bit 8 (ucast x)) AND 0xFFF = (y OR push_bit 8 (ucast (x AND 0x0F))) AND (0xFFF :: u32)" for x :: u8 and y
    by (rule bit_word_eqI) (auto simp: bit_simps mask_bits)
  show ?thesis
  proof (cases "odd d")
    case True
    then show ?thesis using assms by (simp add: entry_of_def Let_def) (metis hi)
  next
    case False
    then show ?thesis using assms by (simp add: entry_of_def Let_def) (metis lo)
  qed
qed

lemma offset12_inj: "c + c div 2 = d + d div 2 \<longleftrightarrow> c = (d :: nat)"
proof
  assume "c + c div 2 = d + d div 2"
  then show "c = d" by (cases c d rule: linorder_cases) (use div_le_mono [of c d 2] div_le_mono [of d c 2] in linarith)+
qed simp

lemma offset12_next: "d + d div 2 = Suc (c + c div 2) \<longleftrightarrow> even c \<and> d = Suc (c :: nat)"
  by (cases "even c"; cases "even d") (auto elim!: evenE oddE; presburger)+

lemma entry_other12:
  assumes "c \<noteq> d"
  shows "entry_of FS_FAT12 (set_entry FS_FAT12 c v b) d = entry_of FS_FAT12 b d"
proof (rule entry12_cong, cases "odd d")
  case True
  then have "set_entry FS_FAT12 c v b (d + d div 2 + 1) = b (d + d div 2 + 1)"
    using assms offset12_inj [of c d] offset12_next [of c d] by (intro set_entry12_far) auto
  moreover have "set_entry FS_FAT12 c v b (d + d div 2) AND 0xF0 = b (d + d div 2) AND 0xF0"
    using assms offset12_inj [of c d] offset12_next [of d c] set_entry12_after [of c v b]
      set_entry12_far [of "d + d div 2" c v b]
    by (cases "d = Suc c \<and> even c") auto
  ultimately show "if odd d
    then set_entry FS_FAT12 c v b (d + d div 2) AND 0xF0 = b (d + d div 2) AND 0xF0 \<and>
      set_entry FS_FAT12 c v b (d + d div 2 + 1) = b (d + d div 2 + 1)
    else set_entry FS_FAT12 c v b (d + d div 2) = b (d + d div 2) \<and>
      set_entry FS_FAT12 c v b (d + d div 2 + 1) AND 0x0F = b (d + d div 2 + 1) AND 0x0F"
    using True by simp
next
  case False
  then have "set_entry FS_FAT12 c v b (d + d div 2) = b (d + d div 2)"
    using assms offset12_inj [of c d] offset12_next [of d c] by (intro set_entry12_far) auto
  moreover have "set_entry FS_FAT12 c v b (d + d div 2 + 1) AND 0x0F = b (d + d div 2 + 1) AND 0x0F"
    using assms offset12_inj [of c d] offset12_next [of c d] set_entry12_before [of c v b]
      set_entry12_far [of "d + d div 2 + 1" c v b]
    by (cases "c = Suc d \<and> odd c") auto
  ultimately show "if odd d
    then set_entry FS_FAT12 c v b (d + d div 2) AND 0xF0 = b (d + d div 2) AND 0xF0 \<and>
      set_entry FS_FAT12 c v b (d + d div 2 + 1) = b (d + d div 2 + 1)
    else set_entry FS_FAT12 c v b (d + d div 2) = b (d + d div 2) \<and>
      set_entry FS_FAT12 c v b (d + d div 2 + 1) AND 0x0F = b (d + d div 2 + 1) AND 0x0F"
    using False by simp
qed

lemma entry_other: "c \<noteq> d \<Longrightarrow> entry_of t (set_entry t c v b) d = entry_of t b d"
  by (cases t) (simp_all add: entry_other12 entry_other16 entry_other32, simp add: entry_of_def)
end
