(* ===== verification/FatFs_Table.thy ===== *)
theory FatFs_Table
  imports FatFs_Entry
begin

text \<open>
  The window and the file allocation table are what they promise: the volume as the code above
  sees it (\<open>view\<close>: the sector in the window if it is there, the sector of the disk otherwise) is
  not changed by moving the window, whatever the disk does, and \<open>get_fat\<close> and \<open>put_fat\<close> read
  and write one entry of an abstract table of cluster numbers, in all three layouts.
\<close>

subsection \<open>Words in a byte array\<close>

lemma ld_st_word: "i + 1 < length b \<Longrightarrow> ld_word (st_word b i v) i = v"
  by (rule bit_word_eqI) (auto simp: ld_word_def st_word_def bit_simps)

lemma length_st_word [simp]: "length (st_word b i v) = length b"
  by (simp add: st_word_def)

lemma length_st_dword [simp]: "length (st_dword b i v) = length b"
  by (simp add: st_dword_def Let_def)

lemma ld_st_dword: "i + 3 < length b \<Longrightarrow> ld_dword (st_dword b i v) i = v"
  apply (rule bit_word_eqI)
  subgoal for n
    by (cases "n < 8"; cases "n < 16"; cases "n < 24")
      (auto simp: ld_dword_def st_dword_def bit_simps Let_def)
  done

subsection \<open>The volume behind the window\<close>

definition view :: "fatfs \<Rightarrow> u32 \<Rightarrow> u8 list" where
  "view fs n = (if n = winsect fs then win fs else disk fs n)"

definition in_fat1 :: "fatfs \<Rightarrow> u32 \<Rightarrow> bool" where
  "in_fat1 fs n \<longleftrightarrow> n - fatbase fs < fsize fs"

definition in_fat2 :: "fatfs \<Rightarrow> u32 \<Rightarrow> bool" where
  "in_fat2 fs n \<longleftrightarrow> n_fats fs = 2 \<and> n - (fatbase fs + fsize fs) < fsize fs"

text \<open>What no access to the disk changes.\<close>

definition cfg where
  "cfg fs = (fs_type fs, n_fats fs, fsi_flag fs, n_rootdir fs, csize fs, last_clst fs, free_clst fs,
     cdir fs, n_fatent fs, fsize fs, volbase fs, fatbase fs, dirbase fs, database fs, vol_id fs,
     io_fail (fs :: fatfs))"

definition window_ok :: "fatfs \<Rightarrow> bool" where
  "window_ok fs \<longleftrightarrow> length (win fs) = 512 \<and> (\<forall>n. length (disk fs n) = 512) \<and>
     (\<not> wflag fs \<and> winsect fs \<noteq> 0 - 1 \<longrightarrow> win fs = disk fs (winsect fs)) \<and>
     (wflag fs \<longrightarrow> winsect fs \<noteq> 0 - 1)"

definition io_ok :: "fatfs \<Rightarrow> bool" where
  "io_ok fs \<longleftrightarrow> (\<forall>n. \<not> io_fail fs n)"

definition max_fatent :: "fat_type \<Rightarrow> u32" where
  "max_fatent t = (case t of FS_FAT12 \<Rightarrow> 0xFF7 | FS_FAT16 \<Rightarrow> 0xFFF7 | FS_FAT32 \<Rightarrow> 0x0FFFFFF7 | FS_NONE \<Rightarrow> 0)"

definition fat_bytes :: "fatfs \<Rightarrow> nat" where
  "fat_bytes fs =
     (let n = unat (n_fatent fs)
      in case fs_type fs of
           FS_FAT12 \<Rightarrow> n * 3 div 2 + n mod 2 | FS_FAT16 \<Rightarrow> n * 2 | FS_FAT32 \<Rightarrow> n * 4 | FS_NONE \<Rightarrow> 0)"

text \<open>The layout of a mounted volume: the tables hold all entries and lie before the data area.\<close>

definition geometry :: "fatfs \<Rightarrow> bool" where
  "geometry fs \<longleftrightarrow> fs_type fs \<noteq> FS_NONE \<and> 2 < n_fatent fs \<and> n_fatent fs \<le> max_fatent (fs_type fs) \<and>
     fat_bytes fs \<le> 512 * unat (fsize fs) \<and> n_fats fs \<in> {1, 2} \<and>
     unat (fatbase fs) + unat (n_fats fs) * unat (fsize fs) \<le> unat (database fs)"

text \<open>
  Where there are two tables, the second is a copy of the first on the disk, but for the sector
  that waits in the window.
\<close>

definition mirrored :: "fatfs \<Rightarrow> bool" where
  "mirrored fs \<longleftrightarrow> n_fats fs = 2 \<longrightarrow>
     (wflag fs \<longrightarrow> \<not> in_fat2 fs (winsect fs)) \<and>
     (\<forall>n. in_fat1 fs n \<and> \<not> (wflag fs \<and> winsect fs = n) \<longrightarrow> disk fs (n + fsize fs) = disk fs n)"

definition mirror_kept :: "fatfs \<Rightarrow> fatfs \<Rightarrow> bool" where
  "mirror_kept fs fs' \<longleftrightarrow> io_ok fs \<and> geometry fs \<and> mirrored fs \<longrightarrow> mirrored fs'"

text \<open>The sectors that are neither in the second table nor the invalid one keep their content.\<close>

definition keeps :: "fatfs \<Rightarrow> fatfs \<Rightarrow> bool" where
  "keeps fs fs' \<longleftrightarrow> cfg fs' = cfg fs \<and> window_ok fs' \<and> mirror_kept fs fs' \<and>
     (\<forall>n. n \<noteq> 0 - 1 \<and> \<not> in_fat2 fs n \<longrightarrow> view fs' n = view fs n)"

lemma cfgD:
  assumes "cfg fs' = cfg fs"
  shows "fs_type fs' = fs_type fs" "n_fats fs' = n_fats fs" "fsi_flag fs' = fsi_flag fs"
    "n_rootdir fs' = n_rootdir fs" "csize fs' = csize fs" "last_clst fs' = last_clst fs"
    "free_clst fs' = free_clst fs" "cdir fs' = cdir fs" "n_fatent fs' = n_fatent fs"
    "fsize fs' = fsize fs" "volbase fs' = volbase fs" "fatbase fs' = fatbase fs"
    "dirbase fs' = dirbase fs" "database fs' = database fs" "io_fail fs' = io_fail fs"
    "vol_id fs' = vol_id fs"
  using assms by (simp_all add: cfg_def)

lemma cfg_window [simp]:
  "cfg (fs\<lparr>winsect := a\<rparr>) = cfg fs" "cfg (fs\<lparr>win := b\<rparr>) = cfg fs" "cfg (fs\<lparr>wflag := c\<rparr>) = cfg fs"
  "cfg (fs\<lparr>disk := d\<rparr>) = cfg fs" "cfg (fs\<lparr>io_count := e\<rparr>) = cfg fs"
  by (simp_all add: cfg_def)

lemma cfg_regions:
  assumes "cfg fs' = cfg fs"
  shows "in_fat1 fs' n = in_fat1 fs n" "in_fat2 fs' n = in_fat2 fs n" "io_ok fs' = io_ok fs"
  by (simp_all add: in_fat1_def in_fat2_def io_ok_def cfgD [OF assms])

lemma cfg_geometry: 
  assumes "cfg fs' = cfg fs"
  shows "geometry fs' = geometry fs" "fat_bytes fs' = fat_bytes fs"
  using cfgD [OF assms] by (simp_all add: geometry_def fat_bytes_def Let_def)

lemma fats_disjoint:
  assumes "geometry fs" and "in_fat1 fs n"
  shows "\<not> in_fat2 fs n"
proof
  assume i: "in_fat2 fs n"
  then have two: "n_fats fs = 2" by (simp add: in_fat2_def)
  have "2 * unat (fsize fs) \<le> unat (database fs)" using assms(1) two by (simp add: geometry_def)
  moreover have "unat (database fs) < 2 ^ 32" using unsigned_less [of "database fs"] by simp
  moreover have "n - (fatbase fs + fsize fs) = (n - fatbase fs) - fsize fs" by simp
  then have "unat ((n - fatbase fs) - fsize fs) < unat (fsize fs)"
    using i by (simp only: in_fat2_def word_less_nat_alt)
  moreover have "unat (n - fatbase fs) < unat (fsize fs)"
    using assms(2) by (simp add: in_fat1_def word_less_nat_alt)
  ultimately show False by (simp add: unat_sub_if' [of "n - fatbase fs"])
qed

lemma mirror_kept_trans:
  assumes "mirror_kept a b" and "mirror_kept b c" and "cfg b = cfg a"
  shows "mirror_kept a c"
  using assms(1,2) cfg_regions(3) [OF assms(3)] cfg_geometry(1) [OF assms(3)] by (simp add: mirror_kept_def)

lemma keeps_refl: "window_ok fs \<Longrightarrow> keeps fs fs"
  by (simp add: keeps_def mirror_kept_def)

lemma keeps_trans:
  assumes "keeps a b" and "keeps b c"
  shows "keeps a c"
  using assms cfg_regions [of b a] cfg_geometry(1) [of b a] mirror_kept_trans [of a b c]
  unfolding keeps_def by metis

lemma keeps_window: "keeps a b \<Longrightarrow> window_ok b"
  by (simp add: keeps_def)

lemma keeps_cfg: "keeps a b \<Longrightarrow> cfg b = cfg a"
  by (simp add: keeps_def)

lemma mirror_in_fat2:
  "n_fats fs = 2 \<Longrightarrow> in_fat1 fs n \<Longrightarrow> in_fat2 fs (n + fsize fs)"
  by (simp add: in_fat1_def in_fat2_def algebra_simps)

text \<open>What a sync that succeeds does to the disk: one write, or the mirrored two.\<close>

lemma sync_window_dirty:
  assumes "wflag fs" and "\<not> io_fail fs (io_count fs)"
  obtains (one) n where
      "sync_window fs =
         (FR_OK, fs\<lparr>io_count := n, disk := (disk fs)(winsect fs := win fs), wflag := False\<rparr>)"
      and "io_ok fs \<longrightarrow> \<not> (n_fats fs = 2 \<and> in_fat1 fs (winsect fs))"
    | (two) n where "n_fats fs = 2" and "in_fat1 fs (winsect fs)" and
      "sync_window fs =
         (FR_OK, fs\<lparr>io_count := n, wflag := False,
            disk := (disk fs)(winsect fs := win fs, winsect fs + fsize fs := win fs)\<rparr>)"
proof (cases "winsect fs - fatbase fs < fsize fs \<and> n_fats fs = 2 \<and> \<not> io_fail fs (io_count fs + 1)")
  case True
  show ?thesis
  proof (rule two)
    show "sync_window fs =
        (FR_OK, fs\<lparr>io_count := io_count fs + 2, wflag := False,
           disk := (disk fs)(winsect fs := win fs, winsect fs + fsize fs := win fs)\<rparr>)"
      using assms True by (simp add: sync_window_def disk_write_sector_def)
  qed (use True in \<open>simp_all add: in_fat1_def\<close>)
next
  case False
  show ?thesis
  proof (rule one)
    show "sync_window fs =
        (FR_OK, fs\<lparr>io_count := (if winsect fs - fatbase fs < fsize fs \<and> n_fats fs = 2
                               then io_count fs + 2 else io_count fs + 1),
           disk := (disk fs)(winsect fs := win fs), wflag := False\<rparr>)"
      using assms False by (simp add: sync_window_def disk_write_sector_def Let_def)
  qed (use False in \<open>auto simp: io_ok_def in_fat1_def\<close>)
qed

lemma sync_window_clean: "\<not> wflag fs \<Longrightarrow> sync_window fs = (FR_OK, fs)"
  by (simp add: sync_window_def)

lemma sync_window_fails:
  "wflag fs \<Longrightarrow> io_fail fs (io_count fs) \<Longrightarrow>
     sync_window fs = (FR_DISK_ERR, fs\<lparr>io_count := io_count fs + 1\<rparr>)"
  by (simp add: sync_window_def disk_write_sector_def)

text \<open>The effect on the mirror of the steps the operations are made of.\<close>

lemma region_window [simp]:
  "in_fat1 (fs\<lparr>winsect := a\<rparr>) = in_fat1 fs" "in_fat1 (fs\<lparr>win := b\<rparr>) = in_fat1 fs"
  "in_fat1 (fs\<lparr>wflag := c\<rparr>) = in_fat1 fs" "in_fat1 (fs\<lparr>disk := d\<rparr>) = in_fat1 fs"
  "in_fat1 (fs\<lparr>io_count := e\<rparr>) = in_fat1 fs"
  "in_fat2 (fs\<lparr>winsect := a\<rparr>) = in_fat2 fs" "in_fat2 (fs\<lparr>win := b\<rparr>) = in_fat2 fs"
  "in_fat2 (fs\<lparr>wflag := c\<rparr>) = in_fat2 fs" "in_fat2 (fs\<lparr>disk := d\<rparr>) = in_fat2 fs"
  "in_fat2 (fs\<lparr>io_count := e\<rparr>) = in_fat2 fs"
  by (simp_all add: in_fat1_def in_fat2_def fun_eq_iff)

lemma mirrored_one:
  assumes "mirrored fs" and "wflag fs" and "io_ok fs \<longrightarrow> \<not> (n_fats fs = 2 \<and> in_fat1 fs (winsect fs))"
    and "io_ok fs"
  shows "mirrored (fs\<lparr>io_count := n, disk := (disk fs)(winsect fs := win fs), wflag := False\<rparr>)"
proof -
  have "m + fsize fs \<noteq> winsect fs" if "n_fats fs = 2" "in_fat1 fs m" for m
    using assms that mirror_in_fat2 [OF that] by (auto simp: mirrored_def)
  then show ?thesis using assms by (auto simp: mirrored_def)
qed

lemma mirrored_two:
  assumes "mirrored fs" and "geometry fs" and "n_fats fs = 2" and "in_fat1 fs (winsect fs)" and "wflag fs"
  shows "mirrored (fs\<lparr>io_count := n, wflag := False,
     disk := (disk fs)(winsect fs := win fs, winsect fs + fsize fs := win fs)\<rparr>)"
proof -
  have "m \<noteq> winsect fs + fsize fs" "m + fsize fs \<noteq> winsect fs" if "in_fat1 fs m" for m
    using assms that fats_disjoint [OF assms(2)] mirror_in_fat2 [OF assms(3)] by metis+
  then show ?thesis using assms by (auto simp: mirrored_def)
qed

lemma mirrored_clean:
  "mirrored fs \<Longrightarrow> \<not> wflag fs \<Longrightarrow> mirrored (fs\<lparr>io_count := n, winsect := s\<rparr>)"
  "mirrored fs \<Longrightarrow> \<not> wflag fs \<Longrightarrow> mirrored (fs\<lparr>io_count := n, win := w, winsect := s\<rparr>)"
  "mirrored fs \<Longrightarrow> mirrored (fs\<lparr>io_count := n\<rparr>)"
  "mirrored fs \<Longrightarrow> \<not> in_fat2 fs (winsect fs) \<Longrightarrow> mirrored (fs\<lparr>win := w, wflag := True\<rparr>)"
  by (simp_all add: mirrored_def)

lemma sync_window_post:
  assumes "window_ok fs"
  shows "case sync_window fs of (r, fs') \<Rightarrow> keeps fs fs' \<and> winsect fs' = winsect fs \<and> win fs' = win fs \<and>
    (r = FR_OK \<longrightarrow> \<not> wflag fs') \<and> (r = FR_OK \<or> r = FR_DISK_ERR) \<and> (io_ok fs \<longrightarrow> r = FR_OK)"
proof (cases "wflag fs")
  case False
  then show ?thesis using assms by (simp add: sync_window_clean keeps_refl)
next
  case dirty: True
  show ?thesis
  proof (cases "io_fail fs (io_count fs)")
    case True
    have "keeps fs (fs\<lparr>io_count := io_count fs + 1\<rparr>)"
      using assms dirty by (simp add: keeps_def window_ok_def view_def mirror_kept_def mirrored_clean)
    then show ?thesis using dirty True by (auto simp add: sync_window_fails io_ok_def)
  next
    case False
    from dirty False show ?thesis
    proof (cases rule: sync_window_dirty)
      case (one n)
      have "keeps fs (fs\<lparr>io_count := n, disk := (disk fs)(winsect fs := win fs), wflag := False\<rparr>)"
        using assms dirty mirrored_one [OF _ dirty one(2)]
        by (simp add: keeps_def window_ok_def view_def mirror_kept_def)
      then show ?thesis using one(1) by simp
    next
      case (two n)
      have "in_fat2 fs (winsect fs + fsize fs)" using two(1,2) by (rule mirror_in_fat2)
      then have "keeps fs (fs\<lparr>io_count := n, wflag := False,
            disk := (disk fs)(winsect fs := win fs, winsect fs + fsize fs := win fs)\<rparr>)"
        using assms dirty mirrored_two [OF _ _ two(1,2) dirty]
        by (auto simp add: keeps_def window_ok_def view_def mirror_kept_def)
      then show ?thesis using two(3) by simp
    qed
  qed
qed

lemma sync_window_keeps:
  assumes "window_ok fs" and "sync_window fs = (r, fs')"
  shows "keeps fs fs'" "winsect fs' = winsect fs" "win fs' = win fs"
    "r = FR_OK \<Longrightarrow> \<not> wflag fs'" "r = FR_OK \<or> r = FR_DISK_ERR" "io_ok fs \<Longrightarrow> r = FR_OK"
  using sync_window_post [OF assms(1)] assms(2) by simp_all

lemma read_window_keeps:
  assumes "window_ok fs" and "\<not> wflag fs"
  shows "keeps fs (fs\<lparr>io_count := n, winsect := 0 - 1\<rparr>)"
    and "keeps fs (fs\<lparr>io_count := n, win := disk fs s, winsect := s\<rparr>)"
  using assms by (simp_all add: keeps_def window_ok_def view_def mirror_kept_def mirrored_clean)

lemma move_window_keeps:
  assumes "window_ok fs" and "s \<noteq> 0 - 1" and "\<not> in_fat2 fs s" and mv: "move_window s fs = (r, fs')"
  shows "keeps fs fs' \<and> (r = FR_OK \<longrightarrow> winsect fs' = s \<and> win fs' = view fs s) \<and>
    (r = FR_OK \<or> r = FR_DISK_ERR) \<and> (io_ok fs \<longrightarrow> r = FR_OK)"
proof (cases "s = winsect fs")
  case True
  then show ?thesis using assms by (auto simp: move_window_def keeps_refl view_def)
next
  case False
  obtain r1 fs1 where sync: "sync_window fs = (r1, fs1)" by (cases "sync_window fs")
  note k1 = sync_window_keeps [OF assms(1) sync]
  show ?thesis
  proof (cases "r1 = FR_OK")
    case err: False
    then have "r1 = FR_DISK_ERR" using k1(5) by blast
    then have "r = FR_DISK_ERR" "fs' = fs1" using mv False sync by (simp_all add: move_window_def)
    then show ?thesis using k1 err by auto
  next
    case ok: True
    have cl: "window_ok fs1" "\<not> wflag fs1" using k1 ok by (auto simp: keeps_def)
    have v: "view fs s = disk fs1 s" using k1(1,2) assms(2,3) False by (auto simp add: keeps_def view_def)
    show ?thesis
    proof (cases "io_fail fs1 (io_count fs1)")
      case True
      have "fs' = fs1\<lparr>io_count := io_count fs1 + 1, winsect := 0 - 1\<rparr>" "r = FR_DISK_ERR"
        using mv False sync ok True by (auto simp: move_window_def disk_read_sector_def)
      moreover have "\<not> io_ok fs" using True cfg_regions(3) [OF keeps_cfg [OF k1(1)]] by (auto simp: io_ok_def)
      ultimately show ?thesis using keeps_trans [OF k1(1) read_window_keeps(1) [OF cl]] by simp
    next
      case rd: False
      have "fs' = fs1\<lparr>io_count := io_count fs1 + 1, win := disk fs1 s, winsect := s\<rparr>" "r = FR_OK"
        using mv False sync ok rd by (auto simp: move_window_def disk_read_sector_def)
      then show ?thesis using keeps_trans [OF k1(1) read_window_keeps(2) [OF cl]] v by simp
    qed
  qed
qed
end
