(* ===== verification/FatFs_Access.thy ===== *)
theory FatFs_Access
  imports FatFs_Table
begin

text \<open>
  \<open>get_fat\<close> and \<open>put_fat\<close> through the window: they read and set one entry of the abstract
  table, in all three layouts, and leave every other sector of the volume; where the disk fails
  they say so. Over any sequence of accesses the second table follows the first.
\<close>

subsection \<open>Reading and writing an entry\<close>

definition fat_sect :: "fatfs \<Rightarrow> nat \<Rightarrow> u32" where
  "fat_sect fs k = fatbase fs + of_nat (k div 512)"

definition fat_byte :: "fatfs \<Rightarrow> nat \<Rightarrow> u8" where
  "fat_byte fs k = view fs (fat_sect fs k) ! (k mod 512)"

definition fat_entry :: "fatfs \<Rightarrow> u32 \<Rightarrow> u32" where
  "fat_entry fs c = entry_of (fs_type fs) (fat_byte fs) (unat c)"

text \<open>The sectors outside both tables keep their content.\<close>

definition keeps_data :: "fatfs \<Rightarrow> fatfs \<Rightarrow> bool" where
  "keeps_data fs fs' \<longleftrightarrow> cfg fs' = cfg fs \<and> window_ok fs' \<and> mirror_kept fs fs' \<and>
     (\<forall>n. n \<noteq> 0 - 1 \<and> \<not> in_fat1 fs n \<and> \<not> in_fat2 fs n \<longrightarrow> view fs' n = view fs n)"

lemma keeps_keeps_data: "keeps fs fs' \<Longrightarrow> keeps_data fs fs'"
  by (simp add: keeps_def keeps_data_def)

lemma keeps_data_trans: "keeps_data a b \<Longrightarrow> keeps_data b c \<Longrightarrow> keeps_data a c"
  using cfg_regions [of b a] mirror_kept_trans [of a b c] unfolding keeps_data_def by metis

lemma cfg_fat_sect: "cfg fs' = cfg fs \<Longrightarrow> fat_sect fs' = fat_sect fs"
  using cfgD(12) [of fs' fs] by (simp add: fat_sect_def fun_eq_iff)

lemma fat_sect_region:
  assumes g: "geometry fs" and k: "k < 512 * unat (fsize fs)"
  shows "in_fat1 fs (fat_sect fs k)" "\<not> in_fat2 fs (fat_sect fs k)" "fat_sect fs k \<noteq> 0 - 1"
proof -
  define q where "q = k div 512"
  have q: "q < unat (fsize fs)" using k by (simp add: q_def)
  have db: "unat (database fs) < 2 ^ 32" using unsigned_less [of "database fs"] by simp
  have nf: "n_fats fs = 1 \<or> n_fats fs = 2" and le: "unat (fatbase fs) + unat (n_fats fs) * unat (fsize fs) \<le> unat (database fs)"
    using g by (auto simp: geometry_def)
  have le1: "unat (fatbase fs) + unat (fsize fs) \<le> unat (database fs)" using nf le by auto
  have uq: "unat (of_nat q :: u32) = q" using q le1 db by (simp add: unat_of_nat take_bit_nat_eq_self)
  show f1: "in_fat1 fs (fat_sect fs k)"
    using q uq by (simp add: in_fat1_def fat_sect_def q_def word_less_nat_alt)
  show "\<not> in_fat2 fs (fat_sect fs k)" by (rule fats_disjoint [OF g f1])
  have "unat (fat_sect fs k) = unat (fatbase fs) + q"
    using uq q le1 db by (simp add: fat_sect_def q_def unat_plus_if')
  then have "unat (fat_sect fs k) < unat (database fs)" using q le1 by simp
  moreover have "unat (0 - 1 :: u32) = 2 ^ 32 - 1" by (simp add: unsigned_minus_1_eq_mask mask_eq_exp_minus_1)
  ultimately show "fat_sect fs k \<noteq> 0 - 1" using db by fastforce
qed

lemma fat_sect_eq:
  assumes g: "geometry fs" and "k < 512 * unat (fsize fs)" "j < 512 * unat (fsize fs)"
  shows "fat_sect fs k = fat_sect fs j \<longleftrightarrow> k div 512 = j div 512"
proof -
  have "unat (fsize fs) < 2 ^ 32" using unsigned_less [of "fsize fs"] by simp
  then have "k div 512 < 2 ^ 32" "j div 512 < 2 ^ 32" using assms by simp_all
  then have "(of_nat (k div 512) :: u32) = of_nat (j div 512) \<longleftrightarrow> k div 512 = j div 512"
    by (simp add: word_unat_eq_iff unat_of_nat take_bit_nat_eq_self)
  then show ?thesis by (simp add: fat_sect_def)
qed

lemma keeps_fat_byte:
  assumes "keeps fs fs'" and "geometry fs" and "k < 512 * unat (fsize fs)"
  shows "fat_byte fs' k = fat_byte fs k"
  using assms fat_sect_region [OF assms(2,3)] cfg_fat_sect [OF keeps_cfg [OF assms(1)]]
  by (simp add: fat_byte_def keeps_def)

lemma move_to_byte:
  assumes g: "geometry fs" and w: "window_ok fs" and k: "k < 512 * unat (fsize fs)"
    and mv: "move_window (fat_sect fs k) fs = (r, fs')"
  shows "keeps fs fs'" "r = FR_OK \<or> r = FR_DISK_ERR \<and> \<not> io_ok fs"
    "r = FR_OK \<Longrightarrow> winsect fs' = fat_sect fs k"
    "r = FR_OK \<Longrightarrow> j div 512 = k div 512 \<Longrightarrow> win fs' ! (j mod 512) = fat_byte fs j"
  using move_window_keeps [OF w fat_sect_region(3) [OF g k] fat_sect_region(2) [OF g k] mv]
  by (auto simp: fat_byte_def fat_sect_def)

text \<open>Changing the byte of the table that is in the window.\<close>

definition poke :: "nat \<Rightarrow> u8 \<Rightarrow> fatfs \<Rightarrow> fatfs" where
  "poke k x fs = fs\<lparr>win := (win fs)[k mod 512 := x], wflag := True\<rparr>"

lemma poke_sel [simp]: "winsect (poke k x fs) = winsect fs" "cfg (poke k x fs) = cfg fs"
  by (simp_all add: poke_def)

lemma poke_byte:
  assumes g: "geometry fs" and w: "window_ok fs" and k: "k < 512 * unat (fsize fs)"
    and at: "winsect fs = fat_sect fs k"
  shows "keeps_data fs (poke k x fs)"
    and "j < 512 * unat (fsize fs) \<Longrightarrow> fat_byte (poke k x fs) j = ((fat_byte fs)(k := x)) j"
proof -
  note reg = fat_sect_region [OF g k]
  have "window_ok (poke k x fs)" using w reg(3) at by (simp add: window_ok_def poke_def)
  then show "keeps_data fs (poke k x fs)" using reg at
    by (auto simp: keeps_data_def view_def poke_def mirror_kept_def mirrored_clean)
  assume j: "j < 512 * unat (fsize fs)"
  have sect: "fat_sect (poke k x fs) = fat_sect fs" by (rule cfg_fat_sect) simp
  have len: "length (win fs) = 512" using w by (simp add: window_ok_def)
  show "fat_byte (poke k x fs) j = ((fat_byte fs)(k := x)) j"
  proof (cases "j div 512 = k div 512")
    case True
    then have "fat_sect fs j = winsect fs" using at by (simp add: fat_sect_def)
    moreover have "j = k \<longleftrightarrow> j mod 512 = k mod 512" using True by (metis div_mult_mod_eq)
    ultimately show ?thesis using len sect
      by (auto simp: fat_byte_def view_def poke_def nth_list_update)
  next
    case False
    then have "fat_sect fs j \<noteq> winsect fs" using at fat_sect_eq [OF g j k] by simp
    then show ?thesis using False sect by (auto simp: fat_byte_def view_def poke_def)
  qed
qed

text \<open>The bytes of an entry lie in the table.\<close>

lemma entry_offsets:
  assumes "geometry fs" and "c < n_fatent fs"
  shows "fs_type fs = FS_FAT12 \<Longrightarrow> unat c + unat c div 2 + 1 < 512 * unat (fsize fs)"
    and "fs_type fs = FS_FAT16 \<Longrightarrow> 2 * unat c + 1 < 512 * unat (fsize fs)"
    and "fs_type fs = FS_FAT32 \<Longrightarrow> 4 * unat c + 3 < 512 * unat (fsize fs)"
proof -
  have c: "unat c < unat (n_fatent fs)" using assms(2) by (simp add: word_less_nat_alt)
  have b: "fat_bytes fs \<le> 512 * unat (fsize fs)" using assms(1) by (simp add: geometry_def)
  have "n * 3 div 2 + n mod 2 > m + m div 2 + 1" if "m < n" for m n :: nat
  proof -
    have "2 * (m div 2) \<le> m" by simp
    with that show ?thesis by (cases "even n") (auto elim!: evenE oddE)
  qed
  from this [OF c] show "fs_type fs = FS_FAT12 \<Longrightarrow> unat c + unat c div 2 + 1 < 512 * unat (fsize fs)"
    using b by (simp add: fat_bytes_def Let_def)
  show "fs_type fs = FS_FAT16 \<Longrightarrow> 2 * unat c + 1 < 512 * unat (fsize fs)"
    "fs_type fs = FS_FAT32 \<Longrightarrow> 4 * unat c + 3 < 512 * unat (fsize fs)"
    using b c by (simp_all add: fat_bytes_def)
qed

text \<open>The word arithmetic of the code gives those offsets.\<close>

lemma word_offsets:
  assumes "geometry fs" and "c < n_fatent fs"
  shows "fs_type fs = FS_FAT12 \<Longrightarrow> unat (c + c div 2) = unat c + unat c div 2"
    and "fs_type fs = FS_FAT12 \<Longrightarrow> unat (c + c div 2 + 1) = unat c + unat c div 2 + 1"
    and "fs_type fs = FS_FAT16 \<Longrightarrow> unat (c * 2) = 2 * unat c"
    and "fs_type fs = FS_FAT32 \<Longrightarrow> unat (c * 4) = 4 * unat c"
proof -
  have c: "unat c < unat (max_fatent (fs_type fs))" 
    using assms by (auto simp: geometry_def word_less_nat_alt word_le_nat_alt)
  have lt: "unat c + unat c div 2 + 1 < 2 ^ 32" if "fs_type fs = FS_FAT12"
  proof -
    have "unat c < 4087" using c that by (simp add: max_fatent_def)
    then have "unat c + unat c div 2 + 1 < 8176" using div_le_dividend [of "unat c" 2] by linarith
    then show ?thesis by simp
  qed
  show 12: "unat (c + c div 2) = unat c + unat c div 2" if "fs_type fs = FS_FAT12"
    using lt [OF that] by (simp add: unat_plus_if' unat_div)
  show "unat (c + c div 2 + 1) = unat c + unat c div 2 + 1" if "fs_type fs = FS_FAT12"
    using lt [OF that] 12 [OF that] by (simp add: unat_plus_if' [of _ 1])
  show "fs_type fs = FS_FAT16 \<Longrightarrow> unat (c * 2) = 2 * unat c"
    "fs_type fs = FS_FAT32 \<Longrightarrow> unat (c * 4) = 4 * unat c"
    using c by (simp_all add: max_fatent_def unat_mult_lem [THEN iffD1])
qed

lemma sector_of_offset: "fatbase fs + b div 512 = fat_sect fs (unat b)"
  and index_of_offset: "unat (b mod 512 :: u32) = unat b mod 512"
  by (simp_all add: fat_sect_def word_arith_nat_div unat_mod)

lemma same_sector:
  assumes "k mod 512 + i < (512 :: nat)"
  shows "(k + i) div 512 = k div 512" "(k + i) mod 512 = k mod 512 + i"
proof -
  have "(r + i + q * 512) div 512 = q" "(r + i + q * 512) mod 512 = r + i" if "r + i < 512" for q r :: nat
    using that by simp_all
  from this [OF assms, of "k div 512"] show "(k + i) div 512 = k div 512" "(k + i) mod 512 = k mod 512 + i"
    by (simp_all add: add.commute add.left_commute)
qed

lemma entry_in_sector:
  "2 * c mod 512 + 1 < (512 :: nat)" "i < 4 \<Longrightarrow> 4 * c mod 512 + i < (512 :: nat)"
proof -
  have "2 * c mod 512 = 2 * (c mod 256)" "4 * c mod 512 = 4 * (c mod 128)"
    using mult_mod_right [of 2 c 256] mult_mod_right [of 4 c 128] by simp_all
  moreover have "c mod 256 < 256" "c mod 128 < 128" by simp_all
  ultimately show "2 * c mod 512 + 1 < 512" "i < 4 \<Longrightarrow> 4 * c mod 512 + i < 512" by linarith+
qed

lemma get_fat_spec:
  assumes g: "geometry fs" and w: "window_ok fs" and c: "2 \<le> c" "c < n_fatent fs"
    and get: "get_fat c fs = (v, fs')"
  shows "keeps fs fs' \<and> (v = fat_entry fs c \<and> in_fat1 fs (winsect fs') \<or> v = 0xFFFFFFFF \<and> \<not> io_ok fs)"
proof -
  have n: "\<not> c < 2" "\<not> n_fatent fs \<le> c" using c by auto
  show ?thesis
proof (cases "fs_type fs")
  case FS_NONE
  then show ?thesis using g by (simp add: geometry_def)
next
  case t: FS_FAT12
  define k where "k = unat c + unat c div 2"
  have k: "k + 1 < 512 * unat (fsize fs)" using entry_offsets(1) [OF g c(2) t] by (simp add: k_def)
  note off = word_offsets(1,2) [OF g c(2) t, folded k_def]
  obtain r1 fs1 where m1: "move_window (fat_sect fs k) fs = (r1, fs1)" by fastforce
  note s1 = move_to_byte [OF g w _ m1]
  show ?thesis
  proof (cases "r1 = FR_OK")
    case False
    then have "r1 = FR_DISK_ERR" "\<not> io_ok fs" using s1(2) k by auto
    then show ?thesis using get t n m1 s1(1) k by (simp add: get_fat_def sector_of_offset off)
  next
    case ok1: True
    note cf = keeps_cfg [OF s1(1)]
    have g1: "geometry fs1" and io: "io_ok fs1 = io_ok fs" and k1: "k + 1 < 512 * unat (fsize fs1)"
      using g k cfg_geometry(1) [OF cf] cfg_regions(3) [OF cf] cfgD [OF cf] by simp_all
    obtain r2 fs2 where m2: "move_window (fat_sect fs1 (k + 1)) fs1 = (r2, fs2)" by fastforce
    note s2 = move_to_byte [OF g1 keeps_window [OF s1(1)] k1 m2]
    have ks: "keeps fs fs2" using keeps_trans [OF s1(1) s2(1)] k by simp
    show ?thesis
    proof (cases "r2 = FR_OK")
      case False
      then have "r2 = FR_DISK_ERR" "\<not> io_ok fs" using s2(2) io k by auto
      then show ?thesis using get t n m1 m2 ok1 ks
        by (simp add: get_fat_def sector_of_offset index_of_offset off)
    next
      case ok2: True
      have "win fs1 ! (k mod 512) = fat_byte fs k" using s1(4) ok1 k by simp
      moreover have "win fs2 ! ((k + 1) mod 512) = fat_byte fs (k + 1)"
        using s2(4) ok2 keeps_fat_byte [OF s1(1) g] k by simp
      moreover have "odd (unat c) \<longleftrightarrow> c AND 1 \<noteq> 0" by (simp add: and_one_eq odd_iff_mod_2_eq_one word_unat_eq_iff unat_mod)
      moreover have "in_fat1 fs (winsect fs2)"
        using s2(3) ok2 cfg_fat_sect [OF cf] fat_sect_region(1) [OF g k] k by simp
      ultimately show ?thesis using get t n m1 m2 ok1 ok2 ks
        by (auto simp: get_fat_def sector_of_offset index_of_offset off fat_entry_def entry_of_def k_def Let_def)
    qed
  qed
next
  case t: FS_FAT16
  define k where "k = 2 * unat c"
  have k: "k < 512 * unat (fsize fs)" using entry_offsets(2) [OF g c(2) t] by (simp add: k_def)
  note off = word_offsets(3) [OF g c(2) t, folded k_def]
  have sect: "fatbase fs + c div 256 = fat_sect fs k"
    by (simp add: fat_sect_def k_def word_arith_nat_div)
  obtain r1 fs1 where m1: "move_window (fat_sect fs k) fs = (r1, fs1)" by fastforce
  note s1 = move_to_byte [OF g w k m1]
  show ?thesis
  proof (cases "r1 = FR_OK")
    case False
    then have "r1 = FR_DISK_ERR" "\<not> io_ok fs" using s1(2) by auto
    then show ?thesis using get t n m1 s1(1) by (simp add: get_fat_def sect)
  next
    case True
    have "(k + 1) div 512 = k div 512" "(k + 1) mod 512 = k mod 512 + 1"
      using same_sector [OF entry_in_sector(1)] unfolding k_def by blast+
    then have "win fs1 ! (k mod 512) = fat_byte fs k" "win fs1 ! (k mod 512 + 1) = fat_byte fs (k + 1)"
      using s1(4) [OF True, of k] s1(4) [OF True, of "k + 1"] by simp_all
    then show ?thesis using get t n m1 s1(1) s1(3) True fat_sect_region(1) [OF g k]
      by (auto simp: get_fat_def sect index_of_offset off fat_entry_def entry_of_def ld_word_def k_def)
  qed
next
  case t: FS_FAT32
  define k where "k = 4 * unat c"
  have k: "k < 512 * unat (fsize fs)" using entry_offsets(3) [OF g c(2) t] by (simp add: k_def)
  note off = word_offsets(4) [OF g c(2) t, folded k_def]
  have sect: "fatbase fs + c div 128 = fat_sect fs k"
    by (simp add: fat_sect_def k_def word_arith_nat_div)
  obtain r1 fs1 where m1: "move_window (fat_sect fs k) fs = (r1, fs1)" by fastforce
  note s1 = move_to_byte [OF g w k m1]
  show ?thesis
  proof (cases "r1 = FR_OK")
    case False
    then have "r1 = FR_DISK_ERR" "\<not> io_ok fs" using s1(2) by auto
    then show ?thesis using get t n m1 s1(1) by (simp add: get_fat_def sect)
  next
    case True
    have "(k + i) div 512 = k div 512 \<and> (k + i) mod 512 = k mod 512 + i" if "i < 4" for i
      using same_sector [OF entry_in_sector(2) [OF that]] unfolding k_def by blast
    then have "win fs1 ! (k mod 512 + i) = fat_byte fs (k + i)" if "i < 4" for i
      using s1(4) [OF True, of "k + i"] that by simp
    from this [of 0] this [of 1] this [of 2] this [of 3]
    show ?thesis using get t n m1 s1(1) s1(3) True fat_sect_region(1) [OF g k]
      by (auto simp: get_fat_def sect index_of_offset off fat_entry_def entry_of_def ld_dword_def k_def Let_def)
  qed
qed
qed

text \<open>
  A volume \<open>fs1\<close> reached from \<open>fs0\<close> whose table has the bytes \<open>b\<close>, and then one whose
  window is on the sector of the byte \<open>k\<close>.
\<close>

definition table_is :: "fatfs \<Rightarrow> (nat \<Rightarrow> u8) \<Rightarrow> bool" where
  "table_is fs b \<longleftrightarrow> (\<forall>k < 512 * unat (fsize fs). fat_byte fs k = b k)"

definition vol_is :: "fatfs \<Rightarrow> (nat \<Rightarrow> u8) \<Rightarrow> fatfs \<Rightarrow> bool" where
  "vol_is fs0 b fs1 \<longleftrightarrow> geometry fs0 \<and> keeps_data fs0 fs1 \<and> table_is fs1 b"

definition at_byte :: "fatfs \<Rightarrow> (nat \<Rightarrow> u8) \<Rightarrow> nat \<Rightarrow> fatfs \<Rightarrow> bool" where
  "at_byte fs0 b k fs1 \<longleftrightarrow>
     vol_is fs0 b fs1 \<and> k < 512 * unat (fsize fs0) \<and> winsect fs1 = fat_sect fs0 k"

lemma vol_is_refl: "geometry fs \<Longrightarrow> window_ok fs \<Longrightarrow> vol_is fs (fat_byte fs) fs"
  by (simp add: vol_is_def keeps_keeps_data keeps_refl table_is_def)

lemma vol_isD:
  assumes "vol_is fs0 b fs1"
  shows "cfg fs1 = cfg fs0" "geometry fs1" "window_ok fs1" "fat_sect fs1 = fat_sect fs0"
    "fsize fs1 = fsize fs0" "io_ok fs1 = io_ok fs0"
proof -
  show c: "cfg fs1 = cfg fs0" and "window_ok fs1" using assms by (auto simp: vol_is_def keeps_data_def)
  show "geometry fs1" "fat_sect fs1 = fat_sect fs0" "fsize fs1 = fsize fs0" "io_ok fs1 = io_ok fs0"
    using assms cfg_geometry(1) [OF c] cfg_fat_sect [OF c] cfgD(10) [OF c] cfg_regions(3) [OF c] by (simp_all add: vol_is_def)
qed

lemma move_at:
  assumes v: "vol_is fs0 b fs1" and j: "j < 512 * unat (fsize fs0)"
    and mv: "move_window (fat_sect fs0 j) fs1 = (r, fs2)"
  shows "vol_is fs0 b fs2 \<and> (r = FR_OK \<and> at_byte fs0 b j fs2 \<or> r = FR_DISK_ERR \<and> \<not> io_ok fs0)"
proof -
  note d = vol_isD [OF v]
  have j1: "j < 512 * unat (fsize fs1)" and mv1: "move_window (fat_sect fs1 j) fs1 = (r, fs2)"
    using j mv d by simp_all
  note m = move_to_byte [OF d(2,3) j1 mv1]
  have "vol_is fs0 b fs2"
    using v m(1) keeps_data_trans [OF _ keeps_keeps_data [OF m(1)]] cfgD(10) [OF keeps_cfg [OF m(1)]]
      keeps_fat_byte [OF m(1) d(2)]
    by (simp add: vol_is_def table_is_def)
  then show ?thesis using m(2,3) d j by (auto simp: at_byte_def)
qed

lemma at_byte_read:
  assumes "at_byte fs0 b k fs1"
  shows "win fs1 ! (k mod 512) = b k"
proof -
  have v: "vol_is fs0 b fs1" and k: "k < 512 * unat (fsize fs0)" and w: "winsect fs1 = fat_sect fs0 k"
    using assms by (auto simp: at_byte_def)
  have "fat_byte fs1 k = b k" using v k vol_isD(5) [OF v] by (simp add: vol_is_def table_is_def)
  then show ?thesis using w vol_isD(4) [OF v] by (simp add: fat_byte_def view_def)
qed

lemma at_byte_same:
  "at_byte fs0 b k fs1 \<Longrightarrow> k mod 512 + i < 512 \<Longrightarrow> k + i < 512 * unat (fsize fs0) \<Longrightarrow> at_byte fs0 b (k + i) fs1"
  by (simp add: at_byte_def fat_sect_def same_sector)

lemma poke_at:
  assumes "at_byte fs0 b k fs1"
  shows "at_byte fs0 (b(k := x)) k (poke k x fs1)"
proof -
  have v: "vol_is fs0 b fs1" and k: "k < 512 * unat (fsize fs1)" and at: "winsect fs1 = fat_sect fs1 k"
    using assms vol_isD(4,5) [of fs0 b fs1] by (auto simp: at_byte_def)
  note d = vol_isD [OF v]
  note p = poke_byte [OF d(2,3) k at]
  have "keeps_data fs0 (poke k x fs1)" using v p(1) keeps_data_trans by (auto simp: vol_is_def)
  moreover have "table_is (poke k x fs1) (b(k := x))"
    using v p(2) cfgD(10) [OF poke_sel(2)] by (simp add: vol_is_def table_is_def)
  ultimately show ?thesis using assms by (simp add: at_byte_def vol_is_def)
qed

lemma poke_next:
  assumes "at_byte fs0 b k fs1" and "k mod 512 + i < 512" and "k + i < 512 * unat (fsize fs0)"
  shows "at_byte fs0 (b(k + i := x)) k (fs1\<lparr>win := (win fs1)[k mod 512 + i := x], wflag := True\<rparr>)"
  using poke_at [OF at_byte_same [OF assms], of x] same_sector [OF assms(2)] assms
  by (simp add: at_byte_def poke_def fat_sect_def)

lemma poke_word:
  assumes "at_byte fs0 b k fs1" and "k mod 512 + 1 < 512" and "k + 1 < 512 * unat (fsize fs0)"
  shows "at_byte fs0 (b(k := x, k + 1 := y)) k
    (fs1\<lparr>win := (win fs1)[k mod 512 := x, k mod 512 + 1 := y], wflag := True\<rparr>)"
  using poke_next [OF poke_at [OF assms(1), of x] assms(2,3), of y] by (simp add: poke_def)

lemma poke_dword:
  assumes a: "at_byte fs0 b k fs1" and i: "k mod 512 + 3 < 512" "k + 3 < 512 * unat (fsize fs0)"
  shows "at_byte fs0 (b(k := x, k + 1 := y, k + 2 := z, k + 3 := u)) k
    (fs1\<lparr>win := (win fs1)[k mod 512 := x, k mod 512 + 1 := y, k mod 512 + 2 := z, k mod 512 + 3 := u],
       wflag := True\<rparr>)"
proof -
  have "k mod 512 + 1 < 512" "k + 1 < 512 * unat (fsize fs0)" "k mod 512 + 2 < 512"
    "k + 2 < 512 * unat (fsize fs0)" using i by simp_all
  from poke_next [OF poke_next [OF poke_word [OF a this(1,2), of x y] this(3,4), of z] i, of u]
  show ?thesis by simp
qed

lemma poke_vol: "at_byte fs0 b k fs1 \<Longrightarrow> vol_is fs0 b fs1"
  by (simp add: at_byte_def)

lemma at_byte_window: "at_byte fs0 b k fs1 \<Longrightarrow> vol_is fs0 b fs1 \<and> in_fat1 fs0 (winsect fs1)"
  using fat_sect_region(1) by (auto simp: at_byte_def vol_is_def)

lemma vol_is_data: "vol_is fs0 b fs1 \<Longrightarrow> keeps_data fs0 fs1"
  by (simp add: vol_is_def)

lemma put_fat_spec:
  assumes g: "geometry fs" and w: "window_ok fs" and c: "2 \<le> c" "c < n_fatent fs"
  shows "case put_fat c v fs of (r, fs') \<Rightarrow>
     r = FR_OK \<and> vol_is fs (set_entry (fs_type fs) (unat c) v (fat_byte fs)) fs' \<and>
       in_fat1 fs (winsect fs') \<or>
     r = FR_DISK_ERR \<and> \<not> io_ok fs \<and> keeps_data fs fs'"
proof -
  have n: "2 \<le> c \<and> c < n_fatent fs" using c by auto
  note v0 = vol_is_refl [OF g w]
  show ?thesis
  proof (cases "fs_type fs")
    case FS_NONE
    then show ?thesis using g by (simp add: geometry_def)
  next
    case t: FS_FAT16
    define k where "k = 2 * unat c"
    have k: "k < 512 * unat (fsize fs)" "k + 1 < 512 * unat (fsize fs)"
      using entry_offsets(2) [OF g c(2) t] by (simp_all add: k_def)
    note off = word_offsets(3) [OF g c(2) t, folded k_def]
    have sect: "fatbase fs + c div 256 = fat_sect fs k"
      by (simp add: fat_sect_def k_def word_arith_nat_div)
    obtain r1 fs1 where m1: "move_window (fat_sect fs k) fs = (r1, fs1)" by fastforce
    note s1 = move_at [OF v0 k(1) m1]
    show ?thesis
    proof (cases "r1 = FR_OK")
      case True
      then have a: "at_byte fs (fat_byte fs) k fs1" using s1 by auto
      have "put_fat c v fs =
        (FR_OK, fs1\<lparr>win := (win fs1)[k mod 512 := ucast v, k mod 512 + 1 := ucast (drop_bit 8 v)],
           wflag := True\<rparr>)"
      proof -
        have "ucast (ucast v :: u16) = (ucast v :: u8)" "ucast (drop_bit 8 (ucast v :: u16)) = (ucast (drop_bit 8 v) :: u8)"
          by (rule bit_word_eqI; auto simp: bit_simps)+
        then show ?thesis using t n m1 True by (simp add: put_fat_def sect index_of_offset off st_word_def)
      qed
      moreover have "k mod 512 + 1 < 512" using entry_in_sector(1) by (simp add: k_def)
      ultimately show ?thesis
        using at_byte_window [OF poke_word [OF a _ k(2), of "ucast v" "ucast (drop_bit 8 v)"]] t
        by (simp add: set_entry_def k_def)
    next
      case False
      then show ?thesis using s1 t n m1 vol_is_data by (auto simp: put_fat_def sect)
    qed
  next
    case t: FS_FAT32
    define k where "k = 4 * unat c"
    have k: "k < 512 * unat (fsize fs)" "k + 3 < 512 * unat (fsize fs)"
      using entry_offsets(3) [OF g c(2) t] by (simp_all add: k_def)
    note off = word_offsets(4) [OF g c(2) t, folded k_def]
    have sect: "fatbase fs + c div 128 = fat_sect fs k"
      by (simp add: fat_sect_def k_def word_arith_nat_div)
    obtain r1 fs1 where m1: "move_window (fat_sect fs k) fs = (r1, fs1)" by fastforce
    note s1 = move_at [OF v0 k(1) m1]
    show ?thesis
    proof (cases "r1 = FR_OK")
      case True
      then have a: "at_byte fs (fat_byte fs) k fs1" using s1 by auto
      have i: "k mod 512 + 3 < 512" using entry_in_sector(2) [of 3] by (simp add: k_def)
      have top: "win fs1 ! (k mod 512 + 3) = fat_byte fs (k + 3)"
        using at_byte_read [OF at_byte_same [OF a i k(2)]] same_sector(2) [OF i] by simp
      define p where "p = win fs1"
      define x where "x = (v AND 0x0FFFFFFF) OR (ld_dword p (k mod 512) AND 0xF0000000)"
      have bx: "bit x n \<longleftrightarrow> (if n < 28 then bit v n else n < 32 \<and> bit (p ! (k mod 512 + 3)) (n - 24))" for n
        unfolding x_def ld_dword_def Let_def
        by (auto simp: bit_simps mask_bits dest: bit_imp_le_length)
      have "ucast x = (ucast v :: u8)" "ucast (drop_bit 8 x) = (ucast (drop_bit 8 v) :: u8)"
        "ucast (drop_bit 16 x) = (ucast (drop_bit 16 v) :: u8)"
        "ucast (drop_bit 24 x) = (p ! (k mod 512 + 3) AND 0xF0) OR (ucast (drop_bit 24 v) AND 0x0F :: u8)"
        by (rule bit_word_eqI; auto simp: bit_simps mask_bits bx)+
      then have "put_fat c v fs =
        (FR_OK, fs1\<lparr>win := (win fs1)[k mod 512 := ucast v, k mod 512 + 1 := ucast (drop_bit 8 v),
           k mod 512 + 2 := ucast (drop_bit 16 v),
           k mod 512 + 3 := (win fs1 ! (k mod 512 + 3) AND 0xF0) OR (ucast (drop_bit 24 v) AND 0x0F)],
           wflag := True\<rparr>)"
        using t n m1 True x_def p_def by (simp add: put_fat_def sect index_of_offset off st_dword_def Let_def)
      then show ?thesis
        using at_byte_window [OF poke_dword [OF a i k(2)]] t top
        by (simp add: set_entry_def k_def)
    next
      case False
      then show ?thesis using s1 t n m1 vol_is_data by (auto simp: put_fat_def sect)
    qed
  next
    case t: FS_FAT12
    define k where "k = unat c + unat c div 2"
    have k: "k < 512 * unat (fsize fs)" "k + 1 < 512 * unat (fsize fs)"
      using entry_offsets(1) [OF g c(2) t] by (simp_all add: k_def)
    note off = word_offsets(1,2) [OF g c(2) t, folded k_def]
    have par: "odd (unat c) \<longleftrightarrow> c AND 1 \<noteq> 0"
      by (simp add: and_one_eq odd_iff_mod_2_eq_one word_unat_eq_iff unat_mod)
    obtain r1 fs1 where m1: "move_window (fat_sect fs k) fs = (r1, fs1)" by fastforce
    note s1 = move_at [OF v0 k(1) m1]
    show ?thesis
    proof (cases "r1 = FR_OK")
      case ok1: True
      then have a1: "at_byte fs (fat_byte fs) k fs1" using s1 by auto
      define x where "x = (if odd (unat c) then (fat_byte fs k AND 0x0F) OR push_bit 4 (ucast v) else ucast v)"
      define b1 where "b1 = (fat_byte fs)(k := x)"
      have a2: "at_byte fs b1 k (poke k x fs1)" unfolding b1_def by (rule poke_at [OF a1])
      define fs2 where "fs2 = poke k x fs1"
      obtain r3 fs3 where m2: "move_window (fat_sect fs (k + 1)) fs2 = (r3, fs3)" by fastforce
      note s2 = move_at [OF poke_vol [OF a2] k(2) m2 [unfolded fs2_def]]
      have fs2: "fs2 = fs1\<lparr>win := (win fs1)[k mod 512 := if c AND 1 \<noteq> 0 then (win fs1 ! (k mod 512) AND 0x0F) OR push_bit 4 (ucast v) else ucast v], wflag := True\<rparr>"
        using at_byte_read [OF a1] by (simp add: fs2_def poke_def x_def par)
      define i2 where "i2 = (k + 1) mod 512"
      have put: "put_fat c v fs = (case move_window (fat_sect fs (k + 1)) fs2 of
          (res, fs3) \<Rightarrow> if res \<noteq> FR_OK then (res, fs3) else
            (FR_OK, fs3\<lparr>win := (win fs3)[i2 := if c AND 1 \<noteq> 0 then ucast (drop_bit 4 v)
               else (win fs3 ! i2 AND 0xF0) OR (ucast (drop_bit 8 v) AND 0x0F)], wflag := True\<rparr>))"
      proof -
        have "fat_sect (fs1\<lparr>win := u, wflag := True\<rparr>) = fat_sect fs" for u
          using s1 vol_isD(4) [OF conjunct1 [OF s1]] by (simp add: fun_eq_iff fat_sect_def)
        then show ?thesis using t n m1 ok1 unfolding put_fat_def fs2
          by (simp add: sector_of_offset index_of_offset off i2_def Let_def split_def)
      qed
      show ?thesis
      proof (cases "r3 = FR_OK")
        case ok2: True
        then have a3: "at_byte fs b1 (k + 1) fs3" using s2 by auto
        have "put_fat c v fs = (FR_OK, poke (k + 1) (if odd (unat c) then ucast (drop_bit 4 v)
               else (fat_byte fs (k + 1) AND 0xF0) OR (ucast (drop_bit 8 v) AND 0x0F)) fs3)"
          using put m2 ok2 at_byte_read [OF a3] by (simp add: poke_def i2_def par b1_def)
        then show ?thesis
          using at_byte_window [OF poke_at [OF a3]] t
          by (auto simp: set_entry_def k_def [symmetric] Let_def b1_def x_def)
      next
        case False
        then show ?thesis using s2 put m2 vol_is_data by auto
      qed
    next
      case False
      then show ?thesis using s1 t n m1 vol_is_data by (auto simp: put_fat_def sector_of_offset off)
    qed
  qed
qed

subsection \<open>The table as a map\<close>

lemma entry_cong:
  assumes "geometry fs" and "c < n_fatent fs" and "\<And>k. k < 512 * unat (fsize fs) \<Longrightarrow> b k = b' k"
  shows "entry_of (fs_type fs) b (unat c) = entry_of (fs_type fs) b' (unat c)"
  using entry_offsets [OF assms(1,2)] assms(3)
  by (cases "fs_type fs") (simp_all add: entry_of_def Let_def)

lemma vol_is_entry:
  assumes "vol_is fs (set_entry (fs_type fs) (unat c) v (fat_byte fs)) fs'" and "d < n_fatent fs"
  shows "fat_entry fs' d = (if d = c then v AND entry_mask (fs_type fs) else fat_entry fs d)"
proof -
  note i = vol_isD [OF assms(1)]
  have g: "geometry fs" and t: "fs_type fs \<noteq> FS_NONE" using assms(1) by (auto simp: vol_is_def geometry_def)
  have "fat_entry fs' d = entry_of (fs_type fs) (fat_byte fs') (unat d)"
    using cfgD(1) [OF i(1)] by (simp add: fat_entry_def)
  also have "\<dots> = entry_of (fs_type fs) (set_entry (fs_type fs) (unat c) v (fat_byte fs)) (unat d)"
    by (rule entry_cong [OF g assms(2)]) (use assms(1) i(5) in \<open>simp add: vol_is_def table_is_def\<close>)
  also have "\<dots> = (if d = c then v AND entry_mask (fs_type fs) else fat_entry fs d)"
    using entry_same [OF t] entry_other [of "unat c" "unat d"]
    by (auto simp: fat_entry_def word_unat_eq_iff)
  finally show ?thesis .
qed

text \<open>The volume is as a mount leaves it and the disk answers.\<close>

definition fs_ready :: "fatfs \<Rightarrow> bool" where
  "fs_ready fs \<longleftrightarrow> geometry fs \<and> window_ok fs \<and> io_ok fs"

lemma get_fat_ready:
  assumes "fs_ready fs" and "2 \<le> c" and "c < n_fatent fs"
  obtains fs' where "get_fat c fs = (fat_entry fs c, fs')" and "keeps fs fs'" and "fs_ready fs'"
proof -
  obtain v fs' where g: "get_fat c fs = (v, fs')" by fastforce
  have k: "keeps fs fs'" and v: "v = fat_entry fs c"
    using get_fat_spec [OF _ _ assms(2,3) g] assms(1) by (auto simp: fs_ready_def)
  have "fs_ready fs'"
    using assms(1) cfg_geometry(1) [OF keeps_cfg [OF k]] cfg_regions(3) [OF keeps_cfg [OF k]] keeps_window [OF k]
    by (simp add: fs_ready_def)
  with g k v that show thesis by simp
qed

lemma put_fat_ready:
  assumes "fs_ready fs" and "2 \<le> c" and "c < n_fatent fs"
  obtains fs' where "put_fat c v fs = (FR_OK, fs')" and "keeps_data fs fs'" and "fs_ready fs'"
    and "\<And>d. d < n_fatent fs \<Longrightarrow> fat_entry fs' d = (if d = c then v AND entry_mask (fs_type fs) else fat_entry fs d)"
proof -
  obtain r fs' where p: "put_fat c v fs = (r, fs')" by fastforce
  have r: "r = FR_OK" and vi: "vol_is fs (set_entry (fs_type fs) (unat c) v (fat_byte fs)) fs'"
    using put_fat_spec [OF _ _ assms(2,3), of v] assms(1) p by (auto simp: fs_ready_def)
  have "fs_ready fs'" using vol_isD [OF vi] assms(1) by (simp add: fs_ready_def)
  with p r vi vol_is_data [OF vi] vol_is_entry [OF vi] that show thesis by simp
qed

lemma keeps_entry:
  assumes "keeps fs fs'" and "geometry fs" and "c < n_fatent fs"
  shows "fat_entry fs' c = fat_entry fs c"
proof -
  have "fat_entry fs' c = entry_of (fs_type fs) (fat_byte fs') (unat c)"
    using cfgD(1) [OF keeps_cfg [OF assms(1)]] by (simp add: fat_entry_def)
  also have "\<dots> = fat_entry fs c"
    unfolding fat_entry_def
    by (rule entry_cong [OF assms(2,3)]) (rule keeps_fat_byte [OF assms(1,2)])
  finally show ?thesis .
qed

text \<open>
  C27: an entry of the table reads back what \<open>put_fat\<close> set, cut to the width of the layout, and
  every other entry, also the one that shares a byte with it, reads what it read before; no
  sector outside the tables changes.
\<close>

theorem fat_put_get:
  assumes "fs_ready fs" and "2 \<le> c" and "c < n_fatent fs" and "2 \<le> d" and "d < n_fatent fs"
  shows "case put_fat c v fs of (r, fs1) \<Rightarrow>
    r = FR_OK \<and>
    fst (get_fat d fs1) = (if d = c then v AND entry_mask (fs_type fs) else fst (get_fat d fs)) \<and>
    (\<forall>n. n \<noteq> 0 - 1 \<and> \<not> in_fat1 fs n \<and> \<not> in_fat2 fs n \<longrightarrow> view fs1 n = view fs n)"
proof -
  obtain fs1 where p: "put_fat c v fs = (FR_OK, fs1)" "keeps_data fs fs1" "fs_ready fs1"
    and e: "fat_entry fs1 d = (if d = c then v AND entry_mask (fs_type fs) else fat_entry fs d)"
    using put_fat_ready [OF assms(1-3)] assms(5) by metis
  have "n_fatent fs1 = n_fatent fs" using p(2) cfgD(9) [of fs1 fs] by (simp add: keeps_data_def)
  then have "fst (get_fat d fs1) = fat_entry fs1 d" using get_fat_ready [OF p(3) assms(4)] assms(5) by fastforce
  moreover have "fst (get_fat d fs) = fat_entry fs d" using get_fat_ready [OF assms(1,4,5)] by fastforce
  ultimately show ?thesis using p e by (simp add: keeps_data_def)
qed

text \<open>A small volume: two tables of one sector, eight clusters of a sector each.\<close>

definition demo_fs :: "fat_type \<Rightarrow> fatfs" where
  "demo_fs t = \<lparr>fs_type = t, n_fats = 2, wflag = False, fsi_flag = 0x80, vol_id = 1, n_rootdir = 16, csize = 1,
     last_clst = 0xFFFFFFFF, free_clst = 0xFFFFFFFF, cdir = 0, n_fatent = 10, fsize = 1, volbase = 0,
     fatbase = 1, dirbase = 3, database = 4, winsect = 0xFFFFFFFF, win = replicate 512 0,
     disk = (\<lambda>_. replicate 512 0), io_fail = (\<lambda>_. False), io_count = 0\<rparr>"

lemma demo_ready: "t \<noteq> FS_NONE \<Longrightarrow> fs_ready (demo_fs t)"
  by (cases t) (simp_all add: fs_ready_def geometry_def window_ok_def io_ok_def demo_fs_def
    max_fatent_def fat_bytes_def)

theorem fat_put_get_witness:
  "case put_fat 2 0xABC (demo_fs FS_FAT12) of (r, fs1) \<Rightarrow>
    r = FR_OK \<and> fst (get_fat 3 fs1) = fst (get_fat 3 (demo_fs FS_FAT12)) \<and>
    view fs1 5 = view (demo_fs FS_FAT12) 5"
  using fat_put_get [where fs = "demo_fs FS_FAT12" and c = 2 and d = 3 and v = "0xABC"]
  by (auto simp: demo_ready) (auto simp: demo_fs_def in_fat1_def in_fat2_def)

subsection \<open>The two copies\<close>

datatype fat_op = Get_fat u32 | Put_fat u32 u32 | Sync_fs

primrec fat_step :: "fatfs \<Rightarrow> fat_op \<Rightarrow> fatfs" where
  "fat_step fs (Get_fat c) = snd (get_fat c fs)"
| "fat_step fs (Put_fat c v) = snd (put_fat c v fs)"
| "fat_step fs Sync_fs = snd (sync_fs fs)"

text \<open>The FSInfo sector follows the boot sector and is not one of a table.\<close>

definition info_outside :: "fatfs \<Rightarrow> bool" where
  "info_outside fs \<longleftrightarrow> fs_type fs = FS_FAT32 \<longrightarrow>
     \<not> in_fat1 fs (volbase fs + 1) \<and> \<not> in_fat2 fs (volbase fs + 1) \<and> volbase fs + 1 \<noteq> 0 - 1"

definition copies_inv :: "fatfs \<Rightarrow> bool" where
  "copies_inv fs \<longleftrightarrow> fs_ready fs \<and> mirrored fs \<and> info_outside fs"

lemma keeps_data_copies:
  assumes "copies_inv fs" and "keeps_data fs fs'"
  shows "copies_inv fs'"
proof -
  have c: "cfg fs' = cfg fs" using assms(2) by (simp add: keeps_data_def)
  show ?thesis
    using assms cfg_geometry(1) [OF c] cfg_regions [OF c] cfgD [OF c]
    by (simp add: copies_inv_def fs_ready_def keeps_data_def mirror_kept_def info_outside_def)
qed

lemma get_fat_copies: "copies_inv fs \<Longrightarrow> copies_inv (snd (get_fat c fs))"
proof -
  assume i: "copies_inv fs"
  show ?thesis
  proof (cases "2 \<le> c \<and> c < n_fatent fs")
    case True
    with i obtain fs' where "get_fat c fs = (fat_entry fs c, fs')" "keeps fs fs'"
      using get_fat_ready [of fs c] by (auto simp: copies_inv_def)
    then show ?thesis using keeps_data_copies [OF i keeps_keeps_data] by simp
  next
    case False
    then have "get_fat c fs = (1, fs)" by (auto simp: get_fat_def)
    with i show ?thesis by simp
  qed
qed

lemma put_fat_copies: "copies_inv fs \<Longrightarrow> copies_inv (snd (put_fat c v fs))"
proof -
  assume i: "copies_inv fs"
  show ?thesis
  proof (cases "2 \<le> c \<and> c < n_fatent fs")
    case True
    with i obtain fs' where "put_fat c v fs = (FR_OK, fs')" "keeps_data fs fs'"
      using put_fat_ready [of fs c v] by (auto simp: copies_inv_def)
    then show ?thesis using keeps_data_copies [OF i] by simp
  next
    case False
    then have "put_fat c v fs = (FR_INT_ERR, fs)" by (auto simp: put_fat_def)
    with i show ?thesis by simp
  qed
qed

definition fsinfo :: "fatfs \<Rightarrow> u8 list" where
  "fsinfo fs = st_dword (st_dword (st_dword (st_dword (st_word (replicate 512 0) 510 0xAA55) 0 0x41615252)
     484 0x61417272) 488 (free_clst fs)) 492 (last_clst fs)"

lemma length_fsinfo [simp]: "length (fsinfo fs) = 512"
  by (simp add: fsinfo_def)

lemma sync_fs_ready:
  assumes "copies_inv fs"
  obtains fs1 where "keeps fs fs1" and "\<not> wflag fs1" and
    "sync_fs fs = (FR_OK, if fs_type fs = FS_FAT32 \<and> fsi_flag fs = 1
       then fs1\<lparr>win := fsinfo fs, winsect := volbase fs + 1, io_count := io_count fs1 + 2,
              disk := (disk fs1)(volbase fs + 1 := fsinfo fs), fsi_flag := 0\<rparr>
       else fs1\<lparr>io_count := io_count fs1 + 1\<rparr>)"
proof -
  have w: "window_ok fs" and io: "io_ok fs" using assms by (auto simp: copies_inv_def fs_ready_def)
  obtain r fs1 where s: "sync_window fs = (r, fs1)" by fastforce
  note k = sync_window_keeps [OF w s]
  have r: "r = FR_OK" using k(6) io by simp
  have io1: "\<not> io_fail fs1 n" for n
    using io cfgD(15) [OF keeps_cfg [OF k(1)]] by (simp add: io_ok_def)
  note c = cfgD [OF keeps_cfg [OF k(1)]]
  show thesis
  proof (rule that [OF k(1)])
    show "\<not> wflag fs1" using k(4) r by simp
    show "sync_fs fs = (FR_OK, if fs_type fs = FS_FAT32 \<and> fsi_flag fs = 1
       then fs1\<lparr>win := fsinfo fs, winsect := volbase fs + 1, io_count := io_count fs1 + 2,
              disk := (disk fs1)(volbase fs + 1 := fsinfo fs), fsi_flag := 0\<rparr>
       else fs1\<lparr>io_count := io_count fs1 + 1\<rparr>)"
      using s r io1 c
      by (simp add: sync_fs_def disk_write_sector_def disk_sync_def fsinfo_def Let_def)
  qed
qed

lemma copies_write_info:
  assumes "copies_inv fs" and "\<not> wflag fs" and t: "fs_type fs = FS_FAT32" and "length w = 512"
  shows "copies_inv (fs\<lparr>win := w, winsect := volbase fs + 1, io_count := n,
    disk := (disk fs)(volbase fs + 1 := w), fsi_flag := 0\<rparr>)" (is "copies_inv ?f")
proof -
  have out: "\<not> in_fat1 fs (volbase fs + 1)" "\<not> in_fat2 fs (volbase fs + 1)" "volbase fs + 1 \<noteq> 0 - 1"
    using assms(1) t by (auto simp: copies_inv_def info_outside_def)
  have reg: "in_fat1 ?f = in_fat1 fs" "in_fat2 ?f = in_fat2 fs" by (simp_all add: in_fat1_def in_fat2_def fun_eq_iff)
  have ne: "m \<noteq> volbase fs + 1" "n_fats fs = 2 \<Longrightarrow> m + fsize fs \<noteq> volbase fs + 1" if "in_fat1 fs m" for m
    using out that mirror_in_fat2 [of fs m] by auto
  have "mirrored ?f" using assms(1,2) ne reg by (auto simp: mirrored_def copies_inv_def)
  moreover have "fs_ready ?f"
    using assms by (auto simp: copies_inv_def fs_ready_def geometry_def window_ok_def io_ok_def fat_bytes_def)
  moreover have "info_outside ?f" using out reg by (simp add: info_outside_def)
  ultimately show ?thesis by (simp add: copies_inv_def)
qed

lemma sync_fs_copies:
  assumes "copies_inv fs"
  shows "fst (sync_fs fs) = FR_OK" "copies_inv (snd (sync_fs fs))" "\<not> wflag (snd (sync_fs fs))"
proof -
  obtain fs1 where k: "keeps fs fs1" and w: "\<not> wflag fs1" and
    s: "sync_fs fs = (FR_OK, if fs_type fs = FS_FAT32 \<and> fsi_flag fs = 1
       then fs1\<lparr>win := fsinfo fs, winsect := volbase fs + 1, io_count := io_count fs1 + 2,
              disk := (disk fs1)(volbase fs + 1 := fsinfo fs), fsi_flag := 0\<rparr>
       else fs1\<lparr>io_count := io_count fs1 + 1\<rparr>)"
    using sync_fs_ready [OF assms] by blast
  note c = cfgD [OF keeps_cfg [OF k]]
  have i: "copies_inv fs1" by (rule keeps_data_copies [OF assms keeps_keeps_data [OF k]])
  then have "copies_inv (fs1\<lparr>io_count := n\<rparr>)" for n
    by (simp add: copies_inv_def fs_ready_def mirrored_def info_outside_def window_ok_def io_ok_def
        geometry_def fat_bytes_def)
  then show "fst (sync_fs fs) = FR_OK" "copies_inv (snd (sync_fs fs))" "\<not> wflag (snd (sync_fs fs))"
    using s w copies_write_info [OF i w, of "fsinfo fs"] c by (auto split: if_splits)
qed

interpretation fat_copies: invariant_machine fat_step copies_inv
proof
  show "copies_inv (fat_step fs e)" if "copies_inv fs" for fs e
    using that by (cases e) (simp_all add: get_fat_copies put_fat_copies sync_fs_copies)
qed

text \<open>
  After any sequence of reads and changes of table entries and of syncs, a sync writes the
  same content into both tables of the disk, sector by sector, and the FSInfo sector it may
  write is neither of theirs.
\<close>

theorem fat_copies_agree:
  assumes "fs_ready fs" and "mirrored fs" and "info_outside fs"
  shows "case sync_fs (foldl fat_step fs ops) of (r, fs') \<Rightarrow>
    r = FR_OK \<and> \<not> wflag fs' \<and>
    (n_fats fs' = 2 \<longrightarrow> (\<forall>i < fsize fs'. disk fs' (fatbase fs' + fsize fs' + i) = disk fs' (fatbase fs' + i)))"
proof -
  have "copies_inv (foldl fat_step fs ops)"
    by (rule fat_copies.run_inv) (use assms in \<open>simp add: copies_inv_def\<close>)
  note s = sync_fs_copies [OF this]
  obtain r fs' where e: "sync_fs (foldl fat_step fs ops) = (r, fs')" by fastforce
  have "disk fs' (fatbase fs' + fsize fs' + i) = disk fs' (fatbase fs' + i)"
    if "n_fats fs' = 2" "i < fsize fs'" for i
  proof -
    have "in_fat1 fs' (fatbase fs' + i)" using that(2) by (simp add: in_fat1_def)
    then have "disk fs' (fatbase fs' + i + fsize fs') = disk fs' (fatbase fs' + i)"
      using s that(1) e by (simp add: copies_inv_def mirrored_def)
    then show ?thesis by (simp add: algebra_simps)
  qed
  then show ?thesis using s e by auto
qed

theorem fat_copies_agree_witness:
  "case sync_fs (foldl fat_step (demo_fs FS_FAT12) [Put_fat 2 0xFFF, Get_fat 3]) of (r, fs') \<Rightarrow>
    r = FR_OK \<and> \<not> wflag fs'"
proof -
  have "mirrored (demo_fs FS_FAT12)" "info_outside (demo_fs FS_FAT12)"
    by (simp_all add: mirrored_def info_outside_def demo_fs_def)
  then show ?thesis
    using fat_copies_agree [OF demo_ready, of FS_FAT12 "[Put_fat 2 0xFFF, Get_fat 3]"]
    by (auto simp: split_def)
qed
end
