(* ===== verification/FatFs_Chain.thy ===== *)
theory FatFs_Chain
  imports FatFs_Access
begin

text \<open>
  The cluster chains (\<open>remove_chain\<close> and \<open>create_chain\<close> of \<open>ff.c\<close>): a file's clusters are a list
  linked through the table. Removing a chain ends on every table, also on one with a cycle, and
  frees exactly the chain; stretching one takes a free cluster if there is one, and the count of
  free clusters stays right.
\<close>

subsection \<open>The code\<close>

partial_function (option) remove_loop :: "u32 \<Rightarrow> fatfs \<Rightarrow> (FRESULT \<times> fatfs) option" where
  "remove_loop clst fs =
     (case get_fat clst fs of
        (nxt, fs1) \<Rightarrow>
          if nxt = 0 then Some (FR_OK, fs1)
          else if nxt = 1 then Some (FR_INT_ERR, fs1)
          else if nxt = 0xFFFFFFFF then Some (FR_DISK_ERR, fs1)
          else
            (case put_fat clst 0 fs1 of
               (res, fs2) \<Rightarrow>
                 if res \<noteq> FR_OK then Some (res, fs2)
                 else
                   (let fs3 = (if free_clst fs2 < n_fatent fs2 - 2
                               then fs2\<lparr>free_clst := free_clst fs2 + 1, fsi_flag := fsi_flag fs2 OR 1\<rparr>
                               else fs2)
                    in if nxt < n_fatent fs3 then remove_loop nxt fs3 else Some (FR_OK, fs3))))"

definition remove_chain :: "u32 \<Rightarrow> u32 \<Rightarrow> fatfs \<Rightarrow> (FRESULT \<times> fatfs) option" where
  "remove_chain clst pclst fs =
     (if clst < 2 \<or> clst \<ge> n_fatent fs then Some (FR_INT_ERR, fs)
      else if pclst \<noteq> 0 then
        (case put_fat pclst 0xFFFFFFFF fs of
           (res, fs1) \<Rightarrow> if res \<noteq> FR_OK then Some (res, fs1) else remove_loop clst fs1)
      else remove_loop clst fs)"

text \<open>
  \<open>create_chain\<close> in its stages. Each one returns the value the function returns (\<open>Inl\<close>) or
  what the next one goes on with: the cluster to start to find, then that and the cluster found
  (0 if none yet), then the new cluster.
\<close>

definition create_start :: "u32 \<Rightarrow> fatfs \<Rightarrow> (u32 + u32) \<times> fatfs" where
  "create_start clst fs =
     (if clst = 0 then
        (let scl = last_clst fs in (Inr (if scl = 0 \<or> scl \<ge> n_fatent fs then 1 else scl), fs))
      else
        (case get_fat clst fs of
           (cs, fs1) \<Rightarrow>
             (if cs < 2 then Inl 1
              else if cs = 0xFFFFFFFF then Inl cs
              else if cs < n_fatent fs1 then Inl cs
              else Inr clst, fs1)))"

definition create_next :: "u32 \<Rightarrow> u32 \<Rightarrow> fatfs \<Rightarrow> (u32 + u32 \<times> u32) \<times> fatfs" where
  "create_next clst scl fs =
     (if scl = clst then
        (let ncl = scl + 1; ncl = (if ncl \<ge> n_fatent fs then 2 else ncl)
         in case get_fat ncl fs of
              (cs, fs1) \<Rightarrow>
                (if cs = 1 \<or> cs = 0xFFFFFFFF then Inl cs
                 else if cs \<noteq> 0 then
                   (let cs = last_clst fs1
                    in Inr (if cs \<ge> 2 \<and> cs < n_fatent fs1 then cs else scl, 0))
                 else Inr (scl, ncl), fs1))
      else (Inr (scl, 0), fs))"

partial_function (option) find_free :: "u32 \<Rightarrow> u32 \<Rightarrow> fatfs \<Rightarrow> ((u32 + u32) \<times> fatfs) option" where
  "find_free scl ncl fs =
     (let ncl = ncl + 1; wrap = (ncl \<ge> n_fatent fs); ncl = (if wrap then 2 else ncl)
      in if wrap \<and> ncl > scl then Some (Inl 0, fs)
         else
           (case get_fat ncl fs of
              (cs, fs1) \<Rightarrow>
                if cs = 0 then Some (Inr ncl, fs1)
                else if cs = 1 \<or> cs = 0xFFFFFFFF then Some (Inl cs, fs1)
                else if ncl = scl then Some (Inl 0, fs1)
                else find_free scl ncl fs1))"

definition create_link :: "u32 \<Rightarrow> u32 \<Rightarrow> fatfs \<Rightarrow> u32 \<times> fatfs" where
  "create_link clst ncl fs =
     (case (case put_fat ncl 0xFFFFFFFF fs of
              (res, fs1) \<Rightarrow> if res = FR_OK \<and> clst \<noteq> 0 then put_fat clst ncl fs1 else (res, fs1)) of
        (res, fs2) \<Rightarrow>
          if res = FR_OK then
            (ncl, fs2\<lparr>last_clst := ncl,
                    free_clst := (if free_clst fs2 \<le> n_fatent fs2 - 2 then free_clst fs2 - 1 else free_clst fs2),
                    fsi_flag := fsi_flag fs2 OR 1\<rparr>)
          else (if res = FR_DISK_ERR then 0xFFFFFFFF else 1, fs2))"

definition create_chain :: "u32 \<Rightarrow> fatfs \<Rightarrow> (u32 \<times> fatfs) option" where
  "create_chain clst fs =
     (case create_start clst fs of
        (Inl r, fs1) \<Rightarrow> Some (r, fs1)
      | (Inr scl, fs1) \<Rightarrow>
          if free_clst fs1 = 0 then Some (0, fs1)
          else
            (case create_next clst scl fs1 of
               (Inl r, fs2) \<Rightarrow> Some (r, fs2)
             | (Inr (scl, ncl), fs2) \<Rightarrow>
                 (case (if ncl = 0 then find_free scl scl fs2 else Some (Inr ncl, fs2)) of
                    None \<Rightarrow> None
                  | Some (Inl r, fs3) \<Rightarrow> Some (r, fs3)
                  | Some (Inr ncl, fs3) \<Rightarrow> Some (create_link clst ncl fs3))))"

subsection \<open>What the operations keep\<close>

definition layout where
  "layout fs = (fs_type fs, n_fats fs, n_rootdir fs, csize fs, cdir fs, n_fatent fs, fsize fs,
     volbase fs, fatbase fs, dirbase fs, database fs, vol_id fs, io_fail (fs :: fatfs))"

definition data_kept :: "fatfs \<Rightarrow> fatfs \<Rightarrow> bool" where
  "data_kept fs fs' \<longleftrightarrow> layout fs' = layout fs \<and> window_ok fs' \<and> mirror_kept fs fs' \<and>
     (winsect fs' = winsect fs \<or> in_fat1 fs (winsect fs') \<or> \<not> io_ok fs) \<and>
     (\<forall>n. n \<noteq> 0 - 1 \<and> \<not> in_fat1 fs n \<and> \<not> in_fat2 fs n \<longrightarrow> view fs' n = view fs n)"

lemma layoutD:
  assumes "layout fs' = layout fs"
  shows "fs_type fs' = fs_type fs" "n_fats fs' = n_fats fs" "n_rootdir fs' = n_rootdir fs"
    "csize fs' = csize fs" "cdir fs' = cdir fs" "n_fatent fs' = n_fatent fs" "fsize fs' = fsize fs"
    "volbase fs' = volbase fs" "fatbase fs' = fatbase fs" "dirbase fs' = dirbase fs"
    "database fs' = database fs" "io_fail fs' = io_fail fs" "vol_id fs' = vol_id fs"
  using assms by (simp_all add: layout_def)

lemma layout_eq:
  assumes "layout fs' = layout fs"
  shows "geometry fs' = geometry fs" "in_fat1 fs' = in_fat1 fs" "in_fat2 fs' = in_fat2 fs"
    "io_ok fs' = io_ok fs" "fat_sect fs' = fat_sect fs"
  using layoutD [OF assms]
  by (simp_all add: geometry_def fat_bytes_def in_fat1_def in_fat2_def io_ok_def fat_sect_def fun_eq_iff Let_def)

lemma cfg_layout: "cfg fs' = cfg fs \<Longrightarrow> layout fs' = layout fs"
  by (simp add: cfg_def layout_def)

lemma keeps_data_kept:
  "keeps_data fs fs' \<Longrightarrow> winsect fs' = winsect fs \<or> in_fat1 fs (winsect fs') \<or> \<not> io_ok fs \<Longrightarrow> data_kept fs fs'"
  using cfg_layout [of fs' fs] by (simp add: keeps_data_def data_kept_def)

lemma data_kept_refl: "window_ok fs \<Longrightarrow> data_kept fs fs"
  by (simp add: data_kept_def mirror_kept_def)

lemma data_kept_trans:
  assumes "data_kept a b" and "data_kept b c"
  shows "data_kept a c"
proof -
  have l: "layout b = layout a" using assms(1) by (simp add: data_kept_def)
  show ?thesis using assms unfolding data_kept_def mirror_kept_def by (auto simp add: layout_eq [OF l])
qed

lemma data_kept_geometry:
  assumes "data_kept a b"
  shows "geometry b = geometry a" "n_fatent b = n_fatent a" "io_ok b = io_ok a" "fs_type b = fs_type a"
proof -
  have l: "layout b = layout a" using assms by (simp add: data_kept_def)
  show "geometry b = geometry a" "n_fatent b = n_fatent a" "io_ok b = io_ok a" "fs_type b = fs_type a"
    by (fact layout_eq [OF l] layoutD [OF l])+
qed

text \<open>The FSInfo fields are not looked at.\<close>

lemma info_fields [simp]:
  "layout (fs\<lparr>last_clst := l\<rparr>) = layout fs" "layout (fs\<lparr>free_clst := f\<rparr>) = layout fs"
  "layout (fs\<lparr>fsi_flag := i\<rparr>) = layout fs"
  "view (fs\<lparr>last_clst := l\<rparr>) = view fs" "view (fs\<lparr>free_clst := f\<rparr>) = view fs"
  "view (fs\<lparr>fsi_flag := i\<rparr>) = view fs"
  "window_ok (fs\<lparr>last_clst := l\<rparr>) = window_ok fs" "window_ok (fs\<lparr>free_clst := f\<rparr>) = window_ok fs"
  "window_ok (fs\<lparr>fsi_flag := i\<rparr>) = window_ok fs"
  "mirrored (fs\<lparr>last_clst := l\<rparr>) = mirrored fs" "mirrored (fs\<lparr>free_clst := f\<rparr>) = mirrored fs"
  "mirrored (fs\<lparr>fsi_flag := i\<rparr>) = mirrored fs"
  by (simp_all add: layout_def view_def window_ok_def mirrored_def in_fat1_def in_fat2_def fun_eq_iff)

lemma info_kept:
  "data_kept a b \<Longrightarrow> data_kept a (b\<lparr>last_clst := l\<rparr>)"
  "data_kept a b \<Longrightarrow> data_kept a (b\<lparr>free_clst := f\<rparr>)"
  "data_kept a b \<Longrightarrow> data_kept a (b\<lparr>fsi_flag := i\<rparr>)"
  by (simp_all add: data_kept_def mirror_kept_def)

subsection \<open>The table as a map of clusters\<close>

text \<open>1, the value the code takes for an internal error, outside the table.\<close>

definition fatmap :: "fatfs \<Rightarrow> u32 \<Rightarrow> u32" where
  "fatmap fs d = (if 2 \<le> d \<and> d < n_fatent fs then fat_entry fs d else 1)"

definition mounted :: "fatfs \<Rightarrow> bool" where
  "mounted fs \<longleftrightarrow> geometry fs \<and> window_ok fs"

lemma mounted_ready: "fs_ready fs \<longleftrightarrow> mounted fs \<and> io_ok fs"
  by (auto simp: fs_ready_def mounted_def)

lemma data_kept_mounted: "data_kept a b \<Longrightarrow> mounted a \<Longrightarrow> mounted b"
  using data_kept_geometry(1) [of a b] by (auto simp: mounted_def data_kept_def)

lemma fatmap_info [simp]:
  "fatmap (fs\<lparr>last_clst := l\<rparr>) = fatmap fs" "fatmap (fs\<lparr>free_clst := f\<rparr>) = fatmap fs"
  "fatmap (fs\<lparr>fsi_flag := i\<rparr>) = fatmap fs"
proof -
  have "fat_byte (fs\<lparr>last_clst := l\<rparr>) = fat_byte fs" "fat_byte (fs\<lparr>free_clst := f\<rparr>) = fat_byte fs"
    "fat_byte (fs\<lparr>fsi_flag := i\<rparr>) = fat_byte fs"
    by (rule ext, simp add: fat_byte_def fat_sect_def)+
  note b = this
  show "fatmap (fs\<lparr>last_clst := l\<rparr>) = fatmap fs" "fatmap (fs\<lparr>free_clst := f\<rparr>) = fatmap fs"
    "fatmap (fs\<lparr>fsi_flag := i\<rparr>) = fatmap fs"
    by (rule ext, simp only: fatmap_def fat_entry_def b, simp)+
qed

lemma keeps_fatmap: "keeps fs fs' \<Longrightarrow> geometry fs \<Longrightarrow> fatmap fs' = fatmap fs"
  using cfgD(9) [OF keeps_cfg [of fs fs']] by (auto simp: fatmap_def fun_eq_iff keeps_entry)

lemma get_fat_cases:
  assumes "mounted fs" and "2 \<le> c" and "c < n_fatent fs"
  obtains v fs' where "get_fat c fs = (v, fs')" and "data_kept fs fs'" and "fatmap fs' = fatmap fs"
    and "cfg fs' = cfg fs" and "v = fatmap fs c \<or> v = 0xFFFFFFFF \<and> \<not> io_ok fs"
proof -
  obtain v fs' where g: "get_fat c fs = (v, fs')" by fastforce
  have m: "geometry fs" "window_ok fs" using assms(1) by (auto simp: mounted_def)
  have k: "keeps fs fs'"
    and v: "v = fat_entry fs c \<and> in_fat1 fs (winsect fs') \<or> v = 0xFFFFFFFF \<and> \<not> io_ok fs"
    using get_fat_spec [OF m assms(2,3) g] by auto
  then have "data_kept fs fs'" by (intro keeps_data_kept keeps_keeps_data) auto
  then show thesis
    using that [OF g _ keeps_fatmap [OF k m(1)] keeps_cfg [OF k]] v assms by (auto simp add: fatmap_def)
qed

lemma put_fat_cases:
  assumes "mounted fs" and "2 \<le> c" and "c < n_fatent fs"
  obtains (ok) fs' where "put_fat c v fs = (FR_OK, fs')" and "data_kept fs fs'" and "cfg fs' = cfg fs"
      and "fatmap fs' = (fatmap fs)(c := v AND entry_mask (fs_type fs))"
    | (failed) fs' where "put_fat c v fs = (FR_DISK_ERR, fs')" and "data_kept fs fs'" and "\<not> io_ok fs"
proof -
  obtain r fs' where p: "put_fat c v fs = (r, fs')" by fastforce
  have m: "geometry fs" "window_ok fs" using assms(1) by (auto simp: mounted_def)
  from put_fat_spec [OF m assms(2,3), of v] p
  consider "r = FR_OK" "vol_is fs (set_entry (fs_type fs) (unat c) v (fat_byte fs)) fs'"
        "in_fat1 fs (winsect fs')"
    | "r = FR_DISK_ERR" "\<not> io_ok fs" "keeps_data fs fs'" by auto
  then show thesis
  proof cases
    case 1
    have "fatmap fs' = (fatmap fs)(c := v AND entry_mask (fs_type fs))"
      using vol_is_entry [OF 1(2)] cfgD(9) [OF vol_isD(1) [OF 1(2)]] assms(2,3)
      by (auto simp: fatmap_def fun_eq_iff)
    then show thesis
      using ok p 1(1,3) keeps_data_kept [OF vol_is_data [OF 1(2)]] vol_isD(1) [OF 1(2)] by simp
  next
    case 2
    then show thesis using failed p keeps_data_kept [OF 2(3)] by simp
  qed
qed

text \<open>An entry that is set to all ones ends a chain, a cluster number stays.\<close>

lemma mask_values:
  assumes "geometry fs"
  shows "n_fatent fs \<le> 0xFFFFFFFF AND entry_mask (fs_type fs)"
    and "c < n_fatent fs \<Longrightarrow> c AND entry_mask (fs_type fs) = c"
proof -
  have n: "n_fatent fs \<le> max_fatent (fs_type fs)" "fs_type fs \<noteq> FS_NONE" using assms by (auto simp: geometry_def)
  then show "n_fatent fs \<le> 0xFFFFFFFF AND entry_mask (fs_type fs)"
    by (cases "fs_type fs") (auto simp: max_fatent_def entry_mask_def elim: order_trans)
  have *: "x AND mask n = x" if "unat x < 2 ^ n" for x :: u32 and n
    using that by (metis take_bit_eq_mask take_bit_nat_eq_self_iff unsigned_take_bit_eq word_unat_eq_iff)
  assume "c < n_fatent fs"
  then have c: "unat c < unat (max_fatent (fs_type fs))" using n(1) by (auto simp: word_less_nat_alt word_le_nat_alt)
  have "0xFFF = (mask 12 :: u32)" "0xFFFF = (mask 16 :: u32)" "0x0FFFFFFF = (mask 28 :: u32)"
    by (simp_all add: mask_eq_exp_minus_1)
  then show "c AND entry_mask (fs_type fs) = c"
    using c n(2) * [of c 12] * [of c 16] * [of c 28]
    by (cases "fs_type fs") (simp_all add: max_fatent_def entry_mask_def)
qed


subsection \<open>Removing a chain\<close>

definition free_set :: "fatfs \<Rightarrow> u32 set" where
  "free_set fs = {d. fatmap fs d = 0}"

text \<open>The count of free clusters is right where it is known.\<close>

definition count_ok :: "fatfs \<Rightarrow> bool" where
  "count_ok fs \<longleftrightarrow> free_clst fs \<le> n_fatent fs - 2 \<longrightarrow> unat (free_clst fs) = card (free_set fs)"

lemma free_set_range: "free_set fs \<subseteq> {2..<n_fatent fs}"
  by (auto simp: free_set_def fatmap_def split: if_splits)

lemma card_range: "card {2..<n :: u32} = unat n - 2"
proof -
  have "unat ` {2..<n} = {2..<unat n}"
  proof (intro equalityI subsetI)
    fix k assume k: "k \<in> {2..<unat n}"
    have "unat n < 2 ^ 32" using unsigned_less [of n] by simp
    with k have "k < 2 ^ 32" by simp
    then have "unat (of_nat k :: u32) = k" by (simp add: unat_of_nat take_bit_nat_eq_self)
    then show "k \<in> unat ` {2..<n}"
      using k by (intro image_eqI [of _ _ "of_nat k"]) (auto simp: word_less_nat_alt word_le_nat_alt)
  qed (auto simp: word_less_nat_alt word_le_nat_alt)
  moreover have "inj_on unat {2..<n}" by (simp add: inj_on_def word_unat_eq_iff)
  ultimately show ?thesis using card_image [of unat "{2..<n}"] by simp
qed

text \<open>No entry is the value for a disk error.\<close>

lemma fatmap_no_error: "mounted fs \<Longrightarrow> fatmap fs c \<noteq> 0xFFFFFFFF"
proof -
  assume "mounted fs"
  then have "fs_type fs \<noteq> FS_NONE" by (simp add: mounted_def geometry_def)
  then have "\<not> bit (entry_of (fs_type fs) (fat_byte fs) (unat c)) 31"
    by (cases "fs_type fs") (auto simp: entry_of_def Let_def bit_simps mask_bits dest: bit_imp_le_length)
  then have "entry_of (fs_type fs) (fat_byte fs) (unat c) \<noteq> 0xFFFFFFFF" by (auto simp: bit_simps)
  then show ?thesis by (simp add: fatmap_def fat_entry_def)
qed

lemma free_set_info [simp]:
  "free_set (fs\<lparr>last_clst := l\<rparr>) = free_set fs" "free_set (fs\<lparr>free_clst := f\<rparr>) = free_set fs"
  "free_set (fs\<lparr>fsi_flag := i\<rparr>) = free_set fs"
  by (simp_all add: free_set_def)

definition bump_free :: "fatfs \<Rightarrow> fatfs" where
  "bump_free fs = (if free_clst fs < n_fatent fs - 2
     then fs\<lparr>free_clst := free_clst fs + 1, fsi_flag := fsi_flag fs OR 1\<rparr> else fs)"

lemma bump_free [simp]: "layout (bump_free fs) = layout fs" "fatmap (bump_free fs) = fatmap fs"
  "n_fatent (bump_free fs) = n_fatent fs"
  by (simp_all add: bump_free_def)

lemma bump_kept: "data_kept a b \<Longrightarrow> data_kept a (bump_free b)"
  by (simp add: bump_free_def info_kept)

text \<open>One round of the loop: the entry of the cluster is cleared.\<close>

lemma remove_step:
  assumes m: "mounted fs" and c: "2 \<le> c" "c < n_fatent fs"
  obtains (stop) r fs' where "remove_loop c fs = Some (r, fs')" and "data_kept fs fs'" and "r \<noteq> FR_OK"
      and "fatmap fs c = 1 \<or> \<not> io_ok fs"
      and "io_ok fs \<Longrightarrow> cfg fs' = cfg fs \<and> fatmap fs' = fatmap fs"
    | (unused) fs' where "remove_loop c fs = Some (FR_OK, fs')" and "data_kept fs fs'" and "cfg fs' = cfg fs" and
      "fatmap fs c = 0" and "fatmap fs' = fatmap fs"
    | (go) fs' where "data_kept fs fs'" and "fatmap fs c \<noteq> 0" and "fatmap fs c \<noteq> 1"
      and "cfg fs' = cfg fs" and "fatmap fs' = (fatmap fs)(c := 0)"
      and "remove_loop c fs = (if fatmap fs c < n_fatent fs then remove_loop (fatmap fs c) (bump_free fs')
        else Some (FR_OK, bump_free fs'))"
proof -
  obtain v fs1 where g: "get_fat c fs = (v, fs1)" and k1: "data_kept fs fs1" and f1: "fatmap fs1 = fatmap fs"
    and c1: "cfg fs1 = cfg fs" and v: "v = fatmap fs c \<or> v = 0xFFFFFFFF \<and> \<not> io_ok fs"
    by (rule get_fat_cases [OF m c])
  note rl = remove_loop.simps [of c fs]
  show thesis
  proof (cases "v = 0xFFFFFFFF \<or> v = 1 \<or> v = 0")
    case True
    then consider "v = 0" | "v = 1" | "v = 0xFFFFFFFF" by blast
    then show thesis
    proof cases
      case 1
      show thesis by (rule unused [of fs1]) (use 1 g v k1 f1 c1 rl in auto)
    next
      case 2
      show thesis by (rule stop [of FR_INT_ERR fs1]) (use 2 g v k1 f1 c1 rl in auto)
    next
      case 3
      have "fatmap fs c \<noteq> 0xFFFFFFFF" by (rule fatmap_no_error [OF m])
      with 3 v show thesis by (intro stop [of FR_DISK_ERR fs1]) (use 3 g v k1 rl in auto)
    qed
  next
    case False
    then have v: "v = fatmap fs c" "v \<noteq> 0" "v \<noteq> 1" "v \<noteq> 0xFFFFFFFF" using v by auto
    have m1: "mounted fs1" and n1: "n_fatent fs1 = n_fatent fs" and io1: "io_ok fs1 = io_ok fs"
      using data_kept_mounted [OF k1 m] data_kept_geometry [OF k1] by auto
    from m1 c(1) c(2) [folded n1] show thesis
    proof (cases rule: put_fat_cases [where v = 0])
      case (ok fs2)
      have n2: "n_fatent fs2 = n_fatent fs" using data_kept_geometry(2) [OF ok(2)] n1 by simp
      show thesis
        by (rule go [of fs2])
          (use ok g v k1 f1 c1 rl n2 data_kept_trans [OF k1 ok(2)] in \<open>auto simp: bump_free_def Let_def\<close>)
    next
      case (failed fs2)
      show thesis by (rule stop [of FR_DISK_ERR fs2])
        (use failed g v io1 rl data_kept_trans [OF k1 failed(2)] in auto)
    qed
  qed
qed

text \<open>It ends: a round clears an entry that was not clear.\<close>

definition used_set :: "fatfs \<Rightarrow> u32 set" where
  "used_set fs = {d. 2 \<le> d \<and> d < n_fatent fs \<and> fatmap fs d \<noteq> 0}"

lemma count_same: "cfg fs' = cfg fs \<Longrightarrow> fatmap fs' = fatmap fs \<Longrightarrow> count_ok fs \<Longrightarrow> count_ok fs'"
  using cfgD(7,9) [of fs' fs] by (simp add: count_ok_def free_set_def)

lemma count_freed:
  assumes cnt: "count_ok fs" and c: "2 \<le> c" "c < n_fatent fs" and u: "fatmap fs c \<noteq> 0"
    and cf: "cfg fs' = cfg fs" and f: "fatmap fs' = (fatmap fs)(c := 0)"
  shows "count_ok (bump_free fs')"
proof -
  define n where "n = n_fatent fs - 2"
  have e: "free_clst fs' = free_clst fs" "n_fatent fs' = n_fatent fs" by (fact cfgD [OF cf])+
  have n: "unat n = card {2..<n_fatent fs}"
    using c unfolding n_def card_range by (simp add: unat_sub word_le_nat_alt word_less_nat_alt)
  have fr: "free_set fs' = insert c (free_set fs)" using f by (auto simp: free_set_def)
  have "c \<notin> free_set fs" using u by (simp add: free_set_def)
  then have card: "card (insert c (free_set fs)) = card (free_set fs) + 1" by simp
  have "insert c (free_set fs) \<subseteq> {2..<n_fatent fs}" using free_set_range c by auto
  then have "card (free_set fs) + 1 \<le> unat n" unfolding n card [symmetric] by (rule card_mono [rotated]) simp
  then have lt: "free_clst fs < n" if "free_clst fs \<le> n"
    using that cnt by (simp add: count_ok_def n_def [symmetric] word_less_nat_alt)
  show ?thesis
  proof (cases "free_clst fs < n")
    case True
    moreover have "unat n < 2 ^ 32" using unsigned_less [of n] by simp
    ultimately have "unat (free_clst fs + 1) = unat (free_clst fs) + 1"
      by (simp add: word_less_nat_alt unat_plus_if')
    then show ?thesis
      using True cnt card by (simp add: count_ok_def fr bump_free_def e n_def [symmetric] order.strict_implies_order)
  next
    case False
    then show ?thesis using lt by (auto simp: count_ok_def bump_free_def e n_def [symmetric])
  qed
qed

lemma remove_loop_ends:
  assumes "mounted fs" and "2 \<le> c" and "c < n_fatent fs"
  shows "\<exists>r fs'. remove_loop c fs = Some (r, fs') \<and> data_kept fs fs' \<and> (io_ok fs \<and> count_ok fs \<longrightarrow> count_ok fs')"
  using assms
proof (induction "card (used_set fs)" arbitrary: fs c rule: less_induct)
  case less
  note m = less.prems(1) and c = less.prems(2,3)
  from m c show ?case
  proof (cases rule: remove_step)
    case (stop r fs')
    have "io_ok fs \<longrightarrow> count_ok fs \<longrightarrow> count_ok fs'" using stop(5) count_same by blast
    then show ?thesis using stop(1,2) by blast
  next
    case (unused fs')
    then show ?thesis using count_same [OF unused(3,5)] by auto
  next
    case (go fs')
    define fs2 where "fs2 = bump_free fs'"
    have k: "data_kept fs fs2" unfolding fs2_def by (rule bump_kept [OF go(1)])
    have n: "n_fatent fs2 = n_fatent fs" by (rule data_kept_geometry(2) [OF k])
    have f: "fatmap fs2 = (fatmap fs)(c := 0)" using go(5) by (simp add: fs2_def)
    have cnt: "count_ok fs2" if "count_ok fs"
      unfolding fs2_def by (rule count_freed [OF that c go(2,4,5)])
    show ?thesis
    proof (cases "fatmap fs c < n_fatent fs")
      case True
      have "used_set fs2 = used_set fs - {c}" using n f by (auto simp: used_set_def)
      moreover have "c \<in> used_set fs" using c go(2) by (simp add: used_set_def)
      ultimately have less': "card (used_set fs2) < card (used_set fs)" using card_Diff1_less [of "used_set fs" c] by simp
      have "2 \<le> fatmap fs c" using go(2,3) by (rule word_ge_2)
      from less.hyps [OF less' data_kept_mounted [OF k m] this] True n
      obtain r fs3 where "remove_loop (fatmap fs c) fs2 = Some (r, fs3)" "data_kept fs2 fs3"
        "io_ok fs2 \<and> count_ok fs2 \<longrightarrow> count_ok fs3" by auto
      then show ?thesis
        using go(6) True cnt data_kept_trans [OF k] data_kept_geometry(3) [OF k] unfolding fs2_def by auto
    next
      case False
      then show ?thesis using go(6) k cnt unfolding fs2_def by auto
    qed
  qed
qed

lemma remove_chain_ends:
  assumes m: "mounted fs"
  shows "\<exists>r fs'. remove_chain c p fs = Some (r, fs') \<and> data_kept fs fs' \<and>
    (io_ok fs \<and> count_ok fs \<and> (p = 0 \<or> fatmap fs p \<noteq> 0) \<longrightarrow> count_ok fs')"
proof (cases "2 \<le> c \<and> c < n_fatent fs")
  case False
  then have "remove_chain c p fs = Some (FR_INT_ERR, fs)" by (auto simp: remove_chain_def)
  then show ?thesis using m by (simp add: data_kept_refl mounted_def)
next
  case c: True
  then have "\<not> c < 2" "\<not> n_fatent fs \<le> c" by auto
  then have rc: "remove_chain c p fs = (if p \<noteq> 0 then
        (case put_fat p 0xFFFFFFFF fs of
           (res, fs1) \<Rightarrow> if res \<noteq> FR_OK then Some (res, fs1) else remove_loop c fs1)
      else remove_loop c fs)" by (simp add: remove_chain_def)
  show ?thesis
  proof (cases "p = 0")
    case True
    with rc remove_loop_ends [OF m] c show ?thesis by auto
  next
    case p: False
    show ?thesis
    proof (cases "2 \<le> p \<and> p < n_fatent fs")
      case False
      then have "put_fat p 0xFFFFFFFF fs = (FR_INT_ERR, fs)" by (auto simp: put_fat_def)
      then show ?thesis using m rc p by (simp add: data_kept_refl mounted_def)
    next
      case pr: True
      from m pr [THEN conjunct1] pr [THEN conjunct2] show ?thesis
      proof (cases rule: put_fat_cases [where v = "0xFFFFFFFF"])
        case (ok fs1)
        have m1: "mounted fs1" by (rule data_kept_mounted [OF ok(2) m])
        have n1: "n_fatent fs1 = n_fatent fs" "io_ok fs1 = io_ok fs" by (fact data_kept_geometry [OF ok(2)])+
        from remove_loop_ends [OF m1] c n1
        obtain r fs2 where l: "remove_loop c fs1 = Some (r, fs2)" "data_kept fs1 fs2"
          "io_ok fs1 \<and> count_ok fs1 \<longrightarrow> count_ok fs2" by metis
        have "fatmap fs p \<noteq> 0 \<Longrightarrow> count_ok fs \<Longrightarrow> count_ok fs1"
        proof -
          assume u: "fatmap fs p \<noteq> 0" "count_ok fs"
          have "0xFFFFFFFF AND entry_mask (fs_type fs) \<noteq> 0"
            using mask_values(1) [of fs] m pr by (auto simp: mounted_def)
          then have "free_set fs1 = free_set fs" using ok(4) u by (auto simp: free_set_def)
          then show "count_ok fs1" using u cfgD(7,9) [OF ok(3)] by (simp add: count_ok_def)
        qed
        then show ?thesis using rc p ok(1) l n1 data_kept_trans [OF ok(2) l(2)] by auto
      next
        case (failed fs1)
        then show ?thesis using rc p by auto
      qed
    qed
  qed
qed

subsection \<open>A removed chain is free\<close>

text \<open>The clusters of a chain, in order: each but the last is followed by the next one.\<close>

fun chain :: "(u32 \<Rightarrow> u32) \<Rightarrow> u32 \<Rightarrow> u32 \<Rightarrow> u32 list \<Rightarrow> bool" where
  "chain f n c [] \<longleftrightarrow> False"
| "chain f n c [x] \<longleftrightarrow> x = c \<and> 2 \<le> c \<and> c < n \<and> n \<le> f c"
| "chain f n c (x # y # ys) \<longleftrightarrow> x = c \<and> 2 \<le> c \<and> c < n \<and> f c < n \<and> chain f n (f c) (y # ys)"

lemma chain_hd: "chain f n c cs \<Longrightarrow> \<exists>ys. cs = c # ys"
  by (cases "(f, n, c, cs)" rule: chain.cases) auto

lemma chain_Cons: "chain f n c (c # ys) \<longleftrightarrow> 2 \<le> c \<and> c < n \<and> (if ys = [] then n \<le> f c else f c < n \<and> chain f n (f c) ys)"
  by (cases ys) auto

lemma chain_unique: "chain f n c cs \<Longrightarrow> chain f n c ds \<Longrightarrow> cs = ds"
proof (induction cs arbitrary: c ds)
  case (Cons x xs)
  obtain ys zs where "x # xs = c # ys" "ds = c # zs" using chain_hd Cons.prems by metis
  with Cons show ?case by (auto simp: chain_Cons split: if_splits)
qed simp

lemma chain_suffix: "chain f n c (xs @ d # ys) \<Longrightarrow> chain f n d (d # ys)"
proof (induction xs arbitrary: c)
  case Nil
  then show ?case using chain_hd by fastforce
next
  case (Cons x xs)
  then have "x = c" using chain_hd by fastforce
  with Cons show ?case by (auto simp: chain_Cons)
qed

lemma chain_distinct: "chain f n c cs \<Longrightarrow> distinct cs"
proof (rule ccontr)
  assume ch: "chain f n c cs" and "\<not> distinct cs"
  then obtain xs ys zs d where "cs = xs @ [d] @ ys @ [d] @ zs" using not_distinct_decomp by blast
  then have "chain f n d (d # ys @ d # zs)" "chain f n d (d # zs)"
    using ch chain_suffix [of f n c xs d "ys @ d # zs"] chain_suffix [of f n c "xs @ d # ys" d zs] by simp_all
  from chain_unique [OF this] show False by simp
qed

lemma chain_cong: "chain f n c cs \<Longrightarrow> (\<And>d. d \<in> set cs \<Longrightarrow> g d = f d) \<Longrightarrow> chain g n c cs"
  by (induction f n c cs rule: chain.induct) auto

lemma remove_loop_frees:
  assumes "fs_ready fs" and "chain (fatmap fs) (n_fatent fs) c cs"
  obtains fs' where "remove_loop c fs = Some (FR_OK, fs')" and "data_kept fs fs'"
    and "fatmap fs' = (\<lambda>d. if d \<in> set cs then 0 else fatmap fs d)"
  using assms
proof (induction cs arbitrary: fs c thesis)
  case Nil
  then show ?case by simp
next
  case (Cons x xs)
  have x: "x = c" using chain_hd [OF Cons.prems(3)] by simp
  note ch = Cons.prems(3) [unfolded x chain_Cons]
  have m: "mounted fs" "io_ok fs" using Cons.prems(2) by (auto simp: mounted_ready)
  have gt: "2 < n_fatent fs" "fatmap fs c \<noteq> 0" "fatmap fs c \<noteq> 1"
  proof -
    show n: "2 < n_fatent fs" using m(1) by (simp add: mounted_def geometry_def)
    have "2 \<le> fatmap fs c"
      using ch n chain_hd [of "fatmap fs" "n_fatent fs" "fatmap fs c" xs]
      by (cases xs) (auto simp: chain_Cons elim: order_trans [OF less_imp_le])
    then show "fatmap fs c \<noteq> 0" "fatmap fs c \<noteq> 1" by (auto simp: word_le_nat_alt)
  qed
  have c: "2 \<le> c" "c < n_fatent fs" using ch by auto
  from m(1) c show ?case
  proof (cases rule: remove_step)
    case (stop r fs')
    then show ?thesis using gt m by blast
  next
    case (unused fs')
    then show ?thesis using gt by blast
  next
    case (go fs')
    define fs2 where "fs2 = bump_free fs'"
    have k: "data_kept fs fs2" unfolding fs2_def by (rule bump_kept [OF go(1)])
    note g2 = data_kept_geometry [OF k]
    have f2: "fatmap fs2 = (fatmap fs)(c := 0)" using go(5) by (simp add: fs2_def)
    show ?thesis
    proof (cases "xs = []")
      case True
      then have "\<not> fatmap fs c < n_fatent fs" using ch by auto
      then show ?thesis
        using Cons.prems(1) [of fs2] go(6) k f2 True x by (auto simp: fs2_def [symmetric] fun_eq_iff)
    next
      case False
      then have lt: "fatmap fs c < n_fatent fs" and chx: "chain (fatmap fs) (n_fatent fs) (fatmap fs c) xs"
        using ch by auto
      have "c \<notin> set xs" using chain_distinct [OF Cons.prems(3)] x by simp
      then have "chain (fatmap fs2) (n_fatent fs2) (fatmap fs c) xs"
        unfolding f2 g2(2) by (intro chain_cong [OF chx]) auto
      moreover have "fs_ready fs2"
        using m g2(3) data_kept_mounted [OF k m(1)] by (simp add: mounted_ready)
      ultimately obtain fs3 where l: "remove_loop (fatmap fs c) fs2 = Some (FR_OK, fs3)" "data_kept fs2 fs3"
        "fatmap fs3 = (\<lambda>d. if d \<in> set xs then 0 else fatmap fs2 d)"
        using Cons.IH by blast
      show ?thesis
        by (rule Cons.prems(1) [of fs3])
          (use l go(6) lt f2 x data_kept_trans [OF k l(2)] in \<open>auto simp: fs2_def fun_eq_iff\<close>)
    qed
  qed
qed

subsection \<open>Allocating a cluster\<close>

text \<open>The search goes up from \<open>scl\<close> to the end and from 2 up to \<open>scl\<close>.\<close>

lemma find_free_spec:
  assumes "mounted fs" and "1 \<le> scl" "scl < n_fatent fs" and "1 \<le> ncl" "ncl < n_fatent fs"
    and "\<And>d. 2 \<le> d \<Longrightarrow> d < n_fatent fs \<Longrightarrow> (if scl \<le> ncl then scl < d \<and> d \<le> ncl else scl < d \<or> d \<le> ncl) \<Longrightarrow>
      fatmap fs d \<noteq> 0"
  shows "\<exists>res fs'. find_free scl ncl fs = Some (res, fs') \<and> data_kept fs fs' \<and> cfg fs' = cfg fs \<and>
    fatmap fs' = fatmap fs \<and>
    (case res of
       Inr d \<Rightarrow> 2 \<le> d \<and> d < n_fatent fs \<and> fatmap fs d = 0
     | Inl r \<Rightarrow> r = 0 \<and> free_set fs = {} \<or>
         r = 1 \<and> (\<exists>d. 2 \<le> d \<and> d < n_fatent fs \<and> fatmap fs d = 1) \<or> r = 0xFFFFFFFF \<and> \<not> io_ok fs)"
  using assms
proof (induction "if scl \<le> ncl then unat (n_fatent fs) - unat ncl + unat scl else unat scl - unat ncl"
    arbitrary: ncl fs rule: less_induct)
  case less
  note m = less.prems(1) and scl = less.prems(2,3) and ncl = less.prems(4,5) and seen = less.prems(6)
  have N: "2 < n_fatent fs" using m by (simp add: mounted_def geometry_def)
  define nxt where "nxt = (if n_fatent fs \<le> ncl + 1 then 2 else ncl + 1)"
  have u1: "unat (ncl + 1) = unat ncl + 1" by (rule unat_next [OF ncl(2)])
  then have un: "unat nxt = (if unat (n_fatent fs) \<le> unat ncl + 1 then 2 else unat ncl + 1)"
    by (simp add: nxt_def word_le_nat_alt)
  note wn = word_less_nat_alt word_le_nat_alt
  have nr: "2 \<le> nxt" "nxt < n_fatent fs" using un N ncl by (auto simp: wn split: if_splits)
  have step: "find_free scl ncl fs =
      (if n_fatent fs \<le> ncl + 1 \<and> nxt > scl then Some (Inl 0, fs)
       else (case get_fat nxt fs of
           (cs, fs1) \<Rightarrow>
             if cs = 0 then Some (Inr nxt, fs1)
             else if cs = 1 \<or> cs = 0xFFFFFFFF then Some (Inl cs, fs1)
             else if nxt = scl then Some (Inl 0, fs1)
             else find_free scl nxt fs1))"
    unfolding find_free.simps [of scl ncl fs] nxt_def Let_def by (rule refl)
  have seen': "fatmap fs d \<noteq> 0"
    if "2 \<le> d" "d < n_fatent fs" "if scl \<le> ncl then scl < d \<and> d \<le> ncl else scl < d \<or> d \<le> ncl" for d
    by (rule seen [OF that])
  show ?case
  proof (cases "n_fatent fs \<le> ncl + 1 \<and> nxt > scl")
    case True
    have "fatmap fs d \<noteq> 0" if "2 \<le> d" "d < n_fatent fs" for d
      by (rule seen' [OF that]) (use True that un u1 scl ncl in \<open>auto simp: wn split: if_splits\<close>)
    then have "free_set fs = {}" using free_set_range [of fs] by (force simp: free_set_def)
    then show ?thesis using step True m by (simp add: data_kept_refl mounted_def)
  next
    case False
    obtain v fs1 where g: "get_fat nxt fs = (v, fs1)" and k1: "data_kept fs fs1" and f1: "fatmap fs1 = fatmap fs"
      and c1: "cfg fs1 = cfg fs" and v: "v = fatmap fs nxt \<or> v = 0xFFFFFFFF \<and> \<not> io_ok fs"
      by (rule get_fat_cases [OF m nr])
    show ?thesis
    proof (cases "v = 0 \<or> v = 1 \<or> v = 0xFFFFFFFF")
      case True
      then show ?thesis
        using step False g k1 f1 c1 v nr fatmap_no_error [OF m, of nxt] by (auto split: if_splits)
    next
      case v3: False
      then have nz: "fatmap fs nxt \<noteq> 0" using v by auto
      have vis: "fatmap fs d \<noteq> 0"
        if d: "2 \<le> d" "d < n_fatent fs" and r: "if scl \<le> nxt then nxt = scl \<or> scl < d \<and> d \<le> nxt else scl < d \<or> d \<le> nxt" for d
      proof (cases "d = nxt")
        case True
        then show ?thesis using nz by simp
      next
        case ne: False
        then have "unat d \<noteq> unat nxt" by (simp add: word_unat_eq_iff)
        then show ?thesis
          by (intro seen' [OF d]) (use d r un scl ncl False u1 in \<open>auto simp: wn word_unat_eq_iff split: if_splits\<close>)
      qed
      show ?thesis
      proof (cases "nxt = scl")
        case True
        then have "free_set fs = {}" using free_set_range [of fs] vis by (force simp: free_set_def)
        then show ?thesis using step False g k1 f1 c1 v3 True by auto
      next
        case ne: False
        then have une: "unat nxt \<noteq> unat scl" by (simp add: word_unat_eq_iff)
        note g1 = data_kept_geometry [OF k1]
        have m1: "mounted fs1" by (rule data_kept_mounted [OF k1 m])
        have less': "(if scl \<le> nxt then unat (n_fatent fs1) - unat nxt + unat scl else unat scl - unat nxt)
          < (if scl \<le> ncl then unat (n_fatent fs) - unat ncl + unat scl else unat scl - unat ncl)"
          using un une scl ncl False u1 g1(2) by (auto simp: wn split: if_splits)
        have fr: "free_set fs1 = free_set fs" using f1 by (simp add: free_set_def)
        have "\<exists>res fs'. find_free scl nxt fs1 = Some (res, fs') \<and> data_kept fs1 fs' \<and> cfg fs' = cfg fs1 \<and>
          fatmap fs' = fatmap fs1 \<and>
          (case res of
             Inr d \<Rightarrow> 2 \<le> d \<and> d < n_fatent fs1 \<and> fatmap fs1 d = 0
           | Inl r \<Rightarrow> r = 0 \<and> free_set fs1 = {} \<or>
               r = 1 \<and> (\<exists>d. 2 \<le> d \<and> d < n_fatent fs1 \<and> fatmap fs1 d = 1) \<or> r = 0xFFFFFFFF \<and> \<not> io_ok fs1)"
          by (rule less.hyps [OF less' m1 scl(1)])
            (use scl nr g1(2) f1 vis ne in \<open>auto simp: word_le_nat_alt split: if_splits\<close>)
        moreover have "find_free scl ncl fs = find_free scl nxt fs1" using step False g v3 ne by auto
        ultimately show ?thesis
          unfolding g1 f1 fr c1 by (elim exE conjE, intro exI conjI) (assumption | rule data_kept_trans [OF k1] | simp)+
      qed
    qed
  qed
qed
end
