(* ===== verification/FatFs_File.thy ===== *)
theory FatFs_File
  imports FatFs_Chain
begin

text \<open>
  The file operations of \<open>ff.c\<close> on an open file: reading, writing, seeking, truncating,
  flushing. A file object has a sector buffer of its own, apart from the window of the volume.

  The buffer of the caller is a list: what \<open>f_read\<close> has stored so far, what \<open>f_write\<close> still has
  to take. The answer of the lock and the status of the drive are arguments of \<open>validate\<close>.
\<close>

record fil =
  obj_id :: "u16 option"
  sclust :: u32
  objsize :: u32
  lockid :: u32
  flag :: u8
  err :: FRESULT
  fptr :: u32
  clust :: u32
  sect :: u32
  dir_sect :: u32
  dir_ofs :: nat
  buf :: "u8 list"

text \<open>\<open>obj_id\<close> is \<open>None\<close> when the pointer to the volume is null.\<close>

abbreviation (input) FA_READ :: u8 where "FA_READ \<equiv> 0x01"
abbreviation (input) FA_WRITE :: u8 where "FA_WRITE \<equiv> 0x02"
abbreviation (input) FA_MODIFIED :: u8 where "FA_MODIFIED \<equiv> 0x40"
abbreviation (input) FA_DIRTY :: u8 where "FA_DIRTY \<equiv> 0x80"
abbreviation (input) STA_NOINIT :: u8 where "STA_NOINIT \<equiv> 0x01"

definition validate :: "bool \<Rightarrow> u8 \<Rightarrow> fil \<Rightarrow> fatfs \<Rightarrow> FRESULT" where
  "validate lock stat fp fs =
     (if obj_id fp \<noteq> None \<and> fs_type fs \<noteq> FS_NONE \<and> obj_id fp = Some (vol_id fs) then
        (if lock then (if stat AND STA_NOINIT = 0 then FR_OK else FR_INVALID_OBJECT) else FR_TIMEOUT)
      else FR_INVALID_OBJECT)"

text \<open>Several sectors at once.\<close>

definition disk_read_sectors :: "u32 \<Rightarrow> u32 \<Rightarrow> fatfs \<Rightarrow> u8 list option \<times> fatfs" where
  "disk_read_sectors s cc fs =
     (if io_fail fs (io_count fs) then None
      else Some (concat (map (\<lambda>i. disk fs (s + of_nat i)) [0..<unat cc])),
      fs\<lparr>io_count := io_count fs + 1\<rparr>)"

definition disk_write_sectors :: "u32 \<Rightarrow> u32 \<Rightarrow> u8 list \<Rightarrow> fatfs \<Rightarrow> bool \<times> fatfs" where
  "disk_write_sectors s cc data fs =
     (if io_fail fs (io_count fs) then (False, fs\<lparr>io_count := io_count fs + 1\<rparr>)
      else (True, fs\<lparr>io_count := io_count fs + 1,
              disk := (\<lambda>n. if n - s < cc then take 512 (drop (512 * unat (n - s)) data) else disk fs n)\<rparr>))"

text \<open>The write-back of the sector buffer.\<close>

definition flush_buf :: "fil \<Rightarrow> fatfs \<Rightarrow> bool \<times> fil \<times> fatfs" where
  "flush_buf fp fs =
     (if flag fp AND FA_DIRTY \<noteq> 0 then
        (case disk_write_sector (sect fp) (buf fp) fs of
           (ok, fs1) \<Rightarrow> if ok then (True, fp\<lparr>flag := flag fp AND NOT FA_DIRTY\<rparr>, fs1) else (False, fp, fs1))
      else (True, fp, fs))"

subsection \<open>Reading\<close>

text \<open>The cluster the file pointer is in, at a sector boundary.\<close>

definition read_locate :: "u32 \<Rightarrow> fil \<Rightarrow> fatfs \<Rightarrow> FRESULT \<times> fil \<times> fatfs" where
  "read_locate csect fp fs =
     (if csect = 0 then
        (case (if fptr fp = 0 then (sclust fp, fs) else get_fat (clust fp) fs) of
           (clst, fs1) \<Rightarrow>
             if clst < 2 then (FR_INT_ERR, fp, fs1)
             else if clst = 0xFFFFFFFF then (FR_DISK_ERR, fp, fs1)
             else (FR_OK, fp\<lparr>clust := clst\<rparr>, fs1))
      else (FR_OK, fp, fs))"

text \<open>The rest of the bytes from the sector buffer.\<close>

definition read_buffer :: "u32 \<Rightarrow> fil \<Rightarrow> u8 list" where
  "read_buffer btr fp =
     (let rcnt = 512 - fptr fp mod 512; rcnt = (if rcnt > btr then btr else rcnt)
      in take (unat rcnt) (drop (unat (fptr fp mod 512)) (buf fp)))"

text \<open>
  The transfer at a sector boundary, \<open>sect\<close> being the sector of the file pointer: whole sectors go
  to the caller directly, the rest through the sector buffer.
\<close>

definition read_sector ::
  "u32 \<Rightarrow> u32 \<Rightarrow> u32 \<Rightarrow> fil \<Rightarrow> fatfs \<Rightarrow> (FRESULT + u8 list) \<times> fil \<times> fatfs" where
  "read_sector btr csect s fp fs =
     (let cc = btr div 512
      in if cc > 0 then
           (let cc = (if csect + cc > ucast (csize fs) then ucast (csize fs) - csect else cc)
            in case disk_read_sectors s cc fs of
                 (None, fs1) \<Rightarrow> (Inl FR_DISK_ERR, fp, fs1)
               | (Some data, fs1) \<Rightarrow>
                   (Inr (if flag fp AND FA_DIRTY \<noteq> 0 \<and> sect fp - s < cc then
                           (let k = 512 * unat (sect fp - s) in take k data @ buf fp @ drop (k + 512) data)
                         else data), fp, fs1))
         else if sect fp \<noteq> s then
           (case flush_buf fp fs of
              (ok, fp1, fs1) \<Rightarrow>
                if \<not> ok then (Inl FR_DISK_ERR, fp1, fs1)
                else
                  (case disk_read_sector s fs1 of
                     (None, fs2) \<Rightarrow> (Inl FR_DISK_ERR, fp1, fs2)
                   | (Some data, fs2) \<Rightarrow>
                       (let fp2 = fp1\<lparr>buf := data, sect := s\<rparr>
                        in (Inr (read_buffer btr fp2), fp2, fs2))))
         else (let fp1 = fp\<lparr>sect := s\<rparr> in (Inr (read_buffer btr fp1), fp1, fs)))"

text \<open>One pass of the loop: the bytes it stores, or the error it aborts with.\<close>

definition read_step :: "u32 \<Rightarrow> fil \<Rightarrow> fatfs \<Rightarrow> (FRESULT + u8 list) \<times> fil \<times> fatfs" where
  "read_step btr fp fs =
     (if fptr fp mod 512 = 0 then
        (let csect = (fptr fp div 512) AND (ucast (csize fs) - 1)
         in case read_locate csect fp fs of
              (res, fp1, fs1) \<Rightarrow>
                if res \<noteq> FR_OK then (Inl res, fp1, fs1)
                else
                  (let base = clst2sect fs1 (clust fp1)
                   in if base = 0 then (Inl FR_INT_ERR, fp1, fs1)
                      else read_sector btr csect (base + csect) fp1 fs1))
      else (Inr (read_buffer btr fp), fp, fs))"

partial_function (option) f_read_loop ::
  "u32 \<Rightarrow> u8 list \<Rightarrow> fil \<Rightarrow> fatfs \<Rightarrow> (FRESULT \<times> u8 list \<times> fil \<times> fatfs) option" where
  "f_read_loop btr acc fp fs =
     (if btr = 0 then Some (FR_OK, acc, fp, fs)
      else
        (case read_step btr fp fs of
           (Inl res, fp1, fs1) \<Rightarrow> Some (res, acc, fp1\<lparr>err := res\<rparr>, fs1)
         | (Inr bs, fp1, fs1) \<Rightarrow>
             f_read_loop (btr - of_nat (length bs)) (acc @ bs)
               (fp1\<lparr>fptr := fptr fp1 + of_nat (length bs)\<rparr>) fs1))"

text \<open>The result, the bytes stored (\<open>*br\<close> is their number), the file and the volume.\<close>

definition f_read ::
  "bool \<Rightarrow> u8 \<Rightarrow> u32 \<Rightarrow> fil \<Rightarrow> fatfs \<Rightarrow> (FRESULT \<times> u8 list \<times> fil \<times> fatfs) option" where
  "f_read lock stat btr fp fs =
     (let res = validate lock stat fp fs
      in if res \<noteq> FR_OK then Some (res, [], fp, fs)
         else if err fp \<noteq> FR_OK then Some (err fp, [], fp, fs)
         else if flag fp AND FA_READ = 0 then Some (FR_DENIED, [], fp, fs)
         else
           (let remain = objsize fp - fptr fp; btr = (if btr > remain then remain else btr)
            in f_read_loop btr [] fp fs))"

subsection \<open>Writing\<close>

text \<open>
  The cluster to write to, at a sector boundary: the next one of the chain or a new one.
  \<open>Inr False\<close> when the volume is full.
\<close>

definition write_locate :: "u32 \<Rightarrow> fil \<Rightarrow> fatfs \<Rightarrow> ((FRESULT + bool) \<times> fil \<times> fatfs) option" where
  "write_locate csect fp fs =
     (if csect = 0 then
        (case (if fptr fp = 0 then (if sclust fp = 0 then create_chain 0 fs else Some (sclust fp, fs))
               else create_chain (clust fp) fs) of
           None \<Rightarrow> None
         | Some (clst, fs1) \<Rightarrow>
             Some
               (if clst = 0 then (Inr False, fp, fs1)
                else if clst = 1 then (Inl FR_INT_ERR, fp, fs1)
                else if clst = 0xFFFFFFFF then (Inl FR_DISK_ERR, fp, fs1)
                else (Inr True, fp\<lparr>clust := clst, sclust := (if sclust fp = 0 then clst else sclust fp)\<rparr>, fs1)))
      else Some (Inr True, fp, fs))"

text \<open>The bytes that go into the sector buffer, and their number.\<close>

definition write_buffer :: "u32 \<Rightarrow> u8 list \<Rightarrow> fil \<Rightarrow> u32 \<times> fil" where
  "write_buffer btw data fp =
     (let wcnt = 512 - fptr fp mod 512; wcnt = (if wcnt > btw then btw else wcnt); ofs = unat (fptr fp mod 512)
      in (wcnt, fp\<lparr>buf := take ofs (buf fp) @ take (unat wcnt) data @ drop (ofs + unat wcnt) (buf fp),
                   flag := flag fp OR FA_DIRTY\<rparr>))"

definition write_sector ::
  "u32 \<Rightarrow> u32 \<Rightarrow> u32 \<Rightarrow> u8 list \<Rightarrow> fil \<Rightarrow> fatfs \<Rightarrow> (FRESULT + u32 option) \<times> fil \<times> fatfs" where
  "write_sector btw csect s data fp fs =
     (let cc = btw div 512
      in if cc > 0 then
           (let cc = (if csect + cc > ucast (csize fs) then ucast (csize fs) - csect else cc)
            in case disk_write_sectors s cc data fs of
                 (ok, fs1) \<Rightarrow>
                   if \<not> ok then (Inl FR_DISK_ERR, fp, fs1)
                   else
                     (Inr (Some (512 * cc)),
                      if sect fp - s < cc
                      then fp\<lparr>buf := take 512 (drop (512 * unat (sect fp - s)) data),
                             flag := flag fp AND NOT FA_DIRTY\<rparr>
                      else fp, fs1))
         else
           (case (if sect fp \<noteq> s \<and> fptr fp < objsize fp then disk_read_sector s fs else (Some (buf fp), fs)) of
              (None, fs1) \<Rightarrow> (Inl FR_DISK_ERR, fp, fs1)
            | (Some b, fs1) \<Rightarrow>
                (case write_buffer btw data (fp\<lparr>buf := b, sect := s\<rparr>) of
                   (wcnt, fp1) \<Rightarrow> (Inr (Some wcnt), fp1, fs1))))"

text \<open>
  One pass of the loop: the number of bytes it takes, \<open>None\<close> when it leaves the loop, or the
  error it aborts with.
\<close>

definition write_step ::
  "u32 \<Rightarrow> u8 list \<Rightarrow> fil \<Rightarrow> fatfs \<Rightarrow> ((FRESULT + u32 option) \<times> fil \<times> fatfs) option" where
  "write_step btw data fp fs =
     (if fptr fp mod 512 = 0 then
        (let csect = (fptr fp div 512) AND (ucast (csize fs) - 1)
         in case write_locate csect fp fs of
              None \<Rightarrow> None
            | Some (Inl res, fp1, fs1) \<Rightarrow> Some (Inl res, fp1, fs1)
            | Some (Inr ok, fp1, fs1) \<Rightarrow>
                if \<not> ok then Some (Inr None, fp1, fs1)
                else
                  (case flush_buf fp1 fs1 of
                     (ok, fp2, fs2) \<Rightarrow>
                       if \<not> ok then Some (Inl FR_DISK_ERR, fp2, fs2)
                       else
                         (let base = clst2sect fs2 (clust fp2)
                          in if base = 0 then Some (Inl FR_INT_ERR, fp2, fs2)
                             else Some (write_sector btw csect (base + csect) data fp2 fs2))))
      else (case write_buffer btw data fp of (wcnt, fp1) \<Rightarrow> Some (Inr (Some wcnt), fp1, fs)))"

partial_function (option) f_write_loop ::
  "u32 \<Rightarrow> u8 list \<Rightarrow> u32 \<Rightarrow> fil \<Rightarrow> fatfs \<Rightarrow> (FRESULT \<times> u32 \<times> fil \<times> fatfs) option" where
  "f_write_loop btw data bw fp fs =
     (if btw = 0 then Some (FR_OK, bw, fp, fs)
      else
        (case write_step btw data fp fs of
           None \<Rightarrow> None
         | Some (Inl res, fp1, fs1) \<Rightarrow> Some (res, bw, fp1\<lparr>err := res\<rparr>, fs1)
         | Some (Inr None, fp1, fs1) \<Rightarrow> Some (FR_OK, bw, fp1, fs1)
         | Some (Inr (Some wcnt), fp1, fs1) \<Rightarrow>
             (let ptr = fptr fp1 + wcnt
              in f_write_loop (btw - wcnt) (drop (unat wcnt) data) (bw + wcnt)
                   (fp1\<lparr>fptr := ptr, objsize := (if ptr > objsize fp1 then ptr else objsize fp1)\<rparr>) fs1)))"

text \<open>The result, the number of bytes written, the file and the volume.\<close>

definition f_write ::
  "bool \<Rightarrow> u8 \<Rightarrow> u8 list \<Rightarrow> u32 \<Rightarrow> fil \<Rightarrow> fatfs \<Rightarrow> (FRESULT \<times> u32 \<times> fil \<times> fatfs) option" where
  "f_write lock stat data btw fp fs =
     (let res = validate lock stat fp fs
      in if res \<noteq> FR_OK then Some (res, 0, fp, fs)
         else if err fp \<noteq> FR_OK then Some (err fp, 0, fp, fs)
         else if flag fp AND FA_WRITE = 0 then Some (FR_DENIED, 0, fp, fs)
         else
           (let btw = (if fptr fp + btw < fptr fp then 0xFFFFFFFF - fptr fp else btw)
            in case f_write_loop btw data 0 fp fs of
                 None \<Rightarrow> None
               | Some (res, bw, fp1, fs1) \<Rightarrow>
                   Some (res, bw, if res = FR_OK then fp1\<lparr>flag := flag fp1 OR FA_MODIFIED\<rparr> else fp1, fs1)))"

subsection \<open>Seeking and truncating\<close>

text \<open>The walk along the chain: what is left of the offset and the cluster reached.\<close>

partial_function (option) seek_loop ::
  "u32 \<Rightarrow> u32 \<Rightarrow> u32 \<Rightarrow> fil \<Rightarrow> fatfs \<Rightarrow> ((FRESULT + u32 \<times> u32) \<times> fil \<times> fatfs) option" where
  "seek_loop bcs ofs clst fp fs =
     (if ofs > bcs then
        (let ofs = ofs - bcs; fp1 = fp\<lparr>fptr := fptr fp + bcs\<rparr>; wr = (flag fp1 AND FA_WRITE \<noteq> 0)
         in case (if wr then create_chain clst fs else Some (get_fat clst fs)) of
              None \<Rightarrow> None
            | Some (clst, fs1) \<Rightarrow>
                if wr \<and> clst = 0 then Some (Inr (0, clst), fp1, fs1)
                else if clst = 0xFFFFFFFF then Some (Inl FR_DISK_ERR, fp1, fs1)
                else if clst \<le> 1 \<or> clst \<ge> n_fatent fs1 then Some (Inl FR_INT_ERR, fp1, fs1)
                else seek_loop bcs ofs clst (fp1\<lparr>clust := clst\<rparr>) fs1)
      else Some (Inr (ofs, clst), fp, fs))"

text \<open>
  The cluster the walk starts from, with the offset that is left: the current one, or the first
  one, which is created if there is none. The file pointer is 0 or the start of that cluster.
\<close>

definition seek_start ::
  "u32 \<Rightarrow> u32 \<Rightarrow> fil \<Rightarrow> fatfs \<Rightarrow> ((FRESULT + u32 \<times> u32) \<times> fil \<times> fatfs) option" where
  "seek_start bcs ofs fp fs =
     (let ifptr = fptr fp; fp0 = fp\<lparr>fptr := 0\<rparr>
      in if ifptr > 0 \<and> (ofs - 1) div bcs \<ge> (ifptr - 1) div bcs then
           (let ptr = (ifptr - 1) AND NOT (bcs - 1)
            in Some (Inr (ofs - ptr, clust fp0), fp0\<lparr>fptr := ptr\<rparr>, fs))
         else if sclust fp0 = 0 then
           (case create_chain 0 fs of
              None \<Rightarrow> None
            | Some (clst, fs1) \<Rightarrow>
                Some
                  (if clst = 1 then (Inl FR_INT_ERR, fp0, fs1)
                   else if clst = 0xFFFFFFFF then (Inl FR_DISK_ERR, fp0, fs1)
                   else (Inr (ofs, clst), fp0\<lparr>sclust := clst, clust := clst\<rparr>, fs1)))
         else Some (Inr (ofs, sclust fp0), fp0\<lparr>clust := sclust fp0\<rparr>, fs))"

text \<open>The sector the pointer ends in, 0 at a sector boundary.\<close>

definition seek_walk ::
  "u32 \<Rightarrow> fil \<Rightarrow> fatfs \<Rightarrow> ((FRESULT + u32) \<times> fil \<times> fatfs) option" where
  "seek_walk ofs fp fs =
     (if ofs > 0 then
        (let bcs = ucast (csize fs) * 512
         in case seek_start bcs ofs fp fs of
              None \<Rightarrow> None
            | Some (Inl res, fp1, fs1) \<Rightarrow> Some (Inl res, fp1, fs1)
            | Some (Inr (ofs, clst), fp1, fs1) \<Rightarrow>
                if clst \<noteq> 0 then
                  (case seek_loop bcs ofs clst fp1 fs1 of
                     None \<Rightarrow> None
                   | Some (Inl res, fp2, fs2) \<Rightarrow> Some (Inl res, fp2, fs2)
                   | Some (Inr (ofs, clst), fp2, fs2) \<Rightarrow>
                       (let fp3 = fp2\<lparr>fptr := fptr fp2 + ofs\<rparr>
                        in Some
                             (if ofs mod 512 \<noteq> 0 then
                                (let nsect = clst2sect fs2 clst
                                 in (if nsect = 0 then Inl FR_INT_ERR else Inr (nsect + ofs div 512), fp3, fs2))
                              else (Inr 0, fp3, fs2))))
                else Some (Inr 0, fp1, fs1))
      else Some (Inr 0, fp\<lparr>fptr := 0\<rparr>, fs))"

text \<open>The new sector in the buffer.\<close>

definition seek_fill :: "u32 \<Rightarrow> fil \<Rightarrow> fatfs \<Rightarrow> FRESULT \<times> fil \<times> fatfs" where
  "seek_fill nsect fp fs =
     (let fp1 = (if fptr fp > objsize fp then fp\<lparr>objsize := fptr fp, flag := flag fp OR FA_MODIFIED\<rparr> else fp)
      in if fptr fp1 mod 512 \<noteq> 0 \<and> nsect \<noteq> sect fp1 then
           (case flush_buf fp1 fs of
              (ok, fp2, fs1) \<Rightarrow>
                if \<not> ok then (FR_DISK_ERR, fp2\<lparr>err := FR_DISK_ERR\<rparr>, fs1)
                else
                  (case disk_read_sector nsect fs1 of
                     (None, fs2) \<Rightarrow> (FR_DISK_ERR, fp2\<lparr>err := FR_DISK_ERR\<rparr>, fs2)
                   | (Some data, fs2) \<Rightarrow> (FR_OK, fp2\<lparr>buf := data, sect := nsect\<rparr>, fs2)))
         else (FR_OK, fp1, fs))"

definition f_lseek :: "bool \<Rightarrow> u8 \<Rightarrow> u32 \<Rightarrow> fil \<Rightarrow> fatfs \<Rightarrow> (FRESULT \<times> fil \<times> fatfs) option" where
  "f_lseek lock stat ofs fp fs =
     (let res = validate lock stat fp fs
      in if res \<noteq> FR_OK then Some (res, fp, fs)
         else if err fp \<noteq> FR_OK then Some (err fp, fp, fs)
         else
           (let ofs = (if ofs > objsize fp \<and> flag fp AND FA_WRITE = 0 then objsize fp else ofs)
            in case seek_walk ofs fp fs of
                 None \<Rightarrow> None
               | Some (Inl res, fp1, fs1) \<Rightarrow> Some (res, fp1\<lparr>err := res\<rparr>, fs1)
               | Some (Inr nsect, fp1, fs1) \<Rightarrow> Some (seek_fill nsect fp1 fs1)))"

text \<open>The clusters behind the file pointer are freed.\<close>

definition truncate_chain :: "fil \<Rightarrow> fatfs \<Rightarrow> (FRESULT \<times> fil \<times> fatfs) option" where
  "truncate_chain fp fs =
     (if fptr fp = 0 then
        (case remove_chain (sclust fp) 0 fs of
           None \<Rightarrow> None
         | Some (res, fs1) \<Rightarrow> Some (res, fp\<lparr>sclust := 0\<rparr>, fs1))
      else
        (case get_fat (clust fp) fs of
           (ncl, fs1) \<Rightarrow>
             if ncl = 0xFFFFFFFF then Some (FR_DISK_ERR, fp, fs1)
             else if ncl = 1 then Some (FR_INT_ERR, fp, fs1)
             else if ncl < n_fatent fs1 then
               (case remove_chain ncl (clust fp) fs1 of None \<Rightarrow> None | Some (res, fs2) \<Rightarrow> Some (res, fp, fs2))
             else Some (FR_OK, fp, fs1)))"

definition f_truncate :: "bool \<Rightarrow> u8 \<Rightarrow> fil \<Rightarrow> fatfs \<Rightarrow> (FRESULT \<times> fil \<times> fatfs) option" where
  "f_truncate lock stat fp fs =
     (let res = validate lock stat fp fs
      in if res \<noteq> FR_OK then Some (res, fp, fs)
         else if err fp \<noteq> FR_OK then Some (err fp, fp, fs)
         else if flag fp AND FA_WRITE = 0 then Some (FR_DENIED, fp, fs)
         else if fptr fp < objsize fp then
           (case truncate_chain fp fs of
              None \<Rightarrow> None
            | Some (res, fp1, fs1) \<Rightarrow>
                (let fp2 = fp1\<lparr>objsize := fptr fp1, flag := flag fp1 OR FA_MODIFIED\<rparr>
                 in case (if res = FR_OK then flush_buf fp2 fs1 else (True, fp2, fs1)) of
                      (ok, fp3, fs2) \<Rightarrow>
                        (let res = (if ok then res else FR_DISK_ERR)
                         in Some (res, if res = FR_OK then fp3 else fp3\<lparr>err := res\<rparr>, fs2))))
         else Some (FR_OK, fp, fs))"

end
