(* ===== verification/FatFs_Chain_Correct.thy ===== *)
theory FatFs_Chain_Correct
  imports FatFs_Chain
begin

text \<open>
  Allocation at the end of a chain, and what the chain operations promise: they end on every
  table, a removed chain is free and nothing else, a stretched one is the old one with a free
  cluster at its end, and the count of free clusters stays exact over any sequence of them.
\<close>

subsection \<open>The stages of an allocation\<close>


definition EOC :: "fatfs \<Rightarrow> u32" where
  "EOC fs = 0xFFFFFFFF AND entry_mask (fs_type fs)"

text \<open>The table after a free cluster was put at the end of the chain (of none, for 0).\<close>

definition linked :: "u32 \<Rightarrow> u32 \<Rightarrow> fatfs \<Rightarrow> u32 \<Rightarrow> u32" where
  "linked clst ncl fs =
     (if clst = 0 then (fatmap fs)(ncl := EOC fs) else (fatmap fs)(ncl := EOC fs, clst := ncl))"

lemma EOC_end: "mounted fs \<Longrightarrow> n_fatent fs \<le> EOC fs" "mounted fs \<Longrightarrow> EOC fs \<noteq> 0"
proof -
  assume m: "mounted fs"
  then have "2 < n_fatent fs" "n_fatent fs \<le> EOC fs" using mask_values(1) by (auto simp: mounted_def geometry_def EOC_def)
  then show "n_fatent fs \<le> EOC fs" "EOC fs \<noteq> 0" by auto
qed

lemma count_taken:
  assumes "count_ok fs" and "fatmap fs ncl = 0" and "free_set fs' = free_set fs - {ncl}"
    and "n_fatent fs' = n_fatent fs"
    and "free_clst fs' = (if free_clst fs \<le> n_fatent fs - 2 then free_clst fs - 1 else free_clst fs)"
  shows "count_ok fs'"
proof (cases "free_clst fs \<le> n_fatent fs - 2")
  case True
  have "ncl \<in> free_set fs" using assms(2) by (simp add: free_set_def)
  then have c: "1 \<le> card (free_set fs)" "card (free_set fs - {ncl}) = card (free_set fs) - 1"
    by (auto simp: Suc_le_eq card_gt_0_iff)
  then have "unat (free_clst fs - 1) = unat (free_clst fs) - 1"
    using assms(1) True by (simp add: count_ok_def unat_sub_if')
  then show ?thesis using assms True c by (simp add: count_ok_def)
next
  case False
  then show ?thesis using assms by (simp add: count_ok_def)
qed

lemma create_link_spec:
  assumes m: "mounted fs" and n: "2 \<le> ncl" "ncl < n_fatent fs" "fatmap fs ncl = 0"
    and c: "clst = 0 \<or> 2 \<le> clst \<and> clst < n_fatent fs \<and> fatmap fs clst \<noteq> 0"
  shows "case create_link clst ncl fs of (r, fs') \<Rightarrow> data_kept fs fs' \<and>
    (r = ncl \<and> fatmap fs' = linked clst ncl fs \<and> (count_ok fs \<longrightarrow> count_ok fs') \<or> r = 0xFFFFFFFF \<and> \<not> io_ok fs)"
proof -
  define upd where "upd fs2 = fs2\<lparr>last_clst := ncl,
      free_clst := (if free_clst fs2 \<le> n_fatent fs2 - 2 then free_clst fs2 - 1 else free_clst fs2),
      fsi_flag := fsi_flag fs2 OR 1\<rparr>" for fs2 :: fatfs
  have cl: "create_link clst ncl fs =
     (case (case put_fat ncl 0xFFFFFFFF fs of
              (res, fs1) \<Rightarrow> if res = FR_OK \<and> clst \<noteq> 0 then put_fat clst ncl fs1 else (res, fs1)) of
        (res, fs2) \<Rightarrow> if res = FR_OK then (ncl, upd fs2) else (if res = FR_DISK_ERR then 0xFFFFFFFF else 1, fs2))"
    unfolding create_link_def upd_def by (rule refl)
  have fin: "data_kept fs (upd fs2) \<and> fatmap (upd fs2) = linked clst ncl fs \<and> (count_ok fs \<longrightarrow> count_ok (upd fs2))"
    if k: "data_kept fs fs2" and cf: "cfg fs2 = cfg fs" and f: "fatmap fs2 = linked clst ncl fs" for fs2
  proof -
    have "free_set fs2 = free_set fs - {ncl}"
      using f n c EOC_end(2) [OF m] by (auto simp: free_set_def linked_def)
    then have fr: "free_set (upd fs2) = free_set fs - {ncl}" by (simp add: upd_def)
    have "n_fatent (upd fs2) = n_fatent fs"
      "free_clst (upd fs2) = (if free_clst fs \<le> n_fatent fs - 2 then free_clst fs - 1 else free_clst fs)"
      by (simp_all add: upd_def cfgD(7,9) [OF cf])
    from count_taken [OF _ n(3) fr this] have "count_ok fs \<longrightarrow> count_ok (upd fs2)" by blast
    then show ?thesis using k f by (simp add: upd_def info_kept)
  qed
  from m n(1,2) show ?thesis
  proof (cases rule: put_fat_cases [where v = "0xFFFFFFFF"])
    case (failed fs1)
    then show ?thesis by (simp add: cl)
  next
    case (ok fs1)
    show ?thesis
    proof (cases "clst = 0")
      case True
      then have "create_link clst ncl fs = (ncl, upd fs1)" unfolding cl using ok(1) by simp
      moreover have "fatmap fs1 = linked clst ncl fs" using True ok(4) by (simp add: linked_def EOC_def)
      ultimately show ?thesis using fin [OF ok(2,3)] by simp
    next
      case False
      note g1 = data_kept_geometry [OF ok(2)]
      have m1: "mounted fs1" and c1: "2 \<le> clst" "clst < n_fatent fs1"
        using data_kept_mounted [OF ok(2) m] c False g1 by auto
      from m1 c1 show ?thesis
      proof (cases rule: put_fat_cases [where v = ncl])
        case f2: (failed fs2)
        then show ?thesis using ok(1) False g1 data_kept_trans [OF ok(2) f2(2)] by (simp add: cl)
      next
        case ok2: (ok fs2)
        have "ncl AND entry_mask (fs_type fs1) = ncl"
          using mask_values(2) [of fs ncl] m n(2) g1 by (simp add: mounted_def)
        then have "fatmap fs2 = linked clst ncl fs" using ok(4) ok2(4) False by (simp add: linked_def EOC_def)
        then show ?thesis
          using ok(1,3) ok2(1,3) False fin [OF data_kept_trans [OF ok(2) ok2(2)]] by (simp add: cl)
      qed
    qed
  qed
qed

definition unchanged :: "fatfs \<Rightarrow> fatfs \<Rightarrow> bool" where
  "unchanged fs fs' \<longleftrightarrow> data_kept fs fs' \<and> cfg fs' = cfg fs \<and> fatmap fs' = fatmap fs"

lemma unchanged_refl: "mounted fs \<Longrightarrow> unchanged fs fs"
  by (simp add: unchanged_def data_kept_refl mounted_def)

lemma unchanged_trans: "unchanged a b \<Longrightarrow> unchanged b c \<Longrightarrow> unchanged a c"
  using data_kept_trans by (auto simp: unchanged_def)

lemma unchangedD:
  assumes "unchanged a b"
  shows "data_kept a b" "n_fatent b = n_fatent a" "fatmap b = fatmap a" "free_set b = free_set a" "io_ok b = io_ok a"
    "last_clst b = last_clst a" "free_clst b = free_clst a" "mounted a \<Longrightarrow> mounted b" "linked c n b = linked c n a"
    "count_ok a \<Longrightarrow> count_ok b"
proof -
  have c: "cfg b = cfg a" and k: "data_kept a b" and f: "fatmap b = fatmap a" using assms by (auto simp: unchanged_def)
  show "data_kept a b" "n_fatent b = n_fatent a" "fatmap b = fatmap a" "free_set b = free_set a" "io_ok b = io_ok a"
    "last_clst b = last_clst a" "free_clst b = free_clst a" "mounted a \<Longrightarrow> mounted b"
    using k f data_kept_geometry [OF k] cfgD [OF c] data_kept_mounted [OF k] by (auto simp: free_set_def)
  show "linked c n b = linked c n a" using f cfgD(1) [OF c] by (simp add: linked_def EOC_def)
  show "count_ok a \<Longrightarrow> count_ok b" by (rule count_same [OF c f])
qed

text \<open>What a return value of \<open>create_chain\<close> says about the table.\<close>

definition chain_grown :: "u32 \<Rightarrow> fatfs \<Rightarrow> u32 \<Rightarrow> fatfs \<Rightarrow> bool" where
  "chain_grown clst fs r fs' \<longleftrightarrow>
     (if r = 0 then unchanged fs fs' \<and> (free_set fs = {} \<or> free_clst fs = 0) \<and> (clst = 0 \<or> n_fatent fs \<le> fatmap fs clst)
      else if r = 1 then unchanged fs fs' \<and> (\<exists>d. fatmap fs d = 1 \<and> (d = clst \<and> d \<noteq> 0 \<or> 2 \<le> d \<and> d < n_fatent fs) \<or> clst \<noteq> 0 \<and> fatmap fs clst = 0)
      else if r = 0xFFFFFFFF then data_kept fs fs' \<and> \<not> io_ok fs
      else if clst \<noteq> 0 \<and> fatmap fs clst < n_fatent fs then r = fatmap fs clst \<and> unchanged fs fs'
      else r < n_fatent fs \<and> fatmap fs r = 0 \<and> data_kept fs fs' \<and> fatmap fs' = linked clst r fs \<and>
        (count_ok fs \<longrightarrow> count_ok fs'))"

lemma fatmap_out: "\<not> (2 \<le> c \<and> c < n_fatent fs) \<Longrightarrow> fatmap fs c = 1" "\<not> (2 \<le> c \<and> c < n_fatent fs) \<Longrightarrow> get_fat c fs = (1, fs)"
  by (auto simp: fatmap_def get_fat_def)

lemma get_fat_unchanged:
  assumes "mounted fs"
  obtains v fs' where "get_fat c fs = (v, fs')" and "unchanged fs fs'" and "v = fatmap fs c \<or> v = 0xFFFFFFFF \<and> \<not> io_ok fs"
proof (cases "2 \<le> c \<and> c < n_fatent fs")
  case True
  with get_fat_cases [OF assms, of c thesis] that show thesis by (auto simp: unchanged_def)
next
  case False
  then show thesis using that fatmap_out [of c fs] unchanged_refl [OF assms] by auto
qed

lemma two_not_one: "\<not> 2 \<le> (1 :: u32)"
  by (simp add: word_le_nat_alt)

lemma create_start_spec:
  assumes m: "mounted fs"
  shows "case create_start clst fs of (res, fs') \<Rightarrow> unchanged fs fs' \<and>
    (case res of Inl r \<Rightarrow> chain_grown clst fs r fs'
     | Inr scl \<Rightarrow> 1 \<le> scl \<and> scl < n_fatent fs \<and> (clst = 0 \<or> scl = clst \<and> 2 \<le> clst \<and> n_fatent fs \<le> fatmap fs clst))"
proof (cases "clst = 0")
  case True
  have "2 < n_fatent fs" using m by (simp add: mounted_def geometry_def)
  then have "1 < n_fatent fs" "last_clst fs \<noteq> 0 \<Longrightarrow> 1 \<le> last_clst fs"
    by (auto simp: word_less_nat_alt word_le_nat_alt word_unat_eq_iff)
  with True show ?thesis by (auto simp: create_start_def Let_def unchanged_refl [OF m])
next
  case False
  obtain v fs1 where g: "get_fat clst fs = (v, fs1)" and u: "unchanged fs fs1"
    and v: "v = fatmap fs clst \<or> v = 0xFFFFFFFF \<and> \<not> io_ok fs" by (rule get_fat_unchanged [OF m])
  note n = unchangedD(2) [OF u]
  have big: "\<not> (0xFFFFFFFF :: u32) < 2" by simp
  consider "v < 2" | "v = 0xFFFFFFFF" | "2 \<le> v" "v \<noteq> 0xFFFFFFFF" "v < n_fatent fs" | "2 \<le> v" "v \<noteq> 0xFFFFFFFF" "n_fatent fs \<le> v"
    by (meson linorder_not_less)
  then show ?thesis
  proof cases
    case 1
    then have "v = 0 \<or> v = 1" using word_ge_2 by (meson linorder_not_less)
    moreover have "v = fatmap fs clst" using 1 v by auto
    ultimately show ?thesis using 1 False g u by (auto simp: create_start_def chain_grown_def)
  next
    case 2
    then show ?thesis using False g u v fatmap_no_error [OF m, of clst] unchangedD(1) [OF u]
      by (auto simp: create_start_def chain_grown_def)
  next
    case 3
    then have "v = fatmap fs clst" "v \<noteq> 0" "v \<noteq> 1" "\<not> v < 2" using v two_not_one by auto
    then show ?thesis using 3 False g u n by (simp add: create_start_def chain_grown_def)
  next
    case 4
    then have e: "v = fatmap fs clst" "\<not> v < 2" "\<not> v < n_fatent fs" using v by auto
    have "2 \<le> clst \<and> clst < n_fatent fs"
    proof (rule ccontr)
      assume "\<not> (2 \<le> clst \<and> clst < n_fatent fs)"
      then have "v = 1" using e(1) fatmap_out(1) by simp
      then show False using 4(1) two_not_one by simp
    qed
    moreover have "1 \<le> clst" using False by (auto simp: word_le_nat_alt word_unat_eq_iff)
    ultimately show ?thesis using 4 e False g u n by (simp add: create_start_def)
  qed
qed

lemma create_next_spec:
  assumes m: "mounted fs" and s: "1 \<le> scl" "scl < n_fatent fs" and c: "clst = 0 \<or> scl = clst \<and> 2 \<le> clst"
  shows "case create_next clst scl fs of (res, fs') \<Rightarrow> unchanged fs fs' \<and>
    (case res of Inl r \<Rightarrow> (r = 1 \<and> (\<exists>d. 2 \<le> d \<and> d < n_fatent fs \<and> fatmap fs d = 1) \<or> r = 0xFFFFFFFF \<and> \<not> io_ok fs)
     | Inr (scl', ncl) \<Rightarrow> 1 \<le> scl' \<and> scl' < n_fatent fs \<and>
         (ncl = 0 \<or> 2 \<le> ncl \<and> ncl < n_fatent fs \<and> fatmap fs ncl = 0))"
proof (cases "scl = clst")
  case False
  then show ?thesis using s by (simp add: create_next_def unchanged_refl [OF m])
next
  case True
  define ncl where "ncl = (if n_fatent fs \<le> scl + 1 then 2 else scl + 1)"
  have N: "2 < n_fatent fs" using m by (simp add: mounted_def geometry_def)
  have nr: "2 \<le> ncl" "ncl < n_fatent fs"
    using s N unat_next [OF s(2)] by (auto simp: ncl_def word_less_nat_alt word_le_nat_alt)
  obtain v fs1 where g: "get_fat ncl fs = (v, fs1)" and u: "unchanged fs fs1"
    and v: "v = fatmap fs ncl \<or> v = 0xFFFFFFFF \<and> \<not> io_ok fs" by (rule get_fat_unchanged [OF m])
  have "create_next clst scl fs = (case get_fat ncl fs of (cs, fs1) \<Rightarrow>
      (if cs = 1 \<or> cs = 0xFFFFFFFF then Inl cs
       else if cs \<noteq> 0 then (let cs = last_clst fs1 in Inr (if cs \<ge> 2 \<and> cs < n_fatent fs1 then cs else scl, 0))
       else Inr (scl, ncl), fs1))"
    unfolding create_next_def ncl_def Let_def using True by (simp only: if_True simp_thms)
  with g have cn: "create_next clst scl fs = (if v = 1 \<or> v = 0xFFFFFFFF then Inl v
      else if v \<noteq> 0 then (let cs = last_clst fs1 in Inr (if cs \<ge> 2 \<and> cs < n_fatent fs1 then cs else scl, 0))
      else Inr (scl, ncl), fs1)"
    by simp
  have "1 \<le> x" if "2 \<le> x" for x :: u32 using that by (auto simp: word_le_nat_alt)
  then show ?thesis
    using cn u v s nr fatmap_no_error [OF m, of ncl] unchangedD(2,6) [OF u] by (auto simp: Let_def)
qed

lemma create_chain_spec:
  assumes m: "mounted fs"
  shows "\<exists>r fs'. create_chain clst fs = Some (r, fs') \<and> chain_grown clst fs r fs'"
proof -
  obtain st fs1 where s: "create_start clst fs = (st, fs1)" by fastforce
  have u1: "unchanged fs fs1" using create_start_spec [OF m, of clst] s by simp
  note d1 = unchangedD [OF u1]
  note m1 = d1(8) [OF m]
  show ?thesis
  proof (cases st)
    case (Inl r)
    then show ?thesis using create_start_spec [OF m, of clst] s by (simp add: create_chain_def)
  next
    case (Inr scl)
    then have scl: "1 \<le> scl" "scl < n_fatent fs"
      and c: "clst = 0 \<or> scl = clst \<and> 2 \<le> clst \<and> n_fatent fs \<le> fatmap fs clst"
      using create_start_spec [OF m, of clst] s by auto
    show ?thesis
    proof (cases "free_clst fs1 = 0")
      case True
      then show ?thesis using Inr s u1 d1(7) c by (auto simp: create_chain_def chain_grown_def)
    next
      case some: False
      obtain nx fs2 where n: "create_next clst scl fs1 = (nx, fs2)" by fastforce
      have sc1: "scl < n_fatent fs1" and c1: "clst = 0 \<or> scl = clst \<and> 2 \<le> clst" using scl c d1 by auto
      note ns = create_next_spec [OF m1 scl(1) sc1 c1, unfolded n, simplified]
      have u2: "unchanged fs fs2" using unchanged_trans [OF u1] ns by simp
      note d2 = unchangedD [OF u2]
      note m2 = d2(8) [OF m]
      show ?thesis
      proof (cases nx)
        case (Inl r)
        then have "create_chain clst fs = Some (r, fs2)" using s \<open>st = Inr scl\<close> some n by (simp add: create_chain_def)
        moreover have "chain_grown clst fs r fs2" using ns Inl u2 d1 d2(1) by (auto simp: chain_grown_def)
        ultimately show ?thesis by blast
      next
        case Inr2: (Inr p)
        obtain scl2 ncl where p: "p = (scl2, ncl)" by fastforce
        have sc2: "1 \<le> scl2" "scl2 < n_fatent fs2"
          and nc: "ncl = 0 \<or> 2 \<le> ncl \<and> ncl < n_fatent fs \<and> fatmap fs ncl = 0"
          using ns Inr2 p d1 d2 by auto
        define ff where "ff = (if ncl = 0 then find_free scl2 scl2 fs2 else Some (Inr ncl, fs2))"
        have cc: "create_chain clst fs =
            (case ff of None \<Rightarrow> None | Some (Inl r, fs3) \<Rightarrow> Some (r, fs3)
             | Some (Inr ncl, fs3) \<Rightarrow> Some (create_link clst ncl fs3))"
          using s \<open>st = Inr scl\<close> some n Inr2 p by (simp add: create_chain_def ff_def)
        obtain res fs3 where f: "ff = Some (res, fs3)" and u3: "unchanged fs fs3" and
          r: "case res of Inr d \<Rightarrow> 2 \<le> d \<and> d < n_fatent fs \<and> fatmap fs d = 0
            | Inl r \<Rightarrow> r = 0 \<and> free_set fs = {} \<or>
               r = 1 \<and> (\<exists>d. 2 \<le> d \<and> d < n_fatent fs \<and> fatmap fs d = 1) \<or> r = 0xFFFFFFFF \<and> \<not> io_ok fs"
        proof (cases "ncl = 0")
          case True
          have pre: "fatmap fs2 d \<noteq> 0"
            if "2 \<le> d" "d < n_fatent fs2" "if scl2 \<le> scl2 then scl2 < d \<and> d \<le> scl2 else scl2 < d \<or> d \<le> scl2" for d
            using that by auto
          obtain res fs3 where "find_free scl2 scl2 fs2 = Some (res, fs3)" "unchanged fs2 fs3"
            "case res of Inr d \<Rightarrow> 2 \<le> d \<and> d < n_fatent fs2 \<and> fatmap fs2 d = 0
              | Inl r \<Rightarrow> r = 0 \<and> free_set fs2 = {} \<or>
               r = 1 \<and> (\<exists>d. 2 \<le> d \<and> d < n_fatent fs2 \<and> fatmap fs2 d = 1) \<or> r = 0xFFFFFFFF \<and> \<not> io_ok fs2"
            using find_free_spec [OF m2 sc2 sc2 pre] by (auto simp: unchanged_def)
          then show thesis
            using that [of res fs3] True unchanged_trans [OF u2] by (cases res) (auto simp: ff_def d2(2-5))
        next
          case False
          then show thesis using that [of "Inr ncl" fs2] nc u2 by (simp add: ff_def)
        qed
        note d3 = unchangedD [OF u3]
        show ?thesis
        proof (cases res)
          case (Inl v)
          then show ?thesis using cc f r u3 d3(1) c by (auto simp: chain_grown_def)
        next
          case Inr3: (Inr d)
          have dr: "2 \<le> d" "d < n_fatent fs3" "fatmap fs3 d = 0" using r Inr3 d3 by auto
          have c3: "clst = 0 \<or> 2 \<le> clst \<and> clst < n_fatent fs3 \<and> fatmap fs3 clst \<noteq> 0"
            using c scl d3 m by (auto simp: mounted_def geometry_def)
          obtain v fs4 where l: "create_link clst d fs3 = (v, fs4)" by fastforce
          have k4: "data_kept fs fs4" and
            L: "v = d \<and> fatmap fs4 = linked clst d fs3 \<and> (count_ok fs3 \<longrightarrow> count_ok fs4) \<or> v = 0xFFFFFFFF \<and> \<not> io_ok fs3"
            using create_link_spec [OF d3(8) [OF m] dr c3] l data_kept_trans [OF d3(1), of fs4] by simp_all
          have ne: "d \<noteq> 0" "d \<noteq> 1" "d \<noteq> 0xFFFFFFFF"
            using dr(1,2) two_not_one unat_u32_less [of "n_fatent fs3"] by (auto simp: word_less_nat_alt)
          have nf: "\<not> (clst \<noteq> 0 \<and> fatmap fs clst < n_fatent fs)" using c by auto
          have "chain_grown clst fs v fs4"
          proof (cases "v = d")
            case True
            then have "v = d \<and> fatmap fs4 = linked clst d fs \<and> (count_ok fs \<longrightarrow> count_ok fs4) \<or> \<not> io_ok fs \<and> v = 0xFFFFFFFF"
              using L d3(5,9,10) by auto
            then show ?thesis using True ne nf dr d3(2,3) k4 by (auto simp: chain_grown_def)
          next
            case False
            then show ?thesis using L d3(5) k4 by (simp add: chain_grown_def)
          qed
          then show ?thesis using cc f Inr3 l by auto
        qed
      qed
    qed
  qed
qed

subsection \<open>The properties of the chains\<close>

text \<open>
  C28: \<open>remove_chain\<close> and \<open>create_chain\<close> return on every table, also on one whose links form
  a cycle or point outside, and whatever accesses to the disk fail; no sector outside the tables
  changes.
\<close>

theorem chain_loops_end:
  assumes "mounted fs"
  shows "(\<exists>r fs'. remove_chain c p fs = Some (r, fs') \<and> data_kept fs fs') \<and>
    (\<exists>r fs'. create_chain c fs = Some (r, fs') \<and> data_kept fs fs')"
proof -
  have "chain_grown c fs r fs' \<Longrightarrow> data_kept fs fs'" for r fs'
    using unchangedD(1) by (auto simp: chain_grown_def split: if_splits)
  then show ?thesis using remove_chain_ends [OF assms, of c p] create_chain_spec [OF assms, of c] by blast
qed

lemma put_fat_map:
  assumes "fs_ready fs" and "2 \<le> c" and "c < n_fatent fs"
  shows "fs_ready (snd (put_fat c v fs))" "n_fatent (snd (put_fat c v fs)) = n_fatent fs"
    "fs_type (snd (put_fat c v fs)) = fs_type fs" "free_clst (snd (put_fat c v fs)) = free_clst fs"
    "fatmap (snd (put_fat c v fs)) = (fatmap fs)(c := v AND entry_mask (fs_type fs))"
proof -
  have m: "mounted fs" and io: "io_ok fs" using assms(1) by (auto simp: mounted_ready)
  from m assms(2,3) have "fs_ready (snd (put_fat c v fs)) \<and> cfg (snd (put_fat c v fs)) = cfg fs \<and>
    fatmap (snd (put_fat c v fs)) = (fatmap fs)(c := v AND entry_mask (fs_type fs))"
  proof (cases rule: put_fat_cases [where v = v])
    case (ok fs')
    then show ?thesis
      using data_kept_mounted [OF ok(2) m] data_kept_geometry(3) [OF ok(2)] io by (simp add: mounted_ready)
  qed (use io in simp)
  then show "fs_ready (snd (put_fat c v fs))" "n_fatent (snd (put_fat c v fs)) = n_fatent fs"
    "fs_type (snd (put_fat c v fs)) = fs_type fs" "free_clst (snd (put_fat c v fs)) = free_clst fs"
    "fatmap (snd (put_fat c v fs)) = (fatmap fs)(c := v AND entry_mask (fs_type fs))"
    using cfgD(1,7,9) [of "snd (put_fat c v fs)" fs] by auto
qed

lemma demo_fields [simp]:
  "n_fatent (demo_fs t) = 10" "fs_type (demo_fs t) = t" "free_clst (demo_fs t) = 0xFFFFFFFF"
  by (simp_all add: demo_fs_def)

lemma demo_fatmap: "fatmap (demo_fs FS_FAT16) = (\<lambda>d. if 2 \<le> d \<and> d < 10 then 0 else 1)"
proof -
  have "fat_byte (demo_fs FS_FAT16) k = 0" for k
    by (simp add: fat_byte_def view_def demo_fs_def)
  then show ?thesis by (simp add: fatmap_def fat_entry_def entry_of_def fun_eq_iff)
qed

text \<open>The small volume with the entries of two clusters set.\<close>

definition demo_links :: "u32 \<Rightarrow> u32 \<Rightarrow> fatfs" where
  "demo_links a b = snd (put_fat 3 b (snd (put_fat 2 a (demo_fs FS_FAT16))))"

lemma demo_links:
  "fs_ready (demo_links a b)" "n_fatent (demo_links a b) = 10" "free_clst (demo_links a b) = 0xFFFFFFFF"
  "fatmap (demo_links a b) = (\<lambda>d. if 2 \<le> d \<and> d < 10 then 0 else 1)(2 := a AND 0xFFFF, 3 := b AND 0xFFFF)"
proof -
  define f where "f = snd (put_fat 2 a (demo_fs FS_FAT16))"
  have r: "fs_ready (demo_fs FS_FAT16)" by (simp add: demo_ready)
  have 1: "fs_ready f" "n_fatent f = 10" "fs_type f = FS_FAT16" "free_clst f = 0xFFFFFFFF"
    "fatmap f = (\<lambda>d. if 2 \<le> d \<and> d < 10 then 0 else 1)(2 := a AND 0xFFFF)"
    using put_fat_map [OF r, of 2 a] by (simp_all add: f_def demo_fatmap entry_mask_def)
  show "fs_ready (demo_links a b)" "n_fatent (demo_links a b) = 10" "free_clst (demo_links a b) = 0xFFFFFFFF"
    "fatmap (demo_links a b) = (\<lambda>d. if 2 \<le> d \<and> d < 10 then 0 else 1)(2 := a AND 0xFFFF, 3 := b AND 0xFFFF)"
    using put_fat_map [OF 1(1), of 3 b] 1(2-5) by (simp_all add: demo_links_def f_def [symmetric] entry_mask_def)
qed

theorem chain_loops_end_witness:
  "\<exists>r fs'. remove_chain 2 0 (demo_links 3 2) = Some (r, fs')"
  using chain_loops_end [of "demo_links 3 2" 2 0] demo_links(1) [of 3 2] by (auto simp: mounted_ready)

text \<open>
  C29: removing a chain from its first cluster sets the entry of every cluster of it to 0 and
  leaves every other one; the free count, if it was right, is right again.
\<close>

theorem remove_chain_frees:
  assumes "fs_ready fs" and "count_ok fs" and "chain (fatmap fs) (n_fatent fs) c cs"
  shows "\<exists>fs'. remove_chain c 0 fs = Some (FR_OK, fs') \<and> fs_ready fs' \<and> count_ok fs' \<and>
    (\<forall>d. fatmap fs' d = (if d \<in> set cs then 0 else fatmap fs d))"
proof -
  have m: "mounted fs" "io_ok fs" using assms(1) by (auto simp: mounted_ready)
  have "2 \<le> c \<and> c < n_fatent fs" using assms(3) by (cases cs rule: remdups_adj.cases) auto
  then have rc: "remove_chain c 0 fs = remove_loop c fs" by (auto simp: remove_chain_def)
  obtain fs' where l: "remove_loop c fs = Some (FR_OK, fs')" "data_kept fs fs'"
    "fatmap fs' = (\<lambda>d. if d \<in> set cs then 0 else fatmap fs d)"
    by (rule remove_loop_frees [OF assms(1,3)])
  then have "count_ok fs'" using remove_chain_ends [OF m(1), of c 0] rc m(2) assms(2) by auto
  then show ?thesis
    using l rc m data_kept_mounted [OF l(2) m(1)] data_kept_geometry(3) [OF l(2)] by (auto simp: mounted_ready)
qed

theorem remove_chain_frees_witness:
  "\<exists>fs'. remove_chain 2 0 (demo_links 3 0xFFFF) = Some (FR_OK, fs') \<and> fatmap fs' 2 = 0 \<and> fatmap fs' 3 = 0"
proof -
  have "count_ok (demo_links 3 0xFFFF)" by (simp add: count_ok_def demo_links)
  moreover have "chain (fatmap (demo_links 3 0xFFFF)) 10 2 [2, 3]" by (simp add: demo_links)
  ultimately show ?thesis
    using remove_chain_frees [of "demo_links 3 0xFFFF" 2 "[2, 3]"] by (auto simp: demo_links)
qed

lemma chain_last: "chain f n c cs \<Longrightarrow> n \<le> f (last cs) \<and> 2 \<le> last cs \<and> last cs < n"
  by (induction f n c cs rule: chain.induct) auto

lemma chain_append:
  assumes "chain f n c cs" and "k \<notin> set cs" and "2 \<le> k" "k < n"
    and "g (last cs) = k" and "n \<le> g k" and "\<And>d. d \<in> set cs \<Longrightarrow> d \<noteq> last cs \<Longrightarrow> g d = f d"
  shows "chain g n c (cs @ [k])"
  using assms
proof (induction f n c cs rule: chain.induct)
  case (3 f n c x y ys)
  have "distinct (x # y # ys)" using chain_distinct 3(2) by blast
  then have "x \<noteq> last (y # ys)" by (metis distinct.simps(2) last_in_set list.distinct(1))
  then have "g x = f x" using 3(8) by simp
  then show ?case using 3 by auto
qed auto

text \<open>A chain that is stretched gets one cluster more, if one is free.\<close>

lemma chain_stretch:
  assumes "fs_ready fs" and "count_ok fs" and "\<And>d. 2 \<le> d \<Longrightarrow> d < n_fatent fs \<Longrightarrow> fatmap fs d \<noteq> 1"
    and "chain (fatmap fs) (n_fatent fs) c cs"
  shows "\<exists>r fs'. create_chain (last cs) fs = Some (r, fs') \<and> fs_ready fs' \<and> count_ok fs' \<and> data_kept fs fs' \<and>
    (if free_set fs = {} then r = 0 \<and> fatmap fs' = fatmap fs
     else fatmap fs r = 0 \<and> 2 \<le> r \<and> r < n_fatent fs \<and> r \<notin> set cs \<and> fatmap fs' = linked (last cs) r fs \<and>
       chain (fatmap fs') (n_fatent fs') c (cs @ [r]))"
proof -
  have m: "mounted fs" and io: "io_ok fs" using assms(1) by (auto simp: mounted_ready)
  define k where "k = last cs"
  have k: "n_fatent fs \<le> fatmap fs k" "2 \<le> k" "k < n_fatent fs"
    using chain_last [OF assms(4)] by (simp_all add: k_def)
  have k0: "k \<noteq> 0" using k(2) by auto
  have e0: "free_clst fs = 0 \<Longrightarrow> free_set fs = {}" using assms(2) by (simp add: count_ok_def)
  obtain r fs' where cr: "create_chain k fs = Some (r, fs')" and c: "chain_grown k fs r fs'"
    using create_chain_spec [OF m] by blast
  have r: "r \<noteq> 1" "r \<noteq> 0xFFFFFFFF"
    using c assms(3) k k0 io by (auto simp: chain_grown_def split: if_splits)
  have kept: "data_kept fs fs'"
    using c unchangedD(1) by (auto simp: chain_grown_def split: if_splits)
  have rdy: "fs_ready fs'"
    using data_kept_mounted [OF kept m] data_kept_geometry(3) [OF kept] io by (simp add: mounted_ready)
  show ?thesis
  proof (cases "r = 0")
    case True
    then show ?thesis using c cr rdy e0 kept unchangedD(3,10) assms(2) by (auto simp: chain_grown_def k_def)
  next
    case False
    then have "r < n_fatent fs" and fr: "fatmap fs r = 0" and f: "fatmap fs' = linked k r fs" and cnt: "count_ok fs'"
      using c r k k0 assms(2) by (auto simp: chain_grown_def split: if_splits)
    have r2: "2 \<le> r" using fr by (auto simp: fatmap_def split: if_splits)
    have nin: "r \<notin> set cs"
    proof
      assume "r \<in> set cs"
      then obtain xs ys where "cs = xs @ r # ys" by (meson split_list)
      then have "chain (fatmap fs) (n_fatent fs) r (r # ys)" using assms(4) chain_suffix by metis
      then show False using fr r2 chain_hd [of "fatmap fs" "n_fatent fs" "fatmap fs r" ys] k
        by (auto simp: chain_Cons split: if_splits)
    qed
    have kin: "k \<in> set cs" using assms(4) by (cases cs) (auto simp: k_def)
    have "chain (fatmap fs') (n_fatent fs) c (cs @ [r])"
      by (rule chain_append [OF assms(4) nin r2 \<open>r < n_fatent fs\<close>])
        (use f k0 nin kin EOC_end(1) [OF m] in \<open>auto simp: linked_def k_def\<close>)
    moreover have "free_set fs \<noteq> {}" using fr by (auto simp: free_set_def)
    ultimately show ?thesis
      using cr rdy cnt fr f r2 nin kept \<open>r < n_fatent fs\<close> data_kept_geometry(2) [OF kept] by (simp add: k_def)
  qed
qed

text \<open>
  C26: \<open>create_chain\<close> puts one free cluster at the end of the chain it is given the last cluster
  of, or, where no cluster is free, returns 0 and changes no entry; no other entry changes.
\<close>

theorem create_chain_extends:
  assumes "fs_ready fs" and "count_ok fs" and "\<And>d. 2 \<le> d \<Longrightarrow> d < n_fatent fs \<Longrightarrow> fatmap fs d \<noteq> 1"
    and "chain (fatmap fs) (n_fatent fs) c cs"
  shows "\<exists>r fs'. create_chain (last cs) fs = Some (r, fs') \<and> fs_ready fs' \<and> count_ok fs' \<and>
    (if free_set fs = {} then r = 0 \<and> fatmap fs' = fatmap fs
     else fatmap fs r = 0 \<and> chain (fatmap fs') (n_fatent fs') c (cs @ [r]) \<and>
       (\<forall>d. d \<noteq> r \<and> d \<noteq> last cs \<longrightarrow> fatmap fs' d = fatmap fs d))"
proof -
  have "last cs \<noteq> 0" using chain_last [OF assms(4)] by auto
  then show ?thesis using chain_stretch [OF assms] by (fastforce simp: linked_def split: if_splits)
qed

theorem create_chain_extends_witness:
  "\<exists>r fs'. create_chain 3 (demo_links 3 0xFFFF) = Some (r, fs') \<and> fatmap (demo_links 3 0xFFFF) r = 0 \<and>
    chain (fatmap fs') (n_fatent fs') 2 ([2, 3] @ [r])"
proof -
  define F where "F = demo_links 3 0xFFFF"
  have c: "count_ok F" by (simp add: F_def count_ok_def demo_links)
  have ch: "chain (fatmap F) (n_fatent F) 2 [2, 3]" by (simp add: F_def demo_links)
  have r: "fs_ready F" by (simp add: F_def demo_links)
  have "4 \<in> free_set F" by (simp add: F_def free_set_def demo_links)
  then have ne: "free_set F \<noteq> {}" by blast
  have n: "fatmap F d \<noteq> 1" if "2 \<le> d" "d < n_fatent F" for d
    using that by (simp add: F_def demo_links)
  have "last [2, 3 :: u32] = 3" by simp
  with create_chain_extends [OF r c n ch] ne show ?thesis unfolding F_def by metis
qed

subsection \<open>The count of free clusters\<close>

text \<open>The calls of the file operations: a new chain, one more cluster, a chain removed, and one cut.\<close>

datatype chain_op = New_chain | Extend u32 | Remove u32 | Cut u32

primrec chain_step :: "fatfs \<Rightarrow> chain_op \<Rightarrow> fatfs" where
  "chain_step fs New_chain = snd (the (create_chain 0 fs))"
| "chain_step fs (Extend c) = snd (the (create_chain c fs))"
| "chain_step fs (Remove c) = snd (the (remove_chain c 0 fs))"
| "chain_step fs (Cut c) =
     (case get_fat c fs of
        (ncl, fs1) \<Rightarrow>
          if ncl = 0xFFFFFFFF \<or> ncl = 1 \<or> ncl \<ge> n_fatent fs1 then fs1
          else snd (the (remove_chain ncl c fs1)))"

definition count_inv :: "fatfs \<Rightarrow> bool" where
  "count_inv fs \<longleftrightarrow> fs_ready fs \<and> count_ok fs"

lemma count_inv_kept: "count_inv fs \<Longrightarrow> data_kept fs fs' \<Longrightarrow> count_ok fs' \<Longrightarrow> count_inv fs'"
  using data_kept_mounted [of fs fs'] data_kept_geometry(3) [of fs fs'] by (simp add: count_inv_def mounted_ready)

lemma create_count: "count_inv fs \<Longrightarrow> count_inv (snd (the (create_chain c fs)))"
proof -
  assume i: "count_inv fs"
  then have m: "mounted fs" "io_ok fs" "count_ok fs" by (auto simp: count_inv_def mounted_ready)
  obtain r fs' where "create_chain c fs = Some (r, fs')" "chain_grown c fs r fs'"
    using create_chain_spec [OF m(1)] by blast
  moreover from this have "data_kept fs fs' \<and> count_ok fs'"
    using m unchangedD(1,10) [of fs fs'] by (auto simp: chain_grown_def split: if_splits)
  ultimately show ?thesis using count_inv_kept [OF i] by simp
qed

lemma remove_count: "count_inv fs \<Longrightarrow> p = 0 \<or> fatmap fs p \<noteq> 0 \<Longrightarrow> count_inv (snd (the (remove_chain c p fs)))"
proof -
  assume i: "count_inv fs" and p: "p = 0 \<or> fatmap fs p \<noteq> 0"
  then have m: "mounted fs" "io_ok fs" "count_ok fs" by (auto simp: count_inv_def mounted_ready)
  obtain r fs' where "remove_chain c p fs = Some (r, fs')" "data_kept fs fs'" "count_ok fs'"
    using remove_chain_ends [OF m(1), of c p] m p by blast
  then show ?thesis using count_inv_kept [OF i] by simp
qed

lemma cut_count: "count_inv fs \<Longrightarrow> count_inv (chain_step fs (Cut c))"
proof -
  assume i: "count_inv fs"
  then have m: "mounted fs" "io_ok fs" "count_ok fs" by (auto simp: count_inv_def mounted_ready)
  obtain v fs1 where g: "get_fat c fs = (v, fs1)" and u: "unchanged fs fs1" and v: "v = fatmap fs c"
    using get_fat_unchanged [OF m(1), of c] m(2) by metis
  note d = unchangedD [OF u]
  have i1: "count_inv fs1" by (rule count_inv_kept [OF i d(1) d(10) [OF m(3)]])
  show ?thesis
  proof (cases "v = 0")
    case False
    then show ?thesis using g i1 remove_count [OF i1, of c v] v d(3) by simp
  next
    case True
    then have "remove_chain v c fs1 = Some (FR_INT_ERR, fs1)" by (simp add: remove_chain_def)
    then show ?thesis using g i1 by simp
  qed
qed

interpretation free_count: invariant_machine chain_step count_inv
proof
  show "count_inv (chain_step fs e)" if "count_inv fs" for fs e
    using that create_count remove_count [where p = 0] cut_count by (cases e) auto
qed

text \<open>
  C25: after any sequence of allocations and removals the free count of the volume, where it is
  known, is the number of entries of the table that are 0; what FSInfo is written with is right.
\<close>

theorem free_count_exact:
  assumes "fs_ready fs" and "count_ok fs"
  shows "let fs' = foldl chain_step fs ops
    in free_clst fs' \<le> n_fatent fs' - 2 \<longrightarrow>
      unat (free_clst fs') = card {d. 2 \<le> d \<and> d < n_fatent fs' \<and> fst (get_fat d fs') = 0}"
proof -
  define fs' where "fs' = foldl chain_step fs ops"
  have i: "count_inv fs'" unfolding fs'_def
    by (rule free_count.run_inv) (use assms in \<open>simp add: count_inv_def\<close>)
  have "fst (get_fat d fs') = fatmap fs' d" if "2 \<le> d" "d < n_fatent fs'" for d
    using get_fat_cases [of fs' d] that i by (fastforce simp: count_inv_def mounted_ready)
  then have "{d. 2 \<le> d \<and> d < n_fatent fs' \<and> fst (get_fat d fs') = 0} = free_set fs'"
    using free_set_range [of fs'] by (auto simp: free_set_def)
  then show ?thesis using i by (simp add: fs'_def [symmetric] count_inv_def count_ok_def)
qed

theorem free_count_exact_witness:
  "let fs' = foldl chain_step ((demo_fs FS_FAT16)\<lparr>free_clst := 8\<rparr>) [New_chain, New_chain]
    in free_clst fs' \<le> n_fatent fs' - 2 \<longrightarrow>
      unat (free_clst fs') = card {d. 2 \<le> d \<and> d < n_fatent fs' \<and> fst (get_fat d fs') = 0}"
proof -
  let ?f = "(demo_fs FS_FAT16)\<lparr>free_clst := 8\<rparr>"
  have "fs_ready ?f"
    by (simp add: fs_ready_def geometry_def window_ok_def io_ok_def demo_fs_def max_fatent_def fat_bytes_def)
  moreover have "free_set ?f = {2..<10}" by (auto simp: free_set_def demo_fatmap)
  then have "count_ok ?f" by (simp add: count_ok_def card_range)
  ultimately show ?thesis by (rule free_count_exact)
qed
end
