(* ===== verification/FatFs_Sectors.thy ===== *)
theory FatFs_Sectors
  imports FatFs_File FatFs_Chain_Correct
begin

text \<open>
  The sectors of a file: those of its clusters in the order of the chain. On a volume whose
  data area fits into 32 bits they are distinct, none is a sector of a table, and writing them
  leaves the tables as they were.
\<close>

definition data_geometry :: "fatfs \<Rightarrow> bool" where
  "data_geometry fs \<longleftrightarrow> geometry fs \<and> (\<exists>k \<le> 15. unat (csize fs) = 2 ^ k) \<and>
     unat (database fs) + unat (csize fs) * (unat (n_fatent fs) - 2) < 2 ^ 32"

definition cluster_sects :: "fatfs \<Rightarrow> u32 \<Rightarrow> u32 list" where
  "cluster_sects fs c = map (\<lambda>i. clst2sect fs c + of_nat i) [0..<unat (csize fs)]"

definition file_sects :: "fatfs \<Rightarrow> u32 list \<Rightarrow> u32 list" where
  "file_sects fs cs = concat (map (cluster_sects fs) cs)"

lemma unat_pow2: "k \<le> 15 \<Longrightarrow> unat (2 ^ k :: u32) = 2 ^ k"
proof -
  assume "k \<le> 15"
  then have "(2 :: nat) ^ k < 2 ^ 32" by (intro power_strict_increasing) auto
  then have "unat (of_nat (2 ^ k) :: u32) = 2 ^ k"
    unfolding unsigned_of_nat using \<open>k \<le> 15\<close> by (simp add: take_bit_nat_eq_self)
  then show ?thesis by (simp only: of_nat_power of_nat_numeral)
qed

lemma data_geometryD:
  assumes "data_geometry fs"
  shows "geometry fs" "0 < unat (csize fs)" "unat (csize fs) \<le> 2 ^ 15"
proof -
  obtain k where k: "k \<le> 15" "unat (csize fs) = 2 ^ k" using assms by (auto simp: data_geometry_def)
  have "(2 :: nat) ^ k \<le> 2 ^ 15" using k(1) by (rule power_increasing) simp
  then show "0 < unat (csize fs)" "unat (csize fs) \<le> 2 ^ 15" using k by auto
  show "geometry fs" using assms by (simp add: data_geometry_def)
qed

lemma unat_u32: "n < 2 ^ 32 \<Longrightarrow> unat (of_nat n :: u32) = n"
  by (simp add: unat_of_nat take_bit_nat_eq_self)

lemma unat_ucast16: "unat (ucast (x :: u16) :: u32) = unat x"
proof -
  have "unat x < 2 ^ 16" using unsigned_less [of x] by simp
  then show ?thesis by (simp add: unsigned_ucast_eq take_bit_nat_eq_self)
qed

lemma csize_u32: "unat (ucast (csize fs) :: u32) = unat (csize fs)"
  by (rule unat_ucast16)

text \<open>The bit operation of the code is the remainder by the cluster size.\<close>

lemma csect_mod:
  assumes "data_geometry fs"
  shows "unat (x AND (ucast (csize fs) - 1) :: u32) = unat x mod unat (csize fs)"
proof -
  obtain k where k: "k \<le> 15" "unat (csize fs) = 2 ^ k" using assms by (auto simp: data_geometry_def)
  have "(ucast (csize fs) :: u32) = 2 ^ k"
    using csize_u32 [of fs] k unat_pow2 by (simp add: word_unat_eq_iff)
  then have "ucast (csize fs) - 1 = (mask k :: u32)" by (simp add: mask_eq_exp_minus_1)
  then show ?thesis by (simp add: take_bit_eq_mask [symmetric] unsigned_take_bit_eq take_bit_eq_mod k unat_mod unat_pow2)
qed

lemma unat_clst2sect:
  assumes g: "data_geometry fs" and c: "2 \<le> c" "c < n_fatent fs" and i: "i < unat (csize fs)"
  shows "unat (database fs) + unat (csize fs) * (unat c - 2) + i < 2 ^ 32 - 1"
    and "unat (clst2sect fs c + of_nat i) = unat (database fs) + unat (csize fs) * (unat c - 2) + i"
proof -
  define m where "m = unat (csize fs)"
  define n where "n = unat (n_fatent fs)"
  have uc: "2 \<le> unat c" "unat c < n" using c by (simp_all add: word_le_nat_alt word_less_nat_alt n_def)
  have lim: "unat (database fs) + m * (n - 2) < 2 ^ 32" using g by (simp add: data_geometry_def m_def n_def)
  have "m * (unat c - 2) + i < m * (unat c - 2 + 1)" using i by (simp add: m_def)
  also have "\<dots> \<le> m * (n - 2)" using uc by (intro mult_le_mono2) simp
  finally have lt: "m * (unat c - 2) + i < m * (n - 2)" .
  with lim show l2: "unat (database fs) + unat (csize fs) * (unat c - 2) + i < 2 ^ 32 - 1" by (simp add: m_def)
  have u2: "unat (c - 2) = unat c - 2" using uc by (simp add: unat_sub word_le_nat_alt)
  have un: "unat (n_fatent fs - 2) = n - 2" using uc by (simp add: unat_sub word_le_nat_alt n_def)
  have "clst2sect fs c = database fs + ucast (csize fs) * (c - 2)"
  proof -
    have "\<not> n - 2 \<le> unat c - 2" using uc by linarith
    then show ?thesis by (simp add: clst2sect_def Let_def word_le_nat_alt u2 un)
  qed
  moreover have "unat (ucast (csize fs) * (c - 2) :: u32) = m * (unat c - 2)"
    using l2 by (simp add: unat_mult_lem [THEN iffD1] csize_u32 u2 m_def)
  moreover have "unat (of_nat i :: u32) = i" using l2 by (simp add: unat_of_nat take_bit_nat_eq_self)
  ultimately show "unat (clst2sect fs c + of_nat i) = unat (database fs) + unat (csize fs) * (unat c - 2) + i"
    using l2 by (simp add: unat_plus_if' m_def)
qed

lemma clst2sect_nonzero:
  assumes g: "data_geometry fs" and c: "2 \<le> c" "c < n_fatent fs"
  shows "clst2sect fs c \<noteq> 0"
proof -
  have gg: "geometry fs" and m: "0 < unat (csize fs)" using data_geometryD [OF g] by auto
  have "2 < n_fatent fs" using gg by (simp add: geometry_def)
  from entry_offsets [OF gg this] have "0 < unat (fsize fs)"
    using gg by (cases "fs_type fs") (auto simp: geometry_def)
  moreover have "0 < unat (n_fats fs)" using gg by (auto simp: geometry_def)
  ultimately have "0 < unat (database fs)" using gg by (auto simp: geometry_def)
  then show ?thesis using unat_clst2sect(2) [OF g c m] by (auto simp: word_unat_eq_iff)
qed

text \<open>A data sector lies behind the tables and is not the invalid one.\<close>

definition data_sect :: "fatfs \<Rightarrow> u32 \<Rightarrow> bool" where
  "data_sect fs s \<longleftrightarrow> database fs \<le> s \<and> s \<noteq> 0 - 1"

lemma behind_tables:
  assumes "n_fats fs = 1 \<or> n_fats fs = 2"
    and le: "unat (fatbase fs) + unat (n_fats fs) * unat (fsize fs) \<le> unat s"
  shows "\<not> in_fat1 fs s" "\<not> in_fat2 fs s"
proof -
  have sb: "unat s < 2 ^ 32" using unat_u32_less [of s] by simp
  have one: "unat (fatbase fs) + unat (fsize fs) \<le> unat s" using assms by auto
  then have "unat (s - fatbase fs) = unat s - unat (fatbase fs)" by (simp add: unat_sub word_le_nat_alt)
  then show "\<not> in_fat1 fs s" using one by (simp add: in_fat1_def word_less_nat_alt)
  show "\<not> in_fat2 fs s"
  proof
    assume i: "in_fat2 fs s"
    then have two: "unat (fatbase fs) + 2 * unat (fsize fs) \<le> unat s" using le by (simp add: in_fat2_def)
    then have "unat (fatbase fs + fsize fs) = unat (fatbase fs) + unat (fsize fs)"
      using sb by (simp add: unat_plus_if')
    then have "unat (s - (fatbase fs + fsize fs)) = unat s - (unat (fatbase fs) + unat (fsize fs))"
      using two by (simp add: unat_sub word_le_nat_alt)
    moreover have "unat (s - (fatbase fs + fsize fs)) < unat (fsize fs)"
      using i by (simp add: in_fat2_def word_less_nat_alt)
    ultimately show False using two by linarith
  qed
qed

lemma data_not_fat:
  assumes "geometry fs" and "data_sect fs s"
  shows "\<not> in_fat1 fs s" "\<not> in_fat2 fs s"
proof -
  have "unat (database fs) \<le> unat s" using assms(2) by (simp add: data_sect_def word_le_nat_alt)
  then have "unat (fatbase fs) + unat (n_fats fs) * unat (fsize fs) \<le> unat s" "n_fats fs = 1 \<or> n_fats fs = 2"
    using assms(1) by (auto simp: geometry_def)
  then show "\<not> in_fat1 fs s" "\<not> in_fat2 fs s" using behind_tables by auto
qed

lemma cluster_data_sect:
  assumes "data_geometry fs" and "2 \<le> c" "c < n_fatent fs" and "s \<in> set (cluster_sects fs c)"
  shows "data_sect fs s"
proof -
  obtain i where i: "i < unat (csize fs)" "s = clst2sect fs c + of_nat i" using assms(4) by (auto simp: cluster_sects_def)
  note u = unat_clst2sect [OF assms(1-3) i(1)]
  have "unat (0 - 1 :: u32) = 2 ^ 32 - 1" by (simp add: unsigned_minus_1_eq_mask mask_eq_exp_minus_1)
  then show ?thesis using u i(2) by (auto simp: data_sect_def word_le_nat_alt)
qed


subsection \<open>Lists of blocks of one length\<close>

lemma length_blocks: "(\<And>x. x \<in> set xs \<Longrightarrow> length (f x) = m) \<Longrightarrow> length (concat (map f xs)) = m * length xs"
  by (induction xs) auto

lemma drop_blocks:
  "(\<And>x. x \<in> set xs \<Longrightarrow> length (f x) = m) \<Longrightarrow> drop (m * k) (concat (map f xs)) = concat (map f (drop k xs))"
proof (induction xs arbitrary: k)
  case (Cons x xs)
  then show ?case by (cases k) auto
qed simp

lemma take_blocks:
  "(\<And>x. x \<in> set xs \<Longrightarrow> length (f x) = m) \<Longrightarrow> take (m * k) (concat (map f xs)) = concat (map f (take k xs))"
proof (induction xs arbitrary: k)
  case (Cons x xs)
  then show ?case by (cases k) auto
qed simp

lemma nth_blocks:
  assumes "\<And>x. x \<in> set xs \<Longrightarrow> length (f x) = m" and "k < m * length xs"
  shows "concat (map f xs) ! k = f (xs ! (k div m)) ! (k mod m)"
proof -
  have m: "0 < m" using assms(2) by (cases m) auto
  have q: "k div m < length xs" using assms(2) m by (simp add: less_mult_imp_div_less mult.commute)
  have "concat (map f xs) ! k = drop (m * (k div m)) (concat (map f xs)) ! (k mod m)"
  proof -
    have "m * (k div m) \<le> length (concat (map f xs))"
      using length_blocks [of xs f m] assms q by simp
    then show ?thesis by (simp add: nth_drop)
  qed
  also have "drop (m * (k div m)) (concat (map f xs)) = f (xs ! (k div m)) @ concat (map f (drop (Suc (k div m)) xs))"
    using q assms(1) by (simp add: drop_blocks Cons_nth_drop_Suc [symmetric])
  also have "\<dots> ! (k mod m) = f (xs ! (k div m)) ! (k mod m)"
    using m q assms(1) [OF nth_mem [OF q]] by (simp add: nth_append)
  finally show ?thesis .
qed

lemma length_cluster_sects [simp]: "length (cluster_sects fs c) = unat (csize fs)"
  by (simp add: cluster_sects_def)

lemma length_file_sects: "length (file_sects fs cs) = unat (csize fs) * length cs"
  unfolding file_sects_def by (rule length_blocks) simp

lemma file_sects_nth:
  assumes "k < unat (csize fs) * length cs"
  shows "file_sects fs cs ! k = clst2sect fs (cs ! (k div unat (csize fs))) + of_nat (k mod unat (csize fs))"
proof -
  have "0 < unat (csize fs)" using assms by (cases "unat (csize fs)") auto
  then have "k mod unat (csize fs) < unat (csize fs)" by simp
  then show ?thesis unfolding file_sects_def
    by (subst nth_blocks [where m = "unat (csize fs)"]) (use assms in \<open>simp_all add: cluster_sects_def\<close>)
qed

definition clusters_ok :: "fatfs \<Rightarrow> u32 list \<Rightarrow> bool" where
  "clusters_ok fs cs \<longleftrightarrow> distinct cs \<and> (\<forall>c \<in> set cs. 2 \<le> c \<and> c < n_fatent fs)"

lemma chain_clusters: "chain f n c cs \<Longrightarrow> d \<in> set cs \<Longrightarrow> 2 \<le> d \<and> d < n"
  by (induction f n c cs rule: chain.induct) auto

lemma chain_clusters_ok: "chain (fatmap fs) (n_fatent fs) c cs \<Longrightarrow> clusters_ok fs cs"
  using chain_clusters chain_distinct by (auto simp: clusters_ok_def)

lemma file_data_sect:
  "data_geometry fs \<Longrightarrow> clusters_ok fs cs \<Longrightarrow> s \<in> set (file_sects fs cs) \<Longrightarrow> data_sect fs s"
  using cluster_data_sect by (fastforce simp: file_sects_def clusters_ok_def)

lemma file_sects_distinct:
  assumes g: "data_geometry fs" and c: "clusters_ok fs cs"
  shows "distinct (file_sects fs cs)"
proof (unfold distinct_conv_nth, intro allI impI)
  define m where "m = unat (csize fs)"
  have m: "0 < m" using data_geometryD(2) [OF g] by (simp add: m_def)
  fix i j assume ij: "i < length (file_sects fs cs)" "j < length (file_sects fs cs)" "i \<noteq> j"
  have pos: "unat (file_sects fs cs ! k) = unat (database fs) + m * (unat (cs ! (k div m)) - 2) + k mod m \<and>
      2 \<le> unat (cs ! (k div m)) \<and> k div m < length cs"
    if "k < length (file_sects fs cs)" for k
  proof -
    have k: "k < m * length cs" using that by (simp add: length_file_sects m_def)
    then have q: "k div m < length cs" using m by (simp add: less_mult_imp_div_less mult.commute)
    then have r: "2 \<le> cs ! (k div m)" "cs ! (k div m) < n_fatent fs" using c nth_mem by (auto simp: clusters_ok_def)
    have "k mod m < unat (csize fs)" using m by (simp add: m_def)
    from unat_clst2sect(2) [OF g r this] show ?thesis
      using k q r(1) by (simp add: file_sects_nth m_def word_le_nat_alt)
  qed
  show "file_sects fs cs ! i \<noteq> file_sects fs cs ! j"
  proof
    assume "file_sects fs cs ! i = file_sects fs cs ! j"
    then have e: "m * (unat (cs ! (i div m)) - 2) + i mod m = m * (unat (cs ! (j div m)) - 2) + j mod m"
      using pos [OF ij(1)] pos [OF ij(2)] by simp
    have "(m * a + r) div m = a" "(m * a + r) mod m = r" if "r < m" for a r using that by simp_all
    from this [of "i mod m"] this [of "j mod m"] have "unat (cs ! (i div m)) - 2 = unat (cs ! (j div m)) - 2" "i mod m = j mod m"
      using e m by (metis mod_less_divisor)+
    then have "cs ! (i div m) = cs ! (j div m)" "i mod m = j mod m"
      using pos [OF ij(1)] pos [OF ij(2)] by (auto simp: word_unat_eq_iff)
    then have "i div m = j div m" using c pos ij by (simp add: clusters_ok_def nth_eq_iff_index_eq)
    then have "i = j" using \<open>i mod m = j mod m\<close> by (metis div_mult_mod_eq)
    with ij show False by simp
  qed
qed

subsection \<open>Writing data sectors\<close>

text \<open>A volume whose disk differs in data sectors that are not in the window.\<close>

definition wrote_data :: "u32 set \<Rightarrow> fatfs \<Rightarrow> fatfs \<Rightarrow> bool" where
  "wrote_data S fs fs' \<longleftrightarrow> (\<exists>n D. fs' = fs\<lparr>io_count := n, disk := D\<rparr> \<and> (\<forall>s. s \<notin> S \<longrightarrow> D s = disk fs s) \<and>
     (\<forall>s. length (D s) = 512))"

lemma wrote_data_mounted:
  assumes w: "wrote_data S fs fs'" and S: "\<And>s. s \<in> S \<Longrightarrow> data_sect fs s \<and> winsect fs \<noteq> s"
    and m: "mounted fs"
  shows "layout fs' = layout fs" "cfg fs' = cfg fs" "mounted fs'" "fatmap fs' = fatmap fs" "winsect fs' = winsect fs"
    "win fs' = win fs" "wflag fs' = wflag fs" "mirrored fs \<Longrightarrow> mirrored fs'" "s \<notin> S \<Longrightarrow> disk fs' s = disk fs s"
proof -
  obtain n D where e: "fs' = fs\<lparr>io_count := n, disk := D\<rparr>" and D: "\<And>s. s \<notin> S \<Longrightarrow> D s = disk fs s"
    and L: "\<And>s. length (D s) = 512" using w by (auto simp: wrote_data_def)
  have g: "geometry fs" using m by (simp add: mounted_def)
  show c: "cfg fs' = cfg fs" "winsect fs' = winsect fs" "win fs' = win fs" "wflag fs' = wflag fs"
    by (simp_all add: e)
  show "layout fs' = layout fs" by (rule cfg_layout [OF c(1)])
  show "s \<notin> S \<Longrightarrow> disk fs' s = disk fs s" using D by (simp add: e)
  have nf: "s \<notin> S" if "in_fat1 fs s \<or> in_fat2 fs s" for s
    using that S data_not_fat [OF g] by blast
  have "D (winsect fs) = disk fs (winsect fs)" using S D by blast
  then have "window_ok fs'" using m L by (auto simp: e window_ok_def mounted_def)
  then show "mounted fs'" using m cfg_geometry(1) [OF c(1)] by (simp add: mounted_def)
  have v: "view fs' s = view fs s" if "in_fat1 fs s" for s
    using D nf that by (simp add: view_def e)
  have b: "fat_byte fs' k = fat_byte fs k" if "k < 512 * unat (fsize fs)" for k
    using v [OF fat_sect_region(1) [OF g that]] cfg_fat_sect [OF c(1)] by (simp add: fat_byte_def)
  have "fat_entry fs' d = fat_entry fs d" if "d < n_fatent fs" for d
    using entry_cong [OF g that b] cfgD(1) [OF c(1)] by (simp add: fat_entry_def)
  then show "fatmap fs' = fatmap fs" using cfgD(9) [OF c(1)] by (auto simp: fatmap_def fun_eq_iff)
  have "disk fs' (s + fsize fs) = disk fs (s + fsize fs) \<and> disk fs' s = disk fs s"
    if "in_fat1 fs s" "n_fats fs = 2" for s
    using D nf mirror_in_fat2 [OF that(2,1)] that by (simp add: e)
  then show "mirrored fs \<Longrightarrow> mirrored fs'" by (auto simp: mirrored_def e)
qed

end
