(* ===== verification/FatFs_Read.thy ===== *)
theory FatFs_Read
  imports FatFs_Sectors
begin

text \<open>
  Reading refines the abstract file: the bytes of its clusters in the order of the chain, with
  the sector buffer in place of the sector it holds, cut to the size of the file. \<open>f_read\<close>
  returns the bytes from the file pointer on, whatever mixture of buffered and direct transfers
  it takes, and leaves the file as it was.
\<close>

definition dirty :: "fil \<Rightarrow> bool" where
  "dirty fp \<longleftrightarrow> flag fp AND FA_DIRTY \<noteq> 0"

definition sdata :: "fil \<Rightarrow> fatfs \<Rightarrow> u32 \<Rightarrow> u8 list" where
  "sdata fp fs s = (if s = sect fp then buf fp else disk fs s)"

definition raw :: "fil \<Rightarrow> fatfs \<Rightarrow> u32 list \<Rightarrow> u8 list" where
  "raw fp fs cs = concat (map (sdata fp fs) (file_sects fs cs))"

definition content :: "fil \<Rightarrow> fatfs \<Rightarrow> u32 list \<Rightarrow> u8 list" where
  "content fp fs cs = take (unat (objsize fp)) (raw fp fs cs)"

text \<open>The volume with the clusters of a file, its sector buffer, and its position.\<close>

definition vol_file :: "fatfs \<Rightarrow> u32 list \<Rightarrow> bool" where
  "vol_file fs cs \<longleftrightarrow> data_geometry fs \<and> fs_ready fs \<and>
     (cs \<noteq> [] \<longrightarrow> chain (fatmap fs) (n_fatent fs) (hd cs) cs) \<and> winsect fs \<notin> set (file_sects fs cs)"

definition buf_ok :: "fil \<Rightarrow> fatfs \<Rightarrow> u32 list \<Rightarrow> bool" where
  "buf_ok fp fs cs \<longleftrightarrow> length (buf fp) = 512 \<and>
     (sect fp \<in> set (file_sects fs cs) \<and> \<not> dirty fp \<longrightarrow> buf fp = disk fs (sect fp)) \<and>
     (dirty fp \<longrightarrow> sect fp \<in> set (file_sects fs cs))"

definition cluster_bytes :: "fatfs \<Rightarrow> nat" where
  "cluster_bytes fs = 512 * unat (csize fs)"

definition pos_ok :: "fil \<Rightarrow> fatfs \<Rightarrow> u32 list \<Rightarrow> bool" where
  "pos_ok fp fs cs \<longleftrightarrow> unat (objsize fp) \<le> cluster_bytes fs * length cs \<and> fptr fp \<le> objsize fp \<and>
     sclust fp = (if cs = [] then 0 else hd cs) \<and>
     (fptr fp \<noteq> 0 \<longrightarrow> clust fp = cs ! ((unat (fptr fp) - 1) div cluster_bytes fs)) \<and>
     (unat (fptr fp) mod 512 \<noteq> 0 \<longrightarrow> sect fp = file_sects fs cs ! (unat (fptr fp) div 512))"

definition file_ok :: "fil \<Rightarrow> fatfs \<Rightarrow> u32 list \<Rightarrow> bool" where
  "file_ok fp fs cs \<longleftrightarrow> vol_file fs cs \<and> buf_ok fp fs cs \<and> pos_ok fp fs cs"

subsection \<open>The volume\<close>

lemma layout_sects:
  assumes "layout fs' = layout fs"
  shows "file_sects fs' cs = file_sects fs cs" "cluster_bytes fs' = cluster_bytes fs"
    "data_geometry fs' = data_geometry fs" "csize fs' = csize fs" "clst2sect fs' = clst2sect fs"
proof -
  note d = layoutD [OF assms]
  show c: "csize fs' = csize fs" and s: "clst2sect fs' = clst2sect fs"
    using d by (simp_all add: clst2sect_def fun_eq_iff Let_def)
  show "file_sects fs' cs = file_sects fs cs" "cluster_bytes fs' = cluster_bytes fs"
    "data_geometry fs' = data_geometry fs"
    using d c s layout_eq(1) [OF assms]
    by (simp_all add: file_sects_def cluster_sects_def cluster_bytes_def data_geometry_def cong: map_cong)
qed

lemma vol_file_clusters: "vol_file fs cs \<Longrightarrow> clusters_ok fs cs"
  using chain_clusters_ok by (cases "cs = []") (auto simp: vol_file_def clusters_ok_def)

lemma vol_file_data: "vol_file fs cs \<Longrightarrow> s \<in> set (file_sects fs cs) \<Longrightarrow> data_sect fs s"
  using file_data_sect [OF _ vol_file_clusters [of fs cs], of s] by (auto simp: vol_file_def)

lemma vol_file_length: "vol_file fs cs \<Longrightarrow> length (disk fs s) = 512"
  by (simp add: vol_file_def fs_ready_def window_ok_def)

lemma vol_file_kept:
  assumes v: "vol_file fs cs" and k: "data_kept fs fs'" and f: "fatmap fs' = fatmap fs"
  shows "vol_file fs' cs" "s \<in> set (file_sects fs cs) \<Longrightarrow> disk fs' s = disk fs s"
proof -
  have l: "layout fs' = layout fs" using k by (simp add: data_kept_def)
  note e = layout_sects [OF l] layout_eq [OF l]
  have io: "io_ok fs" and g: "geometry fs" using v by (auto simp: vol_file_def fs_ready_def)
  have w: "winsect fs' = winsect fs \<or> in_fat1 fs (winsect fs')" using k io by (auto simp: data_kept_def)
  have nw: "winsect fs' \<notin> set (file_sects fs cs)" "winsect fs \<notin> set (file_sects fs cs)"
    using w v vol_file_data [OF v] data_not_fat [OF g] by (auto simp: vol_file_def)
  have "fs_ready fs'"
    using v e data_kept_mounted [OF k] by (auto simp: vol_file_def mounted_ready)
  then show "vol_file fs' cs"
    using v nw e f data_kept_geometry(2) [OF k] by (simp add: vol_file_def)
  assume s: "s \<in> set (file_sects fs cs)"
  have "view fs' s = view fs s"
    using k vol_file_data [OF v s] data_not_fat [OF g] by (auto simp: data_kept_def data_sect_def)
  moreover have "s \<noteq> winsect fs'" "s \<noteq> winsect fs" using s nw by auto
  ultimately show "disk fs' s = disk fs s" by (simp add: view_def)
qed

lemma vol_file_wrote:
  assumes v: "vol_file fs cs" and w: "wrote_data S fs fs'" and S: "S \<subseteq> set (file_sects fs cs)"
  shows "vol_file fs' cs" "layout fs' = layout fs" "fatmap fs' = fatmap fs" "s \<notin> S \<Longrightarrow> disk fs' s = disk fs s"
proof -
  have m: "mounted fs" "io_ok fs" using v by (auto simp: vol_file_def mounted_ready)
  have "data_sect fs s \<and> winsect fs \<noteq> s" if "s \<in> S" for s
    using that S v vol_file_data [OF v] by (auto simp: vol_file_def)
  note W = wrote_data_mounted [OF w this m(1)]
  show l: "layout fs' = layout fs" and "fatmap fs' = fatmap fs" and "s \<notin> S \<Longrightarrow> disk fs' s = disk fs s"
    using W by simp_all
  show "vol_file fs' cs"
    using v W layout_sects [OF l] layout_eq [OF l] layoutD(6) [OF l] by (simp add: vol_file_def mounted_ready)
qed

lemma io_count_wrote: "mounted fs \<Longrightarrow> wrote_data {} fs (fs\<lparr>io_count := n\<rparr>)"
  by (auto simp: wrote_data_def mounted_def window_ok_def intro!: exI [of _ n] exI [of _ "disk fs"])

subsection \<open>Slices\<close>

lemma raw_blocks:
  assumes "vol_file fs cs" and "length (buf fp) = 512"
  shows "length (raw fp fs cs) = cluster_bytes fs * length cs"
    and "drop (512 * q) (raw fp fs cs) = concat (map (sdata fp fs) (drop q (file_sects fs cs)))"
proof -
  have l: "length (sdata fp fs s) = 512" for s using assms vol_file_length by (simp add: sdata_def)
  show "length (raw fp fs cs) = cluster_bytes fs * length cs"
    unfolding raw_def by (subst length_blocks [where m = 512]) (simp_all add: l length_file_sects cluster_bytes_def)
  show "drop (512 * q) (raw fp fs cs) = concat (map (sdata fp fs) (drop q (file_sects fs cs)))"
    unfolding raw_def by (rule drop_blocks) (simp add: l)
qed

lemma slice_sector:
  assumes "vol_file fs cs" and "length (buf fp) = 512"
    and "q < length (file_sects fs cs)" and "r + n \<le> 512"
  shows "take n (drop (512 * q + r) (raw fp fs cs)) = take n (drop r (sdata fp fs (file_sects fs cs ! q)))"
proof -
  have l: "length (sdata fp fs s) = 512" for s using assms vol_file_length by (simp add: sdata_def)
  have "drop (512 * q + r) (raw fp fs cs) = drop r (drop (512 * q) (raw fp fs cs))" by (simp add: add.commute)
  also have "\<dots> = drop r (sdata fp fs (file_sects fs cs ! q) @ concat (map (sdata fp fs) (drop (Suc q) (file_sects fs cs))))"
    using raw_blocks(2) [OF assms(1,2)] Cons_nth_drop_Suc [OF assms(3), symmetric] by simp
  finally show ?thesis using assms(4) l by simp
qed

lemma slice_sectors:
  assumes "vol_file fs cs" and "length (buf fp) = 512"
  shows "take (512 * n) (drop (512 * q) (raw fp fs cs)) = concat (map (sdata fp fs) (take n (drop q (file_sects fs cs))))"
proof -
  have l: "length (sdata fp fs s) = 512" for s using assms vol_file_length by (simp add: sdata_def)
  show ?thesis unfolding raw_blocks(2) [OF assms] by (rule take_blocks) (simp add: l)
qed


subsection \<open>The position in the chain\<close>

lemma chain_nth: "chain f n c cs \<Longrightarrow> Suc i < length cs \<Longrightarrow> f (cs ! i) = cs ! Suc i"
proof (induction f n c cs arbitrary: i rule: chain.induct)
  case (3 f n c x y ys)
  then have "f c = y" using chain_hd by fastforce
  with 3 show ?case by (cases i) auto
qed auto

lemma pred_div: "0 < x \<Longrightarrow> 0 < (m :: nat) \<Longrightarrow> (x - 1) div m = (if x mod m = 0 then x div m - 1 else x div m)"
  using div_Suc [of "x - 1" m] mod_Suc [of "x - 1" m] by (auto split: if_splits)

text \<open>Where the file pointer is: the sector, its cluster, the sector of the cluster.\<close>

lemma position:
  assumes g: "data_geometry fs" and p: "x < cluster_bytes fs * length cs"
  shows "x div 512 < length (file_sects fs cs)"
    and "x div cluster_bytes fs < length cs"
    and "x div cluster_bytes fs = x div 512 div unat (csize fs)"
    and "file_sects fs cs ! (x div 512) =
      clst2sect fs (cs ! (x div cluster_bytes fs)) + of_nat (x div 512 mod unat (csize fs))"
proof -
  have m: "0 < unat (csize fs)" using data_geometryD(2) [OF g] .
  show q: "x div 512 < length (file_sects fs cs)"
    using p by (simp add: length_file_sects cluster_bytes_def less_mult_imp_div_less mult.commute mult.left_commute)
  show e: "x div cluster_bytes fs = x div 512 div unat (csize fs)"
    by (simp add: cluster_bytes_def div_mult2_eq)
  show "x div cluster_bytes fs < length cs"
    using p by (simp add: less_mult_imp_div_less mult.commute)
  show "file_sects fs cs ! (x div 512) =
      clst2sect fs (cs ! (x div cluster_bytes fs)) + of_nat (x div 512 mod unat (csize fs))"
    using q unfolding e by (intro file_sects_nth) (simp add: length_file_sects)
qed

lemma read_locate_ok:
  assumes f: "file_ok fp fs cs" and b: "unat (fptr fp) mod 512 = 0" "fptr fp < objsize fp"
  shows "\<exists>fs1. read_locate ((fptr fp div 512) AND (ucast (csize fs) - 1)) fp fs =
      (FR_OK, fp\<lparr>clust := cs ! (unat (fptr fp) div cluster_bytes fs)\<rparr>, fs1) \<and>
    data_kept fs fs1 \<and> fatmap fs1 = fatmap fs"
proof -
  define x where "x = unat (fptr fp)"
  define M where "M = cluster_bytes fs"
  define csect where "csect = (fptr fp div 512) AND (ucast (csize fs) - 1)"
  have v: "vol_file fs cs" and p: "pos_ok fp fs cs" using f by (auto simp: file_ok_def)
  have g: "data_geometry fs" and m: "mounted fs" and io: "io_ok fs"
    using v by (auto simp: vol_file_def mounted_ready)
  have M: "0 < M" using data_geometryD(2) [OF g] by (simp add: M_def cluster_bytes_def)
  have x: "x < M * length cs" using p b(2) by (simp add: pos_ok_def x_def M_def word_less_nat_alt)
  note pos = position [OF g x [unfolded M_def], folded M_def]
  have ne: "cs \<noteq> []" using x by auto
  then have ch: "chain (fatmap fs) (n_fatent fs) (hd cs) cs" using v by (simp add: vol_file_def)
  have cu: "unat csect = x div 512 mod unat (csize fs)"
    using csect_mod [OF g, of "fptr fp div 512"] by (simp add: csect_def x_def unat_div)
  have rd: "data_kept fs fs" using m by (simp add: data_kept_refl mounted_def)
  have zero: "csect = 0 \<longleftrightarrow> x mod M = 0"
  proof -
    have "x mod M = 512 * (x div 512 mod unat (csize fs)) + x mod 512"
      unfolding M_def cluster_bytes_def by (rule mod_mult2_eq)
    then show ?thesis using cu b(1) by (simp add: word_unat_eq_iff x_def)
  qed
  show ?thesis
  proof (cases "csect = 0")
    case False
    then have xm: "x mod M \<noteq> 0" using zero by simp
    then have "x \<noteq> 0" by (cases x) auto
    then have "x \<noteq> 0" "(x - 1) div M = x div M" using xm M pred_div [of x M] by auto
    then have "clust fp = cs ! (x div M)" using p by (auto simp: pos_ok_def x_def M_def word_unat_eq_iff)
    then have "read_locate csect fp fs = (FR_OK, fp\<lparr>clust := cs ! (x div M)\<rparr>, fs)"
      using False by (simp add: read_locate_def)
    then show ?thesis using rd by (auto simp: csect_def x_def M_def)
  next
    case True
    define c where "c = cs ! (x div M)"
    have cin: "2 \<le> c \<and> c < n_fatent fs" using chain_clusters [OF ch] pos(2) by (simp add: c_def)
    then have c: "\<not> c < 2" "c \<noteq> 0xFFFFFFFF"
      using unat_u32_less [of "n_fatent fs"] by (auto simp: word_less_nat_alt word_le_nat_alt)
    show ?thesis
    proof (cases "fptr fp = 0")
      case z: True
      then have "sclust fp = c" using p ne by (simp add: pos_ok_def c_def x_def hd_conv_nth)
      then have "read_locate csect fp fs = (FR_OK, fp\<lparr>clust := c\<rparr>, fs)"
        using True z c by (simp add: read_locate_def)
      then show ?thesis using rd by (auto simp: csect_def x_def M_def c_def)
    next
      case nz: False
      then have "0 < x" by (simp add: x_def word_unat_eq_iff)
      moreover have xm: "x mod M = 0" using zero True by simp
      ultimately have pd: "(x - 1) div M = x div M - 1" "0 < x div M"
        using M pred_div [of x M] by (auto simp: div_greater_zero_iff dest: mod_less)
      then have "clust fp = cs ! (x div M - 1)" using p nz by (simp add: pos_ok_def x_def M_def)
      moreover have "fatmap fs (cs ! (x div M - 1)) = c"
        using chain_nth [OF ch, of "x div M - 1"] pd(2) pos(2) by (simp add: c_def)
      ultimately have fc: "fatmap fs (clust fp) = c" by simp
      have kc: "2 \<le> clust fp" "clust fp < n_fatent fs"
        using fc c cin two_not_one by (auto simp: fatmap_def split: if_splits)
      obtain fs1 where "get_fat (clust fp) fs = (c, fs1)" "data_kept fs fs1" "fatmap fs1 = fatmap fs"
        using get_fat_cases [OF m kc] fc io by metis
      moreover from this have "read_locate csect fp fs = (FR_OK, fp\<lparr>clust := c\<rparr>, fs1)"
        using True nz c by (simp add: read_locate_def)
      ultimately show ?thesis by (auto simp: csect_def x_def M_def c_def)
    qed
  qed
qed


subsection \<open>One pass of the loop\<close>

lemma flag_clear [simp]: "(x AND - 129) AND 128 = (0 :: u8)"
proof -
  have "(x AND NOT 128) AND 128 = (0 :: u8)"
    by (rule bit_word_eqI) (auto simp only: bit_and_iff bit_not_iff bit_0_eq bot_apply bot_bool_def)
  then show ?thesis by simp
qed

text \<open>What a step leaves as it was.\<close>

definition same_file :: "fil \<Rightarrow> fatfs \<Rightarrow> u32 list \<Rightarrow> fil \<Rightarrow> fatfs \<Rightarrow> bool" where
  "same_file fp fs cs fp1 fs1 \<longleftrightarrow> objsize fp1 = objsize fp \<and> fptr fp1 = fptr fp \<and> sclust fp1 = sclust fp \<and>
     obj_id fp1 = obj_id fp \<and> err fp1 = err fp \<and> flag fp1 AND NOT FA_DIRTY = flag fp AND NOT FA_DIRTY \<and>
     vol_file fs1 cs \<and> buf_ok fp1 fs1 cs \<and> layout fs1 = layout fs \<and> fatmap fs1 = fatmap fs \<and>
     vol_id fs1 = vol_id fs \<and> raw fp1 fs1 cs = raw fp fs cs"

lemma same_file_trans: "same_file fp fs cs fp1 fs1 \<Longrightarrow> same_file fp1 fs1 cs fp2 fs2 \<Longrightarrow> same_file fp fs cs fp2 fs2"
  by (simp add: same_file_def)

lemma raw_cong:
  assumes "file_sects fs' cs = file_sects fs cs"
    and "\<And>s. s \<in> set (file_sects fs cs) \<Longrightarrow> sdata fp' fs' s = sdata fp fs s"
  shows "raw fp' fs' cs = raw fp fs cs"
  unfolding raw_def assms(1) by (simp add: assms(2) cong: map_cong)

lemma flush_buf_ok:
  assumes v: "vol_file fs cs" and b: "buf_ok fp fs cs"
  obtains fp2 fs2 where "flush_buf fp fs = (True, fp2, fs2)" and "same_file fp fs cs fp2 fs2" and "\<not> dirty fp2"
    and "clust fp2 = clust fp" and "sect fp2 = sect fp" and "buf fp2 = buf fp"
    and "\<And>s. s \<in> set (file_sects fs cs) \<Longrightarrow> disk fs2 s = sdata fp fs s"
proof (cases "dirty fp")
  case False
  show thesis
    by (rule that [of fp fs])
      (use False v b in \<open>auto simp: flush_buf_def dirty_def same_file_def buf_ok_def sdata_def\<close>)
next
  case True
  have io: "\<not> io_fail fs (io_count fs)" using v by (auto simp: vol_file_def fs_ready_def io_ok_def)
  define fs2 where "fs2 = fs\<lparr>io_count := io_count fs + 1, disk := (disk fs)(sect fp := buf fp)\<rparr>"
  define fp2 where "fp2 = fp\<lparr>flag := flag fp AND NOT FA_DIRTY\<rparr>"
  have fl: "flush_buf fp fs = (True, fp2, fs2)"
    using True io by (simp add: flush_buf_def dirty_def disk_write_sector_def fs2_def fp2_def)
  have bl: "length (buf fp) = 512" and si: "sect fp \<in> set (file_sects fs cs)"
    using b True by (auto simp: buf_ok_def)
  have "wrote_data {sect fp} fs fs2"
    unfolding wrote_data_def fs2_def
    using bl vol_file_length [OF v] by (intro exI [of _ "io_count fs + 1"] exI [of _ "(disk fs)(sect fp := buf fp)"]) auto
  from vol_file_wrote [OF v this] si
  have w: "vol_file fs2 cs" "layout fs2 = layout fs" "fatmap fs2 = fatmap fs" by auto
  have d: "disk fs2 s = sdata fp fs s" for s by (simp add: fs2_def sdata_def)
  have nd: "\<not> dirty fp2" by (simp add: fp2_def dirty_def)
  note e = layout_sects(1) [OF w(2)]
  have "same_file fp fs cs fp2 fs2"
    using w nd bl d e raw_cong [OF e, where fp' = fp2 and fp = fp]
    by (auto simp: same_file_def buf_ok_def fp2_def sdata_def) (simp_all add: fs2_def)
  then show thesis by (rule that [OF fl]) (use nd d in \<open>auto simp: fp2_def\<close>)
qed

text \<open>Advancing within the cluster.\<close>

lemma pos_advance:
  assumes "pos_ok fp fs cs" and "same_file fp fs cs fp1 fs1"
    and "unat (fptr fp) + n \<le> unat (objsize fp)" and "0 < n"
    and "clust fp1 = cs ! (unat (fptr fp) div cluster_bytes fs)"
    and "(unat (fptr fp) + n - 1) div cluster_bytes fs = unat (fptr fp) div cluster_bytes fs"
    and "(unat (fptr fp) + n) mod 512 \<noteq> 0 \<Longrightarrow> sect fp1 = file_sects fs cs ! ((unat (fptr fp) + n) div 512)"
  shows "file_ok (fp1\<lparr>fptr := fptr fp1 + of_nat n\<rparr>) fs1 cs"
    and "unat (fptr fp + of_nat n) = unat (fptr fp) + n"
proof -
  have lt: "unat (fptr fp) + n < 2 ^ 32" using assms(3) unat_u32_less [of "objsize fp"] by simp
  then have "unat (of_nat n :: u32) = n" by (simp add: unat_of_nat take_bit_nat_eq_self)
  then show u: "unat (fptr fp + of_nat n) = unat (fptr fp) + n" using lt by (simp add: unat_plus_if')
  have l: "layout fs1 = layout fs" using assms(2) by (simp add: same_file_def)
  have "pos_ok (fp1\<lparr>fptr := fptr fp1 + of_nat n\<rparr>) fs1 cs"
    using assms u layout_sects(1,2) [OF l] by (simp add: pos_ok_def same_file_def word_le_nat_alt)
  moreover have "buf_ok (fp1\<lparr>fptr := fptr fp1 + of_nat n\<rparr>) fs1 cs"
    using assms(2) by (simp add: same_file_def buf_ok_def dirty_def)
  ultimately show "file_ok (fp1\<lparr>fptr := fptr fp1 + of_nat n\<rparr>) fs1 cs"
    using assms(2) by (simp add: file_ok_def same_file_def)
qed

definition read_post :: "u32 \<Rightarrow> fil \<Rightarrow> fatfs \<Rightarrow> u32 list \<Rightarrow> u8 list \<Rightarrow> fil \<Rightarrow> fatfs \<Rightarrow> bool" where
  "read_post btr fp fs cs bs fp1 fs1 \<longleftrightarrow>
     same_file fp fs cs fp1 fs1 \<and> file_ok (fp1\<lparr>fptr := fptr fp1 + of_nat (length bs)\<rparr>) fs1 cs \<and>
     0 < length bs \<and> length bs \<le> unat btr \<and> bs = take (length bs) (drop (unat (fptr fp)) (raw fp fs cs))"

text \<open>Bytes out of the buffer, once it holds the sector of the file pointer.\<close>

lemma sector_span:
  assumes "0 < n" and "x mod 512 + n \<le> 512" and "x < cluster_bytes fs * length cs"
  shows "(x + n - 1) div cluster_bytes fs = x div cluster_bytes fs"
    and "(x + n) mod 512 \<noteq> 0 \<Longrightarrow> (x + n) div 512 = x div 512"
    and "x + n \<le> cluster_bytes fs * length cs"
proof -
  have same: "(x + n - 1) div 512 = x div 512"
  proof -
    have "x + n - 1 = 512 * (x div 512) + (x mod 512 + n - 1)" using assms(1) by simp
    moreover have "x mod 512 + n - 1 < 512" using assms(1,2) by simp
    ultimately show ?thesis by (metis div_mult_self4 div_less add_0_right zero_neq_numeral)
  qed
  then show "(x + n - 1) div cluster_bytes fs = x div cluster_bytes fs"
    by (simp add: cluster_bytes_def div_mult2_eq)
  show "(x + n) div 512 = x div 512" if "(x + n) mod 512 \<noteq> 0"
    using that same assms(1) pred_div [of "x + n" 512] by simp
  have "x div 512 < unat (csize fs) * length cs"
    using assms(3) by (simp add: cluster_bytes_def less_mult_imp_div_less mult.assoc mult.commute)
  then have "512 * Suc (x div 512) \<le> 512 * (unat (csize fs) * length cs)" by (intro mult_le_mono2) simp
  moreover have "512 * (x div 512) + x mod 512 + n \<le> 512 * (x div 512) + 512"
    using assms(2) by (simp only: add.assoc nat_add_left_cancel_le)
  then have "x + n \<le> 512 * Suc (x div 512)" unfolding mult_div_mod_eq by (simp only: mult_Suc_right add.commute)
  ultimately show "x + n \<le> cluster_bytes fs * length cs"
    unfolding cluster_bytes_def mult.assoc by (rule le_trans [rotated])
qed

lemma read_buffer_post:
  assumes p: "pos_ok fp fs cs" and v: "vol_file fs cs" and s: "same_file fp fs cs fp1 fs1"
    and btr: "0 < btr" "btr \<le> objsize fp - fptr fp"
    and cl: "clust fp1 = cs ! (unat (fptr fp) div cluster_bytes fs)"
    and se: "sect fp1 = file_sects fs cs ! (unat (fptr fp) div 512)"
  shows "read_post btr fp fs cs (read_buffer btr fp1) fp1 fs1"
proof -
  define x where "x = unat (fptr fp)"
  define n where "n = min (512 - x mod 512) (unat btr)"
  have le: "fptr fp \<le> objsize fp" using p by (simp add: pos_ok_def)
  have rem: "unat (objsize fp - fptr fp) = unat (objsize fp) - x" using le by (simp add: unat_sub x_def)
  have nb: "0 < n" "n \<le> unat btr" "x mod 512 + n \<le> 512" "x + n \<le> unat (objsize fp)"
    using btr rem le mod_less_divisor [of 512 x] by (auto simp: n_def word_less_nat_alt word_le_nat_alt x_def)
  have g: "data_geometry fs" using v by (simp add: vol_file_def)
  have xl: "x < cluster_bytes fs * length cs" using nb p by (simp add: pos_ok_def)
  note pos = position [OF g xl]
  have bl: "length (buf fp1) = 512" and v1: "vol_file fs1 cs" and r1: "raw fp1 fs1 cs = raw fp fs cs"
    and l: "layout fs1 = layout fs" and fp1: "fptr fp1 = fptr fp"
    using s by (auto simp: same_file_def buf_ok_def)
  note e = layout_sects(1) [OF l]
  have "unat (512 - fptr fp mod 512) = 512 - x mod 512"
    using mod_less_divisor [of 512 x] by (simp add: unat_sub word_le_nat_alt unat_mod x_def)
  then have rb: "read_buffer btr fp1 = take n (drop (x mod 512) (buf fp1))"
    by (auto simp: read_buffer_def Let_def n_def fp1 unat_mod x_def word_less_nat_alt min_def)
  have "take n (drop (512 * (x div 512) + x mod 512) (raw fp1 fs1 cs)) =
      take n (drop (x mod 512) (sdata fp1 fs1 (file_sects fs1 cs ! (x div 512))))"
    by (rule slice_sector [OF v1 bl]) (use pos(1) e nb(3) in simp_all)
  then have eq: "read_buffer btr fp1 = take n (drop x (raw fp fs cs))"
    using se e r1 rb by (simp add: sdata_def x_def)
  have len: "length (read_buffer btr fp1) = n" unfolding rb using bl nb(3) by simp
  note span = sector_span [OF nb(1,3) xl]
  have "file_ok (fp1\<lparr>fptr := fptr fp1 + of_nat n\<rparr>) fs1 cs"
    by (rule pos_advance [OF p s]) (use nb cl se span in \<open>simp_all add: x_def\<close>)
  then show ?thesis using s len eq nb by (simp add: read_post_def x_def)
qed


text \<open>Sectors straight from the disk, with the dirty one replaced.\<close>

lemma replace_block:
  assumes "\<And>i. length (f i) = m" and "k < n"
  shows "take (m * k) (concat (map f [0..<n])) @ b @ drop (m * k + m) (concat (map f [0..<n])) =
    concat (map (\<lambda>i. if i = k then b else f i) [0..<n])"
proof -
  have u: "[0..<n] = [0..<k] @ k # [Suc k..<n]"
    using assms(2) by (metis upt_add_eq_append[of 0 k "n - k"] le0 upt_conv_Cons le_add_diff_inverse less_imp_le_nat)
  have "take (m * k) (concat (map f [0..<n])) = concat (map f [0..<k])"
    using assms by (simp add: take_blocks take_upt)
  moreover have "drop (m * Suc k) (concat (map f [0..<n])) = concat (map f [Suc k..<n])"
    using assms(1) by (subst drop_blocks) simp_all
  then have "drop (m * k + m) (concat (map f [0..<n])) = concat (map f [Suc k..<n])" by (simp add: add.commute)
  moreover have "concat (map (\<lambda>i. if i = k then b else f i) [0..<n]) = concat (map f [0..<k]) @ b @ concat (map f [Suc k..<n])"
  proof -
    have "map (\<lambda>i. if i = k then b else f i) [0..<k] = map f [0..<k]"
      "map (\<lambda>i. if i = k then b else f i) [Suc k..<n] = map f [Suc k..<n]" by (rule map_cong; auto)+
    note e = this
    show ?thesis unfolding u map_append list.map concat_append concat.simps e by simp
  qed
  ultimately show ?thesis by simp
qed

lemma sects_run:
  assumes g: "data_geometry fs" and c: "j < length cs" and k: "k + n \<le> unat (csize fs)"
  shows "take n (drop (unat (csize fs) * j + k) (file_sects fs cs)) = map (\<lambda>i. clst2sect fs (cs ! j) + of_nat k + of_nat i) [0..<n]"
proof (rule nth_equalityI)
  define m where "m = unat (csize fs)"
  have le: "m * j + m \<le> m * length cs" using c mult_le_mono2 [of "Suc j" "length cs" m] by (simp add: add.commute)
  show l: "length (take n (drop (unat (csize fs) * j + k) (file_sects fs cs))) =
      length (map (\<lambda>i. clst2sect fs (cs ! j) + of_nat k + of_nat i :: u32) [0..<n])"
    using le k by (simp add: length_file_sects m_def)
  fix i assume "i < length (take n (drop (unat (csize fs) * j + k) (file_sects fs cs)))"
  then have i: "i < n" by simp
  then have r: "k + i < m" using k by (simp add: m_def)
  have "(m * j + k + i) div m = j" "(m * j + k + i) mod m = k + i"
    using r by (simp_all add: add.assoc)
  moreover have "m * j + k + i < m * length cs" using le r by simp
  ultimately have "file_sects fs cs ! (m * j + k + i) = clst2sect fs (cs ! j) + of_nat (k + i)"
    by (subst file_sects_nth) (simp_all add: m_def)
  then show "take n (drop (unat (csize fs) * j + k) (file_sects fs cs)) ! i =
      map (\<lambda>i. clst2sect fs (cs ! j) + of_nat k + of_nat i) [0..<n] ! i"
    using i l by (simp add: m_def add.assoc)
qed

lemma direct_data:
  assumes b: "buf_ok fp fs cs" and L: "\<And>s. length (disk fs s) = 512" and cc: "unat cc = n"
    and i: "\<And>i. i < n \<Longrightarrow> s + of_nat i \<in> set (file_sects fs cs)"
    and data: "data = concat (map (\<lambda>i. disk fs (s + of_nat i)) [0..<n])"
  shows "(if dirty fp \<and> sect fp - s < cc
      then take (512 * unat (sect fp - s)) data @ buf fp @ drop (512 * unat (sect fp - s) + 512) data else data) =
    concat (map (\<lambda>i. sdata fp fs (s + of_nat i)) [0..<n])"
proof (cases "dirty fp \<and> sect fp - s < cc")
  case True
  define k where "k = unat (sect fp - s)"
  have k: "k < n" using True cc by (simp add: k_def word_less_nat_alt)
  have n: "n < 2 ^ 32" using cc unat_u32_less [of cc] by simp
  have "sdata fp fs (s + of_nat i) = (if i = k then buf fp else disk fs (s + of_nat i))" if "i < n" for i
  proof -
    have "unat (of_nat i :: u32) = i" using that n by (simp add: unat_of_nat take_bit_nat_eq_self)
    moreover have "s + of_nat k = sect fp" by (simp add: k_def)
    ultimately have "s + of_nat i = sect fp \<longleftrightarrow> i = k"
      by (metis add_diff_cancel_left' k_def)
    then show ?thesis by (auto simp: sdata_def)
  qed
  then have "concat (map (\<lambda>i. sdata fp fs (s + of_nat i)) [0..<n]) =
      concat (map (\<lambda>i. if i = k then buf fp else disk fs (s + of_nat i)) [0..<n])"
    by (intro arg_cong [where f = concat] map_cong) auto
  then show ?thesis using True replace_block [where f = "\<lambda>i. disk fs (s + of_nat i)", OF L k, of "buf fp"]
    by (simp add: data k_def)
next
  case False
  have "sdata fp fs (s + of_nat i) = disk fs (s + of_nat i)" if il: "i < n" for i
  proof (cases "s + of_nat i = sect fp")
    case True
    have n: "n < 2 ^ 32" using cc unat_u32_less [of cc] by simp
    then have "unat (of_nat i :: u32) = i" using il by (simp add: unat_of_nat take_bit_nat_eq_self)
    moreover have "sect fp - s = of_nat i" using True by (metis add_diff_cancel_left')
    ultimately have "sect fp - s < cc" using il cc by (simp add: word_less_nat_alt)
    then have "\<not> dirty fp" using False by blast
    then have "buf fp = disk fs (sect fp)" using b i [OF il] True by (simp add: buf_ok_def)
    then show ?thesis using True by (simp add: sdata_def)
  qed (simp add: sdata_def)
  then have "map (\<lambda>i. sdata fp fs (s + of_nat i)) [0..<n] = map (\<lambda>i. disk fs (s + of_nat i)) [0..<n]" by auto
  then show ?thesis unfolding data using False by (simp only: if_False)
qed


lemma same_file_refl: "file_ok fp fs cs \<Longrightarrow> same_file fp fs cs fp fs"
  by (simp add: same_file_def file_ok_def)

lemma same_file_located:
  assumes f: "file_ok fp fs cs" and k: "data_kept fs fs1" and m: "fatmap fs1 = fatmap fs"
  shows "same_file fp fs cs (fp\<lparr>clust := c\<rparr>) fs1"
proof -
  have v: "vol_file fs cs" and b: "buf_ok fp fs cs" using f by (auto simp: file_ok_def)
  have l: "layout fs1 = layout fs" using k by (simp add: data_kept_def)
  note e = layout_sects(1) [OF l]
  note d = vol_file_kept [OF v k m]
  have "raw (fp\<lparr>clust := c\<rparr>) fs1 cs = raw fp fs cs"
    by (rule raw_cong [OF e]) (simp add: sdata_def d(2))
  then show ?thesis using d b l e m layoutD(13) [OF l] by (auto simp: same_file_def buf_ok_def dirty_def)
qed


text \<open>The sectors of one transfer: from the file pointer on, within the cluster.\<close>

lemma sector_run:
  assumes g: "data_geometry fs" and al: "unat p mod 512 = 0" and xl: "unat p < cluster_bytes fs * length cs"
    and cs: "csect = (p div 512) AND (ucast (csize fs) - 1)"
    and s: "s = clst2sect fs (cs ! (unat p div cluster_bytes fs)) + csect"
  shows "s = file_sects fs cs ! (unat p div 512)"
    and "\<lbrakk>0 < k div 512; cc = (if csect + k div 512 > ucast (csize fs) then ucast (csize fs) - csect else k div 512)\<rbrakk>
      \<Longrightarrow> 0 < unat cc \<and> 512 * unat cc \<le> unat k \<and> unat p + 512 * unat cc \<le> cluster_bytes fs * length cs \<and>
        (unat p + 512 * unat cc - 1) div cluster_bytes fs = unat p div cluster_bytes fs \<and>
        take (unat cc) (drop (unat p div 512) (file_sects fs cs)) = map (\<lambda>i. s + of_nat i) [0..<unat cc]"
proof -
  define x where "x = unat p"
  define m where "m = unat (csize fs)"
  note pos = position [OF g xl]
  have m0: "0 < m" "m \<le> 2 ^ 15" using data_geometryD(2,3) [OF g] by (simp_all add: m_def)
  have cu: "unat csect = x div 512 mod m"
    using csect_mod [OF g, of "p div 512"] by (simp add: cs x_def unat_div m_def)
  have "csect = of_nat (x div 512 mod m)" by (simp add: cu [symmetric])
  then show "s = file_sects fs cs ! (unat p div 512)" using pos(4) by (simp add: s m_def x_def)
  assume k: "0 < k div 512" and cc: "cc = (if csect + k div 512 > ucast (csize fs) then ucast (csize fs) - csect else k div 512)"
  define n where "n = min (m - unat csect) (unat k div 512)"
  have cm: "unat csect < m" using cu m0 by simp
  have b23: "unat k div 512 < 2 ^ 23" using unat_u32_less [of k] by (simp add: div_less_iff_less_mult)
  have sum: "unat (csect + k div 512) = unat csect + unat k div 512"
    using cm m0 b23 by (simp add: unat_plus_if' unat_div)
  have uc: "unat (ucast (csize fs) :: u32) = m" using csize_u32 [of fs] by (simp add: m_def)
  have ccn: "unat cc = n"
    using sum uc cm by (auto simp: cc n_def word_less_nat_alt unat_sub word_le_nat_alt unat_div min_def)
  have n: "0 < n" "n \<le> unat k div 512" "unat csect + n \<le> m"
    using k cm by (auto simp: n_def word_less_nat_alt unat_div)
  define j where "j = x div cluster_bytes fs"
  have jl: "j < length cs" using pos(2) by (simp add: j_def x_def)
  have q: "x div 512 = m * j + unat csect"
    unfolding j_def cu x_def pos(3) m_def [symmetric] by (simp only: mult_div_mod_eq)
  have q2: "512 * (x div 512) = x" using al by (metis mult_div_mod_eq add_0_right x_def)
  have run: "take n (drop (x div 512) (file_sects fs cs)) = map (\<lambda>i. s + of_nat i) [0..<n]"
    using sects_run [OF g, of j cs "unat csect" n] jl n(3) q by (simp add: j_def m_def s x_def)
  have b512: "512 * n \<le> unat k" using n(2) by linarith
  have xe: "x = cluster_bytes fs * j + 512 * unat csect"
    using q q2 by (simp add: cluster_bytes_def m_def algebra_simps)
  have fit: "512 * unat csect + 512 * n \<le> cluster_bytes fs" using n(3) by (simp add: cluster_bytes_def m_def)
  have "cluster_bytes fs * Suc j \<le> cluster_bytes fs * length cs" using jl by (intro mult_le_mono2) simp
  then have le: "x + 512 * n \<le> cluster_bytes fs * length cs" using xe fit by simp
  have "(x + 512 * n - 1) div cluster_bytes fs = j"
  proof -
    have "x + 512 * n - 1 = cluster_bytes fs * j + (512 * unat csect + 512 * n - 1)" using xe n(1) by simp
    moreover have "512 * unat csect + 512 * n - 1 < cluster_bytes fs" using fit n(1) by simp
    ultimately show ?thesis by (metis div_mult_self4 div_less add_0_right not_less_zero)
  qed
  then show "0 < unat cc \<and> 512 * unat cc \<le> unat k \<and> unat p + 512 * unat cc \<le> cluster_bytes fs * length cs \<and>
        (unat p + 512 * unat cc - 1) div cluster_bytes fs = unat p div cluster_bytes fs \<and>
        take (unat cc) (drop (unat p div 512) (file_sects fs cs)) = map (\<lambda>i. s + of_nat i) [0..<unat cc]"
    using n(1) b512 le run by (simp add: ccn x_def j_def)
qed

lemma run_member:
  assumes "take n (drop q ss) = map f [0..<n]" and "i < n"
  shows "f i \<in> set ss"
proof -
  have "f i \<in> set (take n (drop q ss))" using assms by simp
  then show ?thesis by (auto dest: in_set_takeD in_set_dropD)
qed

text \<open>Another sector in the buffer, after the dirty one is written back.\<close>

lemma reload_ok:
  assumes v: "vol_file fs cs" and b: "buf_ok fp fs cs"
  obtains fp1 fs1 d fs2 where "flush_buf fp fs = (True, fp1, fs1)" and "disk_read_sector s fs1 = (Some d, fs2)"
    and "same_file fp fs cs (fp1\<lparr>buf := d, sect := s\<rparr>) fs2" and "clust fp1 = clust fp"
proof -
  obtain fp1 fs1 where fl: "flush_buf fp fs = (True, fp1, fs1)" and s1: "same_file fp fs cs fp1 fs1"
    and nd: "\<not> dirty fp1" and cl: "clust fp1 = clust fp"
    and d1: "\<And>t. t \<in> set (file_sects fs cs) \<Longrightarrow> disk fs1 t = sdata fp fs t"
    by (rule flush_buf_ok [OF v b]) blast
  have v1: "vol_file fs1 cs" and l1: "layout fs1 = layout fs" using s1 by (auto simp: same_file_def)
  have io: "\<not> io_fail fs1 n" for n using v1 by (auto simp: vol_file_def fs_ready_def io_ok_def)
  define fs2 where "fs2 = fs1\<lparr>io_count := io_count fs1 + 1\<rparr>"
  define fp2 where "fp2 = fp1\<lparr>buf := disk fs1 s, sect := s\<rparr>"
  have rd: "disk_read_sector s fs1 = (Some (disk fs1 s), fs2)" using io by (simp add: disk_read_sector_def fs2_def)
  have m1: "mounted fs1" using v1 by (auto simp: vol_file_def mounted_ready)
  note w = vol_file_wrote [OF v1 io_count_wrote [OF m1, of "io_count fs1 + 1"], folded fs2_def, simplified]
  have e2: "file_sects fs2 cs = file_sects fs cs" using layout_sects(1) w(2) l1 by metis
  have "raw fp2 fs2 cs = raw fp fs cs"
    by (rule raw_cong [OF e2]) (auto simp: sdata_def fp2_def fs2_def d1)
  then have "same_file fp fs cs fp2 fs2"
    using s1 w l1 nd vol_file_length [OF v1]
    by (auto simp: same_file_def buf_ok_def fp2_def dirty_def) (simp_all add: fs2_def)
  then show thesis using that [OF fl rd] cl by (simp add: fp2_def)
qed

lemma read_step_ok:
  assumes f: "file_ok fp fs cs" and btr: "0 < btr" "btr \<le> objsize fp - fptr fp"
  shows "\<exists>bs fp1 fs1. read_step btr fp fs = (Inr bs, fp1, fs1) \<and> read_post btr fp fs cs bs fp1 fs1"
proof -
  define x where "x = unat (fptr fp)"
  define m where "m = unat (csize fs)"
  have v: "vol_file fs cs" and b: "buf_ok fp fs cs" and p: "pos_ok fp fs cs" using f by (auto simp: file_ok_def)
  have g: "data_geometry fs" using v by (simp add: vol_file_def)
  have le: "fptr fp \<le> objsize fp" using p by (simp add: pos_ok_def)
  have rem: "unat (objsize fp - fptr fp) = unat (objsize fp) - x" using le by (simp add: unat_sub x_def)
  have bu: "0 < unat btr" "x + unat btr \<le> unat (objsize fp)"
    using btr rem le by (auto simp: word_less_nat_alt word_le_nat_alt x_def)
  have lt: "fptr fp < objsize fp" using bu by (simp add: word_less_nat_alt x_def)
  have xl: "x < cluster_bytes fs * length cs" using bu p by (simp add: pos_ok_def)
  note pos = position [OF g xl]
  define c where "c = cs ! (x div cluster_bytes fs)"
  have m0: "0 < m" "m \<le> 2 ^ 15" using data_geometryD(2,3) [OF g] by (simp_all add: m_def)
  show ?thesis
  proof (cases "x mod 512 = 0")
    case False
    then have fm: "fptr fp mod 512 \<noteq> 0" by (simp add: x_def word_unat_eq_iff unat_mod)
    have x0: "0 < x" using False by (cases x) auto
    have "x mod cluster_bytes fs \<noteq> 0"
      using False by (simp add: cluster_bytes_def mod_mult2_eq)
    then have "(x - 1) div cluster_bytes fs = x div cluster_bytes fs"
      using x0 m0 pred_div [of x "cluster_bytes fs"] by (simp add: cluster_bytes_def m_def)
    then have cl: "clust fp = cs ! (x div cluster_bytes fs)" and se: "sect fp = file_sects fs cs ! (x div 512)"
      using p False x0 by (auto simp: pos_ok_def x_def word_unat_eq_iff)
    have "read_step btr fp fs = (Inr (read_buffer btr fp), fp, fs)" using fm by (simp add: read_step_def)
    then show ?thesis
      using read_buffer_post [OF p v same_file_refl [OF f] btr] cl se by (auto simp: x_def)
  next
    case al: True
    then have fm: "fptr fp mod 512 = 0" by (simp add: x_def word_unat_eq_iff unat_mod)
    define csect where "csect = (fptr fp div 512) AND (ucast (csize fs) - 1)"
    obtain fs1 where loc: "read_locate csect fp fs = (FR_OK, fp\<lparr>clust := c\<rparr>, fs1)"
      and k1: "data_kept fs fs1" and f1: "fatmap fs1 = fatmap fs"
      using read_locate_ok [OF f _ lt] al by (auto simp: csect_def x_def c_def)
    define fp1 where "fp1 = fp\<lparr>clust := c\<rparr>"
    have s1: "same_file fp fs cs fp1 fs1" unfolding fp1_def by (rule same_file_located [OF f k1 f1])
    have v1: "vol_file fs1 cs" and b1: "buf_ok fp1 fs1 cs" and l1: "layout fs1 = layout fs"
      using s1 by (auto simp: same_file_def)
    note e1 = layout_sects [OF l1]
    have io1: "\<not> io_fail fs1 n" for n using v1 by (auto simp: vol_file_def fs_ready_def io_ok_def)
    define s where "s = clst2sect fs c + csect"
    have cin: "2 \<le> c" "c < n_fatent fs"
      using vol_file_clusters [OF v] nth_mem [OF pos(2)] by (auto simp: clusters_ok_def c_def)
    have base: "clst2sect fs1 c \<noteq> 0" using clst2sect_nonzero [OF g cin] e1 by simp
    note run_at = sector_run [OF g al [unfolded x_def] xl [unfolded x_def] csect_def s_def [unfolded c_def x_def], folded x_def]
    note sq = run_at(1)
    have step: "read_step btr fp fs = read_sector btr csect s fp1 fs1"
      using base e1 loc by (simp add: read_step_def fm csect_def [symmetric] fp1_def s_def)
    show ?thesis
    proof (cases "btr div 512 > 0")
      case direct: True
      define cc where "cc = (if csect + btr div 512 > ucast (csize fs1) then ucast (csize fs1) - csect else btr div 512)"
      define n where "n = unat cc"
      have cce: "cc = (if csect + btr div 512 > ucast (csize fs) then ucast (csize fs) - csect else btr div 512)"
        using e1(4) by (simp add: cc_def)
      note rn = run_at(2) [OF direct cce, folded n_def]
      define data where "data = concat (map (\<lambda>i. disk fs1 (s + of_nat i)) [0..<n])"
      have rd: "disk_read_sectors s cc fs1 = (Some data, fs1\<lparr>io_count := io_count fs1 + 1\<rparr>)"
        using io1 by (simp add: disk_read_sectors_def n_def data_def)
      define fs2 where "fs2 = fs1\<lparr>io_count := io_count fs1 + 1\<rparr>"
      define out where "out = (if dirty fp1 \<and> sect fp1 - s < cc
        then take (512 * unat (sect fp1 - s)) data @ buf fp1 @ drop (512 * unat (sect fp1 - s) + 512) data else data)"
      have st: "read_step btr fp fs = (Inr out, fp1, fs2)"
        using direct rd unfolding step read_sector_def
        by (simp add: cc_def [symmetric] out_def dirty_def Let_def fs2_def)
      have q2: "512 * (x div 512) = x" using al by (metis mult_div_mod_eq add_0_right)
      have run: "take n (drop (x div 512) (file_sects fs cs)) = map (\<lambda>i. s + of_nat i) [0..<n]" using rn by simp
      have mem: "s + of_nat i \<in> set (file_sects fs1 cs)" if "i < n" for i
        using run_member [OF run that] e1(1) by simp
      have r1: "raw fp1 fs1 cs = raw fp fs cs" and bl: "length (buf fp1) = 512" using s1 by (auto simp: same_file_def buf_ok_def)
      have "out = concat (map (\<lambda>i. sdata fp1 fs1 (s + of_nat i)) [0..<n])"
        unfolding out_def by (rule direct_data [OF b1 vol_file_length [OF v1] n_def [symmetric] mem data_def])
      also have "\<dots> = concat (map (sdata fp1 fs1) (take n (drop (x div 512) (file_sects fs1 cs))))"
        unfolding e1(1) run by (simp add: comp_def)
      finally have out: "out = take (512 * n) (drop x (raw fp fs cs))"
        using slice_sectors [OF v1 bl, of n "x div 512"] q2 r1 by simp
      have b512: "512 * n \<le> unat btr" using rn by simp
      have len: "length out = 512 * n"
      proof -
        have "x + 512 * n \<le> cluster_bytes fs * length cs" using b512 bu p unfolding pos_ok_def by linarith
        then show ?thesis using out raw_blocks(1) [OF v1 bl] r1 e1(2) by simp
      qed
      have m1: "mounted fs1" using v1 by (auto simp: vol_file_def mounted_ready)
      note w = vol_file_wrote [OF v1 io_count_wrote [OF m1, of "io_count fs1 + 1"], folded fs2_def, simplified]
      have e3: "file_sects fs2 cs = file_sects fs1 cs" using layout_sects(1) w(2) by metis
      have "raw fp1 fs2 cs = raw fp1 fs1 cs"
        by (rule raw_cong [OF e3]) (simp add: sdata_def fs2_def)
      then have s2: "same_file fp fs cs fp1 fs2"
        using s1 w e3 by (auto simp: same_file_def buf_ok_def fs2_def)
      have "file_ok (fp1\<lparr>fptr := fptr fp1 + of_nat (512 * n)\<rparr>) fs2 cs"
        by (rule pos_advance(1) [OF p s2])
          (use bu rn al in \<open>simp_all add: fp1_def c_def x_def\<close>)
      then have "read_post btr fp fs cs out fp1 fs2"
        using s2 len out rn by (simp add: read_post_def x_def)
      with st show ?thesis by blast
    next
      case small: False
      show ?thesis
      proof (cases "sect fp1 = s")
        case True
        then have e: "fp1\<lparr>sect := s\<rparr> = fp1" by (cases fp1) simp
        have st: "read_step btr fp fs = (Inr (read_buffer btr fp1), fp1, fs1)"
          using True small unfolding step read_sector_def Let_def e by simp
        have "read_post btr fp fs cs (read_buffer btr fp1) fp1 fs1"
          by (rule read_buffer_post [OF p v s1 btr]) (use True sq in \<open>simp_all add: fp1_def c_def x_def\<close>)
        with st show ?thesis by blast
      next
        case ns: False
        obtain fp2 fs2 d fs3 where fl: "flush_buf fp1 fs1 = (True, fp2, fs2)" "disk_read_sector s fs2 = (Some d, fs3)"
          and s3: "same_file fp1 fs1 cs (fp2\<lparr>buf := d, sect := s\<rparr>) fs3" and cl2: "clust fp2 = clust fp1"
          by (rule reload_ok [OF v1 b1])
        define fp3 where "fp3 = fp2\<lparr>buf := d, sect := s\<rparr>"
        have st: "read_step btr fp fs = (Inr (read_buffer btr fp3), fp3, fs3)"
          using small ns fl unfolding step by (simp add: read_sector_def Let_def fp3_def)
        have "read_post btr fp fs cs (read_buffer btr fp3) fp3 fs3"
          by (rule read_buffer_post [OF p v same_file_trans [OF s1 s3 [folded fp3_def]] btr])
            (use sq cl2 in \<open>simp_all add: fp3_def fp1_def c_def x_def\<close>)
        with st show ?thesis by blast
      qed
    qed
  qed
qed

subsection \<open>The loop\<close>

lemma raw_fptr [simp]: "raw (fp\<lparr>fptr := x\<rparr>) = raw fp"
proof -
  have "sdata (fp\<lparr>fptr := x\<rparr>) = sdata fp" by (intro ext) (simp add: sdata_def)
  then show ?thesis by (simp add: raw_def [abs_def])
qed

lemma f_read_loop_ok:
  assumes "file_ok fp fs cs" and "btr \<le> objsize fp - fptr fp"
  shows "\<exists>fp' fs'. f_read_loop btr acc fp fs =
      Some (FR_OK, acc @ take (unat btr) (drop (unat (fptr fp)) (raw fp fs cs)), fp', fs') \<and>
    same_file (fp\<lparr>fptr := fptr fp + btr\<rparr>) fs cs fp' fs' \<and> file_ok fp' fs' cs"
  using assms
proof (induction "unat btr" arbitrary: btr acc fp fs rule: less_induct)
  case less
  show ?case
  proof (cases "btr = 0")
    case True
    then show ?thesis using same_file_refl [OF less(2)] less(2) by (simp add: f_read_loop.simps)
  next
    case False
    then have "0 < btr" by (simp add: word_gt_0)
    then obtain bs fp1 fs1 where st: "read_step btr fp fs = (Inr bs, fp1, fs1)"
      and s: "same_file fp fs cs fp1 fs1" and f: "file_ok (fp1\<lparr>fptr := fptr fp1 + of_nat (length bs)\<rparr>) fs1 cs"
      and len: "0 < length bs" "length bs \<le> unat btr"
      and bs: "bs = take (length bs) (drop (unat (fptr fp)) (raw fp fs cs))"
      using read_step_ok [OF less(2) _ less(3)] by (auto simp: read_post_def)
    define k :: u32 where "k = of_nat (length bs)"
    have "length bs < 2 ^ 32" using len(2) unat_u32_less [of btr] by simp
    then have uk: "unat k = length bs" by (simp add: k_def unat_of_nat take_bit_nat_eq_self)
    have le: "fptr fp \<le> objsize fp" using less(2) by (simp add: file_ok_def pos_ok_def)
    have sz: "unat (fptr fp) + unat btr \<le> unat (objsize fp)"
      using less(3) le by (simp add: word_le_nat_alt unat_sub)
    have ub: "unat (btr - k) = unat btr - length bs" using uk len(2) by (simp add: unat_sub word_le_nat_alt)
    define fp2 where "fp2 = fp1\<lparr>fptr := fptr fp1 + k\<rparr>"
    have fld: "objsize fp2 = objsize fp" "fptr fp2 = fptr fp + k" using s by (simp_all add: fp2_def same_file_def)
    have uf: "unat (fptr fp2) = unat (fptr fp) + length bs"
      using sz len(2) uk fld(2) unat_u32_less [of "objsize fp"] by (simp add: unat_plus_if')
    have "btr - k \<le> objsize fp2 - fptr fp2"
      using sz uf fld(1) ub len(2) by (simp add: word_le_nat_alt unat_sub)
    moreover have "unat (btr - k) < unat btr" using ub len by linarith
    ultimately obtain fp' fs' where l: "f_read_loop (btr - k) (acc @ bs) fp2 fs1 =
        Some (FR_OK, (acc @ bs) @ take (unat (btr - k)) (drop (unat (fptr fp2)) (raw fp2 fs1 cs)), fp', fs')"
      and s': "same_file (fp2\<lparr>fptr := fptr fp2 + (btr - k)\<rparr>) fs1 cs fp' fs'" and f': "file_ok fp' fs' cs"
      using less(1) [of "btr - k" fp2 fs1 "acc @ bs"] f by (auto simp: fp2_def k_def)
    have r: "raw fp2 fs1 cs = raw fp fs cs" using s by (simp add: same_file_def fp2_def)
    have "bs @ take (unat btr - length bs) (drop (length bs) (drop (unat (fptr fp)) (raw fp fs cs))) =
        take (unat btr) (drop (unat (fptr fp)) (raw fp fs cs))"
      using bs len(2) by (metis take_add le_add_diff_inverse)
    then have "f_read_loop btr acc fp fs =
        Some (FR_OK, acc @ take (unat btr) (drop (unat (fptr fp)) (raw fp fs cs)), fp', fs')"
      using l False st r ub uf by (simp add: f_read_loop.simps [of btr] fp2_def k_def add.commute)
    moreover have "same_file (fp\<lparr>fptr := fptr fp + btr\<rparr>) fs cs fp' fs'"
      using s s' r by (simp add: same_file_def fp2_def)
    ultimately show ?thesis using f' by blast
  qed
qed

lemma f_read_ok:
  assumes "file_ok fp fs cs" and "obj_id fp = Some (vol_id fs)" and "err fp = FR_OK"
    and "flag fp AND FA_READ \<noteq> 0" and "stat AND STA_NOINIT = 0"
  shows "\<exists>fp' fs'. f_read True stat btr fp fs =
      Some (FR_OK, take (unat btr) (drop (unat (fptr fp)) (content fp fs cs)), fp', fs') \<and>
    same_file (fp\<lparr>fptr := fptr fp + (if btr > objsize fp - fptr fp then objsize fp - fptr fp else btr)\<rparr>) fs cs fp' fs' \<and>
    file_ok fp' fs' cs"
proof -
  define n where "n = (if btr > objsize fp - fptr fp then objsize fp - fptr fp else btr)"
  have v: "vol_file fs cs" and p: "pos_ok fp fs cs" using assms(1) by (auto simp: file_ok_def)
  have "fs_type fs \<noteq> FS_NONE" using v by (auto simp: vol_file_def fs_ready_def geometry_def)
  then have r: "f_read True stat btr fp fs = f_read_loop n [] fp fs"
    using assms by (simp add: f_read_def validate_def n_def)
  have "n \<le> objsize fp - fptr fp" by (auto simp: n_def)
  from f_read_loop_ok [OF assms(1) this, of "[]"] obtain fp' fs' where
    l: "f_read_loop n [] fp fs = Some (FR_OK, take (unat n) (drop (unat (fptr fp)) (raw fp fs cs)), fp', fs')"
    and s: "same_file (fp\<lparr>fptr := fptr fp + n\<rparr>) fs cs fp' fs'" and f: "file_ok fp' fs' cs" by auto
  have "fptr fp \<le> objsize fp" using p by (simp add: pos_ok_def)
  then have "unat n = min (unat btr) (unat (objsize fp) - unat (fptr fp))"
    by (auto simp: n_def word_less_nat_alt unat_sub)
  then have "take (unat n) (drop (unat (fptr fp)) (raw fp fs cs)) =
      take (unat btr) (drop (unat (fptr fp)) (content fp fs cs))"
    by (simp add: content_def drop_take min.commute)
  then show ?thesis using r l s f by (simp add: n_def [symmetric])
qed

lemma content_length: "file_ok fp fs cs \<Longrightarrow> length (content fp fs cs) = unat (objsize fp)"
  using raw_blocks(1) [of fs cs fp] by (auto simp: content_def file_ok_def buf_ok_def pos_ok_def)

text \<open>
  C21: reading refines the abstract file. On a consistent volume and file, \<open>f_read\<close> always
  returns; it stores exactly the bytes of the file from the file pointer on, as many as asked
  for and no more than there are, advances the pointer by their number, and leaves the content
  and the consistency of the file as they were.
\<close>

theorem f_read_refines:
  assumes "file_ok fp fs cs" and "obj_id fp = Some (vol_id fs)" and "err fp = FR_OK"
    and "flag fp AND FA_READ \<noteq> 0" and "stat AND STA_NOINIT = 0"
  shows "case f_read True stat btr fp fs of
      None \<Rightarrow> False
    | Some (res, data, fp', fs') \<Rightarrow>
        res = FR_OK \<and> data = take (unat btr) (drop (unat (fptr fp)) (content fp fs cs)) \<and>
        unat (fptr fp') = unat (fptr fp) + length data \<and>
        file_ok fp' fs' cs \<and> content fp' fs' cs = content fp fs cs \<and> objsize fp' = objsize fp"
proof -
  define n where "n = (if btr > objsize fp - fptr fp then objsize fp - fptr fp else btr)"
  obtain fp' fs' where r: "f_read True stat btr fp fs =
      Some (FR_OK, take (unat btr) (drop (unat (fptr fp)) (content fp fs cs)), fp', fs')"
    and s: "same_file (fp\<lparr>fptr := fptr fp + n\<rparr>) fs cs fp' fs'" and f: "file_ok fp' fs' cs"
    using f_read_ok [OF assms, of btr] by (auto simp: n_def)
  have le: "unat (fptr fp) \<le> unat (objsize fp)" using assms(1) by (simp add: file_ok_def pos_ok_def word_le_nat_alt)
  then have un: "unat n = min (unat btr) (unat (objsize fp) - unat (fptr fp))"
    by (auto simp: n_def word_less_nat_alt unat_sub word_le_nat_alt)
  then have "unat n \<le> unat (objsize fp) - unat (fptr fp)" by simp
  then have "unat (fptr fp) + unat n < 2 ^ 32" using le unat_u32_less [of "objsize fp"] by simp
  then have "unat (fptr fp + n) = unat (fptr fp) + unat n" by (simp add: unat_plus_if')
  then show ?thesis
    using r s f un content_length [OF assms(1)] by (simp add: same_file_def content_def min.commute)
qed

lemma demo_links_file: "vol_file (demo_links 3 0xFFFF) [2, 3]" "vol_id (demo_links 3 0xFFFF) = 1"
  "csize (demo_links 3 0xFFFF) = 1" "file_sects (demo_links 3 0xFFFF) [2, 3] = [4, 5]"
  "data_sect (demo_links 3 0xFFFF) s \<Longrightarrow> s \<noteq> winsect (demo_links 3 0xFFFF) \<and> s \<noteq> 0"
proof -
  define D where "D = demo_fs FS_FAT16"
  have r: "fs_ready D" by (simp add: D_def demo_ready)
  have n: "n_fatent D = 10" by (simp add: D_def)
  have m: "mounted D" "io_ok D" using r by (auto simp: mounted_ready)
  obtain F where p: "put_fat 2 3 D = (FR_OK, F)" and k: "data_kept D F" and c: "cfg F = cfg D"
    by (rule put_fat_cases [OF m(1), of 2 3]) (use n m(2) in auto)
  have F: "mounted F" "io_ok F" "n_fatent F = 10"
    using data_kept_mounted [OF k m(1)] data_kept_geometry(3) [OF k] m(2) cfgD(9) [OF c] n by auto
  obtain G where q: "put_fat 3 0xFFFF F = (FR_OK, G)" and k2: "data_kept F G"
    by (rule put_fat_cases [OF F(1), of 3 "0xFFFF"]) (use F(2,3) in auto)
  have G: "demo_links 3 0xFFFF = G" using p q by (simp add: demo_links_def D_def)
  have dk: "data_kept D G" by (rule data_kept_trans [OF k k2])
  then have l: "layout G = layout D" by (simp add: data_kept_def)
  have e: "\<not> (8 :: u32) \<le> 1" by (simp add: word_le_nat_alt)
  have D: "data_geometry D" "csize D = 1" "file_sects D [2, 3] = [4, 5]" "vol_id D = 1" "geometry D"
    using r e by (auto simp: D_def data_geometry_def fs_ready_def file_sects_def cluster_sects_def clst2sect_def
        demo_fs_def Let_def intro: exI [of _ 0])
  have w: "winsect G = 0xFFFFFFFF \<or> in_fat1 D (winsect G)"
    using dk m(2) by (auto simp: data_kept_def D_def demo_fs_def)
  then have "winsect G \<notin> {4, 5}" by (auto simp: in_fat1_def D_def demo_fs_def)
  then show "vol_file (demo_links 3 0xFFFF) [2, 3]" "vol_id (demo_links 3 0xFFFF) = 1"
    "csize (demo_links 3 0xFFFF) = 1" "file_sects (demo_links 3 0xFFFF) [2, 3] = [4, 5]"
    using D layout_sects [OF l] layoutD [OF l] demo_links [of 3 "0xFFFF"]
    by (simp_all add: vol_file_def G)
  assume "data_sect (demo_links 3 0xFFFF) s"
  then have s: "data_sect D s" using layoutD(11) [OF l] by (simp add: G data_sect_def)
  then have "s \<noteq> 0xFFFFFFFF" "s \<noteq> 0" by (auto simp: data_sect_def D_def demo_fs_def)
  then show "s \<noteq> winsect (demo_links 3 0xFFFF) \<and> s \<noteq> 0"
    using w data_not_fat(1) [OF D(5) s] by (auto simp: G)
qed

text \<open>A file of 600 bytes in the two clusters, its pointer at 0.\<close>

definition demo_fil :: fil where
  "demo_fil = \<lparr>obj_id = Some 1, sclust = 2, objsize = 600, lockid = 0, flag = FA_READ, err = FR_OK, fptr = 0,
     clust = 0, sect = 0, dir_sect = 3, dir_ofs = 0, buf = replicate 512 0\<rparr>"

theorem f_read_refines_witness:
  "case f_read True 0 1000 demo_fil (demo_links 3 0xFFFF) of
      None \<Rightarrow> False | Some (res, data, fp', fs') \<Rightarrow> res = FR_OK \<and> length data = 600"
proof -
  define F where "F = demo_links 3 0xFFFF"
  have v: "vol_file F [2, 3]" "vol_id F = 1" "csize F = 1" "file_sects F [2, 3] = [4, 5]"
    using demo_links_file by (simp_all add: F_def)
  have b: "length (buf demo_fil) = 512" by (simp add: demo_fil_def)
  have f: "file_ok demo_fil F [2, 3]"
    using v by (simp add: file_ok_def buf_ok_def pos_ok_def demo_fil_def dirty_def cluster_bytes_def)
  have "length (content demo_fil F [2, 3]) = 600"
    using raw_blocks(1) [OF v(1) b] v(3) by (simp add: content_def cluster_bytes_def demo_fil_def)
  then show ?thesis
    using f_read_refines [OF f, of 0 1000] v(2) unfolding F_def [symmetric]
    by (auto simp: demo_fil_def split: option.splits)
qed

end
