(* ===== verification/FatFs_Write.thy ===== *)
theory FatFs_Write
  imports FatFs_Read
begin

text \<open>
  Writing refines the abstract file: the bytes written take the place of those from the file
  pointer on, the file grows where they go past its end, by free clusters only, and nothing else
  of the volume changes. If fewer bytes are written than asked for, the volume is full.
\<close>

subsection \<open>Replacing a slice\<close>

definition overwrite :: "nat \<Rightarrow> u8 list \<Rightarrow> u8 list \<Rightarrow> u8 list" where
  "overwrite x bs xs = take x xs @ bs @ drop (x + length bs) xs"

lemma overwrite_middle: "length ys = length bs \<Longrightarrow> overwrite (length xs) bs (xs @ ys @ zs) = xs @ bs @ zs"
  by (simp add: overwrite_def)

text \<open>In one sector, and over whole sectors.\<close>

lemma overwrite_block:
  assumes d: "distinct ss" and q: "q < length ss" and l: "\<And>s. length (f s) = 512"
    and r: "r + length bs \<le> 512"
    and g: "g (ss ! q) = overwrite r bs (f (ss ! q))" "\<And>s. s \<noteq> ss ! q \<Longrightarrow> s \<in> set ss \<Longrightarrow> g s = f s"
  shows "concat (map g ss) = overwrite (512 * q + r) bs (concat (map f ss))"
proof -
  define xs where "xs = concat (map f (take q ss))"
  define zs where "zs = concat (map f (drop (Suc q) ss))"
  have e: "ss = take q ss @ ss ! q # drop (Suc q) ss" using q by (rule id_take_nth_drop)
  have n: "ss ! q \<notin> set (take q ss)" "ss ! q \<notin> set (drop (Suc q) ss)"
    using d e by (metis disjoint_insert(1) distinct.simps(2) distinct_append list.simps(15))+
  have "g s = f s" if "s \<in> set (take q ss) \<union> set (drop (Suc q) ss)" for s
    by (rule g(2)) (use that n in \<open>auto dest: in_set_takeD in_set_dropD\<close>)
  then have m: "map g (take q ss) = map f (take q ss)" "map g (drop (Suc q) ss) = map f (drop (Suc q) ss)" by auto
  have G: "concat (map g ss) = xs @ overwrite r bs (f (ss ! q)) @ zs"
    by (subst e) (simp only: map_append list.map concat_append concat.simps m g(1) xs_def zs_def)
  have F: "concat (map f ss) = xs @ f (ss ! q) @ zs" by (subst e) (simp add: xs_def zs_def)
  have "length xs = 512 * q" using q by (simp add: xs_def length_blocks [where m = 512] l)
  then show ?thesis unfolding G F using r l [of "ss ! q"] by (simp add: overwrite_def)
qed

lemma concat_slices: "512 * n \<le> length bs \<Longrightarrow> concat (map (\<lambda>i. take 512 (drop (512 * i) bs)) [0..<n]) = take (512 * n) bs"
proof (induction n)
  case (Suc n)
  then have "512 * n \<le> length bs" by simp
  with Suc show ?case by (simp add: take_add [symmetric] add.commute)
qed simp

lemma overwrite_blocks:
  assumes d: "distinct ss" and q: "q + n \<le> length ss" and l: "\<And>s. length (f s) = 512"
    and b: "512 * n \<le> length bs"
    and g: "\<And>i. i < n \<Longrightarrow> g (ss ! (q + i)) = take 512 (drop (512 * i) bs)"
      "\<And>s. s \<in> set ss \<Longrightarrow> s \<notin> set (take n (drop q ss)) \<Longrightarrow> g s = f s"
  shows "concat (map g ss) = overwrite (512 * q) (take (512 * n) bs) (concat (map f ss))"
proof -
  define A where "A = take q ss"
  define M where "M = take n (drop q ss)"
  define Z where "Z = drop n (drop q ss)"
  have e: "ss = A @ M @ Z" unfolding A_def M_def Z_def by (simp only: append_take_drop_id)
  have "set A \<inter> set M = {}" "set Z \<inter> set M = {}" using d by (subst (asm) e, auto)+
  moreover have "g s = f s" if "s \<in> set A \<union> set Z" "s \<notin> set M" for s
    by (rule g(2)) (use that in \<open>auto simp: A_def Z_def M_def dest: in_set_takeD in_set_dropD\<close>)
  ultimately have az: "map g A = map f A" "map g Z = map f Z" by auto
  have "map g M = map (\<lambda>i. take 512 (drop (512 * i) bs)) [0..<n]"
    using q g(1) by (intro nth_equalityI) (simp_all add: M_def)
  then have "concat (map g M) = take (512 * n) bs" using concat_slices [OF b] by simp
  then have G: "concat (map g ss) = concat (map f A) @ take (512 * n) bs @ concat (map f Z)"
    by (subst e) (simp add: az)
  have F: "concat (map f ss) = concat (map f A) @ concat (map f M) @ concat (map f Z)"
    by (subst e) simp
  have len: "length (concat (map f A)) = 512 * q" "length (concat (map f M)) = 512 * n"
    using q by (simp_all only: length_blocks [where m = 512] l) (simp_all add: A_def M_def)
  show ?thesis
    unfolding G F len(1) [symmetric] by (rule overwrite_middle [symmetric]) (use b in \<open>simp only: len(2) length_take\<close>)
qed

subsection \<open>Growing a file\<close>

text \<open>
  What an allocation relies on: the count of free clusters is right where it is known, no entry
  of the table is the invalid value 1, and neither the window nor the buffer holds a sector of a
  free cluster.
\<close>

definition alloc_ok :: "fil \<Rightarrow> fatfs \<Rightarrow> bool" where
  "alloc_ok fp fs \<longleftrightarrow> count_ok fs \<and> (\<forall>d. 2 \<le> d \<and> d < n_fatent fs \<longrightarrow> fatmap fs d \<noteq> 1) \<and>
     (\<forall>c s. fatmap fs c = 0 \<and> s \<in> set (cluster_sects fs c) \<longrightarrow> s \<noteq> winsect fs \<and> s \<noteq> sect fp)"

text \<open>
  A volume on which only the file of the clusters \<open>cs\<close> changed, and took the free clusters
  \<open>new\<close>.
\<close>

definition grown :: "fatfs \<Rightarrow> u32 list \<Rightarrow> u32 list \<Rightarrow> fatfs \<Rightarrow> bool" where
  "grown fs cs new fs' \<longleftrightarrow> layout fs' = layout fs \<and> (\<forall>d \<in> set new. fatmap fs d = 0) \<and>
     (\<forall>d. d \<notin> set (cs @ new) \<longrightarrow> fatmap fs' d = fatmap fs d) \<and>
     (\<forall>s. data_sect fs s \<and> s \<notin> set (file_sects fs (cs @ new)) \<longrightarrow> view fs' s = view fs s)"

lemma file_sects_append: "file_sects fs (cs @ ds) = file_sects fs cs @ file_sects fs ds"
  by (simp add: file_sects_def)

lemma file_sects_one: "file_sects fs [c] = cluster_sects fs c"
  by (simp add: file_sects_def)

lemma layout_data_sect: "layout fs' = layout fs \<Longrightarrow> data_sect fs' = data_sect fs"
  using layoutD(11) [of fs' fs] by (simp add: data_sect_def fun_eq_iff)

lemma layout_cluster: "layout fs' = layout fs \<Longrightarrow> cluster_sects fs' = cluster_sects fs"
  using layout_sects(4,5) [of fs' fs] by (simp add: cluster_sects_def fun_eq_iff)

lemma chain_used:
  assumes "vol_file fs cs" and "d \<in> set cs"
  shows "fatmap fs d \<noteq> 0"
proof -
  have ch: "chain (fatmap fs) (n_fatent fs) (hd cs) cs" using assms by (auto simp: vol_file_def)
  obtain xs ys where "cs = xs @ d # ys" using assms(2) by (meson split_list)
  then have c: "chain (fatmap fs) (n_fatent fs) d (d # ys)" using ch chain_suffix by metis
  have "fatmap fs d = 0 \<Longrightarrow> ys \<noteq> [] \<Longrightarrow> False"
    using c chain_hd [of "fatmap fs" "n_fatent fs" "fatmap fs d" ys] chain_clusters [of "fatmap fs" "n_fatent fs" "fatmap fs d" ys 0]
    by (auto simp: chain_Cons)
  moreover have "n_fatent fs \<noteq> 0" using c by (auto simp: chain_Cons)
  ultimately show ?thesis using c by (auto simp: chain_Cons split: if_splits)
qed

lemma grown_refl: "grown fs cs [] fs"
  by (simp add: grown_def)

lemma grown_trans:
  assumes a: "grown fs cs new fs1" and b: "grown fs1 (cs @ new) ext fs2" and v: "vol_file fs1 (cs @ new)"
  shows "grown fs cs (new @ ext) fs2"
proof -
  have l: "layout fs1 = layout fs" using a by (simp add: grown_def)
  have "fatmap fs d = 0" if "d \<in> set ext" for d
  proof -
    have z: "fatmap fs1 d = 0" using b that by (simp add: grown_def)
    then have "d \<notin> set (cs @ new)" using chain_used [OF v] by blast
    with a z show ?thesis by (simp add: grown_def)
  qed
  then show ?thesis
    using a b layout_sects(1) [OF l] layout_data_sect [OF l] by (auto simp: grown_def file_sects_append)
qed

lemma grown_file:
  assumes "layout fs' = layout fs" and "fatmap fs' = fatmap fs"
    and "\<And>s. data_sect fs s \<Longrightarrow> s \<notin> set (file_sects fs cs) \<Longrightarrow> view fs' s = view fs s"
  shows "grown fs cs [] fs'"
  using assms by (simp add: grown_def)

lemma data_kept_disk:
  assumes k: "data_kept fs fs'" and g: "geometry fs" "io_ok fs" and s: "data_sect fs s" "s \<noteq> winsect fs"
  shows "s \<noteq> winsect fs'" and "disk fs' s = disk fs s" and "view fs' s = view fs s"
proof -
  show w: "s \<noteq> winsect fs'" using k s g(2) data_not_fat [OF g(1) s(1)] by (auto simp: data_kept_def)
  show v: "view fs' s = view fs s"
    using k s data_not_fat [OF g(1) s(1)] by (auto simp: data_kept_def data_sect_def)
  then show "disk fs' s = disk fs s" using w s(2) by (simp add: view_def)
qed

lemma cluster_disjoint:
  assumes "data_geometry fs" and "clusters_ok fs cs" and "2 \<le> c" "c < n_fatent fs" "c \<notin> set cs"
    and "s \<in> set (cluster_sects fs c)"
  shows "s \<notin> set (file_sects fs cs)"
proof -
  have "clusters_ok fs (cs @ [c])" using assms(2-5) by (auto simp: clusters_ok_def)
  from file_sects_distinct [OF assms(1) this] show ?thesis
    using assms(6) by (auto simp: file_sects_append file_sects_one)
qed

lemma fatmap_range: "fatmap fs c \<noteq> 1 \<Longrightarrow> 2 \<le> c \<and> c < n_fatent fs"
  using fatmap_out(1) by blast

lemma alloc_kept:
  assumes a: "alloc_ok fp fs" and v: "vol_file fs cs" and k: "data_kept fs fs1" and n: "count_ok fs1"
    and one: "\<And>d. 2 \<le> d \<Longrightarrow> d < n_fatent fs \<Longrightarrow> fatmap fs1 d \<noteq> 1"
    and z: "\<And>d. fatmap fs1 d = 0 \<Longrightarrow> fatmap fs d = 0" and s: "sect fp1 = sect fp"
  shows "alloc_ok fp1 fs1"
proof -
  have l: "layout fs1 = layout fs" using k by (simp add: data_kept_def)
  have g: "data_geometry fs" "geometry fs" "io_ok fs" using v by (auto simp: vol_file_def fs_ready_def)
  note cl = layout_cluster [OF l]
  have "t \<noteq> winsect fs1 \<and> t \<noteq> sect fp" if c: "fatmap fs1 c = 0" "t \<in> set (cluster_sects fs c)" for c t
  proof -
    have "2 \<le> c" "c < n_fatent fs" using fatmap_range [of fs c] z [OF c(1)] by auto
    then have "data_sect fs t" using cluster_data_sect [OF g(1)] c(2) by blast
    moreover have "t \<noteq> winsect fs" "t \<noteq> sect fp" using a z [OF c(1)] c(2) by (auto simp: alloc_ok_def)
    ultimately show ?thesis using data_kept_disk(1) [OF k g(2,3)] by blast
  qed
  then show ?thesis using n one cl s layoutD(6) [OF l] by (auto simp: alloc_ok_def)
qed

text \<open>The chain of a file gets one free cluster more, if there is one.\<close>

lemma grow_chain:
  assumes v: "vol_file fs cs" and a: "alloc_ok fp fs" and k: "k = (if cs = [] then 0 else last cs)"
  obtains (full) fs1 where "create_chain k fs = Some (0, fs1)" and "free_set fs = {}" and "data_kept fs fs1"
      and "fatmap fs1 = fatmap fs" and "alloc_ok fp fs1"
    | (one) r fs1 where "create_chain k fs = Some (r, fs1)" and "r \<notin> {0, 1, 0xFFFFFFFF}" and "data_kept fs fs1"
      and "fatmap fs r = 0" and "vol_file fs1 (cs @ [r])" and "grown fs cs [r] fs1" and "alloc_ok fp fs1"
proof -
  have m: "mounted fs" and io: "io_ok fs" and g: "data_geometry fs" "geometry fs"
    using v by (auto simp: vol_file_def mounted_ready mounted_def)
  obtain r fs1 where cr: "create_chain k fs = Some (r, fs1)" and c: "chain_grown k fs r fs1"
    using create_chain_spec [OF m] by blast
  have kept: "data_kept fs fs1" using c unchangedD(1) by (auto simp: chain_grown_def split: if_splits)
  have last: "chain (fatmap fs) (n_fatent fs) (hd cs) cs \<and> n_fatent fs \<le> fatmap fs k \<and> 2 \<le> k \<and> k < n_fatent fs \<and> k \<noteq> 0" if "cs \<noteq> []"
    using v that chain_last [of "fatmap fs" "n_fatent fs" "hd cs" cs] by (auto simp: vol_file_def k)
  have "0 < n_fatent fs" using g(2) by (auto simp: geometry_def word_gt_0)
  then have nz: "k \<noteq> 0 \<Longrightarrow> fatmap fs k \<noteq> 0" using last k by (auto split: if_splits)
  have ones: "fatmap fs d \<noteq> 1" if "2 \<le> d" "d < n_fatent fs" for d using a that by (simp add: alloc_ok_def)
  have cnt: "count_ok fs" using a by (simp add: alloc_ok_def)
  have r: "r \<noteq> 1" "r \<noteq> 0xFFFFFFFF"
    using c ones nz last k io by (auto simp: chain_grown_def split: if_splits)
  show thesis
  proof (cases "r = 0")
    case True
    have u: "unchanged fs fs1" and e: "free_set fs = {} \<or> free_clst fs = 0" using c True by (auto simp: chain_grown_def)
    have "free_set fs = {}" using e cnt by (auto simp: count_ok_def)
    moreover have "alloc_ok fp fs1"
      by (rule alloc_kept [OF a v kept unchangedD(10) [OF u cnt]]) (use ones unchangedD(3) [OF u] in auto)
    ultimately show thesis using full cr True kept unchangedD(3) [OF u] by blast
  next
    case False
    have nk: "\<not> (k \<noteq> 0 \<and> fatmap fs k < n_fatent fs)" using last k by (auto split: if_splits)
    then have rn: "r < n_fatent fs" "fatmap fs r = 0" "fatmap fs1 = linked k r fs" "count_ok fs1"
      using c r False cnt by (auto simp: chain_grown_def split: if_splits)
    have r2: "2 \<le> r" using fatmap_range [of fs r] rn(2) by simp
    have nin: "r \<notin> set cs" using chain_used [OF v] rn(2) by blast
    have eoc: "n_fatent fs \<le> EOC fs" "EOC fs \<noteq> 0" using EOC_end [OF m] by auto
    have n3: "2 < n_fatent fs" using g(2) by (simp add: geometry_def)
    have eoc1: "EOC fs \<noteq> 1" using eoc(1) n3 by (auto simp: word_le_nat_alt word_less_nat_alt)
    have l: "layout fs1 = layout fs" using kept by (simp add: data_kept_def)
    have f1: "fatmap fs1 d = (if d = k \<and> k \<noteq> 0 then r else if d = r then EOC fs else fatmap fs d)" for d
      using rn(3) by (auto simp: linked_def)
    have al: "alloc_ok fp fs1"
      by (rule alloc_kept [OF a v kept rn(4)]) (use f1 ones r False eoc eoc1 rn(2) in \<open>auto split: if_splits\<close>)
    have ch: "chain (fatmap fs1) (n_fatent fs) (hd (cs @ [r])) (cs @ [r])"
    proof (cases "cs = []")
      case True
      then show ?thesis using f1 r2 rn(1) eoc k by simp
    next
      case False
      then have kin: "k \<in> set cs" using k by simp
      have "chain (fatmap fs1) (n_fatent fs) (hd cs) (cs @ [r])"
        by (rule chain_append [OF conjunct1 [OF last [OF False]] nin r2 rn(1)])
          (use last [OF False] False f1 nin kin eoc k in auto)
      then show ?thesis using False by simp
    qed
    have w: "winsect fs1 \<notin> set (file_sects fs (cs @ [r]))"
    proof
      assume i: "winsect fs1 \<in> set (file_sects fs (cs @ [r]))"
      have ne: "winsect fs1 \<noteq> winsect fs"
        using i v a rn(2) by (auto simp: vol_file_def alloc_ok_def file_sects_append file_sects_one)
      have "data_sect fs (winsect fs1)"
        using i vol_file_data [OF v] cluster_data_sect [OF g(1) r2 rn(1)] by (auto simp: file_sects_append file_sects_one)
      then show False using data_kept_disk(1) [OF kept g(2) io _ ne] by blast
    qed
    note e = layout_sects [OF l] layout_eq [OF l]
    have "fs_ready fs1" using data_kept_mounted [OF kept m] e(9) io by (simp add: mounted_ready)
    then have v1: "vol_file fs1 (cs @ [r])"
      using g e ch w layoutD(6) [OF l] by (simp add: vol_file_def)
    have "view fs1 s = view fs s" if "data_sect fs s" for s
      using kept that data_not_fat [OF g(2) that] by (auto simp: data_kept_def data_sect_def)
    then have "grown fs cs [r] fs1"
      using l f1 rn(2) k by (auto simp: grown_def split: if_splits)
    then show thesis using one cr False r kept rn(2) v1 al by blast
  qed
qed

lemma follow_chain:
  assumes v: "vol_file fs cs" and a: "alloc_ok fp fs" and j: "Suc j < length cs"
  obtains fs1 where "create_chain (cs ! j) fs = Some (cs ! Suc j, fs1)" and "unchanged fs fs1"
proof -
  have m: "mounted fs" and io: "io_ok fs" and ch: "chain (fatmap fs) (n_fatent fs) (hd cs) cs"
    using v j by (auto simp: vol_file_def mounted_ready)
  have x: "2 \<le> cs ! i \<and> cs ! i < n_fatent fs" if "i < length cs" for i
    using chain_clusters [OF ch] nth_mem [OF that] by blast
  have f: "fatmap fs (cs ! j) = cs ! Suc j" using chain_nth [OF ch j] .
  obtain r fs1 where cr: "create_chain (cs ! j) fs = Some (r, fs1)" and c: "chain_grown (cs ! j) fs r fs1"
    using create_chain_spec [OF m] by blast
  have "cs ! j \<noteq> 0" "cs ! Suc j \<noteq> 0" "cs ! Suc j \<noteq> 1" "cs ! Suc j < n_fatent fs"
    using x [of j] x [OF j] j two_not_one by (auto simp del: word_not_simps)
  then have "r = cs ! Suc j \<and> unchanged fs fs1"
    using c a io f by (auto simp: chain_grown_def alloc_ok_def split: if_splits)
  then show thesis using that cr by blast
qed

lemma raw_fields [simp]: "raw (fp\<lparr>clust := c\<rparr>) = raw fp" "raw (fp\<lparr>sclust := c\<rparr>) = raw fp"
  "raw (fp\<lparr>objsize := n\<rparr>) = raw fp" "raw (fp\<lparr>flag := b\<rparr>) = raw fp"
proof -
  have "sdata (fp\<lparr>clust := c\<rparr>) = sdata fp" "sdata (fp\<lparr>sclust := c\<rparr>) = sdata fp"
    "sdata (fp\<lparr>objsize := n\<rparr>) = sdata fp" "sdata (fp\<lparr>flag := b\<rparr>) = sdata fp"
    by (intro ext; simp add: sdata_def)+
  then show "raw (fp\<lparr>clust := c\<rparr>) = raw fp" "raw (fp\<lparr>sclust := c\<rparr>) = raw fp"
    "raw (fp\<lparr>objsize := n\<rparr>) = raw fp" "raw (fp\<lparr>flag := b\<rparr>) = raw fp"
    by (simp_all add: raw_def [abs_def])
qed

lemma buf_ok_fields [simp]: "buf_ok (fp\<lparr>clust := c\<rparr>) = buf_ok fp" "buf_ok (fp\<lparr>sclust := c\<rparr>) = buf_ok fp"
  "buf_ok (fp\<lparr>objsize := n\<rparr>) = buf_ok fp" "buf_ok (fp\<lparr>fptr := n\<rparr>) = buf_ok fp"
  by (simp_all add: buf_ok_def dirty_def fun_eq_iff)

lemma alloc_ok_sect: "alloc_ok fp fs \<Longrightarrow> sect fp' = sect fp \<Longrightarrow> alloc_ok fp' fs"
  by (simp add: alloc_ok_def)

text \<open>The cluster the next bytes go to: one the file has, or a new one.\<close>

lemma located_same:
  assumes f: "file_ok fp fs cs" and a: "alloc_ok fp fs" and u: "unchanged fs fs1"
  shows "same_file fp fs cs fp fs1" "alloc_ok fp fs1" "grown fs cs [] fs1"
proof -
  have v: "vol_file fs cs" and b: "buf_ok fp fs cs" using f by (auto simp: file_ok_def)
  have g: "geometry fs" "io_ok fs" using v by (auto simp: vol_file_def fs_ready_def)
  note d = unchangedD [OF u]
  have l: "layout fs1 = layout fs" using d(1) by (simp add: data_kept_def)
  have "same_file fp fs cs (fp\<lparr>clust := clust fp\<rparr>) fs1" by (rule same_file_located [OF f d(1,3)])
  then show "same_file fp fs cs fp fs1" by simp
  show "alloc_ok fp fs1"
    by (rule alloc_kept [OF a v d(1)]) (use a d(3,10) in \<open>auto simp: alloc_ok_def\<close>)
  show "grown fs cs [] fs1"
    by (rule grown_file [OF l d(3)])
      (use d(1) data_not_fat [OF g(1)] in \<open>auto simp: data_kept_def data_sect_def\<close>)
qed

lemma located_new:
  assumes f: "file_ok fp fs cs" and a: "alloc_ok fp fs" and k: "data_kept fs fs1" and r: "fatmap fs r = 0"
    and v1: "vol_file fs1 (cs @ [r])"
  shows "buf_ok fp fs1 (cs @ [r])" "\<exists>ys. raw fp fs1 (cs @ [r]) = raw fp fs cs @ ys"
proof -
  have v: "vol_file fs cs" and b: "buf_ok fp fs cs" using f by (auto simp: file_ok_def)
  have g: "geometry fs" "io_ok fs" using v by (auto simp: vol_file_def fs_ready_def)
  have l: "layout fs1 = layout fs" using k by (simp add: data_kept_def)
  note e = layout_sects [OF l]
  have d: "disk fs1 s = disk fs s" if "s \<in> set (file_sects fs cs)" for s
    using data_kept_disk(2) [OF k g] vol_file_data [OF v that] that v by (auto simp: vol_file_def)
  show "buf_ok fp fs1 (cs @ [r])"
    unfolding buf_ok_def e(1) file_sects_append file_sects_one layout_cluster [OF l]
    using b a r by (auto simp: buf_ok_def alloc_ok_def d)
  have "concat (map (sdata fp fs1) (file_sects fs cs)) = raw fp fs cs"
    unfolding raw_def by (intro arg_cong [where f = concat] map_cong) (simp_all add: sdata_def d)
  then show "\<exists>ys. raw fp fs1 (cs @ [r]) = raw fp fs cs @ ys"
    by (simp add: raw_def e(1) file_sects_append)
qed

lemma cluster_boundary:
  assumes g: "data_geometry fs" and b: "unat p mod 512 = 0"
  shows "(p div 512) AND (ucast (csize fs) - 1) = (0 :: u32) \<longleftrightarrow> unat p mod cluster_bytes fs = 0"
proof -
  have "unat ((p div 512) AND (ucast (csize fs) - 1)) = unat p div 512 mod unat (csize fs)"
    using csect_mod [OF g, of "p div 512"] by (simp add: unat_div)
  moreover have "unat p mod cluster_bytes fs = 512 * (unat p div 512 mod unat (csize fs)) + unat p mod 512"
    unfolding cluster_bytes_def by (rule mod_mult2_eq)
  ultimately show ?thesis using b by (simp add: word_unat_eq_iff)
qed

lemma write_locate_ok:
  assumes f: "file_ok fp fs cs" and a: "alloc_ok fp fs" and b: "unat (fptr fp) mod 512 = 0"
    and cs: "csect = (fptr fp div 512) AND (ucast (csize fs) - 1)"
  obtains (full) fs1 where "write_locate csect fp fs = Some (Inr False, fp, fs1)" and "free_set fs1 = {}"
      and "same_file fp fs cs fp fs1" and "alloc_ok fp fs1" and "grown fs cs [] fs1"
      and "unat (fptr fp) = cluster_bytes fs * length cs"
    | (ok) new fp1 fs1 where "write_locate csect fp fs = Some (Inr True, fp1, fs1)"
      and "fp1 = fp\<lparr>clust := (cs @ new) ! (unat (fptr fp) div cluster_bytes fs), sclust := hd (cs @ new)\<rparr>"
      and "unat (fptr fp) < cluster_bytes fs * length (cs @ new)" and "vol_file fs1 (cs @ new)"
      and "buf_ok fp1 fs1 (cs @ new)" and "alloc_ok fp1 fs1" and "grown fs cs new fs1"
      and "\<exists>ys. raw fp1 fs1 (cs @ new) = raw fp fs cs @ ys"
proof -
  define x where "x = unat (fptr fp)"
  define M where "M = cluster_bytes fs"
  have v: "vol_file fs cs" and p: "pos_ok fp fs cs" and g: "data_geometry fs" and m: "mounted fs"
    using f by (auto simp: file_ok_def vol_file_def mounted_ready)
  have M: "0 < M" using data_geometryD(2) [OF g] by (simp add: M_def cluster_bytes_def)
  have le: "x \<le> M * length cs" using p by (simp add: pos_ok_def x_def M_def word_le_nat_alt)
  have zero: "csect = 0 \<longleftrightarrow> x mod M = 0" using cluster_boundary [OF g b] cs by (simp add: x_def M_def)
  have sc: "sclust fp = (if cs = [] then 0 else hd cs)" using p by (simp add: pos_ok_def)
  have cl: "fptr fp \<noteq> 0 \<Longrightarrow> clust fp = cs ! ((x - 1) div M)" using p by (simp add: pos_ok_def x_def M_def)
  have x0: "fptr fp = 0 \<longleftrightarrow> x = 0" by (simp add: x_def word_unat_eq_iff)
  have big: "d \<noteq> 0 \<and> d \<noteq> 1 \<and> d \<noteq> 0xFFFFFFFF" if "d \<in> set cs" for d
    using vol_file_clusters [OF v] that two_not_one unat_u32_less [of "n_fatent fs"]
    by (auto simp: clusters_ok_def word_less_nat_alt)
  have here: thesis
    if "write_locate csect fp fs = Some (Inr True, fp\<lparr>clust := cs ! (x div M), sclust := sclust fp\<rparr>, fs1)"
      and u: "unchanged fs fs1" and xl: "x < M * length cs" for fs1
  proof -
    note s = located_same [OF f a u]
    have "sclust fp = hd cs" using sc xl by auto
    then show thesis
      by (rule_tac ok [of "fp\<lparr>clust := cs ! (x div M), sclust := sclust fp\<rparr>" fs1 "[]"])
        (use that s in \<open>auto simp: same_file_def x_def M_def intro: alloc_ok_sect\<close>)
  qed
  have ext: thesis
    if w: "\<And>r fs1. create_chain k fs = Some (r, fs1) \<Longrightarrow> r \<notin> {1, 0xFFFFFFFF} \<Longrightarrow> write_locate csect fp fs =
        Some (if r = 0 then (Inr False, fp, fs1)
              else (Inr True, fp\<lparr>clust := r, sclust := (if sclust fp = 0 then r else sclust fp)\<rparr>, fs1))"
      and k: "k = (if cs = [] then 0 else last cs)" and xe: "x = M * length cs" for k
  proof (cases rule: grow_chain [OF v a k])
    case (1 fs1)
    then have u: "unchanged fs fs1" using create_chain_spec [OF m, of k] by (auto simp: chain_grown_def)
    have "free_set fs1 = {}" using 1(2) unchangedD(4) [OF u] by simp
    with w [OF 1(1)] located_same [OF f a u] xe show thesis
      by (intro full [of fs1]) (auto simp: x_def M_def)
  next
    case (2 r fs1)
    define fp1 where "fp1 = fp\<lparr>clust := r, sclust := (if sclust fp = 0 then r else sclust fp)\<rparr>"
    have "fp1 = fp\<lparr>clust := (cs @ [r]) ! (x div M), sclust := hd (cs @ [r])\<rparr>"
      using xe M sc big [of "hd cs"] by (auto simp: fp1_def)
    moreover have "write_locate csect fp fs = Some (Inr True, fp1, fs1)"
      using w [OF 2(1)] 2(2) by (simp add: fp1_def)
    moreover have "x < M * length (cs @ [r])" using xe M by simp
    moreover note located_new [OF f a 2(3,4,5)]
    moreover have "alloc_ok fp1 fs1" by (rule alloc_ok_sect [OF 2(7)]) (simp add: fp1_def)
    ultimately show thesis using 2(5,6) by (intro ok [of fp1 fs1 "[r]"]) (simp_all add: fp1_def x_def M_def)
  qed
  show thesis
  proof (cases "csect = 0")
    case False
    then have xm: "x mod M \<noteq> 0" using zero by simp
    then have xl: "x < M * length cs" using le by (cases "x = M * length cs") auto
    have "0 < x" using xm by (cases x) auto
    then have "clust fp = cs ! (x div M)" using cl x0 xm M pred_div [of x M] by simp
    then have "fp = fp\<lparr>clust := cs ! (x div M), sclust := sclust fp\<rparr>" by (cases fp) simp
    then have "write_locate csect fp fs = Some (Inr True, fp\<lparr>clust := cs ! (x div M), sclust := sclust fp\<rparr>, fs)"
      using False unfolding write_locate_def by simp
    then show thesis by (rule here [OF _ unchanged_refl [OF m] xl])
  next
    case True
    then have xm: "x mod M = 0" using zero by simp
    show thesis
    proof (cases "fptr fp = 0")
      case z: True
      show thesis
      proof (cases "cs = []")
        case True
        show thesis
          by (rule ext [of 0]) (use \<open>csect = 0\<close> z sc True x0 in \<open>auto simp: write_locate_def\<close>)
      next
        case False
        then have h: "hd cs = cs ! (x div M)" "hd cs \<in> set cs" using z x0 by (simp_all add: hd_conv_nth)
        have "write_locate csect fp fs = Some (Inr True, fp\<lparr>clust := cs ! (x div M), sclust := sclust fp\<rparr>, fs)"
          using \<open>csect = 0\<close> z sc False big [OF h(2)] by (simp add: write_locate_def h(1) [symmetric])
        then show thesis by (rule here [OF _ unchanged_refl [OF m]]) (use z x0 False M in simp)
      qed
    next
      case nz: False
      then have "0 < x" using x0 by simp
      then have pd: "(x - 1) div M = x div M - 1" "0 < x div M"
        using M xm pred_div [of x M] by (auto simp: div_greater_zero_iff dest: mod_less)
      have xd: "x = M * (x div M)" using xm by auto
      then have jl: "x div M \<le> length cs" using le M by (metis mult_le_cancel1 not_gr_zero)
      have ne: "cs \<noteq> []" using jl pd(2) by auto
      have c: "clust fp = cs ! (x div M - 1)" using cl nz pd by simp
      have sn: "sclust fp \<noteq> 0" using sc ne big [of "hd cs"] by simp
      show thesis
      proof (cases "x div M = length cs")
        case True
        show thesis
          by (rule ext [of "clust fp"])
            (use \<open>csect = 0\<close> nz sn True ne c xd in \<open>auto simp: write_locate_def last_conv_nth\<close>)
      next
        case False
        then have j: "Suc (x div M - 1) < length cs" "Suc (x div M - 1) = x div M" using jl pd(2) by auto
        obtain fs1 where cr: "create_chain (clust fp) fs = Some (cs ! (x div M), fs1)" and u: "unchanged fs fs1"
          using follow_chain [OF v a j(1)] c j(2) by metis
        have "cs ! (x div M) \<in> set cs" using j by simp
        then have "write_locate csect fp fs = Some (Inr True, fp\<lparr>clust := cs ! (x div M), sclust := sclust fp\<rparr>, fs1)"
          using \<open>csect = 0\<close> nz sn cr big by (simp add: write_locate_def)
        then show thesis by (rule here [OF _ u]) (use xd j M in \<open>metis mult_less_cancel1\<close>)
      qed
    qed
  qed
qed

subsection \<open>One pass of the loop\<close>

lemma flag_set [simp]: "(x OR 128) AND 128 = (128 :: u8)" "(x OR 128) AND - 129 = (x AND - 129 :: u8)"
proof -
  have "(x OR 128) AND 128 = (128 :: u8)" "(x OR 128) AND NOT 128 = (x AND NOT 128 :: u8)"
    by (rule bit_word_eqI; auto simp only: bit_and_iff bit_or_iff bit_not_iff)+
  then show "(x OR 128) AND 128 = (128 :: u8)" "(x OR 128) AND - 129 = (x AND - 129 :: u8)" by simp_all
qed

lemma length_overwrite: "x + length bs \<le> length xs \<Longrightarrow> length (overwrite x bs xs) = length xs"
  by (simp add: overwrite_def)

text \<open>The fields a write leaves as they are.\<close>

definition same_fields :: "fil \<Rightarrow> fil \<Rightarrow> bool" where
  "same_fields fp fp1 \<longleftrightarrow> objsize fp1 = objsize fp \<and> fptr fp1 = fptr fp \<and> sclust fp1 = sclust fp \<and>
     clust fp1 = clust fp \<and> obj_id fp1 = obj_id fp \<and> err fp1 = err fp \<and>
     flag fp1 AND NOT FA_DIRTY = flag fp AND NOT FA_DIRTY"

text \<open>
  The bytes \<open>bs\<close> stored at \<open>x\<close>: what lies behind the end of the file, \<open>n\<close>, may change with
  them.
\<close>

definition stored :: "nat \<Rightarrow> nat \<Rightarrow> u8 list \<Rightarrow> u8 list \<Rightarrow> u8 list \<Rightarrow> bool" where
  "stored x n bs ys zs \<longleftrightarrow> (\<exists>us. length us = length ys \<and> take x us = take x ys \<and> (x < n \<longrightarrow> us = ys) \<and>
     zs = overwrite x bs us)"

lemma stored_content:
  assumes "stored x n bs ys zs" and "x \<le> n" "n \<le> length ys" "x + length bs \<le> length ys"
  shows "take (max n (x + length bs)) zs = overwrite x bs (take n ys)"
proof -
  obtain us where us: "length us = length ys" "take x us = take x ys" "x < n \<longrightarrow> us = ys" "zs = overwrite x bs us"
    using assms(1) by (auto simp: stored_def)
  show ?thesis
  proof (cases "x < n")
    case True
    then show ?thesis using us assms by (auto simp: overwrite_def max_def min_def take_drop)
  next
    case False
    then have "x = n" using assms(2) by simp
    then show ?thesis using us assms(3,4) by (cases bs) (auto simp: overwrite_def max_def min_def)
  qed
qed

lemma write_buffer_ok:
  assumes v: "vol_file fs cs" and b: "length (buf fp) = 512" and x: "x = unat (fptr fp)"
    and xl: "x < cluster_bytes fs * length cs"
    and se: "sect fp = file_sects fs cs ! (x div 512)" and btw: "0 < btw" "unat btw \<le> length data"
  obtains n fp1 where "write_buffer btw data fp = (n, fp1)" and "unat n = min (512 - x mod 512) (unat btw)"
    and "raw fp1 fs cs = overwrite x (take (unat n) data) (raw fp fs cs)" and "buf_ok fp1 fs cs"
    and "sect fp1 = sect fp" and "same_fields fp fp1"
proof -
  obtain n fp1 where w: "write_buffer btw data fp = (n, fp1)" by fastforce
  have r: "x mod 512 < 512" by simp
  have "unat (512 - fptr fp mod 512) = 512 - x mod 512"
    using r by (simp add: unat_sub word_le_nat_alt unat_mod x)
  then have n: "unat n = min (512 - x mod 512) (unat btw)"
    using w by (auto simp: write_buffer_def Let_def word_less_nat_alt min_def)
  define bs where "bs = take (unat n) data"
  have bs: "length bs = unat n" "x mod 512 + length bs \<le> 512" using n btw(2) r by (auto simp: bs_def)
  have fp1: "fp1 = fp\<lparr>buf := overwrite (x mod 512) bs (buf fp), flag := flag fp OR FA_DIRTY\<rparr>"
    using w bs by (auto simp: write_buffer_def Let_def overwrite_def bs_def unat_mod x)
  have q: "x div 512 < length (file_sects fs cs)"
    using position(1) [OF _ xl] v by (simp add: vol_file_def)
  have l: "length (sdata fp fs s) = 512" for s using b vol_file_length [OF v] by (simp add: sdata_def)
  have d: "distinct (file_sects fs cs)"
    using file_sects_distinct [OF _ vol_file_clusters [OF v]] v by (simp add: vol_file_def)
  have "raw fp1 fs cs = overwrite (512 * (x div 512) + x mod 512) bs (raw fp fs cs)"
    unfolding raw_def
    by (rule overwrite_block [where f = "sdata fp fs", OF d q l bs(2)]) (auto simp: sdata_def fp1 se)
  then have "raw fp1 fs cs = overwrite x bs (raw fp fs cs)" by simp
  moreover have "sect fp \<in> set (file_sects fs cs)" using se q by simp
  then have "buf_ok fp1 fs cs" using b bs(2) by (simp add: buf_ok_def fp1 length_overwrite dirty_def)
  ultimately show thesis
    by (intro that [OF w n]) (simp_all add: bs_def fp1 same_fields_def)
qed

text \<open>Writes of sectors of the file.\<close>

lemma wrote_file:
  assumes v: "vol_file fs cs" and w: "wrote_data S fs fs1" and S: "S \<subseteq> set (file_sects fs cs)"
    and a: "alloc_ok fp fs" and s: "sect fp1 = sect fp \<or> sect fp1 \<in> set (file_sects fs cs)"
  shows "vol_file fs1 cs" "layout fs1 = layout fs" "fatmap fs1 = fatmap fs" "alloc_ok fp1 fs1" "grown fs cs [] fs1"
proof -
  note v1 = vol_file_wrote [OF v w S]
  show "vol_file fs1 cs" and l: "layout fs1 = layout fs" and f: "fatmap fs1 = fatmap fs" by (fact v1)+
  obtain n D where e: "fs1 = fs\<lparr>io_count := n, disk := D\<rparr>" and D: "\<And>t. t \<notin> S \<Longrightarrow> D t = disk fs t"
    using w by (auto simp: wrote_data_def)
  have g: "data_geometry fs" using v by (simp add: vol_file_def)
  have "t \<noteq> sect fp1" if c: "fatmap fs c = 0" "t \<in> set (cluster_sects fs c)" for c t
  proof -
    have "2 \<le> c" "c < n_fatent fs" "c \<notin> set cs" using fatmap_range [of fs c] chain_used [OF v] c(1) by auto
    then have "t \<notin> set (file_sects fs cs)" using cluster_disjoint [OF g vol_file_clusters [OF v] _ _ _ c(2)] by blast
    moreover have "t \<noteq> sect fp" using a c by (auto simp: alloc_ok_def)
    ultimately show ?thesis using s by auto
  qed
  then show "alloc_ok fp1 fs1"
    using a f layout_cluster [OF l] by (auto simp: alloc_ok_def count_ok_def free_set_def e)
  show "grown fs cs [] fs1"
    by (rule grown_file [OF l f]) (use D S in \<open>auto simp: view_def e\<close>)
qed

lemma flush_wrote:
  assumes v: "vol_file fs cs" and b: "buf_ok fp fs cs" and f: "flush_buf fp fs = (True, fp1, fs1)"
  shows "\<exists>S. wrote_data S fs fs1 \<and> S \<subseteq> set (file_sects fs cs)"
proof (cases "dirty fp")
  case True
  have io: "\<not> io_fail fs (io_count fs)" using v by (auto simp: vol_file_def fs_ready_def io_ok_def)
  then have "fs1 = fs\<lparr>io_count := io_count fs + 1, disk := (disk fs)(sect fp := buf fp)\<rparr>"
    using f True by (auto simp: flush_buf_def dirty_def disk_write_sector_def split: if_splits)
  then have "wrote_data {sect fp} fs fs1"
    using b vol_file_length [OF v] unfolding wrote_data_def
    by (intro exI [of _ "io_count fs + 1"] exI [of _ "(disk fs)(sect fp := buf fp)"]) (auto simp: buf_ok_def)
  moreover have "{sect fp} \<subseteq> set (file_sects fs cs)" using b True by (simp add: buf_ok_def)
  ultimately show ?thesis by blast
next
  case False
  then have "fs1 = fs" using f by (auto simp: flush_buf_def dirty_def)
  then have "wrote_data {} fs fs1"
    using vol_file_length [OF v] unfolding wrote_data_def
    by (intro exI [of _ "io_count fs"] exI [of _ "disk fs"]) auto
  then show ?thesis by blast
qed

text \<open>A direct transfer of whole sectors.\<close>

lemma write_direct_ok:
  assumes v: "vol_file fs cs" and b: "buf_ok fp fs cs" and a: "alloc_ok fp fs" and nd: "\<not> dirty fp"
    and run: "take n (drop q (file_sects fs cs)) = map (\<lambda>i. s + of_nat i) [0..<n]"
    and n: "unat cc = n" "q + n \<le> length (file_sects fs cs)" "512 * n \<le> length data"
    and fp1: "fp1 = (if sect fp - s < cc
      then fp\<lparr>buf := take 512 (drop (512 * unat (sect fp - s)) data), flag := flag fp AND NOT FA_DIRTY\<rparr> else fp)"
  obtains fs1 where "disk_write_sectors s cc data fs = (True, fs1)" and "vol_file fs1 cs" and "buf_ok fp1 fs1 cs"
    and "alloc_ok fp1 fs1" and "grown fs cs [] fs1" and "same_fields fp fp1"
    and "raw fp1 fs1 cs = overwrite (512 * q) (take (512 * n) data) (raw fp fs cs)"
proof -
  define blk where "blk t = take 512 (drop (512 * unat (t - s)) data)" for t
  define fs1 where "fs1 = fs\<lparr>io_count := io_count fs + 1, disk := (\<lambda>t. if t - s < cc then blk t else disk fs t)\<rparr>"
  have io: "\<not> io_fail fs (io_count fs)" using v by (auto simp: vol_file_def fs_ready_def io_ok_def)
  have wr: "disk_write_sectors s cc data fs = (True, fs1)"
    using io by (simp add: disk_write_sectors_def fs1_def blk_def cong: if_cong)
  have in_run: "t - s < cc \<longleftrightarrow> t \<in> set (take n (drop q (file_sects fs cs)))" for t
  proof
    assume "t - s < cc"
    then have "unat (t - s) < n" using n(1) by (simp add: word_less_nat_alt)
    then show "t \<in> set (take n (drop q (file_sects fs cs)))"
      unfolding run set_map by (intro image_eqI [where x = "unat (t - s)"]) auto
  next
    assume "t \<in> set (take n (drop q (file_sects fs cs)))"
    then obtain i where i: "i < n" "t = s + of_nat i" unfolding run by auto
    have "n < 2 ^ 32" using n(1) unat_u32_less [of cc] by simp
    then have "unat (of_nat i :: u32) = i" using i(1) by (simp add: unat_of_nat take_bit_nat_eq_self)
    then show "t - s < cc" using i n(1) by (simp add: word_less_nat_alt)
  qed
  have lb: "length (blk t) = 512" if "t - s < cc" for t
  proof -
    have "unat (t - s) < n" using that n(1) by (simp add: word_less_nat_alt)
    then have "512 * unat (t - s) + 512 \<le> length data" using n(3) by linarith
    then show ?thesis by (simp add: blk_def)
  qed
  have w: "wrote_data {t. t - s < cc} fs fs1"
    unfolding wrote_data_def fs1_def using lb vol_file_length [OF v]
    by (intro exI [of _ "io_count fs + 1"] exI [of _ "\<lambda>t. if t - s < cc then blk t else disk fs t"]) auto
  have S: "{t. t - s < cc} \<subseteq> set (file_sects fs cs)"
    using in_run by (auto dest: in_set_takeD in_set_dropD)
  have se: "sect fp1 = sect fp" by (simp add: fp1)
  note W = wrote_file [OF v w S a, of fp1, unfolded se, simplified]
  note e = layout_sects(1) [OF W(2)]
  have d1: "disk fs1 t = (if t - s < cc then blk t else disk fs t)" for t by (simp add: fs1_def)
  have bf: "buf fp1 = (if sect fp - s < cc then blk (sect fp) else buf fp)" by (simp add: fp1 blk_def)
  have ndf: "\<not> dirty fp1" using nd by (simp add: fp1 dirty_def)
  have "buf_ok fp1 fs1 cs"
    using b lb ndf nd by (auto simp: buf_ok_def e d1 bf se)
  moreover have "raw fp1 fs1 cs = overwrite (512 * q) (take (512 * n) data) (raw fp fs cs)"
  proof -
    have l: "length (sdata fp fs t) = 512" for t using b vol_file_length [OF v] by (simp add: sdata_def buf_ok_def)
    have d: "distinct (file_sects fs cs)"
      using file_sects_distinct [OF _ vol_file_clusters [OF v]] v by (simp add: vol_file_def)
    have sd: "sdata fp1 fs1 t = (if t - s < cc then blk t else sdata fp fs t)" for t
      using b nd S by (auto simp: sdata_def d1 bf se buf_ok_def)
    have "sdata fp1 fs1 (file_sects fs cs ! (q + i)) = take 512 (drop (512 * i) data)" if i: "i < n" for i
    proof -
      have "n < 2 ^ 32" using n(1) unat_u32_less [of cc] by simp
      then have u: "unat (of_nat i :: u32) = i" using i by (simp add: unat_of_nat take_bit_nat_eq_self)
      have "take n (drop q (file_sects fs cs)) ! i = s + of_nat i" unfolding run using i by simp
      then have "file_sects fs cs ! (q + i) = s + of_nat i" using i n(2) by simp
      then show ?thesis using u i n(1) by (simp add: sd blk_def word_less_nat_alt)
    qed
    then show ?thesis
      unfolding raw_def e using sd in_run
      by (intro overwrite_blocks [OF d n(2) l n(3)]) auto
  qed
  moreover have "same_fields fp fp1" by (simp add: same_fields_def fp1)
  ultimately show thesis using that [OF wr W(1)] W(4,5) by blast
qed

text \<open>At a sector boundary.\<close>

lemma buffer_loaded:
  assumes v: "vol_file fs cs" and b: "buf_ok fp fs cs" and a: "alloc_ok fp fs" and nd: "\<not> dirty fp"
    and q: "q < length (file_sects fs cs)" and s: "s = file_sects fs cs ! q" and x: "512 * q = unat (fptr fp)"
    and l: "(if sect fp \<noteq> s \<and> fptr fp < objsize fp then disk_read_sector s fs else (Some (buf fp), fs)) = (Some d, fs1)"
    and fp1: "fp1 = fp\<lparr>buf := d, sect := s\<rparr>"
  shows "vol_file fs1 cs" "alloc_ok fp1 fs1" "grown fs cs [] fs1" "layout fs1 = layout fs" "length d = 512"
    and "length (raw fp1 fs1 cs) = length (raw fp fs cs)" "take (512 * q) (raw fp1 fs1 cs) = take (512 * q) (raw fp fs cs)"
    and "512 * q < unat (objsize fp) \<Longrightarrow> raw fp1 fs1 cs = raw fp fs cs"
proof -
  have m: "mounted fs" using v by (auto simp: vol_file_def mounted_ready)
  have L: "length (disk fs t) = 512" for t by (rule vol_file_length [OF v])
  have bl: "length (buf fp) = 512" using b by (simp add: buf_ok_def)
  have f: "\<exists>k. fs1 = fs\<lparr>io_count := k\<rparr>" and d: "d = (if sect fp \<noteq> s \<and> fptr fp < objsize fp then disk fs s else buf fp)"
    using l by (auto simp: disk_read_sector_def split: if_splits intro: exI [of _ "io_count fs"])
  then obtain k where k: "fs1 = fs\<lparr>io_count := k\<rparr>" by blast
  have se: "sect fp1 = sect fp \<or> sect fp1 \<in> set (file_sects fs cs)" using q by (simp add: fp1 s)
  note W = wrote_file [OF v io_count_wrote [OF m, of k] _ a se, folded k, simplified]
  show v1: "vol_file fs1 cs" and "alloc_ok fp1 fs1" and "grown fs cs [] fs1" and l1: "layout fs1 = layout fs"
    by (fact W)+
  show dl: "length d = 512" using L bl by (simp add: d)
  note e = layout_sects(1) [OF l1]
  have sd: "sdata fp1 fs1 t = sdata fp fs t" if "t \<in> set (file_sects fs cs)" "t \<noteq> s \<or> 512 * q < unat (objsize fp)" for t
    using that b nd x by (auto simp: sdata_def fp1 d k buf_ok_def word_less_nat_alt)
  have "cluster_bytes fs1 = cluster_bytes fs" using layout_sects(2) [OF l1] .
  then show "length (raw fp1 fs1 cs) = length (raw fp fs cs)"
    using raw_blocks(1) [OF v1, of fp1] raw_blocks(1) [OF v bl] dl by (simp add: fp1)
  show "raw fp1 fs1 cs = raw fp fs cs" if "512 * q < unat (objsize fp)"
    by (rule raw_cong [OF e]) (use sd that in blast)
  have dist: "distinct (file_sects fs cs)"
    using file_sects_distinct [OF _ vol_file_clusters [OF v]] v by (simp add: vol_file_def)
  have ns: "s \<notin> set (take q (file_sects fs cs))"
    using q dist by (auto simp: s in_set_conv_nth nth_eq_iff_index_eq)
  have "map (sdata fp1 fs1) (take q (file_sects fs cs)) = map (sdata fp fs) (take q (file_sects fs cs))"
    using sd ns by (auto dest: in_set_takeD)
  moreover have "take (512 * q) (raw fp1 fs1 cs) = concat (map (sdata fp1 fs1) (take q (file_sects fs cs)))"
    unfolding raw_def e by (rule take_blocks) (simp add: sdata_def fp1 k dl L)
  moreover have "take (512 * q) (raw fp fs cs) = concat (map (sdata fp fs) (take q (file_sects fs cs)))"
    unfolding raw_def by (rule take_blocks) (simp add: sdata_def bl L)
  ultimately show "take (512 * q) (raw fp1 fs1 cs) = take (512 * q) (raw fp fs cs)" by (simp only:)
qed

lemma write_sector_ok:
  assumes v: "vol_file fs cs" and b: "buf_ok fp fs cs" and a: "alloc_ok fp fs" and nd: "\<not> dirty fp"
    and al: "unat (fptr fp) mod 512 = 0" and xl: "unat (fptr fp) < cluster_bytes fs * length cs"
    and cs: "csect = (fptr fp div 512) AND (ucast (csize fs) - 1)"
    and s: "s = clst2sect fs (cs ! (unat (fptr fp) div cluster_bytes fs)) + csect"
    and btw: "0 < btw" "unat btw \<le> length data"
  obtains n fp1 fs1 where "write_sector btw csect s data fp fs = (Inr (Some n), fp1, fs1)"
    and "vol_file fs1 cs" and "buf_ok fp1 fs1 cs" and "alloc_ok fp1 fs1" and "grown fs cs [] fs1" and "same_fields fp fp1"
    and "0 < unat n" and "unat n \<le> unat btw" and "unat (fptr fp) + unat n \<le> cluster_bytes fs * length cs"
    and "(unat (fptr fp) + unat n - 1) div cluster_bytes fs = unat (fptr fp) div cluster_bytes fs"
    and "(unat (fptr fp) + unat n) mod 512 \<noteq> 0 \<longrightarrow> sect fp1 = file_sects fs cs ! ((unat (fptr fp) + unat n) div 512)"
    and "stored (unat (fptr fp)) (unat (objsize fp)) (take (unat n) data) (raw fp fs cs) (raw fp1 fs1 cs)"
proof -
  define x where "x = unat (fptr fp)"
  have g: "data_geometry fs" and io: "\<not> io_fail fs i" for i using v by (auto simp: vol_file_def fs_ready_def io_ok_def)
  note run = sector_run [OF g al xl cs s, folded x_def]
  have q: "x div 512 < length (file_sects fs cs)" using position(1) [OF g xl] by (simp add: x_def)
  have q2: "512 * (x div 512) = x" using al by (metis mult_div_mod_eq add_0_right x_def)
  show thesis
  proof (cases "0 < btw div 512")
    case True
    define cc where "cc = (if csect + btw div 512 > ucast (csize fs) then ucast (csize fs) - csect else btw div 512)"
    define fp1 where "fp1 = (if sect fp - s < cc
      then fp\<lparr>buf := take 512 (drop (512 * unat (sect fp - s)) data), flag := flag fp AND NOT FA_DIRTY\<rparr> else fp)"
    note r = run(2) [OF True cc_def]
    have sz: "x div 512 + unat cc \<le> length (file_sects fs cs)"
    proof -
      have "512 * (x div 512 + unat cc) \<le> 512 * (unat (csize fs) * length cs)"
        using r q2 by (simp add: cluster_bytes_def algebra_simps)
      then show ?thesis by (simp add: length_file_sects)
    qed
    have len: "512 * unat cc \<le> length data" using r btw(2) by simp
    have rn: "take (unat cc) (drop (x div 512) (file_sects fs cs)) = map (\<lambda>i. s + of_nat i) [0..<unat cc]" using r by simp
    obtain fs1 where w: "disk_write_sectors s cc data fs = (True, fs1)" "vol_file fs1 cs" "buf_ok fp1 fs1 cs"
      "alloc_ok fp1 fs1" "grown fs cs [] fs1" "same_fields fp fp1"
      "raw fp1 fs1 cs = overwrite (512 * (x div 512)) (take (512 * unat cc) data) (raw fp fs cs)"
      by (rule write_direct_ok [OF v b a nd rn refl sz len fp1_def])
    have un: "unat (512 * cc) = 512 * unat cc"
      using r unat_u32_less [of btw] by (simp add: unat_mult_lem [THEN iffD1])
    have ws: "write_sector btw csect s data fp fs = (Inr (Some (512 * cc)), fp1, fs1)"
      using True w(1) by (simp add: write_sector_def cc_def [symmetric] fp1_def Let_def)
    show thesis
      by (rule that [OF ws w(2-6)]) (use r un al w(7) q2 in \<open>auto simp: x_def stored_def\<close>)
  next
    case False
    obtain r fs1 where ld0: "(if sect fp \<noteq> s \<and> fptr fp < objsize fp then disk_read_sector s fs else (Some (buf fp), fs)) = (r, fs1)"
      by fastforce
    then have "r \<noteq> None" using io by (auto simp: disk_read_sector_def split: if_splits)
    then obtain d where ld: "(if sect fp \<noteq> s \<and> fptr fp < objsize fp then disk_read_sector s fs else (Some (buf fp), fs)) = (Some d, fs1)"
      using ld0 by auto
    define fp1 where "fp1 = fp\<lparr>buf := d, sect := s\<rparr>"
    have q3: "512 * (x div 512) = unat (fptr fp)" using q2 by (simp only: x_def)
    note B = buffer_loaded [OF v b a nd q run(1) q3 ld fp1_def]
    note e = layout_sects [OF B(4)]
    have fx: "x = unat (fptr fp1)" "length (buf fp1) = 512" using B(5) by (simp_all add: fp1_def x_def)
    have xl1: "x < cluster_bytes fs1 * length cs" "sect fp1 = file_sects fs1 cs ! (x div 512)"
      using xl run(1) by (simp_all add: e(1,2) fp1_def x_def)
    obtain n fp2 where w: "write_buffer btw data fp1 = (n, fp2)" "unat n = min (512 - x mod 512) (unat btw)"
      "raw fp2 fs1 cs = overwrite x (take (unat n) data) (raw fp1 fs1 cs)" "buf_ok fp2 fs1 cs"
      "sect fp2 = sect fp1" "same_fields fp1 fp2"
      by (rule write_buffer_ok [OF B(1) fx(2,1) xl1 btw])
    have ws: "write_sector btw csect s data fp fs = (Inr (Some n), fp2, fs1)"
      using False ld w(1) by (simp add: write_sector_def fp1_def Let_def)
    have n0: "0 < unat n" "x mod 512 + unat n \<le> 512" using w(2) btw(1) al by (auto simp: word_less_nat_alt x_def)
    note span = sector_span [OF n0 xl [folded x_def]]
    have al2: "alloc_ok fp2 fs1" by (rule alloc_ok_sect [OF B(2) w(5)])
    have sf: "same_fields fp fp2" using w(6) by (simp add: same_fields_def fp1_def)
    have st: "stored x (unat (objsize fp)) (take (unat n) data) (raw fp fs cs) (raw fp2 fs1 cs)"
      unfolding stored_def using B(6,7,8) q2 w(3) by (intro exI [of _ "raw fp1 fs1 cs"]) simp
    have nb: "unat n \<le> unat btw" using w(2) by simp
    have se: "sect fp2 = file_sects fs cs ! ((x + unat n) div 512)" if "(x + unat n) mod 512 \<noteq> 0"
      using span(2) [OF that] w(5) e(1) xl1(2) by (simp only:)
    show thesis
      using that [OF ws B(1) w(4) al2 B(3) sf n0(1) nb] span(1,3) se st unfolding x_def by blast
  qed
qed

text \<open>The file pointer and the size after \<open>n\<close> more bytes.\<close>

definition advance :: "u32 \<Rightarrow> fil \<Rightarrow> fil" where
  "advance n fp = (let ptr = fptr fp + n in fp\<lparr>fptr := ptr, objsize := (if ptr > objsize fp then ptr else objsize fp)\<rparr>)"

lemma advance_fields [simp]: "fptr (advance n fp) = fptr fp + n"
  "objsize (advance n fp) = (if fptr fp + n > objsize fp then fptr fp + n else objsize fp)"
  "sclust (advance n fp) = sclust fp" "clust (advance n fp) = clust fp" "sect (advance n fp) = sect fp"
  "obj_id (advance n fp) = obj_id fp" "err (advance n fp) = err fp" "flag (advance n fp) = flag fp"
  "buf (advance n fp) = buf fp" "raw (advance n fp) = raw fp" "buf_ok (advance n fp) = buf_ok fp"
  by (simp_all add: advance_def Let_def)

text \<open>Bytes of the file replaced, its clusters extended by \<open>new\<close>.\<close>

definition written :: "fil \<Rightarrow> fatfs \<Rightarrow> u32 list \<Rightarrow> u8 list \<Rightarrow> u32 list \<Rightarrow> fil \<Rightarrow> fatfs \<Rightarrow> bool" where
  "written fp fs cs bs new fp1 fs1 \<longleftrightarrow> file_ok fp1 fs1 (cs @ new) \<and> alloc_ok fp1 fs1 \<and> grown fs cs new fs1 \<and>
     content fp1 fs1 (cs @ new) = overwrite (unat (fptr fp)) bs (content fp fs cs) \<and>
     unat (fptr fp1) = unat (fptr fp) + length bs \<and> unat (objsize fp1) = max (unat (objsize fp)) (unat (fptr fp1)) \<and>
     obj_id fp1 = obj_id fp \<and> err fp1 = err fp \<and> flag fp1 AND NOT FA_DIRTY = flag fp AND NOT FA_DIRTY"

lemma write_finish:
  assumes f: "file_ok fp fs cs" and v: "vol_file fs1 (cs @ new)" and b: "buf_ok fp1 fs1 (cs @ new)" and a: "alloc_ok fp1 fs1"
    and g: "grown fs cs new fs1"
    and fld: "clust fp1 = (cs @ new) ! (unat (fptr fp) div cluster_bytes fs)" "sclust fp1 = hd (cs @ new)"
      "objsize fp1 = objsize fp" "fptr fp1 = fptr fp" "obj_id fp1 = obj_id fp" "err fp1 = err fp"
      "flag fp1 AND NOT FA_DIRTY = flag fp AND NOT FA_DIRTY"
    and n: "0 < unat n" "unat n \<le> length data" "unat (fptr fp) + unat n < 2 ^ 32"
      "unat (fptr fp) + unat n \<le> cluster_bytes fs * length (cs @ new)"
      "(unat (fptr fp) + unat n - 1) div cluster_bytes fs = unat (fptr fp) div cluster_bytes fs"
    and se: "(unat (fptr fp) + unat n) mod 512 \<noteq> 0 \<Longrightarrow>
      sect fp1 = file_sects fs (cs @ new) ! ((unat (fptr fp) + unat n) div 512)"
    and st: "stored (unat (fptr fp)) (unat (objsize fp)) (take (unat n) data) (raw fp fs cs @ ys) (raw fp1 fs1 (cs @ new))"
    and R: "length (raw fp fs cs @ ys) = cluster_bytes fs * length (cs @ new)"
  shows "written fp fs cs (take (unat n) data) new (advance n fp1) fs1"
proof -
  define x where "x = unat (fptr fp)"
  have p: "pos_ok fp fs cs" and v0: "vol_file fs cs" and bl: "length (buf fp) = 512"
    using f by (auto simp: file_ok_def buf_ok_def)
  have l: "layout fs1 = layout fs" using g by (simp add: grown_def)
  note e = layout_sects [OF l]
  have xo: "x \<le> unat (objsize fp)" using p by (simp add: pos_ok_def x_def word_le_nat_alt)
  have u: "unat (fptr fp + n) = x + unat n" using n(3) by (simp add: unat_plus_if' x_def)
  have os: "unat (objsize (advance n fp1)) = max (unat (objsize fp)) (x + unat n)"
    using u fld by (auto simp: word_less_nat_alt max_def)
  have lr: "unat (objsize fp) \<le> length (raw fp fs cs)" using raw_blocks(1) [OF v0 bl] p by (simp add: pos_ok_def)
  have lb: "length (take (unat n) data) = unat n" using n(2) by simp
  have "take (max (unat (objsize fp)) (x + unat n)) (raw fp1 fs1 (cs @ new)) =
      overwrite x (take (unat n) data) (take (unat (objsize fp)) (raw fp fs cs @ ys))"
    by (rule stored_content [OF st, folded x_def, unfolded lb]) (use xo lr R n(4) in \<open>simp_all add: x_def\<close>)
  also have "take (unat (objsize fp)) (raw fp fs cs @ ys) = content fp fs cs" using lr by (simp add: content_def)
  finally have c: "content (advance n fp1) fs1 (cs @ new) = overwrite x (take (unat n) data) (content fp fs cs)"
    unfolding content_def [of "advance n fp1"] os by simp
  have ne: "cs @ new \<noteq> []" using n(1,4) by (cases "cs @ new") auto
  have ol: "unat (objsize (advance n fp1)) \<le> cluster_bytes fs * length (cs @ new)"
    using os lr R n(4) by (simp add: x_def)
  have "pos_ok (advance n fp1) fs1 (cs @ new)"
    unfolding pos_ok_def e(1,2)
    using ne ol u n(1,5) se fld by (auto simp: x_def word_le_nat_alt word_less_nat_alt)
  then have "file_ok (advance n fp1) fs1 (cs @ new)" using v b by (simp add: file_ok_def)
  moreover have "alloc_ok (advance n fp1) fs1" by (rule alloc_ok_sect [OF a]) simp
  moreover have "unat (fptr (advance n fp1)) = unat (fptr fp) + length (take (unat n) data)"
    using u fld lb by (simp add: x_def)
  ultimately show ?thesis
    unfolding written_def using g c os fld u by (simp add: x_def del: advance_fields(2))
qed

lemma written_nothing:
  assumes f: "file_ok fp fs cs" and s: "same_file fp fs cs fp fs1" and a: "alloc_ok fp fs1" and g: "grown fs cs [] fs1"
  shows "written fp fs cs [] [] fp fs1"
proof -
  have v: "vol_file fs cs" and p: "pos_ok fp fs cs" and bl: "length (buf fp) = 512"
    using f by (auto simp: file_ok_def buf_ok_def)
  have l: "layout fs1 = layout fs" using s by (simp add: same_file_def)
  have "pos_ok fp fs1 cs" using p unfolding pos_ok_def layout_sects(1,2) [OF l] .
  moreover have "unat (fptr fp) \<le> unat (objsize fp)" using p by (simp add: pos_ok_def word_le_nat_alt)
  moreover have "content fp fs1 cs = content fp fs cs" using s by (simp add: content_def same_file_def)
  ultimately show ?thesis using s a g by (simp add: written_def file_ok_def same_file_def overwrite_def)
qed

lemma write_step_ok:
  assumes f: "file_ok fp fs cs" and a: "alloc_ok fp fs" and btw: "0 < btw" "unat btw \<le> length data"
    and lim: "unat (fptr fp) + unat btw < 2 ^ 32"
  obtains (full) fs1 where "write_step btw data fp fs = Some (Inr None, fp, fs1)" and "free_set fs1 = {}"
      and "written fp fs cs [] [] fp fs1"
    | (ok) n new fp1 fs1 where "write_step btw data fp fs = Some (Inr (Some n), fp1, fs1)" and "0 < unat n"
      and "unat n \<le> unat btw" and "written fp fs cs (take (unat n) data) new (advance n fp1) fs1"
proof -
  define x where "x = unat (fptr fp)"
  have v: "vol_file fs cs" and b: "buf_ok fp fs cs" and p: "pos_ok fp fs cs" and g: "data_geometry fs"
    using f by (auto simp: file_ok_def vol_file_def)
  have bl: "length (buf fp) = 512" using b by (simp add: buf_ok_def)
  show thesis
  proof (cases "x mod 512 = 0")
    case False
    then have fm: "fptr fp mod 512 \<noteq> 0" by (simp add: x_def word_unat_eq_iff unat_mod)
    have xo: "x \<le> unat (objsize fp)" "unat (objsize fp) \<le> cluster_bytes fs * length cs"
      using p by (simp_all add: pos_ok_def x_def word_le_nat_alt)
    have "x \<noteq> cluster_bytes fs * length cs" using False by (auto simp: cluster_bytes_def mult.assoc)
    then have xl: "x < cluster_bytes fs * length cs" using xo by simp
    have x0: "0 < x" using False by (cases x) auto
    have "x mod cluster_bytes fs \<noteq> 0" using False by (simp add: cluster_bytes_def mod_mult2_eq)
    then have "(x - 1) div cluster_bytes fs = x div cluster_bytes fs"
      using x0 data_geometryD(2) [OF g] pred_div [of x "cluster_bytes fs"] by (simp add: cluster_bytes_def)
    then have cl: "clust fp = cs ! (x div cluster_bytes fs)" and se: "sect fp = file_sects fs cs ! (x div 512)"
      using p False x0 by (auto simp: pos_ok_def x_def word_unat_eq_iff)
    have ne: "cs \<noteq> []" using xl by auto
    obtain n fp1 where w: "write_buffer btw data fp = (n, fp1)" "unat n = min (512 - x mod 512) (unat btw)"
      "raw fp1 fs cs = overwrite x (take (unat n) data) (raw fp fs cs)" "buf_ok fp1 fs cs"
      "sect fp1 = sect fp" "same_fields fp fp1"
      by (rule write_buffer_ok [OF v bl x_def xl se btw])
    have ws: "write_step btw data fp fs = Some (Inr (Some n), fp1, fs)" using fm w(1) by (simp add: write_step_def)
    have n0: "0 < unat n" "x mod 512 + unat n \<le> 512" "unat n \<le> unat btw"
      using w(2) btw(1) mod_less_divisor [of 512 x] by (auto simp: word_less_nat_alt)
    note span = sector_span [OF n0(1,2) xl]
    have st: "stored x (unat (objsize fp)) (take (unat n) data) (raw fp fs cs) (raw fp1 fs cs)"
      using w(3) by (auto simp: stored_def)
    have lens: "unat n \<le> length data" "unat (fptr fp) + unat n < 2 ^ 32" using n0(3) btw(2) lim by linarith+
    have c1: "clust fp1 = (cs @ []) ! (unat (fptr fp) div cluster_bytes fs)" and c2: "sclust fp1 = hd (cs @ [])"
      using w(6) cl ne p by (simp_all add: same_fields_def pos_ok_def x_def)
    have c3: "objsize fp1 = objsize fp" "fptr fp1 = fptr fp" "obj_id fp1 = obj_id fp" "err fp1 = err fp"
      "flag fp1 AND NOT FA_DIRTY = flag fp AND NOT FA_DIRTY" using w(6) by (simp_all add: same_fields_def)
    have v': "vol_file fs (cs @ [])" and b': "buf_ok fp1 fs (cs @ [])" using v w(4) by simp_all
    have nl: "unat (fptr fp) + unat n \<le> cluster_bytes fs * length (cs @ [])" using span(3) by (simp add: x_def)
    have se': "sect fp1 = file_sects fs (cs @ []) ! ((unat (fptr fp) + unat n) div 512)"
      if "(unat (fptr fp) + unat n) mod 512 \<noteq> 0"
      using span(2) [unfolded x_def, OF that] se w(5) by (simp only: x_def append_Nil2)
    have "written fp fs cs (take (unat n) data) [] (advance n fp1) fs"
      by (rule write_finish [OF f v' b' alloc_ok_sect [OF a w(5)] grown_refl c1 c2 c3 n0(1) lens
            nl span(1) [unfolded x_def] se', where ys = "[]"])
        (use st raw_blocks(1) [OF v bl] in \<open>simp_all add: x_def\<close>)
    then show thesis by (rule ok [OF ws n0(1,3)])
  next
    case al: True
    then have fm: "fptr fp mod 512 = 0" by (simp add: x_def word_unat_eq_iff unat_mod)
    define csect where "csect = (fptr fp div 512) AND (ucast (csize fs) - 1)"
    show thesis
    proof (cases rule: write_locate_ok [OF f a al [unfolded x_def] csect_def])
      case (1 fs1)
      have "write_step btw data fp fs = Some (Inr None, fp, fs1)"
        using fm 1(1) by (simp add: write_step_def csect_def [symmetric])
      then show thesis by (rule full [OF _ 1(2) written_nothing [OF f 1(3-5)]])
    next
      case (2 new fp1 fs1)
      define ds where "ds = cs @ new"
      have v1: "vol_file fs1 ds" and b1: "buf_ok fp1 fs1 ds" using 2 by (simp_all add: ds_def)
      obtain fp2 fs2 where fl: "flush_buf fp1 fs1 = (True, fp2, fs2)" and s2: "same_file fp1 fs1 ds fp2 fs2"
        and nd: "\<not> dirty fp2" and k2: "clust fp2 = clust fp1" "sect fp2 = sect fp1"
        by (rule flush_buf_ok [OF v1 b1]) blast
      obtain S where S: "wrote_data S fs1 fs2" "S \<subseteq> set (file_sects fs1 ds)"
        using flush_wrote [OF v1 b1 fl] by blast
      have a1: "alloc_ok fp1 fs1" and g1: "grown fs cs new fs1" using 2 by simp_all
      note W = wrote_file [OF v1 S a1 disjI1 [OF k2(2)]]
      have b2: "buf_ok fp2 fs2 ds" and fld2: "objsize fp2 = objsize fp" "fptr fp2 = fptr fp" "sclust fp2 = hd ds"
        "obj_id fp2 = obj_id fp" "err fp2 = err fp" "flag fp2 AND NOT FA_DIRTY = flag fp AND NOT FA_DIRTY"
        "clust fp2 = ds ! (x div cluster_bytes fs)"
        using s2 k2 2(2) by (simp_all add: same_file_def ds_def x_def)
      have l1: "layout fs1 = layout fs" using g1 by (simp add: grown_def)
      have l2: "layout fs2 = layout fs" using W(2) l1 by simp
      note e2 = layout_sects [OF l2]
      have xl: "unat (fptr fp2) < cluster_bytes fs2 * length ds" using 2(3) e2 fld2 by (simp add: ds_def)
      have al2: "unat (fptr fp2) mod 512 = 0" using al fld2 by (simp add: x_def)
      have cs2: "csect = (fptr fp2 div 512) AND (ucast (csize fs2) - 1)" by (simp add: csect_def fld2 e2)
      define s where "s = clst2sect fs2 (clust fp2) + csect"
      have s: "s = clst2sect fs2 (ds ! (unat (fptr fp2) div cluster_bytes fs2)) + csect"
        by (simp add: s_def fld2 e2 x_def)
      obtain n fp3 fs3 where ws: "write_sector btw csect s data fp2 fs2 = (Inr (Some n), fp3, fs3)"
        and v3: "vol_file fs3 ds" and b3: "buf_ok fp3 fs3 ds" and a3: "alloc_ok fp3 fs3" and g3: "grown fs2 ds [] fs3"
        and sf: "same_fields fp2 fp3" and n: "0 < unat n" "unat n \<le> unat btw"
        and nl: "unat (fptr fp2) + unat n \<le> cluster_bytes fs2 * length ds"
        and nd: "(unat (fptr fp2) + unat n - 1) div cluster_bytes fs2 = unat (fptr fp2) div cluster_bytes fs2"
        and se: "(unat (fptr fp2) + unat n) mod 512 \<noteq> 0 \<longrightarrow>
          sect fp3 = file_sects fs2 ds ! ((unat (fptr fp2) + unat n) div 512)"
        and st: "stored (unat (fptr fp2)) (unat (objsize fp2)) (take (unat n) data) (raw fp2 fs2 ds) (raw fp3 fs3 ds)"
        by (rule write_sector_ok [OF W(1) b2 W(4) nd al2 xl cs2 s btw])
      have "x div cluster_bytes fs < length ds"
        using position(2) [OF g, of x ds] 2(3) by (simp add: ds_def x_def)
      then have "2 \<le> clust fp2 \<and> clust fp2 < n_fatent fs2"
        using vol_file_clusters [OF W(1)] by (simp add: clusters_ok_def fld2)
      then have "clst2sect fs2 (clust fp2) \<noteq> 0"
        using clst2sect_nonzero [of fs2 "clust fp2"] W(1) by (simp add: vol_file_def)
      then have step: "write_step btw data fp fs = Some (Inr (Some n), fp3, fs3)"
        using fm 2(1) fl ws e2(4) by (simp add: write_step_def csect_def [symmetric] s_def)
      have "grown fs cs ((new @ []) @ []) fs3"
        using grown_trans [OF grown_trans [OF g1 W(5) [unfolded ds_def] v1 [unfolded ds_def]], of "[]" fs3]
          g3 W(1) by (simp add: ds_def)
      then have g03: "grown fs cs new fs3" by simp
      obtain ys where ys: "raw fp1 fs1 ds = raw fp fs cs @ ys" using 2(8) by (auto simp: ds_def)
      then have r2: "raw fp2 fs2 ds = raw fp fs cs @ ys" using s2 by (simp add: same_file_def)
      have "length (raw fp2 fs2 ds) = cluster_bytes fs * length ds"
        using raw_blocks(1) [OF W(1)] b2 e2(2) by (simp add: buf_ok_def)
      note R = this [unfolded r2]
      have lens: "unat n \<le> length data" "unat (fptr fp) + unat n < 2 ^ 32" using n(2) btw(2) lim by linarith+
      have fld3: "clust fp3 = ds ! (unat (fptr fp) div cluster_bytes fs)" "sclust fp3 = hd ds"
        "objsize fp3 = objsize fp" "fptr fp3 = fptr fp" "obj_id fp3 = obj_id fp" "err fp3 = err fp"
        "flag fp3 AND NOT FA_DIRTY = flag fp AND NOT FA_DIRTY"
        using sf fld2 by (simp_all add: same_fields_def x_def)
      have "written fp fs cs (take (unat n) data) new (advance n fp3) fs3"
        by (rule write_finish [OF f v3 [unfolded ds_def] b3 [unfolded ds_def] a3 g03 fld3 [unfolded ds_def] n(1) lens
              nl [unfolded fld2(2) e2(2) ds_def] nd [unfolded fld2(2) e2(2)] se [rule_format, unfolded fld2(2) e2(1) ds_def]
              st [unfolded fld2(1,2) r2, unfolded ds_def] R [unfolded ds_def]])
      then show thesis by (rule ok [OF step n])
    qed
  qed
qed

subsection \<open>The loop\<close>

lemma overwrite_overwrite:
  "x \<le> length xs \<Longrightarrow> overwrite (x + length bs) bs' (overwrite x bs xs) = overwrite x (bs @ bs') xs"
  by (simp add: overwrite_def ac_simps)

lemma written_trans:
  assumes f: "file_ok fp fs cs" and a: "written fp fs cs bs new fp1 fs1" and b: "written fp1 fs1 (cs @ new) bs' new' fp2 fs2"
  shows "written fp fs cs (bs @ bs') (new @ new') fp2 fs2"
proof -
  have "grown fs cs (new @ new') fs2"
    by (rule grown_trans [of _ _ _ fs1]) (use a b in \<open>simp_all add: written_def file_ok_def\<close>)
  moreover have "unat (fptr fp) \<le> length (content fp fs cs)"
    using content_length [OF f] f by (simp add: file_ok_def pos_ok_def word_le_nat_alt)
  ultimately show ?thesis using a b by (auto simp: written_def overwrite_overwrite)
qed

lemma f_write_loop_ok:
  assumes "file_ok fp fs cs" and "alloc_ok fp fs" and "unat btw \<le> length data" and "unat (fptr fp) + unat btw < 2 ^ 32"
  shows "\<exists>k new fp' fs'. f_write_loop btw data bw fp fs = Some (FR_OK, bw + k, fp', fs') \<and> unat k \<le> unat btw \<and>
    written fp fs cs (take (unat k) data) new fp' fs' \<and> (unat k < unat btw \<longrightarrow> free_set fs' = {})"
  using assms
proof (induction "unat btw" arbitrary: btw data bw fp fs cs rule: less_induct)
  case less
  show ?case
  proof (cases "btw = 0")
    case True
    have "written fp fs cs [] [] fp fs"
      by (rule written_nothing [OF less(2) same_file_refl [OF less(2)] less(3) grown_refl])
    then show ?thesis using True by (intro exI [of _ 0] exI [of _ "[]"] exI [of _ fp] exI [of _ fs]) (simp add: f_write_loop.simps)
  next
    case nz: False
    then have "0 < btw" by (simp add: word_gt_0)
    from less(2,3) this less(4,5) show ?thesis
    proof (cases rule: write_step_ok)
      case (full fs1)
      then show ?thesis using nz
        by (intro exI [of _ 0] exI [of _ "[]"] exI [of _ fp] exI [of _ fs1]) (simp add: f_write_loop.simps [of btw])
    next
      case (ok n new fp1 fs1)
      have u: "unat (btw - n) = unat btw - unat n" using ok(3) by (simp add: unat_sub word_le_nat_alt)
      have w: "written fp fs cs (take (unat n) data) new (advance n fp1) fs1" by (rule ok(4))
      have ln: "length (take (unat n) data) = unat n" using ok(3) less(4) by simp
      have pre: "unat (btw - n) < unat btw" "file_ok (advance n fp1) fs1 (cs @ new)" "alloc_ok (advance n fp1) fs1"
        "unat (btw - n) \<le> length (drop (unat n) data)" "unat (fptr (advance n fp1)) + unat (btw - n) < 2 ^ 32"
        using w ok(2,3) less(4,5) u ln by (simp_all add: written_def del: advance_fields(1))
      obtain k new' fp' fs' where l: "f_write_loop (btw - n) (drop (unat n) data) (bw + n) (advance n fp1) fs1 =
          Some (FR_OK, bw + n + k, fp', fs')" and k: "unat k \<le> unat (btw - n)"
        and w': "written (advance n fp1) fs1 (cs @ new) (take (unat k) (drop (unat n) data)) new' fp' fs'"
        and fr: "unat k < unat (btw - n) \<longrightarrow> free_set fs' = {}"
        using less(1) [OF pre, of "bw + n"] by blast
      have nk: "unat (n + k) = unat n + unat k" using k u ok(3) unat_u32_less [of btw] by (simp add: unat_plus_if')
      have "written fp fs cs (take (unat n) data @ take (unat k) (drop (unat n) data)) (new @ new') fp' fs'"
        by (rule written_trans [OF less(2) w w'])
      then have "written fp fs cs (take (unat (n + k)) data) (new @ new') fp' fs'" by (simp add: nk take_add)
      moreover have "f_write_loop btw data bw fp fs = Some (FR_OK, bw + (n + k), fp', fs')"
        using l nz ok(1) by (simp add: f_write_loop.simps [of btw] advance_def Let_def add.assoc)
      ultimately show ?thesis using k u ok(3) fr nk by (intro exI [of _ "n + k"]) auto
    qed
  qed
qed

lemma flag_modified [simp]: "(x OR 64) AND 128 = (x AND 128 :: u8)"
  by (simp add: word_ao_dist)

lemma modified_fields [simp]:
  "file_ok (fp\<lparr>flag := flag fp OR 64\<rparr>) = file_ok fp" "alloc_ok (fp\<lparr>flag := flag fp OR 64\<rparr>) = alloc_ok fp"
  "content (fp\<lparr>flag := flag fp OR 64\<rparr>) = content fp"
  by (simp_all add: file_ok_def buf_ok_def pos_ok_def dirty_def alloc_ok_def content_def fun_eq_iff)

lemma f_write_ok:
  assumes "file_ok fp fs cs" and "alloc_ok fp fs" and "obj_id fp = Some (vol_id fs)" and "err fp = FR_OK"
    and "flag fp AND FA_WRITE \<noteq> 0" and "stat AND STA_NOINIT = 0" and "unat btw \<le> length data"
  shows "\<exists>k new fp1 fs'. f_write True stat data btw fp fs = Some (FR_OK, k, fp1\<lparr>flag := flag fp1 OR FA_MODIFIED\<rparr>, fs') \<and>
    written fp fs cs (take (unat k) data) new fp1 fs' \<and> unat k \<le> unat btw \<and>
    (unat k < unat btw \<longrightarrow> free_set fs' = {} \<or> unat (fptr fp) + unat k = 2 ^ 32 - 1)"
proof -
  define n where "n = (if fptr fp + btw < fptr fp then 0xFFFFFFFF - fptr fp else btw)"
  have lim: "unat (fptr fp) + unat n < 2 ^ 32 \<and> unat n \<le> unat btw \<and> (unat n < unat btw \<longrightarrow> unat (fptr fp) + unat n = 2 ^ 32 - 1)"
  proof (cases "fptr fp + btw < fptr fp")
    case True
    then have "2 ^ 32 \<le> unat (fptr fp) + unat btw" by (auto simp: word_less_nat_alt unat_plus_if' split: if_splits)
    moreover have "unat n = 2 ^ 32 - 1 - unat (fptr fp)"
      using True unat_u32_less [of "fptr fp"] by (simp add: n_def unat_sub word_le_nat_alt)
    ultimately show ?thesis using unat_u32_less [of "fptr fp"] by simp
  next
    case False
    then have "unat (fptr fp) + unat btw < 2 ^ 32"
      using unat_u32_less [of btw] by (auto simp: word_less_nat_alt unat_plus_if' split: if_splits)
    then show ?thesis using False by (simp add: n_def)
  qed
  have "fs_type fs \<noteq> FS_NONE" using assms(1) by (auto simp: file_ok_def vol_file_def fs_ready_def geometry_def)
  then have r: "f_write True stat data btw fp fs =
      (case f_write_loop n data 0 fp fs of None \<Rightarrow> None
       | Some (res, bw, fp1, fs1) \<Rightarrow> Some (res, bw, if res = FR_OK then fp1\<lparr>flag := flag fp1 OR FA_MODIFIED\<rparr> else fp1, fs1))"
    using assms by (simp add: f_write_def validate_def n_def Let_def)
  obtain k new fp1 fs' where "f_write_loop n data 0 fp fs = Some (FR_OK, k, fp1, fs')" and k: "unat k \<le> unat n"
    and "written fp fs cs (take (unat k) data) new fp1 fs'" and fr: "unat k < unat n \<longrightarrow> free_set fs' = {}"
    using f_write_loop_ok [OF assms(1,2), of n data 0] assms(7) lim by auto
  moreover have "unat k < unat btw \<longrightarrow> free_set fs' = {} \<or> unat (fptr fp) + unat k = 2 ^ 32 - 1"
    using fr k lim by (cases "unat k = unat n") auto
  ultimately show ?thesis using r k lim by fastforce
qed

text \<open>
  C20: writing refines the abstract file. On a consistent volume and file \<open>f_write\<close> always
  returns; the bytes it wrote take the place of those from the file pointer on, the rest of the
  content is as it was, the pointer moves behind them. Every cluster it takes was free, and no
  other table entry and no other data sector changes. It writes less than it was asked for
  only when no cluster is free any more or the file has its largest size.
\<close>

theorem f_write_refines:
  assumes "file_ok fp fs cs" and "alloc_ok fp fs" and "obj_id fp = Some (vol_id fs)" and "err fp = FR_OK"
    and "flag fp AND FA_WRITE \<noteq> 0" and "stat AND STA_NOINIT = 0" and "unat btw \<le> length data"
  shows "\<exists>k new fp' fs'. f_write True stat data btw fp fs = Some (FR_OK, k, fp', fs') \<and> unat k \<le> unat btw \<and>
    (unat k < unat btw \<longrightarrow> free_set fs' = {} \<or> unat (fptr fp) + unat k = 2 ^ 32 - 1) \<and>
    file_ok fp' fs' (cs @ new) \<and> alloc_ok fp' fs' \<and> unat (fptr fp') = unat (fptr fp) + unat k \<and>
    content fp' fs' (cs @ new) = overwrite (unat (fptr fp)) (take (unat k) data) (content fp fs cs) \<and>
    (\<forall>d \<in> set new. fatmap fs d = 0) \<and> (\<forall>d. d \<notin> set (cs @ new) \<longrightarrow> fatmap fs' d = fatmap fs d) \<and>
    (\<forall>s. data_sect fs s \<and> s \<notin> set (file_sects fs (cs @ new)) \<longrightarrow> view fs' s = view fs s)"
proof -
  obtain k new fp1 fs' where w: "f_write True stat data btw fp fs = Some (FR_OK, k, fp1\<lparr>flag := flag fp1 OR FA_MODIFIED\<rparr>, fs')"
    and W: "written fp fs cs (take (unat k) data) new fp1 fs'" and k: "unat k \<le> unat btw"
    and e: "unat k < unat btw \<longrightarrow> free_set fs' = {} \<or> unat (fptr fp) + unat k = 2 ^ 32 - 1"
    using f_write_ok [OF assms] by blast
  have "length (take (unat k) data) = unat k" using k assms(7) by simp
  then show ?thesis
    using W k e unfolding written_def grown_def
    by (intro exI [of _ k] exI [of _ new] exI [of _ "fp1\<lparr>flag := flag fp1 OR FA_MODIFIED\<rparr>"] exI [of _ fs'] conjI w) simp_all
qed

lemma demo_alloc:
  assumes "sect fp = 0"
  shows "alloc_ok fp (demo_links 3 0xFFFF)"
proof -
  define F where "F = demo_links 3 0xFFFF"
  have n: "n_fatent F = 10" "free_clst F = 0xFFFFFFFF"
    and m: "fatmap F = (\<lambda>d. if 2 \<le> d \<and> d < 10 then 0 else 1)(2 := 3, 3 := 0xFFFF)"
    using demo_links [of 3 "0xFFFF"] by (simp_all add: F_def)
  have g: "data_geometry F" using demo_links_file(1) by (simp add: F_def vol_file_def)
  have "s \<noteq> winsect F \<and> s \<noteq> 0" if "fatmap F c = 0" "s \<in> set (cluster_sects F c)" for c s
  proof -
    have "2 \<le> c" "c < n_fatent F" using fatmap_range [of F c] that(1) by auto
    then have "data_sect F s" using cluster_data_sect [OF g] that(2) by blast
    then show ?thesis using demo_links_file(5) by (simp add: F_def)
  qed
  moreover have "count_ok F" by (simp add: count_ok_def n)
  moreover have "fatmap F d \<noteq> 1" if "2 \<le> d" "d < n_fatent F" for d using that by (simp add: m n)
  ultimately have "alloc_ok fp F" unfolding alloc_ok_def assms by blast
  then show ?thesis by (simp only: F_def)
qed

theorem f_write_refines_witness:
  "\<exists>k new fp' fs'. f_write True 0 [7, 8, 9] 3 (demo_fil\<lparr>flag := FA_WRITE\<rparr>) (demo_links 3 0xFFFF) = Some (FR_OK, k, fp', fs') \<and>
    take (unat k) (content fp' fs' ([2, 3] @ new)) = take (unat k) [7, 8, 9]"
proof -
  define F where "F = demo_links 3 0xFFFF"
  define fp where "fp = demo_fil\<lparr>flag := FA_WRITE\<rparr>"
  have v: "vol_file F [2, 3]" "vol_id F = 1" "csize F = 1" "file_sects F [2, 3] = [4, 5]"
    using demo_links_file by (simp_all add: F_def)
  have f: "file_ok fp F [2, 3]"
    using v by (simp add: file_ok_def buf_ok_def pos_ok_def demo_fil_def dirty_def cluster_bytes_def fp_def)
  have a: "alloc_ok fp F" unfolding F_def by (rule demo_alloc) (simp add: fp_def demo_fil_def)
  have p: "unat (fptr fp) = 0" "obj_id fp = Some (vol_id F)" "err fp = FR_OK" "flag fp AND FA_WRITE \<noteq> 0"
    using v(2) by (simp_all add: fp_def demo_fil_def)
  obtain k new fp' fs' where w: "f_write True 0 [7, 8, 9] 3 fp F = Some (FR_OK, k, fp', fs')" "unat k \<le> unat (3 :: u32)"
    "content fp' fs' ([2, 3] @ new) = overwrite (unat (fptr fp)) (take (unat k) [7, 8, 9]) (content fp F [2, 3])"
    using f_write_refines [OF f a p(2-4), of 0 3 "[7, 8, 9]"] by auto
  then have "take (unat k) (content fp' fs' ([2, 3] @ new)) = take (unat k) [7, 8, 9]"
    by (simp add: overwrite_def p(1))
  then show ?thesis using w(1) unfolding F_def [symmetric] fp_def [symmetric] by blast
qed

end
