(* ===== verification/FatFs_Seek.thy ===== *)
theory FatFs_Seek
  imports FatFs_Write
begin

text \<open>
  Seeking within a file: \<open>f_lseek\<close> walks the chain from the current cluster or from the first
  one and ends at the position asked for, with the right cluster and the right sector in the
  buffer; the file stays what it was. Together with \<open>f_write_refines\<close> and \<open>f_read_refines\<close>
  it gives the round trip of writing, seeking back and reading.
\<close>

lemma unat_and_not_mask: "unat (x AND NOT (2 ^ n - 1) :: u32) = 2 ^ n * (unat x div 2 ^ n)"
proof -
  have "x AND NOT (mask n) = push_bit n (drop_bit n x)"
    by (rule bit_word_eqI) (auto simp: bit_simps)
  then have e: "x AND NOT (2 ^ n - 1) = push_bit n (drop_bit n x)" by (simp add: mask_eq_exp_minus_1)
  have "2 ^ n * (unat x div 2 ^ n) \<le> unat x" by simp
  moreover have l: "unat x < 2 ^ 32" using unat_u32_less [of x] by simp
  ultimately have "2 ^ n * (unat x div 2 ^ n) < 2 ^ 32" by (rule le_less_trans)
  moreover have "unat (push_bit n (drop_bit n x)) = take_bit 32 (2 ^ n * (unat x div 2 ^ n))"
    by (simp only: unsigned_push_bit_eq unsigned_drop_bit_eq)
      (simp add: push_bit_eq_mult drop_bit_eq_div mult.commute take_bit_nat_eq_self [OF l])
  ultimately show ?thesis unfolding e by (simp add: take_bit_nat_eq_self)
qed

text \<open>The size of a cluster as the code computes it.\<close>

lemma bcs_bytes:
  assumes "data_geometry fs"
  shows "unat (ucast (csize fs) * 512 :: u32) = cluster_bytes fs" and "0 < cluster_bytes fs"
    and "cluster_bytes fs mod 512 = 0"
    and "unat (x AND NOT (ucast (csize fs) * 512 - 1) :: u32) = cluster_bytes fs * (unat x div cluster_bytes fs)"
proof -
  obtain k where k: "k \<le> 15" "unat (csize fs) = 2 ^ k" using assms by (auto simp: data_geometry_def)
  have c: "(ucast (csize fs) :: u32) = 2 ^ k"
    using csize_u32 [of fs] k unat_pow2 by (simp add: word_unat_eq_iff)
  have e: "ucast (csize fs) * 512 = (2 ^ (k + 9) :: u32)" by (simp add: c power_add)
  have "unat (csize fs) \<le> 2 ^ 15" using data_geometryD(3) [OF assms] .
  then show "unat (ucast (csize fs) * 512 :: u32) = cluster_bytes fs"
    by (simp add: unat_mult_lem [THEN iffD1] csize_u32 cluster_bytes_def)
  show "0 < cluster_bytes fs" "cluster_bytes fs mod 512 = 0" by (simp_all add: cluster_bytes_def k(2))
  have "cluster_bytes fs = 2 ^ (k + 9)" by (simp add: cluster_bytes_def k(2) power_add)
  then show "unat (x AND NOT (ucast (csize fs) * 512 - 1) :: u32) = cluster_bytes fs * (unat x div cluster_bytes fs)"
    unfolding e by (simp only: unat_and_not_mask)
qed

text \<open>One link of the chain, as a seek in either mode follows it.\<close>

lemma next_cluster:
  assumes v: "vol_file fs cs" and j: "Suc j < length cs" and a: "wr \<longrightarrow> alloc_ok fp fs"
  obtains fs1 where "(if wr then create_chain (cs ! j) fs else Some (get_fat (cs ! j) fs)) = Some (cs ! Suc j, fs1)"
    and "unchanged fs fs1"
proof (cases wr)
  case True
  then show thesis using follow_chain [OF v _ j] a that by auto
next
  case False
  have m: "mounted fs" and io: "io_ok fs" and ch: "chain (fatmap fs) (n_fatent fs) (hd cs) cs"
    using v j by (auto simp: vol_file_def mounted_ready)
  obtain w fs1 where g: "get_fat (cs ! j) fs = (w, fs1)" and u: "unchanged fs fs1"
    and e: "w = fatmap fs (cs ! j) \<or> w = 0xFFFFFFFF \<and> \<not> io_ok fs"
    by (rule get_fat_unchanged [OF m])
  have "w = cs ! Suc j" using e io chain_nth [OF ch j] by auto
  then show thesis using that g u False by simp
qed

lemma alloc_unchanged: "alloc_ok fp fs \<Longrightarrow> vol_file fs cs \<Longrightarrow> unchanged fs fs1 \<Longrightarrow> alloc_ok fp fs1"
  by (rule alloc_kept [of fp fs cs fs1]) (auto simp: alloc_ok_def dest: unchangedD(1,3,10))

lemma seek_loop_ok:
  assumes "vol_file fs cs" and "flag fp AND FA_WRITE \<noteq> 0 \<longrightarrow> alloc_ok fp fs" and "j < length cs"
    and "unat bcs = M" "0 < M" "0 < unat ofs" "M * j + unat ofs \<le> M * length cs" "M * j + unat ofs < 2 ^ 32"
    and "unat (fptr fp) = M * j" "clust fp = cs ! j"
  shows "\<exists>ofs' i fs'. seek_loop bcs ofs (cs ! j) fp fs =
      Some (Inr (ofs', cs ! i), fp\<lparr>fptr := of_nat (M * i), clust := cs ! i\<rparr>, fs') \<and> i < length cs \<and>
    0 < unat ofs' \<and> unat ofs' \<le> M \<and> M * i + unat ofs' = M * j + unat ofs \<and> unchanged fs fs'"
  using assms
proof (induction "unat ofs" arbitrary: ofs fp fs j rule: less_induct)
  case less
  have m: "mounted fs" using less(2) by (auto simp: vol_file_def mounted_ready)
  show ?case
  proof (cases "ofs > bcs")
    case False
    then have "unat ofs \<le> M" using less(5) by (simp add: word_less_nat_alt)
    moreover have "of_nat (M * j) = fptr fp" by (simp add: less(10) [symmetric])
    moreover have "fp\<lparr>fptr := fptr fp, clust := cs ! j\<rparr> = fp" using less(11) by (cases fp) simp
    ultimately show ?thesis using False less(4,7) unchanged_refl [OF m]
      by (intro exI [of _ ofs] exI [of _ j] exI [of _ fs]) (simp add: seek_loop.simps)
  next
    case True
    then have lt: "M < unat ofs" using less(5) by (simp add: word_less_nat_alt)
    then have u: "unat (ofs - bcs) = unat ofs - M" using less(5) by (simp add: unat_sub word_le_nat_alt)
    have "M * j + M < M * length cs" using lt less(8) by simp
    then have "M * Suc j < M * length cs" by simp
    then have j: "Suc j < length cs" by (metis mult_less_cancel1)
    define wr where "wr \<longleftrightarrow> flag fp AND FA_WRITE \<noteq> 0"
    obtain fs1 where n: "(if wr then create_chain (cs ! j) fs else Some (get_fat (cs ! j) fs)) = Some (cs ! Suc j, fs1)"
      and uc: "unchanged fs fs1"
      by (rule next_cluster [OF less(2) j]) (use less(3) in \<open>auto simp: wr_def\<close>)
    have d: "2 \<le> cs ! Suc j" "cs ! Suc j < n_fatent fs"
      using vol_file_clusters [OF less(2)] j by (auto simp: clusters_ok_def)
    have big: "cs ! Suc j \<noteq> 0" "cs ! Suc j \<noteq> 0xFFFFFFFF" "\<not> cs ! Suc j \<le> 1" "\<not> n_fatent fs1 \<le> cs ! Suc j"
      using d unat_u32_less [of "n_fatent fs"] unchangedD(2) [OF uc] by (auto simp: word_less_nat_alt word_le_nat_alt)
    define fp1 where "fp1 = fp\<lparr>fptr := fptr fp + bcs, clust := cs ! Suc j\<rparr>"
    have step: "seek_loop bcs ofs (cs ! j) fp fs = seek_loop bcs (ofs - bcs) (cs ! Suc j) fp1 fs1"
      using True n big by (subst seek_loop.simps) (simp add: wr_def fp1_def Let_def)
    have v1: "vol_file fs1 cs" using vol_file_kept(1) [OF less(2) unchangedD(1,3) [OF uc]] .
    have fp: "unat (fptr fp + bcs) = M * Suc j"
      using less(5,9,10) lt by (simp add: unat_plus_if')
    have al1: "flag fp1 AND FA_WRITE \<noteq> 0 \<longrightarrow> alloc_ok fp1 fs1"
      using less(3) alloc_unchanged [OF _ less(2) uc] alloc_ok_sect [of fp fs1 fp1] by (auto simp: fp1_def)
    have pre: "unat (ofs - bcs) < unat ofs" "0 < unat (ofs - bcs)" "M * Suc j + unat (ofs - bcs) \<le> M * length cs"
      "M * Suc j + unat (ofs - bcs) < 2 ^ 32" "unat (fptr fp1) = M * Suc j" "clust fp1 = cs ! Suc j"
      using u lt less(6,8,9) fp by (simp_all add: fp1_def)
    obtain ofs' i fs' where r: "seek_loop bcs (ofs - bcs) (cs ! Suc j) fp1 fs1 =
        Some (Inr (ofs', cs ! i), fp1\<lparr>fptr := of_nat (M * i), clust := cs ! i\<rparr>, fs')" "i < length cs"
      "0 < unat ofs'" "unat ofs' \<le> M" "M * i + unat ofs' = M * Suc j + unat (ofs - bcs)" "unchanged fs1 fs'"
      using less(1) [OF pre(1) v1 al1 j less(5,6) pre(2-6)] by blast
    have "M * Suc j + unat (ofs - bcs) = M * j + unat ofs" using u lt by simp
    then show ?thesis using r step unchanged_trans [OF uc r(6)]
      by (intro exI [of _ ofs'] exI [of _ i] exI [of _ fs']) (simp add: fp1_def)
  qed
qed

lemma unat_of_nat_u32: "n < 2 ^ 32 \<Longrightarrow> unat (of_nat n :: u32) = n"
  by (simp add: unat_of_nat take_bit_nat_eq_self)

lemma seek_start_ok:
  assumes f: "file_ok fp fs cs" and o: "0 < ofs" "ofs \<le> objsize fp"
  obtains j r where "seek_start (ucast (csize fs) * 512) ofs fp fs =
      Some (Inr (r, cs ! j), fp\<lparr>fptr := of_nat (cluster_bytes fs * j), clust := cs ! j\<rparr>, fs)"
    and "j < length cs" and "0 < unat r" and "cluster_bytes fs * j + unat r = unat ofs" and "cs ! j \<noteq> 0"
proof -
  define M where "M = cluster_bytes fs"
  define bcs :: u32 where "bcs = ucast (csize fs) * 512"
  define x where "x = unat (fptr fp)"
  have v: "vol_file fs cs" and p: "pos_ok fp fs cs" and g: "data_geometry fs" using f by (auto simp: file_ok_def vol_file_def)
  note B = bcs_bytes [OF g, folded M_def bcs_def]
  have T: "0 < unat ofs" "unat ofs \<le> M * length cs" "x \<le> M * length cs"
    using o p by (simp_all add: pos_ok_def word_less_nat_alt word_le_nat_alt M_def x_def)
  have nz: "cs ! j \<noteq> 0" if "j < length cs" for j
    using vol_file_clusters [OF v] nth_mem [OF that] by (fastforce simp: clusters_ok_def)
  show thesis
  proof (cases "fptr fp > 0 \<and> (ofs - 1) div bcs \<ge> (fptr fp - 1) div bcs")
    case True
    define j where "j = (x - 1) div M"
    have x0: "0 < x" using True by (simp add: x_def word_less_nat_alt)
    have u1: "unat (ofs - 1) = unat ofs - 1" "unat (fptr fp - 1) = x - 1"
      using T(1) x0 by (simp_all add: unat_sub word_le_nat_alt x_def)
    have le: "j \<le> (unat ofs - 1) div M" using True u1 B(1) by (simp add: word_le_nat_alt unat_div j_def)
    have "M * ((unat ofs - 1) div M) \<le> unat ofs - 1" by (rule times_div_less_eq_dividend)
    moreover have "M * j \<le> M * ((unat ofs - 1) div M)" using le by simp
    ultimately have lt: "M * j < unat ofs" using T(1) by linarith
    then have "M * j < M * length cs" using T(2) by linarith
    then have jl: "j < length cs" using B(2) by simp
    define ptr where "ptr = (fptr fp - 1) AND NOT (bcs - 1)"
    have up: "unat ptr = M * j" unfolding ptr_def bcs_def using B(4) u1(2) by (simp add: j_def bcs_def)
    have "unat (ofs - ptr) = unat ofs - M * j" using lt up by (simp add: unat_sub word_le_nat_alt)
    moreover have "ptr = of_nat (M * j)" by (simp add: up [symmetric])
    moreover have "clust fp = cs ! j" using p x0 by (auto simp: pos_ok_def j_def M_def x_def)
    then have "fp\<lparr>fptr := ptr\<rparr> = fp\<lparr>fptr := ptr, clust := cs ! j\<rparr>" by (cases fp) simp
    ultimately show thesis
      using that [of "ofs - ptr" j] True lt jl nz [OF jl] \<open>clust fp = cs ! j\<close>
      by (simp add: seek_start_def bcs_def [symmetric] Let_def ptr_def [symmetric] M_def [symmetric])
  next
    case False
    have ne: "cs \<noteq> []" using T B(2) by auto
    then have "sclust fp = cs ! 0" using p by (simp add: pos_ok_def hd_conv_nth)
    then show thesis
      using that [of ofs 0] False ne nz [of 0] T(1)
      by (simp add: seek_start_def bcs_def [symmetric] Let_def)
  qed
qed

lemma seek_walk_ok:
  assumes f: "file_ok fp fs cs" and o: "ofs \<le> objsize fp" and a: "flag fp AND FA_WRITE \<noteq> 0 \<longrightarrow> alloc_ok fp fs"
  obtains nsect c fs1 where "seek_walk ofs fp fs = Some (Inr nsect, fp\<lparr>fptr := ofs, clust := c\<rparr>, fs1)"
    and "ofs \<noteq> 0 \<longrightarrow> c = cs ! ((unat ofs - 1) div cluster_bytes fs)"
    and "unat ofs mod 512 \<noteq> 0 \<longrightarrow> nsect = file_sects fs cs ! (unat ofs div 512)" and "unchanged fs fs1"
proof (cases "ofs = 0")
  case True
  have "mounted fs" using f by (auto simp: file_ok_def vol_file_def mounted_ready)
  moreover have "fp\<lparr>fptr := 0\<rparr> = fp\<lparr>fptr := 0, clust := clust fp\<rparr>" by (cases fp) simp
  ultimately show thesis using that [of 0 "clust fp" fs] True unchanged_refl by (simp add: seek_walk_def)
next
  case False
  then have o0: "0 < ofs" by (simp add: word_gt_0)
  define M where "M = cluster_bytes fs"
  define m where "m = unat (csize fs)"
  define bcs :: u32 where "bcs = ucast (csize fs) * 512"
  define T where "T = unat ofs"
  have v: "vol_file fs cs" and p: "pos_ok fp fs cs" and g: "data_geometry fs" using f by (auto simp: file_ok_def vol_file_def)
  note B = bcs_bytes [OF g, folded M_def bcs_def]
  have M: "M = 512 * m" by (simp add: M_def m_def cluster_bytes_def)
  have Tl: "T \<le> M * length cs" "T < 2 ^ 32"
    using o p unat_u32_less [of ofs] by (simp_all add: pos_ok_def word_le_nat_alt M_def T_def)
  obtain j r where st: "seek_start bcs ofs fp fs = Some (Inr (r, cs ! j), fp\<lparr>fptr := of_nat (M * j), clust := cs ! j\<rparr>, fs)"
    and j: "j < length cs" "0 < unat r" "M * j + unat r = T" "cs ! j \<noteq> 0"
    by (rule seek_start_ok [OF f o0 o]) (simp add: M_def bcs_def T_def)
  define fp1 where "fp1 = fp\<lparr>fptr := of_nat (M * j), clust := cs ! j\<rparr>"
  have uj: "unat (fptr fp1) = M * j" using unat_of_nat_u32 [of "M * j"] j(3) Tl(2) by (simp add: fp1_def del: of_nat_mult)
  have a1: "flag fp1 AND FA_WRITE \<noteq> 0 \<longrightarrow> alloc_ok fp1 fs" using a alloc_ok_sect [of fp fs fp1] by (auto simp: fp1_def)
  have cl1: "clust fp1 = cs ! j" by (simp add: fp1_def)
  obtain q i fs1 where lp: "seek_loop bcs r (cs ! j) fp1 fs =
      Some (Inr (q, cs ! i), fp1\<lparr>fptr := of_nat (M * i), clust := cs ! i\<rparr>, fs1)"
    and i: "i < length cs" "0 < unat q" "unat q \<le> M" "M * i + unat q = T" and u: "unchanged fs fs1"
    using seek_loop_ok [OF v a1 j(1) B(1,2) j(2) _ _ uj cl1] j(3) Tl by auto
  have fin: "of_nat (M * i) + q = ofs"
  proof -
    have "unat (of_nat (M * i) + q) = unat ofs"
      using i(4) Tl(2) unat_of_nat_u32 [of "M * i"] by (simp add: unat_plus_if' T_def del: of_nat_mult)
    then show ?thesis by (simp add: word_unat_eq_iff)
  qed
  have im: "(T - 1) div M = i"
  proof -
    have "T - 1 = M * i + (unat q - 1)" "unat q - 1 < M" using i(2-4) by linarith+
    then show ?thesis by (metis div_mult_self4 div_less add_0_right not_less_zero)
  qed
  have tq: "T mod 512 = unat q mod 512" using i(4) M by (metis mod_mult_self4 mult.assoc)
  define ns where "ns = clst2sect fs1 (cs ! i)"
  have l: "layout fs1 = layout fs" using unchangedD(1) [OF u] by (simp add: data_kept_def)
  have ci: "2 \<le> cs ! i" "cs ! i < n_fatent fs" using vol_file_clusters [OF v] i(1) by (auto simp: clusters_ok_def)
  have n0: "ns \<noteq> 0" using clst2sect_nonzero [OF g ci] layout_sects(5) [OF l] by (simp add: ns_def)
  have ns: "ns + q div 512 = file_sects fs cs ! (T div 512)" if "T mod 512 \<noteq> 0"
  proof -
    have qm: "unat q < M" using that tq i(3) M by (cases "unat q = M") auto
    have "M * i + M \<le> M * length cs" using i(1) mult_le_mono2 [of "Suc i" "length cs" M] by simp
    then have "T < M * length cs" using qm i(4) by linarith
    from position(4) [OF g this [unfolded M_def]]
    have "file_sects fs cs ! (T div 512) = clst2sect fs (cs ! (T div M)) + of_nat (T div 512 mod m)"
      by (simp add: M_def m_def)
    moreover have "T div M = i" using i(4) qm by (metis div_mult_self4 div_less add_0_right not_less_zero)
    moreover have "T div 512 mod m = unat q div 512"
    proof -
      have "T div 512 = m * i + unat q div 512" using i(4) M by (metis div_mult_self4 mult.assoc zero_neq_numeral)
      moreover have "unat q div 512 < m" using qm M by (simp add: less_mult_imp_div_less mult.commute)
      ultimately show ?thesis by simp
    qed
    moreover have "unat q div 512 = unat (q div 512)" by (simp add: unat_div)
    then have "q div 512 = of_nat (unat q div 512)" by (simp only: word_of_nat_eq_iff unsigned_of_nat) simp
    ultimately show ?thesis using layout_sects(5) [OF l] by (simp add: ns_def)
  qed
  have qz: "q mod 512 \<noteq> 0 \<longleftrightarrow> T mod 512 \<noteq> 0" using tq by (simp add: word_unat_eq_iff unat_mod)
  have "seek_walk ofs fp fs = Some (Inr (if q mod 512 \<noteq> 0 then ns + q div 512 else 0),
      fp\<lparr>fptr := ofs, clust := cs ! i\<rparr>, fs1)"
    using o0 st j(4) lp n0 fin by (simp add: seek_walk_def bcs_def [symmetric] fp1_def [symmetric] Let_def ns_def) (simp add: fp1_def)
  then show thesis
    by (rule that) (use im ns qz u in \<open>simp_all add: T_def M_def\<close>)
qed

lemma unchanged_file:
  assumes f: "file_ok fp fs cs" and u: "unchanged fs fs1"
  shows "same_file fp fs cs fp fs1"
proof -
  have "same_file fp fs cs (fp\<lparr>clust := clust fp\<rparr>) fs1"
    by (rule same_file_located [OF f unchangedD(1,3) [OF u]])
  then show ?thesis by simp
qed

text \<open>
  A seek within the file, in either mode, ends at the offset asked for (one past the end is
  clipped when the file is not open for writing), with the content and the consistency of the
  file as they were.
\<close>

lemma f_lseek_correct:
  assumes "file_ok fp fs cs" and "obj_id fp = Some (vol_id fs)" and "err fp = FR_OK" and "stat AND STA_NOINIT = 0"
    and "flag fp AND FA_WRITE \<noteq> 0 \<Longrightarrow> alloc_ok fp fs \<and> ofs \<le> objsize fp"
  shows "case f_lseek True stat ofs fp fs of
      None \<Rightarrow> False
    | Some (res, fp', fs') \<Rightarrow>
        res = FR_OK \<and> fptr fp' = (if ofs > objsize fp then objsize fp else ofs) \<and> file_ok fp' fs' cs \<and>
        content fp' fs' cs = content fp fs cs \<and> objsize fp' = objsize fp \<and> err fp' = FR_OK \<and>
        obj_id fp' = obj_id fp \<and> vol_id fs' = vol_id fs \<and> flag fp' AND NOT FA_DIRTY = flag fp AND NOT FA_DIRTY"
proof -
  define o1 where "o1 = (if ofs > objsize fp then objsize fp else ofs)"
  have o: "o1 \<le> objsize fp" by (auto simp: o1_def)
  have v: "vol_file fs cs" and b: "buf_ok fp fs cs" and p: "pos_ok fp fs cs" using assms(1) by (auto simp: file_ok_def)
  have t: "fs_type fs \<noteq> FS_NONE" using v by (auto simp: vol_file_def fs_ready_def geometry_def)
  have clip: "(if ofs > objsize fp \<and> flag fp AND FA_WRITE = 0 then objsize fp else ofs) = o1"
    using assms(5) by (auto simp: o1_def)
  obtain nsect c fs1 where w: "seek_walk o1 fp fs = Some (Inr nsect, fp\<lparr>fptr := o1, clust := c\<rparr>, fs1)"
    and c: "o1 \<noteq> 0 \<longrightarrow> c = cs ! ((unat o1 - 1) div cluster_bytes fs)"
    and ns: "unat o1 mod 512 \<noteq> 0 \<longrightarrow> nsect = file_sects fs cs ! (unat o1 div 512)" and u: "unchanged fs fs1"
    by (rule seek_walk_ok [OF assms(1) o]) (use assms(5) in auto)
  define fp1 where "fp1 = fp\<lparr>fptr := o1, clust := c\<rparr>"
  have r: "f_lseek True stat ofs fp fs = Some (seek_fill nsect fp1 fs1)"
    using assms(2-4) t w unfolding f_lseek_def clip by (simp add: validate_def fp1_def)
  have s1: "same_file fp1 fs cs fp1 fs1"
  proof -
    have "same_file fp fs cs fp fs1" by (rule unchanged_file [OF assms(1) u])
    then show ?thesis by (simp add: same_file_def fp1_def)
  qed
  have v1: "vol_file fs1 cs" and b1: "buf_ok fp1 fs1 cs" and l1: "layout fs1 = layout fs"
    using s1 by (auto simp: same_file_def)
  have pos: "pos_ok fp2 fs2 cs" if "layout fs2 = layout fs" "objsize fp2 = objsize fp" "sclust fp2 = sclust fp"
    "fptr fp2 = o1" "clust fp2 = c" "unat o1 mod 512 \<noteq> 0 \<longrightarrow> sect fp2 = nsect" for fp2 :: fil and fs2
    using p o c ns that layout_sects(1,2) [OF that(1)] by (simp add: pos_ok_def)
  have nz: "fptr fp1 mod 512 \<noteq> 0 \<longleftrightarrow> unat o1 mod 512 \<noteq> 0" by (simp add: fp1_def word_unat_eq_iff unat_mod)
  have ext: "\<not> fptr fp1 > objsize fp1" using o by (auto simp: fp1_def)
  show ?thesis
  proof (cases "fptr fp1 mod 512 \<noteq> 0 \<and> nsect \<noteq> sect fp1")
    case False
    then have "seek_fill nsect fp1 fs1 = (FR_OK, fp1, fs1)" using ext by (auto simp: seek_fill_def Let_def)
    moreover have "unat o1 mod 512 \<noteq> 0 \<longrightarrow> sect fp1 = nsect" using False nz by metis
    then have "pos_ok fp1 fs1 cs" by (intro pos [OF l1]) (simp_all add: fp1_def)
    moreover have "fptr fp1 = o1" "obj_id fp1 = obj_id fp" "err fp1 = err fp" "objsize fp1 = objsize fp" "flag fp1 = flag fp"
      "raw fp1 = raw fp" by (simp_all add: fp1_def)
    ultimately show ?thesis
      using r s1 v1 b1 assms(3) by (simp add: file_ok_def same_file_def content_def o1_def [symmetric])
  next
    case True
    obtain fp2 fs2 d fs3 where fl: "flush_buf fp1 fs1 = (True, fp2, fs2)" "disk_read_sector nsect fs2 = (Some d, fs3)"
      and s3: "same_file fp1 fs1 cs (fp2\<lparr>buf := d, sect := nsect\<rparr>) fs3" and cl2: "clust fp2 = clust fp1"
      by (rule reload_ok [OF v1 b1])
    define fp3 where "fp3 = fp2\<lparr>buf := d, sect := nsect\<rparr>"
    have "seek_fill nsect fp1 fs1 = (FR_OK, fp3, fs3)" using True ext fl by (simp add: seek_fill_def Let_def fp3_def)
    moreover have sf: "same_file fp1 fs cs fp3 fs3" using same_file_trans [OF s1 s3] by (simp only: fp3_def)
    moreover have "pos_ok fp3 fs3 cs"
      by (rule pos) (use sf cl2 in \<open>auto simp: same_file_def fp3_def fp1_def\<close>)
    moreover have "fptr fp1 = o1" "obj_id fp1 = obj_id fp" "err fp1 = err fp" "objsize fp1 = objsize fp" "flag fp1 = flag fp"
      "raw fp1 = raw fp" by (simp_all add: fp1_def)
    ultimately show ?thesis
      using r assms(3) by (simp add: file_ok_def same_file_def content_def o1_def [symmetric])
  qed
qed

subsection \<open>Writing and reading back\<close>

lemma flag_kept:
  assumes "a AND NOT FA_DIRTY = (b :: u8) AND NOT FA_DIRTY"
  shows "a AND FA_READ = b AND FA_READ" "a AND FA_WRITE = b AND FA_WRITE"
proof -
  have "x AND 1 = (x AND NOT 128) AND 1" "x AND 2 = (x AND NOT 128) AND 2" for x :: u8
    by (simp_all add: and.assoc)
  then show "a AND FA_READ = b AND FA_READ" "a AND FA_WRITE = b AND FA_WRITE" using assms by metis+
qed

text \<open>
  C22: the bytes that were written are read back: writing, seeking back to where the writing
  began, and reading as many bytes as were written all succeed and give the bytes written,
  wherever in the file that is and however many clusters the write took.
\<close>

theorem f_write_reads_back:
  assumes "file_ok fp fs cs" and "alloc_ok fp fs" and "obj_id fp = Some (vol_id fs)" and "err fp = FR_OK"
    and "flag fp AND FA_WRITE \<noteq> 0" and "flag fp AND FA_READ \<noteq> 0" and "stat AND STA_NOINIT = 0"
    and "unat btw \<le> length data"
  shows "\<exists>k fp1 fs1 fp2 fs2 fp3 fs3. f_write True stat data btw fp fs = Some (FR_OK, k, fp1, fs1) \<and>
    f_lseek True stat (fptr fp) fp1 fs1 = Some (FR_OK, fp2, fs2) \<and>
    f_read True stat k fp2 fs2 = Some (FR_OK, take (unat k) data, fp3, fs3)"
proof -
  obtain k new fp0 fs1 where w: "f_write True stat data btw fp fs = Some (FR_OK, k, fp0\<lparr>flag := flag fp0 OR FA_MODIFIED\<rparr>, fs1)"
    and W: "written fp fs cs (take (unat k) data) new fp0 fs1" and k: "unat k \<le> unat btw"
    using f_write_ok [OF assms(1-5,7,8)] by blast
  define fp1 where "fp1 = fp0\<lparr>flag := flag fp0 OR FA_MODIFIED\<rparr>"
  have lk: "length (take (unat k) data) = unat k" using k assms(8) by simp
  have f1: "file_ok fp1 fs1 (cs @ new)" and a1: "alloc_ok fp1 fs1" and o1: "obj_id fp1 = obj_id fp" "err fp1 = FR_OK"
    and c1: "content fp1 fs1 (cs @ new) = overwrite (unat (fptr fp)) (take (unat k) data) (content fp fs cs)"
    and p1: "unat (objsize fp1) = max (unat (objsize fp)) (unat (fptr fp) + unat k)" and l1: "layout fs1 = layout fs"
    using W modified_fields [of fp0] lk assms(4) by (simp_all add: written_def fp1_def grown_def)
  have v1: "vol_id fs1 = vol_id fs" using layoutD(13) [OF l1] .
  have rd: "flag fp1 AND FA_READ \<noteq> 0"
  proof -
    have "flag fp0 AND FA_READ = flag fp AND FA_READ" using W by (intro flag_kept) (simp add: written_def)
    then show ?thesis using assms(6) by (simp add: fp1_def word_ao_dist)
  qed
  have le: "\<not> fptr fp > objsize fp1" "fptr fp \<le> objsize fp1" using p1 by (auto simp: word_less_nat_alt word_le_nat_alt)
  obtain fp2 fs2 where s: "f_lseek True stat (fptr fp) fp1 fs1 = Some (FR_OK, fp2, fs2)" and ptr: "fptr fp2 = fptr fp"
    and f2: "file_ok fp2 fs2 (cs @ new)" and c2: "content fp2 fs2 (cs @ new) = content fp1 fs1 (cs @ new)"
    and o2: "obj_id fp2 = obj_id fp1" "err fp2 = FR_OK" "vol_id fs2 = vol_id fs1"
    and fl2: "flag fp2 AND NOT FA_DIRTY = flag fp1 AND NOT FA_DIRTY"
    using f_lseek_correct [OF f1 _ o1(2) assms(7), of "fptr fp"] a1 le o1(1) assms(3) v1
    by (auto split: option.splits)
  have rd2: "flag fp2 AND FA_READ \<noteq> 0" using flag_kept(1) [OF fl2] rd by simp
  obtain fp3 fs3 where r: "f_read True stat k fp2 fs2 =
      Some (FR_OK, take (unat k) (drop (unat (fptr fp2)) (content fp2 fs2 (cs @ new))), fp3, fs3)"
    using f_read_ok [OF f2 _ o2(2) rd2 assms(7), of k] o2 o1 assms(3) v1 by auto
  have "unat (fptr fp) \<le> length (content fp fs cs)"
    using content_length [OF assms(1)] assms(1) by (simp add: file_ok_def pos_ok_def word_le_nat_alt)
  then have "take (unat k) (drop (unat (fptr fp2)) (content fp2 fs2 (cs @ new))) = take (unat k) data"
    using lk by (simp add: c2 c1 ptr overwrite_def)
  then show ?thesis using w s r unfolding fp1_def by metis
qed

theorem f_write_reads_back_witness:
  "\<exists>k fp1 fs1 fp2 fs2 fp3 fs3. f_write True 0 [7, 8, 9] 3 (demo_fil\<lparr>flag := 3\<rparr>) (demo_links 3 0xFFFF) = Some (FR_OK, k, fp1, fs1) \<and>
    f_lseek True 0 0 fp1 fs1 = Some (FR_OK, fp2, fs2) \<and>
    f_read True 0 k fp2 fs2 = Some (FR_OK, take (unat k) [7, 8, 9], fp3, fs3)"
proof -
  define F where "F = demo_links 3 0xFFFF"
  define fp where "fp = demo_fil\<lparr>flag := 3\<rparr>"
  have v: "vol_file F [2, 3]" "vol_id F = 1" "csize F = 1" "file_sects F [2, 3] = [4, 5]"
    using demo_links_file by (simp_all add: F_def)
  have f: "file_ok fp F [2, 3]"
    using v by (simp add: file_ok_def buf_ok_def pos_ok_def demo_fil_def dirty_def cluster_bytes_def fp_def)
  have a: "alloc_ok fp F" unfolding F_def by (rule demo_alloc) (simp add: fp_def demo_fil_def)
  have p: "fptr fp = 0" "obj_id fp = Some (vol_id F)" "err fp = FR_OK" "flag fp AND FA_WRITE \<noteq> 0" "flag fp AND FA_READ \<noteq> 0"
    using v(2) by (simp_all add: fp_def demo_fil_def)
  show ?thesis
    using f_write_reads_back [OF f a p(2-5), of 0 3 "[7, 8, 9]"] unfolding F_def [symmetric] fp_def [symmetric] p(1) by simp
qed

end
