(* ===== verification/FatFs_Truncate.thy ===== *)
theory FatFs_Truncate
  imports FatFs_Seek
begin

text \<open>
  Truncating: \<open>f_truncate\<close> cuts the file at the file pointer and frees the clusters behind it,
  and only those.
\<close>

lemma chain_take:
  assumes "chain f n c cs" and "i < length cs" and "n \<le> g (cs ! i)"
    and "\<And>d. d \<in> set (take i cs) \<Longrightarrow> g d = f d"
  shows "chain g n c (take (Suc i) cs)"
  using assms
proof (induction cs arbitrary: c i)
  case (Cons x xs)
  have x: "x = c" using chain_hd [OF Cons.prems(1)] by simp
  show ?case
  proof (cases i)
    case 0
    then show ?thesis using Cons.prems(1,3) x by (auto simp: chain_Cons)
  next
    case (Suc j)
    then have ne: "xs \<noteq> []" using Cons.prems(2) by auto
    have ch: "2 \<le> c" "c < n" "f c < n" "chain f n (f c) xs"
      using Cons.prems(1) ne by (auto simp: x chain_Cons)
    have g: "g c = f c" using Cons.prems(4) [of c] Suc x by simp
    have "chain g n (f c) (take (Suc j) xs)"
      by (rule Cons.IH [OF ch(4)]) (use Cons.prems(2-4) Suc in auto)
    then show ?thesis using ch g Suc x ne by (auto simp: chain_Cons)
  qed
qed simp

lemma chain_drop: "chain f n c cs \<Longrightarrow> i < length cs \<Longrightarrow> chain f n (cs ! i) (drop i cs)"
  using chain_suffix [of f n c "take i cs" "cs ! i" "drop (Suc i) cs"]
  by (simp add: id_take_nth_drop [symmetric] Cons_nth_drop_Suc)

text \<open>The clusters behind the first \<open>n\<close> freed.\<close>

definition cut_at :: "nat \<Rightarrow> u32 list \<Rightarrow> fatfs \<Rightarrow> fatfs \<Rightarrow> bool" where
  "cut_at n cs fs fs1 \<longleftrightarrow> data_kept fs fs1 \<and> count_ok fs1 \<and> n \<le> length cs \<and>
     (n \<noteq> 0 \<longrightarrow> chain (fatmap fs1) (n_fatent fs) (hd cs) (take n cs)) \<and>
     (\<forall>d \<in> set (drop n cs). fatmap fs1 d = 0) \<and> (\<forall>d. d \<notin> set cs \<longrightarrow> fatmap fs1 d = fatmap fs d)"

lemma remove_chain_cut:
  assumes v: "vol_file fs cs" and c: "count_ok fs" and i: "Suc i < length cs"
  obtains fs1 where "remove_chain (cs ! Suc i) (cs ! i) fs = Some (FR_OK, fs1)" and "cut_at (Suc i) cs fs fs1"
proof -
  have m: "mounted fs" and io: "io_ok fs" and ch: "chain (fatmap fs) (n_fatent fs) (hd cs) cs"
    using v i by (auto simp: vol_file_def mounted_ready)
  have d: "distinct cs" using chain_distinct [OF ch] .
  have in_r: "2 \<le> cs ! j \<and> cs ! j < n_fatent fs" if "j < length cs" for j
    using chain_clusters [OF ch nth_mem [OF that]] .
  have ni: "2 \<le> cs ! i" "cs ! i < n_fatent fs" and nn: "2 \<le> cs ! Suc i" "cs ! Suc i < n_fatent fs"
    using in_r [of i] in_r [OF i] i by auto
  obtain fs0 where p: "put_fat (cs ! i) 0xFFFFFFFF fs = (FR_OK, fs0)" and k0: "data_kept fs fs0"
    and f0: "fatmap fs0 = (fatmap fs)(cs ! i := EOC fs)"
    by (rule put_fat_cases [OF m ni, of "0xFFFFFFFF"]) (use io in \<open>auto simp: EOC_def\<close>)
  have r0: "fs_ready fs0" "n_fatent fs0 = n_fatent fs"
    using data_kept_mounted [OF k0 m] data_kept_geometry(2,3) [OF k0] io by (auto simp: mounted_ready)
  have nd: "cs ! i \<notin> set (drop (Suc i) cs)" using d i by (metis Cons_nth_drop_Suc Suc_lessD distinct.simps(2) distinct_drop)
  have "chain (fatmap fs0) (n_fatent fs0) (cs ! Suc i) (drop (Suc i) cs)"
    unfolding r0(2) by (rule chain_cong [OF chain_drop [OF ch i]]) (use nd in \<open>auto simp: f0\<close>)
  then obtain fs1 where l: "remove_loop (cs ! Suc i) fs0 = Some (FR_OK, fs1)" and k1: "data_kept fs0 fs1"
    and f1: "fatmap fs1 = (\<lambda>d. if d \<in> set (drop (Suc i) cs) then 0 else fatmap fs0 d)"
    by (rule remove_loop_frees [OF r0(1)]) blast
  have rc: "remove_chain (cs ! Suc i) (cs ! i) fs = Some (FR_OK, fs1)"
    using p l nn ni by (auto simp: remove_chain_def)
  have "count_ok fs1"
    using remove_chain_ends [OF m, of "cs ! Suc i" "cs ! i"] rc io c chain_used [OF v, of "cs ! i"] i by auto
  moreover have "chain (fatmap fs1) (n_fatent fs) (hd cs) (take (Suc i) cs)"
  proof (rule chain_take [OF ch])
    show "n_fatent fs \<le> fatmap fs1 (cs ! i)" using EOC_end(1) [OF m] nd by (simp add: f1 f0)
    fix e assume e: "e \<in> set (take i cs)"
    then have "e \<notin> set (drop i cs)" using d by (metis disjoint_iff set_take_disj_set_drop_if_distinct order_refl)
    moreover have "drop i cs = cs ! i # drop (Suc i) cs" using i by (simp add: Cons_nth_drop_Suc)
    ultimately show "fatmap fs1 e = fatmap fs e" by (simp add: f1 f0)
  qed (use i in simp)
  moreover have "fatmap fs1 e = fatmap fs e" if "e \<notin> set cs" for e
    using that i in_set_dropD [of e "Suc i" cs] by (auto simp: f1 f0)
  ultimately show thesis
    using that [OF rc] data_kept_trans [OF k0 k1] i by (simp add: cut_at_def f1)
qed

lemma truncate_chain_ok:
  assumes f: "file_ok fp fs cs" and c: "count_ok fs" and lt: "fptr fp < objsize fp"
  obtains n fs1 where "truncate_chain fp fs = Some (FR_OK, fp\<lparr>sclust := (if n = 0 then 0 else sclust fp)\<rparr>, fs1)"
    and "cut_at n cs fs fs1" and "unat (fptr fp) \<le> cluster_bytes fs * n"
    and "unat (fptr fp) = 0 \<longleftrightarrow> n = 0" and "0 < n \<longrightarrow> (unat (fptr fp) - 1) div cluster_bytes fs = n - 1"
proof -
  define M where "M = cluster_bytes fs"
  define x where "x = unat (fptr fp)"
  have v: "vol_file fs cs" and p: "pos_ok fp fs cs" and g: "data_geometry fs" and m: "mounted fs" and io: "io_ok fs"
    using f by (auto simp: file_ok_def vol_file_def mounted_ready)
  have M: "0 < M" using bcs_bytes(2) [OF g] by (simp add: M_def)
  have xl: "x < M * length cs" using p lt by (simp add: pos_ok_def x_def M_def word_less_nat_alt)
  have ne: "cs \<noteq> []" using xl by auto
  have ch: "chain (fatmap fs) (n_fatent fs) (hd cs) cs" using v ne by (simp add: vol_file_def)
  show thesis
  proof (cases "x = 0")
    case True
    then have z: "fptr fp = 0" by (simp add: x_def word_unat_eq_iff)
    have sc: "sclust fp = hd cs" "hd cs \<in> set cs" using p ne by (simp_all add: pos_ok_def)
    then have hc: "2 \<le> hd cs" "hd cs < n_fatent fs" using chain_clusters [OF ch] by auto
    obtain fs1 where l: "remove_loop (hd cs) fs = Some (FR_OK, fs1)" and k1: "data_kept fs fs1"
      and f1: "fatmap fs1 = (\<lambda>d. if d \<in> set cs then 0 else fatmap fs d)"
      by (rule remove_loop_frees [OF _ ch]) (use v in \<open>auto simp: vol_file_def\<close>)
    have rc: "remove_chain (sclust fp) 0 fs = Some (FR_OK, fs1)" using l hc sc by (auto simp: remove_chain_def)
    have "count_ok fs1" using remove_chain_ends [OF m, of "sclust fp" 0] rc io c by auto
    then show thesis using that [of 0 fs1] rc z k1 f1 x_def by (simp add: truncate_chain_def cut_at_def)
  next
    case False
    then have nz: "fptr fp \<noteq> 0" by (auto simp: x_def)
    define i where "i = (x - 1) div M"
    have "x - 1 < M * length cs" using xl by simp
    then have i: "i < length cs" by (simp add: i_def less_mult_imp_div_less mult.commute)
    have cl: "clust fp = cs ! i" using p nz by (simp add: pos_ok_def i_def x_def M_def)
    have xi: "x \<le> M * Suc i"
    proof -
      have "x - 1 = M * ((x - 1) div M) + (x - 1) mod M" by simp
      moreover have "(x - 1) mod M < M" using M by simp
      ultimately have "x - 1 < M * i + M" unfolding i_def by linarith
      then show ?thesis by simp
    qed
    obtain w fs0 where gf: "get_fat (cs ! i) fs = (w, fs0)" and u: "unchanged fs fs0" and w: "w = fatmap fs (cs ! i)"
      by (rule get_fat_unchanged [OF m, of "cs ! i"]) (use io in auto)
    have v0: "vol_file fs0 cs" using vol_file_kept(1) [OF v unchangedD(1,3) [OF u]] .
    note ud = unchangedD [OF u]
    have w1: "w \<noteq> 0xFFFFFFFF" using fatmap_no_error [OF m] by (simp add: w)
    have sc: "fp\<lparr>sclust := sclust fp\<rparr> = fp" by (cases fp) simp
    show thesis
    proof (cases "Suc i < length cs")
      case True
      have e: "w = cs ! Suc i" using chain_nth [OF ch True] w by simp
      have "cs ! Suc i \<in> set cs" using True by simp
      then have wr: "2 \<le> w" "w < n_fatent fs0" using chain_clusters [OF ch] ud(2) e by auto
      then have "w \<noteq> 1" using two_not_one by auto
      obtain fs1 where rc: "remove_chain (cs ! Suc i) (cs ! i) fs0 = Some (FR_OK, fs1)" and k: "cut_at (Suc i) cs fs0 fs1"
        by (rule remove_chain_cut [OF v0 ud(10) [OF c] True])
      have "cut_at (Suc i) cs fs fs1"
        using k ud(2,3) data_kept_trans [OF ud(1)] by (simp add: cut_at_def)
      moreover have "truncate_chain fp fs = Some (FR_OK, fp, fs1)"
        using nz cl gf w1 \<open>w \<noteq> 1\<close> wr rc e by (simp add: truncate_chain_def)
      ultimately show thesis using that [of "Suc i" fs1] sc xi False by (simp add: x_def M_def i_def)
    next
      case False
      then have last: "i = length cs - 1" using i by simp
      then have lc: "cs ! i = last cs" using ne by (simp add: last_conv_nth)
      then have "n_fatent fs \<le> w" using chain_last [OF ch] w lc by simp
      moreover have "2 < n_fatent fs" using m by (simp add: mounted_def geometry_def)
      ultimately have wn: "\<not> w < n_fatent fs0" "w \<noteq> 1" using ud(2) by (auto simp: word_less_nat_alt word_le_nat_alt)
      have "truncate_chain fp fs = Some (FR_OK, fp, fs0)" using nz cl gf w1 wn by (simp add: truncate_chain_def)
      moreover have "cut_at (Suc i) cs fs fs0"
        using ud last ne i ch c by (simp add: cut_at_def)
      ultimately show thesis using that [of "Suc i" fs0] sc xi \<open>x \<noteq> 0\<close> by (simp add: x_def M_def i_def)
    qed
  qed
qed


text \<open>The volume after the cut: the file has the clusters that are left, its sectors hold what they held.\<close>

lemma cut_file:
  assumes v: "vol_file fs cs" and k: "cut_at n cs fs fs1"
  shows "vol_file fs1 (take n cs)" and "layout fs1 = layout fs" and "mounted fs1"
    and "s \<in> set (file_sects fs cs) \<Longrightarrow> disk fs1 s = disk fs s \<and> s \<noteq> winsect fs1"
proof -
  have m: "mounted fs" and io: "io_ok fs" and g: "geometry fs" using v by (auto simp: vol_file_def mounted_ready mounted_def)
  have kept: "data_kept fs fs1" using k by (simp add: cut_at_def)
  then show l: "layout fs1 = layout fs" by (simp add: data_kept_def)
  note m1 = data_kept_mounted [OF kept m]
  show "mounted fs1" using m1 by simp
  have d: "disk fs1 s = disk fs s \<and> s \<noteq> winsect fs1" if "s \<in> set (file_sects fs cs)" for s
  proof -
    have "s \<noteq> winsect fs" using v that by (auto simp: vol_file_def)
    then show ?thesis using data_kept_disk(1,2) [OF kept g io vol_file_data [OF v that]] by blast
  qed
  then show "s \<in> set (file_sects fs cs) \<Longrightarrow> disk fs1 s = disk fs s \<and> s \<noteq> winsect fs1" .
  note e = layout_sects [OF l] layout_eq [OF l]
  have "set (file_sects fs (take n cs)) \<subseteq> set (file_sects fs cs)"
    using file_sects_append [of fs "take n cs" "drop n cs"] by simp
  then have w: "winsect fs1 \<notin> set (file_sects fs (take n cs))" using d by blast
  have r: "fs_ready fs1" using m1 e(9) io by (simp add: mounted_ready)
  have "chain (fatmap fs1) (n_fatent fs1) (hd (take n cs)) (take n cs)" if "take n cs \<noteq> []"
    using k that layoutD(6) [OF l] by (simp add: cut_at_def)
  then show "vol_file fs1 (take n cs)" using v w r e by (auto simp: vol_file_def)
qed

lemma file_sects_take: "file_sects fs (take n cs) = take (unat (csize fs) * n) (file_sects fs cs)"
proof (cases "n \<le> length cs")
  case True
  have "length (file_sects fs (take n cs)) = unat (csize fs) * n" using True by (simp add: length_file_sects)
  moreover have "file_sects fs cs = file_sects fs (take n cs) @ file_sects fs (drop n cs)"
    using file_sects_append [of fs "take n cs" "drop n cs"] by simp
  ultimately show ?thesis by simp
next
  case False
  then show ?thesis using length_file_sects [of fs cs] by simp
qed

lemma raw_take:
  assumes "vol_file fs cs" and "length (buf fp) = 512"
  shows "raw fp fs (take n cs) = take (cluster_bytes fs * n) (raw fp fs cs)"
proof -
  have "length (sdata fp fs s) = 512" for s using assms vol_file_length by (simp add: sdata_def)
  then have "take (512 * (unat (csize fs) * n)) (raw fp fs cs) = concat (map (sdata fp fs) (take (unat (csize fs) * n) (file_sects fs cs)))"
    unfolding raw_def by (rule take_blocks)
  then show ?thesis by (simp add: raw_def file_sects_take cluster_bytes_def mult.assoc)
qed

text \<open>The sector buffer is written even where its cluster has been freed.\<close>

lemma truncate_flush:
  assumes v: "vol_file fs cs" and b: "buf_ok fp fs cs" and k: "cut_at n cs fs fs1"
    and e: "buf fp2 = buf fp" "sect fp2 = sect fp" "dirty fp2 = dirty fp"
  obtains fp3 fs2 where "flush_buf fp2 fs1 = (True, fp3, fs2)" and "fp3 = fp2\<lparr>flag := flag fp3\<rparr>" and "\<not> dirty fp3"
    and "layout fs2 = layout fs" and "fatmap fs2 = fatmap fs1" and "count_ok fs2" and "vol_file fs2 (take n cs)"
    and "\<And>t. t \<in> set (file_sects fs cs) \<Longrightarrow> disk fs2 t = sdata fp fs t"
proof (cases "dirty fp")
  case False
  have "disk fs1 t = sdata fp fs t" if "t \<in> set (file_sects fs cs)" for t
    using that False b cut_file(4) [OF v k that] by (auto simp: buf_ok_def sdata_def)
  moreover have "flush_buf fp2 fs1 = (True, fp2, fs1)" using False e(3) by (simp add: flush_buf_def dirty_def)
  ultimately show thesis using that [of fp2 fs1] False e cut_file [OF v k] k by (simp add: cut_at_def)
next
  case True
  note cf = cut_file [OF v k]
  define fs2 where "fs2 = fs1\<lparr>io_count := io_count fs1 + 1, disk := (disk fs1)(sect fp := buf fp)\<rparr>"
  define fp3 where "fp3 = fp2\<lparr>flag := flag fp2 AND NOT FA_DIRTY\<rparr>"
  have v1: "vol_file fs1 (take n cs)" by (rule cf(1))
  then have io: "\<not> io_fail fs1 (io_count fs1)" by (auto simp: vol_file_def fs_ready_def io_ok_def)
  have fl: "flush_buf fp2 fs1 = (True, fp3, fs2)"
    using True io e by (simp add: flush_buf_def dirty_def disk_write_sector_def fs2_def fp3_def)
  have bl: "length (buf fp) = 512" and si: "sect fp \<in> set (file_sects fs cs)" using b True by (auto simp: buf_ok_def)
  have w: "wrote_data {sect fp} fs1 fs2"
    unfolding wrote_data_def fs2_def using bl vol_file_length [OF v1]
    by (intro exI [of _ "io_count fs1 + 1"] exI [of _ "(disk fs1)(sect fp := buf fp)"]) auto
  have "data_sect fs1 t \<and> winsect fs1 \<noteq> t" if "t \<in> {sect fp}" for t
    using that si cf(4) [OF si] vol_file_data [OF v si] layout_data_sect [OF cf(2)] by auto
  note W = wrote_data_mounted [OF w this cf(3)]
  have l: "layout fs2 = layout fs" using W(1) cf(2) by simp
  have d: "disk fs2 t = sdata fp fs t" if "t \<in> set (file_sects fs cs)" for t
    using cf(4) [OF that] by (auto simp: fs2_def sdata_def)
  have "vol_file fs2 (take n cs)"
    using v1 W layout_sects [OF W(1)] layout_eq [OF W(1)] layoutD(6) [OF W(1)] by (simp add: vol_file_def mounted_ready)
  moreover have "count_ok fs2" using k W(4) by (simp add: cut_at_def count_ok_def free_set_def fs2_def)
  moreover have "\<not> dirty fp3" "fp3 = fp2\<lparr>flag := flag fp3\<rparr>" by (simp_all add: fp3_def dirty_def)
  ultimately show thesis using that [OF fl] l d W(4) by blast
qed

lemma f_truncate_ok:
  assumes f: "file_ok fp fs cs" and c: "count_ok fs" and o: "obj_id fp = Some (vol_id fs)" and e: "err fp = FR_OK"
    and w: "flag fp AND FA_WRITE \<noteq> 0" and s: "stat AND STA_NOINIT = 0" and lt: "fptr fp < objsize fp"
  obtains n fs1 fp' fs' where "f_truncate True stat fp fs = Some (FR_OK, fp', fs')" and "cut_at n cs fs fs1"
    and "file_ok fp' fs' (take n cs)" and "content fp' fs' (take n cs) = take (unat (fptr fp)) (content fp fs cs)"
    and "fptr fp' = fptr fp" and "objsize fp' = fptr fp" and "fatmap fs' = fatmap fs1" and "count_ok fs'"
    and "unat (fptr fp) \<le> cluster_bytes fs * n" and "cluster_bytes fs * n < unat (fptr fp) + cluster_bytes fs"
proof -
  define x where "x = unat (fptr fp)"
  define M where "M = cluster_bytes fs"
  obtain n fs1 where tc: "truncate_chain fp fs = Some (FR_OK, fp\<lparr>sclust := (if n = 0 then 0 else sclust fp)\<rparr>, fs1)"
    and k: "cut_at n cs fs fs1" and xn: "x \<le> M * n" and z: "x = 0 \<longleftrightarrow> n = 0"
    and i: "0 < n \<longrightarrow> (x - 1) div M = n - 1"
    by (rule truncate_chain_ok [OF f c lt, folded x_def M_def])
  have v: "vol_file fs cs" and b: "buf_ok fp fs cs" and p: "pos_ok fp fs cs" using f by (auto simp: file_ok_def)
  have g: "data_geometry fs" and io: "io_ok fs" using v by (auto simp: vol_file_def mounted_ready)
  have M: "0 < M" using bcs_bytes(2) [OF g] by (simp add: M_def)
  have nl: "n \<le> length cs" and c1: "count_ok fs1" using k by (auto simp: cut_at_def)
  note cf = cut_file [OF v k]
  note el = layout_sects [OF cf(2)] layout_eq [OF cf(2)]
  define fp2 where "fp2 = fp\<lparr>sclust := (if n = 0 then 0 else sclust fp), objsize := fptr fp, flag := flag fp OR FA_MODIFIED\<rparr>"
  have d2: "dirty fp2 = dirty fp" by (simp add: fp2_def dirty_def)
  obtain fp3 fs2 where fl: "flush_buf fp2 fs1 = (True, fp3, fs2)" and fp3: "fp3 = fp2\<lparr>flag := flag fp3\<rparr>"
    and nd: "\<not> dirty fp3" and l2: "layout fs2 = layout fs" and m2: "fatmap fs2 = fatmap fs1" and c2: "count_ok fs2"
    and v2: "vol_file fs2 (take n cs)" and ds: "\<And>t. t \<in> set (file_sects fs cs) \<Longrightarrow> disk fs2 t = sdata fp fs t"
    using truncate_flush [OF v b k, of fp2] d2 by (auto simp: fp2_def)
  note e2 = layout_sects [OF l2]
  have q: "buf fp3 = buf fp" "sect fp3 = sect fp" "fptr fp3 = fptr fp" "objsize fp3 = fptr fp" "clust fp3 = clust fp"
    "sclust fp3 = (if n = 0 then 0 else sclust fp)"
    by (subst fp3, simp add: fp2_def)+
  have bl: "length (buf fp) = 512" using b by (simp add: buf_ok_def)
  have tk: "t \<in> set (file_sects fs cs)" if "t \<in> set (file_sects fs (take n cs))" for t
    using that by (auto simp: file_sects_take dest: in_set_takeD)
  have "fs_type fs \<noteq> FS_NONE" using v by (auto simp: vol_file_def fs_ready_def geometry_def)
  then have tr: "f_truncate True stat fp fs = Some (FR_OK, fp3, fs2)"
    using tc fl lt o e w s by (simp add: f_truncate_def validate_def fp2_def)
  show thesis
  proof (rule that [OF tr k])
    have "buf_ok fp3 fs2 (take n cs)"
      using nd q bl e2(1) ds [of "sect fp"] tk by (auto simp: buf_ok_def sdata_def)
    moreover have "pos_ok fp3 fs2 (take n cs)"
    proof -
      have "clust fp = take n cs ! ((x - 1) div M)" if "fptr fp \<noteq> 0"
        using that p i z by (cases "0 < n") (auto simp: pos_ok_def x_def M_def word_unat_eq_iff)
      moreover have "sect fp = file_sects fs (take n cs) ! (x div 512)" if "x mod 512 \<noteq> 0"
      proof -
        have "x \<noteq> M * n" using that by (auto simp: M_def cluster_bytes_def mult.assoc)
        then have "x < 512 * (unat (csize fs) * n)" using xn by (simp add: M_def cluster_bytes_def)
        then have "x div 512 < unat (csize fs) * n" by (simp add: less_mult_imp_div_less mult.commute)
        then show ?thesis using p that by (simp add: pos_ok_def x_def file_sects_take)
      qed
      moreover have "sclust fp3 = (if take n cs = [] then 0 else hd (take n cs))"
        using q(6) p nl by (auto simp: pos_ok_def)
      ultimately show ?thesis
        using q xn nl e2(1,2) by (simp add: pos_ok_def x_def M_def min_absorb2)
    qed
    ultimately show "file_ok fp3 fs2 (take n cs)" using v2 by (simp add: file_ok_def)
    have "sdata fp3 fs2 t = sdata fp fs t" if "t \<in> set (file_sects fs (take n cs))" for t
      using ds [OF tk [OF that]] q by (auto simp: sdata_def)
    then have "raw fp3 fs2 (take n cs) = raw fp fs (take n cs)" by (intro raw_cong e2(1))
    then show "content fp3 fs2 (take n cs) = take (unat (fptr fp)) (content fp fs cs)"
      using raw_take [OF v bl, of n] xn lt q(4)
      by (simp add: content_def x_def M_def word_less_nat_alt min.absorb1)
    show "cluster_bytes fs * n < unat (fptr fp) + cluster_bytes fs"
    proof (cases "n = 0")
      case False
      then have "x - 1 = M * (n - 1) + (x - 1) mod M" "x \<noteq> 0" using i z mult_div_mod_eq [of M "x - 1"] by simp_all
      moreover have "M * n = M * (n - 1) + M" using False by (cases n) simp_all
      ultimately show ?thesis unfolding x_def [symmetric] M_def [symmetric] by linarith
    qed (use M in \<open>simp add: M_def\<close>)
  qed (use q m2 c2 xn in \<open>simp_all add: x_def M_def\<close>)
qed

text \<open>
  C23: truncating cuts the file at the file pointer: \<open>f_truncate\<close> returns with success, the
  content is what was before the pointer, buffered or on the disk, the file keeps exactly the
  clusters that are needed for it, every other cluster it had is free, no other table entry
  changes, and the count of free clusters stays right.
\<close>

theorem f_truncate_correct:
  assumes "file_ok fp fs cs" and "count_ok fs" and "obj_id fp = Some (vol_id fs)" and "err fp = FR_OK"
    and "flag fp AND FA_WRITE \<noteq> 0" and "stat AND STA_NOINIT = 0" and "fptr fp < objsize fp"
  shows "\<exists>n fp' fs'. f_truncate True stat fp fs = Some (FR_OK, fp', fs') \<and> file_ok fp' fs' (take n cs) \<and>
    content fp' fs' (take n cs) = take (unat (fptr fp)) (content fp fs cs) \<and>
    n = (unat (fptr fp) + cluster_bytes fs - 1) div cluster_bytes fs \<and>
    fptr fp' = fptr fp \<and> objsize fp' = fptr fp \<and> (\<forall>d \<in> set (drop n cs). fatmap fs' d = 0) \<and>
    (\<forall>d. d \<notin> set cs \<longrightarrow> fatmap fs' d = fatmap fs d) \<and> count_ok fs'"
proof -
  obtain n fs1 fp' fs' where t: "f_truncate True stat fp fs = Some (FR_OK, fp', fs')" "cut_at n cs fs fs1"
    "file_ok fp' fs' (take n cs)" "content fp' fs' (take n cs) = take (unat (fptr fp)) (content fp fs cs)"
    "fptr fp' = fptr fp" "objsize fp' = fptr fp" "fatmap fs' = fatmap fs1" "count_ok fs'"
    "unat (fptr fp) \<le> cluster_bytes fs * n" "cluster_bytes fs * n < unat (fptr fp) + cluster_bytes fs"
    by (rule f_truncate_ok [OF assms])
  define M where "M = cluster_bytes fs"
  have "data_geometry fs" using assms(1) by (simp add: file_ok_def vol_file_def)
  then have M: "0 < M" using bcs_bytes(2) by (simp add: M_def)
  define r where "r = unat (fptr fp) + M - 1 - M * n"
  have "unat (fptr fp) + M - 1 = M * n + r" "r < M" using t(9,10) M by (simp_all add: r_def M_def [symmetric])
  then have "n = (unat (fptr fp) + M - 1) div M" using M by simp
  then show ?thesis using t unfolding M_def cut_at_def by (intro exI [of _ n] exI [of _ fp'] exI [of _ fs']) simp
qed

theorem f_truncate_correct_witness:
  "\<exists>n fp' fs'. f_truncate True 0 (demo_fil\<lparr>flag := FA_WRITE\<rparr>) (demo_links 3 0xFFFF) = Some (FR_OK, fp', fs') \<and>
    n = (0 :: nat) \<and> fatmap fs' 2 = 0 \<and> fatmap fs' 3 = 0"
proof -
  define F where "F = demo_links 3 0xFFFF"
  define fp where "fp = demo_fil\<lparr>flag := FA_WRITE\<rparr>"
  have v: "vol_file F [2, 3]" "vol_id F = 1" "csize F = 1" "file_sects F [2, 3] = [4, 5]"
    using demo_links_file by (simp_all add: F_def)
  have f: "file_ok fp F [2, 3]"
    using v by (simp add: file_ok_def buf_ok_def pos_ok_def demo_fil_def dirty_def cluster_bytes_def fp_def)
  have a: "count_ok F" using demo_alloc [of fp] by (simp add: F_def fp_def demo_fil_def alloc_ok_def)
  have p: "unat (fptr fp) = 0" "cluster_bytes F = 512" "obj_id fp = Some (vol_id F)" "err fp = FR_OK"
    "flag fp AND FA_WRITE \<noteq> 0" "fptr fp < objsize fp"
    using v by (simp_all add: fp_def demo_fil_def cluster_bytes_def)
  show ?thesis
    using f_truncate_correct [OF f a p(3-5) _ p(6), of 0] unfolding F_def [symmetric] fp_def [symmetric] by (auto simp: p(1,2))
qed

end
