(* ===== verification/FatFs_Name.thy ===== *)
theory FatFs_Name
  imports FatFs
begin

text \<open>
  Names of \<open>ff.c\<close>, without long names and in code page 850: the eleven bytes of a directory
  entry out of a segment of a path, the name out of an entry, and the patterns of the search
  functions. A path or name is the list of its bytes without the terminator.
\<close>

definition path_at :: "u8 list \<Rightarrow> nat \<Rightarrow> u8" where
  "path_at p i = (if i < length p then p ! i else 0)"

definition IsTerminator :: "u8 \<Rightarrow> bool" where
  "IsTerminator c \<longleftrightarrow> c < 0x21"

definition IsSeparator :: "u8 \<Rightarrow> bool" where
  "IsSeparator c \<longleftrightarrow> c = 0x2F \<or> c = 0x5C"

definition upper :: "u8 \<Rightarrow> u8" where
  "upper c = (if 0x61 \<le> c \<and> c \<le> 0x7A then c - 0x20 else c)"

text \<open>The upper case of the extended characters.\<close>

definition ExCvt :: "u8 list" where
  "ExCvt =
    [0x43,0x55,0x45,0x41,0x41,0x41,0x41,0x43,0x45,0x45,0x45,0x49,0x49,0x49,0x41,0x41,
     0x45,0x92,0x92,0x4F,0x4F,0x4F,0x55,0x55,0x59,0x4F,0x55,0x4F,0x9C,0x4F,0x9E,0x9F,
     0x41,0x49,0x4F,0x55,0xA5,0xA5,0xA6,0xA7,0xA8,0xA9,0xAA,0xAB,0xAC,0xAD,0xAE,0xAF,
     0xB0,0xB1,0xB2,0xB3,0xB4,0x41,0x41,0x41,0xB8,0xB9,0xBA,0xBB,0xBC,0xBD,0xBE,0xBF,
     0xC0,0xC1,0xC2,0xC3,0xC4,0xC5,0x41,0x41,0xC8,0xC9,0xCA,0xCB,0xCC,0xCD,0xCE,0xCF,
     0xD1,0xD1,0x45,0x45,0x45,0x49,0x49,0x49,0x49,0xD9,0xDA,0xDB,0xDC,0xDD,0x49,0xDF,
     0x4F,0xE1,0x4F,0x4F,0x4F,0x4F,0xE6,0xE8,0xE8,0x55,0x55,0x55,0x59,0x59,0xEE,0xEF,
     0xF0,0xF1,0xF2,0xF3,0xF4,0xF5,0xF6,0xF7,0xF8,0xF9,0xFA,0xFB,0xFC,0xFD,0xFE,0xFF]"

subsection \<open>Patterns\<close>

text \<open>The next character, 0 at the end; the string goes on behind it.\<close>

definition get_achar :: "u8 list \<Rightarrow> u8" where
  "get_achar s =
     (let chr = path_at s 0; chr = (if 0x61 \<le> chr \<and> chr \<le> 0x7A then chr - 0x20 else chr)
      in if chr \<ge> 0x80 then ExCvt ! unat (chr - 0x80) else chr)"

text \<open>A wildcard term: how many characters to skip, with 0x100 for any number more.\<close>

fun wild_term :: "nat \<Rightarrow> u8 list \<Rightarrow> nat \<times> u8 list" where
  "wild_term sk [] = (sk, [])"
| "wild_term sk (c # p) =
     (if c = 0x3F then wild_term (sk + 1) p
      else if c = 0x2A then wild_term (sk OR 0x100) p else (sk, c # p))"

datatype pm_result = Pm_matched | Pm_too_many | Pm_break u8

text \<open>
  The inner loop compares a pattern with a name from their tops; the recursive call for what
  follows a wildcard term is an argument, there is none when \<open>recur\<close> is used up.
\<close>

fun pm_branch :: "(u8 list \<Rightarrow> u8 list \<Rightarrow> nat \<Rightarrow> bool) option \<Rightarrow> u8 list \<Rightarrow> u8 list \<Rightarrow> pm_result" where
  "pm_branch rc [] nptr = (if get_achar nptr \<noteq> 0 then Pm_break (get_achar nptr) else Pm_matched)"
| "pm_branch rc (c # pptr) nptr =
     (if c = 0x3F \<or> c = 0x2A then
        (case rc of
           None \<Rightarrow> Pm_too_many
         | Some f \<Rightarrow>
             (case wild_term 0 (c # pptr) of
                (sk, rest) \<Rightarrow> if f rest nptr sk then Pm_matched else Pm_break (path_at nptr 0)))
      else if get_achar (c # pptr) \<noteq> get_achar nptr then Pm_break (get_achar nptr)
      else if get_achar (c # pptr) = 0 then Pm_matched
      else pm_branch rc pptr (tl nptr))"

text \<open>The outer loop tries the pattern at each place of the name, if any number may be skipped.\<close>

fun pm_search :: "(u8 list \<Rightarrow> pm_result) \<Rightarrow> bool \<Rightarrow> u8 list \<Rightarrow> bool" where
  "pm_search br skip nam =
     (case br nam of
        Pm_matched \<Rightarrow> True
      | Pm_too_many \<Rightarrow> False
      | Pm_break nchr \<Rightarrow> skip \<and> nchr \<noteq> 0 \<and> (case nam of [] \<Rightarrow> False | _ # nam \<Rightarrow> pm_search br skip nam))"

fun pattern_match :: "nat \<Rightarrow> u8 list \<Rightarrow> u8 list \<Rightarrow> nat \<Rightarrow> bool" where
  "pattern_match recur pat nam skip =
     (if length nam < skip mod 256 then False
      else
        (let nam = drop (skip mod 256) nam; skip = skip - skip mod 256
         in if path_at pat 0 = 0 \<and> skip \<noteq> 0 then True
            else pm_search
                   (pm_branch (case recur of 0 \<Rightarrow> None | Suc r \<Rightarrow> Some (pattern_match r)) pat) (skip \<noteq> 0) nam))"

declare pattern_match.simps [simp del] pm_search.simps [simp del]

subsection \<open>What a pattern means\<close>

definition wild :: "u8 \<Rightarrow> bool" where
  "wild c \<longleftrightarrow> c = 0x3F \<or> c = 0x2A"

definition achar :: "u8 \<Rightarrow> u8" where
  "achar c = get_achar [c]"

fun glob :: "u8 list \<Rightarrow> u8 list \<Rightarrow> bool" where
  "glob [] n \<longleftrightarrow> n = []"
| "glob (c # p) [] \<longleftrightarrow> c = 0x2A \<and> glob p []"
| "glob (c # p) (d # n) \<longleftrightarrow>
     (if c = 0x3F then glob p n
      else if c = 0x2A then glob p (d # n) \<or> glob (c # p) n
      else achar c = achar d \<and> glob p n)"

text \<open>The wildcard terms of a pattern, and the single characters that the longest of them skips.\<close>

function wild_terms :: "u8 list \<Rightarrow> nat" where
  "wild_terms [] = 0"
| "wild_terms (c # p) = (if wild c then Suc (wild_terms (dropWhile wild p)) else wild_terms p)"
  by pat_completeness auto
termination by (relation "measure length") (auto simp: le_imp_less_Suc length_dropWhile_le)

lemma ExCvt_bytes: "length ExCvt = 128" "0 \<notin> set ExCvt"
  by (simp_all add: ExCvt_def)

lemma get_achar_zero: "get_achar s = 0 \<longleftrightarrow> path_at s 0 = 0"
proof -
  define c where "c = path_at s 0"
  define d where "d = (if 0x61 \<le> c \<and> c \<le> 0x7A then c - 0x20 else c)"
  have dz: "d = 0 \<longleftrightarrow> c = 0"
    by (auto simp: d_def word_le_nat_alt)
  have "ExCvt ! unat (d - 0x80) \<noteq> 0" if "d \<ge> 0x80"
  proof -
    have "unat d < 256" using unsigned_less [of d] by simp
    then have "unat (d - 0x80) < length ExCvt" using that by (simp add: ExCvt_bytes unat_sub word_le_nat_alt)
    then show ?thesis using ExCvt_bytes(2) nth_mem by metis
  qed
  then show ?thesis using dz by (auto simp: get_achar_def c_def [symmetric] d_def [symmetric] Let_def)
qed

lemma get_achar_Cons [simp]: "get_achar (c # p) = achar c"
  by (simp add: achar_def get_achar_def path_at_def)

lemma get_achar_Nil [simp]: "get_achar [] = 0"
  by (simp add: get_achar_zero path_at_def)

lemma achar_zero [simp]: "achar c = 0 \<longleftrightarrow> c = 0"
  unfolding achar_def by (simp add: get_achar_zero path_at_def del: get_achar_Cons)

lemma get_achar_nonzero: "0 \<notin> set s \<Longrightarrow> get_achar s = 0 \<longleftrightarrow> s = []"
  by (cases s) auto

lemma or_256:
  assumes "q < 256"
  shows "q OR 256 = q + (256 :: nat)" and "(q + 256) OR 256 = q + (256 :: nat)"
proof -
  have "\<not> bit q 8" using assms by (simp add: bit_iff_odd)
  then have "q AND 2 ^ 8 = 0" by (simp only: and_exp_eq_0_iff_not_bit simp_thms)
  then have "q AND 256 = 0" by simp
  then have e: "q + 256 = q OR 256" by (rule disjunctive_add_eq_or)
  then show "q OR 256 = q + 256" by simp
  show "(q + 256) OR 256 = q + 256" unfolding e by (simp add: or.assoc)
qed

lemma wild_char [simp]: "wild 0x3F" "wild 0x2A"
  by (simp_all add: wild_def)

lemma wild_term_run:
  assumes "length (filter (\<lambda>c. c = 0x3F) (takeWhile wild p)) + q < 256"
  shows "wild_term (q + (if s then 256 else 0)) p =
    (q + length (filter (\<lambda>c. c = 0x3F) (takeWhile wild p)) + (if s \<or> 0x2A \<in> set (takeWhile wild p) then 256 else 0),
     dropWhile wild p)"
  using assms
proof (induction p arbitrary: q s)
  case (Cons c p)
  consider "c = 0x3F" | "c = 0x2A" | "\<not> wild c" by (auto simp: wild_def)
  then show ?case
  proof cases
    case 1
    then have "wild_term (Suc q + (if s then 256 else 0)) p =
      (Suc q + length (filter (\<lambda>c. c = 0x3F) (takeWhile wild p)) + (if s \<or> 0x2A \<in> set (takeWhile wild p) then 256 else 0), dropWhile wild p)"
      using Cons.prems by (intro Cons.IH) (simp add: wild_char)
    moreover have "wild c" using 1 by (simp add: wild_def)
    ultimately show ?thesis using 1 by simp
  next
    case 2
    then have "wild_term (q + (if True then 256 else 0)) p =
      (q + length (filter (\<lambda>c. c = 0x3F) (takeWhile wild p)) + (if True \<or> 0x2A \<in> set (takeWhile wild p) then 256 else 0), dropWhile wild p)"
      using Cons.prems by (intro Cons.IH) (simp add: wild_char)
    moreover have "wild c" using 2 by (simp add: wild_def)
    ultimately show ?thesis using 2 Cons.prems or_256 [of q] by simp
  qed (auto simp: wild_def)
qed simp

text \<open>A run of wildcards skips as many characters as it has question marks, or more with a star.\<close>

definition run_skips :: "u8 list \<Rightarrow> nat \<Rightarrow> bool" where
  "run_skips w k \<longleftrightarrow> (if 0x2A \<in> set w then length (filter (\<lambda>c. c = 0x3F) w) \<le> k
     else k = length (filter (\<lambda>c. c = 0x3F) w))"

lemma ex_le_Suc: "(\<exists>j \<le> Suc m. P j) \<longleftrightarrow> P 0 \<or> (\<exists>j \<le> m. P (Suc j))"
proof
  assume "\<exists>j \<le> Suc m. P j"
  then obtain j where j: "j \<le> Suc m" "P j" by blast
  then show "P 0 \<or> (\<exists>j \<le> m. P (Suc j))" by (cases j) auto
qed auto

lemma glob_star: "glob (0x2A # p) n \<longleftrightarrow> (\<exists>j \<le> length n. glob p (drop j n))"
proof (induction n)
  case (Cons d n)
  have "(\<exists>j \<le> length (d # n). glob p (drop j (d # n))) \<longleftrightarrow> glob p (d # n) \<or> (\<exists>j \<le> length n. glob p (drop j n))"
    using ex_le_Suc [of "length n" "\<lambda>j. glob p (drop j (d # n))"] by simp
  then show ?case using Cons by simp
qed simp

lemma glob_run:
  assumes "\<forall>c \<in> set w. wild c"
  shows "glob (w @ p) n \<longleftrightarrow> (\<exists>k \<le> length n. run_skips w k \<and> glob p (drop k n))"
  using assms
proof (induction w arbitrary: n)
  case Nil
  then show ?case by (simp add: run_skips_def)
next
  case (Cons c w)
  then have IH: "glob (w @ p) m \<longleftrightarrow> (\<exists>k \<le> length m. run_skips w k \<and> glob p (drop k m))" for m by simp
  consider "c = 0x3F" | "c = 0x2A" using Cons.prems by (auto simp: wild_def)
  then show ?case
  proof cases
    case 1
    then have r: "run_skips (c # w) k \<longleftrightarrow> (\<exists>j. k = Suc j \<and> run_skips w j)" for k
      by (cases k) (auto simp: run_skips_def)
    show ?thesis
    proof (cases n)
      case Nil
      then show ?thesis using 1 r by auto
    next
      case (Cons d m)
      then show ?thesis using 1 IH [of m] r by auto
    qed
  next
    case 2
    have r: "run_skips (c # w) k \<longleftrightarrow> (\<exists>j i. k = j + i \<and> run_skips w i)" for k
    proof
      assume "run_skips (c # w) k"
      then have "length (filter (\<lambda>c. c = 0x3F) w) \<le> k" using 2 by (simp add: run_skips_def)
      then show "\<exists>j i. k = j + i \<and> run_skips w i"
        by (intro exI [of _ "k - length (filter (\<lambda>c. c = 0x3F) w)"] exI [of _ "length (filter (\<lambda>c. c = 0x3F) w)"]) (simp add: run_skips_def)
    qed (use 2 in \<open>auto simp: run_skips_def split: if_splits\<close>)
    have "glob ((c # w) @ p) n \<longleftrightarrow> (\<exists>j \<le> length n. \<exists>i \<le> length n - j. run_skips w i \<and> glob p (drop (j + i) n))"
      using 2 glob_star [of "w @ p" n] IH by (simp add: add.commute)
    also have "\<dots> \<longleftrightarrow> (\<exists>k \<le> length n. run_skips (c # w) k \<and> glob p (drop k n))"
    proof
      assume "\<exists>j \<le> length n. \<exists>i \<le> length n - j. run_skips w i \<and> glob p (drop (j + i) n)"
      then obtain j i where "j \<le> length n" "i \<le> length n - j" "run_skips w i" "glob p (drop (j + i) n)" by blast
      then show "\<exists>k \<le> length n. run_skips (c # w) k \<and> glob p (drop k n)"
        unfolding r by (intro exI [of _ "j + i"]) auto
    next
      assume "\<exists>k \<le> length n. run_skips (c # w) k \<and> glob p (drop k n)"
      then obtain j i where "j + i \<le> length n" "run_skips w i" "glob p (drop (j + i) n)" unfolding r by blast
      then show "\<exists>j \<le> length n. \<exists>i \<le> length n - j. run_skips w i \<and> glob p (drop (j + i) n)"
        by (intro exI [of _ j] conjI exI [of _ i]) simp_all
    qed
    finally show ?thesis .
  qed
qed

text \<open>The pattern can be told by the search: few enough wildcard terms, no term with 256 question marks.\<close>

fun short_terms :: "u8 list \<Rightarrow> bool" where
  "short_terms [] \<longleftrightarrow> True"
| "short_terms (c # p) \<longleftrightarrow> length (filter (\<lambda>c. c = 0x3F) (takeWhile wild (c # p))) < 256 \<and> short_terms p"

lemma short_drop: "short_terms p \<Longrightarrow> short_terms (dropWhile wild p)"
  by (induction p) auto

definition rc_ok :: "(u8 list \<Rightarrow> u8 list \<Rightarrow> nat \<Rightarrow> bool) option \<Rightarrow> nat \<Rightarrow> bool" where
  "rc_ok rc r \<longleftrightarrow>
     (case rc of
        None \<Rightarrow> r = 0
      | Some f \<Rightarrow>
          (\<forall>p n q s. 0 \<notin> set p \<and> 0 \<notin> set n \<and> q < 256 \<and> short_terms p \<and> Suc (wild_terms p) \<le> r \<longrightarrow>
             f p n (q + (if s then 256 else 0)) =
               (\<exists>k \<le> length n. (if s then q \<le> k else k = q) \<and> glob p (drop k n))))"

lemma pm_branch_spec:
  assumes "0 \<notin> set p" and "0 \<notin> set n" and "short_terms p" and "wild_terms p \<le> r" and "rc_ok rc r"
  shows "pm_branch rc p n = Pm_matched \<longleftrightarrow> glob p n" and "pm_branch rc p n \<noteq> Pm_too_many"
    and "pm_branch rc p n = Pm_break 0 \<Longrightarrow> length m < length n \<Longrightarrow> \<not> glob p m"
proof -
  have "(pm_branch rc p n = Pm_matched \<longleftrightarrow> glob p n) \<and> pm_branch rc p n \<noteq> Pm_too_many \<and>
    (pm_branch rc p n = Pm_break 0 \<longrightarrow> (\<forall>m. length m < length n \<longrightarrow> \<not> glob p m))"
    using assms
  proof (induction p arbitrary: n)
    case Nil
    then show ?case using get_achar_nonzero [of n] by auto
  next
    case (Cons c p)
    have c0: "c \<noteq> 0" "0 \<notin> set p" "short_terms p" using Cons.prems by auto
    show ?case
    proof (cases "wild c")
      case True
      then obtain f where rc: "rc = Some f" using Cons.prems(4,5) by (cases rc) (auto simp: rc_ok_def)
      define w where "w = takeWhile wild (c # p)"
      define rest where "rest = dropWhile wild (c # p)"
      define q where "q = length (filter (\<lambda>c. c = 0x3F) w)"
      have wr: "w @ rest = c # p" unfolding w_def rest_def by (rule takeWhile_dropWhile_id)
      have wc0: "\<forall>c \<in> set w. wild c" unfolding w_def by (meson set_takeWhileD)
      have q: "q < 256" using Cons.prems(3) by (simp add: q_def w_def)
      have wt: "wild_term 0 (c # p) = (q + (if 0x2A \<in> set w then 256 else 0), rest)"
        using wild_term_run [of "c # p" 0 False] q by (simp only: q_def w_def rest_def) simp
      have rest: "0 \<notin> set rest" "short_terms rest" "Suc (wild_terms rest) \<le> r"
        using Cons.prems(1,4) True short_drop [OF c0(3)] by (auto simp: rest_def dest: set_dropWhileD)
      have "f rest n (q + (if 0x2A \<in> set w then 256 else 0)) =
          (\<exists>k \<le> length n. (if 0x2A \<in> set w then q \<le> k else k = q) \<and> glob rest (drop k n))"
        using Cons.prems(2,5) rest q unfolding rc_ok_def rc by simp
      also have "\<dots> = glob (c # p) n"
        using glob_run [OF wc0, of rest n] unfolding wr run_skips_def q_def [symmetric] by simp
      finally have fr: "f rest n (q + (if 0x2A \<in> set w then 256 else 0)) = glob (c # p) n" .
      have wc: "c = 0x3F \<or> c = 0x2A" using True by (simp add: wild_def)
      have e: "pm_branch rc (c # p) n = (if glob (c # p) n then Pm_matched else Pm_break (path_at n 0))"
        using wc fr by (simp add: rc wt del: wild_term.simps)
      have "path_at n 0 = 0 \<longleftrightarrow> n = []" using Cons.prems(2) by (cases n) (auto simp: path_at_def)
      then show ?thesis unfolding e by simp
    next
      case False
      then have nw: "c \<noteq> 0x3F" "c \<noteq> 0x2A" by (auto simp: wild_def)
      show ?thesis
      proof (cases n)
        case Nil
        then show ?thesis using nw c0 by simp
      next
        case (Cons d n')
        have d: "d \<noteq> 0" "0 \<notin> set n'" using Cons.prems(2) Cons by auto
        have "wild_terms p \<le> r" using Cons.prems(4) False by simp
        note ih = Cons.IH [OF c0(2) d(2) c0(3) this Cons.prems(5)]
        have "\<not> glob (c # p) m" if "\<forall>m. length m < length n' \<longrightarrow> \<not> glob p m" "length m < length n" for m
          using that nw Cons by (cases m) auto
        then show ?thesis using ih nw c0 d Cons by auto
      qed
    qed
  qed
  then show "pm_branch rc p n = Pm_matched \<longleftrightarrow> glob p n" and "pm_branch rc p n \<noteq> Pm_too_many"
    and "pm_branch rc p n = Pm_break 0 \<Longrightarrow> length m < length n \<Longrightarrow> \<not> glob p m" by blast+
qed

lemma pm_search_spec:
  assumes "\<And>n. 0 \<notin> set n \<Longrightarrow> (br n = Pm_matched \<longleftrightarrow> g n) \<and> br n \<noteq> Pm_too_many"
    and "\<And>n m. 0 \<notin> set n \<Longrightarrow> br n = Pm_break 0 \<Longrightarrow> length m < length n \<Longrightarrow> \<not> g m"
    and "0 \<notin> set n"
  shows "pm_search br s n \<longleftrightarrow> (\<exists>k \<le> length n. (s \<or> k = 0) \<and> g (drop k n))"
  using assms(3)
proof (induction n)
  case Nil
  then show ?case using assms(1) [of "[]"] by (subst pm_search.simps) (auto split: pm_result.splits)
next
  case (Cons d n)
  have b: "br (d # n) = Pm_matched \<longleftrightarrow> g (d # n)" "br (d # n) \<noteq> Pm_too_many" using assms(1) Cons.prems by auto
  have ex: "(\<exists>k \<le> length (d # n). (s \<or> k = 0) \<and> g (drop k (d # n))) \<longleftrightarrow>
      g (d # n) \<or> s \<and> (\<exists>k \<le> length n. g (drop k n))"
    using ex_le_Suc [of "length n" "\<lambda>k. (s \<or> k = 0) \<and> g (drop k (d # n))"] by auto
  show ?case
  proof (cases "br (d # n)")
    case Pm_matched
    then show ?thesis unfolding ex using b by (subst pm_search.simps) simp
  next
    case Pm_too_many
    then show ?thesis using b by simp
  next
    case (Pm_break x)
    have "\<not> g (drop k n)" if "x = 0" "k \<le> length n" for k
      using assms(2) [OF Cons.prems] Pm_break that by simp
    then show ?thesis unfolding ex using b Pm_break Cons by (subst pm_search.simps) auto
  qed
qed

lemma pattern_match_step:
  assumes "0 \<notin> set p" and "0 \<notin> set n" and "q < 256" and "short_terms p" and "wild_terms p \<le> r"
    and rc: "rc_ok (case r of 0 \<Rightarrow> None | Suc r \<Rightarrow> Some (pattern_match r)) r"
  shows "pattern_match r p n (q + (if s then 256 else 0)) \<longleftrightarrow>
    (\<exists>k \<le> length n. (if s then q \<le> k else k = q) \<and> glob p (drop k n))"
proof -
  define br where "br = pm_branch (case r of 0 \<Rightarrow> None | Suc r \<Rightarrow> Some (pattern_match r)) p"
  have m: "(q + (if s then 256 else 0)) mod 256 = q" "q + (if s then 256 else 0) - q \<noteq> 0 \<longleftrightarrow> s" using assms(3) by simp_all
  have pz: "path_at p 0 = 0 \<longleftrightarrow> p = []" using assms(1) by (cases p) (auto simp: path_at_def)
  have e: "pattern_match r p n (q + (if s then 256 else 0)) \<longleftrightarrow>
      q \<le> length n \<and> (p = [] \<and> s \<or> pm_search br s (drop q n))"
    using m pz by (subst pattern_match.simps) (simp add: Let_def br_def not_less, blast)
  show ?thesis
  proof (cases "q \<le> length n")
    case True
    have "0 \<notin> set (drop q n)" using assms(2) by (auto dest: in_set_dropD)
    have "pm_search br s (drop q n) \<longleftrightarrow> (\<exists>k \<le> length (drop q n). (s \<or> k = 0) \<and> glob p (drop k (drop q n)))"
    proof (rule pm_search_spec)
      fix m m' :: "u8 list" assume "0 \<notin> set m"
      note b = pm_branch_spec [OF assms(1) this assms(4,5) rc]
      show "(br m = Pm_matched \<longleftrightarrow> glob p m) \<and> br m \<noteq> Pm_too_many" using b(1,2) by (simp add: br_def)
      show "\<not> glob p m'" if "br m = Pm_break 0" "length m' < length m" using b(3) that by (simp add: br_def)
    qed (fact \<open>0 \<notin> set (drop q n)\<close>)
    then have sr: "pm_search br s (drop q n) \<longleftrightarrow> (\<exists>k \<le> length n - q. (s \<or> k = 0) \<and> glob p (drop k (drop q n)))"
      by simp
    have "p = [] \<and> s \<Longrightarrow> \<exists>k \<le> length n - q. (s \<or> k = 0) \<and> glob p (drop k (drop q n))"
      by (intro exI [of _ "length n - q"]) simp
    then have "pattern_match r p n (q + (if s then 256 else 0)) \<longleftrightarrow>
        (\<exists>k \<le> length n - q. (s \<or> k = 0) \<and> glob p (drop k (drop q n)))"
      unfolding e sr using True by blast
    also have "\<dots> \<longleftrightarrow> (\<exists>k \<le> length n. (if s then q \<le> k else k = q) \<and> glob p (drop k n))"
    proof
      assume "\<exists>k \<le> length n - q. (s \<or> k = 0) \<and> glob p (drop k (drop q n))"
      then obtain k where "k \<le> length n - q" "s \<or> k = 0" "glob p (drop k (drop q n))" by blast
      then show "\<exists>k \<le> length n. (if s then q \<le> k else k = q) \<and> glob p (drop k n)"
        using True by (intro exI [of _ "k + q"]) auto
    next
      assume "\<exists>k \<le> length n. (if s then q \<le> k else k = q) \<and> glob p (drop k n)"
      then obtain k where "k \<le> length n" "if s then q \<le> k else k = q" "glob p (drop k n)" by blast
      then show "\<exists>k \<le> length n - q. (s \<or> k = 0) \<and> glob p (drop k (drop q n))"
        by (intro exI [of _ "k - q"]) (auto split: if_splits)
    qed
    finally show ?thesis .
  next
    case False
    then show ?thesis unfolding e by (auto split: if_splits)
  qed
qed

lemma pattern_match_spec:
  assumes "0 \<notin> set p" and "0 \<notin> set n" and "q < 256" and "short_terms p" and "wild_terms p \<le> r"
  shows "pattern_match r p n (q + (if s then 256 else 0)) \<longleftrightarrow>
    (\<exists>k \<le> length n. (if s then q \<le> k else k = q) \<and> glob p (drop k n))"
  using assms
proof (induction r arbitrary: p n q s)
  case 0
  show ?case by (rule pattern_match_step [OF 0]) (simp_all add: rc_ok_def)
next
  case (Suc r)
  have "rc_ok (Some (pattern_match r)) (Suc r)" unfolding rc_ok_def using Suc.IH by simp
  then show ?case by (intro pattern_match_step [OF Suc.prems]) simp_all
qed

text \<open>
  C18: the search functions match a name against a pattern exactly as the pattern says, a
  question mark for one character, a star for any number, letters in either case, if it has at
  most the four wildcard terms the recursion is limited to.
\<close>

theorem pattern_match_glob:
  assumes "0 \<notin> set pat" and "0 \<notin> set nam" and "wild_terms pat \<le> 4" and "short_terms pat"
  shows "pattern_match 4 pat nam 0 \<longleftrightarrow> glob pat nam"
  using pattern_match_spec [OF assms(1,2) _ assms(4,3), of 0 False] by simp

theorem pattern_match_glob_witness:
  "pattern_match 4 [0x2A, 0x2E, 0x74, 0x3F, 0x74] [0x41, 0x2E, 0x54, 0x58, 0x54] 0"
  by (subst pattern_match_glob) (simp_all add: wild_def achar_def get_achar_def path_at_def)

subsection \<open>Names in directory entries\<close>

abbreviation (input) NS_LAST :: u8 where "NS_LAST \<equiv> 0x04"
abbreviation (input) NS_DOT :: u8 where "NS_DOT \<equiv> 0x20"
abbreviation (input) NS_NONAME :: u8 where "NS_NONAME \<equiv> 0x80"

text \<open>The characters that no name may have.\<close>

definition illegal_chars :: "u8 list" where
  "illegal_chars = [0x2A, 0x2B, 0x2C, 0x3A, 0x3B, 0x3C, 0x3D, 0x3E, 0x5B, 0x5D, 0x7C, 0x22, 0x3F, 0x7F]"

text \<open>
  The loop over a segment: the character it stops at, what follows it, the name and its end;
  \<open>Inl\<close> when the name is refused.
\<close>

fun create_loop :: "u8 list \<Rightarrow> u8 list \<Rightarrow> nat \<Rightarrow> nat \<Rightarrow> u8 list + (u8 \<times> u8 list \<times> u8 list \<times> nat)" where
  "create_loop [] sfn i ni = Inr (0, [], sfn, i)"
| "create_loop (c # p) sfn i ni =
     (if c \<le> 0x20 then Inr (c, p, sfn, i)
      else if IsSeparator c then Inr (c, dropWhile IsSeparator p, sfn, i)
      else if c = 0x2E \<or> i \<ge> ni then (if ni = 11 \<or> c \<noteq> 0x2E then Inl sfn else create_loop p sfn 8 11)
      else
        (let c = (if c \<ge> 0x80 then ExCvt ! unat (c AND 0x7F) else c)
         in if c \<in> set illegal_chars then Inl sfn
            else create_loop p (sfn[i := upper c]) (i + 1) ni))"

text \<open>A dot entry, at most two dots: the character behind and how many were read.\<close>

function dot_loop :: "u8 list \<Rightarrow> nat \<Rightarrow> u8 list \<Rightarrow> nat \<Rightarrow> u8 \<times> nat \<times> u8 list" where
  "dot_loop p si sfn i =
     (let c = path_at p si; si = si + 1
      in if c \<noteq> 0x2E \<or> si \<ge> 3 then (c, si, sfn) else dot_loop p si (sfn[i := c]) (i + 1))"
  by pat_completeness auto
termination by (relation "measure (\<lambda>(p, si, sfn, i). 3 - si)") auto

declare dot_loop.simps [simp del]

text \<open>The result, the name with its status byte, and what is left of the path.\<close>

definition create_name :: "u8 list \<Rightarrow> u8 list \<Rightarrow> FRESULT \<times> u8 list \<times> u8 list" where
  "create_name fn p =
     (let sfn = replicate 11 0x20 @ drop 11 fn
      in if path_at p 0 = 0x2E then
           (case dot_loop p 0 sfn 0 of
              (c, si, sfn) \<Rightarrow>
                if \<not> IsSeparator c \<and> c > 0x20 then (FR_INVALID_NAME, sfn, p)
                else (FR_OK, sfn[11 := if c \<le> 0x20 then NS_LAST OR NS_DOT else NS_DOT], drop si p))
         else
           (case create_loop p sfn 0 8 of
              Inl sfn \<Rightarrow> (FR_INVALID_NAME, sfn, p)
            | Inr (c, rest, sfn, i) \<Rightarrow>
                if i = 0 then (FR_INVALID_NAME, sfn, rest)
                else
                  (let sfn = (if sfn ! 0 = 0xE5 then sfn[0 := 0x05] else sfn)
                   in (FR_OK, sfn[11 := if c \<le> 0x20 \<or> path_at rest 0 \<le> 0x20 then NS_LAST else 0], rest))))"

text \<open>The name out of the eleven bytes of an entry, \<open>si\<close> of which were read.\<close>

fun info_name :: "nat \<Rightarrow> u8 list \<Rightarrow> u8 list" where
  "info_name si [] = []"
| "info_name si (c # d) =
     (if c = 0x20 then info_name (si + 1) d
      else (let c = (if c = 0x05 then 0xE5 else c) in (if si + 1 = 9 then [0x2E] else []) @ c # info_name (si + 1) d))"

subsection \<open>A name comes back in upper case\<close>

text \<open>The segment of a path, its part before the first dot and the one behind.\<close>

definition name_char :: "u8 \<Rightarrow> bool" where
  "name_char c \<longleftrightarrow> 0x20 < c \<and> \<not> IsSeparator c"

definition segment :: "u8 list \<Rightarrow> u8 list" where
  "segment p = takeWhile name_char p"

lemma ExCvt_upper: "\<forall>x \<in> set ExCvt. upper x = x \<and> 0x20 < x \<and> x \<noteq> 0x2E"
  by (simp add: ExCvt_def upper_def)

lemma and_7F: "0x80 \<le> c \<Longrightarrow> c AND 0x7F = c - (0x80 :: u8)"
proof -
  assume c: "0x80 \<le> c"
  have "unat c < 256" using unsigned_less [of c] by simp
  then have "unat c mod 128 = unat c - 128" using c by (simp add: word_le_nat_alt mod_if)
  moreover have "c AND 0x7F = take_bit 7 c" by (simp add: take_bit_eq_mask mask_eq_exp_minus_1)
  ultimately show "c AND 0x7F = c - 0x80"
    using c by (simp add: word_unat_eq_iff unsigned_take_bit_eq take_bit_eq_mod unat_sub word_le_nat_alt unat_mod)
qed

lemma achar_eq: "upper (if c \<ge> 0x80 then ExCvt ! unat (c AND 0x7F) else c) = achar c"
proof (cases "c \<ge> 0x80")
  case True
  have "unat c < 256" using unsigned_less [of c] by simp
  then have l: "unat (c - 0x80) < length ExCvt" using True by (simp add: ExCvt_bytes unat_sub word_le_nat_alt)
  then have "upper (ExCvt ! unat (c - 0x80)) = ExCvt ! unat (c - 0x80)" using ExCvt_upper nth_mem by blast
  moreover have "\<not> c \<le> 0x7A" using True by (simp add: word_le_nat_alt)
  ultimately show ?thesis
    using True by (simp add: and_7F achar_def get_achar_def path_at_def Let_def del: get_achar_Cons)
next
  case False
  then have "\<not> upper c \<ge> 0x80" by (auto simp: upper_def word_le_nat_alt unat_sub)
  then show ?thesis using False by (simp add: achar_def get_achar_def path_at_def Let_def upper_def del: get_achar_Cons)
qed

lemma achar_plain:
  assumes "0x20 < c"
  shows "0x20 < achar c"
proof (cases "c \<ge> 0x80")
  case True
  have "unat c < 256" using unsigned_less [of c] by simp
  then have "unat (c AND 0x7F) < length ExCvt" using True by (simp add: and_7F ExCvt_bytes unat_sub word_le_nat_alt)
  then have "upper (ExCvt ! unat (c AND 0x7F)) = ExCvt ! unat (c AND 0x7F) \<and> 0x20 < ExCvt ! unat (c AND 0x7F)"
    using ExCvt_upper nth_mem by blast
  then show ?thesis using True achar_eq [of c] by auto
next
  case False
  then have "achar c = upper c" using achar_eq [of c] by simp
  then show ?thesis using assms by (auto simp: upper_def word_less_nat_alt word_le_nat_alt unat_sub)
qed

lemma achar_dot: "achar 0x2E = 0x2E"
  by (simp add: achar_def get_achar_def path_at_def Let_def del: get_achar_Cons)

text \<open>Storing characters from a place on.\<close>

definition put :: "nat \<Rightarrow> u8 list \<Rightarrow> u8 list \<Rightarrow> u8 list" where
  "put i xs sfn = take i sfn @ xs @ drop (i + length xs) sfn"

lemma put_Nil [simp]: "put i [] sfn = sfn"
  by (simp add: put_def)

lemma put_Cons: "i < length sfn \<Longrightarrow> put (Suc i) xs (sfn[i := x]) = put i (x # xs) sfn"
  by (simp add: put_def take_Suc_conv_app_nth)

lemma segment_simps [simp]: "segment [] = []" "segment (c # p) = (if name_char c then c # segment p else [])"
  by (simp_all add: segment_def)

lemma create_ext_spec:
  assumes "create_loop p sfn i 11 = Inr (c, rest, sfn', i')" and "i \<le> 11" and "length sfn = 12"
  shows "0x2E \<notin> set (segment p) \<and> i + length (segment p) \<le> 11 \<and> i' = i + length (segment p) \<and>
    sfn' = put i (map achar (segment p)) sfn"
  using assms
proof (induction p arbitrary: sfn i)
  case (Cons d p)
  show ?case
  proof (cases "name_char d")
    case False
    then show ?thesis using Cons.prems by (auto simp: name_char_def not_less split: if_splits)
  next
    case True
    define e where "e = (if d \<ge> 0x80 then ExCvt ! unat (d AND 0x7F) else d)"
    have n: "\<not> d \<le> 0x20" "\<not> IsSeparator d" using True by (auto simp: name_char_def)
    then have i: "d \<noteq> 0x2E" "i < 11" and r: "create_loop p (sfn[i := upper e]) (i + 1) 11 = Inr (c, rest, sfn', i')"
      using Cons.prems by (auto simp: e_def Let_def split: if_splits)
    have "0x2E \<notin> set (segment p) \<and> i + 1 + length (segment p) \<le> 11 \<and> i' = i + 1 + length (segment p) \<and>
        sfn' = put (i + 1) (map achar (segment p)) (sfn[i := upper e])"
      using Cons.IH [OF r] i Cons.prems(3) by simp
    then show ?thesis using True i Cons.prems(3) achar_eq [of d] put_Cons [of i sfn] by (simp add: e_def)
  qed
qed auto

lemma create_loop_spec:
  assumes "create_loop p sfn i 8 = Inr (c, rest, sfn', i')" and "i \<le> 8" and "length sfn = 12"
  defines "b \<equiv> takeWhile (\<lambda>c. c \<noteq> 0x2E) (segment p)" and "e \<equiv> drop 1 (dropWhile (\<lambda>c. c \<noteq> 0x2E) (segment p))"
  shows "i + length b \<le> 8 \<and> length e \<le> 3 \<and> 0x2E \<notin> set e \<and>
    sfn' = put 8 (map achar e) (put i (map achar b) sfn) \<and> (i' = 0 \<longleftrightarrow> i = 0 \<and> segment p = [])"
  using assms(1-3) unfolding b_def e_def
proof (induction p arbitrary: sfn i)
  case (Cons d p)
  show ?case
  proof (cases "name_char d")
    case False
    then show ?thesis using Cons.prems by (auto simp: name_char_def not_less split: if_splits)
  next
    case True
    then have n: "\<not> d \<le> 0x20" "\<not> IsSeparator d" by (auto simp: name_char_def)
    show ?thesis
    proof (cases "d = 0x2E")
      case dot: True
      then have "create_loop p sfn 8 11 = Inr (c, rest, sfn', i')" using Cons.prems n by (auto split: if_splits)
      from create_ext_spec [OF this] show ?thesis using True dot Cons.prems by simp
    next
      case False
      define x where "x = (if d \<ge> 0x80 then ExCvt ! unat (d AND 0x7F) else d)"
      have i: "i < 8" and r: "create_loop p (sfn[i := upper x]) (i + 1) 8 = Inr (c, rest, sfn', i')"
        using Cons.prems n False by (auto simp: x_def Let_def split: if_splits)
      note ih = Cons.IH [OF r]
      show ?thesis using ih i False True Cons.prems(3) achar_eq [of d] put_Cons [of i sfn] by (simp add: x_def)
    qed
  qed
qed auto

lemma info_plain:
  assumes "\<forall>x \<in> set xs. 0x20 < x" and "si + length xs \<le> 8 \<or> 8 < si"
  shows "info_name si (xs @ ys) = xs @ info_name (si + length xs) ys"
  using assms
proof (induction xs arbitrary: si)
  case (Cons x xs)
  have "x \<noteq> 0x20" "x \<noteq> 0x05" using Cons.prems(1) by auto
  moreover have "info_name (Suc si) (xs @ ys) = xs @ info_name (Suc si + length xs) ys"
    using Cons.prems by (intro Cons.IH) auto
  ultimately show ?case using Cons.prems(2) by (auto simp: Let_def)
qed simp

lemma info_spaces: "info_name si (replicate n 0x20 @ ys) = info_name (si + n) ys"
  by (induction n arbitrary: si) simp_all

lemma info_parts:
  assumes b: "\<forall>x \<in> set b. 0x20 < x" "length b \<le> 8" and e: "\<forall>x \<in> set e. 0x20 < x" "length e \<le> 3"
  shows "info_name 0 (b @ replicate (8 - length b) 0x20 @ e @ replicate (3 - length e) 0x20) = b @ (if e = [] then [] else 0x2E # e)"
proof -
  have "info_name 0 (b @ replicate (8 - length b) 0x20 @ e @ replicate (3 - length e) 0x20) =
      b @ info_name 8 (e @ replicate (3 - length e) 0x20)"
    using b by (simp add: info_plain info_spaces)
  moreover have "info_name 8 (e @ replicate (3 - length e) 0x20) = (if e = [] then [] else 0x2E # e)"
  proof (cases e)
    case Nil
    then show ?thesis using info_spaces [of 8 3 "[]"] by simp
  next
    case (Cons x xs)
    have "x \<noteq> 0x20" "x \<noteq> 0x05" using e(1) Cons by auto
    moreover have "info_name 9 (xs @ replicate (3 - length e) 0x20) = xs"
      using e(1) Cons info_plain [of xs 9 "replicate (3 - length e) 0x20"] info_spaces [of "9 + length xs" "3 - length e" "[]"] by simp
    ultimately show ?thesis using Cons by (simp add: Let_def)
  qed
  ultimately show ?thesis by simp
qed

text \<open>The name of an entry, up to the mark of a first character that looks like a deleted entry.\<close>

lemma info_mark: "info_name 0 ((if x = 0xE5 then 0x05 else x) # xs) = info_name 0 (x # xs)" if "x \<noteq> 0x20"
  using that by simp

definition no_last_dot :: "u8 list \<Rightarrow> u8 list" where
  "no_last_dot s = (if s \<noteq> [] \<and> last s = 0x2E then butlast s else s)"

text \<open>
  C17: a name that is accepted comes back out of the directory entry it is turned into as it was,
  in upper case and without a dot at its end; so two names are the same entry exactly when
  they differ in the case of letters or in a last dot only.
\<close>

theorem create_name_reads_back:
  assumes "create_name fn p = (FR_OK, sfn, rest)" and "length fn = 12" and "path_at p 0 \<noteq> 0x2E"
  shows "info_name 0 (take 11 sfn) = map achar (no_last_dot (segment p)) \<and> segment p \<noteq> [] \<and> length sfn = 12"
proof -
  define s0 where "s0 = replicate 11 0x20 @ drop 11 fn"
  have l0: "length s0 = 12" using assms(2) by (simp add: s0_def)
  define b where "b = takeWhile (\<lambda>c. c \<noteq> 0x2E) (segment p)"
  define e where "e = drop 1 (dropWhile (\<lambda>c. c \<noteq> 0x2E) (segment p))"
  obtain c s1 i where cl: "create_loop p s0 0 8 = Inr (c, rest, s1, i)" and i: "i \<noteq> 0"
    and sfn: "sfn = (if s1 ! 0 = 0xE5 then s1[0 := 0x05] else s1)[11 := if c \<le> 0x20 \<or> path_at rest 0 \<le> 0x20 then NS_LAST else 0]"
    using assms(1,3) unfolding create_name_def s0_def [symmetric] Let_def
    by (auto split: if_splits sum.splits prod.splits)
  have sp: "length b \<le> 8" "length e \<le> 3" "0x2E \<notin> set e" "s1 = put 8 (map achar e) (put 0 (map achar b) s0)" "segment p \<noteq> []"
    using create_loop_spec [OF cl _ l0, folded b_def e_def] i by auto
  have seg: "segment p = b @ dropWhile (\<lambda>c. c \<noteq> 0x2E) (segment p)" by (simp add: b_def)
  have nc: "\<forall>x \<in> set (segment p). 0x20 < x" unfolding segment_def by (auto dest!: set_takeWhileD simp: name_char_def)
  have sb: "\<forall>x \<in> set (map achar b). 0x20 < x" and se: "\<forall>x \<in> set (map achar e). 0x20 < x"
    using nc achar_plain by (auto simp: b_def e_def dest!: set_takeWhileD in_set_dropD set_dropWhileD)
  define B where "B = map achar b"
  define E where "E = map achar e"
  have le: "length B \<le> 8" "length E \<le> 3" using sp(1,2) by (simp_all add: B_def E_def)
  have d8: "drop n s0 = replicate (11 - n) 0x20 @ drop 11 fn" if "n \<le> 11" for n using that by (simp add: s0_def)
  have "put 0 B s0 = B @ replicate (11 - length B) 0x20 @ drop 11 fn" using d8 [of "length B"] le by (simp add: put_def)
  then have s1: "s1 = B @ replicate (8 - length B) 0x20 @ E @ replicate (3 - length E) 0x20 @ drop 11 fn"
    using sp(4) le unfolding B_def [symmetric] E_def [symmetric] by (simp add: put_def)
  have "p \<noteq> []" using sp(5) by auto
  then obtain d p' where p: "p = d # p'" by (cases p) auto
  have "name_char d" "d \<noteq> 0x2E" using sp(5) assms(3) by (auto simp: p path_at_def split: if_splits)
  then have "b \<noteq> []" by (simp add: b_def p)
  then obtain x B' where B: "B = x # B'" unfolding B_def by (cases b) auto
  have x: "x \<noteq> 0x20" using sb by (auto simp: B_def [symmetric] B)
  have "take 11 sfn = (if x = 0xE5 then 0x05 else x) # B' @ replicate (8 - length B) 0x20 @ E @ replicate (3 - length E) 0x20"
    using le by (simp add: sfn s1 B)
  then have "info_name 0 (take 11 sfn) = info_name 0 (B @ replicate (8 - length B) 0x20 @ E @ replicate (3 - length E) 0x20)"
    using info_mark [OF x] by (simp only: B append_Cons)
  also have "\<dots> = B @ (if E = [] then [] else 0x2E # E)"
    by (rule info_parts) (use sb se le in \<open>simp_all add: B_def E_def\<close>)
  also have "\<dots> = map achar (no_last_dot (segment p))"
  proof (cases "dropWhile (\<lambda>c. c \<noteq> 0x2E) (segment p)")
    case Nil
    have "e = []" unfolding e_def Nil by simp
    moreover have "segment p = b" using seg unfolding Nil by simp
    moreover have "0x2E \<notin> set b" unfolding b_def by (auto dest: set_takeWhileD)
    ultimately show ?thesis using last_in_set [OF \<open>b \<noteq> []\<close>] by (auto simp: no_last_dot_def B_def E_def)
  next
    case (Cons y ys)
    then have "y = 0x2E" using hd_dropWhile [of "\<lambda>c. c \<noteq> 0x2E" "segment p"] by auto
    then have sg: "segment p = b @ 0x2E # e" using seg Cons by (simp add: e_def)
    show ?thesis
    proof (cases "e = []")
      case True
      then show ?thesis using sg by (simp add: no_last_dot_def B_def E_def butlast_append)
    next
      case False
      then have "last (segment p) = last e" using sg by simp
      then have "last (segment p) \<noteq> 0x2E" using sp(3) last_in_set [OF False] by metis
      then show ?thesis using sg False achar_dot by (simp add: no_last_dot_def B_def E_def)
    qed
  qed
  finally have "info_name 0 (take 11 sfn) = map achar (no_last_dot (segment p))" .
  moreover have "length sfn = 12" using le assms(2) by (simp add: sfn s1)
  ultimately show ?thesis using sp(5) by simp
qed

text \<open>\<open>log.txt\<close> in the root.\<close>

theorem create_name_reads_back_witness:
  "case create_name (replicate 12 0) [0x6C, 0x6F, 0x67, 0x2E, 0x74, 0x78, 0x74] of (res, sfn, rest) \<Rightarrow>
     res = FR_OK \<and> info_name 0 (take 11 sfn) = [0x4C, 0x4F, 0x47, 0x2E, 0x54, 0x58, 0x54]"
proof -
  obtain res sfn rest where c: "create_name (replicate 12 0) [0x6C, 0x6F, 0x67, 0x2E, 0x74, 0x78, 0x74] = (res, sfn, rest)"
    by (metis prod_cases3)
  moreover have "fst (create_name (replicate 12 0) [0x6C, 0x6F, 0x67, 0x2E, 0x74, 0x78, 0x74]) = FR_OK" by code_simp
  ultimately have r: "res = FR_OK" by simp
  show ?thesis
    using create_name_reads_back [OF c [unfolded r]] c r
    by (simp add: path_at_def no_last_dot_def name_char_def IsSeparator_def achar_def get_achar_def Let_def del: get_achar_Cons)
qed

end
