(* ===== verification/FatFs_Dir.thy ===== *)
theory FatFs_Dir
  imports FatFs_File FatFs_Name
begin

text \<open>
  Directories of \<open>ff.c\<close>: the position in a directory, the search, the registration and the
  removal of an entry, and the walk along a path. A directory is a table of entries of 32 bytes
  in the sectors of the root area or of a cluster chain; the entry at hand lies in the window.
\<close>

text \<open>The pointer \<open>dir\<close> into the window is its offset; \<open>fn\<close> is the name with its status byte.\<close>

record dirobj =
  d_id :: "u16 option"
  d_attr :: u8
  d_sclust :: u32
  d_lockid :: u32
  dptr :: u32
  d_clust :: u32
  d_sect :: u32
  d_ofs :: nat
  d_fn :: "u8 list"
  d_pat :: "u8 list"

abbreviation (input) AM_RDO :: u8 where "AM_RDO \<equiv> 0x01"
abbreviation (input) AM_VOL :: u8 where "AM_VOL \<equiv> 0x08"
abbreviation (input) AM_LFN :: u8 where "AM_LFN \<equiv> 0x0F"
abbreviation (input) AM_DIR :: u8 where "AM_DIR \<equiv> 0x10"
abbreviation (input) AM_ARC :: u8 where "AM_ARC \<equiv> 0x20"
abbreviation (input) AM_MASK :: u8 where "AM_MASK \<equiv> 0x3F"
abbreviation (input) DDEM :: u8 where "DDEM \<equiv> 0xE5"
abbreviation (input) MAX_DIR :: u32 where "MAX_DIR \<equiv> 0x200000"

definition dir_byte :: "dirobj \<Rightarrow> fatfs \<Rightarrow> nat \<Rightarrow> u8" where
  "dir_byte dp fs i = win fs ! (d_ofs dp + i)"

subsection \<open>The position\<close>

text \<open>The window is written to each sector of the cluster, until a write fails.\<close>

primrec clear_loop :: "nat \<Rightarrow> u32 \<Rightarrow> fatfs \<Rightarrow> bool \<times> fatfs" where
  "clear_loop 0 s fs = (True, fs)"
| "clear_loop (Suc n) s fs =
     (case disk_write_sector s (win fs) fs of
        (ok, fs1) \<Rightarrow> if ok then clear_loop n (s + 1) fs1 else (False, fs1))"

definition dir_clear :: "u32 \<Rightarrow> fatfs \<Rightarrow> FRESULT \<times> fatfs" where
  "dir_clear clst fs =
     (case sync_window fs of
        (res, fs1) \<Rightarrow>
          if res \<noteq> FR_OK then (FR_DISK_ERR, fs1)
          else
            (let s = clst2sect fs1 clst; fs2 = fs1\<lparr>winsect := s, win := replicate 512 0\<rparr>
             in case clear_loop (unat (csize fs2)) s fs2 of (ok, fs3) \<Rightarrow> (if ok then FR_OK else FR_DISK_ERR, fs3)))"

partial_function (option) sdi_loop ::
  "u32 \<Rightarrow> u32 \<Rightarrow> u32 \<Rightarrow> fatfs \<Rightarrow> ((FRESULT + u32 \<times> u32) \<times> fatfs) option" where
  "sdi_loop csz ofs clst fs =
     (if ofs \<ge> csz then
        (case get_fat clst fs of
           (clst, fs1) \<Rightarrow>
             if clst = 0xFFFFFFFF then Some (Inl FR_DISK_ERR, fs1)
             else if clst < 2 \<or> clst \<ge> n_fatent fs1 then Some (Inl FR_INT_ERR, fs1)
             else sdi_loop csz (ofs - csz) clst fs1)
      else Some (Inr (ofs, clst), fs))"

definition sdi_set :: "u32 \<Rightarrow> u32 \<Rightarrow> u32 \<Rightarrow> dirobj \<Rightarrow> FRESULT \<times> dirobj" where
  "sdi_set s ofs clst dp =
     (let dp1 = dp\<lparr>d_clust := clst, d_sect := s\<rparr>
      in if s = 0 then (FR_INT_ERR, dp1)
         else (FR_OK, dp1\<lparr>d_sect := s + ofs div 512, d_ofs := unat (ofs mod 512)\<rparr>))"

definition dir_sdi :: "u32 \<Rightarrow> dirobj \<Rightarrow> fatfs \<Rightarrow> (FRESULT \<times> dirobj \<times> fatfs) option" where
  "dir_sdi ofs dp fs =
     (if ofs \<ge> MAX_DIR \<or> ofs mod 32 \<noteq> 0 then Some (FR_INT_ERR, dp, fs)
      else
        (let dp1 = dp\<lparr>dptr := ofs\<rparr>;
             clst = (if d_sclust dp1 = 0 \<and> fs_type fs = FS_FAT32 then dirbase fs else d_sclust dp1)
         in if clst = 0 then
              (if ofs div 32 \<ge> ucast (n_rootdir fs) then Some (FR_INT_ERR, dp1, fs)
               else (case sdi_set (dirbase fs) ofs clst dp1 of (res, dp2) \<Rightarrow> Some (res, dp2, fs)))
            else
              (case sdi_loop (ucast (csize fs) * 512) ofs clst fs of
                 None \<Rightarrow> None
               | Some (Inl res, fs1) \<Rightarrow> Some (res, dp1, fs1)
               | Some (Inr (ofs, clst), fs1) \<Rightarrow>
                   (case sdi_set (clst2sect fs1 clst) ofs clst dp1 of (res, dp2) \<Rightarrow> Some (res, dp2, fs1)))))"

text \<open>The next cluster of the directory, a new one if it may be stretched.\<close>

definition next_cluster_of :: "bool \<Rightarrow> dirobj \<Rightarrow> fatfs \<Rightarrow> ((FRESULT + u32) \<times> dirobj \<times> fatfs) option" where
  "next_cluster_of stretch dp fs =
     (case get_fat (d_clust dp) fs of
        (clst, fs1) \<Rightarrow>
          if clst \<le> 1 then Some (Inl FR_INT_ERR, dp, fs1)
          else if clst = 0xFFFFFFFF then Some (Inl FR_DISK_ERR, dp, fs1)
          else if clst \<ge> n_fatent fs1 then
            (if \<not> stretch then Some (Inl FR_NO_FILE, dp\<lparr>d_sect := 0\<rparr>, fs1)
             else
               (case create_chain (d_clust dp) fs1 of
                  None \<Rightarrow> None
                | Some (clst, fs2) \<Rightarrow>
                    if clst = 0 then Some (Inl FR_DENIED, dp, fs2)
                    else if clst = 1 then Some (Inl FR_INT_ERR, dp, fs2)
                    else if clst = 0xFFFFFFFF then Some (Inl FR_DISK_ERR, dp, fs2)
                    else (case dir_clear clst fs2 of
                            (res, fs3) \<Rightarrow> Some (if res \<noteq> FR_OK then Inl FR_DISK_ERR else Inr clst, dp, fs3))))
          else Some (Inr clst, dp, fs1))"

definition dir_next :: "bool \<Rightarrow> dirobj \<Rightarrow> fatfs \<Rightarrow> (FRESULT \<times> dirobj \<times> fatfs) option" where
  "dir_next stretch dp fs =
     (let ofs = dptr dp + 32; dp1 = (if ofs \<ge> MAX_DIR then dp\<lparr>d_sect := 0\<rparr> else dp);
          here = (\<lambda>dp. dp\<lparr>dptr := ofs, d_ofs := unat (ofs mod 512)\<rparr>)
      in if d_sect dp1 = 0 then Some (FR_NO_FILE, dp1, fs)
         else if ofs mod 512 = 0 then
           (let dp2 = dp1\<lparr>d_sect := d_sect dp1 + 1\<rparr>
            in if d_clust dp2 = 0 then
                 (if ofs div 32 \<ge> ucast (n_rootdir fs) then Some (FR_NO_FILE, dp2\<lparr>d_sect := 0\<rparr>, fs)
                  else Some (FR_OK, here dp2, fs))
               else if ofs div 512 AND (ucast (csize fs) - 1) = 0 then
                 (case next_cluster_of stretch dp2 fs of
                    None \<Rightarrow> None
                  | Some (Inl res, dp3, fs1) \<Rightarrow> Some (res, dp3, fs1)
                  | Some (Inr clst, dp3, fs1) \<Rightarrow>
                      Some (FR_OK, here (dp3\<lparr>d_clust := clst, d_sect := clst2sect fs1 clst\<rparr>), fs1))
               else Some (FR_OK, here dp2, fs))
         else Some (FR_OK, here dp1, fs))"

subsection \<open>Entries\<close>

text \<open>The free entry, searched from the place that \<open>dp\<close> has; \<open>n\<close> free ones were seen before it.\<close>

partial_function (option) alloc_loop :: "nat \<Rightarrow> nat \<Rightarrow> dirobj \<Rightarrow> fatfs \<Rightarrow> (FRESULT \<times> dirobj \<times> fatfs) option" where
  "alloc_loop n_ent n dp fs =
     (case move_window (d_sect dp) fs of
        (res, fs1) \<Rightarrow>
          if res \<noteq> FR_OK then Some (res, dp, fs1)
          else
            (let n = (if dir_byte dp fs1 0 = DDEM \<or> dir_byte dp fs1 0 = 0 then n + 1 else 0)
             in if n = n_ent \<and> n \<noteq> 0 then Some (FR_OK, dp, fs1)
                else
                  (case dir_next True dp fs1 of
                     None \<Rightarrow> None
                   | Some (res, dp1, fs2) \<Rightarrow>
                       if res = FR_OK then alloc_loop n_ent n dp1 fs2 else Some (res, dp1, fs2))))"

definition dir_alloc :: "nat \<Rightarrow> dirobj \<Rightarrow> fatfs \<Rightarrow> (FRESULT \<times> dirobj \<times> fatfs) option" where
  "dir_alloc n_ent dp fs =
     map_option (\<lambda>(res, dp, fs). (if res = FR_NO_FILE then FR_DENIED else res, dp, fs))
       (case dir_sdi 0 dp fs of
          None \<Rightarrow> None
        | Some (res, dp1, fs1) \<Rightarrow> if res = FR_OK then alloc_loop n_ent 0 dp1 fs1 else Some (res, dp1, fs1))"

text \<open>The start cluster in an entry at offset \<open>i\<close> of the window.\<close>

definition ld_clust :: "fatfs \<Rightarrow> nat \<Rightarrow> u32" where
  "ld_clust fs i =
     (let cl = ucast (ld_word (win fs) (i + 26))
      in if fs_type fs = FS_FAT32 then cl OR push_bit 16 (ucast (ld_word (win fs) (i + 20))) else cl)"

definition st_clust :: "nat \<Rightarrow> u32 \<Rightarrow> fatfs \<Rightarrow> fatfs" where
  "st_clust i cl fs =
     (let fs1 = fs\<lparr>win := st_word (win fs) (i + 26) (ucast cl)\<rparr>
      in if fs_type fs1 = FS_FAT32 then fs1\<lparr>win := st_word (win fs1) (i + 20) (ucast (drop_bit 16 cl))\<rparr> else fs1)"

text \<open>The loop of \<open>dir_read\<close>; \<open>vol\<close> asks for the volume label instead of files.\<close>

partial_function (option) read_dir_loop :: "bool \<Rightarrow> dirobj \<Rightarrow> fatfs \<Rightarrow> (FRESULT \<times> dirobj \<times> fatfs) option" where
  "read_dir_loop vol dp fs =
     (case move_window (d_sect dp) fs of
        (res, fs1) \<Rightarrow>
          if res \<noteq> FR_OK then Some (res, dp, fs1)
          else if dir_byte dp fs1 0 = 0 then Some (FR_NO_FILE, dp, fs1)
          else
            (let b = dir_byte dp fs1 0; attr = dir_byte dp fs1 11 AND AM_MASK; dp1 = dp\<lparr>d_attr := attr\<rparr>
             in if b \<noteq> DDEM \<and> b \<noteq> 0x2E \<and> attr \<noteq> AM_LFN \<and> (attr AND NOT AM_ARC = AM_VOL) = vol
                then Some (FR_OK, dp1, fs1)
                else
                  (case dir_next False dp1 fs1 of
                     None \<Rightarrow> None
                   | Some (res, dp2, fs2) \<Rightarrow>
                       if res \<noteq> FR_OK then Some (res, dp2, fs2)
                       else if d_sect dp2 = 0 then Some (res, dp2, fs2)
                       else read_dir_loop vol dp2 fs2)))"

definition dir_read :: "bool \<Rightarrow> dirobj \<Rightarrow> fatfs \<Rightarrow> (FRESULT \<times> dirobj \<times> fatfs) option" where
  "dir_read vol dp fs =
     map_option (\<lambda>(res, dp, fs). (res, if res \<noteq> FR_OK then dp\<lparr>d_sect := 0\<rparr> else dp, fs))
       (if d_sect dp \<noteq> 0 then read_dir_loop vol dp fs else Some (FR_NO_FILE, dp, fs))"

partial_function (option) find_loop :: "dirobj \<Rightarrow> fatfs \<Rightarrow> (FRESULT \<times> dirobj \<times> fatfs) option" where
  "find_loop dp fs =
     (case move_window (d_sect dp) fs of
        (res, fs1) \<Rightarrow>
          if res \<noteq> FR_OK then Some (res, dp, fs1)
          else if dir_byte dp fs1 0 = 0 then Some (FR_NO_FILE, dp, fs1)
          else
            (let dp1 = dp\<lparr>d_attr := dir_byte dp fs1 11 AND AM_MASK\<rparr>
             in if dir_byte dp1 fs1 11 AND AM_VOL = 0 \<and> take 11 (drop (d_ofs dp1) (win fs1)) = take 11 (d_fn dp1)
                then Some (FR_OK, dp1, fs1)
                else
                  (case dir_next False dp1 fs1 of
                     None \<Rightarrow> None
                   | Some (res, dp2, fs2) \<Rightarrow> if res = FR_OK then find_loop dp2 fs2 else Some (res, dp2, fs2))))"

definition dir_find :: "dirobj \<Rightarrow> fatfs \<Rightarrow> (FRESULT \<times> dirobj \<times> fatfs) option" where
  "dir_find dp fs =
     (case dir_sdi 0 dp fs of
        None \<Rightarrow> None
      | Some (res, dp1, fs1) \<Rightarrow> if res \<noteq> FR_OK then Some (res, dp1, fs1) else find_loop dp1 fs1)"

text \<open>Writes at an offset of the window.\<close>

definition win_put :: "nat \<Rightarrow> u8 list \<Rightarrow> fatfs \<Rightarrow> fatfs" where
  "win_put i bs fs = fs\<lparr>win := take i (win fs) @ bs @ drop (i + length bs) (win fs)\<rparr>"

definition dir_register :: "dirobj \<Rightarrow> fatfs \<Rightarrow> (FRESULT \<times> dirobj \<times> fatfs) option" where
  "dir_register dp fs =
     (case dir_alloc 1 dp fs of
        None \<Rightarrow> None
      | Some (res, dp1, fs1) \<Rightarrow>
          if res = FR_OK then
            (case move_window (d_sect dp1) fs1 of
               (res, fs2) \<Rightarrow>
                 if res = FR_OK then
                   Some (res, dp1, (win_put (d_ofs dp1) (take 11 (d_fn dp1))
                                      (win_put (d_ofs dp1) (replicate 32 0) fs2))\<lparr>wflag := True\<rparr>)
                 else Some (res, dp1, fs2))
          else Some (res, dp1, fs1))"

definition dir_remove :: "dirobj \<Rightarrow> fatfs \<Rightarrow> FRESULT \<times> fatfs" where
  "dir_remove dp fs =
     (case move_window (d_sect dp) fs of
        (res, fs1) \<Rightarrow>
          (res, if res = FR_OK then (win_put (d_ofs dp) [DDEM] fs1)\<lparr>wflag := True\<rparr> else fs1))"

record filinfo =
  fi_size :: u32
  fi_date :: u16
  fi_time :: u16
  fi_attrib :: u8
  fi_name :: "u8 list"

definition get_fileinfo :: "dirobj \<Rightarrow> fatfs \<Rightarrow> filinfo \<Rightarrow> filinfo" where
  "get_fileinfo dp fs fno =
     (if d_sect dp = 0 then fno\<lparr>fi_name := []\<rparr>
      else \<lparr>fi_size = ld_dword (win fs) (d_ofs dp + 28), fi_date = ld_word (win fs) (d_ofs dp + 24),
             fi_time = ld_word (win fs) (d_ofs dp + 22), fi_attrib = dir_byte dp fs 11 AND AM_MASK,
             fi_name = info_name 0 (take 11 (drop (d_ofs dp) (win fs)))\<rparr>)"

subsection \<open>Paths\<close>

text \<open>The segments of a path one after the other.\<close>

partial_function (option) path_loop :: "u8 list \<Rightarrow> dirobj \<Rightarrow> fatfs \<Rightarrow> (FRESULT \<times> dirobj \<times> fatfs) option" where
  "path_loop p dp fs =
     (case create_name (d_fn dp) p of
        (res, sfn, rest) \<Rightarrow>
          if res \<noteq> FR_OK then Some (res, dp\<lparr>d_fn := sfn\<rparr>, fs)
          else
            (case dir_find (dp\<lparr>d_fn := sfn\<rparr>) fs of
               None \<Rightarrow> None
             | Some (res, dp1, fs1) \<Rightarrow>
                 (let ns = d_fn dp1 ! 11
                  in if res \<noteq> FR_OK then
                       (if res = FR_NO_FILE then
                          (if ns AND NS_DOT \<noteq> 0 then
                             (if ns AND NS_LAST = 0 then path_loop rest dp1 fs1
                              else Some (FR_OK, dp1\<lparr>d_fn := (d_fn dp1)[11 := NS_NONAME]\<rparr>, fs1))
                           else Some (if ns AND NS_LAST = 0 then FR_NO_PATH else res, dp1, fs1))
                        else Some (res, dp1, fs1))
                     else if ns AND NS_LAST \<noteq> 0 then Some (res, dp1, fs1)
                     else if d_attr dp1 AND AM_DIR = 0 then Some (FR_NO_PATH, dp1, fs1)
                     else path_loop rest (dp1\<lparr>d_sclust := ld_clust fs1 (unat (dptr dp1 mod 512))\<rparr>) fs1)))"

definition follow_path :: "u8 list \<Rightarrow> dirobj \<Rightarrow> fatfs \<Rightarrow> (FRESULT \<times> dirobj \<times> fatfs) option" where
  "follow_path p dp fs =
     (let dp1 = dp\<lparr>d_sclust := (if \<not> IsSeparator (path_at p 0) then cdir fs else 0)\<rparr>;
          p1 = (if \<not> IsSeparator (path_at p 0) then p else dropWhile IsSeparator p)
      in if path_at p1 0 < 0x20 then dir_sdi 0 (dp1\<lparr>d_fn := (d_fn dp1)[11 := NS_NONAME]\<rparr>) fs
         else path_loop p1 dp1 fs)"

end
