(* ===== verification/FatFs_Dir_Table.thy ===== *)
theory FatFs_Dir_Table
  imports FatFs_Dir FatFs_Read
begin

text \<open>
  A directory as the list of its entries: the 32-byte pieces of its sectors, those of the root
  area or of its cluster chain, up to the 65536 that \<open>ff.c\<close> goes through. The functions that
  move in a directory visit the entries in order, on every kind of table, and change nothing.
\<close>

definition root_sects :: "fatfs \<Rightarrow> u32 list" where
  "root_sects fs = map (\<lambda>i. dirbase fs + of_nat i) [0..<unat (n_rootdir fs) div 16]"

text \<open>The root area of FAT12 and FAT16 lies between the tables and the data.\<close>

definition root_ok :: "fatfs \<Rightarrow> bool" where
  "root_ok fs \<longleftrightarrow> unat (n_rootdir fs) mod 16 = 0 \<and> 0 < unat (n_rootdir fs) \<and>
     unat (fatbase fs) + unat (n_fats fs) * unat (fsize fs) \<le> unat (dirbase fs) \<and>
     unat (dirbase fs) + unat (n_rootdir fs) div 16 \<le> unat (database fs)"

definition dir_start :: "fatfs \<Rightarrow> u32 \<Rightarrow> u32" where
  "dir_start fs sc = (if sc = 0 \<and> fs_type fs = FS_FAT32 then dirbase fs else sc)"

text \<open>The directory that starts at cluster \<open>sc\<close>: its clusters (none for a root area), its sectors.\<close>

definition dir_table :: "fatfs \<Rightarrow> u32 \<Rightarrow> u32 list \<Rightarrow> u32 list \<Rightarrow> bool" where
  "dir_table fs sc cs ss \<longleftrightarrow> fs_ready fs \<and> data_geometry fs \<and>
     (if dir_start fs sc = 0 then cs = [] \<and> ss = root_sects fs \<and> root_ok fs
      else chain (fatmap fs) (n_fatent fs) (dir_start fs sc) cs \<and> ss = file_sects fs cs)"

definition dir_size :: "u32 list \<Rightarrow> nat" where
  "dir_size ss = min 65536 (16 * length ss)"

definition dir_entry :: "fatfs \<Rightarrow> u32 list \<Rightarrow> nat \<Rightarrow> u8 list" where
  "dir_entry fs ss k = take 32 (drop (32 * (k mod 16)) (view fs (ss ! (k div 16))))"

definition dir_entries :: "fatfs \<Rightarrow> u32 list \<Rightarrow> u8 list list" where
  "dir_entries fs ss = map (dir_entry fs ss) [0..<dir_size ss]"

text \<open>The object stands on entry \<open>k\<close>.\<close>

definition dir_pos :: "fatfs \<Rightarrow> u32 \<Rightarrow> u32 list \<Rightarrow> u32 list \<Rightarrow> nat \<Rightarrow> dirobj \<Rightarrow> bool" where
  "dir_pos fs sc cs ss k dp \<longleftrightarrow> k < dir_size ss \<and> d_sclust dp = sc \<and> dptr dp = of_nat (32 * k) \<and>
     d_sect dp = ss ! (k div 16) \<and> d_ofs dp = 32 * (k mod 16) \<and>
     d_clust dp = (if cs = [] then 0 else cs ! (k div 16 div unat (csize fs)))"

subsection \<open>The sectors\<close>

definition dir_area :: "fatfs \<Rightarrow> u32 \<Rightarrow> bool" where
  "dir_area fs s \<longleftrightarrow> s \<noteq> 0 \<and> s \<noteq> 0 - 1 \<and> \<not> in_fat1 fs s \<and> \<not> in_fat2 fs s"

lemma fsize_pos: "geometry fs \<Longrightarrow> 0 < unat (fsize fs)"
proof -
  assume g: "geometry fs"
  then have "2 < n_fatent fs" by (simp add: geometry_def)
  from entry_offsets [OF g this] g show ?thesis by (cases "fs_type fs") (auto simp: geometry_def)
qed

lemma tables_behind_start: "geometry fs \<Longrightarrow> unat (fatbase fs) + unat (n_fats fs) * unat (fsize fs) \<noteq> 0"
  using fsize_pos [of fs] by (auto simp: geometry_def)

lemma unat_max_u32: "unat (0 - 1 :: u32) = 2 ^ 32 - 1"
  by (simp add: unsigned_minus_1_eq_mask mask_eq_exp_minus_1)

lemma root_sects_nth:
  assumes "data_geometry fs" and "root_ok fs" and "i < unat (n_rootdir fs) div 16"
  shows "unat (root_sects fs ! i) = unat (dirbase fs) + i" "dir_area fs (root_sects fs ! i)"
proof -
  have g: "geometry fs" using assms(1) by (rule data_geometryD)
  have db: "unat (database fs) < 2 ^ 32" using unat_u32_less [of "database fs"] by simp
  have lt: "unat (dirbase fs) + i < unat (database fs)" using assms(2,3) by (simp add: root_ok_def)
  then have "unat (of_nat i :: u32) = i" using db by (intro unat_u32) simp
  then show u: "unat (root_sects fs ! i) = unat (dirbase fs) + i"
    using assms(3) lt db by (simp add: root_sects_def unat_plus_if')
  have "unat (fatbase fs) + unat (n_fats fs) * unat (fsize fs) \<le> unat (root_sects fs ! i)"
    using assms(2) u by (simp add: root_ok_def)
  then show "dir_area fs (root_sects fs ! i)"
    using behind_tables [of fs] tables_behind_start [OF g] g u lt db unat_max_u32
    by (auto simp: dir_area_def geometry_def)
qed

lemma dir_tableD:
  assumes "dir_table fs sc cs ss"
  shows "fs_ready fs" "data_geometry fs" "geometry fs" "window_ok fs" "io_ok fs" "mounted fs" "0 < length ss"
    "clusters_ok fs cs" "cs = [] \<longleftrightarrow> dir_start fs sc = 0"
    "cs \<noteq> [] \<Longrightarrow> length ss = unat (csize fs) * length cs" "cs = [] \<Longrightarrow> length ss = unat (n_rootdir fs) div 16"
proof -
  show r: "fs_ready fs" and g: "data_geometry fs" using assms by (auto simp: dir_table_def)
  show "geometry fs" "window_ok fs" "io_ok fs" "mounted fs" using r by (auto simp: fs_ready_def mounted_def)
  show "clusters_ok fs cs" using assms chain_clusters_ok by (auto simp: dir_table_def clusters_ok_def split: if_splits)
  show e: "cs = [] \<longleftrightarrow> dir_start fs sc = 0" using assms by (auto simp: dir_table_def split: if_splits)
  then show lc: "cs \<noteq> [] \<Longrightarrow> length ss = unat (csize fs) * length cs"
    and lr: "cs = [] \<Longrightarrow> length ss = unat (n_rootdir fs) div 16"
    using assms by (auto simp: dir_table_def length_file_sects root_sects_def)
  show "0 < length ss"
  proof (cases "cs = []")
    case True
    then have "root_ok fs" using assms e by (simp add: dir_table_def)
    then have "unat (n_rootdir fs) mod 16 = 0" "0 < unat (n_rootdir fs)" by (auto simp: root_ok_def)
    then have "16 \<le> unat (n_rootdir fs)" by (cases "unat (n_rootdir fs) < 16") auto
    then show ?thesis using lr True by simp
  next
    case False
    then show ?thesis using lc data_geometryD(2) [OF g] by simp
  qed
qed

lemma dir_table_sect:
  assumes t: "dir_table fs sc cs ss" and s: "s \<in> set ss"
  shows "dir_area fs s"
proof (cases "cs = []")
  case True
  then have "ss = root_sects fs" "root_ok fs" using t dir_tableD(9) [OF t] by (auto simp: dir_table_def)
  moreover obtain i where "i < length ss" "s = ss ! i" using s by (auto simp: in_set_conv_nth)
  ultimately show ?thesis using root_sects_nth(2) [OF dir_tableD(2) [OF t]] dir_tableD(11) [OF t True] by simp
next
  case False
  then have ss: "ss = file_sects fs cs" using t dir_tableD(9) [OF t] by (auto simp: dir_table_def)
  have d: "data_sect fs s" using file_data_sect dir_tableD(2,8) [OF t] s ss by blast
  then have "unat (database fs) \<le> unat s" by (simp add: data_sect_def word_le_nat_alt)
  moreover have "unat (fatbase fs) + unat (n_fats fs) * unat (fsize fs) \<le> unat (database fs)"
    using dir_tableD(3) [OF t] by (simp add: geometry_def)
  ultimately have "s \<noteq> 0" using tables_behind_start [OF dir_tableD(3) [OF t]] by auto
  then show ?thesis using d data_not_fat [OF dir_tableD(3) [OF t] d] by (simp add: dir_area_def data_sect_def)
qed

lemma dir_table_distinct: "dir_table fs sc cs ss \<Longrightarrow> distinct ss"
proof -
  assume t: "dir_table fs sc cs ss"
  show ?thesis
  proof (cases "cs = []")
    case True
    then have r: "ss = root_sects fs" "root_ok fs" using t dir_tableD(9) [OF t] by (auto simp: dir_table_def)
    have "i = j" if "ss ! i = ss ! j" "i < length ss" "j < length ss" for i j
      using root_sects_nth(1) [OF dir_tableD(2) [OF t] r(2)] that dir_tableD(11) [OF t True] r(1) by (metis add_left_cancel)
    then show ?thesis by (auto simp: distinct_conv_nth)
  next
    case False
    then show ?thesis
      using t dir_tableD(9) [OF t] file_sects_distinct [OF dir_tableD(2,8) [OF t]] by (auto simp: dir_table_def)
  qed
qed

lemma dir_entry_length:
  assumes "dir_table fs sc cs ss"
  shows "length (view fs s) = 512" "length (dir_entry fs ss k) = 32"
proof -
  show l: "length (view fs s) = 512" for s using dir_tableD(4) [OF assms] by (simp add: window_ok_def view_def)
  have "k mod 16 < 16" by simp
  then show "length (dir_entry fs ss k) = 32" using l by (simp add: dir_entry_def)
qed

lemma length_dir_entries [simp]: "length (dir_entries fs ss) = dir_size ss"
  by (simp add: dir_entries_def)

lemma dir_entries_nth [simp]: "k < dir_size ss \<Longrightarrow> dir_entries fs ss ! k = dir_entry fs ss k"
  by (simp add: dir_entries_def)

lemma dir_size_sect: "k < dir_size ss \<Longrightarrow> k div 16 < length ss"
  by (simp add: dir_size_def less_mult_imp_div_less mult.commute)

lemma layout_dir:
  assumes "layout fs' = layout fs"
  shows "root_ok fs' = root_ok fs" "root_sects fs' = root_sects fs" "dir_start fs' sc = dir_start fs sc"
    "dir_area fs' s = dir_area fs s" "dir_pos fs' sc cs ss i = dir_pos fs sc cs ss i"
  using layoutD [OF assms] layout_eq [OF assms]
  by (simp_all add: root_ok_def root_sects_def dir_start_def dir_area_def dir_pos_def fun_eq_iff)

text \<open>What reading keeps.\<close>

lemma keeps_dir:
  assumes t: "dir_table fs sc cs ss" and k: "keeps fs fs'"
  shows "dir_table fs' sc cs ss" "dir_entries fs' ss = dir_entries fs ss" "dir_pos fs' sc cs ss i = dir_pos fs sc cs ss i"
    "dir_start fs' sc = dir_start fs sc" "s \<in> set ss \<Longrightarrow> view fs' s = view fs s"
proof -
  have c: "cfg fs' = cfg fs" by (rule keeps_cfg [OF k])
  note l = cfg_layout [OF c]
  have g: "geometry fs" using dir_tableD(3) [OF t] .
  have f: "fatmap fs' = fatmap fs" by (rule keeps_fatmap [OF k g])
  note d = layout_dir [OF l]
  show "dir_start fs' sc = dir_start fs sc" by (rule d)
  have "fs_ready fs'" using dir_tableD(1) [OF t] layout_eq [OF l] keeps_window [OF k] by (simp add: fs_ready_def)
  then show "dir_table fs' sc cs ss"
    using t d layout_sects [OF l] layoutD(6) [OF l] f by (simp add: dir_table_def)
  show v: "view fs' s = view fs s" if "s \<in> set ss" for s
    using k dir_table_sect [OF t that] by (simp add: keeps_def dir_area_def)
  show "dir_entries fs' ss = dir_entries fs ss"
    using v dir_size_sect by (intro nth_equalityI) (simp_all add: dir_entry_def)
  show "dir_pos fs' sc cs ss i = dir_pos fs sc cs ss i" by (rule d)
qed

subsection \<open>To the next entry\<close>

lemma dir_offset:
  assumes "n \<le> 65536"
  shows "unat (of_nat (32 * n) :: u32) = 32 * n"
    "(0x200000 \<le> (of_nat (32 * n) :: u32)) = (n = 65536)" "(of_nat (32 * n) :: u32) mod 32 = 0"
    "((of_nat (32 * n) :: u32) mod 512 = 0) = (n mod 16 = 0)"
    "unat ((of_nat (32 * n) :: u32) mod 512) = 32 * (n mod 16)"
    "unat ((of_nat (32 * n) :: u32) div 512) = n div 16" "unat ((of_nat (32 * n) :: u32) div 32) = n"
proof -
  show u: "unat (of_nat (32 * n) :: u32) = 32 * n" using assms by (intro unat_u32) simp
  then show "(0x200000 \<le> (of_nat (32 * n) :: u32)) = (n = 65536)" using assms by (auto simp: word_le_nat_alt)
  show "(of_nat (32 * n) :: u32) mod 32 = 0" using u by (simp add: word_unat_eq_iff unat_mod)
  have m: "32 * n mod 512 = 32 * (n mod 16)" using mult_mod_right [of 32 n 16] by simp
  then show m5: "unat ((of_nat (32 * n) :: u32) mod 512) = 32 * (n mod 16)" using u by (simp add: unat_mod)
  then show "((of_nat (32 * n) :: u32) mod 512 = 0) = (n mod 16 = 0)" by (simp add: word_unat_eq_iff)
  show "unat ((of_nat (32 * n) :: u32) div 512) = n div 16" "unat ((of_nat (32 * n) :: u32) div 32) = n"
    using u by (simp_all add: unat_div)
qed

lemma sect_next:
  assumes t: "dir_table fs sc cs ss" and q: "Suc q < length ss"
  shows "cs = [] \<or> Suc q mod unat (csize fs) \<noteq> 0 \<Longrightarrow> ss ! Suc q = ss ! q + 1"
    "cs \<noteq> [] \<Longrightarrow> Suc q mod unat (csize fs) = 0 \<Longrightarrow> ss ! Suc q = clst2sect fs (cs ! (Suc q div unat (csize fs)))"
    "cs \<noteq> [] \<Longrightarrow> Suc q div unat (csize fs) < length cs"
proof -
  have ss: "ss = (if cs = [] then root_sects fs else file_sects fs cs)"
    using t dir_tableD(9) [OF t] by (auto simp: dir_table_def)
  have fq: "ss ! i = clst2sect fs (cs ! (i div unat (csize fs))) + of_nat (i mod unat (csize fs))"
    if "cs \<noteq> []" "i < length ss" for i
    using file_sects_nth [of i fs cs] that ss length_file_sects [of fs cs] by simp
  show "ss ! Suc q = ss ! q + 1" if c: "cs = [] \<or> Suc q mod unat (csize fs) \<noteq> 0"
  proof (cases "cs = []")
    case True
    then show ?thesis using ss q by (simp add: root_sects_def)
  next
    case False
    then have "Suc q mod unat (csize fs) = Suc (q mod unat (csize fs))" "Suc q div unat (csize fs) = q div unat (csize fs)"
      using c by (auto simp: mod_Suc div_Suc split: if_splits)
    then show ?thesis using fq [OF False, of q] fq [OF False q] q by simp
  qed
  show "ss ! Suc q = clst2sect fs (cs ! (Suc q div unat (csize fs)))" if "cs \<noteq> []" "Suc q mod unat (csize fs) = 0"
    using fq [OF that(1) q] that(2) by simp
  show "Suc q div unat (csize fs) < length cs" if "cs \<noteq> []"
    using q dir_tableD(10) [OF t that] by (simp add: less_mult_imp_div_less mult.commute)
qed

lemma link_cluster:
  assumes t: "dir_table fs sc cs ss" and j: "Suc j < length cs" and c: "d_clust dp = cs ! j"
  obtains fs' where "next_cluster_of stretch dp fs = Some (Inr (cs ! Suc j), dp, fs')" and "keeps fs fs'"
proof -
  have ne: "cs \<noteq> []" using j by auto
  then have ch: "chain (fatmap fs) (n_fatent fs) (dir_start fs sc) cs"
    using t dir_tableD(9) [OF t] by (auto simp: dir_table_def)
  have b: "2 \<le> x \<and> x < n_fatent fs" if "x \<in> set cs" for x using chain_clusters [OF ch that] .
  have in1: "cs ! j \<in> set cs" "cs ! Suc j \<in> set cs" using j by simp_all
  obtain fs' where g: "get_fat (cs ! j) fs = (fat_entry fs (cs ! j), fs')" and k: "keeps fs fs'"
    using get_fat_ready [OF dir_tableD(1) [OF t]] b [OF in1(1)] by metis
  have "fat_entry fs (cs ! j) = cs ! Suc j" using chain_nth [OF ch j] b [OF in1(1)] by (simp add: fatmap_def)
  moreover have "cs ! Suc j \<noteq> 0xFFFFFFFF" using fatmap_no_error [OF dir_tableD(6) [OF t]] chain_nth [OF ch j] by metis
  moreover have "\<not> cs ! Suc j \<le> 1" "\<not> n_fatent fs' \<le> cs ! Suc j"
    using b [OF in1(2)] cfgD(9) [OF keeps_cfg [OF k]] by (auto simp: word_le_nat_alt word_less_nat_alt)
  ultimately show thesis using that g k c by (simp add: next_cluster_of_def)
qed

definition to_offset :: "u32 \<Rightarrow> dirobj \<Rightarrow> dirobj" where
  "to_offset ofs dp = dp\<lparr>dptr := ofs, d_ofs := unat (ofs mod 512)\<rparr>"

lemma dir_next_cases:
  assumes "dptr dp + 32 = ofs" and "\<not> MAX_DIR \<le> ofs" and "d_sect dp \<noteq> 0"
  shows "ofs mod 512 \<noteq> 0 \<Longrightarrow> dir_next stretch dp fs = Some (FR_OK, to_offset ofs dp, fs)"
    "ofs mod 512 = 0 \<Longrightarrow> d_clust dp = 0 \<Longrightarrow> dir_next stretch dp fs =
      (if ofs div 32 \<ge> ucast (n_rootdir fs) then Some (FR_NO_FILE, dp\<lparr>d_sect := 0\<rparr>, fs)
       else Some (FR_OK, to_offset ofs (dp\<lparr>d_sect := d_sect dp + 1\<rparr>), fs))"
    "ofs mod 512 = 0 \<Longrightarrow> d_clust dp \<noteq> 0 \<Longrightarrow> dir_next stretch dp fs =
      (if ofs div 512 AND (ucast (csize fs) - 1) = 0 then
         (case next_cluster_of stretch (dp\<lparr>d_sect := d_sect dp + 1\<rparr>) fs of
            None \<Rightarrow> None
          | Some (Inl res, dp3, fs1) \<Rightarrow> Some (res, dp3, fs1)
          | Some (Inr clst, dp3, fs1) \<Rightarrow> Some (FR_OK, to_offset ofs (dp3\<lparr>d_clust := clst, d_sect := clst2sect fs1 clst\<rparr>), fs1))
       else Some (FR_OK, to_offset ofs (dp\<lparr>d_sect := d_sect dp + 1\<rparr>), fs))"
  using assms by (simp_all add: dir_next_def Let_def to_offset_def cong: sum.case_cong prod.case_cong option.case_cong)

lemma to_offset_sel [simp]: "d_fn (to_offset ofs dp) = d_fn dp" "d_attr (to_offset ofs dp) = d_attr dp"
  "d_pat (to_offset ofs dp) = d_pat dp" "d_sect (to_offset ofs dp) = d_sect dp" "d_clust (to_offset ofs dp) = d_clust dp"
  by (simp_all add: to_offset_def)

lemma dir_posI:
  assumes "Suc k < dir_size ss" and "d_sclust dp = sc"
    and "d_sect dp = ss ! (Suc k div 16)" and "d_clust dp = (if cs = [] then 0 else cs ! (Suc k div 16 div unat (csize fs)))"
  shows "dir_pos fs sc cs ss (Suc k) (to_offset (of_nat (32 * Suc k)) dp)"
  using assms dir_offset(5) [of "Suc k"] by (simp add: dir_pos_def dir_size_def to_offset_def del: of_nat_Suc of_nat_mult)

lemma dir_next_inside:
  assumes t: "dir_table fs sc cs ss" and p: "dir_pos fs sc cs ss k dp" and k: "Suc k < dir_size ss"
  obtains dp' fs' where "dir_next stretch dp fs = Some (FR_OK, dp', fs')" and "keeps fs fs'"
    and "dir_pos fs' sc cs ss (Suc k) dp'" and "d_fn dp' = d_fn dp" and "d_attr dp' = d_attr dp" and "d_pat dp' = d_pat dp"
proof -
  define o' where "o' = (of_nat (32 * Suc k) :: u32)"
  define m where "m = unat (csize fs)"
  have pd: "d_sclust dp = sc" "dptr dp = of_nat (32 * k)" "d_sect dp = ss ! (k div 16)" "d_ofs dp = 32 * (k mod 16)"
    "d_clust dp = (if cs = [] then 0 else cs ! (k div 16 div m))" using p by (auto simp: dir_pos_def m_def)
  have o: "dptr dp + 32 = o'" by (simp add: pd(2) o'_def)
  have k5: "Suc k \<le> 65536" "Suc k \<noteq> 65536" using k by (auto simp: dir_size_def)
  note off = dir_offset [OF k5(1), folded o'_def]
  have q: "k div 16 < length ss" "Suc k div 16 < length ss" using dir_size_sect k by simp_all
  have s0: "ss ! (k div 16) \<noteq> 0" using dir_table_sect [OF t nth_mem [OF q(1)]] by (simp add: dir_area_def)
  have here: "dir_pos fs' sc cs ss (Suc k) (to_offset o' dp1)"
    if "keeps fs fs'" "d_sclust dp1 = sc" "d_sect dp1 = ss ! (Suc k div 16)"
      "d_clust dp1 = (if cs = [] then 0 else cs ! (Suc k div 16 div m))" for dp1 fs'
    using dir_posI [OF k, of dp1 sc cs fs] that keeps_dir(3) [OF t that(1)] by (simp only: o'_def m_def)
  have refl: "keeps fs fs" using keeps_refl dir_tableD(4) [OF t] by blast
  have mx: "\<not> MAX_DIR \<le> o'" using off(2) k5 by simp
  note cases = dir_next_cases [OF o mx s0 [folded pd(3)], of stretch fs]
  show thesis
  proof (cases "Suc k mod 16 = 0")
    case False
    then have "Suc k div 16 = k div 16" by (simp add: div_Suc)
    moreover have "dir_next stretch dp fs = Some (FR_OK, to_offset o' dp, fs)"
      using False off(4) by (intro cases(1)) simp
    ultimately show thesis using that [OF _ refl here [OF refl]] pd by simp
  next
    case True
    then have q1: "Suc k div 16 = Suc (k div 16)" by (simp add: div_Suc)
    note sn = sect_next [OF t q(2) [unfolded q1], folded m_def]
    have z: "o' mod 512 = 0" using True off(4) by simp
    define dp1 where "dp1 = dp\<lparr>d_sect := d_sect dp + 1\<rparr>"
    have d1: "d_sclust dp1 = sc" "d_sect dp1 = ss ! (k div 16) + 1" "d_clust dp1 = d_clust dp"
      "d_fn dp1 = d_fn dp" "d_attr dp1 = d_attr dp" "d_pat dp1 = d_pat dp"
      by (simp_all add: dp1_def pd)
    note cases2 = cases(2,3) [OF z, folded dp1_def]
    show thesis
    proof (cases "cs = []")
      case root: True
      then have c0: "d_clust dp = 0" using pd by simp
      have "Suc k < unat (n_rootdir fs)"
        using k dir_tableD(11) [OF t root] times_div_less_eq_dividend [of 16 "unat (n_rootdir fs)"]
        by (simp add: dir_size_def del: times_div_less_eq_dividend)
      then have "\<not> ucast (n_rootdir fs) \<le> o' div 32" using off(7) by (simp add: word_le_nat_alt unat_ucast16)
      then have "dir_next stretch dp fs = Some (FR_OK, to_offset o' dp1, fs)" using cases2(1) [OF c0] by simp
      then show thesis
        by (rule that [OF _ refl here [OF refl]]) (use d1 root sn(1) q1 c0 in simp_all)
    next
      case chain: False
      have c: "d_clust dp = cs ! (k div 16 div m)" "k div 16 div m < length cs"
        using pd chain q(1) dir_tableD(10) [OF t chain] by (simp_all add: m_def less_mult_imp_div_less mult.commute)
      then have "2 \<le> d_clust dp" using dir_tableD(8) [OF t] nth_mem by (fastforce simp: clusters_ok_def)
      then have c0: "d_clust dp \<noteq> 0" by auto
      have am: "(o' div 512 AND (ucast (csize fs) - 1) = 0) = (Suc (k div 16) mod m = 0)"
        using csect_mod [OF dir_tableD(2) [OF t], of "o' div 512"] off(6) q1 by (simp add: word_unat_eq_iff m_def)
      note f = cases2(2) [OF c0, unfolded am]
      show thesis
      proof (cases "Suc (k div 16) mod m = 0")
        case same: False
        then have dv: "Suc (k div 16) div m = k div 16 div m" by (auto simp: div_Suc split: if_splits)
        have "dir_next stretch dp fs = Some (FR_OK, to_offset o' dp1, fs)" using f same by simp
        then show thesis
          by (rule that [OF _ refl here [OF refl]]) (use d1 chain sn(1) same q1 dv c in simp_all)
      next
        case nc: True
        then have dv: "Suc (k div 16) div m = Suc (k div 16 div m)" by (auto simp: div_Suc)
        then have j: "Suc (k div 16 div m) < length cs" using sn(3) [OF chain] by simp
        have "d_clust dp1 = cs ! (k div 16 div m)" using c d1 by simp
        then obtain fs1 where n: "next_cluster_of stretch dp1 fs = Some (Inr (cs ! Suc (k div 16 div m)), dp1, fs1)" and k1: "keeps fs fs1"
          by (rule link_cluster [OF t j])
        have cl: "clst2sect fs1 = clst2sect fs" using layout_sects(5) [OF cfg_layout [OF keeps_cfg [OF k1]]] .
        define dp2 where "dp2 = dp1\<lparr>d_clust := cs ! Suc (k div 16 div m), d_sect := clst2sect fs1 (cs ! Suc (k div 16 div m))\<rparr>"
        have d2: "d_sclust dp2 = sc" "d_sect dp2 = clst2sect fs1 (cs ! Suc (k div 16 div m))" "d_clust dp2 = cs ! Suc (k div 16 div m)"
          "d_fn dp2 = d_fn dp" "d_attr dp2 = d_attr dp" "d_pat dp2 = d_pat dp"
          by (simp_all add: dp2_def d1)
        have e: "dir_next stretch dp fs = Some (FR_OK, to_offset o' dp2, fs1)"
          using f nc n by (simp add: dp2_def)
        have "dir_pos fs1 sc cs ss (Suc k) (to_offset o' dp2)"
          by (rule here [OF k1]) (use sn(2) [OF chain nc] q1 dv chain cl d2 in simp_all)
        then show thesis by (rule that [OF e k1]) (use d2 in simp_all)
      qed
    qed
  qed
qed

text \<open>Behind the last entry: the limit of the table, or the end of the chain.\<close>

lemma dir_next_last:
  assumes t: "dir_table fs sc cs ss" and p: "dir_pos fs sc cs ss k dp" and k: "Suc k = dir_size ss"
  obtains (limit) "cs = [] \<or> dir_size ss = 65536" and "dir_next stretch dp fs = Some (FR_NO_FILE, dp\<lparr>d_sect := 0\<rparr>, fs)"
    | (chain) dp1 fs1 where "cs \<noteq> []" and "Suc k = 16 * length ss" and "dir_size ss < 65536"
      and "dp1 = dp\<lparr>d_sect := d_sect dp + 1\<rparr>" and "d_clust dp = last cs"
      and "get_fat (last cs) fs = (fatmap fs (last cs), fs1)" and "keeps fs fs1"
      and "\<not> fatmap fs (last cs) \<le> 1" and "fatmap fs (last cs) \<noteq> 0xFFFFFFFF" and "n_fatent fs1 \<le> fatmap fs (last cs)"
      and "dir_next stretch dp fs =
         (case next_cluster_of stretch dp1 fs of
            None \<Rightarrow> None
          | Some (Inl res, dp3, fs1) \<Rightarrow> Some (res, dp3, fs1)
          | Some (Inr clst, dp3, fs1) \<Rightarrow>
              Some (FR_OK, to_offset (of_nat (32 * Suc k)) (dp3\<lparr>d_clust := clst, d_sect := clst2sect fs1 clst\<rparr>), fs1))"
proof -
  define o' where "o' = (of_nat (32 * Suc k) :: u32)"
  define m where "m = unat (csize fs)"
  have pd: "d_sclust dp = sc" "dptr dp = of_nat (32 * k)" "d_sect dp = ss ! (k div 16)"
    "d_clust dp = (if cs = [] then 0 else cs ! (k div 16 div m))" using p by (auto simp: dir_pos_def m_def)
  have o: "dptr dp + 32 = o'" by (simp add: pd(2) o'_def)
  have k5: "Suc k \<le> 65536" using k by (simp add: dir_size_def)
  note off = dir_offset [OF k5, folded o'_def]
  have q: "k div 16 < length ss" using dir_size_sect k by simp
  have s0: "d_sect dp \<noteq> 0" using dir_table_sect [OF t nth_mem [OF q]] pd by (simp add: dir_area_def)
  show thesis
  proof (cases "Suc k = 65536")
    case True
    then have "dir_next stretch dp fs = Some (FR_NO_FILE, dp\<lparr>d_sect := 0\<rparr>, fs)"
      using off(2) by (simp add: dir_next_def Let_def o)
    then show thesis using limit True k by simp
  next
    case False
    then have mx: "\<not> MAX_DIR \<le> o'" using off(2) by simp
    have full: "Suc k = 16 * length ss" using k False by (simp add: dir_size_def min_def split: if_splits)
    then have z: "o' mod 512 = 0" using off(4) by simp
    have lim: "dir_size ss < 65536" using k False k5 by simp
    have q1: "Suc k div 16 = length ss" "length ss = Suc (k div 16)" using full by (simp_all add: div_Suc split: if_splits)
    note cases = dir_next_cases(2,3) [OF o mx s0 z, of stretch fs]
    show thesis
    proof (cases "cs = []")
      case True
      then have c0: "d_clust dp = 0" using pd by simp
      have "root_ok fs" using t dir_tableD(9) [OF t] True by (simp add: dir_table_def)
      then have "16 * length ss = unat (n_rootdir fs)"
        using dir_tableD(11) [OF t True] by (auto simp: root_ok_def)
      then have "ucast (n_rootdir fs) \<le> o' div 32" using off(7) full by (simp add: word_le_nat_alt unat_ucast16)
      then have "dir_next stretch dp fs = Some (FR_NO_FILE, dp\<lparr>d_sect := 0\<rparr>, fs)" using cases(1) [OF c0] by simp
      then show thesis using limit True by simp
    next
      case ne: False
      then have ch: "chain (fatmap fs) (n_fatent fs) (dir_start fs sc) cs"
        using t dir_tableD(9) [OF t] by (auto simp: dir_table_def)
      note cl = chain_last [OF ch]
      have m0: "0 < m" using data_geometryD(2) [OF dir_tableD(2) [OF t]] by (simp add: m_def)
      have ls: "length ss = m * length cs" using dir_tableD(10) [OF t ne] by (simp add: m_def)
      then have "k div 16 = (m - 1) + m * (length cs - 1)"
        using q1(2) m0 ne by (cases "length cs") (auto simp: algebra_simps)
      moreover have "(r + m * n) div m = n" if "r < m" for r n using that by simp
      ultimately have "k div 16 div m = length cs - 1" using m0 by (metis diff_less zero_less_one)
      then have c: "d_clust dp = last cs" using pd ne by (simp add: last_conv_nth)
      have c0: "d_clust dp \<noteq> 0" using c cl by auto
      have "unat (o' div 512 AND (ucast (csize fs) - 1)) = length ss mod m"
        using csect_mod [OF dir_tableD(2) [OF t], of "o' div 512"] off(6) q1(1) by (simp add: m_def)
      then have am: "o' div 512 AND (ucast (csize fs) - 1) = 0" using ls by (simp add: word_unat_eq_iff)
      define dp1 where "dp1 = dp\<lparr>d_sect := d_sect dp + 1\<rparr>"
      obtain fs' where g: "get_fat (last cs) fs = (fat_entry fs (last cs), fs')" and kp: "keeps fs fs'"
        using get_fat_ready [OF dir_tableD(1) [OF t]] cl by metis
      have fe: "fat_entry fs (last cs) = fatmap fs (last cs)" using cl by (simp add: fatmap_def)
      have "\<not> fatmap fs (last cs) \<le> 1"
      proof
        assume "fatmap fs (last cs) \<le> 1"
        then have "n_fatent fs \<le> 1" using cl by (metis order_trans)
        then show False using dir_tableD(3) [OF t] by (auto simp: geometry_def word_le_nat_alt word_less_nat_alt)
      qed
      moreover have "n_fatent fs' \<le> fatmap fs (last cs)" using cl cfgD(9) [OF keeps_cfg [OF kp]] by simp
      moreover note fatmap_no_error [OF dir_tableD(6) [OF t], of "last cs"]
      moreover note cases(2) [OF c0, unfolded am, simplified if_True simp_thms, folded dp1_def, unfolded o'_def]
      ultimately show thesis using chain [OF ne full lim dp1_def c g [unfolded fe] kp] by blast
    qed
  qed
qed

lemma dir_next_end:
  assumes t: "dir_table fs sc cs ss" and p: "dir_pos fs sc cs ss k dp" and k: "Suc k = dir_size ss"
  obtains dp' fs' where "dir_next False dp fs = Some (FR_NO_FILE, dp', fs')" and "keeps fs fs'"
    and "d_sect dp' = 0" and "d_sclust dp' = sc" and "d_fn dp' = d_fn dp" and "d_attr dp' = d_attr dp" and "d_pat dp' = d_pat dp"
proof -
  have sc: "d_sclust dp = sc" using p by (simp add: dir_pos_def)
  show thesis
  proof (rule dir_next_last [OF t p k, of False])
    assume "dir_next False dp fs = Some (FR_NO_FILE, dp\<lparr>d_sect := 0\<rparr>, fs)"
    moreover have "keeps fs fs" using keeps_refl dir_tableD(4) [OF t] by blast
    ultimately show thesis by (rule that) (simp_all add: sc)
  next
    fix dp1 fs1
    assume d: "dp1 = dp\<lparr>d_sect := d_sect dp + 1\<rparr>" "d_clust dp = last cs" and g: "get_fat (last cs) fs = (fatmap fs (last cs), fs1)"
      "\<not> fatmap fs (last cs) \<le> 1" "fatmap fs (last cs) \<noteq> 0xFFFFFFFF" "n_fatent fs1 \<le> fatmap fs (last cs)"
      and k: "keeps fs fs1"
      and e: "dir_next False dp fs =
         (case next_cluster_of False dp1 fs of
            None \<Rightarrow> None
          | Some (Inl res, dp3, fs1) \<Rightarrow> Some (res, dp3, fs1)
          | Some (Inr clst, dp3, fs1) \<Rightarrow>
              Some (FR_OK, to_offset (of_nat (32 * Suc k)) (dp3\<lparr>d_clust := clst, d_sect := clst2sect fs1 clst\<rparr>), fs1))"
    have "next_cluster_of False dp1 fs = Some (Inl FR_NO_FILE, dp1\<lparr>d_sect := 0\<rparr>, fs1)"
      using d g by (simp add: next_cluster_of_def)
    then have "dir_next False dp fs = Some (FR_NO_FILE, dp1\<lparr>d_sect := 0\<rparr>, fs1)" using e by simp
    then show thesis by (rule that [OF _ k]) (simp_all add: d sc)
  qed
qed

subsection \<open>To the first entry\<close>

lemma dir_start_first:
  assumes t: "dir_table fs sc cs ss" and d: "d_sclust dp = sc"
  obtains dp' where "dir_sdi 0 dp fs = Some (FR_OK, dp', fs)" and "dir_pos fs sc cs ss 0 dp'"
    and "d_fn dp' = d_fn dp" and "d_attr dp' = d_attr dp" and "d_pat dp' = d_pat dp"
proof -
  have l: "0 < length ss" by (rule dir_tableD(7) [OF t])
  have s0: "ss ! 0 \<noteq> 0" using dir_table_sect [OF t nth_mem [OF l]] by (simp add: dir_area_def)
  have z: "0 < dir_size ss" using l by (simp add: dir_size_def)
  define dp1 where "dp1 = dp\<lparr>dptr := 0\<rparr>"
  have u: "dir_sdi 0 dp fs =
      (if dir_start fs sc = 0 then
         (if 0 \<ge> (ucast (n_rootdir fs) :: u32) then Some (FR_INT_ERR, dp1, fs)
          else (case sdi_set (dirbase fs) 0 (dir_start fs sc) dp1 of (res, dp2) \<Rightarrow> Some (res, dp2, fs)))
       else
         (case sdi_loop (ucast (csize fs) * 512) 0 (dir_start fs sc) fs of
            None \<Rightarrow> None
          | Some (Inl res, fs1) \<Rightarrow> Some (res, dp1, fs1)
          | Some (Inr (ofs, clst), fs1) \<Rightarrow>
              (case sdi_set (clst2sect fs1 clst) ofs clst dp1 of (res, dp2) \<Rightarrow> Some (res, dp2, fs1))))"
    by (simp add: dir_sdi_def dir_start_def Let_def dp1_def d cong: sum.case_cong prod.case_cong option.case_cong)
  define dp2 where "dp2 = dp1\<lparr>d_clust := dir_start fs sc, d_sect := ss ! 0, d_ofs := 0\<rparr>"
  have e: "dir_sdi 0 dp fs = Some (FR_OK, dp2, fs)"
  proof (cases "dir_start fs sc = 0")
    case True
    then have r: "ss = root_sects fs" "root_ok fs" using t by (auto simp: dir_table_def)
    then have "root_sects fs ! 0 = dirbase fs" using l by (simp add: root_sects_def)
    moreover have "n_rootdir fs \<noteq> 0" using r(2) by (auto simp: root_ok_def)
    then have "ucast (n_rootdir fs) \<noteq> (0 :: u32)" using unat_ucast16 [of "n_rootdir fs"] by (auto simp: word_unat_eq_iff)
    ultimately show ?thesis
      using s0 r(1) True by (simp add: u Let_def sdi_set_def dp2_def)
  next
    case False
    then have r: "ss = file_sects fs cs" "chain (fatmap fs) (n_fatent fs) (dir_start fs sc) cs"
      using t by (auto simp: dir_table_def)
    then obtain ys where "cs = dir_start fs sc # ys" using chain_hd by blast
    moreover have m: "0 < unat (csize fs)" using data_geometryD(2) [OF dir_tableD(2) [OF t]] .
    ultimately have s: "ss ! 0 = clst2sect fs (dir_start fs sc)" using r(1) file_sects_nth [of 0 fs cs] by simp
    have "unat (csize fs) \<le> 2 ^ 15" by (rule data_geometryD(3) [OF dir_tableD(2) [OF t]])
    then have "unat (ucast (csize fs) * 512 :: u32) = unat (csize fs) * 512"
      by (simp add: unat_mult_lem [THEN iffD1] unat_ucast16)
    then have "\<not> ucast (csize fs) * 512 \<le> (0 :: u32)" using m by (simp add: word_le_nat_alt)
    then have "sdi_loop (ucast (csize fs) * 512) 0 (dir_start fs sc) fs = Some (Inr (0, dir_start fs sc), fs)"
      by (subst sdi_loop.simps) simp
    then show ?thesis
      using s0 False s by (simp add: u Let_def sdi_set_def dp2_def)
  qed
  have "dir_start fs sc = (if cs = [] then 0 else cs ! 0)"
    using t chain_hd [of "fatmap fs" "n_fatent fs" "dir_start fs sc" cs] by (auto simp: dir_table_def split: if_splits)
  then have "dir_pos fs sc cs ss 0 dp2" using z by (simp add: dir_pos_def dp2_def dp1_def d)
  then show thesis by (rule that [OF e]) (simp_all add: dp2_def dp1_def)
qed

subsection \<open>The entry in the window\<close>

lemma move_to_entry:
  assumes t: "dir_table fs sc cs ss" and p: "dir_pos fs sc cs ss k dp"
  obtains fs' where "move_window (d_sect dp) fs = (FR_OK, fs')" and "keeps fs fs'" and "winsect fs' = ss ! (k div 16)"
    and "take 32 (drop (d_ofs dp) (win fs')) = dir_entry fs ss k" and "\<And>i. i < 32 \<Longrightarrow> dir_byte dp fs' i = dir_entry fs ss k ! i"
proof -
  have k: "k < dir_size ss" "d_sect dp = ss ! (k div 16)" "d_ofs dp = 32 * (k mod 16)" using p by (auto simp: dir_pos_def)
  have s: "dir_area fs (d_sect dp)" using dir_table_sect [OF t nth_mem [OF dir_size_sect [OF k(1)]]] k(2) by simp
  obtain r fs' where m: "move_window (d_sect dp) fs = (r, fs')" by fastforce
  have a: "keeps fs fs'" "r = FR_OK" "winsect fs' = d_sect dp" "win fs' = view fs (d_sect dp)"
    using move_window_keeps [OF dir_tableD(4) [OF t] _ _ m] s dir_tableD(5) [OF t] by (auto simp: dir_area_def)
  have e: "take 32 (drop (d_ofs dp) (win fs')) = dir_entry fs ss k" using a(4) k by (simp add: dir_entry_def)
  have "dir_byte dp fs' i = dir_entry fs ss k ! i" if "i < 32" for i
  proof -
    have "length (win fs') = 512" using keeps_window [OF a(1)] by (simp add: window_ok_def)
    moreover have "k mod 16 < 16" by simp
    ultimately show ?thesis using that k(3) unfolding e [symmetric] by (simp add: dir_byte_def)
  qed
  then show thesis using that m a k e by simp
qed

end
