(* ===== verification/FatFs_Dir_Find.thy ===== *)
theory FatFs_Dir_Find
  imports FatFs_Dir_Table
begin

text \<open>
  Searching a directory: both the search for a name and the listing go through the entries in
  order up to the end mark, and stop at the first one they look for.
\<close>

text \<open>The first entry with \<open>P\<close> before the end mark.\<close>

fun scan :: "(u8 list \<Rightarrow> bool) \<Rightarrow> u8 list list \<Rightarrow> nat option" where
  "scan P [] = None"
| "scan P (e # es) = (if e ! 0 = 0 then None else if P e then Some 0 else map_option Suc (scan P es))"

definition matches :: "u8 list \<Rightarrow> u8 list \<Rightarrow> bool" where
  "matches nm e \<longleftrightarrow> e ! 11 AND AM_VOL = 0 \<and> take 11 e = take 11 nm"

text \<open>What a listing shows: files, or the volume label.\<close>

definition listed :: "bool \<Rightarrow> u8 list \<Rightarrow> bool" where
  "listed vol e \<longleftrightarrow> e ! 0 \<noteq> DDEM \<and> e ! 0 \<noteq> 0x2E \<and> e ! 11 AND AM_MASK \<noteq> AM_LFN \<and>
     ((e ! 11 AND AM_MASK) AND NOT AM_ARC = AM_VOL) = vol"

text \<open>The loop of a search: what it does at the end mark, at a hit, and at another entry.\<close>

locale dir_scanner =
  fixes L :: "dirobj \<Rightarrow> fatfs \<Rightarrow> (FRESULT \<times> dirobj \<times> fatfs) option" and P :: "u8 list \<Rightarrow> u8 list \<Rightarrow> bool"
  assumes at_mark: "move_window (d_sect dp) fs = (FR_OK, fs1) \<Longrightarrow> dir_byte dp fs1 0 = 0 \<Longrightarrow>
      L dp fs = Some (FR_NO_FILE, dp, fs1)"
    and at_hit: "move_window (d_sect dp) fs = (FR_OK, fs1) \<Longrightarrow> dir_byte dp fs1 0 \<noteq> 0 \<Longrightarrow>
      e = take 32 (drop (d_ofs dp) (win fs1)) \<Longrightarrow> (\<And>i. i < 32 \<Longrightarrow> dir_byte dp fs1 i = e ! i) \<Longrightarrow>
      P (d_fn dp) e \<Longrightarrow> L dp fs = Some (FR_OK, dp\<lparr>d_attr := e ! 11 AND AM_MASK\<rparr>, fs1)"
    and at_miss: "move_window (d_sect dp) fs = (FR_OK, fs1) \<Longrightarrow> dir_byte dp fs1 0 \<noteq> 0 \<Longrightarrow>
      e = take 32 (drop (d_ofs dp) (win fs1)) \<Longrightarrow> (\<And>i. i < 32 \<Longrightarrow> dir_byte dp fs1 i = e ! i) \<Longrightarrow>
      \<not> P (d_fn dp) e \<Longrightarrow> dir_next False (dp\<lparr>d_attr := e ! 11 AND AM_MASK\<rparr>) fs1 = Some (r, dp2, fs2) \<Longrightarrow>
      r = FR_OK \<longrightarrow> d_sect dp2 \<noteq> 0 \<Longrightarrow> L dp fs = (if r = FR_OK then L dp2 fs2 else Some (r, dp2, fs2))"

text \<open>Where a search ends.\<close>

definition stands :: "fatfs \<Rightarrow> u32 \<Rightarrow> u32 list \<Rightarrow> u32 list \<Rightarrow> nat \<Rightarrow> dirobj \<Rightarrow> fatfs \<Rightarrow> bool" where
  "stands fs sc cs ss k dp fs' \<longleftrightarrow> dir_pos fs sc cs ss k dp \<and> winsect fs' = ss ! (k div 16) \<and>
     d_attr dp = dir_entry fs ss k ! 11 AND AM_MASK"

definition scanned :: "fatfs \<Rightarrow> u32 \<Rightarrow> u32 list \<Rightarrow> u32 list \<Rightarrow> dirobj \<Rightarrow> nat option \<Rightarrow> FRESULT \<times> dirobj \<times> fatfs \<Rightarrow> bool" where
  "scanned fs sc cs ss dp at res \<longleftrightarrow>
     (case res of (r, dp', fs') \<Rightarrow>
        keeps fs fs' \<and> d_fn dp' = d_fn dp \<and> d_pat dp' = d_pat dp \<and> d_sclust dp' = sc \<and>
        (case at of None \<Rightarrow> r = FR_NO_FILE | Some k \<Rightarrow> r = FR_OK \<and> stands fs sc cs ss k dp' fs'))"

lemma scanned_keeps:
  assumes "dir_table fs sc cs ss" and "keeps fs fs1" and "scanned fs1 sc cs ss dp1 at res"
    and "d_fn dp1 = d_fn dp" "d_pat dp1 = d_pat dp"
  shows "scanned fs sc cs ss dp at res"
proof -
  have "dir_entry fs1 ss k = dir_entry fs ss k" if "k < dir_size ss" for k
    using keeps_dir(2) [OF assms(1,2)] that by (metis dir_entries_nth)
  then show ?thesis
    using assms keeps_trans [OF assms(2)] keeps_dir(3) [OF assms(1,2)]
    by (auto simp: scanned_def stands_def dir_pos_def split: option.splits)
qed

lemma drop_entries: "k < dir_size ss \<Longrightarrow> drop k (dir_entries fs ss) = dir_entry fs ss k # drop (Suc k) (dir_entries fs ss)"
  by (simp add: Cons_nth_drop_Suc [symmetric])

context dir_scanner
begin

lemma scan_loop:
  assumes "dir_table fs sc cs ss" and "dir_pos fs sc cs ss k dp"
  shows "\<exists>res. L dp fs = Some res \<and> scanned fs sc cs ss dp (map_option ((+) k) (scan (P (d_fn dp)) (drop k (dir_entries fs ss)))) res"
  using assms
proof (induction "dir_size ss - k" arbitrary: k dp fs)
  case 0
  then show ?case by (simp add: dir_pos_def)
next
  case (Suc n)
  note t = Suc.prems(1) and p = Suc.prems(2)
  obtain fs1 where m: "move_window (d_sect dp) fs = (FR_OK, fs1)" and k1: "keeps fs fs1" and w: "winsect fs1 = ss ! (k div 16)"
    and e: "dir_entry fs ss k = take 32 (drop (d_ofs dp) (win fs1))"
    and b: "\<And>i. i < 32 \<Longrightarrow> dir_byte dp fs1 i = dir_entry fs ss k ! i"
    using move_to_entry [OF t p] by metis
  have kl: "k < dir_size ss" and sc: "d_sclust dp = sc" using p by (auto simp: dir_pos_def)
  note de = drop_entries [OF kl, of fs]
  have b0: "dir_byte dp fs1 0 = dir_entry fs ss k ! 0" using b by simp
  define dp1 where "dp1 = dp\<lparr>d_attr := dir_entry fs ss k ! 11 AND AM_MASK\<rparr>"
  consider "dir_entry fs ss k ! 0 = 0" | "dir_entry fs ss k ! 0 \<noteq> 0" "P (d_fn dp) (dir_entry fs ss k)"
    | "dir_entry fs ss k ! 0 \<noteq> 0" "\<not> P (d_fn dp) (dir_entry fs ss k)" by blast
  then show ?case
  proof cases
    case 1
    then show ?thesis using at_mark [OF m] b0 k1 sc by (simp add: de scanned_def)
  next
    case 2
    then have "L dp fs = Some (FR_OK, dp1, fs1)"
      using at_hit [OF m _ e b] b0 by (simp add: dp1_def)
    moreover have "stands fs sc cs ss k dp1 fs1" using p w by (simp add: stands_def dp1_def dir_pos_def)
    ultimately show ?thesis using 2 k1 sc by (simp add: de scanned_def dp1_def)
  next
    case 3
    note t1 = keeps_dir(1) [OF t k1]
    have p1: "dir_pos fs1 sc cs ss k dp1" using p keeps_dir(3) [OF t k1] by (simp add: dir_pos_def dp1_def)
    have miss: "L dp fs = (if r = FR_OK then L dp2 fs2 else Some (r, dp2, fs2))"
      if "dir_next False dp1 fs1 = Some (r, dp2, fs2)" "r = FR_OK \<longrightarrow> d_sect dp2 \<noteq> 0" for r dp2 fs2
      using at_miss [OF m _ e b] b0 3 that by (simp add: dp1_def)
    show ?thesis
    proof (cases "Suc k < dir_size ss")
      case True
      obtain dp2 fs2 where nx: "dir_next False dp1 fs1 = Some (FR_OK, dp2, fs2)" and k2: "keeps fs1 fs2"
        and p2: "dir_pos fs2 sc cs ss (Suc k) dp2" and fn: "d_fn dp2 = d_fn dp1" "d_pat dp2 = d_pat dp1"
        using dir_next_inside [OF t1 p1 True] by metis
      have k02: "keeps fs fs2" using keeps_trans k1 k2 by blast
      have t2: "dir_table fs2 sc cs ss" using keeps_dir(1) [OF t k02] .
      have "d_sect dp2 \<in> set ss" using p2 dir_size_sect by (auto simp: dir_pos_def)
      then have "d_sect dp2 \<noteq> 0" using dir_table_sect [OF t] by (auto simp: dir_area_def)
      then have L: "L dp fs = L dp2 fs2" using miss [OF nx] by simp
      have "n = dir_size ss - Suc k" using Suc.hyps(2) by simp
      from Suc.hyps(1) [OF this t2 p2] obtain res where res: "L dp2 fs2 = Some res"
        "scanned fs2 sc cs ss dp2 (map_option ((+) (Suc k)) (scan (P (d_fn dp2)) (drop (Suc k) (dir_entries fs2 ss)))) res"
        by blast
      have "scanned fs sc cs ss dp (map_option ((+) (Suc k)) (scan (P (d_fn dp)) (drop (Suc k) (dir_entries fs ss)))) res"
        using scanned_keeps [OF t k02 res(2)] fn keeps_dir(2) [OF t k02] by (simp add: dp1_def)
      moreover have "(+) (Suc k) = (+) k \<circ> Suc" by auto
      ultimately show ?thesis using L res(1) 3 by (simp add: de option.map_comp)
    next
      case False
      then have "Suc k = dir_size ss" using kl by simp
      then obtain dp2 fs2 where nx: "dir_next False dp1 fs1 = Some (FR_NO_FILE, dp2, fs2)" and k2: "keeps fs1 fs2"
        and r: "d_sclust dp2 = sc" "d_fn dp2 = d_fn dp1" "d_pat dp2 = d_pat dp1"
        using dir_next_end [OF t1 p1] by metis
      have "drop (Suc k) (dir_entries fs ss) = []" using False by simp
      then show ?thesis
        using miss [OF nx] 3 r keeps_trans [OF k1 k2] by (simp add: de scanned_def dp1_def)
    qed
  qed
qed

end

lemma prefix_entry: "e = take 32 (drop i w) \<Longrightarrow> take 11 (drop i w) = take 11 e"
  by (simp add: min_def)

interpretation finder: dir_scanner find_loop matches
proof
  fix dp dp2 :: dirobj and fs fs1 fs2 :: fatfs and e r
  assume m: "move_window (d_sect dp) fs = (FR_OK, fs1)"
  show "dir_byte dp fs1 0 = 0 \<Longrightarrow> find_loop dp fs = Some (FR_NO_FILE, dp, fs1)"
    by (subst find_loop.simps) (simp add: m)
  assume b0: "dir_byte dp fs1 0 \<noteq> 0" and e: "e = take 32 (drop (d_ofs dp) (win fs1))"
    and b: "\<And>i. i < 32 \<Longrightarrow> dir_byte dp fs1 i = e ! i"
  have b11: "dir_byte dp fs1 11 = e ! 11" using b by simp
  have d1: "dir_byte (dp\<lparr>d_attr := a\<rparr>) fs1 i = dir_byte dp fs1 i" for a i by (simp add: dir_byte_def)
  show "matches (d_fn dp) e \<Longrightarrow> find_loop dp fs = Some (FR_OK, dp\<lparr>d_attr := e ! 11 AND AM_MASK\<rparr>, fs1)"
    by (subst find_loop.simps) (simp add: m b0 b11 d1 matches_def prefix_entry [OF e])
  show "\<not> matches (d_fn dp) e \<Longrightarrow> dir_next False (dp\<lparr>d_attr := e ! 11 AND AM_MASK\<rparr>) fs1 = Some (r, dp2, fs2) \<Longrightarrow>
      r = FR_OK \<longrightarrow> d_sect dp2 \<noteq> 0 \<Longrightarrow> find_loop dp fs = (if r = FR_OK then find_loop dp2 fs2 else Some (r, dp2, fs2))"
    by (subst find_loop.simps) (auto simp: m b0 b11 d1 matches_def prefix_entry [OF e])
qed

interpretation reader: dir_scanner "read_dir_loop vol" "\<lambda>fn. listed vol" for vol
proof
  fix dp dp2 :: dirobj and fs fs1 fs2 :: fatfs and e r
  assume m: "move_window (d_sect dp) fs = (FR_OK, fs1)"
  show "dir_byte dp fs1 0 = 0 \<Longrightarrow> read_dir_loop vol dp fs = Some (FR_NO_FILE, dp, fs1)"
    by (subst read_dir_loop.simps) (simp add: m)
  assume b0: "dir_byte dp fs1 0 \<noteq> 0" and e: "e = take 32 (drop (d_ofs dp) (win fs1))"
    and b: "\<And>i. i < 32 \<Longrightarrow> dir_byte dp fs1 i = e ! i"
  have bs: "dir_byte dp fs1 11 = e ! 11" "dir_byte dp fs1 0 = e ! 0" "e ! 0 \<noteq> 0" using b b0 by auto
  show "listed vol e \<Longrightarrow> read_dir_loop vol dp fs = Some (FR_OK, dp\<lparr>d_attr := e ! 11 AND AM_MASK\<rparr>, fs1)"
    by (subst read_dir_loop.simps) (simp add: m bs listed_def Let_def)
  show "\<not> listed vol e \<Longrightarrow> dir_next False (dp\<lparr>d_attr := e ! 11 AND AM_MASK\<rparr>) fs1 = Some (r, dp2, fs2) \<Longrightarrow>
      r = FR_OK \<longrightarrow> d_sect dp2 \<noteq> 0 \<Longrightarrow> read_dir_loop vol dp fs = (if r = FR_OK then read_dir_loop vol dp2 fs2 else Some (r, dp2, fs2))"
    by (subst read_dir_loop.simps) (auto simp: m bs listed_def Let_def)
qed

lemma dir_find_scan:
  assumes t: "dir_table fs (d_sclust dp) cs ss"
  shows "\<exists>res. dir_find dp fs = Some res \<and>
    scanned fs (d_sclust dp) cs ss dp (scan (matches (d_fn dp)) (dir_entries fs ss)) res"
proof -
  obtain dp1 where s: "dir_sdi 0 dp fs = Some (FR_OK, dp1, fs)" and p: "dir_pos fs (d_sclust dp) cs ss 0 dp1"
    and fn: "d_fn dp1 = d_fn dp" "d_pat dp1 = d_pat dp" using dir_start_first [OF t] by metis
  have "(+) 0 = (id :: nat \<Rightarrow> nat)" by auto
  then show ?thesis
    using finder.scan_loop [OF t p] s fn by (simp add: dir_find_def scanned_def option.map_id)
qed

lemma dir_read_scan:
  assumes t: "dir_table fs sc cs ss" and p: "dir_pos fs sc cs ss k dp"
  shows "\<exists>r dp' fs'. dir_read vol dp fs = Some (r, dp', fs') \<and>
    scanned fs sc cs ss dp (map_option ((+) k) (scan (listed vol) (drop k (dir_entries fs ss)))) (r, dp', fs') \<and>
    (r \<noteq> FR_OK \<longrightarrow> d_sect dp' = 0)"
proof -
  have "d_sect dp \<in> set ss" using p dir_size_sect by (auto simp: dir_pos_def)
  then have "d_sect dp \<noteq> 0" using dir_table_sect [OF t] by (auto simp: dir_area_def)
  moreover obtain r dp1 fs1 where "read_dir_loop vol dp fs = Some (r, dp1, fs1)"
    "scanned fs sc cs ss dp (map_option ((+) k) (scan (listed vol) (drop k (dir_entries fs ss)))) (r, dp1, fs1)"
    using reader.scan_loop [OF t p, of vol] by auto
  ultimately show ?thesis
    by (auto simp: dir_read_def scanned_def split: option.splits)
qed

end
