(* ===== verification/FatFs_Dir_Change.thy ===== *)
theory FatFs_Dir_Change
  imports FatFs_Dir_Find
begin

text \<open>
  Changing a directory refines a map from names to entries: registering a name inserts it, at
  the first free entry or in a cluster that the directory is stretched by, and removing one
  deletes it; no other name and no other sector outside the tables changes.
\<close>

subsection \<open>Writing an entry\<close>

text \<open>What a change of the sectors \<open>S\<close>, which are no sectors of the tables, leaves as it was.\<close>

definition wrote_sects :: "u32 set \<Rightarrow> fatfs \<Rightarrow> fatfs \<Rightarrow> bool" where
  "wrote_sects S fs fs' \<longleftrightarrow> layout fs' = layout fs \<and> window_ok fs' \<and> mirror_kept fs fs' \<and>
     (\<forall>n. n \<noteq> 0 - 1 \<and> \<not> in_fat1 fs n \<and> \<not> in_fat2 fs n \<and> n \<notin> S \<longrightarrow> view fs' n = view fs n)"

lemma wrote_sects_trans:
  assumes a: "wrote_sects S a b" and b: "wrote_sects T b c" and U: "S \<subseteq> U" "T \<subseteq> U"
  shows "wrote_sects U a c"
proof -
  have l: "layout b = layout a" using a by (simp add: wrote_sects_def)
  note e = layout_eq [OF l]
  have "view c n = view a n" if "n \<noteq> 0 - 1" "\<not> in_fat1 a n" "\<not> in_fat2 a n" "n \<notin> U" for n
  proof -
    have "view b n = view a n" using a that U unfolding wrote_sects_def by blast
    moreover have "view c n = view b n" using b that U e(2,3) unfolding wrote_sects_def by auto
    ultimately show ?thesis by simp
  qed
  moreover have "mirror_kept a c" using a b e unfolding wrote_sects_def mirror_kept_def by simp
  ultimately show ?thesis using b l by (simp add: wrote_sects_def)
qed

lemma keeps_wrote: "keeps a b \<Longrightarrow> wrote_sects {} a b"
  using cfg_layout [of b a] by (simp add: keeps_def wrote_sects_def)

lemma data_kept_wrote: "data_kept a b \<Longrightarrow> wrote_sects {} a b"
  by (auto simp: data_kept_def wrote_sects_def)

lemma fatmap_view:
  assumes l: "layout fs' = layout fs" and g: "geometry fs" and v: "\<And>s. in_fat1 fs s \<Longrightarrow> view fs' s = view fs s"
  shows "fatmap fs' = fatmap fs"
proof -
  note d = layoutD [OF l] and e = layout_eq [OF l]
  have b: "fat_byte fs' k = fat_byte fs k" if "k < 512 * unat (fsize fs)" for k
    using v [OF fat_sect_region(1) [OF g that]] e(5) by (simp add: fat_byte_def)
  have "fat_entry fs' d = fat_entry fs d" if "d < n_fatent fs" for d
    using entry_cong [OF g that b] d(1) by (simp add: fat_entry_def)
  then show ?thesis using d(6) by (auto simp: fatmap_def fun_eq_iff)
qed

text \<open>Bytes put over others.\<close>

definition put_at :: "nat \<Rightarrow> u8 list \<Rightarrow> u8 list \<Rightarrow> u8 list" where
  "put_at o' bs xs = take o' xs @ bs @ drop (o' + length bs) xs"

lemma put_at_length [simp]: "o' + length bs \<le> length xs \<Longrightarrow> length (put_at o' bs xs) = length xs"
  by (simp add: put_at_def)

lemma put_at_nth:
  "o' + length bs \<le> length xs \<Longrightarrow> i < length xs \<Longrightarrow>
    put_at o' bs xs ! i = (if o' \<le> i \<and> i < o' + length bs then bs ! (i - o') else xs ! i)"
  by (auto simp: put_at_def nth_append min_def)

text \<open>Pieces of one length: a change in one piece.\<close>

lemma put_at_piece:
  assumes "o' + length bs \<le> m" and "m * Suc q \<le> length w" and "m * Suc r \<le> length w"
  shows "take m (drop (m * r) (put_at (m * q + o') bs w)) =
    (if r = q then put_at o' bs (take m (drop (m * q) w)) else take m (drop (m * r) w))"
proof -
  have nth: "put_at (m * q + o') bs w ! i = (if m * q + o' \<le> i \<and> i < m * q + o' + length bs then bs ! (i - (m * q + o')) else w ! i)"
    if "i < length w" for i
    using assms that by (intro put_at_nth) simp_all
  have l: "length (put_at (m * q + o') bs w) = length w" using assms by simp
  show ?thesis
  proof (rule nth_equalityI)
    show "length (take m (drop (m * r) (put_at (m * q + o') bs w))) =
      length (if r = q then put_at o' bs (take m (drop (m * q) w)) else take m (drop (m * r) w))"
    proof -
      have a: "length (take m (drop (m * r) (put_at (m * q + o') bs w))) = m"
        using l assms(3) by simp
      have b: "length (take m (drop (m * q) w)) = m" "length (take m (drop (m * r) w)) = m"
        using assms(2,3) by simp_all
      then have "length (put_at o' bs (take m (drop (m * q) w))) = m" using assms(1) put_at_length by metis
      then show ?thesis using a b by (cases "r = q") (simp_all only: if_True if_False simp_thms)
    qed
  next
    fix i assume "i < length (take m (drop (m * r) (put_at (m * q + o') bs w)))"
    then have i: "i < m" "m * r + i < length w" using l assms by auto
    have lhs: "take m (drop (m * r) (put_at (m * q + o') bs w)) ! i = put_at (m * q + o') bs w ! (m * r + i)"
      using i l by (simp add: nth_take)
    show "take m (drop (m * r) (put_at (m * q + o') bs w)) ! i =
      (if r = q then put_at o' bs (take m (drop (m * q) w)) else take m (drop (m * r) w)) ! i"
    proof (cases "r = q")
      case True
      have "put_at o' bs (take m (drop (m * q) w)) ! i = (if o' \<le> i \<and> i < o' + length bs then bs ! (i - o') else w ! (m * q + i))"
        using assms i put_at_nth [of o' bs "take m (drop (m * q) w)" i] by simp
      then show ?thesis using lhs nth [OF i(2)] True by auto
    next
      case False
      have "\<not> (m * q + o' \<le> m * r + i \<and> m * r + i < m * q + o' + length bs)"
      proof
        assume a: "m * q + o' \<le> m * r + i \<and> m * r + i < m * q + o' + length bs"
        consider "r < q" | "q < r" using False by linarith
        then show False
        proof cases
          case 1
          then have "m * Suc r \<le> m * q" by (intro mult_le_mono2) simp
          then show ?thesis using a i(1) by simp
        next
          case 2
          then have "m * Suc q \<le> m * r" by (intro mult_le_mono2) simp
          then show ?thesis using a assms(1) by simp
        qed
      qed
      then have "put_at (m * q + o') bs w ! (m * r + i) = w ! (m * r + i)" using nth [OF i(2)] by (simp only: if_False)
      then show ?thesis using lhs False i by simp
    qed
  qed
qed

lemma win_put_at: "win_put i bs fs = fs\<lparr>win := put_at i bs (win fs)\<rparr>"
  by (simp add: win_put_def put_at_def)

lemma put_entry:
  assumes t: "dir_table fs sc cs ss" and w: "winsect fs = ss ! (k div 16)" and k: "k < dir_size ss"
    and o: "o' + length bs \<le> 32"
  defines "fs' \<equiv> (win_put (32 * (k mod 16) + o') bs fs)\<lparr>wflag := True\<rparr>"
  shows "dir_table fs' sc cs ss" "dir_entries fs' ss = (dir_entries fs ss)[k := put_at o' bs (dir_entry fs ss k)]"
    "wrote_sects {ss ! (k div 16)} fs fs'" "cfg fs' = cfg fs" "fatmap fs' = fatmap fs" "winsect fs' = winsect fs"
proof -
  define W where "W = put_at (32 * (k mod 16) + o') bs (win fs)"
  have e: "fs' = fs\<lparr>win := W, wflag := True\<rparr>" by (simp add: fs'_def win_put_at W_def)
  show c: "cfg fs' = cfg fs" and ws: "winsect fs' = winsect fs" by (simp_all add: e)
  have l: "layout fs' = layout fs" by (rule cfg_layout [OF c])
  have wo: "window_ok fs" and g: "geometry fs" using dir_tableD [OF t] by auto
  have s: "dir_area fs (winsect fs)" using dir_table_sect [OF t nth_mem [OF dir_size_sect [OF k]]] w by simp
  have "k mod 16 < 16" by simp
  then have lw: "length W = 512" using wo o by (simp add: W_def window_ok_def)
  then have wo': "window_ok fs'" using wo s by (simp add: e window_ok_def dir_area_def)
  have v: "view fs' n = (if n = winsect fs then W else view fs n)" for n by (simp add: e view_def)
  have mk: "mirror_kept fs fs'"
    unfolding mirror_kept_def mirrored_def e using s by (auto simp: dir_area_def in_fat1_def in_fat2_def)
  show "wrote_sects {ss ! (k div 16)} fs fs'" using l wo' mk v w by (simp add: wrote_sects_def)
  have sf: "\<not> in_fat1 fs (winsect fs)" using s by (simp add: dir_area_def)
  show f: "fatmap fs' = fatmap fs" by (rule fatmap_view [OF l g]) (use v sf in auto)
  have "fs_ready fs'" using dir_tableD(1) [OF t] layout_eq [OF l] wo' by (simp add: fs_ready_def)
  then show t': "dir_table fs' sc cs ss"
    using t layout_dir [OF l] layout_sects [OF l] layoutD(6) [OF l] f by (simp add: dir_table_def)
  show "dir_entries fs' ss = (dir_entries fs ss)[k := put_at o' bs (dir_entry fs ss k)]"
  proof (rule nth_equalityI)
    fix j assume "j < length (dir_entries fs' ss)"
    then have j: "j < dir_size ss" by simp
    show "dir_entries fs' ss ! j = (dir_entries fs ss)[k := put_at o' bs (dir_entry fs ss k)] ! j"
    proof (cases "j div 16 = k div 16")
      case False
      then have "ss ! (j div 16) \<noteq> winsect fs"
        using w dir_table_distinct [OF t] dir_size_sect j k by (simp add: nth_eq_iff_index_eq)
      moreover have "j \<noteq> k" using False by auto
      ultimately show ?thesis using j v by (simp add: dir_entry_def)
    next
      case True
      have b: "32 * Suc (i mod 16) \<le> length (win fs)" for i
        using wo pos_mod_bound [of "16" "int i"] by (simp add: window_ok_def Suc_le_eq)
      have "j mod 16 = k mod 16 \<longleftrightarrow> j = k" using True by (metis div_mult_mod_eq)
      moreover have "view fs (winsect fs) = win fs" by (simp add: view_def)
      ultimately show ?thesis
        using put_at_piece [OF o b [of k] b [of j]] j k v w True by (auto simp: dir_entry_def W_def)
    qed
  qed simp
qed

subsection \<open>The directory as a map\<close>

definition real_name :: "u8 list \<Rightarrow> bool" where
  "real_name nm \<longleftrightarrow> length nm = 11 \<and> nm ! 0 \<noteq> 0 \<and> nm ! 0 \<noteq> DDEM"

definition free_entry :: "u8 list \<Rightarrow> bool" where
  "free_entry e \<longleftrightarrow> e ! 0 = DDEM \<or> e ! 0 = 0"

text \<open>Behind the end mark all entries are marks, and no name stands twice.\<close>

definition dir_wf :: "u8 list list \<Rightarrow> bool" where
  "dir_wf es \<longleftrightarrow> (\<forall>i j. i < j \<and> j < length es \<and> es ! i ! 0 = 0 \<longrightarrow> es ! j ! 0 = 0) \<and>
     (\<forall>i j nm. i < j \<and> j < length es \<and> real_name nm \<and> matches nm (es ! i) \<longrightarrow> \<not> matches nm (es ! j)) \<and>
     (\<forall>e \<in> set es. length e = 32)"

definition dir_map :: "u8 list list \<Rightarrow> u8 list \<Rightarrow> u8 list option" where
  "dir_map es nm = (if real_name nm then map_option ((!) es) (scan (matches nm) es) else None)"

lemma scan_Some:
  "scan P es = Some k \<longleftrightarrow> k < length es \<and> P (es ! k) \<and> (\<forall>i \<le> k. es ! i ! 0 \<noteq> 0) \<and> (\<forall>i < k. \<not> P (es ! i))"
proof (induction es arbitrary: k)
  case (Cons e es)
  show ?case
  proof (cases k)
    case 0
    then show ?thesis by auto
  next
    case (Suc k')
    have "(\<forall>i \<le> Suc k'. Q i) \<longleftrightarrow> Q 0 \<and> (\<forall>i \<le> k'. Q (Suc i))" "(\<forall>i < Suc k'. Q i) \<longleftrightarrow> Q 0 \<and> (\<forall>i < k'. Q (Suc i))"
      for Q by (metis Suc_le_mono le_0_eq not0_implies_Suc zero_le, metis All_less_Suc2)
    then show ?thesis using Cons [of k'] by (auto simp: Suc)
  qed
qed simp

lemma matches_start: "real_name nm \<Longrightarrow> length e = 32 \<Longrightarrow> matches nm e \<Longrightarrow> e ! 0 = nm ! 0 \<and> \<not> free_entry e \<and> take 11 e = nm"
  by (auto simp: matches_def real_name_def free_entry_def dest: arg_cong [where f = "\<lambda>xs. xs ! 0"])

lemma dir_wfD:
  assumes "dir_wf es"
  shows "i < j \<Longrightarrow> j < length es \<Longrightarrow> es ! i ! 0 = 0 \<Longrightarrow> es ! j ! 0 = 0"
    "i < length es \<Longrightarrow> j < length es \<Longrightarrow> real_name nm \<Longrightarrow> matches nm (es ! i) \<Longrightarrow> matches nm (es ! j) \<Longrightarrow> i = j"
    "e \<in> set es \<Longrightarrow> length e = 32"
  using assms unfolding dir_wf_def by (blast, metis linorder_neqE_nat, blast)

lemma scan_wf:
  assumes w: "dir_wf es" and n: "real_name nm"
  shows "scan (matches nm) es = Some k \<longleftrightarrow> k < length es \<and> matches nm (es ! k)"
proof -
  have "es ! i ! 0 \<noteq> 0" if k: "k < length es" "matches nm (es ! k)" "i \<le> k" for i
  proof
    assume z: "es ! i ! 0 = 0"
    have "length (es ! k) = 32" using dir_wfD(3) [OF w] k by simp
    then have "es ! k ! 0 \<noteq> 0" using matches_start [OF n _ k(2)] n by (simp add: real_name_def)
    then show False using z dir_wfD(1) [OF w, of i k] k by (cases "i = k") auto
  qed
  moreover have "\<not> matches nm (es ! i)" if "k < length es" "matches nm (es ! k)" "i < k" for i
    using dir_wfD(2) [OF w _ that(1) n _ that(2), of i] that by auto
  ultimately show ?thesis by (auto simp: scan_Some)
qed

lemma dir_map_Some:
  assumes "dir_wf es" and "real_name nm"
  shows "dir_map es nm = Some e \<longleftrightarrow> (\<exists>k < length es. es ! k = e \<and> matches nm e)"
  using scan_wf [OF assms] assms(2) by (auto simp: dir_map_def)

lemma dir_map_update:
  assumes w: "dir_wf es" and w': "dir_wf (es[k := e])" and k: "k < length es"
  shows "dir_map (es[k := e]) nm =
    (if real_name nm then if matches nm e then Some e else if matches nm (es ! k) then None else dir_map es nm else None)"
proof (cases "real_name nm")
  case True
  have d: "i = k" if "matches nm (es ! i)" "matches nm (es ! k)" "i < length es" for i
    using dir_wfD(2) [OF w that(3) k True that(1,2)] .
  have "dir_map (es[k := e]) nm = Some e'  \<longleftrightarrow>
      (if matches nm e then e' = e else \<not> matches nm (es ! k) \<and> dir_map es nm = Some e')" for e'
  proof (cases "matches nm e")
    case m: True
    have "i = k" if "matches nm (es[k := e] ! i)" "i < length es" for i
      using dir_wfD(2) [OF w' _ _ True that(1), of k] that k m by simp
    then have "(\<exists>j < length es. es[k := e] ! j = e' \<and> matches nm e') \<longleftrightarrow> e' = e"
      using k m by (metis nth_list_update_eq)
    then show ?thesis using dir_map_Some [OF w' True, of e'] m by simp
  next
    case False
    then have "(\<exists>j < length es. es[k := e] ! j = e' \<and> matches nm e') \<longleftrightarrow> (\<exists>j < length es. j \<noteq> k \<and> es ! j = e' \<and> matches nm e')"
      using k by (auto simp: nth_list_update)
    also have "\<dots> \<longleftrightarrow> \<not> matches nm (es ! k) \<and> (\<exists>j < length es. es ! j = e' \<and> matches nm e')"
    proof (cases "matches nm (es ! k)")
      case True
      then show ?thesis using d by blast
    next
      case False
      then have "(j \<noteq> k \<and> es ! j = e' \<and> matches nm e') \<longleftrightarrow> (es ! j = e' \<and> matches nm e')" for j by auto
      then show ?thesis using False by simp
    qed
    finally show ?thesis using dir_map_Some [OF w' True, of e'] dir_map_Some [OF w True, of e'] False by simp
  qed
  then have eq: "dir_map (es[k := e]) nm = Some e' \<longleftrightarrow>
      (if matches nm e then Some e else if matches nm (es ! k) then None else dir_map es nm) = Some e'" for e'
    by (simp only: option.inject option.distinct split: if_split) blast
  have "x = y" if "\<And>e'. x = Some e' \<longleftrightarrow> y = Some e'" for x y :: "u8 list option"
    using that by (metis not_None_eq)
  from this [OF eq] show ?thesis using True by (simp only: if_True)
qed (simp add: dir_map_def)

text \<open>The two changes: a free entry gets a name, and an entry is freed.\<close>

lemma dir_insert:
  assumes w: "dir_wf es" and k: "k < length es" and f: "free_entry (es ! k)" "\<And>j. j < k \<Longrightarrow> \<not> free_entry (es ! j)"
    and n: "real_name nm" and new: "dir_map es nm = None"
  defines "e \<equiv> nm @ replicate 21 0"
  shows "dir_wf (es[k := e])" "dir_map (es[k := e]) = (dir_map es)(nm \<mapsto> e)"
proof -
  have l: "length nm = 11" "length e = 32" using n by (simp_all add: real_name_def e_def)
  have z: "e ! 0 \<noteq> 0" using n l(1) by (simp add: e_def real_name_def nth_append)
  have a: "e ! 11 = 0" using l(1) by (simp add: e_def nth_append)
  have me: "matches m e \<longleftrightarrow> m = nm" if "real_name m" for m
    using that l a by (auto simp: matches_def real_name_def e_def)
  have nk: "\<not> matches m (es ! k)" if "real_name m" for m
    using matches_start [OF that dir_wfD(3) [OF w nth_mem [OF k]]] f(1) by blast
  have nn: "\<not> matches nm (es ! i)" if "i < length es" for i
    using new dir_map_Some [OF w n, of "es ! i"] that by auto
  show w': "dir_wf (es[k := e])"
    unfolding dir_wf_def
  proof (intro conjI allI impI ballI; (elim conjE)?)
    fix i j assume ij: "i < j" "j < length (es[k := e])" "es[k := e] ! i ! 0 = 0"
    then have "i \<noteq> k" using z k by auto
    then have i0: "es ! i ! 0 = 0" using ij by simp
    then have "\<not> i < k" using f(2) by (auto simp: free_entry_def)
    then show "es[k := e] ! j ! 0 = 0" using ij i0 dir_wfD(1) [OF w ij(1)] by simp
  next
    fix i j m assume "i < j" "j < length (es[k := e])" "real_name m" "matches m (es[k := e] ! i)"
    then show "\<not> matches m (es[k := e] ! j)"
      using me [of m] nn [of i] nn [of j] dir_wfD(2) [OF w, of i j m]
      by (cases "i = k"; cases "j = k") (auto simp: nth_list_update)
  next
    fix x assume "x \<in> set (es[k := e])"
    then show "length x = 32" using set_update_subset_insert [of es k e] l(2) dir_wfD(3) [OF w] by auto
  qed
  show "dir_map (es[k := e]) = (dir_map es)(nm \<mapsto> e)"
  proof
    fix m
    show "dir_map (es[k := e]) m = ((dir_map es)(nm \<mapsto> e)) m"
      using dir_map_update [OF w w' k, of m] me [of m] nk [of m] n by (auto simp: dir_map_def)
  qed
qed

lemma dir_delete:
  assumes w: "dir_wf es" and k: "k < length es" and n: "real_name nm" and m: "matches nm (es ! k)"
  shows "dir_wf (es[k := put_at 0 [DDEM] (es ! k)])" "dir_map (es[k := put_at 0 [DDEM] (es ! k)]) = (dir_map es)(nm := None)"
proof -
  define e where "e = put_at 0 [DDEM] (es ! k)"
  have l: "length (es ! k) = 32" using dir_wfD(3) [OF w nth_mem [OF k]] .
  then have le: "length e = 32" "e ! 0 = DDEM" by (simp_all add: e_def put_at_nth)
  have ek: "es ! k ! 0 \<noteq> 0" "take 11 (es ! k) = nm" using matches_start [OF n l m] n by (auto simp: real_name_def)
  have me: "\<not> matches m e" if "real_name m" for m
    using matches_start [OF that le(1)] le(2) by (auto simp: free_entry_def)
  have mk: "matches m (es ! k) \<longleftrightarrow> m = nm" if "real_name m" for m
    using m n ek(2) that by (auto simp: matches_def real_name_def)
  have w': "dir_wf (es[k := e])"
    unfolding dir_wf_def
  proof (intro conjI allI impI ballI; (elim conjE)?)
    fix i j assume ij: "i < j" "j < length (es[k := e])" "es[k := e] ! i ! 0 = 0"
    then have "i \<noteq> k" using le(2) k by auto
    then have "es ! i ! 0 = 0" using ij by simp
    then show "es[k := e] ! j ! 0 = 0" using ij ek(1) dir_wfD(1) [OF w ij(1)] by (cases "j = k") auto
  next
    fix i j m assume "i < j" "j < length (es[k := e])" "real_name m" "matches m (es[k := e] ! i)"
    then show "\<not> matches m (es[k := e] ! j)"
      using me [of m] dir_wfD(2) [OF w, of i j m] by (cases "i = k"; cases "j = k") (auto simp: nth_list_update)
  next
    fix x assume "x \<in> set (es[k := e])"
    then show "length x = 32" using set_update_subset_insert [of es k e] le dir_wfD(3) [OF w] by auto
  qed
  moreover have "dir_map (es[k := e]) m = ((dir_map es)(nm := None)) m" for m
    using dir_map_update [OF w w' k, of m] me [of m] mk [of m] n by (auto simp: dir_map_def)
  ultimately show "dir_wf (es[k := put_at 0 [DDEM] (es ! k)])"
    "dir_map (es[k := put_at 0 [DDEM] (es ! k)]) = (dir_map es)(nm := None)"
    by (simp_all add: e_def fun_eq_iff)
qed

text \<open>Cleared entries behind the others.\<close>

lemma zero_tail:
  assumes w: "dir_wf es" and f: "\<And>e. e \<in> set es \<Longrightarrow> \<not> free_entry e"
  shows "dir_wf (es @ replicate m (replicate 32 0))" "dir_map (es @ replicate m (replicate 32 0)) = dir_map es"
proof -
  define Z where "Z = replicate m (replicate 32 (0 :: u8))"
  have z: "z \<in> set Z \<Longrightarrow> z ! 0 = 0 \<and> length z = 32" for z by (auto simp: Z_def)
  have nz: "\<not> matches nm z" if "real_name nm" "z \<in> set Z" for nm z
    using matches_start [OF that(1)] z [OF that(2)] by (auto simp: free_entry_def)
  have at: "(es @ Z) ! i = es ! i" if "i < length es" for i using that by (simp add: nth_append)
  have inz: "(es @ Z) ! i \<in> set Z" if "\<not> i < length es" "i < length (es @ Z)" for i using that by (simp add: nth_append)
  have ne: "es ! i ! 0 \<noteq> 0" if "i < length es" for i using f [OF nth_mem [OF that]] by (auto simp: free_entry_def)
  show w': "dir_wf (es @ replicate m (replicate 32 0))"
    unfolding Z_def [symmetric] dir_wf_def
  proof (intro conjI allI impI ballI; (elim conjE)?)
    fix i j assume "i < j" "j < length (es @ Z)" "(es @ Z) ! i ! 0 = 0"
    then have "\<not> j < length es" using at ne by (metis order.strict_trans)
    then show "(es @ Z) ! j ! 0 = 0" using z inz \<open>j < length (es @ Z)\<close> by blast
  next
    fix i j nm assume a: "i < j" "j < length (es @ Z)" "real_name nm" "matches nm ((es @ Z) ! i)"
    show "\<not> matches nm ((es @ Z) ! j)"
    proof (cases "j < length es")
      case True
      then show ?thesis using a at dir_wfD(2) [OF w, of i j nm] by auto
    next
      case False
      then show ?thesis using nz [OF a(3)] inz a(2) by blast
    qed
  next
    fix e assume "e \<in> set (es @ Z)"
    then show "length e = 32" using z dir_wfD(3) [OF w] by auto
  qed
  have "dir_map (es @ Z) nm = Some e \<longleftrightarrow> dir_map es nm = Some e" if n: "real_name nm" for nm e
  proof -
    have "(\<exists>k < length (es @ Z). (es @ Z) ! k = e \<and> matches nm e) \<longleftrightarrow> (\<exists>k < length es. es ! k = e \<and> matches nm e)"
      using at inz nz [OF n] by (metis length_append trans_less_add1)
    then show ?thesis using dir_map_Some [OF w' [folded Z_def] n] dir_map_Some [OF w n] by simp
  qed
  then show "dir_map (es @ replicate m (replicate 32 0)) = dir_map es"
    unfolding Z_def [symmetric] by (intro ext) (metis dir_map_def not_None_eq)
qed

subsection \<open>Finding and removing\<close>

lemma wrote_sects_mono: "wrote_sects S a b \<Longrightarrow> S \<subseteq> T \<Longrightarrow> wrote_sects T a b"
  by (auto simp: wrote_sects_def)

lemma dir_remove_entry:
  assumes t: "dir_table fs sc cs ss" and p: "dir_pos fs sc cs ss k dp"
  shows "\<exists>fs'. dir_remove dp fs = (FR_OK, fs') \<and> dir_table fs' sc cs ss \<and>
    dir_entries fs' ss = (dir_entries fs ss)[k := put_at 0 [DDEM] (dir_entry fs ss k)] \<and>
    wrote_sects (set ss) fs fs' \<and> fatmap fs' = fatmap fs \<and> cfg fs' = cfg fs"
proof -
  obtain fs1 where m: "move_window (d_sect dp) fs = (FR_OK, fs1)" and k1: "keeps fs fs1" and w: "winsect fs1 = ss ! (k div 16)"
    using move_to_entry [OF t p] by metis
  have k: "k < dir_size ss" "d_ofs dp = 32 * (k mod 16) + 0" using p by (auto simp: dir_pos_def)
  note t1 = keeps_dir(1) [OF t k1] and e1 = keeps_dir(2) [OF t k1]
  have "0 + length [DDEM] \<le> 32" by simp
  note u = put_entry [OF t1 w k(1) this, folded k(2)]
  have "dir_entry fs1 ss k = dir_entry fs ss k" using e1 k(1) by (metis dir_entries_nth)
  moreover have "ss ! (k div 16) \<in> set ss" using dir_size_sect [OF k(1)] by simp
  then have "wrote_sects (set ss) fs ((win_put (d_ofs dp) [DDEM] fs1)\<lparr>wflag := True\<rparr>)"
    using wrote_sects_trans [OF keeps_wrote [OF k1] u(3)] by simp
  moreover have "fatmap fs1 = fatmap fs" by (rule keeps_fatmap [OF k1 dir_tableD(3) [OF t]])
  ultimately show ?thesis using u e1 m keeps_cfg [OF k1] by (simp add: dir_remove_def)
qed

lemma find_map:
  assumes w: "dir_wf (dir_entries fs ss)" and n: "real_name (take 11 (d_fn dp))"
  shows "scan (matches (d_fn dp)) (dir_entries fs ss) = None \<longleftrightarrow> dir_map (dir_entries fs ss) (take 11 (d_fn dp)) = None"
    "scan (matches (d_fn dp)) (dir_entries fs ss) = Some k \<Longrightarrow>
      k < dir_size ss \<and> matches (take 11 (d_fn dp)) (dir_entry fs ss k) \<and>
      dir_map (dir_entries fs ss) (take 11 (d_fn dp)) = Some (dir_entry fs ss k)"
proof -
  have e: "matches (d_fn dp) = matches (take 11 (d_fn dp))" by (auto simp: matches_def fun_eq_iff)
  show "scan (matches (d_fn dp)) (dir_entries fs ss) = None \<longleftrightarrow> dir_map (dir_entries fs ss) (take 11 (d_fn dp)) = None"
    using n by (simp add: dir_map_def e)
  assume "scan (matches (d_fn dp)) (dir_entries fs ss) = Some k"
  then show "k < dir_size ss \<and> matches (take 11 (d_fn dp)) (dir_entry fs ss k) \<and>
      dir_map (dir_entries fs ss) (take 11 (d_fn dp)) = Some (dir_entry fs ss k)"
    using scan_wf [OF w n, of k] n by (auto simp: dir_map_def e)
qed

text \<open>
  C9: searching a directory for a name and removing the entry that is found deletes the name
  from the map that the directory stands for, and changes no other name, no other sector outside
  the tables and no entry of the table; a name the directory does not have is reported as
  missing, and nothing changes.
\<close>

theorem dir_find_remove:
  assumes "dir_table fs (d_sclust dp) cs ss" and "dir_wf (dir_entries fs ss)" and "real_name (take 11 (d_fn dp))"
  shows "\<exists>r dp' fs'. dir_find dp fs = Some (r, dp', fs') \<and> keeps fs fs' \<and>
    (case dir_map (dir_entries fs ss) (take 11 (d_fn dp)) of
       None \<Rightarrow> r = FR_NO_FILE
     | Some e \<Rightarrow> r = FR_OK \<and> d_attr dp' = e ! 11 AND AM_MASK \<and> take 32 (drop (d_ofs dp') (win fs')) = e \<and>
         (\<exists>fs2. dir_remove dp' fs' = (FR_OK, fs2) \<and> dir_table fs2 (d_sclust dp) cs ss \<and> dir_wf (dir_entries fs2 ss) \<and>
            dir_map (dir_entries fs2 ss) = (dir_map (dir_entries fs ss))(take 11 (d_fn dp) := None) \<and>
            wrote_sects (set ss) fs fs2 \<and> fatmap fs2 = fatmap fs))"
proof -
  define nm where "nm = take 11 (d_fn dp)"
  note t = assms(1) and w = assms(2) and fm = find_map [OF assms(2,3), folded nm_def]
  obtain r dp' fs' where f: "dir_find dp fs = Some (r, dp', fs')"
    and s: "scanned fs (d_sclust dp) cs ss dp (scan (matches (d_fn dp)) (dir_entries fs ss)) (r, dp', fs')"
    using dir_find_scan [OF t] by (metis prod_cases3)
  then have k: "keeps fs fs'" by (simp add: scanned_def)
  show ?thesis
  proof (cases "scan (matches (d_fn dp)) (dir_entries fs ss)")
    case None
    then show ?thesis using s f k fm(1) by (simp add: scanned_def nm_def)
  next
    case (Some i)
    then have st: "r = FR_OK" "stands fs (d_sclust dp) cs ss i dp' fs'" using s by (auto simp: scanned_def)
    note fi = fm(2) [OF Some]
    note t1 = keeps_dir(1) [OF t k] and e1 = keeps_dir(2) [OF t k]
    have p1: "dir_pos fs' (d_sclust dp) cs ss i dp'" using st(2) keeps_dir(3) [OF t k] by (simp add: stands_def)
    have ee: "dir_entry fs' ss i = dir_entry fs ss i" using e1 fi by (metis dir_entries_nth)
    have "take 32 (drop (d_ofs dp') (win fs')) = dir_entry fs' ss i"
      using st(2) p1 by (simp add: stands_def dir_pos_def dir_entry_def view_def)
    moreover obtain fs2 where "dir_remove dp' fs' = (FR_OK, fs2)" "dir_table fs2 (d_sclust dp) cs ss"
      "dir_entries fs2 ss = (dir_entries fs ss)[i := put_at 0 [DDEM] (dir_entry fs ss i)]"
      "wrote_sects (set ss) fs' fs2" "fatmap fs2 = fatmap fs'"
      using dir_remove_entry [OF t1 p1] ee e1 by auto
    moreover have "wrote_sects (set ss) fs fs2"
      by (rule wrote_sects_trans [OF keeps_wrote [OF k] \<open>wrote_sects (set ss) fs' fs2\<close>]) simp_all
    moreover have "fatmap fs' = fatmap fs" by (rule keeps_fatmap [OF k dir_tableD(3) [OF t]])
    moreover have "real_name nm" using assms(3) by (simp add: nm_def)
    ultimately show ?thesis
      using f k st fi dir_delete [OF w, of i nm] ee by (simp add: stands_def nm_def)
  qed
qed

subsection \<open>A small directory\<close>

text \<open>The root area of the small volume, with the entry of a file in front of cleared ones.\<close>

definition demo_name :: "u8 list" where
  "demo_name = 0x41 # replicate 10 0x20"

definition demo_root :: "u8 list \<Rightarrow> fatfs" where
  "demo_root nm = (demo_fs FS_FAT16)\<lparr>disk := (\<lambda>s. if s = 3 then nm @ replicate (512 - length nm) 0 else replicate 512 0)\<rparr>"

definition demo_dir :: dirobj where
  "demo_dir = \<lparr>d_id = Some 1, d_attr = 0, d_sclust = 0, d_lockid = 0, dptr = 0, d_clust = 0, d_sect = 0, d_ofs = 0,
     d_fn = demo_name @ [0], d_pat = []\<rparr>"

lemma demo_name: "real_name demo_name" "take 11 (d_fn demo_dir) = demo_name" "d_sclust demo_dir = 0" "length demo_name = 11"
  by (simp_all add: real_name_def demo_name_def demo_dir_def)

lemma demo_root_ready:
  assumes "length nm \<le> 512"
  shows "fs_ready (demo_root nm)"
  using assms
  by (simp add: demo_root_def fs_ready_def geometry_def window_ok_def io_ok_def demo_fs_def max_fatent_def fat_bytes_def)

lemma demo_root_table:
  assumes "length nm \<le> 512"
  shows "dir_table (demo_root nm) 0 [] [3]"
proof -
  have sel: "csize (demo_root nm) = 1" "n_fatent (demo_root nm) = 10" "database (demo_root nm) = 4" "dirbase (demo_root nm) = 3"
    "fatbase (demo_root nm) = 1" "n_fats (demo_root nm) = 2" "fsize (demo_root nm) = 1" "n_rootdir (demo_root nm) = 16"
    "fs_type (demo_root nm) = FS_FAT16"
    by (simp_all add: demo_root_def demo_fs_def)
  have "data_geometry (demo_root nm)"
    using demo_root_ready [OF assms] by (auto simp: data_geometry_def fs_ready_def sel intro!: exI [of _ 0])
  then show ?thesis
    using demo_root_ready [OF assms] by (simp add: dir_table_def dir_start_def root_sects_def root_ok_def sel)
qed

lemma demo_root_entries:
  assumes "length nm \<le> 32"
  shows "dir_entries (demo_root nm) [3] = (nm @ replicate (32 - length nm) 0) # replicate 15 (replicate 32 0)"
proof (rule nth_equalityI)
  have v: "view (demo_root nm) 3 = nm @ replicate (512 - length nm) 0"
    by (simp add: view_def demo_root_def demo_fs_def)
  show "length (dir_entries (demo_root nm) [3]) = length ((nm @ replicate (32 - length nm) 0) # replicate 15 (replicate 32 0))"
    by (simp add: dir_size_def)
  fix k assume "k < length (dir_entries (demo_root nm) [3])"
  then have k: "k < 16" by (simp add: dir_size_def)
  show "dir_entries (demo_root nm) [3] ! k = ((nm @ replicate (32 - length nm) 0) # replicate 15 (replicate 32 0)) ! k"
  proof (cases k)
    case 0
    then show ?thesis using assms by (simp add: dir_size_def dir_entry_def v min_def)
  next
    case (Suc j)
    then have "drop (32 * k) (nm @ replicate (512 - length nm) 0) = replicate (512 - 32 * k) 0" using assms by simp
    moreover have "32 \<le> 512 - 32 * k" using k by simp
    ultimately show ?thesis using k Suc by (simp add: dir_size_def dir_entry_def v min_def)
  qed
qed

lemma demo_root_wf: "dir_wf (dir_entries (demo_root demo_name) [3])"
  "dir_map (dir_entries (demo_root demo_name) [3]) demo_name = Some (demo_name @ replicate 21 0)"
  "dir_wf (dir_entries (demo_root []) [3])" "dir_map (dir_entries (demo_root []) [3]) demo_name = None"
proof -
  define e where "e = demo_name @ replicate 21 (0 :: u8)"
  have e: "length e = 32" "e ! 0 = 0x41" "e ! 11 = 0" "take 11 e = demo_name" by (simp_all add: e_def demo_name_def nth_append)
  have w: "dir_wf [e]" "dir_wf []" using e by (auto simp: dir_wf_def)
  have m: "dir_map [e] demo_name = Some e" "dir_map [] demo_name = None"
    using demo_name e by (simp_all add: dir_map_def matches_def)
  have f: "\<And>x. x \<in> set [e] \<Longrightarrow> \<not> free_entry x" "\<And>x. x \<in> set [] \<Longrightarrow> \<not> free_entry x" using e by (auto simp: free_entry_def)
  have "dir_entries (demo_root demo_name) [3] = [e] @ replicate 15 (replicate 32 0)"
    "dir_entries (demo_root []) [3] = [] @ replicate 16 (replicate 32 0)"
    using demo_root_entries [of demo_name] demo_root_entries [of "[]"] demo_name(4)
    by (simp_all add: e_def numeral_eq_Suc)
  then show "dir_wf (dir_entries (demo_root demo_name) [3])"
    "dir_map (dir_entries (demo_root demo_name) [3]) demo_name = Some (demo_name @ replicate 21 0)"
    "dir_wf (dir_entries (demo_root []) [3])" "dir_map (dir_entries (demo_root []) [3]) demo_name = None"
    using zero_tail [OF w(1) f(1)] zero_tail [OF w(2) f(2)] m by (simp_all only: e_def)
qed

theorem dir_find_remove_witness:
  "\<exists>dp' fs' fs2. dir_find demo_dir (demo_root demo_name) = Some (FR_OK, dp', fs') \<and> dir_remove dp' fs' = (FR_OK, fs2) \<and>
    dir_map (dir_entries fs2 [3]) demo_name = None"
proof -
  have l: "length demo_name \<le> 512" using demo_name(4) by simp
  show ?thesis
    using dir_find_remove [of "demo_root demo_name" demo_dir "[]" "[3]"] demo_name demo_root_table [OF l] demo_root_wf(1,2) by auto
qed

end
