(* ===== verification/FatFs_Dir_Register.thy ===== *)
theory FatFs_Dir_Register
  imports FatFs_Dir_Change FatFs_Write
begin

text \<open>
  Registering a name: the first free entry is taken; when there is none, a directory with a
  chain is stretched by a cluster of cleared entries, and a full root area, or a full disk,
  refuses.
\<close>

subsection \<open>Clearing a cluster\<close>

lemma clear_loop_all:
  assumes "io_ok fs"
  shows "clear_loop n s fs = (True, fs\<lparr>io_count := io_count fs + n,
    disk := (\<lambda>x. if \<exists>i < n. x = s + of_nat i then win fs else disk fs x)\<rparr>)"
  using assms
proof (induction n arbitrary: s fs)
  case 0
  then show ?case by simp
next
  case (Suc n)
  define fs1 where "fs1 = fs\<lparr>io_count := io_count fs + 1, disk := (disk fs)(s := win fs)\<rparr>"
  have w: "disk_write_sector s (win fs) fs = (True, fs1)"
    using Suc.prems by (simp add: disk_write_sector_def io_ok_def fs1_def)
  have sel: "io_ok fs1" "win fs1 = win fs" "disk fs1 = (disk fs)(s := win fs)" "io_count fs1 = io_count fs + 1"
    using Suc.prems by (simp_all add: fs1_def io_ok_def)
  have ex: "(\<exists>i < Suc n. x = s + of_nat i) \<longleftrightarrow> x = s \<or> (\<exists>i < n. x = s + 1 + of_nat i)" for x :: u32
    by (auto simp: less_Suc_eq_0_disj add.assoc)
  have "clear_loop (Suc n) s fs = clear_loop n (s + 1) fs1" by (simp add: w)
  also have "\<dots> = (True, fs1\<lparr>io_count := io_count fs1 + n,
      disk := (\<lambda>x. if \<exists>i < n. x = s + 1 + of_nat i then win fs1 else disk fs1 x)\<rparr>)" by (rule Suc.IH [OF sel(1)])
  also have "fs1\<lparr>io_count := io_count fs1 + n,
      disk := (\<lambda>x. if \<exists>i < n. x = s + 1 + of_nat i then win fs1 else disk fs1 x)\<rparr> =
    fs\<lparr>io_count := io_count fs + Suc n, disk := (\<lambda>x. if \<exists>i < Suc n. x = s + of_nat i then win fs else disk fs x)\<rparr>"
  proof -
    have "(\<lambda>x. if \<exists>i < n. x = s + 1 + of_nat i then win fs else ((disk fs)(s := win fs)) x) =
      (\<lambda>x. if x = s \<or> (\<exists>i < n. x = s + 1 + of_nat i) then win fs else disk fs x)" by (auto simp: fun_eq_iff)
    then show ?thesis unfolding sel ex by (simp add: fs1_def)
  qed
  finally show ?case .
qed

lemma in_fat1_valid:
  assumes "geometry fs" and "in_fat1 fs s"
  shows "s \<noteq> 0 - 1"
proof -
  have d: "unat (s - fatbase fs) < unat (fsize fs)" using assms(2) by (simp add: in_fat1_def word_less_nat_alt)
  then have "fat_sect fs (512 * unat (s - fatbase fs)) = s" by (simp add: fat_sect_def)
  then show ?thesis using fat_sect_region(3) [OF assms(1), of "512 * unat (s - fatbase fs)"] d by simp
qed

lemma dir_clear_cluster:
  assumes m: "mounted fs" "io_ok fs" "data_geometry fs" and c: "2 \<le> c" "c < n_fatent fs"
  obtains fs' where "dir_clear c fs = (FR_OK, fs')" and "wrote_sects (set (cluster_sects fs c)) fs fs'"
    and "cfg fs' = cfg fs" and "fatmap fs' = fatmap fs" and "mounted fs'"
    and "\<And>s. s \<in> set (cluster_sects fs c) \<Longrightarrow> view fs' s = replicate 512 0"
proof -
  define S where "S = set (cluster_sects fs c)"
  have w: "window_ok fs" and g: "geometry fs" using m by (auto simp: mounted_def)
  obtain r fs1 where sy: "sync_window fs = (r, fs1)" by fastforce
  note sk = sync_window_keeps [OF w sy]
  have r: "r = FR_OK" and k: "keeps fs fs1" and nf: "\<not> wflag fs1" using sk m(2) by auto
  note c1 = keeps_cfg [OF k]
  note l1 = cfg_layout [OF c1]
  have w1: "window_ok fs1" by (rule keeps_window [OF k])
  define s where "s = clst2sect fs c"
  have s1: "clst2sect fs1 c = s" using layout_sects(5) [OF l1] by (simp add: s_def)
  have cs: "csize fs1 = csize fs" using cfgD(5) [OF c1] .
  have Sx: "x \<in> S \<longleftrightarrow> (\<exists>i < unat (csize fs). x = s + of_nat i)" for x
    by (auto simp: S_def cluster_sects_def s_def)
  have ds: "data_sect fs x" if "x \<in> S" for x using cluster_data_sect [OF m(3) c] that by (simp add: S_def)
  define fs2 where "fs2 = fs1\<lparr>winsect := s, win := replicate 512 0\<rparr>"
  have sel2: "win fs2 = replicate 512 0" "disk fs2 = disk fs1" by (simp_all add: fs2_def)
  define D where "D = (\<lambda>x. if x \<in> S then replicate 512 0 else disk fs1 x)"
  define fs3 where "fs3 = fs2\<lparr>io_count := io_count fs2 + unat (csize fs), disk := D\<rparr>"
  have i2: "io_ok fs2" using m(2) layout_eq(4) [OF l1] by (simp add: fs2_def io_ok_def)
  have "D = (\<lambda>x. if \<exists>i < unat (csize fs). x = s + of_nat i then win fs2 else disk fs2 x)"
    by (rule ext) (simp only: D_def Sx sel2)
  then have "clear_loop (unat (csize fs)) s fs2 = (True, fs3)"
    using clear_loop_all [OF i2, of "unat (csize fs)" s] by (simp add: fs3_def)
  then have e: "dir_clear c fs = (FR_OK, fs3)"
    using sy r s1 cs by (simp add: dir_clear_def Let_def fs2_def)
  have "0 < unat (csize fs)" by (rule data_geometryD(2) [OF m(3)])
  then have sS: "s \<in> S" unfolding Sx by (intro exI [of _ 0]) simp
  have c3: "cfg fs3 = cfg fs" using c1 by (simp add: fs3_def fs2_def)
  have l3: "layout fs3 = layout fs" by (rule cfg_layout [OF c3])
  have v3: "view fs3 x = (if x \<in> S then replicate 512 0 else disk fs1 x)" for x
    using sS by (auto simp: view_def fs3_def fs2_def D_def)
  have d1: "disk fs1 x = view fs1 x" if "x \<noteq> 0 - 1" for x
    using w1 nf that by (auto simp: view_def window_ok_def)
  have v: "view fs3 x = view fs x" if "x \<noteq> 0 - 1" "\<not> in_fat2 fs x" "x \<notin> S" for x
    using v3 d1 k that by (auto simp: keeps_def)
  have w3: "window_ok fs3"
    using w1 nf sS by (simp add: window_ok_def fs3_def fs2_def D_def)
  have nS: "x \<notin> S" if "in_fat1 fs x \<or> in_fat2 fs x" for x using ds data_not_fat [OF g] that by blast
  have mk: "mirror_kept fs fs3"
  proof -
    have "mirrored fs3" if "mirrored fs1"
      unfolding mirrored_def
    proof (intro impI conjI allI)
      assume "wflag fs3"
      then show "\<not> in_fat2 fs3 (winsect fs3)" using nf by (simp add: fs3_def fs2_def)
    next
      fix n assume n: "n_fats fs3 = 2" "in_fat1 fs3 n \<and> \<not> (wflag fs3 \<and> winsect fs3 = n)"
      have n1: "n_fats fs = 2" "in_fat1 fs n" using n cfgD(2) [OF c3] layout_eq(2) [OF l3] by simp_all
      have f: "fsize fs3 = fsize fs" "fsize fs1 = fsize fs" using cfgD(10) [OF c3] cfgD(10) [OF c1] by simp_all
      have "in_fat2 fs (n + fsize fs)" by (rule mirror_in_fat2 [OF n1])
      moreover have "disk fs1 (n + fsize fs) = disk fs1 n"
        using that n1 f nf cfgD(2) [OF c1] layout_eq(2) [OF l1] by (simp add: mirrored_def)
      ultimately show "disk fs3 (n + fsize fs3) = disk fs3 n"
        using nS n1 f by (simp add: fs3_def D_def)
    qed
    then show ?thesis using k by (auto simp: keeps_def mirror_kept_def)
  qed
  have wr: "wrote_sects S fs fs3" using l3 w3 mk v by (simp add: wrote_sects_def)
  have fm: "fatmap fs3 = fatmap fs"
    by (rule fatmap_view [OF l3 g]) (use v nS fats_disjoint [OF g] in_fat1_valid [OF g] in \<open>blast\<close>)
  have "mounted fs3" using w3 layout_eq(1) [OF l3] g by (simp add: mounted_def)
  then show thesis using that [OF e _ c3 fm] wr v3 by (simp add: S_def)
qed

subsection \<open>Stretching\<close>

definition alloc_fine :: "fatfs \<Rightarrow> bool" where
  "alloc_fine fs \<longleftrightarrow> count_ok fs \<and> (\<forall>d. 2 \<le> d \<and> d < n_fatent fs \<longrightarrow> fatmap fs d \<noteq> 1)"

lemma wrote_table:
  assumes t: "dir_table fs sc cs ss" and w: "wrote_sects S fs fs'" and f: "fatmap fs' = fatmap fs"
  shows "dir_table fs' sc cs ss" "S \<inter> set ss = {} \<Longrightarrow> dir_entries fs' ss = dir_entries fs ss"
proof -
  have l: "layout fs' = layout fs" and wo: "window_ok fs'" using w by (auto simp: wrote_sects_def)
  have "fs_ready fs'" using dir_tableD(1) [OF t] layout_eq [OF l] wo by (simp add: fs_ready_def)
  then show "dir_table fs' sc cs ss"
    using t layout_dir [OF l] layout_sects [OF l] layoutD(6) [OF l] f by (simp add: dir_table_def)
  assume "S \<inter> set ss = {}"
  then have "view fs' s = view fs s" if "s \<in> set ss" for s
    using w dir_table_sect [OF t that] that by (auto simp: wrote_sects_def dir_area_def)
  then show "dir_entries fs' ss = dir_entries fs ss"
    using dir_size_sect by (intro nth_equalityI) (simp_all add: dir_entry_def)
qed

text \<open>The table that a directory gets when its chain gets the cluster \<open>r\<close>.\<close>

lemma stretched_table:
  assumes t: "dir_table fs sc cs ss" and ne: "cs \<noteq> []" and l: "layout fs' = layout fs" and wo: "window_ok fs'"
    and ch: "chain (fatmap fs') (n_fatent fs') (dir_start fs sc) (cs @ [r])"
  shows "dir_table fs' sc (cs @ [r]) (ss @ cluster_sects fs r)"
proof -
  have "fs_ready fs'" using dir_tableD(1) [OF t] layout_eq [OF l] wo by (simp add: fs_ready_def)
  moreover have "ss = file_sects fs cs" "dir_start fs sc \<noteq> 0"
    using t ne dir_tableD(9) [OF t] by (auto simp: dir_table_def)
  ultimately show ?thesis
    using dir_tableD(2) [OF t] layout_dir [OF l] layout_sects [OF l] layout_cluster [OF l] ch
    by (simp add: dir_table_def file_sects_append file_sects_one)
qed

lemma stretched_entries:
  assumes t: "dir_table fs sc cs ss" and t': "dir_table fs' sc' cs' (ss @ ext)"
    and v: "\<And>s. s \<in> set ss \<Longrightarrow> view fs' s = view fs s"
    and z: "\<And>s. s \<in> set ext \<Longrightarrow> view fs' s = replicate 512 0"
    and d: "dir_size ss = 16 * length ss"
  shows "dir_entries fs' (ss @ ext) = dir_entries fs ss @ replicate (dir_size (ss @ ext) - dir_size ss) (replicate 32 0)"
proof (rule nth_equalityI)
  have "dir_size ss \<le> dir_size (ss @ ext)" by (simp add: dir_size_def)
  then show "length (dir_entries fs' (ss @ ext)) =
      length (dir_entries fs ss @ replicate (dir_size (ss @ ext) - dir_size ss) (replicate 32 0))" by simp
  fix j assume "j < length (dir_entries fs' (ss @ ext))"
  then have j: "j < dir_size (ss @ ext)" by simp
  show "dir_entries fs' (ss @ ext) ! j =
      (dir_entries fs ss @ replicate (dir_size (ss @ ext) - dir_size ss) (replicate 32 0)) ! j"
  proof (cases "j < dir_size ss")
    case True
    then have q: "j div 16 < length ss" by (rule dir_size_sect)
    then have "(ss @ ext) ! (j div 16) = ss ! (j div 16)" by (simp add: nth_append)
    then show ?thesis using True j v [OF nth_mem [OF q]] by (simp add: nth_append dir_entry_def)
  next
    case False
    then have "length ss \<le> j div 16" using d by simp
    then have "(ss @ ext) ! (j div 16) \<in> set ext" using dir_size_sect [OF j] by (simp add: nth_append)
    then have "view fs' ((ss @ ext) ! (j div 16)) = replicate 512 0" by (rule z)
    moreover have "j mod 16 < 16" by simp
    then have "32 \<le> 512 - 32 * (j mod 16)" by simp
    ultimately have "dir_entry fs' (ss @ ext) j = replicate 32 0" by (simp add: dir_entry_def min_def)
    then show ?thesis using False j by (simp add: nth_append)
  qed
qed

text \<open>When a directory cannot get another entry.\<close>

definition dir_full :: "fatfs \<Rightarrow> u32 list \<Rightarrow> u32 list \<Rightarrow> bool" where
  "dir_full fs cs ss \<longleftrightarrow> cs = [] \<or> dir_size ss = 65536 \<or> free_set fs = {}"

lemma dir_next_stretch:
  assumes t: "dir_table fs sc cs ss" and p: "dir_pos fs sc cs ss k dp" and k: "Suc k = dir_size ss"
    and a: "alloc_fine fs"
  obtains (full) r dp' fs' where "dir_next True dp fs = Some (r, dp', fs')" and "r \<in> {FR_NO_FILE, FR_DENIED}"
      and "dir_full fs cs ss" and "wrote_sects {} fs fs'" and "fatmap fs' = fatmap fs" and "count_ok fs'"
    | (grown) r dp' fs' where "dir_next True dp fs = Some (FR_OK, dp', fs')" and "fatmap fs r = 0" and "cs \<noteq> []"
      and "dir_table fs' sc (cs @ [r]) (ss @ cluster_sects fs r)" and "dir_pos fs' sc (cs @ [r]) (ss @ cluster_sects fs r) (Suc k) dp'"
      and "d_fn dp' = d_fn dp" and "dir_size ss = 16 * length ss" and "set (cluster_sects fs r) \<inter> set ss = {}"
      and "wrote_sects (set (cluster_sects fs r)) fs fs'" and "fatmap fs' = linked (last cs) r fs" and "count_ok fs'"
      and "\<And>s. s \<in> set (cluster_sects fs r) \<Longrightarrow> view fs' s = replicate 512 0"
proof -
  have sc: "d_sclust dp = sc" using p by (simp add: dir_pos_def)
  have cnt: "count_ok fs" and ones: "\<And>d. 2 \<le> d \<Longrightarrow> d < n_fatent fs \<Longrightarrow> fatmap fs d \<noteq> 1" using a by (auto simp: alloc_fine_def)
  show thesis
  proof (rule dir_next_last [OF t p k, of True])
    assume "cs = [] \<or> dir_size ss = 65536" and e: "dir_next True dp fs = Some (FR_NO_FILE, dp\<lparr>d_sect := 0\<rparr>, fs)"
    moreover have "keeps fs fs" using keeps_refl dir_tableD(4) [OF t] by blast
    ultimately show thesis using full [OF e _ _ keeps_wrote] cnt by (auto simp: dir_full_def)
  next
    fix dp1 fs1
    assume ne: "cs \<noteq> []" and sz: "Suc k = 16 * length ss" and lim: "dir_size ss < 65536"
      and d: "dp1 = dp\<lparr>d_sect := d_sect dp + 1\<rparr>" "d_clust dp = last cs"
      and g: "get_fat (last cs) fs = (fatmap fs (last cs), fs1)" and k1: "keeps fs fs1"
      and v: "\<not> fatmap fs (last cs) \<le> 1" "fatmap fs (last cs) \<noteq> 0xFFFFFFFF" "n_fatent fs1 \<le> fatmap fs (last cs)"
      and e: "dir_next True dp fs =
         (case next_cluster_of True dp1 fs of
            None \<Rightarrow> None
          | Some (Inl res, dp3, fs1) \<Rightarrow> Some (res, dp3, fs1)
          | Some (Inr clst, dp3, fs1) \<Rightarrow>
              Some (FR_OK, to_offset (of_nat (32 * Suc k)) (dp3\<lparr>d_clust := clst, d_sect := clst2sect fs1 clst\<rparr>), fs1))"
    have d1: "d_clust dp1 = last cs" by (simp add: d)
    note c1 = keeps_cfg [OF k1]
    note t1 = keeps_dir(1) [OF t k1]
    have f1: "fatmap fs1 = fatmap fs" by (rule keeps_fatmap [OF k1 dir_tableD(3) [OF t]])
    have n1: "n_fatent fs1 = n_fatent fs" "free_clst fs1 = free_clst fs" using cfgD [OF c1] by simp_all
    have s1: "free_set fs1 = free_set fs" by (simp add: free_set_def f1)
    have cnt1: "count_ok fs1" using cnt n1 s1 by (simp add: count_ok_def)
    have ds: "dir_start fs1 sc = dir_start fs sc" by (rule keeps_dir(4) [OF t k1])
    have ch1: "chain (fatmap fs1) (n_fatent fs1) (dir_start fs sc) cs"
      using t1 ne dir_tableD(9) [OF t1] ds by (auto simp: dir_table_def)
    have ones1: "fatmap fs1 x \<noteq> 1" if "2 \<le> x" "x < n_fatent fs1" for x using ones that f1 n1 by simp
    obtain r fs2 where cc: "create_chain (last cs) fs1 = Some (r, fs2)" and rdy: "fs_ready fs2" and cnt2: "count_ok fs2"
      and k2: "data_kept fs1 fs2"
      and r: "if free_set fs1 = {} then r = 0 \<and> fatmap fs2 = fatmap fs1
        else fatmap fs1 r = 0 \<and> 2 \<le> r \<and> r < n_fatent fs1 \<and> r \<notin> set cs \<and> fatmap fs2 = linked (last cs) r fs1 \<and>
          chain (fatmap fs2) (n_fatent fs2) (dir_start fs sc) (cs @ [r])"
      using chain_stretch [OF dir_tableD(1) [OF t1] cnt1 ones1 ch1] by blast
    have w2: "wrote_sects {} fs fs2"
      by (rule wrote_sects_trans [OF keeps_wrote [OF k1] data_kept_wrote [OF k2]]) simp_all
    have nx: "next_cluster_of True dp1 fs =
      (if r = 0 then Some (Inl FR_DENIED, dp1, fs2)
       else if r = 1 then Some (Inl FR_INT_ERR, dp1, fs2)
       else if r = 0xFFFFFFFF then Some (Inl FR_DISK_ERR, dp1, fs2)
       else (case dir_clear r fs2 of (res, fs3) \<Rightarrow> Some (if res \<noteq> FR_OK then Inl FR_DISK_ERR else Inr r, dp1, fs3)))"
      using g v d1 cc by (simp add: next_cluster_of_def)
    show thesis
    proof (cases "free_set fs1 = {}")
      case True
      then have "dir_next True dp fs = Some (FR_DENIED, dp1, fs2)" using e nx r by simp
      then show thesis using full [OF _ _ _ w2] r True f1 s1 cnt2 by (simp add: dir_full_def)
    next
      case False
      then have r': "fatmap fs1 r = 0" "2 \<le> r" "r < n_fatent fs1" "r \<notin> set cs" "fatmap fs2 = linked (last cs) r fs1"
        "chain (fatmap fs2) (n_fatent fs2) (dir_start fs sc) (cs @ [r])" using r by auto
      have l2: "layout fs2 = layout fs" using w2 by (simp add: wrote_sects_def)
      note ly = layout_sects [OF l2]
      have m2: "mounted fs2" "io_ok fs2" using rdy by (auto simp: mounted_ready)
      have g2: "data_geometry fs2" using ly(3) dir_tableD(2) [OF t] by simp
      have "\<not> (0xFFFFFFFF :: u32) < x" for x using unat_u32_less [of x] by (simp add: word_less_nat_alt)
      then have rr: "r \<noteq> 0" "r \<noteq> 1" "r \<noteq> 0xFFFFFFFF" "r < n_fatent fs2"
        using r'(2,3) data_kept_geometry(2) [OF k2] two_not_one by auto
      obtain fs3 where cl: "dir_clear r fs2 = (FR_OK, fs3)" and w3: "wrote_sects (set (cluster_sects fs2 r)) fs2 fs3"
        and c3: "cfg fs3 = cfg fs2" and f3: "fatmap fs3 = fatmap fs2" and m3: "mounted fs3"
        and z: "\<And>s. s \<in> set (cluster_sects fs2 r) \<Longrightarrow> view fs3 s = replicate 512 0"
        using dir_clear_cluster [OF m2 g2 r'(2) rr(4)] by metis
      have cle: "cluster_sects fs2 r = cluster_sects fs r"
        using ly(4,5) by (simp add: cluster_sects_def)
      have l3: "layout fs3 = layout fs" using cfg_layout [OF c3] l2 by simp
      define dp2 where "dp2 = to_offset (of_nat (32 * Suc k)) (dp1\<lparr>d_clust := r, d_sect := clst2sect fs3 r\<rparr>)"
      have E: "dir_next True dp fs = Some (FR_OK, dp2, fs3)" using e nx cl rr by (simp add: dp2_def)
      have "chain (fatmap fs3) (n_fatent fs3) (dir_start fs sc) (cs @ [r])"
        using r'(6) f3 layoutD(6) [OF l3] layoutD(6) [OF l2] by simp
      then have t3: "dir_table fs3 sc (cs @ [r]) (ss @ cluster_sects fs r)"
        using stretched_table [OF t ne l3] m3 by (simp add: mounted_def)
      have m0: "0 < unat (csize fs)" using data_geometryD(2) [OF dir_tableD(2) [OF t]] .
      have q: "Suc k div 16 = length ss" using sz by simp
      have "cluster_sects fs r ! 0 = clst2sect fs r" using m0 by (simp add: cluster_sects_def)
      moreover have "Suc k < dir_size (ss @ cluster_sects fs r)" using sz lim k m0 by (simp add: dir_size_def)
      moreover have "length ss div unat (csize fs) = length cs" using dir_tableD(10) [OF t ne] m0 by simp
      ultimately have p3: "dir_pos fs3 sc (cs @ [r]) (ss @ cluster_sects fs r) (Suc k) dp2"
        unfolding dp2_def using q layout_sects [OF l3] m0 d sc
        by (intro dir_posI) (simp_all add: nth_append)
      have ssf: "ss = file_sects fs cs" using t ne dir_tableD(9) [OF t] by (auto simp: dir_table_def)
      have dis: "set (cluster_sects fs r) \<inter> set ss = {}"
        using cluster_disjoint [OF dir_tableD(2,8) [OF t] r'(2) _ r'(4)] r'(3) n1 ssf by auto
      have W: "wrote_sects (set (cluster_sects fs r)) fs fs3"
        by (rule wrote_sects_trans [OF w2 w3]) (simp_all add: cle)
      have "free_clst fs3 = free_clst fs2" "n_fatent fs3 = n_fatent fs2" using cfgD [OF c3] by simp_all
      moreover have "free_set fs3 = free_set fs2" by (simp add: free_set_def f3)
      ultimately have cnt3: "count_ok fs3" using cnt2 by (simp add: count_ok_def)
      have "EOC fs1 = EOC fs" using cfgD(1) [OF c1] by (simp add: EOC_def)
      then have "linked (last cs) r fs1 = linked (last cs) r fs" by (simp add: linked_def f1)
      then show thesis
        using grown [OF E _ ne t3 p3 _ _ dis W _ cnt3] r' f1 f3 z cle k sz by (simp add: dp2_def d)
    qed
  qed
qed

subsection \<open>The free entry\<close>

lemma alloc_here:
  assumes t: "dir_table fs sc cs ss" and p: "dir_pos fs sc cs ss k dp"
  obtains fs1 where "keeps fs fs1"
    and "free_entry (dir_entry fs ss k) \<Longrightarrow> alloc_loop 1 0 dp fs = Some (FR_OK, dp, fs1)"
    and "\<not> free_entry (dir_entry fs ss k) \<Longrightarrow> alloc_loop 1 0 dp fs =
      (case dir_next True dp fs1 of
         None \<Rightarrow> None
       | Some (res, dp1, fs2) \<Rightarrow> if res = FR_OK then alloc_loop 1 0 dp1 fs2 else Some (res, dp1, fs2))"
proof -
  obtain fs1 where m: "move_window (d_sect dp) fs = (FR_OK, fs1)" and k1: "keeps fs fs1"
    and b: "dir_byte dp fs1 0 = dir_entry fs ss k ! 0"
    using move_to_entry [OF t p] by (metis zero_less_numeral)
  have u: "alloc_loop 1 0 dp fs =
    (if free_entry (dir_entry fs ss k) then Some (FR_OK, dp, fs1)
     else (case dir_next True dp fs1 of
         None \<Rightarrow> None
       | Some (res, dp1, fs2) \<Rightarrow> if res = FR_OK then alloc_loop 1 0 dp1 fs2 else Some (res, dp1, fs2)))"
    by (subst alloc_loop.simps) (simp add: m b free_entry_def)
  show thesis by (rule that [OF k1]) (simp_all only: u if_True if_False)
qed

lemma alloc_walk:
  assumes "dir_table fs sc cs ss" and "dir_pos fs sc cs ss k dp"
  shows "(\<exists>j dp' fs'. k \<le> j \<and> (\<forall>i. k \<le> i \<and> i < j \<longrightarrow> \<not> free_entry (dir_entry fs ss i)) \<and> free_entry (dir_entry fs ss j) \<and>
      alloc_loop 1 0 dp fs = Some (FR_OK, dp', fs') \<and> keeps fs fs' \<and> dir_pos fs sc cs ss j dp' \<and> d_fn dp' = d_fn dp) \<or>
    (\<exists>dp1 fs1. (\<forall>i. k \<le> i \<and> i < dir_size ss \<longrightarrow> \<not> free_entry (dir_entry fs ss i)) \<and>
      keeps fs fs1 \<and> dir_pos fs sc cs ss (dir_size ss - 1) dp1 \<and> d_fn dp1 = d_fn dp \<and>
      alloc_loop 1 0 dp fs = (case dir_next True dp1 fs1 of
         None \<Rightarrow> None
       | Some (res, dp2, fs2) \<Rightarrow> if res = FR_OK then alloc_loop 1 0 dp2 fs2 else Some (res, dp2, fs2)))"
  using assms
proof (induction "dir_size ss - k" arbitrary: k dp fs)
  case 0
  then show ?case by (simp add: dir_pos_def)
next
  case (Suc n)
  note t = Suc.prems(1) and p = Suc.prems(2)
  have kl: "k < dir_size ss" using p by (simp add: dir_pos_def)
  obtain fs1 where k1: "keeps fs fs1"
    and fr: "free_entry (dir_entry fs ss k) \<Longrightarrow> alloc_loop 1 0 dp fs = Some (FR_OK, dp, fs1)"
    and nf: "\<not> free_entry (dir_entry fs ss k) \<Longrightarrow> alloc_loop 1 0 dp fs =
      (case dir_next True dp fs1 of
         None \<Rightarrow> None
       | Some (res, dp1, fs2) \<Rightarrow> if res = FR_OK then alloc_loop 1 0 dp1 fs2 else Some (res, dp1, fs2))"
    by (rule alloc_here [OF t p]) blast
  show ?case
  proof (cases "free_entry (dir_entry fs ss k)")
    case True
    have "\<not> (k \<le> i \<and> i < k)" for i by simp
    then show ?thesis using True fr [OF True] k1 p by blast
  next
    case False
    note nf = nf [OF False]
    show ?thesis
    proof (cases "Suc k < dir_size ss")
      case True
      note t1 = keeps_dir(1) [OF t k1]
      have p1: "dir_pos fs1 sc cs ss k dp" using p keeps_dir(3) [OF t k1] by simp
      obtain dp2 fs2 where nx: "dir_next True dp fs1 = Some (FR_OK, dp2, fs2)" and k2: "keeps fs1 fs2"
        and p2: "dir_pos fs2 sc cs ss (Suc k) dp2" and fn: "d_fn dp2 = d_fn dp"
        using dir_next_inside [OF t1 p1 True] by metis
      have k02: "keeps fs fs2" using keeps_trans k1 k2 by blast
      have ee: "dir_entry fs2 ss i = dir_entry fs ss i" if "i < dir_size ss" for i
        using keeps_dir(2) [OF t k02] that by (metis dir_entries_nth)
      have A: "alloc_loop 1 0 dp fs = alloc_loop 1 0 dp2 fs2" using nf nx by simp
      have sp: "(\<forall>i. k \<le> i \<and> i < j \<longrightarrow> Q i) \<longleftrightarrow> Q k \<and> (\<forall>i. Suc k \<le> i \<and> i < j \<longrightarrow> Q i)" if "k < j" for Q j
        using that by (metis Suc_le_eq le_eq_less_or_eq)
      have "n = dir_size ss - Suc k" using Suc.hyps(2) by simp
      from Suc.hyps(1) [OF this keeps_dir(1) [OF t k02] p2] show ?thesis
      proof (elim disjE exE conjE)
        fix j dp' fs' assume j: "Suc k \<le> j" "\<forall>i. Suc k \<le> i \<and> i < j \<longrightarrow> \<not> free_entry (dir_entry fs2 ss i)"
          "free_entry (dir_entry fs2 ss j)" "alloc_loop 1 0 dp2 fs2 = Some (FR_OK, dp', fs')" "keeps fs2 fs'"
          "dir_pos fs2 sc cs ss j dp'" "d_fn dp' = d_fn dp2"
        have jl: "j < dir_size ss" using j(6) by (simp add: dir_pos_def)
        have "\<forall>i. k \<le> i \<and> i < j \<longrightarrow> \<not> free_entry (dir_entry fs ss i)"
          using j(1,2) ee jl False by (subst sp) auto
        then show ?thesis using j A keeps_trans [OF k02 j(5)] keeps_dir(3) [OF t k02] ee [OF jl] fn
          by (intro disjI1 exI [of _ j] exI [of _ dp'] exI [of _ fs']) simp
      next
        fix dp1 fs1' assume j: "\<forall>i. Suc k \<le> i \<and> i < dir_size ss \<longrightarrow> \<not> free_entry (dir_entry fs2 ss i)"
          "keeps fs2 fs1'" "dir_pos fs2 sc cs ss (dir_size ss - 1) dp1" "d_fn dp1 = d_fn dp2"
          "alloc_loop 1 0 dp2 fs2 = (case dir_next True dp1 fs1' of
             None \<Rightarrow> None
           | Some (res, dp2, fs2) \<Rightarrow> if res = FR_OK then alloc_loop 1 0 dp2 fs2 else Some (res, dp2, fs2))"
        have "\<forall>i. k \<le> i \<and> i < dir_size ss \<longrightarrow> \<not> free_entry (dir_entry fs ss i)"
          using j(1) ee kl False by (subst sp) auto
        then show ?thesis using j A keeps_trans [OF k02 j(2)] keeps_dir(3) [OF t k02] fn
          by (intro disjI2 exI [of _ dp1] exI [of _ fs1']) simp
      qed
    next
      case last: False
      then have kk: "k = dir_size ss - 1" using kl by simp
      have "\<not> free_entry (dir_entry fs ss i)" if "k \<le> i" "i < dir_size ss" for i
        using that False kk by (cases "i = k") auto
      then show ?thesis using k1 p kk nf by (intro disjI2 exI [of _ dp] exI [of _ fs1]) simp
    qed
  qed
qed

subsection \<open>The name goes in\<close>

lemma put_name:
  assumes t: "dir_table fs sc cs ss" and p: "dir_pos fs sc cs ss k dp" and n: "length (take 11 (d_fn dp)) = 11"
  shows "\<exists>fs'. (case move_window (d_sect dp) fs of
       (res, fs2) \<Rightarrow>
         if res = FR_OK then
           Some (res, dp, (win_put (d_ofs dp) (take 11 (d_fn dp)) (win_put (d_ofs dp) (replicate 32 0) fs2))\<lparr>wflag := True\<rparr>)
         else Some (res, dp, fs2)) = Some (FR_OK, dp, fs') \<and> dir_table fs' sc cs ss \<and>
    dir_entries fs' ss = (dir_entries fs ss)[k := take 11 (d_fn dp) @ replicate 21 0] \<and>
    wrote_sects (set ss) fs fs' \<and> fatmap fs' = fatmap fs \<and> cfg fs' = cfg fs"
proof -
  define nm where "nm = take 11 (d_fn dp)"
  obtain fs1 where m: "move_window (d_sect dp) fs = (FR_OK, fs1)" and k1: "keeps fs fs1" and w: "winsect fs1 = ss ! (k div 16)"
    using move_to_entry [OF t p] by metis
  have k: "k < dir_size ss" "d_ofs dp = 32 * (k mod 16) + 0" using p by (auto simp: dir_pos_def)
  have l: "length nm = 11" using n by (simp add: nm_def)
  note t1 = keeps_dir(1) [OF t k1] and e1 = keeps_dir(2) [OF t k1]
  define fs2 where "fs2 = (win_put (d_ofs dp) (replicate 32 0) fs1)\<lparr>wflag := True\<rparr>"
  define fs3 where "fs3 = (win_put (d_ofs dp) nm fs2)\<lparr>wflag := True\<rparr>"
  have "0 + length (replicate 32 (0 :: u8)) \<le> 32" by simp
  note u = put_entry [OF t1 w k(1) this, folded k(2), folded fs2_def]
  have "0 + length nm \<le> 32" using l by simp
  note v = put_entry [OF u(1) u(6) [THEN trans, OF w] k(1) this, folded k(2), folded fs3_def]
  have z: "put_at 0 (replicate 32 0) (dir_entry fs1 ss k) = replicate 32 0"
    using dir_entry_length(2) [OF t1, of k] by (simp add: put_at_def)
  have "dir_entry fs2 ss k = replicate 32 0" using u(2) z k(1) by (metis dir_entries_nth length_dir_entries nth_list_update_eq)
  moreover have "put_at 0 nm (replicate 32 0) = nm @ replicate 21 0" using l by (simp add: put_at_def)
  ultimately have e3: "dir_entries fs3 ss = (dir_entries fs ss)[k := nm @ replicate 21 0]" using v(2) u(2) e1 by simp
  have s: "{ss ! (k div 16)} \<subseteq> set ss" using dir_size_sect [OF k(1)] by simp
  have "wrote_sects (set ss) fs fs2" by (rule wrote_sects_trans [OF keeps_wrote [OF k1] u(3) empty_subsetI s])
  then have "wrote_sects (set ss) fs fs3" by (rule wrote_sects_trans [OF _ v(3) subset_refl s])
  moreover have "fatmap fs3 = fatmap fs" using v(5) u(5) keeps_fatmap [OF k1 dir_tableD(3) [OF t]] by simp
  moreover have "cfg fs3 = cfg fs" using v(4) u(4) keeps_cfg [OF k1] by simp
  moreover have "(win_put (d_ofs dp) nm (win_put (d_ofs dp) (replicate 32 0) fs1))\<lparr>wflag := True\<rparr> = fs3"
    by (simp add: fs3_def fs2_def win_put_def)
  ultimately show ?thesis using m v(1) e3 by (simp add: nm_def)
qed

lemma keeps_alloc:
  assumes "geometry fs" and "keeps fs fs'" and "alloc_fine fs"
  shows "alloc_fine fs'" "free_set fs' = free_set fs" "dir_full fs' cs ss = dir_full fs cs ss" "linked c n fs' = linked c n fs"
proof -
  note c = cfgD [OF keeps_cfg [OF assms(2)]]
  have f: "fatmap fs' = fatmap fs" by (rule keeps_fatmap [OF assms(2,1)])
  then show s: "free_set fs' = free_set fs" by (simp add: free_set_def)
  show "alloc_fine fs'" using assms(3) c f s by (simp add: alloc_fine_def count_ok_def)
  show "dir_full fs' cs ss = dir_full fs cs ss" by (simp add: dir_full_def s)
  show "linked c n fs' = linked c n fs" using c(1) f by (simp add: linked_def EOC_def)
qed

text \<open>What \<open>dir_register\<close> does after the reservation.\<close>

definition finish_entry :: "FRESULT \<times> dirobj \<times> fatfs \<Rightarrow> FRESULT \<times> dirobj \<times> fatfs" where
  "finish_entry S =
     (case S of (res, dp, fs) \<Rightarrow>
        if res = FR_OK then
          (case move_window (d_sect dp) fs of
             (res, fs2) \<Rightarrow>
               if res = FR_OK then
                 (res, dp, (win_put (d_ofs dp) (take 11 (d_fn dp)) (win_put (d_ofs dp) (replicate 32 0) fs2))\<lparr>wflag := True\<rparr>)
               else (res, dp, fs2))
        else (if res = FR_NO_FILE then FR_DENIED else res, dp, fs))"

lemma dir_register_eq:
  assumes "dir_sdi 0 dp fs = Some (FR_OK, dp1, fs)"
  shows "dir_register dp fs = map_option finish_entry (alloc_loop 1 0 dp1 fs)"
  using assms by (auto simp: dir_register_def dir_alloc_def finish_entry_def split: option.splits prod.splits)

lemma finish_at_free:
  assumes t: "dir_table fs sc cs ss" and w: "dir_wf (dir_entries fs ss)" and c: "count_ok fs"
    and n: "real_name (take 11 (d_fn dp))" and new: "dir_map (dir_entries fs ss) (take 11 (d_fn dp)) = None"
    and p: "dir_pos fs sc cs ss k dp" and f: "free_entry (dir_entry fs ss k)"
    and b: "\<And>i. i < k \<Longrightarrow> \<not> free_entry (dir_entry fs ss i)"
  obtains fs' where "finish_entry (FR_OK, dp, fs) = (FR_OK, dp, fs')" and "dir_table fs' sc cs ss"
    and "dir_wf (dir_entries fs' ss)" and "wrote_sects (set ss) fs fs'" and "fatmap fs' = fatmap fs" and "count_ok fs'"
    and "dir_map (dir_entries fs' ss) = (dir_map (dir_entries fs ss))(take 11 (d_fn dp) \<mapsto> take 11 (d_fn dp) @ replicate 21 0)"
proof -
  have k: "k < dir_size ss" using p by (simp add: dir_pos_def)
  have l: "length (take 11 (d_fn dp)) = 11" using n by (simp add: real_name_def)
  from put_name [OF t p l] obtain fs' where e: "finish_entry (FR_OK, dp, fs) = (FR_OK, dp, fs')"
    and t2: "dir_table fs' sc cs ss" and e2: "dir_entries fs' ss = (dir_entries fs ss)[k := take 11 (d_fn dp) @ replicate 21 0]"
    and wr: "wrote_sects (set ss) fs fs'" and fm: "fatmap fs' = fatmap fs" and cf: "cfg fs' = cfg fs"
    by (auto simp: finish_entry_def split: prod.splits if_splits)
  have "k < length (dir_entries fs ss)" using k by simp
  note ins = dir_insert [OF w this _ _ n new, simplified]
  have "free_set fs' = free_set fs" by (simp add: free_set_def fm)
  then have "count_ok fs'" using c cfgD(7,9) [OF cf] by (simp add: count_ok_def)
  then show thesis using that [OF e t2 _ wr fm] ins f b k by (simp add: e2)
qed

lemma register_free:
  assumes t: "dir_table fs sc cs ss" and w: "dir_wf (dir_entries fs ss)" and a: "alloc_fine fs"
    and n: "real_name (take 11 (d_fn dp))" and new: "dir_map (dir_entries fs ss) (take 11 (d_fn dp)) = None"
    and j: "\<And>i. i < j \<Longrightarrow> \<not> free_entry (dir_entry fs ss i)" "free_entry (dir_entry fs ss j)"
    and k: "keeps fs fs1" and p: "dir_pos fs sc cs ss j dp"
  obtains fs' where "finish_entry (FR_OK, dp, fs1) = (FR_OK, dp, fs')" and "dir_table fs' sc cs ss"
    and "dir_wf (dir_entries fs' ss)" and "wrote_sects (set ss) fs fs'" and "fatmap fs' = fatmap fs" and "count_ok fs'"
    and "dir_map (dir_entries fs' ss) = (dir_map (dir_entries fs ss))(take 11 (d_fn dp) \<mapsto> take 11 (d_fn dp) @ replicate 21 0)"
proof -
  have g: "geometry fs" by (rule dir_tableD(3) [OF t])
  note t1 = keeps_dir(1) [OF t k] and e1 = keeps_dir(2) [OF t k]
  have ee: "dir_entry fs1 ss i = dir_entry fs ss i" if "i \<le> j" for i
    using e1 that p by (metis dir_entries_nth dir_pos_def order.strict_trans1)
  have c: "count_ok fs1" using keeps_alloc(1) [OF g k a] by (simp add: alloc_fine_def)
  have p1: "dir_pos fs1 sc cs ss j dp" using p keeps_dir(3) [OF t k] by simp
  show thesis
    by (rule finish_at_free [OF t1 w [folded e1] c n new [folded e1] p1])
      (use j ee that keeps_fatmap [OF k g] wrote_sects_trans [OF keeps_wrote [OF k] _ empty_subsetI subset_refl] e1 in auto)
qed

lemma register_stretch:
  assumes t: "dir_table fs sc cs ss" and w: "dir_wf (dir_entries fs ss)" and a: "alloc_fine fs"
    and n: "real_name (take 11 (d_fn dp))" and new: "dir_map (dir_entries fs ss) (take 11 (d_fn dp)) = None"
    and nf: "\<And>i. i < dir_size ss \<Longrightarrow> \<not> free_entry (dir_entry fs ss i)" and p: "dir_pos fs sc cs ss (dir_size ss - 1) dp"
  obtains (full) r dp' fs' where "dir_next True dp fs = Some (r, dp', fs')" and "r \<in> {FR_NO_FILE, FR_DENIED}"
      and "dir_full fs cs ss" and "wrote_sects {} fs fs'" and "fatmap fs' = fatmap fs" and "count_ok fs'"
    | (grown) r dp3 fs2 fs3 fs' ss' where "dir_next True dp fs = Some (FR_OK, dp3, fs2)"
      and "alloc_loop 1 0 dp3 fs2 = Some (FR_OK, dp3, fs3)" and "finish_entry (FR_OK, dp3, fs3) = (FR_OK, dp3, fs')"
      and "\<not> dir_full fs cs ss" and "dir_table fs' sc (cs @ [r]) ss'" and "dir_wf (dir_entries fs' ss')"
      and "wrote_sects (set ss') fs fs'" and "fatmap fs r = 0" and "fatmap fs' = linked (last cs) r fs" and "count_ok fs'"
      and "dir_map (dir_entries fs' ss') = (dir_map (dir_entries fs ss))(take 11 (d_fn dp) \<mapsto> take 11 (d_fn dp) @ replicate 21 0)"
proof -
  have last: "Suc (dir_size ss - 1) = dir_size ss" using p by (simp add: dir_pos_def)
  show thesis
  proof (rule dir_next_stretch [OF t p last a])
    fix r dp' fs'
    assume "dir_next True dp fs = Some (r, dp', fs')" "r \<in> {FR_NO_FILE, FR_DENIED}" "dir_full fs cs ss"
      "wrote_sects {} fs fs'" "fatmap fs' = fatmap fs" "count_ok fs'"
    then show thesis by (rule full)
  next
    fix r dp3 fs2
    define ss' where "ss' = ss @ cluster_sects fs r"
    define es' where "es' = dir_entries fs ss @ replicate (dir_size ss' - dir_size ss) (replicate 32 0)"
    assume nx: "dir_next True dp fs = Some (FR_OK, dp3, fs2)" and r0: "fatmap fs r = 0" and ne: "cs \<noteq> []"
      and t2: "dir_table fs2 sc (cs @ [r]) (ss @ cluster_sects fs r)"
      and p2: "dir_pos fs2 sc (cs @ [r]) (ss @ cluster_sects fs r) (Suc (dir_size ss - 1)) dp3"
      and fn: "d_fn dp3 = d_fn dp" and sz: "dir_size ss = 16 * length ss" and dis: "set (cluster_sects fs r) \<inter> set ss = {}"
      and wr: "wrote_sects (set (cluster_sects fs r)) fs fs2" and f2: "fatmap fs2 = linked (last cs) r fs"
      and cnt: "count_ok fs2" and z: "\<And>s. s \<in> set (cluster_sects fs r) \<Longrightarrow> view fs2 s = replicate 512 0"
    note t2 = t2 [folded ss'_def] and p2 = p2 [folded ss'_def, unfolded last]
    have v: "view fs2 s = view fs s" if "s \<in> set ss" for s
      using wr dis dir_table_sect [OF t that] that by (auto simp: wrote_sects_def dir_area_def)
    have e2: "dir_entries fs2 ss' = es'"
      using stretched_entries [OF t t2 [unfolded ss'_def] v z sz] by (simp add: ss'_def es'_def)
    have kl: "dir_size ss < dir_size ss'" using p2 by (simp add: dir_pos_def)
    have nfe: "\<not> free_entry e" if "e \<in> set (dir_entries fs ss)" for e using nf that by (auto simp: in_set_conv_nth)
    note zt = zero_tail [OF w nfe, where m = "dir_size ss' - dir_size ss", folded es'_def]
    have en: "dir_entry fs2 ss' i = es' ! i" if "i < dir_size ss'" for i using e2 that by (metis dir_entries_nth)
    have fe: "free_entry (dir_entry fs2 ss' (dir_size ss))"
      using en [OF kl] kl by (simp add: es'_def nth_append free_entry_def)
    have be: "\<not> free_entry (dir_entry fs2 ss' i)" if "i < dir_size ss" for i
      using en [of i] kl that nf by (simp add: es'_def nth_append)
    obtain fs3 where k3: "keeps fs2 fs3" and al3: "alloc_loop 1 0 dp3 fs2 = Some (FR_OK, dp3, fs3)"
      using alloc_here [OF t2 p2] fe by metis
    have c3: "count_ok fs3" using cnt keeps_fatmap [OF k3 dir_tableD(3) [OF t2]] cfgD(7,9) [OF keeps_cfg [OF k3]]
      by (simp add: count_ok_def free_set_def)
    note t3 = keeps_dir(1) [OF t2 k3] and e3 = keeps_dir(2) [OF t2 k3]
    have p3: "dir_pos fs3 sc (cs @ [r]) ss' (dir_size ss) dp3" using p2 keeps_dir(3) [OF t2 k3] by simp
    have ee: "dir_entry fs3 ss' i = dir_entry fs2 ss' i" if "i \<le> dir_size ss" for i
      using e3 that kl by (metis dir_entries_nth order.strict_trans1)
    have fr: "free_entry (dir_entry fs3 ss' (dir_size ss))" "\<And>i. i < dir_size ss \<Longrightarrow> \<not> free_entry (dir_entry fs3 ss' i)"
      using fe be ee by auto
    have w3: "dir_wf (dir_entries fs3 ss')" "dir_map (dir_entries fs3 ss') = dir_map (dir_entries fs ss)"
      using zt e3 e2 by simp_all
    have new3: "dir_map (dir_entries fs3 ss') (take 11 (d_fn dp3)) = None" using new w3(2) fn by simp
    obtain fs' where rg: "finish_entry (FR_OK, dp3, fs3) = (FR_OK, dp3, fs')" and t4: "dir_table fs' sc (cs @ [r]) ss'"
      and w4: "dir_wf (dir_entries fs' ss')" and wr4: "wrote_sects (set ss') fs3 fs'" and f4: "fatmap fs' = fatmap fs3"
      and c4: "count_ok fs'"
      and m4: "dir_map (dir_entries fs' ss') =
        (dir_map (dir_entries fs3 ss'))(take 11 (d_fn dp3) \<mapsto> take 11 (d_fn dp3) @ replicate 21 0)"
      by (rule finish_at_free [OF t3 w3(1) c3 _ new3 p3 fr]) (use n fn in auto)
    have W: "wrote_sects (set ss') fs fs'"
      by (rule wrote_sects_trans [OF wr wrote_sects_trans [OF keeps_wrote [OF k3] wr4 empty_subsetI subset_refl]])
        (auto simp: ss'_def)
    have f: "fatmap fs' = linked (last cs) r fs" using f4 keeps_fatmap [OF k3 dir_tableD(3) [OF t2]] f2 by simp
    have "free_set fs \<noteq> {}" using r0 by (auto simp: free_set_def)
    moreover have "dir_size ss < 65536" using kl by (simp add: dir_size_def)
    ultimately have nfull: "\<not> dir_full fs cs ss" using ne by (simp add: dir_full_def)
    show thesis using grown [OF nx al3 rg nfull t4 w4 W r0 f c4] m4 w3(2) fn by simp
  qed
qed

text \<open>
  C4: registering a name that a directory does not have inserts it into the map that the
  directory stands for, with a cleared entry, and changes nothing else: the entry is a free one,
  or the first of a free cluster that the chain of the directory is stretched by. It is refused
  exactly when no entry is free and the directory is a root area, has 65536 entries, or no
  cluster is free; then the directory is as it was.
\<close>

theorem dir_register_inserts:
  assumes "dir_table fs (d_sclust dp) cs ss" and "dir_wf (dir_entries fs ss)" and "real_name (take 11 (d_fn dp))"
    and "dir_map (dir_entries fs ss) (take 11 (d_fn dp)) = None" and "alloc_fine fs"
  shows "\<exists>r dp' fs' cs' ss'. dir_register dp fs = Some (r, dp', fs') \<and> dir_table fs' (d_sclust dp) cs' ss' \<and>
    dir_wf (dir_entries fs' ss') \<and> count_ok fs' \<and> wrote_sects (set ss') fs fs' \<and>
    (if (\<forall>e \<in> set (dir_entries fs ss). \<not> free_entry e) \<and> dir_full fs cs ss
     then r = FR_DENIED \<and> ss' = ss \<and> dir_entries fs' ss = dir_entries fs ss \<and> fatmap fs' = fatmap fs
     else r = FR_OK \<and> dir_map (dir_entries fs' ss') =
         (dir_map (dir_entries fs ss))(take 11 (d_fn dp) \<mapsto> take 11 (d_fn dp) @ replicate 21 0) \<and>
       (cs' = cs \<and> fatmap fs' = fatmap fs \<or>
        (\<exists>c. cs' = cs @ [c] \<and> fatmap fs c = 0 \<and> fatmap fs' = linked (last cs) c fs)))"
proof -
  define sc where "sc = d_sclust dp"
  note t = assms(1) [folded sc_def] and w = assms(2) and n = assms(3) and new = assms(4) and a = assms(5)
  have g: "geometry fs" by (rule dir_tableD(3) [OF t])
  obtain dp1 where s: "dir_sdi 0 dp fs = Some (FR_OK, dp1, fs)" and p: "dir_pos fs sc cs ss 0 dp1"
    and fn1: "d_fn dp1 = d_fn dp" using dir_start_first [OF t sc_def [symmetric]] by metis
  note reg = dir_register_eq [OF s]
  from alloc_walk [OF t p] show ?thesis
  proof (elim disjE exE conjE)
    fix j dp' fs1
    assume j: "\<forall>i. 0 \<le> i \<and> i < j \<longrightarrow> \<not> free_entry (dir_entry fs ss i)" "free_entry (dir_entry fs ss j)"
      and al: "alloc_loop 1 0 dp1 fs = Some (FR_OK, dp', fs1)" and k: "keeps fs fs1"
      and p': "dir_pos fs sc cs ss j dp'" and fn: "d_fn dp' = d_fn dp1"
    have "j < length (dir_entries fs ss)" using p' by (simp add: dir_pos_def)
    then have nf: "\<not> (\<forall>e \<in> set (dir_entries fs ss). \<not> free_entry e)" using j(2) by (metis dir_entries_nth length_dir_entries nth_mem)
    obtain fs' where "finish_entry (FR_OK, dp', fs1) = (FR_OK, dp', fs')" "dir_table fs' sc cs ss"
      "dir_wf (dir_entries fs' ss)" "wrote_sects (set ss) fs fs'" "fatmap fs' = fatmap fs" "count_ok fs'"
      "dir_map (dir_entries fs' ss) = (dir_map (dir_entries fs ss))(take 11 (d_fn dp) \<mapsto> take 11 (d_fn dp) @ replicate 21 0)"
      by (rule register_free [OF t w a _ _ _ j(2) k p']) (use n new j(1) fn fn1 in auto)
    then show ?thesis using al reg nf unfolding sc_def by - (rule exI [of _ FR_OK], rule exI [of _ dp'], rule exI [of _ fs'], rule exI [of _ cs], rule exI [of _ ss], simp)
  next
    fix dp2 fs1
    assume nf: "\<forall>i. 0 \<le> i \<and> i < dir_size ss \<longrightarrow> \<not> free_entry (dir_entry fs ss i)" and k: "keeps fs fs1"
      and p': "dir_pos fs sc cs ss (dir_size ss - 1) dp2" and fn: "d_fn dp2 = d_fn dp1"
      and al: "alloc_loop 1 0 dp1 fs = (case dir_next True dp2 fs1 of
         None \<Rightarrow> None
       | Some (res, dp2, fs2) \<Rightarrow> if res = FR_OK then alloc_loop 1 0 dp2 fs2 else Some (res, dp2, fs2))"
    note t1 = keeps_dir(1) [OF t k] and e1 = keeps_dir(2) [OF t k] and ka = keeps_alloc [OF g k a]
    have f1: "fatmap fs1 = fatmap fs" by (rule keeps_fatmap [OF k g])
    have p1: "dir_pos fs1 sc cs ss (dir_size ss - 1) dp2" using p' keeps_dir(3) [OF t k] by simp
    have nf1: "\<not> free_entry (dir_entry fs1 ss i)" if "i < dir_size ss" for i
      using nf e1 that by (metis dir_entries_nth zero_le)
    have all: "\<forall>e \<in> set (dir_entries fs ss). \<not> free_entry e" using nf by (auto simp: in_set_conv_nth)
    have fn2: "d_fn dp2 = d_fn dp" using fn fn1 by simp
    note kw = wrote_sects_trans [OF keeps_wrote [OF k] _ empty_subsetI subset_refl]
    show ?thesis
    proof (rule register_stretch [OF t1 w [folded e1] ka(1) n [folded fn2] new [folded e1 fn2] nf1 p1])
      fix r dp' fs'
      assume "dir_next True dp2 fs1 = Some (r, dp', fs')" "r \<in> {FR_NO_FILE, FR_DENIED}" "dir_full fs1 cs ss"
        and wf: "wrote_sects {} fs1 fs'" "fatmap fs' = fatmap fs1" and "count_ok fs'"
      moreover from this have "dir_register dp fs = Some (FR_DENIED, dp', fs')" using al reg by (auto simp: finish_entry_def)
      ultimately show ?thesis
        using wrote_table [OF t1 wf] wrote_sects_mono [OF kw [OF wf(1)] empty_subsetI, of "set ss"] e1 f1 w all ka(3) unfolding sc_def
        by - (rule exI [of _ FR_DENIED], rule exI [of _ dp'], rule exI [of _ fs'], rule exI [of _ cs], rule exI [of _ ss], simp)
    next
      fix r dp3 fs2 fs3 fs' ss'
      assume "dir_next True dp2 fs1 = Some (FR_OK, dp3, fs2)" "alloc_loop 1 0 dp3 fs2 = Some (FR_OK, dp3, fs3)"
        "finish_entry (FR_OK, dp3, fs3) = (FR_OK, dp3, fs')" "\<not> dir_full fs1 cs ss" "dir_table fs' sc (cs @ [r]) ss'"
        "dir_wf (dir_entries fs' ss')" "wrote_sects (set ss') fs1 fs'" "fatmap fs1 r = 0" "fatmap fs' = linked (last cs) r fs1"
        "count_ok fs'" "dir_map (dir_entries fs' ss') =
          (dir_map (dir_entries fs1 ss))(take 11 (d_fn dp2) \<mapsto> take 11 (d_fn dp2) @ replicate 21 0)"
      then show ?thesis
        using al reg kw [of "set ss'" fs'] e1 f1 fn2 ka(3,4) unfolding sc_def
        by - (rule exI [of _ FR_OK], rule exI [of _ dp3], rule exI [of _ fs'], rule exI [of _ "cs @ [r]"], rule exI [of _ ss'], simp)
    qed
  qed
qed

lemma demo_root_alloc: "alloc_fine (demo_root [])"
proof -
  have "(\<lambda>s :: u32. if s = 3 then [] @ replicate (512 - length []) 0 else replicate 512 (0 :: u8)) = (\<lambda>_. replicate 512 0)"
    by auto
  then have e: "demo_root [] = demo_fs FS_FAT16" unfolding demo_root_def by (simp add: demo_fs_def)
  show ?thesis by (simp add: e alloc_fine_def count_ok_def demo_fatmap)
qed

theorem dir_register_inserts_witness:
  "\<exists>dp' fs' ss'. dir_register demo_dir (demo_root []) = Some (FR_OK, dp', fs') \<and>
    dir_map (dir_entries fs' ss') demo_name = Some (demo_name @ replicate 21 0)"
proof -
  have t: "dir_table (demo_root []) (d_sclust demo_dir) [] [3]" using demo_root_table [of "[]"] demo_name by simp
  have "replicate 32 0 \<in> set (dir_entries (demo_root []) [3])" using demo_root_entries [of "[]"] by simp
  moreover have "free_entry (replicate 32 0)" by (simp add: free_entry_def)
  ultimately have nf: "(\<forall>e \<in> set (dir_entries (demo_root []) [3]). \<not> free_entry e) = False" by blast
  note d = dir_register_inserts [OF t, unfolded demo_name(2) nf, OF demo_root_wf(3) demo_name(1) demo_root_wf(4) demo_root_alloc]
  then obtain dp' fs' ss' where "dir_register demo_dir (demo_root []) = Some (FR_OK, dp', fs')"
    "dir_map (dir_entries fs' ss') = (dir_map (dir_entries (demo_root []) [3]))(demo_name \<mapsto> demo_name @ replicate 21 0)"
    by (simp only: simp_thms if_False) blast
  then show ?thesis by (metis fun_upd_same)
qed

end
