(* ===== verification/FatFs_Share.thy ===== *)
theory FatFs_Share
  imports FatFs
begin

text \<open>
  The table of open files of \<open>ff.c\<close> (\<open>FF_FS_LOCK\<close>): one entry for each object that is open, by
  the cluster of its directory and its offset there, with the number of those who read it or
  0x100 for a writer. There is one volume, so the pointer to it is null or not (\<open>f_used\<close>).
\<close>

record filesem =
  f_used :: bool
  f_clu :: u32
  f_ofs :: u32
  f_ctr :: u32

text \<open>The access: 0 to read, 1 to write, 2 to delete or rename.\<close>

definition f_is :: "u32 \<times> u32 \<Rightarrow> filesem \<Rightarrow> bool" where
  "f_is obj e \<longleftrightarrow> f_used e \<and> (f_clu e, f_ofs e) = obj"

definition find_index :: "('a \<Rightarrow> bool) \<Rightarrow> 'a list \<Rightarrow> nat" where
  "find_index P xs = length (takeWhile (\<lambda>x. \<not> P x) xs)"

definition chk_share :: "u32 \<times> u32 \<Rightarrow> nat \<Rightarrow> filesem list \<Rightarrow> FRESULT" where
  "chk_share obj acc Files =
     (let i = find_index (f_is obj) Files; be = (\<exists>e \<in> set Files. \<not> f_used e)
      in if i = length Files then (if \<not> be \<and> acc \<noteq> 2 then FR_TOO_MANY_OPEN_FILES else FR_OK)
         else if acc \<noteq> 0 \<or> f_ctr (Files ! i) = 0x100 then FR_LOCKED else FR_OK)"

definition enq_share :: "filesem list \<Rightarrow> bool" where
  "enq_share Files \<longleftrightarrow> find_index (\<lambda>e. \<not> f_used e) Files \<noteq> length Files"

text \<open>The index of the entry, counted from 1; 0 is an internal error.\<close>

definition inc_entry :: "nat \<Rightarrow> nat \<Rightarrow> filesem list \<Rightarrow> nat \<times> filesem list" where
  "inc_entry i acc Files =
     (if acc \<ge> 1 \<and> f_ctr (Files ! i) \<noteq> 0 then (0, Files)
      else (i + 1, Files[i := (Files ! i)\<lparr>f_ctr := (if acc \<noteq> 0 then 0x100 else f_ctr (Files ! i) + 1)\<rparr>]))"

definition inc_share :: "u32 \<times> u32 \<Rightarrow> nat \<Rightarrow> filesem list \<Rightarrow> nat \<times> filesem list" where
  "inc_share obj acc Files =
     (let i = find_index (f_is obj) Files
      in if i = length Files then
           (let i = find_index (\<lambda>e. \<not> f_used e) Files
            in if i = length Files then (0, Files)
               else inc_entry i acc
                      (Files[i := \<lparr>f_used = True, f_clu = fst obj, f_ofs = snd obj, f_ctr = 0\<rparr>]))
         else inc_entry i acc Files)"

definition dec_share :: "nat \<Rightarrow> filesem list \<Rightarrow> FRESULT \<times> filesem list" where
  "dec_share i Files =
     (if i \<noteq> 0 \<and> i - 1 < length Files then
        (let n = f_ctr (Files ! (i - 1));
             n = (if n = 0x100 then 0 else n);
             n = (if n > 0 then n - 1 else n)
         in (FR_OK, Files[i - 1 := (Files ! (i - 1))\<lparr>f_ctr := n, f_used := (n \<noteq> 0 \<and> f_used (Files ! (i - 1)))\<rparr>]))
      else (FR_INT_ERR, Files))"

definition clear_share :: "filesem list \<Rightarrow> filesem list" where
  "clear_share Files = map (\<lambda>e. e\<lparr>f_used := False\<rparr>) Files"

subsection \<open>Opening and closing\<close>

text \<open>
  What the table promises, told with the list of those who have a file open: the index they
  hold, the object and whether they write. An open asks the table and then enters itself, a
  close gives its index back. There are fewer than 256 file objects in the memory of the node.
\<close>

record handle =
  h_id :: nat
  h_obj :: "u32 \<times> u32"
  h_write :: bool

datatype share_op = Open_file "u32 \<times> u32" bool | Close_file nat

definition share_open :: "u32 \<times> u32 \<Rightarrow> bool \<Rightarrow> filesem list \<times> handle list \<Rightarrow> filesem list \<times> handle list" where
  "share_open obj w S =
     (case S of (Files, hs) \<Rightarrow>
        if length hs < 255 \<and> chk_share obj (if w then 1 else 0) Files = FR_OK then
          (case inc_share obj (if w then 1 else 0) Files of
             (i, Files') \<Rightarrow> if i = 0 then (Files', hs) else (Files', \<lparr>h_id = i, h_obj = obj, h_write = w\<rparr> # hs))
        else S)"

definition share_close :: "nat \<Rightarrow> filesem list \<times> handle list \<Rightarrow> filesem list \<times> handle list" where
  "share_close k S =
     (case S of (Files, hs) \<Rightarrow>
        if k < length hs then (snd (dec_share (h_id (hs ! k)) Files), take k hs @ drop (Suc k) hs) else S)"

primrec share_step :: "filesem list \<times> handle list \<Rightarrow> share_op \<Rightarrow> filesem list \<times> handle list" where
  "share_step S (Open_file obj w) = share_open obj w S"
| "share_step S (Close_file k) = share_close k S"

definition holders :: "nat \<Rightarrow> handle list \<Rightarrow> handle list" where
  "holders i hs = filter (\<lambda>h. h_id h = i + 1) hs"

text \<open>One entry and those who hold it.\<close>

definition entry_ok :: "filesem \<Rightarrow> handle list \<Rightarrow> bool" where
  "entry_ok e H \<longleftrightarrow> (f_used e \<longleftrightarrow> H \<noteq> []) \<and> (\<forall>h \<in> set H. h_obj h = (f_clu e, f_ofs e)) \<and>
     (f_used e \<longrightarrow> (if f_ctr e = 0x100 then length H = 1 \<and> h_write (hd H)
                    else f_ctr e = of_nat (length H) \<and> (\<forall>h \<in> set H. \<not> h_write h)))"

definition share_inv :: "filesem list \<times> handle list \<Rightarrow> bool" where
  "share_inv S \<longleftrightarrow>
     (case S of (Files, hs) \<Rightarrow>
        length hs \<le> 255 \<and> (\<forall>h \<in> set hs. h_id h \<noteq> 0 \<and> h_id h \<le> length Files) \<and>
        (\<forall>i < length Files. entry_ok (Files ! i) (holders i hs)) \<and>
        (\<forall>i < length Files. \<forall>j < length Files. \<forall>obj. f_is obj (Files ! i) \<and> f_is obj (Files ! j) \<longrightarrow> i = j))"

lemma find_index_cases:
  obtains (found) "find_index P xs < length xs" and "P (xs ! find_index P xs)"
  | (none) "find_index P xs = length xs" and "\<forall>x \<in> set xs. \<not> P x"
proof (cases "find_index P xs < length xs")
  case True
  then show thesis using found nth_length_takeWhile [of "\<lambda>x. \<not> P x" xs] by (simp add: find_index_def)
next
  case False
  then have "\<forall>x \<in> set xs. \<not> P x" by (induction xs) (auto simp: find_index_def split: if_splits)
  moreover from this have "takeWhile (\<lambda>x. \<not> P x) xs = xs" by (simp add: takeWhile_eq_all_conv)
  then have "find_index P xs = length xs" by (simp only: find_index_def)
  ultimately show thesis using none by blast
qed

lemma share_invD:
  assumes "share_inv (Files, hs)"
  shows "length hs \<le> 255" "h \<in> set hs \<Longrightarrow> h_id h \<noteq> 0 \<and> h_id h \<le> length Files"
    "i < length Files \<Longrightarrow> entry_ok (Files ! i) (holders i hs)"
    "i < length Files \<Longrightarrow> j < length Files \<Longrightarrow> f_is obj (Files ! i) \<Longrightarrow> f_is obj (Files ! j) \<Longrightarrow> i = j"
  using assms unfolding share_inv_def by blast+

lemma share_update:
  assumes inv: "share_inv (Files, hs)" and i: "i < length Files" and len: "length hs' \<le> 255"
    and hs: "\<And>j. j \<noteq> i \<Longrightarrow> holders j hs' = holders j hs"
    and ids: "\<forall>h \<in> set hs'. h_id h \<noteq> 0 \<and> h_id h \<le> length Files"
    and e: "entry_ok e (holders i hs')"
    and u: "f_used e \<Longrightarrow> (\<forall>j < length Files. j \<noteq> i \<longrightarrow> \<not> f_is (f_clu e, f_ofs e) (Files ! j))"
  shows "share_inv (Files[i := e], hs')"
proof -
  have "entry_ok (Files[i := e] ! j) (holders j hs')" if "j < length Files" for j
    using that inv e hs [of j] i by (cases "j = i") (auto simp: share_inv_def)
  moreover have "j = k" if "f_is obj (Files[i := e] ! j)" "f_is obj (Files[i := e] ! k)" "j < length Files" "k < length Files" for j k obj
  proof -
    consider "j = i" "k \<noteq> i" | "k = i" "j \<noteq> i" | "j \<noteq> i" "k \<noteq> i" | "j = k" by blast
    then show ?thesis
    proof cases
      case 1
      then show ?thesis using that u i by (auto simp: f_is_def)
    next
      case 2
      then show ?thesis using that u i by (auto simp: f_is_def)
    next
      case 3
      then show ?thesis using that share_invD(4) [OF inv, of j k obj] by simp
    qed
  qed
  ultimately show ?thesis using len ids unfolding share_inv_def by (simp del: split_paired_Ex split_paired_All) blast
qed

lemma holders_Cons: "holders i (h # hs) = (if h_id h = i + 1 then h # holders i hs else holders i hs)"
  by (simp add: holders_def)

lemma holders_drop:
  assumes "k < length hs"
  shows "holders i (take k hs @ drop (Suc k) hs) =
    (if h_id (hs ! k) = i + 1 then take (length (holders i (take k hs))) (holders i hs) @
        drop (Suc (length (holders i (take k hs)))) (holders i hs) else holders i hs)"
proof -
  have "hs = take k hs @ hs ! k # drop (Suc k) hs" using assms by (rule id_take_nth_drop)
  then have e: "holders i hs = holders i (take k hs) @ holders i [hs ! k] @ holders i (drop (Suc k) hs)"
    by (metis append_Cons append_Nil filter_append holders_def)
  then show ?thesis by (subst e) (simp add: holders_def)
qed

lemma length_holders: "length (holders i hs) \<le> length hs"
  by (simp add: holders_def)

lemma small_count: "n \<le> 255 \<Longrightarrow> (of_nat n :: u32) \<noteq> 0x100 \<and> unat (of_nat n :: u32) = n"
  by (auto simp: word_unat_eq_iff unat_of_nat take_bit_nat_eq_self)

text \<open>What the table knows about an object.\<close>

lemma share_found:
  assumes inv: "share_inv (Files, hs)" and i: "i < length Files" and f: "f_is obj (Files ! i)"
  shows "set (holders i hs) = {h \<in> set hs. h_obj h = obj}"
proof -
  have "h \<in> set (holders i hs)" if h: "h \<in> set hs" "h_obj h = obj" for h
  proof -
    define j where "j = h_id h - 1"
    have j: "j < length Files" "h \<in> set (holders j hs)"
      using inv h by (auto simp: share_inv_def j_def holders_def)
    then have ok: "entry_ok (Files ! j) (holders j hs)" using inv by (simp add: share_inv_def)
    then have "f_used (Files ! j)" "h_obj h = (f_clu (Files ! j), f_ofs (Files ! j))"
      using j(2) unfolding entry_ok_def by (metis empty_iff list.set(1), blast)
    then have "f_is obj (Files ! j)" using h(2) by (simp add: f_is_def)
    then have "j = i" using share_invD(4) [OF inv j(1) i _ f] by simp
    then show ?thesis using j(2) by simp
  qed
  moreover have "h_obj h = obj" if "h \<in> set (holders i hs)" for h
    using inv i f that unfolding share_inv_def entry_ok_def f_is_def by auto
  ultimately show ?thesis by (auto simp: holders_def)
qed

lemma share_not_found:
  assumes inv: "share_inv (Files, hs)" and n: "\<forall>e \<in> set Files. \<not> f_is obj e"
  shows "\<forall>h \<in> set hs. h_obj h \<noteq> obj"
proof (intro ballI notI)
  fix h assume h: "h \<in> set hs" "h_obj h = obj"
  define j where "j = h_id h - 1"
  have j: "j < length Files" "h \<in> set (holders j hs)"
    using inv h by (auto simp: share_inv_def j_def holders_def)
  then have ok: "entry_ok (Files ! j) (holders j hs)" using inv by (simp add: share_inv_def)
  then have "f_used (Files ! j)" "h_obj h = (f_clu (Files ! j), f_ofs (Files ! j))"
    using j(2) unfolding entry_ok_def by (metis empty_iff list.set(1), blast)
  then show False using n j(1) h(2) by (auto simp: f_is_def)
qed

text \<open>The answer of the table is the right one.\<close>

lemma chk_share_correct:
  assumes inv: "share_inv (Files, hs)"
  shows "chk_share obj acc Files =
    (if \<exists>h \<in> set hs. h_obj h = obj then
       (if acc \<noteq> 0 \<or> (\<exists>h \<in> set hs. h_obj h = obj \<and> h_write h) then FR_LOCKED else FR_OK)
     else if acc \<noteq> 2 \<and> (\<forall>e \<in> set Files. f_used e) then FR_TOO_MANY_OPEN_FILES else FR_OK)"
proof (cases rule: find_index_cases [of "f_is obj" Files])
  case found
  define i where "i = find_index (f_is obj) Files"
  have i: "i < length Files" "f_is obj (Files ! i)" using found by (simp_all add: i_def)
  have H: "set (holders i hs) = {h \<in> set hs. h_obj h = obj}" by (rule share_found [OF inv i])
  have ok: "entry_ok (Files ! i) (holders i hs)" by (rule share_invD(3) [OF inv i(1)])
  have u: "f_used (Files ! i)" using i(2) by (simp add: f_is_def)
  then have ne: "holders i hs \<noteq> []" using ok by (simp add: entry_ok_def)
  then have "\<exists>h \<in> set hs. h_obj h = obj" using H by (metis (mono_tags, lifting) last_in_set mem_Collect_eq)
  moreover have "f_ctr (Files ! i) = 0x100 \<longleftrightarrow> (\<exists>h \<in> set (holders i hs). h_write h)"
    using ok u ne hd_in_set [OF ne] small_count [of "length (holders i hs)"] length_holders [of i hs] share_invD(1) [OF inv]
    by (auto simp: entry_ok_def split: if_splits)
  ultimately show ?thesis using i H by (auto simp: chk_share_def i_def [symmetric] Let_def)
next
  case none
  then show ?thesis using share_not_found [OF inv none(2)] by (auto simp: chk_share_def Let_def)
qed

lemma share_open_new:
  assumes inv: "share_inv (Files, hs)" and l: "length hs < 255" and n: "\<forall>e \<in> set Files. \<not> f_is obj e"
    and b: "\<not> (\<forall>e \<in> set Files. f_used e)"
  shows "\<exists>i Files'. inc_share obj (if w then 1 else 0) Files = (Suc i, Files') \<and>
    share_inv (Files', \<lparr>h_id = Suc i, h_obj = obj, h_write = w\<rparr> # hs) \<and> length Files' = length Files"
proof -
  have none: "find_index (f_is obj) Files = length Files"
    by (cases rule: find_index_cases [of "f_is obj" Files]) (use n in \<open>auto simp del: split_paired_All\<close>)
  define i where "i = find_index (\<lambda>e. \<not> f_used e) Files"
  have i: "i < length Files" "\<not> f_used (Files ! i)"
    by (cases rule: find_index_cases [of "\<lambda>e. \<not> f_used e" Files]; use b in \<open>auto simp: i_def\<close>)+
  define e where "e = \<lparr>f_used = True, f_clu = fst obj, f_ofs = snd obj, f_ctr = (if w then 0x100 else 1 :: u32)\<rparr>"
  have inc: "inc_share obj (if w then 1 else 0) Files = (Suc i, Files[i := e])"
    using none i(1) by (simp add: inc_share_def i_def [symmetric] inc_entry_def e_def Let_def)
  have H: "holders i hs = []" using share_invD(3) [OF inv i(1)] i(2) by (simp add: entry_ok_def)
  have "share_inv (Files[i := e], \<lparr>h_id = Suc i, h_obj = obj, h_write = w\<rparr> # hs)"
  proof (rule share_update [OF inv i(1)])
    show "entry_ok e (holders i (\<lparr>h_id = Suc i, h_obj = obj, h_write = w\<rparr> # hs))"
      by (simp add: holders_Cons H entry_ok_def e_def)
    show "\<forall>j < length Files. j \<noteq> i \<longrightarrow> \<not> f_is (f_clu e, f_ofs e) (Files ! j)"
      using n by (simp add: e_def)
  qed (use l i(1) share_invD(2) [OF inv] in \<open>auto simp: holders_Cons\<close>)
  with inc show ?thesis by auto
qed

lemma share_open_again:
  assumes inv: "share_inv (Files, hs)" and l: "length hs < 255" and h: "h \<in> set hs" "h_obj h = obj"
    and r: "\<forall>h \<in> set hs. h_obj h = obj \<longrightarrow> \<not> h_write h"
  shows "\<exists>i Files'. inc_share obj 0 Files = (Suc i, Files') \<and>
    share_inv (Files', \<lparr>h_id = Suc i, h_obj = obj, h_write = False\<rparr> # hs) \<and> length Files' = length Files"
proof (cases rule: find_index_cases [of "f_is obj" Files])
  case none
  then show ?thesis using share_not_found [OF inv none(2)] h by blast
next
  case found
  define i where "i = find_index (f_is obj) Files"
  have i: "i < length Files" "f_is obj (Files ! i)" using found by (simp_all add: i_def)
  have H: "set (holders i hs) = {h \<in> set hs. h_obj h = obj}" by (rule share_found [OF inv i])
  have ok: "entry_ok (Files ! i) (holders i hs)" by (rule share_invD(3) [OF inv i(1)])
  have u: "f_used (Files ! i)" "(f_clu (Files ! i), f_ofs (Files ! i)) = obj" using i(2) by (simp_all add: f_is_def)
  have ne: "holders i hs \<noteq> []" using ok u by (simp add: entry_ok_def)
  have c: "f_ctr (Files ! i) = of_nat (length (holders i hs))"
    using ok u H r ne hd_in_set [OF ne] by (auto simp: entry_ok_def split: if_splits)
  define e where "e = (Files ! i)\<lparr>f_ctr := f_ctr (Files ! i) + 1\<rparr>"
  have inc: "inc_share obj 0 Files = (Suc i, Files[i := e])"
    using i(1) by (simp add: inc_share_def i_def [symmetric] inc_entry_def e_def Let_def)
  have n: "length (holders i hs) + 1 \<le> 255" using length_holders [of i hs] l by simp
  have "f_ctr e = of_nat (length (holders i hs) + 1)" "f_ctr e \<noteq> 0x100"
    using small_count [OF n] by (simp_all add: e_def c add.commute)
  then have "entry_ok e (\<lparr>h_id = Suc i, h_obj = obj, h_write = False\<rparr> # holders i hs)"
    using ok u H r by (auto simp: entry_ok_def e_def)
  moreover have "\<forall>j < length Files. j \<noteq> i \<longrightarrow> \<not> f_is (f_clu e, f_ofs e) (Files ! j)"
    using share_invD(4) [OF inv _ i(1) _ i(2)] u by (auto simp: e_def)
  ultimately have "share_inv (Files[i := e], \<lparr>h_id = Suc i, h_obj = obj, h_write = False\<rparr> # hs)"
    by (intro share_update [OF inv i(1)]) (use l i(1) share_invD(2) [OF inv] in \<open>auto simp: holders_Cons\<close>)
  with inc show ?thesis by auto
qed

lemma share_close_inv:
  assumes inv: "share_inv (Files, hs)" and k: "k < length hs"
  shows "fst (dec_share (h_id (hs ! k)) Files) = FR_OK" and "share_inv (share_close k (Files, hs))"
proof -
  define i where "i = h_id (hs ! k) - 1"
  have hid: "h_id (hs ! k) = Suc i" "i < length Files"
    using share_invD(2) [OF inv nth_mem [OF k]] by (auto simp: i_def)
  then show "fst (dec_share (h_id (hs ! k)) Files) = FR_OK" by (simp add: dec_share_def Let_def)
  define H where "H = holders i hs"
  define hs' where "hs' = take k hs @ drop (Suc k) hs"
  define c where "c = f_ctr (Files ! i)"
  define n where "n = (if c = 0x100 then 0 else if c > 0 then c - 1 else c)"
  define e where "e = (Files ! i)\<lparr>f_ctr := n, f_used := (n \<noteq> 0 \<and> f_used (Files ! i))\<rparr>"
  have dec: "snd (dec_share (h_id (hs ! k)) Files) = Files[i := e]"
    by (simp add: dec_share_def hid e_def n_def c_def Let_def)
  have split: "hs = take k hs @ hs ! k # drop (Suc k) hs" using k by (rule id_take_nth_drop)
  have parts: "holders j hs = holders j (take k hs) @ holders j [hs ! k] @ holders j (drop (Suc k) hs)" for j
    by (subst split) (simp add: holders_def)
  have H': "H = holders i (take k hs) @ hs ! k # holders i (drop (Suc k) hs)"
    using parts [of i] hid by (simp add: H_def holders_def)
  have hs'i: "holders i hs' = holders i (take k hs) @ holders i (drop (Suc k) hs)"
    by (simp add: hs'_def holders_def)
  have len: "length H = Suc (length (holders i hs'))" and sub: "set (holders i hs') \<subseteq> set H" by (auto simp: H' hs'i)
  have ok: "entry_ok (Files ! i) H" unfolding H_def by (rule share_invD(3) [OF inv hid(2)])
  have used: "f_used (Files ! i)" using ok H' by (simp add: entry_ok_def)
  have "length H \<le> 255" using length_holders [of i hs] share_invD(1) [OF inv] by (simp add: H_def)
  note small = small_count [OF this]
  have "entry_ok e (holders i hs')"
  proof (cases "c = 0x100")
    case True
    then have "holders i hs' = []" using ok used len by (simp add: entry_ok_def c_def)
    then show ?thesis using True by (simp add: entry_ok_def e_def n_def)
  next
    case False
    then have c: "c = of_nat (length H)" and w: "\<forall>h \<in> set H. \<not> h_write h"
      using ok used by (auto simp: entry_ok_def c_def)
    then have "c > 0" using small len by (auto simp: word_gt_0 word_unat_eq_iff)
    then have n: "n = of_nat (length (holders i hs'))" using False by (simp add: n_def c len)
    have "length (holders i hs') \<le> 255" using \<open>length H \<le> 255\<close> len by simp
    from small_count [OF this] have "n \<noteq> 0x100" "n = 0 \<longleftrightarrow> holders i hs' = []"
      by (simp_all add: n word_unat_eq_iff del: of_nat_eq_0_iff) 
    then show ?thesis using ok used w sub n by (auto simp: entry_ok_def e_def)
  qed
  note eo = this
  have "share_inv (Files[i := e], hs')"
  proof (rule share_update [OF inv hid(2)])
    show "holders j hs' = holders j hs" if "j \<noteq> i" for j
      using parts [of j] hid that by (simp add: hs'_def holders_def)
    show "\<forall>h \<in> set hs'. h_id h \<noteq> 0 \<and> h_id h \<le> length Files"
      using share_invD(2) [OF inv] by (auto simp: hs'_def dest: in_set_takeD in_set_dropD)
    show "\<forall>j < length Files. j \<noteq> i \<longrightarrow> \<not> f_is (f_clu e, f_ofs e) (Files ! j)"
      using share_invD(4) [OF inv _ hid(2), of _ "(f_clu (Files ! i), f_ofs (Files ! i))"] used
      by (auto simp: e_def f_is_def)
  qed (use eo k share_invD(1) [OF inv] in \<open>auto simp: hs'_def\<close>)
  then show "share_inv (share_close k (Files, hs))" using k dec by (simp add: share_close_def hs'_def)
qed

lemma share_open_inv: "share_inv S \<Longrightarrow> share_inv (share_open obj w S)"
proof -
  assume i: "share_inv S"
  obtain Files hs where S: "S = (Files, hs)" by fastforce
  have inv: "share_inv (Files, hs)" using i S by simp
  note c = chk_share_correct [OF inv, of obj "if w then 1 else 0"]
  show ?thesis
  proof (cases "length hs < 255 \<and> chk_share obj (if w then 1 else 0) Files = FR_OK")
    case True
    show ?thesis
    proof (cases "\<exists>h \<in> set hs. h_obj h = obj")
      case e: True
      then have "\<not> w" "\<forall>h \<in> set hs. h_obj h = obj \<longrightarrow> \<not> h_write h" using c True by (auto split: if_splits)
      then show ?thesis using True share_open_again [OF inv] e S by (fastforce simp: share_open_def)
    next
      case False
      then have b: "\<not> (\<forall>e \<in> set Files. f_used e)" using c True by (auto split: if_splits)
      have "\<not> f_is obj e" if m: "e \<in> set Files" for e
      proof
        assume f: "f_is obj e"
        obtain j where j: "j < length Files" "e = Files ! j" using m unfolding in_set_conv_nth by blast
        then have "set (holders j hs) = {}" using share_found [OF inv j(1)] f False by auto
        then show False using share_invD(3) [OF inv j(1)] f j(2) by (simp add: entry_ok_def f_is_def)
      qed
      then show ?thesis using True share_open_new [OF inv, of obj w] b S by (auto simp: share_open_def)
    qed
  next
    case False
    then show ?thesis using i S by (auto simp: share_open_def)
  qed
qed

lemma share_step_inv: "share_inv S \<Longrightarrow> share_inv (share_step S op)"
  using share_open_inv share_close_inv(2) by (cases S; cases op) (auto simp: share_close_def)

interpretation share_run: invariant_machine share_step share_inv
  by unfold_locales (rule share_step_inv)

lemma share_one_writer:
  assumes inv: "share_inv (Files, hs)" and jk: "j < length hs" "k < length hs" "j \<noteq> k" "h_obj (hs ! j) = h_obj (hs ! k)"
  shows "\<not> h_write (hs ! j)"
proof
  assume w: "h_write (hs ! j)"
  define i where "i = h_id (hs ! j) - 1"
  have i: "h_id (hs ! j) = Suc i" "i < length Files" using share_invD(2) [OF inv nth_mem [OF jk(1)]] by (auto simp: i_def)
  have H: "hs ! j \<in> set (holders i hs)" using i jk(1) by (simp add: holders_def)
  have ok: "entry_ok (Files ! i) (holders i hs)" by (rule share_invD(3) [OF inv i(2)])
  have u: "f_used (Files ! i)" "h_obj (hs ! j) = (f_clu (Files ! i), f_ofs (Files ! i))"
    using ok H by (auto simp: entry_ok_def)
  then have one: "length (holders i hs) = 1" using ok H w by (auto simp: entry_ok_def split: if_splits)
  have "hs ! k \<in> set (holders i hs)"
    using share_found [OF inv i(2), of "h_obj (hs ! j)"] u jk by (auto simp: f_is_def)
  then have "h_id (hs ! k) = Suc i" by (simp add: holders_def)
  then have "{j, k} \<subseteq> {m. m < length hs \<and> h_id (hs ! m) = Suc i}" using i jk by auto
  then have "card {j, k} \<le> card {m. m < length hs \<and> h_id (hs ! m) = Suc i}" by (intro card_mono) auto
  then show False using one jk(3) by (simp add: holders_def length_filter_conv_card)
qed

definition no_files :: "nat \<Rightarrow> filesem list" where
  "no_files n = replicate n \<lparr>f_used = False, f_clu = 0, f_ofs = 0, f_ctr = 0\<rparr>"

lemma share_start: "share_inv (no_files n, [])"
  by (simp add: share_inv_def no_files_def entry_ok_def holders_def f_is_def)

text \<open>
  C16: after every run of openings and closings, a file that is open for writing is open once;
  the table answers an attempt to open a file with \<open>FR_LOCKED\<close> exactly when the file is open
  and one of the two would write, and to delete or rename it exactly when it is open at all;
  and every close finds its entry.
\<close>

theorem share_exclusive:
  "case foldl share_step (no_files n, []) ops of (Files, hs) \<Rightarrow>
     (\<forall>j k. j < length hs \<and> k < length hs \<and> j \<noteq> k \<and> h_obj (hs ! j) = h_obj (hs ! k) \<longrightarrow> \<not> h_write (hs ! j)) \<and>
     (\<forall>obj acc. chk_share obj acc Files = FR_LOCKED \<longleftrightarrow> (\<exists>h \<in> set hs. h_obj h = obj) \<and>
        (acc \<noteq> 0 \<or> (\<exists>h \<in> set hs. h_obj h = obj \<and> h_write h))) \<and>
     (\<forall>h \<in> set hs. fst (dec_share (h_id h) Files) = FR_OK)"
proof -
  obtain Files hs where S: "foldl share_step (no_files n, []) ops = (Files, hs)" by fastforce
  have inv: "share_inv (Files, hs)" using share_run.run_inv [OF share_start, of n ops] S by simp
  have "chk_share obj acc Files = FR_LOCKED \<longleftrightarrow> (\<exists>h \<in> set hs. h_obj h = obj) \<and>
      (acc \<noteq> 0 \<or> (\<exists>h \<in> set hs. h_obj h = obj \<and> h_write h))" for obj acc
    using chk_share_correct [OF inv, of obj acc] by auto
  moreover have "\<forall>h \<in> set hs. fst (dec_share (h_id h) Files) = FR_OK"
    using share_close_inv(1) [OF inv] by (metis in_set_conv_nth)
  moreover have "\<not> h_write (hs ! j)" if "j < length hs \<and> k < length hs \<and> j \<noteq> k \<and> h_obj (hs ! j) = h_obj (hs ! k)" for j k
    using share_one_writer [OF inv] that by blast
  ultimately show ?thesis unfolding S prod.case by blast
qed

theorem share_exclusive_witness:
  "case foldl share_step (no_files 1, []) [Open_file (0, 32) True] of (Files, hs) \<Rightarrow>
     h_obj (hs ! 0) = (0, 32) \<and> chk_share (0, 32) 0 Files = FR_LOCKED"
  using share_exclusive [of 1 "[Open_file (0, 32) True]"]
  by (simp add: no_files_def share_open_def chk_share_def find_index_def inc_share_def inc_entry_def f_is_def Let_def)

end
