(* ===== verification/FatFs_Mount.thy ===== *)
theory FatFs_Mount
  imports FatFs_Share FatFs_Sectors FatFs_Name Mutexes
begin

text \<open>
  Mounting: the drive prefix of a path, the search for a FAT volume on the card, the check of
  its boot sector and the layout that is computed from it. A mount that succeeds establishes
  the geometry on which the operations on the tables and on files rely, if the sizes in the
  boot sector stay below \<open>2 ^ 32\<close>; they are not checked against wrapping around.
\<close>

text \<open>
  The library: the volume object with the disk, whether it is registered, the mount counter,
  the table of open files, and the mutexes with the state of the system lock. \<open>FF_VOLUMES\<close> is 1,
  so the mutex 0 is that of the volume and 1 that of the system.
\<close>

record fatlib =
  lib_fs :: fatfs
  lib_registered :: bool
  Fsid :: u16
  lib_files :: "filesem list"
  lib_mutexes :: ff_mutexes
  SysLock :: nat

subsection \<open>The drive prefix\<close>

definition VolumeStr :: "u8 list" where
  "VolumeStr = [0x53, 0x44]"

text \<open>The comparison with the name of the volume: the last character and how many were taken.\<close>

fun vol_compare :: "u8 list \<Rightarrow> u8 list \<Rightarrow> nat \<Rightarrow> u8 \<times> nat" where
  "vol_compare [] tp n = (0, n + 1)"
| "vol_compare (c # sp) tp n =
     (if upper c \<noteq> 0 \<and> upper c = upper (path_at tp 0) then vol_compare sp (drop 1 tp) (n + 1)
      else (upper c, n + 1))"

definition get_ldnumber :: "u8 list option \<Rightarrow> nat option \<times> u8 list" where
  "get_ldnumber path =
     (case path of
        None \<Rightarrow> (None, [])
      | Some p \<Rightarrow>
          (let k = length (takeWhile (\<lambda>c. \<not> IsTerminator c \<and> c \<noteq> 0x3A) p); tt = k + 1
           in if path_at p k = 0x3A then
                (let i = (if 0x30 \<le> path_at p 0 \<and> path_at p 0 \<le> 0x39 \<and> 2 = tt then unat (path_at p 0 - 0x30)
                          else (case vol_compare VolumeStr p 0 of
                                  (c, tp) \<Rightarrow> if c \<noteq> 0 \<or> tp \<noteq> tt then 1 else 0))
                 in if i < 1 then (Some i, drop tt p) else (None, p))
              else (Some 0, p)))"

subsection \<open>Finding a volume\<close>

text \<open>0: a FAT boot record, 2: another boot sector, 3: no boot sector, 4: a disk error.\<close>

definition boot_kind :: "u8 list \<Rightarrow> nat" where
  "boot_kind b =
     (let sign = ld_word b 510; w = ld_word b 11; spc = b ! 13
      in if (b ! 0 = 0xEB \<or> b ! 0 = 0xE9 \<or> b ! 0 = 0xE8) \<and>
            (sign = 0xAA55 \<and> take 8 (drop 82 b) = [0x46, 0x41, 0x54, 0x33, 0x32, 0x20, 0x20, 0x20] \<or>
             w AND (w - 1) = 0 \<and> w \<ge> 512 \<and> w \<le> 512 \<and> spc \<noteq> 0 \<and> spc AND (spc - 1) = 0 \<and>
             ld_word b 14 \<noteq> 0 \<and> (ucast (b ! 16) :: u32) - 1 \<le> 1 \<and> ld_word b 17 \<noteq> 0 \<and>
             (ld_word b 19 \<ge> 128 \<or> ld_dword b 32 \<ge> 0x10000) \<and> ld_word b 22 \<noteq> 0)
         then 0 else if sign = 0xAA55 then 2 else 3)"

definition check_fs :: "u32 \<Rightarrow> fatfs \<Rightarrow> nat \<times> fatfs" where
  "check_fs lba fs =
     (case move_window lba (fs\<lparr>wflag := False, winsect := 0 - 1\<rparr>) of
        (res, fs1) \<Rightarrow> if res \<noteq> FR_OK then (4, fs1) else (boot_kind (win fs1), fs1))"

fun find_part :: "nat \<Rightarrow> u32 list \<Rightarrow> fatfs \<Rightarrow> nat \<times> fatfs" where
  "find_part part [] fs = (3, fs)"
| "find_part part (pt # pts) fs =
     (case (if pt \<noteq> 0 then check_fs pt fs else (3, fs)) of
        (fmt, fs1) \<Rightarrow> if part = 0 \<and> fmt \<ge> 2 \<and> pts \<noteq> [] then find_part part pts fs1 else (fmt, fs1))"

definition find_volume :: "nat \<Rightarrow> fatfs \<Rightarrow> nat \<times> fatfs" where
  "find_volume part fs =
     (case check_fs 0 fs of
        (fmt, fs1) \<Rightarrow>
          if fmt \<noteq> 2 \<and> (fmt \<ge> 3 \<or> part = 0) then (fmt, fs1)
          else
            (let mbr_pt = map (\<lambda>i. ld_dword (win fs1) (446 + i * 16 + 8)) [0, 1, 2, 3]
             in find_part part (drop (if part \<noteq> 0 then part - 1 else 0) mbr_pt) fs1))"

subsection \<open>The layout\<close>

text \<open>The sizes in the boot sector: sectors of the table area, of the volume, reserved ones.\<close>

definition mount_sizes :: "fatfs \<Rightarrow> (u32 \<times> u32 \<times> u16) option \<times> fatfs" where
  "mount_sizes fs =
     (if ld_word (win fs) 11 \<noteq> 512 then (None, fs)
      else
        (let fasize = ucast (ld_word (win fs) 22); fasize = (if fasize = 0 then ld_dword (win fs) 36 else fasize);
             fs1 = fs\<lparr>fsize := fasize, n_fats := win fs ! 16\<rparr>
         in if n_fats fs1 \<noteq> 1 \<and> n_fats fs1 \<noteq> 2 then (None, fs1)
            else
              (let fasize = fasize * ucast (n_fats fs1); fs2 = fs1\<lparr>csize := ucast (win fs1 ! 13)\<rparr>
               in if csize fs2 = 0 \<or> csize fs2 AND (csize fs2 - 1) \<noteq> 0 then (None, fs2)
                  else
                    (let fs3 = fs2\<lparr>n_rootdir := ld_word (win fs2) 17\<rparr>
                     in if n_rootdir fs3 mod 16 \<noteq> 0 then (None, fs3)
                        else
                          (let tsect = ucast (ld_word (win fs3) 19);
                               tsect = (if tsect = 0 then ld_dword (win fs3) 32 else tsect);
                               nrsv = ld_word (win fs3) 14
                           in if nrsv = 0 then (None, fs3) else (Some (fasize, tsect, nrsv), fs3))))))"

definition mount_layout :: "u32 \<Rightarrow> u32 \<times> u32 \<times> u16 \<Rightarrow> fatfs \<Rightarrow> fat_type option \<times> fatfs" where
  "mount_layout bsect sizes fs =
     (case sizes of
        (fasize, tsect, nrsv) \<Rightarrow>
          (let sysect = ucast nrsv + fasize + ucast (n_rootdir fs div 16)
           in if tsect < sysect then (None, fs)
              else
                (let nclst = (tsect - sysect) div ucast (csize fs);
                     fmt = (if nclst \<le> 0xFF5 then FS_FAT12 else if nclst \<le> 0xFFF5 then FS_FAT16
                            else if nclst \<le> 0x0FFFFFF5 then FS_FAT32 else FS_NONE)
                 in if nclst = 0 \<or> fmt = FS_NONE then (None, fs)
                    else
                      (let fs1 = fs\<lparr>n_fatent := nclst + 2, volbase := bsect, fatbase := bsect + ucast nrsv,
                                   database := bsect + sysect\<rparr>
                       in if fmt = FS_FAT32 \<and> (ld_word (win fs1) 42 \<noteq> 0 \<or> n_rootdir fs1 \<noteq> 0) then (None, fs1)
                          else if fmt \<noteq> FS_FAT32 \<and> n_rootdir fs1 = 0 then (None, fs1)
                          else
                            (let fs2 = fs1\<lparr>dirbase := (if fmt = FS_FAT32 then ld_dword (win fs1) 44
                                                      else fatbase fs1 + fasize)\<rparr>;
                                 n = n_fatent fs2;
                                 szbfat = (if fmt = FS_FAT32 then n * 4
                                           else if fmt = FS_FAT16 then n * 2 else n * 3 div 2 + (n AND 1))
                             in if fsize fs2 < (szbfat + 511) div 512 then (None, fs2) else (Some fmt, fs2))))))"

definition mount_info :: "u32 \<Rightarrow> fat_type \<Rightarrow> fatfs \<Rightarrow> fatfs" where
  "mount_info bsect fmt fs =
     (let fs1 = fs\<lparr>last_clst := 0xFFFFFFFF, free_clst := 0xFFFFFFFF, fsi_flag := 0x80\<rparr>
      in if fmt = FS_FAT32 \<and> ld_word (win fs1) 48 = 1 then
           (case move_window (bsect + 1) fs1 of
              (res, fs2) \<Rightarrow>
                if res = FR_OK then
                  (let fs3 = fs2\<lparr>fsi_flag := 0\<rparr>
                   in if ld_word (win fs3) 510 = 0xAA55 \<and> ld_dword (win fs3) 0 = 0x41615252 \<and>
                         ld_dword (win fs3) 484 = 0x61417272
                      then fs3\<lparr>free_clst := ld_dword (win fs3) 488, last_clst := ld_dword (win fs3) 492\<rparr>
                      else fs3)
                else fs2)
         else fs1)"

text \<open>
  The answers of the lock, of \<open>disk_status\<close> and of \<open>disk_initialize\<close> are arguments. \<open>LD2PT\<close> is
  0 for the only volume.
\<close>

abbreviation (input) STA_PROTECT :: u8 where "STA_PROTECT \<equiv> 0x04"

definition mount_fresh :: "u8 \<Rightarrow> u8 \<Rightarrow> fatlib \<Rightarrow> FRESULT \<times> fatlib" where
  "mount_fresh init mode L =
     (let fs = (lib_fs L)\<lparr>fs_type := FS_NONE\<rparr>
      in if init AND STA_NOINIT \<noteq> 0 then (FR_NOT_READY, L\<lparr>lib_fs := fs\<rparr>)
         else if mode \<noteq> 0 \<and> init AND STA_PROTECT \<noteq> 0 then (FR_WRITE_PROTECTED, L\<lparr>lib_fs := fs\<rparr>)
         else
           (case find_volume 0 fs of
              (fmt, fs1) \<Rightarrow>
                if fmt = 4 then (FR_DISK_ERR, L\<lparr>lib_fs := fs1\<rparr>)
                else if fmt \<ge> 2 then (FR_NO_FILESYSTEM, L\<lparr>lib_fs := fs1\<rparr>)
                else
                  (let bsect = winsect fs1
                   in case mount_sizes fs1 of
                        (None, fs2) \<Rightarrow> (FR_NO_FILESYSTEM, L\<lparr>lib_fs := fs2\<rparr>)
                      | (Some sizes, fs2) \<Rightarrow>
                          (case mount_layout bsect sizes fs2 of
                             (None, fs3) \<Rightarrow> (FR_NO_FILESYSTEM, L\<lparr>lib_fs := fs3\<rparr>)
                           | (Some fmt, fs3) \<Rightarrow>
                               (FR_OK, L\<lparr>lib_fs := (mount_info bsect fmt fs3)\<lparr>fs_type := fmt, vol_id := Fsid L + 1, cdir := 0\<rparr>,
                                        Fsid := Fsid L + 1, lib_files := clear_share (lib_files L)\<rparr>)))))"

definition mount_volume ::
  "bool \<Rightarrow> u8 \<Rightarrow> u8 \<Rightarrow> u8 list option \<Rightarrow> u8 \<Rightarrow> fatlib \<Rightarrow> FRESULT \<times> u8 list \<times> fatlib" where
  "mount_volume lock stat init path mode L =
     (case get_ldnumber path of
        (vol, p) \<Rightarrow>
          if vol = None then (FR_INVALID_DRIVE, p, L)
          else if \<not> lib_registered L then (FR_NOT_ENABLED, p, L)
          else if \<not> lock then (FR_TIMEOUT, p, L)
          else
            (let mode = mode AND NOT FA_READ
             in if fs_type (lib_fs L) \<noteq> FS_NONE \<and> stat AND STA_NOINIT = 0 then
                  (if mode \<noteq> 0 \<and> stat AND STA_PROTECT \<noteq> 0 then FR_WRITE_PROTECTED else FR_OK, p, L)
                else (case mount_fresh init mode L of (res, L1) \<Rightarrow> (res, p, L1))))"

subsection \<open>Locking and registering\<close>

text \<open>
  The guard around the system lock, \<open>#if FS_LOCK\<close>, names a macro that is not defined (the option
  is \<open>FF_FS_LOCK\<close>), so the other branch is compiled: only the volume is locked. \<open>None\<close> is the
  assertion of FreeRTOS on a null handle.
\<close>

definition lock_volume :: "nat \<Rightarrow> bool \<Rightarrow> fatlib \<Rightarrow> (int \<times> fatlib) option" where
  "lock_volume task syslock L =
     map_option (\<lambda>(rv, m). (rv, L\<lparr>lib_mutexes := m\<rparr>))
       (if syslock then ff_mutex_take task 0 (lib_mutexes L) else ff_mutex_take task 0 (lib_mutexes L))"

definition unlock_volume :: "nat \<Rightarrow> bool \<Rightarrow> FRESULT \<Rightarrow> fatlib \<Rightarrow> fatlib option" where
  "unlock_volume task fs res L =
     (if fs \<and> res \<noteq> FR_NOT_ENABLED \<and> res \<noteq> FR_INVALID_DRIVE \<and> res \<noteq> FR_TIMEOUT then
        (case (if SysLock L = 2 then map_option (\<lambda>m. L\<lparr>SysLock := 1, lib_mutexes := m\<rparr>) (ff_mutex_give task 1 (lib_mutexes L))
               else Some L) of
           None \<Rightarrow> None
         | Some L1 \<Rightarrow> map_option (\<lambda>m. L1\<lparr>lib_mutexes := m\<rparr>) (ff_mutex_give task 0 (lib_mutexes L1)))
      else Some L)"

text \<open>
  \<open>f_mount\<close>: the old object is taken off, the new one registered with its mutexes, and mounted
  if asked to. \<open>fs\<close> says whether there is a new object, \<open>a\<close> and \<open>b\<close> are the mutexes FreeRTOS
  creates; the grant of the lock of the mount is an argument as before.
\<close>

definition unregister :: "fatlib \<Rightarrow> fatlib option" where
  "unregister L =
     (if lib_registered L then
        map_option (\<lambda>m. L\<lparr>lib_registered := False, lib_files := clear_share (lib_files L), lib_mutexes := m,
                          lib_fs := (lib_fs L)\<lparr>fs_type := FS_NONE\<rparr>\<rparr>)
          (ff_mutex_delete 0 (lib_mutexes L))
      else Some L)"

definition register_fs :: "nat option \<Rightarrow> nat option \<Rightarrow> fatlib \<Rightarrow> (bool \<times> fatlib) option" where
  "register_fs a b L =
     (case ff_mutex_create a 0 (lib_mutexes L) of
        (rv, m) \<Rightarrow>
          let L1 = L\<lparr>lib_mutexes := m\<rparr>; reg = (\<lambda>L. (True, L\<lparr>lib_fs := (lib_fs L)\<lparr>fs_type := FS_NONE\<rparr>, lib_registered := True\<rparr>))
          in if rv = 0 then Some (False, L1)
             else if SysLock L1 = 0 then
               (case ff_mutex_create b 1 m of
                  (rv, m) \<Rightarrow>
                    if rv = 0 then map_option (\<lambda>m. (False, L1\<lparr>lib_mutexes := m\<rparr>)) (ff_mutex_delete 0 m)
                    else Some (reg (L1\<lparr>lib_mutexes := m, SysLock := 1\<rparr>)))
             else Some (reg L1))"

definition f_mount ::
  "nat option \<Rightarrow> nat option \<Rightarrow> bool \<Rightarrow> u8 \<Rightarrow> u8 \<Rightarrow> bool \<Rightarrow> u8 list option \<Rightarrow> u8 \<Rightarrow> fatlib \<Rightarrow> (FRESULT \<times> fatlib) option" where
  "f_mount a b lock stat init fs path opt L =
     (if fst (get_ldnumber path) = None then Some (FR_INVALID_DRIVE, L)
      else
        (case unregister L of
           None \<Rightarrow> None
         | Some L1 \<Rightarrow>
             (case (if fs then register_fs a b L1 else Some (True, L1)) of
                None \<Rightarrow> None
              | Some (ok, L2) \<Rightarrow>
                  if \<not> ok then Some (FR_INT_ERR, L2)
                  else if opt = 0 then Some (FR_OK, L2)
                  else (case mount_volume lock stat init path 0 L2 of (res, p, L3) \<Rightarrow> Some (res, L3)))))"

subsection \<open>The search reads only\<close>

definition probed :: "fatfs \<Rightarrow> fatfs \<Rightarrow> bool" where
  "probed fs fs1 \<longleftrightarrow> (\<exists>n w s. fs1 = fs\<lparr>wflag := False, winsect := s, win := w, io_count := n\<rparr>)"

definition loaded :: "fatfs \<Rightarrow> bool" where
  "loaded fs \<longleftrightarrow> \<not> wflag fs \<and> (winsect fs \<noteq> 0 - 1 \<longrightarrow> win fs = disk fs (winsect fs))"

lemma probed_refl: "\<not> wflag fs \<Longrightarrow> probed fs fs"
  unfolding probed_def by (intro exI [of _ "io_count fs"] exI [of _ "win fs"] exI [of _ "winsect fs"]) simp

lemma probed_trans: "probed a b \<Longrightarrow> probed b c \<Longrightarrow> probed a c"
  unfolding probed_def by fastforce

lemma boot_kind_values: "boot_kind b \<noteq> 1 \<and> boot_kind b \<noteq> 4"
  by (simp add: boot_kind_def Let_def)

lemma check_fs_probes:
  assumes "check_fs s fs = (fmt, fs1)"
  shows "probed fs fs1 \<and> (fmt \<noteq> 4 \<longrightarrow> loaded fs1) \<and> fmt \<noteq> 1"
proof -
  define g where "g = fs\<lparr>wflag := False, winsect := 0 - 1\<rparr>"
  have ce: "check_fs s fs = (case move_window s g of (res, fs1) \<Rightarrow> if res \<noteq> FR_OK then (4, fs1) else (boot_kind (win fs1), fs1))"
    by (simp only: check_fs_def g_def)
  have sy: "sync_window g = (FR_OK, g)" by (simp add: sync_window_def g_def)
  consider "s = 0 - 1" | "s \<noteq> 0 - 1" "io_fail fs (io_count fs)" | "s \<noteq> 0 - 1" "\<not> io_fail fs (io_count fs)" by blast
  then show ?thesis
  proof cases
    case 1
    then have "move_window s g = (FR_OK, g)" by (simp add: move_window_def g_def)
    then have "fs1 = g" "fmt = boot_kind (win g)" using assms by (auto simp: ce)
    moreover have "probed fs g"
      unfolding probed_def g_def by (intro exI [of _ "io_count fs"] exI [of _ "win fs"] exI [of _ "0 - 1"]) simp
    ultimately show ?thesis using boot_kind_values by (simp add: loaded_def g_def)
  next
    case 2
    moreover have "winsect g = 0 - 1" "io_fail g = io_fail fs" "io_count g = io_count fs" by (simp_all add: g_def)
    ultimately have "move_window s g = (FR_DISK_ERR, g\<lparr>io_count := io_count fs + 1, winsect := 0 - 1\<rparr>)"
      using sy by (simp add: move_window_def disk_read_sector_def)
    then have "check_fs s fs = (4, g\<lparr>io_count := io_count fs + 1, winsect := 0 - 1\<rparr>)" unfolding ce by simp
    then have e: "fs1 = g\<lparr>io_count := io_count fs + 1, winsect := 0 - 1\<rparr>" and "fmt = 4"
      using assms by (metis prod.inject)+
    moreover have "probed fs fs1"
      unfolding probed_def e g_def
      by (intro exI [of _ "io_count fs + 1"] exI [of _ "win fs"] exI [of _ "0 - 1"], cases fs) (simp only: fatfs.update_convs fatfs.select_convs)
    ultimately show ?thesis by simp
  next
    case 3
    moreover have "winsect g = 0 - 1" "io_fail g = io_fail fs" "io_count g = io_count fs" "disk g = disk fs" by (simp_all add: g_def)
    ultimately have "move_window s g = (FR_OK, g\<lparr>io_count := io_count fs + 1, win := disk fs s, winsect := s\<rparr>)"
      using sy by (simp add: move_window_def disk_read_sector_def)
    then have "check_fs s fs = (boot_kind (disk fs s), g\<lparr>io_count := io_count fs + 1, win := disk fs s, winsect := s\<rparr>)"
      unfolding ce by simp
    then have e: "fs1 = g\<lparr>io_count := io_count fs + 1, win := disk fs s, winsect := s\<rparr>" and "fmt = boot_kind (disk fs s)"
      using assms by (metis prod.inject)+
    moreover have "probed fs fs1"
      unfolding probed_def e g_def by (intro exI [of _ "io_count fs + 1"] exI [of _ "disk fs s"] exI [of _ s]) simp
    ultimately show ?thesis using boot_kind_values by (simp add: loaded_def g_def)
  qed
qed

lemma find_part_probes:
  "find_part part pts fs = (fmt, fs1) \<Longrightarrow> \<not> wflag fs \<Longrightarrow> probed fs fs1 \<and> (fmt = 0 \<longrightarrow> loaded fs1) \<and> fmt \<noteq> 1"
proof (induction part pts fs rule: find_part.induct)
  case (2 part pt pts fs)
  obtain f g where c: "(if pt \<noteq> 0 then check_fs pt fs else (3, fs)) = (f, g)" by fastforce
  have g: "probed fs g \<and> (f \<noteq> 4 \<and> f \<noteq> 3 \<longrightarrow> loaded g) \<and> f \<noteq> 1"
    using c check_fs_probes [of pt fs f g] probed_refl [OF 2(3)] by (auto split: if_splits)
  show ?case
  proof (cases "part = 0 \<and> f \<ge> 2 \<and> pts \<noteq> []")
    case True
    have "\<not> wflag g" using g by (auto simp: probed_def)
    then show ?thesis using 2(1) [OF c [symmetric] True] 2(2) c True g by (auto intro: probed_trans)
  next
    case False
    then have "fmt = f" "fs1 = g" using 2(2) c by auto
    then show ?thesis using g by auto
  qed
qed (auto intro: probed_refl)

lemma find_volume_probes:
  assumes "find_volume part fs = (fmt, fs1)"
  shows "probed fs fs1 \<and> (fmt = 0 \<longrightarrow> loaded fs1) \<and> fmt \<noteq> 1"
proof -
  obtain f g where c: "check_fs 0 fs = (f, g)" by fastforce
  note p = check_fs_probes [OF c]
  then have "\<not> wflag g" by (auto simp: probed_def)
  show ?thesis
  proof (cases "f \<noteq> 2 \<and> (f \<ge> 3 \<or> part = 0)")
    case True
    then have "fmt = f" "fs1 = g" using assms c by (auto simp: find_volume_def)
    then show ?thesis using p by auto
  next
    case False
    then obtain pts where "find_part part pts g = (fmt, fs1)" using assms c by (auto simp: find_volume_def Let_def)
    then show ?thesis using find_part_probes [of part pts g fmt fs1] p \<open>\<not> wflag g\<close> by (auto intro: probed_trans)
  qed
qed

subsection \<open>The layout is sound\<close>

lemma nat_pow2: "0 < n \<Longrightarrow> n AND (n - 1) = (0 :: nat) \<Longrightarrow> \<exists>k. n = 2 ^ k"
proof (induction n rule: less_induct)
  case (less n)
  have e: "n AND (n - 1) = of_bool (odd n \<and> odd (n - 1)) + 2 * (n div 2 AND (n - 1) div 2)"
    by (rule and_rec)
  show ?case
  proof (cases "odd n")
    case True
    then have "(n - 1) div 2 = n div 2" by (auto elim: oddE)
    then have "n div 2 = 0" using e less.prems(2) by simp
    then have "n = 2 ^ 0" using less.prems(1) by simp
    then show ?thesis by blast
  next
    case False
    then obtain m where m: "n = 2 * m" by auto
    then have "(n - 1) div 2 = m - 1" using less.prems(1) by simp
    then have "m AND (m - 1) = 0" "0 < m" "m < n" using e less.prems m by auto
    then obtain k where "m = 2 ^ k" using less.IH by blast
    then have "n = 2 ^ Suc k" using m by simp
    then show ?thesis by blast
  qed
qed

lemma word_pow2:
  fixes c :: u16
  assumes "c \<noteq> 0" and "c AND (c - 1) = 0"
  shows "\<exists>k \<le> 15. unat c = 2 ^ k"
proof -
  have "unat (c AND (c - 1)) = unat c AND (unat c - 1)"
    using assms(1) by (simp add: unsigned_and_eq unat_minus_one)
  then have "unat c AND (unat c - 1) = 0" "0 < unat c" using assms by (simp_all add: unat_gt_0)
  then obtain k where k: "unat c = 2 ^ k" using nat_pow2 by blast
  have "unat c < 2 ^ 16" using unsigned_less [of c] by simp
  then have "(2 :: nat) ^ k < 2 ^ 16" using k by simp
  then have "k < 16" using power_strict_increasing_iff [of "2 :: nat" k 16] by (simp del: power_strict_increasing_iff)
  then show ?thesis using k by (intro exI [of _ k]) simp
qed

text \<open>The sizes in a boot sector: of a table, of the volume.\<close>

definition fat_size :: "u8 list \<Rightarrow> u32" where
  "fat_size b = (if ld_word b 22 = 0 then ld_dword b 36 else ucast (ld_word b 22))"

definition vol_size :: "u8 list \<Rightarrow> u32" where
  "vol_size b = (if ld_word b 19 = 0 then ld_dword b 32 else ucast (ld_word b 19))"

text \<open>They fit: neither the area before the clusters nor the end of the volume wraps around.\<close>

definition boot_fits :: "u8 list \<Rightarrow> u32 \<Rightarrow> bool" where
  "boot_fits b s \<longleftrightarrow>
     unat (ld_word b 14) + unat (b ! 16) * unat (fat_size b) + unat (ld_word b 17) div 16 < 2 ^ 32 \<and>
     unat s + unat (vol_size b) < 2 ^ 32 \<and> s \<noteq> 0 - 1"

lemma ucast_zero16: "(ucast (x :: u16) :: u32) = 0 \<longleftrightarrow> x = 0"
  by (simp add: word_unat_eq_iff unat_ucast16)

lemma mount_sizes_ok:
  assumes "mount_sizes fs = (Some (fasize, tsect, nrsv), fs1)"
  shows "fs1 = fs\<lparr>fsize := fat_size (win fs), n_fats := win fs ! 16, csize := ucast (win fs ! 13), n_rootdir := ld_word (win fs) 17\<rparr>"
    and "fasize = fat_size (win fs) * ucast (win fs ! 16)" and "n_fats fs1 = 1 \<or> n_fats fs1 = 2"
    and "csize fs1 \<noteq> 0" and "csize fs1 AND (csize fs1 - 1) = 0"
    and "tsect = vol_size (win fs)" and "nrsv = ld_word (win fs) 14"
  using assms
  by (auto simp: mount_sizes_def Let_def fat_size_def vol_size_def ucast_zero16 split: if_splits)

definition fat_of_size :: "u32 \<Rightarrow> fat_type" where
  "fat_of_size nclst = (if nclst \<le> 0xFF5 then FS_FAT12 else if nclst \<le> 0xFFF5 then FS_FAT16
     else if nclst \<le> 0x0FFFFFF5 then FS_FAT32 else FS_NONE)"

definition fat_need :: "fat_type \<Rightarrow> u32 \<Rightarrow> u32" where
  "fat_need fmt n = (if fmt = FS_FAT32 then n * 4 else if fmt = FS_FAT16 then n * 2 else n * 3 div 2 + (n AND 1))"

lemma mount_layout_ok:
  assumes "mount_layout bsect (fasize, tsect, nrsv) fs = (Some fmt, fs1)"
  defines "sysect \<equiv> ucast nrsv + fasize + ucast (n_rootdir fs div 16)"
  defines "nclst \<equiv> (tsect - sysect) div ucast (csize fs)"
  shows "sysect \<le> tsect" and "nclst \<noteq> 0" and "fmt = fat_of_size nclst" and "fmt \<noteq> FS_NONE"
    and "\<exists>d. fs1 = fs\<lparr>n_fatent := nclst + 2, volbase := bsect, fatbase := bsect + ucast nrsv, database := bsect + sysect, dirbase := d\<rparr>"
    and "(fat_need fmt (nclst + 2) + 511) div 512 \<le> fsize fs"
  using assms(1)
  by (auto simp: mount_layout_def Let_def fat_of_size_def fat_need_def sysect_def nclst_def not_less split: if_splits)

lemma unat_add: "unat x + unat y < 2 ^ 32 \<Longrightarrow> unat (x + y :: u32) = unat x + unat y"
  by (simp add: unat_plus_if')

lemma unat_mul: "unat x * unat y < 2 ^ 32 \<Longrightarrow> unat (x * y :: u32) = unat x * unat y"
  by (simp add: unat_mult_lem [symmetric])

lemma unat_ucast8: "unat (ucast (x :: u8) :: u32) = unat x"
proof -
  have "unat x < 2 ^ 8" using unsigned_less [of x] by simp
  then show ?thesis by (simp add: unsigned_ucast_eq take_bit_nat_eq_self)
qed

lemma fat_need_bytes:
  assumes n: "unat n \<le> 0x0FFFFFF7" and t: "fs_type fs \<noteq> FS_NONE" and e: "n_fatent fs = n"
    and f: "(fat_need (fs_type fs) n + 511) div 512 \<le> f"
  shows "fat_bytes fs \<le> 512 * unat f"
proof -
  define m where "m = unat n"
  have m: "m \<le> 0x0FFFFFF7" using n by (simp add: m_def)
  have 4: "unat (n * 4) = m * 4" "unat (n * 3) = m * 3" "unat (n * 2) = m * 2"
    using m by (simp_all add: unat_mul m_def)
  have 1: "unat (n AND 1) = m mod 2" by (simp add: and_one_eq unat_mod m_def)
  have "unat (n * 3 div 2 + (n AND 1)) = m * 3 div 2 + m mod 2"
  proof -
    have "m * 3 div 2 + m mod 2 < 2 ^ 32" using m by simp
    then show ?thesis using 4(2) 1 by (subst unat_add) (simp_all add: unat_div)
  qed
  then have need: "unat (fat_need (fs_type fs) n) = fat_bytes fs"
    using t 4 e by (cases "fs_type fs") (simp_all add: fat_need_def fat_bytes_def m_def Let_def)
  have small: "fat_bytes fs \<le> 4 * m" using e t by (cases "fs_type fs") (simp_all add: fat_bytes_def m_def Let_def)
  then have "unat (fat_need (fs_type fs) n + 511) = fat_bytes fs + 511" using need m by (subst unat_add) simp_all
  then have "(fat_bytes fs + 511) div 512 \<le> unat f" using f by (simp add: word_le_nat_alt unat_div)
  then show ?thesis by linarith
qed

lemma mount_geometry:
  assumes sz: "mount_sizes fs = (Some (fasize, tsect, nrsv), fs1)"
    and ly: "mount_layout bsect (fasize, tsect, nrsv) fs1 = (Some fmt, fs2)" and ft: "boot_fits (win fs) bsect"
  shows "data_geometry (fs2\<lparr>fs_type := fmt\<rparr>)"
    and "unat (database fs2) + unat (csize fs2) * (unat (n_fatent fs2) - 2) \<le> unat bsect + unat (vol_size (win fs))"
    and "fmt = fat_of_size (n_fatent fs2 - 2)"
    and "unat (fatbase fs2) = unat bsect + unat (ld_word (win fs) 14)"
proof -
  define b where "b = win fs"
  define R where "R = unat (ld_word b 14)"
  define N where "N = unat (b ! 16)"
  define F where "F = unat (fat_size b)"
  define D where "D = unat (ld_word b 17) div 16"
  define T where "T = unat (vol_size b)"
  define C where "C = unat (csize fs1)"
  note S = mount_sizes_ok [OF sz]
  note L = mount_layout_ok [OF ly]
  define sysect where "sysect = ucast nrsv + fasize + ucast (n_rootdir fs1 div 16)"
  define nclst where "nclst = (tsect - sysect) div ucast (csize fs1)"
  note L = mount_layout_ok [OF ly, folded sysect_def, folded nclst_def]
  have fit: "R + N * F + D < 2 ^ 32" "unat bsect + T < 2 ^ 32"
    using ft by (simp_all add: boot_fits_def R_def N_def F_def D_def T_def b_def)
  have fa: "unat fasize = N * F"
  proof -
    have "F * N < 2 ^ 32" using fit(1) by (simp add: mult.commute)
    then show ?thesis using S(2) by (simp add: unat_mul unat_ucast8 F_def N_def b_def mult.commute)
  qed
  have r: "unat (ucast nrsv :: u32) = R" using S(7) by (simp add: unat_ucast16 R_def b_def)
  have d: "unat (ucast (n_rootdir fs1 div 16) :: u32) = D" using S(1) by (simp add: unat_ucast16 D_def b_def unat_div)
  have "unat (ucast nrsv + fasize) = R + N * F" using fit(1) r fa by (subst unat_add) simp_all
  then have sy: "unat sysect = R + N * F + D" using fit(1) d unfolding sysect_def by (subst unat_add) simp_all
  have ts: "unat tsect = T" using S(6) by (simp add: T_def b_def)
  have st: "R + N * F + D \<le> T" using L(1) sy ts by (simp add: word_le_nat_alt)
  have c: "unat (ucast (csize fs1) :: u32) = C" by (simp add: unat_ucast16 C_def)
  have nc: "unat nclst = (T - (R + N * F + D)) div C"
    using L(1) sy ts c by (simp add: nclst_def unat_div unat_sub word_le_nat_alt)
  have lim: "unat nclst \<le> 0x0FFFFFF5" using L(3,4) by (auto simp: fat_of_size_def word_le_nat_alt split: if_splits)
  obtain dd where e: "fs2 = fs1\<lparr>n_fatent := nclst + 2, volbase := bsect, fatbase := bsect + ucast nrsv, database := bsect + sysect, dirbase := dd\<rparr>"
    using L(5) by blast
  have n: "unat (nclst + 2) = unat nclst + 2" using lim by (subst unat_add) simp_all
  have fb: "unat (bsect + ucast nrsv) = unat bsect + R" using fit(2) st r by (subst unat_add) simp_all
  have db: "unat (bsect + sysect) = unat bsect + (R + N * F + D)" using fit(2) st sy by (subst unat_add) simp_all
  have end_: "C * unat nclst \<le> T - (R + N * F + D)" unfolding nc by simp
  have f2: "n_fats fs2 = b ! 16" "fsize fs2 = fat_size b" using S(1) by (simp_all add: e b_def)
  have gt: "geometry (fs2\<lparr>fs_type := fmt\<rparr>)"
  proof -
    have "0 < unat nclst" using L(2) by (simp add: unat_gt_0)
    then have "2 < nclst + 2" using n by (simp add: word_less_nat_alt)
    moreover have "nclst + 2 \<le> max_fatent fmt"
      using L(3,4) n by (auto simp: fat_of_size_def max_fatent_def word_le_nat_alt split: if_splits)
    moreover have "fat_bytes (fs2\<lparr>fs_type := fmt\<rparr>) \<le> 512 * unat (fsize fs1)"
      by (rule fat_need_bytes [of "nclst + 2"]) (use lim n L(4,6) e in simp_all)
    moreover have "unat bsect + R + N * F \<le> unat bsect + (R + N * F + D)" by simp
    moreover have "n_fats fs1 \<in> {1, 2}" using S(3) by simp
    ultimately show ?thesis
      using L(4) f2 fb db e S(1) by (simp add: geometry_def N_def F_def b_def)
  qed
  have lt: "unat (database fs2) + unat (csize fs2) * (unat (n_fatent fs2) - 2) \<le> unat bsect + T"
    using end_ st db n by (simp add: e C_def)
  then show "unat (database fs2) + unat (csize fs2) * (unat (n_fatent fs2) - 2) \<le> unat bsect + unat (vol_size (win fs))"
    by (simp add: T_def b_def)
  obtain k where "k \<le> 15" "unat (csize fs1) = 2 ^ k" using word_pow2 [OF S(4,5)] by blast
  then show "data_geometry (fs2\<lparr>fs_type := fmt\<rparr>)" using gt lt fit(2) by (auto simp: data_geometry_def e)
  show "fmt = fat_of_size (n_fatent fs2 - 2)" using L(3) by (simp add: e)
  show "unat (fatbase fs2) = unat bsect + unat (ld_word (win fs) 14)" using fb by (simp add: e R_def b_def)
qed

subsection \<open>A successful mount\<close>

definition info_kept :: "fatfs \<Rightarrow> fatfs \<Rightarrow> bool" where
  "info_kept fs r \<longleftrightarrow> disk r = disk fs \<and> io_fail r = io_fail fs \<and> wflag r = wflag fs \<and> n_fats r = n_fats fs \<and>
     n_rootdir r = n_rootdir fs \<and> csize r = csize fs \<and> n_fatent r = n_fatent fs \<and> fsize r = fsize fs \<and>
     volbase r = volbase fs \<and> fatbase r = fatbase fs \<and> dirbase r = dirbase fs \<and> database r = database fs"

lemma move_window_clean:
  assumes "\<not> wflag fs" and "move_window s fs = (res, fs1)"
  shows "info_kept fs fs1" and "window_ok fs \<Longrightarrow> window_ok fs1"
proof -
  have sy: "sync_window fs = (FR_OK, fs)" using assms(1) by (simp add: sync_window_def)
  have "info_kept fs fs1 \<and> (window_ok fs \<longrightarrow> window_ok fs1)"
  proof (cases "s = winsect fs")
    case True
    then have "fs1 = fs" using assms(2) by (simp add: move_window_def)
    then show ?thesis by (simp add: info_kept_def)
  next
    case False
    define g where "g = snd (disk_read_sector s fs)"
    have g: "info_kept fs g" "window_ok fs \<Longrightarrow> window_ok g" "\<not> wflag g" "disk g = disk fs"
      using assms(1) by (simp_all add: g_def disk_read_sector_def info_kept_def window_ok_def)
    show ?thesis
    proof (cases "io_fail fs (io_count fs)")
      case True
      then have "move_window s fs = (FR_DISK_ERR, g\<lparr>winsect := 0 - 1\<rparr>)"
        using False sy by (simp add: move_window_def disk_read_sector_def g_def)
      then have e: "fs1 = g\<lparr>winsect := 0 - 1\<rparr>" using assms(2) by (metis prod.inject)
      show ?thesis unfolding e using g by (simp add: info_kept_def window_ok_def)
    next
      case ok: False
      then have "move_window s fs = (FR_OK, g\<lparr>win := disk fs s, winsect := s\<rparr>)"
        using False sy by (simp add: move_window_def disk_read_sector_def g_def)
      then have e: "fs1 = g\<lparr>win := disk fs s, winsect := s\<rparr>" using assms(2) by (metis prod.inject)
      show ?thesis unfolding e using g by (simp add: info_kept_def window_ok_def)
    qed
  qed
  then show "info_kept fs fs1" and "window_ok fs \<Longrightarrow> window_ok fs1" by simp_all
qed

lemma mount_info_ok:
  assumes "\<not> wflag fs"
  shows "info_kept fs (mount_info bsect fmt fs)" and "window_ok fs \<Longrightarrow> window_ok (mount_info bsect fmt fs)"
proof -
  define fs1 where "fs1 = fs\<lparr>last_clst := 0xFFFFFFFF, free_clst := 0xFFFFFFFF, fsi_flag := 0x80\<rparr>"
  have w1: "\<not> wflag fs1" "window_ok fs \<Longrightarrow> window_ok fs1" "info_kept fs fs1" using assms by (simp_all add: fs1_def window_ok_def info_kept_def)
  obtain res fs2 where mv: "move_window (bsect + 1) fs1 = (res, fs2)" by fastforce
  note m = move_window_clean [OF w1(1) mv]
  have k2: "info_kept fs fs2" using m(1) w1(3) by (simp add: info_kept_def)
  have up: "info_kept fs (fs2\<lparr>fsi_flag := c\<rparr>)" "window_ok fs \<Longrightarrow> window_ok (fs2\<lparr>fsi_flag := c\<rparr>)"
    "info_kept fs (fs2\<lparr>fsi_flag := c, free_clst := a, last_clst := b\<rparr>)"
    "window_ok fs \<Longrightarrow> window_ok (fs2\<lparr>fsi_flag := c, free_clst := a, last_clst := b\<rparr>)" for a b c
    using k2 m(2) w1(2) by (simp_all add: info_kept_def window_ok_def)
  show "info_kept fs (mount_info bsect fmt fs)" and "window_ok fs \<Longrightarrow> window_ok (mount_info bsect fmt fs)"
    unfolding mount_info_def fs1_def [symmetric] Let_def mv prod.case using w1 k2 m(2) up by simp_all
qed

lemma info_kept_geometry:
  assumes "info_kept fs r"
  shows "data_geometry (r\<lparr>fs_type := t, vol_id := i, cdir := d\<rparr>) = data_geometry (fs\<lparr>fs_type := t\<rparr>)"
  using assms by (simp add: info_kept_def data_geometry_def geometry_def fat_bytes_def)

text \<open>The FSInfo sector lies between the boot sector and the tables if there is room for it.\<close>

lemma unat_numeral_u32: "unat (0xFFFFFFFF :: u32) = 0xFFFFFFFF"
  by simp

lemma info_sector_outside:
  assumes v: "unat (fatbase fs) = unat (volbase fs) + R" and r: "2 \<le> R" and n: "n_fats fs = 1 \<or> n_fats fs = 2"
    and e: "unat (fatbase fs) + unat (n_fats fs) * unat (fsize fs) < 2 ^ 32"
  shows "info_outside fs"
proof -
  have v1: "unat (volbase fs + 1) = unat (volbase fs) + 1" using v r e by (subst unat_add) simp_all
  have "volbase fs + 1 \<noteq> 0 - 1"
  proof
    assume "volbase fs + 1 = 0 - 1"
    moreover have "(0 - 1 :: u32) = 0xFFFFFFFF" by simp
    ultimately have "unat (volbase fs + 1) = 0xFFFFFFFF" by (simp only: unat_numeral_u32)
    then show False using v v1 r e by simp
  qed
  moreover have "\<not> in_fat1 fs (volbase fs + 1)"
    using v v1 r e n by (auto simp: in_fat1_def word_less_nat_alt unat_sub_if')
  moreover have "\<not> in_fat2 fs (volbase fs + 1)"
  proof (cases "n_fats fs = 2")
    case True
    then have "unat (fatbase fs + fsize fs) = unat (fatbase fs) + unat (fsize fs)" using e by (subst unat_add) simp_all
    then show ?thesis using v v1 r e True by (auto simp: in_fat2_def word_less_nat_alt unat_sub_if')
  qed (simp add: in_fat2_def)
  ultimately show ?thesis by (simp add: info_outside_def)
qed

lemma mount_fresh_ok:
  assumes m: "mount_fresh init mode L = (FR_OK, L')"
    and d: "\<forall>s. length (disk (lib_fs L) s) = 512" and w: "length (win (lib_fs L)) = 512"
    and f: "boot_fits (disk (lib_fs L) (volbase (lib_fs L'))) (volbase (lib_fs L'))"
  defines "fs \<equiv> lib_fs L'" and "b \<equiv> disk (lib_fs L) (volbase (lib_fs L'))"
  shows "mounted fs" and "data_geometry fs" and "disk fs = disk (lib_fs L)" and "io_fail fs = io_fail (lib_fs L)"
    and "\<not> wflag fs"
    and "unat (database fs) + unat (csize fs) * (unat (n_fatent fs) - 2) \<le> unat (volbase fs) + unat (vol_size b)"
    and "fs_type fs = fat_of_size (n_fatent fs - 2)" and "unat (fatbase fs) = unat (volbase fs) + unat (ld_word b 14)"
    and "vol_id fs = Fsid L + 1" and "lib_files L' = clear_share (lib_files L)" and "lib_registered L' = lib_registered L"
    and "Fsid L' = Fsid L + 1"
proof -
  define fs0 where "fs0 = (lib_fs L)\<lparr>fs_type := FS_NONE\<rparr>"
  obtain fmt0 fs1 where fv: "find_volume 0 fs0 = (fmt0, fs1)" by fastforce
  note pr = find_volume_probes [OF fv]
  have "fmt0 \<noteq> 4 \<and> \<not> fmt0 \<ge> 2"
    using m fv unfolding mount_fresh_def fs0_def [symmetric] by (auto simp: Let_def split: if_splits)
  then have z: "fmt0 = 0" using pr by linarith
  obtain fasize tsect nrsv fs2 fmt fs3 where sz: "mount_sizes fs1 = (Some (fasize, tsect, nrsv), fs2)"
    and ly: "mount_layout (winsect fs1) (fasize, tsect, nrsv) fs2 = (Some fmt, fs3)"
    and L': "L' = L\<lparr>lib_fs := (mount_info (winsect fs1) fmt fs3)\<lparr>fs_type := fmt, vol_id := Fsid L + 1, cdir := 0\<rparr>,
        Fsid := Fsid L + 1, lib_files := clear_share (lib_files L)\<rparr>"
    using m fv z unfolding mount_fresh_def fs0_def [symmetric]
    by (auto simp: Let_def split: if_splits option.splits prod.splits)
  have p1: "disk fs1 = disk (lib_fs L)" "\<not> wflag fs1" "io_fail fs1 = io_fail (lib_fs L)"
    using pr by (auto simp: probed_def fs0_def)
  have ld: "winsect fs1 \<noteq> 0 - 1 \<Longrightarrow> win fs1 = disk fs1 (winsect fs1)" using pr z by (simp add: loaded_def)
  obtain dd where e3: "fs3 = fs2\<lparr>n_fatent := n_fatent fs3, volbase := winsect fs1, fatbase := fatbase fs3, database := database fs3, dirbase := dd\<rparr>"
    using mount_layout_ok(5) [OF ly] by (auto)
  note e2 = mount_sizes_ok(1) [OF sz]
  define g where "g = mount_info (winsect fs1) fmt fs3"
  have fse: "fs = g\<lparr>fs_type := fmt, vol_id := Fsid L + 1, cdir := 0\<rparr>" by (simp add: fs_def L' g_def)
  have k3: "disk fs3 = disk fs1" "wflag fs3 = wflag fs1" "io_fail fs3 = io_fail fs1" "win fs3 = win fs1" "winsect fs3 = winsect fs1"
    "volbase fs3 = winsect fs1"
    by (subst e3, simp add: e2)+
  have kg: "info_kept fs3 g" using mount_info_ok(1) [of fs3] k3(2) p1(2) by (simp add: g_def)
  have vb: "volbase fs = winsect fs1" using kg k3(6) by (simp add: fse info_kept_def)
  have fit: "boot_fits b (winsect fs1)" using f vb by (simp add: b_def fs_def)
  have wn: "win fs1 = b" using ld fit p1(1) vb by (simp add: b_def fs_def boot_fits_def)
  have w3: "window_ok fs3" using wn d p1 k3 by (auto simp: window_ok_def b_def ld)
  then have wg: "window_ok g" using mount_info_ok(2) [of fs3] k3(2) p1(2) by (simp add: g_def)
  note G = mount_geometry [OF sz ly fit [folded wn]]
  have dg: "data_geometry fs" unfolding fse info_kept_geometry [OF kg] by (rule G(1))
  then show "data_geometry fs" .
  show "mounted fs" using dg wg by (simp add: mounted_def data_geometry_def) (simp add: fse window_ok_def)
  show "disk fs = disk (lib_fs L)" "io_fail fs = io_fail (lib_fs L)" "\<not> wflag fs"
    using kg k3 p1 by (simp_all add: fse info_kept_def)
  show "unat (database fs) + unat (csize fs) * (unat (n_fatent fs) - 2) \<le> unat (volbase fs) + unat (vol_size b)"
    and "fs_type fs = fat_of_size (n_fatent fs - 2)" and "unat (fatbase fs) = unat (volbase fs) + unat (ld_word b 14)"
    using G(2-4) kg k3(6) wn by (simp_all add: fse info_kept_def)
  show "vol_id fs = Fsid L + 1" by (simp add: fse)
  show "lib_files L' = clear_share (lib_files L)" "lib_registered L' = lib_registered L" "Fsid L' = Fsid L + 1"
    by (simp_all add: L')
qed

text \<open>
  C15: a mount that succeeds establishes what every operation on the tables and on files relies
  on: the window, the place and size of the tables, the number of entries, the place of the
  clusters inside the volume, and the type that belongs to the number of clusters; nothing is
  written, the mount has a new id and no file is open. It does so when the sizes in the boot
  sector do not wrap around, and the FSInfo sector is apart from the tables when two sectors are
  reserved.
\<close>

theorem mount_establishes_layout:
  assumes "mount_volume lock stat init path mode L = (FR_OK, p, L')"
    and "fs_type (lib_fs L) = FS_NONE \<or> stat AND STA_NOINIT \<noteq> 0"
    and "\<forall>s. length (disk (lib_fs L) s) = 512" and "length (win (lib_fs L)) = 512"
    and "boot_fits (disk (lib_fs L) (volbase (lib_fs L'))) (volbase (lib_fs L'))"
  shows "mounted (lib_fs L') \<and> data_geometry (lib_fs L') \<and> disk (lib_fs L') = disk (lib_fs L) \<and>
    unat (database (lib_fs L')) + unat (csize (lib_fs L')) * (unat (n_fatent (lib_fs L')) - 2) \<le>
      unat (volbase (lib_fs L')) + unat (vol_size (disk (lib_fs L) (volbase (lib_fs L')))) \<and>
    fs_type (lib_fs L') = fat_of_size (n_fatent (lib_fs L') - 2) \<and>
    (2 \<le> unat (ld_word (disk (lib_fs L) (volbase (lib_fs L'))) 14) \<longrightarrow> info_outside (lib_fs L')) \<and>
    vol_id (lib_fs L') = Fsid L + 1 \<and> (\<forall>e \<in> set (lib_files L'). \<not> f_used e)"
proof -
  have "mount_fresh init (mode AND NOT FA_READ) L = (FR_OK, L')"
    using assms(1,2) by (auto simp: mount_volume_def Let_def split: if_splits prod.splits)
  note m = mount_fresh_ok [OF this assms(3,4,5)]
  have g: "geometry (lib_fs L')" using m(1) by (simp add: mounted_def)
  have "info_outside (lib_fs L')" if "2 \<le> unat (ld_word (disk (lib_fs L) (volbase (lib_fs L'))) 14)"
  proof (rule info_sector_outside [OF m(8) that])
    show "n_fats (lib_fs L') = 1 \<or> n_fats (lib_fs L') = 2" using g by (simp add: geometry_def)
    show "unat (fatbase (lib_fs L')) + unat (n_fats (lib_fs L')) * unat (fsize (lib_fs L')) < 2 ^ 32"
      using g unat_u32_less [of "database (lib_fs L')"] by (simp add: geometry_def)
  qed
  then show ?thesis using m by (simp add: clear_share_def)
qed

definition demo_boot :: "u8 list" where
  "demo_boot = (replicate 512 0)[0 := 0xEB, 12 := 2, 13 := 1, 14 := 1, 16 := 1, 17 := 16, 19 := 128, 22 := 1, 510 := 0x55, 511 := 0xAA]"

lemma demo_boot_words:
  "ld_word demo_boot 11 = 512" "demo_boot ! 13 = 1" "ld_word demo_boot 14 = 1" "demo_boot ! 16 = 1" "ld_word demo_boot 17 = 16"
  "ld_word demo_boot 19 = 128" "ld_word demo_boot 22 = 1" "ld_word demo_boot 510 = 0xAA55" "demo_boot ! 0 = 0xEB" "length demo_boot = 512"
  by (simp_all add: demo_boot_def ld_word_def nth_list_update)

definition demo_lib :: "u8 list \<Rightarrow> fatlib" where
  "demo_lib boot = \<lparr>lib_fs = (demo_fs FS_NONE)\<lparr>disk := (\<lambda>s. if s = 0 then boot else replicate 512 0)\<rparr>,
     lib_registered = True, Fsid = 0, lib_files = no_files 1,
     lib_mutexes = \<lparr>ff_Mutex = [0 \<mapsto> 0, 1 \<mapsto> 1], ff_sems = [0 \<mapsto> None, 1 \<mapsto> None]\<rparr>, SysLock = 1\<rparr>"

lemma demo_found:
  assumes "boot_kind boot = 0"
  shows "find_volume 0 ((lib_fs (demo_lib boot))\<lparr>fs_type := FS_NONE\<rparr>) =
    (0, (lib_fs (demo_lib boot))\<lparr>fs_type := FS_NONE, wflag := False, io_count := 1, win := boot, winsect := 0\<rparr>)"
  using assms
  by (simp add: find_volume_def check_fs_def move_window_def sync_window_def disk_read_sector_def demo_lib_def demo_fs_def)

lemma demo_mounted: "fst (mount_volume True STA_NOINIT 0 (Some []) 0 (demo_lib demo_boot)) = FR_OK"
  "volbase (lib_fs (snd (snd (mount_volume True STA_NOINIT 0 (Some []) 0 (demo_lib demo_boot))))) = 0"
proof -
  have k: "boot_kind demo_boot = 0" by (simp add: boot_kind_def demo_boot_words Let_def)
  show "fst (mount_volume True STA_NOINIT 0 (Some []) 0 (demo_lib demo_boot)) = FR_OK"
    "volbase (lib_fs (snd (snd (mount_volume True STA_NOINIT 0 (Some []) 0 (demo_lib demo_boot))))) = 0"
    using demo_found [OF k] demo_boot_words
    by (simp_all add: mount_volume_def get_ldnumber_def path_at_def demo_lib_def mount_fresh_def mount_sizes_def
      mount_layout_def mount_info_def Let_def)
qed

theorem mount_establishes_layout_witness:
  "case mount_volume True STA_NOINIT 0 (Some []) 0 (demo_lib demo_boot) of (res, p, L') \<Rightarrow>
     res = FR_OK \<and> data_geometry (lib_fs L') \<and> fs_type (lib_fs L') = fat_of_size (n_fatent (lib_fs L') - 2)"
proof -
  obtain res p L' where m: "mount_volume True STA_NOINIT 0 (Some []) 0 (demo_lib demo_boot) = (res, p, L')"
    by (metis prod_cases3)
  have r: "res = FR_OK" "volbase (lib_fs L') = 0" using demo_mounted m by simp_all
  have "boot_fits demo_boot 0"
    using demo_boot_words by (simp add: boot_fits_def fat_size_def vol_size_def)
  then show ?thesis
    using mount_establishes_layout [OF m [unfolded r(1)]] r m demo_boot_words(10) by (simp add: demo_lib_def demo_fs_def)
qed

text \<open>
  The sizes are not checked: a boot sector whose two tables have \<open>2 ^ 31\<close> sectors each is
  mounted, with the clusters where the tables are.
\<close>

definition wrap_boot :: "u8 list" where
  "wrap_boot = (replicate 512 0)[0 := 0xEB, 12 := 2, 13 := 1, 14 := 1, 16 := 2, 34 := 2, 39 := 0x80, 44 := 2,
     82 := 0x46, 83 := 0x41, 84 := 0x54, 85 := 0x33, 86 := 0x32, 87 := 0x20, 88 := 0x20, 89 := 0x20, 510 := 0x55, 511 := 0xAA]"

lemma wrap_boot_words:
  "ld_word wrap_boot 11 = 512" "wrap_boot ! 13 = 1" "ld_word wrap_boot 14 = 1" "wrap_boot ! 16 = 2" "ld_word wrap_boot 17 = 0"
  "ld_word wrap_boot 19 = 0" "ld_word wrap_boot 22 = 0" "ld_word wrap_boot 510 = 0xAA55" "wrap_boot ! 0 = 0xEB"
  "ld_dword wrap_boot 32 = 0x20000" "ld_dword wrap_boot 36 = 0x80000000" "ld_word wrap_boot 42 = 0" "ld_dword wrap_boot 44 = 2"
  "ld_word wrap_boot 48 = 0"
  by (simp_all add: wrap_boot_def ld_word_def ld_dword_def nth_list_update Let_def)

lemma wrap_boot_name: "take 8 (drop 82 wrap_boot) = [0x46, 0x41, 0x54, 0x33, 0x32, 0x20, 0x20, 0x20]"
proof -
  have "take 8 (drop 82 wrap_boot) = map (\<lambda>i. wrap_boot ! (82 + i)) [0..<8]"
    by (rule nth_equalityI) (simp_all add: wrap_boot_def)
  then show ?thesis by (simp add: wrap_boot_def upt_rec nth_list_update)
qed

theorem mount_size_wraps:
  "case mount_volume True STA_NOINIT 0 (Some []) 0 (demo_lib wrap_boot) of (res, p, L') \<Rightarrow>
     res = FR_OK \<and> database (lib_fs L') = fatbase (lib_fs L') \<and> fsize (lib_fs L') = 0x80000000 \<and> \<not> geometry (lib_fs L')"
proof -
  have k: "boot_kind wrap_boot = 0" by (simp add: boot_kind_def wrap_boot_words wrap_boot_name Let_def)
  show ?thesis
    using demo_found [OF k] wrap_boot_words
    by (simp add: mount_volume_def get_ldnumber_def path_at_def demo_lib_def mount_fresh_def mount_sizes_def
      mount_layout_def mount_info_def Let_def geometry_def)
qed

end
