(* ===== verification/FatFs_Api.thy ===== *)
theory FatFs_Api
  imports FatFs_Mount FatFs_Dir
begin

text \<open>
  The functions of \<open>ff.c\<close> that an application calls with a path: opening and closing of files
  and directories, listing, status, free space, deletion, creation and renaming. Each one mounts
  the volume if that is needed, follows the path, and works on the entry it finds.
\<close>

text \<open>
  The answers of the environment to one call: the lock, the status of the drive, what its
  initialisation answers, and the time \<open>GET_FATTIME\<close> gives. What a call does between taking and
  releasing the lock is modelled; \<open>lock_volume\<close> and \<open>unlock_volume\<close> are in \<open>FatFs_Mount\<close>.
\<close>

record ff_answers =
  a_lock :: bool
  a_stat :: u8
  a_init :: u8
  a_time :: u32

abbreviation (input) FA_CREATE_NEW :: u8 where "FA_CREATE_NEW \<equiv> 0x04"
abbreviation (input) FA_CREATE_ALWAYS :: u8 where "FA_CREATE_ALWAYS \<equiv> 0x08"
abbreviation (input) FA_OPEN_ALWAYS :: u8 where "FA_OPEN_ALWAYS \<equiv> 0x10"
abbreviation (input) FA_SEEKEND :: u8 where "FA_SEEKEND \<equiv> 0x20"

text \<open>
  The path to its entry; \<open>Inl\<close> when the volume is not mounted. The directory object comes in
  as the caller, or the stack, has it.
\<close>

definition locate :: "ff_answers \<Rightarrow> u8 \<Rightarrow> u8 list \<Rightarrow> dirobj \<Rightarrow> fatlib \<Rightarrow> ((FRESULT + FRESULT) \<times> dirobj \<times> fatlib) option" where
  "locate A mode path dj L =
     (case mount_volume (a_lock A) (a_stat A) (a_init A) (Some path) mode L of
        (res, p, L1) \<Rightarrow>
          if res \<noteq> FR_OK then Some (Inl res, dj, L1)
          else (case follow_path p dj (lib_fs L1) of
                  None \<Rightarrow> None
                | Some (res, dj1, fs1) \<Rightarrow> Some (Inr res, dj1, L1\<lparr>lib_fs := fs1\<rparr>)))"

definition on_volume_opt :: "(fatfs \<Rightarrow> (FRESULT \<times> fatfs) option) \<Rightarrow> fatlib \<Rightarrow> (FRESULT \<times> fatlib) option" where
  "on_volume_opt f L = map_option (\<lambda>(res, fs1). (res, L\<lparr>lib_fs := fs1\<rparr>)) (f (lib_fs L))"

definition dir_obj :: "dirobj \<Rightarrow> u32 \<times> u32" where
  "dir_obj dp = (d_sclust dp, dptr dp)"

definition set_byte :: "nat \<Rightarrow> u8 \<Rightarrow> fatfs \<Rightarrow> fatfs" where
  "set_byte i b fs = fs\<lparr>win := (win fs)[i := b]\<rparr>"

definition set_word :: "nat \<Rightarrow> u16 \<Rightarrow> fatfs \<Rightarrow> fatfs" where
  "set_word i w fs = fs\<lparr>win := st_word (win fs) i w\<rparr>"

definition set_dword :: "nat \<Rightarrow> u32 \<Rightarrow> fatfs \<Rightarrow> fatfs" where
  "set_dword i w fs = fs\<lparr>win := st_dword (win fs) i w\<rparr>"

subsection \<open>Opening a file\<close>

definition open_acc :: "u8 \<Rightarrow> nat" where
  "open_acc mode = (if mode AND NOT FA_READ \<noteq> 0 then 1 else 0)"

definition open_check :: "u8 \<Rightarrow> dirobj \<Rightarrow> fatlib \<Rightarrow> FRESULT" where
  "open_check mode dj L =
     (if d_fn dj ! 11 AND NS_NONAME \<noteq> 0 then FR_INVALID_NAME
      else chk_share (dir_obj dj) (open_acc mode) (lib_files L))"

text \<open>The entry of a file that is created or overwritten.\<close>

definition open_reset :: "u32 \<Rightarrow> dirobj \<Rightarrow> fatfs \<Rightarrow> (FRESULT \<times> fatfs) option" where
  "open_reset tm dj fs =
     (let i = d_ofs dj; fs1 = set_dword (i + 22) tm (set_dword (i + 14) tm fs); cl = ld_clust fs1 i;
          fs2 = (set_dword (i + 28) 0 (st_clust i 0 (set_byte (i + 11) AM_ARC fs1)))\<lparr>wflag := True\<rparr>
      in if cl \<noteq> 0 then
           (let sc = winsect fs2
            in case remove_chain cl 0 fs2 of
                 None \<Rightarrow> None
               | Some (res, fs3) \<Rightarrow>
                   if res = FR_OK then
                     (case move_window sc fs3 of (res, fs4) \<Rightarrow> Some (res, fs4\<lparr>last_clst := cl - 1\<rparr>))
                   else Some (res, fs3))
         else Some (FR_OK, fs2))"

text \<open>A missing file is registered, an existing one may be refused; the mode may change.\<close>

definition open_create :: "u8 \<Rightarrow> FRESULT \<Rightarrow> dirobj \<Rightarrow> fatlib \<Rightarrow> (FRESULT \<times> u8 \<times> dirobj \<times> fatlib) option" where
  "open_create mode res dj L =
     (if res \<noteq> FR_OK then
        (case (if res = FR_NO_FILE then
                 (if enq_share (lib_files L) then dir_register dj (lib_fs L)
                  else Some (FR_TOO_MANY_OPEN_FILES, dj, lib_fs L))
               else Some (res, dj, lib_fs L)) of
           None \<Rightarrow> None
         | Some (res, dj1, fs1) \<Rightarrow> Some (res, mode OR FA_CREATE_ALWAYS, dj1, L\<lparr>lib_fs := fs1\<rparr>))
      else if d_attr dj AND (AM_RDO OR AM_DIR) \<noteq> 0 then Some (FR_DENIED, mode, dj, L)
      else if mode AND FA_CREATE_NEW \<noteq> 0 then Some (FR_EXIST, mode, dj, L)
      else Some (FR_OK, mode, dj, L))"

definition open_entry :: "u32 \<Rightarrow> u8 \<Rightarrow> FRESULT \<Rightarrow> dirobj \<Rightarrow> fatlib \<Rightarrow> (FRESULT \<times> u8 \<times> dirobj \<times> fatlib) option" where
  "open_entry tm mode res dj L =
     (if mode AND (FA_CREATE_ALWAYS OR FA_OPEN_ALWAYS OR FA_CREATE_NEW) \<noteq> 0 then
        (case open_create mode res dj L of
           None \<Rightarrow> None
         | Some (res, mode, dj1, L1) \<Rightarrow>
             if res = FR_OK \<and> mode AND FA_CREATE_ALWAYS \<noteq> 0 then
               map_option (\<lambda>(res, L2). (res, mode, dj1, L2)) (on_volume_opt (open_reset tm dj1) L1)
             else Some (res, mode, dj1, L1))
      else if res = FR_OK then
        Some (if d_attr dj AND AM_DIR \<noteq> 0 then FR_NO_FILE
              else if mode AND FA_WRITE \<noteq> 0 \<and> d_attr dj AND AM_RDO \<noteq> 0 then FR_DENIED else FR_OK, mode, dj, L)
      else Some (res, mode, dj, L))"

text \<open>The place of the entry and the lock in the file object.\<close>

definition open_bind :: "u8 \<Rightarrow> dirobj \<Rightarrow> fil \<Rightarrow> fatlib \<Rightarrow> FRESULT \<times> u8 \<times> fil \<times> fatlib" where
  "open_bind mode dj fp L =
     (let mode = (if mode AND FA_CREATE_ALWAYS \<noteq> 0 then mode OR FA_MODIFIED else mode);
          fp1 = fp\<lparr>dir_sect := winsect (lib_fs L), dir_ofs := d_ofs dj\<rparr>
      in case inc_share (dir_obj dj) (open_acc mode) (lib_files L) of
           (i, files) \<Rightarrow>
             (if of_nat i = (0 :: u32) then FR_INT_ERR else FR_OK, mode, fp1\<lparr>lockid := of_nat i\<rparr>, L\<lparr>lib_files := files\<rparr>))"

partial_function (option) open_seek_loop ::
  "u32 \<Rightarrow> u32 \<Rightarrow> u32 \<Rightarrow> fatfs \<Rightarrow> (FRESULT \<times> u32 \<times> u32 \<times> fatfs) option" where
  "open_seek_loop bcs ofs clst fs =
     (if ofs > bcs then
        (case get_fat clst fs of
           (clst, fs1) \<Rightarrow>
             (let res = (if clst \<le> 1 then FR_INT_ERR else FR_OK); res = (if clst = 0xFFFFFFFF then FR_DISK_ERR else res)
              in if res = FR_OK then open_seek_loop bcs (ofs - bcs) clst fs1 else Some (res, ofs - bcs, clst, fs1)))
      else Some (FR_OK, ofs, clst, fs))"

definition open_seek :: "fil \<Rightarrow> fatlib \<Rightarrow> (FRESULT \<times> fil \<times> fatlib) option" where
  "open_seek fp L =
     (let bcs = ucast (csize (lib_fs L)) * 512; fp1 = fp\<lparr>fptr := objsize fp\<rparr>
      in case open_seek_loop bcs (objsize fp) (sclust fp) (lib_fs L) of
           None \<Rightarrow> None
         | Some (res, ofs, clst, fs1) \<Rightarrow>
             (let fp2 = fp1\<lparr>clust := clst\<rparr>; sc = clst2sect fs1 clst
              in case (if res = FR_OK \<and> ofs mod 512 \<noteq> 0 then
                         (if sc = 0 then (FR_INT_ERR, fp2, fs1)
                          else (case disk_read_sector (sc + ofs div 512) fs1 of
                                  (None, fs2) \<Rightarrow> (FR_DISK_ERR, fp2\<lparr>sect := sc + ofs div 512\<rparr>, fs2)
                                | (Some data, fs2) \<Rightarrow> (FR_OK, fp2\<lparr>sect := sc + ofs div 512, buf := data\<rparr>, fs2)))
                       else (res, fp2, fs1)) of
                   (res, fp3, fs3) \<Rightarrow>
                     Some (res, fp3, L\<lparr>lib_fs := fs3,
                       lib_files := (if res \<noteq> FR_OK then snd (dec_share (unat (lockid fp3)) (lib_files L)) else lib_files L)\<rparr>)))"

definition open_load :: "u8 \<Rightarrow> dirobj \<Rightarrow> fil \<Rightarrow> fatlib \<Rightarrow> (FRESULT \<times> fil \<times> fatlib) option" where
  "open_load mode dj fp L =
     (let fs = lib_fs L;
          fp1 = fp\<lparr>sclust := ld_clust fs (d_ofs dj), objsize := ld_dword (win fs) (d_ofs dj + 28), obj_id := Some (vol_id fs),
                   flag := mode, err := FR_OK, sect := 0, fptr := 0, buf := replicate 512 0\<rparr>
      in if mode AND FA_SEEKEND \<noteq> 0 \<and> objsize fp1 > 0 then open_seek fp1 L else Some (FR_OK, fp1, L))"

definition f_open :: "ff_answers \<Rightarrow> fil option \<Rightarrow> u8 list \<Rightarrow> u8 \<Rightarrow> dirobj \<Rightarrow> fatlib \<Rightarrow> (FRESULT \<times> fil option \<times> fatlib) option" where
  "f_open A fpo path mode dj L =
     (case fpo of
        None \<Rightarrow> Some (FR_INVALID_OBJECT, None, L)
      | Some fp \<Rightarrow>
          (let mode = mode AND 0x3F;
               leave = (\<lambda>(res, fp, L). (res, Some (if res \<noteq> FR_OK then fp\<lparr>obj_id := None\<rparr> else fp), L))
           in case locate A mode path dj L of
                None \<Rightarrow> None
              | Some (Inl res, dj1, L1) \<Rightarrow> Some (leave (res, fp, L1))
              | Some (Inr res, dj1, L1) \<Rightarrow>
                  (let res = (if res = FR_OK then open_check mode dj1 L1 else res)
                   in case open_entry (a_time A) mode res dj1 L1 of
                        None \<Rightarrow> None
                      | Some (res, mode, dj2, L2) \<Rightarrow>
                          if res \<noteq> FR_OK then Some (leave (res, fp, L2))
                          else
                            (case open_bind mode dj2 fp L2 of
                               (res, mode, fp1, L3) \<Rightarrow>
                                 if res \<noteq> FR_OK then Some (leave (res, fp1, L3))
                                 else map_option leave (open_load mode dj2 fp1 L3)))))"

subsection \<open>Syncing and closing\<close>

definition f_sync :: "bool \<Rightarrow> u8 \<Rightarrow> u32 \<Rightarrow> fil \<Rightarrow> fatfs \<Rightarrow> FRESULT \<times> fil \<times> fatfs" where
  "f_sync lock stat tm fp fs =
     (let res = validate lock stat fp fs
      in if res = FR_OK \<and> flag fp AND FA_MODIFIED \<noteq> 0 then
           (case flush_buf fp fs of
              (ok, fp1, fs1) \<Rightarrow>
                if \<not> ok then (FR_DISK_ERR, fp1, fs1)
                else
                  (case move_window (dir_sect fp1) fs1 of
                     (res, fs2) \<Rightarrow>
                       if res \<noteq> FR_OK then (res, fp1, fs2)
                       else
                         (let i = dir_ofs fp1;
                              fs3 = set_byte (i + 11) (win fs2 ! (i + 11) OR AM_ARC) fs2;
                              fs4 = set_dword (i + 28) (objsize fp1) (st_clust i (sclust fp1) fs3);
                              fs5 = (set_word (i + 18) 0 (set_dword (i + 22) tm fs4))\<lparr>wflag := True\<rparr>
                          in case sync_fs fs5 of
                               (res, fs6) \<Rightarrow> (res, fp1\<lparr>flag := flag fp1 AND NOT FA_MODIFIED\<rparr>, fs6))))
         else (res, fp, fs))"

text \<open>The lock and the status are asked for twice.\<close>

definition f_close :: "ff_answers \<Rightarrow> bool \<Rightarrow> u8 \<Rightarrow> fil \<Rightarrow> fatlib \<Rightarrow> FRESULT \<times> fil \<times> fatlib" where
  "f_close A lock stat fp L =
     (case f_sync (a_lock A) (a_stat A) (a_time A) fp (lib_fs L) of
        (res, fp1, fs1) \<Rightarrow>
          (let L1 = L\<lparr>lib_fs := fs1\<rparr>
           in if res \<noteq> FR_OK then (res, fp1, L1)
              else
                (let res = validate lock stat fp1 fs1
                 in if res \<noteq> FR_OK then (res, fp1, L1)
                    else (case dec_share (unat (lockid fp1)) (lib_files L1) of
                            (res, files) \<Rightarrow>
                              (res, if res = FR_OK then fp1\<lparr>obj_id := None\<rparr> else fp1, L1\<lparr>lib_files := files\<rparr>)))))"

subsection \<open>The current directory\<close>

text \<open>The number of the volume that is current then; there is only volume 0.\<close>

definition f_chdrive :: "u8 list option \<Rightarrow> nat \<Rightarrow> FRESULT \<times> nat" where
  "f_chdrive path CurrVol =
     (case fst (get_ldnumber path) of None \<Rightarrow> (FR_INVALID_DRIVE, CurrVol) | Some vol \<Rightarrow> (FR_OK, vol))"

definition f_chdir :: "ff_answers \<Rightarrow> u8 list \<Rightarrow> dirobj \<Rightarrow> fatlib \<Rightarrow> (FRESULT \<times> fatlib) option" where
  "f_chdir A path dj L =
     (case locate A 0 path dj L of
        None \<Rightarrow> None
      | Some (Inl res, dj1, L1) \<Rightarrow> Some (res, L1)
      | Some (Inr res, dj1, L1) \<Rightarrow>
          (let fs = lib_fs L1;
               (res, fs1) =
                 (if res \<noteq> FR_OK then (res, fs)
                  else if d_fn dj1 ! 11 AND NS_NONAME \<noteq> 0 then (FR_OK, fs\<lparr>cdir := d_sclust dj1\<rparr>)
                  else if d_attr dj1 AND AM_DIR \<noteq> 0 then (FR_OK, fs\<lparr>cdir := ld_clust fs (d_ofs dj1)\<rparr>)
                  else (FR_NO_PATH, fs))
           in Some (if res = FR_NO_FILE then FR_NO_PATH else res, L1\<lparr>lib_fs := fs1\<rparr>)))"

text \<open>The entry of a directory that links to the cluster of the child.\<close>

partial_function (option) cwd_find :: "u32 \<Rightarrow> dirobj \<Rightarrow> fatfs \<Rightarrow> (FRESULT \<times> dirobj \<times> fatfs) option" where
  "cwd_find ccl dp fs =
     (case dir_read False dp fs of
        None \<Rightarrow> None
      | Some (res, dp1, fs1) \<Rightarrow>
          if res \<noteq> FR_OK then Some (res, dp1, fs1)
          else if ccl = ld_clust fs1 (d_ofs dp1) then Some (FR_OK, dp1, fs1)
          else
            (case dir_next False dp1 fs1 of
               None \<Rightarrow> None
             | Some (res, dp2, fs2) \<Rightarrow> if res = FR_OK then cwd_find ccl dp2 fs2 else Some (res, dp2, fs2)))"

text \<open>One step up: the parent, and in it the entry of the directory it came from.\<close>

definition cwd_parent :: "dirobj \<Rightarrow> fatfs \<Rightarrow> (FRESULT \<times> dirobj \<times> fatfs) option" where
  "cwd_parent dp fs =
     (let ccl = d_sclust dp
      in case dir_sdi 32 dp fs of
           None \<Rightarrow> None
         | Some (res, dp1, fs1) \<Rightarrow>
             if res \<noteq> FR_OK then Some (res, dp1, fs1)
             else
               (case move_window (d_sect dp1) fs1 of
                  (res, fs2) \<Rightarrow>
                    if res \<noteq> FR_OK then Some (res, dp1, fs2)
                    else
                      (case dir_sdi 0 (dp1\<lparr>d_sclust := ld_clust fs2 (d_ofs dp1)\<rparr>) fs2 of
                         None \<Rightarrow> None
                       | Some (res, dp2, fs3) \<Rightarrow>
                           if res \<noteq> FR_OK then Some (res, dp2, fs3)
                           else map_option (\<lambda>(res, dp3, fs4). (if res = FR_NO_FILE then FR_INT_ERR else res, dp3, fs4))
                                  (cwd_find ccl dp2 fs3))))"

text \<open>
  The memory at the pointer \<open>buff\<close> is a function of the index; what is written at an index not
  below \<open>len\<close> is outside of the buffer. The path is stacked from its end on.
\<close>

primrec push_name :: "u8 list \<Rightarrow> u32 \<Rightarrow> (u32 \<Rightarrow> u8) \<Rightarrow> u32 \<times> (u32 \<Rightarrow> u8)" where
  "push_name [] i buff = (i, buff)"
| "push_name (c # cs) i buff = push_name cs (i - 1) (buff(i - 1 := c))"

partial_function (option) cwd_loop :: "u32 \<Rightarrow> (u32 \<Rightarrow> u8) \<Rightarrow> dirobj \<Rightarrow> fatfs \<Rightarrow> (FRESULT \<times> u32 \<times> (u32 \<Rightarrow> u8) \<times> fatfs) option" where
  "cwd_loop i buff dp fs =
     (if d_sclust dp = 0 then Some (FR_OK, i, buff, fs)
      else
        (case cwd_parent dp fs of
           None \<Rightarrow> None
         | Some (res, dp1, fs1) \<Rightarrow>
             if res \<noteq> FR_OK then Some (res, i, buff, fs1)
             else
               (let name = info_name 0 (take 11 (drop (d_ofs dp1) (win fs1)))
                in if i < of_nat (length name) + 1 then Some (FR_NOT_ENOUGH_CORE, i, buff, fs1)
                   else (case push_name (rev name) i buff of
                           (i, buff) \<Rightarrow> cwd_loop (i - 1) (buff(i - 1 := 0x2F)) dp1 fs1))))"

partial_function (option) cwd_copy :: "u32 \<Rightarrow> u32 \<Rightarrow> u32 \<Rightarrow> (u32 \<Rightarrow> u8) \<Rightarrow> (u32 \<times> (u32 \<Rightarrow> u8)) option" where
  "cwd_copy tp i len buff =
     (let buff = buff(tp := buff i)
      in if i + 1 < len then cwd_copy (tp + 1) (i + 1) len buff else Some (tp + 1, buff))"

definition f_getcwd :: "ff_answers \<Rightarrow> (u32 \<Rightarrow> u8) \<Rightarrow> u32 \<Rightarrow> dirobj \<Rightarrow> fatlib \<Rightarrow> (FRESULT \<times> (u32 \<Rightarrow> u8) \<times> fatlib) option" where
  "f_getcwd A buff len dj L =
     (case mount_volume (a_lock A) (a_stat A) (a_init A) (Some []) 0 L of
        (res, p, L1) \<Rightarrow>
          (let buff = buff(0 := 0)
           in if res \<noteq> FR_OK then Some (res, buff, L1)
              else
                (case cwd_loop len buff (dj\<lparr>d_sclust := cdir (lib_fs L1)\<rparr>) (lib_fs L1) of
                   None \<Rightarrow> None
                 | Some (res, i, buff, fs1) \<Rightarrow>
                     (let L2 = L1\<lparr>lib_fs := fs1\<rparr>
                      in if res \<noteq> FR_OK then Some (res, buff(0 := 0), L2)
                         else
                           (let (i, buff) = (if i = len then (i - 1, buff(i - 1 := 0x2F)) else (i, buff))
                            in case cwd_copy 0 i len buff of
                                 None \<Rightarrow> None
                               | Some (tp, buff) \<Rightarrow> Some (FR_OK, buff(tp := 0), L2))))))"

subsection \<open>Directories\<close>

text \<open>The start of the directory, and the lock of a sub-directory.\<close>

definition opendir_lock :: "dirobj \<Rightarrow> fatlib \<Rightarrow> (FRESULT \<times> dirobj \<times> fatlib) option" where
  "opendir_lock dp L =
     (case dir_sdi 0 (dp\<lparr>d_id := Some (vol_id (lib_fs L))\<rparr>) (lib_fs L) of
        None \<Rightarrow> None
      | Some (res, dp1, fs1) \<Rightarrow>
          (let L1 = L\<lparr>lib_fs := fs1\<rparr>
           in if res \<noteq> FR_OK then Some (res, dp1, L1)
              else if d_sclust dp1 \<noteq> 0 then
                (case inc_share (dir_obj dp1) 0 (lib_files L1) of
                   (i, files) \<Rightarrow>
                     Some (if of_nat i = (0 :: u32) then FR_TOO_MANY_OPEN_FILES else FR_OK,
                           dp1\<lparr>d_lockid := of_nat i\<rparr>, L1\<lparr>lib_files := files\<rparr>))
              else Some (FR_OK, dp1\<lparr>d_lockid := 0\<rparr>, L1)))"

definition opendir_path :: "FRESULT \<Rightarrow> dirobj \<Rightarrow> fatlib \<Rightarrow> (FRESULT \<times> dirobj \<times> fatlib) option" where
  "opendir_path res dp L =
     (if res \<noteq> FR_OK then Some (res, dp, L)
      else if d_fn dp ! 11 AND NS_NONAME \<noteq> 0 then opendir_lock dp L
      else if d_attr dp AND AM_DIR \<noteq> 0 then opendir_lock (dp\<lparr>d_sclust := ld_clust (lib_fs L) (d_ofs dp)\<rparr>) L
      else Some (FR_NO_PATH, dp, L))"

definition f_opendir :: "ff_answers \<Rightarrow> dirobj option \<Rightarrow> u8 list \<Rightarrow> fatlib \<Rightarrow> (FRESULT \<times> dirobj option \<times> fatlib) option" where
  "f_opendir A dpo path L =
     (case dpo of
        None \<Rightarrow> Some (FR_INVALID_OBJECT, None, L)
      | Some dp \<Rightarrow>
          (let leave = (\<lambda>res dp L. (res, Some (if res \<noteq> FR_OK then dp\<lparr>d_id := None\<rparr> else dp), L))
           in case locate A 0 path dp L of
                None \<Rightarrow> None
              | Some (Inl res, dp1, L1) \<Rightarrow> Some (leave res dp1 L1)
              | Some (Inr res, dp1, L1) \<Rightarrow>
                  map_option (\<lambda>(res, dp2, L2). leave (if res = FR_NO_FILE then FR_NO_PATH else res) dp2 L2)
                    (opendir_path res dp1 L1)))"

definition validate_dir :: "ff_answers \<Rightarrow> dirobj \<Rightarrow> fatfs \<Rightarrow> FRESULT" where
  "validate_dir A dp fs =
     (if d_id dp \<noteq> None \<and> fs_type fs \<noteq> FS_NONE \<and> d_id dp = Some (vol_id fs) then
        (if a_lock A then (if a_stat A AND STA_NOINIT = 0 then FR_OK else FR_INVALID_OBJECT) else FR_TIMEOUT)
      else FR_INVALID_OBJECT)"

definition f_closedir :: "ff_answers \<Rightarrow> dirobj \<Rightarrow> fatlib \<Rightarrow> FRESULT \<times> dirobj \<times> fatlib" where
  "f_closedir A dp L =
     (let res = validate_dir A dp (lib_fs L)
      in if res = FR_OK then
           (case (if d_lockid dp \<noteq> 0 then dec_share (unat (d_lockid dp)) (lib_files L) else (FR_OK, lib_files L)) of
              (res, files) \<Rightarrow> (res, if res = FR_OK then dp\<lparr>d_id := None\<rparr> else dp, L\<lparr>lib_files := files\<rparr>))
         else (res, dp, L))"

text \<open>Without a place for the information the directory is rewound.\<close>

definition f_readdir :: "ff_answers \<Rightarrow> dirobj \<Rightarrow> filinfo option \<Rightarrow> fatfs \<Rightarrow> (FRESULT \<times> dirobj \<times> filinfo option \<times> fatfs) option" where
  "f_readdir A dp fno fs =
     (let res = validate_dir A dp fs
      in if res \<noteq> FR_OK then Some (res, dp, fno, fs)
         else
           (case fno of
              None \<Rightarrow> map_option (\<lambda>(res, dp, fs). (res, dp, None, fs)) (dir_sdi 0 dp fs)
            | Some fi \<Rightarrow>
                (case dir_read False dp fs of
                   None \<Rightarrow> None
                 | Some (res, dp1, fs1) \<Rightarrow>
                     if res \<noteq> FR_OK \<and> res \<noteq> FR_NO_FILE then Some (res, dp1, fno, fs1)
                     else map_option (\<lambda>(res, dp2, fs2). (if res = FR_NO_FILE then FR_OK else res, dp2, Some (get_fileinfo dp1 fs1 fi), fs2))
                            (dir_next False dp1 fs1))))"

abbreviation (input) FIND_RECURS :: nat where "FIND_RECURS \<equiv> 4"

text \<open>The lock and the status are asked for at each item; \<open>As\<close> are the answers in their order.\<close>

primrec f_findnext :: "ff_answers list \<Rightarrow> dirobj \<Rightarrow> filinfo option \<Rightarrow> fatfs \<Rightarrow> (FRESULT \<times> dirobj \<times> filinfo option \<times> fatfs) option" where
  "f_findnext [] dp fno fs = None"
| "f_findnext (A # As) dp fno fs =
     (case f_readdir A dp fno fs of
        None \<Rightarrow> None
      | Some (res, dp1, fno1, fs1) \<Rightarrow>
          if res \<noteq> FR_OK \<or> fno1 = None \<or> fi_name (the fno1) = [] then Some (res, dp1, fno1, fs1)
          else if pattern_match FIND_RECURS (d_pat dp1) (fi_name (the fno1)) 0 then Some (res, dp1, fno1, fs1)
          else f_findnext As dp1 fno1 fs1)"

definition f_findfirst :: "ff_answers \<Rightarrow> ff_answers list \<Rightarrow> dirobj \<Rightarrow> filinfo option \<Rightarrow> u8 list \<Rightarrow> u8 list \<Rightarrow> fatlib \<Rightarrow>
    (FRESULT \<times> dirobj \<times> filinfo option \<times> fatlib) option" where
  "f_findfirst A As dp fno path pattern L =
     (case f_opendir A (Some (dp\<lparr>d_pat := pattern\<rparr>)) path L of
        None \<Rightarrow> None
      | Some (res, dpo, L1) \<Rightarrow>
          if res = FR_OK then
            map_option (\<lambda>(res, dp2, fno1, fs1). (res, dp2, fno1, L1\<lparr>lib_fs := fs1\<rparr>)) (f_findnext As (the dpo) fno (lib_fs L1))
          else Some (res, the dpo, fno, L1))"

definition f_stat :: "ff_answers \<Rightarrow> u8 list \<Rightarrow> dirobj \<Rightarrow> filinfo option \<Rightarrow> fatlib \<Rightarrow> (FRESULT \<times> filinfo option \<times> fatlib) option" where
  "f_stat A path dj fno L =
     (case locate A 0 path dj L of
        None \<Rightarrow> None
      | Some (Inl res, dj1, L1) \<Rightarrow> Some (res, fno, L1)
      | Some (Inr res, dj1, L1) \<Rightarrow>
          if res \<noteq> FR_OK then Some (res, fno, L1)
          else if d_fn dj1 ! 11 AND NS_NONAME \<noteq> 0 then Some (FR_INVALID_NAME, fno, L1)
          else Some (FR_OK, map_option (get_fileinfo dj1 (lib_fs L1)) fno, L1))"

subsection \<open>The free clusters\<close>

primrec free_scan12 :: "nat \<Rightarrow> u32 \<Rightarrow> u32 \<Rightarrow> fatfs \<Rightarrow> FRESULT \<times> u32 \<times> fatfs" where
  "free_scan12 0 clst nfree fs = (FR_OK, nfree, fs)"
| "free_scan12 (Suc n) clst nfree fs =
     (case get_fat clst fs of
        (st, fs1) \<Rightarrow>
          if st = 0xFFFFFFFF then (FR_DISK_ERR, nfree, fs1)
          else if st = 1 then (FR_INT_ERR, nfree, fs1)
          else free_scan12 n (clst + 1) (if st = 0 then nfree + 1 else nfree) fs1)"

text \<open>The entry at offset \<open>i\<close> of the window, and the width of an entry.\<close>

definition free_here :: "fatfs \<Rightarrow> nat \<Rightarrow> bool" where
  "free_here fs i \<longleftrightarrow>
     (if fs_type fs = FS_FAT16 then ld_word (win fs) i = 0 else ld_dword (win fs) i AND 0x0FFFFFFF = 0)"

definition entry_width :: "fatfs \<Rightarrow> nat" where
  "entry_width fs = (if fs_type fs = FS_FAT16 then 2 else 4)"

primrec free_scan :: "nat \<Rightarrow> u32 \<Rightarrow> nat \<Rightarrow> u32 \<Rightarrow> fatfs \<Rightarrow> FRESULT \<times> u32 \<times> fatfs" where
  "free_scan 0 s i nfree fs = (FR_OK, nfree, fs)"
| "free_scan (Suc n) s i nfree fs =
     (case (if i = 0 then move_window s fs else (FR_OK, fs)) of
        (res, fs1) \<Rightarrow>
          if res \<noteq> FR_OK then (res, nfree, fs1)
          else free_scan n (if i = 0 then s + 1 else s) ((i + entry_width fs1) mod 512)
                 (if free_here fs1 i then nfree + 1 else nfree) fs1)"

text \<open>The loops end with their tests, so the body runs at least once, or for 0 entries 2^32 times.\<close>

definition count_free :: "fatfs \<Rightarrow> FRESULT \<times> u32 \<times> fatfs" where
  "count_free fs =
     (if fs_type fs = FS_FAT12 then free_scan12 (max 1 (unat (n_fatent fs) - 2)) 2 0 fs
      else free_scan (if n_fatent fs = 0 then 2 ^ 32 else unat (n_fatent fs)) (fatbase fs) 0 0 fs)"

definition f_getfree :: "ff_answers \<Rightarrow> u8 list option \<Rightarrow> u32 option \<Rightarrow> fatlib \<Rightarrow> FRESULT \<times> u32 option \<times> fatlib" where
  "f_getfree A path nclst L =
     (case mount_volume (a_lock A) (a_stat A) (a_init A) path 0 L of
        (res, p, L1) \<Rightarrow>
          if res \<noteq> FR_OK then (res, nclst, L1)
          else if free_clst (lib_fs L1) \<le> n_fatent (lib_fs L1) - 2 then (FR_OK, Some (free_clst (lib_fs L1)), L1)
          else (case count_free (lib_fs L1) of
                  (res, nfree, fs1) \<Rightarrow>
                    if res = FR_OK then
                      (FR_OK, Some nfree, L1\<lparr>lib_fs := fs1\<lparr>free_clst := nfree, fsi_flag := fsi_flag fs1 OR 1\<rparr>\<rparr>)
                    else (res, nclst, L1\<lparr>lib_fs := fs1\<rparr>)))"

subsection \<open>Deleting\<close>

text \<open>Only a directory without entries may go, and not the current one.\<close>

definition unlink_check :: "u32 \<Rightarrow> dirobj \<Rightarrow> fatfs \<Rightarrow> (FRESULT \<times> fatfs) option" where
  "unlink_check dclst sdj fs =
     (if dclst = cdir fs then Some (FR_DENIED, fs)
      else
        (case dir_sdi 0 (sdj\<lparr>d_sclust := dclst\<rparr>) fs of
           None \<Rightarrow> None
         | Some (res, sdj1, fs1) \<Rightarrow>
             if res \<noteq> FR_OK then Some (res, fs1)
             else map_option (\<lambda>(res, sdj2, fs2). (if res = FR_OK then FR_DENIED else if res = FR_NO_FILE then FR_OK else res, fs2))
                    (dir_read False sdj1 fs1)))"

definition unlink_entry :: "u32 \<Rightarrow> dirobj \<Rightarrow> fatfs \<Rightarrow> (FRESULT \<times> fatfs) option" where
  "unlink_entry dclst dj fs =
     (case dir_remove dj fs of
        (res, fs1) \<Rightarrow>
          (case (if res = FR_OK \<and> dclst \<noteq> 0 then remove_chain dclst 0 fs1 else Some (res, fs1)) of
             None \<Rightarrow> None
           | Some (res, fs2) \<Rightarrow> Some (if res = FR_OK then sync_fs fs2 else (res, fs2))))"

definition f_unlink :: "ff_answers \<Rightarrow> u8 list \<Rightarrow> dirobj \<Rightarrow> dirobj \<Rightarrow> fatlib \<Rightarrow> (FRESULT \<times> fatlib) option" where
  "f_unlink A path dj sdj L =
     (case locate A FA_WRITE path dj L of
        None \<Rightarrow> None
      | Some (Inl res, dj1, L1) \<Rightarrow> Some (res, L1)
      | Some (Inr res, dj1, L1) \<Rightarrow>
          (let ns = d_fn dj1 ! 11;
               res = (if res = FR_OK \<and> ns AND NS_DOT \<noteq> 0 then FR_INVALID_NAME else res);
               res = (if res = FR_OK then chk_share (dir_obj dj1) 2 (lib_files L1) else res);
               res = (if res \<noteq> FR_OK then res else if ns AND NS_NONAME \<noteq> 0 then FR_INVALID_NAME
                      else if d_attr dj1 AND AM_RDO \<noteq> 0 then FR_DENIED else FR_OK);
               dclst = ld_clust (lib_fs L1) (d_ofs dj1)
           in if res \<noteq> FR_OK then Some (res, L1)
              else
                (case (if d_attr dj1 AND AM_DIR \<noteq> 0 then on_volume_opt (unlink_check dclst sdj) L1 else Some (FR_OK, L1)) of
                   None \<Rightarrow> None
                 | Some (res, L2) \<Rightarrow>
                     if res \<noteq> FR_OK then Some (res, L2) else on_volume_opt (unlink_entry dclst dj1) L2)))"

subsection \<open>Making a directory\<close>

text \<open>The two dot entries at the start of the cleared window.\<close>

definition dot_entries :: "u32 \<Rightarrow> u32 \<Rightarrow> u32 \<Rightarrow> fatfs \<Rightarrow> fatfs" where
  "dot_entries tm dcl pcl fs =
     (let fs1 = set_byte 11 AM_DIR (set_byte 0 0x2E (win_put 0 (replicate 11 0x20) fs));
          fs2 = st_clust 0 dcl (set_dword 22 tm fs1);
          fs3 = win_put 32 (take 32 (win fs2)) fs2
      in (st_clust 32 pcl (set_byte 33 0x2E fs3))\<lparr>wflag := True\<rparr>)"

definition mkdir_table :: "u32 \<Rightarrow> u32 \<Rightarrow> dirobj \<Rightarrow> fatfs \<Rightarrow> (FRESULT \<times> dirobj \<times> fatfs) option" where
  "mkdir_table tm dcl dj fs =
     (case dir_clear dcl fs of
        (res, fs1) \<Rightarrow>
          if res = FR_OK then dir_register dj (dot_entries tm dcl (d_sclust dj) fs1) else Some (res, dj, fs1))"

definition mkdir_entry :: "u32 \<Rightarrow> u32 \<Rightarrow> dirobj \<Rightarrow> fatfs \<Rightarrow> fatfs" where
  "mkdir_entry tm dcl dj fs =
     (set_byte (d_ofs dj + 11) AM_DIR (st_clust (d_ofs dj) dcl (set_dword (d_ofs dj + 22) tm fs)))\<lparr>wflag := True\<rparr>"

definition mkdir_make :: "u32 \<Rightarrow> dirobj \<Rightarrow> fatfs \<Rightarrow> (FRESULT \<times> fatfs) option" where
  "mkdir_make tm dj fs =
     (case create_chain 0 fs of
        None \<Rightarrow> None
      | Some (dcl, fs1) \<Rightarrow>
          (let res = (if dcl = 0 then FR_DENIED else if dcl = 1 then FR_INT_ERR else if dcl = 0xFFFFFFFF then FR_DISK_ERR else FR_OK)
           in case (if res = FR_OK then mkdir_table tm dcl dj fs1 else Some (res, dj, fs1)) of
                None \<Rightarrow> None
              | Some (res, dj1, fs2) \<Rightarrow>
                  if res = FR_OK then Some (sync_fs (mkdir_entry tm dcl dj1 fs2))
                  else map_option (\<lambda>(r, fs3). (res, fs3)) (remove_chain dcl 0 fs2)))"

definition f_mkdir :: "ff_answers \<Rightarrow> u8 list \<Rightarrow> dirobj \<Rightarrow> fatlib \<Rightarrow> (FRESULT \<times> fatlib) option" where
  "f_mkdir A path dj L =
     (case locate A FA_WRITE path dj L of
        None \<Rightarrow> None
      | Some (Inl res, dj1, L1) \<Rightarrow> Some (res, L1)
      | Some (Inr res, dj1, L1) \<Rightarrow>
          (let res = (if res = FR_OK then FR_EXIST else res);
               res = (if res = FR_NO_FILE \<and> d_fn dj1 ! 11 AND NS_DOT \<noteq> 0 then FR_INVALID_NAME else res)
           in if res = FR_NO_FILE then on_volume_opt (mkdir_make (a_time A) dj1) L1 else Some (res, L1)))"

subsection \<open>Renaming\<close>

text \<open>The new entry gets everything but the name; a moved directory learns its new parent.\<close>

definition rename_fill :: "u8 list \<Rightarrow> dirobj \<Rightarrow> fatfs \<Rightarrow> fatfs" where
  "rename_fill ent djn fs =
     (let i = d_ofs djn; a = ent ! 11
      in (set_byte (i + 11) (if a AND AM_DIR = 0 then a OR AM_ARC else a) (win_put (i + 13) (drop 13 ent) fs))
           \<lparr>wflag := True\<rparr>)"

definition rename_parent :: "dirobj \<Rightarrow> dirobj \<Rightarrow> fatfs \<Rightarrow> FRESULT \<times> fatfs" where
  "rename_parent djo djn fs =
     (if dir_byte djn fs 11 AND AM_DIR \<noteq> 0 \<and> d_sclust djo \<noteq> d_sclust djn then
        (let s = clst2sect fs (ld_clust fs (d_ofs djn))
         in if s = 0 then (FR_INT_ERR, fs)
            else
              (case move_window s fs of
                 (res, fs1) \<Rightarrow>
                   (res, if res = FR_OK \<and> win fs1 ! 33 = 0x2E then (st_clust 32 (d_sclust djn) fs1)\<lparr>wflag := True\<rparr> else fs1)))
      else (FR_OK, fs))"

definition rename_entry :: "u8 list \<Rightarrow> dirobj \<Rightarrow> fatfs \<Rightarrow> (FRESULT \<times> fatfs) option" where
  "rename_entry path_new djo fs =
     (let ent = take 32 (drop (d_ofs djo) (win fs))
      in case follow_path path_new djo fs of
           None \<Rightarrow> None
         | Some (res, djn, fs1) \<Rightarrow>
             (let res = (if res = FR_OK then
                           (if d_sclust djn = d_sclust djo \<and> dptr djn = dptr djo then FR_NO_FILE else FR_EXIST) else res)
              in if res \<noteq> FR_NO_FILE then Some (res, fs1)
                 else map_option
                        (\<lambda>(res, djn, fs2). if res = FR_OK then rename_parent djo djn (rename_fill ent djn fs2) else (res, fs2))
                        (dir_register djn fs1)))"

definition rename_finish :: "dirobj \<Rightarrow> FRESULT \<times> fatfs \<Rightarrow> FRESULT \<times> fatfs" where
  "rename_finish djo r =
     (case r of (res, fs) \<Rightarrow>
        if res \<noteq> FR_OK then (res, fs)
        else (case dir_remove djo fs of (res, fs1) \<Rightarrow> if res = FR_OK then sync_fs fs1 else (res, fs1)))"

definition f_rename :: "ff_answers \<Rightarrow> u8 list \<Rightarrow> u8 list \<Rightarrow> dirobj \<Rightarrow> fatlib \<Rightarrow> (FRESULT \<times> fatlib) option" where
  "f_rename A path_old path_new djo L =
     (let path_new = snd (get_ldnumber (Some path_new))
      in case locate A FA_WRITE path_old djo L of
           None \<Rightarrow> None
         | Some (Inl res, djo1, L1) \<Rightarrow> Some (res, L1)
         | Some (Inr res, djo1, L1) \<Rightarrow>
             (let res = (if res = FR_OK \<and> d_fn djo1 ! 11 AND (NS_DOT OR NS_NONAME) \<noteq> 0 then FR_INVALID_NAME else res);
                  res = (if res = FR_OK then chk_share (dir_obj djo1) 2 (lib_files L1) else res)
              in if res \<noteq> FR_OK then Some (res, L1)
                 else on_volume_opt (\<lambda>fs. map_option (rename_finish djo1) (rename_entry path_new djo1 fs)) L1))"

text \<open>Answers of a lock that is free and a drive that is ready.\<close>

definition demo_answers :: ff_answers where
  "demo_answers = \<lparr>a_lock = True, a_stat = 0, a_init = 0, a_time = 0\<rparr>"

end
