(* ===== verification/FatFs_Dir_List.thy ===== *)
theory FatFs_Dir_List
  imports FatFs_Dir_Change FatFs_Api
begin

text \<open>
  Listing a directory: the calls of \<open>f_readdir\<close> after an \<open>f_opendir\<close> give the files of the
  directory in the order of its entries, and after the last one an empty name.
\<close>

subsection \<open>What a listing is\<close>

definition shown :: "u8 list list \<Rightarrow> u8 list list" where
  "shown es = filter (listed False) (takeWhile (\<lambda>e. e ! 0 \<noteq> 0) es)"

definition entry_info :: "u8 list \<Rightarrow> filinfo" where
  "entry_info e = \<lparr>fi_size = ld_dword e 28, fi_date = ld_word e 24, fi_time = ld_word e 22,
     fi_attrib = e ! 11 AND AM_MASK, fi_name = info_name 0 (take 11 e)\<rparr>"

text \<open>One call for each answer of the environment; what they put into \<open>fno\<close>.\<close>

primrec list_dir :: "ff_answers list \<Rightarrow> dirobj \<Rightarrow> filinfo \<Rightarrow> fatfs \<Rightarrow> (filinfo list \<times> dirobj \<times> fatfs) option" where
  "list_dir [] dp fi fs = Some ([], dp, fs)"
| "list_dir (A # As) dp fi fs =
     (case f_readdir A dp (Some fi) fs of
        Some (FR_OK, dp1, Some fi1, fs1) \<Rightarrow> map_option (\<lambda>(fis, r). (fi1 # fis, r)) (list_dir As dp1 fi1 fs1)
      | _ \<Rightarrow> None)"

lemma shown_scan:
  "scan (listed False) es = None \<Longrightarrow> shown es = []"
  "scan (listed False) es = Some i \<Longrightarrow> i < length es \<and> shown es = es ! i # shown (drop (Suc i) es)"
  by (induction es arbitrary: i) (auto simp: shown_def split: if_splits)

subsection \<open>What a step keeps\<close>

lemma next_cluster_id: "next_cluster_of stretch dp fs = Some (r, dp', fs') \<Longrightarrow> d_id dp' = d_id dp"
  by (auto simp: next_cluster_of_def split: prod.splits if_splits option.splits)

lemma dir_next_id: "dir_next stretch dp fs = Some (r, dp', fs') \<Longrightarrow> d_id dp' = d_id dp"
  by (auto simp: dir_next_def Let_def split: if_splits option.splits prod.splits sum.splits dest!: next_cluster_id)

lemma read_loop_id:
  assumes "read_dir_loop vol dp fs = Some res"
  shows "d_id (fst (snd res)) = d_id dp"
  using assms
proof (rule read_dir_loop.raw_induct [rotated])
  fix L :: "bool \<Rightarrow> dirobj \<Rightarrow> fatfs \<Rightarrow> (FRESULT \<times> dirobj \<times> fatfs) option" and vol dp fs res
  assume L: "\<And>vol dp fs res. L vol dp fs = Some res \<Longrightarrow> d_id (fst (snd res)) = d_id dp"
  show "(case move_window (d_sect dp) fs of
        (r, fs1) \<Rightarrow>
          if r \<noteq> FR_OK then Some (r, dp, fs1)
          else if dir_byte dp fs1 0 = 0 then Some (FR_NO_FILE, dp, fs1)
          else
            (let b = dir_byte dp fs1 0; attr = dir_byte dp fs1 11 AND AM_MASK; dp1 = dp\<lparr>d_attr := attr\<rparr>
             in if b \<noteq> DDEM \<and> b \<noteq> 0x2E \<and> attr \<noteq> AM_LFN \<and> (attr AND NOT AM_ARC = AM_VOL) = vol
                then Some (FR_OK, dp1, fs1)
                else
                  (case dir_next False dp1 fs1 of
                     None \<Rightarrow> None
                   | Some (r, dp2, fs2) \<Rightarrow>
                       if r \<noteq> FR_OK then Some (r, dp2, fs2)
                       else if d_sect dp2 = 0 then Some (r, dp2, fs2)
                       else L vol dp2 fs2))) = Some res \<Longrightarrow> d_id (fst (snd res)) = d_id dp"
    by (auto simp: Let_def split: prod.splits if_splits option.splits dest!: dir_next_id L)
qed

lemma dir_read_id:
  assumes "dir_read vol dp fs = Some (r, dp', fs')"
  shows "d_id dp' = d_id dp"
proof (cases "d_sect dp = 0")
  case True
  then show ?thesis using assms by (auto simp: dir_read_def)
next
  case False
  then obtain res where res: "read_dir_loop vol dp fs = Some res" using assms by (auto simp: dir_read_def)
  from read_loop_id [OF this] show ?thesis using assms False res by (cases res) (auto simp: dir_read_def split: if_splits)
qed

lemma valid_kept: "cfg fs' = cfg fs \<Longrightarrow> d_id dp' = d_id dp \<Longrightarrow> validate_dir A dp' fs' = validate_dir A dp fs"
  using cfgD(1) [of fs' fs] by (simp add: validate_dir_def cfg_def)

lemma fileinfo_entry:
  assumes t: "dir_table fs sc cs ss" and k: "keeps fs fs'" and st: "stands fs sc cs ss j dp fs'"
  shows "get_fileinfo dp fs' fi = entry_info (dir_entry fs ss j)"
proof -
  have p: "j < dir_size ss" "d_sect dp = ss ! (j div 16)" "d_ofs dp = 32 * (j mod 16)" "winsect fs' = ss ! (j div 16)"
    using st by (auto simp: stands_def dir_pos_def)
  have "d_sect dp \<in> set ss" using p dir_size_sect by simp
  then have z: "d_sect dp \<noteq> 0" using dir_table_sect [OF t] by (auto simp: dir_area_def)
  have "dir_entry fs ss j = dir_entry fs' ss j" using keeps_dir(2) [OF t k] p(1) by (metis dir_entries_nth)
  then have e: "dir_entry fs ss j = take 32 (drop (d_ofs dp) (win fs'))" using p by (simp add: dir_entry_def view_def)
  have l: "length (win fs') = 512" using dir_tableD(4) [OF keeps_dir(1) [OF t k]] by (simp add: window_ok_def)
  have "d_ofs dp + 32 \<le> 512"
  proof -
    have "j mod 16 < 16" by simp
    then show ?thesis unfolding p(3) by linarith
  qed
  then have n: "dir_entry fs ss j ! i = win fs' ! (d_ofs dp + i)" if "i < 32" for i using that l by (simp add: e)
  have "take 11 (dir_entry fs ss j) = take 11 (drop (d_ofs dp) (win fs'))" by (simp add: e)
  then show ?thesis
    using z by (simp add: get_fileinfo_def entry_info_def dir_byte_def ld_word_def ld_dword_def n add.commute)
qed

subsection \<open>One call\<close>

text \<open>The object stands at entry \<open>k\<close>, or behind the last one.\<close>

definition at_entry :: "fatfs \<Rightarrow> u32 \<Rightarrow> u32 list \<Rightarrow> u32 list \<Rightarrow> nat \<Rightarrow> dirobj \<Rightarrow> bool" where
  "at_entry fs sc cs ss k dp \<longleftrightarrow>
     (if k < dir_size ss then dir_pos fs sc cs ss k dp else d_sect dp = 0)"

lemma readdir_end:
  assumes "validate_dir A dp fs = FR_OK" and "d_sect dp = 0"
  shows "f_readdir A dp (Some fi) fs = Some (FR_OK, dp, Some (fi\<lparr>fi_name := []\<rparr>), fs)"
  using assms by (simp add: f_readdir_def dir_read_def dir_next_def get_fileinfo_def Let_def)

lemma readdir_step:
  assumes t: "dir_table fs sc cs ss" and v: "validate_dir A dp fs = FR_OK" and p: "at_entry fs sc cs ss k dp"
  obtains dp' fi' fs' k' where "f_readdir A dp (Some fi) fs = Some (FR_OK, dp', Some fi', fs')" and "keeps fs fs'"
    and "d_id dp' = d_id dp" and "at_entry fs' sc cs ss k' dp'"
    and "case shown (drop k (dir_entries fs ss)) of
           [] \<Rightarrow> fi_name fi' = [] \<and> shown (drop k' (dir_entries fs ss)) = []
         | e # es \<Rightarrow> fi' = entry_info e \<and> shown (drop k' (dir_entries fs ss)) = es"
proof (cases "k < dir_size ss")
  case False
  then have "d_sect dp = 0" "drop k (dir_entries fs ss) = []" using p by (simp_all add: at_entry_def)
  then show thesis
    using that [of dp "fi\<lparr>fi_name := []\<rparr>" fs k] readdir_end [OF v] p dir_tableD(4) [OF t]
    by (simp add: keeps_refl shown_def)
next
  case True
  then have q: "dir_pos fs sc cs ss k dp" using p by (simp add: at_entry_def)
  obtain r dp1 fs1 where rd: "dir_read False dp fs = Some (r, dp1, fs1)"
    and s: "scanned fs sc cs ss dp (map_option ((+) k) (scan (listed False) (drop k (dir_entries fs ss)))) (r, dp1, fs1)"
    and z: "r \<noteq> FR_OK \<longrightarrow> d_sect dp1 = 0"
    using dir_read_scan [OF t q, of False] by metis
  have k1: "keeps fs fs1" using s by (simp add: scanned_def)
  have i1: "d_id dp1 = d_id dp" by (rule dir_read_id [OF rd])
  show thesis
  proof (cases "scan (listed False) (drop k (dir_entries fs ss))")
    case None
    then have r: "r = FR_NO_FILE" "d_sect dp1 = 0" using s z by (auto simp: scanned_def)
    then have "f_readdir A dp (Some fi) fs = Some (FR_OK, dp1, Some (fi\<lparr>fi_name := []\<rparr>), fs1)"
      using v rd by (simp add: f_readdir_def dir_next_def get_fileinfo_def Let_def)
    then show thesis
      using that [of dp1 "fi\<lparr>fi_name := []\<rparr>" fs1 "dir_size ss"] k1 i1 r shown_scan(1) [OF None]
      by (simp add: at_entry_def shown_def)
  next
    case (Some i)
    define j where "j = k + i"
    have r: "r = FR_OK" and st: "stands fs sc cs ss j dp1 fs1" using s Some by (auto simp: scanned_def j_def)
    have sh: "shown (drop k (dir_entries fs ss)) = dir_entry fs ss j # shown (drop (Suc j) (dir_entries fs ss))" and jl: "j < dir_size ss"
      using shown_scan(2) [OF Some] by (auto simp: j_def add.commute)
    note fi = fileinfo_entry [OF t k1 st, of fi]
    have p1: "dir_pos fs1 sc cs ss j dp1" using st keeps_dir(3) [OF t k1] by (simp add: stands_def)
    note t1 = keeps_dir(1) [OF t k1]
    have fr: "f_readdir A dp (Some fi) fs = map_option (\<lambda>(res, dp2, fs2). (if res = FR_NO_FILE then FR_OK else res, dp2,
        Some (entry_info (dir_entry fs ss j)), fs2)) (dir_next False dp1 fs1)"
      using v rd r fi by (simp add: f_readdir_def)
    show thesis
    proof (cases "Suc j < dir_size ss")
      case True
      then obtain dp2 fs2 where nx: "dir_next False dp1 fs1 = Some (FR_OK, dp2, fs2)" and k2: "keeps fs1 fs2"
        and p2: "dir_pos fs2 sc cs ss (Suc j) dp2" using dir_next_inside [OF t1 p1] by metis
      show thesis
        using that [of dp2 _ fs2 "Suc j"] fr nx keeps_trans [OF k1 k2] dir_next_id [OF nx] i1 p2 True sh by (simp add: at_entry_def)
    next
      case False
      then have "Suc j = dir_size ss" using jl by simp
      then obtain dp2 fs2 where nx: "dir_next False dp1 fs1 = Some (FR_NO_FILE, dp2, fs2)" and k2: "keeps fs1 fs2"
        and z2: "d_sect dp2 = 0" using dir_next_end [OF t1 p1] by metis
      show thesis
        using that [of dp2 _ fs2 "Suc j"] fr nx keeps_trans [OF k1 k2] dir_next_id [OF nx] i1 z2 False sh by (simp add: at_entry_def)
    qed
  qed
qed

lemma list_dir_shown:
  assumes "dir_table fs sc cs ss" and "\<forall>A \<in> set As. validate_dir A dp fs = FR_OK" and "at_entry fs sc cs ss k dp"
  shows "\<exists>fis dp' fs'. list_dir As dp fi fs = Some (fis, dp', fs') \<and> keeps fs fs' \<and> length fis = length As \<and>
    (\<forall>i < length As. if i < length (shown (drop k (dir_entries fs ss))) then fis ! i = entry_info (shown (drop k (dir_entries fs ss)) ! i)
       else fi_name (fis ! i) = [])"
  using assms
proof (induction As arbitrary: dp fi fs k)
  case Nil
  then show ?case using dir_tableD(4) [OF Nil(1)] by (simp add: keeps_refl)
next
  case (Cons A As)
  let ?es = "dir_entries fs ss"
  have "validate_dir A dp fs = FR_OK" using Cons.prems(2) by simp
  from readdir_step [OF Cons.prems(1) this Cons.prems(3), of fi] obtain dp1 fi1 fs1 k1 where
    r: "f_readdir A dp (Some fi) fs = Some (FR_OK, dp1, Some fi1, fs1)" and k: "keeps fs fs1" and i: "d_id dp1 = d_id dp"
    and a: "at_entry fs1 sc cs ss k1 dp1"
    and sh: "case shown (drop k ?es) of [] \<Rightarrow> fi_name fi1 = [] \<and> shown (drop k1 ?es) = []
         | e # es \<Rightarrow> fi1 = entry_info e \<and> shown (drop k1 ?es) = es" by blast
  have e1: "dir_entries fs1 ss = ?es" by (rule keeps_dir(2) [OF Cons.prems(1) k])
  have "\<forall>A \<in> set As. validate_dir A dp1 fs1 = FR_OK"
    using Cons.prems(2) valid_kept [OF keeps_cfg [OF k] i] by simp
  from Cons.IH [OF keeps_dir(1) [OF Cons.prems(1) k] this a, of fi1] obtain fis dp' fs' where
    l: "list_dir As dp1 fi1 fs1 = Some (fis, dp', fs')" and k2: "keeps fs1 fs'" and n: "length fis = length As"
    and all: "\<And>i. i < length As \<Longrightarrow> if i < length (shown (drop k1 ?es)) then fis ! i = entry_info (shown (drop k1 ?es) ! i)
       else fi_name (fis ! i) = []" unfolding e1 by blast
  have "list_dir (A # As) dp fi fs = Some (fi1 # fis, dp', fs')" using r l by simp
  moreover have "if i < length (shown (drop k ?es)) then (fi1 # fis) ! i = entry_info (shown (drop k ?es) ! i)
       else fi_name ((fi1 # fis) ! i) = []" if "i < length (A # As)" for i
    using sh all that by (cases i; cases "shown (drop k ?es)") (auto split: if_splits)
  ultimately show ?case using keeps_trans [OF k k2] n by auto
qed

subsection \<open>Opening\<close>

lemma sdi_loop_less:
  assumes "sdi_loop csz ofs clst fs = Some res"
  shows "(\<exists>r. fst res = Inl r \<and> r \<noteq> FR_OK) \<or> (\<exists>n c. fst res = Inr (n, c) \<and> n < csz)"
  using assms
proof (rule sdi_loop.raw_induct [rotated])
  fix L :: "u32 \<Rightarrow> u32 \<Rightarrow> u32 \<Rightarrow> fatfs \<Rightarrow> ((FRESULT + u32 \<times> u32) \<times> fatfs) option" and csz ofs clst fs res
  assume L: "\<And>csz ofs clst fs res. L csz ofs clst fs = Some res \<Longrightarrow>
      (\<exists>r. fst res = Inl r \<and> r \<noteq> FR_OK) \<or> (\<exists>n c. fst res = Inr (n, c) \<and> n < csz)"
  show "(if ofs \<ge> csz then
        (case get_fat clst fs of
           (clst, fs1) \<Rightarrow>
             if clst = 0xFFFFFFFF then Some (Inl FR_DISK_ERR, fs1)
             else if clst < 2 \<or> clst \<ge> n_fatent fs1 then Some (Inl FR_INT_ERR, fs1)
             else L csz (ofs - csz) clst fs1)
      else Some (Inr (ofs, clst), fs)) = Some res \<Longrightarrow> (\<exists>r. fst res = Inl r \<and> r \<noteq> FR_OK) \<or> (\<exists>n c. fst res = Inr (n, c) \<and> n < csz)"
    by (auto split: prod.splits if_splits dest: L)
qed

lemma sdi_start_same:
  assumes "dir_sdi 0 dp fs = Some (FR_OK, dp', fs')"
  shows "fs' = fs"
proof -
  have "x = (0, c) \<and> fs1 = fs" if "sdi_loop csz 0 c fs = Some (Inr x, fs1)" for csz c x fs1
  proof -
    have "csz \<noteq> 0" using sdi_loop_less [OF that] by auto
    then show ?thesis using that by (subst (asm) sdi_loop.simps) auto
  qed
  then show ?thesis
    using assms
    by (auto simp: dir_sdi_def sdi_set_def Let_def split: if_splits option.splits sum.splits prod.splits dest: sdi_loop_less)
qed

text \<open>An open directory stands on its first entry.\<close>

lemma opendir_lock_start:
  assumes "opendir_lock dp L = Some (FR_OK, dp1, L1)"
  obtains dp0 l where "dir_sdi 0 dp0 (lib_fs L1) = Some (FR_OK, dp1\<lparr>d_lockid := l\<rparr>, lib_fs L1)"
    and "d_id dp0 = Some (vol_id (lib_fs L1))"
proof -
  obtain dp3 fs where d: "dir_sdi 0 (dp\<lparr>d_id := Some (vol_id (lib_fs L))\<rparr>) (lib_fs L) = Some (FR_OK, dp3, fs)"
    and r: "lib_fs L1 = fs" "dp3 = dp1\<lparr>d_lockid := d_lockid dp3\<rparr>"
    using assms by (auto simp: opendir_lock_def Let_def split: option.splits prod.splits if_splits)
  show thesis using that d r sdi_start_same [OF d] by (metis dirobj.select_convs(1) dirobj.surjective dirobj.update_convs(1))
qed

lemma locate_failed: "locate A mode path dp L = Some (Inl r, dp1, L1) \<Longrightarrow> r \<noteq> FR_OK"
  by (auto simp: locate_def split: prod.splits if_splits option.splits)

lemma opendir_locked:
  assumes "f_opendir A (Some dp) path L = Some (FR_OK, Some dp1, L1)"
  obtains dp0 L0 where "opendir_lock dp0 L0 = Some (FR_OK, dp1, L1)"
proof -
  obtain r dp2 L2 where p: "opendir_path r dp2 L2 = Some (FR_OK, dp1, L1)"
    using assms by (auto simp: f_opendir_def Let_def split: option.splits sum.splits prod.splits if_splits dest: locate_failed)
  show thesis
  proof (cases "r \<noteq> FR_OK")
    case True
    then show thesis using p by (simp add: opendir_path_def)
  next
    case False
    then show thesis using p that by (simp add: opendir_path_def split: if_splits)
  qed
qed

lemma sdi_fields: "dir_sdi ofs dp fs = Some (r, dp', fs') \<Longrightarrow> d_sclust dp' = d_sclust dp \<and> d_id dp' = d_id dp"
  by (auto simp: dir_sdi_def sdi_set_def Let_def split: if_splits option.splits sum.splits prod.splits)

lemma opendir_at_first:
  assumes "f_opendir A (Some dp) path L = Some (FR_OK, Some dp1, L1)" and "dir_table (lib_fs L1) (d_sclust dp1) cs ss"
  shows "at_entry (lib_fs L1) (d_sclust dp1) cs ss 0 dp1" "d_id dp1 = Some (vol_id (lib_fs L1))"
proof -
  obtain dp0 l where s: "dir_sdi 0 dp0 (lib_fs L1) = Some (FR_OK, dp1\<lparr>d_lockid := l\<rparr>, lib_fs L1)"
    and i: "d_id dp0 = Some (vol_id (lib_fs L1))"
    using opendir_locked [OF assms(1)] opendir_lock_start by metis
  from sdi_fields [OF s] i show "d_id dp1 = Some (vol_id (lib_fs L1))" by simp
  have "d_sclust dp0 = d_sclust dp1" using sdi_fields [OF s] by simp
  from dir_start_first [OF assms(2) this] s have "dir_pos (lib_fs L1) (d_sclust dp1) cs ss 0 (dp1\<lparr>d_lockid := l\<rparr>)"
    by (metis Pair_inject option.inject)
  then show "at_entry (lib_fs L1) (d_sclust dp1) cs ss 0 dp1" by (simp add: at_entry_def dir_pos_def)
qed

text \<open>
  C14: the calls of \<open>f_readdir\<close> that follow an \<open>f_opendir\<close> answer with the files of the directory,
  one after the other in the order of the directory and with what their entries say, and then with
  an empty name, however often they are called; they change nothing.
\<close>

theorem opendir_readdir_lists:
  assumes "f_opendir A (Some dp) path L = Some (FR_OK, Some dp1, L1)" and "dir_table (lib_fs L1) (d_sclust dp1) cs ss"
    and "\<forall>B \<in> set As. a_lock B \<and> a_stat B AND STA_NOINIT = 0"
  shows "\<exists>fis dp2 fs'. list_dir As dp1 fi (lib_fs L1) = Some (fis, dp2, fs') \<and> keeps (lib_fs L1) fs' \<and> length fis = length As \<and>
    (\<forall>i < length As. if i < length (shown (dir_entries (lib_fs L1) ss))
       then fis ! i = entry_info (shown (dir_entries (lib_fs L1) ss) ! i) else fi_name (fis ! i) = [])"
proof -
  have "fs_type (lib_fs L1) \<noteq> FS_NONE" using dir_tableD(3) [OF assms(2)] by (auto simp: geometry_def)
  then have "\<forall>B \<in> set As. validate_dir B dp1 (lib_fs L1) = FR_OK"
    using assms(3) opendir_at_first(2) [OF assms(1,2)] by (simp add: validate_dir_def)
  from list_dir_shown [OF assms(2) this opendir_at_first(1) [OF assms(1,2)], of fi] show ?thesis unfolding drop_0 .
qed

definition demo_root_lib :: fatlib where
  "demo_root_lib = (demo_lib [])\<lparr>lib_fs := demo_root demo_name\<rparr>"

lemma demo_sdi:
  assumes "d_sclust dp = 0"
  shows "dir_sdi 0 dp (demo_root nm) = Some (FR_OK, dp\<lparr>dptr := 0, d_clust := 0, d_sect := 3, d_ofs := 0\<rparr>, demo_root nm)"
  using assms by (simp add: dir_sdi_def sdi_set_def demo_root_def demo_fs_def)

lemma demo_opendir:
  "\<exists>dp1. f_opendir demo_answers (Some demo_dir) [0x2F] demo_root_lib = Some (FR_OK, Some dp1, demo_root_lib) \<and> d_sclust dp1 = 0"
proof -
  have sel: "lib_registered demo_root_lib" "fs_type (demo_root demo_name) = FS_FAT16"
    by (simp_all add: demo_root_lib_def demo_lib_def demo_root_def demo_fs_def)
  have l: "lib_fs demo_root_lib = demo_root demo_name" "demo_root_lib\<lparr>lib_fs := demo_root demo_name\<rparr> = demo_root_lib"
    by (simp_all add: demo_root_lib_def)
  have g: "get_ldnumber (Some [0x2F]) = (Some 0, [0x2F])"
    by (simp add: get_ldnumber_def IsTerminator_def path_at_def)
  have m: "mount_volume True 0 0 (Some [0x2F]) 0 demo_root_lib = (FR_OK, [0x2F], demo_root_lib)"
    by (simp add: mount_volume_def g sel l)
  have n: "length (d_fn demo_dir) = 12" using demo_name by (simp add: demo_dir_def)
  show ?thesis
    by (simp add: f_opendir_def locate_def demo_answers_def m l follow_path_def path_at_def IsSeparator_def demo_sdi
        n opendir_path_def opendir_lock_def)
qed

theorem opendir_readdir_lists_witness:
  "\<exists>dp1 L1 a b dp2 fs'. f_opendir demo_answers (Some demo_dir) [0x2F] demo_root_lib = Some (FR_OK, Some dp1, L1) \<and>
    list_dir [demo_answers, demo_answers] dp1 \<lparr>fi_size = 0, fi_date = 0, fi_time = 0, fi_attrib = 0, fi_name = []\<rparr> (lib_fs L1) = Some ([a, b], dp2, fs') \<and>
    fi_name a = [0x41] \<and> fi_name b = []"
proof -
  obtain dp1 where o: "f_opendir demo_answers (Some demo_dir) [0x2F] demo_root_lib = Some (FR_OK, Some dp1, demo_root_lib)"
    and z: "d_sclust dp1 = 0" using demo_opendir by blast
  have l: "lib_fs demo_root_lib = demo_root demo_name" by (simp add: demo_root_lib_def)
  have t: "dir_table (lib_fs demo_root_lib) (d_sclust dp1) [] [3]" using demo_root_table [of demo_name] demo_name z l by simp
  have a: "\<forall>B \<in> set [demo_answers, demo_answers]. a_lock B \<and> a_stat B AND STA_NOINIT = 0" by (simp add: demo_answers_def)
  define e where "e = demo_name @ replicate 21 (0 :: u8)"
  have e: "e ! 0 = 0x41" "e ! 11 = 0" "take 11 e = demo_name" by (simp_all add: e_def demo_name_def nth_append)
  have "dir_entries (demo_root demo_name) [3] = e # replicate 15 (replicate 32 0)"
    using demo_root_entries [of demo_name] demo_name by (simp add: e_def)
  then have s: "shown (dir_entries (lib_fs demo_root_lib) [3]) = [e]"
    using e by (simp add: l shown_def listed_def takeWhile_replicate)
  have "info_name k (replicate n 0x20) = []" for k n by (induction n arbitrary: k) simp_all
  then have n: "fi_name (entry_info e) = [0x41]" unfolding entry_info_def e by (simp add: demo_name_def)
  from opendir_readdir_lists [OF o t a, of "\<lparr>fi_size = 0, fi_date = 0, fi_time = 0, fi_attrib = 0, fi_name = []\<rparr>", unfolded s] obtain fis dp2 fs' where
    r: "list_dir [demo_answers, demo_answers] dp1 \<lparr>fi_size = 0, fi_date = 0, fi_time = 0, fi_attrib = 0, fi_name = []\<rparr> (lib_fs demo_root_lib) = Some (fis, dp2, fs')" "length fis = 2"
    and i: "\<forall>i < 2. if i < 1 then fis ! i = entry_info ([e] ! i) else fi_name (fis ! i) = []" by auto
  then obtain x y where "fis = [x, y]" by (auto simp: numeral_2_eq_2 length_Suc_conv)
  then show ?thesis using o r n i [rule_format, of 0] i [rule_format, of 1] by auto
qed

subsection \<open>What an open directory locks\<close>

lemma chk_share_delete: "chk_share obj 2 Files = (if \<exists>e \<in> set Files. f_is obj e then FR_LOCKED else FR_OK)"
proof (cases rule: find_index_cases [of "f_is obj" Files])
  case found
  then have "Files ! find_index (f_is obj) Files \<in> set Files" by simp
  then show ?thesis using found by (auto simp: chk_share_def Let_def)
next
  case none
  then show ?thesis by (auto simp: chk_share_def)
qed

lemma update_other:
  assumes "i < length xs" and "\<not> P (xs ! i)" and "\<not> P y"
  shows "(\<exists>x \<in> set (xs[i := y]). P x) \<longleftrightarrow> (\<exists>x \<in> set xs. P x)"
  using assms by (auto simp: in_set_conv_nth nth_list_update Bex_def)

lemma inc_entry_other:
  assumes "i < length Files" and "\<not> f_is obj (Files ! i)"
  shows "chk_share obj 2 (snd (inc_entry i acc Files)) = chk_share obj 2 Files"
proof -
  have c: "f_is obj ((Files ! i)\<lparr>f_ctr := c\<rparr>) = f_is obj (Files ! i)" for c by (simp add: f_is_def)
  have u: "(\<exists>x \<in> set (Files[i := (Files ! i)\<lparr>f_ctr := c\<rparr>]). f_is obj x) \<longleftrightarrow> (\<exists>x \<in> set Files. f_is obj x)" for c
    by (rule update_other [where P = "f_is obj", OF assms]) (use c assms(2) in simp)
  have "chk_share obj 2 (Files[i := (Files ! i)\<lparr>f_ctr := c\<rparr>]) = chk_share obj 2 Files" for c
    unfolding chk_share_delete u ..
  then show ?thesis by (simp add: inc_entry_def)
qed

lemma inc_share_other:
  assumes "obj \<noteq> obj'"
  shows "chk_share obj 2 (snd (inc_share obj' acc Files)) = chk_share obj 2 Files"
proof (cases rule: find_index_cases [of "f_is obj'" Files])
  case found
  moreover have "\<not> f_is obj (Files ! find_index (f_is obj') Files)" using found assms by (auto simp: f_is_def)
  ultimately show ?thesis by (simp add: inc_share_def Let_def inc_entry_other)
next
  case none
  show ?thesis
  proof (cases rule: find_index_cases [of "\<lambda>e. \<not> f_used e" Files])
    case found
    define i where "i = find_index (\<lambda>e. \<not> f_used e) Files"
    define e where "e = \<lparr>f_used = True, f_clu = fst obj', f_ofs = snd obj', f_ctr = 0\<rparr>"
    have i: "i < length Files" "\<not> f_is obj (Files ! i)" "\<not> f_is obj e"
      using found assms by (auto simp: i_def e_def f_is_def)
    then have "chk_share obj 2 (Files[i := e]) = chk_share obj 2 Files"
      using update_other [OF i] by (simp add: chk_share_delete)
    then show ?thesis
      using none(1) i inc_entry_other [of i "Files[i := e]" obj acc] by (simp add: inc_share_def Let_def i_def e_def)
  next
    case none': none
    then show ?thesis using none(1) by (simp add: inc_share_def)
  qed
qed

text \<open>
  Opening a sub-directory locks what has the place of its own first entry, not its entry in the
  parent directory: a later \<open>f_unlink\<close> or \<open>f_rename\<close> of the open directory is not refused.
\<close>

theorem opendir_parent_unlocked:
  assumes "opendir_lock dp L = Some (r, dp1, L1)" and "obj \<noteq> (d_sclust dp, 0)"
  shows "chk_share obj 2 (lib_files L1) = chk_share obj 2 (lib_files L)"
proof -
  obtain r2 dp2 fs where s: "dir_sdi 0 (dp\<lparr>d_id := Some (vol_id (lib_fs L))\<rparr>) (lib_fs L) = Some (r2, dp2, fs)"
    using assms(1) by (auto simp: opendir_lock_def split: option.splits)
  have "dir_obj dp2 = (d_sclust dp, 0)" using s
    by (auto simp: dir_obj_def dir_sdi_def sdi_set_def Let_def split: if_splits option.splits sum.splits prod.splits)
  then show ?thesis
    using assms s inc_share_other [OF assms(2), of 0 "lib_files L"]
    by (auto simp: opendir_lock_def Let_def split: if_splits prod.splits)
qed

subsection \<open>The name of the current directory\<close>

text \<open>In the root directory a buffer of one byte gets the separator, and the byte behind it a zero.\<close>

theorem getcwd_behind_buffer:
  assumes "mount_volume (a_lock A) (a_stat A) (a_init A) (Some []) 0 L = (FR_OK, p, L1)" and "cdir (lib_fs L1) = 0"
  shows "f_getcwd A buff 1 dj L = Some (FR_OK, buff(0 := 0x2F, 1 := 0), L1)"
proof -
  have "cwd_loop 1 b (dj\<lparr>d_sclust := 0\<rparr>) fs = Some (FR_OK, 1, b, fs)" for b fs
    by (subst cwd_loop.simps) simp
  moreover have "cwd_copy 0 0 1 b = Some (1, b)" for b by (subst cwd_copy.simps) simp
  ultimately show ?thesis using assms by (simp add: f_getcwd_def Let_def)
qed

end
