(* ===== verification/FatFs_Free.thy ===== *)
theory FatFs_Free
  imports FatFs_Api FatFs_Sectors
begin

text \<open>
  The number of free clusters: where it is not known, \<open>f_getfree\<close> counts the zero entries of the
  table, one by one for FAT12 and through the bytes of its sectors for FAT16 and FAT32.
\<close>

text \<open>The zero entries from \<open>c\<close> on.\<close>

definition zeros :: "fatfs \<Rightarrow> nat \<Rightarrow> nat \<Rightarrow> nat" where
  "zeros fs c n = length (filter (\<lambda>d. fat_entry fs (of_nat d) = 0) [c..<n])"

lemma zeros_step: "c < n \<Longrightarrow> zeros fs c n = (if fat_entry fs (of_nat c) = 0 then 1 else 0) + zeros fs (Suc c) n"
  by (simp add: zeros_def upt_conv_Cons)

lemma zeros_end [simp]: "zeros fs n n = 0"
  by (simp add: zeros_def)

lemma index_word: "c < unat (n_fatent fs) \<Longrightarrow> unat (of_nat c :: u32) = c \<and> (of_nat c :: u32) < n_fatent fs"
  using unat_u32_less [of "n_fatent fs"] unat_u32 [of c] by (simp add: word_less_nat_alt)

lemma keeps_zeros:
  assumes "keeps fs fs'" and "geometry fs" and "n \<le> unat (n_fatent fs)"
  shows "zeros fs' c n = zeros fs c n"
proof -
  have "fat_entry fs' (of_nat d) = fat_entry fs (of_nat d)" if "d < n" for d
    using keeps_entry [OF assms(1,2)] index_word [of d fs] that assms(3) by simp
  then show ?thesis unfolding zeros_def by (intro arg_cong [of _ _ length] filter_cong) auto
qed

lemma keeps_ready: "keeps fs fs' \<Longrightarrow> fs_ready fs \<Longrightarrow> fs_ready fs'"
  using cfg_geometry(1) [OF keeps_cfg] cfg_regions(3) [OF keeps_cfg] keeps_window by (fastforce simp: fs_ready_def)

subsection \<open>Through the sectors\<close>

lemma step_values: "fs_type fs = FS_FAT16 \<or> fs_type fs = FS_FAT32 \<Longrightarrow> entry_width fs = 2 \<or> entry_width fs = 4"
  by (auto simp: entry_width_def)

lemma step_room: "w = 2 \<or> w = 4 \<Longrightarrow> w * c mod 512 + w \<le> (512 :: nat)"
  using entry_in_sector(1) [of c] entry_in_sector(2) [of 3 c] by auto

lemma free_here_entry:
  assumes r: "fs_ready fs" and t: "fs_type fs = FS_FAT16 \<or> fs_type fs = FS_FAT32" and c: "c < unat (n_fatent fs)"
    and w: "winsect fs = fat_sect fs (entry_width fs * c)"
  shows "free_here fs (entry_width fs * c mod 512) \<longleftrightarrow> fat_entry fs (of_nat c) = 0"
proof -
  define k where "k = entry_width fs * c"
  have b: "win fs ! (k mod 512 + i) = fat_byte fs (k + i)" if "i < entry_width fs" for i
  proof -
    have "k mod 512 + i < 512" using step_room [OF step_values [OF t], of c] that by (simp add: k_def)
    from same_sector [OF this] w show ?thesis by (simp add: fat_byte_def fat_sect_def view_def k_def)
  qed
  have u: "unat (of_nat c :: u32) = c" using index_word [OF c] by simp
  show ?thesis
  proof (cases "fs_type fs = FS_FAT16")
    case True
    then have s: "entry_width fs = 2" by (simp add: entry_width_def)
    have z: "(ucast x :: u32) = 0 \<longleftrightarrow> x = 0" for x :: u16 by (metis unat_ucast16 unsigned_eq_0_iff)
    show ?thesis
      using b [of 0] b [of 1] True by (simp add: free_here_def fat_entry_def entry_of_def ld_word_def u s k_def z)
  next
    case False
    then have s: "entry_width fs = 4" and f: "fs_type fs = FS_FAT32" using t by (auto simp: entry_width_def)
    show ?thesis
      using b [of 0] b [of 1] b [of 2] b [of 3] by (simp add: free_here_def fat_entry_def entry_of_def ld_dword_def Let_def u s f k_def)
  qed
qed

lemma scan_place:
  assumes w: "w = 2 \<or> w = 4"
  shows "(w * c mod 512 + w) mod 512 = w * Suc c mod (512 :: nat)"
    "w * c mod 512 = 0 \<Longrightarrow> (w * c + 511) div 512 = w * c div 512 \<and> (w * Suc c + 511) div 512 = w * c div 512 + 1"
    "w * c mod 512 \<noteq> 0 \<Longrightarrow> (w * Suc c + 511) div 512 = (w * c + 511) div 512"
    "w * Suc c mod 512 \<noteq> 0 \<Longrightarrow> w * Suc c div 512 = w * c div 512"
proof -
  define r q where "r = w * c mod 512" and "q = w * c div 512"
  have k: "w * c = q * 512 + r" "w * Suc c = q * 512 + (r + w)" by (simp_all add: r_def q_def)
  have le: "r + w \<le> 512" using step_room [OF w, of c] by (simp add: r_def)
  show "(w * c mod 512 + w) mod 512 = w * Suc c mod 512" unfolding r_def [symmetric] k by (simp add: r_def mod_add_left_eq)
  have "w * c mod 512 = r" by (simp add: r_def)
  moreover have "(q * 512 + (r + w) + 511) div 512 = q + 1"
    using le w div_mult_self3 [of 512 "r + w + 511" q] by (auto simp: add.assoc)
  moreover have "(q * 512 + r + 511) div 512 = (if r = 0 then q else q + 1)"
    using le w div_mult_self3 [of 512 "r + 511" q] by (auto simp: add.assoc)
  ultimately show "w * c mod 512 = 0 \<Longrightarrow> (w * c + 511) div 512 = w * c div 512 \<and> (w * Suc c + 511) div 512 = w * c div 512 + 1"
    "w * c mod 512 \<noteq> 0 \<Longrightarrow> (w * Suc c + 511) div 512 = (w * c + 511) div 512"
    unfolding q_def [symmetric] k by (simp_all add: add.assoc)
  assume "w * Suc c mod 512 \<noteq> 0"
  then have "r + w \<noteq> 512" unfolding k by auto
  then have "r + w < 512" using le by simp
  then show "w * Suc c div 512 = w * c div 512" unfolding q_def [symmetric] k by simp
qed

lemma free_scan_counts:
  assumes "fs_ready fs" and "fs_type fs = FS_FAT16 \<or> fs_type fs = FS_FAT32" and "c + n = unat (n_fatent fs)"
    and "s = fat_sect fs (entry_width fs * c + 511)" and "i = entry_width fs * c mod 512"
    and "i \<noteq> 0 \<longrightarrow> winsect fs = fat_sect fs (entry_width fs * c)"
  shows "\<exists>fs'. free_scan n s i nfree fs = (FR_OK, nfree + of_nat (zeros fs c (c + n)), fs') \<and> keeps fs fs'"
  using assms
proof (induction n arbitrary: c s i nfree fs)
  case 0
  then show ?case by (simp add: keeps_refl fs_ready_def)
next
  case (Suc n)
  define w where "w = entry_width fs"
  note r = Suc.prems(1) and t = Suc.prems(2)
  have wv: "w = 2 \<or> w = 4" using step_values [OF t] by (simp add: w_def)
  note pl = scan_place [OF wv, of c]
  have g: "geometry fs" and wo: "window_ok fs" and io: "io_ok fs" using r by (auto simp: fs_ready_def)
  have c: "c < unat (n_fatent fs)" using Suc.prems(3) by simp
  have room: "w * c < 512 * unat (fsize fs)"
    using entry_offsets(2,3) [OF g, of "of_nat c"] index_word [OF c] t by (auto simp: w_def entry_width_def)
  obtain fs1 where m: "(if i = 0 then move_window s fs else (FR_OK, fs)) = (FR_OK, fs1)" and k: "keeps fs fs1"
    and ws: "winsect fs1 = fat_sect fs (w * c)"
  proof (cases "i = 0")
    case True
    then have s: "s = fat_sect fs (w * c)" using Suc.prems(4,5) pl(2) by (simp add: w_def fat_sect_def)
    obtain q fs1 where m: "move_window (fat_sect fs (w * c)) fs = (q, fs1)" by fastforce
    note mm = move_to_byte [OF g wo room m]
    then show thesis using that True s m io by auto
  next
    case False
    then show thesis using that [of fs] Suc.prems(6) wo by (simp add: keeps_refl w_def)
  qed
  note cf = cfgD [OF keeps_cfg [OF k]]
  have w1: "entry_width fs1 = w" using cf(1) by (simp add: entry_width_def w_def)
  have fsec: "fat_sect fs1 = fat_sect fs" by (rule ext) (simp add: fat_sect_def cf)
  have r1: "fs_ready fs1" by (rule keeps_ready [OF k r])
  have t1: "fs_type fs1 = FS_FAT16 \<or> fs_type fs1 = FS_FAT32" using t cf(1) by simp
  have h: "free_here fs1 i \<longleftrightarrow> fat_entry fs (of_nat c) = 0"
    using free_here_entry [OF r1 t1, of c] c ws keeps_entry [OF k g] index_word [OF c] Suc.prems(5)
    by (simp add: w1 fsec cf(9) flip: w_def)
  define s' i' nf where "s' = (if i = 0 then s + 1 else s)" and "i' = (i + w) mod 512"
    and "nf = (if free_here fs1 i then nfree + 1 else nfree)"
  have p: "c + Suc n = Suc c + n" by simp
  have i': "i' = entry_width fs1 * Suc c mod 512" using pl(1) Suc.prems(5) unfolding i'_def w1 w_def [symmetric] by simp
  have s': "s' = fat_sect fs1 (entry_width fs1 * Suc c + 511)"
    using pl(2,3) Suc.prems(4,5) unfolding s'_def w1 fsec w_def [symmetric] by (auto simp: fat_sect_def)
  have ws': "i' \<noteq> 0 \<longrightarrow> winsect fs1 = fat_sect fs1 (entry_width fs1 * Suc c)"
    using pl(4) ws i' unfolding w1 fsec by (simp add: fat_sect_def)
  have n': "Suc c + n = unat (n_fatent fs1)" using Suc.prems(3) cf(9) by simp
  from Suc.IH [OF r1 t1 n' s' i' ws', of nf] obtain fs' where
    l: "free_scan n s' i' nf fs1 = (FR_OK, nf + of_nat (zeros fs1 (Suc c) (Suc c + n)), fs')" and k': "keeps fs1 fs'" by blast
  have "zeros fs1 (Suc c) (Suc c + n) = zeros fs (Suc c) (Suc c + n)"
    using keeps_zeros [OF k g] Suc.prems(3) by simp
  then have "free_scan (Suc n) s i nfree fs = (FR_OK, nfree + of_nat (zeros fs c (c + Suc n)), fs')"
    using m l h zeros_step [of c "c + Suc n" fs] by (simp add: w1 nf_def s'_def i'_def)
  then show ?case using keeps_trans [OF k k'] by blast
qed

subsection \<open>Entry by entry\<close>

lemma free_scan12_counts:
  assumes "fs_ready fs" and "c + n = unat (n_fatent fs)" and "2 \<le> c"
    and "\<forall>d. 2 \<le> d \<and> d < n_fatent fs \<longrightarrow> fat_entry fs d \<noteq> 1"
  shows "\<exists>fs'. free_scan12 n (of_nat c) nfree fs = (FR_OK, nfree + of_nat (zeros fs c (c + n)), fs') \<and> keeps fs fs'"
  using assms
proof (induction n arbitrary: c nfree fs)
  case 0
  then show ?case by (simp add: keeps_refl fs_ready_def)
next
  case (Suc n)
  note r = Suc.prems(1)
  have g: "geometry fs" using r by (simp add: fs_ready_def)
  define d where "d = (of_nat c :: u32)"
  have d: "2 \<le> d" "d < n_fatent fs"
    using index_word [of c fs] Suc.prems(2,3) by (simp_all add: d_def word_le_nat_alt)
  obtain fs1 where gf: "get_fat d fs = (fat_entry fs d, fs1)" and k: "keeps fs fs1" and r1: "fs_ready fs1"
    by (rule get_fat_ready [OF r d])
  have ne: "fat_entry fs d \<noteq> 1" using Suc.prems(4) d by blast
  have "mounted fs" using r by (simp add: mounted_ready)
  from fatmap_no_error [OF this, of d] d have ne': "fat_entry fs d \<noteq> 0xFFFFFFFF" by (simp add: fatmap_def)
  have n1: "n_fatent fs1 = n_fatent fs" by (rule cfgD(9) [OF keeps_cfg [OF k]])
  have o: "\<forall>d. 2 \<le> d \<and> d < n_fatent fs1 \<longrightarrow> fat_entry fs1 d \<noteq> 1" using Suc.prems(4) n1 keeps_entry [OF k g] by simp
  have c1: "Suc c + n = unat (n_fatent fs1)" "2 \<le> Suc c" using Suc.prems(2,3) n1 by simp_all
  from Suc.IH [OF r1 c1 o, of "if fat_entry fs d = 0 then nfree + 1 else nfree"] obtain fs' where
    l: "free_scan12 n (of_nat (Suc c)) (if fat_entry fs d = 0 then nfree + 1 else nfree) fs1 =
      (FR_OK, (if fat_entry fs d = 0 then nfree + 1 else nfree) + of_nat (zeros fs1 (Suc c) (Suc c + n)), fs')" and k': "keeps fs1 fs'" by blast
  have z: "zeros fs1 (Suc c) (Suc c + n) = zeros fs (Suc c) (Suc c + n)" using keeps_zeros [OF k g] Suc.prems(2) by simp
  have d1: "of_nat (Suc c) = d + 1" by (simp add: d_def)
  have zs: "zeros fs c (c + Suc n) = (if fat_entry fs d = 0 then 1 else 0) + zeros fs (Suc c) (Suc c + n)"
    using zeros_step [of c "c + Suc n" fs] by (simp add: d_def)
  have "free_scan12 (Suc n) d nfree fs = (FR_OK, nfree + of_nat (zeros fs c (c + Suc n)), fs')"
    using gf ne ne' l [unfolded d1 z] unfolding zs by (cases "fat_entry fs d = 0") (simp_all add: add.assoc)
  then show ?case using keeps_trans [OF k k'] by (auto simp: d_def)
qed

subsection \<open>The count\<close>

lemma zeros_free:
  assumes "m = 2 \<or> m = 0 \<and> fat_entry fs 0 \<noteq> 0 \<and> fat_entry fs 1 \<noteq> 0"
  shows "zeros fs m (unat (n_fatent fs)) = card (free_set fs)"
proof -
  define D where "D = {d. m \<le> d \<and> d < unat (n_fatent fs) \<and> fat_entry fs (of_nat d) = 0}"
  have "set (filter (\<lambda>d. fat_entry fs (of_nat d) = 0) [m..<unat (n_fatent fs)]) = D" by (auto simp: D_def)
  then have "zeros fs m (unat (n_fatent fs)) = card D"
    unfolding zeros_def by (metis distinct_card distinct_filter distinct_upt)
  moreover have inj: "inj_on (of_nat :: nat \<Rightarrow> u32) D"
    by (rule inj_onI) (metis (mono_tags, lifting) D_def index_word mem_Collect_eq)
  moreover have "of_nat ` D = free_set fs"
  proof (intro equalityI subsetI)
    fix x :: u32 assume "x \<in> of_nat ` D"
    then obtain d where d: "x = of_nat d" "m \<le> d" "d < unat (n_fatent fs)" "fat_entry fs x = 0" by (auto simp: D_def)
    have "2 \<le> d"
    proof (rule ccontr)
      assume "\<not> 2 \<le> d"
      then have "d = 0 \<or> d = 1" by auto
      then show False using assms d by auto
    qed
    then show "x \<in> free_set fs" using index_word [OF d(3)] d by (simp add: free_set_def fatmap_def word_le_nat_alt)
  next
    fix x assume "x \<in> free_set fs"
    then have x: "2 \<le> x" "x < n_fatent fs" "fat_entry fs x = 0" by (auto simp: free_set_def fatmap_def split: if_splits)
    then have "unat x \<in> D" using assms by (auto simp: D_def word_le_nat_alt word_less_nat_alt)
    then show "x \<in> of_nat ` D" by (rule image_eqI [rotated]) simp
  qed
  ultimately show ?thesis by (metis card_image)
qed

text \<open>What the two reserved entries, or for FAT12 the entries that are read, must not be.\<close>

definition countable_fat :: "fatfs \<Rightarrow> bool" where
  "countable_fat fs \<longleftrightarrow>
     (if fs_type fs = FS_FAT12 then \<forall>d. 2 \<le> d \<and> d < n_fatent fs \<longrightarrow> fat_entry fs d \<noteq> 1
      else fat_entry fs 0 \<noteq> 0 \<and> fat_entry fs 1 \<noteq> 0)"

lemma count_free_exact:
  assumes "fs_ready fs" and "countable_fat fs"
  obtains fs' where "count_free fs = (FR_OK, of_nat (card (free_set fs)), fs')" and "keeps fs fs'"
proof -
  have g: "geometry fs" using assms(1) by (simp add: fs_ready_def)
  have n: "2 < unat (n_fatent fs)" "n_fatent fs \<noteq> 0" using g by (auto simp: geometry_def word_less_nat_alt)
  show thesis
  proof (cases "fs_type fs = FS_FAT12")
    case True
    have "2 + (unat (n_fatent fs) - 2) = unat (n_fatent fs)" "max 1 (unat (n_fatent fs) - 2) = unat (n_fatent fs) - 2" using n by auto
    then show thesis
      using that free_scan12_counts [OF assms(1), of 2 "unat (n_fatent fs) - 2" 0] zeros_free [of 2 fs] assms(2) True
      by (auto simp: count_free_def countable_fat_def)
  next
    case False
    then have t: "fs_type fs = FS_FAT16 \<or> fs_type fs = FS_FAT32" using g by (cases "fs_type fs") (auto simp: geometry_def)
    show thesis
      using that free_scan_counts [OF assms(1) t, of 0 "unat (n_fatent fs)" "fatbase fs" 0 0] zeros_free [of 0 fs] assms(2) n False
      by (auto simp: count_free_def countable_fat_def fat_sect_def)
  qed
qed

text \<open>
  C13: on a volume whose tables are sound, \<open>f_getfree\<close> answers with the number of clusters that are
  free, from the count the volume carries if that is valid and from a scan of the table otherwise;
  afterwards the volume carries the exact count, and nothing else has changed.
\<close>

theorem getfree_exact:
  assumes "mount_volume (a_lock A) (a_stat A) (a_init A) path 0 L = (FR_OK, p, L1)"
    and "fs_ready (lib_fs L1)" and "count_ok (lib_fs L1)" and "countable_fat (lib_fs L1)"
  shows "\<exists>fs2 i. f_getfree A path nclst L = (FR_OK, Some (of_nat (card (free_set (lib_fs L1)))),
       L1\<lparr>lib_fs := fs2\<lparr>free_clst := of_nat (card (free_set (lib_fs L1))), fsi_flag := i\<rparr>\<rparr>) \<and>
     keeps (lib_fs L1) fs2 \<and> count_ok (fs2\<lparr>free_clst := of_nat (card (free_set (lib_fs L1))), fsi_flag := i\<rparr>)"
proof -
  define fs where "fs = lib_fs L1"
  have g: "geometry fs" and w: "window_ok fs" using assms(2) by (auto simp: fs_ready_def fs_def)
  have s: "unat (of_nat (card (free_set fs)) :: u32) = card (free_set fs)"
  proof -
    have "card (free_set fs) \<le> unat (n_fatent fs) - 2" using card_mono [OF _ free_set_range] by (simp add: card_range)
    then show ?thesis using unat_u32_less [of "n_fatent fs"] by (intro unat_u32) simp
  qed
  have ok: "count_ok (fs2\<lparr>free_clst := of_nat (card (free_set fs)), fsi_flag := i\<rparr>)" if "free_set fs2 = free_set fs" for fs2 i
    using s that by (simp add: count_ok_def)
  show ?thesis
  proof (cases "free_clst fs \<le> n_fatent fs - 2")
    case True
    then have "unat (free_clst fs) = card (free_set fs)" using assms(3) by (simp add: count_ok_def fs_def)
    then have e: "free_clst fs = of_nat (card (free_set fs))" by (simp flip: \<open>unat (free_clst fs) = card (free_set fs)\<close>)
    then have "L1\<lparr>lib_fs := fs\<lparr>free_clst := of_nat (card (free_set fs)), fsi_flag := fsi_flag fs\<rparr>\<rparr> = L1"
      by (simp add: fs_def flip: e)
    then show ?thesis
      using True assms(1) e keeps_refl [OF w] ok [of fs "fsi_flag fs"] unfolding fs_def [symmetric]
      by - (rule exI [of _ fs], rule exI [of _ "fsi_flag fs"], simp add: f_getfree_def flip: fs_def)
  next
    case False
    obtain fs2 where c: "count_free fs = (FR_OK, of_nat (card (free_set fs)), fs2)" and k: "keeps fs fs2"
      using count_free_exact assms(2,4) by (metis fs_def)
    have "free_set fs2 = free_set fs" using keeps_fatmap [OF k g] by (simp add: free_set_def)
    from ok [OF this, of "fsi_flag fs2 OR 1"] show ?thesis
      using False assms(1) c k unfolding fs_def [symmetric]
      by - (rule exI [of _ fs2], rule exI [of _ "fsi_flag fs2 OR 1"], simp add: f_getfree_def flip: fs_def)
  qed
qed

definition demo_free_lib :: fatlib where
  "demo_free_lib = (demo_lib [])\<lparr>lib_fs := demo_fs FS_FAT12\<rparr>"

theorem getfree_exact_witness:
  "\<exists>L2. f_getfree demo_answers (Some []) None demo_free_lib = (FR_OK, Some 8, L2)"
proof -
  have sel: "lib_registered demo_free_lib" "lib_fs demo_free_lib = demo_fs FS_FAT12" "fs_type (demo_fs FS_FAT12) = FS_FAT12"
    by (simp_all add: demo_free_lib_def demo_lib_def demo_fs_def)
  have m: "mount_volume (a_lock demo_answers) (a_stat demo_answers) (a_init demo_answers) (Some []) 0 demo_free_lib = (FR_OK, [], demo_free_lib)"
    by (simp add: mount_volume_def demo_answers_def get_ldnumber_def path_at_def sel)
  have "fat_byte (demo_fs FS_FAT12) k = 0" for k by (simp add: fat_byte_def view_def demo_fs_def)
  then have e: "fat_entry (demo_fs FS_FAT12) d = 0" for d by (simp add: fat_entry_def entry_of_def sel)
  have n: "n_fatent (demo_fs FS_FAT12) = 10" "free_clst (demo_fs FS_FAT12) = 0xFFFFFFFF" by (simp_all add: demo_fs_def)
  have "free_set (demo_fs FS_FAT12) = {2..<10}" by (auto simp: free_set_def fatmap_def e n)
  then have c: "card (free_set (demo_fs FS_FAT12)) = 8" by (simp add: card_range)
  have "fs_ready (demo_fs FS_FAT12)" "count_ok (demo_fs FS_FAT12)" "countable_fat (demo_fs FS_FAT12)"
    by (simp_all add: demo_ready count_ok_def countable_fat_def e n sel)
  from getfree_exact [OF m, unfolded sel, OF this, of None] show ?thesis unfolding c by auto
qed

end
