(* ===== verification/FatFs_Reopen.thy ===== *)
theory FatFs_Reopen
  imports FatFs_Dir_List FatFs_Dir_Register
begin

text \<open>
  A file that was synced is found again: \<open>f_sync\<close> stores the start cluster and the size in the
  entry of the directory, and an \<open>f_open\<close> that follows gives the same content.
\<close>

subsection \<open>Writing the window and the information sector back\<close>

lemma copies_wrote:
  assumes "copies_inv fs" and "wrote_sects S fs fs'"
  shows "copies_inv fs'"
proof -
  have l: "layout fs' = layout fs" using assms(2) by (simp add: wrote_sects_def)
  show ?thesis
    using assms layout_eq [OF l] layoutD [OF l]
    by (simp add: copies_inv_def fs_ready_def info_outside_def wrote_sects_def mirror_kept_def)
qed

definition info_sects :: "fatfs \<Rightarrow> u32 set" where
  "info_sects fs = (if fs_type fs = FS_FAT32 then {volbase fs + 1} else {})"

lemma sync_fs_wrote:
  assumes c: "copies_inv fs"
  obtains fs' where "sync_fs fs = (FR_OK, fs')" and "wrote_sects (info_sects fs) fs fs'" and "fatmap fs' = fatmap fs"
    and "winsect fs' = winsect fs \<or> winsect fs' \<in> info_sects fs" and "vol_id fs' = vol_id fs"
proof -
  have w: "window_ok fs" and io: "io_ok fs" and g: "geometry fs" using c by (auto simp: copies_inv_def fs_ready_def)
  obtain r fs1 where s: "sync_window fs = (r, fs1)" by fastforce
  note k = sync_window_keeps [OF w s]
  have r: "r = FR_OK" and nw: "\<not> wflag fs1" using k(4,6) io by simp_all
  have io1: "\<not> io_fail fs1 n" for n using io cfgD(15) [OF keeps_cfg [OF k(1)]] by (simp add: io_ok_def)
  note cf = cfgD [OF keeps_cfg [OF k(1)]]
  have w1: "wrote_sects {} fs fs1" by (rule keeps_wrote [OF k(1)])
  have f1: "fatmap fs1 = fatmap fs" by (rule keeps_fatmap [OF k(1) g])
  have c1: "copies_inv fs1" by (rule copies_wrote [OF c w1])
  show thesis
  proof (cases "fs_type fs = FS_FAT32 \<and> fsi_flag fs = 1")
    case False
    define fs' where "fs' = fs1\<lparr>io_count := io_count fs1 + 1\<rparr>"
    have "(fs_type fs = FS_FAT32 \<and> fsi_flag fs = 1) = False" using False by blast
    then have sy: "sync_fs fs = (FR_OK, fs')"
      using s r io1 cf by (simp only: sync_fs_def Let_def fs'_def cf if_False prod.case simp_thms disk_sync_def) simp
    have e: "wrote_sects {} fs1 fs'"
      using c1 by (simp add: wrote_sects_def fs'_def layout_def copies_inv_def fs_ready_def window_ok_def mirror_kept_def mirrored_def
          view_def in_fat1_def in_fat2_def)
    have W: "wrote_sects T fs fs'" for T by (rule wrote_sects_trans [OF w1 e]) simp_all
    have "fatmap fs' = fatmap fs1" by (rule fatmap_view) (use e cf c1 in \<open>auto simp: fs'_def layout_def view_def copies_inv_def fs_ready_def\<close>)
    then show thesis using that [OF sy W] f1 k(2) cf(16) by (simp add: fs'_def)
  next
    case True
    define s' where "s' = volbase fs + 1"
    define fs' where "fs' = fs1\<lparr>win := fsinfo fs, winsect := s', io_count := io_count fs1 + 2,
      disk := (disk fs1)(s' := fsinfo fs), fsi_flag := 0\<rparr>"
    have sy: "sync_fs fs = (FR_OK, fs')"
      using s r io1 cf True by (simp add: sync_fs_def disk_write_sector_def disk_sync_def fsinfo_def Let_def fs'_def s'_def)
    have out: "\<not> in_fat1 fs1 s'" "\<not> in_fat2 fs1 s'" "s' \<noteq> 0 - 1"
      using c1 True cf by (auto simp: copies_inv_def info_outside_def s'_def)
    have wo: "window_ok fs1" using c1 by (simp add: copies_inv_def fs_ready_def)
    have l: "layout fs' = layout fs1" by (simp add: fs'_def layout_def)
    have v: "view fs' n = view fs1 n" if "n \<noteq> s'" "n \<noteq> 0 - 1" for n
      using that wo nw by (auto simp: view_def fs'_def window_ok_def)
    have "copies_inv fs'"
      using copies_write_info [OF c1 nw _ length_fsinfo [of fs], of "io_count fs1 + 2"] cf True by (simp add: fs'_def s'_def)
    then have e: "wrote_sects {s'} fs1 fs'"
      using l v by (simp add: wrote_sects_def copies_inv_def fs_ready_def mirror_kept_def)
    have W: "wrote_sects {s'} fs fs'" by (rule wrote_sects_trans [OF w1 e]) simp_all
    have "fatmap fs' = fatmap fs1"
    proof (rule fatmap_view [OF l])
      show "geometry fs1" using c1 by (simp add: copies_inv_def fs_ready_def)
      show "view fs' n = view fs1 n" if "in_fat1 fs1 n" for n
        using that out(1) in_fat1_valid [OF \<open>geometry fs1\<close> that] by (intro v) auto
    qed
    then show thesis using that [OF sy] W True f1 cf(16) by (simp add: s'_def fs'_def info_sects_def)
  qed
qed

subsection \<open>What a sync stores in the entry\<close>

definition synced_entry :: "fat_type \<Rightarrow> u32 \<Rightarrow> u32 \<Rightarrow> u32 \<Rightarrow> u8 list \<Rightarrow> u8 list" where
  "synced_entry t cl sz tm e =
     (let e1 = st_word (e[11 := e ! 11 OR AM_ARC]) 26 (ucast cl);
          e2 = (if t = FS_FAT32 then st_word e1 20 (ucast (drop_bit 16 cl)) else e1)
      in st_word (st_dword (st_dword e2 28 sz) 22 tm) 18 0)"

lemma put_at_update:
  assumes "n + length e \<le> length w" and "j < length e"
  shows "(put_at n e w)[n + j := x] = put_at n (e[j := x]) w"
  using assms by (simp add: put_at_def list_update_append min_def)

lemma put_at_word: "n + length e \<le> length w \<Longrightarrow> j + 2 \<le> length e \<Longrightarrow> st_word (put_at n e w) (n + j) v = put_at n (st_word e j v) w"
  using put_at_update [of n e w j] put_at_update [of n "e[j := x]" w "Suc j" for x] by (simp add: st_word_def)

lemma put_at_dword: "n + length e \<le> length w \<Longrightarrow> j + 4 \<le> length e \<Longrightarrow> st_dword (put_at n e w) (n + j) v = put_at n (st_dword e j v) w"
  using put_at_update [of n e w j] put_at_update [of n "e[j := x]" w "j + 1" for x]
    put_at_update [of n "e[j := x, j + 1 := y]" w "j + 2" for x y] put_at_update [of n "e[j := x, j + 1 := y, j + 2 := z]" w "j + 3" for x y z]
  by (simp add: st_dword_def add.assoc)

lemma length_st [simp]: "length (st_word e j v) = length e" "length (st_dword e j d) = length e"
  by (simp_all add: st_word_def st_dword_def)

lemma length_synced [simp]: "length (synced_entry t cl sz tm e) = length e"
  by (simp add: synced_entry_def Let_def)

text \<open>The edits of \<open>f_sync\<close> in the window.\<close>

definition sync_edit :: "nat \<Rightarrow> u32 \<Rightarrow> u32 \<Rightarrow> u32 \<Rightarrow> fatfs \<Rightarrow> fatfs" where
  "sync_edit i cl sz tm fs =
     (set_word (i + 18) 0 (set_dword (i + 22) tm (set_dword (i + 28) sz
        (st_clust i cl (set_byte (i + 11) (win fs ! (i + 11) OR AM_ARC) fs)))))\<lparr>wflag := True\<rparr>"

lemma sync_edit_entry:
  assumes w: "length (win fs) = 512" and i: "i + 32 \<le> 512"
  shows "sync_edit i cl sz tm fs = (win_put i (synced_entry (fs_type fs) cl sz tm (take 32 (drop i (win fs)))) fs)\<lparr>wflag := True\<rparr>"
proof -
  define e where "e = take 32 (drop i (win fs))"
  have l: "length e = 32" using w i by (simp add: e_def)
  have p: "win fs = put_at i e (win fs)"
    using w i by (simp add: put_at_def e_def append_take_drop_id flip: drop_drop take_add) (metis add.commute append_take_drop_id drop_drop)
  have b: "win fs ! (i + 11) = e ! 11" using w i by (simp add: e_def)
  have u: "(put_at i e' (win fs))[i + j := x] = put_at i (e'[j := x]) (win fs)"
    "st_word (put_at i e' (win fs)) (i + j) v = put_at i (st_word e' j v) (win fs)"
    "st_dword (put_at i e' (win fs)) (i + j) d = put_at i (st_dword e' j d) (win fs)" if "length e' = 32" "j \<le> 28" for e' j x v d
    using put_at_update [of i e' "win fs" j] put_at_word [of i e' "win fs" j] put_at_dword [of i e' "win fs" j] that w i by simp_all
  have st: "(win fs)[i + 11 := x] = put_at i (e[11 := x]) (win fs)" for x using u(1) [OF l, of 11 x] p by simp
  show ?thesis
    unfolding e_def [symmetric]
    by (simp add: sync_edit_def win_put_at set_byte_def st_clust_def set_dword_def set_word_def Let_def b st u l synced_entry_def)
qed

lemma sync_edit_stores:
  fixes cl sz tm :: u32
  assumes t: "dir_table fs sc ds ss" and w: "winsect fs = ss ! (k div 16)" and k: "k < dir_size ss" and i: "i = 32 * (k mod 16)"
    and e: "take 32 (drop i (win fs)) = dir_entry fs ss k"
  defines "fs' \<equiv> sync_edit i cl sz tm fs"
  shows "dir_table fs' sc ds ss" "wrote_sects {ss ! (k div 16)} fs fs'" "cfg fs' = cfg fs" "fatmap fs' = fatmap fs"
    "winsect fs' = winsect fs"
    "dir_entries fs' ss = (dir_entries fs ss)[k := synced_entry (fs_type fs) cl sz tm (dir_entry fs ss k)]"
proof -
  define ent where "ent = synced_entry (fs_type fs) cl sz tm (dir_entry fs ss k)"
  have "k mod 16 < 16" by simp
  then have io: "i + 32 \<le> 512" using i by simp
  have l: "length (win fs) = 512" using dir_tableD(4) [OF t] by (simp add: window_ok_def)
  have "fs' = (win_put i ent fs)\<lparr>wflag := True\<rparr>"
    unfolding fs'_def ent_def e [symmetric] by (rule sync_edit_entry [OF l io])
  then have C: "fs' = (win_put (32 * (k mod 16) + 0) ent fs)\<lparr>wflag := True\<rparr>" by (simp only: i add_0_right)
  have le: "length ent = 32" using dir_entry_length(2) [OF t, of k] by (simp add: ent_def)
  have "0 + length ent \<le> 32" using le by simp
  note u = put_entry [OF t w k this, folded C]
  show "dir_table fs' sc ds ss" by (rule u(1))
  show "wrote_sects {ss ! (k div 16)} fs fs'" by (rule u(3))
  show "cfg fs' = cfg fs" by (rule u(4))
  show "fatmap fs' = fatmap fs" by (rule u(5))
  show "winsect fs' = winsect fs" by (rule u(6))
  have "put_at 0 ent (dir_entry fs ss k) = ent" using le dir_entry_length(2) [OF t, of k] by (simp add: put_at_def)
  then show "dir_entries fs' ss = (dir_entries fs ss)[k := synced_entry (fs_type fs) cl sz tm (dir_entry fs ss k)]"
    using u(2) by (simp only: ent_def)
qed

subsection \<open>Syncing an open file\<close>

lemma flush_sects:
  assumes v: "vol_file fs cs" and b: "buf_ok fp fs cs" and f: "flush_buf fp fs = (True, fp1, fs1)"
  shows "wrote_sects (set (file_sects fs cs)) fs fs1" "cfg fs1 = cfg fs" "fatmap fs1 = fatmap fs"
proof -
  obtain S where w: "wrote_data S fs fs1" and S: "S \<subseteq> set (file_sects fs cs)" using flush_wrote [OF v b f] by blast
  have m: "mounted fs" using v by (simp add: vol_file_def mounted_ready)
  have ds: "data_sect fs s \<and> winsect fs \<noteq> s" if "s \<in> S" for s using that S v vol_file_data [OF v] by (auto simp: vol_file_def)
  note W = wrote_data_mounted [OF w ds m]
  show "cfg fs1 = cfg fs" "fatmap fs1 = fatmap fs" using W by simp_all
  have "window_ok fs1" using W(3) by (simp add: mounted_def)
  moreover have "mirror_kept fs fs1" using W(8) by (simp add: mirror_kept_def)
  moreover have "view fs1 n = view fs n" if "n \<notin> set (file_sects fs cs)" for n
    using W(5,6,9) that S by (auto simp: view_def)
  ultimately show "wrote_sects (set (file_sects fs cs)) fs fs1" using W(1) by (simp add: wrote_sects_def)
qed

text \<open>The file on the disk, all of it written back, and the entry of the directory that is its own.\<close>

definition on_disk :: "fil \<Rightarrow> fatfs \<Rightarrow> u32 list \<Rightarrow> u8 list \<Rightarrow> bool" where
  "on_disk fp fs cs xs \<longleftrightarrow> vol_file fs cs \<and> sclust fp = (if cs = [] then 0 else hd cs) \<and>
     unat (objsize fp) \<le> cluster_bytes fs * length cs \<and>
     take (unat (objsize fp)) (concat (map (disk fs) (file_sects fs cs))) = xs"

definition own_entry :: "fil \<Rightarrow> fatfs \<Rightarrow> u32 list \<Rightarrow> u32 \<Rightarrow> u32 list \<Rightarrow> u32 list \<Rightarrow> nat \<Rightarrow> bool" where
  "own_entry fp fs cs sc ds ss k \<longleftrightarrow> dir_table fs sc ds ss \<and> k < dir_size ss \<and> dir_sect fp = ss ! (k div 16) \<and>
     dir_ofs fp = 32 * (k mod 16) \<and> set ss \<inter> set (file_sects fs cs) = {} \<and>
     info_sects fs \<inter> (set ss \<union> set (file_sects fs cs)) = {}"

lemma on_diskI:
  assumes v: "vol_file fs cs" and w: "wrote_sects U fs fs'" and f: "fatmap fs' = fatmap fs" and c: "fs_ready fs'"
    and U: "U \<inter> set (file_sects fs cs) = {}" and o: "winsect fs' \<in> U"
    and p: "sclust fp = (if cs = [] then 0 else hd cs)" "unat (objsize fp) \<le> cluster_bytes fs * length cs"
  shows "on_disk fp fs' cs (take (unat (objsize fp)) (concat (map (disk fs) (file_sects fs cs))))"
proof -
  have l: "layout fs' = layout fs" using w by (simp add: wrote_sects_def)
  have out: "winsect fs' \<notin> set (file_sects fs cs)" using U o by auto
  have "disk fs' s = disk fs s" if s: "s \<in> set (file_sects fs cs)" for s
  proof -
    have g: "geometry fs" using v by (simp add: vol_file_def fs_ready_def)
    note nf = data_not_fat [OF g vol_file_data [OF v s]]
    have "s \<notin> U" using U s by blast
    moreover have "s \<noteq> 0 - 1" using vol_file_data [OF v s] by (simp add: data_sect_def)
    ultimately have "view fs' s = view fs s" using w nf by (simp add: wrote_sects_def)
    then show ?thesis using out s v by (auto simp: view_def vol_file_def split: if_splits)
  qed
  then have "map (disk fs') (file_sects fs' cs) = map (disk fs) (file_sects fs cs)"
    unfolding layout_sects(1) [OF l] by (intro map_cong) auto
  moreover have "vol_file fs' cs"
    using v c layout_sects [OF l] layoutD(6) [OF l] f out by (simp add: vol_file_def)
  ultimately show ?thesis using p layout_sects(2) [OF l] by (simp add: on_disk_def)
qed

lemma own_entryD:
  assumes "own_entry fp fs cs sc ds ss k"
  shows "dir_table fs sc ds ss" "k < dir_size ss" "dir_sect fp = ss ! (k div 16)" "dir_ofs fp = 32 * (k mod 16)"
    "set ss \<inter> set (file_sects fs cs) = {}" "info_sects fs \<inter> set ss = {}" "info_sects fs \<inter> set (file_sects fs cs) = {}"
  using assms by (auto simp: own_entry_def)

text \<open>After the buffer is written back the window goes to the entry.\<close>

lemma sync_to_entry:
  assumes v: "vol_file fs cs" and b: "buf_ok fp fs cs" and e: "own_entry fp fs cs sc ds ss k"
  obtains fp1 fs1 fs2 where "flush_buf fp fs = (True, fp1, fs1)" and "move_window (dir_sect fp) fs1 = (FR_OK, fs2)"
    and "fp1 = fp\<lparr>flag := flag fp1\<rparr>" and "vol_file fs1 cs" and "\<forall>s \<in> set (file_sects fs cs). disk fs1 s = sdata fp fs s"
    and "wrote_sects (set (file_sects fs cs)) fs fs1" and "cfg fs1 = cfg fs" and "fatmap fs1 = fatmap fs" and "keeps fs1 fs2"
    and "dir_table fs2 sc ds ss" and "dir_entries fs2 ss = dir_entries fs ss" and "winsect fs2 = ss ! (k div 16)"
    and "take 32 (drop (dir_ofs fp) (win fs2)) = dir_entry fs2 ss k"
proof -
  note E = own_entryD [OF e]
  obtain fp1 fs1 where fl: "flush_buf fp fs = (True, fp1, fs1)" and sm: "same_file fp fs cs fp1 fs1"
    and d1: "\<And>s. s \<in> set (file_sects fs cs) \<Longrightarrow> disk fs1 s = sdata fp fs s" using flush_buf_ok [OF v b] by blast
  note w1 = flush_sects [OF v b fl]
  note t1 = wrote_table [OF E(1) w1(1,3)]
  have e1: "dir_entries fs1 ss = dir_entries fs ss" using t1(2) E(5) by auto
  define dp where "dp = \<lparr>d_id = None, d_attr = 0, d_sclust = sc, d_lockid = 0, dptr = of_nat (32 * k),
    d_clust = (if ds = [] then 0 else ds ! (k div 16 div unat (csize fs1))), d_sect = ss ! (k div 16), d_ofs = 32 * (k mod 16), d_fn = [], d_pat = []\<rparr>"
  have pos: "dir_pos fs1 sc ds ss k dp" using E(2) by (simp add: dir_pos_def dp_def)
  have dpf: "d_sect dp = dir_sect fp" "d_ofs dp = dir_ofs fp" using E(3,4) by (simp_all add: dp_def)
  obtain fs2 where mv: "move_window (dir_sect fp) fs1 = (FR_OK, fs2)" and k2: "keeps fs1 fs2"
    and w2: "winsect fs2 = ss ! (k div 16)" and e2: "take 32 (drop (dir_ofs fp) (win fs2)) = dir_entry fs1 ss k"
    using move_to_entry [OF t1(1) pos] unfolding dpf by metis
  note t2 = keeps_dir(1,2) [OF t1(1) k2]
  have "dir_entry fs2 ss k = dir_entry fs1 ss k" using t2(2) E(2) by (metis dir_entries_nth)
  moreover have "fp1 = fp\<lparr>flag := flag fp1\<rparr>" using fl by (auto simp: flush_buf_def split: if_splits prod.splits)
  moreover have "vol_file fs1 cs" using sm by (simp add: same_file_def)
  ultimately show thesis using that [OF fl mv] d1 w1 k2 t2 e1 w2 e2 by simp
qed

lemma f_sync_stores:
  assumes f: "file_ok fp fs cs" and i: "obj_id fp = Some (vol_id fs)" and st: "stat AND STA_NOINIT = 0"
    and m: "flag fp AND FA_MODIFIED \<noteq> 0" and e: "own_entry fp fs cs sc ds ss k" and c: "copies_inv fs"
  obtains fp' fs' where "f_sync True stat tm fp fs = (FR_OK, fp', fs')"
    and "dir_table fs' sc ds ss" and "copies_inv fs'" and "vol_id fs' = vol_id fs"
    and "dir_entries fs' ss = (dir_entries fs ss)[k := synced_entry (fs_type fs) (sclust fp) (objsize fp) tm (dir_entry fs ss k)]"
    and "on_disk fp' fs' cs (content fp fs cs)" and "objsize fp' = objsize fp" and "sclust fp' = sclust fp"
    and "wrote_sects (set (file_sects fs cs) \<union> set ss \<union> info_sects fs) fs fs'" and "fatmap fs' = fatmap fs"
proof -
  note E = own_entryD [OF e]
  have v: "vol_file fs cs" and b: "buf_ok fp fs cs" and p: "pos_ok fp fs cs" using f by (auto simp: file_ok_def)
  obtain fp1 fs1 fs2 where fl: "flush_buf fp fs = (True, fp1, fs1)" and mv: "move_window (dir_sect fp) fs1 = (FR_OK, fs2)"
    and fp1: "fp1 = fp\<lparr>flag := flag fp1\<rparr>" and v1: "vol_file fs1 cs" and d1: "\<forall>s \<in> set (file_sects fs cs). disk fs1 s = sdata fp fs s"
    and w1: "wrote_sects (set (file_sects fs cs)) fs fs1" and c1: "cfg fs1 = cfg fs" and f1: "fatmap fs1 = fatmap fs" and k2: "keeps fs1 fs2"
    and t2: "dir_table fs2 sc ds ss" and e2: "dir_entries fs2 ss = dir_entries fs ss" and ws2: "winsect fs2 = ss ! (k div 16)"
    and en: "take 32 (drop (dir_ofs fp) (win fs2)) = dir_entry fs2 ss k" by (rule sync_to_entry [OF v b e])
  define fs3 where "fs3 = sync_edit (dir_ofs fp) (sclust fp) (objsize fp) tm fs2"
  note u = sync_edit_stores [OF t2 ws2 E(2,4) en, of "sclust fp" "objsize fp" tm, folded fs3_def]
  note w2 = keeps_wrote [OF k2]
  have c3: "copies_inv fs3" using copies_wrote [OF copies_wrote [OF copies_wrote [OF c w1] w2] u(2)] .
  obtain fs4 where sy: "sync_fs fs3 = (FR_OK, fs4)" and w4: "wrote_sects (info_sects fs3) fs3 fs4" and f4: "fatmap fs4 = fatmap fs3"
    and ws4: "winsect fs4 = winsect fs3 \<or> winsect fs4 \<in> info_sects fs3" and i4: "vol_id fs4 = vol_id fs3"
    by (rule sync_fs_wrote [OF c3])
  have cf: "cfg fs3 = cfg fs" and cf2: "cfg fs2 = cfg fs" using u(3) keeps_cfg [OF k2] c1 by simp_all
  have inf: "info_sects fs3 = info_sects fs" using cfgD(1,11) [OF cf] by (simp add: info_sects_def)
  have l1: "layout fs1 = layout fs" using w1 by (simp add: wrote_sects_def)
  have f3: "fatmap fs3 = fatmap fs1" using u(4) keeps_fatmap [OF k2] v1 by (simp add: vol_file_def fs_ready_def)
  have sk: "ss ! (k div 16) \<in> set ss" using dir_size_sect [OF E(2)] by simp
  have w13: "wrote_sects (set ss) fs1 fs3" by (rule wrote_sects_trans [OF w2 u(2)]) (use sk in auto)
  have w14: "wrote_sects (set ss \<union> info_sects fs) fs1 fs4" by (rule wrote_sects_trans [OF w13 w4]) (auto simp: inf)
  note t4 = wrote_table [OF u(1) w4 f4]
  define fp4 where "fp4 = fp1\<lparr>flag := flag fp1 AND NOT FA_MODIFIED\<rparr>"
  have fp4: "sclust fp4 = sclust fp" "objsize fp4 = objsize fp"
    using arg_cong [OF fp1, of sclust] arg_cong [OF fp1, of objsize] by (simp_all add: fp4_def)
  have "on_disk fp4 fs4 cs (take (unat (objsize fp4)) (concat (map (disk fs1) (file_sects fs1 cs))))"
  proof (rule on_diskI [OF v1 w14])
    show "fatmap fs4 = fatmap fs1" using f4 f3 by simp
    show "fs_ready fs4" using copies_wrote [OF c3 w4] by (simp add: copies_inv_def)
    show "(set ss \<union> info_sects fs) \<inter> set (file_sects fs1 cs) = {}" using E(5,7) layout_sects(1) [OF l1] by auto
    show "winsect fs4 \<in> set ss \<union> info_sects fs" using ws4 u(5) ws2 sk inf by auto
    show "sclust fp4 = (if cs = [] then 0 else hd cs)" "unat (objsize fp4) \<le> cluster_bytes fs1 * length cs"
      using p fp4 layout_sects(2) [OF l1] by (simp_all add: pos_ok_def)
  qed
  moreover have "map (disk fs1) (file_sects fs1 cs) = map (sdata fp fs) (file_sects fs cs)"
    unfolding layout_sects(1) [OF l1] using d1 by (intro map_cong) auto
  ultimately have od: "on_disk fp4 fs4 cs (content fp fs cs)" using fp4 by (simp add: content_def raw_def)
  have fty: "fs_type fs \<noteq> FS_NONE" using dir_tableD(3) [OF E(1)] by (auto simp: geometry_def)
  have "sclust fp1 = sclust fp" "objsize fp1 = objsize fp" "dir_sect fp1 = dir_sect fp" "dir_ofs fp1 = dir_ofs fp"
    using arg_cong [OF fp1, of sclust] arg_cong [OF fp1, of objsize] arg_cong [OF fp1, of dir_sect] arg_cong [OF fp1, of dir_ofs] by simp_all
  then have eq: "f_sync True stat tm fp fs = (FR_OK, fp4, fs4)"
    using fl mv sy i st m fty by (simp add: f_sync_def validate_def Let_def fs3_def sync_edit_def fp4_def)
  show thesis
  proof (rule that [OF eq t4(1) copies_wrote [OF c3 w4] _ _ od fp4(2,1)])
    show "vol_id fs4 = vol_id fs" using i4 cfgD(16) [OF cf] by simp
    show "dir_entries fs4 ss = (dir_entries fs ss)[k := synced_entry (fs_type fs) (sclust fp) (objsize fp) tm (dir_entry fs ss k)]"
      using t4(2) u(6) e2 E(2,6) cfgD(1) [OF cf2] inf by (metis dir_entries_nth)
    show "wrote_sects (set (file_sects fs cs) \<union> set ss \<union> info_sects fs) fs fs4" by (rule wrote_sects_trans [OF w1 w14]) auto
    show "fatmap fs4 = fatmap fs" using f4 f3 f1 by simp
  qed
qed

subsection \<open>What an open reads from the entry\<close>

lemma word_bytes: "(push_bit 8 (ucast (ucast (drop_bit 8 v) :: u8)) OR ucast (ucast v :: u8) :: u16) = v" for v :: u16
  by (rule bit_word_eqI) (auto simp: bit_simps)

lemma dword_bytes: "((push_bit 24 (ucast (ucast (drop_bit 24 v) :: u8)) OR push_bit 16 (ucast (ucast (drop_bit 16 v) :: u8)))
    OR push_bit 8 (ucast (ucast (drop_bit 8 v) :: u8))) OR ucast (ucast v :: u8) = v" for v :: u32
  using ld_st_dword [of 0 "[0, 0, 0, 0]" v] by (simp add: ld_dword_def st_dword_def)

lemma clust_words: "ucast (ucast cl :: u16) OR push_bit 16 (ucast (ucast (drop_bit 16 cl) :: u16)) = cl" for cl :: u32
  by (rule bit_word_eqI) (auto simp: bit_simps)

lemma synced_fields:
  assumes "length e = 32"
  shows "ld_word (synced_entry t cl sz tm e) 26 = ucast cl" "ld_dword (synced_entry t cl sz tm e) 28 = sz"
    "t = FS_FAT32 \<Longrightarrow> ld_word (synced_entry t cl sz tm e) 20 = ucast (drop_bit 16 cl)"
    "synced_entry t cl sz tm e ! 11 = e ! 11 OR AM_ARC" "take 11 (synced_entry t cl sz tm e) = take 11 e"
  using assms
  by (simp_all add: ld_word_def ld_dword_def synced_entry_def Let_def st_word_def st_dword_def word_bytes dword_bytes)

lemma entry_words:
  assumes "length (win fs) = 512" and "i + 32 \<le> 512" and "j + 4 \<le> 32"
  shows "ld_word (win fs) (i + j) = ld_word (take 32 (drop i (win fs))) j"
    "ld_dword (win fs) (i + j) = ld_dword (take 32 (drop i (win fs))) j"
  using assms by (simp_all add: ld_word_def ld_dword_def add.assoc)

lemma ld_clust_synced:
  assumes "length (win fs) = 512" and "i + 32 \<le> 512" and "length e = 32"
    and e: "take 32 (drop i (win fs)) = synced_entry (fs_type fs) cl sz tm e"
    and c: "fs_type fs = FS_FAT32 \<or> cl < 0x10000"
  shows "ld_clust fs i = cl" "ld_dword (win fs) (i + 28) = sz"
proof -
  note w = entry_words [OF assms(1,2), unfolded e]
  show "ld_dword (win fs) (i + 28) = sz" using w(2) [of 28] synced_fields(2) [OF assms(3)] by simp
  have w26: "ld_word (win fs) (i + 26) = ucast cl" using w(1) [of 26] synced_fields(1) [OF assms(3)] by simp
  show "ld_clust fs i = cl"
  proof (cases "fs_type fs = FS_FAT32")
    case True
    then have "ld_word (win fs) (i + 20) = ucast (drop_bit 16 cl)" using w(1) [of 20] synced_fields(3) [OF assms(3) True] by simp
    then show ?thesis using w26 True clust_words [of cl] by (simp add: ld_clust_def)
  next
    case False
    then have "unat cl < 2 ^ 16" using c by (simp add: word_less_nat_alt)
    then have "ucast (ucast cl :: u16) = cl"
      by (intro word_unat_eq_iff [THEN iffD2]) (simp add: unsigned_ucast_eq unsigned_take_bit_eq take_bit_nat_eq_self)
    then show ?thesis using w26 False by (simp add: ld_clust_def)
  qed
qed

text \<open>A file object that is set up from the entry.\<close>

definition opened_fil :: "fil \<Rightarrow> fatfs \<Rightarrow> fil \<Rightarrow> fil" where
  "opened_fil fp fs fq = fq\<lparr>sclust := sclust fp, objsize := objsize fp, obj_id := Some (vol_id fs), flag := FA_READ, err := FR_OK,
    sect := 0, fptr := 0, buf := replicate 512 0\<rparr>"

lemma open_load_reads:
  assumes d: "on_disk fp fs cs xs" and n: "length e = 32" and i: "d_ofs dj + 32 \<le> 512"
    and e: "take 32 (drop (d_ofs dj) (win fs)) = synced_entry (fs_type fs) (sclust fp) (objsize fp) tm e"
  shows "lib_fs L = fs \<Longrightarrow> open_load FA_READ dj fq L = Some (FR_OK, opened_fil fp fs fq, L)"
    "file_ok (opened_fil fp fs fq) fs cs" "content (opened_fil fp fs fq) fs cs = xs"
proof -
  have v: "vol_file fs cs" and sc: "sclust fp = (if cs = [] then 0 else hd cs)" using d by (auto simp: on_disk_def)
  have g: "geometry fs" and w: "length (win fs) = 512" using v by (auto simp: vol_file_def fs_ready_def window_ok_def)
  have "fs_type fs = FS_FAT32 \<or> n_fatent fs \<le> 0xFFF7"
    using g by (cases "fs_type fs") (auto simp: geometry_def max_fatent_def elim: order_trans)
  moreover have "cs \<noteq> [] \<Longrightarrow> hd cs < n_fatent fs" using vol_file_clusters [OF v] by (auto simp: clusters_ok_def)
  ultimately have "fs_type fs = FS_FAT32 \<or> sclust fp < 0x10000"
    using sc by (cases "cs = []") (auto simp: word_less_nat_alt word_le_nat_alt)
  note ld = ld_clust_synced [OF w i n e this]
  show "lib_fs L = fs \<Longrightarrow> open_load FA_READ dj fq L = Some (FR_OK, opened_fil fp fs fq, L)"
    by (simp add: open_load_def ld opened_fil_def Let_def)
  have z: "0 \<notin> set (file_sects fs cs)"
    using vol_file_data [OF v, of 0] tables_behind_start [OF g] g by (auto simp: data_sect_def geometry_def)
  show "file_ok (opened_fil fp fs fq) fs cs"
    using v sc d z by (simp add: file_ok_def buf_ok_def pos_ok_def on_disk_def opened_fil_def dirty_def)
  have "map (sdata (opened_fil fp fs fq) fs) (file_sects fs cs) = map (disk fs) (file_sects fs cs)"
    using z by (intro map_cong) (auto simp: sdata_def opened_fil_def)
  then have "raw (opened_fil fp fs fq) fs cs = concat (map (disk fs) (file_sects fs cs))" by (simp only: raw_def)
  moreover have "objsize (opened_fil fp fs fq) = objsize fp" by (simp add: opened_fil_def)
  ultimately show "content (opened_fil fp fs fq) fs cs = xs" using d by (simp only: content_def on_disk_def)
qed

subsection \<open>Opening it by its name\<close>

text \<open>A path that is one plain name, and its form in the directory.\<close>

definition plain_path :: "u8 list \<Rightarrow> u8 list \<Rightarrow> u8 list \<Rightarrow> bool" where
  "plain_path fn path sfn \<longleftrightarrow> get_ldnumber (Some path) = (Some 0, path) \<and> \<not> IsSeparator (path_at path 0) \<and> 0x20 \<le> path_at path 0 \<and>
     (\<exists>rest. create_name fn path = (FR_OK, sfn, rest)) \<and> sfn ! 11 AND NS_LAST \<noteq> 0 \<and> sfn ! 11 AND NS_NONAME = 0"

lemma follow_name:
  assumes p: "plain_path (d_fn dj) path sfn" and t: "dir_table fs (cdir fs) ds ss" and s: "scan (matches sfn) (dir_entries fs ss) = Some k"
  obtains dj1 fs1 where "follow_path path dj fs = Some (FR_OK, dj1, fs1)" and "keeps fs fs1" and "stands fs (cdir fs) ds ss k dj1 fs1"
    and "d_fn dj1 = sfn"
proof -
  define dp where "dp = dj\<lparr>d_sclust := cdir fs, d_fn := sfn\<rparr>"
  obtain rest where cn: "create_name (d_fn dj) path = (FR_OK, sfn, rest)" using p by (auto simp: plain_path_def)
  have c: "d_sclust dp = cdir fs" "d_fn dp = sfn" by (simp_all add: dp_def)
  obtain r dj1 fs1 where f: "dir_find dp fs = Some (r, dj1, fs1)" and sc: "scanned fs (cdir fs) ds ss dp (Some k) (r, dj1, fs1)"
    using dir_find_scan [of fs dp ds ss] t s by (auto simp: c)
  then have r: "r = FR_OK" "keeps fs fs1" "stands fs (cdir fs) ds ss k dj1 fs1" "d_fn dj1 = sfn" by (auto simp: scanned_def c)
  have "path_loop path (dj\<lparr>d_sclust := cdir fs\<rparr>) fs = Some (FR_OK, dj1, fs1)"
    using p f r by (subst path_loop.simps) (simp add: cn plain_path_def flip: dp_def)
  then have "follow_path path dj fs = Some (FR_OK, dj1, fs1)"
    using p by (simp add: follow_path_def plain_path_def Let_def flip: not_less)
  then show thesis using that r by blast
qed

lemma open_share:
  assumes "chk_share obj 0 Files = FR_OK"
  shows "\<exists>i. fst (inc_share obj 0 Files) = i \<and> 0 < i \<and> i \<le> length Files"
proof (cases rule: find_index_cases [of "f_is obj" Files])
  case found
  then show ?thesis by (simp add: inc_share_def inc_entry_def Let_def)
next
  case none
  then have "\<exists>e \<in> set Files. \<not> f_used e" using assms by (auto simp: chk_share_def split: if_splits)
  then have "find_index (\<lambda>e. \<not> f_used e) Files < length Files"
    by (cases rule: find_index_cases [of "\<lambda>e. \<not> f_used e" Files]) auto
  then show ?thesis using none by (simp add: inc_share_def inc_entry_def Let_def)
qed

text \<open>The volume is mounted and free, and the object may be opened for reading.\<close>

definition may_read :: "ff_answers \<Rightarrow> u32 \<times> u32 \<Rightarrow> fatlib \<Rightarrow> bool" where
  "may_read A obj L \<longleftrightarrow> lib_registered L \<and> a_lock A \<and> a_stat A AND STA_NOINIT = 0 \<and>
     chk_share obj 0 (lib_files L) = FR_OK \<and> length (lib_files L) < 2 ^ 32"

lemma f_open_reads:
  assumes t: "dir_table (lib_fs L) (cdir (lib_fs L)) ds ss" and s: "scan (matches sfn) (dir_entries (lib_fs L) ss) = Some k"
    and p: "plain_path (d_fn dj) path sfn" and m: "may_read A (cdir (lib_fs L), of_nat (32 * k)) L"
    and d: "on_disk fp (lib_fs L) cs xs" and j: "set ss \<inter> set (file_sects (lib_fs L) cs) = {}"
    and e: "dir_entry (lib_fs L) ss k = synced_entry (fs_type (lib_fs L)) (sclust fp) (objsize fp) tm e" "length e = 32" "e ! 11 AND AM_DIR = 0"
  obtains fp2 L2 where "f_open A (Some fq) path FA_READ dj L = Some (FR_OK, Some fp2, L2)" and "file_ok fp2 (lib_fs L2) cs"
    and "content fp2 (lib_fs L2) cs = xs" and "obj_id fp2 = Some (vol_id (lib_fs L2))" and "err fp2 = FR_OK" and "flag fp2 = FA_READ"
    and "fptr fp2 = 0"
proof -
  define fs where "fs = lib_fs L"
  note m = m [unfolded may_read_def, folded fs_def]
  have fty: "fs_type fs \<noteq> FS_NONE" using dir_tableD(3) [OF t] by (auto simp: geometry_def fs_def)
  obtain dj1 fs1 where f: "follow_path path dj fs = Some (FR_OK, dj1, fs1)" and k1: "keeps fs fs1"
    and st: "stands fs (cdir fs) ds ss k dj1 fs1" and fn: "d_fn dj1 = sfn"
    using follow_name [OF p t s] by (auto simp: fs_def)
  define L1 where "L1 = L\<lparr>lib_fs := fs1\<rparr>"
  have loc: "locate A FA_READ path dj L = Some (Inr FR_OK, dj1, L1)"
    using p m f fty by (simp add: locate_def mount_volume_def plain_path_def L1_def flip: fs_def)
  have pos: "k < dir_size ss" "dir_obj dj1 = (cdir fs, of_nat (32 * k))" "d_ofs dj1 = 32 * (k mod 16)" "d_attr dj1 = dir_entry fs ss k ! 11 AND AM_MASK"
    "winsect fs1 = ss ! (k div 16)"
    using st by (auto simp: stands_def dir_pos_def dir_obj_def)
  have chk: "open_check FA_READ dj1 L1 = FR_OK"
    using m p by (simp add: open_check_def open_acc_def fn pos(2) L1_def plain_path_def)
  have "d_attr dj1 AND AM_DIR = 0"
    using e(3) synced_fields(4) [OF e(2)] by (simp add: pos(4) e(1) [folded fs_def] and.assoc word_ao_dist)
  then have ent: "open_entry (a_time A) FA_READ FR_OK dj1 L1 = Some (FR_OK, FA_READ, dj1, L1)" by (simp add: open_entry_def)
  obtain i files where inc: "inc_share (dir_obj dj1) 0 (lib_files L1) = (i, files)" by fastforce
  have i: "0 < i" "i < 2 ^ 32" using open_share [of "dir_obj dj1" "lib_files L1"] m inc by (auto simp: pos(2) L1_def)
  have inz: "(of_nat i :: u32) \<noteq> 0" using unat_u32 [OF i(2)] i(1) by (metis less_irrefl unat_0)
  define fp1 where "fp1 = fq\<lparr>dir_sect := winsect fs1, dir_ofs := d_ofs dj1, lockid := of_nat i\<rparr>"
  define L2 where "L2 = L1\<lparr>lib_files := files\<rparr>"
  have bind: "open_bind FA_READ dj1 fq L1 = (FR_OK, FA_READ, fp1, L2)"
    using inc inz by (simp add: open_bind_def open_acc_def fp1_def L2_def L1_def)
  have sk: "ss ! (k div 16) \<in> set ss" using dir_size_sect [OF pos(1)] by simp
  have v: "vol_file fs cs" and sz: "sclust fp = (if cs = [] then 0 else hd cs)" "unat (objsize fp) \<le> cluster_bytes fs * length cs"
    and xs: "take (unat (objsize fp)) (concat (map (disk fs) (file_sects fs cs))) = xs"
    using d by (auto simp: on_disk_def fs_def)
  have w1: "wrote_sects (set ss) fs fs1" by (rule wrote_sects_mono [OF keeps_wrote [OF k1]]) simp
  have od: "on_disk fp fs1 cs xs"
    using on_diskI [OF v w1 keeps_fatmap [OF k1] _ _ _ sz] dir_tableD(3) [OF t] dir_tableD(1) [OF keeps_dir(1) [OF t [folded fs_def] k1]]
      j sk pos(5) xs by (simp add: fs_def)
  have l32: "d_ofs dj1 + 32 \<le> 512"
  proof -
    have "k mod 16 < 16" by simp
    then show ?thesis unfolding pos(3) by linarith
  qed
  have "dir_entry fs1 ss k = dir_entry fs ss k" using keeps_dir(2) [OF t [folded fs_def] k1] pos(1) by (metis dir_entries_nth)
  then have en: "take 32 (drop (d_ofs dj1) (win fs1)) = synced_entry (fs_type fs1) (sclust fp) (objsize fp) tm e"
    using e(1) cfgD(1) [OF keeps_cfg [OF k1]] pos(3,5) by (simp add: dir_entry_def view_def fs_def)
  note o = open_load_reads [OF od e(2) l32 en, where fq = fp1]
  have L2: "lib_fs L2 = fs1" by (simp add: L2_def L1_def)
  have "f_open A (Some fq) path FA_READ dj L = Some (FR_OK, Some (opened_fil fp fs1 fp1), L2)"
    using loc chk ent bind o(1) [of L2] L2 by (simp add: f_open_def)
  then show thesis using that o(2,3) L2 by (simp add: opened_fil_def)
qed

lemma scan_update:
  assumes "scan P es = Some k" and "P e" and "e ! 0 = es ! k ! 0"
  shows "scan P (es[k := e]) = Some k"
  using assms by (induction es arbitrary: k) (auto split: if_splits)

text \<open>
  C1: what a file holds when it is synced is read again when it is opened by its name: \<open>f_sync\<close>
  writes the buffer back and puts the start cluster and the size into the entry of the file, and
  into no other; a later \<open>f_open\<close> for reading finds the entry and succeeds, and \<open>f_read\<close> then
  returns the bytes from the start of the content that the file had at the sync.
\<close>

theorem synced_file_reopens:
  assumes "file_ok fp fs cs" and "obj_id fp = Some (vol_id fs)" and "stat AND STA_NOINIT = 0" and "flag fp AND FA_MODIFIED \<noteq> 0"
    and "own_entry fp fs cs (cdir fs) ds ss k" and "copies_inv fs" and "dir_entry fs ss k ! 11 AND AM_DIR = 0"
    and "plain_path (d_fn dj) path sfn" and "scan (matches sfn) (dir_entries fs ss) = Some k"
    and "may_read A (cdir fs, of_nat (32 * k)) L"
  shows "\<exists>fp1 fs1 fp2 L2 fp3 fs3. f_sync True stat tm fp fs = (FR_OK, fp1, fs1) \<and>
    dir_entries fs1 ss = (dir_entries fs ss)[k := synced_entry (fs_type fs) (sclust fp) (objsize fp) tm (dir_entry fs ss k)] \<and>
    f_open A (Some fq) path FA_READ dj (L\<lparr>lib_fs := fs1\<rparr>) = Some (FR_OK, Some fp2, L2) \<and>
    f_read True stat btr fp2 (lib_fs L2) = Some (FR_OK, take (unat btr) (content fp fs cs), fp3, fs3)"
proof -
  note E = own_entryD [OF assms(5)]
  define e where "e = dir_entry fs ss k"
  define e' where "e' = synced_entry (fs_type fs) (sclust fp) (objsize fp) tm e"
  have le: "length e = 32" using dir_entry_length(2) [OF E(1)] by (simp add: e_def)
  obtain fp1 fs1 where sy: "f_sync True stat tm fp fs = (FR_OK, fp1, fs1)" and t1: "dir_table fs1 (cdir fs) ds ss"
    and e1: "dir_entries fs1 ss = (dir_entries fs ss)[k := e']" and od: "on_disk fp1 fs1 cs (content fp fs cs)"
    and fp1: "objsize fp1 = objsize fp" "sclust fp1 = sclust fp"
    and w: "wrote_sects (set (file_sects fs cs) \<union> set ss \<union> info_sects fs) fs fs1"
    using f_sync_stores [OF assms(1-6), of tm] by (metis e'_def e_def)
  have l: "layout fs1 = layout fs" using w by (simp add: wrote_sects_def)
  note ld = layoutD [OF l]
  have "matches sfn e" using assms(9) E(2) by (simp add: scan_Some e_def)
  moreover have "e' ! 11 = e ! 11 OR AM_ARC" "take 11 e' = take 11 e" using synced_fields(4,5) [OF le] by (simp_all add: e'_def)
  ultimately have m: "matches sfn e'" by (simp add: matches_def word_ao_dist)
  have "e' ! 0 = e ! 0" using synced_fields(5) [OF le] by (metis e'_def nth_take zero_less_numeral)
  then have s1: "scan (matches sfn) (dir_entries fs1 ss) = Some k"
    using scan_update [OF assms(9) m] E(2) by (simp add: e1 e_def)
  define L1 where "L1 = L\<lparr>lib_fs := fs1\<rparr>"
  have L1: "lib_fs L1 = fs1" "cdir fs1 = cdir fs" by (simp_all add: L1_def ld)
  have "dir_entry fs1 ss k = e'" using e1 E(2) by (metis dir_entries_nth length_dir_entries nth_list_update_eq)
  then have ent: "dir_entry (lib_fs L1) ss k = synced_entry (fs_type (lib_fs L1)) (sclust fp1) (objsize fp1) tm e"
    by (simp add: L1 ld fp1 e'_def)
  obtain fp2 L2 where op: "f_open A (Some fq) path FA_READ dj L1 = Some (FR_OK, Some fp2, L2)" and f2: "file_ok fp2 (lib_fs L2) cs"
    and c2: "content fp2 (lib_fs L2) cs = content fp fs cs" and o2: "obj_id fp2 = Some (vol_id (lib_fs L2))" "err fp2 = FR_OK"
    and r2: "flag fp2 = FA_READ" "fptr fp2 = 0"
  proof (rule f_open_reads [of L1 ds ss sfn k dj path A fp1 cs "content fp fs cs" tm e fq])
    show "may_read A (cdir (lib_fs L1), of_nat (32 * k)) L1" using assms(10) by (simp add: may_read_def L1 L1_def)
    show "set ss \<inter> set (file_sects (lib_fs L1) cs) = {}" using E(5) layout_sects(1) [OF l] by (simp add: L1)
    show "e ! 11 AND AM_DIR = 0" using assms(7) by (simp add: e_def)
  qed (use t1 s1 assms(8) od ent le L1 in \<open>simp_all\<close>)
  have "flag fp2 AND FA_READ \<noteq> 0" by (simp add: r2)
  from f_read_ok [OF f2 o2 this assms(3), of btr] obtain fp3 fs3 where
    "f_read True stat btr fp2 (lib_fs L2) = Some (FR_OK, take (unat btr) (content fp fs cs), fp3, fs3)" by (auto simp: c2 r2)
  then show ?thesis using sy e1 op unfolding L1_def e'_def e_def by blast
qed

subsection \<open>A file of the small volume\<close>

text \<open>The file of two clusters with its entry in the root area.\<close>

definition demo_named :: fatfs where
  "demo_named = (demo_links 3 0xFFFF)\<lparr>disk := (disk (demo_links 3 0xFFFF))(3 := demo_name @ replicate 501 0)\<rparr>"

lemma demo_links_volume:
  "layout (demo_links a b) = layout (demo_fs FS_FAT16)" "copies_inv (demo_links a b)"
  "winsect (demo_links a b) = 0xFFFFFFFF \<or> in_fat1 (demo_fs FS_FAT16) (winsect (demo_links a b))"
proof -
  define D where "D = demo_fs FS_FAT16"
  have r: "fs_ready D" by (simp add: D_def demo_ready)
  have n: "n_fatent D = 10" by (simp add: D_def)
  have m: "mounted D" "io_ok D" using r by (auto simp: mounted_ready)
  have cD: "copies_inv D" using r by (simp add: copies_inv_def info_outside_def mirrored_def D_def demo_fs_def)
  obtain F where p: "put_fat 2 a D = (FR_OK, F)" and k: "data_kept D F" and c: "cfg F = cfg D"
    by (rule put_fat_cases [OF m(1), of 2 a]) (use n m(2) in auto)
  have F: "mounted F" "io_ok F" "n_fatent F = 10"
    using data_kept_mounted [OF k m(1)] data_kept_geometry(3) [OF k] m(2) cfgD(9) [OF c] n by auto
  obtain G where q: "put_fat 3 b F = (FR_OK, G)" and k2: "data_kept F G"
    by (rule put_fat_cases [OF F(1), of 3 b]) (use F(2,3) in auto)
  have G: "demo_links a b = G" using p q by (simp add: demo_links_def D_def)
  have dk: "data_kept D G" by (rule data_kept_trans [OF k k2])
  then show "layout (demo_links a b) = layout (demo_fs FS_FAT16)" by (simp add: data_kept_def G D_def)
  show "copies_inv (demo_links a b)" by (rule copies_wrote [OF cD data_kept_wrote [OF dk], folded G])
  show "winsect (demo_links a b) = 0xFFFFFFFF \<or> in_fat1 (demo_fs FS_FAT16) (winsect (demo_links a b))"
    using dk m(2) by (auto simp: data_kept_def G D_def demo_fs_def)
qed

lemma demo_named_volume:
  "wrote_sects {3} (demo_links 3 0xFFFF) demo_named" "view demo_named 3 = demo_name @ replicate 501 0" "winsect demo_named \<noteq> 3"
  "fatmap demo_named = fatmap (demo_links 3 0xFFFF)" "layout demo_named = layout (demo_fs FS_FAT16)"
proof -
  define F where "F = demo_links 3 0xFFFF"
  note v = demo_links_volume [of 3 "0xFFFF", folded F_def]
  have e: "demo_named = F\<lparr>disk := (disk F)(3 := demo_name @ replicate 501 0)\<rparr>" by (simp add: demo_named_def F_def)
  note lF = layoutD [OF v(1)]
  have f1: "in_fat1 F n \<longleftrightarrow> n = 1" and f2: "in_fat2 F n \<longleftrightarrow> n = 2" for n
    using lF by (simp_all add: in_fat1_def in_fat2_def demo_fs_def word_less_nat_alt unsigned_eq_0_iff)
  have w3: "winsect F \<noteq> 3" using v(3) by (auto simp: in_fat1_def demo_fs_def)
  then show "winsect demo_named \<noteq> 3" "view demo_named 3 = demo_name @ replicate 501 0" by (simp_all add: e view_def)
  have l: "layout demo_named = layout F" by (simp add: e layout_def)
  with v(1) show "layout demo_named = layout (demo_fs FS_FAT16)" by simp
  have w: "window_ok F" using v(2) by (simp add: copies_inv_def fs_ready_def)
  then have "window_ok demo_named" using w3 demo_name(4) by (auto simp: window_ok_def e)
  moreover have "mirror_kept F demo_named"
    using lF(7) by (auto simp: mirror_kept_def mirrored_def e f1 f2 layout_eq [OF l, unfolded e] demo_fs_def)
  ultimately show wr: "wrote_sects {3} (demo_links 3 0xFFFF) demo_named"
    using l by (simp add: wrote_sects_def view_def e flip: F_def)
  have g: "geometry F" using v(2) by (simp add: copies_inv_def fs_ready_def)
  show "fatmap demo_named = fatmap (demo_links 3 0xFFFF)"
    by (rule fatmap_view [OF l [unfolded F_def] g [unfolded F_def]]) (use f1 in \<open>simp add: view_def e flip: F_def\<close>)
qed

text \<open>The path \<open>A\<close>.\<close>

definition demo_sfn :: "u8 list" where
  "demo_sfn = demo_name @ [NS_LAST]"

lemma demo_path: "plain_path (replicate 12 0) [0x41] demo_sfn"
proof -
  have "create_name (replicate 12 0) [0x41] = (FR_OK, demo_sfn, [])" by code_simp
  then show ?thesis
    by (simp add: plain_path_def get_ldnumber_def IsTerminator_def IsSeparator_def path_at_def demo_sfn_def demo_name_def nth_append)
qed

lemma demo_named_dir:
  "dir_table demo_named 0 [] [3]" "dir_entry demo_named [3] 0 = demo_name @ replicate 21 0"
  "scan (matches demo_sfn) (dir_entries demo_named [3]) = Some 0"
proof -
  note v = demo_named_volume
  have r: "fs_ready demo_named" using copies_wrote [OF demo_links_volume(2) v(1)] by (simp add: copies_inv_def)
  have l: "layout demo_named = layout (demo_root [])" using v(5) by (simp add: demo_root_def layout_def)
  have "dir_table (demo_root []) 0 [] [3]" using demo_root_table [of "[]"] by simp
  then show t: "dir_table demo_named 0 [] [3]"
    using r layout_dir [OF l] layout_sects(3) [OF l] by (simp add: dir_table_def split: if_splits)
  have "view (demo_root demo_name) 3 = demo_name @ replicate 501 0"
    using demo_name(4) by (simp add: view_def demo_root_def demo_fs_def)
  then have "dir_entries demo_named [3] = dir_entries (demo_root demo_name) [3]"
    using v(2) by (simp add: dir_entries_def dir_entry_def dir_size_def)
  then have es: "dir_entries demo_named [3] = (demo_name @ replicate 21 0) # replicate 15 (replicate 32 0)"
    using demo_root_entries [of demo_name] demo_name(4) by simp
  then show "dir_entry demo_named [3] 0 = demo_name @ replicate 21 0"
    using dir_entries_nth [of 0 "[3]" demo_named] by (simp add: dir_size_def)
  show "scan (matches demo_sfn) (dir_entries demo_named [3]) = Some 0"
    unfolding es by (simp add: matches_def demo_sfn_def demo_name_def nth_append)
qed

theorem synced_file_reopens_witness:
  "\<exists>fp1 fs1 fp2 L2 data fp3 fs3. f_sync True 0 0 (demo_fil\<lparr>flag := 0x43\<rparr>) demo_named = (FR_OK, fp1, fs1) \<and>
    f_open demo_answers (Some demo_fil) [0x41] FA_READ (demo_dir\<lparr>d_fn := replicate 12 0\<rparr>) ((demo_lib [])\<lparr>lib_fs := fs1\<rparr>) = Some (FR_OK, Some fp2, L2) \<and>
    f_read True 0 1000 fp2 (lib_fs L2) = Some (FR_OK, data, fp3, fs3) \<and> length data = 600"
proof -
  define fp where "fp = demo_fil\<lparr>flag := 0x43\<rparr>"
  note v = demo_named_volume and F = demo_links_file
  have l: "layout demo_named = layout (demo_links 3 0xFFFF)" using v(5) demo_links_volume(1) [of 3 "0xFFFF"] by simp
  note ld = layoutD [OF v(5)] and ls = layout_sects [OF l]
  have s: "cdir demo_named = 0" "fs_type demo_named = FS_FAT16" "vol_id demo_named = 1" "csize demo_named = 1" "file_sects demo_named [2, 3] = [4, 5]"
    using ld F(3,4) ls by (simp_all add: demo_fs_def)
  have c: "copies_inv demo_named" by (rule copies_wrote [OF demo_links_volume(2) v(1)])
  have "winsect demo_named = winsect (demo_links 3 0xFFFF)" by (simp add: demo_named_def)
  then have vf: "vol_file demo_named [2, 3]"
    using F(1) c ls layoutD(6) [OF l] by (simp add: vol_file_def copies_inv_def v(4) del: chain.simps)
  have b: "length (buf fp) = 512" by (simp add: fp_def demo_fil_def)
  have f: "file_ok fp demo_named [2, 3]"
    using vf s by (simp add: file_ok_def buf_ok_def pos_ok_def fp_def demo_fil_def dirty_def cluster_bytes_def)
  have o: "own_entry fp demo_named [2, 3] (cdir demo_named) [] [3] 0"
    using demo_named_dir(1) s by (simp add: own_entry_def dir_size_def info_sects_def fp_def demo_fil_def)
  have a: "dir_entry demo_named [3] 0 ! 11 AND AM_DIR = 0"
    by (simp add: demo_named_dir(2) demo_name_def nth_append)
  have m: "may_read demo_answers (cdir demo_named, of_nat (32 * 0)) (demo_lib [])"
    by (simp add: may_read_def demo_answers_def demo_lib_def no_files_def chk_share_def find_index_def f_is_def)
  have p: "plain_path (d_fn (demo_dir\<lparr>d_fn := replicate 12 0\<rparr>)) [0x41] demo_sfn" using demo_path by simp
  have fl: "obj_id fp = Some (vol_id demo_named)" "flag fp AND FA_MODIFIED \<noteq> 0" using s by (simp_all add: fp_def demo_fil_def)
  have "length (content fp demo_named [2, 3]) = 600"
    using raw_blocks(1) [OF vf b] s(4) by (simp add: content_def cluster_bytes_def fp_def demo_fil_def)
  then have "length (take (unat (1000 :: u32)) (content fp demo_named [2, 3])) = 600" by simp
  moreover have "(0 :: u8) AND STA_NOINIT = 0" by simp
  note synced_file_reopens [OF f fl(1) this fl(2) o c a p demo_named_dir(3) m, of 0 demo_fil 1000]
  ultimately show ?thesis unfolding fp_def by blast
qed

end
