(* ===== verification/SlPool.thy ===== *)
theory SlPool
  imports Prelude
begin

text \<open>
  The actions that wait for the WiFi chip (\<open>csrc/system/cc3100-sdk/simplelink/source/driver.c\<close>):
  a pool of ten objects in one array, on three lists that are linked by the indices of the
  objects. A command that is answered later takes an object from the free list and is put on
  the active list, or on the pending list while another command uses its socket.

  Every function here runs under the protection lock, so it is one step; a task that has to
  wait leaves the lock and comes back when its sync object is signalled, which makes
  \<open>_SlDrvWaitForPoolObj\<close> two pieces, \<open>wait_begin\<close> and \<open>wait_resume\<close>. \<open>None\<close> is a loop that
  does not end, or a read outside of the array.
\<close>

subsection \<open>The pool\<close>

abbreviation (input) MAX_CONCURRENT_ACTIONS :: nat where "MAX_CONCURRENT_ACTIONS \<equiv> 10"
abbreviation (input) SL_MAX_SOCKETS :: nat where "SL_MAX_SOCKETS \<equiv> 8"

text \<open>The actions; below them are the numbers of the sockets, in the same bitmap.\<close>

abbreviation (input) ACCEPT_ID :: nat where "ACCEPT_ID \<equiv> 8"
abbreviation (input) CONNECT_ID :: nat where "CONNECT_ID \<equiv> 9"
abbreviation (input) SELECT_ID :: nat where "SELECT_ID \<equiv> 10"
abbreviation (input) GETHOSYBYNAME_ID :: nat where "GETHOSYBYNAME_ID \<equiv> 11"
abbreviation (input) GETHOSYBYSERVICE_ID :: nat where "GETHOSYBYSERVICE_ID \<equiv> 12"
abbreviation (input) PING_ID :: nat where "PING_ID \<equiv> 13"
abbreviation (input) START_STOP_ID :: nat where "START_STOP_ID \<equiv> 14"
abbreviation (input) RECV_ID :: nat where "RECV_ID \<equiv> 15"

record pool_obj =
  SyncObj :: bool
  pRespArgs :: "nat option"
  ActionID :: nat
  AdditionalData :: u8
  NextIndex :: nat

record sl_pool =
  ObjPool :: "nat \<Rightarrow> pool_obj"
  FreePoolIdx :: nat
  PendingPoolIdx :: nat
  ActivePoolIdx :: nat
  ActiveActionsBitmap :: u32

definition set_obj :: "nat \<Rightarrow> (pool_obj \<Rightarrow> pool_obj) \<Rightarrow> sl_pool \<Rightarrow> sl_pool" where
  "set_obj i f p = p\<lparr>ObjPool := (ObjPool p)(i := f (ObjPool p i))\<rparr>"

definition next_of :: "sl_pool \<Rightarrow> nat \<Rightarrow> nat" where
  "next_of p i = NextIndex (ObjPool p i)"

definition socket_of :: "sl_pool \<Rightarrow> nat \<Rightarrow> nat" where
  "socket_of p i = unat (AdditionalData (ObjPool p i) AND 0x0F)"

text \<open>The pool in \<open>_SlDrvDriverCBInit\<close>: zeroed, and all objects on the free list.\<close>

definition pool_init :: sl_pool where
  "pool_init = \<lparr>ObjPool = (\<lambda>i. \<lparr>SyncObj = False, pRespArgs = None, ActionID = 0, AdditionalData = 8, NextIndex = i + 1\<rparr>),
     FreePoolIdx = 0, PendingPoolIdx = MAX_CONCURRENT_ACTIONS, ActivePoolIdx = MAX_CONCURRENT_ACTIONS, ActiveActionsBitmap = 0\<rparr>"

text \<open>The loops over a list: to the first index with the property, or to the end.\<close>

partial_function (option) walk :: "(nat \<Rightarrow> bool) \<Rightarrow> (nat \<Rightarrow> nat) \<Rightarrow> nat \<Rightarrow> nat option" where
  "walk P nxt idx = (if idx < MAX_CONCURRENT_ACTIONS then if P idx then Some idx else walk P nxt (nxt idx) else Some idx)"

text \<open>The new head of the list, and the pool.\<close>

definition SlRemoveFromList :: "nat \<Rightarrow> nat \<Rightarrow> sl_pool \<Rightarrow> (nat \<times> sl_pool) option" where
  "SlRemoveFromList ListIndex ItemIndex p =
     (if MAX_CONCURRENT_ACTIONS \<le> ListIndex then None
      else if next_of p ListIndex = MAX_CONCURRENT_ACTIONS then Some (MAX_CONCURRENT_ACTIONS, p)
      else if ListIndex = ItemIndex then Some (next_of p ItemIndex, p)
      else (case walk (\<lambda>i. next_of p i = ItemIndex) (next_of p) ListIndex of
              None \<Rightarrow> None
            | Some i \<Rightarrow>
                Some (ListIndex,
                  if i < MAX_CONCURRENT_ACTIONS then set_obj i (\<lambda>b. b\<lparr>NextIndex := next_of p ItemIndex\<rparr>) p else p)))"


subsection \<open>Taking an object\<close>

definition action_busy :: "nat \<Rightarrow> nat \<Rightarrow> sl_pool \<Rightarrow> bool" where
  "action_busy act sock p \<longleftrightarrow> sock < SL_MAX_SOCKETS \<and> bit (ActiveActionsBitmap p) sock \<or>
     bit (ActiveActionsBitmap p) act \<and> sock = SL_MAX_SOCKETS"

text \<open>The loop condition, with the way into the wait and the way behind the loop.\<close>

definition enter_action :: "nat \<Rightarrow> nat \<Rightarrow> nat \<Rightarrow> sl_pool \<Rightarrow> bool \<times> sl_pool" where
  "enter_action act sock i p =
     (if action_busy act sock p
      then (False, (set_obj i (\<lambda>b. b\<lparr>NextIndex := PendingPoolIdx p\<rparr>) p)\<lparr>PendingPoolIdx := i\<rparr>)
      else (True, (set_obj i (\<lambda>b. b\<lparr>NextIndex := ActivePoolIdx p\<rparr>) p)
              \<lparr>ActiveActionsBitmap := set_bit (if sock < SL_MAX_SOCKETS then sock else act) (ActiveActionsBitmap p),
               ActivePoolIdx := i\<rparr>))"

text \<open>No object, or the object and whether the action is active.\<close>

definition wait_begin :: "nat \<Rightarrow> nat \<Rightarrow> sl_pool \<Rightarrow> (nat \<times> bool) option \<times> sl_pool" where
  "wait_begin act sock p =
     (if FreePoolIdx p < MAX_CONCURRENT_ACTIONS then
        (let i = FreePoolIdx p;
             p1 = p\<lparr>FreePoolIdx := (if next_of p i < MAX_CONCURRENT_ACTIONS then next_of p i else MAX_CONCURRENT_ACTIONS)\<rparr>;
             p2 = set_obj i (\<lambda>b. b\<lparr>ActionID := act\<rparr>) p1;
             p3 = (if sock < SL_MAX_SOCKETS then set_obj i (\<lambda>b. b\<lparr>AdditionalData := of_nat sock\<rparr>) p2 else p2)
         in case enter_action act sock i p3 of (active, p4) \<Rightarrow> (Some (i, active), p4))
      else (None, p))"

text \<open>The task comes back: the wait takes the signal.\<close>

definition wait_resume :: "nat \<Rightarrow> nat \<Rightarrow> nat \<Rightarrow> sl_pool \<Rightarrow> bool \<times> sl_pool" where
  "wait_resume act sock i p = enter_action act sock i (set_obj i (\<lambda>b. b\<lparr>SyncObj := False\<rparr>) p)"

text \<open>The setting of the place for the response, in \<open>_SlDrvProtectAsyncRespSetting\<close>.\<close>

definition set_response :: "nat \<Rightarrow> nat \<Rightarrow> sl_pool \<Rightarrow> sl_pool" where
  "set_response r i p = set_obj i (\<lambda>b. b\<lparr>pRespArgs := Some r\<rparr>) p"

subsection \<open>Releasing it\<close>

definition release_match :: "nat \<Rightarrow> sl_pool \<Rightarrow> nat \<Rightarrow> bool" where
  "release_match i p j \<longleftrightarrow> ActionID (ObjPool p j) = ActionID (ObjPool p i) \<and>
     (socket_of p j = SL_MAX_SOCKETS \<or> socket_of p i < SL_MAX_SOCKETS \<and> socket_of p j = socket_of p i)"

text \<open>Waking one pending action.\<close>

definition wake_pending :: "nat \<Rightarrow> sl_pool \<Rightarrow> sl_pool option" where
  "wake_pending i p =
     (case walk (release_match i p) (next_of p) (PendingPoolIdx p) of
        None \<Rightarrow> None
      | Some j \<Rightarrow>
          if j < MAX_CONCURRENT_ACTIONS then
            (case SlRemoveFromList (PendingPoolIdx p) j p of
               None \<Rightarrow> None
             | Some (h, p1) \<Rightarrow> Some (set_obj j (\<lambda>b. b\<lparr>SyncObj := True\<rparr>) (p1\<lparr>PendingPoolIdx := h\<rparr>)))
          else Some p)"

text \<open>The bit of the action is cleared, its data deleted, and the object goes back to the free list.\<close>

definition free_obj :: "nat \<Rightarrow> sl_pool \<Rightarrow> sl_pool option" where
  "free_obj i p =
     (let k = (if socket_of p i < SL_MAX_SOCKETS then socket_of p i else ActionID (ObjPool p i));
          p1 = p\<lparr>ActiveActionsBitmap := unset_bit k (ActiveActionsBitmap p)\<rparr>;
          p2 = set_obj i (\<lambda>b. b\<lparr>pRespArgs := None, ActionID := 0, AdditionalData := 8\<rparr>) p1
      in case SlRemoveFromList (ActivePoolIdx p2) i p2 of
           None \<Rightarrow> None
         | Some (h, p3) \<Rightarrow>
             Some ((set_obj i (\<lambda>b. b\<lparr>NextIndex := FreePoolIdx p3\<rparr>) (p3\<lparr>ActivePoolIdx := h\<rparr>))\<lparr>FreePoolIdx := i\<rparr>))"

definition SlDrvReleasePoolObj :: "nat \<Rightarrow> sl_pool \<Rightarrow> sl_pool option" where
  "SlDrvReleasePoolObj i p = (case wake_pending i p of None \<Rightarrow> None | Some p1 \<Rightarrow> free_obj i p1)"


subsection \<open>Finding the action an answer is for\<close>

text \<open>
  The asynchronous answers of the actions, from the first one on (\<open>_SlActionLookupTable\<close>). The
  table has no entry for receiving, and its index is not checked.
\<close>

definition SlActionLookupTable :: "u16 list" where
  "SlActionLookupTable = [0x1003, 0x1006, 0x1007, 0x1820, 0x1835, 0x1822, 0x0073]"

abbreviation (input) RECVASYNC :: u16 where "RECVASYNC \<equiv> 0x100A"
abbreviation (input) RECVFROMASYNC :: u16 where "RECVFROMASYNC \<equiv> 0x100B"
abbreviation (input) RECVFROMASYNC_V6 :: u16 where "RECVFROMASYNC_V6 \<equiv> 0x120B"

datatype find_result = Found nat | Not_found | Table_overrun

partial_function (option) find_active :: "u16 \<Rightarrow> nat \<Rightarrow> sl_pool \<Rightarrow> nat \<Rightarrow> find_result option" where
  "find_active opc sd p idx =
     (if idx < MAX_CONCURRENT_ACTIONS then
        (let b = ObjPool p idx;
             op1 = (if AdditionalData b AND 0x80 \<noteq> 0 then opc AND NOT 0x0200 else opc)
         in if ActionID b = RECV_ID \<and> of_nat sd = AdditionalData b \<and> op1 \<in> {RECVASYNC, RECVFROMASYNC, RECVFROMASYNC_V6}
            then Some (Found idx)
            else if ActionID b < ACCEPT_ID \<or> length SlActionLookupTable \<le> ActionID b - ACCEPT_ID then Some Table_overrun
            else if SlActionLookupTable ! (ActionID b - ACCEPT_ID) = op1 \<and>
                (sd = socket_of p idx \<and> sd < SL_MAX_SOCKETS \<or> socket_of p idx = SL_MAX_SOCKETS)
            then Some (Found idx)
            else find_active op1 sd p (next_of p idx))
      else Some Not_found)"

definition SlFindAndSetActiveObj :: "u16 \<Rightarrow> nat \<Rightarrow> sl_pool \<Rightarrow> find_result option" where
  "SlFindAndSetActiveObj opc sd p = find_active opc sd p (ActivePoolIdx p)"


subsection \<open>Lists in the array\<close>

fun links :: "(nat \<Rightarrow> nat) \<Rightarrow> nat \<Rightarrow> nat list \<Rightarrow> bool" where
  "links n h [] \<longleftrightarrow> h = MAX_CONCURRENT_ACTIONS"
| "links n h (x # xs) \<longleftrightarrow> h = x \<and> x < MAX_CONCURRENT_ACTIONS \<and> links n (n x) xs"

lemma links_below: "links n h xs \<Longrightarrow> x \<in> set xs \<Longrightarrow> x < 10"
  by (induction xs arbitrary: h) auto

lemma links_cong: "(\<And>x. x \<in> set xs \<Longrightarrow> n' x = n x) \<Longrightarrow> links n' h xs = links n h xs"
  by (induction xs arbitrary: h) auto

lemma links_head: "links n h xs \<Longrightarrow> h = (case xs of [] \<Rightarrow> 10 | x # _ \<Rightarrow> x)"
  by (cases xs) auto

lemma links_walk: "links n h xs \<Longrightarrow> walk P n h = Some (case List.find P xs of None \<Rightarrow> 10 | Some x \<Rightarrow> x)"
proof (induction xs arbitrary: h)
  case Nil
  then show ?case by (simp add: walk.simps)
next
  case (Cons x xs)
  then show ?case by (subst walk.simps) auto
qed

text \<open>The pool when only the links of the objects in a set have been changed.\<close>

definition relinked :: "nat set \<Rightarrow> sl_pool \<Rightarrow> sl_pool \<Rightarrow> bool" where
  "relinked S p p' \<longleftrightarrow> (\<exists>n. p' = p\<lparr>ObjPool := (\<lambda>i. (ObjPool p i)\<lparr>NextIndex := n i\<rparr>)\<rparr> \<and> (\<forall>i. i \<notin> S \<longrightarrow> n i = next_of p i))"

lemma relinked_refl: "relinked S p p"
  by (auto simp: relinked_def next_of_def intro!: exI [of _ "next_of p"])

lemma relinkedD:
  assumes "relinked S p p'"
  shows "FreePoolIdx p' = FreePoolIdx p" "PendingPoolIdx p' = PendingPoolIdx p" "ActivePoolIdx p' = ActivePoolIdx p"
    "ActiveActionsBitmap p' = ActiveActionsBitmap p" "SyncObj (ObjPool p' i) = SyncObj (ObjPool p i)"
    "ActionID (ObjPool p' i) = ActionID (ObjPool p i)" "AdditionalData (ObjPool p' i) = AdditionalData (ObjPool p i)"
    "socket_of p' i = socket_of p i" "i \<notin> S \<Longrightarrow> next_of p' i = next_of p i"
  using assms by (auto simp: relinked_def socket_of_def next_of_def)

lemma set_next_relinked: "i \<in> S \<Longrightarrow> relinked S p (set_obj i (\<lambda>b. b\<lparr>NextIndex := k\<rparr>) p)"
  unfolding relinked_def by (rule exI [of _ "(next_of p)(i := k)"]) (auto simp: set_obj_def next_of_def fun_eq_iff)

text \<open>Where the predecessor of an element is, and what unlinking it leaves.\<close>

lemma links_unlink:
  "links n h (xs @ y # x # ys) \<Longrightarrow> distinct (xs @ y # x # ys) \<Longrightarrow> links (n(y := n x)) h (xs @ y # ys)"
proof (induction xs arbitrary: h)
  case Nil
  then have "links (n(y := n x)) (n x) ys = links n (n x) ys" by (intro links_cong) auto
  with Nil show ?case by (simp del: fun_upd_apply) simp
next
  case (Cons z xs)
  then show ?case by auto
qed

lemma links_pred:
  "links n h (xs @ y # x # ys) \<Longrightarrow> distinct (xs @ y # x # ys) \<Longrightarrow> List.find (\<lambda>i. n i = x) (xs @ y # x # ys) = Some y"
proof (induction xs arbitrary: h)
  case (Cons z xs)
  have "n z \<noteq> x" using Cons.prems by (cases xs) auto
  with Cons show ?case by auto
qed simp

lemma SlRemoveFromList_links:
  assumes "links (next_of p) h xs" and "distinct xs" and "i \<in> set xs"
  obtains h' p' where "SlRemoveFromList h i p = Some (h', p')" and "relinked (set xs) p p'" and "links (next_of p') h' (remove1 i xs)"
proof -
  have h: "h < 10" "h = hd xs" using assms by (cases xs; simp)+
  show thesis
  proof (cases "hd xs = i")
    case True
    then obtain ys where xs: "xs = i # ys" using assms(3) by (cases xs) auto
    have "SlRemoveFromList h i p = Some (next_of p i, p)" using h xs by (auto simp: SlRemoveFromList_def)
    then show thesis using that relinked_refl assms(1) xs by auto
  next
    case False
    obtain us y ys where xs: "xs = us @ y # i # ys"
    proof -
      obtain us ys where e: "xs = us @ i # ys" using assms(3) by (auto simp: in_set_conv_decomp)
      with False have "us \<noteq> []" by auto
      then show thesis using that e by (metis append_Cons append_Nil append_assoc append_butlast_last_id)
    qed
    have y: "y < 10" using links_below [OF assms(1)] xs by simp
    have nh: "next_of p h \<noteq> 10" using assms(1) h xs by (cases us; cases "tl us") auto
    let ?p = "set_obj y (\<lambda>b. b\<lparr>NextIndex := next_of p i\<rparr>) p"
    have e: "SlRemoveFromList h i p = Some (h, ?p)"
      using h False nh y links_walk [OF assms(1)] links_pred [of "next_of p" h us y i ys] assms(1,2) xs
      by (simp add: SlRemoveFromList_def)
    have "next_of ?p = (next_of p)(y := next_of p i)" by (auto simp: next_of_def set_obj_def fun_eq_iff)
    then have "links (next_of ?p) h (remove1 i xs)"
      using links_unlink [of "next_of p" h us y i ys] assms(1,2) xs by (simp add: remove1_append)
    then show thesis using that [OF e set_next_relinked] xs by simp
  qed
qed

end
