(* ===== verification/SlPool_Correct.thy ===== *)
theory SlPool_Correct
  imports SlPool
begin

text \<open>
  The pool of actions under any interleaving of the tasks that use it: what every reachable
  state satisfies, when a waiting action is woken, and which action an answer finds.
\<close>

subsection \<open>The tasks that use the pool\<close>

text \<open>What the task that holds an object is doing.\<close>

datatype phase = Idle | is_Waits: Waits (p_act: nat) (p_sock: nat) | is_Runs: Runs (p_act: nat) (p_sock: nat)

record pool_sys =
  pool :: sl_pool
  phase :: "nat \<Rightarrow> phase"

text \<open>The bit of an action: its socket, or itself when it has none.\<close>

definition action_key :: "nat \<Rightarrow> nat \<Rightarrow> nat" where
  "action_key act sock = (if sock < SL_MAX_SOCKETS then sock else act)"

abbreviation phase_key :: "phase \<Rightarrow> nat" where
  "phase_key f \<equiv> action_key (p_act f) (p_sock f)"

text \<open>The requests the driver makes: three actions are made on a socket, the others on none.\<close>

definition requests_ok :: "(nat \<times> nat) set \<Rightarrow> bool" where
  "requests_ok R \<longleftrightarrow> (\<forall>(a, k) \<in> R. a \<in> {ACCEPT_ID, CONNECT_ID, RECV_ID} \<and> k < SL_MAX_SOCKETS \<or>
     a \<in> {SELECT_ID, GETHOSYBYNAME_ID, GETHOSYBYSERVICE_ID, PING_ID, START_STOP_ID} \<and> k = SL_MAX_SOCKETS)"

text \<open>
  A task begins an action and is active at once or has to wait; it resumes when it has been
  signalled; an active one notes where the response goes and, for a name look-up, the address
  family; the chip answers it, its task takes the answer; and it ends. A task does not end an
  action with an answer that it has not taken.
\<close>

inductive pool_step :: "(nat \<times> nat) set \<Rightarrow> pool_sys \<Rightarrow> pool_sys \<Rightarrow> bool" for R where
  Begins: "(a, k) \<in> R \<Longrightarrow> wait_begin a k (pool s) = (Some (i, active), p) \<Longrightarrow>
     pool_step R s (s\<lparr>pool := p, phase := (phase s)(i := if active then Runs a k else Waits a k)\<rparr>)"
| Resumes: "phase s i = Waits a k \<Longrightarrow> SyncObj (ObjPool (pool s) i) \<Longrightarrow> wait_resume a k i (pool s) = (active, p) \<Longrightarrow>
     pool_step R s (s\<lparr>pool := p, phase := (phase s)(i := if active then Runs a k else Waits a k)\<rparr>)"
| Notes: "phase s i = Runs a k \<Longrightarrow> pool_step R s (s\<lparr>pool := set_response r i (pool s)\<rparr>)"
| Family: "phase s i = Runs GETHOSYBYNAME_ID SL_MAX_SOCKETS \<Longrightarrow>
     pool_step R s (s\<lparr>pool := set_obj i (\<lambda>b. b\<lparr>AdditionalData := AdditionalData b OR 0x80\<rparr>) (pool s)\<rparr>)"
| Answers: "phase s i = Runs a k \<Longrightarrow> pool_step R s (s\<lparr>pool := set_obj i (\<lambda>b. b\<lparr>SyncObj := True\<rparr>) (pool s)\<rparr>)"
| Takes: "phase s i = Runs a k \<Longrightarrow> pool_step R s (s\<lparr>pool := set_obj i (\<lambda>b. b\<lparr>SyncObj := False\<rparr>) (pool s)\<rparr>)"
| Ends: "phase s i = Runs a k \<Longrightarrow> \<not> SyncObj (ObjPool (pool s) i) \<Longrightarrow> SlDrvReleasePoolObj i (pool s) = Some p \<Longrightarrow>
     pool_step R s (s\<lparr>pool := p, phase := (phase s)(i := Idle)\<rparr>)"

inductive pool_reachable :: "(nat \<times> nat) set \<Rightarrow> pool_sys \<Rightarrow> bool" for R where
  start: "pool_reachable R \<lparr>pool = pool_init, phase = (\<lambda>i. Idle)\<rparr>"
| step: "pool_reachable R s \<Longrightarrow> pool_step R s s' \<Longrightarrow> pool_reachable R s'"


subsection \<open>The invariant\<close>

text \<open>
  The lists hold the idle, the running and the waiting objects, without the waiting ones in
  \<open>off\<close>, which have been taken off the pending list.
\<close>

definition on_lists :: "nat set \<Rightarrow> pool_sys \<Rightarrow> nat list \<Rightarrow> nat list \<Rightarrow> nat list \<Rightarrow> bool" where
  "on_lists off s fs as ps \<longleftrightarrow>
     links (next_of (pool s)) (FreePoolIdx (pool s)) fs \<and> links (next_of (pool s)) (ActivePoolIdx (pool s)) as \<and>
     links (next_of (pool s)) (PendingPoolIdx (pool s)) ps \<and> distinct fs \<and> distinct as \<and> distinct ps \<and>
     set fs = {i. i < MAX_CONCURRENT_ACTIONS \<and> phase s i = Idle} \<and> set as = {i. is_Runs (phase s i)} \<and>
     set ps = {i. is_Waits (phase s i)} - off"

definition obj_ok :: "(nat \<times> nat) set \<Rightarrow> pool_obj \<Rightarrow> phase \<Rightarrow> bool" where
  "obj_ok R b f \<longleftrightarrow>
     (case f of
        Idle \<Rightarrow> AdditionalData b = 8 \<and> \<not> SyncObj b
      | Waits a k \<Rightarrow> (a, k) \<in> R \<and> ActionID b = a \<and> AdditionalData b = of_nat k
      | Runs a k \<Rightarrow> (a, k) \<in> R \<and> ActionID b = a \<and>
          (AdditionalData b = of_nat k \<or> k = SL_MAX_SOCKETS \<and> AdditionalData b = 0x88))"

text \<open>No two actions run on one key.\<close>

definition keys_inj :: "(nat \<Rightarrow> phase) \<Rightarrow> bool" where
  "keys_inj f \<longleftrightarrow> (\<forall>i j. is_Runs (f i) \<longrightarrow> is_Runs (f j) \<longrightarrow> phase_key (f i) = phase_key (f j) \<longrightarrow> i = j)"

lemma keys_inj_add:
  assumes "keys_inj f" and "key = action_key a k" and "\<And>j. \<not> (is_Runs (f j) \<and> phase_key (f j) = key)"
  shows "keys_inj (f(i := Runs a k))"
proof -
  let ?f = "f(i := Runs a k)"
  have "x = y" if r: "is_Runs (?f x)" "is_Runs (?f y)" "phase_key (?f x) = phase_key (?f y)" for x y
  proof (cases "x = i \<or> y = i")
    case True
    then show ?thesis using r assms(2) assms(3) [of x] assms(3) [of y] by (cases "x = i"; cases "y = i") simp_all
  next
    case False
    then show ?thesis using r assms(1) by (simp add: keys_inj_def)
  qed
  then show ?thesis by (simp only: keys_inj_def) blast
qed

lemma runs_add:
  assumes "\<not> is_Runs (f i)"
  shows "(\<exists>j. is_Runs ((f(i := Runs a k)) j) \<and> phase_key ((f(i := Runs a k)) j) = m) \<longleftrightarrow>
     m = action_key a k \<or> (\<exists>j. is_Runs (f j) \<and> phase_key (f j) = m)" (is "?L \<longleftrightarrow> ?R")
proof
  assume ?L
  then obtain j where "is_Runs ((f(i := Runs a k)) j) \<and> phase_key ((f(i := Runs a k)) j) = m" by blast
  then show ?R by (cases "j = i") auto
next
  assume ?R
  then show ?L
  proof
    assume "m = action_key a k"
    then show ?L by (intro exI [of _ i]) simp
  next
    assume "\<exists>j. is_Runs (f j) \<and> phase_key (f j) = m"
    then obtain j where "is_Runs (f j)" "phase_key (f j) = m" by blast
    then show ?L using assms by (intro exI [of _ j]) auto
  qed
qed

definition bitmap_ok :: "pool_sys \<Rightarrow> bool" where
  "bitmap_ok s \<longleftrightarrow>
     (\<forall>n. bit (ActiveActionsBitmap (pool s)) n \<longleftrightarrow> (\<exists>i. is_Runs (phase s i) \<and> phase_key (phase s i) = n)) \<and>
     keys_inj (phase s)"

definition pool_inv :: "(nat \<times> nat) set \<Rightarrow> nat set \<Rightarrow> pool_sys \<Rightarrow> bool" where
  "pool_inv R off s \<longleftrightarrow> (\<exists>fs as ps. on_lists off s fs as ps) \<and> (\<forall>i. obj_ok R (ObjPool (pool s) i) (phase s i)) \<and>
     bitmap_ok s \<and> off \<subseteq> {i. i < MAX_CONCURRENT_ACTIONS \<and> is_Waits (phase s i)}"

text \<open>The waiting objects that have been signalled.\<close>

definition woken :: "pool_sys \<Rightarrow> nat set" where
  "woken s = {i. is_Waits (phase s i) \<and> SyncObj (ObjPool (pool s) i)}"

lemma pool_inv_below: "pool_inv R off s \<Longrightarrow> phase s i \<noteq> Idle \<Longrightarrow> i < 10"
  by (cases "phase s i") (auto simp: pool_inv_def on_lists_def dest: links_below)

lemma requests_okD: "requests_ok R \<Longrightarrow> (a, k) \<in> R \<Longrightarrow> a \<in> {8, 9, 15} \<and> k < 8 \<or> a \<in> {10, 11, 12, 13, 14} \<and> k = 8"
  by (auto simp: requests_ok_def)

lemma requests_key: "requests_ok R \<Longrightarrow> (a, k) \<in> R \<Longrightarrow> action_key a k < 16 \<and> k \<le> 8"
  by (auto simp: requests_ok_def action_key_def)

lemma obj_ok_socket:
  assumes "requests_ok R" and "obj_ok R b f" and "f \<noteq> Idle" and "AdditionalData b = AdditionalData (ObjPool p i)"
  shows "socket_of p i = p_sock f"
proof -
  have k: "p_sock f < 16" using assms by (cases f) (auto simp: obj_ok_def dest: requests_key)
  have "\<forall>k \<in> set [0..<16]. unat (of_nat k AND 0x0F :: u8) = k" by code_simp
  then have "unat (of_nat (p_sock f) AND 0x0F :: u8) = p_sock f" using k by simp
  then show ?thesis using assms by (cases f) (auto simp: obj_ok_def socket_of_def)
qed


lemma next_of_simps [simp]:
  "next_of (p\<lparr>PendingPoolIdx := x\<rparr>) = next_of p" "next_of (p\<lparr>ActivePoolIdx := x\<rparr>) = next_of p"
  "next_of (p\<lparr>FreePoolIdx := x\<rparr>) = next_of p" "next_of (p\<lparr>ActiveActionsBitmap := b\<rparr>) = next_of p"
  "next_of (set_obj i (\<lambda>b. b\<lparr>NextIndex := x\<rparr>) p) = (next_of p)(i := x)"
  "next_of (set_obj i (\<lambda>b. b\<lparr>SyncObj := y\<rparr>) p) = next_of p" "next_of (set_obj i (\<lambda>b. b\<lparr>pRespArgs := r\<rparr>) p) = next_of p"
  "next_of (set_obj i (\<lambda>b. b\<lparr>AdditionalData := d\<rparr>) p) = next_of p" "next_of (set_obj i (\<lambda>b. b\<lparr>ActionID := n\<rparr>) p) = next_of p"
  "next_of (set_obj i (\<lambda>b. b\<lparr>pRespArgs := r, ActionID := n, AdditionalData := d\<rparr>) p) = next_of p"
  by (auto simp: next_of_def set_obj_def fun_eq_iff)

lemma set_obj_simps [simp]:
  "FreePoolIdx (set_obj i f p) = FreePoolIdx p" "PendingPoolIdx (set_obj i f p) = PendingPoolIdx p"
  "ActivePoolIdx (set_obj i f p) = ActivePoolIdx p" "ActiveActionsBitmap (set_obj i f p) = ActiveActionsBitmap p"
  "ObjPool (set_obj i f p) = (ObjPool p)(i := f (ObjPool p i))"
  by (simp_all add: set_obj_def)

lemma obj_ok_next [simp]: "obj_ok R (b\<lparr>NextIndex := x\<rparr>) f = obj_ok R b f"
  by (cases b; cases f) (simp_all add: obj_ok_def)

lemma obj_ok_resp [simp]: "obj_ok R (b\<lparr>pRespArgs := x\<rparr>) f = obj_ok R b f"
  by (cases b; cases f) (simp_all add: obj_ok_def)

lemma obj_ok_sync: "f \<noteq> Idle \<Longrightarrow> obj_ok R (b\<lparr>SyncObj := x\<rparr>) f = obj_ok R b f"
  by (cases b; cases f) (simp_all add: obj_ok_def)

lemma links_notin: "i \<notin> set xs \<Longrightarrow> links (n(i := y)) h xs = links n h xs"
  by (rule links_cong) auto

lemma enter_inv:
  assumes I: "pool_inv R off s" and R: "requests_ok R" and w: "phase s i = Waits a k" "i \<in> off"
    and e: "enter_action a k i (pool s) = (active, p)"
  shows "pool_inv R (off - {i}) (s\<lparr>pool := p, phase := (phase s)(i := if active then Runs a k else Waits a k)\<rparr>)"
proof -
  obtain fs as ps where l: "on_lists off s fs as ps" using I by (auto simp: pool_inv_def)
  have i: "i < 10" using pool_inv_below [OF I] w by simp
  have n: "i \<notin> set fs" "i \<notin> set as" "i \<notin> set ps" using l w by (auto simp: on_lists_def)
  have o: "obj_ok R (ObjPool (pool s) j) (phase s j)" for j using I by (simp add: pool_inv_def)
  have ak: "(a, k) \<in> R" using o [of i] w by (simp add: obj_ok_def)
  have k8: "action_key a k < 16" "k \<le> 8" using requests_key [OF R ak] by simp_all
  have B: "bit (ActiveActionsBitmap (pool s)) m \<longleftrightarrow> (\<exists>i. is_Runs (phase s i) \<and> phase_key (phase s i) = m)" for m
    using I by (simp add: pool_inv_def bitmap_ok_def)
  have busy: "action_busy a k (pool s) \<longleftrightarrow> bit (ActiveActionsBitmap (pool s)) (action_key a k)"
    using k8 by (auto simp: action_busy_def action_key_def)
  show ?thesis
  proof (cases "action_busy a k (pool s)")
    case True
    then have p: "p = (set_obj i (\<lambda>b. b\<lparr>NextIndex := PendingPoolIdx (pool s)\<rparr>) (pool s))\<lparr>PendingPoolIdx := i\<rparr>" and a: "\<not> active"
      using e by (auto simp: enter_action_def)
    have ph: "(phase s)(i := Waits a k) = phase s" using w by auto
    have "on_lists (off - {i}) (s\<lparr>pool := p\<rparr>) fs as (i # ps)"
    proof -
      have "links (next_of p) (FreePoolIdx p) fs" "links (next_of p) (ActivePoolIdx p) as" "links (next_of p) (PendingPoolIdx p) (i # ps)"
        using l n i by (simp_all add: on_lists_def p links_notin fun_upd_same del: fun_upd_apply)
      moreover have "set (i # ps) = {j. is_Waits (phase s j)} - (off - {i})" using l w by (auto simp: on_lists_def)
      ultimately show ?thesis using l n by (simp add: on_lists_def)
    qed
    moreover have "obj_ok R (ObjPool p j) (phase s j)" for j using o [of j] by (auto simp: p)
    moreover have "bitmap_ok (s\<lparr>pool := p\<rparr>)" using I by (simp add: pool_inv_def bitmap_ok_def p)
    moreover have "off - {i} \<subseteq> {j. j < 10 \<and> is_Waits (phase s j)}" using I by (auto simp: pool_inv_def)
    ultimately have "pool_inv R (off - {i}) (s\<lparr>pool := p\<rparr>)" unfolding pool_inv_def by (simp del: fun_upd_apply) blast
    moreover have "s\<lparr>pool := p, phase := (phase s)(i := if active then Runs a k else Waits a k)\<rparr> = s\<lparr>pool := p\<rparr>"
      using a ph by simp
    ultimately show ?thesis by simp
  next
    case False
    define key where "key = action_key a k"
    have p: "p = (set_obj i (\<lambda>b. b\<lparr>NextIndex := ActivePoolIdx (pool s)\<rparr>) (pool s))
              \<lparr>ActiveActionsBitmap := set_bit key (ActiveActionsBitmap (pool s)), ActivePoolIdx := i\<rparr>" and a: active
      using e False by (auto simp: enter_action_def key_def action_key_def)
    let ?s = "s\<lparr>pool := p, phase := (phase s)(i := Runs a k)\<rparr>"
    have "on_lists (off - {i}) ?s fs (i # as) ps"
    proof -
      have "links (next_of p) (FreePoolIdx p) fs" "links (next_of p) (ActivePoolIdx p) (i # as)" "links (next_of p) (PendingPoolIdx p) ps"
        using l n i by (simp_all add: on_lists_def p links_notin fun_upd_same del: fun_upd_apply)
      moreover have "set fs = {j. j < 10 \<and> phase ?s j = Idle}" "set (i # as) = {j. is_Runs (phase ?s j)}"
        "set ps = {j. is_Waits (phase ?s j)} - (off - {i})"
        using l w by (auto simp: on_lists_def split: if_splits)
      ultimately show ?thesis using l n by (simp add: on_lists_def)
    qed
    moreover have "obj_ok R (ObjPool p j) (phase ?s j)" for j using o [of j] w by (auto simp: p obj_ok_def)
    moreover have "bitmap_ok ?s"
    proof -
      have free: "\<not> (is_Runs (phase s j) \<and> phase_key (phase s j) = key)" for j using False B busy by (auto simp: key_def)
      have "(\<exists>j. is_Runs (phase ?s j) \<and> phase_key (phase ?s j) = m) \<longleftrightarrow> m = key \<or> (\<exists>j. is_Runs (phase s j) \<and> phase_key (phase s j) = m)" for m
        using runs_add [of "phase s" i a k] w by (simp add: key_def)
      moreover have "bit (ActiveActionsBitmap p) m \<longleftrightarrow> m = key \<or> bit (ActiveActionsBitmap (pool s)) m" for m
        using k8(1) by (auto simp: p bit_set_bit_iff key_def)
      ultimately have "bit (ActiveActionsBitmap p) m \<longleftrightarrow> (\<exists>j. is_Runs (phase ?s j) \<and> phase_key (phase ?s j) = m)" for m
        using B [of m] by simp
      moreover have "keys_inj (phase ?s)"
        using keys_inj_add [of "phase s" key a k i] I free by (simp add: pool_inv_def bitmap_ok_def key_def)
      ultimately show ?thesis unfolding bitmap_ok_def by simp
    qed
    moreover have "off - {i} \<subseteq> {j. j < 10 \<and> is_Waits (phase ?s j)}" using I by (auto simp: pool_inv_def)
    ultimately have "pool_inv R (off - {i}) ?s" unfolding pool_inv_def by (simp del: fun_upd_apply) blast
    then show ?thesis using a by simp
  qed
qed


text \<open>The object that is taken, as waiting but not on the list yet.\<close>

definition taken :: "nat \<Rightarrow> nat \<Rightarrow> sl_pool \<Rightarrow> sl_pool" where
  "taken a k p = (let i = FreePoolIdx p in
     (if k < SL_MAX_SOCKETS then set_obj i (\<lambda>b. b\<lparr>AdditionalData := of_nat k\<rparr>) else id)
       (set_obj i (\<lambda>b. b\<lparr>ActionID := a\<rparr>)
         (p\<lparr>FreePoolIdx := (if next_of p i < MAX_CONCURRENT_ACTIONS then next_of p i else MAX_CONCURRENT_ACTIONS)\<rparr>)))"

lemma wait_begin_taken:
  "wait_begin a k p = (if FreePoolIdx p < 10 then
      (case enter_action a k (FreePoolIdx p) (taken a k p) of (active, p') \<Rightarrow> (Some (FreePoolIdx p, active), p')) else (None, p))"
  by (simp add: wait_begin_def taken_def Let_def)

lemma taken_inv:
  assumes I: "pool_inv R off s" and R: "requests_ok R" and ak: "(a, k) \<in> R" and f: "FreePoolIdx (pool s) < 10"
  defines "i \<equiv> FreePoolIdx (pool s)"
  shows "phase s i = Idle" "pool_inv R (insert i off) (s\<lparr>pool := taken a k (pool s), phase := (phase s)(i := Waits a k)\<rparr>)"
proof -
  let ?p = "taken a k (pool s)" and ?f = "(phase s)(i := Waits a k)"
  obtain fs as ps where l: "on_lists off s fs as ps" using I by (auto simp: pool_inv_def)
  then obtain fs' where fs: "fs = i # fs'" using f by (cases fs) (auto simp: on_lists_def i_def)
  show idle: "phase s i = Idle" using l by (auto simp: on_lists_def fs)
  have nx: "next_of ?p = next_of (pool s)" by (simp add: taken_def Let_def)
  have fr: "FreePoolIdx ?p = next_of (pool s) i"
    using l links_head [of "next_of (pool s)" "next_of (pool s) i" fs'] links_below [of "next_of (pool s)" "next_of (pool s) i" fs']
    by (cases fs') (auto simp: on_lists_def fs taken_def Let_def i_def)
  have idx: "ActivePoolIdx ?p = ActivePoolIdx (pool s)" "PendingPoolIdx ?p = PendingPoolIdx (pool s)"
    "ActiveActionsBitmap ?p = ActiveActionsBitmap (pool s)"
    by (simp_all add: taken_def Let_def)
  have o: "obj_ok R (ObjPool (pool s) j) (phase s j)" for j using I by (simp add: pool_inv_def)
  have "ObjPool ?p j = ObjPool (pool s) j" if "j \<noteq> i" for j using that by (simp add: taken_def Let_def i_def)
  moreover have "ActionID (ObjPool ?p i) = a" "AdditionalData (ObjPool ?p i) = of_nat k"
    using o [of i] idle requests_key [OF R ak] by (auto simp: taken_def Let_def i_def obj_ok_def)
  ultimately have "obj_ok R (ObjPool ?p j) (?f j)" for j using o [of j] ak by (cases "j = i") (simp_all add: obj_ok_def)
  moreover have "on_lists (insert i off) (s\<lparr>pool := ?p, phase := ?f\<rparr>) fs' as ps"
  proof -
    have "set fs' = {j. j < 10 \<and> ?f j = Idle}" "set as = {j. is_Runs (?f j)}" "set ps = {j. is_Waits (?f j)} - insert i off"
      using l idle by (auto simp: on_lists_def fs split: if_splits)
    then show ?thesis using l by (simp add: on_lists_def fs nx fr idx i_def)
  qed
  moreover have "bitmap_ok (s\<lparr>pool := ?p, phase := ?f\<rparr>)"
  proof -
    have "is_Runs (?f j) = is_Runs (phase s j)" "is_Runs (phase s j) \<Longrightarrow> ?f j = phase s j" for j using idle by (cases "j = i"; simp)+
    then show ?thesis using I unfolding pool_inv_def bitmap_ok_def keys_inj_def by (simp add: idx cong: conj_cong)
  qed
  moreover have "insert i off \<subseteq> {j. j < 10 \<and> is_Waits (?f j)}" using I f by (auto simp: pool_inv_def i_def)
  ultimately show "pool_inv R (insert i off) (s\<lparr>pool := ?p, phase := ?f\<rparr>)" unfolding pool_inv_def by (simp del: fun_upd_apply) blast
qed


text \<open>A release wakes a waiting action of the same kind on the same socket.\<close>

lemma release_match_iff:
  assumes I: "pool_inv R off s" and R: "requests_ok R" and "phase s i = Runs a k" and "is_Waits (phase s j)"
  shows "release_match i (pool s) j \<longleftrightarrow> phase s j = Waits a k"
proof -
  have o: "obj_ok R (ObjPool (pool s) m) (phase s m)" for m using I by (simp add: pool_inv_def)
  have "socket_of (pool s) m = p_sock (phase s m)" if "phase s m \<noteq> Idle" for m using obj_ok_socket [OF R o that refl] .
  then have "socket_of (pool s) i = k" "socket_of (pool s) j = p_sock (phase s j)" using assms(3,4) by auto
  moreover have "ActionID (ObjPool (pool s) i) = a" "(a, k) \<in> R" using o [of i] assms(3) by (simp_all add: obj_ok_def)
  moreover obtain a' k' where j: "phase s j = Waits a' k'" using assms(4) by (cases "phase s j") auto
  moreover have "ActionID (ObjPool (pool s) j) = a'" "(a', k') \<in> R" using o [of j] j by (simp_all add: obj_ok_def)
  moreover have "a = a' \<Longrightarrow> k < 8 \<longleftrightarrow> k' < 8" "k < 8 \<or> k = 8" "k' < 8 \<or> k' = 8"
    using requests_okD [OF R \<open>(a, k) \<in> R\<close>] requests_okD [OF R \<open>(a', k') \<in> R\<close>] by auto
  ultimately show ?thesis unfolding release_match_def by (cases "a' = a"; cases "k < 8") auto
qed

lemma relinked_obj_ok: "relinked S p p' \<Longrightarrow> obj_ok R (ObjPool p' i) f = obj_ok R (ObjPool p i) f"
  using relinkedD(5-7) [of S p p' i] by (cases f) (simp_all add: obj_ok_def)

lemma wake_inv:
  assumes I: "pool_inv R off s" and R: "requests_ok R" and i: "phase s i = Runs a k"
  obtains "wake_pending i (pool s) = Some (pool s)" and "\<And>j. phase s j = Waits a k \<Longrightarrow> j \<in> off"
  | j p where "wake_pending i (pool s) = Some p" and "phase s j = Waits a k" and "j \<notin> off"
    and "pool_inv R (insert j off) (s\<lparr>pool := p\<rparr>)" and "\<And>m. SyncObj (ObjPool p m) \<longleftrightarrow> m = j \<or> SyncObj (ObjPool (pool s) m)"
proof -
  obtain fs as ps where l: "on_lists off s fs as ps" using I by (auto simp: pool_inv_def)
  have m: "release_match i (pool s) j \<longleftrightarrow> phase s j = Waits a k" if "j \<in> set ps" for j
    using release_match_iff [OF I R i] that l by (auto simp: on_lists_def)
  have w: "walk (release_match i (pool s)) (next_of (pool s)) (PendingPoolIdx (pool s)) =
      Some (case List.find (release_match i (pool s)) ps of None \<Rightarrow> 10 | Some x \<Rightarrow> x)"
    using l by (intro links_walk) (simp add: on_lists_def)
  show thesis
  proof (cases "List.find (release_match i (pool s)) ps")
    case None
    then have "wake_pending i (pool s) = Some (pool s)" by (simp add: wake_pending_def w)
    moreover have "j \<in> off" if "phase s j = Waits a k" for j
      using None m [of j] that l by (auto simp: find_None_iff on_lists_def)
    ultimately show thesis by (rule that(1))
  next
    case (Some j)
    then have j: "j \<in> set ps" "phase s j = Waits a k" using m by (auto simp: find_Some_iff)
    have "links (next_of (pool s)) (PendingPoolIdx (pool s)) ps" "distinct ps" using l by (simp_all add: on_lists_def)
    from SlRemoveFromList_links [OF this j(1)] obtain h p1 where r: "SlRemoveFromList (PendingPoolIdx (pool s)) j (pool s) = Some (h, p1)"
      and k: "relinked (set ps) (pool s) p1" and ps: "links (next_of p1) h (remove1 j ps)" by blast
    let ?p = "set_obj j (\<lambda>b. b\<lparr>SyncObj := True\<rparr>) (p1\<lparr>PendingPoolIdx := h\<rparr>)"
    have j10: "j < 10" using l j by (auto simp: on_lists_def dest: links_below)
    have e: "wake_pending i (pool s) = Some ?p" using j10 by (simp add: wake_pending_def w Some r)
    have d: "set fs \<inter> set ps = {}" "set as \<inter> set ps = {}" using l by (auto simp: on_lists_def)
    have "links (next_of p1) h' xs = links (next_of (pool s)) h' xs" if "set xs \<inter> set ps = {}" for h' xs
      using that relinkedD(9) [OF k] by (intro links_cong) blast
    moreover have "set (remove1 j ps) = {x. is_Waits (phase s x)} - insert j off" using l by (auto simp: on_lists_def)
    ultimately have "on_lists (insert j off) (s\<lparr>pool := ?p\<rparr>) fs as (remove1 j ps)"
      using l d ps relinkedD(1,3) [OF k] by (simp add: on_lists_def)
    moreover have "obj_ok R (ObjPool ?p x) (phase s x)" for x
    proof -
      have "obj_ok R (ObjPool p1 x) (phase s x)" using I relinked_obj_ok [OF k, of R x "phase s x"] by (simp add: pool_inv_def)
      then show ?thesis using obj_ok_sync [of "phase s j" R] j(2) by (cases "x = j") simp_all
    qed
    moreover have "bitmap_ok (s\<lparr>pool := ?p\<rparr>)" using I relinkedD(4) [OF k] by (simp add: pool_inv_def bitmap_ok_def)
    moreover have "insert j off \<subseteq> {x. x < 10 \<and> is_Waits (phase s x)}" using I j j10 by (auto simp: pool_inv_def)
    ultimately have "pool_inv R (insert j off) (s\<lparr>pool := ?p\<rparr>)" unfolding pool_inv_def by (simp del: fun_upd_apply) blast
    moreover have "j \<notin> off" using j l by (auto simp: on_lists_def)
    moreover have "SyncObj (ObjPool ?p x) \<longleftrightarrow> x = j \<or> SyncObj (ObjPool (pool s) x)" for x
      using relinkedD(5) [OF k] by simp
    ultimately show thesis using that(2) [OF e j(2)] by blast
  qed
qed


lemma runs_remove:
  assumes "keys_inj f" and "is_Runs (f i)"
  shows "keys_inj (f(i := Idle))"
    and "(\<exists>j. is_Runs ((f(i := Idle)) j) \<and> phase_key ((f(i := Idle)) j) = m) \<longleftrightarrow>
       m \<noteq> phase_key (f i) \<and> (\<exists>j. is_Runs (f j) \<and> phase_key (f j) = m)" (is "?L \<longleftrightarrow> ?R")
proof -
  have r: "is_Runs ((f(i := Idle)) j) \<longleftrightarrow> j \<noteq> i \<and> is_Runs (f j)" for j by simp
  show "keys_inj (f(i := Idle))" using assms(1) unfolding keys_inj_def by (simp add: r)
  have u: "j = i" if "is_Runs (f j)" "phase_key (f j) = phase_key (f i)" for j
    using assms that unfolding keys_inj_def by blast
  have "?L \<longleftrightarrow> (\<exists>j. j \<noteq> i \<and> is_Runs (f j) \<and> phase_key (f j) = m)" by auto
  moreover have "\<dots> \<longleftrightarrow> ?R" using u by metis
  ultimately show "?L \<longleftrightarrow> ?R" by (rule trans)
qed

lemma free_obj_inv:
  assumes I: "pool_inv R off s" and R: "requests_ok R" and i: "phase s i = Runs a k" and sy: "\<not> SyncObj (ObjPool (pool s) i)"
  obtains p where "free_obj i (pool s) = Some p" and "pool_inv R off (s\<lparr>pool := p, phase := (phase s)(i := Idle)\<rparr>)"
    and "\<And>m. SyncObj (ObjPool p m) = SyncObj (ObjPool (pool s) m)"
proof -
  obtain fs as ps where l: "on_lists off s fs as ps" using I by (auto simp: pool_inv_def)
  have o: "obj_ok R (ObjPool (pool s) m) (phase s m)" for m using I by (simp add: pool_inv_def)
  have i10: "i < 10" using pool_inv_below [OF I] i by simp
  have ok: "ActionID (ObjPool (pool s) i) = a" using o [of i] i by (simp add: obj_ok_def)
  have so: "socket_of (pool s) i = k" using obj_ok_socket [OF R o [of i] _ refl] i by simp
  define q where "q = set_obj i (\<lambda>b. b\<lparr>pRespArgs := None, ActionID := 0, AdditionalData := 8\<rparr>)
      (pool s\<lparr>ActiveActionsBitmap := unset_bit (action_key a k) (ActiveActionsBitmap (pool s))\<rparr>)"
  have q: "next_of q = next_of (pool s)" "ActivePoolIdx q = ActivePoolIdx (pool s)" "FreePoolIdx q = FreePoolIdx (pool s)"
    "PendingPoolIdx q = PendingPoolIdx (pool s)" "SyncObj (ObjPool q m) = SyncObj (ObjPool (pool s) m)" for m
    by (cases "m = i"; simp add: q_def)+
  have "links (next_of q) (ActivePoolIdx q) as" "distinct as" "i \<in> set as"
    using l i by (simp_all add: q on_lists_def)
  then obtain h p4 where r: "SlRemoveFromList (ActivePoolIdx q) i q = Some (h, p4)" and rl: "relinked (set as) q p4"
    and as: "links (next_of p4) h (remove1 i as)" by (rule SlRemoveFromList_links)
  define p where "p = (set_obj i (\<lambda>b. b\<lparr>NextIndex := FreePoolIdx p4\<rparr>) (p4\<lparr>ActivePoolIdx := h\<rparr>))\<lparr>FreePoolIdx := i\<rparr>"
  have e: "free_obj i (pool s) = Some p"
    using r by (cases "k < 8") (simp_all add: free_obj_def Let_def so ok p_def q_def action_key_def)
  let ?f = "(phase s)(i := Idle)"
  have sp: "SyncObj (ObjPool p m) = SyncObj (ObjPool (pool s) m)" for m
    using relinkedD(5) [OF rl, of m] q(5) [of m] by (cases "m = i") (simp_all add: p_def)
  have "on_lists off (s\<lparr>pool := p, phase := ?f\<rparr>) (i # fs) (remove1 i as) ps"
  proof -
    have d: "set fs \<inter> set as = {}" "set ps \<inter> set as = {}" "i \<notin> set fs" "i \<notin> set ps" using l i by (auto simp: on_lists_def)
    have lk: "links (next_of p4) h' xs = links (next_of (pool s)) h' xs" if "set xs \<inter> set as = {}" for h' xs
      using that relinkedD(9) [OF rl] unfolding q(1) by (intro links_cong) blast
    have n: "next_of p = (next_of p4)(i := FreePoolIdx (pool s))" using relinkedD(1) [OF rl] by (simp add: p_def q)
    have "links (next_of p) (FreePoolIdx p) (i # fs)" "links (next_of p) (PendingPoolIdx p) ps"
      using l d i10 lk [of fs] lk [of ps] relinkedD(1,2) [OF rl]
      by (simp_all add: n links_notin on_lists_def p_def q fun_upd_same del: fun_upd_apply)
    moreover have "links (next_of p) (ActivePoolIdx p) (remove1 i as)"
      using as l by (simp add: n links_notin on_lists_def p_def del: fun_upd_apply)
    moreover have "set (i # fs) = {j. j < 10 \<and> ?f j = Idle}" "set (remove1 i as) = {j. is_Runs (?f j)}" "set ps = {j. is_Waits (?f j)} - off"
      using l i i10 by (auto simp: on_lists_def split: if_splits)
    ultimately show ?thesis using l d by (simp add: on_lists_def)
  qed
  moreover have "obj_ok R (ObjPool p m) (?f m)" for m
    using sy sp [of i] o [of m] relinkedD(7) [OF rl, of i] relinked_obj_ok [OF rl, of R m]
    by (cases "m = i") (simp_all add: p_def q_def obj_ok_def [of R _ Idle])
  moreover have "bitmap_ok (s\<lparr>pool := p, phase := ?f\<rparr>)"
  proof -
    have b: "ActiveActionsBitmap p = unset_bit (action_key a k) (ActiveActionsBitmap (pool s))" using relinkedD(4) [OF rl] by (simp add: p_def q_def)
    have I': "keys_inj (phase s)" "bit (ActiveActionsBitmap (pool s)) n \<longleftrightarrow> (\<exists>j. is_Runs (phase s j) \<and> phase_key (phase s j) = n)" for n
      using I by (simp_all add: pool_inv_def bitmap_ok_def)
    show ?thesis
      unfolding bitmap_ok_def using runs_remove [OF I'(1), of i] i I'(2)
      by (simp add: b bit_unset_bit_iff del: fun_upd_apply) blast
  qed
  moreover have "off \<subseteq> {j. j < 10 \<and> is_Waits (?f j)}" using I i by (auto simp: pool_inv_def)
  ultimately have "pool_inv R off (s\<lparr>pool := p, phase := ?f\<rparr>)" unfolding pool_inv_def by (simp del: fun_upd_apply) blast
  then show thesis using that e sp by blast
qed

text \<open>Releasing: the loops end, and at most one action is taken off the pending list.\<close>

lemma release_inv:
  assumes I: "pool_inv R off s" and R: "requests_ok R" and i: "phase s i = Runs a k" and sy: "\<not> SyncObj (ObjPool (pool s) i)"
  obtains p off' where "SlDrvReleasePoolObj i (pool s) = Some p" and "pool_inv R off' (s\<lparr>pool := p, phase := (phase s)(i := Idle)\<rparr>)"
    and "off' = off \<and> (\<forall>j. phase s j = Waits a k \<longrightarrow> j \<in> off) \<or> (\<exists>j. j \<notin> off \<and> phase s j = Waits a k \<and> off' = insert j off)"
    and "\<And>m. SyncObj (ObjPool p m) \<longleftrightarrow> m \<in> off' - off \<or> SyncObj (ObjPool (pool s) m)"
proof (rule wake_inv [OF I R i])
  assume w: "wake_pending i (pool s) = Some (pool s)" "\<And>j. phase s j = Waits a k \<Longrightarrow> j \<in> off"
  show thesis by (rule free_obj_inv [OF I R i sy]) (use that [of _ off] w in \<open>simp add: SlDrvReleasePoolObj_def\<close>)
next
  fix j p1
  assume w: "wake_pending i (pool s) = Some p1" "phase s j = Waits a k" "j \<notin> off" "pool_inv R (insert j off) (s\<lparr>pool := p1\<rparr>)"
    and y: "\<And>m. SyncObj (ObjPool p1 m) \<longleftrightarrow> m = j \<or> SyncObj (ObjPool (pool s) m)"
  have "\<not> SyncObj (ObjPool p1 i)" using y [of i] w(2) i sy by auto
  then obtain p where f: "free_obj i p1 = Some p" "pool_inv R (insert j off) (s\<lparr>pool := p, phase := (phase s)(i := Idle)\<rparr>)"
    "\<And>m. SyncObj (ObjPool p m) = SyncObj (ObjPool p1 m)"
    using free_obj_inv [OF w(4) R, of i a k] i by auto
  show thesis by (rule that [of p "insert j off"]) (use w f y in \<open>auto simp: SlDrvReleasePoolObj_def\<close>)
qed


subsection \<open>Every reachable state\<close>

definition pool_ok :: "(nat \<times> nat) set \<Rightarrow> pool_sys \<Rightarrow> bool" where
  "pool_ok R s \<longleftrightarrow> pool_inv R (woken s) s"

lemma pool_init_ok: "pool_ok R \<lparr>pool = pool_init, phase = (\<lambda>i. Idle)\<rparr>"
proof -
  have "links (next_of pool_init) 0 [0..<10]"
    by (simp add: upt_rec next_of_def pool_init_def)
  then have "on_lists {} \<lparr>pool = pool_init, phase = (\<lambda>i. Idle)\<rparr> [0..<10] [] []"
    by (auto simp: on_lists_def) (simp_all add: pool_init_def)
  then show ?thesis
    unfolding pool_ok_def pool_inv_def woken_def bitmap_ok_def keys_inj_def by (auto simp: obj_ok_def pool_init_def)
qed

text \<open>Changes to the data of one object that runs.\<close>

lemma set_obj_inv:
  assumes I: "pool_inv R off s" and n: "\<And>b. NextIndex (f b) = NextIndex b" and o: "obj_ok R (f (ObjPool (pool s) i)) (phase s i)"
  shows "pool_inv R off (s\<lparr>pool := set_obj i f (pool s)\<rparr>)"
proof -
  have nx: "next_of (set_obj i f (pool s)) = next_of (pool s)" using n by (auto simp: next_of_def set_obj_def fun_eq_iff)
  have "on_lists off (s\<lparr>pool := set_obj i f (pool s)\<rparr>) = on_lists off s" by (simp add: on_lists_def nx fun_eq_iff)
  moreover have "bitmap_ok (s\<lparr>pool := set_obj i f (pool s)\<rparr>) = bitmap_ok s" by (simp add: bitmap_ok_def)
  ultimately show ?thesis using I o by (auto simp: pool_inv_def)
qed

lemma run_obj_ok:
  assumes I: "pool_ok R s" and r: "is_Runs (phase s i)" and n: "\<And>b. NextIndex (f b) = NextIndex b"
    and o: "obj_ok R (f (ObjPool (pool s) i)) (phase s i)"
  shows "pool_ok R (s\<lparr>pool := set_obj i f (pool s)\<rparr>)"
proof -
  have "\<not> is_Waits (phase s i)" using r by (cases "phase s i") auto
  then have "woken (s\<lparr>pool := set_obj i f (pool s)\<rparr>) = woken s" by (auto simp: woken_def)
  then show ?thesis using set_obj_inv [of R "woken s" s f i] assms by (simp add: pool_ok_def)
qed

text \<open>What taking part in the pool leaves of the signals of the others.\<close>

lemma enter_sync: "enter_action a k i p = (b, p') \<Longrightarrow> SyncObj (ObjPool p' j) = SyncObj (ObjPool p j)"
  by (auto simp: enter_action_def split: if_splits)

lemma taken_sync: "SyncObj (ObjPool (taken a k p) j) = SyncObj (ObjPool p j)"
  by (simp add: taken_def Let_def)

lemma pool_step_ok:
  assumes R: "requests_ok R" and I: "pool_ok R s" and st: "pool_step R s s'"
  shows "pool_ok R s'"
proof -
  have o: "obj_ok R (ObjPool (pool s) j) (phase s j)" for j using I by (simp add: pool_ok_def pool_inv_def)
  from st show ?thesis
proof cases
  case (Begins a k i active p)
  then have f: "FreePoolIdx (pool s) < 10" "i = FreePoolIdx (pool s)" and e: "enter_action a k i (taken a k (pool s)) = (active, p)"
    by (auto simp: wait_begin_taken split: if_splits prod.splits)
  let ?s = "s\<lparr>pool := taken a k (pool s), phase := (phase s)(i := Waits a k)\<rparr>"
  note t = taken_inv [OF I [unfolded pool_ok_def] R Begins(2) f(1), folded f(2)]
  have "\<not> SyncObj (ObjPool (pool s) i)" using I t(1) by (auto simp: pool_ok_def pool_inv_def obj_ok_def split: phase.splits)
  then have w: "woken s' = insert i (woken s) - {i}"
    using enter_sync [OF e] t(1) by (auto simp: woken_def Begins(1) taken_sync split: if_splits)
  have "pool_inv R (insert i (woken s) - {i}) (?s\<lparr>pool := p, phase := (phase ?s)(i := if active then Runs a k else Waits a k)\<rparr>)"
    by (rule enter_inv [OF t(2) R]) (use e in simp_all)
  moreover have "?s\<lparr>pool := p, phase := (phase ?s)(i := if active then Runs a k else Waits a k)\<rparr> = s'" by (simp add: Begins(1))
  ultimately show ?thesis unfolding pool_ok_def w by simp
next
  case (Resumes i a k active p)
  let ?f = "\<lambda>b. b\<lparr>SyncObj := False\<rparr>"
  let ?s = "s\<lparr>pool := set_obj i ?f (pool s)\<rparr>"
  have e: "enter_action a k i (pool ?s) = (active, p)" using Resumes by (simp add: wait_resume_def)
  have I0: "pool_inv R (woken s) ?s"
    using I o [of i] Resumes(2) obj_ok_sync [of "phase s i"] by (intro set_obj_inv) (simp_all add: pool_ok_def)
  have w: "woken s' = woken s - {i}"
    using enter_sync [OF e] Resumes(2) by (auto simp: woken_def Resumes(1) split: if_splits)
  have "i \<in> woken s" using Resumes by (simp add: woken_def)
  then have "pool_inv R (woken s - {i}) (?s\<lparr>pool := p, phase := (phase ?s)(i := if active then Runs a k else Waits a k)\<rparr>)"
    by (intro enter_inv [OF I0 R]) (use e Resumes(2) in simp_all)
  then show ?thesis unfolding pool_ok_def w by (simp add: Resumes(1))
next
  case (Notes i a k r)
  then show ?thesis using run_obj_ok [OF I, of i "\<lambda>b. b\<lparr>pRespArgs := Some r\<rparr>"] o [of i] by (simp add: set_response_def)
next
  case (Family i)
  have "obj_ok R (ObjPool (pool s) i) (Runs 11 8)" using o [of i] Family(2) by simp
  then have "obj_ok R ((ObjPool (pool s) i)\<lparr>AdditionalData := AdditionalData (ObjPool (pool s) i) OR 0x80\<rparr>) (Runs 11 8)"
    by (auto simp: obj_ok_def)
  then show ?thesis using run_obj_ok [OF I, of i "\<lambda>b. b\<lparr>AdditionalData := AdditionalData b OR 0x80\<rparr>"] Family by simp
next
  case (Answers i a k)
  then show ?thesis using run_obj_ok [OF I, of i "\<lambda>b. b\<lparr>SyncObj := True\<rparr>"] o [of i] by (simp add: obj_ok_sync)
next
  case (Takes i a k)
  then show ?thesis using run_obj_ok [OF I, of i "\<lambda>b. b\<lparr>SyncObj := False\<rparr>"] o [of i] by (simp add: obj_ok_sync)
next
  case (Ends i a k p)
  obtain off' where f: "pool_inv R off' (s\<lparr>pool := p, phase := (phase s)(i := Idle)\<rparr>)"
    and m: "\<And>m. SyncObj (ObjPool p m) \<longleftrightarrow> m \<in> off' - woken s \<or> SyncObj (ObjPool (pool s) m)"
    and o: "off' = woken s \<or> (\<exists>j. phase s j = Waits a k \<and> off' = insert j (woken s))"
  proof (rule release_inv [OF I [unfolded pool_ok_def] R Ends(2,3)])
    fix q off'
    assume q: "SlDrvReleasePoolObj i (pool s) = Some q" and v: "pool_inv R off' (s\<lparr>pool := q, phase := (phase s)(i := Idle)\<rparr>)"
      and o: "off' = woken s \<and> (\<forall>j. phase s j = Waits a k \<longrightarrow> j \<in> woken s) \<or> (\<exists>j. j \<notin> woken s \<and> phase s j = Waits a k \<and> off' = insert j (woken s))"
      and y: "\<And>m. SyncObj (ObjPool q m) \<longleftrightarrow> m \<in> off' - woken s \<or> SyncObj (ObjPool (pool s) m)"
    have e: "q = p" using q Ends(4) by simp
    have "off' = woken s \<or> (\<exists>j. phase s j = Waits a k \<and> off' = insert j (woken s))" using o by blast
    then show thesis by (rule that [OF v [unfolded e] y [unfolded e]])
  qed
  have "woken s' = off'" using m o Ends(2) by (auto simp: woken_def Ends(1))
  then show ?thesis using f by (simp add: pool_ok_def Ends(1))
qed
qed

lemma pool_reachable_ok:
  assumes "requests_ok R" and "pool_reachable R s"
  shows "pool_ok R s"
  using assms(2,1) by (induction rule: pool_reachable.induct) (auto intro: pool_init_ok pool_step_ok)


text \<open>
  C2: whatever the tasks do in whatever order, no two actions run on the same socket, nor two
  actions of the same kind that have no socket; every object of the pool is on exactly one of
  the three lists, or waits with its signal; and releasing a running action always ends.
\<close>

theorem pool_exclusive:
  assumes "requests_ok R" and "pool_reachable R s"
  shows "(phase s i = Runs a k \<and> phase s j = Runs a' k' \<and> action_key a k = action_key a' k' \<longrightarrow> i = j) \<and>
    (\<exists>fs as ps. links (next_of (pool s)) (FreePoolIdx (pool s)) fs \<and> links (next_of (pool s)) (ActivePoolIdx (pool s)) as \<and>
       links (next_of (pool s)) (PendingPoolIdx (pool s)) ps \<and> distinct (fs @ as @ ps) \<and>
       set fs \<union> set as \<union> set ps \<union> woken s = {..<MAX_CONCURRENT_ACTIONS} \<and> woken s \<inter> set (fs @ as @ ps) = {}) \<and>
    (phase s i = Runs a k \<and> \<not> SyncObj (ObjPool (pool s) i) \<longrightarrow> SlDrvReleasePoolObj i (pool s) \<noteq> None)"
proof (intro conjI impI)
  have I: "pool_inv R (woken s) s" using pool_reachable_ok [OF assms] by (simp add: pool_ok_def)
  have inj: "keys_inj (phase s)" using I by (simp add: pool_inv_def bitmap_ok_def)
  show "i = j" if "phase s i = Runs a k \<and> phase s j = Runs a' k' \<and> action_key a k = action_key a' k'"
    using inj [unfolded keys_inj_def, rule_format, of i j] that by simp
  obtain fs as ps where l: "on_lists (woken s) s fs as ps" using I by (auto simp: pool_inv_def)
  have b: "j < 10" if "phase s j \<noteq> Idle" for j using pool_inv_below [OF I that] .
  have "distinct (fs @ as @ ps)" "woken s \<inter> set (fs @ as @ ps) = {}" using l by (auto simp: on_lists_def woken_def)
  moreover have "set fs \<union> set as \<union> set ps \<union> woken s = {..<10}"
  proof -
    have "is_Runs f \<or> is_Waits f \<or> f = Idle" for f by (cases f) auto
    then show ?thesis using l b by (auto simp: on_lists_def woken_def)
  qed
  ultimately show "\<exists>fs as ps. links (next_of (pool s)) (FreePoolIdx (pool s)) fs \<and> links (next_of (pool s)) (ActivePoolIdx (pool s)) as \<and>
       links (next_of (pool s)) (PendingPoolIdx (pool s)) ps \<and> distinct (fs @ as @ ps) \<and>
       set fs \<union> set as \<union> set ps \<union> woken s = {..<10} \<and> woken s \<inter> set (fs @ as @ ps) = {}"
    using l unfolding on_lists_def by blast
  show "SlDrvReleasePoolObj i (pool s) \<noteq> None" if "phase s i = Runs a k \<and> \<not> SyncObj (ObjPool (pool s) i)"
    using release_inv [OF I assms(1), of i a k] that by (metis option.distinct(1))
qed

text \<open>Three runs: a connection is begun, data is waited for on the same socket, and the connection ends.\<close>

definition demo_requests :: "(nat \<times> nat) set" where
  "demo_requests = {(CONNECT_ID, 1), (RECV_ID, 1)}"

definition demo_pool :: "nat \<Rightarrow> pool_sys" where
  "demo_pool n =
     (let p1 = snd (wait_begin CONNECT_ID 1 pool_init); p2 = snd (wait_begin RECV_ID 1 p1); p3 = the (SlDrvReleasePoolObj 0 p2);
          s1 = \<lparr>pool = p1, phase = (\<lambda>i. Idle)(0 := Runs CONNECT_ID 1)\<rparr>;
          s2 = \<lparr>pool = p2, phase = (phase s1)(1 := Waits RECV_ID 1)\<rparr>
      in if n = 0 then s1 else if n = 1 then s2 else \<lparr>pool = p3, phase = (phase s2)(0 := Idle)\<rparr>)"

lemma demo_requests_ok: "requests_ok demo_requests"
  by (simp add: requests_ok_def demo_requests_def)

lemma demo_pool_reachable:
  "pool_reachable demo_requests (demo_pool 0)" "pool_reachable demo_requests (demo_pool 1)" "pool_reachable demo_requests (demo_pool 2)"
  "phase (demo_pool 2) 1 = Waits RECV_ID 1" "\<not> SyncObj (ObjPool (pool (demo_pool 2)) 1)" "\<not> is_Runs (phase (demo_pool 2) i)"
proof -
  let ?s = "\<lparr>pool = pool_init, phase = (\<lambda>i. Idle)\<rparr>"
  note defs = demo_pool_def wait_begin_def enter_action_def action_busy_def next_of_def set_obj_def pool_init_def
  have w1: "wait_begin CONNECT_ID 1 pool_init = (Some (0, True), pool (demo_pool 0))"
    by (simp add: defs)
  have w2: "wait_begin RECV_ID 1 (pool (demo_pool 0)) = (Some (1, False), pool (demo_pool 1))"
    by (simp add: defs bit_set_bit_iff)
  have r: "SlDrvReleasePoolObj 0 (pool (demo_pool 1)) = Some (pool (demo_pool 2))"
    by (simp add: SlDrvReleasePoolObj_def wake_pending_def free_obj_def release_match_def SlRemoveFromList_def socket_of_def walk.simps defs bit_set_bit_iff)
  have y: "\<not> SyncObj (ObjPool (pool (demo_pool 1)) 0)" by (simp add: defs bit_set_bit_iff)
  show 0: "pool_reachable demo_requests (demo_pool 0)"
    using step [OF start Begins, of CONNECT_ID 1 demo_requests 0 True "pool (demo_pool 0)"] w1 by (simp add: demo_pool_def Let_def demo_requests_def)
  show 1: "pool_reachable demo_requests (demo_pool 1)"
    using step [OF 0 Begins, of RECV_ID 1 1 False "pool (demo_pool 1)"] w2 by (simp add: demo_pool_def Let_def demo_requests_def)
  show 2: "pool_reachable demo_requests (demo_pool 2)"
    using step [OF 1 Ends, of 0 CONNECT_ID 1 "pool (demo_pool 2)"] r y by (simp add: demo_pool_def Let_def)
  show "phase (demo_pool 2) 1 = Waits RECV_ID 1" "\<not> SyncObj (ObjPool (pool (demo_pool 2)) 1)" "\<not> is_Runs (phase (demo_pool 2) i)"
    by (simp_all add: SlDrvReleasePoolObj_def wake_pending_def free_obj_def release_match_def SlRemoveFromList_def socket_of_def
        walk.simps defs bit_set_bit_iff)
qed


lemma pool_exclusive_witness:
  "SlDrvReleasePoolObj 0 (pool (demo_pool 1)) \<noteq> None \<and> phase (demo_pool 1) 1 = Waits RECV_ID 1"
proof -
  have "phase (demo_pool 1) 0 = Runs CONNECT_ID 1 \<and> \<not> SyncObj (ObjPool (pool (demo_pool 1)) 0)"
    by (simp add: demo_pool_def Let_def wait_begin_def enter_action_def action_busy_def next_of_def set_obj_def pool_init_def bit_set_bit_iff)
  then show ?thesis
    using pool_exclusive [OF demo_requests_ok demo_pool_reachable(2), where i = 0 and j = 0] by (simp add: demo_pool_def Let_def)
qed

text \<open>
  A release wakes only actions of its own kind, but an action waits for the socket: a task
  that waits for data while a connection is made on the same socket is not woken when
  that ends, and waits for a socket that no one uses.
\<close>

lemma pool_wakeup_lost:
  "\<exists>s. pool_reachable demo_requests s \<and> phase s 1 = Waits RECV_ID 1 \<and> \<not> SyncObj (ObjPool (pool s) 1) \<and> (\<forall>i. \<not> is_Runs (phase s i))"
  using demo_pool_reachable(3-6) by blast

text \<open>When every socket is used for one kind of action only, a waiting action is woken in its turn.\<close>

definition one_kind :: "(nat \<times> nat) set \<Rightarrow> bool" where
  "one_kind R \<longleftrightarrow> (\<forall>(a, k) \<in> R. \<forall>(a', k') \<in> R. k = k' \<and> k < SL_MAX_SOCKETS \<longrightarrow> a = a')"

definition served :: "pool_sys \<Rightarrow> bool" where
  "served s \<longleftrightarrow> (\<forall>i a k. phase s i = Waits a k \<and> \<not> SyncObj (ObjPool (pool s) i) \<longrightarrow>
     (\<exists>j. phase s j = Runs a k \<or> phase s j = Waits a k \<and> SyncObj (ObjPool (pool s) j)))"

lemma busy_runs:
  assumes R: "requests_ok R" "one_kind R" and I: "pool_inv R off s" and ak: "(a, k) \<in> R" and b: "action_busy a k (pool s)"
  obtains j where "phase s j = Runs a k"
proof -
  have "bit (ActiveActionsBitmap (pool s)) (action_key a k)" using b by (auto simp: action_busy_def action_key_def)
  then obtain j where j: "is_Runs (phase s j)" "phase_key (phase s j) = action_key a k" using I by (auto simp: pool_inv_def bitmap_ok_def)
  then obtain a' k' where p: "phase s j = Runs a' k'" by (cases "phase s j") auto
  have ak': "(a', k') \<in> R" using I p by (auto simp: pool_inv_def obj_ok_def split: phase.splits)
  have "a' = a \<and> k' = k"
    using requests_okD [OF R(1) ak] requests_okD [OF R(1) ak'] j(2) p R(2) ak ak'
    by (fastforce simp: action_key_def one_kind_def split: if_splits)
  then show thesis using that p by simp
qed


lemma served_enter:
  assumes S: "served s" and y: "\<And>j. j \<noteq> i \<Longrightarrow> SyncObj (ObjPool p j) = SyncObj (ObjPool (pool s) j)"
    and f: "phase s i = Idle \<or> phase s i = Waits a k" and b: "active \<or> (\<exists>j. phase s j = Runs a k)"
  shows "served (s\<lparr>pool := p, phase := (phase s)(i := if active then Runs a k else Waits a k)\<rparr>)" (is "served ?s")
proof -
  have i: "\<exists>j. phase ?s j = Runs a k"
  proof (cases active)
    case True
    then show ?thesis by (intro exI [of _ i]) simp
  next
    case False
    with b obtain j where "phase s j = Runs a k" by blast
    moreover with f have "j \<noteq> i" by auto
    ultimately show ?thesis by (intro exI [of _ j]) simp
  qed
  have "\<exists>j. phase ?s j = Runs a' k' \<or> phase ?s j = Waits a' k' \<and> SyncObj (ObjPool (pool ?s) j)"
    if w: "phase ?s m = Waits a' k'" "\<not> SyncObj (ObjPool (pool ?s) m)" for m a' k'
  proof (cases "(a', k') = (a, k)")
    case True
    then show ?thesis using i by blast
  next
    case False
    then have m: "m \<noteq> i" using w by (auto split: if_splits)
    then obtain j where j: "phase s j = Runs a' k' \<or> phase s j = Waits a' k' \<and> SyncObj (ObjPool (pool s) j)"
      using S w y [OF m] unfolding served_def by fastforce
    with f False have "j \<noteq> i" by auto
    with j y show ?thesis by (intro exI [of _ j]) simp
  qed
  then show ?thesis unfolding served_def by blast
qed

text \<open>Signals of running actions do not count.\<close>

lemma served_runs:
  assumes "served s" and "is_Runs (phase s i)"
  shows "served (s\<lparr>pool := set_obj i f (pool s)\<rparr>)"
proof -
  have "SyncObj (ObjPool (set_obj i f (pool s)) j) = SyncObj (ObjPool (pool s) j)" if "phase s j = Waits a k" for j a k
    using assms(2) that by (cases "j = i") auto
  then show ?thesis using assms(1) unfolding served_def by (simp del: set_obj_simps) metis
qed

lemma served_step:
  assumes R: "requests_ok R" "one_kind R" and I: "pool_ok R s" and S: "served s" and st: "pool_step R s s'"
  shows "served s'"
  using st
proof cases
  case (Begins a k i active p)
  then have f: "FreePoolIdx (pool s) < 10" "i = FreePoolIdx (pool s)" and e: "enter_action a k i (taken a k (pool s)) = (active, p)"
    by (auto simp: wait_begin_taken split: if_splits prod.splits)
  have idle: "phase s i = Idle" using taken_inv(1) [OF I [unfolded pool_ok_def] R(1) Begins(2) f(1)] f(2) by simp
  have "action_busy a k (taken a k (pool s)) = action_busy a k (pool s)" by (simp add: action_busy_def taken_def Let_def)
  then have "active \<or> (\<exists>j. phase s j = Runs a k)"
    using busy_runs [OF R I [unfolded pool_ok_def] Begins(2)] e by (auto simp: enter_action_def)
  then show ?thesis unfolding Begins(1) using enter_sync [OF e] idle by (intro served_enter [OF S]) (simp_all add: taken_sync)
next
  case (Resumes i a k active p)
  let ?p = "set_obj i (\<lambda>b. b\<lparr>SyncObj := False\<rparr>) (pool s)"
  have e: "enter_action a k i ?p = (active, p)" using Resumes by (simp add: wait_resume_def)
  have ak: "(a, k) \<in> R" using I Resumes(2) by (auto simp: pool_ok_def pool_inv_def obj_ok_def split: phase.splits)
  have "action_busy a k ?p = action_busy a k (pool s)" by (simp add: action_busy_def)
  then have "active \<or> (\<exists>j. phase s j = Runs a k)"
    using busy_runs [OF R I [unfolded pool_ok_def] ak] e by (auto simp: enter_action_def)
  then show ?thesis unfolding Resumes(1) using enter_sync [OF e] Resumes(2) by (intro served_enter [OF S]) simp_all
next
  case (Ends i a k p)
  show ?thesis
  proof (rule release_inv [OF I [unfolded pool_ok_def] R(1) Ends(2,3)])
    fix q off'
    assume q: "SlDrvReleasePoolObj i (pool s) = Some q" and y: "\<And>m. SyncObj (ObjPool q m) \<longleftrightarrow> m \<in> off' - woken s \<or> SyncObj (ObjPool (pool s) m)"
      and o: "off' = woken s \<and> (\<forall>j. phase s j = Waits a k \<longrightarrow> j \<in> woken s) \<or> (\<exists>j. j \<notin> woken s \<and> phase s j = Waits a k \<and> off' = insert j (woken s))"
    have e: "q = p" using q Ends(4) by simp
    have "\<exists>j. phase s' j = Runs a' k' \<or> phase s' j = Waits a' k' \<and> SyncObj (ObjPool p j)"
      if w: "phase s' m = Waits a' k'" "\<not> SyncObj (ObjPool p m)" for m a' k'
    proof -
      have m: "m \<noteq> i" "phase s m = Waits a' k'" "\<not> SyncObj (ObjPool (pool s) m)"
        using w y [of m] by (auto simp: Ends(1) e split: if_splits)
      then obtain j where j: "phase s j = Runs a' k' \<or> phase s j = Waits a' k' \<and> SyncObj (ObjPool (pool s) j)"
        using S unfolding served_def by blast
      show ?thesis
      proof (cases "j = i")
        case False
        with j y [of j] show ?thesis by (intro exI [of _ j]) (auto simp: Ends(1) e)
      next
        case True
        with j Ends(2) have ak: "a' = a" "k' = k" by auto
        have "m \<notin> woken s" using m by (simp add: woken_def)
        then obtain j' where j': "j' \<notin> woken s" "phase s j' = Waits a k" "off' = insert j' (woken s)" using o m(2) ak by blast
        moreover have "j' \<noteq> i" using j'(2) Ends(2) by auto
        ultimately show ?thesis using y [of j'] ak by (intro exI [of _ j']) (simp add: Ends(1) e)
      qed
    qed
    moreover have "pool s' = p" by (simp add: Ends(1))
    ultimately show "served s'" unfolding served_def by blast
  qed
qed (auto simp: set_response_def intro: served_runs [OF S])



text \<open>Two tasks wait for data of socket 1.\<close>

definition demo_recvs :: pool_sys where
  "demo_recvs = (let p = snd (wait_begin RECV_ID 1 (snd (wait_begin RECV_ID 1 pool_init)))
     in \<lparr>pool = p, phase = (\<lambda>i. Idle)(0 := Runs RECV_ID 1, 1 := Waits RECV_ID 1)\<rparr>)"



subsection \<open>The action an answer is for\<close>

text \<open>The code of the answer of an action.\<close>

definition answer_code :: "nat \<Rightarrow> u16" where
  "answer_code a = (if a = RECV_ID then RECVASYNC else SlActionLookupTable ! (a - ACCEPT_ID))"

lemma answer_codes:
  assumes "8 \<le> a" and "a < 16"
  shows "answer_code a AND NOT 0x0200 = answer_code a"
    and "answer_code a \<in> {RECVASYNC, RECVFROMASYNC, RECVFROMASYNC_V6} \<longleftrightarrow> a = RECV_ID"
    and "8 \<le> b \<Longrightarrow> b < 15 \<Longrightarrow> SlActionLookupTable ! (b - 8) = answer_code a \<longleftrightarrow> b = a"
proof -
  have "\<forall>a \<in> set [8..<16]. answer_code a AND NOT 0x0200 = answer_code a \<and>
      (answer_code a \<in> {RECVASYNC, RECVFROMASYNC, RECVFROMASYNC_V6} \<longleftrightarrow> a = RECV_ID) \<and>
      (\<forall>b \<in> set [8..<15]. SlActionLookupTable ! (b - 8) = answer_code a \<longleftrightarrow> b = a)"
    by code_simp
  then show "answer_code a AND NOT 0x0200 = answer_code a" "answer_code a \<in> {RECVASYNC, RECVFROMASYNC, RECVFROMASYNC_V6} \<longleftrightarrow> a = RECV_ID"
    "8 \<le> b \<Longrightarrow> b < 15 \<Longrightarrow> SlActionLookupTable ! (b - 8) = answer_code a \<longleftrightarrow> b = a"
    using assms by (simp_all only: set_upt atLeastLessThan_iff Ball_def)
qed

lemma find_active_one:
  assumes R: "requests_ok R" and I: "pool_inv R off s" and i: "phase s i = Runs a k" and j: "is_Runs (phase s j)"
  shows "find_active (answer_code a) k (pool s) j =
    (if j = i then Some (Found i) else if p_act (phase s j) = RECV_ID then Some Table_overrun
     else find_active (answer_code a) k (pool s) (next_of (pool s) j))"
proof -
  obtain a' k' where pj: "phase s j = Runs a' k'" using j by (cases "phase s j") auto
  have o: "obj_ok R (ObjPool (pool s) m) (phase s m)" for m using I by (simp add: pool_inv_def)
  have q: "(a, k) \<in> R" "(a', k') \<in> R" "ActionID (ObjPool (pool s) j) = a'"
    and d: "AdditionalData (ObjPool (pool s) j) = of_nat k' \<or> k' = 8 \<and> AdditionalData (ObjPool (pool s) j) = 0x88"
    using o [of i] o [of j] i pj by (simp_all add: obj_ok_def)
  note c = requests_okD [OF R q(1)] requests_okD [OF R q(2)]
  have ab: "8 \<le> a" "a < 16" "8 \<le> a'" "a' < 16" using c by auto
  note codes = answer_codes [OF ab(1,2)]
  have so: "socket_of (pool s) j = k'" using obj_ok_socket [OF R o [of j] _ refl] pj by simp
  have inj: "j = i" if "a' = a" "k' = k"
    using I i pj that unfolding pool_inv_def bitmap_ok_def keys_inj_def by (metis phase.disc(6) phase.sel(3,4))
  have j10: "j < 10" using pool_inv_below [OF I] pj by simp
  have dk: "of_nat k = AdditionalData (ObjPool (pool s) j) \<longleftrightarrow> k' = k" if "k' < 8"
  proof -
    have "k \<le> 8" using c by auto
    then have "(of_nat k :: u8) = of_nat k' \<longleftrightarrow> k = k'" using that by (simp add: word_of_nat_eq_iff take_bit_nat_eq_self)
    then show ?thesis using d that by auto
  qed
  have st: "find_active (answer_code a) k (pool s) j =
    (if a' = RECV_ID \<and> k' = k \<and> a = RECV_ID then Some (Found j)
     else if a' = RECV_ID then Some Table_overrun
     else if a' = a \<and> (k = k' \<and> k < 8 \<or> k' = 8) then Some (Found j)
     else find_active (answer_code a) k (pool s) (next_of (pool s) j))"
  proof -
    have o1: "(if t then answer_code a AND NOT 0x0200 else answer_code a) = answer_code a" for t using codes(1) by simp
    have g: "a' < ACCEPT_ID \<or> length SlActionLookupTable \<le> a' - ACCEPT_ID \<longleftrightarrow> a' = RECV_ID"
      using ab by (auto simp: SlActionLookupTable_def)
    have f: "a' = RECV_ID \<and> of_nat k = AdditionalData (ObjPool (pool s) j) \<and> answer_code a \<in> {RECVASYNC, RECVFROMASYNC, RECVFROMASYNC_V6} \<longleftrightarrow>
        a' = RECV_ID \<and> k' = k \<and> a = RECV_ID"
      using c(2) dk codes(2) by auto
    have "find_active (answer_code a) k (pool s) j =
      (if a' = RECV_ID \<and> of_nat k = AdditionalData (ObjPool (pool s) j) \<and> answer_code a \<in> {RECVASYNC, RECVFROMASYNC, RECVFROMASYNC_V6}
       then Some (Found j)
       else if a' < ACCEPT_ID \<or> length SlActionLookupTable \<le> a' - ACCEPT_ID then Some Table_overrun
       else if SlActionLookupTable ! (a' - ACCEPT_ID) = answer_code a \<and> (k = k' \<and> k < SL_MAX_SOCKETS \<or> k' = SL_MAX_SOCKETS)
       then Some (Found j)
       else find_active (answer_code a) k (pool s) (next_of (pool s) j))"
      by (subst find_active.simps) (simp only: Let_def o1 q(3) j10 if_True so)
    then show ?thesis unfolding f g using codes(3) [OF ab(3)] ab(4) by (cases "a' = RECV_ID") simp_all
  qed
  show ?thesis
  proof (cases "j = i")
    case True
    then show ?thesis using st i pj c by auto
  next
    case False
    then have "\<not> (a' = a \<and> k' = k)" using inj by blast
    then show ?thesis using st False pj c by auto
  qed
qed


text \<open>
  The answer to a running action finds the object of that action in the list of active
  ones, unless the object of a task that receives data stands before it: then the look-up
  reads behind the end of its table, which has no entry for receiving.
\<close>

theorem answer_finds_action:
  assumes "requests_ok R" and "pool_reachable R s" and "phase s i = Runs a k"
  shows "\<exists>as. links (next_of (pool s)) (ActivePoolIdx (pool s)) as \<and> i \<in> set as \<and>
    SlFindAndSetActiveObj (answer_code a) k (pool s) =
      Some (if \<exists>j \<in> set (takeWhile (\<lambda>j. j \<noteq> i) as). p_act (phase s j) = RECV_ID then Table_overrun else Found i)"
proof -
  have I: "pool_inv R (woken s) s" using pool_reachable_ok [OF assms(1,2)] by (simp add: pool_ok_def)
  then obtain fs as ps where l: "on_lists (woken s) s fs as ps" by (auto simp: pool_inv_def)
  have "links (next_of (pool s)) h xs \<Longrightarrow> \<forall>x \<in> set xs. is_Runs (phase s x) \<Longrightarrow> i \<in> set xs \<Longrightarrow>
      find_active (answer_code a) k (pool s) h =
        Some (if \<exists>j \<in> set (takeWhile (\<lambda>j. j \<noteq> i) xs). p_act (phase s j) = RECV_ID then Table_overrun else Found i)" for h xs
  proof (induction xs arbitrary: h)
    case (Cons x xs)
    then show ?case using find_active_one [OF assms(1) I assms(3), of x] by auto
  qed simp
  moreover have "i \<in> set as" "\<forall>x \<in> set as. is_Runs (phase s x)" "links (next_of (pool s)) (ActivePoolIdx (pool s)) as"
    using l assms(3) by (auto simp: on_lists_def)
  ultimately show ?thesis unfolding SlFindAndSetActiveObj_def by blast
qed

theorem answer_finds_action_witness:
  "SlFindAndSetActiveObj 0x1006 1 (pool (demo_pool 1)) = Some (Found 0)"
proof -
  have p: "phase (demo_pool 1) 0 = Runs CONNECT_ID 1" "next_of (pool (demo_pool 1)) 0 = 10" "ActivePoolIdx (pool (demo_pool 1)) = 0"
    by (simp_all add: demo_pool_def Let_def wait_begin_def enter_action_def action_busy_def next_of_def set_obj_def pool_init_def bit_set_bit_iff)
  from answer_finds_action [OF demo_requests_ok demo_pool_reachable(2) p(1)] obtain as
    where as: "links (next_of (pool (demo_pool 1))) 0 as" "0 \<in> set as" and f: "SlFindAndSetActiveObj (answer_code CONNECT_ID) 1 (pool (demo_pool 1)) =
      Some (if \<exists>j \<in> set (takeWhile (\<lambda>j. j \<noteq> 0) as). p_act (phase (demo_pool 1) j) = RECV_ID then Table_overrun else Found 0)"
    unfolding p(3) by blast
  then obtain xs where "as = 0 # xs" by (cases as) auto
  then show ?thesis using f by (simp add: answer_code_def SlActionLookupTable_def)
qed

text \<open>A connection and data on another socket: with the object of the data in front, the answer is looked up behind the table.\<close>

lemma answer_overruns_table:
  "SlFindAndSetActiveObj 0x1006 1 (snd (wait_begin RECV_ID 2 (snd (wait_begin CONNECT_ID 1 pool_init)))) = Some Table_overrun"
  by (simp add: SlFindAndSetActiveObj_def find_active.simps wait_begin_def enter_action_def action_busy_def next_of_def set_obj_def
      pool_init_def bit_set_bit_iff socket_of_def SlActionLookupTable_def)

end
