(* ===== verification/SlMsg.thy ===== *)
theory SlMsg
  imports Prelude
begin

text \<open>
  The messages between the driver and the WiFi chip
  (\<open>csrc/system/cc3100-sdk/simplelink/source/driver.c\<close>): the frame of a command, the search for
  the header of a response, and the reading of its three kinds.

  What the chip sends is the list of its bytes; a read that finds too few fails, as the code
  answers \<open>SL_RET_CODE_NWP_IF_ERROR\<close> when the interface gives less than it was asked for. A buffer is
  the list of the bytes that may be read of it.
\<close>

subsection \<open>The frame of a command\<close>

definition align4 :: "nat \<Rightarrow> nat" where
  "align4 n = (n + 3) div 4 * 4"

record cmd_ctrl =
  Opcode :: u16
  TxDescLen :: u8
  RxDescLen :: u8

record cmd_ext =
  TxPayloadLen :: u16
  RxPayloadLen :: int
  ActualRxPayloadLen :: int
  pTxPayload :: "u8 list"
  pRxPayload :: "u8 list"

definition le16 :: "u16 \<Rightarrow> u8 list" where
  "le16 v = [ucast v, ucast (drop_bit 8 v)]"

text \<open>The short synchronisation patterns, as they lie in memory.\<close>

definition H2N_SYNC :: "u8 list" where "H2N_SYNC = [0x21, 0x43, 0x34, 0x12]"
definition H2N_CNYS :: "u8 list" where "H2N_CNYS = [0x65, 0x87, 0x78, 0x56]"

definition protocol_len :: "cmd_ctrl \<Rightarrow> cmd_ext option \<Rightarrow> nat" where
  "protocol_len ctrl ext =
     align4 (unat (TxDescLen ctrl)) + (case ext of None \<Rightarrow> 0 | Some e \<Rightarrow> align4 (unat (TxPayloadLen e)))"

text \<open>
  The special mode in which the receive buffer is sent: its length is negative, and the sign is
  changed. The length in the header grows by it.
\<close>

definition sends_rx :: "cmd_ext option \<Rightarrow> bool" where
  "sends_rx ext \<longleftrightarrow> (case ext of None \<Rightarrow> False | Some e \<Rightarrow> RxPayloadLen e < 0)"

definition rx_sign :: "cmd_ext option \<Rightarrow> cmd_ext option" where
  "rx_sign ext = (if sends_rx ext then map_option (\<lambda>e. e\<lparr>RxPayloadLen := - RxPayloadLen e\<rparr>) ext else ext)"

definition frame_len :: "cmd_ctrl \<Rightarrow> cmd_ext option \<Rightarrow> u16" where
  "frame_len ctrl ext =
     of_nat (protocol_len ctrl ext) + (if sends_rx ext then of_int (- RxPayloadLen (the ext)) else 0)"

definition chunk :: "u8 list \<Rightarrow> nat \<Rightarrow> u8 list option" where
  "chunk buf n = (if align4 n \<le> length buf then Some (take (align4 n) buf) else None)"

text \<open>
  The writes in their order, and the result when all are accepted: payload behind arguments
  that are not aligned is a protocol error. \<open>None\<close> is a write from outside of a buffer.
\<close>

definition msg_chunks :: "cmd_ctrl \<Rightarrow> cmd_ext option \<Rightarrow> u8 list option \<Rightarrow> u8 list option list \<times> int" where
  "msg_chunks ctrl ext desc =
     (let ext1 = rx_sign ext;
          head = [Some H2N_SYNC, Some (le16 (Opcode ctrl) @ le16 (frame_len ctrl ext))];
          descs = (case desc of Some d \<Rightarrow> if 0 < TxDescLen ctrl then [chunk d (unat (TxDescLen ctrl))] else [] | None \<Rightarrow> []);
          rxs = (if sends_rx ext then [chunk (pRxPayload (the ext1)) (nat (RxPayloadLen (the ext1)))] else [])
      in case ext1 of
           None \<Rightarrow> (head @ descs @ rxs, 0)
         | Some e \<Rightarrow>
             if 0 < TxPayloadLen e then
               (if unat (TxDescLen ctrl) mod 4 \<noteq> 0 then (head @ descs @ rxs, -7)
                else (head @ descs @ rxs @ [chunk (pTxPayload e) (unat (TxPayloadLen e))], 0))
             else (head @ descs @ rxs, 0))"

text \<open>The interface takes each write or refuses it; a refused one ends the function.\<close>

fun send_chunks :: "(u8 list \<Rightarrow> bool) \<Rightarrow> u8 list option list \<Rightarrow> int \<Rightarrow> (int \<times> u8 list) option" where
  "send_chunks ok [] r = Some (r, [])"
| "send_chunks ok (None # cs) r = None"
| "send_chunks ok (Some c # cs) r =
     (if ok c then map_option (\<lambda>(r', w). (r', c @ w)) (send_chunks ok cs r) else Some (-4, []))"

definition SlDrvMsgWrite :: "(u8 list \<Rightarrow> bool) \<Rightarrow> cmd_ctrl \<Rightarrow> cmd_ext option \<Rightarrow> u8 list option \<Rightarrow> (int \<times> u8 list) option" where
  "SlDrvMsgWrite ok ctrl ext desc = (case msg_chunks ctrl ext desc of (cs, r) \<Rightarrow> send_chunks ok cs r)"


subsection \<open>The header of a response\<close>

definition if_read :: "nat \<Rightarrow> u8 list \<Rightarrow> (u8 list \<times> u8 list) option" where
  "if_read n rx = (if n \<le> length rx then Some (take n rx, drop n rx) else None)"

definition le32 :: "u8 list \<Rightarrow> u32" where
  "le32 w = ucast (w ! 0) OR push_bit 8 (ucast (w ! 1)) OR push_bit 16 (ucast (w ! 2)) OR push_bit 24 (ucast (w ! 3))"

text \<open>
  The pattern with the lower bits of the sequence number, or the old one without; three bits that
  the bus may disturb are ignored.
\<close>

definition N2H_SYNC_SPIM :: u32 where
  "N2H_SYNC_SPIM = 0xABCDDCBA AND 0x7FFF7F7F"

definition sync_match :: "u8 \<Rightarrow> u8 list \<Rightarrow> bool" where
  "sync_match seq w \<longleftrightarrow>
     (let v = le32 w in
      if v AND 4 \<noteq> 0 then v AND 0x7FFF7F7F = (N2H_SYNC_SPIM AND 0xFFFFFFF8) OR 4 OR (ucast seq AND 3)
      else v AND 0x7FFF7F7F = N2H_SYNC_SPIM)"

text \<open>Reading while the first word of the buffer is equal to the second.\<close>

function skip_idle :: "u8 list \<Rightarrow> u8 list \<Rightarrow> u8 list \<Rightarrow> (u8 list \<times> u8 list) option" where
  "skip_idle w0 w1 rx =
     (if w0 = w1 then (if 4 \<le> length rx then skip_idle w0 (take 4 rx) (drop 4 rx) else None) else Some (w1, rx))"
  by pat_completeness auto
termination by (relation "measure (\<lambda>(w0, w1, rx). length rx)") auto

declare skip_idle.simps [simp del]

text \<open>
  The scan of the eight bytes of the buffer, at the five places of a word, moving on by a word
  while the pattern is not found: the four bytes behind the pattern. The code copies four bytes
  from behind the pattern, from outside of its buffer unless the pattern is at its start, and
  then reads those that were not there over the copy.
\<close>

function scan_sync :: "u8 \<Rightarrow> u8 list \<Rightarrow> u8 list \<Rightarrow> (u8 list \<times> u8 list) option" where
  "scan_sync seq b rx =
     (case List.find (\<lambda>i. sync_match seq (take 4 (drop i b))) [0, 1, 2, 3, 4] of
        Some i \<Rightarrow> map_option (\<lambda>(d, rx1). (take (4 - i) (drop (i + 4) b) @ d, rx1)) (if_read i rx)
      | None \<Rightarrow> if 4 \<le> length rx then scan_sync seq (drop 4 b @ take 4 rx) (drop 4 rx) else None)"
  by pat_completeness auto
termination by (relation "measure (\<lambda>(seq, b, rx). length rx)") auto

declare scan_sync.simps [simp del]

text \<open>Further patterns in front of the header.\<close>

function skip_double :: "u8 \<Rightarrow> u8 list \<Rightarrow> u8 list \<Rightarrow> (u8 list \<times> u8 list) option" where
  "skip_double seq h rx =
     (if sync_match seq h then (if 4 \<le> length rx then skip_double seq (take 4 rx) (drop 4 rx) else None) else Some (h, rx))"
  by pat_completeness auto
termination by (relation "measure (\<lambda>(seq, h, rx). length rx)") auto

declare skip_double.simps [simp del]

text \<open>
  The driver asks for the message with a pattern of its own. The header of eight bytes, the next
  sequence number, and the bytes that follow.
\<close>

definition SlDrvRxHdrRead :: "(u8 list \<Rightarrow> bool) \<Rightarrow> u8 \<Rightarrow> u8 list \<Rightarrow> (u8 list \<times> u8 \<times> u8 list) option" where
  "SlDrvRxHdrRead ok seq rx =
     (case (if ok H2N_CNYS then if_read 8 rx else None) of
        None \<Rightarrow> None
      | Some (b, rx1) \<Rightarrow>
          (case skip_idle (take 4 b) (drop 4 b) rx1 of
             None \<Rightarrow> None
           | Some (w1, rx2) \<Rightarrow>
               (case scan_sync seq (take 4 b @ w1) rx2 of
                  None \<Rightarrow> None
                | Some (h, rx3) \<Rightarrow>
                    (case skip_double seq h rx3 of
                       None \<Rightarrow> None
                     | Some (h1, rx4) \<Rightarrow> map_option (\<lambda>(s, rx5). (h1 @ s, seq + 1, rx5)) (if_read 4 rx4)))))"


subsection \<open>The kinds of messages\<close>

datatype msg_class = RECV_RESP_CLASS | CMD_RESP_CLASS | ASYNC_EVT_CLASS | DUMMY_MSG_CLASS

text \<open>The handlers of events; \<open>Action_handler\<close> is the one of the action an answer is for.\<close>

datatype handler = Device_events | Wlan_events | Sock_events | NetApp_events | Http_events | Ping_response | Action_handler nat

text \<open>The handlers by the silo of the message, as the firmware configures them.\<close>

definition RxMsgClassLUT :: "handler option list" where
  "RxMsgClassLUT = [Some Device_events, Some Wlan_events, Some Sock_events, Some NetApp_events, None, None, None, None]"

definition SlDrvClassifyRxMsg :: "u16 \<Rightarrow> msg_class \<times> handler option" where
  "SlDrvClassifyRxMsg opc =
     (if 0x0400 AND opc \<noteq> 0 then (CMD_RESP_CLASS, None)
      else if opc = 0x0063 then (DUMMY_MSG_CLASS, None)
      else if opc \<in> {0x100A, 0x100B, 0x120B} then (RECV_RESP_CLASS, None)
      else (ASYNC_EVT_CLASS,
        if opc \<in> {0x182E, 0x1830} then Some Http_events
        else if opc = 0x1822 then Some Ping_response
        else RxMsgClassLUT ! unat (drop_bit 11 opc AND 7)))"

subsection \<open>Reading what follows the header\<close>

function dump_rest :: "nat \<Rightarrow> u8 list \<Rightarrow> u8 list option" where
  "dump_rest n rx = (if 0 < n then (if 4 \<le> length rx then dump_rest (n - 4) (drop 4 rx) else None) else Some rx)"
  by pat_completeness auto
termination by (relation "measure (\<lambda>(n, rx). n)") auto

declare dump_rest.simps [simp del]

text \<open>
  \<open>n\<close> bytes into a buffer: whole words at once, and the rest by way of a word of its own. The
  bytes, and what follows in the stream.
\<close>

definition read_tail :: "nat \<Rightarrow> u8 list \<Rightarrow> (u8 list \<times> u8 list) option" where
  "read_tail n rx =
     (let tail = n mod 4; aligned = n - tail
      in case (if 4 \<le> aligned then if_read aligned rx else Some ([], rx)) of
           None \<Rightarrow> None
         | Some (d, rx1) \<Rightarrow>
             if 0 < tail then map_option (\<lambda>(t, rx2). (d @ take tail t, rx2)) (if_read 4 rx1) else Some (d, rx1))"

text \<open>The payload of an event: its buffer takes 160 bytes, the rest is dumped.\<close>

definition async_payload :: "u16 \<Rightarrow> u8 list \<Rightarrow> (u8 list \<times> u8 list) option" where
  "async_payload len rx =
     (let a = align4 (unat len); n = (if a \<le> 160 then a else 160)
      in case (if 0 < len then if_read n rx else Some ([], rx)) of
           None \<Rightarrow> None
         | Some (d, rx1) \<Rightarrow> map_option (Pair d) (if 160 < a then dump_rest (a - 160) rx1 else Some rx1))"

text \<open>The payload of the response to a command, of \<open>act\<close> bytes, into the buffer of the caller.\<close>

definition cmd_payload :: "int \<Rightarrow> cmd_ext \<Rightarrow> u8 list \<Rightarrow> (cmd_ext \<times> u8 list) option" where
  "cmd_payload act e rx =
     (let e1 = e\<lparr>ActualRxPayloadLen := act\<rparr>; r = RxPayloadLen e
      in if act \<le> 0 then Some (e1\<lparr>RxPayloadLen := 0\<rparr>, rx)
         else (let n = nat (if act > r then r else act)
               in case read_tail n rx of
                    None \<Rightarrow> None
                  | Some (d, rx1) \<Rightarrow>
                      (let act1 = (if 0 < n mod 4 then act - 4 else act)
                       in map_option (Pair (e1\<lparr>pRxPayload := d @ drop n (pRxPayload e)\<rparr>))
                            (if act1 > r then dump_rest (nat (act1 + 3 - r) div 4 * 4) rx1 else Some rx1))))"

text \<open>
  The response to a command: its descriptor, and the payload when the caller has a buffer. \<open>len\<close> is
  the length behind the header, of which the descriptor is a part.
\<close>

definition cmd_response :: "u16 \<Rightarrow> cmd_ctrl \<Rightarrow> cmd_ext option \<Rightarrow> u8 list \<Rightarrow> (u8 list \<times> cmd_ext option \<times> u8 list) option" where
  "cmd_response len ctrl ext rx =
     (case if_read (align4 (unat (RxDescLen ctrl))) rx of
        None \<Rightarrow> None
      | Some (desc, rx1) \<Rightarrow>
          (case ext of
             None \<Rightarrow> Some (desc, None, rx1)
           | Some e \<Rightarrow>
               if RxPayloadLen e \<noteq> 0 then
                 map_option (\<lambda>(e1, rx2). (desc, Some e1, rx2)) (cmd_payload (sint (len - ucast (RxDescLen ctrl))) e rx1)
               else Some (desc, Some e, rx1)))"

text \<open>Received data: the four bytes of the arguments with length and socket, further arguments, and the data.\<close>

definition recv_args_size :: "u16 \<Rightarrow> nat" where
  "recv_args_size opc = (if opc = 0x100B then 12 else if opc = 0x120B then 24 else 4)"

definition act_data_size :: "u8 list \<Rightarrow> int" where
  "act_data_size args = sint (ucast (args ! 0) OR push_bit 8 (ucast (args ! 1)) :: u16)"

definition recv_data :: "u16 \<Rightarrow> u8 list \<Rightarrow> u8 list \<Rightarrow> (u8 list \<times> u8 list \<times> u8 list) option" where
  "recv_data opc args rx =
     (case (if 4 < recv_args_size opc then if_read (recv_args_size opc - 4) rx else Some ([], rx)) of
        None \<Rightarrow> None
      | Some (addr, rx1) \<Rightarrow>
          map_option (\<lambda>(d, rx2). (args @ addr, d, rx2))
            (if act_data_size args > 0 then read_tail (nat (act_data_size args)) rx1 else Some ([], rx1)))"


subsection \<open>Words of four bytes\<close>

lemma align4_eq: "align4 n = (if n mod 4 = 0 then n else n - n mod 4 + 4)"
proof -
  have d: "n = 4 * (n div 4) + n mod 4" "n mod 4 < 4" by simp_all
  then have "(n + 3) div 4 = n div 4 + (n mod 4 + 3) div 4" by (metis add.assoc div_mult_self4 zero_neq_numeral)
  moreover have "(n mod 4 + 3) div 4 = (if n mod 4 = 0 then 0 else 1)" using d(2) by (auto intro: div_nat_eqI)
  moreover have "n div 4 * 4 = n - n mod 4" by (simp add: minus_mod_eq_div_mult)
  moreover have "n mod 4 \<le> n" by simp
  ultimately show ?thesis by (simp add: align4_def)
qed

lemma align4_mod: "align4 n mod 4 = 0" "n \<le> align4 n" "align4 n < n + 4"
proof -
  show "align4 n mod 4 = 0" by (simp add: align4_def)
  have "n mod 4 \<le> n" "n mod 4 < 4" by simp_all
  then show "n \<le> align4 n" "align4 n < n + 4" unfolding align4_eq by (auto split: if_splits)
qed

lemma dump_rest_drop: "n mod 4 = 0 \<Longrightarrow> dump_rest n rx = (if n \<le> length rx then Some (drop n rx) else None)"
proof (induction n rx rule: dump_rest.induct)
  case (1 n rx)
  show ?case
  proof (cases "0 < n \<and> 4 \<le> length rx")
    case True
    then have "n \<ge> 4" "(n - 4) mod 4 = 0" using 1(2) by presburger+
    then have "dump_rest (n - 4) (drop 4 rx) = (if n \<le> length rx then Some (drop n rx) else None)" using 1(1) True by auto
    then show ?thesis using True by (subst dump_rest.simps) simp
  next
    case False
    then show ?thesis using 1(2) by (subst dump_rest.simps) auto
  qed
qed

lemma read_tail_take:
  "read_tail n rx = (if align4 n \<le> length rx then Some (take n rx, drop (align4 n) rx) else None)"
proof -
  define m where "m = n - n mod 4"
  have m: "m = 4 * (n div 4)" "n = m + n mod 4" "n mod 4 < 4" unfolding m_def by (simp_all add: minus_mod_eq_mult_div)
  then have "4 \<le> m \<or> m = 0" by (cases "n div 4") auto
  note m = this m(2,3)
  have r: "(if 4 \<le> m then if_read m rx else Some ([], rx)) = (if m \<le> length rx then Some (take m rx, drop m rx) else None)"
    using m(1) by (auto simp: if_read_def)
  show ?thesis
  proof (cases "n mod 4 = 0")
    case True
    then have "align4 n = n" "m = n" using align4_eq [of n] m by simp_all
    then show ?thesis using True r by (auto simp: read_tail_def Let_def m_def)
  next
    case False
    then have a: "align4 n = m + 4" by (simp add: align4_eq m_def)
    have "take n rx = take m rx @ take (n mod 4) (take 4 (drop m rx))"
      using m(2,3) by (metis min_absorb1 less_imp_le_nat take_add take_take)
    then show ?thesis using False r a by (auto simp: read_tail_def Let_def if_read_def add.commute simp flip: m_def)
  qed
qed


subsection \<open>Finding the header\<close>

lemma skip_idle_words:
  assumes "length w = 4" and "length w1 = 4" and "w1 \<noteq> w"
  shows "skip_idle w w (concat (replicate n w) @ w1 @ rx) = Some (w1, rx)"
proof (induction n)
  case 0
  show ?case using assms by (subst skip_idle.simps) (simp, subst skip_idle.simps, simp)
next
  case (Suc n)
  then show ?case using assms(1) by (subst skip_idle.simps) simp
qed

lemma find_first:
  assumes "\<And>i. i \<le> 4 \<Longrightarrow> i \<le> p \<Longrightarrow> P i \<longleftrightarrow> i = p" and "p \<le> (4 :: nat)"
  shows "List.find P [0, 1, 2, 3, 4] = Some p"
proof -
  have "p = 0 \<or> p = 1 \<or> p = 2 \<or> p = 3 \<or> p = 4" using assms(2) by arith
  then show ?thesis using assms(1) [of 0] assms(1) [of 1] assms(1) [of 2] assms(1) [of 3] assms(1) [of 4] by (elim disjE) simp_all
qed

text \<open>The first place in a stream where the pattern is.\<close>

definition first_sync :: "u8 \<Rightarrow> u8 list \<Rightarrow> nat \<Rightarrow> bool" where
  "first_sync seq st p \<longleftrightarrow> sync_match seq (take 4 (drop p st)) \<and> (\<forall>q < p. \<not> sync_match seq (take 4 (drop q st)))"

lemma first_sync_drop: "first_sync seq st p \<Longrightarrow> n \<le> p \<Longrightarrow> first_sync seq (drop n st) (p - n)"
  unfolding first_sync_def by (auto simp: add.commute less_diff_conv)

lemma scan_finds:
  assumes "length b = 8" and "first_sync seq (b @ rx) p" and "p + 8 \<le> length (b @ rx)"
  shows "scan_sync seq b rx = Some (take 4 (drop (p + 4) (b @ rx)), drop (p + 8) (b @ rx))"
  using assms
proof (induction p arbitrary: b rx rule: less_induct)
  case (less p)
  have w: "take 4 (drop i b) = take 4 (drop i (b @ rx))" if "i \<le> 4" for i using that less(2) by simp
  have m: "sync_match seq (take 4 (drop i b)) \<longleftrightarrow> i = p" if "i \<le> 4" "i \<le> p" for i
    using less(3) that unfolding w [OF that(1)] first_sync_def by (cases "i = p") auto
  show ?case
  proof (cases "p \<le> 4")
    case True
    then have f: "List.find (\<lambda>i. sync_match seq (take 4 (drop i b))) [0, 1, 2, 3, 4] = Some p"
      using m by (intro find_first)
    have "take (4 - p) (drop (p + 4) b) @ take p rx = take 4 (drop (p + 4) (b @ rx))" "drop (p + 8) (b @ rx) = drop p rx" "p \<le> length rx"
      using less(2,4) True by simp_all
    then show ?thesis by (subst scan_sync.simps) (simp only: f option.case if_read_def if_True option.map prod.case)
  next
    case False
    then have f: "List.find (\<lambda>i. sync_match seq (take 4 (drop i b))) [0, 1, 2, 3, 4] = None"
      using m [of 0] m [of 1] m [of 2] m [of 3] m [of 4] by (simp add: find_None_iff)
    have e: "(drop 4 b @ take 4 rx) @ drop 4 rx = drop 4 (b @ rx)" using less(2) by simp
    have "scan_sync seq (drop 4 b @ take 4 rx) (drop 4 rx) =
        Some (take 4 (drop (p - 4 + 4) (drop 4 (b @ rx))), drop (p - 4 + 8) (drop 4 (b @ rx)))"
      using less(1) [of "p - 4" "drop 4 b @ take 4 rx" "drop 4 rx"] first_sync_drop [OF less(3), of 4] less(2,4) False
      unfolding e by simp
    moreover have "p - 4 + 4 + 4 = p + 4" "p - 4 + 8 + 4 = p + 8" "4 \<le> length rx" using False less(2,4) by simp_all
    ultimately show ?thesis by (subst scan_sync.simps) (simp only: f option.case if_True drop_drop)
  qed
qed


lemma skip_doubles:
  assumes "\<forall>w \<in> set pats. length w = 4 \<and> sync_match seq w" and "length h = 4" and "\<not> sync_match seq h" and "pats = w0 # ws"
  shows "skip_double seq w0 (concat ws @ h @ rx) = Some (h, rx)"
  using assms
proof (induction ws arbitrary: w0 pats)
  case Nil
  then show ?case by (subst skip_double.simps) (simp, subst skip_double.simps, simp)
next
  case (Cons w ws)
  then show ?case by (subst skip_double.simps) simp
qed

lemma concat_replicate_comm: "concat (replicate m w) @ w = w @ concat (replicate m w)"
  by (induction m) simp_all

text \<open>Leaving out what the chip sends while it is idle.\<close>

lemma idle_left_out:
  assumes "length idle = 4" and "4 \<le> length rest" and "take 4 rest \<noteq> idle"
  obtains b rx1 where "if_read 8 (concat (replicate n idle) @ idle @ rest) = Some (b, rx1)" and "take 4 b = idle"
    and "skip_idle (take 4 b) (drop 4 b) rx1 = Some (take 4 rest, drop 4 rest)"
proof (cases n)
  case 0
  have "if_read 8 (idle @ rest) = Some (idle @ take 4 rest, drop 4 rest)" using assms(1,2) by (simp add: if_read_def)
  moreover have "skip_idle idle (take 4 rest) (drop 4 rest) = Some (take 4 rest, drop 4 rest)"
    using assms(3) by (subst skip_idle.simps) simp
  ultimately show thesis using that 0 assms(1) by simp
next
  case (Suc m)
  let ?r = "concat (replicate m idle) @ take 4 rest @ drop 4 rest"
  have "concat (replicate n idle) @ idle = idle @ idle @ concat (replicate m idle)"
    unfolding concat_replicate_comm by (simp add: Suc)
  then have e: "concat (replicate n idle) @ idle @ rest = idle @ idle @ ?r" by (metis append.assoc append_take_drop_id)
  have "if_read 8 (concat (replicate n idle) @ idle @ rest) = Some (idle @ idle, ?r)" unfolding e using assms(1) by (simp add: if_read_def)
  moreover have "skip_idle idle idle ?r = Some (take 4 rest, drop 4 rest)"
    using assms by (intro skip_idle_words) simp_all
  ultimately show thesis using that assms(1) by simp
qed

lemma header_read:
  assumes "length idle = 4" and "st = idle @ rest" and "4 \<le> length rest" and "take 4 rest \<noteq> idle"
    and "first_sync seq st p" and "drop (p + 4) st = concat doubles @ header @ body"
    and "\<forall>w \<in> set doubles. length w = 4 \<and> sync_match seq w" and "length header = 8" and "\<not> sync_match seq (take 4 header)"
    and "ok H2N_CNYS"
  shows "SlDrvRxHdrRead ok seq (concat (replicate n idle) @ st) = Some (header, seq + 1, body)"
proof -
  obtain b rx1 where r: "if_read 8 (concat (replicate n idle) @ st) = Some (b, rx1)" and b: "take 4 b = idle"
    and sk: "skip_idle (take 4 b) (drop 4 b) rx1 = Some (take 4 rest, drop 4 rest)"
    using idle_left_out [OF assms(1,3,4), of n] assms(2) by blast
  have st: "(idle @ take 4 rest) @ drop 4 rest = st" using assms(2) by simp
  have "8 \<le> length (drop (p + 4) st)" unfolding assms(6) using assms(8) by simp
  then have p: "p + 8 \<le> length st" by simp
  have sc: "scan_sync seq (idle @ take 4 rest) (drop 4 rest) = Some (take 4 (drop (p + 4) st), drop (p + 8) st)"
    using scan_finds [of "idle @ take 4 rest" seq "drop 4 rest" p] assms(1,3,5) p unfolding st by simp
  have "drop (p + 8) st = drop 4 (drop (p + 4) st)" by (simp add: add.commute)
  then have "skip_double seq (take 4 (drop (p + 4) st)) (drop (p + 8) st) = Some (take 4 header, drop 4 header @ body)"
  proof (cases doubles)
    case Nil
    then show ?thesis using assms(6,8,9) \<open>drop (p + 8) st = _\<close> by (subst skip_double.simps) simp
  next
    case (Cons w ws)
    then show ?thesis
      using skip_doubles [OF assms(7) _ assms(9) Cons, of "drop 4 header @ body"] assms(6-8) \<open>drop (p + 8) st = _\<close>
      by (simp flip: append_assoc [of "take 4 header"])
  qed
  moreover have "if_read 4 (drop 4 header @ body) = Some (drop 4 header, body)" using assms(8) by (simp add: if_read_def)
  ultimately show ?thesis by (simp add: SlDrvRxHdrRead_def assms(10) r sk [unfolded b] b sc)
qed

text \<open>
  C6: however the stream begins, and at whatever offset the pattern stands, the header that is read is the
  one behind the first pattern with the expected sequence number, when the words the chip
  sends while it is idle, and patterns that are sent twice, are left out; the number moves on, and what
  follows the header is left to be read.
\<close>

theorem header_found:
  assumes "length idle = 4" and "st = idle @ rest" and "4 \<le> length rest" and "take 4 rest \<noteq> idle"
    and "first_sync seq st p" and "drop (p + 4) st = concat doubles @ header @ body"
    and "\<forall>w \<in> set doubles. length w = 4 \<and> sync_match seq w" and "length header = 8" and "\<not> sync_match seq (take 4 header)"
    and "ok H2N_CNYS"
  shows "SlDrvRxHdrRead ok seq (concat (replicate n idle) @ st) = Some (header, seq + 1, body)"
  using assms by (rule header_read)


text \<open>
  A stream to apply it at: two idle words, a byte that belongs to nothing, the pattern twice,
  the header of a message without payload, and the next pattern.
\<close>

definition demo_stream :: "u8 list" where
  "demo_stream = [0xFF, 0xFF, 0xFF, 0xFF] @ [0x00, 0xBD, 0xDC, 0xCD, 0xAB] @ [0xBD, 0xDC, 0xCD, 0xAB] @ [0x63, 0x00, 0x04, 0x00, 0x05, 0x00, 0x00, 0x00] @ [0xBE, 0xDC, 0xCD, 0xAB]"

theorem header_found_witness:
  "SlDrvRxHdrRead (\<lambda>_. True) 1 ([0xFF, 0xFF, 0xFF, 0xFF] @ demo_stream) = Some ([0x63, 0x00, 0x04, 0x00, 0x05, 0x00, 0x00, 0x00], 2, [0xBE, 0xDC, 0xCD, 0xAB])"
proof -
  have m: "sync_match 1 (take 4 (drop 5 demo_stream))" "\<forall>q \<in> set [0..<5]. \<not> sync_match 1 (take 4 (drop q demo_stream))"
    "\<not> sync_match 1 [0x63, 0x00, 0x04, 0x00]" "sync_match 1 [0xBD, 0xDC, 0xCD, 0xAB]"
    by code_simp+
  then have "first_sync 1 demo_stream 5" by (simp only: first_sync_def set_upt atLeastLessThan_iff Ball_def) simp
  from header_found [where ok = "\<lambda>_. True" and n = 1 and doubles = "[[0xBD, 0xDC, 0xCD, 0xAB]]" and header = "[0x63, 0x00, 0x04, 0x00, 0x05, 0x00, 0x00, 0x00]", OF _ demo_stream_def _ _ this] m(3,4)
  show ?thesis by (simp add: demo_stream_def)
qed


subsection \<open>What the chip reads\<close>

definition get16 :: "u8 list \<Rightarrow> u16" where
  "get16 b = ucast (b ! 0) OR push_bit 8 (ucast (b ! 1))"

lemma get16_le16: "get16 (le16 v @ b) = v"
  by (rule bit_word_eqI) (auto simp: get16_def le16_def bit_simps)

text \<open>
  The pattern, the code, the length of what follows, and the arguments with the payload behind them;
  the chip knows by the code how long the arguments are.
\<close>

definition chip_frame :: "nat \<Rightarrow> u8 list \<Rightarrow> (u16 \<times> u8 list \<times> u8 list) option" where
  "chip_frame dlen w =
     (if take 4 w = H2N_SYNC \<and> length (drop 8 w) = unat (get16 (drop 6 w))
      then Some (get16 (drop 4 w), take dlen (drop 8 w), drop (align4 dlen) (drop 8 w)) else None)"

lemma send_all: "(\<And>c. ok c) \<Longrightarrow> send_chunks ok (map Some cs) r = Some (r, concat cs)"
  by (induction cs) simp_all

lemma frame_read:
  assumes "0 \<le> RxPayloadLen e" and "\<And>c. ok c" and "protocol_len ctrl (Some e) < 65536"
    and "align4 (unat (TxDescLen ctrl)) \<le> length d" and "align4 (unat (TxPayloadLen e)) \<le> length (pTxPayload e)"
    and "unat (TxDescLen ctrl) mod 4 = 0 \<or> TxPayloadLen e = 0"
  shows "\<exists>w. SlDrvMsgWrite ok ctrl (Some e) (Some d) = Some (0, w) \<and>
    chip_frame (unat (TxDescLen ctrl)) w =
      Some (Opcode ctrl, take (unat (TxDescLen ctrl)) d, take (align4 (unat (TxPayloadLen e))) (pTxPayload e))"
proof -
  define n where "n = unat (TxDescLen ctrl)"
  define m where "m = unat (TxPayloadLen e)"
  let ?a = "take (align4 n) d" and ?b = "take (align4 m) (pTxPayload e)"
  define w where "w = H2N_SYNC @ (le16 (Opcode ctrl) @ le16 (of_nat (align4 n + align4 m))) @ ?a @ ?b"
  have s: "\<not> sends_rx (Some e)" using assms(1) by (simp add: sends_rx_def)
  have z: "align4 0 = 0" by (simp add: align4_def)
  have nz: "0 < TxDescLen ctrl \<longleftrightarrow> n \<noteq> 0" "0 < TxPayloadLen e \<longleftrightarrow> m \<noteq> 0"
    by (simp_all add: n_def m_def word_neq_0_conv unat_eq_0)
  have p: "protocol_len ctrl (Some e) = align4 n + align4 m" by (simp add: protocol_len_def n_def m_def)
  have la: "length ?a = align4 n" "length ?b = align4 m" using assms(4,5) by (simp_all add: n_def m_def)
  define cs where "cs = [H2N_SYNC, le16 (Opcode ctrl) @ le16 (of_nat (align4 n + align4 m))] @ (if n \<noteq> 0 then [?a] else []) @ (if m \<noteq> 0 then [?b] else [])"
  have "msg_chunks ctrl (Some e) (Some d) = (map Some cs, 0)"
    using assms(4-6) s nz unfolding n_def [symmetric] m_def [symmetric]
    by (auto simp: msg_chunks_def Let_def rx_sign_def frame_len_def p chunk_def cs_def m_def [symmetric] n_def [symmetric])
  moreover have "concat cs = w" using z by (auto simp: cs_def w_def)
  ultimately have "SlDrvMsgWrite ok ctrl (Some e) (Some d) = Some (0, w)"
    using send_all [of ok cs 0] assms(2) by (simp add: SlDrvMsgWrite_def)
  moreover have "chip_frame n w = Some (Opcode ctrl, take n d, ?b)"
  proof -
    have d: "drop 4 w = le16 (Opcode ctrl) @ le16 (of_nat (align4 n + align4 m)) @ ?a @ ?b"
      "drop 6 w = le16 (of_nat (align4 n + align4 m)) @ ?a @ ?b" "drop 8 w = ?a @ ?b" "take 4 w = H2N_SYNC"
      by (simp_all add: w_def H2N_SYNC_def le16_def)
    have "unat (of_nat x :: u16) = x" if "x < 65536" for x using that by (simp add: unat_of_nat)
    from this [OF assms(3)] have "unat (of_nat (align4 n + align4 m) :: u16) = align4 n + align4 m" unfolding p .
    then show ?thesis using la align4_mod(2) [of n] by (simp add: chip_frame_def d get16_le16 min_absorb1)
  qed
  ultimately show ?thesis unfolding n_def m_def by blast
qed





subsection \<open>The payload of a response\<close>

lemma align4_dump:
  assumes "0 < x"
  shows "(if 4 < x then (x - 4 + 3) div 4 * 4 else 0) = align4 x - 4" and "4 \<le> align4 x"
proof -
  have "(x + 3) div 4 = Suc ((x - 1) div 4)" using assms by (cases x) simp_all
  then have a: "align4 x = (x - 1) div 4 * 4 + 4" by (simp add: align4_def)
  then show "4 \<le> align4 x" by simp
  have "x - 4 + 3 = x - 1" if "4 < x" using that by simp
  then show "(if 4 < x then (x - 4 + 3) div 4 * 4 else 0) = align4 x - 4" using a assms by auto
qed

text \<open>How much of the stream a response takes: what the caller has room for, as whole words, and the rest as whole words.\<close>

definition resp_taken :: "nat \<Rightarrow> nat \<Rightarrow> nat" where
  "resp_taken act r = (if act \<le> r then align4 act else r - r mod 4 + align4 (act - r))"

lemma resp_taken_align:
  assumes "0 < a" and "0 < r"
  shows "a \<le> r \<or> r mod 4 = 0 \<Longrightarrow> resp_taken a r = align4 a"
    and "resp_taken a r = align4 a \<or> resp_taken a r + 4 = align4 a" and "resp_taken a r \<le> align4 a"
proof -
  have e: "a \<le> r \<or> resp_taken a r = 4 * (r div 4) + align4 (a - r) \<and> align4 a = 4 * (r div 4) + align4 (r mod 4 + (a - r))"
  proof (cases "a \<le> r")
    case False
    have ad: "align4 (4 * q + y) = 4 * q + align4 y" for q y
    proof -
      have "4 * q + y + 3 = (y + 3) + q * 4" by simp
      then show ?thesis by (simp only: align4_def div_mult_self1) (simp add: algebra_simps)
    qed
    have r4: "r = 4 * (r div 4) + r mod 4" by simp
    then have "a = 4 * (r div 4) + (r mod 4 + (a - r))" using False by linarith
    then have "align4 a = 4 * (r div 4) + align4 (r mod 4 + (a - r))" by (metis ad)
    moreover have "r - r mod 4 = 4 * (r div 4)" by (simp add: minus_mod_eq_mult_div)
    ultimately show ?thesis using False by (simp add: resp_taken_def)
  qed simp
  show "resp_taken a r = align4 a" if "a \<le> r \<or> r mod 4 = 0" using e that by (auto simp: resp_taken_def)
  have "align4 (t + x) = align4 x \<or> align4 (t + x) = align4 x + 4" if "t < 4" for t x :: nat
  proof -
    have "(x + 3) div 4 \<le> (t + x + 3) div 4" by (rule div_le_mono) simp
    moreover have "(t + x + 3) div 4 \<le> (x + 3 + 4) div 4" using that by (intro div_le_mono) simp
    moreover have "(x + 3 + 4) div 4 = (x + 3) div 4 + 1" by simp
    ultimately have "(t + x + 3) div 4 = (x + 3) div 4 \<or> (t + x + 3) div 4 = (x + 3) div 4 + 1" by linarith
    then show ?thesis unfolding align4_def by (elim disjE) simp_all
  qed
  from this [of "r mod 4" "a - r"] have "align4 (r mod 4 + (a - r)) = align4 (a - r) \<or> align4 (r mod 4 + (a - r)) = align4 (a - r) + 4" by simp
  then show "resp_taken a r = align4 a \<or> resp_taken a r + 4 = align4 a"
  proof (cases "a \<le> r")
    case True
    then show ?thesis by (simp add: resp_taken_def)
  next
    case False
    define y where "y = align4 (r mod 4 + (a - r))"
    have "resp_taken a r = 4 * (r div 4) + align4 (a - r)" "align4 a = 4 * (r div 4) + y" "y = align4 (a - r) \<or> y = align4 (a - r) + 4"
      using e \<open>align4 (r mod 4 + (a - r)) = _ \<or> _\<close> False unfolding y_def by blast+
    then show ?thesis by linarith
  qed
  then show "resp_taken a r \<le> align4 a" by auto
qed

text \<open>
  C12: the response to a command gives the caller the beginning of its payload, as much as the buffer
  takes. When it fits, or when the buffer is a multiple of four bytes, the whole payload is taken from
  the stream; otherwise it can happen that the last word stays in it, but never more.
\<close>

theorem cmd_payload_read:
  assumes "0 < act" and "0 < RxPayloadLen e" and "align4 (nat act) \<le> length rx"
  defines "r \<equiv> nat (RxPayloadLen e)" and "n \<equiv> nat (min act (RxPayloadLen e))"
  shows "cmd_payload act e rx =
      Some (e\<lparr>ActualRxPayloadLen := act, pRxPayload := take n rx @ drop n (pRxPayload e)\<rparr>, drop (resp_taken (nat act) r) rx) \<and>
    (act \<le> RxPayloadLen e \<or> r mod 4 = 0 \<longrightarrow> resp_taken (nat act) r = align4 (nat act)) \<and>
    (resp_taken (nat act) r = align4 (nat act) \<or> resp_taken (nat act) r + 4 = align4 (nat act))"
proof -
  define a where "a = nat act"
  have a: "act = int a" "0 < a" and r: "RxPayloadLen e = int r" "0 < r" using assms(1,2) by (simp_all add: a_def r_def)
  have n: "n = min a r" using a r by (simp add: n_def min_def)
  note t = resp_taken_align [OF a(2) r(2)]
  have len: "align4 a \<le> length rx" using assms(3) by (simp add: a_def)
  have "cmd_payload act e rx = Some (e\<lparr>ActualRxPayloadLen := act, pRxPayload := take n rx @ drop n (pRxPayload e)\<rparr>, drop (resp_taken a r) rx)"
  proof (cases "a \<le> r")
    case True
    then have "\<not> (if 0 < a mod 4 then act - 4 else act) > RxPayloadLen e" using a r by simp
    moreover have "resp_taken a r = align4 a" using True t(1) by simp
    ultimately show ?thesis
      using True len a n by (simp add: cmd_payload_def Let_def r(1) read_tail_take min_absorb1 del: of_nat_less_iff)
  next
    case False
    define x where "x = a - r"
    have x: "0 < x" "a = r + x" using False by (simp_all add: x_def)
    have tk: "resp_taken a r = r - r mod 4 + align4 x" using False by (simp add: resp_taken_def x_def)
    have "align4 r \<le> r - r mod 4 + 4" by (cases "r mod 4 = 0") (simp_all only: align4_eq if_True if_False order_refl, simp)
    then have ar: "align4 r \<le> resp_taken a r" using align4_dump(2) [OF x(1)] unfolding tk by linarith
    then have lr: "align4 r \<le> length rx" using t(3) len by linarith
    have rt: "read_tail r rx = Some (take r rx, drop (align4 r) rx)" using lr by (simp add: read_tail_take)
    have dump: "(if (if 0 < r mod 4 then act - 4 else act) > RxPayloadLen e
        then dump_rest (nat ((if 0 < r mod 4 then act - 4 else act) + 3 - RxPayloadLen e) div 4 * 4) (drop (align4 r) rx)
        else Some (drop (align4 r) rx)) = Some (drop (resp_taken a r) rx)"
    proof (cases "r mod 4 = 0")
      case True
      then have "nat (act + 3 - RxPayloadLen e) div 4 * 4 = align4 x" using a(1) r(1) x(2) by (simp add: align4_def nat_add_distrib add.commute)
      moreover have "align4 r = r" using True by (simp add: align4_eq)
      ultimately show ?thesis using True x a(1) r(1) tk t(3) len by (simp add: dump_rest_drop align4_mod add.commute)
    next
      case r4: False
      have al: "align4 r = r - r mod 4 + 4" using r4 by (simp add: align4_eq)
      have k: "align4 r + (align4 x - 4) = resp_taken a r" using al tk align4_dump(2) [OF x(1)] by linarith
      have c: "(if 0 < r mod 4 then act - 4 else act) = act - 4" using r4 by simp
      have g: "act - 4 > RxPayloadLen e \<longleftrightarrow> 4 < x" using a(1) r(1) x(2) by linarith
      show ?thesis
      proof (cases "4 < x")
        case True
        then have "nat (act - 4 + 3 - RxPayloadLen e) = x - 4 + 3" using a(1) r(1) x(2) by linarith
        then have d: "nat (act - 4 + 3 - RxPayloadLen e) div 4 * 4 = align4 x - 4" using align4_dump(1) [OF x(1)] True by simp
        have "align4 x = 4 * ((x + 3) div 4)" by (simp add: align4_def)
        then have "(align4 x - 4) mod 4 = 0" by (simp add: right_diff_distrib' flip: right_diff_distrib)
        moreover have "align4 x - 4 \<le> length (drop (align4 r) rx)" using k t(3) len by simp
        ultimately have "dump_rest (align4 x - 4) (drop (align4 r) rx) = Some (drop (align4 x - 4) (drop (align4 r) rx))"
          by (simp add: dump_rest_drop)
        moreover have "drop (align4 x - 4) (drop (align4 r) rx) = drop (resp_taken a r) rx" using k by (simp add: add.commute)
        ultimately show ?thesis unfolding c d using g True by simp
      next
        case False
        then have "align4 x = 4" using align4_dump [OF x(1)] by simp
        then show ?thesis unfolding c using g False k by simp
      qed
    qed
    have n': "nat (if act > RxPayloadLen e then RxPayloadLen e else act) = r" and np: "\<not> act \<le> 0" and nr: "n = r"
      using False a r(1) n by simp_all
    show ?thesis unfolding cmd_payload_def Let_def n' nr by (simp only: np if_False rt option.case prod.case dump option.map)
  qed
  moreover have "resp_taken a r = align4 a" if "act \<le> RxPayloadLen e \<or> r mod 4 = 0"
    using t(1) that unfolding a(1) r(1) by simp
  ultimately show ?thesis using t(2) unfolding a_def [symmetric] by blast
qed


text \<open>Ten bytes for a buffer of six: the last two, with their padding, stay in the stream.\<close>

theorem cmd_payload_read_witness:
  "cmd_payload 10 \<lparr>TxPayloadLen = 0, RxPayloadLen = 6, ActualRxPayloadLen = 0, pTxPayload = [], pRxPayload = replicate 6 0\<rparr> (map of_nat [1..<14]) =
    Some (\<lparr>TxPayloadLen = 0, RxPayloadLen = 6, ActualRxPayloadLen = 10, pTxPayload = [], pRxPayload = [1, 2, 3, 4, 5, 6]\<rparr>, [9, 10, 11, 12, 13])"
proof -
  have "map of_nat [1..<14] = [1, 2, 3, 4, 5, 6, 7, 8, 9, 10, 11, 12, 13 :: u8]" by (simp add: upt_rec)
  then show ?thesis
    using cmd_payload_read [where act = 10 and rx = "map of_nat [1..<14]" and
        e = "\<lparr>TxPayloadLen = 0, RxPayloadLen = 6, ActualRxPayloadLen = 0, pTxPayload = [], pRxPayload = replicate 6 0\<rparr>"]
    by (simp add: align4_def resp_taken_def)
qed

end
