(* ===== verification/SlDriver.thy ===== *)
theory SlDriver
  imports SlPool SlMsg
begin

text \<open>
  The control block of the SimpleLink driver
  (\<open>csrc/system/cc3100-sdk/simplelink/source/driver.c\<close>, with the handlers of asynchronous answers in
  \<open>socket.c\<close>, \<open>netapp.c\<close> and \<open>device.c\<close>): reading a message as a whole, the call of its handler,
  the loop in which a command waits for its response, and the transfer of data with its flow control.

  \<open>None\<close> is undefined behaviour: a NULL pointer, a read or write outside of a buffer, a lock that was
  deleted. The interrupts of the chip are an input: the bytes it sends with each, or the end of the time
  a wait was given.
\<close>

subsection \<open>The control block\<close>

text \<open>What the chip has become by its start (\<open>device.c\<close>).\<close>

datatype wlan_mode = ROLE_UNKNOWN | ROLE_STA | ROLE_STA_ERR | ROLE_AP | ROLE_AP_ERR | ROLE_P2P | ROLE_P2P_ERR | INIT_CALIB_FAIL

definition StartResponseLUT :: "wlan_mode list" where
  "StartResponseLUT = [ROLE_UNKNOWN, ROLE_STA, ROLE_STA_ERR, ROLE_AP, ROLE_AP_ERR, ROLE_P2P, ROLE_P2P_ERR, INIT_CALIB_FAIL]"

definition sl_GetStartResponseConvert :: "u32 \<Rightarrow> wlan_mode" where
  "sl_GetStartResponseConvert status = StartResponseLUT ! unat (status AND 7)"

text \<open>
  The calls of handlers: the arguments are the buffer of the event, a structure with that buffer, or the
  number of the event with its data.
\<close>

datatype handler_call =
    Raw_event handler "u8 list"
  | Device_event handler "u8 list" bool
  | User_event handler "u8 list"
  | General_event nat u32 u32
  | Init_callback wlan_mode
  | Ping_callback "u8 list"

text \<open>
  \<open>responses\<close> is the memory that the response pointers of the pool stand for: the arguments, and the
  data. \<open>stream\<close> is what the chip has still to send, \<open>sent\<close> what was sent to it, \<open>spawns\<close> the calls that
  wait for the task of the driver.
\<close>

record sl_cb =
  Pool :: sl_pool
  TxPoolCnt :: u8
  TxSyncObj :: bool
  SocketTXFailure :: u8
  SocketNonBlocking :: u8
  TxSeqNum :: u8
  RxIrqCnt :: u8
  RxDoneCnt :: u8
  IsCmdRespWaited :: bool
  CmdSyncObj :: bool
  pCmdCtrl :: "cmd_ctrl option"
  pTxRxDescBuff :: "u8 list"
  pCmdExt :: "cmd_ext option"
  RxMsgClass :: msg_class
  AsyncEvtHandler :: "handler option"
  ActionIndex :: nat
  pAsyncBuf :: "u8 list option"
  RestartRequired :: bool
  device_started :: bool
  init_callback :: bool
  ping_callback :: bool
  GlobalLock :: bool
  GlobalDeleted :: bool
  ProtectionLock :: bool
  responses :: "nat \<Rightarrow> u8 list \<times> u8 list"
  stream :: "u8 list"
  sent :: "u8 list"
  handled :: "handler_call list"
  spawns :: nat

definition overlay :: "u8 list \<Rightarrow> u8 list \<Rightarrow> u8 list option" where
  "overlay d m = (if length d \<le> length m then Some (d @ drop (length d) m) else None)"

definition signal_obj :: "nat \<Rightarrow> sl_cb \<Rightarrow> sl_cb" where
  "signal_obj i cb = cb\<lparr>Pool := set_obj i (\<lambda>b. b\<lparr>SyncObj := True\<rparr>) (Pool cb)\<rparr>"

definition call :: "handler_call \<Rightarrow> sl_cb \<Rightarrow> sl_cb" where
  "call c cb = cb\<lparr>handled := handled cb @ [c]\<rparr>"

definition unlock_global :: "sl_cb \<Rightarrow> sl_cb option" where
  "unlock_global cb = (if GlobalDeleted cb then None else Some (cb\<lparr>GlobalLock := False\<rparr>))"

definition spawn_read :: "sl_cb \<Rightarrow> sl_cb" where
  "spawn_read cb = cb\<lparr>spawns := spawns cb + 1\<rparr>"

definition pending_rx :: "sl_cb \<Rightarrow> bool" where
  "pending_rx cb \<longleftrightarrow> RxIrqCnt cb \<noteq> RxDoneCnt cb"

text \<open>An interrupt of the chip, which then sends \<open>bs\<close>; masking it is an empty function of the board.\<close>

definition SlDrvRxIrqHandler :: "u8 list \<Rightarrow> sl_cb \<Rightarrow> sl_cb" where
  "SlDrvRxIrqHandler bs cb =
     (let cb1 = cb\<lparr>stream := stream cb @ bs, RxIrqCnt := RxIrqCnt cb + 1\<rparr>
      in if IsCmdRespWaited cb1 then cb1\<lparr>CmdSyncObj := True\<rparr> else spawn_read cb1)"

text \<open>The error state: all waits are ended, and the global lock is deleted.\<close>

fun signal_all :: "nat \<Rightarrow> sl_cb \<Rightarrow> sl_cb" where
  "signal_all 0 cb = cb"
| "signal_all (Suc n) cb = signal_obj n (signal_all n cb)"

definition SlDriverHandleError :: "nat \<Rightarrow> u32 \<Rightarrow> u32 \<Rightarrow> sl_cb \<Rightarrow> sl_cb" where
  "SlDriverHandleError e info1 info2 cb =
     (if RestartRequired cb then cb
      else call (General_event e info1 info2)
        (signal_all MAX_CONCURRENT_ACTIONS (cb\<lparr>RestartRequired := True, GlobalDeleted := True\<rparr>)))"


subsection \<open>Reading a message\<close>

text \<open>Flow control: the message that the start is complete has no valid values.\<close>

definition flow_control :: "u16 \<Rightarrow> u8 list \<Rightarrow> sl_cb \<Rightarrow> sl_cb" where
  "flow_control opc h cb =
     (if opc \<noteq> 0x0008 then
        (let cb1 = cb\<lparr>TxPoolCnt := h ! 4, SocketNonBlocking := h ! 7, SocketTXFailure := h ! 6\<rparr>
         in if TxPoolCnt cb1 > 1 then cb1\<lparr>TxSyncObj := True\<rparr> else cb1)
      else cb)"

definition event_socket :: "u16 \<Rightarrow> u8 list \<Rightarrow> nat" where
  "event_socket opc buf = (if opc \<in> {0x1003, 0x1203, 0x1006} then unat (buf ! 10 AND 0x0F) else SL_MAX_SOCKETS)"

text \<open>An event: its payload behind the header in the cleared buffer, and the action it is an answer to.\<close>

definition read_event :: "u16 \<Rightarrow> u16 \<Rightarrow> u8 list \<Rightarrow> sl_cb \<Rightarrow> (int \<times> sl_cb) option" where
  "read_event opc len h cb =
     (case async_payload len (stream cb) of
        None \<Rightarrow> Some (-4, cb)
      | Some (d, rx) \<Rightarrow>
          (let buf = h @ d @ replicate (160 - length d) 0;
               cb1 = cb\<lparr>pAsyncBuf := Some buf, stream := rx\<rparr>
           in case SlFindAndSetActiveObj opc (event_socket opc buf) (Pool cb1) of
                Some (Found i) \<Rightarrow>
                  Some (0, cb1\<lparr>AsyncEvtHandler := Some (Action_handler (ActionID (ObjPool (Pool cb1) i))), ActionIndex := i\<rparr>)
              | Some Not_found \<Rightarrow> Some (0, cb1)
              | _ \<Rightarrow> None))"

text \<open>
  Data for a task that receives: both parts go to the places it has given. The lock is kept when
  nobody waits for the data, and when a read fails.
\<close>

definition take_data :: "u16 \<Rightarrow> sl_cb \<Rightarrow> (int \<times> sl_cb) option" where
  "take_data opc cb =
     (case if_read 4 (stream cb) of
        None \<Rightarrow> Some (-4, cb)
      | Some (args, rx) \<Rightarrow>
          (let sd = unat (args ! 2 AND 0x0F)
           in if \<not> sd < SL_MAX_SOCKETS then Some (-7, cb\<lparr>stream := rx\<rparr>)
              else (let cb1 = cb\<lparr>stream := rx, ProtectionLock := True\<rparr>
                    in case SlFindAndSetActiveObj opc sd (Pool cb1) of
                         Some (Found i) \<Rightarrow>
                           (case pRespArgs (ObjPool (Pool cb1) i) of
                              None \<Rightarrow> None
                            | Some r \<Rightarrow>
                                (case recv_data opc args rx of
                                   None \<Rightarrow> Some (-4, cb1\<lparr>ActionIndex := i\<rparr>)
                                 | Some (a, d, rx1) \<Rightarrow>
                                     (case (overlay a (fst (responses cb r)), overlay d (snd (responses cb r))) of
                                        (Some a1, Some d1) \<Rightarrow>
                                          Some (0, (signal_obj i (cb1\<lparr>ActionIndex := i, stream := rx1,
                                            responses := (responses cb)(r := (a1, d1))\<rparr>))\<lparr>ProtectionLock := False\<rparr>)
                                      | _ \<Rightarrow> None)))
                       | Some Not_found \<Rightarrow> Some (-3, cb1)
                       | _ \<Rightarrow> None)))"

definition read_response :: "u16 \<Rightarrow> sl_cb \<Rightarrow> (int \<times> sl_cb) option" where
  "read_response len cb =
     (case pCmdCtrl cb of
        None \<Rightarrow> None
      | Some ctrl \<Rightarrow>
          (case cmd_response len ctrl (pCmdExt cb) (stream cb) of
             None \<Rightarrow> Some (-4, cb)
           | Some (desc, ext, rx) \<Rightarrow>
               (case overlay desc (pTxRxDescBuff cb) of
                  None \<Rightarrow> None
                | Some d \<Rightarrow> Some (0, cb\<lparr>pTxRxDescBuff := d, pCmdExt := ext, stream := rx\<rparr>))))"

text \<open>
  The whole message. When the header cannot be read the function goes on with a header that was
  not written, as it only looks for the end of a time limit, which is not configured.
\<close>

definition SlDrvMsgRead :: "(u8 list \<Rightarrow> bool) \<Rightarrow> sl_cb \<Rightarrow> (int \<times> sl_cb) option" where
  "SlDrvMsgRead ok cb =
     (case SlDrvRxHdrRead ok (TxSeqNum cb) (stream cb) of
        None \<Rightarrow> None
      | Some (h, seq, rx) \<Rightarrow>
          (let opc = get16 h; len = get16 (drop 2 h) - 4;
               cb1 = flow_control opc h (cb\<lparr>pAsyncBuf := None, AsyncEvtHandler := None, TxSeqNum := seq, stream := rx, sent := sent cb @ H2N_CNYS\<rparr>);
               cls = SlDrvClassifyRxMsg opc;
               cb2 = cb1\<lparr>RxMsgClass := fst cls, AsyncEvtHandler := snd cls\<rparr>
           in case fst cls of
                ASYNC_EVT_CLASS \<Rightarrow> read_event opc len h cb2
              | RECV_RESP_CLASS \<Rightarrow> take_data opc cb2
              | CMD_RESP_CLASS \<Rightarrow> read_response len cb2
              | DUMMY_MSG_CLASS \<Rightarrow> Some (0, cb2)))"


subsection \<open>The handlers of events\<close>

text \<open>The numbers of the events for the application, by the code of the message.\<close>

definition OpcodeTranslateTable :: "(u16 \<times> u8) list" where
  "OpcodeTranslateTable =
     [(0x08B2, 3), (0x08B3, 4), (0x082E, 5), (0x082F, 6), (0x0830, 7), (0x0832, 8), (0x0831, 9), (0x0880, 1),
      (0x0881, 2), (0x1825, 1), (0x1A25, 2), (0x182C, 3), (0x182D, 4), (0x100E, 1), (0x100F, 2)]"

text \<open>The answer goes to the place the action has given, and its object is signalled.\<close>

definition answer_action :: "u8 list \<Rightarrow> sl_cb \<Rightarrow> sl_cb option" where
  "answer_action d cb =
     (case pRespArgs (ObjPool (Pool cb) (ActionIndex cb)) of
        None \<Rightarrow> None
      | Some r \<Rightarrow>
          map_option (\<lambda>a. signal_obj (ActionIndex cb) (cb\<lparr>responses := (responses cb)(r := (a, snd (responses cb r)))\<rparr>))
            (overlay d (fst (responses cb r))))"

definition sl_HandleAsync_Connect :: "u8 list \<Rightarrow> sl_cb \<Rightarrow> sl_cb option" where
  "sl_HandleAsync_Connect args cb =
     (if args ! 2 AND 0x0F \<le> 8 then answer_action (take 3 args) cb else Some (cb\<lparr>ProtectionLock := True\<rparr>))"

definition sl_HandleAsync_Accept :: "u8 list \<Rightarrow> sl_cb \<Rightarrow> sl_cb option" where
  "sl_HandleAsync_Accept args cb =
     (if args ! 2 AND 0x0F \<le> 8 then answer_action (take 12 args) cb else Some (cb\<lparr>ProtectionLock := True\<rparr>))"

definition sl_HandleAsync_Select :: "u8 list \<Rightarrow> sl_cb \<Rightarrow> sl_cb option" where
  "sl_HandleAsync_Select args cb = answer_action (take 8 args) cb"

definition sl_HandleAsync_DnsGetHostByName :: "u8 list \<Rightarrow> sl_cb \<Rightarrow> sl_cb option" where
  "sl_HandleAsync_DnsGetHostByName args cb =
     answer_action (take (if AdditionalData (ObjPool (Pool cb) (ActionIndex cb)) AND 0x80 \<noteq> 0 then 20 else 8) args) cb"

text \<open>
  A service by its name: the response has pointers to the results, here the arguments (status, address,
  port, length of the text) and the data (the text). Nothing is done for IPv6.
\<close>

definition sl_HandleAsync_DnsGetHostByService :: "u8 list \<Rightarrow> sl_cb \<Rightarrow> sl_cb option" where
  "sl_HandleAsync_DnsGetHostByService args cb =
     (if AdditionalData (ObjPool (Pool cb) (ActionIndex cb)) AND 0x80 \<noteq> 0 then Some cb
      else (case pRespArgs (ObjPool (Pool cb) (ActionIndex cb)) of
              None \<Rightarrow> None
            | Some r \<Rightarrow>
                (let (a, txt) = responses cb r; text_len = get16 (drop 2 args); user_len = get16 (drop 10 a);
                     n = (if text_len \<le> user_len then text_len else user_len);
                     a1 = take 2 args @ take 4 (drop 8 args) @ take 4 (drop 4 args) @ le16 n
                 in if length a < 12 \<or> length args < 12 + unat n then None
                    else map_option (\<lambda>t. signal_obj (ActionIndex cb) (cb\<lparr>responses := (responses cb)(r := (a1, t))\<rparr>))
                           (overlay (take (unat n) (drop 12 args)) txt))))"

definition sl_HandleAsync_PingResponse :: "u8 list \<Rightarrow> sl_cb \<Rightarrow> sl_cb option" where
  "sl_HandleAsync_PingResponse args cb =
     (if ping_callback cb then Some (call (Ping_callback (take 20 args)) cb)
      else if pRespArgs (ObjPool (Pool cb) (ActionIndex cb)) = None then Some cb
      else answer_action (take 20 args) cb)"

definition sl_HandleAsync_Stop :: "u8 list \<Rightarrow> sl_cb \<Rightarrow> sl_cb option" where
  "sl_HandleAsync_Stop args cb = answer_action (take 4 args) cb"

definition release_action :: "sl_cb \<Rightarrow> sl_cb option" where
  "release_action cb = map_option (\<lambda>p. cb\<lparr>Pool := p\<rparr>) (SlDrvReleasePoolObj (ActionIndex cb) (Pool cb))"

definition sl_HandleAsync_InitComplete :: "u8 list \<Rightarrow> sl_cb \<Rightarrow> sl_cb option" where
  "sl_HandleAsync_InitComplete args cb =
     (if init_callback cb then
        release_action ((call (Init_callback (sl_GetStartResponseConvert (le32 args))) cb)\<lparr>device_started := True\<rparr>)
      else answer_action (take 4 args) cb)"

definition SlDrvDeviceEventHandler :: "u8 list \<Rightarrow> bool \<Rightarrow> sl_cb \<Rightarrow> sl_cb option" where
  "SlDrvDeviceEventHandler buf in_cmd cb =
     (let opc = get16 buf; args = drop 8 buf
      in if opc = 0x0008 then sl_HandleAsync_InitComplete args cb
         else if opc = 0x0073 then sl_HandleAsync_Stop args cb
         else if opc = 0x000C then
           map_option (SlDriverHandleError 2 (le32 args) (le32 (drop 4 args))) (if in_cmd then unlock_global cb else Some cb)
         else if opc = 0x0078 then Some (call (General_event 1 (ucast (args ! 0)) (ucast (args ! 1))) cb)
         else Some cb)"

text \<open>
  What a call does in the driver. The events of the application's handlers end there. A handler of an
  action takes its argument for the buffer, so it reads behind the structure of a device event.
\<close>

fun run_call :: "handler_call \<Rightarrow> sl_cb \<Rightarrow> sl_cb option" where
  "run_call (Raw_event (Action_handler a) buf) cb =
     (let args = drop 8 buf
      in if a = ACCEPT_ID then sl_HandleAsync_Accept args cb
         else if a = CONNECT_ID then sl_HandleAsync_Connect args cb
         else if a = SELECT_ID then sl_HandleAsync_Select args cb
         else if a = GETHOSYBYNAME_ID then sl_HandleAsync_DnsGetHostByName args cb
         else if a = GETHOSYBYSERVICE_ID then sl_HandleAsync_DnsGetHostByService args cb
         else if a = PING_ID then sl_HandleAsync_PingResponse args cb
         else if a = START_STOP_ID then sl_HandleAsync_Stop args cb
         else None)"
| "run_call (Raw_event Ping_response buf) cb = sl_HandleAsync_PingResponse (drop 8 buf) cb"
| "run_call (Device_event Device_events buf in_cmd) cb = SlDrvDeviceEventHandler buf in_cmd cb"
| "run_call (Device_event _ buf in_cmd) cb = None"
| "run_call _ cb = Some cb"

definition SlAsyncEventGenericHandler :: "bool \<Rightarrow> sl_cb \<Rightarrow> sl_cb option" where
  "SlAsyncEventGenericHandler in_cmd cb =
     (case AsyncEvtHandler cb of
        None \<Rightarrow> Some cb
      | Some h \<Rightarrow>
          (case pAsyncBuf cb of
             None \<Rightarrow> None
           | Some buf \<Rightarrow>
               (case map_of OpcodeTranslateTable (get16 buf) of
                  None \<Rightarrow>
                    (let c = (if get16 buf AND 0x7800 = 0 then Device_event h buf in_cmd else Raw_event h buf)
                     in run_call c (call c cb))
                | Some e \<Rightarrow>
                    (let arg = [e, 0, 0, 0] @ drop 8 buf; c = User_event h arg
                     in run_call c (call c (cb\<lparr>pAsyncBuf := Some (take 4 buf @ arg)\<rparr>))))))"


subsection \<open>A command and its response\<close>

text \<open>
  The loop until the response has been read, with the interrupts of the chip (\<open>Some\<close> of what it sends)
  and the ends of the time limit (\<open>None\<close>) that the waits see. The result is absent while the loop still waits.
\<close>

partial_function (option) SlDrvMsgReadCmdCtx ::
  "(u8 list \<Rightarrow> bool) \<Rightarrow> u16 \<Rightarrow> u8 list option list \<Rightarrow> sl_cb \<Rightarrow> (int option \<times> u8 list option list \<times> sl_cb) option" where
  "SlDrvMsgReadCmdCtx ok opc inp cb =
     (if \<not> IsCmdRespWaited cb then
        (case unlock_global cb of
           None \<Rightarrow> None
         | Some cb1 \<Rightarrow> Some (Some 0, inp, if pending_rx cb1 then spawn_read cb1 else cb1))
      else if pending_rx cb then
        (case SlDrvMsgRead ok cb of
           None \<Rightarrow> None
         | Some (r, cb1) \<Rightarrow>
             if r \<noteq> 0 then (case unlock_global cb1 of None \<Rightarrow> None | Some cb2 \<Rightarrow> Some (Some (-100), inp, cb2))
             else (let cb2 = cb1\<lparr>RxDoneCnt := RxDoneCnt cb1 + 1\<rparr>
                   in case RxMsgClass cb2 of
                        CMD_RESP_CLASS \<Rightarrow> SlDrvMsgReadCmdCtx ok opc inp (cb2\<lparr>IsCmdRespWaited := False, CmdSyncObj := False\<rparr>)
                      | ASYNC_EVT_CLASS \<Rightarrow>
                          (case SlAsyncEventGenericHandler True cb2 of
                             None \<Rightarrow> None
                           | Some cb3 \<Rightarrow> SlDrvMsgReadCmdCtx ok opc inp (cb3\<lparr>pAsyncBuf := None\<rparr>))
                      | _ \<Rightarrow> SlDrvMsgReadCmdCtx ok opc inp cb2))
      else if CmdSyncObj cb then SlDrvMsgReadCmdCtx ok opc inp (cb\<lparr>CmdSyncObj := False\<rparr>)
      else (case inp of
              [] \<Rightarrow> Some (None, [], cb)
            | Some bs # inp1 \<Rightarrow> SlDrvMsgReadCmdCtx ok opc inp1 ((SlDrvRxIrqHandler bs cb)\<lparr>CmdSyncObj := False\<rparr>)
            | None # inp1 \<Rightarrow>
                (case unlock_global (cb\<lparr>IsCmdRespWaited := False\<rparr>) of
                   None \<Rightarrow> None
                 | Some cb1 \<Rightarrow>
                     Some (Some (-100), inp1,
                       SlDriverHandleError 4 (ucast opc) (if opc AND 0x2000 \<noteq> 0 then 65535 else 10000) cb1))))"

text \<open>The parameters of the command are kept in the control block while it is sent.\<close>

definition msg_write :: "(u8 list \<Rightarrow> bool) \<Rightarrow> cmd_ctrl \<Rightarrow> u8 list \<Rightarrow> cmd_ext option \<Rightarrow> sl_cb \<Rightarrow> (int \<times> sl_cb) option" where
  "msg_write ok ctrl desc ext cb =
     map_option (\<lambda>(r, w). (r, cb\<lparr>pCmdCtrl := Some ctrl, pTxRxDescBuff := desc, pCmdExt := rx_sign ext, sent := sent cb @ w\<rparr>))
       (SlDrvMsgWrite ok ctrl ext (Some desc))"

definition SlDrvCmdOp ::
  "(u8 list \<Rightarrow> bool) \<Rightarrow> cmd_ctrl \<Rightarrow> u8 list \<Rightarrow> cmd_ext option \<Rightarrow> u8 list option list \<Rightarrow> sl_cb \<Rightarrow> (int option \<times> u8 list option list \<times> sl_cb) option" where
  "SlDrvCmdOp ok ctrl desc ext inp cb =
     (if RestartRequired cb then Some (Some (-100), inp, cb)
      else (case msg_write ok ctrl desc ext (cb\<lparr>GlobalLock := True, IsCmdRespWaited := True\<rparr>) of
              None \<Rightarrow> None
            | Some (r, cb1) \<Rightarrow>
                if r = 0 then SlDrvMsgReadCmdCtx ok (Opcode ctrl) inp cb1
                else map_option (\<lambda>cb2. (Some r, inp, cb2)) (unlock_global cb1)))"

text \<open>A command that is sent while another one waits, without a response: the parameters of that one come back.\<close>

definition SlDrvCmdSend :: "(u8 list \<Rightarrow> bool) \<Rightarrow> cmd_ctrl \<Rightarrow> u8 list \<Rightarrow> cmd_ext option \<Rightarrow> sl_cb \<Rightarrow> (int \<times> sl_cb) option" where
  "SlDrvCmdSend ok ctrl desc ext cb =
     map_option (\<lambda>(r, cb1). (r, cb1\<lparr>IsCmdRespWaited := IsCmdRespWaited cb, pCmdCtrl := pCmdCtrl cb,
         pTxRxDescBuff := pTxRxDescBuff cb, pCmdExt := pCmdExt cb\<rparr>))
       (msg_write ok ctrl desc ext (cb\<lparr>IsCmdRespWaited := False\<rparr>))"

text \<open>One call of the reading function in the task of the driver.\<close>

definition SlDrvMsgReadSpawnCtx :: "(u8 list \<Rightarrow> bool) \<Rightarrow> sl_cb \<Rightarrow> (int \<times> sl_cb) option" where
  "SlDrvMsgReadSpawnCtx ok cb =
     (if RestartRequired cb then Some (-100, cb)
      else (let cb0 = cb\<lparr>GlobalLock := True\<rparr>
            in if \<not> pending_rx cb0 then map_option (Pair 0) (unlock_global cb0)
               else (case SlDrvMsgRead ok cb0 of
                       None \<Rightarrow> None
                     | Some (r, cb1) \<Rightarrow>
                         if r \<noteq> 0 then map_option (Pair (-100)) (unlock_global cb1)
                         else (let cb2 = cb1\<lparr>RxDoneCnt := RxDoneCnt cb1 + 1\<rparr>
                               in case RxMsgClass cb2 of
                                    ASYNC_EVT_CLASS \<Rightarrow>
                                      (case SlAsyncEventGenericHandler False cb2 of
                                         None \<Rightarrow> None
                                       | Some cb3 \<Rightarrow> map_option (Pair 0) (unlock_global (cb3\<lparr>pAsyncBuf := None\<rparr>)))
                                  | CMD_RESP_CLASS \<Rightarrow> Some (-7, cb2)
                                  | _ \<Rightarrow> map_option (Pair 0) (unlock_global cb2)))))"


subsection \<open>Sending data\<close>

text \<open>
  Both tests of the count in a pass see the same value. The flow control sees other values after each wait, as messages of the chip are read in the
  meantime: \<open>obs\<close> gives what is seen after taking the lock of the senders, after each wait for a buffer, and
  after taking the global lock. The result, whether that lock and the global one are still held,
  and what was sent.
\<close>

record flow_obs =
  o_count :: u8
  o_nonblocking :: u8
  o_failure :: u8
  o_restart :: bool

record send_result =
  ret :: int
  tx_held :: bool
  global_held :: bool
  written :: "u8 list option"
  count_left :: u8

definition stop_send :: "int \<Rightarrow> bool \<Rightarrow> bool \<Rightarrow> flow_obs \<Rightarrow> send_result" where
  "stop_send r tx gl ob = \<lparr>ret = r, tx_held = tx, global_held = gl, written = None, count_left = o_count ob\<rparr>"

definition socket_flag :: "u8 \<Rightarrow> nat \<Rightarrow> bool" where
  "socket_flag flags sd = bit flags (unat ((of_nat sd :: u8) AND 0x0F))"

definition send_locked :: "(u8 list \<Rightarrow> bool) \<Rightarrow> u8 \<Rightarrow> cmd_ctrl \<Rightarrow> u8 list \<Rightarrow> cmd_ext option \<Rightarrow> flow_obs \<Rightarrow> send_result option" where
  "send_locked ok least ctrl desc ext ob =
     (if o_restart ob then Some (stop_send (-100) True False ob)
      else if \<not> o_count ob > least then Some (stop_send (-7) True True ob)
      else map_option (\<lambda>(r, w). \<lparr>ret = r, tx_held = False, global_held = False, written = Some w, count_left = o_count ob - 1\<rparr>)
             (SlDrvMsgWrite ok ctrl ext (Some desc)))"

fun SlDrvDataWriteOp :: "(u8 list \<Rightarrow> bool) \<Rightarrow> nat \<Rightarrow> cmd_ctrl \<Rightarrow> u8 list \<Rightarrow> cmd_ext option \<Rightarrow> flow_obs list \<Rightarrow> send_result option" where
  "SlDrvDataWriteOp ok sd ctrl desc ext [] = None"
| "SlDrvDataWriteOp ok sd ctrl desc ext (ob # obs) =
     (if socket_flag (o_failure ob) sd then Some (stop_send (-1) False False ob)
      else if o_count ob \<le> 2 then
        (if socket_flag (o_nonblocking ob) sd then Some (stop_send (-11) False False ob)
         else (case obs of
                 [] \<Rightarrow> None
               | ob1 # obs1 \<Rightarrow>
                   if o_restart ob1 then Some (stop_send (-100) True False ob1)
                   else if o_count ob1 > 2 then
                     (case obs1 of [] \<Rightarrow> None | ob2 # _ \<Rightarrow> send_locked ok 2 ctrl desc ext ob2)
                   else SlDrvDataWriteOp ok sd ctrl desc ext obs1))
      else (case obs of [] \<Rightarrow> None | ob1 # _ \<Rightarrow> send_locked ok 2 ctrl desc ext ob1))"

text \<open>
  Receiving: the checks of the arguments, the request with its flow control, and what happens after the
  wait for the data, on an object that \<open>wait_begin\<close> or \<open>wait_resume\<close> has made active for \<open>RECV_ID\<close>.
\<close>

definition data_read_check :: "bool \<Rightarrow> nat \<Rightarrow> cmd_ext \<Rightarrow> int" where
  "data_read_check has_buffer sd ext =
     (if \<not> has_buffer then -7 else if RxPayloadLen ext = 0 then -7
      else if SL_MAX_SOCKETS \<le> unat ((of_nat sd :: u8) AND 0x0F) then -9 else 0)"

fun data_read_request :: "(u8 list \<Rightarrow> bool) \<Rightarrow> cmd_ctrl \<Rightarrow> u8 list \<Rightarrow> cmd_ext option \<Rightarrow> flow_obs list \<Rightarrow> send_result option" where
  "data_read_request ok ctrl desc ext (ob # obs) =
     (if o_count ob \<le> 1 then
        (case obs of
           ob1 # ob2 # _ \<Rightarrow> if o_restart ob1 then Some (stop_send (-100) True False ob1) else send_locked ok 1 ctrl desc ext ob2
         | _ \<Rightarrow> None)
      else (case obs of [] \<Rightarrow> None | ob1 # _ \<Rightarrow> send_locked ok 1 ctrl desc ext ob1))"
| "data_read_request ok ctrl desc ext [] = None"

definition data_read_end :: "int \<Rightarrow> bool \<Rightarrow> nat \<Rightarrow> sl_pool \<Rightarrow> (int \<times> sl_pool) option" where
  "data_read_end r restart i p =
     (let p1 = (if r = 0 then set_obj i (\<lambda>b. b\<lparr>SyncObj := False\<rparr>) p else p)
      in if r = 0 \<and> restart then Some (-100, p1) else map_option (Pair r) (SlDrvReleasePoolObj i p1))"

end
