(* ===== verification/SlDriver_Correct.thy ===== *)
theory SlDriver_Correct
  imports SlDriver
begin

text \<open>A command against the messages of a chip that follows the protocol.\<close>

subsection \<open>The messages of the chip\<close>

record chip_msg =
  m_opc :: u16
  m_spec :: "u8 list"
  m_body :: "u8 list"

definition msg_ok :: "chip_msg \<Rightarrow> bool" where
  "msg_ok m \<longleftrightarrow> m_opc m < 0x4000 \<and> length (m_spec m) = 4 \<and> length (m_body m) mod 4 = 0 \<and> length (m_body m) + 4 < 65536"

definition sync_bytes :: "u8 \<Rightarrow> u8 list" where
  "sync_bytes seq = [0xBC OR (seq AND 3), 0xDC, 0xCD, 0xAB]"

definition msg_header :: "chip_msg \<Rightarrow> u8 list" where
  "msg_header m = le16 (m_opc m) @ le16 (of_nat (length (m_body m) + 4)) @ m_spec m"

definition chip_send :: "u8 \<Rightarrow> chip_msg \<Rightarrow> u8 list" where
  "chip_send seq m = sync_bytes seq @ msg_header m @ m_body m"

lemma header_parts:
  assumes "msg_ok m"
  shows "get16 (msg_header m @ b) = m_opc m" and "get16 (drop 2 (msg_header m)) - 4 = of_nat (length (m_body m))"
    and "length (msg_header m) = 8" and "msg_header m ! 4 = m_spec m ! 0" and "msg_header m ! 6 = m_spec m ! 2"
    and "msg_header m ! 7 = m_spec m ! 3"
proof -
  have d: "drop 2 (msg_header m) = le16 (of_nat (length (m_body m) + 4)) @ m_spec m" by (simp add: msg_header_def le16_def)
  show "get16 (drop 2 (msg_header m)) - 4 = of_nat (length (m_body m))" unfolding d get16_le16 by simp
  show "get16 (msg_header m @ b) = m_opc m" by (simp add: msg_header_def get16_le16)
qed (use assms in \<open>simp_all add: msg_header_def le16_def msg_ok_def nth_append\<close>)

lemma two_bits: "seq AND 3 \<in> {0, 1, 2, 3 :: u8}"
proof -
  define k where "k = unat (seq AND 3)"
  have "k \<le> unat (3 :: u8)" unfolding k_def word_le_nat_alt [symmetric] by (rule word_and_le1)
  then have "k = 0 \<or> k = 1 \<or> k = 2 \<or> k = 3" by auto
  moreover have "seq AND 3 = of_nat k" by (simp add: k_def)
  ultimately show ?thesis by (elim disjE) simp_all
qed

lemma sync_bytes_match: "sync_match seq (sync_bytes seq)"
proof -
  have "ucast (seq AND 3) = (ucast seq :: u32) AND ucast (3 :: u8)" by (rule unsigned_and_eq)
  then have u: "(ucast seq :: u32) AND 3 = ucast (seq AND 3)" by simp
  show ?thesis unfolding sync_match_def u sync_bytes_def using two_bits [of seq]
    by (elim insertE emptyE) (simp_all add: le32_def N2H_SYNC_SPIM_def)
qed

lemma le32_bit14: "bit (le32 (a # b # w)) 14 \<longleftrightarrow> bit b 6" if "length w = 2"
  using that by (auto simp: le32_def bit_simps nth_Cons' length_Suc_conv numeral_2_eq_2 dest: bit_imp_le_length)

lemma opcode_no_match:
  assumes "opc < (0x4000 :: u16)" and "2 \<le> length b"
  shows "\<not> sync_match seq (take 4 (le16 opc @ b))"
proof
  let ?w = "take 4 (le16 opc @ b)" and ?q = "(ucast seq :: u32) AND 3"
  have "unat opc div 2 ^ 14 = 0" using assms(1) by (simp add: word_less_nat_alt)
  then have "\<not> bit (unat opc) 14" by (simp add: bit_iff_odd)
  then have "\<not> bit opc 14" by (simp add: bit_unsigned_iff)
  moreover have "?w = ucast opc # ucast (drop_bit 8 opc) # take 2 b" by (simp add: le16_def)
  ultimately have n: "\<not> bit (le32 ?w) 14" using assms(2) by (simp add: le32_bit14 bit_simps)
  assume "sync_match seq ?w"
  then have "le32 ?w AND 0x7FFF7F7F = (N2H_SYNC_SPIM AND 0xFFFFFFF8) OR 4 OR ?q \<or> le32 ?w AND 0x7FFF7F7F = N2H_SYNC_SPIM"
    by (auto simp: sync_match_def Let_def split: if_splits)
  moreover have "bit ((N2H_SYNC_SPIM AND 0xFFFFFFF8) OR 4 OR ?q) 14" "bit N2H_SYNC_SPIM 14"
    by (simp_all add: N2H_SYNC_SPIM_def bit_or_iff)
  ultimately have "bit (le32 ?w AND 0x7FFF7F7F) 14" by metis
  then show False using n by (simp add: bit_and_iff)
qed

text \<open>The header of a message is read behind its pattern, and the number moves on.\<close>

lemma header_sent:
  assumes "msg_ok m" and "ok H2N_CNYS"
  shows "SlDrvRxHdrRead ok seq (chip_send seq m @ rest) = Some (msg_header m, seq + 1, m_body m @ rest)"
proof -
  have l: "length (msg_header m) = 8" using header_parts(3) [OF assms(1)] .
  have t: "take 4 (msg_header m) = le16 (m_opc m) @ le16 (of_nat (length (m_body m) + 4))"
    by (simp add: msg_header_def le16_def)
  have nm: "\<not> sync_match seq (take 4 (msg_header m))"
    using opcode_no_match [of "m_opc m" "le16 (of_nat (length (m_body m) + 4))" seq] assms(1) unfolding t
    by (simp add: msg_ok_def le16_def)
  then have ne: "take 4 (msg_header m @ m_body m @ rest) \<noteq> sync_bytes seq" using sync_bytes_match [of seq] l by auto
  have "first_sync seq (sync_bytes seq @ msg_header m @ m_body m @ rest) 0"
    using sync_bytes_match [of seq] by (simp add: first_sync_def sync_bytes_def)
  from header_read [where n = 0 and doubles = "[]" and body = "m_body m @ rest", OF _ refl _ ne this _ _ l nm, of ok] l assms(2)
  show ?thesis by (simp add: chip_send_def sync_bytes_def)
qed


subsection \<open>Events while a command waits\<close>

lemma async_payload_take:
  assumes "n mod 4 = 0" and "n < 65536" and "n \<le> length rx"
  shows "async_payload (of_nat n) rx = Some (take (min n 160) rx, drop n rx)"
proof -
  have u: "unat (of_nat n :: u16) = n" using assms(2) by (simp add: unat_of_nat)
  have a: "align4 n = n" using assms(1) by (simp add: align4_eq)
  have z: "(0 < (of_nat n :: u16)) = (0 < n)" by (simp add: word_less_nat_alt u)
  show ?thesis
  proof (cases "160 < n")
    case True
    have "(n - 160) mod 4 = 0" using assms(1) True by presburger
    then show ?thesis using assms True a u z by (simp add: async_payload_def Let_def if_read_def dump_rest_drop)
  next
    case False
    then show ?thesis using assms a u z by (auto simp: async_payload_def Let_def if_read_def)
  qed
qed

text \<open>An event that is none of the driver's own: its handler is the application's, or there is none.\<close>

definition plain_event :: "u16 \<Rightarrow> bool" where
  "plain_event opc \<longleftrightarrow> fst (SlDrvClassifyRxMsg opc) = ASYNC_EVT_CLASS \<and> snd (SlDrvClassifyRxMsg opc) \<noteq> Some Ping_response \<and> opc AND 0x7800 \<noteq> 0"

definition event_buffer :: "chip_msg \<Rightarrow> u8 list" where
  "event_buffer m = msg_header m @ take 160 (m_body m) @ replicate (160 - min (length (m_body m)) 160) 0"

definition event_calls :: "chip_msg \<Rightarrow> handler_call list" where
  "event_calls m =
     (case snd (SlDrvClassifyRxMsg (m_opc m)) of
        None \<Rightarrow> []
      | Some h \<Rightarrow> (case map_of OpcodeTranslateTable (m_opc m) of
                     None \<Rightarrow> [Raw_event h (event_buffer m)]
                   | Some e \<Rightarrow> [User_event h ([e, 0, 0, 0] @ drop 8 (event_buffer m))]))"

definition unclaimed :: "sl_pool \<Rightarrow> chip_msg \<Rightarrow> bool" where
  "unclaimed p m \<longleftrightarrow> SlFindAndSetActiveObj (m_opc m) (event_socket (m_opc m) (event_buffer m)) p = Some Not_found"

text \<open>What stays as it is while events are read.\<close>

definition same_cmd :: "sl_cb \<Rightarrow> sl_cb \<Rightarrow> bool" where
  "same_cmd cb cb1 \<longleftrightarrow> Pool cb1 = Pool cb \<and> pCmdCtrl cb1 = pCmdCtrl cb \<and> pTxRxDescBuff cb1 = pTxRxDescBuff cb \<and>
     pCmdExt cb1 = pCmdExt cb \<and> responses cb1 = responses cb \<and> spawns cb1 = spawns cb \<and> GlobalLock cb1 = GlobalLock cb \<and>
     GlobalDeleted cb1 = GlobalDeleted cb \<and> ProtectionLock cb1 = ProtectionLock cb \<and> RestartRequired cb1 = RestartRequired cb"

lemma same_cmd_trans: "same_cmd a b \<Longrightarrow> same_cmd b c \<Longrightarrow> same_cmd a c"
  by (simp add: same_cmd_def)

lemma flow_control_keeps:
  "same_cmd cb (flow_control opc h cb)" "IsCmdRespWaited (flow_control opc h cb) = IsCmdRespWaited cb"
  "RxIrqCnt (flow_control opc h cb) = RxIrqCnt cb" "RxDoneCnt (flow_control opc h cb) = RxDoneCnt cb"
  "CmdSyncObj (flow_control opc h cb) = CmdSyncObj cb" "stream (flow_control opc h cb) = stream cb"
  "TxSeqNum (flow_control opc h cb) = TxSeqNum cb" "handled (flow_control opc h cb) = handled cb" "sent (flow_control opc h cb) = sent cb"
  "opc \<noteq> 8 \<Longrightarrow> TxPoolCnt (flow_control opc h cb) = h ! 4"
  by (simp_all add: flow_control_def same_cmd_def Let_def)

lemma SlDrvMsgRead_event:
  assumes "msg_ok m" and "ok H2N_CNYS" and "plain_event (m_opc m)" and "unclaimed (Pool cb) m"
    and "stream cb = chip_send (TxSeqNum cb) m"
  obtains cb1 where "SlDrvMsgRead ok cb = Some (0, cb1)" and "same_cmd cb cb1" and "RxMsgClass cb1 = ASYNC_EVT_CLASS"
    and "AsyncEvtHandler cb1 = snd (SlDrvClassifyRxMsg (m_opc m))" and "pAsyncBuf cb1 = Some (event_buffer m)"
    and "stream cb1 = []" and "TxSeqNum cb1 = TxSeqNum cb + 1" and "handled cb1 = handled cb" and "sent cb1 = sent cb @ H2N_CNYS"
    and "RxIrqCnt cb1 = RxIrqCnt cb" and "RxDoneCnt cb1 = RxDoneCnt cb" and "IsCmdRespWaited cb1 = IsCmdRespWaited cb"
    and "CmdSyncObj cb1 = CmdSyncObj cb"
proof -
  have h: "SlDrvRxHdrRead ok (TxSeqNum cb) (stream cb) = Some (msg_header m, TxSeqNum cb + 1, m_body m)"
    using header_sent [where ok = ok and rest = "[]", OF assms(1,2)] assms(5) by simp
  have p: "async_payload (of_nat (length (m_body m))) (m_body m) = Some (take 160 (m_body m), [])"
    using async_payload_take [of "length (m_body m)" "m_body m"] assms(1) by (simp add: msg_ok_def min_def)
  have o: "get16 (msg_header m) = m_opc m" using header_parts(1) [OF assms(1), of "[]"] by simp
  have c: "fst (SlDrvClassifyRxMsg (m_opc m)) = ASYNC_EVT_CLASS" using assms(3) by (simp add: plain_event_def)
  let ?cb = "(flow_control (m_opc m) (msg_header m) (cb\<lparr>pAsyncBuf := None, AsyncEvtHandler := None, TxSeqNum := TxSeqNum cb + 1, stream := m_body m,
      sent := sent cb @ H2N_CNYS\<rparr>))\<lparr>RxMsgClass := ASYNC_EVT_CLASS, AsyncEvtHandler := snd (SlDrvClassifyRxMsg (m_opc m)),
      pAsyncBuf := Some (event_buffer m), stream := []\<rparr>"
  have P: "Pool ?cb = Pool cb" using flow_control_keeps(1) by (simp add: same_cmd_def)
  have "SlDrvMsgRead ok cb = Some (0, ?cb)"
    using assms(4) P unfolding SlDrvMsgRead_def h
    by (simp add: Let_def o c read_event_def header_parts(2) [OF assms(1)] flow_control_keeps p unclaimed_def event_buffer_def)
  moreover have "same_cmd cb ?cb" using flow_control_keeps(1) by (simp add: same_cmd_def)
  ultimately show thesis by (rule that) (simp_all add: flow_control_keeps)
qed

lemma plain_handler:
  assumes "plain_event (m_opc m)" and "msg_ok m" and "AsyncEvtHandler cb = snd (SlDrvClassifyRxMsg (m_opc m))" and "pAsyncBuf cb = Some (event_buffer m)"
  shows "\<exists>cb1. SlAsyncEventGenericHandler in_cmd cb = Some cb1 \<and>
    cb1\<lparr>pAsyncBuf := None\<rparr> = cb\<lparr>handled := handled cb @ event_calls m, pAsyncBuf := None\<rparr>"
proof -
  have g: "get16 (event_buffer m) = m_opc m" unfolding event_buffer_def by (rule header_parts(1) [OF assms(2)])
  have run: "run_call (Raw_event h buf) cb' = Some cb'" if "snd (SlDrvClassifyRxMsg (m_opc m)) = Some h" for h buf cb'
  proof -
    have "(drop_bit 11 (m_opc m) AND 7 :: u16) \<le> 7" by (rule word_and_le1)
    then have "unat (drop_bit 11 (m_opc m) AND 7 :: u16) < length RxMsgClassLUT" by (simp add: word_le_nat_alt RxMsgClassLUT_def)
    then have "RxMsgClassLUT ! unat (drop_bit 11 (m_opc m) AND 7) \<in> set RxMsgClassLUT" by (rule nth_mem)
    then have "h \<in> {Device_events, Wlan_events, Sock_events, NetApp_events, Http_events}"
      using assms(1) that unfolding plain_event_def SlDrvClassifyRxMsg_def by (auto simp: RxMsgClassLUT_def split: if_splits)
    then show ?thesis by auto
  qed
  show ?thesis
  proof (cases "AsyncEvtHandler cb")
    case None
    then show ?thesis using assms(3,4) by (auto simp: SlAsyncEventGenericHandler_def event_calls_def)
  next
    case (Some h)
    then show ?thesis
      using assms(3,4) assms(1) run
      by (auto simp: SlAsyncEventGenericHandler_def event_calls_def g Let_def call_def plain_event_def split: option.splits)
  qed
qed


subsection \<open>The command\<close>

text \<open>The loop waits, and all that the chip has sent is read.\<close>

definition waits :: "sl_cb \<Rightarrow> bool" where
  "waits cb \<longleftrightarrow> IsCmdRespWaited cb \<and> \<not> pending_rx cb \<and> \<not> CmdSyncObj cb \<and> stream cb = [] \<and> \<not> GlobalDeleted cb"

lemma wait_message:
  assumes "waits cb" and "SlDrvMsgRead ok ((SlDrvRxIrqHandler bs cb)\<lparr>CmdSyncObj := False\<rparr>) = Some (0, cb1)"
  shows "SlDrvMsgReadCmdCtx ok opc (Some bs # inp) cb =
    (let cb2 = cb1\<lparr>RxDoneCnt := RxDoneCnt cb1 + 1\<rparr>
     in case RxMsgClass cb2 of
          CMD_RESP_CLASS \<Rightarrow> SlDrvMsgReadCmdCtx ok opc inp (cb2\<lparr>IsCmdRespWaited := False, CmdSyncObj := False\<rparr>)
        | ASYNC_EVT_CLASS \<Rightarrow>
            (case SlAsyncEventGenericHandler True cb2 of
               None \<Rightarrow> None
             | Some cb3 \<Rightarrow> SlDrvMsgReadCmdCtx ok opc inp (cb3\<lparr>pAsyncBuf := None\<rparr>))
        | _ \<Rightarrow> SlDrvMsgReadCmdCtx ok opc inp cb2)"
proof -
  let ?cb = "(SlDrvRxIrqHandler bs cb)\<lparr>CmdSyncObj := False\<rparr>"
  have w: "IsCmdRespWaited ?cb" "pending_rx ?cb"
    using assms(1) by (simp_all add: waits_def SlDrvRxIrqHandler_def Let_def pending_rx_def)
  have "SlDrvMsgReadCmdCtx ok opc (Some bs # inp) cb = SlDrvMsgReadCmdCtx ok opc inp ?cb"
    using assms(1) by (subst SlDrvMsgReadCmdCtx.simps) (simp add: waits_def)
  then show ?thesis using w assms(2) by (simp only:) (subst SlDrvMsgReadCmdCtx.simps, simp)
qed

lemma wait_event:
  assumes "waits cb" and "msg_ok m" and "ok H2N_CNYS" and "plain_event (m_opc m)" and "unclaimed (Pool cb) m"
  obtains cb1 where "SlDrvMsgReadCmdCtx ok opc (Some (chip_send (TxSeqNum cb) m) # inp) cb = SlDrvMsgReadCmdCtx ok opc inp cb1"
    and "waits cb1" and "same_cmd cb cb1" and "TxSeqNum cb1 = TxSeqNum cb + 1" and "handled cb1 = handled cb @ event_calls m"
proof -
  let ?bs = "chip_send (TxSeqNum cb) m"
  let ?cb = "(SlDrvRxIrqHandler ?bs cb)\<lparr>CmdSyncObj := False\<rparr>"
  have q: "same_cmd cb ?cb" "stream ?cb = ?bs" "TxSeqNum ?cb = TxSeqNum cb" "handled ?cb = handled cb" "RxIrqCnt ?cb = RxIrqCnt cb + 1"
    "RxDoneCnt ?cb = RxDoneCnt cb" "IsCmdRespWaited ?cb" "\<not> CmdSyncObj ?cb"
    using assms(1) by (simp_all add: waits_def SlDrvRxIrqHandler_def Let_def same_cmd_def)
  have u: "unclaimed (Pool ?cb) m" using assms(5) q(1) by (simp add: same_cmd_def)
  have st: "stream ?cb = chip_send (TxSeqNum ?cb) m" using q(2,3) by simp
  obtain cb1 where r: "SlDrvMsgRead ok ?cb = Some (0, cb1)" "same_cmd ?cb cb1" "RxMsgClass cb1 = ASYNC_EVT_CLASS"
    "AsyncEvtHandler cb1 = snd (SlDrvClassifyRxMsg (m_opc m))" "pAsyncBuf cb1 = Some (event_buffer m)"
    "stream cb1 = []" "TxSeqNum cb1 = TxSeqNum ?cb + 1" "handled cb1 = handled ?cb" "RxIrqCnt cb1 = RxIrqCnt ?cb"
    "RxDoneCnt cb1 = RxDoneCnt ?cb" "IsCmdRespWaited cb1 = IsCmdRespWaited ?cb" "CmdSyncObj cb1 = CmdSyncObj ?cb"
    by (rule SlDrvMsgRead_event [where ok = ok, OF assms(2-4) u st])
  define cb2 where "cb2 = cb1\<lparr>RxDoneCnt := RxDoneCnt cb1 + 1\<rparr>"
  obtain cb3 where g: "SlAsyncEventGenericHandler True cb2 = Some cb3"
    "cb3\<lparr>pAsyncBuf := None\<rparr> = cb2\<lparr>handled := handled cb2 @ event_calls m, pAsyncBuf := None\<rparr>"
    using plain_handler [OF assms(4,2), of cb2 True] r(4,5) by (auto simp: cb2_def)
  show thesis
  proof (rule that)
    show "SlDrvMsgReadCmdCtx ok opc (Some ?bs # inp) cb = SlDrvMsgReadCmdCtx ok opc inp (cb3\<lparr>pAsyncBuf := None\<rparr>)"
      using wait_message [OF assms(1) r(1)] r(3) g(1) by (simp add: cb2_def)
    have "RxIrqCnt cb = RxDoneCnt cb" "\<not> GlobalDeleted cb" using assms(1) by (simp_all add: waits_def pending_rx_def)
    then show "waits (cb3\<lparr>pAsyncBuf := None\<rparr>)" "same_cmd cb (cb3\<lparr>pAsyncBuf := None\<rparr>)"
      using r q same_cmd_trans [OF q(1) r(2)] unfolding g(2) by (simp_all add: cb2_def waits_def pending_rx_def same_cmd_def)
    show "TxSeqNum (cb3\<lparr>pAsyncBuf := None\<rparr>) = TxSeqNum cb + 1" "handled (cb3\<lparr>pAsyncBuf := None\<rparr>) = handled cb @ event_calls m"
      unfolding g(2) using r(7,8) q(3,4) by (simp_all add: cb2_def)
  qed
qed


fun chip_inputs :: "u8 \<Rightarrow> chip_msg list \<Rightarrow> u8 list option list" where
  "chip_inputs seq [] = []"
| "chip_inputs seq (m # ms) = Some (chip_send seq m) # chip_inputs (seq + 1) ms"

lemma chip_inputs_append: "chip_inputs seq (ms @ ms') = chip_inputs seq ms @ chip_inputs (seq + of_nat (length ms)) ms'"
  by (induction ms arbitrary: seq) (simp_all add: ac_simps)

lemma wait_events:
  assumes "waits cb" and "ok H2N_CNYS" and "\<forall>m \<in> set es. msg_ok m \<and> plain_event (m_opc m) \<and> unclaimed (Pool cb) m"
  shows "\<exists>cb1. SlDrvMsgReadCmdCtx ok opc (chip_inputs (TxSeqNum cb) es @ inp) cb = SlDrvMsgReadCmdCtx ok opc inp cb1 \<and>
    waits cb1 \<and> same_cmd cb cb1 \<and> TxSeqNum cb1 = TxSeqNum cb + of_nat (length es) \<and>
    handled cb1 = handled cb @ concat (map event_calls es)"
  using assms
proof (induction es arbitrary: cb)
  case Nil
  then show ?case by (auto simp: same_cmd_def)
next
  case (Cons m es)
  then have m: "msg_ok m" "plain_event (m_opc m)" "unclaimed (Pool cb) m" by simp_all
  obtain cb1 where r: "SlDrvMsgReadCmdCtx ok opc (Some (chip_send (TxSeqNum cb) m) # chip_inputs (TxSeqNum cb + 1) es @ inp) cb =
      SlDrvMsgReadCmdCtx ok opc (chip_inputs (TxSeqNum cb + 1) es @ inp) cb1"
    "waits cb1" "same_cmd cb cb1" "TxSeqNum cb1 = TxSeqNum cb + 1" "handled cb1 = handled cb @ event_calls m"
    by (rule wait_event [where ok = ok, OF Cons.prems(1) m(1) Cons.prems(2) m(2,3)])
  have "Pool cb1 = Pool cb" using r(3) by (simp add: same_cmd_def)
  then obtain cb2 where "SlDrvMsgReadCmdCtx ok opc (chip_inputs (TxSeqNum cb1) es @ inp) cb1 = SlDrvMsgReadCmdCtx ok opc inp cb2"
    "waits cb2" "same_cmd cb1 cb2" "TxSeqNum cb2 = TxSeqNum cb1 + of_nat (length es)" "handled cb2 = handled cb1 @ concat (map event_calls es)"
    using Cons.IH [OF r(2) Cons.prems(2)] Cons.prems(3) by auto
  then show ?case using r same_cmd_trans [OF r(3)] by (intro exI [of _ cb2]) (simp add: ac_simps)
qed

lemma wait_response:
  assumes "waits cb" and "ok H2N_CNYS" and "msg_ok m" and "0x0400 AND m_opc m \<noteq> 0" and "pCmdCtrl cb = Some ctrl"
    and "cmd_response (of_nat (length (m_body m))) ctrl (pCmdExt cb) (m_body m) = Some (d, e, [])" and "overlay d (pTxRxDescBuff cb) = Some d1"
  shows "\<exists>cb1. SlDrvMsgReadCmdCtx ok opc [Some (chip_send (TxSeqNum cb) m)] cb = Some (Some 0, [], cb1) \<and>
    pTxRxDescBuff cb1 = d1 \<and> pCmdExt cb1 = e \<and> Pool cb1 = Pool cb \<and> handled cb1 = handled cb \<and> responses cb1 = responses cb \<and>
    stream cb1 = [] \<and> \<not> pending_rx cb1 \<and> \<not> IsCmdRespWaited cb1 \<and> \<not> GlobalLock cb1 \<and> spawns cb1 = spawns cb \<and>
    TxSeqNum cb1 = TxSeqNum cb + 1 \<and> TxPoolCnt cb1 = m_spec m ! 0"
proof -
  let ?bs = "chip_send (TxSeqNum cb) m"
  define cb0 where "cb0 = (SlDrvRxIrqHandler ?bs cb)\<lparr>CmdSyncObj := False\<rparr>"
  have q: "same_cmd cb cb0" "stream cb0 = ?bs" "TxSeqNum cb0 = TxSeqNum cb" "handled cb0 = handled cb" "RxIrqCnt cb0 = RxIrqCnt cb + 1"
    "RxDoneCnt cb0 = RxDoneCnt cb" "IsCmdRespWaited cb0" "\<not> CmdSyncObj cb0"
    using assms(1) by (simp_all add: cb0_def waits_def SlDrvRxIrqHandler_def Let_def same_cmd_def)
  have h: "SlDrvRxHdrRead ok (TxSeqNum cb0) (stream cb0) = Some (msg_header m, TxSeqNum cb0 + 1, m_body m)"
    using header_sent [where ok = ok and rest = "[]", OF assms(3,2)] q(2,3) by simp
  have o: "get16 (msg_header m) = m_opc m" using header_parts(1) [OF assms(3), of "[]"] by simp
  have c: "SlDrvClassifyRxMsg (m_opc m) = (CMD_RESP_CLASS, None)" using assms(4) by (simp add: SlDrvClassifyRxMsg_def)
  define fc where "fc = flow_control (m_opc m) (msg_header m) (cb0\<lparr>pAsyncBuf := None, AsyncEvtHandler := None, TxSeqNum := TxSeqNum cb0 + 1,
      stream := m_body m, sent := sent cb0 @ H2N_CNYS\<rparr>)"
  have f: "same_cmd cb fc" "IsCmdRespWaited fc" "RxIrqCnt fc = RxIrqCnt cb + 1" "RxDoneCnt fc = RxDoneCnt cb" "\<not> CmdSyncObj fc"
    "stream fc = m_body m" "TxSeqNum fc = TxSeqNum cb + 1" "handled fc = handled cb"
    using q flow_control_keeps(1) unfolding fc_def by (simp_all add: flow_control_keeps(2-9) same_cmd_def)
  have "m_opc m \<noteq> 8" using assms(4) by auto
  then have t: "TxPoolCnt fc = m_spec m ! 0" unfolding fc_def using header_parts(4) [OF assms(3)] by (simp add: flow_control_keeps(10))
  let ?r = "fc\<lparr>RxMsgClass := CMD_RESP_CLASS, AsyncEvtHandler := None, pTxRxDescBuff := d1, pCmdExt := e, stream := []\<rparr>"
  have R: "SlDrvMsgRead ok cb0 = Some (0, ?r)"
    using assms(5-7) f(1) unfolding SlDrvMsgRead_def h
    by (simp add: Let_def o c header_parts(2) [OF assms(3)] fc_def [symmetric] read_response_def f(6) same_cmd_def)
  let ?e = "?r\<lparr>RxDoneCnt := RxDoneCnt ?r + 1, IsCmdRespWaited := False, CmdSyncObj := False\<rparr>"
  have "SlDrvMsgReadCmdCtx ok opc [Some ?bs] cb = SlDrvMsgReadCmdCtx ok opc [] ?e"
    using wait_message [OF assms(1) R [unfolded cb0_def]] by simp
  moreover have "\<not> GlobalDeleted ?e" "\<not> pending_rx ?e" using assms(1) f by (simp_all add: waits_def same_cmd_def pending_rx_def)
  then have "SlDrvMsgReadCmdCtx ok opc [] ?e = Some (Some 0, [], ?e\<lparr>GlobalLock := False\<rparr>)"
    by (subst SlDrvMsgReadCmdCtx.simps) (simp add: unlock_global_def pending_rx_def)
  moreover have "\<not> pending_rx (?e\<lparr>GlobalLock := False\<rparr>)" using \<open>\<not> pending_rx ?e\<close> by (simp add: pending_rx_def)
  ultimately show ?thesis using f t by (intro exI [of _ "?e\<lparr>GlobalLock := False\<rparr>"]) (simp add: same_cmd_def)
qed



text \<open>Reading the version, with an event of the network before the response.\<close>

definition demo_cb :: sl_cb where
  "demo_cb = \<lparr>Pool = pool_init, TxPoolCnt = 1, TxSyncObj = False, SocketTXFailure = 0, SocketNonBlocking = 0, TxSeqNum = 0, RxIrqCnt = 3,
     RxDoneCnt = 3, IsCmdRespWaited = False, CmdSyncObj = False, pCmdCtrl = None, pTxRxDescBuff = [], pCmdExt = None,
     RxMsgClass = DUMMY_MSG_CLASS, AsyncEvtHandler = None, ActionIndex = 0, pAsyncBuf = None, RestartRequired = False, device_started = True,
     init_callback = False, ping_callback = False, GlobalLock = False, GlobalDeleted = False, ProtectionLock = False,
     responses = (\<lambda>_. ([], [])), stream = [], sent = [], handled = [], spawns = 0\<rparr>"

definition demo_event :: chip_msg where
  "demo_event = \<lparr>m_opc = 0x1825, m_spec = [6, 0, 0, 0], m_body = [1, 0, 168, 192]\<rparr>"

definition demo_response :: chip_msg where
  "demo_response = \<lparr>m_opc = 0x0470, m_spec = [5, 0, 0, 0], m_body = [7, 8, 9, 10]\<rparr>"

lemma demo_ok: "msg_ok demo_event" "msg_ok demo_response" "plain_event (m_opc demo_event)" "unclaimed pool_init demo_event"
  "event_calls demo_event = [User_event NetApp_events ([1, 0, 0, 0, 1, 0, 168, 192] @ replicate 156 0)]"
proof -
  show "msg_ok demo_event" "msg_ok demo_response" by (simp_all add: msg_ok_def demo_event_def demo_response_def)
  show "plain_event (m_opc demo_event)" by (simp add: plain_event_def demo_event_def SlDrvClassifyRxMsg_def RxMsgClassLUT_def)
  show "unclaimed pool_init demo_event" by (simp add: unclaimed_def SlFindAndSetActiveObj_def find_active.simps pool_init_def)
  show "event_calls demo_event = [User_event NetApp_events ([1, 0, 0, 0, 1, 0, 168, 192] @ replicate 156 0)]"
    by (simp add: event_calls_def demo_event_def SlDrvClassifyRxMsg_def RxMsgClassLUT_def OpcodeTranslateTable_def event_buffer_def
        msg_header_def le16_def)
qed



subsection \<open>Data for a task that receives\<close>

lemma recv_data_take:
  assumes "length args = 4" and "length addr = recv_args_size opc - 4" and "act_data_size args = int (length data)"
    and "length (data @ pad) = align4 (length data)"
  shows "recv_data opc args (addr @ data @ pad @ rest) = Some (args @ addr, data, rest)"
proof -
  have r: "(if 4 < recv_args_size opc then if_read (recv_args_size opc - 4) (addr @ data @ pad @ rest) else Some ([], addr @ data @ pad @ rest)) =
      Some (addr, data @ pad @ rest)"
    using assms(2) by (auto simp: if_read_def)
  have t: "read_tail (length data) (data @ pad @ rest) = Some (data, rest)"
    using assms(4) by (simp add: read_tail_take flip: append_assoc)
  have "pad = []" if "data = []" using assms(4) that by (simp add: align4_def)
  then show ?thesis unfolding recv_data_def r using t assms(3) by (cases "data = []") simp_all
qed



text \<open>Six bytes from a socket, for a task that has room for eight.\<close>

definition demo_data :: chip_msg where
  "demo_data = \<lparr>m_opc = 0x100A, m_spec = [4, 0, 0, 0], m_body = [6, 0, 2, 0] @ [] @ [65, 66, 67, 68, 69, 70] @ [0, 0]\<rparr>"



subsection \<open>Sending data\<close>

text \<open>How a transmission can end that saw the values in \<open>O\<close>.\<close>

definition write_end :: "(u8 list \<Rightarrow> bool) \<Rightarrow> nat \<Rightarrow> cmd_ctrl \<Rightarrow> u8 list \<Rightarrow> cmd_ext option \<Rightarrow> flow_obs set \<Rightarrow> send_result \<Rightarrow> bool" where
  "write_end ok sd ctrl desc ext seen res \<longleftrightarrow>
     (case written res of
        Some w \<Rightarrow> SlDrvMsgWrite ok ctrl ext (Some desc) = Some (ret res, w) \<and> \<not> tx_held res \<and> \<not> global_held res \<and>
          (\<exists>ob \<in> seen. 2 < o_count ob \<and> count_left res = o_count ob - 1)
      | None \<Rightarrow>
          ret res = -1 \<and> \<not> tx_held res \<and> \<not> global_held res \<and> (\<exists>ob \<in> seen. socket_flag (o_failure ob) sd) \<or>
          ret res = -11 \<and> \<not> tx_held res \<and> \<not> global_held res \<and> (\<exists>ob \<in> seen. socket_flag (o_nonblocking ob) sd \<and> o_count ob \<le> 2) \<or>
          ret res = -100 \<and> tx_held res \<and> \<not> global_held res \<and> (\<exists>ob \<in> seen. o_restart ob) \<or>
          ret res = -7 \<and> tx_held res \<and> global_held res \<and> (\<exists>ob \<in> seen. o_count ob \<le> 2))"

lemma write_end_mono: "write_end ok sd ctrl desc ext A res \<Longrightarrow> A \<subseteq> B \<Longrightarrow> write_end ok sd ctrl desc ext B res"
  unfolding write_end_def by (auto split: option.splits)

lemma stop_send_end:
  "socket_flag (o_failure ob) sd \<Longrightarrow> ob \<in> A \<Longrightarrow> write_end ok sd ctrl desc ext A (stop_send (-1) False False ob)"
  "socket_flag (o_nonblocking ob) sd \<Longrightarrow> o_count ob \<le> 2 \<Longrightarrow> ob \<in> A \<Longrightarrow> write_end ok sd ctrl desc ext A (stop_send (-11) False False ob)"
  "o_restart ob \<Longrightarrow> ob \<in> A \<Longrightarrow> write_end ok sd ctrl desc ext A (stop_send (-100) True False ob)"
  by (auto simp: write_end_def stop_send_def)

lemma send_locked_end: "send_locked ok 2 ctrl desc ext ob = Some res \<Longrightarrow> write_end ok sd ctrl desc ext {ob} res"
  by (auto simp: send_locked_def stop_send_def write_end_def not_less split: if_splits)

lemma data_write_end:
  "SlDrvDataWriteOp ok sd ctrl desc ext obs = Some res \<Longrightarrow> write_end ok sd ctrl desc ext (set obs) res"
proof (induction obs rule: length_induct)
  case (1 obs)
  show ?case
  proof (cases obs)
    case (Cons ob os)
    have l: "write_end ok sd ctrl desc ext (set obs) res" if "send_locked ok 2 ctrl desc ext x = Some res" "x \<in> set obs" for x
      using send_locked_end [OF that(1)] write_end_mono that(2) by blast
    have s: "write_end ok sd ctrl desc ext (set obs) res" if "SlDrvDataWriteOp ok sd ctrl desc ext xs = Some res" "os = y # xs" for y xs
    proof -
      have "write_end ok sd ctrl desc ext (set xs) res" using 1(1) that Cons by simp
      then show ?thesis by (rule write_end_mono) (use that Cons in auto)
    qed
    show ?thesis
    proof (cases "socket_flag (o_failure ob) sd \<or> o_count ob \<le> 2 \<and> socket_flag (o_nonblocking ob) sd")
      case True
      then show ?thesis using 1(2) Cons by (auto intro: stop_send_end split: if_splits)
    next
      case False
      then obtain y ys where os: "os = y # ys" using 1(2) Cons by (cases os) (auto split: if_splits)
      show ?thesis
      proof (cases "o_count ob \<le> 2 \<and> \<not> o_restart y \<and> y \<in> set obs \<and> \<not> 2 < o_count y")
        case True
        then show ?thesis using False 1(2) Cons os s [of ys y] by simp
      next
        case again: False
        then show ?thesis using False 1(2) Cons os l [of y] l [of "hd ys"]
          by (cases ys) (auto intro: stop_send_end split: if_splits)
      qed
    qed
  qed (use 1(2) in simp)
qed



text \<open>
  A socket that blocks, with two buffers left at first: after the wait there are three, and the data goes
  out. When the chip reports two again before the global lock is got, both locks are never released.
\<close>

definition demo_obs :: "u8 \<Rightarrow> flow_obs" where
  "demo_obs n = \<lparr>o_count = n, o_nonblocking = 0, o_failure = 0, o_restart = False\<rparr>"


lemma data_write_locked_out:
  "SlDrvDataWriteOp ok 1 ctrl desc ext [demo_obs 3, demo_obs 2] =
     Some \<lparr>ret = -7, tx_held = True, global_held = True, written = None, count_left = 2\<rparr>"
  by (simp add: demo_obs_def socket_flag_def send_locked_def stop_send_def)


subsection \<open>Where the driver goes wrong\<close>

text \<open>The answer to a stop: the handler of the action gets the structure of a device event for the message.\<close>

lemma stop_answer_misread:
  "AsyncEvtHandler cb = Some (Action_handler START_STOP_ID) \<Longrightarrow> pAsyncBuf cb = Some ([0x73, 0] @ b) \<Longrightarrow> SlAsyncEventGenericHandler in_cmd cb = None"
  by (simp add: SlAsyncEventGenericHandler_def get16_def OpcodeTranslateTable_def Let_def)

text \<open>Data that nobody waits for: the function returns with the protection lock.\<close>

lemma unclaimed_data_keeps_lock:
  assumes "4 \<le> length (stream cb)" and "unat (stream cb ! 2 AND 0x0F) < 8" and "SlFindAndSetActiveObj opc (unat (stream cb ! 2 AND 0x0F)) (Pool cb) = Some Not_found"
  shows "take_data opc cb = Some (-3, cb\<lparr>stream := drop 4 (stream cb), ProtectionLock := True\<rparr>)"
  using assms by (simp add: take_data_def if_read_def Let_def)

text \<open>A message that cannot be read ends the command, but the driver still takes it to wait: later interrupts read nothing.\<close>

lemma failed_read_still_waits:
  assumes "IsCmdRespWaited cb" and "pending_rx cb" and "SlDrvMsgRead ok cb = Some (r, cb1)" and "r \<noteq> 0" and "\<not> GlobalDeleted cb1"
    and "IsCmdRespWaited cb1"
  shows "\<exists>cb2. SlDrvMsgReadCmdCtx ok opc inp cb = Some (Some (-100), inp, cb2) \<and> IsCmdRespWaited cb2 \<and> spawns (SlDrvRxIrqHandler bs cb2) = spawns cb1"
  using assms by (subst SlDrvMsgReadCmdCtx.simps) (simp add: unlock_global_def SlDrvRxIrqHandler_def Let_def)

end
