(* ===== verification/SlIrq.thy ===== *)
theory SlIrq
  imports SlMsg
begin

text \<open>
  Which context reads a message of the chip
  (\<open>csrc/system/cc3100-sdk/simplelink/source/driver.c\<close>): the interrupt handler counts it, and then
  signals the command that waits for its response, or has the task of the driver read it. The command
  and that task exclude each other by the global lock; interrupts come at any time. Each function here is
  a piece that runs without touching what the others share in between; \<open>None\<close> is a task that cannot go on.
\<close>

subsection \<open>The contexts\<close>

datatype cmd_at = Cmd_idle | Cmd_loop | Cmd_read msg_class | Cmd_left
datatype task_at = Task_idle | Task_locked | Task_read msg_class

text \<open>\<open>unread\<close> is what the chip has announced and still has to send, \<open>queued\<close> the calls in the queue of the task.\<close>

record irq_cb =
  irq_cnt :: u8
  done_cnt :: u8
  waited :: bool
  cmd_signal :: bool
  queued :: nat
  at_cmd :: cmd_at
  at_task :: task_at
  unread :: "msg_class list"

definition irq_init :: irq_cb where
  "irq_init = \<lparr>irq_cnt = 0, done_cnt = 0, waited = False, cmd_signal = False, queued = 0, at_cmd = Cmd_idle, at_task = Task_idle, unread = []\<rparr>"

definition global_free :: "irq_cb \<Rightarrow> bool" where
  "global_free s \<longleftrightarrow> (at_cmd s = Cmd_idle \<or> at_cmd s = Cmd_left) \<and> at_task s = Task_idle"

text \<open>The handler of the interrupt that announces a message.\<close>

definition rx_irq :: "msg_class \<Rightarrow> irq_cb \<Rightarrow> irq_cb" where
  "rx_irq m s =
     (let s1 = s\<lparr>unread := unread s @ [m], irq_cnt := irq_cnt s + 1\<rparr>
      in if waited s1 then s1\<lparr>cmd_signal := True\<rparr> else s1\<lparr>queued := queued s1 + 1\<rparr>)"

text \<open>The start of a command, with the lock.\<close>

definition cmd_start :: "irq_cb \<Rightarrow> irq_cb option" where
  "cmd_start s = (if at_cmd s = Cmd_idle \<and> global_free s then Some (s\<lparr>at_cmd := Cmd_loop, waited := True\<rparr>) else None)"

text \<open>Its loop, the count behind a message that was read, and the check behind the loop.\<close>

definition cmd_pass :: "irq_cb \<Rightarrow> irq_cb option" where
  "cmd_pass s =
     (case at_cmd s of
        Cmd_idle \<Rightarrow> None
      | Cmd_loop \<Rightarrow>
          (if \<not> waited s then Some (s\<lparr>at_cmd := Cmd_left\<rparr>)
           else if irq_cnt s \<noteq> done_cnt s then
             (case unread s of [] \<Rightarrow> None | m # ms \<Rightarrow> Some (s\<lparr>unread := ms, at_cmd := Cmd_read m\<rparr>))
           else if cmd_signal s then Some (s\<lparr>cmd_signal := False\<rparr>) else None)
      | Cmd_read m \<Rightarrow>
          (let s1 = s\<lparr>done_cnt := done_cnt s + 1, at_cmd := Cmd_loop\<rparr>
           in Some (if m = CMD_RESP_CLASS then s1\<lparr>waited := False, cmd_signal := False\<rparr> else s1))
      | Cmd_left \<Rightarrow> Some ((if irq_cnt s \<noteq> done_cnt s then s\<lparr>queued := queued s + 1\<rparr> else s)\<lparr>at_cmd := Cmd_idle\<rparr>))"

text \<open>The task: one message for each call in its queue.\<close>

definition task_pass :: "irq_cb \<Rightarrow> irq_cb option" where
  "task_pass s =
     (case at_task s of
        Task_idle \<Rightarrow> if 0 < queued s \<and> global_free s then Some (s\<lparr>queued := queued s - 1, at_task := Task_locked\<rparr>) else None
      | Task_locked \<Rightarrow>
          (if irq_cnt s = done_cnt s then Some (s\<lparr>at_task := Task_idle\<rparr>)
           else (case unread s of [] \<Rightarrow> None | m # ms \<Rightarrow> Some (s\<lparr>unread := ms, at_task := Task_read m\<rparr>)))
      | Task_read m \<Rightarrow> Some (s\<lparr>done_cnt := done_cnt s + 1, at_task := Task_idle\<rparr>))"

definition driver_step :: "irq_cb \<Rightarrow> irq_cb \<Rightarrow> bool" where
  "driver_step s t \<longleftrightarrow> cmd_pass s = Some t \<or> task_pass s = Some t"

text \<open>
  The chip raises its line again only when the message before has been read, and it answers a
  command once.
\<close>

inductive irq_reachable :: "irq_cb \<Rightarrow> bool" where
  reach_init: "irq_reachable irq_init"
| reach_irq: "irq_reachable s \<Longrightarrow> unread s = [] \<Longrightarrow> (m = CMD_RESP_CLASS \<longrightarrow> waited s \<and> at_cmd s \<noteq> Cmd_read CMD_RESP_CLASS) \<Longrightarrow>
    irq_reachable (rx_irq m s)"
| reach_start: "irq_reachable s \<Longrightarrow> cmd_start s = Some t \<Longrightarrow> irq_reachable t"
| reach_step: "irq_reachable s \<Longrightarrow> driver_step s t \<Longrightarrow> irq_reachable t"

text \<open>Steps of the driver alone.\<close>

inductive driver_steps :: "nat \<Rightarrow> irq_cb \<Rightarrow> irq_cb \<Rightarrow> bool" where
  steps_none: "driver_steps 0 s s"
| steps_more: "driver_steps n s t \<Longrightarrow> driver_step t u \<Longrightarrow> driver_steps (Suc n) s u"

inductive_cases driver_steps_cases: "driver_steps n s t"


subsection \<open>No message is forgotten\<close>

definition in_read :: "irq_cb \<Rightarrow> nat" where
  "in_read s = (case at_cmd s of Cmd_read _ \<Rightarrow> 1 | _ \<Rightarrow> 0) + (case at_task s of Task_read _ \<Rightarrow> 1 | _ \<Rightarrow> 0)"

text \<open>
  The two counts differ by what is unread or just being read; the command and the task exclude each other;
  the command waits only in its loop; and somebody is going to read what is unread.
\<close>

definition irq_inv :: "irq_cb \<Rightarrow> bool" where
  "irq_inv s \<longleftrightarrow>
     irq_cnt s = done_cnt s + of_nat (length (unread s) + in_read s) \<and> length (unread s) \<le> 1 \<and>
     (at_task s \<noteq> Task_idle \<longrightarrow> at_cmd s = Cmd_idle \<or> at_cmd s = Cmd_left) \<and>
     (waited s \<longrightarrow> at_cmd s = Cmd_loop \<or> (\<exists>m. at_cmd s = Cmd_read m)) \<and>
     (unread s \<noteq> [] \<longrightarrow> at_cmd s \<noteq> Cmd_idle \<or> 0 < queued s \<or> at_task s = Task_locked)"

lemma counts_differ:
  assumes "irq_inv s"
  shows "irq_cnt s = done_cnt s \<longleftrightarrow> unread s = [] \<and> in_read s = 0"
proof -
  have r: "in_read s \<le> 2" by (auto simp: in_read_def split: cmd_at.splits task_at.splits)
  then have "length (unread s) + in_read s < 256" using assms by (simp add: irq_inv_def)
  then have "(of_nat (length (unread s) + in_read s) = (0 :: u8)) = (length (unread s) + in_read s = 0)"
    by (auto simp: word_of_nat_eq_0_iff dest: dvd_imp_le simp del: of_nat_add)
  moreover have "irq_cnt s = done_cnt s \<longleftrightarrow> of_nat (length (unread s) + in_read s) = (0 :: u8)"
    using assms by (simp add: irq_inv_def del: of_nat_add)
  ultimately show ?thesis by simp
qed

lemma irq_inv_irq: "irq_inv s \<Longrightarrow> unread s = [] \<Longrightarrow> irq_inv (rx_irq m s)"
  by (simp add: irq_inv_def rx_irq_def Let_def in_read_def) (auto simp: ac_simps)

lemma irq_inv_start: "irq_inv s \<Longrightarrow> cmd_start s = Some t \<Longrightarrow> irq_inv t"
  by (auto simp: irq_inv_def cmd_start_def global_free_def in_read_def split: if_splits)

lemma irq_inv_cmd:
  assumes "irq_inv s" and "cmd_pass s = Some t"
  shows "irq_inv t"
proof (cases "at_cmd s")
  case Cmd_loop
  then show ?thesis using assms by (cases "unread s") (auto simp: irq_inv_def cmd_pass_def in_read_def split: if_splits)
next
  case (Cmd_read m)
  then show ?thesis using assms by (cases "m = CMD_RESP_CLASS") (auto simp: irq_inv_def cmd_pass_def in_read_def Let_def)
next
  case Cmd_left
  then show ?thesis using assms counts_differ [OF assms(1)] by (auto simp: irq_inv_def cmd_pass_def in_read_def)
qed (use assms in \<open>simp add: cmd_pass_def\<close>)

lemma irq_inv_task:
  assumes "irq_inv s" and "task_pass s = Some t"
  shows "irq_inv t"
proof (cases "at_task s")
  case Task_idle
  then show ?thesis using assms by (auto simp: irq_inv_def task_pass_def in_read_def global_free_def split: if_splits)
next
  case Task_locked
  then show ?thesis using assms counts_differ [OF assms(1)]
    by (cases "unread s") (auto simp: irq_inv_def task_pass_def in_read_def split: if_splits)
next
  case (Task_read m)
  then show ?thesis using assms by (auto simp: irq_inv_def task_pass_def in_read_def)
qed

lemma irq_reachable_inv: "irq_reachable s \<Longrightarrow> irq_inv s"
proof (induction rule: irq_reachable.induct)
  case reach_init
  then show ?case by (simp add: irq_inv_def irq_init_def in_read_def)
qed (auto simp: driver_step_def intro: irq_inv_irq irq_inv_start irq_inv_cmd irq_inv_task)

text \<open>How many steps the driver can make by itself.\<close>

definition steps_left :: "irq_cb \<Rightarrow> nat" where
  "steps_left s = 10 * length (unread s) + 3 * queued s + (if cmd_signal s then 1 else 0) +
     (case at_cmd s of Cmd_idle \<Rightarrow> 0 | Cmd_loop \<Rightarrow> 6 | Cmd_read _ \<Rightarrow> 8 | Cmd_left \<Rightarrow> 5) +
     (case at_task s of Task_idle \<Rightarrow> 0 | Task_locked \<Rightarrow> 2 | Task_read _ \<Rightarrow> 3)"

lemma driver_step_less:
  assumes "driver_step s t"
  shows "steps_left t < steps_left s"
  using assms unfolding driver_step_def
proof
  assume "cmd_pass s = Some t"
  then show ?thesis
    by (cases "at_cmd s"; cases "unread s") (auto simp: cmd_pass_def steps_left_def Let_def split: if_splits)
next
  assume "task_pass s = Some t"
  then show ?thesis
    by (cases "at_task s"; cases "unread s") (auto simp: task_pass_def steps_left_def split: if_splits)
qed

lemma blocked_none_unread:
  assumes "irq_inv s" and "cmd_pass s = None" and "task_pass s = None"
  shows "unread s = []"
proof (rule ccontr)
  assume u: "unread s \<noteq> []"
  then have "irq_cnt s \<noteq> done_cnt s" using counts_differ [OF assms(1)] by simp
  then show False using assms u
    by (auto simp: irq_inv_def cmd_pass_def task_pass_def global_free_def Let_def split: cmd_at.splits task_at.splits list.splits if_splits)
qed


text \<open>A command, an event, and the response: then all is read.\<close>

definition demo_irq :: irq_cb where
  "demo_irq = rx_irq ASYNC_EVT_CLASS (irq_init\<lparr>at_cmd := Cmd_loop, waited := True\<rparr>)"

lemma demo_irq_reachable: "irq_reachable demo_irq"
  unfolding demo_irq_def
  by (rule reach_irq, rule reach_start [OF reach_init]) (simp_all add: cmd_start_def irq_init_def global_free_def)


text \<open>
  The functions that should mask the interrupt are empty on this board, so all this rests on the chip. Were two
  messages announced while a command waits, the call that the command leaves behind would read only one of them.
\<close>

lemma second_message_forgotten:
  assumes "s = rx_irq ASYNC_EVT_CLASS (rx_irq ASYNC_EVT_CLASS (rx_irq CMD_RESP_CLASS (irq_init\<lparr>at_cmd := Cmd_loop, waited := True\<rparr>)))"
  shows "\<exists>t. driver_steps 7 s t \<and> cmd_pass t = None \<and> task_pass t = None \<and> unread t = [ASYNC_EVT_CLASS]"
proof -
  let ?t1 = "s\<lparr>unread := [ASYNC_EVT_CLASS, ASYNC_EVT_CLASS], at_cmd := Cmd_read CMD_RESP_CLASS\<rparr>"
  let ?t2 = "?t1\<lparr>done_cnt := 1, at_cmd := Cmd_loop, waited := False, cmd_signal := False\<rparr>"
  let ?t3 = "?t2\<lparr>at_cmd := Cmd_left\<rparr>"
  let ?t4 = "?t3\<lparr>queued := 1, at_cmd := Cmd_idle\<rparr>"
  let ?t5 = "?t4\<lparr>queued := 0, at_task := Task_locked\<rparr>"
  let ?t6 = "?t5\<lparr>unread := [ASYNC_EVT_CLASS], at_task := Task_read ASYNC_EVT_CLASS\<rparr>"
  let ?t7 = "?t6\<lparr>done_cnt := 2, at_task := Task_idle\<rparr>"
  note defs = driver_step_def cmd_pass_def task_pass_def assms rx_irq_def irq_init_def global_free_def
  have s: "driver_step s ?t1" "driver_step ?t1 ?t2" "driver_step ?t2 ?t3" "driver_step ?t3 ?t4" "driver_step ?t4 ?t5" "driver_step ?t5 ?t6" "driver_step ?t6 ?t7"
    by (simp_all add: defs)
  have "driver_steps (Suc (Suc (Suc (Suc (Suc (Suc (Suc 0))))))) s ?t7"
    by (rule steps_more [OF steps_more [OF steps_more [OF steps_more [OF steps_more [OF steps_more [OF steps_more [OF steps_none s(1)] s(2)] s(3)] s(4)] s(5)] s(6)] s(7)])
  moreover have "Suc (Suc (Suc (Suc (Suc (Suc (Suc 0)))))) = 7" by simp
  ultimately have "driver_steps 7 s ?t7" by metis
  moreover have "cmd_pass ?t7 = None" "task_pass ?t7 = None" "unread ?t7 = [ASYNC_EVT_CLASS]" by (simp_all add: defs)
  ultimately show ?thesis by blast
qed

end
