(* ===== verification/Spec2Isabelle.thy ===== *)
theory Spec2Isabelle
  imports Prelude Config_Correct Object_Server_Correct Object_Security Object_Device Object_Sensors
    Connection Client Memtrace SdCard_Correct Wifi Timing Mutexes I2c Cc3100 Commandline FatFs_Truncate
    FatFs_Dir_Register FatFs_Dir_List FatFs_Free FatFs_Reopen SlPool_Correct SlDriver_Correct SlIrq
begin

text \<open>
  A verification development for MISO, the firmware of a battery-powered sensor node
  (Cortex-M3, FreeRTOS, a CC3100 WiFi chip on SPI, an SD card, six I2C sensors), and of
  its C part, the directory \<open>csrc\<close> of the repository.

  \<^bold>\<open>The program.\<close> At start-up the application reads \<open>config.txt\<close> from the SD card into the
  configuration store. The WiFi service waits for the chip's events, connects to the
  configured network and announces connectivity to the application. The LwM2M client task
  then builds five LwM2M objects out of the configuration, opens a DTLS connection to the
  server, and serves the protocol until it is told to reboot. The TLS layer below it keeps
  its retransmission timers and its mutexes in FreeRTOS. The parts call each other as
  functions, and across tasks through FreeRTOS notifications and two state words.

  \<^bold>\<open>Theories and sources.\<close> Each theory names the functions of the C file it models, so a
  definition can be read beside the code.
  \<^item> \<open>Prelude\<close>: machine types, C strings and buffers, the \<open>invariant_machine\<close> contract (an
    invariant that every step keeps holds over every run of steps).
  \<^item> \<open>Config\<close>, \<open>Config_Correct\<close> (\<open>csrc/src/config.c\<close>): the state \<open>config\<close> maps each of the
    sixteen global buffers (\<open>slot\<close>) to its bytes; \<open>config_set\<close>, \<open>config_get\<close> and
    \<open>copyString\<close>; \<open>miso_load_config\<close>, whose scan is \<open>scan_tokens\<close>. A \<open>fault\<close> is undefined
    behaviour of the C code: a NULL dereference, a read or a write outside an array.
  \<^item> \<open>Lwm2m\<close>: what the handlers of the objects share (status codes, data, the list of
    instances, the encoders of the wakaama library as a parameter), and the locale
    \<open>resource_getter\<close>, the contract between a handler and the function that reads one
    resource. \<open>Object_Server\<close>, \<open>Object_Server_Correct\<close>, \<open>Object_Security\<close>, \<open>Object_Device\<close>
    and \<open>Object_Sensors\<close> model the \<open>object_*.c\<close> files of \<open>csrc/src/lwm2m/lightclient\<close>; each
    interprets the contract on its own \<open>get_value\<close>.
  \<^item> \<open>Connection\<close> (\<open>csrc/src/lwm2m/connection.c\<close> and the connect and close callbacks of
    \<open>miso_lightclient.c\<close>): the connection list, node addresses and the heap and service calls
    as events.
  \<^item> \<open>Client\<close> (\<open>miso_lightclient.c\<close>): start-up with its failure paths, the notification loop,
    the clean-up, the state report.
  \<^item> \<open>Memtrace\<close> (\<open>csrc/src/lwm2m/memtrace.c\<close>): the live list and the quarantine of the
    allocation tracer.
  \<^item> \<open>SdCard\<close>, \<open>SdCard_Correct\<close> (\<open>csrc/board/src/sdmm.c\<close>, \<open>board_sd_card.c\<close>): the SPI protocol
    and the FatFs disk functions. The bytes of the card and the detect pin are two streams
    in \<open>sd_env\<close>; what the driver puts on the bus and on the chip-select line is the log \<open>io\<close>.
  \<^item> \<open>FatFs\<close> (\<open>csrc/system/ff15/source/ff.c\<close>, in the configuration of \<open>csrc/config/ffconf.h\<close>):
    the volume object with the disk below it, the disk window and the table access;
    \<open>FatFs_Chain\<close>: the cluster chains; \<open>FatFs_File\<close>: an open file, with \<open>f_read\<close>, \<open>f_write\<close>,
    \<open>f_lseek\<close> and \<open>f_truncate\<close>. The lemmas about them: \<open>FatFs_Entry\<close> (the bits of an entry), \<open>FatFs_Table\<close> (the window and
    the two tables), \<open>FatFs_Access\<close> (\<open>get_fat\<close> and \<open>put_fat\<close> against the abstract table),
    \<open>FatFs_Chain_Correct\<close>, \<open>FatFs_Sectors\<close> (the sectors of a file), \<open>FatFs_Read\<close> (the abstract file),
    \<open>FatFs_Write\<close>, \<open>FatFs_Seek\<close> and \<open>FatFs_Truncate\<close>.
  \<^item> \<open>FatFs_Share\<close>: the table of open files; \<open>FatFs_Mount\<close>: drive prefixes, the search for a volume,
    the layout out of its boot sector, \<open>f_mount\<close> and the lock of the volume; \<open>FatFs_Name\<close>: names in
    directory entries, and the patterns of the search functions.
  \<^item> \<open>FatFs_Dir\<close>: the position in a directory, search, registration and removal of an entry, paths.
    \<open>FatFs_Dir_Table\<close> is its specification, a directory as the list of its entries; \<open>FatFs_Dir_Find\<close>
    proves the two searches against it (the locale \<open>dir_scanner\<close>, interpreted for each),
    \<open>FatFs_Dir_Change\<close> and \<open>FatFs_Dir_Register\<close> prove that removal and registration change one
    entry of a map from names to entries.
  \<^item> \<open>FatFs_Api\<close>: the functions with a path, from \<open>f_open\<close> and \<open>f_close\<close> to \<open>f_mkdir\<close>,
    \<open>f_unlink\<close> and \<open>f_rename\<close>, and the functions on an open directory. About them:
    \<open>FatFs_Dir_List\<close> (\<open>f_opendir\<close> and \<open>f_readdir\<close>), \<open>FatFs_Free\<close> (\<open>f_getfree\<close>) and
    \<open>FatFs_Reopen\<close> (\<open>f_sync\<close> and then \<open>f_open\<close>).
  \<^item> \<open>Wifi\<close> (\<open>csrc/src/wifi_service.c\<close>): the two event handlers, which run in the task of the
    chip, and the steps of the service task; \<open>wifi_op\<close> interleaves them.
  \<^item> \<open>Timing\<close>, \<open>Mutexes\<close> (\<open>csrc/src/mbedtls_adapter/timing.c\<close>, \<open>treading.c\<close>, and
    \<open>csrc/system/ff15/custom/ffsystem.c\<close>): the two timers of a DTLS handshake and the two
    mutex layers; the locale \<open>mutex_api\<close> is the contract both layers fulfil.
  \<^item> \<open>I2c\<close> (\<open>csrc/board/src/board_i2c_sensors.c\<close> and the wrappers \<open>board_bma280.c\<close>, \<open>board_bme280.c\<close>,
    \<open>board_bmg160.c\<close>, \<open>board_bmi160.c\<close>, \<open>board_bmm150.c\<close>): the transfer function in two pieces,
    the interrupt, and the relation \<open>i2c_step\<close> that interleaves tasks and interrupts; the
    register functions of the sensors, each an interpretation of \<open>register_port\<close>.
  \<^item> \<open>Cc3100\<close> (\<open>csrc/board/src/board_CC3100.c\<close>): the SPI port of the WiFi chip, its interrupt and
    the registered handler; read and write fulfil the contract \<open>spi_transfer\<close>.
  \<^item> \<open>SlPool\<close>, \<open>SlPool_Correct\<close>, \<open>SlMsg\<close>, \<open>SlDriver\<close>, \<open>SlDriver_Correct\<close>, \<open>SlIrq\<close>
    (\<open>csrc/system/cc3100-sdk/simplelink/source/driver.c\<close>, as \<open>csrc/config/user.h\<close> configures it): the
    SimpleLink driver above that port. The pool of actions that wait for an answer of the chip, as
    steps under its lock that tasks interleave; the frames of commands, the search for the header of
    a response, and the reading of what follows it; the control block, with the reading of a whole
    message, the handlers of events and answers (also of \<open>socket.c\<close>, \<open>netapp.c\<close>, \<open>device.c\<close>), the loop in
    which a command waits for its response, and the transfer of data with its flow control; and which
    context reads a message when interrupts come at any time (\<open>SlIrq\<close>).
  \<^item> \<open>Commandline\<close> (\<open>csrc/src/lwm2m/commandline.c\<close>): dispatch, arguments, dump, status text.

  \<^bold>\<open>What the lemmas show.\<close>
  \<^item> Runs: from the start state, over every sequence of operations, the server object keeps
    distinct instance ids and terminated bindings, the connection list distinct addresses,
    the tracer its live list apart from its quarantine and its statistics, the driver a
    deselected card that is untouched before it is initialised, the WiFi service a
    consistent connection and IP state. Each rests on an interpretation of
    \<open>invariant_machine\<close>.
  \<^item> Loading: the provenance of every value that the scan stores (the token lies on a path
    of keys that belongs to the buffer), sizes of buffers unchanged, absent sections
    untouched, the file closed and the memory freed, and exactly which faults a load can
    end in.
  \<^item> Objects: which reads are content and what a full read returns; written values come back;
    an instance is created wholly or not at all; the security object answers with what was
    configured.
  \<^item> SD card: a successful read consists of whole blocks that followed a data token, every
    wait is bounded, frames and the capacity register decode to what was meant.
  \<^item> File system: an entry put into the table is read back and nothing else changes, for each
    of the three widths; both tables agree after a sync; removing and stretching a chain end on
    every table, free and take exactly the clusters they should, and keep the count of free
    clusters exact; reading and writing refine the abstract file, the bytes of its clusters in
    the order of the chain with the sector buffer in place of the sector it holds; what was
    written is read back after a seek, and truncating frees the clusters behind the cut.
  \<^item> Volumes and directories: a mount that succeeds establishes the layout all this rests on; a
    file open for writing is open once; names come back out of their entries, patterns match as
    they say; a directory is a map from names to entries, in which a search looks up, a removal
    deletes and a registration inserts, stretching the directory when it is full; a listing
    gives its files in order; the number of free clusters is exact; a file that was synced is
    found by its name and read again.
  \<^item> Buses: on the I2C bus one task at a time, every task answered with its own transfer, and
    no state in which all wait; on the SPI port of the WiFi chip one frame for each transfer,
    and a handler that is called only while it is registered.
  \<^item> SimpleLink driver: an object of the pool is on one list, and one action at a time is
    active on a socket; releasing an action wakes one that waits for the same; an answer finds the
    action it is for; the header of a response is found wherever its pattern begins; a
    frame reads back on the side of the chip; and how much of a payload is read. A command is
    answered whatever events come before its response, data reaches the task that receives, no message
    is forgotten, and how a transmission ends.
  \<^item> WiFi, client, timers, mutexes: a lost link is reconnected; when and with which result
    the client returns; when the delays are reached; mutual exclusion and rejection of
    unusable mutexes.
  \<^item> The places where the code falls short of its intention are stated as theorems too (an
    unterminated buffer, a stale tail, a lost instance, a leaked string, a destructor that
    skips the last node, a final timer that runs too short, a missed reconnection).

  \<^bold>\<open>Conventions.\<close> A C buffer is the list of its bytes; machine words keep their width
  (\<open>8 word\<close>, \<open>16 word\<close>, \<open>32 word\<close>), and C \<open>int\<close> values that stay in range are \<open>int\<close>. Errors
  are values of an option or a sum. Calls out of the C code whose effects matter are logged
  in the order they are made.

  \<^bold>\<open>Bounds.\<close> Every loop of the code is structural here, with the bound the code has: the
  driver waits for at most 5000 bytes to become ready, 1000 for a data token and 10 for a
  response, and asks a card at most 1000 times to leave its idle state; the dump of a buffer makes one line
  for each 16 bytes, by a measure; a block count
  of 0 is \<open>2 ^ 32\<close> passes, as the \<open>do ... while (--count)\<close> loops of the code make them. The
  notification loop of the client does not end by itself: its model takes one list element
  for each pass, and the theorem about it says for which lists it returns. The
  \<open>for (;;)\<close> of the WiFi task is a sequence of steps of any length. The loops over the clusters
  of a chain and over the bytes of a read or a write are partial functions into an option; that
  they end is part of what is proved of them (\<open>chain_loops_end\<close>, \<open>f_read_refines\<close>,
  \<open>f_write_refines\<close>, \<open>f_write_reads_back\<close>, \<open>f_truncate_correct\<close>). The loops over the entries of a
  directory are partial functions too; a directory has at most 65536 entries (2 MB, the limit of
  \<open>dir_next\<close>), and \<open>dir_find_remove\<close> and \<open>dir_register_inserts\<close> prove that they return.
  The search through a directory takes one answer of the environment for each item. The lists of
  the driver are linked by indices, so a loop over one is a partial function, and
  \<open>pool_exclusive\<close> rests on each being a list; its loops over what the chip sends end by the
  length of that.

  \<^bold>\<open>Parameters.\<close> The jsmn parser, wakaama, base64 and the heap are arguments of the
  definitions; what the code relies on is a named predicate (\<open>wakaama_ok\<close>, \<open>list_ok\<close>,
  \<open>base64_ok\<close>) with a concrete instance (\<open>demo_wakaama\<close>, \<open>demo_list\<close>, \<open>demo_base64\<close>) at
  which the theorems are applied. FreeRTOS timers and semaphores follow their documentation.
  The loader gets the outcome of its file calls as an argument. The disk below FatFs is the map
  of its sectors and the accesses that fail.

  \<^bold>\<open>Not modelled.\<close> Of the CC3100 SDK all but the part of its driver named above, vendor start-up code, the Zig application, constant tables
  and pin set-up. Of FatFs, what the configuration leaves out: long names, exFAT, formatting, and
  the functions for attributes, labels and strings. Also not modelled: the printing of TLV data in
  \<open>commandline.c\<close>, the enable sequences of the sensors, and the
  small platform functions of \<open>platform.c\<close> and \<open>board.c\<close>.
\<close>


subsection \<open>From the configuration file to the network\<close>

text \<open>Where the contents of a buffer come from after a load.\<close>

definition from_file :: "jsmn_parser \<Rightarrow> load_env \<Rightarrow> slot \<Rightarrow> string \<Rightarrow> bool" where
  "from_file jsmn env s v \<longleftrightarrow>
     (\<exists>buf. read_data env = Some buf \<and> from_path buf (load_tokens jsmn buf) s v)"

lemma load_from_file:
  assumes "jsmn_ok jsmn" and "config_wf c" and "miso_load_config jsmn env c = Inr (c', ev)"
    and "s \<noteq> Ntp_url"
  shows "c' s = c s \<or> from_file jsmn env s (c' s)"
  using miso_load_config_prov [OF assms(1-3)] assms(4) by (auto simp: from_file_def prov_def)


text \<open>A file \<open>{"lwm2m":{"uri":"h"}}\<close> and its tokens, to apply it at.\<close>

definition uri_file :: string where
  "uri_file = ''{'' @ [CHR 0x22] @ ''lwm2m'' @ [CHR 0x22] @ '':{'' @ [CHR 0x22] @ ''uri''
     @ [CHR 0x22] @ '':'' @ [CHR 0x22] @ ''h'' @ [CHR 0x22] @ ''}}''"

definition uri_tokens :: "jsmntok list" where
  "uri_tokens =
     [\<lparr>tok_type = JSMN_OBJECT, tok_start = 0, tok_end = 21, tok_parent = -1\<rparr>,
      \<lparr>tok_type = JSMN_STRING, tok_start = 2, tok_end = 7, tok_parent = 0\<rparr>,
      \<lparr>tok_type = JSMN_OBJECT, tok_start = 9, tok_end = 20, tok_parent = 1\<rparr>,
      \<lparr>tok_type = JSMN_STRING, tok_start = 11, tok_end = 14, tok_parent = 2\<rparr>,
      \<lparr>tok_type = JSMN_STRING, tok_start = 17, tok_end = 18, tok_parent = 3\<rparr>]"

definition uri_jsmn :: jsmn_parser where
  "uri_jsmn js cap =
     (case cap of
        None \<Rightarrow> (5, [])
      | Some n \<Rightarrow>
          (int (min n 5),
           take n (uri_tokens @ replicate n
             \<lparr>tok_type = JSMN_UNDEFINED, tok_start = -1, tok_end = -1, tok_parent = -1\<rparr>)))"

definition uri_env :: load_env where
  "uri_env = \<lparr>open_ok = True, f_size = 21, read_data = Some uri_file,
     buffer_alloc = True, tokens_alloc = True\<rparr>"

lemma uri_jsmn_ok: "jsmn_ok uri_jsmn"
  by (auto simp: jsmn_ok_def uri_jsmn_def parents_ok_def uri_tokens_def
      dest!: in_set_takeD split: option.splits)

lemma uri_load:
  "miso_load_config uri_jsmn uri_env config_init =
     Inr (config_init(Lwm2m_uri := ''h'' @ replicate 127 NUL),
          [F_open, Malloc_buffer, F_read, Malloc_tokens, F_close, Free_tokens, Free_buffer])"
proof -
  have "(case miso_load_config uri_jsmn uri_env config_init of
           Inl f \<Rightarrow> False
         | Inr (c, ev) \<Rightarrow> (\<forall>s. c s = (config_init(Lwm2m_uri := ''h'' @ replicate 127 NUL)) s)
             \<and> ev = [F_open, Malloc_buffer, F_read, Malloc_tokens, F_close, Free_tokens, Free_buffer])"
    by code_simp
  then show ?thesis by (auto split: sum.splits)
qed




end
